(* ===== verification/Prelude.thy ===== *)
theory Prelude
  imports Main "HOL-Library.Word"
begin

text \<open>
  Shared ground of the development: the machine types of the C sources, the collections of
  rewrite rules the component theories extend, and the generic facts on lists, options and
  natural numbers that several components use.

  The C type \<open>int\<close> is a HOL \<^typ>\<open>int\<close> where the code keeps it in range and a
  32-bit word where it shifts, masks or wraps; \<open>unsigned int\<close> and \<open>Instruction\<close>
  are 32-bit words; \<open>size_t\<close> and pointers are 64-bit words (or natural numbers with the
  wrap-around written out).
\<close>

unbundle bit_operations_syntax

type_synonym lu_byte = "8 word"
type_synonym lu_int32 = "32 word"
type_synonym Instruction = "32 word"
type_synonym addr = "64 word"

text \<open>
  \<open>lua_simps\<close> collects the unfolding rules of small macros; \<open>inv_intros\<close> the
  preservation rules of the invariants.
\<close>

named_theorems lua_simps "equations of the small macros of the C headers"
named_theorems inv_intros "preservation rules of component invariants"

subsection \<open>Error outcomes\<close>

text \<open>
  Every way a modelled C function leaves without returning: a Lua error raised by
  \<open>luaG_runerror\<close>, \<open>luaL_error\<close> or \<open>luaX_syntaxerror\<close> with its message,
  \<open>Diverges\<close> for a C loop that never ends (a model loop that has used up its bound), and
  \<open>MemoryFault\<close> for an access outside an array or block.
\<close>

datatype lua_error = RunError string | SyntaxError string | Diverges | MemoryFault

text \<open>\<open>LUA_QL(x)\<close> of luaconf.h: a word in single quotes inside a message.\<close>

definition LUA_QL :: "string \<Rightarrow> string" where
  "LUA_QL x = CHR 0x27 # x @ [CHR 0x27]"

text \<open>The limit of luaconf.h on nested calls, also of the loader and the parser.\<close>

definition LUAI_MAXCCALLS :: nat where "LUAI_MAXCCALLS = 200"

type_synonym 'a result = "lua_error + 'a"

definition bind_result :: "'a result \<Rightarrow> ('a \<Rightarrow> 'b result) \<Rightarrow> 'b result" where
  "bind_result r f = (case r of Inl e \<Rightarrow> Inl e | Inr x \<Rightarrow> f x)"

lemma bind_result_simps [simp]:
  "bind_result (Inl e) f = Inl e"
  "bind_result (Inr x) f = f x"
  by (simp_all add: bind_result_def)

lemma bind_result_Inr_conv:
  "bind_result r f = Inr y \<longleftrightarrow> (\<exists>x. r = Inr x \<and> f x = Inr y)"
  by (cases r) auto

lemma bind_result_cong [fundef_cong]:
  "r = r' \<Longrightarrow> (\<And>x. r' = Inr x \<Longrightarrow> f x = g x) \<Longrightarrow> bind_result r f = bind_result r' g"
  by (cases r') (auto simp: bind_result_def)

lemma bind_result_assoc:
  "bind_result (bind_result r f) g = bind_result r (\<lambda>x. bind_result (f x) g)"
  by (cases r) auto

definition returns :: "'a result \<Rightarrow> bool" where
  "returns r \<longleftrightarrow> (\<exists>x. r = Inr x)"

lemma returns_simps [simp]: "returns (Inr x)" "\<not> returns (Inl e)"
  by (auto simp: returns_def)

lemma returns_Inr [simp, intro]: "returns (Inr x)" by simp

lemma returns_bindI: "returns r \<Longrightarrow> (\<And>x. r = Inr x \<Longrightarrow> returns (f x)) \<Longrightarrow> returns (bind_result r f)"
  by (cases r) auto

lemma returns_ifI: "(c \<Longrightarrow> returns a) \<Longrightarrow> (\<not> c \<Longrightarrow> returns b) \<Longrightarrow> returns (if c then a else b)"
  by simp

lemma returns_optionI:
  "(x = None \<Longrightarrow> returns a) \<Longrightarrow> (\<And>y. x = Some y \<Longrightarrow> returns (f y)) \<Longrightarrow> returns (case x of None \<Rightarrow> a | Some y \<Rightarrow> f y)"
  by (cases x) auto

lemma returns_prodI: "(\<And>a b. p = (a, b) \<Longrightarrow> returns (f a b)) \<Longrightarrow> returns (case p of (a, b) \<Rightarrow> f a b)"
  by (cases p) auto

lemmas returns_intros = returns_bindI returns_ifI returns_optionI returns_prodI

subsection \<open>Postconditions\<close>

text \<open>
  \<open>post Q r\<close>: the outcome \<open>r\<close> has the property \<open>Q\<close> when it is a result, and an error is
  allowed. The collection \<open>vcg\<close> holds one rule for each operation, of the form
  \<open>pre \<Longrightarrow> (results \<Longrightarrow> Q) \<Longrightarrow> post Q (operation ...)\<close>, so that the proof of a composed operation
  follows the order of its calls.
\<close>

named_theorems vcg "postconditions of the operations"

definition post :: "('a \<Rightarrow> bool) \<Rightarrow> 'a result \<Rightarrow> bool" where
  "post Q r \<longleftrightarrow> (case r of Inl e \<Rightarrow> True | Inr x \<Rightarrow> Q x)"

lemma post_simps [simp]: "post Q (Inl e)" "post Q (Inr x) \<longleftrightarrow> Q x"
  by (simp_all add: post_def)

lemma post_bind [simp]: "post Q (bind_result r f) \<longleftrightarrow> post (\<lambda>x. post Q (f x)) r"
  by (cases r) simp_all

lemma post_if [simp]: "post Q (if c then a else b) \<longleftrightarrow> (c \<longrightarrow> post Q a) \<and> (\<not> c \<longrightarrow> post Q b)"
  by simp

lemma post_mono: "post P r \<Longrightarrow> (\<And>x. P x \<Longrightarrow> Q x) \<Longrightarrow> post Q r"
  by (cases r) simp_all

lemma postD: "post Q r \<Longrightarrow> r = Inr x \<Longrightarrow> Q x"
  by simp

lemma post_True [simp, intro]: "post (\<lambda>x. True) r"
  by (cases r) simp_all

lemma post_map_sum [simp]: "post Q (map_sum id f r) \<longleftrightarrow> post (\<lambda>x. Q (f x)) r"
  by (cases r) simp_all

subsection \<open>Words\<close>

lemma unat_drop_bit_div: "unat (drop_bit n w) = unat w div 2 ^ n" for w :: "'a::len word"
  unfolding unat_drop_bit_eq by (rule drop_bit_eq_div)

lemma len_words: "LENGTH(8) = 8" "LENGTH(32) = 32" "LENGTH(64) = 64"
  by simp_all

lemma unat_less_8: "unat (x :: 8 word) < 2 ^ 8"
  using unsigned_less [where 'a = nat, of x] by (simp only: len_words)

lemma unat_less_32: "unat (x :: 32 word) < 2 ^ 32"
  using unsigned_less [where 'a = nat, of x] by (simp only: len_words)

lemma unat_less_64: "unat (x :: 64 word) < 2 ^ 64"
  using unsigned_less [where 'a = nat, of x] by (simp only: len_words)

lemma unat_of_nat_small: "n < 2 ^ LENGTH('a) \<Longrightarrow> unat (word_of_nat n :: 'a::len word) = n"
  by (simp only: unat_of_nat mod_less)

lemma unat_push_bit_small:
  fixes w :: "'a::len word"
  assumes "unat w * 2 ^ n < 2 ^ LENGTH('a)"
  shows "unat (push_bit n w) = unat w * 2 ^ n"
proof -
  have "unat (push_bit n w) = take_bit LENGTH('a) (push_bit n (unat w))"
    by (rule unsigned_push_bit_eq)
  also have "\<dots> = (unat w * 2 ^ n) mod 2 ^ LENGTH('a)"
    by (simp only: take_bit_eq_mod push_bit_eq_mult)
  finally show ?thesis using assms by simp
qed

subsection \<open>Logarithms of natural numbers\<close>

fun floor_log2 :: "nat \<Rightarrow> nat" where
  "floor_log2 n = (if n < 2 then 0 else Suc (floor_log2 (n div 2)))"

declare floor_log2.simps [simp del]

lemma floor_log2_bounds:
  "0 < n \<Longrightarrow> 2 ^ floor_log2 n \<le> n \<and> n < 2 ^ Suc (floor_log2 n)"
proof (induction n rule: floor_log2.induct)
  case (1 n)
  show ?case
  proof (cases "n < 2")
    case True
    with 1 show ?thesis by (simp add: floor_log2.simps [of n])
  next
    case False
    then have "2 ^ floor_log2 (n div 2) \<le> n div 2 \<and> n div 2 < 2 ^ Suc (floor_log2 (n div 2))"
      using 1 by simp
    with False show ?thesis by (subst (1 2) floor_log2.simps) auto
  qed
qed

lemma power2_interval_unique:
  fixes n a b :: nat
  assumes "2 ^ a \<le> n" "n < 2 ^ Suc a" "2 ^ b \<le> n" "n < 2 ^ Suc b"
  shows "a = b"
proof (rule ccontr)
  assume "a \<noteq> b"
  then consider "Suc a \<le> b" | "Suc b \<le> a" by linarith
  then show False
  proof cases
    case 1
    then have "(2::nat) ^ Suc a \<le> 2 ^ b" by (intro power_increasing) auto
    with assms show False by linarith
  next
    case 2
    then have "(2::nat) ^ Suc b \<le> 2 ^ a" by (intro power_increasing) auto
    with assms show False by linarith
  qed
qed

lemma floor_log2_unique: "2 ^ k \<le> n \<Longrightarrow> n < 2 ^ Suc k \<Longrightarrow> floor_log2 n = k"
  using power2_interval_unique [of "floor_log2 n" n k] floor_log2_bounds [of n]
  by (cases "n = 0") auto

lemma floor_log2_less: "0 < n \<Longrightarrow> n < 2 ^ k \<Longrightarrow> floor_log2 n < k"
  using floor_log2_bounds [of n] power_less_imp_less_exp [of "2::nat" "floor_log2 n" k]
  by linarith

subsection \<open>Searching lists\<close>

lemma find_append: "find P (xs @ ys) = (case find P xs of None \<Rightarrow> find P ys | Some x \<Rightarrow> Some x)"
  by (induction xs) auto

lemma find_map: "find P (map f xs) = map_option f (find (P \<circ> f) xs)"
  by (induction xs) auto

lemma find_cong_set: "(\<And>x. x \<in> set xs \<Longrightarrow> P x = Q x) \<Longrightarrow> find P xs = find Q xs"
  by (induction xs) auto

lemma map_shift_upt: "map (\<lambda>j. j + s) [a..<b] = [a + s..<b + s]"
  by (induction b) auto

lemma find_filter_hd: "find P xs = (case filter P xs of [] \<Rightarrow> None | y # ys \<Rightarrow> Some y)"
  by (induction xs) auto

lemma filter_after:
  assumes "j < length (filter P [0..<n])"
  shows "filter P [Suc (filter P [0..<n] ! j)..<n] = drop (Suc j) (filter P [0..<n])"
proof -
  let ?f = "filter P [0..<n]"
  define x where "x = ?f ! j"
  have "x \<in> set ?f" unfolding x_def by (rule nth_mem [OF assms])
  then have x: "P x" "x < n" by auto
  have "[0..<n] = [0..<x] @ x # [Suc x..<n]"
    using x(2) upt_add_eq_append [of 0 x "n - x"] by (simp add: upt_conv_Cons)
  then have f: "?f = filter P [0..<x] @ x # filter P [Suc x..<n]" using x(1) by simp
  have "distinct ?f" by simp
  moreover have "?f ! length (filter P [0..<x]) = x" "length (filter P [0..<x]) < length ?f" unfolding f by simp_all
  ultimately have "j = length (filter P [0..<x])"
    using nth_eq_iff_index_eq [of ?f j "length (filter P [0..<x])"] assms unfolding x_def by simp
  then show ?thesis unfolding x_def [symmetric] f by simp
qed

lemma pow2_half_mono: "i < l \<Longrightarrow> (2::nat) ^ i \<le> 2 ^ l div 2"
proof -
  assume "i < l"
  then obtain l' where "l = Suc l'" "i \<le> l'" by (cases l) auto
  then show ?thesis by (simp add: power_increasing)
qed


subsection \<open>Runs of fallible steps\<close>

fun fold_result :: "('a \<Rightarrow> 's \<Rightarrow> 's result) \<Rightarrow> 'a list \<Rightarrow> 's \<Rightarrow> 's result" where
  "fold_result f [] s = Inr s"
| "fold_result f (x # xs) s = bind_result (f x s) (fold_result f xs)"

end
