(* ===== verification/Lnumber.thy ===== *)
theory Lnumber
  imports Prelude
begin

text \<open>
  \<open>lua_Number\<close> (luaconf.h: \<open>double\<close>) as the 64 bits of an IEEE 754 binary64 value:
  the comparisons \<open>luai_numeq\<close>, \<open>luai_numlt\<close>, \<open>luai_numle\<close>, the NaN test
  \<open>luai_numisnan\<close>, and the conversions \<open>lua_number2int\<close> and \<open>cast_num\<close>
  between \<open>double\<close> and 32-bit \<open>int\<close>. Bits are kept because \<open>hashnum\<close> of
  ltable.c hashes the bit pattern and ldump.c writes it out. The C cast of a value outside
  the range of \<open>int\<close> is undefined; the model uses the value of the SSE2 conversion
  instruction, \<open>INT_MIN\<close>, and \<open>cast_num_number2int_iff\<close> shows that the test
  \<open>luai_numeq(cast_num(k), n)\<close> the sources make after each conversion does not depend on
  that choice.
\<close>

type_synonym lua_Number = "64 word"

subsection \<open>Fields of a binary64\<close>

definition dbl_sign :: "lua_Number \<Rightarrow> bool" where
  "dbl_sign n \<longleftrightarrow> unat n div 2 ^ 52 div 2 ^ 11 = 1"

definition dbl_exp :: "lua_Number \<Rightarrow> nat" where
  "dbl_exp n = unat n div 2 ^ 52 mod 2 ^ 11"

definition dbl_frac :: "lua_Number \<Rightarrow> nat" where
  "dbl_frac n = unat n mod 2 ^ 52"

definition mk_dbl :: "bool \<Rightarrow> nat \<Rightarrow> nat \<Rightarrow> lua_Number" where
  "mk_dbl s e f = word_of_nat ((of_bool s * 2 ^ 11 + e) * 2 ^ 52 + f)"

lemma unat_mk_dbl:
  assumes "e < 2 ^ 11" "f < 2 ^ 52"
  shows "unat (mk_dbl s e f) = (of_bool s * 2 ^ 11 + e) * 2 ^ 52 + f"
proof -
  have "of_bool s * 2 ^ 11 + e \<le> 2 ^ 12 - (1::nat)" using assms(1) by (cases s) auto
  then have "(of_bool s * 2 ^ 11 + e) * 2 ^ 52 \<le> (2 ^ 12 - 1) * (2::nat) ^ 52"
    by (rule mult_right_mono) simp
  then have "(of_bool s * 2 ^ 11 + e) * 2 ^ 52 + f < (2::nat) ^ 64" using assms(2) by simp
  then show ?thesis unfolding mk_dbl_def by (intro unat_of_nat_small) (simp only: len_words)
qed

lemma divmod_pair: "(f::nat) < m \<Longrightarrow> (a * m + f) div m = a \<and> (a * m + f) mod m = f"
  by auto

lemma dbl_fields_mk_dbl [simp]:
  assumes "e < 2 ^ 11" "f < 2 ^ 52"
  shows "dbl_sign (mk_dbl s e f) = s" "dbl_exp (mk_dbl s e f) = e" "dbl_frac (mk_dbl s e f) = f"
  unfolding dbl_sign_def dbl_exp_def dbl_frac_def unat_mk_dbl [OF assms]
    divmod_pair [OF assms(2), THEN conjunct1] divmod_pair [OF assms(2), THEN conjunct2]
    divmod_pair [OF assms(1), THEN conjunct1] divmod_pair [OF assms(1), THEN conjunct2]
  by simp_all

lemma mk_dbl_fields: "mk_dbl (dbl_sign n) (dbl_exp n) (dbl_frac n) = n"
proof -
  define h where "h = unat n div 2 ^ 52"
  have "unat n < 2 ^ 64" by (rule unat_less_64)
  then have "h < 2 ^ 12" by (simp add: h_def less_mult_imp_div_less)
  then have "h div 2 ^ 11 < 2" by (simp add: less_mult_imp_div_less)
  then have "of_bool (h div 2 ^ 11 = 1) = h div 2 ^ 11" by (auto simp: less_2_cases_iff)
  then have "of_bool (dbl_sign n) * 2 ^ 11 + dbl_exp n = h"
    unfolding dbl_sign_def dbl_exp_def h_def [symmetric] by (metis div_mult_mod_eq)
  then have "(of_bool (dbl_sign n) * 2 ^ 11 + dbl_exp n) * 2 ^ 52 + dbl_frac n = unat n"
    unfolding dbl_frac_def by (simp only: h_def div_mult_mod_eq)
  then show ?thesis by (simp add: mk_dbl_def)
qed

lemma dbl_fields_bounds: "dbl_exp n < 2 ^ 11" "dbl_frac n < 2 ^ 52"
  by (auto simp: dbl_exp_def dbl_frac_def)

lemma dbl_eqI:
  "dbl_sign a = dbl_sign b \<Longrightarrow> dbl_exp a = dbl_exp b \<Longrightarrow> dbl_frac a = dbl_frac b \<Longrightarrow> a = b"
  using mk_dbl_fields [of a, symmetric] by (simp only: mk_dbl_fields)

subsection \<open>Comparisons\<close>

definition dbl_isnan :: "lua_Number \<Rightarrow> bool" where
  "dbl_isnan n \<longleftrightarrow> dbl_exp n = 2047 \<and> dbl_frac n \<noteq> 0"

definition dbl_iszero :: "lua_Number \<Rightarrow> bool" where
  "dbl_iszero n \<longleftrightarrow> dbl_exp n = 0 \<and> dbl_frac n = 0"

text \<open>Sign and magnitude order the finite and infinite values as the reals they stand for.\<close>

definition dbl_ord :: "lua_Number \<Rightarrow> int" where
  "dbl_ord n = (let m = int (dbl_exp n * 2 ^ 52 + dbl_frac n) in if dbl_sign n then - m else m)"

definition luai_numeq :: "lua_Number \<Rightarrow> lua_Number \<Rightarrow> bool" where
  "luai_numeq a b \<longleftrightarrow> \<not> dbl_isnan a \<and> \<not> dbl_isnan b \<and> (a = b \<or> dbl_iszero a \<and> dbl_iszero b)"

definition luai_numlt :: "lua_Number \<Rightarrow> lua_Number \<Rightarrow> bool" where
  "luai_numlt a b \<longleftrightarrow> \<not> dbl_isnan a \<and> \<not> dbl_isnan b \<and> dbl_ord a < dbl_ord b"

definition luai_numle :: "lua_Number \<Rightarrow> lua_Number \<Rightarrow> bool" where
  "luai_numle a b \<longleftrightarrow> \<not> dbl_isnan a \<and> \<not> dbl_isnan b \<and> dbl_ord a \<le> dbl_ord b"

definition luai_numisnan :: "lua_Number \<Rightarrow> bool" where
  "luai_numisnan a \<longleftrightarrow> \<not> luai_numeq a a"

lemma luai_numisnan_iff [simp]: "luai_numisnan a = dbl_isnan a"
  by (auto simp: luai_numisnan_def luai_numeq_def)

lemma luai_numeq_sym: "luai_numeq a b = luai_numeq b a"
  by (auto simp: luai_numeq_def)

lemma luai_numeq_trans: "luai_numeq a b \<Longrightarrow> luai_numeq b c \<Longrightarrow> luai_numeq a c"
  by (auto simp: luai_numeq_def)

lemma luai_numeq_refl_iff [simp]: "luai_numeq a a \<longleftrightarrow> \<not> dbl_isnan a"
  by (auto simp: luai_numeq_def)

lemma dbl_ord_inj:
  assumes "dbl_ord a = dbl_ord b"
  shows "a = b \<or> dbl_iszero a \<and> dbl_iszero b"
proof -
  let ?m = "\<lambda>n. dbl_exp n * 2 ^ 52 + dbl_frac n"
  have mag: "?m a = ?m b"
    using assms by (auto simp: dbl_ord_def Let_def split: if_splits)
  then have "?m a div 2 ^ 52 = ?m b div 2 ^ 52" "?m a mod 2 ^ 52 = ?m b mod 2 ^ 52" by simp_all
  then have e: "dbl_exp a = dbl_exp b" and f: "dbl_frac a = dbl_frac b"
    using dbl_fields_bounds(2) [of a] dbl_fields_bounds(2) [of b] by simp_all
  show ?thesis
  proof (cases "dbl_sign a = dbl_sign b")
    case True
    with e f show ?thesis by (blast intro: dbl_eqI)
  next
    case False
    with assms mag have "?m a = 0" by (auto simp: dbl_ord_def Let_def split: if_splits)
    with e f show ?thesis by (simp add: dbl_iszero_def)
  qed
qed

lemma luai_numeq_ord:
  "luai_numeq a b \<longleftrightarrow> \<not> dbl_isnan a \<and> \<not> dbl_isnan b \<and> dbl_ord a = dbl_ord b"
  using dbl_ord_inj [of a b]
  by (auto simp: luai_numeq_def) (auto simp: dbl_ord_def dbl_iszero_def)

lemma luai_numle_iff: "luai_numle a b \<longleftrightarrow> luai_numlt a b \<or> luai_numeq a b"
  by (auto simp: luai_numle_def luai_numlt_def luai_numeq_ord)

subsection \<open>Conversions between double and int\<close>

text \<open>The integer part of the magnitude of a finite value (C truncates towards zero).\<close>

definition dbl_trunc_mag :: "lua_Number \<Rightarrow> nat" where
  "dbl_trunc_mag n =
     (let m = dbl_frac n + (if dbl_exp n = 0 then 0 else 2 ^ 52);
          e = max 1 (dbl_exp n)
      in if 1075 \<le> e then m * 2 ^ (e - 1075) else m div 2 ^ (1075 - e))"

definition INT_MIN :: int where "INT_MIN = - (2 ^ 31)"
definition INT_MAX :: int where "INT_MAX = 2 ^ 31 - 1"

abbreviation int_range :: "int \<Rightarrow> bool" where
  "int_range k \<equiv> INT_MIN \<le> k \<and> k \<le> INT_MAX"

definition lua_number2int :: "lua_Number \<Rightarrow> int" where
  "lua_number2int n =
     (if dbl_exp n = 2047 then INT_MIN
      else let k = (if dbl_sign n then - int (dbl_trunc_mag n) else int (dbl_trunc_mag n))
           in if int_range k then k else INT_MIN)"

definition cast_num :: "int \<Rightarrow> lua_Number" where
  "cast_num k =
     (if k = 0 then 0
      else let m = nat \<bar>k\<bar>; l = floor_log2 m
           in mk_dbl (k < 0) (1023 + l) ((m - 2 ^ l) * 2 ^ (52 - l)))"

lemma int_range_abs: "int_range k \<Longrightarrow> nat \<bar>k\<bar> < 2 ^ 32"
  by (auto simp: INT_MIN_def INT_MAX_def)

lemma cast_num_fields:
  assumes "k \<noteq> 0" "int_range k" "m = nat \<bar>k\<bar>" "l = floor_log2 m"
  shows "dbl_sign (cast_num k) = (k < 0)" "dbl_exp (cast_num k) = 1023 + l"
    "dbl_frac (cast_num k) = (m - 2 ^ l) * 2 ^ (52 - l)" "l < 32"
    "(m - 2 ^ l) * 2 ^ (52 - l) < 2 ^ 52"
proof -
  have m: "0 < m" "m < 2 ^ 32"
    using assms(1) int_range_abs [OF assms(2)] by (simp_all add: assms(3))
  then have l: "2 ^ l \<le> m" "m < 2 ^ Suc l" using floor_log2_bounds [of m] by (simp_all add: assms(4))
  show l32: "l < 32" using floor_log2_less [OF m] by (simp add: assms(4))
  have "m - 2 ^ l < 2 ^ l" using l by simp
  then have "(m - 2 ^ l) * 2 ^ (52 - l) < 2 ^ l * 2 ^ (52 - l)" by simp
  also have "\<dots> = 2 ^ 52" using l32 by (simp flip: power_add)
  finally show f: "(m - 2 ^ l) * 2 ^ (52 - l) < 2 ^ 52" .
  have eq: "cast_num k = mk_dbl (k < 0) (1023 + l) ((m - 2 ^ l) * 2 ^ (52 - l))"
    using assms(1) by (simp add: cast_num_def Let_def flip: assms(3,4))
  have e: "1023 + l < 2 ^ 11" using l32 by simp
  show "dbl_sign (cast_num k) = (k < 0)" "dbl_exp (cast_num k) = 1023 + l"
    "dbl_frac (cast_num k) = (m - 2 ^ l) * 2 ^ (52 - l)"
    unfolding eq using dbl_fields_mk_dbl [OF e f] by simp_all
qed

lemma dbl_zero_fields [simp]: "dbl_exp 0 = 0" "dbl_frac 0 = 0" "\<not> dbl_sign 0"
  by (simp_all add: dbl_exp_def dbl_frac_def dbl_sign_def)

lemma cast_num_0 [simp]: "cast_num 0 = 0"
  by (simp add: cast_num_def)

lemma trunc_mag_cast_num:
  assumes "int_range k"
  shows "dbl_trunc_mag (cast_num k) = nat \<bar>k\<bar>"
proof (cases "k = 0")
  case True
  then show ?thesis by (simp add: dbl_trunc_mag_def)
next
  case False
  define m where "m = nat \<bar>k\<bar>"
  define l where "l = floor_log2 m"
  note f = cast_num_fields [OF False assms m_def l_def]
  have m: "2 ^ l \<le> m" using floor_log2_bounds [of m] False by (simp add: m_def l_def)
  have "(2::nat) ^ 52 = 2 ^ l * 2 ^ (52 - l)" using f(4) by (simp flip: power_add)
  then have "(m - 2 ^ l) * 2 ^ (52 - l) + 2 ^ 52 = m * 2 ^ (52 - l)"
    using m by (metis add_mult_distrib le_add_diff_inverse2)
  moreover have "1075 - (1023 + l) = 52 - l" "\<not> 1075 \<le> 1023 + l" using f(4) by simp_all
  ultimately show ?thesis
    unfolding dbl_trunc_mag_def f(2,3) Let_def by (simp add: max_def m_def)
qed

lemma cast_num_exp:
  assumes "k \<noteq> 0" "int_range k"
  shows "dbl_exp (cast_num k) \<noteq> 2047" "dbl_exp (cast_num k) \<noteq> 0"
    "dbl_sign (cast_num k) = (k < 0)"
  using cast_num_fields(1,2,4) [OF assms refl refl] by linarith+

lemma number2int_cast_num [simp]: "int_range k \<Longrightarrow> lua_number2int (cast_num k) = k"
  using cast_num_exp [of k] trunc_mag_cast_num [of k]
  by (cases "k = 0") (auto simp: lua_number2int_def Let_def)

lemma cast_num_not_nan [simp]: "int_range k \<Longrightarrow> \<not> dbl_isnan (cast_num k)"
  using cast_num_exp [of k] by (cases "k = 0") (auto simp: dbl_isnan_def)

lemma cast_num_zero_iff: "int_range k \<Longrightarrow> dbl_iszero (cast_num k) \<longleftrightarrow> k = 0"
  using cast_num_exp [of k] by (cases "k = 0") (auto simp: dbl_iszero_def)

lemma cast_num_inj:
  "int_range i \<Longrightarrow> int_range j \<Longrightarrow> luai_numeq (cast_num i) (cast_num j) \<longleftrightarrow> i = j"
  by (metis luai_numeq_def cast_num_not_nan cast_num_zero_iff number2int_cast_num)

lemma number2int_range: "int_range (lua_number2int n)"
  by (auto simp: lua_number2int_def Let_def INT_MIN_def INT_MAX_def)

text \<open>
  Numerically equal numbers convert to the same integer, and the conversion back equals the
  number exactly when the number is the value of some \<open>int\<close>.
\<close>

lemma number2int_numeq: "luai_numeq a b \<Longrightarrow> lua_number2int a = lua_number2int b"
  by (auto simp: luai_numeq_def dbl_iszero_def lua_number2int_def dbl_trunc_mag_def)

lemma cast_num_number2int_iff:
  "luai_numeq (cast_num (lua_number2int n)) n \<longleftrightarrow> (\<exists>k. int_range k \<and> luai_numeq (cast_num k) n)"
  by (metis number2int_cast_num number2int_numeq number2int_range)

lemma number2int_unique:
  "int_range k \<Longrightarrow> luai_numeq (cast_num k) n \<Longrightarrow> lua_number2int n = k"
  using number2int_numeq by force

end
