(* ===== verification/Lobject.thy ===== *)
theory Lobject
  imports Lnumber
begin

text \<open>
  lobject.h and lobject.c: tagged values, raw equality, floating-point bytes, integer
  logarithms and chunk names.

  Strings are interned (lstring.c; see theory Lstring), so that two string values are the
  same object exactly when their contents are equal: a string value is modelled by its
  contents. Every other collectable object is a pointer.
\<close>

subsection \<open>Tagged values\<close>

type_synonym TString = string

datatype TValue =
    TNil
  | TBoolean bool
  | TLightUserdata addr
  | TNumber lua_Number
  | TStr TString
  | TTable addr
  | TFunction addr
  | TUserdata addr
  | TThread addr

text \<open>The pointer stored in a collectable value.\<close>

datatype GCObject = GCString TString | GCAddr addr

fun ttype :: "TValue \<Rightarrow> nat" where
  "ttype TNil = 0"
| "ttype (TBoolean _) = 1"
| "ttype (TLightUserdata _) = 2"
| "ttype (TNumber _) = 3"
| "ttype (TStr _) = 4"
| "ttype (TTable _) = 5"
| "ttype (TFunction _) = 6"
| "ttype (TUserdata _) = 7"
| "ttype (TThread _) = 8"

definition iscollectable :: "TValue \<Rightarrow> bool" where
  "iscollectable v \<longleftrightarrow> 4 \<le> ttype v"

fun gcvalue :: "TValue \<Rightarrow> GCObject option" where
  "gcvalue (TStr s) = Some (GCString s)"
| "gcvalue (TTable p) = Some (GCAddr p)"
| "gcvalue (TFunction p) = Some (GCAddr p)"
| "gcvalue (TUserdata p) = Some (GCAddr p)"
| "gcvalue (TThread p) = Some (GCAddr p)"
| "gcvalue _ = None"

definition l_isfalse :: "TValue \<Rightarrow> bool" where
  "l_isfalse v \<longleftrightarrow> v = TNil \<or> v = TBoolean False"

fun luaO_rawequalObj :: "TValue \<Rightarrow> TValue \<Rightarrow> bool" where
  "luaO_rawequalObj TNil TNil = True"
| "luaO_rawequalObj (TNumber a) (TNumber b) = luai_numeq a b"
| "luaO_rawequalObj (TBoolean a) (TBoolean b) = (a = b)"
| "luaO_rawequalObj (TLightUserdata p) (TLightUserdata q) = (p = q)"
| "luaO_rawequalObj a b = (ttype a = ttype b \<and> gcvalue a = gcvalue b)"

lemma iscollectable_iff: "iscollectable v \<longleftrightarrow> gcvalue v \<noteq> None"
  by (cases v) (auto simp: iscollectable_def)

text \<open>Raw equality is equality of values, except on numbers.\<close>

lemma rawequalObj_cases:
  "luaO_rawequalObj a b \<longleftrightarrow>
     (\<exists>m n. a = TNumber m \<and> b = TNumber n \<and> luai_numeq m n) \<or>
     (a = b \<and> (\<forall>n. a \<noteq> TNumber n))"
  by (cases a; cases b) auto

lemma rawequalObj_sym: "luaO_rawequalObj a b = luaO_rawequalObj b a"
  by (auto simp: rawequalObj_cases luai_numeq_sym)

lemma rawequalObj_trans:
  "luaO_rawequalObj a b \<Longrightarrow> luaO_rawequalObj b c \<Longrightarrow> luaO_rawequalObj a c"
  by (auto simp: rawequalObj_cases dest: luai_numeq_trans)

lemma rawequalObj_refl_iff:
  "luaO_rawequalObj a a \<longleftrightarrow> (\<forall>n. a = TNumber n \<longrightarrow> \<not> dbl_isnan n)"
  by (auto simp: rawequalObj_cases)

subsection \<open>Floating-point bytes\<close>

lemma unat_half_succ:
  fixes x :: "32 word"
  assumes "unat x + 1 < 2 ^ 32"
  shows "unat (drop_bit 1 (x + 1)) = (unat x + 1) div 2"
proof -
  have "unat (x + 1) = unat x + 1" using assms by (simp add: unat_word_ariths)
  then show ?thesis by (simp only: unat_drop_bit_div power_one_right)
qed

lemma half_succ_less:
  fixes x :: "32 word"
  assumes "16 \<le> x"
  shows "unat (drop_bit 1 (x + 1)) < unat x"
proof (cases "unat x + 1 < 2 ^ 32")
  case True
  moreover have "16 \<le> unat x" using assms by (simp add: word_le_nat_alt)
  ultimately show ?thesis by (simp add: unat_half_succ del: One_nat_def)
next
  case False
  then have "unat x = 2 ^ 32 - 1" using unat_less_32 [of x] by simp
  then have "x = - 1" by (simp add: word_unat_eq_iff unsigned_minus_1_eq_mask mask_eq_exp_minus_1)
  then have "x + 1 = 0" by simp
  then show ?thesis using \<open>unat x = 2 ^ 32 - 1\<close> by simp
qed

function luaO_int2fb_loop :: "32 word \<Rightarrow> nat \<Rightarrow> 32 word \<times> nat" where
  "luaO_int2fb_loop x e =
     (if 16 \<le> x then luaO_int2fb_loop (drop_bit 1 (x + 1)) (e + 1) else (x, e))"
  by pat_completeness auto
termination
  by (relation "measure (\<lambda>(x, e). unat x)") (auto simp: half_succ_less [simplified])

declare luaO_int2fb_loop.simps [simp del]

definition luaO_int2fb :: "32 word \<Rightarrow> 32 word" where
  "luaO_int2fb x =
     (let (x, e) = luaO_int2fb_loop x 0
      in if x < 8 then x else (push_bit 3 (word_of_nat (e + 1))) OR (x - 8))"

definition luaO_fb2int :: "32 word \<Rightarrow> 32 word" where
  "luaO_fb2int x =
     (let e = unat (signed_drop_bit 3 x AND 31)
      in if e = 0 then x else push_bit (e - 1) ((x AND 7) + 8))"

subsection \<open>Integer logarithm\<close>

definition log_2 :: "nat list" where
  "log_2 = [0, 1] @ replicate 2 2 @ replicate 4 3 @ replicate 8 4 @ replicate 16 5 @
     replicate 32 6 @ replicate 64 7 @ replicate 128 8"

function luaO_log2_loop :: "32 word \<Rightarrow> int \<Rightarrow> int" where
  "luaO_log2_loop x l =
     (if 256 \<le> x then luaO_log2_loop (drop_bit 8 x) (l + 8) else l + int (log_2 ! unat x))"
  by pat_completeness auto
termination
proof (relation "measure (\<lambda>(x, l). unat x)")
  fix x :: "32 word" and l :: int
  assume "256 \<le> x"
  then have "256 \<le> unat x" by (simp add: word_le_nat_alt)
  then show "((drop_bit 8 x, l + 8), x, l) \<in> measure (\<lambda>(x, l). unat x)"
    by (simp add: unat_drop_bit_div del: drop_bit_numeral_minus_bit0)
qed simp

declare luaO_log2_loop.simps [simp del]

definition luaO_log2 :: "32 word \<Rightarrow> int" where
  "luaO_log2 x = luaO_log2_loop x (- 1)"

definition ceillog2 :: "32 word \<Rightarrow> int" where
  "ceillog2 x = luaO_log2 (x - 1) + 1"

lemma log_2_nth: "0 < n \<Longrightarrow> n < 256 \<Longrightarrow> log_2 ! n = Suc (floor_log2 n)"
proof -
  have "\<forall>n \<in> set [1..<256]. log_2 ! n = Suc (floor_log2 n)"
    by code_simp
  then show "0 < n \<Longrightarrow> n < 256 \<Longrightarrow> log_2 ! n = Suc (floor_log2 n)" by simp
qed

lemma floor_log2_div_256: "256 \<le> n \<Longrightarrow> floor_log2 n = floor_log2 (n div 256) + 8"
proof -
  assume n: "256 \<le> n"
  define k where "k = floor_log2 (n div 256)"
  have "0 < n div 256" using n by (simp add: div_greater_zero_iff)
  then have "2 ^ k \<le> n div 256 \<and> n div 256 < 2 ^ Suc k"
    unfolding k_def by (rule floor_log2_bounds)
  then have "2 ^ k * 256 \<le> n \<and> n < 2 ^ Suc k * 256"
    by (metis div_less_iff_less_mult less_eq_div_iff_mult_less_eq zero_less_numeral)
  then have "floor_log2 n = k + 8"
    by (intro floor_log2_unique) (simp_all add: power_add)
  then show ?thesis by (simp add: k_def)
qed

lemma luaO_log2_loop_eq:
  "x \<noteq> 0 \<Longrightarrow> luaO_log2_loop x l = l + 1 + int (floor_log2 (unat x))"
proof (induction x l rule: luaO_log2_loop.induct)
  case (1 x l)
  show ?case
  proof (cases "256 \<le> x")
    case True
    then have x: "256 \<le> unat x" by (simp add: word_le_nat_alt)
    have d: "unat (drop_bit 8 x) = unat x div 256"
      by (simp add: unat_drop_bit_div)
    have "0 < unat x div 256" using x by (simp add: div_greater_zero_iff)
    then have "drop_bit 8 x \<noteq> 0" using d by (metis less_irrefl unat_0)
    with 1 True show ?thesis
      by (subst luaO_log2_loop.simps) (simp add: d floor_log2_div_256 [OF x])
  next
    case False
    then have "unat x < 256" by (simp add: word_le_nat_alt)
    moreover have "0 < unat x" using 1 by (simp add: unat_gt_0)
    ultimately show ?thesis using False
      by (subst luaO_log2_loop.simps) (simp add: log_2_nth)
  qed
qed

lemma luaO_log2_eq: "x \<noteq> 0 \<Longrightarrow> luaO_log2 x = int (floor_log2 (unat x))"
  by (simp add: luaO_log2_def luaO_log2_loop_eq)

lemma luaO_log2_0: "luaO_log2 0 = - 1"
  by (simp add: luaO_log2_def luaO_log2_loop.simps log_2_def)

lemma luaO_int2fb_loop_bounds:
  "unat x + 1 < 2 ^ 32 \<Longrightarrow> luaO_int2fb_loop x e = (y, e') \<Longrightarrow>
   \<exists>d. e' = e + d \<and> unat y < 16 \<and> unat x \<le> unat y * 2 ^ d \<and> unat y * 2 ^ d < unat x + 2 ^ d \<and>
       (0 < d \<longrightarrow> 8 \<le> unat y \<and> 15 * 2 ^ d + 2 \<le> 2 * unat x)"
proof (induction x e arbitrary: y e' rule: luaO_int2fb_loop.induct)
  case (1 x e)
  show ?case
  proof (cases "16 \<le> x")
    case False
    then have "y = x \<and> e' = e" using 1(3) by (simp add: luaO_int2fb_loop.simps [of x e])
    moreover have "unat x < 16" using False by (simp add: word_le_nat_alt)
    ultimately show ?thesis by (intro exI [of _ 0]) simp
  next
    case True
    define x1 where "x1 = drop_bit 1 (x + 1)"
    have x: "16 \<le> unat x" using True by (simp add: word_le_nat_alt)
    have x1: "unat x1 = (unat x + 1) div 2"
      unfolding x1_def using 1(2) by (rule unat_half_succ)
    have "luaO_int2fb_loop x1 (e + 1) = (y, e')"
      using 1(3) True by (simp add: luaO_int2fb_loop.simps [of x e] x1_def)
    moreover have "unat x1 + 1 < 2 ^ 32" using x1 1(2) by simp
    ultimately obtain d where d: "e' = e + 1 + d" "unat y < 16" "unat x1 \<le> unat y * 2 ^ d"
      "unat y * 2 ^ d < unat x1 + 2 ^ d" "0 < d \<longrightarrow> 8 \<le> unat y \<and> 15 * 2 ^ d + 2 \<le> 2 * unat x1"
      using "1.IH" [OF True, folded x1_def] by blast
    have "d = 0 \<longrightarrow> 8 \<le> unat y" using d(3) x1 x by auto
    then have "8 \<le> unat y" using d(5) by auto
    moreover have "15 * 2 ^ Suc d + 2 \<le> 2 * unat x" using d(5) x1 x by (cases "d = 0") auto
    moreover have "unat x \<le> unat y * 2 ^ Suc d" using d(3) x1 by simp
    moreover have "unat y * 2 ^ Suc d < unat x + 2 ^ Suc d" using d(4) x1 by simp
    ultimately show ?thesis using d(1,2) by (intro exI [of _ "Suc d"]) simp
  qed
qed

lemma luaO_fb2int_encoded:
  "e < 30 \<Longrightarrow> 8 \<le> y \<Longrightarrow> y < 16 \<Longrightarrow>
   luaO_fb2int (push_bit 3 (word_of_nat (e + 1)) OR (word_of_nat y - 8)) = push_bit e (word_of_nat y) \<and>
   push_bit 3 (word_of_nat (e + 1)) OR (word_of_nat y - 8) < (256 :: 32 word)"
proof -
  have "\<forall>e \<in> set [0..<30]. \<forall>y \<in> set [8..<16].
    luaO_fb2int (push_bit 3 (word_of_nat (e + 1)) OR (word_of_nat y - 8)) = push_bit e (word_of_nat y) \<and>
    push_bit 3 (word_of_nat (e + 1)) OR (word_of_nat y - 8) < (256 :: 32 word)"
    by code_simp
  moreover assume "e < 30" "8 \<le> y" "y < 16"
  then have "e \<in> set [0..<30]" "y \<in> set [8..<16]" by (simp_all only: set_upt atLeastLessThan_iff le0 simp_thms)
  ultimately show ?thesis by blast
qed

lemma luaO_fb2int_small: "x < 8 \<Longrightarrow> luaO_fb2int x = x"
proof -
  have "\<forall>x \<in> set (map word_of_nat [0..<8]). luaO_fb2int x = x" by code_simp
  moreover assume "x < 8"
  then have "x \<in> set (map word_of_nat [0..<8])"
    by (auto simp: word_less_nat_alt intro!: image_eqI [of _ _ "unat x"])
  ultimately show ?thesis by blast
qed

text \<open>
  A table size hint survives the floating-point byte of OP_NEWTABLE: the encoded
  byte fits in eight bits, decoding it never gives less than the original size, and the
  excess stays below two fifteenths of the size.
\<close>

theorem luaO_int2fb_roundup:
  assumes "unat x < 2 ^ 31"
  shows "luaO_int2fb x < 256 \<and> unat x \<le> unat (luaO_fb2int (luaO_int2fb x)) \<and>
    15 * (unat (luaO_fb2int (luaO_int2fb x)) - unat x) \<le> 2 * unat x"
proof -
  obtain y e where ye: "luaO_int2fb_loop x 0 = (y, e)" by fastforce
  have y: "unat y < 16" "unat x \<le> unat y * 2 ^ e" "unat y * 2 ^ e < unat x + 2 ^ e"
    "0 < e \<longrightarrow> 8 \<le> unat y \<and> 15 * 2 ^ e + 2 \<le> 2 * unat x"
    using luaO_int2fb_loop_bounds [OF _ ye] assms by auto
  show ?thesis
  proof (cases "y < 8")
    case True
    then have "e = 0" "unat y < 8" using y(4) by (auto simp: word_less_nat_alt)
    with y True show ?thesis
      by (simp add: luaO_int2fb_def ye luaO_fb2int_small word_less_nat_alt)
  next
    case False
    then have y8: "8 \<le> unat y" by (simp add: word_less_nat_alt)
    have e30: "e < 30"
    proof (rule ccontr)
      assume "\<not> e < 30"
      then have "(2::nat) ^ 30 \<le> 2 ^ e" by (intro power_increasing) auto
      with y(4) assms \<open>\<not> e < 30\<close> show False by auto
    qed
    have "unat x + 2 ^ e \<le> 2 ^ 32"
    proof -
      have "(2::nat) ^ e \<le> 2 ^ 30" using e30 by (intro power_increasing) auto
      with assms show ?thesis by simp
    qed
    then have "unat y * 2 ^ e < 2 ^ 32" using y(3) by linarith
    then have "unat (push_bit e y) = unat y * 2 ^ e"
      by (intro unat_push_bit_small) (simp only: len_words)
    moreover have "luaO_fb2int (luaO_int2fb x) = push_bit e y" "luaO_int2fb x < 256"
      using luaO_fb2int_encoded [OF e30 y8 y(1)] False by (simp_all add: luaO_int2fb_def ye)
    moreover have "15 * (unat y * 2 ^ e - unat x) \<le> 2 * unat x"
      using y(3,4) by (cases "e = 0") auto
    ultimately show ?thesis using y(2) by simp
  qed
qed

theorem luaO_int2fb_roundup_witness:
  "unat (100 :: 32 word) < 2 ^ 31 \<and> luaO_int2fb 100 < 256 \<and>
   100 \<le> unat (luaO_fb2int (luaO_int2fb 100))"
  using luaO_int2fb_roundup [of 100] by simp

end
