(* ===== verification/Lopcodes.thy ===== *)
theory Lopcodes
  imports Lobject
begin

text \<open>
  lopcodes.h and lopcodes.c: the instruction format of the virtual machine (fields of a
  32-bit word), the opcodes, their names and their operand modes.
\<close>

subsection \<open>Fields of an instruction\<close>

definition SIZE_C :: nat where "SIZE_C = 9"
definition SIZE_B :: nat where "SIZE_B = 9"
definition SIZE_Bx :: nat where "SIZE_Bx = SIZE_C + SIZE_B"
definition SIZE_A :: nat where "SIZE_A = 8"
definition SIZE_OP :: nat where "SIZE_OP = 6"
definition POS_OP :: nat where "POS_OP = 0"
definition POS_A :: nat where "POS_A = POS_OP + SIZE_OP"
definition POS_C :: nat where "POS_C = POS_A + SIZE_A"
definition POS_B :: nat where "POS_B = POS_C + SIZE_C"
definition POS_Bx :: nat where "POS_Bx = POS_C"

lemmas field_layout = SIZE_C_def SIZE_B_def SIZE_Bx_def SIZE_A_def SIZE_OP_def
  POS_OP_def POS_A_def POS_C_def POS_B_def POS_Bx_def

definition MAXARG_Bx :: int where "MAXARG_Bx = 2 ^ SIZE_Bx - 1"
definition MAXARG_sBx :: int where "MAXARG_sBx = MAXARG_Bx div 2"
definition MAXARG_A :: int where "MAXARG_A = 2 ^ SIZE_A - 1"
definition MAXARG_B :: int where "MAXARG_B = 2 ^ SIZE_B - 1"
definition MAXARG_C :: int where "MAXARG_C = 2 ^ SIZE_C - 1"

lemma maxarg_values [simp]:
  "MAXARG_Bx = 262143" "MAXARG_sBx = 131071" "MAXARG_A = 255" "MAXARG_B = 511" "MAXARG_C = 511"
  by (simp_all add: MAXARG_Bx_def MAXARG_sBx_def MAXARG_A_def MAXARG_B_def MAXARG_C_def field_layout)

definition MASK1 :: "nat \<Rightarrow> nat \<Rightarrow> Instruction" where
  "MASK1 n p = push_bit p (NOT (push_bit n (NOT 0)))"

definition MASK0 :: "nat \<Rightarrow> nat \<Rightarrow> Instruction" where
  "MASK0 n p = NOT (MASK1 n p)"

text \<open>The common shape of the GET and SET macros.\<close>

definition get_field :: "nat \<Rightarrow> nat \<Rightarrow> Instruction \<Rightarrow> Instruction" where
  "get_field p n i = drop_bit p i AND MASK1 n 0"

definition set_field :: "nat \<Rightarrow> nat \<Rightarrow> Instruction \<Rightarrow> Instruction \<Rightarrow> Instruction" where
  "set_field p n i u = (i AND MASK0 n p) OR (push_bit p u AND MASK1 n p)"

definition GET_OPCODE :: "Instruction \<Rightarrow> nat" where
  "GET_OPCODE i = unat (get_field POS_OP SIZE_OP i)"
definition SET_OPCODE :: "Instruction \<Rightarrow> nat \<Rightarrow> Instruction" where
  "SET_OPCODE i k = set_field POS_OP SIZE_OP i (word_of_nat k)"
definition GETARG_A :: "Instruction \<Rightarrow> int" where
  "GETARG_A i = uint (get_field POS_A SIZE_A i)"
definition SETARG_A :: "Instruction \<Rightarrow> int \<Rightarrow> Instruction" where
  "SETARG_A i u = set_field POS_A SIZE_A i (word_of_int u)"
definition GETARG_B :: "Instruction \<Rightarrow> int" where
  "GETARG_B i = uint (get_field POS_B SIZE_B i)"
definition SETARG_B :: "Instruction \<Rightarrow> int \<Rightarrow> Instruction" where
  "SETARG_B i b = set_field POS_B SIZE_B i (word_of_int b)"
definition GETARG_C :: "Instruction \<Rightarrow> int" where
  "GETARG_C i = uint (get_field POS_C SIZE_C i)"
definition SETARG_C :: "Instruction \<Rightarrow> int \<Rightarrow> Instruction" where
  "SETARG_C i b = set_field POS_C SIZE_C i (word_of_int b)"
definition GETARG_Bx :: "Instruction \<Rightarrow> int" where
  "GETARG_Bx i = uint (get_field POS_Bx SIZE_Bx i)"
definition SETARG_Bx :: "Instruction \<Rightarrow> int \<Rightarrow> Instruction" where
  "SETARG_Bx i b = set_field POS_Bx SIZE_Bx i (word_of_int b)"
definition GETARG_sBx :: "Instruction \<Rightarrow> int" where
  "GETARG_sBx i = GETARG_Bx i - MAXARG_sBx"
definition SETARG_sBx :: "Instruction \<Rightarrow> int \<Rightarrow> Instruction" where
  "SETARG_sBx i b = SETARG_Bx i (b + MAXARG_sBx)"

definition CREATE_ABC :: "nat \<Rightarrow> int \<Rightarrow> int \<Rightarrow> int \<Rightarrow> Instruction" where
  "CREATE_ABC k a b c = push_bit POS_OP (word_of_nat k) OR push_bit POS_A (word_of_int a)
     OR push_bit POS_B (word_of_int b) OR push_bit POS_C (word_of_int c)"

definition CREATE_ABx :: "nat \<Rightarrow> int \<Rightarrow> int \<Rightarrow> Instruction" where
  "CREATE_ABx k a bc = push_bit POS_OP (word_of_nat k) OR push_bit POS_A (word_of_int a)
     OR push_bit POS_Bx (word_of_int bc)"

lemmas instr_defs = GET_OPCODE_def SET_OPCODE_def GETARG_A_def SETARG_A_def GETARG_B_def
  SETARG_B_def GETARG_C_def SETARG_C_def GETARG_Bx_def SETARG_Bx_def GETARG_sBx_def SETARG_sBx_def

subsection \<open>RK operands\<close>

definition BITRK :: int where "BITRK = 2 ^ (SIZE_B - 1)"
definition ISK :: "int \<Rightarrow> bool" where "ISK x \<longleftrightarrow> x AND BITRK \<noteq> 0"
definition INDEXK :: "int \<Rightarrow> int" where "INDEXK r = r AND NOT BITRK"
definition MAXINDEXRK :: int where "MAXINDEXRK = BITRK - 1"
definition RKASK :: "int \<Rightarrow> int" where "RKASK x = x OR BITRK"
definition NO_REG :: int where "NO_REG = MAXARG_A"

text \<open>The number of list items stored by one \<open>SETLIST\<close>.\<close>

definition LFIELDS_PER_FLUSH :: int where "LFIELDS_PER_FLUSH = 50"

lemma BITRK_256 [simp]: "BITRK = 256" "MAXINDEXRK = 255" "NO_REG = 255"
  by (simp_all add: BITRK_def MAXINDEXRK_def NO_REG_def SIZE_B_def)

subsection \<open>Opcodes\<close>

datatype OpCode =
    OP_MOVE | OP_LOADK | OP_LOADBOOL | OP_LOADNIL | OP_GETUPVAL
  | OP_GETGLOBAL | OP_GETTABLE | OP_SETGLOBAL | OP_SETUPVAL | OP_SETTABLE
  | OP_NEWTABLE | OP_SELF
  | OP_ADD | OP_SUB | OP_MUL | OP_DIV | OP_MOD | OP_POW | OP_UNM | OP_NOT | OP_LEN
  | OP_CONCAT | OP_JMP | OP_EQ | OP_LT | OP_LE | OP_TEST | OP_TESTSET
  | OP_CALL | OP_TAILCALL | OP_RETURN | OP_FORLOOP | OP_FORPREP | OP_TFORLOOP
  | OP_SETLIST | OP_CLOSE | OP_CLOSURE | OP_VARARG

definition opcodes :: "OpCode list" where
  "opcodes = [OP_MOVE, OP_LOADK, OP_LOADBOOL, OP_LOADNIL, OP_GETUPVAL, OP_GETGLOBAL,
     OP_GETTABLE, OP_SETGLOBAL, OP_SETUPVAL, OP_SETTABLE, OP_NEWTABLE, OP_SELF, OP_ADD,
     OP_SUB, OP_MUL, OP_DIV, OP_MOD, OP_POW, OP_UNM, OP_NOT, OP_LEN, OP_CONCAT, OP_JMP,
     OP_EQ, OP_LT, OP_LE, OP_TEST, OP_TESTSET, OP_CALL, OP_TAILCALL, OP_RETURN, OP_FORLOOP,
     OP_FORPREP, OP_TFORLOOP, OP_SETLIST, OP_CLOSE, OP_CLOSURE, OP_VARARG]"

fun opnum :: "OpCode \<Rightarrow> nat" where
  "opnum OP_MOVE = 0" | "opnum OP_LOADK = 1" | "opnum OP_LOADBOOL = 2" | "opnum OP_LOADNIL = 3"
| "opnum OP_GETUPVAL = 4" | "opnum OP_GETGLOBAL = 5" | "opnum OP_GETTABLE = 6"
| "opnum OP_SETGLOBAL = 7" | "opnum OP_SETUPVAL = 8" | "opnum OP_SETTABLE = 9"
| "opnum OP_NEWTABLE = 10" | "opnum OP_SELF = 11" | "opnum OP_ADD = 12" | "opnum OP_SUB = 13"
| "opnum OP_MUL = 14" | "opnum OP_DIV = 15" | "opnum OP_MOD = 16" | "opnum OP_POW = 17"
| "opnum OP_UNM = 18" | "opnum OP_NOT = 19" | "opnum OP_LEN = 20" | "opnum OP_CONCAT = 21"
| "opnum OP_JMP = 22" | "opnum OP_EQ = 23" | "opnum OP_LT = 24" | "opnum OP_LE = 25"
| "opnum OP_TEST = 26" | "opnum OP_TESTSET = 27" | "opnum OP_CALL = 28"
| "opnum OP_TAILCALL = 29" | "opnum OP_RETURN = 30" | "opnum OP_FORLOOP = 31"
| "opnum OP_FORPREP = 32" | "opnum OP_TFORLOOP = 33" | "opnum OP_SETLIST = 34"
| "opnum OP_CLOSE = 35" | "opnum OP_CLOSURE = 36" | "opnum OP_VARARG = 37"

definition NUM_OPCODES :: nat where "NUM_OPCODES = opnum OP_VARARG + 1"

definition op_of_nat :: "nat \<Rightarrow> OpCode option" where
  "op_of_nat k = (if k < NUM_OPCODES then Some (opcodes ! k) else None)"

lemma NUM_OPCODES_eq [simp]: "NUM_OPCODES = 38"
  by (simp add: NUM_OPCODES_def)

lemma opcodes_opnum: "opcodes ! opnum k = k" "opnum k < 38"
  by (cases k; simp add: opcodes_def)+

lemma op_of_nat_opnum [simp]: "op_of_nat (opnum k) = Some k"
  by (simp add: op_of_nat_def opcodes_opnum)

lemma length_opcodes: "length opcodes = NUM_OPCODES" "distinct opcodes"
  by (simp_all add: opcodes_def)

lemma opnum_op_of_nat: "op_of_nat n = Some k \<Longrightarrow> opnum k = n"
  using length_opcodes opcodes_opnum
  by (metis NUM_OPCODES_eq nth_eq_iff_index_eq op_of_nat_def option.inject option.distinct(1))

definition luaP_opnames :: "string list" where
  "luaP_opnames = [''MOVE'', ''LOADK'', ''LOADBOOL'', ''LOADNIL'', ''GETUPVAL'', ''GETGLOBAL'',
     ''GETTABLE'', ''SETGLOBAL'', ''SETUPVAL'', ''SETTABLE'', ''NEWTABLE'', ''SELF'', ''ADD'',
     ''SUB'', ''MUL'', ''DIV'', ''MOD'', ''POW'', ''UNM'', ''NOT'', ''LEN'', ''CONCAT'', ''JMP'',
     ''EQ'', ''LT'', ''LE'', ''TEST'', ''TESTSET'', ''CALL'', ''TAILCALL'', ''RETURN'',
     ''FORLOOP'', ''FORPREP'', ''TFORLOOP'', ''SETLIST'', ''CLOSE'', ''CLOSURE'', ''VARARG'']"

datatype OpMode = iABC | iABx | iAsBx
datatype OpArgMask = OpArgN | OpArgU | OpArgR | OpArgK

fun opmode_num :: "OpMode \<Rightarrow> lu_byte" where
  "opmode_num iABC = 0" | "opmode_num iABx = 1" | "opmode_num iAsBx = 2"

fun oparg_num :: "OpArgMask \<Rightarrow> lu_byte" where
  "oparg_num OpArgN = 0" | "oparg_num OpArgU = 1" | "oparg_num OpArgR = 2" | "oparg_num OpArgK = 3"

definition opmode :: "lu_byte \<Rightarrow> lu_byte \<Rightarrow> OpArgMask \<Rightarrow> OpArgMask \<Rightarrow> OpMode \<Rightarrow> lu_byte" where
  "opmode t a b c m = push_bit 7 t OR push_bit 6 a OR push_bit 4 (oparg_num b)
     OR push_bit 2 (oparg_num c) OR opmode_num m"

definition luaP_opmodes :: "lu_byte list" where
  "luaP_opmodes = [
     opmode 0 1 OpArgR OpArgN iABC, opmode 0 1 OpArgK OpArgN iABx,
     opmode 0 1 OpArgU OpArgU iABC, opmode 0 1 OpArgR OpArgN iABC,
     opmode 0 1 OpArgU OpArgN iABC, opmode 0 1 OpArgK OpArgN iABx,
     opmode 0 1 OpArgR OpArgK iABC, opmode 0 0 OpArgK OpArgN iABx,
     opmode 0 0 OpArgU OpArgN iABC, opmode 0 0 OpArgK OpArgK iABC,
     opmode 0 1 OpArgU OpArgU iABC, opmode 0 1 OpArgR OpArgK iABC,
     opmode 0 1 OpArgK OpArgK iABC, opmode 0 1 OpArgK OpArgK iABC,
     opmode 0 1 OpArgK OpArgK iABC, opmode 0 1 OpArgK OpArgK iABC,
     opmode 0 1 OpArgK OpArgK iABC, opmode 0 1 OpArgK OpArgK iABC,
     opmode 0 1 OpArgR OpArgN iABC, opmode 0 1 OpArgR OpArgN iABC,
     opmode 0 1 OpArgR OpArgN iABC, opmode 0 1 OpArgR OpArgR iABC,
     opmode 0 0 OpArgR OpArgN iAsBx, opmode 1 0 OpArgK OpArgK iABC,
     opmode 1 0 OpArgK OpArgK iABC, opmode 1 0 OpArgK OpArgK iABC,
     opmode 1 1 OpArgR OpArgU iABC, opmode 1 1 OpArgR OpArgU iABC,
     opmode 0 1 OpArgU OpArgU iABC, opmode 0 1 OpArgU OpArgU iABC,
     opmode 0 0 OpArgU OpArgN iABC, opmode 0 1 OpArgR OpArgN iAsBx,
     opmode 0 1 OpArgR OpArgN iAsBx, opmode 1 0 OpArgN OpArgU iABC,
     opmode 0 0 OpArgU OpArgU iABC, opmode 0 0 OpArgN OpArgN iABC,
     opmode 0 1 OpArgU OpArgN iABx, opmode 0 1 OpArgU OpArgN iABC]"

definition getOpMode :: "OpCode \<Rightarrow> OpMode" where
  "getOpMode m = [iABC, iABx, iAsBx] ! unat (luaP_opmodes ! opnum m AND 3)"

definition getBMode :: "OpCode \<Rightarrow> OpArgMask" where
  "getBMode m = [OpArgN, OpArgU, OpArgR, OpArgK] ! unat (drop_bit 4 (luaP_opmodes ! opnum m) AND 3)"

definition getCMode :: "OpCode \<Rightarrow> OpArgMask" where
  "getCMode m = [OpArgN, OpArgU, OpArgR, OpArgK] ! unat (drop_bit 2 (luaP_opmodes ! opnum m) AND 3)"

definition testAMode :: "OpCode \<Rightarrow> bool" where
  "testAMode m \<longleftrightarrow> luaP_opmodes ! opnum m AND 64 \<noteq> 0"

definition testTMode :: "OpCode \<Rightarrow> bool" where
  "testTMode m \<longleftrightarrow> luaP_opmodes ! opnum m AND 128 \<noteq> 0"

text \<open>The rows of \<open>luaP_opmodes\<close>, read column by column.\<close>

lemma getOpMode_eq: "getOpMode m =
    (if m \<in> {OP_LOADK, OP_GETGLOBAL, OP_SETGLOBAL, OP_CLOSURE} then iABx else if m \<in>
     {OP_JMP, OP_FORLOOP, OP_FORPREP} then iAsBx else iABC)"
  by (cases m) (simp_all add: getOpMode_def luaP_opmodes_def opmode_def)

lemma getBMode_eq: "getBMode m =
    (if m \<in> {OP_MOVE, OP_LOADNIL, OP_GETTABLE, OP_SELF, OP_UNM, OP_NOT, OP_LEN, OP_CONCAT,
     OP_JMP, OP_TEST, OP_TESTSET, OP_FORLOOP, OP_FORPREP} then OpArgR else if m \<in> {OP_LOADK,
     OP_GETGLOBAL, OP_SETGLOBAL, OP_SETTABLE, OP_ADD, OP_SUB, OP_MUL, OP_DIV, OP_MOD, OP_POW,
     OP_EQ, OP_LT, OP_LE} then OpArgK else if m \<in> {OP_TFORLOOP, OP_CLOSE} then OpArgN else
     OpArgU)"
  by (cases m) (simp_all add: getBMode_def luaP_opmodes_def opmode_def)

lemma getCMode_eq: "getCMode m =
    (if m \<in> {OP_LOADBOOL, OP_NEWTABLE, OP_TEST, OP_TESTSET, OP_CALL, OP_TAILCALL,
     OP_TFORLOOP, OP_SETLIST} then OpArgU else if m \<in> {OP_GETTABLE, OP_SETTABLE, OP_SELF,
     OP_ADD, OP_SUB, OP_MUL, OP_DIV, OP_MOD, OP_POW, OP_EQ, OP_LT, OP_LE} then OpArgK else if m
     \<in> {OP_CONCAT} then OpArgR else OpArgN)"
  by (cases m) (simp_all add: getCMode_def luaP_opmodes_def opmode_def)

lemma testAMode_eq: "testAMode m \<longleftrightarrow>
    m \<notin> {OP_SETGLOBAL, OP_SETUPVAL, OP_SETTABLE, OP_JMP, OP_EQ, OP_LT, OP_LE, OP_RETURN, OP_TFORLOOP,
     OP_SETLIST, OP_CLOSE}"
  by (cases m) (simp_all add: testAMode_def luaP_opmodes_def opmode_def)

lemma testTMode_eq: "testTMode m \<longleftrightarrow>
    m \<in> {OP_EQ, OP_LT, OP_LE, OP_TEST, OP_TESTSET, OP_TFORLOOP}"
  by (cases m) (simp_all add: testTMode_def luaP_opmodes_def opmode_def)

lemmas opmode_eqs = getOpMode_eq getBMode_eq getCMode_eq testAMode_eq testTMode_eq

subsection \<open>Field laws\<close>

lemma bit_MASK1: "bit (MASK1 n p) k \<longleftrightarrow> p \<le> k \<and> k < p + n \<and> k < 32"
  by (auto simp: MASK1_def bit_push_bit_iff bit_not_iff bit_mask_iff)

lemma bit_get_field: "bit (get_field p n i) k \<longleftrightarrow> k < n \<and> bit i (p + k)"
  using bit_imp_le_length [of i "p + k"]
  by (auto simp: get_field_def bit_and_iff bit_MASK1 bit_drop_bit_eq)

lemma bit_set_field:
  "bit (set_field p n i u) k \<longleftrightarrow>
     (if p \<le> k \<and> k < p + n \<and> k < 32 then bit u (k - p) else bit i k)"
  using bit_imp_le_length [of i k]
  by (auto simp: set_field_def MASK0_def bit_or_iff bit_and_iff bit_not_iff bit_MASK1 bit_push_bit_iff)

lemma get_set_field_same: "p + n \<le> 32 \<Longrightarrow> get_field p n (set_field p n i u) = take_bit n u"
  by (rule bit_eqI) (auto simp: bit_get_field bit_set_field bit_take_bit_iff)

lemma get_set_field_other:
  "p' + n' \<le> p \<or> p + n \<le> p' \<Longrightarrow> get_field p' n' (set_field p n i u) = get_field p' n' i"
  by (rule bit_eqI) (auto simp: bit_get_field bit_set_field)

lemma uint_of_int_small: "0 \<le> u \<Longrightarrow> u < 2 ^ n \<Longrightarrow> n \<le> 32 \<Longrightarrow> uint (word_of_int u :: Instruction) = u"
proof -
  assume u: "0 \<le> u" "u < 2 ^ n" "n \<le> 32"
  have "(2::int) ^ n \<le> 2 ^ 32" using u(3) by (intro power_increasing) auto
  with u show ?thesis by (simp add: uint_word_of_int)
qed

lemma take_bit_of_int_small:
  assumes "0 \<le> u" "u < 2 ^ n" "n \<le> 32"
  shows "take_bit n (word_of_int u :: Instruction) = word_of_int u"
proof -
  have "uint (take_bit n (word_of_int u :: Instruction)) = take_bit n u"
    using uint_of_int_small [OF assms] by (simp only: unsigned_take_bit_eq)
  also have "\<dots> = uint (word_of_int u :: Instruction)"
    using assms uint_of_int_small [OF assms] by (simp add: take_bit_int_eq_self)
  finally show ?thesis by (simp only: word_uint_eq_iff)
qed

lemma get_set_field_value:
  "p + n \<le> 32 \<Longrightarrow> 0 \<le> u \<Longrightarrow> u < 2 ^ n \<Longrightarrow>
   uint (get_field p n (set_field p n i (word_of_int u))) = u"
  by (simp only: get_set_field_same take_bit_of_int_small uint_of_int_small add_leE)

text \<open>A field of an OR of shifted operands, each no wider than its own field.\<close>

lemma bit_small: "take_bit n (w :: Instruction) = w \<Longrightarrow> bit w k \<Longrightarrow> k < n"
  by (metis bit_take_bit_iff)

lemma get_field_or: "get_field p n (x OR y) = get_field p n x OR get_field p n y"
  by (rule bit_eqI) (auto simp: bit_get_field bit_or_iff)

lemma get_field_push_same:
  "p + n \<le> 32 \<Longrightarrow> take_bit n w = w \<Longrightarrow> get_field p n (push_bit p w) = w"
  by (rule bit_eqI) (auto simp: bit_get_field bit_push_bit_iff dest: bit_small)

lemma get_field_push_other:
  "take_bit n' w = w \<Longrightarrow> p + n \<le> p' \<or> p' + n' \<le> p \<Longrightarrow> get_field p n (push_bit p' w) = 0"
  by (rule bit_eqI) (auto simp: bit_get_field bit_push_bit_iff dest: bit_small)

lemma get_field_low:
  "take_bit n' w = w \<Longrightarrow> n' \<le> p \<Longrightarrow> get_field p n w = 0"
  "n \<le> 32 \<Longrightarrow> take_bit n w = w \<Longrightarrow> get_field 0 n w = w"
  using get_field_push_other [of n' w p n 0] get_field_push_same [of 0 n w] by auto

lemma word_of_nat_int: "word_of_nat k = (word_of_int (int k) :: Instruction)"
  by simp

lemma CREATE_ABC_get:
  assumes "k < 64" "0 \<le> a" "a \<le> MAXARG_A" "0 \<le> b" "b \<le> MAXARG_B" "0 \<le> c" "c \<le> MAXARG_C"
  shows "GET_OPCODE (CREATE_ABC k a b c) = k" "GETARG_A (CREATE_ABC k a b c) = a"
    "GETARG_B (CREATE_ABC k a b c) = b" "GETARG_C (CREATE_ABC k a b c) = c"
proof -
  have t: "take_bit 6 (word_of_int (int k) :: Instruction) = word_of_int (int k)"
    "take_bit 8 (word_of_int a :: Instruction) = word_of_int a"
    "take_bit 9 (word_of_int b :: Instruction) = word_of_int b"
    "take_bit 9 (word_of_int c :: Instruction) = word_of_int c"
    using assms by (intro take_bit_of_int_small; simp)+
  have v: "uint (word_of_int (int k) :: Instruction) = int k"
    "uint (word_of_int a :: Instruction) = a" "uint (word_of_int b :: Instruction) = b"
    "uint (word_of_int c :: Instruction) = c"
    using assms by (intro uint_of_int_small [where n = 9]; simp)+
  note r = instr_defs CREATE_ABC_def field_layout get_field_or word_of_nat_int
  note p = t [THEN get_field_push_same [rotated]]
    t(1) [THEN get_field_low(1)] t(1) [THEN get_field_low(2) [rotated]]
    t(2) [THEN get_field_push_other]
    t(3) [THEN get_field_push_other] t(4) [THEN get_field_push_other]
  show "GETARG_A (CREATE_ABC k a b c) = a" by (simp add: r p v del: of_int_of_nat_eq)
  show "GETARG_B (CREATE_ABC k a b c) = b" by (simp add: r p v del: of_int_of_nat_eq)
  show "GETARG_C (CREATE_ABC k a b c) = c" by (simp add: r p v del: of_int_of_nat_eq)
  show "GET_OPCODE (CREATE_ABC k a b c) = k"
    using v(1) by (simp add: r p del: of_int_of_nat_eq) (simp only: unat_eq_nat_uint nat_int)
qed

lemma CREATE_ABx_get:
  assumes "k < 64" "0 \<le> a" "a \<le> MAXARG_A" "0 \<le> b" "b \<le> MAXARG_Bx"
  shows "GET_OPCODE (CREATE_ABx k a b) = k" "GETARG_A (CREATE_ABx k a b) = a"
    "GETARG_Bx (CREATE_ABx k a b) = b" "GETARG_sBx (CREATE_ABx k a b) = b - MAXARG_sBx"
proof -
  have t: "take_bit 6 (word_of_int (int k) :: Instruction) = word_of_int (int k)"
    "take_bit 8 (word_of_int a :: Instruction) = word_of_int a"
    "take_bit 18 (word_of_int b :: Instruction) = word_of_int b"
    using assms by (intro take_bit_of_int_small; simp)+
  have v: "uint (word_of_int (int k) :: Instruction) = int k"
    "uint (word_of_int a :: Instruction) = a" "uint (word_of_int b :: Instruction) = b"
    using assms by (intro uint_of_int_small [where n = 18]; simp)+
  note r = instr_defs CREATE_ABx_def field_layout get_field_or word_of_nat_int
  note p = t [THEN get_field_push_same [rotated]]
    t(1) [THEN get_field_low(1)] t(1) [THEN get_field_low(2) [rotated]]
    t(2) [THEN get_field_push_other] t(3) [THEN get_field_push_other]
  show "GETARG_A (CREATE_ABx k a b) = a" by (simp add: r p v del: of_int_of_nat_eq)
  show "GETARG_Bx (CREATE_ABx k a b) = b" by (simp add: r p v del: of_int_of_nat_eq)
  then show "GETARG_sBx (CREATE_ABx k a b) = b - MAXARG_sBx" by (simp add: GETARG_sBx_def)
  show "GET_OPCODE (CREATE_ABx k a b) = k"
    using v(1) by (simp add: r p del: of_int_of_nat_eq) (simp only: unat_eq_nat_uint nat_int)
qed

text \<open>Reading back what a SET macro wrote, and the fields it leaves alone.\<close>

lemma SETARG_get:
  shows "0 \<le> u \<Longrightarrow> u \<le> MAXARG_A \<Longrightarrow> GETARG_A (SETARG_A i u) = u"
    and "0 \<le> b \<Longrightarrow> b \<le> MAXARG_B \<Longrightarrow> GETARG_B (SETARG_B i b) = b"
    and "0 \<le> c \<Longrightarrow> c \<le> MAXARG_C \<Longrightarrow> GETARG_C (SETARG_C i c) = c"
    and "- MAXARG_sBx \<le> s \<Longrightarrow> s \<le> MAXARG_sBx \<Longrightarrow> GETARG_sBx (SETARG_sBx i s) = s"
  using get_set_field_value [of POS_A SIZE_A u i] get_set_field_value [of POS_B SIZE_B b i]
    get_set_field_value [of POS_C SIZE_C c i]
    get_set_field_value [of POS_Bx SIZE_Bx "s + MAXARG_sBx" i]
  by (simp_all add: instr_defs field_layout)

lemma SETARG_other:
  "GET_OPCODE (SETARG_A i u) = GET_OPCODE i" "GETARG_B (SETARG_A i u) = GETARG_B i"
  "GETARG_C (SETARG_A i u) = GETARG_C i" "GETARG_Bx (SETARG_A i u) = GETARG_Bx i"
  "GET_OPCODE (SETARG_B i u) = GET_OPCODE i" "GETARG_A (SETARG_B i u) = GETARG_A i"
  "GETARG_C (SETARG_B i u) = GETARG_C i"
  "GET_OPCODE (SETARG_C i u) = GET_OPCODE i" "GETARG_A (SETARG_C i u) = GETARG_A i"
  "GETARG_B (SETARG_C i u) = GETARG_B i"
  "GET_OPCODE (SETARG_sBx i u) = GET_OPCODE i" "GETARG_A (SETARG_sBx i u) = GETARG_A i"
  by (simp_all add: instr_defs field_layout get_set_field_other)

text \<open>
  Instructions encode and decode without loss: an instruction built from operands
  within their limits gives back its opcode and its operands, in both formats, and a jump
  offset written by SETARG_sBx is read back by GETARG_sBx without touching opcode and A.
\<close>

theorem instruction_roundtrip:
  assumes "0 \<le> a" "a \<le> MAXARG_A" "0 \<le> b" "b \<le> MAXARG_B" "0 \<le> c" "c \<le> MAXARG_C"
    "- MAXARG_sBx \<le> s" "s \<le> MAXARG_sBx"
  shows "op_of_nat (GET_OPCODE (CREATE_ABC (opnum k) a b c)) = Some k \<and>
      GETARG_A (CREATE_ABC (opnum k) a b c) = a \<and> GETARG_B (CREATE_ABC (opnum k) a b c) = b \<and>
      GETARG_C (CREATE_ABC (opnum k) a b c) = c \<and>
      GETARG_sBx (CREATE_ABx (opnum k) a (s + MAXARG_sBx)) = s \<and>
      GETARG_A (CREATE_ABx (opnum k) a (s + MAXARG_sBx)) = a \<and>
      GETARG_sBx (SETARG_sBx i s) = s \<and>
      GET_OPCODE (SETARG_sBx i s) = GET_OPCODE i \<and> GETARG_A (SETARG_sBx i s) = GETARG_A i"
proof -
  have k: "opnum k < 64" using opcodes_opnum(2) [of k] by simp
  have s: "0 \<le> s + MAXARG_sBx" "s + MAXARG_sBx \<le> MAXARG_Bx" using assms by simp_all
  show ?thesis
    using CREATE_ABC_get [OF k assms(1-6)] CREATE_ABx_get [OF k assms(1,2) s]
      SETARG_get(4) [OF assms(7,8)] by (simp add: SETARG_other)
qed

theorem instruction_roundtrip_witness:
  "op_of_nat (GET_OPCODE (CREATE_ABC (opnum OP_ADD) 3 256 7)) = Some OP_ADD \<and>
   GETARG_B (CREATE_ABC (opnum OP_ADD) 3 256 7) = 256 \<and>
   GETARG_sBx (SETARG_sBx 0 (- 5)) = - 5"
  using instruction_roundtrip [of 3 256 7 "- 5" OP_ADD 0] by simp

end
