(* ===== verification/Lproto.thy ===== *)
theory Lproto
  imports Lobject Lopcodes
begin

text \<open>
  Function prototypes (\<open>Proto\<close>, \<open>LocVar\<close> of lobject.h). The vectors of a prototype are
  lists; their size fields are the lengths. A prototype contains prototypes, so the struct is a
  datatype with the fields as selectors.

  A string constant read from a file may have a null string pointer (size 0 in the file):
  \<open>KNullStr\<close>.
\<close>

datatype konst = KVal TValue | KNullStr

record LocVar =
  varname :: "TString option"
  startpc :: int
  endpc :: int

datatype Proto = Proto
  (pt_k: "konst list")
  (pt_code: "Instruction list")
  (pt_p: "Proto list")
  (pt_lineinfo: "int list")
  (pt_locvars: "LocVar list")
  (pt_upvalues: "TString option list")
  (pt_source: "TString option")
  (pt_linedefined: int)
  (pt_lastlinedefined: int)
  (pt_nups: lu_byte)
  (pt_numparams: lu_byte)
  (pt_is_vararg: lu_byte)
  (pt_maxstacksize: lu_byte)

definition VARARG_HASARG :: lu_byte where "VARARG_HASARG = 1"
definition VARARG_ISVARARG :: lu_byte where "VARARG_ISVARARG = 2"
definition VARARG_NEEDSARG :: lu_byte where "VARARG_NEEDSARG = 4"

abbreviation sizecode :: "Proto \<Rightarrow> int" where "sizecode pt \<equiv> int (length (pt_code pt))"
abbreviation sizek :: "Proto \<Rightarrow> int" where "sizek pt \<equiv> int (length (pt_k pt))"
abbreviation sizep :: "Proto \<Rightarrow> int" where "sizep pt \<equiv> int (length (pt_p pt))"

abbreviation byte_int :: "lu_byte \<Rightarrow> int" where "byte_int b \<equiv> int (unat b)"

fun k_ttisstring :: "konst \<Rightarrow> bool" where
  "k_ttisstring (KVal (TStr s)) = True"
| "k_ttisstring KNullStr = True"
| "k_ttisstring _ = False"

end
