(* ===== verification/Ldebug.thy ===== *)
theory Ldebug
  imports Lproto
begin

text \<open>
  The code checker of ldebug.c (\<open>precheck\<close>, \<open>checkArgMode\<close>, \<open>luaG_checkopenop\<close>,
  \<open>symbexec\<close>, \<open>luaG_checkcode\<close>), run on every function loaded from a binary chunk. The
  model reads the vectors of the prototype through bounds tests, so that an access outside
  them is the outcome \<open>MemoryFault\<close>; \<open>Inr None\<close> is the \<open>return 0\<close> of a failed
  \<open>check\<close>.
\<close>

definition MAXSTACK :: int where "MAXSTACK = 250"
definition LUA_MULTRET :: int where "LUA_MULTRET = - 1"

definition nth_result :: "'a list \<Rightarrow> int \<Rightarrow> 'a result" where
  "nth_result xs i = (if 0 \<le> i \<and> i < int (length xs) then Inr (xs ! nat i) else Inl MemoryFault)"

definition checkreg :: "Proto \<Rightarrow> int \<Rightarrow> bool" where
  "checkreg pt reg \<longleftrightarrow> reg < byte_int (pt_maxstacksize pt)"

definition precheck :: "Proto \<Rightarrow> bool result" where
  "precheck pt =
     (if \<not> byte_int (pt_maxstacksize pt) \<le> MAXSTACK then Inr False
      else if \<not> byte_int (pt_numparams pt) + byte_int (pt_is_vararg pt AND VARARG_HASARG)
           \<le> byte_int (pt_maxstacksize pt) then Inr False
      else if \<not> (pt_is_vararg pt AND VARARG_NEEDSARG = 0 \<or> pt_is_vararg pt AND VARARG_HASARG \<noteq> 0) then Inr False
      else if \<not> int (length (pt_upvalues pt)) \<le> byte_int (pt_nups pt) then Inr False
      else if \<not> (length (pt_lineinfo pt) = length (pt_code pt) \<or> length (pt_lineinfo pt) = 0) then Inr False
      else if \<not> 0 < sizecode pt then Inr False
      else bind_result (nth_result (pt_code pt) (sizecode pt - 1)) (\<lambda>i.
        Inr (GET_OPCODE i = opnum OP_RETURN)))"

definition luaG_checkopenop :: "Instruction \<Rightarrow> bool" where
  "luaG_checkopenop i =
     (if GET_OPCODE i = opnum OP_CALL \<or> GET_OPCODE i = opnum OP_TAILCALL \<or>
         GET_OPCODE i = opnum OP_RETURN \<or> GET_OPCODE i = opnum OP_SETLIST
      then GETARG_B i = 0 else False)"

fun checkArgMode :: "Proto \<Rightarrow> int \<Rightarrow> OpArgMask \<Rightarrow> bool" where
  "checkArgMode pt r OpArgN = (r = 0)"
| "checkArgMode pt r OpArgU = True"
| "checkArgMode pt r OpArgR = checkreg pt r"
| "checkArgMode pt r OpArgK =
     (if ISK r then INDEXK r < sizek pt else r < byte_int (pt_maxstacksize pt))"

definition is_long_setlist :: "Instruction \<Rightarrow> bool" where
  "is_long_setlist d \<longleftrightarrow> GET_OPCODE d = opnum OP_SETLIST \<and> GETARG_C d = 0"

text \<open>
  The inner loop over \<open>j\<close>: the number of words before position \<open>dest\<close> that look like a
  \<open>SETLIST\<close> with its count in the next word.
\<close>

fun setlist_run :: "Instruction list \<Rightarrow> nat \<Rightarrow> nat result" where
  "setlist_run code 0 = Inr 0"
| "setlist_run code (Suc d) =
     bind_result (nth_result code (int d)) (\<lambda>i.
       if is_long_setlist i then bind_result (setlist_run code d) (\<lambda>j. Inr (Suc j)) else Inr 0)"

text \<open>The first \<open>switch\<close> of \<open>symbexec\<close>: the operands \<open>b\<close> and \<open>c\<close>, checked.\<close>

definition sym_operands :: "Proto \<Rightarrow> int \<Rightarrow> OpCode \<Rightarrow> Instruction \<Rightarrow> (int \<times> int) option result" where
  "sym_operands pt pc op i =
     (case getOpMode op of
        iABC \<Rightarrow>
          (let b = GETARG_B i; c = GETARG_C i in
           if checkArgMode pt b (getBMode op) \<and> checkArgMode pt c (getCMode op)
           then Inr (Some (b, c)) else Inr None)
      | iABx \<Rightarrow>
          (let b = GETARG_Bx i in
           if getBMode op = OpArgK \<and> \<not> b < sizek pt then Inr None else Inr (Some (b, 0)))
      | iAsBx \<Rightarrow>
          (let b = GETARG_sBx i; dest = pc + 1 + b in
           if getBMode op = OpArgR
           then if 0 \<le> dest \<and> dest < sizecode pt
                then bind_result (setlist_run (pt_code pt) (nat dest)) (\<lambda>j.
                       if even j then Inr (Some (b, 0)) else Inr None)
                else Inr None
           else Inr (Some (b, 0))))"

text \<open>The loop over the pseudo-instructions after a \<open>CLOSURE\<close>.\<close>

fun closure_args :: "Proto \<Rightarrow> int \<Rightarrow> nat \<Rightarrow> bool result" where
  "closure_args pt pc 0 = Inr True"
| "closure_args pt pc (Suc n) =
     bind_result (nth_result (pt_code pt) (pc + 1)) (\<lambda>i.
       if GET_OPCODE i = opnum OP_GETUPVAL \<or> GET_OPCODE i = opnum OP_MOVE
       then closure_args pt (pc + 1) n else Inr False)"

text \<open>
  The second \<open>switch\<close>: the new values of \<open>pc\<close> (before the loop's increment) and of
  \<open>last\<close>.
\<close>

definition sym_op ::
  "Proto \<Rightarrow> int \<Rightarrow> int \<Rightarrow> int \<Rightarrow> OpCode \<Rightarrow> int \<Rightarrow> int \<Rightarrow> int \<Rightarrow> int \<Rightarrow> (int \<times> int) option result" where
  "sym_op pt lastpc reg pc op a b c lst =
     (let ok = Inr (Some (pc, lst)); fail = Inr None;
          jump = Inr (Some (if reg \<noteq> NO_REG \<and> pc < pc + 1 + b \<and> pc + 1 + b \<le> lastpc then pc + b else pc, lst))
      in case op of
        OP_LOADBOOL \<Rightarrow>
          if c = 1
          then if \<not> pc + 2 < sizecode pt then fail
               else bind_result (nth_result (pt_code pt) (pc + 1)) (\<lambda>d.
                 if GET_OPCODE d \<noteq> opnum OP_SETLIST \<or> GETARG_C d \<noteq> 0 then ok else fail)
          else ok
      | OP_LOADNIL \<Rightarrow> Inr (Some (pc, if a \<le> reg \<and> reg \<le> b then pc else lst))
      | OP_GETUPVAL \<Rightarrow> if b < byte_int (pt_nups pt) then ok else fail
      | OP_SETUPVAL \<Rightarrow> if b < byte_int (pt_nups pt) then ok else fail
      | OP_GETGLOBAL \<Rightarrow> bind_result (nth_result (pt_k pt) b) (\<lambda>k. if k_ttisstring k then ok else fail)
      | OP_SETGLOBAL \<Rightarrow> bind_result (nth_result (pt_k pt) b) (\<lambda>k. if k_ttisstring k then ok else fail)
      | OP_SELF \<Rightarrow>
          if checkreg pt (a + 1) then Inr (Some (pc, if reg = a + 1 then pc else lst)) else fail
      | OP_CONCAT \<Rightarrow> if b < c then ok else fail
      | OP_TFORLOOP \<Rightarrow>
          if c \<ge> 1 \<and> checkreg pt (a + 2 + c)
          then Inr (Some (pc, if reg \<ge> a + 2 then pc else lst)) else fail
      | OP_FORLOOP \<Rightarrow> if checkreg pt (a + 3) then jump else fail
      | OP_FORPREP \<Rightarrow> if checkreg pt (a + 3) then jump else fail
      | OP_JMP \<Rightarrow> jump
      | OP_RETURN \<Rightarrow> if b - 1 > 0 \<and> \<not> checkreg pt (a + (b - 1) - 1) then fail else ok
      | OP_SETLIST \<Rightarrow>
          if b > 0 \<and> \<not> checkreg pt (a + b) then fail
          else if c = 0
               then if pc + 1 < sizecode pt - 1 then Inr (Some (pc + 1, lst)) else fail
               else ok
      | OP_CLOSURE \<Rightarrow>
          if \<not> b < sizep pt then fail
          else bind_result (nth_result (pt_p pt) b) (\<lambda>f.
            let nup = unat (pt_nups f) in
            if \<not> pc + int nup < sizecode pt then fail
            else bind_result (closure_args pt pc nup) (\<lambda>good.
              if good then Inr (Some (if reg \<noteq> NO_REG then pc + int nup else pc, lst)) else fail))
      | OP_VARARG \<Rightarrow>
          if \<not> (pt_is_vararg pt AND VARARG_ISVARARG \<noteq> 0 \<and> pt_is_vararg pt AND VARARG_NEEDSARG = 0) then fail
          else bind_result
            (if b - 1 = LUA_MULTRET
             then bind_result (nth_result (pt_code pt) (pc + 1)) (\<lambda>d. Inr (luaG_checkopenop d))
             else Inr True)
            (\<lambda>open_ok. if open_ok \<and> checkreg pt (a + (b - 1) - 1) then ok else fail)
      | _ \<Rightarrow>
          if op = OP_CALL \<or> op = OP_TAILCALL
          then if b \<noteq> 0 \<and> \<not> checkreg pt (a + b - 1) then fail
               else bind_result
                 (if c - 1 = LUA_MULTRET
                  then bind_result (nth_result (pt_code pt) (pc + 1)) (\<lambda>d. Inr (luaG_checkopenop d))
                  else Inr (c - 1 = 0 \<or> checkreg pt (a + (c - 1) - 1)))
                 (\<lambda>good. if good then Inr (Some (pc, if reg \<ge> a then pc else lst)) else fail)
          else ok)"

text \<open>One turn of the loop of \<open>symbexec\<close>.\<close>

definition sym_step :: "Proto \<Rightarrow> int \<Rightarrow> int \<Rightarrow> int \<Rightarrow> int \<Rightarrow> (int \<times> int) option result" where
  "sym_step pt lastpc reg pc lst =
     bind_result (nth_result (pt_code pt) pc) (\<lambda>i.
       let a = GETARG_A i in
       case op_of_nat (GET_OPCODE i) of
         None \<Rightarrow> Inr None
       | Some op \<Rightarrow>
           if \<not> checkreg pt a then Inr None
           else bind_result (sym_operands pt pc op i) (\<lambda>r.
             case r of None \<Rightarrow> Inr None
             | Some (b, c) \<Rightarrow>
                 let lst = (if testAMode op \<and> a = reg then pc else lst) in
                 bind_result
                   (if testTMode op
                    then if pc + 2 < sizecode pt
                         then bind_result (nth_result (pt_code pt) (pc + 1)) (\<lambda>d.
                                Inr (GET_OPCODE d = opnum OP_JMP))
                         else Inr False
                    else Inr True)
                   (\<lambda>skip_ok. if skip_ok then sym_op pt lastpc reg pc op a b c lst else Inr None)))"

lemma sym_op_advances:
  "sym_op pt lastpc reg pc op a b c lst = Inr (Some (pc', lst')) \<Longrightarrow> pc \<le> pc'"
  by (cases op) (auto simp: sym_op_def Let_def bind_result_Inr_conv split: if_splits)

lemma sym_step_advances:
  "sym_step pt lastpc reg pc lst = Inr (Some (pc', lst')) \<Longrightarrow> pc \<le> pc'"
  by (auto simp: sym_step_def Let_def bind_result_Inr_conv split: option.splits if_splits
      dest!: sym_op_advances)

text \<open>The loop: \<open>pc\<close> grows in every turn.\<close>

function sym_loop :: "Proto \<Rightarrow> int \<Rightarrow> int \<Rightarrow> int \<Rightarrow> int \<Rightarrow> Instruction result" where
  "sym_loop pt lastpc reg pc lst =
     (if pc < lastpc
      then bind_result (sym_step pt lastpc reg pc lst) (\<lambda>r.
             case r of None \<Rightarrow> Inr 0
             | Some (pc', lst') \<Rightarrow> sym_loop pt lastpc reg (pc' + 1) lst')
      else nth_result (pt_code pt) lst)"
  by pat_completeness auto
termination
  by (relation "measure (\<lambda>(pt, lastpc, reg, pc, lst). nat (lastpc - pc))")
    (auto dest!: sym_step_advances)

declare sym_loop.simps [simp del]

definition symbexec :: "Proto \<Rightarrow> int \<Rightarrow> int \<Rightarrow> Instruction result" where
  "symbexec pt lastpc reg =
     bind_result (precheck pt) (\<lambda>good.
       if good then sym_loop pt lastpc reg 0 (sizecode pt - 1) else Inr 0)"

definition luaG_checkcode :: "Proto \<Rightarrow> bool result" where
  "luaG_checkcode pt = bind_result (symbexec pt (sizecode pt) NO_REG) (\<lambda>i. Inr (i \<noteq> 0))"

end
