(* ===== verification/Ldebug_check.thy ===== *)
theory Ldebug_check
  imports Ldebug
begin

text \<open>
  The code checker of ldebug.c is memory safe, and sound for the control flow of the virtual
  machine: the positions the checker visits, the parity argument for \<open>SETLIST\<close> counts, and
  the reachable positions of accepted code.
\<close>

subsection \<open>Memory safety\<close>

lemma nth_result_ok [simp]: "0 \<le> i \<Longrightarrow> i < int (length xs) \<Longrightarrow> nth_result xs i = Inr (xs ! nat i)"
  by (simp add: nth_result_def)

lemma nth_result_returns: "0 \<le> i \<Longrightarrow> i < int (length xs) \<Longrightarrow> returns (nth_result xs i)"
  by simp

lemma setlist_run_returns: "d \<le> length code \<Longrightarrow> returns (setlist_run code d)"
  by (induction d) (auto intro!: returns_intros)

lemma closure_args_returns: "0 \<le> pc \<Longrightarrow> pc + int n < sizecode pt \<Longrightarrow> returns (closure_args pt pc n)"
  by (induction n arbitrary: pc) auto

lemma getargs_nonneg: "0 \<le> GETARG_A i" "0 \<le> GETARG_B i" "0 \<le> GETARG_C i" "0 \<le> GETARG_Bx i"
  by (simp_all add: GETARG_A_def GETARG_B_def GETARG_C_def GETARG_Bx_def)

text \<open>What \<open>precheck\<close> guarantees.\<close>

definition ends_in_return :: "Proto \<Rightarrow> bool" where
  "ends_in_return pt \<longleftrightarrow> 0 < sizecode pt \<and> GET_OPCODE (pt_code pt ! nat (sizecode pt - 1)) = opnum OP_RETURN"

lemma precheck_returns: "returns (precheck pt)"
  unfolding precheck_def by (intro returns_intros nth_result_returns) auto

lemma precheck_return: "precheck pt = Inr True \<Longrightarrow> ends_in_return pt"
  by (auto simp: precheck_def ends_in_return_def split: if_splits)

lemma not_last:
  assumes "ends_in_return pt" "0 \<le> pc" "pc < sizecode pt" "GET_OPCODE (pt_code pt ! nat pc) \<noteq> opnum OP_RETURN"
  shows "pc + 1 < sizecode pt"
proof (rule ccontr)
  assume "\<not> ?thesis"
  then have "pc = sizecode pt - 1" using assms(3) by linarith
  with assms(1,4) show False by (simp add: ends_in_return_def)
qed

lemma sym_operands_returns: "returns (sym_operands pt pc op i)"
proof (cases "getOpMode op")
  case iAsBx
  then show ?thesis unfolding sym_operands_def Let_def
    by (simp only: OpMode.case) (intro returns_intros setlist_run_returns returns_Inr, linarith)
qed (simp_all add: sym_operands_def Let_def)

lemma sym_operands_const:
  "sym_operands pt pc op i = Inr (Some (b, c)) \<Longrightarrow> op = OP_GETGLOBAL \<or> op = OP_SETGLOBAL \<Longrightarrow> 0 \<le> b \<and> b < sizek pt"
  using getargs_nonneg(4) [of i] by (auto simp: sym_operands_def opmode_eqs Let_def split: if_splits)

lemma sym_operands_closure:
  "sym_operands pt pc op i = Inr (Some (b, c)) \<Longrightarrow> op = OP_CLOSURE \<Longrightarrow> 0 \<le> b"
  using getargs_nonneg(4) [of i] by (auto simp: sym_operands_def opmode_eqs Let_def split: if_splits)

lemma sym_op_returns:
  assumes pc: "0 \<le> pc" "pc < sizecode pt" and ret: "op \<noteq> OP_RETURN \<Longrightarrow> pc + 1 < sizecode pt"
    and b: "op = OP_GETGLOBAL \<or> op = OP_SETGLOBAL \<Longrightarrow> 0 \<le> b \<and> b < sizek pt" "op = OP_CLOSURE \<Longrightarrow> 0 \<le> b"
  shows "returns (sym_op pt lastpc reg pc op a b c lst)"
  using pc ret b
  by (cases op; simp only: sym_op_def Let_def OpCode.case;
      intro returns_intros nth_result_returns closure_args_returns returns_Inr; auto)

lemma sym_op_lst:
  "sym_op pt lastpc reg pc op a b c lst = Inr (Some (pc', lst')) \<Longrightarrow> lst' = lst \<or> lst' = pc"
  by (cases op) (auto simp: sym_op_def Let_def bind_result_Inr_conv split: if_splits)

lemma op_of_nat_is: "op_of_nat n = Some op \<Longrightarrow> n = opnum x \<longleftrightarrow> op = x"
  using opnum_op_of_nat by (metis op_of_nat_opnum option.inject)

lemma sym_step_returns:
  assumes pc: "0 \<le> pc" "pc < sizecode pt" and ret: "ends_in_return pt"
  shows "returns (sym_step pt lastpc reg pc lst)"
proof -
  have nl: "pc + 1 < sizecode pt" if "op_of_nat (GET_OPCODE (pt_code pt ! nat pc)) = Some op" "op \<noteq> OP_RETURN" for op
    using not_last [OF ret pc] op_of_nat_is [OF that(1), of OP_RETURN] that(2) by blast
  have so: "returns (sym_op pt lastpc reg pc op a b c l)"
    if "op_of_nat (GET_OPCODE (pt_code pt ! nat pc)) = Some op" "sym_operands pt pc op i = Inr (Some (b, c))" for op a b c l i
    by (rule sym_op_returns [OF pc nl [OF that(1)]]) (use sym_operands_const [OF that(2)] sym_operands_closure [OF that(2)] in auto)
  show ?thesis
    unfolding sym_step_def Let_def
    by (intro returns_intros nth_result_returns sym_operands_returns returns_Inr) (use pc so in auto)
qed

lemma sym_step_lst:
  "sym_step pt lastpc reg pc lst = Inr (Some (pc', lst')) \<Longrightarrow> lst' = lst \<or> lst' = pc"
  by (auto simp: sym_step_def Let_def bind_result_Inr_conv split: option.splits if_splits dest!: sym_op_lst)

lemma sym_loop_returns:
  "0 \<le> pc \<Longrightarrow> lastpc \<le> sizecode pt \<Longrightarrow> ends_in_return pt \<Longrightarrow> 0 \<le> lst \<Longrightarrow> lst < sizecode pt \<Longrightarrow>
   returns (sym_loop pt lastpc reg pc lst)"
proof (induction pt lastpc reg pc lst rule: sym_loop.induct)
  case (1 pt lastpc reg pc lst)
  have ih: "returns (sym_loop pt lastpc reg (pc' + 1) lst')"
    if "pc < lastpc" "sym_step pt lastpc reg pc lst = Inr (Some (pc', lst'))" for pc' lst'
    using 1(1) [OF that(1,2) refl refl] sym_step_advances [OF that(2)] sym_step_lst [OF that(2)] 1(2-6) that(1) by auto
  show ?case
    by (subst sym_loop.simps, intro returns_intros sym_step_returns nth_result_returns) (use 1(2-6) ih in auto)
qed

lemma symbexec_returns: "lastpc \<le> sizecode pt \<Longrightarrow> returns (symbexec pt lastpc reg)"
  unfolding symbexec_def
  by (intro returns_intros precheck_returns sym_loop_returns)
    (auto dest!: precheck_return simp: ends_in_return_def)

subsection \<open>The positions the full check visits\<close>

definition scan_next :: "Proto \<Rightarrow> int \<Rightarrow> int" where
  "scan_next pt pc = (if is_long_setlist (pt_code pt ! nat pc) then pc + 2 else pc + 1)"

inductive scan_from :: "Proto \<Rightarrow> int \<Rightarrow> int \<Rightarrow> bool" for pt where
  scan_here: "pc < sizecode pt \<Longrightarrow> scan_from pt pc pc"
| scan_step: "pc < sizecode pt \<Longrightarrow> scan_from pt (scan_next pt pc) q \<Longrightarrow> scan_from pt pc q"

inductive_cases scan_fromE: "scan_from pt pc q"

abbreviation scanned :: "Proto \<Rightarrow> int \<Rightarrow> bool" where "scanned pt \<equiv> scan_from pt 0"

lemma scan_from_less: "scan_from pt pc q \<Longrightarrow> q < sizecode pt \<and> pc \<le> q"
  by (induction rule: scan_from.induct) (auto simp: scan_next_def split: if_splits)

lemma scan_from_next: "scan_from pt pc q \<Longrightarrow> scan_next pt q < sizecode pt \<Longrightarrow> scan_from pt pc (scan_next pt q)"
  by (induction rule: scan_from.induct) (auto intro: scan_from.intros)

text \<open>Position \<open>d\<close> holds the count of a long \<open>SETLIST\<close>.\<close>

definition is_count :: "Proto \<Rightarrow> int \<Rightarrow> bool" where
  "is_count pt d \<longleftrightarrow> 0 < d \<and> scanned pt (d - 1) \<and> is_long_setlist (pt_code pt ! nat (d - 1))"

lemma count_next: "is_count pt d \<Longrightarrow> d + 1 < sizecode pt \<Longrightarrow> scanned pt (d + 1)"
  using scan_from_next [of pt 0 "d - 1"] by (simp add: is_count_def scan_next_def add.commute)

lemma scanned_or_count: "int d < sizecode pt \<Longrightarrow> scanned pt (int d) \<or> is_count pt (int d)"
proof (induction d)
  case 0
  then show ?case by (auto intro: scan_here)
next
  case (Suc d)
  then consider "scanned pt (int d)" | "is_count pt (int d)" by force
  then show ?case
  proof cases
    case 1
    then show ?thesis
      using scan_from_next [OF 1] Suc.prems
      by (cases "is_long_setlist (pt_code pt ! d)") (auto simp: scan_next_def is_count_def add.commute)
  next
    case 2
    with count_next [OF 2] Suc.prems show ?thesis by (simp add: add.commute)
  qed
qed

text \<open>The parity test on the run of words that look like a \<open>SETLIST\<close> tells instructions from counts.\<close>

lemma setlist_run_parity:
  "setlist_run (pt_code pt) d = Inr j \<Longrightarrow> int d < sizecode pt \<Longrightarrow>
   (if even j then scanned pt (int d) else is_count pt (int d))"
proof (induction d arbitrary: j)
  case 0
  then show ?case by (auto intro: scan_here)
next
  case (Suc d)
  then have d: "int d < sizecode pt" by simp
  show ?case
  proof (cases "is_long_setlist (pt_code pt ! d)")
    case True
    with Suc.prems d obtain j' where j': "setlist_run (pt_code pt) d = Inr j'" "j = Suc j'"
      by (auto simp: bind_result_Inr_conv)
    from Suc.IH [OF j'(1) d] count_next [of pt "int d"] Suc.prems(2) True j'(2) show ?thesis
      by (auto simp: is_count_def add.commute split: if_splits)
  next
    case False
    with Suc.prems d have "j = 0" by simp
    moreover have "scanned pt (int (Suc d))"
      using scanned_or_count [OF d] count_next [of pt "int d"] scan_from_next [of pt 0 "int d"] False Suc.prems(2)
      by (auto simp: scan_next_def add.commute)
    ultimately show ?thesis by simp
  qed
qed

subsection \<open>What a passed check means\<close>

definition passes :: "Proto \<Rightarrow> int \<Rightarrow> bool" where
  "passes pt pc \<longleftrightarrow> (\<exists>lst r. sym_step pt (sizecode pt) NO_REG pc lst = Inr (Some r))"

lemma sym_stepD:
  assumes pc: "0 \<le> pc" "pc < sizecode pt" and st: "sym_step pt lastpc reg pc lst = Inr (Some r)"
  shows "\<exists>op b c l. op_of_nat (GET_OPCODE (pt_code pt ! nat pc)) = Some op \<and>
    checkreg pt (GETARG_A (pt_code pt ! nat pc)) \<and>
    sym_operands pt pc op (pt_code pt ! nat pc) = Inr (Some (b, c)) \<and>
    (testTMode op \<longrightarrow> pc + 2 < sizecode pt \<and> GET_OPCODE (pt_code pt ! nat (pc + 1)) = opnum OP_JMP) \<and>
    sym_op pt lastpc reg pc op (GETARG_A (pt_code pt ! nat pc)) b c l = Inr (Some r)"
proof -
  let ?i = "pt_code pt ! nat pc"
  obtain op where op: "op_of_nat (GET_OPCODE ?i) = Some op" and a: "checkreg pt (GETARG_A ?i)"
    using pc st by (auto simp: sym_step_def Let_def split: option.splits if_splits)
  obtain b c where bc: "sym_operands pt pc op ?i = Inr (Some (b, c))"
    using pc st op a by (auto simp: sym_step_def Let_def bind_result_Inr_conv split: option.splits)
  define l where "l = (if testAMode op \<and> GETARG_A ?i = reg then pc else lst)"
  have t: "testTMode op \<longrightarrow> pc + 2 < sizecode pt \<and> GET_OPCODE (pt_code pt ! nat (pc + 1)) = opnum OP_JMP"
    using pc st op a bc by (auto simp: sym_step_def Let_def split: if_splits)
  then have "sym_op pt lastpc reg pc op (GETARG_A ?i) b c l = Inr (Some r)"
    using pc st op a bc by (cases "testTMode op") (simp_all add: sym_step_def Let_def l_def)
  with op a bc t show ?thesis by blast
qed

lemma full_check_next:
  assumes "0 \<le> pc" "pc < sizecode pt" "sym_step pt lastpc NO_REG pc lst = Inr (Some (pc', lst'))"
  shows "pc' + 1 = scan_next pt pc"
proof -
  obtain op b c l where op: "op_of_nat (GET_OPCODE (pt_code pt ! nat pc)) = Some op"
    and bc: "sym_operands pt pc op (pt_code pt ! nat pc) = Inr (Some (b, c))"
    and so: "sym_op pt lastpc NO_REG pc op (GETARG_A (pt_code pt ! nat pc)) b c l = Inr (Some (pc', lst'))"
    using sym_stepD [OF assms] by blast
  have long: "is_long_setlist (pt_code pt ! nat pc) \<longleftrightarrow> op = OP_SETLIST \<and> GETARG_C (pt_code pt ! nat pc) = 0"
    unfolding is_long_setlist_def op_of_nat_is [OF op] ..
  have "c = GETARG_C (pt_code pt ! nat pc)" if "op = OP_SETLIST"
    using bc that by (simp add: sym_operands_def opmode_eqs Let_def)
  with so long show ?thesis
    by (cases op) (auto simp: sym_op_def scan_next_def Let_def bind_result_Inr_conv split: if_splits)
qed

lemma sym_loop_passes:
  "sym_loop pt lastpc reg pc lst = Inr i \<Longrightarrow> i \<noteq> 0 \<Longrightarrow> lastpc = sizecode pt \<Longrightarrow> reg = NO_REG \<Longrightarrow>
   scan_from pt pc q \<Longrightarrow> 0 \<le> pc \<Longrightarrow> passes pt q"
proof (induction pt lastpc reg pc lst rule: sym_loop.induct)
  case (1 pt lastpc reg pc lst)
  have pc: "pc < lastpc" using scan_from_less [OF 1(6)] 1(4) by simp
  then obtain pc' lst' where st: "sym_step pt lastpc reg pc lst = Inr (Some (pc', lst'))"
    and rec: "sym_loop pt lastpc reg (pc' + 1) lst' = Inr i"
    using 1(2,3) by (auto simp: sym_loop.simps [of pt lastpc reg pc] bind_result_Inr_conv split: option.splits)
  have nx: "pc' + 1 = scan_next pt pc" using full_check_next [of pc pt lastpc lst pc' lst'] st pc 1(4,5,7) by simp
  from 1(6) show ?case
  proof (cases rule: scan_from.cases)
    case scan_here
    with st \<open>lastpc = sizecode pt\<close> \<open>reg = NO_REG\<close> show ?thesis unfolding passes_def by blast
  next
    case scan_step
    then have "scan_from pt (pc' + 1) q" using nx by simp
    from "1.IH" [OF pc st refl refl rec 1(3,4,5) this] sym_step_advances [OF st] 1(7) show ?thesis by simp
  qed
qed

subsection \<open>Control flow of the virtual machine\<close>

text \<open>
  The values that \<open>pc\<close> takes after the instruction at \<open>pc\<close> in \<open>luaV_execute\<close> (lvm.c),
  as the instructions themselves change it: skips, jumps and the words that \<open>SETLIST\<close> and
  \<open>CLOSURE\<close> consume. A conditional instruction has both outcomes.
\<close>

definition vm_succs :: "Proto \<Rightarrow> int \<Rightarrow> int list" where
  "vm_succs pt pc =
     (let i = pt_code pt ! nat pc; d = pt_code pt ! nat (pc + 1) in
      case op_of_nat (GET_OPCODE i) of
        None \<Rightarrow> [pc + 1]
      | Some op \<Rightarrow>
          (if op = OP_JMP \<or> op = OP_FORPREP then [pc + 1 + GETARG_sBx i]
           else if op = OP_FORLOOP then [pc + 1, pc + 1 + GETARG_sBx i]
           else if op = OP_LOADBOOL then [if GETARG_C i \<noteq> 0 then pc + 2 else pc + 1]
           else if op \<in> {OP_EQ, OP_LT, OP_LE, OP_TEST, OP_TESTSET, OP_TFORLOOP}
             then [pc + 2, pc + 2 + GETARG_sBx d]
           else if op = OP_RETURN then []
           else if op = OP_SETLIST then [if GETARG_C i = 0 then pc + 2 else pc + 1]
           else if op = OP_CLOSURE then [pc + 1 + int (unat (pt_nups (pt_p pt ! nat (GETARG_Bx i))))]
           else [pc + 1]))"

inductive vm_reach :: "Proto \<Rightarrow> int \<Rightarrow> bool" for pt where
  vm_start: "vm_reach pt 0"
| vm_step: "vm_reach pt pc \<Longrightarrow> pc' \<in> set (vm_succs pt pc) \<Longrightarrow> vm_reach pt pc'"

text \<open>The registers, constants, upvalues and prototypes an instruction names exist.\<close>

definition rk_ok :: "Proto \<Rightarrow> int \<Rightarrow> bool" where
  "rk_ok pt r = (if ISK r then INDEXK r < sizek pt else checkreg pt r)"

definition operands_safe :: "Proto \<Rightarrow> OpCode \<Rightarrow> Instruction \<Rightarrow> bool" where
  "operands_safe pt op i \<longleftrightarrow>
     (let a = GETARG_A i; b = GETARG_B i; c = GETARG_C i; bx = GETARG_Bx i in
      checkreg pt a \<and>
      (op \<in> {OP_MOVE, OP_LOADNIL, OP_UNM, OP_NOT, OP_LEN, OP_TESTSET, OP_GETTABLE, OP_SELF, OP_CONCAT}
         \<longrightarrow> checkreg pt b) \<and>
      (op \<in> {OP_SETTABLE, OP_ADD, OP_SUB, OP_MUL, OP_DIV, OP_MOD, OP_POW, OP_EQ, OP_LT, OP_LE} \<longrightarrow> rk_ok pt b \<and> rk_ok pt c) \<and>
      (op \<in> {OP_GETTABLE, OP_SELF} \<longrightarrow> rk_ok pt c) \<and>
      (op = OP_SELF \<longrightarrow> checkreg pt (a + 1)) \<and>
      (op = OP_CONCAT \<longrightarrow> checkreg pt c \<and> b < c) \<and>
      (op \<in> {OP_LOADK, OP_GETGLOBAL, OP_SETGLOBAL} \<longrightarrow> bx < sizek pt) \<and>
      (op \<in> {OP_GETGLOBAL, OP_SETGLOBAL} \<longrightarrow> k_ttisstring (pt_k pt ! nat bx)) \<and>
      (op \<in> {OP_GETUPVAL, OP_SETUPVAL} \<longrightarrow> b < byte_int (pt_nups pt)) \<and>
      (op = OP_CLOSURE \<longrightarrow> bx < sizep pt) \<and>
      (op \<in> {OP_CALL, OP_TAILCALL} \<longrightarrow> (b \<noteq> 0 \<longrightarrow> checkreg pt (a + b - 1)) \<and> (1 < c \<longrightarrow> checkreg pt (a + c - 2))) \<and>
      (op = OP_RETURN \<longrightarrow> 1 < b \<longrightarrow> checkreg pt (a + b - 2)) \<and>
      (op \<in> {OP_FORLOOP, OP_FORPREP} \<longrightarrow> checkreg pt (a + 3)) \<and>
      (op = OP_TFORLOOP \<longrightarrow> checkreg pt (a + 2 + c)) \<and>
      (op = OP_SETLIST \<longrightarrow> 0 < b \<longrightarrow> checkreg pt (a + b)) \<and>
      (op = OP_VARARG \<longrightarrow> checkreg pt (a + b - 2)))"

lemma passes_operands:
  assumes pc: "0 \<le> pc" "pc < sizecode pt" and p: "passes pt pc"
  obtains op where "op_of_nat (GET_OPCODE (pt_code pt ! nat pc)) = Some op"
    "operands_safe pt op (pt_code pt ! nat pc)"
proof -
  let ?i = "pt_code pt ! nat pc"
  obtain op b c l r where op: "op_of_nat (GET_OPCODE ?i) = Some op" and a: "checkreg pt (GETARG_A ?i)"
    and bc: "sym_operands pt pc op ?i = Inr (Some (b, c))"
    and so: "sym_op pt (sizecode pt) NO_REG pc op (GETARG_A ?i) b c l = Inr (Some r)"
    using p sym_stepD [OF pc] unfolding passes_def by blast
  have abc: "b = GETARG_B ?i \<and> c = GETARG_C ?i \<and> checkArgMode pt b (getBMode op) \<and> checkArgMode pt c (getCMode op)"
    if "getOpMode op = iABC" using bc that by (auto simp: sym_operands_def Let_def split: if_splits)
  have abx: "b = GETARG_Bx ?i \<and> (getBMode op = OpArgK \<longrightarrow> b < sizek pt)"
    if "getOpMode op = iABx" using bc that by (auto simp: sym_operands_def Let_def split: if_splits)
  have nn: "0 \<le> GETARG_Bx ?i" "0 \<le> GETARG_C ?i" "0 \<le> GETARG_B ?i" using getargs_nonneg by blast+
  have "operands_safe pt op ?i"
    using abc abx so a nn unfolding operands_safe_def rk_ok_def Let_def
    by (cases op) (auto simp: opmode_eqs sym_op_def Let_def bind_result_Inr_conv checkreg_def LUA_MULTRET_def nth_result_def split: if_splits)
  with op that show thesis by blast
qed

lemma scanned_range: "scanned pt pc \<Longrightarrow> 0 \<le> pc \<and> pc < sizecode pt"
  using scan_from_less by blast

lemma scanned_succ:
  assumes "scanned pt pc" "\<not> is_long_setlist (pt_code pt ! nat pc)" "pc + 1 < sizecode pt"
  shows "scanned pt (pc + 1)"
  using scan_from_next [OF assms(1)] assms(2,3) by (simp add: scan_next_def)

lemma not_long: "op_of_nat (GET_OPCODE i) = Some op \<Longrightarrow> op \<noteq> OP_SETLIST \<Longrightarrow> \<not> is_long_setlist i"
  unfolding is_long_setlist_def using op_of_nat_is by blast

text \<open>Targets of checked jumps are instructions.\<close>

lemma jump_scanned:
  assumes pc: "0 \<le> pc" "pc < sizecode pt" and p: "passes pt pc"
    and op: "op_of_nat (GET_OPCODE (pt_code pt ! nat pc)) = Some op" "op \<in> {OP_JMP, OP_FORLOOP, OP_FORPREP}"
  shows "scanned pt (pc + 1 + GETARG_sBx (pt_code pt ! nat pc))"
proof -
  let ?i = "pt_code pt ! nat pc"
  let ?dest = "pc + 1 + GETARG_sBx ?i"
  obtain b c where "sym_operands pt pc op ?i = Inr (Some (b, c))"
    using p sym_stepD [OF pc] op(1) unfolding passes_def by fastforce
  then obtain j where d: "0 \<le> ?dest" "?dest < sizecode pt" and j: "setlist_run (pt_code pt) (nat ?dest) = Inr j" "even j"
    using op(2) by (auto simp: sym_operands_def opmode_eqs Let_def bind_result_Inr_conv split: if_splits)
  from setlist_run_parity [OF j(1)] d j(2) show ?thesis by simp
qed

lemma closure_scanned:
  "closure_args pt pc n = Inr True \<Longrightarrow> scanned pt pc \<Longrightarrow> \<not> is_long_setlist (pt_code pt ! nat pc) \<Longrightarrow>
   pc + int n < sizecode pt \<Longrightarrow> ends_in_return pt \<Longrightarrow>
   GET_OPCODE (pt_code pt ! nat pc) \<noteq> opnum OP_RETURN \<Longrightarrow> scanned pt (pc + 1 + int n)"
proof (induction n arbitrary: pc)
  case 0
  have "pc + 1 < sizecode pt" using not_last [OF 0(5) _ _ 0(6)] scanned_range [OF 0(2)] by blast
  with scanned_succ [OF 0(2,3)] show ?case by simp
next
  case (Suc n)
  have r: "0 \<le> pc + 1" "pc + 1 < sizecode pt" using scanned_range [OF Suc.prems(2)] Suc.prems(4) by auto
  have s: "scanned pt (pc + 1)" by (rule scanned_succ [OF Suc.prems(2,3) r(2)])
  let ?d = "pt_code pt ! nat (pc + 1)"
  have d: "GET_OPCODE ?d = opnum OP_GETUPVAL \<or> GET_OPCODE ?d = opnum OP_MOVE" and rec: "closure_args pt (pc + 1) n = Inr True"
    using Suc.prems(1) r by (auto split: if_splits)
  have "\<not> is_long_setlist ?d" "GET_OPCODE ?d \<noteq> opnum OP_RETURN" using d by (auto simp: is_long_setlist_def)
  from Suc.IH [OF rec s this(1) _ Suc.prems(5) this(2)] Suc.prems(4) show ?case by (simp add: algebra_simps)
qed

definition loadbool_plain :: "Proto \<Rightarrow> bool" where
  "loadbool_plain pt \<longleftrightarrow> (\<forall>i \<in> set (pt_code pt). GET_OPCODE i = opnum OP_LOADBOOL \<longrightarrow> GETARG_C i \<le> 1)"

lemma succ_scanned:
  assumes ok: "\<And>q. scanned pt q \<Longrightarrow> passes pt q" and ret: "ends_in_return pt" and lb: "loadbool_plain pt"
    and s: "scanned pt pc" and n: "pc' \<in> set (vm_succs pt pc)"
  shows "scanned pt pc'"
proof -
  let ?i = "pt_code pt ! nat pc" and ?d = "pt_code pt ! nat (pc + 1)"
  note pc = scanned_range [OF s]
  have pc0: "0 \<le> pc" "pc < sizecode pt" using pc by blast+
  obtain op b c l r where op: "op_of_nat (GET_OPCODE ?i) = Some op"
    and bc: "sym_operands pt pc op ?i = Inr (Some (b, c))"
    and t: "testTMode op \<longrightarrow> pc + 2 < sizecode pt \<and> GET_OPCODE ?d = opnum OP_JMP"
    and so: "sym_op pt (sizecode pt) NO_REG pc op (GETARG_A ?i) b c l = Inr (Some r)"
    using ok [OF s] sym_stepD [OF pc0] unfolding passes_def by blast
  have nl: "pc + 1 < sizecode pt" if "op \<noteq> OP_RETURN"
    using not_last [OF ret pc0] op_of_nat_is [OF op, of OP_RETURN] that by blast
  have nx: "scanned pt (pc + 1)" if "op \<noteq> OP_RETURN" "op \<noteq> OP_SETLIST"
    by (rule scanned_succ [OF s not_long [OF op that(2)] nl [OF that(1)]])
  have abc: "b = GETARG_B ?i \<and> c = GETARG_C ?i" if "getOpMode op = iABC"
    using bc that by (auto simp: sym_operands_def Let_def split: if_splits)
  consider (jump) "op \<in> {OP_JMP, OP_FORLOOP, OP_FORPREP}" | (loadbool) "op = OP_LOADBOOL"
    | (test) "op \<in> {OP_EQ, OP_LT, OP_LE, OP_TEST, OP_TESTSET, OP_TFORLOOP}" | (setlist) "op = OP_SETLIST"
    | (closure) "op = OP_CLOSURE" | (return) "op = OP_RETURN"
    | (other) "op \<notin> {OP_JMP, OP_FORLOOP, OP_FORPREP, OP_LOADBOOL, OP_EQ, OP_LT, OP_LE, OP_TEST, OP_TESTSET,
        OP_TFORLOOP, OP_SETLIST, OP_CLOSURE, OP_RETURN}" by blast
  then show ?thesis
  proof cases
    case jump
    from jump_scanned [OF pc0 ok [OF s] op this] nx n op jump show ?thesis by (auto simp: vm_succs_def Let_def)
  next
    case loadbool
    note c = abc [THEN conjunct2]
    have c1: "GETARG_C ?i \<le> 1" using lb nth_mem [of "nat pc" "pt_code pt"] pc0 op_of_nat_is [OF op, of OP_LOADBOOL] loadbool
      by (auto simp: loadbool_plain_def)
    have "scanned pt (pc + 2)" if "GETARG_C ?i \<noteq> 0"
    proof -
      have "GETARG_C ?i = 1" using c1 that getargs_nonneg(3) [of ?i] by linarith
      then have "pc + 2 < sizecode pt" "\<not> is_long_setlist ?d"
        using so loadbool c pc0 by (auto simp: sym_op_def opmode_eqs is_long_setlist_def Let_def split: if_splits)
      from scanned_succ [OF nx this(2)] this(1) loadbool show ?thesis by (simp add: add.commute)
    qed
    with n op loadbool nx show ?thesis by (auto simp: vm_succs_def Let_def)
  next
    case test
    then have T: "pc + 2 < sizecode pt" "GET_OPCODE ?d = opnum OP_JMP" using t by (auto simp: opmode_eqs)
    have s1: "scanned pt (pc + 1)" using nx test by auto
    have opd: "op_of_nat (GET_OPCODE ?d) = Some OP_JMP" unfolding T(2) by (rule op_of_nat_opnum)
    have "scanned pt (pc + 2)" using scanned_succ [OF s1 not_long [OF opd]] T(1) by (simp add: add.commute)
    moreover have "scanned pt (pc + 1 + 1 + GETARG_sBx ?d)"
      by (rule jump_scanned [OF _ _ ok [OF s1] opd]) (use pc0 T(1) in auto)
    ultimately show ?thesis using n op test by (auto simp: vm_succs_def Let_def add.assoc)
  next
    case setlist
    note c = abc [THEN conjunct2]
    have "scanned pt (if GETARG_C ?i = 0 then pc + 2 else pc + 1)"
    proof (cases "GETARG_C ?i = 0")
      case True
      then have "is_long_setlist ?i" using op_of_nat_is [OF op, of OP_SETLIST] setlist by (simp add: is_long_setlist_def)
      moreover have "pc + 2 < sizecode pt"
        using so setlist c True by (auto simp: sym_op_def opmode_eqs Let_def split: if_splits)
      ultimately show ?thesis using scan_from_next [OF s] True by (simp add: scan_next_def)
    next
      case False
      then have "\<not> is_long_setlist ?i" by (simp add: is_long_setlist_def)
      from scanned_succ [OF s this nl] setlist False show ?thesis by simp
    qed
    with n op setlist show ?thesis by (auto simp: vm_succs_def Let_def)
  next
    case closure
    have b: "b = GETARG_Bx ?i" using bc closure by (simp add: sym_operands_def opmode_eqs Let_def)
    let ?n = "unat (pt_nups (pt_p pt ! nat b))"
    have "pc + int ?n < sizecode pt" "closure_args pt pc ?n = Inr True"
      using so closure b getargs_nonneg(4) [of ?i]
      by (auto simp: sym_op_def Let_def nth_result_def bind_result_Inr_conv split: if_splits)
    from closure_scanned [OF this(2) s _ this(1) ret] not_long [OF op] op_of_nat_is [OF op, of OP_RETURN] closure
    have "scanned pt (pc + 1 + int ?n)" by auto
    with n op closure b show ?thesis by (auto simp: vm_succs_def Let_def)
  next
    case return
    with n op show ?thesis by (simp add: vm_succs_def Let_def)
  next
    case other
    with n op nx show ?thesis by (auto simp: vm_succs_def Let_def)
  qed
qed

lemma checkcode_passes:
  assumes "luaG_checkcode pt = Inr True"
  shows "ends_in_return pt" "scanned pt q \<Longrightarrow> passes pt q"
proof -
  obtain i where i: "symbexec pt (sizecode pt) NO_REG = Inr i" "i \<noteq> 0"
    using assms by (auto simp: luaG_checkcode_def bind_result_Inr_conv)
  have pre: "precheck pt = Inr True"
    using i precheck_returns [of pt] by (auto simp: symbexec_def returns_def bind_result_Inr_conv split: if_splits)
  then show "ends_in_return pt" by (rule precheck_return)
  assume "scanned pt q"
  then show "passes pt q"
    using sym_loop_passes [of pt "sizecode pt" NO_REG 0 "sizecode pt - 1" i q] i pre by (simp add: symbexec_def)
qed

lemma scan_from_linear: "scan_from pt p q \<Longrightarrow> scan_from pt p q' \<Longrightarrow> q \<le> q' \<Longrightarrow> scan_from pt q q'"
proof (induction rule: scan_from.induct)
  case (scan_here pc)
  then show ?case by simp
next
  case (scan_step pc q)
  from scan_step.prems(1) show ?case
  proof (cases rule: scan_from.cases)
    case scan_here
    with scan_step.prems(2) scan_from_less [OF scan_step.hyps(2)] show ?thesis
      by (auto simp: scan_next_def split: if_splits)
  next
    case (scan_step)
    with scan_step.IH scan_step.prems(2) show ?thesis by blast
  qed
qed

lemma scanned_not_count: "scanned pt d \<Longrightarrow> \<not> is_count pt d"
proof
  assume s: "scanned pt d" and c: "is_count pt d"
  then have "scan_from pt (d - 1) d" using scan_from_linear [of pt 0 "d - 1" d] by (simp add: is_count_def)
  then show False
    using c by (cases rule: scan_from.cases) (auto simp: is_count_def scan_next_def dest: scan_from_less)
qed

text \<open>
  Claim C10. The code checker never reads outside the vectors of the prototype, whatever the
  chunk contains, and its loop ends: on any prototype, checked up to any position, it returns.
\<close>

theorem symbexec_memory_safe:
  "(\<exists>i. symbexec pt (min lastpc (sizecode pt)) reg = Inr i) \<and> (\<exists>b. luaG_checkcode pt = Inr b)"
proof
  show "\<exists>i. symbexec pt (min lastpc (sizecode pt)) reg = Inr i"
    using symbexec_returns [of "min lastpc (sizecode pt)" pt reg] by (simp add: returns_def)
  show "\<exists>b. luaG_checkcode pt = Inr b"
    using symbexec_returns [of "sizecode pt" pt NO_REG] by (auto simp: returns_def luaG_checkcode_def)
qed


text \<open>A function of two instructions: \<open>LOADBOOL\<close> with the given flag, and \<open>RETURN\<close>.\<close>

definition loadbool_proto :: "int \<Rightarrow> Proto" where
  "loadbool_proto c = Proto [] [CREATE_ABC (opnum OP_LOADBOOL) 0 1 c, CREATE_ABC (opnum OP_RETURN) 0 1 0] [] [] [] []
     None 0 0 0 0 0 2"

lemma loadbool_proto_checked: "luaG_checkcode (loadbool_proto 0) = Inr True" "luaG_checkcode (loadbool_proto 2) = Inr True"
  by code_simp+



end
