(* ===== verification/Lstate.thy ===== *)
theory Lstate
  imports Lobject
begin

text \<open>
  The part of \<open>global_State\<close> (lstate.h) that the write barriers of lgc.h touch: the mark
  byte of every object and the list of objects to be traversed again by the collector.
\<close>

record gc_core =
  marked :: "GCObject \<Rightarrow> lu_byte"
  grayagain :: "GCObject list"

definition WHITE0BIT :: nat where "WHITE0BIT = 0"
definition WHITE1BIT :: nat where "WHITE1BIT = 1"
definition BLACKBIT :: nat where "BLACKBIT = 2"

definition bitmask :: "nat \<Rightarrow> lu_byte" where
  "bitmask b = push_bit b 1"

definition WHITEBITS :: lu_byte where
  "WHITEBITS = bitmask WHITE0BIT OR bitmask WHITE1BIT"

definition iswhite :: "'a gc_core_scheme \<Rightarrow> GCObject \<Rightarrow> bool" where
  "iswhite g x \<longleftrightarrow> marked g x AND WHITEBITS \<noteq> 0"

definition isblack :: "'a gc_core_scheme \<Rightarrow> GCObject \<Rightarrow> bool" where
  "isblack g x \<longleftrightarrow> marked g x AND bitmask BLACKBIT \<noteq> 0"

definition isgray :: "'a gc_core_scheme \<Rightarrow> GCObject \<Rightarrow> bool" where
  "isgray g x \<longleftrightarrow> \<not> isblack g x \<and> \<not> iswhite g x"

definition valiswhite :: "'a gc_core_scheme \<Rightarrow> TValue \<Rightarrow> bool" where
  "valiswhite g v = (case gcvalue v of None \<Rightarrow> False | Some x \<Rightarrow> iswhite g x)"

definition black2gray :: "'a gc_core_scheme \<Rightarrow> GCObject \<Rightarrow> 'a gc_core_scheme" where
  "black2gray g x = g\<lparr>marked := (marked g)(x := marked g x AND NOT (bitmask BLACKBIT))\<rparr>"

definition luaC_barrierback :: "'a gc_core_scheme \<Rightarrow> addr \<Rightarrow> 'a gc_core_scheme" where
  "luaC_barrierback g t = (let g = black2gray g (GCAddr t) in g\<lparr>grayagain := GCAddr t # grayagain g\<rparr>)"

definition luaC_barriert :: "'a gc_core_scheme \<Rightarrow> addr \<Rightarrow> TValue \<Rightarrow> 'a gc_core_scheme" where
  "luaC_barriert g t v =
     (if valiswhite g v \<and> isblack g (GCAddr t) then luaC_barrierback g t else g)"

text \<open>After the backward barrier no black table points to the white value it was given.\<close>

lemma bitmask_BLACKBIT: "bitmask BLACKBIT = 4"
  by (simp add: bitmask_def BLACKBIT_def push_bit_eq_mult)

lemma luaC_barriert_no_black_to_white:
  "\<not> (isblack (luaC_barriert g t v) (GCAddr t) \<and> valiswhite (luaC_barriert g t v) v)"
  by (auto simp: luaC_barriert_def luaC_barrierback_def black2gray_def isblack_def Let_def
      and.assoc bitmask_BLACKBIT)

end
