(* ===== verification/Ltable.thy ===== *)
theory Ltable
  imports Lstate
begin

text \<open>
  ltable.c: Lua tables, an array part and a hash part (a chained scatter table with Brent's
  variation). This theory holds the data and the operations; theory Ltable_inv the invariant
  and the proofs that the operations implement a finite map.

  A node pointer is an index into the node vector of its table; a \<open>TValue *\<close> result of
  a search is a \<open>slot\<close>. The flag \<open>isdummy\<close> says that \<open>t->node\<close> is the shared
  static \<open>dummynode\<close>. A search that follows a cyclic chain would not end: the searches
  carry the number of nodes as a bound, and give \<open>Diverges\<close> past it. The recursion
  \<open>newkey \<rightarrow> rehash \<rightarrow> resize \<rightarrow> luaH_set \<rightarrow> newkey\<close> carries the nesting depth.
  The allocator is assumed to succeed.
\<close>

subsection \<open>Data\<close>

text \<open>A key is a value, or the remains of a collected one (\<open>LUA_TDEADKEY\<close>).\<close>

datatype TKey = Key TValue | DeadKey GCObject

record Node =
  i_val :: TValue
  i_key :: TKey
  nk_next :: "nat option"

record Table =
  t_self :: addr
  flags :: lu_byte
  lsizenode :: nat
  metatable :: "addr option"
  array :: "TValue list"
  isdummy :: bool
  node :: "Node list"
  lastfree :: int
  sizearray :: nat

datatype slot = NilObject | ArraySlot nat | NodeSlot nat

definition sizenode :: "Table \<Rightarrow> nat" where
  "sizenode t = 2 ^ lsizenode t"

definition dummynode :: Node where
  "dummynode = \<lparr>i_val = TNil, i_key = Key TNil, nk_next = None\<rparr>"

definition MAXBITS :: nat where "MAXBITS = 26"
definition MAXASIZE :: nat where "MAXASIZE = 2 ^ MAXBITS"
definition MAX_INT :: nat where "MAX_INT = 2 ^ 31 - 3"

definition slot_val :: "Table \<Rightarrow> slot \<Rightarrow> TValue" where
  "slot_val t s = (case s of NilObject \<Rightarrow> TNil | ArraySlot i \<Rightarrow> array t ! i
     | NodeSlot n \<Rightarrow> i_val (node t ! n))"

text \<open>The assignment \<open>setobj2t(L, slot, v)\<close>.\<close>

definition set_slot :: "Table \<Rightarrow> slot \<Rightarrow> TValue \<Rightarrow> Table" where
  "set_slot t s v = (case s of NilObject \<Rightarrow> t
     | ArraySlot i \<Rightarrow> t\<lparr>array := (array t)[i := v]\<rparr>
     | NodeSlot n \<Rightarrow> t\<lparr>node := (node t)[n := (node t ! n)\<lparr>i_val := v\<rparr>]\<rparr>)"

subsection \<open>Hashing\<close>

definition lmod :: "32 word \<Rightarrow> nat \<Rightarrow> nat" where
  "lmod s sz = unat (s AND (word_of_nat sz - 1))"

definition hashpow2 :: "Table \<Rightarrow> 32 word \<Rightarrow> nat" where
  "hashpow2 t n = lmod n (sizenode t)"

definition hashmod :: "Table \<Rightarrow> 32 word \<Rightarrow> nat" where
  "hashmod t n = unat n mod ((sizenode t - 1) OR 1)"

definition IntPoint :: "addr \<Rightarrow> 32 word" where
  "IntPoint p = ucast p"

definition hashpointer :: "Table \<Rightarrow> addr \<Rightarrow> nat" where
  "hashpointer t p = hashmod t (IntPoint p)"

text \<open>The hash of a string (the loop at the start of \<open>luaS_newlstr\<close>), its \<open>tsv.hash\<close>.\<close>

function hash_loop :: "string \<Rightarrow> nat \<Rightarrow> nat \<Rightarrow> 32 word \<Rightarrow> 32 word" where
  "hash_loop str step l1 h =
     (if step \<le> l1 \<and> 0 < step
      then hash_loop str step (l1 - step)
             (h XOR (push_bit 5 h + drop_bit 2 h + word_of_nat (of_char (str ! (l1 - 1)))))
      else h)"
  by pat_completeness auto
termination
  by (relation "measure (\<lambda>(str, step, l1, h). l1)") auto

declare hash_loop.simps [simp del]

definition luaS_hash :: "string \<Rightarrow> 32 word" where
  "luaS_hash str =
     (let l = length str; step = l div 2 ^ 5 + 1 in hash_loop str step l (word_of_nat l))"

definition hashstr :: "Table \<Rightarrow> TString \<Rightarrow> nat" where
  "hashstr t str = hashpow2 t (luaS_hash str)"

definition hashboolean :: "Table \<Rightarrow> bool \<Rightarrow> nat" where
  "hashboolean t p = hashpow2 t (of_bool p)"

definition hashnum :: "Table \<Rightarrow> lua_Number \<Rightarrow> nat" where
  "hashnum t n =
     (if luai_numeq n 0 then 0
      else hashmod t (ucast n + ucast (drop_bit 32 n)))"

text \<open>No caller passes nil, which has no pointer: the value there is of no consequence.\<close>

fun mainposition :: "Table \<Rightarrow> TValue \<Rightarrow> nat" where
  "mainposition t (TNumber n) = hashnum t n"
| "mainposition t (TStr s) = hashstr t s"
| "mainposition t (TBoolean b) = hashboolean t b"
| "mainposition t (TLightUserdata p) = hashpointer t p"
| "mainposition t (TTable p) = hashpointer t p"
| "mainposition t (TFunction p) = hashpointer t p"
| "mainposition t (TUserdata p) = hashpointer t p"
| "mainposition t (TThread p) = hashpointer t p"
| "mainposition t TNil = 0"

fun arrayindex :: "TValue \<Rightarrow> int" where
  "arrayindex (TNumber n) =
     (let k = lua_number2int n in if luai_numeq (cast_num k) n then k else - 1)"
| "arrayindex _ = - 1"

subsection \<open>Searches\<close>

text \<open>
  The loop \<open>do { if (P(n)) return n; else n = gnext(n); } while (n)\<close> shared by the search
  functions: \<open>Inr None\<close> at the end of the chain.
\<close>

fun chain_search :: "nat \<Rightarrow> (Node \<Rightarrow> bool) \<Rightarrow> Node list \<Rightarrow> nat \<Rightarrow> nat option result" where
  "chain_search 0 P ns n = Inl Diverges"
| "chain_search (Suc fuel) P ns n =
     (if length ns \<le> n then Inl MemoryFault
      else if P (ns ! n) then Inr (Some n)
      else case nk_next (ns ! n) of None \<Rightarrow> Inr None | Some m \<Rightarrow> chain_search fuel P ns m)"

definition node_slot :: "nat option \<Rightarrow> slot" where
  "node_slot r = (case r of None \<Rightarrow> NilObject | Some n \<Rightarrow> NodeSlot n)"

definition key_is_num :: "lua_Number \<Rightarrow> Node \<Rightarrow> bool" where
  "key_is_num nk n = (case i_key n of Key (TNumber m) \<Rightarrow> luai_numeq m nk | _ \<Rightarrow> False)"

definition key_is_str :: "TString \<Rightarrow> Node \<Rightarrow> bool" where
  "key_is_str s n \<longleftrightarrow> i_key n = Key (TStr s)"

definition key_raw_eq :: "TValue \<Rightarrow> Node \<Rightarrow> bool" where
  "key_raw_eq key n = (case i_key n of Key k \<Rightarrow> luaO_rawequalObj k key | DeadKey _ \<Rightarrow> False)"

definition luaH_getnum :: "Table \<Rightarrow> int \<Rightarrow> slot result" where
  "luaH_getnum t key =
     (if (word_of_int (key - 1) :: 32 word) < word_of_nat (sizearray t)
      then Inr (ArraySlot (nat (key - 1)))
      else let nk = cast_num key in
        bind_result (chain_search (length (node t)) (key_is_num nk) (node t) (hashnum t nk))
          (\<lambda>r. Inr (node_slot r)))"

definition luaH_getstr :: "Table \<Rightarrow> TString \<Rightarrow> slot result" where
  "luaH_getstr t key =
     bind_result (chain_search (length (node t)) (key_is_str key) (node t) (hashstr t key))
       (\<lambda>r. Inr (node_slot r))"

definition luaH_get_generic :: "Table \<Rightarrow> TValue \<Rightarrow> slot result" where
  "luaH_get_generic t key =
     bind_result (chain_search (length (node t)) (key_raw_eq key) (node t) (mainposition t key))
       (\<lambda>r. Inr (node_slot r))"

fun luaH_get :: "Table \<Rightarrow> TValue \<Rightarrow> slot result" where
  "luaH_get t TNil = Inr NilObject"
| "luaH_get t (TStr s) = luaH_getstr t s"
| "luaH_get t (TNumber n) =
     (let k = lua_number2int n
      in if luai_numeq (cast_num k) n then luaH_getnum t k else luaH_get_generic t (TNumber n))"
| "luaH_get t key = luaH_get_generic t key"

subsection \<open>Traversal\<close>

definition key_matches_next :: "TValue \<Rightarrow> Node \<Rightarrow> bool" where
  "key_matches_next key n =
     (case i_key n of Key k \<Rightarrow> luaO_rawequalObj k key
      | DeadKey p \<Rightarrow> iscollectable key \<and> gcvalue key = Some p)"

definition findindex :: "Table \<Rightarrow> TValue \<Rightarrow> int result" where
  "findindex t key =
     (if key = TNil then Inr (- 1)
      else let i = arrayindex key in
        if 0 < i \<and> i \<le> int (sizearray t) then Inr (i - 1)
        else bind_result
          (chain_search (length (node t)) (key_matches_next key) (node t) (mainposition t key))
          (\<lambda>r. case r of None \<Rightarrow> Inl (RunError (''invalid key to '' @ LUA_QL ''next''))
             | Some n \<Rightarrow> Inr (int n + int (sizearray t))))"

text \<open>The loops of \<open>luaH_next\<close>: the first index from \<open>i\<close> on with a non-nil value.\<close>

definition next_array :: "Table \<Rightarrow> nat \<Rightarrow> nat option" where
  "next_array t i = find (\<lambda>j. array t ! j \<noteq> TNil) [i..<sizearray t]"

definition next_node :: "Table \<Rightarrow> nat \<Rightarrow> nat option" where
  "next_node t i = find (\<lambda>j. i_val (node t ! j) \<noteq> TNil) [i..<sizenode t]"

fun key2tval :: "TKey \<Rightarrow> TValue" where
  "key2tval (Key k) = k"
| "key2tval (DeadKey _) = TNil"

text \<open>\<open>Inr None\<close> is the return value 0, \<open>Inr (Some (k, v))\<close> the value 1 with the pair stored.\<close>

definition luaH_next :: "Table \<Rightarrow> TValue \<Rightarrow> (TValue \<times> TValue) option result" where
  "luaH_next t key =
     bind_result (findindex t key) (\<lambda>i.
       let i = nat (i + 1) in
       case next_array t i of
         Some j \<Rightarrow> Inr (Some (TNumber (cast_num (int j + 1)), array t ! j))
       | None \<Rightarrow>
           (case next_node t (max i (sizearray t) - sizearray t) of
              Some j \<Rightarrow> Inr (Some (key2tval (i_key (node t ! j)), i_val (node t ! j)))
            | None \<Rightarrow> Inr None))"

subsection \<open>Rehash\<close>

fun computesizes_loop :: "nat list \<Rightarrow> nat \<Rightarrow> nat \<Rightarrow> nat \<Rightarrow> nat \<Rightarrow> nat \<Rightarrow> (nat \<times> nat) result" where
  "computesizes_loop nums twotoi narray a na n =
     (if \<not> twotoi div 2 < narray then Inr (n, na)
      else case nums of [] \<Rightarrow> Inl MemoryFault
      | x # nums \<Rightarrow>
        let a = a + x;
            (n, na) = (if 0 < x \<and> twotoi div 2 < a then (twotoi, a) else (n, na))
        in if a = narray then Inr (n, na) else computesizes_loop nums (twotoi * 2) narray a na n)"

declare computesizes_loop.simps [simp del]

text \<open>The new array size and the number of elements that go to the array part.\<close>

definition computesizes :: "nat list \<Rightarrow> nat \<Rightarrow> (nat \<times> nat) result" where
  "computesizes nums narray = computesizes_loop nums 1 narray 0 0 0"

definition countint :: "TValue \<Rightarrow> nat list \<Rightarrow> nat \<times> nat list" where
  "countint key nums =
     (let k = arrayindex key in
      if 0 < k \<and> k \<le> int MAXASIZE
      then (let l = nat (ceillog2 (word_of_int k)) in (1, nums[l := nums ! l + 1]))
      else (0, nums))"

text \<open>Array elements in use with index from \<open>i\<close> to \<open>lim\<close> (both counted from 1).\<close>

definition count_slice :: "Table \<Rightarrow> nat \<Rightarrow> nat \<Rightarrow> nat" where
  "count_slice t i lim = length (filter (\<lambda>j. array t ! (j - 1) \<noteq> TNil) [i..<lim + 1])"

fun numusearray_loop :: "Table \<Rightarrow> nat \<Rightarrow> nat \<Rightarrow> nat \<Rightarrow> nat \<Rightarrow> nat list \<Rightarrow> nat \<times> nat list" where
  "numusearray_loop t 0 lg i ause nums = (ause, nums)"
| "numusearray_loop t (Suc k) lg i ause nums =
     (let ttlg = 2 ^ lg; lim = min ttlg (sizearray t) in
      if sizearray t < ttlg \<and> lim < i then (ause, nums)
      else let lc = count_slice t i lim
           in numusearray_loop t k (lg + 1) (max i (lim + 1)) (ause + lc) (nums[lg := nums ! lg + lc]))"

definition numusearray :: "Table \<Rightarrow> nat list \<Rightarrow> nat \<times> nat list" where
  "numusearray t nums = numusearray_loop t (MAXBITS + 1) 0 1 0 nums"

text \<open>The loop runs from the last node down to the first.\<close>

fun numusehash_loop :: "Node list \<Rightarrow> nat \<Rightarrow> nat \<Rightarrow> nat list \<Rightarrow> nat \<times> nat \<times> nat list" where
  "numusehash_loop [] totaluse ause nums = (totaluse, ause, nums)"
| "numusehash_loop (n # ns) totaluse ause nums =
     (if i_val n \<noteq> TNil
      then (let (c, nums) = countint (key2tval (i_key n)) nums
            in numusehash_loop ns (totaluse + 1) (ause + c) nums)
      else numusehash_loop ns totaluse ause nums)"

definition numusehash :: "Table \<Rightarrow> nat list \<Rightarrow> nat \<Rightarrow> nat \<times> nat list \<times> nat" where
  "numusehash t nums nasize =
     (let (totaluse, ause, nums) = numusehash_loop (rev (node t)) 0 0 nums
      in (totaluse, nums, nasize + ause))"

definition setarrayvector :: "Table \<Rightarrow> nat \<Rightarrow> Table" where
  "setarrayvector t sz =
     t\<lparr>array := take sz (array t) @ replicate (sz - sizearray t) TNil, sizearray := sz\<rparr>"

definition setnodevector :: "Table \<Rightarrow> nat \<Rightarrow> Table result" where
  "setnodevector t sz =
     (if sz = 0
      then Inr (t\<lparr>isdummy := True, node := [dummynode], lsizenode := 0, lastfree := 0\<rparr>)
      else let lsize = nat (ceillog2 (word_of_nat sz)) in
        if MAXBITS < lsize then Inl (RunError ''table overflow'')
        else let sz = 2 ^ lsize in
          Inr (t\<lparr>isdummy := False, node := replicate sz dummynode, lsizenode := lsize,
                 lastfree := int sz\<rparr>))"

type_synonym 'g newkey_fun = "'g gc_core_scheme \<Rightarrow> Table \<Rightarrow> TValue \<Rightarrow> ('g gc_core_scheme \<times> Table \<times> slot) result"

text \<open>
  \<open>luaH_set\<close> and \<open>luaH_setnum\<close> over a given \<open>newkey\<close>, which itself calls them
  through \<open>rehash\<close>.
\<close>

definition luaH_set_with :: "'g newkey_fun \<Rightarrow> 'g newkey_fun" where
  "luaH_set_with nk L t key =
     bind_result (luaH_get t key) (\<lambda>p.
       let t = t\<lparr>flags := 0\<rparr> in
       if p \<noteq> NilObject then Inr (L, t, p)
       else if key = TNil then Inl (RunError ''table index is nil'')
       else case key of
         TNumber n \<Rightarrow> if luai_numisnan n then Inl (RunError ''table index is NaN'') else nk L t key
       | _ \<Rightarrow> nk L t key)"

definition luaH_setnum_with ::
  "'g newkey_fun \<Rightarrow> 'g gc_core_scheme \<Rightarrow> Table \<Rightarrow> int \<Rightarrow> ('g gc_core_scheme \<times> Table \<times> slot) result" where
  "luaH_setnum_with nk L t key =
     bind_result (luaH_getnum t key) (\<lambda>p.
       if p \<noteq> NilObject then Inr (L, t, p) else nk L t (TNumber (cast_num key)))"

text \<open>Re-inserting a list of entries, the bodies of the two loops of \<open>resize\<close>.\<close>

fun reinsert_array ::
  "'g newkey_fun \<Rightarrow> nat list \<Rightarrow> 'g gc_core_scheme \<Rightarrow> Table \<Rightarrow> ('g gc_core_scheme \<times> Table) result" where
  "reinsert_array nk [] L t = Inr (L, t)"
| "reinsert_array nk (i # is) L t =
     (if array t ! i \<noteq> TNil
      then bind_result (luaH_setnum_with nk L t (int i + 1)) (\<lambda>(L, t', p).
             reinsert_array nk is L (set_slot t' p (array t ! i)))
      else reinsert_array nk is L t)"

fun reinsert_nodes ::
  "'g newkey_fun \<Rightarrow> Node list \<Rightarrow> 'g gc_core_scheme \<Rightarrow> Table \<Rightarrow> ('g gc_core_scheme \<times> Table) result" where
  "reinsert_nodes nk [] L t = Inr (L, t)"
| "reinsert_nodes nk (old # olds) L t =
     (if i_val old \<noteq> TNil
      then bind_result (luaH_set_with nk L t (key2tval (i_key old))) (\<lambda>(L, t, p).
             reinsert_nodes nk olds L (set_slot t p (i_val old)))
      else reinsert_nodes nk olds L t)"

definition resize_with ::
  "'g newkey_fun \<Rightarrow> 'g gc_core_scheme \<Rightarrow> Table \<Rightarrow> nat \<Rightarrow> nat \<Rightarrow> ('g gc_core_scheme \<times> Table) result" where
  "resize_with nk L t nasize nhsize =
     (let oldasize = sizearray t; nold = node t;
          t = (if oldasize < nasize then setarrayvector t nasize else t)
      in bind_result (setnodevector t nhsize) (\<lambda>t.
         bind_result
           (if nasize < oldasize
            then bind_result (reinsert_array nk [nasize..<oldasize] L (t\<lparr>sizearray := nasize\<rparr>))
                   (\<lambda>(L, t). Inr (L, t\<lparr>array := take nasize (array t)\<rparr>))
            else Inr (L, t))
           (\<lambda>(L, t). reinsert_nodes nk (rev nold) L t)))"

definition rehash_with ::
  "'g newkey_fun \<Rightarrow> 'g gc_core_scheme \<Rightarrow> Table \<Rightarrow> TValue \<Rightarrow> ('g gc_core_scheme \<times> Table) result" where
  "rehash_with nk L t ek =
     (let nums = replicate (MAXBITS + 1) 0;
          (nasize, nums) = numusearray t nums;
          totaluse = nasize;
          (tu, nums, nasize) = numusehash t nums nasize;
          totaluse = totaluse + tu;
          (c, nums) = countint ek nums;
          nasize = nasize + c;
          totaluse = totaluse + 1
      in bind_result (computesizes nums nasize) (\<lambda>(nasize, na).
           resize_with nk L t nasize (totaluse - na)))"

subsection \<open>Insertion\<close>

text \<open>
  \<open>while (t->lastfree-- > t->node)\<close>: the pointer moves down even when the test fails.
\<close>

function getfreepos_loop :: "Node list \<Rightarrow> int \<Rightarrow> nat option \<times> int" where
  "getfreepos_loop ns lf =
     (if 0 < lf
      then if i_key (ns ! nat (lf - 1)) = Key TNil then (Some (nat (lf - 1)), lf - 1)
           else getfreepos_loop ns (lf - 1)
      else (None, lf - 1))"
  by pat_completeness auto
termination
  by (relation "measure (\<lambda>(ns, lf). nat lf)") auto

declare getfreepos_loop.simps [simp del]

definition getfreepos :: "Table \<Rightarrow> nat option \<times> Table" where
  "getfreepos t = (let (r, lf) = getfreepos_loop (node t) (lastfree t) in (r, t\<lparr>lastfree := lf\<rparr>))"

text \<open>\<open>while (gnext(othern) != mp) othern = gnext(othern);\<close>\<close>

fun find_previous :: "nat \<Rightarrow> Node list \<Rightarrow> nat \<Rightarrow> nat \<Rightarrow> nat result" where
  "find_previous 0 ns mp othern = Inl Diverges"
| "find_previous (Suc fuel) ns mp othern =
     (if length ns \<le> othern then Inl MemoryFault
      else case nk_next (ns ! othern) of
        None \<Rightarrow> Inl MemoryFault
      | Some m \<Rightarrow> if m = mp then Inr othern else find_previous fuel ns mp m)"

text \<open>A free node \<open>n\<close> was found for a key whose main position \<open>mp\<close> is taken.\<close>

definition place_colliding :: "Table \<Rightarrow> nat \<Rightarrow> nat \<Rightarrow> (Table \<times> nat) result" where
  "place_colliding t mp n =
     (let othern = mainposition t (key2tval (i_key (node t ! mp))) in
      if othern \<noteq> mp
      then bind_result (find_previous (length (node t)) (node t) mp othern) (\<lambda>prev.
        let ns = (node t)[prev := (node t ! prev)\<lparr>nk_next := Some n\<rparr>];
            ns = ns[n := ns ! mp];
            ns = ns[mp := (ns ! mp)\<lparr>nk_next := None, i_val := TNil\<rparr>]
        in Inr (t\<lparr>node := ns\<rparr>, mp))
      else
        let ns = (node t)[n := (node t ! n)\<lparr>nk_next := nk_next (node t ! mp)\<rparr>];
            ns = ns[mp := (ns ! mp)\<lparr>nk_next := Some n\<rparr>]
        in Inr (t\<lparr>node := ns\<rparr>, n))"

definition finish_newkey ::
  "'g gc_core_scheme \<Rightarrow> Table \<Rightarrow> nat \<Rightarrow> TValue \<Rightarrow> 'g gc_core_scheme \<times> Table \<times> slot" where
  "finish_newkey L t mp key =
     (luaC_barriert L (t_self t) key,
      t\<lparr>node := (node t)[mp := (node t ! mp)\<lparr>i_key := Key key\<rparr>]\<rparr>, NodeSlot mp)"

primrec newkey :: "nat \<Rightarrow> 'g newkey_fun" where
  "newkey 0 L t key = Inl Diverges"
| "newkey (Suc depth) L t key =
     (let mp = mainposition t key in
      if i_val (node t ! mp) \<noteq> TNil \<or> isdummy t
      then case getfreepos t of
          (None, t) \<Rightarrow>
            bind_result (rehash_with (newkey depth) L t key) (\<lambda>(L, t).
              luaH_set_with (newkey depth) L t key)
        | (Some n, t) \<Rightarrow>
            bind_result (place_colliding t mp n) (\<lambda>(t, mp). Inr (finish_newkey L t mp key))
      else Inr (finish_newkey L t mp key))"

text \<open>Depth 2: a rehash makes room for every entry, so the insertions inside it never rehash.\<close>

definition newkey_depth :: nat where "newkey_depth = 2"

definition luaH_set :: "'g newkey_fun" where
  "luaH_set = luaH_set_with (newkey newkey_depth)"

definition luaH_setnum ::
  "'g gc_core_scheme \<Rightarrow> Table \<Rightarrow> int \<Rightarrow> ('g gc_core_scheme \<times> Table \<times> slot) result" where
  "luaH_setnum = luaH_setnum_with (newkey newkey_depth)"

definition luaH_setstr ::
  "'g gc_core_scheme \<Rightarrow> Table \<Rightarrow> TString \<Rightarrow> ('g gc_core_scheme \<times> Table \<times> slot) result" where
  "luaH_setstr L t key =
     bind_result (luaH_getstr t key) (\<lambda>p.
       if p \<noteq> NilObject then Inr (L, t, p) else newkey newkey_depth L t (TStr key))"

definition luaH_resizearray ::
  "'g gc_core_scheme \<Rightarrow> Table \<Rightarrow> nat \<Rightarrow> ('g gc_core_scheme \<times> Table) result" where
  "luaH_resizearray L t nasize =
     (let nsize = (if isdummy t then 0 else sizenode t)
      in resize_with (newkey newkey_depth) L t nasize nsize)"

definition luaH_new :: "addr \<Rightarrow> nat \<Rightarrow> nat \<Rightarrow> Table result" where
  "luaH_new self narray nhash =
     (let t = \<lparr>t_self = self, flags = NOT 0, lsizenode = 0, metatable = None, array = [],
               isdummy = True, node = [dummynode], lastfree = 0, sizearray = 0\<rparr>
      in setnodevector (setarrayvector t narray) nhash)"

subsection \<open>Boundary search\<close>

definition nil_at :: "Table \<Rightarrow> nat \<Rightarrow> bool result" where
  "nil_at t j = bind_result (luaH_getnum t (int j)) (\<lambda>p. Inr (slot_val t p = TNil))"

text \<open>\<open>while (j - i > 1)\<close> with \<open>m = (i+j)/2\<close>, over the test \<open>isnil m\<close>.\<close>

function binsearch :: "(nat \<Rightarrow> bool result) \<Rightarrow> nat \<Rightarrow> nat \<Rightarrow> nat result" where
  "binsearch isnil i j =
     (if 1 < j - i
      then let m = (i + j) div 2 in
        bind_result (isnil m) (\<lambda>b. if b then binsearch isnil i m else binsearch isnil m j)
      else Inr i)"
  by pat_completeness auto
termination
  by (relation "measure (\<lambda>(f, i, j). j - i)") auto

declare binsearch.simps [simp del]

fun linear_search :: "nat \<Rightarrow> Table \<Rightarrow> nat \<Rightarrow> nat result" where
  "linear_search 0 t i = Inl Diverges"
| "linear_search (Suc fuel) t i =
     bind_result (nil_at t i) (\<lambda>b. if b then Inr (i - 1) else linear_search fuel t (i + 1))"

fun unbound_loop :: "nat \<Rightarrow> Table \<Rightarrow> nat \<Rightarrow> nat \<Rightarrow> nat result" where
  "unbound_loop 0 t i j = Inl Diverges"
| "unbound_loop (Suc fuel) t i j =
     bind_result (nil_at t j) (\<lambda>b.
       if b then binsearch (nil_at t) i j
       else let i = j; j = j * 2 in
         if MAX_INT < j then linear_search (sizearray t + sizenode t + 2) t 1
         else unbound_loop fuel t i j)"

definition unbound_search :: "Table \<Rightarrow> nat \<Rightarrow> nat result" where
  "unbound_search t j = unbound_loop 32 t j (j + 1)"

definition luaH_getn :: "Table \<Rightarrow> nat result" where
  "luaH_getn t =
     (let j = sizearray t in
      if 0 < j \<and> array t ! (j - 1) = TNil
      then binsearch (\<lambda>m. Inr (array t ! (m - 1) = TNil)) 0 j
      else if isdummy t then Inr j
      else unbound_search t j)"

end
