(* ===== verification/Ltable_chain.thy ===== *)
theory Ltable_chain
  imports Ltable
begin

text \<open>
  The hash part of a table as a set of chains: paths along the \<open>next\<close> links, the
  well-formedness \<open>wf_h\<close> of a node vector, and its preservation by the three ways
  \<open>newkey\<close> of ltable.c places a key (over a dead entry, after the owner of the main
  position, or in place of a guest that moves away).
\<close>

subsection \<open>Chains\<close>

fun path :: "(nat \<Rightarrow> nat option) \<Rightarrow> nat \<Rightarrow> nat list \<Rightarrow> bool" where
  "path nx i [] = False"
| "path nx i (x # xs) \<longleftrightarrow> x = i \<and> (case nx i of None \<Rightarrow> xs = [] | Some j \<Rightarrow> path nx j xs)"

lemma path_unique: "path nx i xs \<Longrightarrow> path nx i ys \<Longrightarrow> xs = ys"
  by (induction nx i xs arbitrary: ys rule: path.induct) (case_tac ys; auto split: option.splits)+

lemma path_hd: "path nx i xs \<Longrightarrow> i \<in> set xs"
  by (cases xs) auto

lemma path_suffix: "path nx i xs \<Longrightarrow> j \<in> set xs \<Longrightarrow> \<exists>ys zs. xs = ys @ zs \<and> path nx j zs"
proof (induction nx i xs rule: path.induct)
  case (2 nx i x xs)
  show ?case
  proof (cases "j = i")
    case True
    with 2 show ?thesis by (intro exI [of _ "[]"] exI [of _ "x # xs"]) auto
  next
    case False
    with 2 obtain k where k: "nx i = Some k" "path nx k xs" "j \<in> set xs"
      by (auto split: option.splits)
    with 2 obtain ys zs where "xs = ys @ zs" "path nx j zs" by blast
    then show ?thesis by (intro exI [of _ "x # ys"] exI [of _ zs]) auto
  qed
qed simp

lemma path_distinct: "path nx i xs \<Longrightarrow> distinct xs"
proof (induction nx i xs rule: path.induct)
  case (2 nx i x xs)
  have "i \<notin> set xs"
  proof
    assume i: "i \<in> set xs"
    with 2(2) obtain k where k: "nx i = Some k" "path nx k xs" by (auto split: option.splits)
    from path_suffix [OF k(2) i] obtain ys zs where "xs = ys @ zs" "path nx i zs" by blast
    moreover have "path nx i (i # xs)" using k by simp
    ultimately have "i # ys @ zs = zs" using path_unique by metis
    then show False by (metis append_Cons append_self_conv2 list.distinct(1))
  qed
  with 2 show ?case by (auto split: option.splits)
qed simp

lemma path_range:
  "path nx i xs \<Longrightarrow> i < N \<Longrightarrow> (\<And>a b. a < N \<Longrightarrow> nx a = Some b \<Longrightarrow> b < N) \<Longrightarrow> set xs \<subseteq> {..<N}"
  by (induction nx i xs rule: path.induct) (auto split: option.splits)

lemma path_length:
  assumes "path nx i xs" "i < N" "\<And>a b. a < N \<Longrightarrow> nx a = Some b \<Longrightarrow> b < N"
  shows "length xs \<le> N"
proof -
  have "card (set xs) \<le> card {..<N}" using path_range [OF assms] by (intro card_mono) auto
  then show ?thesis using path_distinct [OF assms(1)] by (simp add: distinct_card)
qed

lemma path_insert_after:
  "path nx i xs \<Longrightarrow> n \<notin> set xs \<Longrightarrow> n \<noteq> mp \<Longrightarrow>
   path (nx(n := nx mp, mp := Some n)) i (concat (map (\<lambda>x. if x = mp then [mp, n] else [x]) xs))"
  by (induction nx i xs rule: path.induct) (auto split: option.splits)

lemma path_move:
  assumes "n \<noteq> mp" "prev \<noteq> n" "prev \<noteq> mp" "nx prev = Some mp"
    and prev: "\<And>j. j < N \<Longrightarrow> nx j = Some mp \<Longrightarrow> j = prev"
    and nn: "nx mp \<noteq> Some mp"
  shows "path nx i xs \<Longrightarrow> n \<notin> set xs \<Longrightarrow> set xs \<subseteq> {..<N} \<Longrightarrow>
     path (nx(prev := Some n, n := nx mp, mp := None)) (if i = mp then n else i)
       (map (\<lambda>x. if x = mp then n else x) xs)"
proof (induction xs arbitrary: i)
  case (Cons x xs)
  show ?case
  proof (cases "nx i")
    case None
    with Cons.prems assms(1-4) show ?thesis by auto
  next
    case (Some j)
    with Cons.prems have p: "path nx j xs" "n \<notin> set xs" "set xs \<subseteq> {..<N}" "i \<noteq> n" "x = i" "i < N"
      by auto
    have "(nx(prev := Some n, n := nx mp, mp := None)) (if i = mp then n else i)
        = Some (if j = mp then n else j)"
      using Some assms(1-4) prev [of i] nn p(4,6) by auto
    with Cons.IH [OF p(1,2,3)] p(5) show ?thesis
      by (simp only: list.map path.simps option.case simp_thms)
  qed
qed simp

lemma chain_search_path:
  assumes "path (\<lambda>i. nk_next (ns ! i)) i xs" "set xs \<subseteq> {..<length ns}" "length xs \<le> fuel"
  shows "chain_search fuel P ns i = Inr (find (\<lambda>n. P (ns ! n)) xs)"
  using assms
proof (induction fuel arbitrary: i xs)
  case 0
  then show ?case by (cases xs) auto
next
  case (Suc fuel)
  then show ?case by (cases xs) (auto split: option.splits)
qed

lemma find_previous_path:
  assumes "path (\<lambda>i. nk_next (ns ! i)) i xs" "set xs \<subseteq> {..<length ns}" "length xs \<le> fuel"
    "mp \<in> set xs" "i \<noteq> mp"
  shows "\<exists>prev. find_previous fuel ns mp i = Inr prev \<and> prev \<in> set xs \<and> nk_next (ns ! prev) = Some mp"
  using assms
proof (induction fuel arbitrary: i xs)
  case 0
  then show ?case by (cases xs) auto
next
  case (Suc fuel)
  then obtain ys where xs: "xs = i # ys" by (cases xs) auto
  with Suc obtain j where j: "nk_next (ns ! i) = Some j" "path (\<lambda>i. nk_next (ns ! i)) j ys"
    by (auto split: option.splits)
  show ?case
  proof (cases "j = mp")
    case True
    with j xs Suc.prems show ?thesis by auto
  next
    case False
    with Suc.IH [OF j(2)] Suc.prems xs j show ?thesis by auto
  qed
qed


subsection \<open>Well-formed node vectors\<close>

definition valid_key :: "TValue \<Rightarrow> bool" where
  "valid_key k \<longleftrightarrow> k \<noteq> TNil \<and> (\<forall>n. k = TNumber n \<longrightarrow> \<not> dbl_isnan n)"

definition next_ok :: "nat \<Rightarrow> (nat \<Rightarrow> nat option) \<Rightarrow> (nat \<Rightarrow> TKey) \<Rightarrow> bool" where
  "next_ok N nx ky \<longleftrightarrow> (\<forall>i<N. \<forall>j. nx i = Some j \<longrightarrow> j < N \<and> ky j \<noteq> Key TNil)"

definition next_inj :: "nat \<Rightarrow> (nat \<Rightarrow> nat option) \<Rightarrow> bool" where
  "next_inj N nx \<longleftrightarrow> (\<forall>i<N. \<forall>j<N. \<forall>l. nx i = Some l \<longrightarrow> nx j = Some l \<longrightarrow> i = j)"

definition paths_end :: "nat \<Rightarrow> (nat \<Rightarrow> nat option) \<Rightarrow> bool" where
  "paths_end N nx \<longleftrightarrow> (\<forall>i<N. \<exists>xs. path nx i xs)"

definition free_ok :: "nat \<Rightarrow> (nat \<Rightarrow> nat option) \<Rightarrow> (nat \<Rightarrow> TKey) \<Rightarrow> (nat \<Rightarrow> TValue) \<Rightarrow> bool" where
  "free_ok N nx ky vl \<longleftrightarrow> (\<forall>i<N. ky i = Key TNil \<longrightarrow> nx i = None \<and> vl i = TNil)"

definition dead_ok :: "nat \<Rightarrow> (nat \<Rightarrow> TKey) \<Rightarrow> (nat \<Rightarrow> TValue) \<Rightarrow> bool" where
  "dead_ok N ky vl \<longleftrightarrow> (\<forall>i<N. \<forall>g. ky i = DeadKey g \<longrightarrow> vl i = TNil)"

definition keys_valid :: "nat \<Rightarrow> (nat \<Rightarrow> TKey) \<Rightarrow> bool" where
  "keys_valid N ky \<longleftrightarrow> (\<forall>i<N. \<forall>k. ky i = Key k \<longrightarrow> k \<noteq> TNil \<longrightarrow> valid_key k)"

definition keys_reach :: "nat \<Rightarrow> (TValue \<Rightarrow> nat) \<Rightarrow> (nat \<Rightarrow> nat option) \<Rightarrow> (nat \<Rightarrow> TKey) \<Rightarrow> bool" where
  "keys_reach N mpos nx ky \<longleftrightarrow> (\<forall>i<N. \<forall>k. ky i = Key k \<longrightarrow> k \<noteq> TNil \<longrightarrow> (\<exists>xs. path nx (mpos k) xs \<and> i \<in> set xs))"

definition main_ok :: "nat \<Rightarrow> (TValue \<Rightarrow> nat) \<Rightarrow> (nat \<Rightarrow> TKey) \<Rightarrow> bool" where
  "main_ok N mpos ky \<longleftrightarrow> (\<forall>i<N. \<forall>k. ky i = Key k \<longrightarrow> k \<noteq> TNil \<longrightarrow> (\<forall>k'. ky (mpos k) = Key k' \<longrightarrow> k' \<noteq> TNil \<and> mpos k' = mpos k))"

definition keys_uniq :: "nat \<Rightarrow> (nat \<Rightarrow> TKey) \<Rightarrow> bool" where
  "keys_uniq N ky \<longleftrightarrow> (\<forall>i<N. \<forall>j<N. \<forall>k k'. ky i = Key k \<longrightarrow> ky j = Key k' \<longrightarrow> k \<noteq> TNil \<longrightarrow> luaO_rawequalObj k k' \<longrightarrow> i = j)"

definition wf_h ::
  "nat \<Rightarrow> (TValue \<Rightarrow> nat) \<Rightarrow> (nat \<Rightarrow> nat option) \<Rightarrow> (nat \<Rightarrow> TKey) \<Rightarrow> (nat \<Rightarrow> TValue) \<Rightarrow> bool" where
  "wf_h N mpos nx ky vl \<longleftrightarrow> next_ok N nx ky \<and> next_inj N nx \<and> paths_end N nx \<and>
     free_ok N nx ky vl \<and> dead_ok N ky vl \<and> keys_valid N ky \<and> keys_reach N mpos nx ky \<and>
     main_ok N mpos ky \<and> keys_uniq N ky"

lemmas wf_h_parts = next_ok_def next_inj_def paths_end_def free_ok_def dead_ok_def keys_valid_def
  keys_reach_def main_ok_def keys_uniq_def

lemma next_okD: "wf_h N mpos nx ky vl \<Longrightarrow> i < N \<Longrightarrow> nx i = Some j \<Longrightarrow> j < N \<and> ky j \<noteq> Key TNil"
  unfolding wf_h_def next_ok_def by blast

lemma next_injD: "wf_h N mpos nx ky vl \<Longrightarrow> i < N \<Longrightarrow> j < N \<Longrightarrow> nx i = Some l \<Longrightarrow> nx j = Some l \<Longrightarrow> i = j"
  unfolding wf_h_def next_inj_def by blast

lemma paths_endD: "wf_h N mpos nx ky vl \<Longrightarrow> i < N \<Longrightarrow> \<exists>xs. path nx i xs"
  unfolding wf_h_def paths_end_def by blast

lemma free_okD: "wf_h N mpos nx ky vl \<Longrightarrow> i < N \<Longrightarrow> ky i = Key TNil \<Longrightarrow> nx i = None \<and> vl i = TNil"
  unfolding wf_h_def free_ok_def by blast

lemma dead_okD: "wf_h N mpos nx ky vl \<Longrightarrow> i < N \<Longrightarrow> ky i = DeadKey g \<Longrightarrow> vl i = TNil"
  unfolding wf_h_def dead_ok_def by blast

lemma keys_validD: "wf_h N mpos nx ky vl \<Longrightarrow> i < N \<Longrightarrow> ky i = Key k \<Longrightarrow> k \<noteq> TNil \<Longrightarrow> valid_key k"
  unfolding wf_h_def keys_valid_def by blast

lemma keys_reachD: "wf_h N mpos nx ky vl \<Longrightarrow> i < N \<Longrightarrow> ky i = Key k \<Longrightarrow> k \<noteq> TNil \<Longrightarrow> \<exists>xs. path nx (mpos k) xs \<and> i \<in> set xs"
  unfolding wf_h_def keys_reach_def by blast

lemma main_okD: "wf_h N mpos nx ky vl \<Longrightarrow> i < N \<Longrightarrow> ky i = Key k \<Longrightarrow> k \<noteq> TNil \<Longrightarrow> ky (mpos k) = Key k' \<Longrightarrow> k' \<noteq> TNil \<and> mpos k' = mpos k"
  unfolding wf_h_def main_ok_def by blast

lemma keys_uniqD: "wf_h N mpos nx ky vl \<Longrightarrow> i < N \<Longrightarrow> j < N \<Longrightarrow> ky i = Key k \<Longrightarrow> ky j = Key k' \<Longrightarrow> k \<noteq> TNil \<Longrightarrow> luaO_rawequalObj k k' \<Longrightarrow> i = j"
  unfolding wf_h_def keys_uniq_def by blast

lemmas wf_hD = next_okD next_injD paths_endD free_okD dead_okD keys_validD keys_reachD main_okD keys_uniqD

lemma wf_h_path_range:
  assumes "wf_h N mpos nx ky vl" "path nx i xs" "i < N"
  shows "set xs \<subseteq> {..<N}"
  using path_range [OF assms(2,3)] wf_hD(1) [OF assms(1)] by blast

text \<open>A free node is on no chain but its own.\<close>

lemma wf_h_free_not_in_path:
  assumes wf: "wf_h N mpos nx ky vl" and "path nx i xs" "i < N" "ky n = Key TNil" "i \<noteq> n"
  shows "n \<notin> set xs"
  using assms(2-)
proof (induction xs arbitrary: i)
  case (Cons x xs)
  show ?case
  proof (cases "nx i")
    case None
    with Cons show ?thesis by auto
  next
    case (Some j)
    with wf_hD(1) [OF wf Cons.prems(2)] Cons.prems(3) have "j < N" "j \<noteq> n" by auto
    with Some Cons show ?thesis by auto
  qed
qed simp

definition fresh_key :: "nat \<Rightarrow> (nat \<Rightarrow> TKey) \<Rightarrow> TValue \<Rightarrow> bool" where
  "fresh_key N ky k \<longleftrightarrow> (\<forall>i<N. \<forall>k'. ky i = Key k' \<longrightarrow> \<not> luaO_rawequalObj k' k)"

lemma fresh_keyD:
  "fresh_key N ky k \<Longrightarrow> i < N \<Longrightarrow> ky i = Key k' \<Longrightarrow> \<not> luaO_rawequalObj k' k \<and> \<not> luaO_rawequalObj k k'"
  by (auto simp: fresh_key_def rawequalObj_sym [of k])

text \<open>The main position holds no live value: the key is written over it.\<close>

lemma keys_uniq_upd:
  assumes wf: "wf_h N mpos nx ky vl" and k: "fresh_key N ky k"
  shows "keys_uniq N (ky(n := Key k))"
  unfolding keys_uniq_def
proof (intro allI impI)
  fix i j k1 k2
  assume h: "i < N" "j < N" "(ky(n := Key k)) i = Key k1" "(ky(n := Key k)) j = Key k2" "k1 \<noteq> TNil"
    "luaO_rawequalObj k1 k2"
  show "i = j"
  proof (cases "i = n \<or> j = n")
    case True
    with h fresh_keyD [OF k, of i k1] fresh_keyD [OF k, of j k2] show ?thesis
      by (cases "i = n"; cases "j = n"; simp)
  next
    case False
    with h keys_uniqD [OF wf, of i j k1 k2] show ?thesis by simp
  qed
qed

lemma keys_valid_upd:
  assumes wf: "wf_h N mpos nx ky vl" and k: "valid_key k"
  shows "keys_valid N (ky(n := Key k))" "dead_ok N (ky(n := Key k)) vl"
proof -
  show "keys_valid N (ky(n := Key k))"
    unfolding keys_valid_def
  proof (intro allI impI)
    fix i k' assume "i < N" "(ky(n := Key k)) i = Key k'" "k' \<noteq> TNil"
    with k keys_validD [OF wf, of i k'] show "valid_key k'" by (simp split: if_splits)
  qed
  show "dead_ok N (ky(n := Key k)) vl"
    unfolding dead_ok_def
  proof (intro allI impI)
    fix i g assume "i < N" "(ky(n := Key k)) i = DeadKey g"
    with dead_okD [OF wf, of i g] show "vl i = TNil" by (simp split: if_splits)
  qed
qed

lemma valid_key_not_nil: "valid_key k \<Longrightarrow> k \<noteq> TNil"
  by (simp add: valid_key_def)

lemma main_not_free:
  assumes "wf_h N mpos nx ky vl" "i < N" "ky i = Key k'" "k' \<noteq> TNil" "\<And>k. mpos k < N" "ky n = Key TNil"
  shows "mpos k' \<noteq> n \<and> mpos k' < N"
  using main_okD [OF assms(1-4)] assms(5,6) by metis

lemma wf_h_overwrite:
  assumes wf: "wf_h N mpos nx ky vl" and mp: "mp < N" "mpos k = mp" "vl mp = TNil"
    and k: "valid_key k" "fresh_key N ky k"
  shows "wf_h N mpos nx (ky(mp := Key k)) vl"
proof -
  note k0 = valid_key_not_nil [OF k(1)]
  have "next_ok N nx (ky(mp := Key k))" "free_ok N nx (ky(mp := Key k)) vl"
    using next_okD [OF wf] free_okD [OF wf] k0 unfolding next_ok_def free_ok_def
    by (metis fun_upd_apply TKey.inject(1))+
  moreover have "keys_reach N mpos nx (ky(mp := Key k))"
    unfolding keys_reach_def
  proof (intro allI impI)
    fix i k' assume h: "i < N" "(ky(mp := Key k)) i = Key k'" "k' \<noteq> TNil"
    show "\<exists>xs. path nx (mpos k') xs \<and> i \<in> set xs"
    proof (cases "i = mp")
      case True
      with h mp paths_endD [OF wf mp(1)] path_hd show ?thesis by auto
    next
      case False
      with h keys_reachD [OF wf, of i k'] show ?thesis by simp
    qed
  qed
  moreover have "main_ok N mpos (ky(mp := Key k))"
    unfolding main_ok_def
  proof (intro allI impI)
    fix i k1 k2 assume h: "i < N" "(ky(mp := Key k)) i = Key k1" "k1 \<noteq> TNil"
      "(ky(mp := Key k)) (mpos k1) = Key k2"
    show "k2 \<noteq> TNil \<and> mpos k2 = mpos k1"
    proof (cases "mpos k1 = mp")
      case True
      with h mp(2) k0 show ?thesis by simp
    next
      case False
      with h mp(2) main_okD [OF wf, of i k1 k2] show ?thesis by (cases "i = mp") simp_all
    qed
  qed
  ultimately show ?thesis
    using wf keys_uniq_upd [OF wf k(2), of mp] keys_valid_upd [OF wf k(1), of mp]
    unfolding wf_h_def by simp
qed

text \<open>The key of the main position belongs there: the new key goes to the free node \<open>n\<close>.\<close>

lemma wf_h_insert_after:
  assumes wf: "wf_h N mpos nx ky vl" and mp: "mp < N" "mpos k = mp" "ky mp = Key kk" "kk \<noteq> TNil" "mpos kk = mp"
    and n: "n < N" "ky n = Key TNil" and k: "valid_key k" "fresh_key N ky k"
    and mpos: "\<And>k. mpos k < N"
  shows "wf_h N mpos (nx(n := nx mp, mp := Some n)) (ky(n := Key k)) vl"
proof -
  let ?nx = "nx(n := nx mp, mp := Some n)" and ?ky = "ky(n := Key k)"
  let ?ins = "\<lambda>xs. concat (map (\<lambda>x. if x = mp then [mp, n] else [x]) xs)"
  note k0 = valid_key_not_nil [OF k(1)]
  have nmp: "n \<noteq> mp" using mp n by auto
  have path: "path ?nx i (?ins xs)" if "path nx i xs" "i < N" "i \<noteq> n" for i xs
    using path_insert_after [OF that(1) wf_h_free_not_in_path [OF wf that(1,2) n(2) that(3)] nmp] .
  have ins: "set xs \<subseteq> set (?ins xs)" for xs by auto
  obtain ms where ms: "path nx mp ms" using paths_endD [OF wf mp(1)] by blast
  have nms: "path ?nx mp (?ins ms)" "n \<in> set (?ins ms)"
    using path [OF ms mp(1)] nmp path_hd [OF ms] by auto
  have "next_ok N ?nx ?ky"
    unfolding next_ok_def
  proof (intro allI impI)
    fix i j assume h: "i < N" "?nx i = Some j"
    with mp(1,3,4) n(1) k0 nmp next_okD [OF wf, of i j] next_okD [OF wf mp(1), of j]
    show "j < N \<and> ?ky j \<noteq> Key TNil" by (simp split: if_splits)
  qed
  moreover have "next_inj N ?nx"
    unfolding next_inj_def
  proof (intro allI impI)
    fix i j l assume h: "i < N" "j < N" "?nx i = Some l" "?nx j = Some l"
    have "nx i' \<noteq> Some n" if "i' < N" for i' using next_okD [OF wf that] n(2) by blast
    with h mp(1) next_injD [OF wf, of i j l] next_injD [OF wf, of mp j l] next_injD [OF wf, of i mp l] nmp
    show "i = j" by (auto split: if_splits)
  qed
  moreover have "paths_end N ?nx"
    unfolding paths_end_def
  proof (intro allI impI)
    fix i assume i: "i < N"
    show "\<exists>xs. path ?nx i xs"
    proof (cases "i = n")
      case True
      with path_suffix [OF nms] show ?thesis by blast
    next
      case False
      with path [OF _ i] paths_endD [OF wf i] show ?thesis by blast
    qed
  qed
  moreover have "free_ok N ?nx ?ky vl"
    using free_okD [OF wf] mp k0 unfolding free_ok_def by (metis fun_upd_apply TKey.inject(1))
  moreover note reach = main_not_free [OF wf _ _ _ mpos n(2)]
  moreover have "keys_reach N mpos ?nx ?ky"
    unfolding keys_reach_def
  proof (intro allI impI)
    fix i k' assume h: "i < N" "?ky i = Key k'" "k' \<noteq> TNil"
    show "\<exists>xs. path ?nx (mpos k') xs \<and> i \<in> set xs"
    proof (cases "i = n")
      case True
      with h nms mp(2) show ?thesis by auto
    next
      case False
      with h have i: "ky i = Key k'" by simp
      from keys_reachD [OF wf h(1) i h(3)] obtain xs where "path nx (mpos k') xs" "i \<in> set xs" by blast
      with path [of "mpos k'" xs] reach [OF h(1) i h(3)] ins [of xs] show ?thesis by blast
    qed
  qed
  moreover have "main_ok N mpos ?ky"
    unfolding main_ok_def
  proof (intro allI impI)
    fix i k1 k2 assume h: "i < N" "?ky i = Key k1" "k1 \<noteq> TNil" "?ky (mpos k1) = Key k2"
    show "k2 \<noteq> TNil \<and> mpos k2 = mpos k1"
    proof (cases "i = n")
      case True
      with h mp nmp show ?thesis by simp
    next
      case False
      with h reach [of i k1] main_okD [OF wf, of i k1 k2] show ?thesis by simp
    qed
  qed
  ultimately show ?thesis
    using keys_uniq_upd [OF wf k(2), of n] keys_valid_upd [OF wf k(1), of n]
    unfolding wf_h_def by simp
qed

text \<open>
  The key of the main position \<open>mp\<close> is a guest there: it moves to the free node \<open>n\<close>, and the
  new key takes its main position.
\<close>

lemma wf_h_move:
  assumes wf: "wf_h N mpos nx ky vl"
    and mp: "mp < N" "mpos k = mp" "ky mp = Key kk" "kk \<noteq> TNil" "mpos kk \<noteq> mp"
    and prev: "prev < N" "nx prev = Some mp"
    and n: "n < N" "ky n = Key TNil" and k: "valid_key k" "fresh_key N ky k"
    and mpos: "\<And>k. mpos k < N"
  shows "wf_h N mpos (nx(prev := Some n, n := nx mp, mp := None)) (ky(n := Key kk, mp := Key k))
     (vl(n := vl mp, mp := TNil))"
proof -
  let ?nx = "nx(prev := Some n, n := nx mp, mp := None)" and ?ky = "ky(n := Key kk, mp := Key k)"
  let ?vl = "vl(n := vl mp, mp := TNil)"
  let ?f = "\<lambda>x. if x = mp then n else x"
  note k0 = valid_key_not_nil [OF k(1)]
  have nmp: "n \<noteq> mp" using mp n by auto
  have pn: "prev \<noteq> n" using prev free_okD [OF wf n] by auto
  obtain ms where ms: "path nx mp ms" using paths_endD [OF wf mp(1)] by blast
  have nn: "nx mp \<noteq> Some mp"
  proof
    assume "nx mp = Some mp"
    with ms have "mp \<in> set (tl ms) \<and> hd ms = mp \<and> ms \<noteq> []" by (cases ms) (auto dest: path_hd)
    with path_distinct [OF ms] show False by (cases ms) auto
  qed
  then have pmp: "prev \<noteq> mp" using prev by auto
  have puniq: "j = prev" if "j < N" "nx j = Some mp" for j
    using next_injD [OF wf that(1) prev(1) that(2) prev(2)] .
  have path: "path ?nx (?f i) (map ?f xs)" if "path nx i xs" "i < N" "i \<noteq> n" for i xs
    using path_move [OF nmp pn pmp prev(2) puniq nn that(1) wf_h_free_not_in_path [OF wf that(1,2) n(2) that(3)]
        wf_h_path_range [OF wf that(1,2)]] .
  have nomp: "mpos k' \<noteq> mp" if "i < N" "ky i = Key k'" "k' \<noteq> TNil" for i k'
    using main_okD [OF wf that] mp(3,5) by metis
  note reach = main_not_free [OF wf _ _ _ mpos n(2)]
  have nopred: "nx i \<noteq> Some n" if "i < N" for i using next_okD [OF wf that] n(2) by blast
  have "next_ok N ?nx ?ky"
    unfolding next_ok_def
  proof (intro allI impI)
    fix i j assume h: "i < N" "?nx i = Some j"
    with mp(1,3,4) n(1) k0 nmp next_okD [OF wf, of i j] next_okD [OF wf mp(1), of j]
    show "j < N \<and> ?ky j \<noteq> Key TNil" by (simp split: if_splits)
  qed
  moreover have "next_inj N ?nx"
    unfolding next_inj_def
  proof (intro allI impI)
    fix i j l assume h: "i < N" "j < N" "?nx i = Some l" "?nx j = Some l"
    show "i = j"
      using h mp(1) next_injD [OF wf, of i j l] next_injD [OF wf, of mp j l] next_injD [OF wf, of i mp l]
        nmp nopred [of i] nopred [of j] nopred [OF mp(1)]
      by (auto split: if_splits)
  qed
  moreover have "paths_end N ?nx"
    unfolding paths_end_def
  proof (intro allI impI)
    fix i assume i: "i < N"
    consider "i = mp" | "i = n" | "i \<noteq> mp" "i \<noteq> n" by blast
    then show "\<exists>xs. path ?nx i xs"
    proof cases
      case 1
      then show ?thesis by (intro exI [of _ "[mp]"]) simp
    next
      case 2
      with path [OF ms mp(1)] nmp show ?thesis by auto
    next
      case 3
      obtain xs where "path nx i xs" using paths_endD [OF wf i] by blast
      from path [OF this i 3(2)] 3(1) show ?thesis by auto
    qed
  qed
  moreover have "free_ok N ?nx ?ky ?vl"
    unfolding free_ok_def
  proof (intro allI impI)
    fix i assume "i < N" "?ky i = Key TNil"
    with free_okD [OF wf, of i] mp(4) k0 prev(2) show "?nx i = None \<and> ?vl i = TNil"
      by (auto split: if_splits)
  qed
  moreover have "dead_ok N ?ky ?vl"
    unfolding dead_ok_def
  proof (intro allI impI)
    fix i g assume "i < N" "?ky i = DeadKey g"
    with dead_okD [OF wf, of i g] show "?vl i = TNil" by (auto split: if_splits)
  qed
  moreover have "keys_valid N ?ky"
    unfolding keys_valid_def
  proof (intro allI impI)
    fix i k' assume "i < N" "?ky i = Key k'" "k' \<noteq> TNil"
    with k(1) keys_validD [OF wf, of i k'] keys_validD [OF wf mp(1,3,4)] show "valid_key k'"
      by (simp split: if_splits)
  qed
  moreover have "keys_reach N mpos ?nx ?ky"
    unfolding keys_reach_def
  proof (intro allI impI)
    fix i k' assume h: "i < N" "?ky i = Key k'" "k' \<noteq> TNil"
    show "\<exists>xs. path ?nx (mpos k') xs \<and> i \<in> set xs"
    proof (cases "i = mp")
      case True
      with h mp(2) nmp show ?thesis by (intro exI [of _ "[mp]"]) simp
    next
      case False
      define i0 where "i0 = (if i = n then mp else i)"
      have i0: "i0 < N" "ky i0 = Key k'" "?f i0 = i"
        using h False mp nmp by (auto simp: i0_def split: if_splits)
      from keys_reachD [OF wf i0(1,2) h(3)] obtain xs where xs: "path nx (mpos k') xs" "i0 \<in> set xs" by blast
      have "path ?nx (mpos k') (map ?f xs)"
        using path [OF xs(1)] reach [OF i0(1,2) h(3)] nomp [OF i0(1,2) h(3)] by simp
      moreover have "i \<in> set (map ?f xs)" using xs(2) i0(3) by force
      ultimately show ?thesis by blast
    qed
  qed
  moreover have "main_ok N mpos ?ky"
    unfolding main_ok_def
  proof (intro allI impI)
    fix i k1 k2 assume h: "i < N" "?ky i = Key k1" "k1 \<noteq> TNil" "?ky (mpos k1) = Key k2"
    show "k2 \<noteq> TNil \<and> mpos k2 = mpos k1"
    proof (cases "i = mp")
      case True
      with h mp(2) k0 nmp show ?thesis by simp
    next
      case False
      define i0 where "i0 = (if i = n then mp else i)"
      have i0: "i0 < N" "ky i0 = Key k1"
        using h False mp nmp by (auto simp: i0_def split: if_splits)
      with h reach [OF i0 h(3)] nomp [OF i0 h(3)] main_okD [OF wf i0 h(3), of k2] show ?thesis by simp
    qed
  qed
  moreover have "keys_uniq N ?ky"
    unfolding keys_uniq_def
  proof (intro allI impI)
    fix i j k1 k2 assume h: "i < N" "j < N" "?ky i = Key k1" "?ky j = Key k2" "k1 \<noteq> TNil" "luaO_rawequalObj k1 k2"
    define i0 where "i0 = (if i = n then mp else i)"
    define j0 where "j0 = (if j = n then mp else j)"
    have i0: "i0 < N" "i \<noteq> mp \<longrightarrow> ky i0 = Key k1" and j0: "j0 < N" "j \<noteq> mp \<longrightarrow> ky j0 = Key k2"
      using h mp nmp by (auto simp: i0_def j0_def split: if_splits)
    show "i = j"
    proof (cases "i = mp \<or> j = mp")
      case True
      with h i0 j0 fresh_keyD [OF k(2), of i0 k1] fresh_keyD [OF k(2), of j0 k2] show ?thesis
        by (cases "i = mp"; cases "j = mp"; simp)
    next
      case False
      with i0 j0 h keys_uniqD [OF wf, of i0 j0 k1 k2] have "i0 = j0" by simp
      with False show ?thesis by (auto simp: i0_def j0_def split: if_splits)
    qed
  qed
  ultimately show ?thesis unfolding wf_h_def by simp
qed

end
