(* ===== verification/Ltable_inv.thy ===== *)
theory Ltable_inv
  imports Ltable_chain
begin

text \<open>
  The invariant of a table (\<open>wf_table\<close>), the reference definition of a lookup (\<open>tget\<close>),
  and the proof that the searches of ltable.c compute it.
\<close>


subsection \<open>Main positions\<close>

lemma lmod_less: "ls \<le> 26 \<Longrightarrow> lmod s (2 ^ ls) < 2 ^ ls"
proof -
  assume ls: "ls \<le> 26"
  have "(2::nat) ^ ls \<le> 2 ^ 26" using ls by (intro power_increasing) auto
  then have lt: "(2::nat) ^ ls < 2 ^ LENGTH(32)" by simp
  have u: "unat (word_of_nat (2 ^ ls) :: 32 word) = 2 ^ ls" by (rule unat_of_nat_small [OF lt])
  have "unat (1 :: 32 word) \<le> unat (word_of_nat (2 ^ ls) :: 32 word)" unfolding u by simp
  then have "unat (word_of_nat (2 ^ ls) - 1 :: 32 word) = 2 ^ ls - 1"
    by (subst unat_sub_if') (simp only: if_True u unat_1)
  then have "lmod s (2 ^ ls) \<le> 2 ^ ls - 1"
    unfolding lmod_def using word_and_le1 [of s "word_of_nat (2 ^ ls) - 1"]
    by (simp only: word_le_nat_alt)
  moreover have "0 < (2::nat) ^ ls" by simp
  ultimately show ?thesis by linarith
qed

lemma hashmod_less: "hashmod t n < sizenode t"
proof (cases "lsizenode t")
  case 0
  then show ?thesis by (simp add: hashmod_def sizenode_def)
next
  case (Suc l)
  have odd: "odd (2 ^ Suc l - 1 :: nat)" by simp
  have "(2 ^ Suc l - 1 :: nat) OR 1 = 2 ^ Suc l - 1 + of_bool (even (2 ^ Suc l - 1 :: nat))"
    by (rule or_one_eq)
  also have "\<dots> = 2 ^ Suc l - 1" using odd by simp
  finally have "hashmod t n = unat n mod (2 ^ Suc l - 1)" by (simp add: hashmod_def sizenode_def Suc)
  also have "\<dots> < 2 ^ Suc l - 1"
  proof (rule mod_less_divisor)
    have "2 \<le> (2::nat) ^ Suc l" by simp
    then show "0 < (2::nat) ^ Suc l - 1" by linarith
  qed
  finally show ?thesis by (simp add: sizenode_def Suc)
qed

lemma mainposition_less: "lsizenode t \<le> MAXBITS \<Longrightarrow> mainposition t k < sizenode t"
  using lmod_less [of "lsizenode t"]
  by (cases k) (auto simp: hashnum_def hashstr_def hashboolean_def hashpointer_def hashpow2_def
      hashmod_less MAXBITS_def, simp_all add: sizenode_def)

lemma mainposition_cong: "luaO_rawequalObj k k' \<Longrightarrow> mainposition t k = mainposition t k'"
  by (auto simp: rawequalObj_cases hashnum_def luai_numeq_def dbl_iszero_def dbl_isnan_def)

lemma mainposition_lsizenode:
  "lsizenode t = lsizenode t' \<Longrightarrow> mainposition t = mainposition t'"
proof
  fix k assume "lsizenode t = lsizenode t'"
  then show "mainposition t k = mainposition t' k"
    by (cases k) (simp_all add: hashnum_def hashstr_def hashboolean_def hashpointer_def hashpow2_def
      hashmod_def sizenode_def)
qed

lemma luai_numeq_cong: "luai_numeq m n \<Longrightarrow> luai_numeq x m = luai_numeq x n"
  using luai_numeq_trans [of x m n] luai_numeq_trans [of x n m] luai_numeq_sym [of m n] by blast

lemma arrayindex_cong: "luaO_rawequalObj k k' \<Longrightarrow> arrayindex k = arrayindex k'"
proof -
  assume "luaO_rawequalObj k k'"
  moreover have "arrayindex (TNumber m) = arrayindex (TNumber n)" if "luai_numeq m n" for m n
    using number2int_numeq [OF that] luai_numeq_cong [OF that] by (simp add: Let_def)
  ultimately show ?thesis by (auto simp: rawequalObj_cases)
qed

lemma arrayindex_int: "int_range i \<Longrightarrow> arrayindex (TNumber (cast_num i)) = i"
  by (simp add: Let_def)

lemma arrayindex_number:
  "0 \<le> i \<Longrightarrow> arrayindex k = i \<Longrightarrow> int_range i \<and> luaO_rawequalObj (TNumber (cast_num i)) k"
  using number2int_range by (cases k) (auto simp: Let_def split: if_splits)

subsection \<open>Well-formed tables\<close>

abbreviation in_array :: "Table \<Rightarrow> TValue \<Rightarrow> bool" where
  "in_array t k \<equiv> 0 < arrayindex k \<and> arrayindex k \<le> int (sizearray t)"

definition wf_nodes :: "Table \<Rightarrow> bool" where
  "wf_nodes t \<longleftrightarrow> wf_h (length (node t)) (mainposition t) (\<lambda>i. nk_next (node t ! i))
     (\<lambda>i. i_key (node t ! i)) (\<lambda>i. i_val (node t ! i))"

definition wf_lastfree :: "Table \<Rightarrow> bool" where
  "wf_lastfree t \<longleftrightarrow>
     (if isdummy t then node t = [dummynode] \<and> lastfree t \<le> 0
      else lastfree t \<le> int (length (node t)) \<and>
        (\<forall>i<length (node t). lastfree t \<le> int i \<longrightarrow> i_key (node t ! i) \<noteq> Key TNil))"

definition wf_sizes :: "Table \<Rightarrow> bool" where
  "wf_sizes t \<longleftrightarrow> length (node t) = sizenode t \<and> lsizenode t \<le> MAXBITS \<and>
     sizearray t \<le> length (array t) \<and> sizearray t \<le> MAXASIZE"

definition no_array_keys :: "Table \<Rightarrow> bool" where
  "no_array_keys t \<longleftrightarrow> (\<forall>n \<in> set (node t). \<forall>k. i_key n = Key k \<longrightarrow> \<not> in_array t k)"

text \<open>\<open>wf0\<close> also holds inside \<open>resize\<close>, where the old array is still allocated.\<close>

definition wf0 :: "Table \<Rightarrow> bool" where
  "wf0 t \<longleftrightarrow> wf_sizes t \<and> wf_nodes t \<and> wf_lastfree t \<and> no_array_keys t"

definition wf_table :: "Table \<Rightarrow> bool" where
  "wf_table t \<longleftrightarrow> wf0 t \<and> length (array t) = sizearray t"

text \<open>The reference definition of a lookup: the array, or any node with an equal key.\<close>

definition tget :: "Table \<Rightarrow> TValue \<Rightarrow> TValue" where
  "tget t key =
     (if in_array t key then array t ! nat (arrayindex key - 1)
      else case find (key_raw_eq key) (node t) of Some n \<Rightarrow> i_val n | None \<Rightarrow> TNil)"

definition entries :: "Table \<Rightarrow> (TValue \<times> TValue) set" where
  "entries t = {(k, v). v \<noteq> TNil \<and> (\<exists>i<length (node t). i_key (node t ! i) = Key k \<and> i_val (node t ! i) = v)}"

definition used :: "Table \<Rightarrow> nat" where
  "used t = card {i. i < length (node t) \<and> i_key (node t ! i) \<noteq> Key TNil}"

lemma wf_mpos_less: "wf0 t \<Longrightarrow> mainposition t k < length (node t)"
  using mainposition_less [of t k] by (simp add: wf0_def wf_sizes_def)

definition hsearch :: "Table \<Rightarrow> TValue \<Rightarrow> nat option result" where
  "hsearch t key = chain_search (length (node t)) (key_raw_eq key) (node t) (mainposition t key)"

lemma key_raw_eq_Key: "key_raw_eq key n \<longleftrightarrow> (\<exists>k. i_key n = Key k \<and> luaO_rawequalObj k key)"
  by (auto simp: key_raw_eq_def split: TKey.splits)

lemma hsearch_spec:
  assumes "wf0 t" "key \<noteq> TNil"
  obtains r where "hsearch t key = Inr r"
    "\<And>n. r = Some n \<Longrightarrow> n < length (node t) \<and> key_raw_eq key (node t ! n)"
    "r = None \<Longrightarrow> \<forall>n<length (node t). \<not> key_raw_eq key (node t ! n)"
proof -
  let ?N = "length (node t)"
  have wf: "wf_h ?N (mainposition t) (\<lambda>i. nk_next (node t ! i)) (\<lambda>i. i_key (node t ! i)) (\<lambda>i. i_val (node t ! i))"
    using assms(1) by (simp add: wf0_def wf_nodes_def)
  note mp = wf_mpos_less [OF assms(1), of key]
  obtain xs where xs: "path (\<lambda>i. nk_next (node t ! i)) (mainposition t key) xs"
    using paths_endD [OF wf mp] by blast
  have rng: "set xs \<subseteq> {..<?N}" using wf_h_path_range [OF wf xs mp] .
  have len: "length xs \<le> ?N" using path_length [OF xs mp] next_okD [OF wf] by blast
  have s: "hsearch t key = Inr (find (\<lambda>n. key_raw_eq key (node t ! n)) xs)"
    unfolding hsearch_def by (rule chain_search_path [OF xs rng len])
  show thesis
  proof (rule that [OF s])
    fix n assume "find (\<lambda>n. key_raw_eq key (node t ! n)) xs = Some n"
    then show "n < ?N \<and> key_raw_eq key (node t ! n)" using rng nth_mem by (auto simp: find_Some_iff)
  next
    assume none: "find (\<lambda>n. key_raw_eq key (node t ! n)) xs = None"
    show "\<forall>n<?N. \<not> key_raw_eq key (node t ! n)"
    proof (intro allI impI notI)
      fix n assume n: "n < ?N" "key_raw_eq key (node t ! n)"
      then obtain k where k: "i_key (node t ! n) = Key k" "luaO_rawequalObj k key"
        by (auto simp: key_raw_eq_Key)
      then have "k \<noteq> TNil" using assms(2) by (cases key) auto
      from keys_reachD [OF wf n(1) k(1) this] obtain ys where
        "path (\<lambda>i. nk_next (node t ! i)) (mainposition t k) ys" "n \<in> set ys" by blast
      then have "n \<in> set xs" using path_unique [OF xs] mainposition_cong [OF k(2)] by simp
      with none n(2) show False by (auto simp: find_None_iff)
    qed
  qed
qed

lemma getnum_range:
  assumes "int_range key" "s \<le> MAXASIZE"
  shows "(word_of_int (key - 1) :: 32 word) < word_of_nat s \<longleftrightarrow> 0 < key \<and> key \<le> int s"
proof -
  have s: "unat (word_of_nat s :: 32 word) = s"
    using assms(2) by (intro unat_of_nat_small) (simp add: MAXASIZE_def MAXBITS_def)
  have "uint (word_of_int (key - 1) :: 32 word) = (key - 1) mod 2 ^ 32"
    by (simp only: uint_word_of_int len_words)
  also have "\<dots> = (if 0 < key then key - 1 else key - 1 + 2 ^ 32)"
  proof (cases "0 < key")
    case True
    with assms(1) show ?thesis by (simp add: INT_MAX_def)
  next
    case False
    have "(key - 1) mod 2 ^ 32 = (key - 1 + 2 ^ 32) mod 2 ^ 32" by (simp only: mod_add_self2)
    also have "\<dots> = key - 1 + 2 ^ 32"
      using False assms(1) by (intro mod_pos_pos_trivial) (auto simp: INT_MIN_def)
    finally show ?thesis using False by simp
  qed
  finally have "uint (word_of_int (key - 1) :: 32 word) = (if 0 < key then key - 1 else key - 1 + 2 ^ 32)" .
  moreover have "uint (word_of_nat s :: 32 word) = int s" using s by (simp add: uint_nat)
  ultimately show ?thesis
    using assms by (auto simp: word_less_def INT_MIN_def INT_MAX_def MAXASIZE_def MAXBITS_def)
qed


text \<open>Every search of ltable.c is the search for a raw-equal key from its main position.\<close>

lemma key_is_num_raw: "key_is_num nk = key_raw_eq (TNumber nk)"
  by (rule ext) (auto simp: key_is_num_def key_raw_eq_def split: TKey.splits TValue.splits)

lemma key_is_str_raw: "key_is_str s = key_raw_eq (TStr s)"
  by (rule ext) (auto simp: key_is_str_def key_raw_eq_Key rawequalObj_cases)

lemma key_raw_eq_cong: "luaO_rawequalObj k k' \<Longrightarrow> key_raw_eq k = key_raw_eq k'"
  by (rule ext) (metis key_raw_eq_Key rawequalObj_sym rawequalObj_trans)

lemma hsearch_cong: "luaO_rawequalObj k k' \<Longrightarrow> hsearch t k = hsearch t k'"
  by (simp add: hsearch_def key_raw_eq_cong mainposition_cong)

lemma luaH_getnum_eq:
  assumes "wf_sizes t" "int_range i"
  shows "luaH_getnum t i =
     (if 0 < i \<and> i \<le> int (sizearray t) then Inr (ArraySlot (nat (i - 1)))
      else bind_result (hsearch t (TNumber (cast_num i))) (\<lambda>r. Inr (node_slot r)))"
  using getnum_range [OF assms(2), of "sizearray t"] assms(1)
  by (simp add: luaH_getnum_def hsearch_def key_is_num_raw wf_sizes_def Let_def)

lemma luaH_get_eq:
  assumes "wf_sizes t" "key \<noteq> TNil"
  shows "luaH_get t key =
     (if in_array t key then Inr (ArraySlot (nat (arrayindex key - 1)))
      else bind_result (hsearch t key) (\<lambda>r. Inr (node_slot r)))"
proof (cases key)
  case (TNumber n)
  show ?thesis
  proof (cases "luai_numeq (cast_num (lua_number2int n)) n")
    case True
    then have eq: "luaO_rawequalObj (TNumber (cast_num (lua_number2int n))) key" by (simp add: TNumber)
    show ?thesis
      using luaH_getnum_eq [OF assms(1) number2int_range] True hsearch_cong [OF eq, of t]
      by (simp add: TNumber Let_def)
  next
    case False
    then show ?thesis by (simp add: TNumber Let_def luaH_get_generic_def hsearch_def)
  qed
qed (use assms(2) in \<open>simp_all add: luaH_get_generic_def luaH_getstr_def hsearch_def key_is_str_raw\<close>)

lemma tget_node:
  assumes "wf0 t" "\<not> in_array t key" "key \<noteq> TNil" "n < length (node t)" "key_raw_eq key (node t ! n)"
  shows "tget t key = i_val (node t ! n)"
proof -
  let ?N = "length (node t)"
  have wf: "wf_h ?N (mainposition t) (\<lambda>i. nk_next (node t ! i)) (\<lambda>i. i_key (node t ! i)) (\<lambda>i. i_val (node t ! i))"
    using assms(1) by (simp add: wf0_def wf_nodes_def)
  obtain x where x: "find (key_raw_eq key) (node t) = Some x"
    using assms(4,5) by (cases "find (key_raw_eq key) (node t)") (auto simp: find_None_iff)
  then obtain m where m: "m < ?N" "key_raw_eq key (node t ! m)" "x = node t ! m"
    by (auto simp: find_Some_iff)
  obtain k1 k2 where k: "i_key (node t ! n) = Key k1" "luaO_rawequalObj k1 key"
    "i_key (node t ! m) = Key k2" "luaO_rawequalObj k2 key"
    using assms(5) m(2) by (auto simp: key_raw_eq_Key)
  have "k1 \<noteq> TNil" using k(2) assms(3) by (cases key) auto
  moreover have "luaO_rawequalObj k1 k2"
    using rawequalObj_trans [OF k(2)] rawequalObj_sym [of k2 key] k(4) by simp
  ultimately have "n = m" using keys_uniqD [OF wf assms(4) m(1) k(1,3)] by blast
  with x m assms(2) show ?thesis by (auto simp: tget_def)
qed

lemma tget_none:
  assumes "\<not> in_array t key" "\<forall>n<length (node t). \<not> key_raw_eq key (node t ! n)"
  shows "tget t key = TNil"
proof -
  have "find (key_raw_eq key) (node t) = None"
    using assms(2) by (auto simp: find_None_iff in_set_conv_nth)
  with assms(1) show ?thesis by (auto simp: tget_def)
qed

lemma tget_nil: "wf0 t \<Longrightarrow> tget t TNil = TNil"
proof -
  assume "wf0 t"
  then have wf: "wf_h (length (node t)) (mainposition t) (\<lambda>i. nk_next (node t ! i))
      (\<lambda>i. i_key (node t ! i)) (\<lambda>i. i_val (node t ! i))"
    by (simp add: wf0_def wf_nodes_def)
  have "i_val n = TNil" if f: "find (key_raw_eq TNil) (node t) = Some n" for n
  proof -
    obtain i where i: "i < length (node t)" "n = node t ! i" "key_raw_eq TNil n"
      using f by (auto simp: find_Some_iff)
    then have "i_key n = Key TNil" by (auto simp: key_raw_eq_Key rawequalObj_cases)
    with free_okD [OF wf i(1)] i(2) show ?thesis by simp
  qed
  then show ?thesis by (auto simp: tget_def split: option.splits)
qed

text \<open>
  The lookup of ltable.c computes the reference definition: it always returns, it faults
  nowhere, and the slot it returns holds the value of the key.
\<close>

lemma luaH_get_spec:
  assumes "wf0 t"
  obtains s where "luaH_get t key = Inr s" "slot_val t s = tget t key"
    "s = NilObject \<Longrightarrow> \<not> in_array t key \<and> (\<forall>n<length (node t). key \<noteq> TNil \<longrightarrow> \<not> key_raw_eq key (node t ! n))"
    "\<And>i. s = ArraySlot i \<Longrightarrow> in_array t key \<and> i = nat (arrayindex key - 1)"
    "\<And>n. s = NodeSlot n \<Longrightarrow> \<not> in_array t key \<and> n < length (node t) \<and> key_raw_eq key (node t ! n)"
proof (cases "key = TNil")
  case True
  show thesis by (rule that [of NilObject]) (use True tget_nil [OF assms] in \<open>simp_all add: slot_val_def\<close>)
next
  case False
  note get = luaH_get_eq [OF _ False, of t]
  have sz: "wf_sizes t" using assms by (simp add: wf0_def)
  show thesis
  proof (cases "in_array t key")
    case True
    then show thesis using get [OF sz]
      by (intro that [of "ArraySlot (nat (arrayindex key - 1))"]) (simp_all add: slot_val_def tget_def)
  next
    case arr: False
    obtain r where r: "hsearch t key = Inr r"
      "\<And>n. r = Some n \<Longrightarrow> n < length (node t) \<and> key_raw_eq key (node t ! n)"
      "r = None \<Longrightarrow> \<forall>n<length (node t). \<not> key_raw_eq key (node t ! n)"
      using hsearch_spec [OF assms False] by blast
    have g: "luaH_get t key = Inr (node_slot r)" using get [OF sz] arr r(1) by auto
    show thesis
    proof (cases r)
      case None
      with g r(3) arr tget_none [OF arr] show thesis
        by (intro that [of NilObject]) (simp_all add: slot_val_def node_slot_def)
    next
      case (Some n)
      with g r(2) [OF Some] arr tget_node [OF assms arr False, of n] show thesis
        by (intro that [of "NodeSlot n"]) (simp_all add: slot_val_def node_slot_def)
    qed
  qed
qed

end
