(* ===== verification/Ltable_place.thy ===== *)
theory Ltable_place
  imports Ltable_inv
begin

text \<open>
  \<open>getfreepos\<close> and the placing part of \<open>newkey\<close> of ltable.c: with a free node left the new
  key is placed, the invariant is kept and the live entries are the same.
\<close>


subsection \<open>Placing a new key\<close>

definition frame :: "Table \<Rightarrow> Table \<Rightarrow> bool" where
  "frame t t' \<longleftrightarrow> array t' = array t \<and> sizearray t' = sizearray t \<and> lsizenode t' = lsizenode t \<and>
     isdummy t' = isdummy t \<and> t_self t' = t_self t \<and> metatable t' = metatable t \<and>
     length (node t') = length (node t)"

definition placed :: "Table \<Rightarrow> TValue \<Rightarrow> Table \<Rightarrow> nat \<Rightarrow> bool" where
  "placed t key t' m \<longleftrightarrow> wf0 t' \<and> frame t t' \<and> m < length (node t') \<and>
     i_key (node t' ! m) = Key key \<and> i_val (node t' ! m) = TNil \<and>
     entries t' = entries t \<and> used t' \<le> used t + 1"

lemma wf_h_no_self_loop:
  assumes "wf_h N mpos nx ky vl" "mp < N"
  shows "nx mp \<noteq> Some mp"
proof
  assume loop: "nx mp = Some mp"
  obtain ms where ms: "path nx mp ms" using paths_endD [OF assms] by blast
  with loop have "mp \<in> set (tl ms) \<and> hd ms = mp \<and> ms \<noteq> []" by (cases ms) (auto dest: path_hd)
  with path_distinct [OF ms] show False by (cases ms) auto
qed

lemma nth_upd_fun: "a < length ns \<Longrightarrow> (\<lambda>i. f (ns[a := x] ! i)) = (\<lambda>i. f (ns ! i))(a := f x)"
  by (rule ext) (simp add: nth_list_update)

lemma wf0_wf_h:
  "wf0 t \<Longrightarrow> wf_h (length (node t)) (mainposition t) (\<lambda>i. nk_next (node t ! i))
     (\<lambda>i. i_key (node t ! i)) (\<lambda>i. i_val (node t ! i))"
  by (simp add: wf0_def wf_nodes_def)

lemma getfreepos_loop_spec:
  "getfreepos_loop ns lf = (r, lf') \<Longrightarrow> lf \<le> int (length ns) \<Longrightarrow>
   (case r of
      Some n \<Rightarrow> int n = lf' \<and> n < length ns \<and> i_key (ns ! n) = Key TNil \<and>
        (\<forall>i<length ns. lf' < int i \<longrightarrow> int i < lf \<longrightarrow> i_key (ns ! i) \<noteq> Key TNil)
    | None \<Rightarrow> lf' < 0 \<and> (\<forall>i<length ns. int i < lf \<longrightarrow> i_key (ns ! i) \<noteq> Key TNil))"
proof (induction ns lf rule: getfreepos_loop.induct)
  case (1 ns lf)
  show ?case
  proof (cases "0 < lf")
    case False
    with 1 show ?thesis by (auto simp: getfreepos_loop.simps [of ns lf])
  next
    case lf: True
    show ?thesis
    proof (cases "i_key (ns ! nat (lf - 1)) = Key TNil")
      case True
      with lf 1(2,3) show ?thesis by (auto simp: getfreepos_loop.simps [of ns lf])
    next
      case False
      with lf 1(2) have "getfreepos_loop ns (lf - 1) = (r, lf')"
        by (simp add: getfreepos_loop.simps [of ns lf])
      note ih = 1(1) [OF lf False this]
      have "i_key (ns ! i) \<noteq> Key TNil" if "int i < lf" "\<not> int i < lf - 1" for i
      proof -
        have "i = nat (lf - 1)" using that by linarith
        with False show ?thesis by simp
      qed
      with ih 1(3) show ?thesis by (auto split: option.splits)
    qed
  qed
qed

lemma getfreepos_room:
  assumes "wf_lastfree t" "\<not> isdummy t" "used t < length (node t)"
  obtains n t' where "getfreepos t = (Some n, t')"
proof -
  let ?S = "{i. i < length (node t) \<and> i_key (node t ! i) \<noteq> Key TNil}"
  have "?S \<noteq> {..<length (node t)}" using assms(3) unfolding used_def by (metis card_lessThan less_irrefl)
  then obtain i where i: "i < length (node t)" "i_key (node t ! i) = Key TNil" by auto
  obtain r lf where g: "getfreepos_loop (node t) (lastfree t) = (r, lf)" by fastforce
  have "lastfree t \<le> int (length (node t))" "int i < lastfree t"
    using assms(1,2) i by (auto simp: wf_lastfree_def not_le [symmetric])
  with getfreepos_loop_spec [OF g] i have "r \<noteq> None" by (auto split: option.splits)
  with g that show thesis by (auto simp: getfreepos_def)
qed

lemma getfreepos_Some:
  assumes "wf0 t" "\<not> isdummy t" "getfreepos t = (Some n, t1)"
  shows "t1 = t\<lparr>lastfree := int n\<rparr>" "n < length (node t)" "i_key (node t ! n) = Key TNil"
    "\<forall>i<length (node t). int n < int i \<longrightarrow> i_key (node t ! i) \<noteq> Key TNil"
proof -
  obtain lf where g: "getfreepos_loop (node t) (lastfree t) = (Some n, lf)" and t1: "t1 = t\<lparr>lastfree := lf\<rparr>"
    using assms(3) by (auto simp: getfreepos_def split: prod.splits)
  have lf: "lastfree t \<le> int (length (node t))"
    "\<forall>i<length (node t). lastfree t \<le> int i \<longrightarrow> i_key (node t ! i) \<noteq> Key TNil"
    using assms(1,2) by (auto simp: wf0_def wf_lastfree_def)
  note sp = getfreepos_loop_spec [OF g lf(1)]
  show "t1 = t\<lparr>lastfree := int n\<rparr>" "n < length (node t)" "i_key (node t ! n) = Key TNil" using sp t1 by auto
  show "\<forall>i<length (node t). int n < int i \<longrightarrow> i_key (node t ! i) \<noteq> Key TNil"
  proof (intro allI impI)
    fix i assume i: "i < length (node t)" "int n < int i"
    show "i_key (node t ! i) \<noteq> Key TNil"
    proof (cases "int i < lastfree t")
      case True
      with sp i show ?thesis by simp
    next
      case False
      with lf(2) i show ?thesis by simp
    qed
  qed
qed

text \<open>
  A table whose nodes are rearranged: the invariant, the entries and the node count follow
  from the node functions alone.
\<close>

lemma placedI:
  assumes wf: "wf0 t" "\<not> isdummy t" and key: "valid_key key" "\<not> in_array t key"
    and t': "t' = t\<lparr>lastfree := lf, node := ns\<rparr>" "length ns = length (node t)" "m < length ns"
    and h: "wf_h (length ns) (mainposition t) (\<lambda>i. nk_next (ns ! i)) (\<lambda>i. i_key (ns ! i)) (\<lambda>i. i_val (ns ! i))"
    and m: "i_key (ns ! m) = Key key" "i_val (ns ! m) = TNil"
    and keys: "\<And>i k. i < length ns \<Longrightarrow> i_key (ns ! i) = Key k \<Longrightarrow> k = key \<or>
      (\<exists>j<length ns. i_key (node t ! j) = Key k)"
    and ent: "entries t' = entries t"
    and usd: "{i. i < length ns \<and> i_key (ns ! i) \<noteq> Key TNil} \<subseteq>
      insert n {i. i < length ns \<and> i_key (node t ! i) \<noteq> Key TNil}"
    and lf: "lf \<le> int (length ns)" "\<forall>i<length ns. lf \<le> int i \<longrightarrow> i_key (ns ! i) \<noteq> Key TNil"
  shows "placed t key t' m"
proof -
  have mp: "mainposition t' = mainposition t" by (rule mainposition_lsizenode) (simp add: t')
  have "wf_sizes t'" using wf(1) t' by (simp add: wf0_def wf_sizes_def sizenode_def)
  moreover have "wf_nodes t'" using h unfolding wf_nodes_def mp by (simp add: t'(1))
  moreover have "wf_lastfree t'" using lf t' wf(2) by (simp add: wf_lastfree_def)
  moreover have "no_array_keys t'"
  proof -
    have "\<not> in_array t k" if "i < length ns" "i_key (ns ! i) = Key k" for i k
    proof -
      have "no_array_keys t" using wf(1) by (simp add: wf0_def)
      with keys [OF that] key(2) t'(2) show ?thesis unfolding no_array_keys_def by (metis nth_mem)
    qed
    then show ?thesis unfolding no_array_keys_def t'(1) by (fastforce simp: in_set_conv_nth)
  qed
  ultimately have "wf0 t'" by (simp add: wf0_def)
  moreover have "used t' \<le> used t + 1"
  proof -
    have "used t' \<le> card (insert n {i. i < length ns \<and> i_key (node t ! i) \<noteq> Key TNil})"
      unfolding used_def t'(1) using usd by (intro card_mono) simp_all
    also have "\<dots> \<le> Suc (card {i. i < length ns \<and> i_key (node t ! i) \<noteq> Key TNil})"
      by (rule card_insert_le_m1) auto
    finally show ?thesis unfolding used_def t'(2) by simp
  qed
  ultimately show ?thesis using t' m ent by (simp add: placed_def frame_def)
qed


lemma fresh_key_iff:
  "fresh_key (length (node t)) (\<lambda>i. i_key (node t ! i)) key \<longleftrightarrow>
     (\<forall>n<length (node t). \<not> key_raw_eq key (node t ! n))"
  by (auto simp: fresh_key_def key_raw_eq_Key)

lemma finish_newkey_eq:
  "finish_newkey L t mp key = (luaC_barriert L (t_self t) key,
     t\<lparr>node := (node t)[mp := (node t ! mp)\<lparr>i_key := Key key\<rparr>]\<rparr>, NodeSlot mp)"
  by (simp add: finish_newkey_def)

lemma place_overwrite:
  assumes wf: "wf0 t" "\<not> isdummy t" and key: "valid_key key" "\<not> in_array t key"
    and fresh: "\<forall>n<length (node t). \<not> key_raw_eq key (node t ! n)"
    and mp: "mp = mainposition t key" "i_val (node t ! mp) = TNil"
    and t': "t' = t\<lparr>node := (node t)[mp := (node t ! mp)\<lparr>i_key := Key key\<rparr>]\<rparr>"
  shows "placed t key t' mp"
proof -
  let ?ns = "(node t)[mp := (node t ! mp)\<lparr>i_key := Key key\<rparr>]"
  have mpl: "mp < length (node t)" using wf_mpos_less [OF wf(1)] mp(1) by simp
  have nn: "(\<lambda>i. nk_next (?ns ! i)) = (\<lambda>i. nk_next (node t ! i))"
    "(\<lambda>i. i_val (?ns ! i)) = (\<lambda>i. i_val (node t ! i))"
    using mpl by (simp_all add: nth_upd_fun fun_upd_idem)
  have kk: "(\<lambda>i. i_key (?ns ! i)) = (\<lambda>i. i_key (node t ! i))(mp := Key key)"
    using mpl by (auto simp: nth_list_update fun_eq_iff)
  have ky: "i_key (?ns ! i) = (if i = mp then Key key else i_key (node t ! i))" for i
    using mpl by (simp add: nth_list_update)
  have k0: "key \<noteq> TNil" using key(1) by (rule valid_key_not_nil)
  show ?thesis
  proof (rule placedI [OF wf key, where ns = ?ns and lf = "lastfree t" and n = mp])
    show "wf_h (length ?ns) (mainposition t) (\<lambda>i. nk_next (?ns ! i)) (\<lambda>i. i_key (?ns ! i)) (\<lambda>i. i_val (?ns ! i))"
      unfolding nn kk length_list_update
      by (rule wf_h_overwrite [OF wf0_wf_h [OF wf(1)] mpl mp(1) [symmetric] mp(2) key(1)])
        (simp add: fresh_key_iff fresh)
    show "entries t' = entries t"
      unfolding entries_def t' using mpl mp(2) by (auto simp: nth_list_update split: if_splits)
    show "\<forall>i<length ?ns. lastfree t \<le> int i \<longrightarrow> i_key (?ns ! i) \<noteq> Key TNil"
      using wf k0 by (auto simp: ky wf0_def wf_lastfree_def)
    show "lastfree t \<le> int (length ?ns)" using wf by (simp add: wf0_def wf_lastfree_def)
  qed (use mpl mp t' in \<open>auto simp: nth_list_update split: if_splits\<close>)
qed

lemma place_after:
  assumes wf: "wf0 t" "\<not> isdummy t" and key: "valid_key key" "\<not> in_array t key"
    and fresh: "\<forall>n<length (node t). \<not> key_raw_eq key (node t ! n)"
    and mp: "mp = mainposition t key" "i_key (node t ! mp) = Key kk" "kk \<noteq> TNil" "mainposition t kk = mp"
    and n: "n < length (node t)" "i_key (node t ! n) = Key TNil"
      "\<forall>i<length (node t). int n < int i \<longrightarrow> i_key (node t ! i) \<noteq> Key TNil"
    and ns: "ns = (node t)[n := (node t ! n)\<lparr>nk_next := nk_next (node t ! mp)\<rparr>,
      mp := (node t ! mp)\<lparr>nk_next := Some n\<rparr>]"
    and t': "t' = t\<lparr>lastfree := int n, node := ns[n := (ns ! n)\<lparr>i_key := Key key\<rparr>]\<rparr>"
  shows "placed t key t' n"
proof -
  define ms where "ms = ns[n := (ns ! n)\<lparr>i_key := Key key\<rparr>]"
  have mpl: "mp < length (node t)" using wf_mpos_less [OF wf(1)] mp(1) by simp
  have nmp: "n \<noteq> mp" using mp n by auto
  have len: "length ms = length (node t)" by (simp add: ms_def ns)
  note t' = t' [folded ms_def]
  have fs: "(\<lambda>i. nk_next (ms ! i)) = (\<lambda>i. nk_next (node t ! i))(n := nk_next (node t ! mp), mp := Some n)"
    "(\<lambda>i. i_val (ms ! i)) = (\<lambda>i. i_val (node t ! i))"
    "(\<lambda>i. i_key (ms ! i)) = (\<lambda>i. i_key (node t ! i))(n := Key key)"
    using mpl n(1) nmp by (auto simp: ms_def ns nth_list_update fun_eq_iff)
  have ky: "i_key (ms ! i) = (if i = n then Key key else i_key (node t ! i))"
    and vl: "i_val (ms ! i) = i_val (node t ! i)" for i
    using fun_cong [OF fs(3), of i] fun_cong [OF fs(2), of i] by simp_all
  have vn: "i_val (node t ! n) = TNil" using free_okD [OF wf0_wf_h [OF wf(1)] n(1,2)] by simp
  have k0: "key \<noteq> TNil" using key(1) by (rule valid_key_not_nil)
  show ?thesis
  proof (rule placedI [OF wf key, where ns = ms and lf = "int n" and n = n])
    show "wf_h (length ms) (mainposition t) (\<lambda>i. nk_next (ms ! i)) (\<lambda>i. i_key (ms ! i)) (\<lambda>i. i_val (ms ! i))"
      unfolding fs len
      by (rule wf_h_insert_after [OF wf0_wf_h [OF wf(1)] mpl mp(1) [symmetric] mp(2-4) n(1,2) key(1) _ wf_mpos_less [OF wf(1)]])
        (simp add: fresh_key_iff fresh)
    show "entries t' = entries t"
      unfolding entries_def t' using n(2) vn len by (auto simp: ky vl split: if_splits)
    show "\<forall>i<length ms. int n \<le> int i \<longrightarrow> i_key (ms ! i) \<noteq> Key TNil"
      using n(3) k0 len by (auto simp: ky)
  qed (use t' n len vn in \<open>auto simp: ky vl split: if_splits\<close>)
qed

lemma place_move:
  assumes wf: "wf0 t" "\<not> isdummy t" and key: "valid_key key" "\<not> in_array t key"
    and fresh: "\<forall>n<length (node t). \<not> key_raw_eq key (node t ! n)"
    and mp: "mp = mainposition t key" "i_key (node t ! mp) = Key kk" "kk \<noteq> TNil" "mainposition t kk \<noteq> mp"
    and prev: "prev < length (node t)" "nk_next (node t ! prev) = Some mp"
    and n: "n < length (node t)" "i_key (node t ! n) = Key TNil"
      "\<forall>i<length (node t). int n < int i \<longrightarrow> i_key (node t ! i) \<noteq> Key TNil"
    and ns: "ns1 = (node t)[prev := (node t ! prev)\<lparr>nk_next := Some n\<rparr>]" "ns2 = ns1[n := ns1 ! mp]"
      "ns = ns2[mp := (ns2 ! mp)\<lparr>nk_next := None, i_val := TNil\<rparr>]"
    and t': "t' = t\<lparr>lastfree := int n, node := ns[mp := (ns ! mp)\<lparr>i_key := Key key\<rparr>]\<rparr>"
  shows "placed t key t' mp"
proof -
  define ms where "ms = ns[mp := (ns ! mp)\<lparr>i_key := Key key\<rparr>]"
  have mpl: "mp < length (node t)" using wf_mpos_less [OF wf(1)] mp(1) by simp
  have nmp: "n \<noteq> mp" using mp n by auto
  have pmp: "prev \<noteq> mp"
    using wf_h_no_self_loop [OF wf0_wf_h [OF wf(1)] mpl] prev(2) by auto
  have pn: "prev \<noteq> n" using prev(2) free_okD [OF wf0_wf_h [OF wf(1)] n(1,2)] by auto
  have len: "length ms = length (node t)" by (simp add: ms_def ns)
  note t' = t' [folded ms_def]
  have fs: "(\<lambda>i. nk_next (ms ! i)) =
      (\<lambda>i. nk_next (node t ! i))(prev := Some n, n := nk_next (node t ! mp), mp := None)"
    "(\<lambda>i. i_val (ms ! i)) = (\<lambda>i. i_val (node t ! i))(n := i_val (node t ! mp), mp := TNil)"
    "(\<lambda>i. i_key (ms ! i)) = (\<lambda>i. i_key (node t ! i))(n := Key kk, mp := Key key)"
    using mpl n(1) prev(1) nmp pmp pn mp(2) by (auto simp: ms_def ns nth_list_update fun_eq_iff)
  have ky: "i_key (ms ! i) = (if i = mp then Key key else if i = n then Key kk else i_key (node t ! i))"
    and vl: "i_val (ms ! i) = (if i = mp then TNil else if i = n then i_val (node t ! mp) else i_val (node t ! i))" for i
    using fun_cong [OF fs(3), of i] fun_cong [OF fs(2), of i] by simp_all
  have vn: "i_val (node t ! n) = TNil" using free_okD [OF wf0_wf_h [OF wf(1)] n(1,2)] by simp
  have k0: "key \<noteq> TNil" using key(1) by (rule valid_key_not_nil)
  show ?thesis
  proof (rule placedI [OF wf key, where ns = ms and lf = "int n" and n = n])
    show "wf_h (length ms) (mainposition t) (\<lambda>i. nk_next (ms ! i)) (\<lambda>i. i_key (ms ! i)) (\<lambda>i. i_val (ms ! i))"
      unfolding fs len
      by (rule wf_h_move [OF wf0_wf_h [OF wf(1)] mpl mp(1) [symmetric] mp(2-4) prev n(1,2) key(1) _ wf_mpos_less [OF wf(1)]])
        (simp add: fresh_key_iff fresh)
    show "entries t' = entries t"
    proof (intro equalityI subsetI; clarify)
      fix k v assume "(k, v) \<in> entries t'"
      then obtain i where "v \<noteq> TNil" "i < length (node t)" "i_key (ms ! i) = Key k" "i_val (ms ! i) = v"
        by (auto simp: entries_def t' len)
      then have "v \<noteq> TNil \<and> i_key (node t ! (if i = n then mp else i)) = Key k \<and>
          i_val (node t ! (if i = n then mp else i)) = v \<and> (if i = n then mp else i) < length (node t)"
        using mp(2) mpl by (auto simp: ky vl split: if_splits)
      then show "(k, v) \<in> entries t" unfolding entries_def by blast
    next
      fix k v assume "(k, v) \<in> entries t"
      then obtain i where "v \<noteq> TNil" "i < length (node t)" "i_key (node t ! i) = Key k" "i_val (node t ! i) = v"
        by (auto simp: entries_def)
      then have "v \<noteq> TNil \<and> i_key (ms ! (if i = mp then n else i)) = Key k \<and>
          i_val (ms ! (if i = mp then n else i)) = v \<and> (if i = mp then n else i) < length (node t)"
        using mp(2) n(1) nmp vn by (auto simp: ky vl split: if_splits)
      then show "(k, v) \<in> entries t'" unfolding entries_def t' using len by auto
    qed
    show "\<forall>i<length ms. int n \<le> int i \<longrightarrow> i_key (ms ! i) \<noteq> Key TNil"
      using n(3) k0 mp(3) len by (auto simp: ky)
    show "k = key \<or> (\<exists>j<length ms. i_key (node t ! j) = Key k)"
      if "i < length ms" "i_key (ms ! i) = Key k" for i k
      using that mpl mp(2) len by (auto simp: ky split: if_splits)
  qed (use t' n len vn mpl mp(2,3) in \<open>auto simp: ky vl split: if_splits\<close>)
qed


lemma place_colliding_placed:
  assumes wf: "wf0 t" "\<not> isdummy t" and key: "valid_key key" "\<not> in_array t key"
    and fresh: "\<forall>n<length (node t). \<not> key_raw_eq key (node t ! n)"
    and mp: "mp = mainposition t key" "i_val (node t ! mp) \<noteq> TNil"
    and free: "getfreepos t = (Some n, t1)"
  obtains t2 m where "place_colliding t1 mp n = Inr (t2, m)"
    "placed t key (t2\<lparr>node := (node t2)[m := (node t2 ! m)\<lparr>i_key := Key key\<rparr>]\<rparr>) m" "t_self t2 = t_self t"
proof -
  note fr = getfreepos_Some [OF wf free]
  note wh = wf0_wf_h [OF wf(1)]
  have mpl: "mp < length (node t)" using wf_mpos_less [OF wf(1)] mp(1) by simp
  obtain kk where kk: "i_key (node t ! mp) = Key kk" "kk \<noteq> TNil"
    using free_okD [OF wh mpl] dead_okD [OF wh mpl] mp(2) by (cases "i_key (node t ! mp)") auto
  have mpt: "mainposition t1 = mainposition t" by (rule mainposition_lsizenode) (simp add: fr(1))
  have nd: "node t1 = node t" by (simp add: fr(1))
  have nmp: "n \<noteq> mp" using fr(3) kk by auto
  show thesis
  proof (cases "mainposition t kk = mp")
    case True
    let ?ns = "(node t)[n := (node t ! n)\<lparr>nk_next := nk_next (node t ! mp)\<rparr>,
      mp := (node t ! mp)\<lparr>nk_next := Some n\<rparr>]"
    have "place_colliding t1 mp n = Inr (t1\<lparr>node := ?ns\<rparr>, n)"
      using True nmp by (simp add: place_colliding_def mpt nd kk(1) Let_def)
    moreover have "placed t key (t\<lparr>lastfree := int n, node := ?ns[n := (?ns ! n)\<lparr>i_key := Key key\<rparr>]\<rparr>) n"
      by (rule place_after [OF wf key fresh mp(1) kk True fr(2-4) refl refl])
    ultimately show thesis by (intro that [of "t1\<lparr>node := ?ns\<rparr>" n]) (simp_all add: fr(1))
  next
    case False
    from keys_reachD [OF wh mpl kk] obtain xs where
      xs: "path (\<lambda>i. nk_next (node t ! i)) (mainposition t kk) xs" "mp \<in> set xs" by blast
    have rng: "set xs \<subseteq> {..<length (node t)}" by (rule wf_h_path_range [OF wh xs(1) wf_mpos_less [OF wf(1)]])
    have len: "length xs \<le> length (node t)"
      using path_length [OF xs(1) wf_mpos_less [OF wf(1)]] next_okD [OF wh] by blast
    obtain prev where prev: "find_previous (length (node t)) (node t) mp (mainposition t kk) = Inr prev"
      "prev < length (node t)" "nk_next (node t ! prev) = Some mp"
      using find_previous_path [OF xs(1) rng len xs(2) False] rng by blast
    define ns1 where "ns1 = (node t)[prev := (node t ! prev)\<lparr>nk_next := Some n\<rparr>]"
    define ns2 where "ns2 = ns1[n := ns1 ! mp]"
    define ns where "ns = ns2[mp := (ns2 ! mp)\<lparr>nk_next := None, i_val := TNil\<rparr>]"
    have "place_colliding t1 mp n = Inr (t1\<lparr>node := ns\<rparr>, mp)"
      using False prev(1) by (simp add: place_colliding_def mpt nd kk(1) Let_def ns1_def ns2_def ns_def)
    moreover have "placed t key (t\<lparr>lastfree := int n, node := ns[mp := (ns ! mp)\<lparr>i_key := Key key\<rparr>]\<rparr>) mp"
      by (rule place_move [OF wf key fresh mp(1) kk False prev(2,3) fr(2-4) ns1_def ns2_def ns_def refl])
    ultimately show thesis by (intro that [of "t1\<lparr>node := ns\<rparr>" mp]) (simp_all add: fr(1))
  qed
qed

text \<open>With a free node left, \<open>newkey\<close> places the key without a rehash.\<close>

lemma newkey_room:
  assumes wf: "wf0 t" "\<not> isdummy t" and key: "valid_key key" "\<not> in_array t key"
    and fresh: "\<forall>n<length (node t). \<not> key_raw_eq key (node t ! n)"
    and room: "i_val (node t ! mainposition t key) \<noteq> TNil \<Longrightarrow> fst (getfreepos t) \<noteq> None"
  obtains t' m where "newkey (Suc d) L t key = Inr (luaC_barriert L (t_self t) key, t', NodeSlot m)"
    "placed t key t' m"
proof (cases "i_val (node t ! mainposition t key) = TNil")
  case True
  let ?mp = "mainposition t key"
  let ?t = "t\<lparr>node := (node t)[?mp := (node t ! ?mp)\<lparr>i_key := Key key\<rparr>]\<rparr>"
  show thesis
  proof (rule that)
    show "newkey (Suc d) L t key = Inr (luaC_barriert L (t_self t) key, ?t, NodeSlot ?mp)"
      using True wf(2) by (simp add: finish_newkey_def Let_def)
    show "placed t key ?t ?mp" by (rule place_overwrite [OF wf key fresh refl True refl])
  qed
next
  case False
  with room obtain n t1 where f: "getfreepos t = (Some n, t1)" by (cases "getfreepos t") auto
  obtain t2 m where p: "place_colliding t1 (mainposition t key) n = Inr (t2, m)"
    "placed t key (t2\<lparr>node := (node t2)[m := (node t2 ! m)\<lparr>i_key := Key key\<rparr>]\<rparr>) m" "t_self t2 = t_self t"
    by (rule place_colliding_placed [OF wf key fresh refl False f])
  show thesis
    by (rule that [OF _ p(2)]) (use False f p in \<open>simp add: finish_newkey_def Let_def\<close>)
qed

end
