(* ===== verification/Ltable_set.thy ===== *)
theory Ltable_set
  imports Ltable_place
begin

text \<open>
  Stores into a table: the slot of a key, \<open>luaH_set\<close> and \<open>luaH_setnum\<close> of ltable.c while the
  node vector has room, and the two re-insertion loops of \<open>resize\<close>.
\<close>

subsection \<open>Slots and stores\<close>

definition slot_for :: "Table \<Rightarrow> TValue \<Rightarrow> slot \<Rightarrow> bool" where
  "slot_for t key p = (case p of NilObject \<Rightarrow> False
     | ArraySlot i \<Rightarrow> in_array t key \<and> i = nat (arrayindex key - 1)
     | NodeSlot n \<Rightarrow> \<not> in_array t key \<and> n < length (node t) \<and> key_raw_eq key (node t ! n))"

lemma entries_tget:
  assumes "wf0 t" "(k, v) \<in> entries t" "luaO_rawequalObj k key" "\<not> in_array t key" "key \<noteq> TNil"
  shows "tget t key = v"
proof -
  obtain i where i: "i < length (node t)" "i_key (node t ! i) = Key k" "i_val (node t ! i) = v"
    using assms(2) by (auto simp: entries_def)
  then have "key_raw_eq key (node t ! i)" using assms(3) by (simp add: key_raw_eq_def)
  from tget_node [OF assms(1,4,5) i(1) this] i(3) show ?thesis by simp
qed

lemma tget_entries:
  assumes "tget t key \<noteq> TNil" "\<not> in_array t key"
  shows "\<exists>k. (k, tget t key) \<in> entries t \<and> luaO_rawequalObj k key"
proof -
  obtain n where n: "find (key_raw_eq key) (node t) = Some n" "tget t key = i_val n"
    using assms by (auto simp: tget_def split: option.splits)
  then obtain i where "i < length (node t)" "n = node t ! i" "key_raw_eq key n"
    by (auto simp: find_Some_iff)
  with n assms(1) show ?thesis by (auto simp: entries_def key_raw_eq_Key)
qed

lemma tget_cong_entries:
  assumes "wf0 t" "wf0 t'" "entries t' = entries t" "array t' = array t" "sizearray t' = sizearray t"
  shows "tget t' = tget t"
proof
  fix key
  consider "in_array t key" | "key = TNil" | "\<not> in_array t key" "key \<noteq> TNil" by blast
  then show "tget t' key = tget t key"
  proof cases
    case 1
    with assms(4,5) show ?thesis by (simp add: tget_def)
  next
    case 2
    with tget_nil assms(1,2) show ?thesis by simp
  next
    case 3
    then have 4: "\<not> in_array t' key" using assms(5) by simp
    show ?thesis
    proof (cases "tget t' key = TNil \<and> tget t key = TNil")
      case False
      then consider "tget t' key \<noteq> TNil" | "tget t key \<noteq> TNil" by blast
      then show ?thesis
      proof cases
        case 1
        from tget_entries [OF this 4] obtain k where "(k, tget t' key) \<in> entries t" "luaO_rawequalObj k key"
          using assms(3) by auto
        from entries_tget [OF assms(1) this 3] show ?thesis by simp
      next
        case 2
        from tget_entries [OF this 3(1)] obtain k where "(k, tget t key) \<in> entries t'" "luaO_rawequalObj k key"
          using assms(3) by auto
        from entries_tget [OF assms(2) this 4 3(2)] show ?thesis by simp
      qed
    qed simp
  qed
qed

lemma in_array_cong: "luaO_rawequalObj k k' \<Longrightarrow> in_array t k = in_array t k'"
  by (simp add: arrayindex_cong)

text \<open>Writing a slot of a key changes the lookup of that key only.\<close>

lemma set_node_slot:
  assumes wf: "wf0 t" and n: "\<not> in_array t key" "n < length (node t)" "key_raw_eq key (node t ! n)"
    and key: "valid_key key" and t': "t' = t\<lparr>node := (node t)[n := (node t ! n)\<lparr>i_val := v\<rparr>]\<rparr>"
  shows "wf0 t'" "tget t' k = (if luaO_rawequalObj key k then v else tget t k)" "used t' = used t"
proof -
  define ns where "ns = (node t)[n := (node t ! n)\<lparr>i_val := v\<rparr>]"
  have fs: "(\<lambda>i. nk_next (ns ! i)) = (\<lambda>i. nk_next (node t ! i))"
    "(\<lambda>i. i_key (ns ! i)) = (\<lambda>i. i_key (node t ! i))"
    "(\<lambda>i. i_val (ns ! i)) = (\<lambda>i. i_val (node t ! i))(n := v)"
    using n(2) by (auto simp: ns_def nth_list_update fun_eq_iff)
  have ky: "i_key (ns ! i) = i_key (node t ! i)" and vl: "i_val (ns ! i) = (if i = n then v else i_val (node t ! i))" for i
    using fun_cong [OF fs(2), of i] fun_cong [OF fs(3), of i] by simp_all
  have len: "length ns = length (node t)" by (simp add: ns_def)
  have t'n: "t' = t\<lparr>node := ns\<rparr>" by (simp add: t' ns_def)
  obtain k0 where k0: "i_key (node t ! n) = Key k0" "luaO_rawequalObj k0 key" using n(3) by (auto simp: key_raw_eq_Key)
  have k0n: "k0 \<noteq> TNil" using k0(2) key by (cases key) (auto simp: valid_key_def)
  have mp: "mainposition t' = mainposition t" by (rule mainposition_lsizenode) (simp add: t')
  have dum: "\<not> isdummy t"
  proof
    assume "isdummy t"
    then have "node t = [dummynode]" using wf by (simp add: wf0_def wf_lastfree_def)
    with n(2) k0(1) k0n show False by (simp add: dummynode_def)
  qed
  have "wf_nodes t'"
  proof -
    have "wf_h (length (node t)) (mainposition t) (\<lambda>i. nk_next (node t ! i))
      (\<lambda>i. i_key (node t ! i)) ((\<lambda>i. i_val (node t ! i))(n := v))"
      using wf0_wf_h [OF wf] k0(1) k0n unfolding wf_h_def free_ok_def dead_ok_def by auto
    then show ?thesis unfolding wf_nodes_def mp by (simp add: t'n fs len)
  qed
  moreover have "no_array_keys t'"
    using wf nth_mem unfolding wf0_def no_array_keys_def t'n
    by (fastforce simp: in_set_conv_nth ky len)
  ultimately show wf': "wf0 t'"
    using wf dum by (auto simp: wf0_def wf_sizes_def wf_lastfree_def t'n len ky sizenode_def)
  show "used t' = used t" by (simp add: used_def t'n len ky)
  show "tget t' k = (if luaO_rawequalObj key k then v else tget t k)"
  proof (cases "luaO_rawequalObj key k")
    case True
    have "key_raw_eq k (node t' ! n)"
      using k0 rawequalObj_trans [OF k0(2) True] by (simp add: t'n key_raw_eq_def ky)
    moreover have "\<not> in_array t' k" using n(1) in_array_cong [OF True, of t] by (simp add: t'n)
    moreover have "k \<noteq> TNil" using True key by (cases key) (auto simp: valid_key_def)
    ultimately show ?thesis using tget_node [OF wf', where key = k and n = n] True n(2) by (simp add: t'n len vl)
  next
    case False
    consider "k = TNil" | "in_array t k" | m where "k \<noteq> TNil" "\<not> in_array t k" "m < length (node t)" "key_raw_eq k (node t ! m)"
      | "k \<noteq> TNil" "\<not> in_array t k" "\<forall>m<length (node t). \<not> key_raw_eq k (node t ! m)" by blast
    then show ?thesis
    proof cases
      case 1
      with tget_nil wf wf' False show ?thesis by simp
    next
      case 2
      with False show ?thesis by (simp add: tget_def t'n)
    next
      case (3 m)
      have "m \<noteq> n"
      proof
        assume "m = n"
        then have "luaO_rawequalObj k0 k" using 3(4) k0(1) by (simp add: key_raw_eq_def)
        with rawequalObj_trans [of key k0 k] rawequalObj_sym [of key k0] k0(2) False show False by simp
      qed
      moreover have "key_raw_eq k (node t' ! m)" using 3(4) by (simp add: t'n key_raw_eq_def ky)
      ultimately show ?thesis
        using tget_node [OF wf 3(2,1,3,4)] tget_node [OF wf', where key = k and n = m] 3 False by (simp add: t'n len vl)
    next
      case 4
      then have "\<forall>m<length (node t'). \<not> key_raw_eq k (node t' ! m)" by (simp add: t'n len key_raw_eq_def ky)
      with tget_none [OF 4(2,3)] tget_none [where t = t' and key = k] 4(2) False show ?thesis by (simp add: t'n)
    qed
  qed
qed

lemma set_array_slot:
  assumes wf: "wf0 t" and i: "in_array t key" "i = nat (arrayindex key - 1)"
    and key: "valid_key key" and t': "t' = t\<lparr>array := (array t)[i := v]\<rparr>"
  shows "wf0 t'" "tget t' k = (if luaO_rawequalObj key k then v else tget t k)" "used t' = used t"
proof -
  have mp: "mainposition t' = mainposition t" by (rule mainposition_lsizenode) (simp add: t')
  have "wf_nodes t'" using wf unfolding wf0_def wf_nodes_def mp by (simp add: t')
  then show "wf0 t'"
    using wf by (auto simp: wf0_def wf_sizes_def wf_lastfree_def no_array_keys_def t' sizenode_def)
  show "used t' = used t" by (simp add: used_def t')
  have sz: "sizearray t \<le> length (array t)" using wf by (simp add: wf0_def wf_sizes_def)
  show "tget t' k = (if luaO_rawequalObj key k then v else tget t k)"
  proof (cases "luaO_rawequalObj key k")
    case True
    have "nat (arrayindex k - 1) < length (array t)" using i(1) sz arrayindex_cong [OF True] by linarith
    with i arrayindex_cong [OF True] True show ?thesis by (simp add: tget_def t')
  next
    case False
    have "arrayindex key \<noteq> arrayindex k" if "in_array t k"
    proof
      assume "arrayindex key = arrayindex k"
      with arrayindex_number [of "arrayindex k" k] arrayindex_number [of "arrayindex k" key] that
      have "luaO_rawequalObj (TNumber (cast_num (arrayindex k))) k"
        "luaO_rawequalObj (TNumber (cast_num (arrayindex k))) key" by simp_all
      with False rawequalObj_trans rawequalObj_sym show False by metis
    qed
    with False i show ?thesis by (auto simp: tget_def t' nth_list_update)
  qed
qed

lemma set_slot_spec:
  assumes "wf0 t" "slot_for t key p" "valid_key key"
  shows "wf0 (set_slot t p v)" "tget (set_slot t p v) k = (if luaO_rawequalObj key k then v else tget t k)"
    "used (set_slot t p v) = used t" "sizearray (set_slot t p v) = sizearray t"
    "isdummy (set_slot t p v) = isdummy t" "length (node (set_slot t p v)) = length (node t)"
    "length (array (set_slot t p v)) = length (array t)"
    "sizearray t \<le> j \<Longrightarrow> array (set_slot t p v) ! j = array t ! j"
  using assms set_node_slot [OF assms(1) _ _ _ assms(3) refl] set_array_slot [OF assms(1) _ _ assms(3) refl]
  by (auto simp: slot_for_def set_slot_def split: slot.splits)

subsection \<open>Insertion with room\<close>

lemma placed_slot:
  assumes "wf0 t" "placed t key t' m" "valid_key key" "\<not> in_array t key"
  shows "wf0 t'" "slot_for t' key (NodeSlot m)" "tget t' = tget t" "frame t t'" "used t' \<le> used t + 1"
proof -
  have p: "wf0 t'" "frame t t'" "m < length (node t')" "i_key (node t' ! m) = Key key"
    "entries t' = entries t" "used t' \<le> used t + 1"
    using assms(2) by (auto simp: placed_def)
  show "wf0 t'" "frame t t'" "used t' \<le> used t + 1" by fact+
  show "tget t' = tget t" by (rule tget_cong_entries [OF assms(1) p(1,5)]) (use p(2) in \<open>auto simp: frame_def\<close>)
  show "slot_for t' key (NodeSlot m)"
    using p assms(3,4) by (auto simp: slot_for_def frame_def key_raw_eq_def rawequalObj_refl_iff valid_key_def)
qed

lemma flags_irrelevant [simp]:
  "wf0 (t\<lparr>flags := f\<rparr>) = wf0 t" "tget (t\<lparr>flags := f\<rparr>) = tget t" "used (t\<lparr>flags := f\<rparr>) = used t"
  "slot_for (t\<lparr>flags := f\<rparr>) key p = slot_for t key p" "frame t (t\<lparr>flags := f\<rparr>)"
proof -
  have mp: "mainposition (t\<lparr>flags := f\<rparr>) = mainposition t" by (rule mainposition_lsizenode) simp
  show "wf0 (t\<lparr>flags := f\<rparr>) = wf0 t"
    by (simp add: wf0_def wf_sizes_def wf_nodes_def wf_lastfree_def no_array_keys_def mp sizenode_def)
qed (auto simp: tget_def used_def slot_for_def frame_def fun_eq_iff split: slot.splits)

lemma frame_flags: "frame (t\<lparr>flags := f\<rparr>) t' = frame t t'"
  by (simp add: frame_def)

definition has_room :: "Table \<Rightarrow> TValue \<Rightarrow> bool" where
  "has_room t key \<longleftrightarrow> in_array t key \<or> (\<exists>n<length (node t). key_raw_eq key (node t ! n)) \<or>
     \<not> isdummy t \<and> used t < length (node t)"

lemma newkey_with_room:
  assumes "wf0 t" "valid_key key" "\<not> in_array t key" "\<forall>n<length (node t). \<not> key_raw_eq key (node t ! n)"
    "has_room t key"
  obtains L' t' m where "newkey (Suc d) L t key = Inr (L', t', NodeSlot m)" "placed t key t' m"
proof -
  have dum: "\<not> isdummy t" and u: "used t < length (node t)" using assms(3-5) by (auto simp: has_room_def)
  have "wf_lastfree t" using assms(1) by (simp add: wf0_def)
  then obtain n t1 where "getfreepos t = (Some n, t1)" using getfreepos_room [OF _ dum u] by blast
  then show thesis
    using newkey_room [OF assms(1) dum assms(2-4), of d L] that by (metis fst_conv option.distinct(1))
qed

lemma luaH_get_slot:
  assumes "wf0 t" "key \<noteq> TNil"
  shows "\<exists>s. luaH_get t key = Inr s \<and> (s \<noteq> NilObject \<longrightarrow> slot_for t key s) \<and>
    (s = NilObject \<longrightarrow> \<not> in_array t key \<and> (\<forall>n<length (node t). \<not> key_raw_eq key (node t ! n)))"
proof (rule luaH_get_spec [OF assms(1), of key])
  fix s
  assume s: "luaH_get t key = Inr s" "slot_val t s = tget t key"
    "s = NilObject \<Longrightarrow> \<not> in_array t key \<and> (\<forall>n<length (node t). key \<noteq> TNil \<longrightarrow> \<not> key_raw_eq key (node t ! n))"
    "\<And>i. s = ArraySlot i \<Longrightarrow> in_array t key \<and> i = nat (arrayindex key - 1)"
    "\<And>n. s = NodeSlot n \<Longrightarrow> \<not> in_array t key \<and> n < length (node t) \<and> key_raw_eq key (node t ! n)"
  have "slot_for t key s" if "s \<noteq> NilObject" using that s(4,5) by (cases s) (simp_all add: slot_for_def)
  with s(1,3) assms(2) show ?thesis by blast
qed

lemma luaH_set_with_room:
  assumes wf: "wf0 t" and key: "valid_key key" and room: "has_room t key"
  obtains L' t' p where "luaH_set_with (newkey (Suc d)) L t key = Inr (L', t', p)"
    "wf0 t'" "slot_for t' key p" "tget t' = tget t" "frame t t'"
    "used t' \<le> used t + of_bool (\<not> in_array t key)"
proof -
  have k0: "key \<noteq> TNil" using key by (rule valid_key_not_nil)
  obtain s where s: "luaH_get t key = Inr s" "s \<noteq> NilObject \<longrightarrow> slot_for t key s"
    "s = NilObject \<longrightarrow> \<not> in_array t key \<and> (\<forall>n<length (node t). \<not> key_raw_eq key (node t ! n))"
    using luaH_get_slot [OF wf k0] by blast
  let ?t = "t\<lparr>flags := 0\<rparr>"
  show thesis
  proof (cases "s = NilObject")
    case False
    then have "luaH_set_with (newkey (Suc d)) L t key = Inr (L, ?t, s)"
      using s(1) by (simp add: luaH_set_with_def Let_def)
    then show thesis using wf s(2) False that [of L ?t s] by simp
  next
    case True
    have abs: "\<not> in_array t key" "\<forall>n<length (node t). \<not> key_raw_eq key (node t ! n)" using s(3) True by blast+
    have wft: "wf0 ?t" and rt: "has_room ?t key" using wf room by (simp_all add: has_room_def)
    obtain L' t' m where nk: "newkey (Suc d) L ?t key = Inr (L', t', NodeSlot m)" "placed ?t key t' m"
      by (rule newkey_with_room [OF wft key _ _ rt, of d L]) (use abs in auto)
    have "luaH_set_with (newkey (Suc d)) L t key = Inr (L', t', NodeSlot m)"
      using s(1) True k0 nk(1) key
      by (cases key) (auto simp: luaH_set_with_def Let_def valid_key_def simp del: newkey.simps)
    moreover note pl = placed_slot [OF wft nk(2) key]
    ultimately show thesis using that [of L' t' "NodeSlot m"] abs by (auto simp: frame_flags)
  qed
qed

lemma valid_key_int: "int_range i \<Longrightarrow> valid_key (TNumber (cast_num i))"
  by (simp add: valid_key_def)

lemma setnum_as_set:
  assumes "wf0 t" "int_range i"
  shows "luaH_setnum_with nk L t i =
    bind_result (luaH_get t (TNumber (cast_num i))) (\<lambda>p.
       if p \<noteq> NilObject then Inr (L, t, p) else nk L t (TNumber (cast_num i)))"
  using assms by (simp add: luaH_setnum_with_def Let_def)

lemma rawequal_int_iff:
  assumes i: "0 \<le> i" "int_range i"
  shows "luaO_rawequalObj (TNumber (cast_num i)) k \<longleftrightarrow> arrayindex k = i"
proof
  show "arrayindex k = i" if "luaO_rawequalObj (TNumber (cast_num i)) k"
    using arrayindex_cong [OF that] arrayindex_int [OF i(2)] by simp
  show "luaO_rawequalObj (TNumber (cast_num i)) k" if "arrayindex k = i"
    using arrayindex_number [OF i(1) that] by blast
qed

lemma luaH_setnum_with_room:
  assumes wf: "wf0 t" and i: "int_range i" and room: "has_room t (TNumber (cast_num i))"
  obtains L' t' p where "luaH_setnum_with (newkey (Suc d)) L t i = Inr (L', t', p)"
    "wf0 t'" "slot_for t' (TNumber (cast_num i)) p" "tget t' = tget t" "frame t t'"
    "used t' \<le> used t + of_bool (\<not> in_array t (TNumber (cast_num i)))"
proof -
  define key where "key = TNumber (cast_num i)"
  note vk = valid_key_int [OF i, folded key_def]
  note as_set = setnum_as_set [OF wf i, folded key_def]
  note room = room [folded key_def]
  note that = that [folded key_def]
  have k0: "key \<noteq> TNil" using vk by (rule valid_key_not_nil)
  obtain s where s: "luaH_get t key = Inr s" "s \<noteq> NilObject \<longrightarrow> slot_for t key s"
    "s = NilObject \<longrightarrow> \<not> in_array t key \<and> (\<forall>n<length (node t). \<not> key_raw_eq key (node t ! n))"
    using luaH_get_slot [OF wf k0] by blast
  show thesis
  proof (cases "s = NilObject")
    case False
    then have "luaH_setnum_with (newkey (Suc d)) L t i = Inr (L, t, s)"
      by (simp add: as_set s(1))
    then show thesis using wf s(2) False that [of L t s] by (simp add: frame_def)
  next
    case True
    have abs: "\<not> in_array t key" "\<forall>n<length (node t). \<not> key_raw_eq key (node t ! n)" using s(3) True by blast+
    obtain L' t' m where nk: "newkey (Suc d) L t key = Inr (L', t', NodeSlot m)" "placed t key t' m"
      by (rule newkey_with_room [OF wf vk _ _ room, of d L]) (use abs in auto)
    have "luaH_setnum_with (newkey (Suc d)) L t i = Inr (L', t', NodeSlot m)"
      using True nk(1) by (simp add: as_set s(1) del: newkey.simps)
    moreover note placed_slot [OF wf nk(2) vk]
    ultimately show thesis using that [of L' t' "NodeSlot m"] abs by auto
  qed
qed

declare newkey.simps [simp del]

subsection \<open>Re-insertion\<close>

definition keeps :: "Table \<Rightarrow> Table \<Rightarrow> bool" where
  "keeps t t' \<longleftrightarrow> sizearray t' = sizearray t \<and> isdummy t' = isdummy t \<and>
     length (node t') = length (node t) \<and> length (array t') = length (array t) \<and>
     t_self t' = t_self t \<and> metatable t' = metatable t \<and>
     (\<forall>j\<ge>sizearray t. array t' ! j = array t ! j)"

lemma keeps_refl [simp]: "keeps t t"
  by (simp add: keeps_def)

lemma keeps_trans: "keeps t t' \<Longrightarrow> keeps t' t'' \<Longrightarrow> keeps t t''"
  by (simp add: keeps_def)

text \<open>\<open>t'\<close> is \<open>t\<close> with the value \<open>v\<close> stored under \<open>key\<close>.\<close>

definition stored :: "Table \<Rightarrow> TValue \<Rightarrow> TValue \<Rightarrow> Table \<Rightarrow> bool" where
  "stored t key v t' \<longleftrightarrow> wf0 t' \<and> keeps t t' \<and>
     (\<forall>k. tget t' k = (if luaO_rawequalObj key k then v else tget t k)) \<and>
     used t' \<le> used t + of_bool (\<not> in_array t key)"

lemma stored_slot:
  assumes "wf0 t'" "slot_for t' key p" "tget t' = tget t" "frame t t'" "valid_key key"
    "used t' \<le> used t + of_bool (\<not> in_array t key)"
  shows "stored t key v (set_slot t' p v)"
proof -
  note s = set_slot_spec [OF assms(1,2,5)]
  have "t_self (set_slot t' p v) = t_self t" "metatable (set_slot t' p v) = metatable t"
    using assms(4) by (auto simp: set_slot_def frame_def split: slot.splits)
  with s(4-8) have "keeps t (set_slot t' p v)" using assms(4) by (simp add: keeps_def frame_def)
  with s(1,2,3) assms(3,6) show ?thesis by (simp add: stored_def)
qed

lemma set_stored:
  assumes "wf0 t" "valid_key key" "has_room t key"
  shows "\<exists>L' t' p. luaH_set_with (newkey (Suc d)) L t key = Inr (L', t', p) \<and> p \<noteq> NilObject \<and>
    (\<forall>v. stored t key v (set_slot t' p v)) \<and> frame t t' \<and> wf0 t' \<and> slot_for t' key p \<and> tget t' = tget t"
proof (rule luaH_set_with_room [OF assms, of d L])
  fix L' t' p
  assume a: "luaH_set_with (newkey (Suc d)) L t key = Inr (L', t', p)" "wf0 t'" "slot_for t' key p"
    "tget t' = tget t" "frame t t'" "used t' \<le> used t + of_bool (\<not> in_array t key)"
  have "p \<noteq> NilObject" using a(3) by (auto simp: slot_for_def)
  with stored_slot [OF a(2-5) assms(2) a(6)] a(1-5) show ?thesis by blast
qed

lemma setnum_stored:
  assumes "wf0 t" "int_range i" "has_room t (TNumber (cast_num i))"
  shows "\<exists>L' t' p. luaH_setnum_with (newkey (Suc d)) L t i = Inr (L', t', p) \<and>
    (\<forall>v. stored t (TNumber (cast_num i)) v (set_slot t' p v)) \<and> frame t t'"
proof (rule luaH_setnum_with_room [OF assms, of d L])
  fix L' t' p
  assume a: "luaH_setnum_with (newkey (Suc d)) L t i = Inr (L', t', p)" "wf0 t'"
    "slot_for t' (TNumber (cast_num i)) p" "tget t' = tget t" "frame t t'"
    "used t' \<le> used t + of_bool (\<not> in_array t (TNumber (cast_num i)))"
  with stored_slot [OF a(2-5) valid_key_int [OF assms(2)] a(6)] show ?thesis by blast
qed

text \<open>The live nodes of a list whose keys go to the hash part of \<open>t\<close>, and the room they need.\<close>

definition live_hash :: "nat \<Rightarrow> Node \<Rightarrow> bool" where
  "live_hash asize n \<longleftrightarrow> i_val n \<noteq> TNil \<and>
     \<not> (0 < arrayindex (key2tval (i_key n)) \<and> arrayindex (key2tval (i_key n)) \<le> int asize)"

definition room_for :: "Table \<Rightarrow> nat \<Rightarrow> bool" where
  "room_for t m \<longleftrightarrow> used t + m \<le> length (node t) \<and> (isdummy t \<longrightarrow> m = 0)"

lemma room_forD: "room_for t m \<Longrightarrow> (\<not> in_array t key \<Longrightarrow> 0 < m) \<Longrightarrow> has_room t key"
  by (auto simp: room_for_def has_room_def)

lemma room_for_stored:
  "room_for t m \<Longrightarrow> stored t key v t' \<Longrightarrow> m' + of_bool (\<not> in_array t key) \<le> m \<Longrightarrow> room_for t' m'"
  by (auto simp: room_for_def stored_def keeps_def)

definition live_key :: "Node \<Rightarrow> bool" where
  "live_key n \<longleftrightarrow> i_val n \<noteq> TNil \<longrightarrow> (\<exists>k. i_key n = Key k \<and> valid_key k)"

definition live_match :: "TValue \<Rightarrow> Node \<Rightarrow> bool" where
  "live_match k n \<longleftrightarrow> i_val n \<noteq> TNil \<and> key_raw_eq k n"

lemma reinsert_nodes_spec:
  "wf0 t \<Longrightarrow> \<forall>n\<in>set olds. live_key n \<Longrightarrow>
   room_for t (length (filter (live_hash (sizearray t)) olds)) \<Longrightarrow>
   \<exists>L' t'. reinsert_nodes (newkey (Suc d)) olds L t = Inr (L', t') \<and> wf0 t' \<and> keeps t t' \<and>
     used t' \<le> used t + length (filter (live_hash (sizearray t)) olds) \<and>
     (\<forall>k. tget t' k = (case find (live_match k) (rev olds) of Some n \<Rightarrow> i_val n | None \<Rightarrow> tget t k))"
proof (induction olds arbitrary: L t)
  case Nil
  then show ?case by simp
next
  case (Cons old olds)
  show ?case
  proof (cases "i_val old = TNil")
    case True
    then have "\<not> live_hash (sizearray t) old" "\<And>k. \<not> live_match k old" by (auto simp: live_hash_def live_match_def)
    moreover from this(2) have "find (live_match k) (rev (old # olds)) = find (live_match k) (rev olds)" for k
      by (simp add: find_append split: option.splits)
    ultimately show ?thesis using True Cons.IH [OF Cons.prems(1), of L] Cons.prems(2,3) by simp
  next
    case False
    then obtain key where key: "i_key old = Key key" "valid_key key"
      using Cons.prems(2) by (auto simp: live_key_def)
    let ?m = "length (filter (live_hash (sizearray t)) olds)"
    have lh: "live_hash (sizearray t) old \<longleftrightarrow> \<not> in_array t key" using False key by (simp add: live_hash_def)
    have "has_room t key" by (rule room_forD [OF Cons.prems(3)]) (auto simp: lh)
    from set_stored [OF Cons.prems(1) key(2) this] obtain L1 t1 p where
      s: "luaH_set_with (newkey (Suc d)) L t key = Inr (L1, t1, p)" "stored t key (i_val old) (set_slot t1 p (i_val old))"
      by blast
    let ?t2 = "set_slot t1 p (i_val old)"
    have sa: "sizearray ?t2 = sizearray t" using s(2) by (simp add: stored_def keeps_def)
    have "room_for ?t2 ?m" by (rule room_for_stored [OF Cons.prems(3) s(2)]) (auto simp: lh)
    then obtain L' t' where t': "reinsert_nodes (newkey (Suc d)) olds L1 ?t2 = Inr (L', t')" "wf0 t'"
      "keeps ?t2 t'" "used t' \<le> used ?t2 + ?m"
      "\<forall>k. tget t' k = (case find (live_match k) (rev olds) of Some n \<Rightarrow> i_val n | None \<Rightarrow> tget ?t2 k)"
      using Cons.IH [of ?t2 L1] s(2) Cons.prems(2) unfolding sa by (auto simp: stored_def)
    have "reinsert_nodes (newkey (Suc d)) (old # olds) L t = Inr (L', t')"
      using False key s(1) t'(1) by simp
    moreover have "keeps t t'" using s(2) t'(3) keeps_trans by (auto simp: stored_def)
    moreover have "used t' \<le> used t + length (filter (live_hash (sizearray t)) (old # olds))"
      using t'(4) s(2) by (auto simp: stored_def lh split: if_splits)
    moreover have "live_match k old \<longleftrightarrow> luaO_rawequalObj key k" for k
      using False key by (simp add: live_match_def key_raw_eq_def)
    then have "tget t' k = (case find (live_match k) (rev (old # olds)) of Some n \<Rightarrow> i_val n | None \<Rightarrow> tget t k)" for k
      using t'(5) s(2) by (auto simp: stored_def find_append split: option.splits)
    ultimately show ?thesis using t'(2) by blast
  qed
qed

lemma reinsert_array_spec:
  "wf0 t \<Longrightarrow> \<forall>i\<in>set is. sizearray t \<le> i \<and> i < MAXASIZE \<Longrightarrow>
   room_for t (length (filter (\<lambda>i. array t ! i \<noteq> TNil) is)) \<Longrightarrow>
   \<exists>L' t'. reinsert_array (newkey (Suc d)) is L t = Inr (L', t') \<and> wf0 t' \<and> keeps t t' \<and>
     used t' \<le> used t + length (filter (\<lambda>i. array t ! i \<noteq> TNil) is) \<and>
     (\<forall>k. tget t' k = (if \<exists>i\<in>set is. array t ! i \<noteq> TNil \<and> arrayindex k = int i + 1
        then array t ! nat (arrayindex k - 1) else tget t k))"
proof (induction "is" arbitrary: L t)
  case Nil
  then show ?case by simp
next
  case (Cons i "is")
  show ?case
  proof (cases "array t ! i = TNil")
    case True
    with Cons.IH [OF Cons.prems(1), of L] Cons.prems(2,3) show ?thesis by simp
  next
    case False
    define j where "j = int i + 1"
    have jr: "0 \<le> j" "int_range j"
      using Cons.prems(2) by (auto simp: j_def INT_MAX_def INT_MIN_def MAXASIZE_def MAXBITS_def)
    have notin: "\<not> in_array t (TNumber (cast_num j))"
      using arrayindex_int [OF jr(2)] Cons.prems(2) by (auto simp: j_def simp del: arrayindex.simps)
    let ?m = "length (filter (\<lambda>i. array t ! i \<noteq> TNil) is)"
    have "has_room t (TNumber (cast_num j))" by (rule room_forD [OF Cons.prems(3)]) (simp add: False)
    from setnum_stored [OF Cons.prems(1) jr(2) this] obtain L1 t1 p where
      s: "luaH_setnum_with (newkey (Suc d)) L t j = Inr (L1, t1, p)"
      "stored t (TNumber (cast_num j)) (array t ! i) (set_slot t1 p (array t ! i))"
      by blast
    let ?t2 = "set_slot t1 p (array t ! i)"
    have k2: "keeps t ?t2" using s(2) by (simp add: stored_def)
    then have arr: "\<forall>i\<in>set is. array ?t2 ! i = array t ! i" "sizearray ?t2 = sizearray t"
      using Cons.prems(2) by (auto simp: keeps_def)
    then have flt: "filter (\<lambda>i. array ?t2 ! i \<noteq> TNil) is = filter (\<lambda>i. array t ! i \<noteq> TNil) is"
      by (auto intro: filter_cong)
    have "room_for ?t2 ?m" by (rule room_for_stored [OF Cons.prems(3) s(2)]) (use notin False in auto)
    then obtain L' t' where t': "reinsert_array (newkey (Suc d)) is L1 ?t2 = Inr (L', t')" "wf0 t'"
      "keeps ?t2 t'" "used t' \<le> used ?t2 + ?m"
      "\<forall>k. tget t' k = (if \<exists>i\<in>set is. array ?t2 ! i \<noteq> TNil \<and> arrayindex k = int i + 1
        then array ?t2 ! nat (arrayindex k - 1) else tget ?t2 k)"
      using Cons.IH [of ?t2 L1] s(2) Cons.prems(2) unfolding flt arr(2) by (auto simp: stored_def)
    have "reinsert_array (newkey (Suc d)) (i # is) L t = Inr (L', t')"
      using False s(1) t'(1) by (simp add: j_def)
    moreover have "keeps t t'" by (rule keeps_trans [OF k2 t'(3)])
    moreover have "used t' \<le> used t + length (filter (\<lambda>i. array t ! i \<noteq> TNil) (i # is))"
      using t'(4) s(2) False notin by (auto simp: stored_def split: if_splits)
    moreover have "tget t' k = (if \<exists>i\<in>set (i # is). array t ! i \<noteq> TNil \<and> arrayindex k = int i + 1
        then array t ! nat (arrayindex k - 1) else tget t k)" for k
    proof -
      have "tget ?t2 k = (if arrayindex k = j then array t ! i else tget t k)"
        using s(2) rawequal_int_iff [OF jr] by (simp add: stored_def)
      then show ?thesis using t'(5) [rule_format, of k] arr(1) False by (auto simp: j_def)
    qed
    ultimately show ?thesis using t'(2) by blast
  qed
qed

end
