(* ===== verification/Ltable_rehash.thy ===== *)
theory Ltable_rehash
  imports Ltable_set
begin

text \<open>
  \<open>resize\<close> and \<open>rehash\<close> of ltable.c: the counting of integer keys, the choice of the array
  size, and the proof that a rehash keeps the map and makes room for the key it was called
  for; from these, that \<open>luaH_set\<close>, \<open>luaH_setnum\<close> and \<open>luaH_setstr\<close> always
  return the slot of their key.
\<close>

lemma ceillog2_spec:
  assumes "0 < n" "n < 2 ^ 31"
  shows "n \<le> 2 ^ nat (ceillog2 (word_of_nat n))" "2 ^ nat (ceillog2 (word_of_nat n)) < 2 * n"
    "0 \<le> ceillog2 (word_of_nat n)"
proof -
  have "unat (word_of_nat n :: 32 word) = n" by (rule unat_of_nat_small) (use assms in simp)
  then have u: "unat (word_of_nat n - 1 :: 32 word) = n - 1"
    using assms by (subst unat_sub_if') simp
  have "n \<le> 2 ^ nat (ceillog2 (word_of_nat n)) \<and> 2 ^ nat (ceillog2 (word_of_nat n)) < 2 * n \<and> 0 \<le> ceillog2 (word_of_nat n)"
  proof (cases "n = 1")
    case True
    then show ?thesis by (simp add: ceillog2_def luaO_log2_0)
  next
    case False
    then have p: "0 < n - 1" using assms(1) by simp
    have "(word_of_nat n - 1 :: 32 word) \<noteq> 0" using u p by (metis less_numeral_extra(3) unat_0)
    then have c: "ceillog2 (word_of_nat n) = int (Suc (floor_log2 (n - 1)))" using u by (simp add: ceillog2_def luaO_log2_eq)
    have "n \<le> 2 * 2 ^ floor_log2 (n - 1)" "2 * 2 ^ floor_log2 (n - 1) < 2 * n"
      using floor_log2_bounds [OF p] p by (auto simp: less_eq_Suc_le)
    then show ?thesis unfolding c nat_int by simp
  qed
  then show "n \<le> 2 ^ nat (ceillog2 (word_of_nat n))" "2 ^ nat (ceillog2 (word_of_nat n)) < 2 * n"
    "0 \<le> ceillog2 (word_of_nat n)" by blast+
qed

lemma ceillog2_le:
  assumes "0 < n" "n \<le> 2 ^ m" "m < 31"
  shows "nat (ceillog2 (word_of_nat n)) \<le> m"
proof -
  have "(2::nat) ^ m < 2 ^ 31" using assms(3) by (intro power_strict_increasing) auto
  then have "2 ^ nat (ceillog2 (word_of_nat n)) < 2 * n" using ceillog2_spec(2) [of n] assms by linarith
  also have "\<dots> \<le> 2 ^ Suc m" using assms(2) by simp
  finally have "nat (ceillog2 (word_of_nat n)) < Suc m" by (rule power_less_imp_less_exp [rotated]) simp
  then show ?thesis by simp
qed

subsection \<open>Fresh node vectors\<close>

definition fresh_nodes :: "Table \<Rightarrow> bool" where
  "fresh_nodes t \<longleftrightarrow> node t = replicate (sizenode t) dummynode \<and> lsizenode t \<le> MAXBITS \<and>
     (if isdummy t then lsizenode t = 0 \<and> lastfree t = 0 else lastfree t = int (sizenode t))"

lemma setnodevector_fresh:
  assumes "sz \<le> MAXASIZE"
  shows "\<exists>t'. setnodevector t sz = Inr t' \<and> fresh_nodes t' \<and> array t' = array t \<and> sizearray t' = sizearray t \<and>
    t_self t' = t_self t \<and> metatable t' = metatable t \<and>
    (if sz = 0 then isdummy t' else \<not> isdummy t' \<and> sz \<le> length (node t') \<and> length (node t') < 2 * sz)"
proof (cases "sz = 0")
  case True
  then show ?thesis by (simp add: setnodevector_def fresh_nodes_def sizenode_def)
next
  case False
  have lt: "sz < 2 ^ 31" using assms by (simp add: MAXASIZE_def MAXBITS_def)
  have "nat (ceillog2 (word_of_nat sz)) \<le> MAXBITS"
    using ceillog2_le [of sz MAXBITS] False assms by (simp add: MAXASIZE_def MAXBITS_def)
  then show ?thesis using False ceillog2_spec [OF _ lt]
    by (auto simp: setnodevector_def Let_def fresh_nodes_def sizenode_def)
qed

lemma setnodevector_overflow:
  assumes "MAXASIZE < sz" "sz < 2 ^ 31"
  shows "setnodevector t sz = Inl (RunError ''table overflow'')"
proof -
  have "2 ^ MAXBITS < (2::nat) ^ nat (ceillog2 (word_of_nat sz))"
    using ceillog2_spec(1) [of sz] assms unfolding MAXASIZE_def by linarith
  then have "MAXBITS < nat (ceillog2 (word_of_nat sz))" by (rule power_less_imp_less_exp [rotated]) simp
  with assms show ?thesis by (simp add: setnodevector_def Let_def MAXASIZE_def)
qed

lemma fresh_nodes_wf:
  assumes f: "fresh_nodes t" and sz: "sizearray t \<le> length (array t)" "sizearray t \<le> MAXASIZE"
  shows "wf0 t" "used t = 0" "tget t k = (if in_array t k then array t ! nat (arrayindex k - 1) else TNil)"
proof -
  define N where "N = sizenode t"
  have nd: "node t = replicate N dummynode" and N: "N = 2 ^ lsizenode t" using f by (simp_all add: fresh_nodes_def N_def sizenode_def)
  have ky: "i < N \<Longrightarrow> i_key (node t ! i) = Key TNil" "i < N \<Longrightarrow> i_val (node t ! i) = TNil"
    "i < N \<Longrightarrow> nk_next (node t ! i) = None" for i
    by (simp_all add: nd dummynode_def)
  have len: "length (node t) = N" by (simp add: nd)
  have "paths_end N (\<lambda>i. nk_next (node t ! i))"
    unfolding paths_end_def
  proof (intro allI impI)
    fix i assume "i < N"
    with ky(3) have "path (\<lambda>i. nk_next (node t ! i)) i [i]" by simp
    then show "\<exists>xs. path (\<lambda>i. nk_next (node t ! i)) i xs" by blast
  qed
  then have "wf_nodes t"
    unfolding wf_nodes_def wf_h_def len next_ok_def next_inj_def free_ok_def dead_ok_def keys_valid_def
      keys_reach_def main_ok_def keys_uniq_def by (simp add: ky)
  moreover have "wf_lastfree t" using f len N by (simp add: wf_lastfree_def fresh_nodes_def N_def [symmetric] nd sizenode_def)
  moreover have "no_array_keys t" by (auto simp: no_array_keys_def nd dummynode_def)
  moreover have "wf_sizes t" using sz f len by (simp add: wf_sizes_def fresh_nodes_def N_def)
  ultimately show "wf0 t" by (simp add: wf0_def)
  show "used t = 0" using ky(1) by (simp add: used_def len)
  have "find (key_raw_eq k) (node t) = Some n \<Longrightarrow> i_val n = TNil" for n
    by (auto simp: nd find_Some_iff dummynode_def)
  then show "tget t k = (if in_array t k then array t ! nat (arrayindex k - 1) else TNil)"
    by (auto simp: tget_def split: option.splits)
qed

lemma wf0_live_key: "wf0 t \<Longrightarrow> n \<in> set (node t) \<Longrightarrow> live_key n"
  unfolding live_key_def in_set_conv_nth
proof clarify
  fix i assume wf: "wf0 t" and i: "i < length (node t)" "i_val (node t ! i) \<noteq> TNil"
  note wh = wf0_wf_h [OF wf]
  obtain k where "i_key (node t ! i) = Key k" "k \<noteq> TNil"
    using free_okD [OF wh i(1)] dead_okD [OF wh i(1)] i(2) by (cases "i_key (node t ! i)") auto
  with keys_validD [OF wh i(1)] show "\<exists>k. i_key (node t ! i) = Key k \<and> valid_key k" by blast
qed

text \<open>The lookup depends on the live nodes only.\<close>

lemma tget_live:
  assumes "wf0 t"
  shows "tget t k = (if in_array t k then array t ! nat (arrayindex k - 1)
    else case find (live_match k) (node t) of Some n \<Rightarrow> i_val n | None \<Rightarrow> TNil)"
proof (cases "in_array t k")
  case True
  then show ?thesis by (simp add: tget_def)
next
  case False
  show ?thesis
  proof (cases "find (live_match k) (node t)")
    case None
    have "tget t k = TNil"
    proof (rule ccontr)
      assume "tget t k \<noteq> TNil"
      from tget_entries [OF this False] None show False
        by (auto simp: entries_def find_None_iff live_match_def key_raw_eq_def in_set_conv_nth)
    qed
    with False None show ?thesis by auto
  next
    case (Some n)
    then obtain i where i: "i < length (node t)" "n = node t ! i" "live_match k n" by (auto simp: find_Some_iff)
    then have "key_raw_eq k (node t ! i)" "k \<noteq> TNil"
      using wf0_live_key [OF assms nth_mem [OF i(1)]]
      by (auto simp: live_match_def live_key_def key_raw_eq_def valid_key_def rawequalObj_cases)
    from tget_node [OF assms False this(2) i(1) this(1)] Some False i(2) show ?thesis by auto
  qed
qed

subsection \<open>Resizing\<close>

definition overflow_count :: "Table \<Rightarrow> nat \<Rightarrow> nat" where
  "overflow_count t nasize = length (filter (\<lambda>i. array t ! i \<noteq> TNil) [nasize..<sizearray t]) +
     length (filter (live_hash nasize) (node t))"

text \<open>The table at the start of the two loops of \<open>resize\<close>.\<close>

lemma resize_base:
  assumes wf: "wf_table t" and na: "nasize \<le> MAXASIZE" and nh: "nhsize \<le> MAXASIZE"
  obtains tb where
    "\<And>nk L. resize_with nk L t nasize nhsize =
       bind_result (reinsert_array nk [nasize..<sizearray t] L tb) (\<lambda>(L, t1).
         reinsert_nodes nk (rev (node t)) L (t1\<lparr>array := take nasize (array t1)\<rparr>))"
    "wf0 tb" "used tb = 0" "sizearray tb = nasize" "nasize \<le> length (array tb)"
    "\<forall>i < sizearray t. array tb ! i = array t ! i"
    "\<forall>i. sizearray t \<le> i \<longrightarrow> i < nasize \<longrightarrow> array tb ! i = TNil"
    "\<And>k. tget tb k = (if in_array tb k then array tb ! nat (arrayindex k - 1) else TNil)"
    "t_self tb = t_self t" "metatable tb = metatable t"
    "if nhsize = 0 then isdummy tb else \<not> isdummy tb \<and> nhsize \<le> length (node tb) \<and> length (node tb) < 2 * nhsize"
proof -
  let ?t1 = "if sizearray t < nasize then setarrayvector t nasize else t"
  have la: "length (array t) = sizearray t" using wf by (simp add: wf_table_def)
  obtain t2 where t2: "setnodevector ?t1 nhsize = Inr t2" "fresh_nodes t2" "array t2 = array ?t1"
    "sizearray t2 = sizearray ?t1" "t_self t2 = t_self ?t1" "metatable t2 = metatable ?t1"
    "if nhsize = 0 then isdummy t2 else \<not> isdummy t2 \<and> nhsize \<le> length (node t2) \<and> length (node t2) < 2 * nhsize"
    using setnodevector_fresh [OF nh, of ?t1] by blast
  define tb where "tb = t2\<lparr>sizearray := nasize\<rparr>"
  have arr: "array tb = (if sizearray t < nasize then array t @ replicate (nasize - sizearray t) TNil else array t)"
    using la t2(3) by (simp add: tb_def setarrayvector_def)
  have lb: "nasize \<le> length (array tb)" "sizearray tb = nasize" unfolding arr using la by (auto simp: tb_def)
  have fb: "fresh_nodes tb" using t2(2) by (simp add: fresh_nodes_def tb_def sizenode_def)
  have same: "t2 = tb" if "\<not> nasize < sizearray t" using that t2(4) by (simp add: tb_def setarrayvector_def)
  show thesis
  proof (rule that)
    fix nk L
    show "resize_with nk L t nasize nhsize =
       bind_result (reinsert_array nk [nasize..<sizearray t] L tb) (\<lambda>(L, t1).
         reinsert_nodes nk (rev (node t)) L (t1\<lparr>array := take nasize (array t1)\<rparr>))"
    proof (cases "nasize < sizearray t")
      case True
      with t2(1) show ?thesis by (simp add: resize_with_def Let_def tb_def split_def bind_result_assoc)
    next
      case False
      have "length (array tb) = nasize" using arr la False by (auto split: if_splits)
      with False same [OF False] t2(1) show ?thesis by (simp add: resize_with_def Let_def)
    qed
    show "\<forall>i < sizearray t. array tb ! i = array t ! i" using la by (simp add: arr nth_append)
    show "\<forall>i. sizearray t \<le> i \<longrightarrow> i < nasize \<longrightarrow> array tb ! i = TNil"
      using la by (auto simp: arr nth_append)
    show "wf0 tb" "used tb = 0" using fresh_nodes_wf [OF fb] lb na by simp_all
    show "tget tb k = (if in_array tb k then array tb ! nat (arrayindex k - 1) else TNil)" for k
      using fresh_nodes_wf(3) [OF fb] lb na by simp
    show "if nhsize = 0 then isdummy tb else \<not> isdummy tb \<and> nhsize \<le> length (node tb) \<and> length (node tb) < 2 * nhsize"
      using t2(7) by (simp add: tb_def)
  qed (use lb t2(5,6) in \<open>auto simp: tb_def setarrayvector_def\<close>)
qed

lemma take_array:
  assumes "wf0 t" "t' = t\<lparr>array := take (sizearray t) (array t)\<rparr>"
  shows "wf_table t'" "tget t' = tget t" "used t' = used t"
proof -
  have mp: "mainposition t' = mainposition t" by (rule mainposition_lsizenode) (simp add: assms(2))
  have nodes: "wf_nodes t' = wf_nodes t" unfolding wf_nodes_def mp by (simp add: assms(2))
  moreover have "wf_lastfree t' = wf_lastfree t" by (simp add: wf_lastfree_def assms(2))
  moreover have "no_array_keys t' = no_array_keys t" by (simp add: no_array_keys_def assms(2))
  ultimately show "wf_table t'" using assms(1)
    by (auto simp: wf_table_def wf0_def wf_sizes_def assms(2) sizenode_def)
  have "nat (arrayindex k - 1) < sizearray t" if "in_array t k" for k using that by linarith
  then show "tget t' = tget t" by (intro ext) (auto simp: tget_def assms(2))
  show "used t' = used t" by (simp add: used_def assms(2))
qed

lemma resize_spec:
  assumes wf: "wf_table t" and na: "nasize \<le> MAXASIZE" and nh: "nhsize \<le> MAXASIZE"
    and room: "overflow_count t nasize \<le> nhsize"
  shows "\<exists>L' t'. resize_with (newkey (Suc d)) L t nasize nhsize = Inr (L', t') \<and> wf_table t' \<and>
    tget t' = tget t \<and> sizearray t' = nasize \<and> used t' \<le> overflow_count t nasize \<and>
    t_self t' = t_self t \<and> metatable t' = metatable t \<and>
    (if nhsize = 0 then isdummy t' else \<not> isdummy t' \<and> nhsize \<le> length (node t'))"
proof (rule resize_base [OF wf na nh])
  fix tb
  assume eq: "\<And>(nk :: 'a newkey_fun) L. resize_with nk L t nasize nhsize =
       bind_result (reinsert_array nk [nasize..<sizearray t] L tb) (\<lambda>(L, t1).
         reinsert_nodes nk (rev (node t)) L (t1\<lparr>array := take nasize (array t1)\<rparr>))"
    and tb: "wf0 tb" "used tb = 0" "sizearray tb = nasize" "nasize \<le> length (array tb)"
      "\<forall>i < sizearray t. array tb ! i = array t ! i"
      "\<forall>i. sizearray t \<le> i \<longrightarrow> i < nasize \<longrightarrow> array tb ! i = TNil"
    and tbg: "\<And>k. tget tb k = (if in_array tb k then array tb ! nat (arrayindex k - 1) else TNil)"
    and tbs: "t_self tb = t_self t" "metatable tb = metatable t"
      "if nhsize = 0 then isdummy tb else \<not> isdummy tb \<and> nhsize \<le> length (node tb) \<and> length (node tb) < 2 * nhsize"
  let ?is = "[nasize..<sizearray t]"
  let ?ma = "length (filter (\<lambda>i. array t ! i \<noteq> TNil) ?is)"
  let ?mn = "length (filter (live_hash nasize) (node t))"
  have wf0: "wf0 t" using wf by (simp add: wf_table_def)
  have sza: "sizearray t \<le> MAXASIZE" using wf0 by (simp add: wf0_def wf_sizes_def)
  have flt: "filter (\<lambda>i. array tb ! i \<noteq> TNil) ?is = filter (\<lambda>i. array t ! i \<noteq> TNil) ?is"
    using tb(5) by (auto intro: filter_cong)
  have tot: "?ma + ?mn \<le> nhsize" using room by (simp add: overflow_count_def)
  have "room_for tb ?ma" using tbs(3) tb(2) tot by (auto simp: room_for_def split: if_splits)
  then obtain L1 t1 where t1: "reinsert_array (newkey (Suc d)) ?is L tb = Inr (L1, t1)" "wf0 t1" "keeps tb t1"
    "used t1 \<le> used tb + ?ma"
    "\<forall>k. tget t1 k = (if \<exists>i\<in>set ?is. array tb ! i \<noteq> TNil \<and> arrayindex k = int i + 1
        then array tb ! nat (arrayindex k - 1) else tget tb k)"
    using reinsert_array_spec [OF tb(1), of ?is d L] sza tb(3) unfolding flt by auto
  define t2 where "t2 = t1\<lparr>array := take nasize (array t1)\<rparr>"
  have s1: "sizearray t1 = nasize" using t1(3) tb(3) by (simp add: keeps_def)
  note t2 = take_array [OF t1(2), of t2, unfolded s1, OF t2_def]
  have t2k: "sizearray t2 = nasize" "isdummy t2 = isdummy tb" "length (node t2) = length (node tb)"
    "t_self t2 = t_self t" "metatable t2 = metatable t"
    using t1(3) s1 tbs by (simp_all add: t2_def keeps_def)
  have "room_for t2 (length (filter (live_hash (sizearray t2)) (rev (node t))))"
    using tbs(3) tb(2) tot t2k t1(4) t2(3)
    by (auto simp: room_for_def rev_filter [symmetric] split: if_splits)
  then obtain L' t' where t': "reinsert_nodes (newkey (Suc d)) (rev (node t)) L1 t2 = Inr (L', t')" "wf0 t'" "keeps t2 t'"
    "used t' \<le> used t2 + ?mn"
    "\<forall>k. tget t' k = (case find (live_match k) (node t) of Some n \<Rightarrow> i_val n | None \<Rightarrow> tget t2 k)"
    using reinsert_nodes_spec [of t2 "rev (node t)" d L1] t2(1) wf0_live_key [OF wf0] t2k(1)
    by (auto simp: wf_table_def rev_filter [symmetric])
  have "tget t' k = tget t k" for k
  proof -
    have "find (live_match k) (node t) = None" if "in_array t k"
      unfolding find_None_iff
    proof (clarify)
      fix n assume n: "n \<in> set (node t)" "live_match k n"
      then obtain k' where k': "i_key n = Key k'" "luaO_rawequalObj k' k" by (auto simp: live_match_def key_raw_eq_Key)
      then have "\<not> in_array t k'" using wf0 n(1) by (auto simp: wf0_def no_array_keys_def)
      with that arrayindex_cong [OF k'(2)] show False by simp
    qed
    moreover have "tget t1 k = (if in_array t k then array t ! nat (arrayindex k - 1) else TNil)"
    proof -
      have 1: "(\<exists>i\<in>set ?is. array tb ! i \<noteq> TNil \<and> arrayindex k = int i + 1) \<longleftrightarrow>
          int nasize < arrayindex k \<and> in_array t k \<and> array t ! nat (arrayindex k - 1) \<noteq> TNil" (is "?l \<longleftrightarrow> ?r")
      proof
        assume ?r
        then have "nat (arrayindex k - 1) \<in> set ?is" "arrayindex k = int (nat (arrayindex k - 1)) + 1" by auto
        with \<open>?r\<close> tb(5) show ?l by (intro bexI [of _ "nat (arrayindex k - 1)"]) auto
      qed (use tb(5) in auto)
      show ?thesis
        using t1(5) [rule_format, of k] tb(5,6) tbg [of k] unfolding 1 tb(3) by auto
    qed
    ultimately show ?thesis
      using t'(5) t2(2) tget_live [OF wf0, of k] by (auto split: option.splits)
  qed
  moreover have "wf_table t'" using t'(2,3) t2(1) by (simp add: wf_table_def keeps_def)
  moreover have "resize_with (newkey (Suc d)) L t nasize nhsize = Inr (L', t')"
    unfolding eq using t1(1) t'(1) by (simp add: t2_def)
  moreover have "used t' \<le> overflow_count t nasize"
    using t'(4) t2(3) t1(4) tb(2) by (simp add: overflow_count_def)
  ultimately show ?thesis using t'(3) t2k tbs(3) by (auto simp: keeps_def split: if_splits)
qed

subsection \<open>Counting keys\<close>

text \<open>\<open>clog k\<close> is the slice of \<open>nums\<close> that counts the integer key \<open>k\<close>.\<close>

definition clog :: "nat \<Rightarrow> nat" where
  "clog k = nat (ceillog2 (word_of_nat k))"

lemma clog_le_iff:
  assumes "0 < k" "k \<le> MAXASIZE"
  shows "clog k \<le> l \<longleftrightarrow> k \<le> 2 ^ l"
proof -
  have k31: "k < 2 ^ 31" using assms(2) by (simp add: MAXASIZE_def MAXBITS_def)
  note s = ceillog2_spec [OF assms(1) k31, folded clog_def]
  show ?thesis
  proof
    assume "clog k \<le> l"
    then have "(2::nat) ^ clog k \<le> 2 ^ l" by (intro power_increasing) auto
    with s(1) show "k \<le> 2 ^ l" by linarith
  next
    assume "k \<le> 2 ^ l"
    with s(2) have "2 ^ clog k < (2::nat) ^ Suc l" by simp
    then have "clog k < Suc l" by (rule power_less_imp_less_exp [rotated]) simp
    then show "clog k \<le> l" by simp
  qed
qed

lemma clog_MAXBITS: "0 < k \<Longrightarrow> k \<le> MAXASIZE \<Longrightarrow> clog k \<le> MAXBITS"
  by (simp add: clog_le_iff MAXASIZE_def)

definition counts :: "nat list \<Rightarrow> nat list \<Rightarrow> bool" where
  "counts nums ks \<longleftrightarrow> length nums = MAXBITS + 1 \<and> (\<forall>k\<in>set ks. 0 < k \<and> k \<le> MAXASIZE) \<and>
     (\<forall>l\<le>MAXBITS. nums ! l = length (filter (\<lambda>k. clog k = l) ks))"

lemma counts_Nil: "counts (replicate (MAXBITS + 1) 0) []"
  by (simp add: counts_def del: replicate_Suc)

lemma counts_append:
  assumes "counts nums ks" "\<forall>k\<in>set ys. 0 < k \<and> k \<le> MAXASIZE \<and> clog k = l" "l \<le> MAXBITS"
  shows "counts (nums[l := nums ! l + length ys]) (ks @ ys)"
proof -
  have "filter (\<lambda>k. clog k = l') ys = (if l' = l then ys else [])" for l'
    using assms(2) by (auto intro: filter_True simp: filter_empty_conv)
  with assms show ?thesis by (auto simp: counts_def nth_list_update)
qed

definition array_key :: "TValue \<Rightarrow> bool" where
  "array_key k \<longleftrightarrow> 0 < arrayindex k \<and> arrayindex k \<le> int MAXASIZE"

lemma countint_counts:
  assumes "counts nums ks"
  shows "\<exists>nums'. countint key nums = (of_bool (array_key key), nums') \<and>
    counts nums' (ks @ (if array_key key then [nat (arrayindex key)] else []))"
proof (cases "array_key key")
  case True
  define k where "k = nat (arrayindex key)"
  have k: "0 < k" "k \<le> MAXASIZE" "arrayindex key = int k" using True by (auto simp: array_key_def k_def)
  have "counts (nums[clog k := nums ! clog k + length [k]]) (ks @ [k])"
    by (rule counts_append [OF assms]) (use k clog_MAXBITS in auto)
  with True k show ?thesis by (auto simp: countint_def array_key_def clog_def Let_def)
next
  case False
  with assms show ?thesis by (auto simp: countint_def array_key_def Let_def)
qed

definition live_idx :: "Node list \<Rightarrow> nat list" where
  "live_idx ns = map (\<lambda>n. nat (arrayindex (key2tval (i_key n))))
     (filter (\<lambda>n. i_val n \<noteq> TNil \<and> array_key (key2tval (i_key n))) ns)"

lemma numusehash_loop_counts:
  "counts nums ks \<Longrightarrow> \<exists>nums'. numusehash_loop ns tu au nums =
     (tu + length (filter (\<lambda>n. i_val n \<noteq> TNil) ns), au + length (live_idx ns), nums') \<and> counts nums' (ks @ live_idx ns)"
proof (induction ns arbitrary: tu au nums ks)
  case Nil
  then show ?case by (simp add: live_idx_def)
next
  case (Cons n ns)
  show ?case
  proof (cases "i_val n = TNil")
    case True
    with Cons show ?thesis by (simp add: live_idx_def)
  next
    case False
    let ?k = "key2tval (i_key n)"
    obtain nums1 where n1: "countint ?k nums = (of_bool (array_key ?k), nums1)"
      "counts nums1 (ks @ (if array_key ?k then [nat (arrayindex ?k)] else []))"
      using countint_counts [OF Cons.prems] by blast
    show ?thesis using Cons.IH [OF n1(2), of "tu + 1" "au + of_bool (array_key ?k)"] n1(1) False
      by (cases "array_key ?k") (simp_all add: live_idx_def)
  qed
qed

definition live_slots :: "Table \<Rightarrow> nat \<Rightarrow> nat list" where
  "live_slots t lim = filter (\<lambda>j. array t ! (j - 1) \<noteq> TNil) [1..<lim + 1]"

lemma numusearray_loop_counts:
  assumes sz: "sizearray t \<le> MAXASIZE"
  shows "k + lg = MAXBITS + 1 \<Longrightarrow>
     p = (if lg = 0 then 0 else min (2 ^ (lg - 1)) (sizearray t)) \<Longrightarrow> counts nums (live_slots t p) \<Longrightarrow>
     \<exists>nums'. numusearray_loop t k lg (p + 1) (length (live_slots t p)) nums =
        (length (live_slots t (sizearray t)), nums') \<and> counts nums' (live_slots t (sizearray t))"
proof (induction k arbitrary: lg p nums)
  case 0
  then have "p = sizearray t" using sz by (simp add: MAXASIZE_def)
  with 0 show ?case by simp
next
  case (Suc k)
  define lim where "lim = min (2 ^ lg) (sizearray t)"
  have pl: "p \<le> lim" 
  proof (cases lg)
    case (Suc l)
    have "(2::nat) ^ l \<le> 2 ^ lg" using Suc by simp
    with Suc Suc.prems(2) show ?thesis by (auto simp: lim_def)
  qed (use Suc.prems(2) in simp)
  show ?case
  proof (cases "sizearray t < 2 ^ lg \<and> lim < p + 1")
    case True
    then have "p = sizearray t" using pl by (auto simp: lim_def min_def split: if_splits)
    with True Suc.prems(3) show ?thesis by (simp add: lim_def)
  next
    case False
    let ?ys = "filter (\<lambda>j. array t ! (j - 1) \<noteq> TNil) [p + 1..<lim + 1]"
    have app: "live_slots t lim = live_slots t p @ ?ys"
      using pl upt_add_eq_append [of 1 "p + 1" "lim - p"] by (simp add: live_slots_def flip: filter_append)
    have clg: "clog j = lg" if "p < j" "j \<le> lim" for j
    proof -
      have j: "0 < j" "j \<le> MAXASIZE" using that sz by (auto simp: lim_def)
      have "clog j \<le> lg" using that clog_le_iff [OF j] by (simp add: lim_def)
      moreover have "\<not> clog j \<le> l" if "lg = Suc l" for l
        using \<open>p < j\<close> \<open>j \<le> lim\<close> that clog_le_iff [OF j, of l] Suc.prems(2) by (auto simp: lim_def)
      ultimately show ?thesis by (cases lg) (auto simp: le_Suc_eq)
    qed
    have lgb: "lg \<le> MAXBITS" using Suc.prems(1) by simp
    have cts: "counts (nums[lg := nums ! lg + length ?ys]) (live_slots t lim)"
      unfolding app
    proof (rule counts_append [OF Suc.prems(3) _ lgb])
      show "\<forall>k\<in>set ?ys. 0 < k \<and> k \<le> MAXASIZE \<and> clog k = lg"
        using clg sz by (auto simp: lim_def)
    qed
    have ih: "\<exists>nums'. numusearray_loop t k (lg + 1) (lim + 1) (length (live_slots t lim)) (nums[lg := nums ! lg + length ?ys]) =
        (length (live_slots t (sizearray t)), nums') \<and> counts nums' (live_slots t (sizearray t))"
      by (rule Suc.IH [OF _ _ cts]) (use Suc.prems(1) in \<open>simp_all add: lim_def\<close>)
    have "numusearray_loop t (Suc k) lg (p + 1) (length (live_slots t p)) nums =
      numusearray_loop t k (lg + 1) (lim + 1) (length (live_slots t lim)) (nums[lg := nums ! lg + length ?ys])"
      using False pl unfolding app lim_def [symmetric]
      by (auto simp: count_slice_def Let_def max_def lim_def [symmetric] simp del: upt_Suc)
    with ih show ?thesis by simp
  qed
qed

lemma numusearray_counts:
  assumes "sizearray t \<le> MAXASIZE"
  shows "\<exists>nums'. numusearray t (replicate (MAXBITS + 1) 0) = (length (live_slots t (sizearray t)), nums') \<and>
    counts nums' (live_slots t (sizearray t))"
  using numusearray_loop_counts [OF assms, of "MAXBITS + 1" 0 0] counts_Nil
  by (simp add: numusearray_def live_slots_def)

text \<open>The keys up to \<open>m\<close>.\<close>

abbreviation upto_count :: "nat \<Rightarrow> nat list \<Rightarrow> nat" where
  "upto_count m ks \<equiv> length (filter (\<lambda>k. k \<le> m) ks)"

lemma counts_below:
  assumes "counts nums ks" "l \<le> MAXBITS"
  shows "length (filter (\<lambda>k. clog k < Suc l) ks) = length (filter (\<lambda>k. clog k < l) ks) + nums ! l"
proof -
  have "length (filter (\<lambda>k. clog k < Suc l) ks) = length (filter (\<lambda>k. clog k < l) ks) + length (filter (\<lambda>k. clog k = l) ks)"
    by (induction ks) (auto simp: less_Suc_eq)
  with assms show ?thesis by (simp add: counts_def)
qed

lemma counts_upto: "counts nums ks \<Longrightarrow> filter (\<lambda>k. clog k < Suc l) ks = filter (\<lambda>k. k \<le> 2 ^ l) ks"
  by (rule filter_cong) (auto simp: counts_def clog_le_iff less_Suc_eq_le)

definition best_sizes :: "nat list \<Rightarrow> nat \<Rightarrow> nat \<Rightarrow> bool" where
  "best_sizes ks n na \<longleftrightarrow> na = upto_count n ks \<and> n \<le> MAXASIZE \<and> (n = 0 \<or> (\<exists>l. n = 2 ^ l) \<and> n div 2 < na)"

definition optimal :: "nat list \<Rightarrow> nat \<Rightarrow> nat \<Rightarrow> bool" where
  "optimal ks i n \<longleftrightarrow> (distinct ks \<longrightarrow> (\<forall>l<i. 2 ^ l div 2 < upto_count (2 ^ l) ks \<longrightarrow> 2 ^ l \<le> n))"

lemma upto_count_distinct:
  assumes "counts nums ks" "distinct ks"
  shows "upto_count m ks \<le> m"
proof -
  have "set (filter (\<lambda>k. k \<le> m) ks) \<subseteq> {1..m}" using assms(1) by (auto simp: counts_def)
  then have "card (set (filter (\<lambda>k. k \<le> m) ks)) \<le> card {1..m}" by (intro card_mono) auto
  with assms(2) show ?thesis by (simp add: distinct_card [symmetric])
qed

lemma computesizes_step:
  assumes c: "counts nums ks" and i: "i \<le> MAXBITS" and a: "a = length (filter (\<lambda>k. clog k < i) ks)"
    and b: "best_sizes ks n na" and opt: "optimal ks i n"
  shows "(\<exists>n' na'. computesizes_loop (drop i nums) (2 ^ i) (length ks) a na n = Inr (n', na') \<and>
      best_sizes ks n' na' \<and> optimal ks (MAXBITS + 1) n') \<or>
    (\<exists>n' na'. i < MAXBITS \<and> computesizes_loop (drop i nums) (2 ^ i) (length ks) a na n =
        computesizes_loop (drop (Suc i) nums) (2 ^ Suc i) (length ks) (length (filter (\<lambda>k. clog k < Suc i) ks)) na' n' \<and>
      best_sizes ks n' na' \<and> optimal ks (Suc i) n')"
proof (cases "2 ^ i div 2 < length ks")
  case False
  have "\<not> 2 ^ l div 2 < upto_count (2 ^ l) ks" if "i \<le> l" for l
  proof -
    have "(2::nat) ^ i div 2 \<le> 2 ^ l div 2" using that by (intro div_le_mono power_increasing) auto
    with False show ?thesis using length_filter_le [of "\<lambda>k. k \<le> 2 ^ l" ks] by linarith
  qed
  with opt have "optimal ks (MAXBITS + 1) n" unfolding optimal_def by (meson not_le)
  with False b show ?thesis by (simp add: computesizes_loop.simps)
next
  case True
  define a' where "a' = a + nums ! i"
  have a': "a' = upto_count (2 ^ i) ks" "a' = length (filter (\<lambda>k. clog k < Suc i) ks)"
    using counts_below [OF c i] a counts_upto [OF c] by (simp_all add: a'_def)
  have len: "i < length nums" using c i by (simp add: counts_def)
  define up where "up \<longleftrightarrow> 0 < nums ! i \<and> 2 ^ i div 2 < a'"
  define n' na' where "n' = (if up then 2 ^ i else n)" and "na' = (if up then a' else na)"
  have pw: "(2::nat) ^ i \<le> MAXASIZE" using i by (simp add: MAXASIZE_def power_increasing)
  have b': "best_sizes ks n' na'"
    using b a'(1) pw by (auto simp: best_sizes_def n'_def na'_def up_def)
  have stay: "\<not> 2 ^ i div 2 < a'" if "nums ! i = 0" "distinct ks"
  proof (cases i)
    case 0
    with that a show ?thesis by (simp add: a'_def)
  next
    case (Suc j)
    then have "a' = upto_count (2 ^ j) ks" using that(1) a counts_upto [OF c, of j] by (simp add: a'_def)
    with upto_count_distinct [OF c that(2), of "2 ^ j"] Suc show ?thesis by simp
  qed
  have opt': "optimal ks (Suc i) n'"
    unfolding optimal_def
  proof (intro impI allI)
    fix l assume l: "distinct ks" "l < Suc i" "2 ^ l div 2 < upto_count (2 ^ l) ks"
    show "2 ^ l \<le> n'"
    proof (cases "l = i")
      case True
      with l stay a'(1) have up by (auto simp: up_def)
      with True show ?thesis by (simp add: n'_def)
    next
      case False
      with l have "2 ^ l \<le> n" "(2::nat) ^ l \<le> 2 ^ i" using opt by (auto simp: optimal_def)
      then show ?thesis by (simp add: n'_def)
    qed
  qed
  have "computesizes_loop (drop i nums) (2 ^ i) (length ks) a na n =
      (if a' = length ks then Inr (n', na')
       else computesizes_loop (drop (Suc i) nums) (2 ^ Suc i) (length ks) a' na' n')"
    using True len
    by (subst computesizes_loop.simps) (simp add: Cons_nth_drop_Suc [symmetric] Let_def a'_def n'_def na'_def up_def mult.commute)
  moreover have "optimal ks (MAXBITS + 1) n'" if "a' = length ks"
    unfolding optimal_def
  proof (intro impI allI)
    fix l assume l: "distinct ks" "l < MAXBITS + 1" "2 ^ l div 2 < upto_count (2 ^ l) ks"
    have "upto_count (2 ^ l) ks \<le> 2 ^ i"
      using upto_count_distinct [OF c l(1), of "2 ^ i"] a'(1) that length_filter_le [of "\<lambda>k. k \<le> 2 ^ l" ks] by linarith
    then have "l < Suc i" using l(3) pow2_half_mono [of i l] by (cases "i < l") auto
    with l opt' show "2 ^ l \<le> n'" by (simp add: optimal_def)
  qed
  moreover have "a' = length ks" if "i = MAXBITS"
  proof -
    have "\<forall>k\<in>set ks. k \<le> 2 ^ i" using c that by (simp add: counts_def MAXASIZE_def)
    with a'(1) show ?thesis by simp
  qed
  ultimately show ?thesis using b' opt' i a'(2) by (cases "a' = length ks") (auto intro: le_neq_implies_less)
qed

lemma computesizes_loop_spec:
  assumes c: "counts nums ks"
  shows "i + m = MAXBITS \<Longrightarrow> a = length (filter (\<lambda>k. clog k < i) ks) \<Longrightarrow> best_sizes ks n na \<Longrightarrow> optimal ks i n \<Longrightarrow>
    \<exists>n' na'. computesizes_loop (drop i nums) (2 ^ i) (length ks) a na n = Inr (n', na') \<and>
      best_sizes ks n' na' \<and> optimal ks (MAXBITS + 1) n'"
proof (induction m arbitrary: i a n na)
  case (0 i a n na)
  from computesizes_step [OF c _ 0(2-4)] 0(1) show ?case by auto
next
  case (Suc m)
  from Suc.prems(1) have i: "i \<le> MAXBITS" by simp
  from computesizes_step [OF c i Suc.prems(2-4)] show ?case
  proof
    assume "\<exists>n' na'. i < MAXBITS \<and> computesizes_loop (drop i nums) (2 ^ i) (length ks) a na n =
        computesizes_loop (drop (Suc i) nums) (2 ^ Suc i) (length ks) (length (filter (\<lambda>k. clog k < Suc i) ks)) na' n' \<and>
      best_sizes ks n' na' \<and> optimal ks (Suc i) n'"
    then show ?thesis using Suc.IH [of "Suc i"] Suc.prems(1) by auto
  qed
qed

subsection \<open>Rehash makes room\<close>

definition live_count :: "Table \<Rightarrow> nat" where
  "live_count t = length (live_slots t (sizearray t)) + length (filter (\<lambda>n. i_val n \<noteq> TNil) (node t))"

lemma computesizes_spec:
  assumes "counts nums ks"
  shows "\<exists>n na. computesizes nums (length ks) = Inr (n, na) \<and> best_sizes ks n na \<and> optimal ks (MAXBITS + 1) n"
  using computesizes_loop_spec [OF assms, of 0 MAXBITS 0 0 0] assms
  by (auto simp: computesizes_def best_sizes_def optimal_def counts_def filter_empty_conv)

lemma live_slots_split:
  "length (filter (\<lambda>i. array t ! i \<noteq> TNil) [n..<s]) + upto_count n (live_slots t s) = length (live_slots t s)"
proof (induction s)
  case 0
  then show ?case by (simp add: live_slots_def)
next
  case (Suc s)
  then show ?case by (auto simp: live_slots_def)
qed

lemma live_nodes_split:
  assumes "n \<le> MAXASIZE"
  shows "length (filter (live_hash n) ns) + upto_count n (live_idx ns) = length (filter (\<lambda>n. i_val n \<noteq> TNil) ns)"
  using assms by (induction ns) (auto simp: live_idx_def live_hash_def array_key_def)

lemma live_idx_rev: "live_idx (rev ns) = rev (live_idx ns)"
  by (simp add: live_idx_def rev_map flip: rev_filter)

lemma rehash_counts:
  assumes "sizearray t \<le> MAXASIZE"
  shows "\<exists>n nh. rehash_with nk L t ek = resize_with nk L t n nh \<and> n \<le> MAXASIZE \<and>
     nh = overflow_count t n + of_bool (\<not> (0 < arrayindex ek \<and> arrayindex ek \<le> int n)) \<and> nh \<le> live_count t + 1"
proof -
  let ?s = "live_slots t (sizearray t)" and ?e = "if array_key ek then [nat (arrayindex ek)] else []"
  obtain nums1 where n1: "numusearray t (replicate (MAXBITS + 1) 0) = (length ?s, nums1)" "counts nums1 ?s"
    using numusearray_counts [OF assms] by blast
  obtain nums2 where n2: "numusehash_loop (rev (node t)) 0 0 nums1 =
     (length (filter (\<lambda>n. i_val n \<noteq> TNil) (rev (node t))), length (live_idx (rev (node t))), nums2)"
     "counts nums2 (?s @ live_idx (rev (node t)))"
    using numusehash_loop_counts [OF n1(2), of "rev (node t)" 0 0] by auto
  obtain nums3 where n3: "countint ek nums2 = (of_bool (array_key ek), nums3)" "counts nums3 ((?s @ live_idx (rev (node t))) @ ?e)"
    using countint_counts [OF n2(2)] by blast
  let ?ks = "(?s @ live_idx (rev (node t))) @ ?e"
  obtain n na where c: "computesizes nums3 (length ?ks) = Inr (n, na)" "best_sizes ?ks n na"
    using computesizes_spec [OF n3(2)] by blast
  have n: "n \<le> MAXASIZE" "na = upto_count n ?ks" using c(2) by (auto simp: best_sizes_def)
  define nh where "nh = live_count t + 1 - na"
  have "rehash_with nk L t ek = resize_with nk L t n nh"
    using n1(1) n2(1) n3(1) c(1)
    by (cases "array_key ek") (simp_all add: rehash_with_def numusehash_def Let_def nh_def live_count_def add.assoc rev_filter [symmetric])
  moreover have "upto_count n ?e + of_bool (\<not> (0 < arrayindex ek \<and> arrayindex ek \<le> int n)) = 1"
    using n(1) by (auto simp: array_key_def)
  then have "nh = overflow_count t n + of_bool (\<not> (0 < arrayindex ek \<and> arrayindex ek \<le> int n))"
    using live_slots_split [of t n "sizearray t"] live_nodes_split [OF n(1), of "node t"]
    by (simp add: nh_def n(2) live_count_def overflow_count_def live_idx_rev rev_filter [symmetric])
  ultimately show ?thesis using n(1) by (intro exI [of _ n] exI [of _ nh]) (simp add: nh_def)
qed

lemma rehash_spec:
  assumes wf: "wf_table t" and few: "live_count t < MAXASIZE"
  shows "\<exists>L' t'. rehash_with (newkey (Suc d)) L t ek = Inr (L', t') \<and> wf_table t' \<and> tget t' = tget t \<and>
    has_room t' ek \<and> t_self t' = t_self t \<and> metatable t' = metatable t"
proof -
  have sz: "sizearray t \<le> MAXASIZE" using wf by (simp add: wf_table_def wf0_def wf_sizes_def)
  obtain n nh where r: "rehash_with (newkey (Suc d)) L t ek = resize_with (newkey (Suc d)) L t n nh" "n \<le> MAXASIZE"
     "nh = overflow_count t n + of_bool (\<not> (0 < arrayindex ek \<and> arrayindex ek \<le> int n))" "nh \<le> live_count t + 1"
    using rehash_counts [OF sz] by blast
  have "nh \<le> MAXASIZE" "overflow_count t n \<le> nh" using r few by auto
  from resize_spec [OF wf r(2) this] obtain L' t' where
    t': "resize_with (newkey (Suc d)) L t n nh = Inr (L', t')" "wf_table t'" "tget t' = tget t" "sizearray t' = n"
      "used t' \<le> overflow_count t n" "t_self t' = t_self t" "metatable t' = metatable t"
      "if nh = 0 then isdummy t' else \<not> isdummy t' \<and> nh \<le> length (node t')"
    by blast
  have "has_room t' ek"
    using t'(4,5,8) r(3) by (auto simp: has_room_def split: if_splits)
  with r(1) t' show ?thesis by auto
qed

text \<open>A failed \<open>getfreepos\<close> changes nothing but \<open>lastfree\<close>.\<close>

lemma lastfree_update:
  assumes "wf0 t" "t1 = t\<lparr>lastfree := lf\<rparr>" "wf_lastfree t1"
  shows "wf0 t1" "tget t1 = tget t" "frame t t1" "live_count t1 = live_count t"
proof -
  have mp: "mainposition t1 = mainposition t" by (rule mainposition_lsizenode) (simp add: assms(2))
  have "wf_nodes t1 = wf_nodes t" unfolding wf_nodes_def mp by (simp add: assms(2))
  moreover have "wf_sizes t1 = wf_sizes t" "no_array_keys t1 = no_array_keys t"
    by (simp_all add: wf_sizes_def no_array_keys_def assms(2) sizenode_def)
  ultimately show "wf0 t1" using assms(1,3) by (simp add: wf0_def)
  show "tget t1 = tget t" by (rule ext) (simp add: tget_def assms(2))
  show "frame t t1" "live_count t1 = live_count t"
    by (simp_all add: frame_def live_count_def live_slots_def assms(2))
qed

lemma getfreepos_fail:
  assumes "wf0 t" "getfreepos t = (None, t1)"
  shows "wf0 t1" "tget t1 = tget t" "frame t t1" "live_count t1 = live_count t"
proof -
  obtain lf where g: "getfreepos_loop (node t) (lastfree t) = (None, lf)" and t1: "t1 = t\<lparr>lastfree := lf\<rparr>"
    using assms(2) by (auto simp: getfreepos_def split: prod.splits)
  have wl: "wf_lastfree t" using assms(1) by (simp add: wf0_def)
  then have "lastfree t \<le> int (length (node t))" by (auto simp: wf_lastfree_def split: if_splits)
  note sp = getfreepos_loop_spec [OF g this]
  have "wf_lastfree t1"
    unfolding wf_lastfree_def t1 using sp wl by (auto simp: wf_lastfree_def not_le split: if_splits)
  from lastfree_update [OF assms(1) t1 this]
  show "wf0 t1" "tget t1 = tget t" "frame t t1" "live_count t1 = live_count t" by blast+
qed

lemma getfreepos_dummy:
  assumes "wf0 t" "isdummy t"
  shows "fst (getfreepos t) = None"
proof -
  have "lastfree t \<le> 0" using assms by (simp add: wf0_def wf_lastfree_def)
  then show ?thesis by (simp add: getfreepos_def getfreepos_loop.simps)
qed

definition set_ok :: "Table \<Rightarrow> TValue \<Rightarrow> Table \<Rightarrow> slot \<Rightarrow> bool" where
  "set_ok t key t' p \<longleftrightarrow> wf_table t' \<and> slot_for t' key p \<and> tget t' = tget t \<and>
     t_self t' = t_self t \<and> metatable t' = metatable t"

lemma set_okI:
  assumes "wf_table t" "wf0 t'" "slot_for t' key p" "tget t' = tget t" "frame t t'"
  shows "set_ok t key t' p"
  using assms by (simp add: set_ok_def wf_table_def frame_def)

lemma set_ok_store:
  assumes "set_ok t key t' p" "valid_key key"
  shows "wf_table (set_slot t' p v)" "tget (set_slot t' p v) k = (if luaO_rawequalObj key k then v else tget t k)"
  using set_slot_spec [where t = t' and key = key and p = p and v = v] assms by (simp_all add: set_ok_def wf_table_def)

lemma newkey_spec:
  assumes wf: "wf_table t" and key: "valid_key key" "\<not> in_array t key"
    and fresh: "\<forall>n<length (node t). \<not> key_raw_eq key (node t ! n)" and few: "live_count t < MAXASIZE"
  shows "\<exists>L' t' p. newkey (Suc (Suc d)) L t key = Inr (L', t', p) \<and> set_ok t key t' p"
proof -
  have wf0: "wf0 t" using wf by (simp add: wf_table_def)
  show ?thesis
  proof (cases "(i_val (node t ! mainposition t key) \<noteq> TNil \<or> isdummy t) \<and> fst (getfreepos t) = None")
    case True
    then obtain t1 where g: "getfreepos t = (None, t1)" by (cases "getfreepos t") auto
    note t1 = getfreepos_fail [OF wf0 g]
    have wf1: "wf_table t1" using t1(1,3) wf by (simp add: wf_table_def frame_def)
    from rehash_spec [OF wf1, of d L key] t1(4) few obtain L2 t2 where
      t2: "rehash_with (newkey (Suc d)) L t1 key = Inr (L2, t2)" "wf_table t2" "tget t2 = tget t1" "has_room t2 key"
        "t_self t2 = t_self t1" "metatable t2 = metatable t1" by auto
    have wf2: "wf0 t2" using t2(2) by (simp add: wf_table_def)
    from set_stored [OF wf2 key(1) t2(4), of d L2] obtain L' t' p where
      t': "luaH_set_with (newkey (Suc d)) L2 t2 key = Inr (L', t', p)" "frame t2 t'" "wf0 t'" "slot_for t' key p" "tget t' = tget t2"
      by blast
    have "newkey (Suc (Suc d)) L t key = Inr (L', t', p)"
      using True g t2(1) t'(1) by (subst newkey.simps) (simp add: Let_def)
    moreover have "set_ok t2 key t' p" by (rule set_okI [OF t2(2) t'(3-5,2)])
    then have "set_ok t key t' p" using t2 t1 by (simp add: set_ok_def frame_def)
    ultimately show ?thesis by blast
  next
    case False
    then have nd: "\<not> isdummy t" using getfreepos_dummy [OF wf0] by blast
    obtain t' m where n: "newkey (Suc (Suc d)) L t key = Inr (luaC_barriert L (t_self t) key, t', NodeSlot m)" "placed t key t' m"
      by (rule newkey_room [OF wf0 nd key fresh]) (use False in auto)
    note p = placed_slot [OF wf0 n(2) key]
    have "set_ok t key t' (NodeSlot m)" by (rule set_okI [OF wf p(1-4)])
    with n(1) show ?thesis by blast
  qed
qed

lemma newkey_depth_Suc: "newkey_depth = Suc (Suc 0)"
  by (simp add: newkey_depth_def)

lemma flags_wf [simp]: "wf_table (t\<lparr>flags := f\<rparr>) = wf_table t" "live_count (t\<lparr>flags := f\<rparr>) = live_count t"
  by (simp_all add: wf_table_def live_count_def live_slots_def)

text \<open>
  Three ways to find or create the slot of a key: the search comes first, \<open>newkey\<close> when it fails.
\<close>

lemma search_or_newkey:
  assumes wf: "wf_table t" and key: "valid_key key" and few: "live_count t < MAXASIZE"
  obtains s where "luaH_get t key = Inr s" "s \<noteq> NilObject \<Longrightarrow> set_ok t key t s"
    "s = NilObject \<Longrightarrow> \<exists>L' t' p. newkey newkey_depth L t key = Inr (L', t', p) \<and> set_ok t key t' p"
proof -
  have wf0: "wf0 t" and k0: "key \<noteq> TNil" using wf valid_key_not_nil [OF key] by (simp_all add: wf_table_def)
  obtain s where s: "luaH_get t key = Inr s" "s \<noteq> NilObject \<longrightarrow> slot_for t key s"
    "s = NilObject \<longrightarrow> \<not> in_array t key \<and> (\<forall>n<length (node t). \<not> key_raw_eq key (node t ! n))"
    using luaH_get_slot [OF wf0 k0] by blast
  show thesis
  proof (rule that [OF s(1)])
    show "set_ok t key t s" if "s \<noteq> NilObject" using that s(2) wf by (simp add: set_ok_def)
    show "\<exists>L' t' p. newkey newkey_depth L t key = Inr (L', t', p) \<and> set_ok t key t' p" if "s = NilObject"
      unfolding newkey_depth_Suc using newkey_spec [OF wf key _ _ few] that s(3) by blast
  qed
qed

lemma luaH_set_total:
  assumes wf: "wf_table t" and key: "valid_key key" and few: "live_count t < MAXASIZE"
  shows "\<exists>L' t' p. luaH_set L t key = Inr (L', t', p) \<and> set_ok t key t' p"
proof -
  let ?t = "t\<lparr>flags := 0\<rparr>"
  have k0: "key \<noteq> TNil" using key by (rule valid_key_not_nil)
  have ft: "luaH_get ?t key = luaH_get t key" using wf k0
    by (subst (1 2) luaH_get_eq) (simp_all add: wf_table_def wf0_def wf_sizes_def sizenode_def hsearch_def mainposition_lsizenode [of ?t t])
  have ok: "set_ok ?t key t' p = set_ok t key t' p" for t' p by (simp add: set_ok_def)
  have wft: "wf_table ?t" and fewt: "live_count ?t < MAXASIZE" using wf few by simp_all
  obtain s where s: "luaH_get ?t key = Inr s" "s \<noteq> NilObject \<Longrightarrow> set_ok ?t key ?t s"
    "s = NilObject \<Longrightarrow> \<exists>L' t' p. newkey newkey_depth L ?t key = Inr (L', t', p) \<and> set_ok ?t key t' p"
    by (rule search_or_newkey [OF wft key fewt, of L]) blast
  show ?thesis
  proof (cases "s = NilObject")
    case False
    with s(1,2) show ?thesis unfolding ft ok by (auto simp: luaH_set_def luaH_set_with_def Let_def)
  next
    case True
    from s(3) [OF True] obtain L' t' p where n: "newkey newkey_depth L ?t key = Inr (L', t', p)" "set_ok t key t' p"
      unfolding ok by blast
    have "luaH_set L t key = newkey newkey_depth L ?t key"
      using s(1) True k0 key unfolding ft luaH_set_def
      by (cases key) (auto simp: luaH_set_with_def Let_def valid_key_def)
    with n show ?thesis by simp
  qed
qed

lemma luaH_setnum_total:
  assumes wf: "wf_table t" and i: "int_range i" and few: "live_count t < MAXASIZE"
  shows "\<exists>L' t' p. luaH_setnum L t i = Inr (L', t', p) \<and> set_ok t (TNumber (cast_num i)) t' p"
proof -
  have wf0: "wf0 t" using wf by (simp add: wf_table_def)
  show ?thesis
  proof (rule search_or_newkey [OF wf valid_key_int [OF i] few, of L])
    fix s
    assume s: "luaH_get t (TNumber (cast_num i)) = Inr s"
      "s \<noteq> NilObject \<Longrightarrow> set_ok t (TNumber (cast_num i)) t s"
      "s = NilObject \<Longrightarrow> \<exists>L' t' p. newkey newkey_depth L t (TNumber (cast_num i)) = Inr (L', t', p) \<and>
         set_ok t (TNumber (cast_num i)) t' p"
    have eq: "luaH_setnum L t i = (if s \<noteq> NilObject then Inr (L, t, s) else newkey newkey_depth L t (TNumber (cast_num i)))"
      unfolding luaH_setnum_def setnum_as_set [OF wf0 i] s(1) by simp
    show ?thesis
    proof (cases "s = NilObject")
      case True
      with s(3) eq show ?thesis by simp
    next
      case False
      with s(2) eq show ?thesis by simp
    qed
  qed
qed

lemma luaH_setstr_total:
  assumes wf: "wf_table t" and few: "live_count t < MAXASIZE"
  shows "\<exists>L' t' p. luaH_setstr L t str = Inr (L', t', p) \<and> set_ok t (TStr str) t' p"
proof -
  have key: "valid_key (TStr str)" by (simp add: valid_key_def)
  show ?thesis
  proof (rule search_or_newkey [OF wf key few, of L])
    fix s
    assume s: "luaH_get t (TStr str) = Inr s"
      "s \<noteq> NilObject \<Longrightarrow> set_ok t (TStr str) t s"
      "s = NilObject \<Longrightarrow> \<exists>L' t' p. newkey newkey_depth L t (TStr str) = Inr (L', t', p) \<and> set_ok t (TStr str) t' p"
    have eq: "luaH_setstr L t str = (if s \<noteq> NilObject then Inr (L, t, s) else newkey newkey_depth L t (TStr str))"
      using s(1) by (simp add: luaH_setstr_def)
    show ?thesis
    proof (cases "s = NilObject")
      case True
      with s(3) eq show ?thesis by simp
    next
      case False
      with s(2) eq show ?thesis by simp
    qed
  qed
qed

lemma luaH_set_errors:
  assumes "wf_table t"
  shows "luaH_set L t TNil = Inl (RunError ''table index is nil'')"
    "dbl_isnan n \<Longrightarrow> luaH_set L t (TNumber n) = Inl (RunError ''table index is NaN'')"
proof -
  show "luaH_set L t TNil = Inl (RunError ''table index is nil'')"
    by (simp add: luaH_set_def luaH_set_with_def)
  assume n: "dbl_isnan n"
  have nn: "\<not> luai_numeq m n" for m using n by (simp add: luai_numeq_def)
  have na: "arrayindex (TNumber n) = - 1" using nn by (simp add: Let_def)
  have wf0: "wf0 t" using assms by (simp add: wf_table_def)
  obtain s where s: "luaH_get t (TNumber n) = Inr s" "s \<noteq> NilObject \<longrightarrow> slot_for t (TNumber n) s"
    using luaH_get_slot [OF wf0, of "TNumber n"] by blast
  have "\<not> slot_for t (TNumber n) s"
    using nn na by (cases s) (auto simp: slot_for_def key_raw_eq_Key rawequalObj_cases)
  with s have "luaH_get t (TNumber n) = Inr NilObject" by blast
  with n show "luaH_set L t (TNumber n) = Inl (RunError ''table index is NaN'')"
    unfolding luaH_set_def luaH_set_with_def by (simp add: luai_numisnan_def luai_numeq_def)
qed

lemma luaH_new_total:
  assumes "narray \<le> MAXASIZE" "nhash \<le> MAXASIZE"
  shows "\<exists>t. luaH_new self narray nhash = Inr t \<and> wf_table t \<and> tget t = (\<lambda>k. TNil) \<and>
    sizearray t = narray \<and> nhash \<le> sizenode t \<and> t_self t = self \<and> metatable t = None"
proof -
  let ?t = "\<lparr>t_self = self, flags = NOT 0, lsizenode = 0, metatable = None, array = [],
               isdummy = True, node = [dummynode], lastfree = 0, sizearray = 0\<rparr>"
  let ?a = "setarrayvector ?t narray"
  obtain t where t: "setnodevector ?a nhash = Inr t" "fresh_nodes t" "array t = array ?a" "sizearray t = sizearray ?a"
    "t_self t = t_self ?a" "metatable t = metatable ?a"
    "if nhash = 0 then isdummy t else \<not> isdummy t \<and> nhash \<le> length (node t) \<and> length (node t) < 2 * nhash"
    using setnodevector_fresh [OF assms(2), of ?a] by blast
  have arr: "array t = replicate narray TNil" "sizearray t = narray" using t(3,4) by (simp_all add: setarrayvector_def)
  have w: "wf0 t" and g: "\<And>k. tget t k = (if in_array t k then array t ! nat (arrayindex k - 1) else TNil)"
    using fresh_nodes_wf [OF t(2)] arr assms(1) by simp_all
  have "tget t k = TNil" for k
  proof (cases "in_array t k")
    case True
    then have "nat (arrayindex k - 1) < narray" using arr(2) by linarith
    with g [of k] True arr(1) show ?thesis by simp
  next
    case False
    with g [of k] show ?thesis by auto
  qed
  moreover have "wf_table t" using w arr by (simp add: wf_table_def)
  moreover have "nhash \<le> sizenode t"
    using t(2,7) by (cases "nhash = 0") (auto simp: fresh_nodes_def)
  ultimately show ?thesis using t(1,5,6) arr by (intro exI [of _ t]) (auto simp: luaH_new_def Let_def setarrayvector_def)
qed

lemma luaH_resizearray_grow:
  assumes wf: "wf_table t" and n: "sizearray t \<le> nasize" "nasize \<le> MAXASIZE"
  shows "\<exists>L' t'. luaH_resizearray L t nasize = Inr (L', t') \<and> wf_table t' \<and> tget t' = tget t \<and> sizearray t' = nasize"
proof -
  let ?nh = "if isdummy t then 0 else sizenode t"
  have w: "wf_sizes t" "wf_lastfree t" using wf by (simp_all add: wf_table_def wf0_def)
  have "sizenode t \<le> MAXASIZE" using w(1) by (simp add: wf_sizes_def sizenode_def MAXASIZE_def power_increasing)
  then have nh: "?nh \<le> MAXASIZE" by simp
  have "length (filter (live_hash nasize) (node t)) \<le> ?nh"
  proof (cases "isdummy t")
    case True
    then have "node t = [dummynode]" using w(2) by (simp add: wf_lastfree_def)
    with True show ?thesis by (simp add: live_hash_def dummynode_def)
  next
    case False
    with w(1) show ?thesis using length_filter_le [of "live_hash nasize" "node t"] by (simp add: wf_sizes_def)
  qed
  then have "overflow_count t nasize \<le> ?nh" using n(1) by (simp add: overflow_count_def)
  from resize_spec [OF wf n(2) nh this, of 1 L] show ?thesis
    unfolding luaH_resizearray_def newkey_depth_Suc Let_def by auto
qed

end
