(* ===== verification/Ltable_next.thy ===== *)
theory Ltable_next
  imports Ltable_rehash
begin

text \<open>
  The traversal \<open>luaH_next\<close> and the boundary search \<open>luaH_getn\<close> of ltable.c.
\<close>

subsection \<open>Traversal\<close>

text \<open>The entries of a table in the order of the indices \<open>luaH_next\<close> runs through.\<close>

definition entry_at :: "Table \<Rightarrow> nat \<Rightarrow> TValue \<times> TValue" where
  "entry_at t i =
     (if i < sizearray t then (TNumber (cast_num (int i + 1)), array t ! i)
      else (key2tval (i_key (node t ! (i - sizearray t))), i_val (node t ! (i - sizearray t))))"

definition live_at :: "Table \<Rightarrow> nat \<Rightarrow> bool" where
  "live_at t i \<longleftrightarrow> snd (entry_at t i) \<noteq> TNil"

definition live_indices :: "Table \<Rightarrow> nat list" where
  "live_indices t = filter (live_at t) [0..<sizearray t + sizenode t]"

definition table_entries :: "Table \<Rightarrow> (TValue \<times> TValue) list" where
  "table_entries t = map (entry_at t) (live_indices t)"

lemma next_from:
  assumes i: "i \<le> sizearray t + sizenode t"
  shows "(case next_array t i of Some j \<Rightarrow> Inr (Some (TNumber (cast_num (int j + 1)), array t ! j))
       | None \<Rightarrow> (case next_node t (max i (sizearray t) - sizearray t) of
              Some j \<Rightarrow> Inr (Some (key2tval (i_key (node t ! j)), i_val (node t ! j)))
            | None \<Rightarrow> Inr None)) =
     (Inr (map_option (entry_at t) (find (live_at t) [i..<sizearray t + sizenode t])) :: (TValue \<times> TValue) option result)"
proof -
  let ?sa = "sizearray t" and ?m = "max i (sizearray t)"
  have a: "next_array t i = find (live_at t) [i..<?sa]"
    unfolding next_array_def by (rule find_cong_set) (simp add: live_at_def entry_at_def)
  have "[?m..<?sa + sizenode t] = map (\<lambda>j. j + ?sa) [?m - ?sa..<sizenode t]"
    unfolding map_shift_upt by (simp add: add.commute)
  then have n: "find (live_at t) [?m..<?sa + sizenode t] = map_option (\<lambda>j. j + ?sa) (next_node t (?m - ?sa))"
    by (simp add: find_map next_node_def comp_def live_at_def entry_at_def)
  have split: "[i..<?sa + sizenode t] = [i..<?sa] @ [?m..<?sa + sizenode t]"
  proof (cases "i \<le> ?sa")
    case True
    then show ?thesis using upt_add_eq_append [of i ?sa "sizenode t"] by (simp add: max_absorb2)
  qed simp
  show ?thesis
  proof (cases "find (live_at t) [i..<?sa]")
    case None
    then show ?thesis unfolding split find_append a n
      by (cases "next_node t (?m - ?sa)") (simp_all add: entry_at_def)
  next
    case (Some j)
    then have "j < ?sa" by (auto simp: find_Some_iff)
    with Some show ?thesis unfolding split find_append a by (simp add: entry_at_def)
  qed
qed

lemma luaH_next_eq:
  assumes "findindex t key = Inr i" "- 1 \<le> i" "i < int (sizearray t + sizenode t)"
  shows "luaH_next t key = Inr (map_option (entry_at t) (find (live_at t) [nat (i + 1)..<sizearray t + sizenode t]))"
  using next_from [of "nat (i + 1)" t] assms by (simp add: luaH_next_def Let_def)

text \<open>No dead key has the address of a live key's object (dead objects have been collected).\<close>

definition no_dead_alias :: "Table \<Rightarrow> bool" where
  "no_dead_alias t \<longleftrightarrow> (\<forall>m \<in> set (node t). \<forall>n \<in> set (node t). \<forall>p k. i_key m = DeadKey p \<longrightarrow> i_key n = Key k \<longrightarrow> gcvalue k \<noteq> Some p)"

lemma findindex_live:
  assumes wf: "wf_table t" and nda: "no_dead_alias t" and i: "i < sizearray t + sizenode t" "live_at t i"
  shows "findindex t (fst (entry_at t i)) = Inr (int i)"
proof (cases "i < sizearray t")
  case True
  have "int_range (int i + 1)" using True wf
    by (auto simp: wf_table_def wf0_def wf_sizes_def MAXASIZE_def MAXBITS_def INT_MAX_def INT_MIN_def)
  from arrayindex_int [OF this] True show ?thesis
    by (simp add: findindex_def entry_at_def Let_def del: arrayindex.simps)
next
  case False
  define n where "n = i - sizearray t"
  have wf0: "wf0 t" using wf by (simp add: wf_table_def)
  note wh = wf0_wf_h [OF wf0]
  have n: "n < length (node t)" using False i(1) wf0 by (auto simp: n_def wf0_def wf_sizes_def)
  have lv: "i_val (node t ! n) \<noteq> TNil" using i(2) False by (simp add: live_at_def entry_at_def n_def)
  obtain k where k: "i_key (node t ! n) = Key k" "valid_key k"
    using wf0_live_key [OF wf0 nth_mem [OF n]] lv by (auto simp: live_key_def)
  have k0: "k \<noteq> TNil" using k(2) by (rule valid_key_not_nil)
  have ent: "fst (entry_at t i) = k" using False k(1) by (simp add: entry_at_def n_def [symmetric])
  have nia: "\<not> in_array t k" using wf0 nth_mem [OF n] k(1) by (auto simp: wf0_def no_array_keys_def)
  from keys_reachD [OF wh n k(1) k0] obtain xs where
    xs: "path (\<lambda>i. nk_next (node t ! i)) (mainposition t k) xs" "n \<in> set xs" by blast
  have rng: "set xs \<subseteq> {..<length (node t)}" by (rule wf_h_path_range [OF wh xs(1) wf_mpos_less [OF wf0]])
  have len: "length xs \<le> length (node t)"
    using path_length [OF xs(1) wf_mpos_less [OF wf0]] next_okD [OF wh] by blast
  have iff: "key_matches_next k (node t ! m) \<longleftrightarrow> m = n" if "m < length (node t)" for m
  proof
    assume km: "key_matches_next k (node t ! m)"
    show "m = n"
    proof (cases "i_key (node t ! m)")
      case (Key k')
      with km have "luaO_rawequalObj k' k" by (simp add: key_matches_next_def)
      then have "luaO_rawequalObj k k'" by (simp add: rawequalObj_sym)
      from keys_uniqD [OF wh n that k(1) Key k0 this] show ?thesis by simp
    next
      case (DeadKey p)
      with km nda nth_mem [OF n] nth_mem [OF that] k(1) show ?thesis by (auto simp: key_matches_next_def no_dead_alias_def)
    qed
  qed (use k in \<open>simp add: key_matches_next_def rawequalObj_refl_iff valid_key_def\<close>)
  have "find (\<lambda>m. key_matches_next k (node t ! m)) xs = find (\<lambda>m. m = n) xs"
    by (rule find_cong_set) (use iff rng in auto)
  also have "\<dots> = Some n" using xs(2) by (induction xs) auto
  finally have "chain_search (length (node t)) (key_matches_next k) (node t) (mainposition t k) = Inr (Some n)"
    using chain_search_path [OF xs(1) rng len] by simp
  then show ?thesis using ent nia k0 False by (auto simp: findindex_def Let_def n_def)
qed

lemma luaH_next_traversal:
  assumes wf: "wf_table t" and nda: "no_dead_alias t"
  shows "luaH_next t TNil = Inr (case table_entries t of [] \<Rightarrow> None | e # _ \<Rightarrow> Some e)"
    and "j < length (table_entries t) \<Longrightarrow> luaH_next t (fst (table_entries t ! j)) =
      Inr (if Suc j < length (table_entries t) then Some (table_entries t ! Suc j) else None)"
proof -
  let ?n = "sizearray t + sizenode t" and ?f = "live_indices t"
  show "luaH_next t TNil = Inr (case table_entries t of [] \<Rightarrow> None | e # _ \<Rightarrow> Some e)"
    using luaH_next_eq [of t TNil "- 1"]
    by (cases "live_indices t") (auto simp: findindex_def find_filter_hd table_entries_def live_indices_def)
  assume "j < length (table_entries t)"
  then have j: "j < length ?f" by (simp add: table_entries_def)
  then have "?f ! j \<in> set ?f" by simp
  then have fj: "?f ! j < ?n" "live_at t (?f ! j)" by (auto simp: live_indices_def)
  have fst: "fst (table_entries t ! j) = fst (entry_at t (?f ! j))" using j by (simp add: table_entries_def)
  have "find (live_at t) [Suc (?f ! j)..<?n] = (case drop (Suc j) ?f of [] \<Rightarrow> None | y # ys \<Rightarrow> Some y)"
    using filter_after [of j "live_at t" ?n] j by (simp add: find_filter_hd live_indices_def)
  also have "\<dots> = (if Suc j < length ?f then Some (?f ! Suc j) else None)"
    by (auto simp: Cons_nth_drop_Suc [symmetric])
  finally have "luaH_next t (fst (table_entries t ! j)) =
      Inr (map_option (entry_at t) (if Suc j < length ?f then Some (?f ! Suc j) else None))"
    unfolding fst using luaH_next_eq [OF findindex_live [OF wf nda fj]] fj(1) by (simp add: nat_add_distrib)
  then show "luaH_next t (fst (table_entries t ! j)) =
      Inr (if Suc j < length (table_entries t) then Some (table_entries t ! Suc j) else None)"
    by (simp add: table_entries_def)
qed

text \<open>The entries listed are the pairs of the map, each key once.\<close>

lemma entry_at_tget:
  assumes wf: "wf_table t" and i: "i < sizearray t + sizenode t" "live_at t i"
  shows "tget t (fst (entry_at t i)) = snd (entry_at t i)" "valid_key (fst (entry_at t i))"
proof -
  have wf0: "wf0 t" using wf by (simp add: wf_table_def)
  have "tget t (fst (entry_at t i)) = snd (entry_at t i) \<and> valid_key (fst (entry_at t i))"
  proof (cases "i < sizearray t")
    case True
    have r: "int_range (int i + 1)" using True wf
      by (auto simp: wf_table_def wf0_def wf_sizes_def MAXASIZE_def MAXBITS_def INT_MAX_def INT_MIN_def)
    from arrayindex_int [OF r] valid_key_int [OF r] True show ?thesis
      by (simp add: tget_def entry_at_def del: arrayindex.simps)
  next
    case False
    define n where "n = i - sizearray t"
    have n: "n < length (node t)" using False i(1) wf0 by (auto simp: n_def wf0_def wf_sizes_def)
    have lv: "i_val (node t ! n) \<noteq> TNil" using i(2) False by (simp add: live_at_def entry_at_def n_def)
    obtain k where k: "i_key (node t ! n) = Key k" "valid_key k"
      using wf0_live_key [OF wf0 nth_mem [OF n]] lv by (auto simp: live_key_def)
    have k0: "k \<noteq> TNil" using k(2) by (rule valid_key_not_nil)
    have nia: "\<not> in_array t k" using wf0 nth_mem [OF n] k(1) by (auto simp: wf0_def no_array_keys_def)
    have "key_raw_eq k (node t ! n)" using k by (simp add: key_raw_eq_def rawequalObj_refl_iff valid_key_def)
    from tget_node [OF wf0 nia k0 n this] show ?thesis using False k by (simp add: entry_at_def n_def [symmetric])
  qed
  then show "tget t (fst (entry_at t i)) = snd (entry_at t i)" "valid_key (fst (entry_at t i))" by blast+
qed

lemma entry_at_inj:
  assumes wf: "wf_table t" and i: "i < sizearray t + sizenode t" "live_at t i"
    and j: "j < sizearray t + sizenode t" "live_at t j"
    and eq: "luaO_rawequalObj (fst (entry_at t i)) (fst (entry_at t j))"
  shows "i = j"
proof -
  have wf0: "wf0 t" using wf by (simp add: wf_table_def)
  have node_pos: "\<exists>k. fst (entry_at t i) = k \<and> i_key (node t ! (i - sizearray t)) = Key k \<and> valid_key k \<and>
      \<not> in_array t k \<and> i - sizearray t < length (node t)"
    if "i < sizearray t + sizenode t" "live_at t i" "\<not> i < sizearray t" for i
  proof -
    have n: "i - sizearray t < length (node t)" using that wf0 by (auto simp: wf0_def wf_sizes_def)
    have "i_val (node t ! (i - sizearray t)) \<noteq> TNil" using that by (simp add: live_at_def entry_at_def)
    then obtain k where k: "i_key (node t ! (i - sizearray t)) = Key k" "valid_key k"
      using wf0_live_key [OF wf0 nth_mem [OF n]] by (auto simp: live_key_def)
    moreover have "\<not> in_array t k" using wf0 nth_mem [OF n] k(1) by (auto simp: wf0_def no_array_keys_def)
    ultimately show ?thesis using that n by (simp add: entry_at_def)
  qed
  have arr_pos: "arrayindex (fst (entry_at t i)) = int i + 1" if "i < sizearray t" for i
  proof -
    have "int_range (int i + 1)" using that wf0
      by (auto simp: wf0_def wf_sizes_def MAXASIZE_def MAXBITS_def INT_MAX_def INT_MIN_def)
    from arrayindex_int [OF this] that show ?thesis by (simp add: entry_at_def del: arrayindex.simps)
  qed
  note ix = arrayindex_cong [OF eq]
  consider "i < sizearray t" "j < sizearray t" | "i < sizearray t" "\<not> j < sizearray t"
    | "\<not> i < sizearray t" "j < sizearray t" | "\<not> i < sizearray t" "\<not> j < sizearray t" by blast
  then show ?thesis
  proof cases
    case 1
    with arr_pos ix show ?thesis by simp
  next
    case 2
    with arr_pos [of i] ix node_pos [OF j] show ?thesis by auto
  next
    case 3
    with arr_pos [of j] ix node_pos [OF i] show ?thesis by auto
  next
    case 4
    from node_pos [OF i 4(1)] node_pos [OF j 4(2)] obtain k k' where
      k: "fst (entry_at t i) = k" "i_key (node t ! (i - sizearray t)) = Key k" "valid_key k" "i - sizearray t < length (node t)"
        "fst (entry_at t j) = k'" "i_key (node t ! (j - sizearray t)) = Key k'" "j - sizearray t < length (node t)" by blast
    have "luaO_rawequalObj k k'" using eq k by simp
    from keys_uniqD [OF wf0_wf_h [OF wf0] k(4,7,2,6) valid_key_not_nil [OF k(3)] this] 4 show ?thesis by simp
  qed
qed

lemma table_entries_iff:
  assumes wf: "wf_table t"
  shows "tget t k = v \<and> v \<noteq> TNil \<longleftrightarrow> (\<exists>k'. (k', v) \<in> set (table_entries t) \<and> luaO_rawequalObj k' k)"
proof -
  have wf0: "wf0 t" using wf by (simp add: wf_table_def)
  have mem: "(k', v) \<in> set (table_entries t) \<longleftrightarrow> (\<exists>i < sizearray t + sizenode t. live_at t i \<and> entry_at t i = (k', v))" for k'
    by (auto simp: table_entries_def live_indices_def image_iff)
  show ?thesis
  proof
    assume v: "tget t k = v \<and> v \<noteq> TNil"
    show "\<exists>k'. (k', v) \<in> set (table_entries t) \<and> luaO_rawequalObj k' k"
    proof (cases "in_array t k")
      case True
      define i where "i = nat (arrayindex k - 1)"
      have i: "i < sizearray t" "arrayindex k = int i + 1" using True by (auto simp: i_def)
      have "luaO_rawequalObj (TNumber (cast_num (int i + 1))) k" using arrayindex_number [of "int i + 1" k] i(2) by simp
      moreover have "array t ! i = v" using v True by (simp add: tget_def i_def)
      then have "entry_at t i = (TNumber (cast_num (int i + 1)), v)" "live_at t i"
        using v i(1) by (simp_all add: entry_at_def live_at_def)
      ultimately show ?thesis using i(1) unfolding mem by (meson trans_less_add1)
    next
      case False
      from tget_entries [OF _ this] v obtain k' n where
        n: "n < length (node t)" "i_key (node t ! n) = Key k'" "i_val (node t ! n) = v" "luaO_rawequalObj k' k"
        by (auto simp: entries_def)
      have "n < sizenode t" using n(1) wf0 by (simp add: wf0_def wf_sizes_def)
      moreover have "entry_at t (sizearray t + n) = (k', v)" "live_at t (sizearray t + n)"
        using n v by (simp_all add: entry_at_def live_at_def)
      ultimately show ?thesis using n(4) unfolding mem by (meson add_less_cancel_left)
    qed
  next
    assume "\<exists>k'. (k', v) \<in> set (table_entries t) \<and> luaO_rawequalObj k' k"
    then obtain k' i where i: "i < sizearray t + sizenode t" "live_at t i" "entry_at t i = (k', v)" "luaO_rawequalObj k' k"
      unfolding mem by blast
    have "tget t k' = v" using entry_at_tget(1) [OF wf i(1,2)] i(3) by simp
    moreover have "tget t k' = tget t k"
      using arrayindex_cong [OF i(4)] key_raw_eq_cong [OF i(4)] by (simp add: tget_def)
    moreover have "v \<noteq> TNil" using i(2,3) by (simp add: live_at_def)
    ultimately show "tget t k = v \<and> v \<noteq> TNil" by simp
  qed
qed

lemma table_entries_distinct:
  assumes wf: "wf_table t" and ij: "i < length (table_entries t)" "j < length (table_entries t)"
    and eq: "luaO_rawequalObj (fst (table_entries t ! i)) (fst (table_entries t ! j))"
  shows "i = j"
proof -
  let ?f = "live_indices t"
  have l: "i < length ?f" "j < length ?f" using ij by (simp_all add: table_entries_def)
  then have "?f ! i \<in> set ?f" "?f ! j \<in> set ?f" by simp_all
  then have "?f ! i < sizearray t + sizenode t" "live_at t (?f ! i)" "?f ! j < sizearray t + sizenode t" "live_at t (?f ! j)"
    by (auto simp: live_indices_def)
  from entry_at_inj [OF wf this] eq l have "?f ! i = ?f ! j" by (simp add: table_entries_def)
  moreover have "distinct ?f" by (simp add: live_indices_def)
  ultimately show ?thesis using l nth_eq_iff_index_eq by blast
qed

subsection \<open>Boundaries\<close>

definition tgeti :: "Table \<Rightarrow> nat \<Rightarrow> TValue" where
  "tgeti t i = tget t (TNumber (cast_num (int i)))"

definition boundary :: "Table \<Rightarrow> nat \<Rightarrow> bool" where
  "boundary t n \<longleftrightarrow> (n = 0 \<or> tgeti t n \<noteq> TNil) \<and> tgeti t (n + 1) = TNil"

lemma luaH_get_val:
  assumes "wf0 t"
  shows "\<exists>s. luaH_get t key = Inr s \<and> slot_val t s = tget t key"
  by (rule luaH_get_spec [OF assms, of key]) blast

lemma nil_at_spec:
  assumes wf: "wf_table t" and j: "int j \<le> INT_MAX"
  shows "nil_at t j = Inr (tgeti t j = TNil)"
proof -
  have wf0: "wf0 t" using wf by (simp add: wf_table_def)
  have r: "int_range (int j)" using j by (simp add: INT_MIN_def)
  have eq: "luaH_get t (TNumber (cast_num (int j))) = luaH_getnum t (int j)" using r by (simp add: Let_def)
  obtain s where "luaH_getnum t (int j) = Inr s" "slot_val t s = tgeti t j"
    using luaH_get_val [OF wf0, of "TNumber (cast_num (int j))"] unfolding eq tgeti_def by blast
  then show ?thesis by (simp add: nil_at_def)
qed

lemma binsearch_boundary:
  "i < j \<Longrightarrow> (i = 0 \<or> \<not> P i) \<Longrightarrow> P j \<Longrightarrow> \<forall>m<j. 0 < m \<longrightarrow> f m = Inr (P m) \<Longrightarrow>
   \<exists>n. binsearch f i j = Inr n \<and> n < j \<and> (n = 0 \<or> \<not> P n) \<and> P (n + 1)"
proof (induction f i j rule: binsearch.induct)
  case (1 f i j)
  show ?case
  proof (cases "1 < j - i")
    case False
    with 1(3) have "j = i + 1" by simp
    with 1(4,5) show ?thesis by (subst binsearch.simps) auto
  next
    case True
    define m where "m = (i + j) div 2"
    have m: "i < m" "m < j" using True by (simp_all add: m_def)
    have fm: "f m = Inr (P m)" using 1(6) m by simp
    have step: "binsearch f i j = (if P m then binsearch f i m else binsearch f m j)"
      using True fm by (subst binsearch.simps) (simp add: m_def Let_def)
    show ?thesis
    proof (cases "P m")
      case True
      have "\<exists>n. binsearch f i m = Inr n \<and> n < m \<and> (n = 0 \<or> \<not> P n) \<and> P (n + 1)"
        by (rule 1(1) [OF \<open>1 < j - i\<close> m_def fm True m(1) 1(4) True]) (use 1(6) m in auto)
      with step True m(2) show ?thesis by auto
    next
      case False
      have "\<exists>n. binsearch f m j = Inr n \<and> n < j \<and> (n = 0 \<or> \<not> P n) \<and> P (n + 1)"
        by (rule 1(2) [OF \<open>1 < j - i\<close> m_def fm False m(2) _ 1(5)]) (use False 1(6) in auto)
      with step False show ?thesis by auto
    qed
  qed
qed

lemma some_nil:
  assumes wf: "wf_table t"
  shows "\<exists>i. 0 < i \<and> i \<le> sizearray t + sizenode t + 1 \<and> tgeti t i = TNil"
proof (rule ccontr)
  assume no: "\<not> ?thesis"
  have wf0: "wf0 t" using wf by (simp add: wf_table_def)
  have sz: "sizearray t \<le> 2 ^ 26" "sizenode t \<le> 2 ^ 26" "length (node t) = sizenode t"
    using wf0 power_increasing [of "lsizenode t" 26 "2::nat"]
    by (auto simp: wf0_def wf_sizes_def MAXASIZE_def MAXBITS_def sizenode_def)
  let ?I = "{sizearray t + 1..sizearray t + sizenode t + 1}"
  have "\<exists>n<length (node t). key_raw_eq (TNumber (cast_num (int i))) (node t ! n)" if "i \<in> ?I" for i
  proof (rule ccontr)
    assume c: "\<not> ?thesis"
    have r: "int_range (int i)" using that sz by (auto simp: INT_MAX_def INT_MIN_def)
    have "\<not> in_array t (TNumber (cast_num (int i)))"
      unfolding arrayindex_int [OF r] using that by simp
    from tget_none [OF this] c have "tgeti t i = TNil" by (simp add: tgeti_def)
    with no that show False by auto
  qed
  then obtain f where f: "\<And>i. i \<in> ?I \<Longrightarrow> f i < length (node t) \<and> key_raw_eq (TNumber (cast_num (int i))) (node t ! f i)"
    by metis
  have "inj_on f ?I"
  proof (rule inj_onI)
    fix i j assume ij: "i \<in> ?I" "j \<in> ?I" "f i = f j"
    have r: "int_range (int i)" "int_range (int j)" using ij(1,2) sz by (auto simp: INT_MAX_def INT_MIN_def)
    from f [OF ij(1)] f [OF ij(2)] ij(3) obtain k where
      "luaO_rawequalObj k (TNumber (cast_num (int i)))" "luaO_rawequalObj k (TNumber (cast_num (int j)))"
      by (auto simp: key_raw_eq_Key)
    then have "arrayindex k = int i" "arrayindex k = int j"
      using arrayindex_cong arrayindex_int [OF r(1)] arrayindex_int [OF r(2)] by metis+
    then show "i = j" by simp
  qed
  moreover have "f ` ?I \<subseteq> {..<length (node t)}" using f by auto
  ultimately have "card ?I \<le> card {..<length (node t)}" by (intro card_inj_on_le) auto
  with sz(3) show False by simp
qed

lemma linear_search_boundary:
  assumes wf: "wf_table t"
  shows "0 < i \<Longrightarrow> (i = 1 \<or> tgeti t (i - 1) \<noteq> TNil) \<Longrightarrow> i \<le> k \<Longrightarrow> k < i + fuel \<Longrightarrow> tgeti t k = TNil \<Longrightarrow>
    int k \<le> INT_MAX \<Longrightarrow> \<exists>n. linear_search fuel t i = Inr n \<and> boundary t n"
proof (induction fuel arbitrary: i)
  case 0
  then show ?case by simp
next
  case (Suc fuel)
  have na: "nil_at t i = Inr (tgeti t i = TNil)" by (rule nil_at_spec [OF wf]) (use Suc.prems in simp)
  show ?case
  proof (cases "tgeti t i = TNil")
    case True
    with na Suc.prems show ?thesis by (auto simp: boundary_def)
  next
    case False
    then have "i \<noteq> k" using Suc.prems by auto
    with Suc.IH [of "i + 1"] False Suc.prems na show ?thesis by simp
  qed
qed

lemma unbound_loop_boundary:
  assumes wf: "wf_table t"
  shows "i < j \<Longrightarrow> (i = 0 \<or> tgeti t i \<noteq> TNil) \<Longrightarrow> j \<le> MAX_INT \<Longrightarrow> MAX_INT < 2 ^ fuel * j \<Longrightarrow>
    \<exists>n. unbound_loop (Suc fuel) t i j = Inr n \<and> boundary t n"
proof (induction fuel arbitrary: i j)
  case 0
  then show ?case by simp
next
  case (Suc fuel)
  have mi: "int MAX_INT \<le> INT_MAX" by (simp add: MAX_INT_def INT_MAX_def)
  have na: "nil_at t m = Inr (tgeti t m = TNil)" if "m \<le> j" for m
    by (rule nil_at_spec [OF wf]) (use that Suc.prems(3) mi in linarith)
  show ?case
  proof (cases "tgeti t j = TNil")
    case True
    from binsearch_boundary [OF Suc.prems(1), of "\<lambda>m. tgeti t m = TNil" "nil_at t"] Suc.prems(2) True na
    obtain n where n: "binsearch (nil_at t) i j = Inr n" "(n = 0 \<or> tgeti t n \<noteq> TNil) \<and> tgeti t (n + 1) = TNil" by auto
    have "unbound_loop (Suc (Suc fuel)) t i j = Inr n"
      using na [of j] True n(1) by (subst unbound_loop.simps) simp
    with n(2) show ?thesis by (auto simp: boundary_def)
  next
    case False
    show ?thesis
    proof (cases "MAX_INT < j * 2")
      case True
      obtain k where k: "0 < k" "k \<le> sizearray t + sizenode t + 1" "tgeti t k = TNil" using some_nil [OF wf] by blast
      have "sizearray t \<le> 2 ^ 26" "sizenode t \<le> 2 ^ 26"
        using wf power_increasing [of "lsizenode t" 26 "2::nat"]
        by (auto simp: wf_table_def wf0_def wf_sizes_def MAXASIZE_def MAXBITS_def sizenode_def)
      then have "int k \<le> INT_MAX" using k(2) by (simp add: INT_MAX_def)
      with linear_search_boundary [OF wf, of 1 k "sizearray t + sizenode t + 2"] k
      obtain n where "linear_search (sizearray t + sizenode t + 2) t 1 = Inr n" "boundary t n" by auto
      moreover have "unbound_loop (Suc (Suc fuel)) t i j = linear_search (sizearray t + sizenode t + 2) t 1"
        using na [of j] False True by (subst unbound_loop.simps) (simp add: Let_def)
      ultimately show ?thesis by simp
    next
      case small: False
      have "unbound_loop (Suc (Suc fuel)) t i j = unbound_loop (Suc fuel) t j (j * 2)"
        using na [of j] False small by (subst unbound_loop.simps) (simp add: Let_def)
      moreover have "\<exists>n. unbound_loop (Suc fuel) t j (j * 2) = Inr n \<and> boundary t n"
        by (rule Suc.IH) (use Suc.prems False small in \<open>auto simp: algebra_simps\<close>)
      ultimately show ?thesis by simp
    qed
  qed
qed

lemma luaH_getn_boundary:
  assumes wf: "wf_table t"
  shows "\<exists>n. luaH_getn t = Inr n \<and> boundary t n"
proof -
  let ?j = "sizearray t"
  have wf0: "wf0 t" and sz: "?j \<le> MAXASIZE" using wf by (simp_all add: wf_table_def wf0_def wf_sizes_def)
  have arr: "tgeti t m = array t ! (m - 1)" if "0 < m" "m \<le> ?j" for m
  proof -
    have "int_range (int m)" using that sz by (simp add: INT_MIN_def INT_MAX_def MAXASIZE_def MAXBITS_def)
    from arrayindex_int [OF this] that show ?thesis
      by (simp add: tgeti_def tget_def nat_diff_distrib del: arrayindex.simps)
  qed
  consider "0 < ?j" "array t ! (?j - 1) = TNil" | "isdummy t" "\<not> (0 < ?j \<and> array t ! (?j - 1) = TNil)"
    | "\<not> isdummy t" "\<not> (0 < ?j \<and> array t ! (?j - 1) = TNil)" by argo
  then show ?thesis
  proof cases
    case 1
    have "\<exists>n. binsearch (\<lambda>m. Inr (array t ! (m - 1) = TNil)) 0 ?j = Inr n \<and> n < ?j \<and> (n = 0 \<or> \<not> tgeti t n = TNil) \<and> tgeti t (n + 1) = TNil"
      by (rule binsearch_boundary) (use 1 arr in auto)
    with 1 show ?thesis by (auto simp: luaH_getn_def boundary_def Let_def)
  next
    case 2
    have r: "int_range (int (?j + 1))" using sz by (simp add: INT_MIN_def INT_MAX_def MAXASIZE_def MAXBITS_def)
    have nd: "node t = [dummynode]" using 2(1) wf0 by (simp add: wf0_def wf_lastfree_def)
    have "tgeti t (?j + 1) = TNil"
      unfolding tgeti_def
      by (rule tget_none) (use arrayindex_int [OF r] nd in \<open>simp_all add: key_raw_eq_def dummynode_def del: arrayindex.simps\<close>)
    with 2 arr [of ?j] show ?thesis by (auto simp: luaH_getn_def boundary_def Let_def)
  next
    case 3
    have "\<exists>n. unbound_loop (Suc 31) t ?j (?j + 1) = Inr n \<and> boundary t n"
      by (rule unbound_loop_boundary [OF wf])
        (use sz 3(2) arr [of ?j] in \<open>auto simp: MAX_INT_def MAXASIZE_def MAXBITS_def\<close>)
    moreover have "luaH_getn t = unbound_loop (Suc 31) t ?j (?j + 1)"
      using 3 by (auto simp: luaH_getn_def unbound_search_def Let_def simp del: unbound_loop.simps)
    ultimately show ?thesis by simp
  qed
qed

end
