(* ===== verification/Ltable_spec.thy ===== *)
theory Ltable_spec
  imports Ltable_next
begin

text \<open>
  Tables as finite maps: the interface their clients rely on as a locale, its interpretation on
  the model of ltable.c, and the properties of the table operations.
\<close>

subsection \<open>The number of entries\<close>

lemma live_count_entries: "wf_table t \<Longrightarrow> live_count t = length (table_entries t)"
proof -
  assume wf: "wf_table t"
  then have sn: "sizenode t = length (node t)" by (simp add: wf_table_def wf0_def wf_sizes_def)
  let ?sa = "sizearray t"
  have 1: "length (filter (live_at t) [0..<?sa]) = length (live_slots t ?sa)"
  proof -
    have "live_slots t ?sa = filter (\<lambda>j. array t ! (j - 1) \<noteq> TNil) (map Suc [0..<?sa])"
      by (simp add: live_slots_def map_Suc_upt)
    moreover have "filter (live_at t) [0..<?sa] = filter (\<lambda>j. array t ! j \<noteq> TNil) [0..<?sa]"
      by (rule filter_cong) (auto simp: live_at_def entry_at_def)
    ultimately show ?thesis by (simp add: filter_map comp_def)
  qed
  have 2: "length (filter (live_at t) [?sa..<?sa + sizenode t]) = length (filter (\<lambda>n. i_val n \<noteq> TNil) (node t))"
  proof -
    have "[?sa..<?sa + sizenode t] = map (\<lambda>j. j + ?sa) [0..<length (node t)]"
      unfolding map_shift_upt sn by (simp add: add.commute)
    then have "filter (live_at t) [?sa..<?sa + sizenode t] = map (\<lambda>j. j + ?sa) (filter (\<lambda>j. i_val (node t ! j) \<noteq> TNil) [0..<length (node t)])"
      by (simp add: filter_map comp_def live_at_def entry_at_def)
    moreover have "filter (\<lambda>n. i_val n \<noteq> TNil) (node t) = map (\<lambda>j. node t ! j) (filter (\<lambda>j. i_val (node t ! j) \<noteq> TNil) [0..<length (node t)])"
      using filter_map [of "\<lambda>n. i_val n \<noteq> TNil" "\<lambda>j. node t ! j" "[0..<length (node t)]"] by (simp add: map_nth comp_def)
    ultimately show ?thesis by simp
  qed
  have "[0..<?sa + sizenode t] = [0..<?sa] @ [?sa..<?sa + sizenode t]" by (rule upt_add_eq_append) simp
  with 1 2 show ?thesis by (simp add: live_count_def table_entries_def live_indices_def)
qed

lemma live_count_store:
  assumes wf: "wf_table t" "wf_table t'" and key: "valid_key key"
    and upd: "\<And>k. tget t' k = (if luaO_rawequalObj key k then v else tget t k)"
  shows "live_count t' \<le> live_count t + 1"
proof -
  let ?es = "table_entries t" and ?es' = "table_entries t'"
  let ?A = "{i. i < length ?es' \<and> \<not> luaO_rawequalObj key (fst (?es' ! i))}"
  let ?B = "{i. i < length ?es' \<and> luaO_rawequalObj key (fst (?es' ! i))}"
  have "\<exists>j<length ?es. luaO_rawequalObj (fst (?es ! j)) (fst (?es' ! i))" if "i \<in> ?A" for i
  proof -
    obtain k w where kw: "?es' ! i = (k, w)" by (cases "?es' ! i")
    have mem: "(k, w) \<in> set ?es'" using that kw nth_mem [of i ?es'] by auto
    then obtain m where m: "m < sizearray t' + sizenode t'" "live_at t' m" "entry_at t' m = (k, w)"
      by (auto simp: table_entries_def live_indices_def)
    have "valid_key k" using entry_at_tget(2) [OF wf(2) m(1,2)] m(3) by simp
    then have "luaO_rawequalObj k k" by (auto simp: valid_key_def rawequalObj_refl_iff)
    with mem have "tget t' k = w \<and> w \<noteq> TNil" using table_entries_iff [OF wf(2), of k w] by blast
    with upd [of k] that kw have "tget t k = w \<and> w \<noteq> TNil" by simp
    then obtain k' where "(k', w) \<in> set ?es" "luaO_rawequalObj k' k" using table_entries_iff [OF wf(1), of k w] by blast
    then show ?thesis using kw by (auto simp: in_set_conv_nth)
  qed
  then obtain f where f: "\<And>i. i \<in> ?A \<Longrightarrow> f i < length ?es \<and> luaO_rawequalObj (fst (?es ! f i)) (fst (?es' ! i))" by metis
  have inj: "inj_on f ?A"
  proof (rule inj_onI)
    fix i j assume ij: "i \<in> ?A" "j \<in> ?A" "f i = f j"
    have "luaO_rawequalObj (fst (?es' ! i)) (fst (?es ! f i))" "luaO_rawequalObj (fst (?es ! f i)) (fst (?es' ! j))"
      using f [OF ij(1)] f [OF ij(2)] ij(3) rawequalObj_sym by metis+
    from rawequalObj_trans [OF this] table_entries_distinct [OF wf(2)] ij show "i = j" by blast
  qed
  have "f ` ?A \<subseteq> {..<length ?es}" using f by auto
  then have "card ?A \<le> length ?es" using card_inj_on_le [OF inj, of "{..<length ?es}"] by simp
  moreover have "card ?B \<le> 1"
  proof -
    have "i = j" if "i \<in> ?B" "j \<in> ?B" for i j
      using that rawequalObj_trans [of "fst (?es' ! i)" key "fst (?es' ! j)"] rawequalObj_sym [of key "fst (?es' ! i)"]
        table_entries_distinct [OF wf(2), of i j] by simp
    then have "\<forall>i\<in>?B. \<forall>j\<in>?B. i = j" by blast
    moreover have "finite ?B" by simp
    ultimately show ?thesis unfolding One_nat_def by (rule card_le_Suc0_iff_eq [THEN iffD2, rotated])
  qed
  moreover have "{..<length ?es'} = ?A \<union> ?B" by auto
  then have "card {..<length ?es'} \<le> card ?A + card ?B" by (simp only: card_Un_le)
  then have "length ?es' \<le> card ?A + card ?B" by simp
  ultimately show ?thesis using live_count_entries wf by simp
qed

subsection \<open>The interface of a finite map\<close>

text \<open>
  What the clients of a table (the raw access functions of lapi.c, the virtual machine, the
  library) rely on: a store that returns while there is capacity left, keeps the invariant and
  changes the lookup of the stored key only. The lemmas are proved once for every such map.
\<close>

locale finite_map =
  fixes invar :: "'s \<Rightarrow> bool"
    and size_of :: "'s \<Rightarrow> nat"
    and capacity :: nat
    and valid :: "'k \<Rightarrow> bool"
    and keq :: "'k \<Rightarrow> 'k \<Rightarrow> bool"
    and lookup :: "'s \<Rightarrow> 'k \<Rightarrow> 'v"
    and store :: "'s \<Rightarrow> 'k \<Rightarrow> 'v \<Rightarrow> 's result"
  assumes store_returns: "invar s \<Longrightarrow> valid k \<Longrightarrow> size_of s < capacity \<Longrightarrow> \<exists>s'. store s k v = Inr s'"
    and store_invar: "invar s \<Longrightarrow> valid k \<Longrightarrow> size_of s < capacity \<Longrightarrow> store s k v = Inr s' \<Longrightarrow>
      invar s' \<and> size_of s' \<le> size_of s + 1"
    and lookup_store: "invar s \<Longrightarrow> valid k \<Longrightarrow> size_of s < capacity \<Longrightarrow> store s k v = Inr s' \<Longrightarrow>
      lookup s' k' = (if keq k k' then v else lookup s k')"
begin

lemma store_all:
  "invar s \<Longrightarrow> \<forall>(k, v) \<in> set kvs. valid k \<Longrightarrow> size_of s + length kvs \<le> capacity \<Longrightarrow>
   \<exists>s'. fold_result (\<lambda>(k, v) s. store s k v) kvs s = Inr s' \<and> invar s' \<and>
     (\<forall>k. lookup s' k = (case find (\<lambda>(k', v). keq k' k) (rev kvs) of
        Some (k', v) \<Rightarrow> v | None \<Rightarrow> lookup s k))"
proof (induction kvs arbitrary: s)
  case Nil
  then show ?case by simp
next
  case (Cons kv kvs)
  obtain k v where kv: "kv = (k, v)" by (cases kv)
  have pre: "invar s" "valid k" "size_of s < capacity" using Cons.prems kv by auto
  obtain s1 where s1: "store s k v = Inr s1" using store_returns [OF pre] by blast
  note inv1 = store_invar [OF pre s1] and look1 = lookup_store [OF pre s1]
  obtain s' where s': "fold_result (\<lambda>(k, v) s. store s k v) kvs s1 = Inr s'" "invar s'"
    "\<forall>k. lookup s' k = (case find (\<lambda>(k', v). keq k' k) (rev kvs) of Some (k', v) \<Rightarrow> v | None \<Rightarrow> lookup s1 k)"
    using Cons.IH [of s1] inv1 Cons.prems by auto
  have "lookup s' k' = (case find (\<lambda>(l, v). keq l k') (rev (kv # kvs)) of Some (l, v) \<Rightarrow> v | None \<Rightarrow> lookup s k')" for k'
    using s'(3) look1 [of k'] kv by (auto simp: find_append split: option.splits)
  with s' s1 kv show ?case by auto
qed

end

subsection \<open>Tables are finite maps\<close>

text \<open>
  The store of a key and a value: the assignment through the slot of \<open>luaH_set\<close> with the
  write barrier after it, as in \<open>lua_rawset\<close> of lapi.c; \<open>lua_rawseti\<close> likewise.
\<close>

definition lua_rawset_table ::
  "'g gc_core_scheme \<times> Table \<Rightarrow> TValue \<Rightarrow> TValue \<Rightarrow> ('g gc_core_scheme \<times> Table) result" where
  "lua_rawset_table s key v =
     bind_result (luaH_set (fst s) (snd s) key) (\<lambda>(L, t, p).
       Inr (luaC_barriert L (t_self t) v, set_slot t p v))"

definition lua_rawseti_table ::
  "'g gc_core_scheme \<times> Table \<Rightarrow> int \<Rightarrow> TValue \<Rightarrow> ('g gc_core_scheme \<times> Table) result" where
  "lua_rawseti_table s n v =
     bind_result (luaH_setnum (fst s) (snd s) n) (\<lambda>(L, t, p).
       Inr (luaC_barriert L (t_self t) v, set_slot t p v))"

lemma rawset_table_ok:
  assumes wf: "wf_table t" and key: "valid_key key" and few: "live_count t < MAXASIZE"
  shows "\<exists>L' t'. lua_rawset_table (L, t) key v = Inr (L', t') \<and> wf_table t' \<and> live_count t' \<le> live_count t + 1 \<and>
    (\<forall>k. tget t' k = (if luaO_rawequalObj key k then v else tget t k))"
proof -
  from luaH_set_total [OF assms, of L] obtain L1 t1 p where
    s: "luaH_set L t key = Inr (L1, t1, p)" "set_ok t key t1 p" by blast
  note st = set_ok_store [OF s(2) key, of v]
  have "live_count (set_slot t1 p v) \<le> live_count t + 1"
    by (rule live_count_store [OF wf st(1) key st(2)])
  with s(1) st show ?thesis by (simp add: lua_rawset_table_def)
qed

interpretation tbl: finite_map "\<lambda>s. wf_table (snd s)" "\<lambda>s. live_count (snd s)" MAXASIZE valid_key luaO_rawequalObj
  "\<lambda>s. tget (snd s)" lua_rawset_table
proof
  fix s :: "'g gc_core_scheme \<times> Table" and k v s' k'
  assume a: "wf_table (snd s)" "valid_key k" "live_count (snd s) < MAXASIZE"
  note ok = rawset_table_ok [OF a, of "fst s" v, simplified]
  show "\<exists>s'. lua_rawset_table s k v = Inr s'" using ok by auto
  assume "lua_rawset_table s k v = Inr s'"
  with ok show "wf_table (snd s') \<and> live_count (snd s') \<le> live_count (snd s) + 1"
    "tget (snd s') k' = (if luaO_rawequalObj k k' then v else tget (snd s) k')" by auto
qed

subsection \<open>A complete traversal\<close>

text \<open>
  The loop \<open>lua_pushnil; while (lua_next(L, t)) { ... }\<close> that the manual gives for visiting a
  table: the pairs it sees, with a bound on the number of calls.
\<close>

fun traverse :: "nat \<Rightarrow> Table \<Rightarrow> TValue \<Rightarrow> (TValue \<times> TValue) list result" where
  "traverse 0 t key = Inl Diverges"
| "traverse (Suc fuel) t key =
     bind_result (luaH_next t key) (\<lambda>r. case r of None \<Rightarrow> Inr []
       | Some (k, v) \<Rightarrow> bind_result (traverse fuel t k) (\<lambda>es. Inr ((k, v) # es)))"

lemma traverse_from:
  assumes wf: "wf_table t" and nda: "no_dead_alias t"
  shows "j < length (table_entries t) \<Longrightarrow> length (table_entries t) \<le> j + fuel \<Longrightarrow>
    traverse fuel t (fst (table_entries t ! j)) = Inr (drop (Suc j) (table_entries t))"
proof (induction fuel arbitrary: j)
  case 0
  then show ?case by simp
next
  case (Suc fuel)
  note nx = luaH_next_traversal(2) [OF wf nda Suc.prems(1)]
  show ?case
  proof (cases "Suc j < length (table_entries t)")
    case True
    obtain k v where kv: "table_entries t ! Suc j = (k, v)" by (cases "table_entries t ! Suc j")
    have "traverse fuel t k = Inr (drop (Suc (Suc j)) (table_entries t))"
      using Suc.IH [OF True] Suc.prems(2) kv by simp
    with nx kv True show ?thesis by (simp add: Cons_nth_drop_Suc [symmetric])
  next
    case False
    with nx show ?thesis by simp
  qed
qed

lemma traverse_all:
  assumes wf: "wf_table t" and nda: "no_dead_alias t"
  shows "traverse (length (table_entries t) + 1) t TNil = Inr (table_entries t)"
proof (cases "table_entries t")
  case Nil
  with luaH_next_traversal(1) [OF assms] show ?thesis by simp
next
  case (Cons e es)
  obtain k v where e: "e = (k, v)" by (cases e)
  have "traverse (length (table_entries t)) t k = Inr (drop (Suc 0) (table_entries t))"
    using traverse_from [OF assms, of 0 "length (table_entries t)"] Cons e by (simp del: traverse.simps)
  with luaH_next_traversal(1) [OF assms] Cons e show ?thesis by simp
qed

subsection \<open>A concrete table\<close>

text \<open>An array part of two slots, the second one empty, and a hash part of one node.\<close>

definition sample_table :: Table where
  "sample_table = \<lparr>t_self = 16, flags = 0, lsizenode = 0, metatable = None,
     array = [TStr ''a'', TNil], isdummy = False,
     node = [\<lparr>i_val = TBoolean True, i_key = Key (TStr ''x''), nk_next = None\<rparr>],
     lastfree = 1, sizearray = 2\<rparr>"

lemma sample_table_wf: "wf_table sample_table"
proof -
  have "\<exists>xs. path (\<lambda>i. nk_next (node sample_table ! i)) 0 xs"
    by (rule exI [of _ "[0]"]) (simp add: sample_table_def)
  moreover have mp: "mainposition sample_table k = 0" for k
    using mainposition_less [of sample_table k] by (simp add: sample_table_def sizenode_def)
  moreover have "\<exists>xs. path (\<lambda>i. nk_next (node sample_table ! i)) 0 xs \<and> 0 \<in> set xs"
    by (rule exI [of _ "[0]"]) (simp add: sample_table_def)
  ultimately have "wf_nodes sample_table"
    unfolding wf_nodes_def wf_h_def next_ok_def next_inj_def paths_end_def free_ok_def dead_ok_def keys_valid_def
      keys_reach_def main_ok_def keys_uniq_def mp
    by (simp add: valid_key_def) (simp add: sample_table_def valid_key_def)
  then show ?thesis
    by (simp add: wf_table_def wf0_def wf_sizes_def wf_lastfree_def no_array_keys_def)
      (simp add: sample_table_def sizenode_def MAXASIZE_def MAXBITS_def)
qed

lemma sample_table_count: "live_count sample_table < MAXASIZE"
  by (simp add: live_count_def live_slots_def sample_table_def MAXASIZE_def MAXBITS_def upt_rec)

lemma sample_table_alias: "no_dead_alias sample_table"
  by (simp add: no_dead_alias_def sample_table_def)

lemma sample_table_get: "tget sample_table (TStr ''x'') = TBoolean True"
  by (simp add: tget_def sample_table_def key_raw_eq_def)

section \<open>Properties\<close>

text \<open>
  Claim C2. A lookup in a well-formed table always returns: no chain is followed for ever and
  no access is out of bounds, and the slot found (or the nil object) holds the value of the
  key in the reference definition \<open>tget\<close>, whatever mix of array part, collision chains
  and dead keys stores it.
\<close>

theorem luaH_get_correct:
  assumes "wf_table t"
  shows "\<exists>s. luaH_get t key = Inr s \<and> slot_val t s = tget t key"
  using luaH_get_val [of t key] assms by (simp add: wf_table_def)

theorem luaH_get_correct_witness:
  "wf_table sample_table \<and> (\<exists>s. luaH_get sample_table (TStr ''x'') = Inr s \<and> slot_val sample_table s = TBoolean True)"
  using luaH_get_correct [OF sample_table_wf, of "TStr ''x''"] sample_table_wf sample_table_get by simp

text \<open>
  Claim C1. \<open>luaH_set\<close> on a well-formed table with fewer than 2^26 live entries and a key
  that is neither nil nor NaN always returns (a rehash never triggers another one, so the
  recursion \<open>newkey - rehash - resize - luaH_set\<close> ends), keeps the invariant and every value,
  and a value stored through the slot it returns is found under that key and changes no other key.
\<close>

theorem luaH_set_correct:
  assumes "wf_table t" "valid_key key" "live_count t < MAXASIZE"
  shows "\<exists>L' t' p. luaH_set L t key = Inr (L', t', p) \<and> p \<noteq> NilObject \<and> wf_table t' \<and> tget t' = tget t \<and>
    (\<forall>v. wf_table (set_slot t' p v) \<and>
       (\<forall>k. tget (set_slot t' p v) k = (if luaO_rawequalObj key k then v else tget t k)))"
proof -
  from luaH_set_total [OF assms, of L] obtain L' t' p where s: "luaH_set L t key = Inr (L', t', p)" "set_ok t key t' p" by blast
  have "p \<noteq> NilObject" using s(2) by (auto simp: set_ok_def slot_for_def)
  with s set_ok_store [OF s(2) assms(2)] show ?thesis by (auto simp: set_ok_def)
qed

theorem luaH_set_correct_witness:
  "wf_table sample_table \<and> valid_key (TStr ''y'') \<and> live_count sample_table < MAXASIZE \<and>
   (\<exists>L' t' p. luaH_set (\<lparr>marked = (\<lambda>_. 1), grayagain = []\<rparr> :: gc_core) sample_table (TStr ''y'') = Inr (L', t', p) \<and>
      tget (set_slot t' p (TBoolean False)) (TStr ''y'') = TBoolean False \<and>
      tget (set_slot t' p (TBoolean False)) (TStr ''x'') = TBoolean True)"
proof -
  have k: "valid_key (TStr ''y'')" by (simp add: valid_key_def)
  from luaH_set_correct [OF sample_table_wf k sample_table_count, of "\<lparr>marked = (\<lambda>_. 1), grayagain = []\<rparr>"]
  obtain L' t' p where t': "luaH_set (\<lparr>marked = (\<lambda>_. 1), grayagain = []\<rparr> :: gc_core) sample_table (TStr ''y'') = Inr (L', t', p)"
    "\<And>v k. tget (set_slot t' p v) k = (if luaO_rawequalObj (TStr ''y'') k then v else tget sample_table k)" by blast
  have "tget (set_slot t' p (TBoolean False)) (TStr ''y'') = TBoolean False"
    "tget (set_slot t' p (TBoolean False)) (TStr ''x'') = TBoolean True"
    using sample_table_get by (simp_all add: t'(2))
  with t'(1) show ?thesis using k sample_table_wf sample_table_count by blast
qed

text \<open>
  Storing under nil or NaN is refused with the documented message, on every
  well-formed table.
\<close>

theorem luaH_set_refuses:
  assumes "wf_table t" "dbl_isnan n"
  shows "luaH_set L t TNil = Inl (RunError ''table index is nil'') \<and>
    luaH_set L t (TNumber n) = Inl (RunError ''table index is NaN'')"
  using luaH_set_errors [OF assms(1)] assms(2) by blast

theorem luaH_set_refuses_witness:
  "wf_table sample_table \<and> dbl_isnan 0x7FF8000000000000 \<and>
   luaH_set (\<lparr>marked = (\<lambda>_. 1), grayagain = []\<rparr> :: gc_core) sample_table (TNumber 0x7FF8000000000000) =
     Inl (RunError ''table index is NaN'')"
proof -
  have "dbl_isnan 0x7FF8000000000000" by (simp add: dbl_isnan_def dbl_exp_def dbl_frac_def)
  with luaH_set_refuses [OF sample_table_wf this] sample_table_wf show ?thesis by blast
qed

text \<open>
  The specialised stores: \<open>luaH_setnum\<close> and \<open>luaH_setstr\<close> return the slot of the
  integer or string key and keep every value, under the conditions of \<open>luaH_set\<close>.
\<close>

theorem luaH_setnum_setstr_correct:
  assumes "wf_table t" "live_count t < MAXASIZE" "int_range i"
  shows "(\<exists>L' t' p. luaH_setnum L t i = Inr (L', t', p) \<and> wf_table t' \<and> tget t' = tget t \<and>
      (\<forall>v. tget (set_slot t' p v) (TNumber (cast_num i)) = v)) \<and>
    (\<exists>L' t' p. luaH_setstr L t s = Inr (L', t', p) \<and> wf_table t' \<and> tget t' = tget t \<and>
      (\<forall>v. tget (set_slot t' p v) (TStr s) = v))"
proof -
  have vk: "valid_key (TNumber (cast_num i))" "valid_key (TStr s)" using valid_key_int [OF assms(3)] by (simp_all add: valid_key_def)
  then have re: "luaO_rawequalObj (TNumber (cast_num i)) (TNumber (cast_num i))" by (auto simp: valid_key_def rawequalObj_refl_iff)
  from luaH_setnum_total [OF assms(1,3,2), of L] obtain L' t' p where
    n: "luaH_setnum L t i = Inr (L', t', p)" "set_ok t (TNumber (cast_num i)) t' p" by blast
  from luaH_setstr_total [OF assms(1,2), of L s] obtain L2 t2 p2 where
    s: "luaH_setstr L t s = Inr (L2, t2, p2)" "set_ok t (TStr s) t2 p2" by blast
  show ?thesis
    using n s set_ok_store(2) [OF n(2) vk(1), of _ "TNumber (cast_num i)"] set_ok_store(2) [OF s(2) vk(2), of _ "TStr s"] re
    by (auto simp: set_ok_def)
qed

theorem luaH_setnum_setstr_correct_witness:
  "int_range 7 \<and> (\<exists>L' t' p. luaH_setnum (\<lparr>marked = (\<lambda>_. 1), grayagain = []\<rparr> :: gc_core) sample_table 7 = Inr (L', t', p) \<and>
     tget (set_slot t' p TNil) (TNumber (cast_num 7)) = TNil)"
proof -
  have r: "int_range 7" by (simp add: INT_MAX_def INT_MIN_def)
  from luaH_setnum_setstr_correct [OF sample_table_wf sample_table_count r, of "\<lparr>marked = (\<lambda>_. 1), grayagain = []\<rparr>"] r
  show ?thesis by blast
qed

text \<open>
  Claim C3. A sequence of raw stores behaves as a sequence of updates of a finite map: while the
  table has capacity for all of them every store returns, the invariant holds at the end and
  each key has the value stored last under an equal key, or the value it had before.
\<close>

theorem rawset_sequence:
  assumes "wf_table t" "\<forall>(k, v) \<in> set kvs. valid_key k" "live_count t + length kvs \<le> MAXASIZE"
  shows "\<exists>L' t'. fold_result (\<lambda>(k, v) s. lua_rawset_table s k v) kvs (L, t) = Inr (L', t') \<and> wf_table t' \<and>
    (\<forall>k. tget t' k = (case find (\<lambda>(k', v). luaO_rawequalObj k' k) (rev kvs) of
       Some (k', v) \<Rightarrow> v | None \<Rightarrow> tget t k))"
  using tbl.store_all [of "(L, t)" kvs, unfolded snd_conv] assms by auto

theorem rawset_sequence_witness:
  "\<exists>L' t'. fold_result (\<lambda>(k, v) s. lua_rawset_table s k v)
       [(TStr ''y'', TBoolean True), (TStr ''x'', TNil), (TStr ''y'', TBoolean False)]
       ((\<lparr>marked = (\<lambda>_. 1), grayagain = []\<rparr> :: gc_core), sample_table) = Inr (L', t') \<and>
     wf_table t' \<and> tget t' (TStr ''y'') = TBoolean False \<and> tget t' (TStr ''x'') = TNil"
proof -
  let ?kvs = "[(TStr ''y'', TBoolean True), (TStr ''x'', TNil), (TStr ''y'', TBoolean False)]"
  have "\<forall>(k, v) \<in> set ?kvs. valid_key k" by (simp add: valid_key_def)
  moreover have "live_count sample_table + length ?kvs \<le> MAXASIZE"
    by (simp add: live_count_def live_slots_def sample_table_def MAXASIZE_def MAXBITS_def upt_rec)
  ultimately show ?thesis
    using rawset_sequence [OF sample_table_wf, of ?kvs "\<lparr>marked = (\<lambda>_. 1), grayagain = []\<rparr>"] by auto
qed





text \<open>
  Claim C5. \<open>luaH_getn\<close> always returns a boundary: an index \<open>n\<close> that is 0 or holds a value,
  with nothing at \<open>n + 1\<close>; also when the search has to leave the array part, and when the
  doubling search gives up and the linear one starts.
\<close>

theorem luaH_getn_correct:
  assumes "wf_table t"
  shows "\<exists>n. luaH_getn t = Inr n \<and> (n = 0 \<or> tgeti t n \<noteq> TNil) \<and> tgeti t (n + 1) = TNil"
  using luaH_getn_boundary [OF assms] by (simp add: boundary_def)

theorem luaH_getn_correct_witness:
  "wf_table sample_table \<and> (\<exists>n. luaH_getn sample_table = Inr n \<and> tgeti sample_table (n + 1) = TNil)"
  using luaH_getn_correct [OF sample_table_wf] sample_table_wf by blast

text \<open>
  \<open>luaH_new\<close> builds a well-formed table in which every lookup gives nil, with the
  array size asked for and at least the hash size asked for; \<open>luaH_resizearray\<close> to a larger
  array keeps the invariant and every value.
\<close>

theorem luaH_new_resizearray_correct:
  assumes "narray \<le> MAXASIZE" "nhash \<le> MAXASIZE" "narray \<le> nasize" "nasize \<le> MAXASIZE"
  shows "\<exists>t L' t'. luaH_new self narray nhash = Inr t \<and> wf_table t \<and> tget t = (\<lambda>k. TNil) \<and>
    sizearray t = narray \<and> nhash \<le> sizenode t \<and>
    luaH_resizearray L t nasize = Inr (L', t') \<and> wf_table t' \<and> tget t' = tget t \<and> sizearray t' = nasize"
proof -
  obtain t where t: "luaH_new self narray nhash = Inr t" "wf_table t" "tget t = (\<lambda>k. TNil)" "sizearray t = narray" "nhash \<le> sizenode t"
    using luaH_new_total [OF assms(1,2)] by blast
  with luaH_resizearray_grow [OF t(2), of nasize L] assms(3,4) show ?thesis by auto
qed

theorem luaH_new_resizearray_correct_witness:
  "\<exists>t L' t'. luaH_new 16 2 3 = Inr t \<and> sizearray t = 2 \<and> 3 \<le> sizenode t \<and>
     luaH_resizearray (\<lparr>marked = (\<lambda>_. 1), grayagain = []\<rparr> :: gc_core) t 4 = Inr (L', t') \<and> sizearray t' = 4"
  using luaH_new_resizearray_correct [of 2 3 4 16 "\<lparr>marked = (\<lambda>_. 1), grayagain = []\<rparr> :: gc_core"]
  by (simp add: MAXASIZE_def MAXBITS_def) blast

end
