(* ===== verification/Lzio.thy ===== *)
theory Lzio
  imports Prelude
begin

text \<open>
  Buffered input streams (lzio.h, lzio.c). The reader that fills the buffer is a callback of
  the embedding program: a function on the reader's own data that gives a block (or a null
  pointer) and the new data. \<open>z_p\<close> holds the bytes from the current position to the end of
  the block and \<open>z_n\<close> is the counter of unread bytes the C code keeps beside it; an access
  past the end of the block is a \<open>MemoryFault\<close>.
\<close>

type_synonym 'd lua_Reader = "'d \<Rightarrow> lu_byte list option \<times> 'd"

record 'd ZIO =
  z_n :: "64 word"
  z_p :: "lu_byte list"
  z_data :: 'd

definition EOZ :: int where "EOZ = - 1"

definition char2int :: "lu_byte \<Rightarrow> int" where "char2int c = int (unat c)"

definition luaZ_fill :: "'d lua_Reader \<Rightarrow> 'd ZIO \<Rightarrow> int \<times> 'd ZIO" where
  "luaZ_fill rd z =
     (case rd (z_data z) of (buff, d) \<Rightarrow>
        let z = z\<lparr>z_data := d\<rparr> in
        case buff of
          None \<Rightarrow> (EOZ, z)
        | Some [] \<Rightarrow> (EOZ, z)
        | Some (c # cs) \<Rightarrow> (char2int c, z\<lparr>z_n := word_of_nat (length (c # cs)) - 1, z_p := cs\<rparr>))"

definition zgetc :: "'d lua_Reader \<Rightarrow> 'd ZIO \<Rightarrow> (int \<times> 'd ZIO) result" where
  "zgetc rd z =
     (let n = z_n z; z = z\<lparr>z_n := n - 1\<rparr> in
      if 0 < n
      then case z_p z of [] \<Rightarrow> Inl MemoryFault | c # cs \<Rightarrow> Inr (char2int c, z\<lparr>z_p := cs\<rparr>)
      else Inr (luaZ_fill rd z))"

text \<open>\<open>luaZ_fill removed first byte; put back it\<close>.\<close>

definition luaZ_lookahead :: "'d lua_Reader \<Rightarrow> 'd ZIO \<Rightarrow> (int \<times> 'd ZIO) result" where
  "luaZ_lookahead rd z =
     (let (c, z) = (if z_n z = 0
                    then let (c, z) = luaZ_fill rd z in
                         if c = EOZ then (c, z)
                         else (c, z\<lparr>z_n := z_n z + 1, z_p := word_of_int c # z_p z\<rparr>)
                    else (0, z))
      in if c = EOZ then Inr (EOZ, z)
         else case z_p z of [] \<Rightarrow> Inl MemoryFault | b # _ \<Rightarrow> Inr (char2int b, z))"

definition luaZ_init :: "'d \<Rightarrow> 'd ZIO" where
  "luaZ_init d = \<lparr>z_n = 0, z_p = [], z_data = d\<rparr>"

text \<open>
  \<open>luaZ_read\<close>: the bytes copied to the buffer, the number of missing bytes it returns, and
  the stream. A turn that copies nothing would repeat for ever.
\<close>

function luaZ_read :: "'d lua_Reader \<Rightarrow> 'd ZIO \<Rightarrow> nat \<Rightarrow> (lu_byte list \<times> nat \<times> 'd ZIO) result" where
  "luaZ_read rd z n =
     (if n = 0 then Inr ([], 0, z)
      else bind_result (luaZ_lookahead rd z) (\<lambda>(c, z).
        if c = EOZ then Inr ([], n, z)
        else let m = (if n \<le> unat (z_n z) then n else unat (z_n z)) in
          if length (z_p z) < m then Inl MemoryFault
          else if m = 0 then Inl Diverges
          else bind_result
            (luaZ_read rd (z\<lparr>z_n := z_n z - word_of_nat m, z_p := drop m (z_p z)\<rparr>) (n - m))
            (\<lambda>(b, r, z'). Inr (take m (z_p z) @ b, r, z'))))"
  by pat_completeness auto
termination
  by (relation "measure (\<lambda>(rd, z, n). n)") auto

declare luaZ_read.simps [simp del]

subsection \<open>Growing buffers\<close>

record Mbuffer =
  mb_buffer :: string
  mb_n :: nat
  mb_buffsize :: nat

definition LUA_MINBUFFER :: nat where "LUA_MINBUFFER = 32"

definition luaZ_resizebuffer :: "Mbuffer \<Rightarrow> nat \<Rightarrow> Mbuffer" where
  "luaZ_resizebuffer buff sz = buff\<lparr>mb_buffsize := sz\<rparr>"

definition luaZ_openspace :: "Mbuffer \<Rightarrow> nat \<Rightarrow> Mbuffer" where
  "luaZ_openspace buff n =
     (if mb_buffsize buff < n then luaZ_resizebuffer buff (if n < LUA_MINBUFFER then LUA_MINBUFFER else n)
      else buff)"

lemma luaZ_openspace_room: "n \<le> mb_buffsize (luaZ_openspace buff n)"
  by (simp add: luaZ_openspace_def luaZ_resizebuffer_def)

subsection \<open>The content of a stream\<close>

text \<open>\<open>supplies rd d bs\<close>: called again and again from data \<open>d\<close>, the reader gives the bytes
  \<open>bs\<close> in some number of blocks and then the end of the stream.\<close>

inductive supplies :: "'d lua_Reader \<Rightarrow> 'd \<Rightarrow> lu_byte list \<Rightarrow> bool" for rd where
  supplies_end: "rd d = (buff, d') \<Longrightarrow> buff = None \<or> buff = Some [] \<Longrightarrow> supplies rd d []"
| supplies_block: "rd d = (Some b, d') \<Longrightarrow> b \<noteq> [] \<Longrightarrow> length b < 2 ^ 64 \<Longrightarrow> supplies rd d' bs \<Longrightarrow>
    supplies rd d (b @ bs)"

definition zcontent :: "'d lua_Reader \<Rightarrow> 'd ZIO \<Rightarrow> lu_byte list \<Rightarrow> bool" where
  "zcontent rd z bs \<longleftrightarrow> unat (z_n z) = length (z_p z) \<and> (\<exists>rest. bs = z_p z @ rest \<and> supplies rd (z_data z) rest)"

lemma unat_length: "length b < 2 ^ 64 \<Longrightarrow> unat (word_of_nat (length b) :: 64 word) = length b"
  by (rule unat_of_nat_small) simp

lemma char2int_not_EOZ [simp]: "char2int c \<noteq> EOZ" "EOZ \<noteq> char2int c"
  unfolding char2int_def EOZ_def by linarith+

lemma EOZ_nonzero [simp]: "EOZ \<noteq> 0"
  by (simp add: EOZ_def)

lemma word_char2int [simp]: "word_of_int (char2int c) = c"
  by (simp add: char2int_def)

lemma zcontent_init: "supplies rd d bs \<Longrightarrow> zcontent rd (luaZ_init d) bs"
  by (simp add: zcontent_def luaZ_init_def)

lemma lookahead_content:
  assumes "zcontent rd z bs"
  shows "\<exists>z'. luaZ_lookahead rd z = Inr (if bs = [] then EOZ else char2int (hd bs), z') \<and>
    (bs \<noteq> [] \<longrightarrow> zcontent rd z' bs \<and> z_p z' \<noteq> [])"
proof -
  obtain rest where r: "unat (z_n z) = length (z_p z)" "bs = z_p z @ rest" "supplies rd (z_data z) rest"
    using assms by (auto simp: zcontent_def)
  show ?thesis
  proof (cases "z_p z")
    case (Cons c cs)
    then have "z_n z \<noteq> 0" using r(1) by auto
    with Cons r assms show ?thesis by (simp add: luaZ_lookahead_def)
  next
    case Nil
    then have n0: "z_n z = 0" using r(1) by (simp add: unat_eq_zero)
    from r(3) show ?thesis
    proof cases
      case (supplies_end buff d')
      with n0 r(2) Nil show ?thesis by (auto simp: luaZ_lookahead_def luaZ_fill_def)
    next
      case (supplies_block b d' bs')
      obtain c cs where b: "b = c # cs" using supplies_block(3) by (cases b) auto
      have l: "unat (word_of_nat (length (c # cs)) :: 64 word) = length (c # cs)"
        by (rule unat_length) (use supplies_block(4) b in simp)
      let ?z = "z\<lparr>z_data := d', z_n := word_of_nat (length (c # cs)), z_p := c # cs\<rparr>"
      have "luaZ_lookahead rd z = Inr (char2int c, ?z)"
        using n0 supplies_block(2) b by (simp add: luaZ_lookahead_def luaZ_fill_def)
      moreover have "zcontent rd ?z bs"
        unfolding zcontent_def using l r(2) Nil supplies_block b by simp
      moreover have "bs = c # cs @ bs'" using r(2) Nil supplies_block(1) b by simp
      ultimately show ?thesis by simp
    qed
  qed
qed

lemma unat_diff_of_nat: "m \<le> unat w \<Longrightarrow> unat (w - word_of_nat m) = unat w - m" for w :: "64 word"
proof -
  assume m: "m \<le> unat w"
  then have "unat (word_of_nat m :: 64 word) = m"
    using unat_less_64 [of w] by (intro unat_of_nat_small) simp
  with m show ?thesis by (simp add: unat_sub_if')
qed

lemma luaZ_read_content:
  "zcontent rd z bs \<Longrightarrow>
   (n \<le> length bs \<longrightarrow> (\<exists>z'. luaZ_read rd z n = Inr (take n bs, 0, z') \<and> zcontent rd z' (drop n bs))) \<and>
   (length bs < n \<longrightarrow> (\<exists>z'. luaZ_read rd z n = Inr (bs, n - length bs, z')))"
proof (induction n arbitrary: z bs rule: less_induct)
  case (less n)
  show ?case
  proof (cases "n = 0 \<or> bs = []")
    case True
    with lookahead_content [OF less.prems] less.prems show ?thesis by (auto simp: luaZ_read.simps [of rd z])
  next
    case False
    then obtain z1 where z1: "luaZ_lookahead rd z = Inr (char2int (hd bs), z1)" "zcontent rd z1 bs" "z_p z1 \<noteq> []"
      using lookahead_content [OF less.prems] by auto
    obtain rest where r: "unat (z_n z1) = length (z_p z1)" "bs = z_p z1 @ rest" "supplies rd (z_data z1) rest"
      using z1(2) by (auto simp: zcontent_def)
    define m where "m = (if n \<le> unat (z_n z1) then n else unat (z_n z1))"
    have m: "0 < m" "m \<le> n" "m \<le> length (z_p z1)" using False z1(3) r(1) by (auto simp: m_def)
    let ?z2 = "z1\<lparr>z_n := z_n z1 - word_of_nat m, z_p := drop m (z_p z1)\<rparr>"
    have c2: "zcontent rd ?z2 (drop m bs)"
      using r m unat_diff_of_nat [of m "z_n z1"] by (simp add: zcontent_def)
    have step: "luaZ_read rd z n = bind_result (luaZ_read rd ?z2 (n - m)) (\<lambda>(b, r, z'). Inr (take m (z_p z1) @ b, r, z'))"
      using False z1(1) m by (subst luaZ_read.simps) (simp add: m_def Let_def)
    have tk: "take m (z_p z1) = take m bs" using r(2) m(3) by simp
    show ?thesis
    proof (intro conjI impI)
      assume "n \<le> length bs"
      then obtain z' where "luaZ_read rd ?z2 (n - m) = Inr (take (n - m) (drop m bs), 0, z')" "zcontent rd z' (drop n bs)"
        using less.IH [OF _ c2, of "n - m"] m by auto
      moreover have "take n bs = take m bs @ take (n - m) (drop m bs)" using m(2) take_add [of m "n - m" bs] by simp
      ultimately show "\<exists>z'. luaZ_read rd z n = Inr (take n bs, 0, z') \<and> zcontent rd z' (drop n bs)"
        using step tk by simp
    next
      assume l: "length bs < n"
      have mb: "m \<le> length bs" using m(3) r(2) by simp
      obtain z' where "luaZ_read rd ?z2 (n - m) = Inr (drop m bs, n - m - length (drop m bs), z')"
        using less.IH [OF _ c2, of "n - m"] m l mb by auto
      with step tk l m(2) mb show "\<exists>z'. luaZ_read rd z n = Inr (bs, n - length bs, z')" by auto
    qed
  qed
qed

section \<open>Properties\<close>

text \<open>
  \<open>luaZ_read\<close> does not depend on how the reader cuts the stream into blocks: from a
  stream whose remaining bytes are \<open>bs\<close> it copies the next \<open>n\<close> bytes and reports none missing
  when there are enough, and otherwise copies all that are left and reports exactly the number
  missing. It never reads outside a block and always returns.
\<close>

theorem luaZ_read_correct:
  assumes "supplies rd d bs"
  shows "(n \<le> length bs \<longrightarrow> (\<exists>z'. luaZ_read rd (luaZ_init d) n = Inr (take n bs, 0, z') \<and> zcontent rd z' (drop n bs))) \<and>
    (length bs < n \<longrightarrow> (\<exists>z'. luaZ_read rd (luaZ_init d) n = Inr (bs, n - length bs, z')))"
  using luaZ_read_content [OF zcontent_init [OF assms]] by blast

text \<open>A reader over a list of blocks.\<close>

fun block_reader :: "lu_byte list list lua_Reader" where
  "block_reader [] = (None, [])"
| "block_reader (b # bs) = (Some b, bs)"

lemma block_reader_supplies:
  "\<forall>b \<in> set blocks. b \<noteq> [] \<and> length b < 2 ^ 64 \<Longrightarrow> supplies block_reader blocks (concat blocks)"
  by (induction blocks) (auto intro: supplies.intros)

theorem luaZ_read_correct_witness:
  "supplies block_reader [[1, 2], [3]] [1, 2, 3] \<and>
   (\<exists>z'. luaZ_read block_reader (luaZ_init [[1, 2], [3]]) 3 = Inr ([1, 2, 3], 0, z'))"
proof -
  have s: "supplies block_reader [[1, 2], [3]] [1, 2, 3]"
    using block_reader_supplies [of "[[1, 2], [3]]"] by simp
  from luaZ_read_correct [OF s, of 3] s show ?thesis by auto
qed

end
