(* ===== verification/Ldump.thy ===== *)
theory Ldump
  imports Lproto Lzio
begin

text \<open>
  Precompiled chunks, writing side (ldump.c): the bytes of ints, sizes, numbers and
  instructions in the order of the machine (little endian, 64-bit \<open>size_t\<close>, as the header
  says), and the \<open>Dump\<close> functions over the writer callback of the embedding program.
\<close>

subsection \<open>Byte images of machine words\<close>

definition to_bytes :: "nat \<Rightarrow> 'a::len word \<Rightarrow> lu_byte list" where
  "to_bytes k w = map (\<lambda>i. ucast (drop_bit (8 * i) w)) [0..<k]"

definition from_bytes :: "lu_byte list \<Rightarrow> 'a::len word" where
  "from_bytes bs = foldr (\<lambda>b w. ucast b OR push_bit 8 w) bs 0"

lemma length_to_bytes [simp]: "length (to_bytes k w) = k"
  by (simp add: to_bytes_def)

lemma bit_from_bytes:
  "bit (from_bytes bs :: 'a::len word) n \<longleftrightarrow> n < LENGTH('a) \<and> n div 8 < length bs \<and> bit (bs ! (n div 8)) (n mod 8)"
proof (induction bs arbitrary: n)
  case Nil
  then show ?case by (simp add: from_bytes_def)
next
  case (Cons b bs)
  have "bit (from_bytes (b # bs) :: 'a word) n \<longleftrightarrow> n < LENGTH('a) \<and> (bit b n \<or> 8 \<le> n \<and> bit (from_bytes bs :: 'a word) (n - 8))"
    by (auto simp: from_bytes_def bit_or_iff bit_ucast_iff bit_push_bit_iff)
  also have "\<dots> \<longleftrightarrow> n < LENGTH('a) \<and> n div 8 < length (b # bs) \<and> bit ((b # bs) ! (n div 8)) (n mod 8)"
  proof (cases "n < 8")
    case True
    then show ?thesis by auto
  next
    case False
    then obtain m where m: "n = m + 8" by (metis le_add_diff_inverse2 not_less)
    have "\<not> bit b n" using False bit_imp_le_length [of b n] by auto
    moreover have "n div 8 = Suc (m div 8)" "n mod 8 = m mod 8" using m by simp_all
    ultimately show ?thesis using Cons.IH [of m] m by (simp, linarith)
  qed
  finally show ?case .
qed

lemma from_to_bytes: "LENGTH('a) = 8 * k \<Longrightarrow> from_bytes (to_bytes k w) = (w :: 'a::len word)"
proof (rule bit_word_eqI)
  fix n assume l: "LENGTH('a) = 8 * k" "n < LENGTH('a)"
  then have "n div 8 < k" by linarith
  moreover have "8 * (n div 8) + n mod 8 = n" by simp
  ultimately show "bit (from_bytes (to_bytes k w) :: 'a word) n \<longleftrightarrow> bit w n"
    using l by (auto simp: bit_from_bytes to_bytes_def bit_ucast_iff bit_drop_bit_eq)
qed

definition int_bytes :: "int \<Rightarrow> lu_byte list" where
  "int_bytes x = to_bytes 4 (word_of_int x :: 32 word)"

definition size_bytes :: "nat \<Rightarrow> lu_byte list" where
  "size_bytes n = to_bytes 8 (word_of_nat n :: 64 word)"

definition char_byte :: "char \<Rightarrow> lu_byte" where "char_byte c = word_of_nat (of_char c)"
definition byte_char :: "lu_byte \<Rightarrow> char" where "byte_char b = char_of (unat b)"

lemma byte_char_byte [simp]: "byte_char (char_byte c) = c"
proof -
  have "of_char c < (2::nat) ^ LENGTH(8)" by simp
  then have "unat (word_of_nat (of_char c) :: lu_byte) = of_char c" by (rule unat_of_nat_small)
  then show ?thesis by (simp add: byte_char_def char_byte_def)
qed

subsection \<open>The Dump functions\<close>

type_synonym 'w lua_Writer = "lu_byte list \<Rightarrow> 'w \<Rightarrow> int \<times> 'w"

record 'w DumpState =
  d_data :: 'w
  d_strip :: bool
  d_status :: int

definition DumpBlock :: "'w lua_Writer \<Rightarrow> lu_byte list \<Rightarrow> 'w DumpState \<Rightarrow> 'w DumpState" where
  "DumpBlock wr b D =
     (if d_status D = 0
      then let (st, w) = wr b (d_data D) in D\<lparr>d_status := st, d_data := w\<rparr>
      else D)"

definition DumpChar :: "'w lua_Writer \<Rightarrow> lu_byte \<Rightarrow> 'w DumpState \<Rightarrow> 'w DumpState" where
  "DumpChar wr y D = DumpBlock wr [y] D"

definition DumpInt :: "'w lua_Writer \<Rightarrow> int \<Rightarrow> 'w DumpState \<Rightarrow> 'w DumpState" where
  "DumpInt wr x D = DumpBlock wr (int_bytes x) D"

definition DumpNumber :: "'w lua_Writer \<Rightarrow> lua_Number \<Rightarrow> 'w DumpState \<Rightarrow> 'w DumpState" where
  "DumpNumber wr x D = DumpBlock wr (to_bytes 8 x) D"

text \<open>\<open>elems\<close> are the byte images of the vector's elements.\<close>

definition DumpVector :: "'w lua_Writer \<Rightarrow> lu_byte list list \<Rightarrow> 'w DumpState \<Rightarrow> 'w DumpState" where
  "DumpVector wr elems D = DumpBlock wr (concat elems) (DumpInt wr (int (length elems)) D)"

definition DumpString :: "'w lua_Writer \<Rightarrow> TString option \<Rightarrow> 'w DumpState \<Rightarrow> 'w DumpState" where
  "DumpString wr s D =
     (case s of
        None \<Rightarrow> DumpBlock wr (size_bytes 0) D
      | Some str \<Rightarrow>
          (let size = length str + 1 in
           DumpBlock wr (map char_byte str @ [0]) (DumpBlock wr (size_bytes size) D)))"

definition DumpCode :: "'w lua_Writer \<Rightarrow> Instruction list \<Rightarrow> 'w DumpState \<Rightarrow> 'w DumpState" where
  "DumpCode wr code D = DumpVector wr (map (to_bytes 4) code) D"

fun k_ttype :: "konst \<Rightarrow> nat" where
  "k_ttype (KVal v) = ttype v"
| "k_ttype KNullStr = ttype (TStr [])"

text \<open>The body of the first loop of \<open>DumpConstants\<close>.\<close>

definition DumpConstant :: "'w lua_Writer \<Rightarrow> konst \<Rightarrow> 'w DumpState \<Rightarrow> 'w DumpState" where
  "DumpConstant wr k D =
     (let D = DumpChar wr (word_of_nat (k_ttype k)) D in
      case k of
        KVal (TBoolean b) \<Rightarrow> DumpChar wr (of_bool b) D
      | KVal (TNumber n) \<Rightarrow> DumpNumber wr n D
      | KVal (TStr s) \<Rightarrow> DumpString wr (Some s) D
      | KNullStr \<Rightarrow> DumpString wr None D
      | _ \<Rightarrow> D)"

definition DumpConstants_k :: "'w lua_Writer \<Rightarrow> konst list \<Rightarrow> 'w DumpState \<Rightarrow> 'w DumpState" where
  "DumpConstants_k wr ks D = fold (DumpConstant wr) ks (DumpInt wr (int (length ks)) D)"

definition DumpLocVar :: "'w lua_Writer \<Rightarrow> LocVar \<Rightarrow> 'w DumpState \<Rightarrow> 'w DumpState" where
  "DumpLocVar wr v D = DumpInt wr (endpc v) (DumpInt wr (startpc v) (DumpString wr (varname v) D))"

definition DumpDebug ::
  "'w lua_Writer \<Rightarrow> int list \<Rightarrow> LocVar list \<Rightarrow> TString option list \<Rightarrow> 'w DumpState \<Rightarrow> 'w DumpState" where
  "DumpDebug wr lineinfo locvars upvalues D =
     (let li = (if d_strip D then [] else lineinfo);
          D = DumpVector wr (map int_bytes li) D;
          lv = (if d_strip D then [] else locvars);
          D = DumpInt wr (int (length lv)) D;
          D = fold (DumpLocVar wr) lv D;
          uv = (if d_strip D then [] else upvalues);
          D = DumpInt wr (int (length uv)) D
      in fold (DumpString wr) uv D)"

text \<open>
  \<open>DumpFunction\<close>, with the second loop of \<open>DumpConstants\<close> (the enclosed functions) in
  place. Strings are interned, so the pointer test \<open>f->source == p\<close> compares contents.
\<close>

fun DumpFunction :: "'w lua_Writer \<Rightarrow> Proto \<Rightarrow> TString option \<Rightarrow> 'w DumpState \<Rightarrow> 'w DumpState" where
  "DumpFunction wr (Proto k code ps lineinfo locvars upvalues src linedefined lastlinedefined
       nups numparams is_vararg maxstacksize) p D =
     (let D = DumpString wr (if src = p \<or> d_strip D then None else src) D;
          D = DumpInt wr linedefined D;
          D = DumpInt wr lastlinedefined D;
          D = DumpChar wr nups D;
          D = DumpChar wr numparams D;
          D = DumpChar wr is_vararg D;
          D = DumpChar wr maxstacksize D;
          D = DumpCode wr code D;
          D = DumpConstants_k wr k D;
          D = DumpInt wr (int (length ps)) D;
          D = fold (\<lambda>f. DumpFunction wr f src) ps D
      in DumpDebug wr lineinfo locvars upvalues D)"

definition LUAC_HEADERSIZE :: nat where "LUAC_HEADERSIZE = 12"

text \<open>\<open>luaU_header\<close> of lundump.c: signature, version, format, endianness, sizes, float flag.\<close>

definition luaU_header :: "lu_byte list" where
  "luaU_header = map char_byte (CHR 0x1B # ''Lua'') @ [0x51, 0, 1, 4, 8, 4, 8, 0]"

definition DumpHeader :: "'w lua_Writer \<Rightarrow> 'w DumpState \<Rightarrow> 'w DumpState" where
  "DumpHeader wr D = DumpBlock wr luaU_header D"

definition luaU_dump :: "'w lua_Writer \<Rightarrow> Proto \<Rightarrow> 'w \<Rightarrow> bool \<Rightarrow> int \<times> 'w" where
  "luaU_dump wr f data strip =
     (let D = \<lparr>d_data = data, d_strip = strip, d_status = 0\<rparr>;
          D = DumpHeader wr D;
          D = DumpFunction wr f None D
      in (d_status D, d_data D))"

end
