(* ===== verification/Lundump.thy ===== *)
theory Lundump
  imports Ldump Ldebug
begin

text \<open>
  Precompiled chunks, reading side (lundump.c). Every \<open>Load\<close> function takes the reader, the
  chunk name for error messages and the stream, and gives the value and the stream, or the
  error it throws. \<open>LoadFunction\<close> counts nested functions against \<open>LUAI_MAXCCALLS\<close>; its
  first argument is what is left of that limit.
\<close>


definition load_error :: "string \<Rightarrow> string \<Rightarrow> 'a result" where
  "load_error name why = Inl (SyntaxError (name @ '': '' @ why @ '' in precompiled chunk''))"

type_synonym ('d, 'a) loader = "'d ZIO \<Rightarrow> ('a \<times> 'd ZIO) result"

definition LoadBlock :: "'d lua_Reader \<Rightarrow> string \<Rightarrow> nat \<Rightarrow> ('d, lu_byte list) loader" where
  "LoadBlock rd name sz z =
     bind_result (luaZ_read rd z sz) (\<lambda>(b, r, z).
       if r \<noteq> 0 then load_error name ''unexpected end'' else Inr (b, z))"

definition LoadChar :: "'d lua_Reader \<Rightarrow> string \<Rightarrow> ('d, lu_byte) loader" where
  "LoadChar rd name z = bind_result (LoadBlock rd name 1 z) (\<lambda>(b, z). Inr (hd b, z))"

definition LoadInt :: "'d lua_Reader \<Rightarrow> string \<Rightarrow> ('d, int) loader" where
  "LoadInt rd name z =
     bind_result (LoadBlock rd name 4 z) (\<lambda>(b, z).
       let x = sint (from_bytes b :: 32 word) in
       if x < 0 then load_error name ''bad integer'' else Inr (x, z))"

definition LoadNumber :: "'d lua_Reader \<Rightarrow> string \<Rightarrow> ('d, lua_Number) loader" where
  "LoadNumber rd name z = bind_result (LoadBlock rd name 8 z) (\<lambda>(b, z). Inr (from_bytes b, z))"

definition LoadString :: "'d lua_Reader \<Rightarrow> string \<Rightarrow> ('d, TString option) loader" where
  "LoadString rd name z =
     bind_result (LoadBlock rd name 8 z) (\<lambda>(b, z).
       let size = unat (from_bytes b :: 64 word) in
       if size = 0 then Inr (None, z)
       else bind_result (LoadBlock rd name size z) (\<lambda>(b, z).
         Inr (Some (map byte_char (take (size - 1) b)), z)))"

text \<open>The elements of a vector read in one block.\<close>

definition vector_of :: "nat \<Rightarrow> nat \<Rightarrow> (lu_byte list \<Rightarrow> 'a) \<Rightarrow> lu_byte list \<Rightarrow> 'a list" where
  "vector_of n sz dec b = map (\<lambda>i. dec (take sz (drop (i * sz) b))) [0..<n]"

definition LoadVector :: "'d lua_Reader \<Rightarrow> string \<Rightarrow> (lu_byte list \<Rightarrow> 'a) \<Rightarrow> nat \<Rightarrow> nat \<Rightarrow> ('d, 'a list) loader" where
  "LoadVector rd name dec n sz z =
     bind_result (LoadBlock rd name (n * sz) z) (\<lambda>(b, z). Inr (vector_of n sz dec b, z))"

definition LoadCode :: "'d lua_Reader \<Rightarrow> string \<Rightarrow> ('d, Instruction list) loader" where
  "LoadCode rd name z =
     bind_result (LoadInt rd name z) (\<lambda>(n, z). LoadVector rd name from_bytes (nat n) 4 z)"

text \<open>A loop that loads \<open>n\<close> elements.\<close>

primrec load_n :: "nat \<Rightarrow> ('z \<Rightarrow> ('a \<times> 'z) result) \<Rightarrow> 'z \<Rightarrow> ('a list \<times> 'z) result" where
  "load_n 0 load z = Inr ([], z)"
| "load_n (Suc n) load z =
     bind_result (load z) (\<lambda>(x, z). bind_result (load_n n load z) (\<lambda>(xs, z). Inr (x # xs, z)))"

definition LoadConstant :: "'d lua_Reader \<Rightarrow> string \<Rightarrow> ('d, konst) loader" where
  "LoadConstant rd name z =
     bind_result (LoadChar rd name z) (\<lambda>(t, z).
       if t = 0 then Inr (KVal TNil, z)
       else if t = 1 then bind_result (LoadChar rd name z) (\<lambda>(b, z). Inr (KVal (TBoolean (b \<noteq> 0)), z))
       else if t = 3 then bind_result (LoadNumber rd name z) (\<lambda>(n, z). Inr (KVal (TNumber n), z))
       else if t = 4 then bind_result (LoadString rd name z) (\<lambda>(s, z).
         Inr (case s of None \<Rightarrow> KNullStr | Some str \<Rightarrow> KVal (TStr str), z))
       else load_error name ''bad constant'')"

definition LoadLocVar :: "'d lua_Reader \<Rightarrow> string \<Rightarrow> ('d, LocVar) loader" where
  "LoadLocVar rd name z =
     bind_result (LoadString rd name z) (\<lambda>(v, z).
     bind_result (LoadInt rd name z) (\<lambda>(s, z).
     bind_result (LoadInt rd name z) (\<lambda>(e, z). Inr (\<lparr>varname = v, startpc = s, endpc = e\<rparr>, z))))"

definition int_of_bytes :: "lu_byte list \<Rightarrow> int" where
  "int_of_bytes b = sint (from_bytes b :: 32 word)"

definition LoadDebug ::
  "'d lua_Reader \<Rightarrow> string \<Rightarrow> ('d, int list \<times> LocVar list \<times> TString option list) loader" where
  "LoadDebug rd name z =
     bind_result (LoadInt rd name z) (\<lambda>(n, z).
     bind_result (LoadVector rd name int_of_bytes (nat n) 4 z) (\<lambda>(li, z).
     bind_result (LoadInt rd name z) (\<lambda>(n, z).
     bind_result (load_n (nat n) (LoadLocVar rd name) z) (\<lambda>(lv, z).
     bind_result (LoadInt rd name z) (\<lambda>(n, z).
     bind_result (load_n (nat n) (LoadString rd name) z) (\<lambda>(uv, z). Inr ((li, lv, uv), z)))))))"

text \<open>\<open>LoadConstants\<close> over the function that loads an enclosed function.\<close>

definition LoadConstants ::
  "('d, Proto) loader \<Rightarrow> 'd lua_Reader \<Rightarrow> string \<Rightarrow> ('d, konst list \<times> Proto list) loader" where
  "LoadConstants load_function rd name z =
     bind_result (LoadInt rd name z) (\<lambda>(n, z).
     bind_result (load_n (nat n) (LoadConstant rd name) z) (\<lambda>(ks, z).
     bind_result (LoadInt rd name z) (\<lambda>(n, z).
     bind_result (load_n (nat n) load_function z) (\<lambda>(ps, z). Inr ((ks, ps), z)))))"

primrec LoadFunction :: "nat \<Rightarrow> TString option \<Rightarrow> 'd lua_Reader \<Rightarrow> string \<Rightarrow> ('d, Proto) loader" where
  "LoadFunction 0 p rd name z = load_error name ''code too deep''"
| "LoadFunction (Suc depth) p rd name z =
     bind_result (LoadString rd name z) (\<lambda>(src, z).
     let src = (case src of None \<Rightarrow> p | Some s \<Rightarrow> Some s) in
     bind_result (LoadInt rd name z) (\<lambda>(linedefined, z).
     bind_result (LoadInt rd name z) (\<lambda>(lastlinedefined, z).
     bind_result (LoadChar rd name z) (\<lambda>(nups, z).
     bind_result (LoadChar rd name z) (\<lambda>(numparams, z).
     bind_result (LoadChar rd name z) (\<lambda>(is_vararg, z).
     bind_result (LoadChar rd name z) (\<lambda>(maxstacksize, z).
     bind_result (LoadCode rd name z) (\<lambda>(code, z).
     bind_result (LoadConstants (LoadFunction depth src rd name) rd name z) (\<lambda>((ks, ps), z).
     bind_result (LoadDebug rd name z) (\<lambda>((li, lv, uv), z).
     let f = Proto ks code ps li lv uv src linedefined lastlinedefined nups numparams is_vararg maxstacksize in
     bind_result (luaG_checkcode f) (\<lambda>good.
       if good then Inr (f, z) else load_error name ''bad code'')))))))))))"

definition LoadHeader :: "'d lua_Reader \<Rightarrow> string \<Rightarrow> ('d, unit) loader" where
  "LoadHeader rd name z =
     bind_result (LoadBlock rd name LUAC_HEADERSIZE z) (\<lambda>(s, z).
       if s \<noteq> luaU_header then load_error name ''bad header'' else Inr ((), z))"

text \<open>The name for messages; \<open>nCcalls\<close> is the depth of C calls on entry.\<close>

definition undump_name :: "string \<Rightarrow> string" where
  "undump_name name =
     (case name of [] \<Rightarrow> name
      | c # cs \<Rightarrow> if c = CHR ''@'' \<or> c = CHR ''='' then cs
                  else if c = CHR 0x1B then ''binary string'' else name)"

definition luaU_undump :: "nat \<Rightarrow> 'd lua_Reader \<Rightarrow> string \<Rightarrow> ('d, Proto) loader" where
  "luaU_undump nCcalls rd name z =
     bind_result (LoadHeader rd (undump_name name) z) (\<lambda>(_, z).
       LoadFunction (LUAI_MAXCCALLS - nCcalls) (Some ''=?'') rd (undump_name name) z)"

end
