(* ===== verification/Lchunk.thy ===== *)
theory Lchunk
  imports Lundump Ldebug_check
begin

text \<open>
  Precompiled chunks as a whole (ldump.c with lundump.c): the blocks the dumper writes, the
  contract between each \<open>Dump\<close> function and its \<open>Load\<close> function (locale \<open>codec\<close>, interpreted on
  every pair), the round trip, and the safety of the loader on arbitrary input.
\<close>

subsection \<open>The blocks of a chunk\<close>

text \<open>The sequence of blocks that each \<open>Dump\<close> function hands to the writer.\<close>

definition string_blocks :: "TString option \<Rightarrow> lu_byte list list" where
  "string_blocks s = (case s of None \<Rightarrow> [size_bytes 0]
     | Some str \<Rightarrow> [size_bytes (length str + 1), map char_byte str @ [0]])"

definition vector_blocks :: "lu_byte list list \<Rightarrow> lu_byte list list" where
  "vector_blocks elems = [int_bytes (int (length elems)), concat elems]"

fun constant_blocks :: "konst \<Rightarrow> lu_byte list list" where
  "constant_blocks (KVal (TBoolean b)) = [[1], [of_bool b]]"
| "constant_blocks (KVal (TNumber n)) = [[3], to_bytes 8 n]"
| "constant_blocks (KVal (TStr s)) = [4] # string_blocks (Some s)"
| "constant_blocks KNullStr = [4] # string_blocks None"
| "constant_blocks (KVal v) = [[word_of_nat (ttype v)]]"

definition locvar_blocks :: "LocVar \<Rightarrow> lu_byte list list" where
  "locvar_blocks v = string_blocks (varname v) @ [int_bytes (startpc v), int_bytes (endpc v)]"

definition list_blocks :: "('a \<Rightarrow> lu_byte list list) \<Rightarrow> 'a list \<Rightarrow> lu_byte list list" where
  "list_blocks f xs = int_bytes (int (length xs)) # concat (map f xs)"

definition debug_blocks :: "bool \<Rightarrow> int list \<Rightarrow> LocVar list \<Rightarrow> TString option list \<Rightarrow> lu_byte list list" where
  "debug_blocks strip li lv uv =
     vector_blocks (map int_bytes (if strip then [] else li)) @
     list_blocks locvar_blocks (if strip then [] else lv) @
     list_blocks string_blocks (if strip then [] else uv)"

fun function_blocks :: "bool \<Rightarrow> TString option \<Rightarrow> Proto \<Rightarrow> lu_byte list list" where
  "function_blocks strip p (Proto k code ps li lv uv src linedefined lastlinedefined nups numparams is_vararg maxstacksize) =
     string_blocks (if src = p \<or> strip then None else src) @
     [int_bytes linedefined, int_bytes lastlinedefined, [nups], [numparams], [is_vararg], [maxstacksize]] @
     vector_blocks (map (to_bytes 4) code) @
     list_blocks constant_blocks k @
     int_bytes (int (length ps)) # concat (map (function_blocks strip src) ps) @
     debug_blocks strip li lv uv"

lemma DumpBlock_strip [simp]: "d_strip (fold (DumpBlock wr) bs D) = d_strip D" "d_strip (DumpBlock wr b D) = d_strip D"
proof -
  show 1: "d_strip (DumpBlock wr b D) = d_strip D" for b D by (simp add: DumpBlock_def split: prod.splits)
  show "d_strip (fold (DumpBlock wr) bs D) = d_strip D" by (induction bs arbitrary: D) (simp_all add: 1)
qed

lemma fold_concat_map:
  "(\<And>x D. x \<in> set xs \<Longrightarrow> d_strip D = st \<Longrightarrow> f x D = fold (DumpBlock wr) (g x) D) \<Longrightarrow> d_strip D = st \<Longrightarrow>
   fold f xs D = fold (DumpBlock wr) (concat (map g xs)) D"
  by (induction xs arbitrary: D) simp_all

lemma DumpString_blocks: "DumpString wr s D = fold (DumpBlock wr) (string_blocks s) D"
  by (simp add: DumpString_def string_blocks_def Let_def split: option.splits)

lemma DumpVector_blocks: "DumpVector wr elems D = fold (DumpBlock wr) (vector_blocks elems) D"
  by (simp add: DumpVector_def vector_blocks_def DumpInt_def)

lemma DumpConstant_blocks: "DumpConstant wr k D = fold (DumpBlock wr) (constant_blocks k) D"
  by (cases k rule: constant_blocks.cases)
    (simp_all add: DumpConstant_def DumpChar_def DumpNumber_def DumpString_blocks Let_def)

lemma DumpLocVar_blocks: "DumpLocVar wr v D = fold (DumpBlock wr) (locvar_blocks v) D"
  by (simp add: DumpLocVar_def locvar_blocks_def DumpInt_def DumpString_blocks)

lemma DumpDebug_blocks: "DumpDebug wr li lv uv D = fold (DumpBlock wr) (debug_blocks (d_strip D) li lv uv) D"
proof -
  have lv: "fold (DumpLocVar wr) vs D = fold (DumpBlock wr) (concat (map locvar_blocks vs)) D" for vs D
    by (rule fold_concat_map) (simp_all add: DumpLocVar_blocks)
  have uv: "fold (DumpString wr) us D = fold (DumpBlock wr) (concat (map string_blocks us)) D" for us D
    by (rule fold_concat_map) (simp_all add: DumpString_blocks)
  show ?thesis
    by (simp add: DumpDebug_def debug_blocks_def Let_def DumpVector_blocks DumpInt_def list_blocks_def lv uv)
qed

lemma DumpConstants_k_blocks: "DumpConstants_k wr ks D = fold (DumpBlock wr) (list_blocks constant_blocks ks) D"
proof -
  have "fold (DumpConstant wr) ks D = fold (DumpBlock wr) (concat (map constant_blocks ks)) D" for D
    by (rule fold_concat_map) (simp_all add: DumpConstant_blocks)
  then show ?thesis by (simp add: DumpConstants_k_def list_blocks_def DumpInt_def)
qed

lemma DumpFunction_blocks:
  "DumpFunction wr f p D = fold (DumpBlock wr) (function_blocks (d_strip D) p f) D"
proof (induction f arbitrary: p D)
  case (Proto k code ps li lv uv src linedefined lastlinedefined nups numparams is_vararg maxstacksize)
  have "fold (\<lambda>f. DumpFunction wr f src) ps D = fold (DumpBlock wr) (concat (map (function_blocks st src) ps)) D"
    if "d_strip D = st" for D st
    by (rule fold_concat_map [OF _ that]) (simp add: Proto.IH)
  then show ?case
    by (simp add: Let_def DumpString_blocks DumpInt_def DumpChar_def DumpCode_def DumpVector_blocks
        DumpConstants_k_blocks DumpDebug_blocks)
qed

text \<open>Writing blocks until the writer reports an error.\<close>

fun write_all :: "'w lua_Writer \<Rightarrow> lu_byte list list \<Rightarrow> 'w \<Rightarrow> int \<times> 'w" where
  "write_all wr [] w = (0, w)"
| "write_all wr (b # bs) w = (let (st, w) = wr b w in if st = 0 then write_all wr bs w else (st, w))"

lemma fold_DumpBlock_stopped: "d_status D \<noteq> 0 \<Longrightarrow> fold (DumpBlock wr) bs D = D"
  by (induction bs) (simp_all add: DumpBlock_def)

lemma fold_DumpBlock_write:
  "d_status D = 0 \<Longrightarrow> (let D' = fold (DumpBlock wr) bs D in (d_status D', d_data D')) = write_all wr bs (d_data D)"
proof (induction bs arbitrary: D)
  case (Cons b bs)
  obtain st w where w: "wr b (d_data D) = (st, w)" by (cases "wr b (d_data D)")
  let ?D = "D\<lparr>d_status := st, d_data := w\<rparr>"
  have "DumpBlock wr b D = ?D" using Cons.prems w by (simp add: DumpBlock_def)
  then show ?case using Cons.IH [of ?D] fold_DumpBlock_stopped [of ?D wr bs] w by (auto simp: Let_def)
qed (simp add: Let_def)

definition chunk_blocks :: "bool \<Rightarrow> Proto \<Rightarrow> lu_byte list list" where
  "chunk_blocks strip f = luaU_header # function_blocks strip None f"

lemma luaU_dump_blocks: "luaU_dump wr f data strip = write_all wr (chunk_blocks strip f) data"
proof -
  let ?D = "\<lparr>d_data = data, d_strip = strip, d_status = 0\<rparr>"
  have "luaU_dump wr f data strip = (let D' = fold (DumpBlock wr) (chunk_blocks strip f) ?D in (d_status D', d_data D'))"
    by (simp add: luaU_dump_def DumpHeader_def DumpFunction_blocks chunk_blocks_def Let_def)
  also have "\<dots> = write_all wr (chunk_blocks strip f) data" using fold_DumpBlock_write [of ?D wr] by simp
  finally show ?thesis .
qed

subsection \<open>Encoders and loaders\<close>

text \<open>
  The contract between a \<open>Dump\<close> function and the \<open>Load\<close> function that reads its bytes back:
  from a stream that starts with the encoding of \<open>x\<close> the loader gives \<open>img x\<close> and leaves
  the rest of the stream. Loops over elements follow.
\<close>

locale codec =
  fixes content :: "'z \<Rightarrow> lu_byte list \<Rightarrow> bool"
    and ok :: "'a \<Rightarrow> bool"
    and enc :: "'a \<Rightarrow> lu_byte list"
    and img :: "'a \<Rightarrow> 'b"
    and load :: "'z \<Rightarrow> ('b \<times> 'z) result"
  assumes load_enc: "ok x \<Longrightarrow> content z (enc x @ rest) \<Longrightarrow> \<exists>z'. load z = Inr (img x, z') \<and> content z' rest"
begin

lemma load_list:
  "\<forall>x \<in> set xs. ok x \<Longrightarrow> content z (concat (map enc xs) @ rest) \<Longrightarrow>
   \<exists>z'. load_n (length xs) load z = Inr (map img xs, z') \<and> content z' rest"
proof (induction xs arbitrary: z)
  case (Cons x xs)
  obtain z1 where z1: "load z = Inr (img x, z1)" "content z1 (concat (map enc xs) @ rest)"
    using load_enc [of x z "concat (map enc xs) @ rest"] Cons.prems by auto
  with Cons.IH [OF _ z1(2)] Cons.prems(1) show ?case by auto
qed simp

end

lemma LoadBlock_content:
  assumes "zcontent rd z (b @ rest)" "length b = n"
  shows "\<exists>z'. LoadBlock rd name n z = Inr (b, z') \<and> zcontent rd z' rest"
  using luaZ_read_content [OF assms(1), of n] assms(2) by (auto simp: LoadBlock_def)

definition int_ok :: "int \<Rightarrow> bool" where "int_ok x \<longleftrightarrow> 0 \<le> x \<and> x < 2 ^ 31"

lemma int_of_int_bytes: "- (2 ^ 31) \<le> x \<Longrightarrow> x < 2 ^ 31 \<Longrightarrow> int_of_bytes (int_bytes x) = x"
proof -
  assume x: "- (2 ^ 31) \<le> x" "x < 2 ^ 31"
  have "int_of_bytes (int_bytes x) = sint (word_of_int x :: 32 word)"
    unfolding int_of_bytes_def int_bytes_def by (subst from_to_bytes) simp_all
  also have "\<dots> = x" using x by (simp add: signed_of_int signed_take_bit_int_eq_self)
  finally show ?thesis .
qed

lemma length_int_bytes [simp]: "length (int_bytes x) = 4" "length (size_bytes n) = 8"
  by (simp_all add: int_bytes_def size_bytes_def)

interpretation char_codec: codec "zcontent rd" "\<lambda>_. True" "\<lambda>b. [b]" id "LoadChar rd name"
  for rd :: "'d lua_Reader" and name
proof
  fix x z rest assume "zcontent rd z ([x] @ rest)"
  from LoadBlock_content [OF this, of 1 name] show "\<exists>z'. LoadChar rd name z = Inr (id x, z') \<and> zcontent rd z' rest"
    by (auto simp: LoadChar_def)
qed

interpretation int_codec: codec "zcontent rd" int_ok int_bytes id "LoadInt rd name"
  for rd :: "'d lua_Reader" and name
proof
  fix x z rest assume x: "int_ok x" and z: "zcontent rd z (int_bytes x @ rest)"
  have "sint (from_bytes (int_bytes x) :: 32 word) = x"
    using int_of_int_bytes [of x] x by (simp add: int_of_bytes_def int_ok_def)
  with x LoadBlock_content [OF z, of 4 name] show "\<exists>z'. LoadInt rd name z = Inr (id x, z') \<and> zcontent rd z' rest"
    by (auto simp: LoadInt_def int_ok_def Let_def)
qed

interpretation number_codec: codec "zcontent rd" "\<lambda>_. True" "to_bytes 8" id "LoadNumber rd name"
  for rd :: "'d lua_Reader" and name
proof
  fix x :: lua_Number and z rest assume z: "zcontent rd z (to_bytes 8 x @ rest)"
  have "from_bytes (to_bytes 8 x) = x" by (rule from_to_bytes) simp
  with LoadBlock_content [OF z, of 8 name] show "\<exists>z'. LoadNumber rd name z = Inr (id x, z') \<and> zcontent rd z' rest"
    by (auto simp: LoadNumber_def)
qed

definition string_ok :: "TString option \<Rightarrow> bool" where
  "string_ok s \<longleftrightarrow> (\<forall>str. s = Some str \<longrightarrow> length str + 1 < 2 ^ 64)"

lemma size_of_bytes: "n < 2 ^ 64 \<Longrightarrow> unat (from_bytes (size_bytes n) :: 64 word) = n"
  unfolding size_bytes_def by (subst from_to_bytes) (simp_all add: unat_of_nat_small)

interpretation string_codec: codec "zcontent rd" string_ok "\<lambda>s. concat (string_blocks s)" id "LoadString rd name"
  for rd :: "'d lua_Reader" and name
proof
  fix x z rest assume x: "string_ok x" and z: "zcontent rd z (concat (string_blocks x) @ rest)"
  show "\<exists>z'. LoadString rd name z = Inr (id x, z') \<and> zcontent rd z' rest"
  proof (cases x)
    case None
    with z have "zcontent rd z (size_bytes 0 @ rest)" by (simp add: string_blocks_def)
    from LoadBlock_content [OF this, of 8 name] None size_of_bytes [of 0] show ?thesis
      by (auto simp: LoadString_def Let_def)
  next
    case (Some str)
    let ?b = "map char_byte str @ [0]"
    have sz: "unat (from_bytes (size_bytes (length str + 1)) :: 64 word) = length str + 1"
      using x Some by (intro size_of_bytes) (simp add: string_ok_def)
    from z Some have "zcontent rd z (size_bytes (length str + 1) @ ?b @ rest)" by (simp add: string_blocks_def)
    from LoadBlock_content [OF this, of 8 name] obtain z1 where
      z1: "LoadBlock rd name 8 z = Inr (size_bytes (length str + 1), z1)" "zcontent rd z1 (?b @ rest)" by auto
    from LoadBlock_content [OF z1(2), of "length str + 1" name] z1(1) Some sz show ?thesis
      by (auto simp: LoadString_def Let_def comp_def)
  qed
qed

fun constant_ok :: "konst \<Rightarrow> bool" where
  "constant_ok (KVal TNil) = True"
| "constant_ok (KVal (TBoolean b)) = True"
| "constant_ok (KVal (TNumber n)) = True"
| "constant_ok (KVal (TStr s)) = (length s + 1 < 2 ^ 64)"
| "constant_ok KNullStr = True"
| "constant_ok (KVal v) = False"

interpretation constant_codec: codec "zcontent rd" constant_ok "\<lambda>k. concat (constant_blocks k)" id "LoadConstant rd name"
  for rd :: "'d lua_Reader" and name
proof
  fix k z rest assume k: "constant_ok k" and z: "zcontent rd z (concat (constant_blocks k) @ rest)"
  obtain t b where tb: "concat (constant_blocks k) = t # b" "t = word_of_nat (k_ttype k)"
    by (cases k rule: constant_blocks.cases) auto
  from z tb(1) have "zcontent rd z ([t] @ b @ rest)" by simp
  from char_codec.load_enc [OF _ this, of name] obtain z1 where
    z1: "LoadChar rd name z = Inr (t, z1)" "zcontent rd z1 (b @ rest)" by auto
  from k show "\<exists>z'. LoadConstant rd name z = Inr (id k, z') \<and> zcontent rd z' rest"
  proof (cases k rule: constant_ok.cases)
    case (2 c)
    with z1 tb have "zcontent rd z1 ([of_bool c] @ rest)" by simp
    from char_codec.load_enc [OF _ this, of name] 2 z1(1) tb(2) show ?thesis by (auto simp: LoadConstant_def)
  next
    case (3 n)
    with z1 tb have "zcontent rd z1 (to_bytes 8 n @ rest)" by simp
    from number_codec.load_enc [OF _ this, of name] 3 z1(1) tb(2) show ?thesis by (auto simp: LoadConstant_def)
  next
    case (4 s)
    with z1 tb have "zcontent rd z1 (concat (string_blocks (Some s)) @ rest)" by simp
    from string_codec.load_enc [OF _ this, of name] 4 k z1(1) tb(2) show ?thesis
      by (auto simp: LoadConstant_def string_ok_def)
  next
    case 5
    with z1 tb have "zcontent rd z1 (concat (string_blocks None) @ rest)" by simp
    from string_codec.load_enc [OF _ this, of name] 5 z1(1) tb(2) show ?thesis
      by (auto simp: LoadConstant_def string_ok_def)
  qed (use z1 tb in \<open>auto simp: LoadConstant_def\<close>)
qed

definition locvar_ok :: "LocVar \<Rightarrow> bool" where
  "locvar_ok v \<longleftrightarrow> string_ok (varname v) \<and> int_ok (startpc v) \<and> int_ok (endpc v)"

interpretation locvar_codec: codec "zcontent rd" locvar_ok "\<lambda>v. concat (locvar_blocks v)" id "LoadLocVar rd name"
  for rd :: "'d lua_Reader" and name
proof
  fix v z rest assume v: "locvar_ok v" and z: "zcontent rd z (concat (locvar_blocks v) @ rest)"
  from v have ok: "string_ok (varname v)" "int_ok (startpc v)" "int_ok (endpc v)" by (simp_all add: locvar_ok_def)
  from z have "zcontent rd z (concat (string_blocks (varname v)) @ int_bytes (startpc v) @ int_bytes (endpc v) @ rest)"
    by (simp add: locvar_blocks_def)
  from string_codec.load_enc [OF ok(1) this, of name] obtain z1 where
    z1: "LoadString rd name z = Inr (varname v, z1)" "zcontent rd z1 (int_bytes (startpc v) @ int_bytes (endpc v) @ rest)" by auto
  from int_codec.load_enc [OF ok(2) z1(2), of name] obtain z2 where
    z2: "LoadInt rd name z1 = Inr (startpc v, z2)" "zcontent rd z2 (int_bytes (endpc v) @ rest)" by auto
  from int_codec.load_enc [OF ok(3) z2(2), of name] z1(1) z2(1)
  show "\<exists>z'. LoadLocVar rd name z = Inr (id v, z') \<and> zcontent rd z' rest"
    by (auto simp: LoadLocVar_def)
qed

lemma concat_concat_map: "concat (concat (map f xs)) = concat (map (\<lambda>x. concat (f x)) xs)"
  by (induction xs) simp_all

subsection \<open>Vectors and counted lists\<close>

lemma vector_of_map:
  assumes "\<And>x. x \<in> set xs \<Longrightarrow> length (enc x) = sz \<and> dec (enc x) = x"
  shows "vector_of (length xs) sz dec (concat (map enc xs)) = xs"
  using assms
proof (induction xs)
  case (Cons x xs)
  have u: "[0..<length (x # xs)] = 0 # map Suc [0..<length xs]" by (simp add: upt_conv_Cons map_Suc_upt del: upt_Suc)
  have "vector_of (length (x # xs)) sz dec (concat (map enc (x # xs)))
    = dec (enc x) # vector_of (length xs) sz dec (concat (map enc xs))"
    unfolding vector_of_def u using Cons.prems by (simp add: comp_def)
  with Cons show ?case by simp
qed (simp add: vector_of_def)

lemma LoadVector_content:
  assumes "zcontent rd z (concat (map enc xs) @ rest)" "\<And>x. x \<in> set xs \<Longrightarrow> length (enc x) = sz \<and> dec (enc x) = x"
  shows "\<exists>z'. LoadVector rd name dec (length xs) sz z = Inr (xs, z') \<and> zcontent rd z' rest"
proof -
  have "length (concat (map enc xs)) = length xs * sz" using assms(2) by (induction xs) auto
  from LoadBlock_content [OF assms(1) this, of name] vector_of_map [of xs enc sz dec] assms(2) show ?thesis
    by (auto simp: LoadVector_def)
qed

lemma LoadInt_length:
  assumes "zcontent rd z (int_bytes (int n) @ rest)" "n < 2 ^ 31"
  shows "\<exists>z'. LoadInt rd name z = Inr (int n, z') \<and> zcontent rd z' rest"
  using int_codec.load_enc [OF _ assms(1), of name] assms(2) by (auto simp: int_ok_def)

lemma LoadCode_content:
  assumes "zcontent rd z (concat (vector_blocks (map (to_bytes 4) code)) @ rest)" "length code < 2 ^ 31"
  shows "\<exists>z'. LoadCode rd name z = Inr (code, z') \<and> zcontent rd z' rest"
proof -
  from assms(1) have "zcontent rd z (int_bytes (int (length code)) @ concat (map (to_bytes 4) code) @ rest)"
    by (simp add: vector_blocks_def)
  from LoadInt_length [OF this assms(2), of name] obtain z1 where
    z1: "LoadInt rd name z = Inr (int (length code), z1)" "zcontent rd z1 (concat (map (to_bytes 4) code) @ rest)" by auto
  have "\<exists>z'. LoadVector rd name from_bytes (length code) 4 z1 = Inr (code, z') \<and> zcontent rd z' rest"
    by (rule LoadVector_content [OF z1(2)]) (simp add: from_to_bytes)
  with z1(1) show ?thesis by (auto simp: LoadCode_def)
qed

definition debug_ok :: "int list \<Rightarrow> LocVar list \<Rightarrow> TString option list \<Rightarrow> bool" where
  "debug_ok li lv uv \<longleftrightarrow> length li < 2 ^ 31 \<and> length lv < 2 ^ 31 \<and> length uv < 2 ^ 31 \<and>
     list_all (\<lambda>x. - (2 ^ 31) \<le> x \<and> x < 2 ^ 31) li \<and> list_all locvar_ok lv \<and> list_all string_ok uv"

lemma string_ok_None [simp]: "string_ok None" by (simp add: string_ok_def)

lemma LoadDebug_content:
  assumes "zcontent rd z (concat (debug_blocks strip li lv uv) @ rest)" "debug_ok li lv uv"
  shows "\<exists>z'. LoadDebug rd name z = Inr (if strip then ([], [], []) else (li, lv, uv), z') \<and> zcontent rd z' rest"
proof -
  define li' lv' uv' where "li' = (if strip then [] else li)" and "lv' = (if strip then [] else lv)"
    and "uv' = (if strip then [] else uv)"
  have ok: "debug_ok li' lv' uv'" using assms(2) by (auto simp: debug_ok_def li'_def lv'_def uv'_def)
  let ?lv = "concat (map (\<lambda>v. concat (locvar_blocks v)) lv')" and ?uv = "concat (map (\<lambda>s. concat (string_blocks s)) uv')"
  have "zcontent rd z (int_bytes (int (length li')) @ concat (map int_bytes li') @ int_bytes (int (length lv')) @ ?lv @
      int_bytes (int (length uv')) @ ?uv @ rest)"
    using assms(1) by (simp add: debug_blocks_def vector_blocks_def list_blocks_def concat_concat_map li'_def lv'_def uv'_def)
  then obtain z1 where z1: "LoadInt rd name z = Inr (int (length li'), z1)"
      "zcontent rd z1 (concat (map int_bytes li') @ int_bytes (int (length lv')) @ ?lv @ int_bytes (int (length uv')) @ ?uv @ rest)"
    using LoadInt_length [of rd z "length li'" _ name] ok by (auto simp: debug_ok_def)
  have "\<exists>z'. LoadVector rd name int_of_bytes (length li') 4 z1 = Inr (li', z') \<and>
      zcontent rd z' (int_bytes (int (length lv')) @ ?lv @ int_bytes (int (length uv')) @ ?uv @ rest)"
    using ok by (intro LoadVector_content [OF z1(2)]) (auto simp: debug_ok_def list_all_iff int_of_int_bytes)
  then obtain z2 where z2: "LoadVector rd name int_of_bytes (length li') 4 z1 = Inr (li', z2)"
      "zcontent rd z2 (int_bytes (int (length lv')) @ ?lv @ int_bytes (int (length uv')) @ ?uv @ rest)" by auto
  from LoadInt_length [OF z2(2), of name] ok obtain z3 where z3: "LoadInt rd name z2 = Inr (int (length lv'), z3)"
      "zcontent rd z3 (?lv @ int_bytes (int (length uv')) @ ?uv @ rest)" by (auto simp: debug_ok_def)
  from locvar_codec.load_list [OF _ z3(2), of name] ok obtain z4 where
      z4: "load_n (length lv') (LoadLocVar rd name) z3 = Inr (lv', z4)"
      "zcontent rd z4 (int_bytes (int (length uv')) @ ?uv @ rest)" by (auto simp: debug_ok_def list_all_iff)
  from LoadInt_length [OF z4(2), of name] ok obtain z5 where z5: "LoadInt rd name z4 = Inr (int (length uv'), z5)"
      "zcontent rd z5 (?uv @ rest)" by (auto simp: debug_ok_def)
  from string_codec.load_list [OF _ z5(2), of name] ok obtain z6 where
      z6: "load_n (length uv') (LoadString rd name) z5 = Inr (uv', z6)" "zcontent rd z6 rest"
    by (auto simp: debug_ok_def list_all_iff)
  from z1(1) z2(1) z3(1) z4(1) z5(1) z6 show ?thesis
    by (auto simp: LoadDebug_def li'_def lv'_def uv'_def)
qed

subsection \<open>What a dumped function is read back as\<close>

text \<open>
  \<open>reload strip p f\<close>: stripped of its debug information, the function names the source \<open>p\<close> of
  the enclosing function; otherwise only a missing source name changes, to \<open>p\<close>.
\<close>

fun reload :: "bool \<Rightarrow> TString option \<Rightarrow> Proto \<Rightarrow> Proto" where
  "reload strip p (Proto k code ps li lv uv src linedefined lastlinedefined nups numparams is_vararg maxstacksize) =
     (let src' = (if strip then p else case src of None \<Rightarrow> p | Some s \<Rightarrow> Some s) in
      Proto k code (map (reload strip src') ps) (if strip then [] else li) (if strip then [] else lv)
        (if strip then [] else uv) src' linedefined lastlinedefined nups numparams is_vararg maxstacksize)"

text \<open>The bounds of the file format, and the code check, for a function and all it encloses.\<close>

fun dumpable :: "Proto \<Rightarrow> bool" where
  "dumpable (Proto k code ps li lv uv src linedefined lastlinedefined nups numparams is_vararg maxstacksize) \<longleftrightarrow>
     length k < 2 ^ 31 \<and> length code < 2 ^ 31 \<and> length ps < 2 ^ 31 \<and> list_all constant_ok k \<and> debug_ok li lv uv \<and>
     string_ok src \<and> int_ok linedefined \<and> int_ok lastlinedefined \<and> list_all dumpable ps \<and>
     luaG_checkcode (Proto k code ps li lv uv src linedefined lastlinedefined nups numparams is_vararg maxstacksize) = Inr True"

fun proto_depth :: "Proto \<Rightarrow> nat" where
  "proto_depth (Proto k code ps li lv uv src ld lld nups np va ms) = Suc (fold max (map proto_depth ps) 0)"

fun has_sources :: "Proto \<Rightarrow> bool" where
  "has_sources (Proto k code ps li lv uv src ld lld nups np va ms) \<longleftrightarrow> src \<noteq> None \<and> list_all has_sources ps"

lemma reload_same: "has_sources f \<Longrightarrow> reload False p f = f"
proof (induction f arbitrary: p)
  case (Proto k code ps li lv uv src ld lld nups np va ms)
  then have "map (reload False src) ps = ps" by (auto simp: list_all_iff intro!: map_idI)
  with Proto.prems show ?case by auto
qed

lemma fold_max_le: "fold max xs (a::nat) \<le> n \<longleftrightarrow> a \<le> n \<and> (\<forall>x \<in> set xs. x \<le> n)"
  by (induction xs arbitrary: a) auto

subsection \<open>Stripping and the code checker\<close>

text \<open>The checker looks at nothing that stripping changes but the two debug lengths.\<close>

definition same_code :: "Proto \<Rightarrow> Proto \<Rightarrow> bool" where
  "same_code f g \<longleftrightarrow> pt_k f = pt_k g \<and> pt_code f = pt_code g \<and> map pt_nups (pt_p f) = map pt_nups (pt_p g) \<and>
     pt_nups f = pt_nups g \<and> pt_numparams f = pt_numparams g \<and> pt_is_vararg f = pt_is_vararg g \<and>
     pt_maxstacksize f = pt_maxstacksize g"

lemma nth_result_nups:
  "map pt_nups ps = map pt_nups qs \<Longrightarrow> (\<And>f g. pt_nups f = pt_nups g \<Longrightarrow> h f = h' g) \<Longrightarrow>
   bind_result (nth_result ps b) h = bind_result (nth_result qs b) h'"
proof -
  assume m: "map pt_nups ps = map pt_nups qs" and h: "\<And>f g. pt_nups f = pt_nups g \<Longrightarrow> h f = h' g"
  have l: "length ps = length qs" using m by (metis length_map)
  have "pt_nups (ps ! nat b) = pt_nups (qs ! nat b)" if "0 \<le> b" "b < int (length qs)"
    using that m l by (metis nat_less_iff nth_map)
  then show ?thesis using l h [of "ps ! nat b" "qs ! nat b"] by (simp add: nth_result_def)
qed

lemma same_code_check:
  assumes "same_code f g"
  shows "checkreg f = checkreg g" "checkArgMode f r m = checkArgMode g r m" "closure_args f pc n = closure_args g pc n"
    "length (pt_p f) = length (pt_p g)"
proof -
  show "checkreg f = checkreg g" using assms by (auto simp: checkreg_def same_code_def)
  then show "checkArgMode f r m = checkArgMode g r m" using assms by (cases m) (auto simp: same_code_def)
  show "closure_args f pc n = closure_args g pc n" using assms by (induction n arbitrary: pc) (auto simp: same_code_def cong: if_cong)
  show "length (pt_p f) = length (pt_p g)" using assms by (metis length_map same_code_def)
qed

lemma same_code_sym_op:
  assumes "same_code f g"
  shows "sym_op f lastpc reg pc op a b c lst = sym_op g lastpc reg pc op a b c lst"
proof (cases "op = OP_CLOSURE")
  case True
  have "bind_result (nth_result (pt_p f) b) (\<lambda>q. if \<not> pc + int (unat (pt_nups q)) < sizecode f then Inr None
      else bind_result (closure_args f pc (unat (pt_nups q))) (\<lambda>good. if good then Inr (Some (if reg \<noteq> NO_REG then pc + int (unat (pt_nups q)) else pc, lst)) else Inr None))
    = bind_result (nth_result (pt_p g) b) (\<lambda>q. if \<not> pc + int (unat (pt_nups q)) < sizecode g then Inr None
      else bind_result (closure_args g pc (unat (pt_nups q))) (\<lambda>good. if good then Inr (Some (if reg \<noteq> NO_REG then pc + int (unat (pt_nups q)) else pc, lst)) else Inr None))"
    using assms by (intro nth_result_nups) (simp_all add: same_code_check [OF assms] cong: if_cong, simp_all add: same_code_def cong: if_cong)
  then show ?thesis using True same_code_check [OF assms] by (simp add: sym_op_def Let_def)
next
  case False
  have "pt_k f = pt_k g" "pt_code f = pt_code g" "pt_nups f = pt_nups g" "pt_is_vararg f = pt_is_vararg g"
    using assms by (auto simp: same_code_def)
  with False show ?thesis by (cases op) (simp_all add: sym_op_def Let_def same_code_check(1) [OF assms])
qed

lemma same_code_sym_step:
  assumes "same_code f g"
  shows "sym_step f lastpc reg pc lst = sym_step g lastpc reg pc lst"
proof -
  have fld: "pt_k f = pt_k g" "pt_code f = pt_code g" using assms by (auto simp: same_code_def)
  have "sym_operands f pc op i = sym_operands g pc op i" for op i
    using fld by (simp add: sym_operands_def same_code_check(2) [OF assms] Let_def cong: if_cong split: OpMode.split)
  with fld show ?thesis by (simp add: sym_step_def same_code_sym_op [OF assms] same_code_check(1) [OF assms] Let_def cong: if_cong option.case_cong)
qed

lemma same_code_sym_loop:
  "same_code f g \<Longrightarrow> sym_loop f lastpc reg pc lst = sym_loop g lastpc reg pc lst"
proof (induction f lastpc reg pc lst rule: sym_loop.induct)
  case (1 f lastpc reg pc lst)
  have "pt_code f = pt_code g" using "1.prems" by (simp add: same_code_def)
  with 1 show ?case
    by (subst (1 2) sym_loop.simps)
      (auto simp: same_code_sym_step [OF "1.prems"] intro!: bind_result_cong split: option.splits)
qed

lemma strip_checkcode:
  assumes "luaG_checkcode g = Inr True" "same_code f g"
    "pt_lineinfo f = [] \<and> pt_upvalues f = [] \<or> pt_lineinfo f = pt_lineinfo g \<and> pt_upvalues f = pt_upvalues g"
  shows "luaG_checkcode f = Inr True"
proof -
  have "precheck g = Inr True \<Longrightarrow> precheck f = Inr True"
    using assms(2,3) by (auto simp: precheck_def same_code_def split: if_splits)
  moreover have "precheck g = Inr True" using assms(1) precheck_returns [of g]
    by (auto simp: luaG_checkcode_def symbexec_def bind_result_Inr_conv split: if_splits)
  moreover have "sizecode f = sizecode g" using assms(2) by (simp add: same_code_def)
  ultimately show ?thesis
    using assms(1) by (simp add: luaG_checkcode_def symbexec_def same_code_sym_loop [OF assms(2)])
qed

lemma reload_nups: "pt_nups (reload strip p f) = pt_nups f"
  by (cases f) (simp add: Let_def)

lemma reload_checkcode: "luaG_checkcode f = Inr True \<Longrightarrow> luaG_checkcode (reload strip p f) = Inr True"
proof (erule strip_checkcode)
  show "same_code (reload strip p f) f" by (cases f) (auto simp: same_code_def Let_def comp_def reload_nups)
qed (cases f, auto simp: Let_def)

definition fits :: "nat \<Rightarrow> Proto \<Rightarrow> bool" where
  "fits d f \<longleftrightarrow> dumpable f \<and> proto_depth f \<le> d"

lemma fits_nested: "fits (Suc d) (Proto k code ps li lv uv src ld lld nups np va ms) \<Longrightarrow> \<forall>g \<in> set ps. fits d g"
  by (auto simp: fits_def list_all_iff fold_max_le)

lemma LoadConstants_content:
  assumes lf: "codec (zcontent rd) okf encf imgf lf" and ps: "\<forall>g \<in> set ps. okf g" "length ps < 2 ^ 31"
    and k: "list_all constant_ok k" "length k < 2 ^ 31"
    and z: "zcontent rd z (concat (list_blocks constant_blocks k) @ int_bytes (int (length ps)) @ concat (map encf ps) @ rest)"
  shows "\<exists>z'. LoadConstants lf rd name z = Inr ((k, map imgf ps), z') \<and> zcontent rd z' rest"
proof -
  let ?ks = "concat (map (\<lambda>k. concat (constant_blocks k)) k)"
  from z have "zcontent rd z (int_bytes (int (length k)) @ ?ks @ int_bytes (int (length ps)) @ concat (map encf ps) @ rest)"
    by (simp add: list_blocks_def concat_concat_map)
  from LoadInt_length [OF this k(2), of name] obtain z1 where z1: "LoadInt rd name z = Inr (int (length k), z1)"
    "zcontent rd z1 (?ks @ int_bytes (int (length ps)) @ concat (map encf ps) @ rest)" by auto
  from constant_codec.load_list [OF _ z1(2), of name] k(1) obtain z2 where
    z2: "load_n (length k) (LoadConstant rd name) z1 = Inr (k, z2)"
    "zcontent rd z2 (int_bytes (int (length ps)) @ concat (map encf ps) @ rest)" by (auto simp: list_all_iff)
  from LoadInt_length [OF z2(2) ps(2), of name] obtain z3 where z3: "LoadInt rd name z2 = Inr (int (length ps), z3)"
    "zcontent rd z3 (concat (map encf ps) @ rest)" by auto
  from codec.load_list [OF lf ps(1) z3(2)] z1(1) z2(1) z3(1) show ?thesis
    by (auto simp: LoadConstants_def)
qed

lemma LoadFunction_codec:
  "strip \<or> p = None \<or> p' = p \<Longrightarrow>
   codec (zcontent rd) (fits d) (\<lambda>f. concat (function_blocks strip p f)) (reload strip p') (LoadFunction d p' rd name)"
proof (induction d arbitrary: p p')
  case 0
  show ?case
  proof
    fix x show "fits 0 x \<Longrightarrow> \<exists>z'. LoadFunction 0 p' rd name z = Inr (reload strip p' x, z') \<and> zcontent rd z' rest" for z rest
      by (cases x) (simp add: fits_def)
  qed
next
  case (Suc d)
  show ?case
  proof
    fix f z rest assume f: "fits (Suc d) f" and z: "zcontent rd z (concat (function_blocks strip p f) @ rest)"
    obtain k code ps li lv uv src ld lld nups np va ms where
      F: "f = Proto k code ps li lv uv src ld lld nups np va ms" by (cases f)
    from f F have ok: "length k < 2 ^ 31" "length code < 2 ^ 31" "length ps < 2 ^ 31" "list_all constant_ok k" "debug_ok li lv uv"
      "string_ok src" "int_ok ld" "int_ok lld" "luaG_checkcode f = Inr True" by (auto simp: fits_def)
    define s where "s = (if src = p \<or> strip then None else src)"
    define src' where "src' = (if strip then p' else case src of None \<Rightarrow> p' | Some s \<Rightarrow> Some s)"
    have src': "(case s of None \<Rightarrow> p' | Some s \<Rightarrow> Some s) = src'"
      using Suc.prems by (auto simp: s_def src'_def split: option.splits)
    have "string_ok s" using ok(6) by (simp add: s_def)
    have nested: "codec (zcontent rd) (fits d) (\<lambda>f. concat (function_blocks strip src f)) (reload strip src') (LoadFunction d src' rd name)"
      by (rule Suc.IH) (auto simp: src'_def split: option.splits)
    let ?ps = "concat (map (\<lambda>f. concat (function_blocks strip src f)) ps)"
    let ?tail = "concat (vector_blocks (map (to_bytes 4) code)) @ concat (list_blocks constant_blocks k) @
      int_bytes (int (length ps)) @ ?ps @ concat (debug_blocks strip li lv uv) @ rest"
    have "zcontent rd z (concat (string_blocks s) @ int_bytes ld @ int_bytes lld @ [nups] @ [np] @ [va] @ [ms] @ ?tail)"
      using z by (simp add: F s_def concat_concat_map)
    from string_codec.load_enc [OF \<open>string_ok s\<close> this, of name] obtain z1 where z1: "LoadString rd name z = Inr (s, z1)"
      "zcontent rd z1 (int_bytes ld @ int_bytes lld @ [nups] @ [np] @ [va] @ [ms] @ ?tail)" by auto
    from int_codec.load_enc [OF ok(7) z1(2), of name] obtain z2 where z2: "LoadInt rd name z1 = Inr (ld, z2)"
      "zcontent rd z2 (int_bytes lld @ [nups] @ [np] @ [va] @ [ms] @ ?tail)" by auto
    from int_codec.load_enc [OF ok(8) z2(2), of name] obtain z3 where z3: "LoadInt rd name z2 = Inr (lld, z3)"
      "zcontent rd z3 ([nups] @ [np] @ [va] @ [ms] @ ?tail)" by auto
    from char_codec.load_enc [OF _ z3(2), of name] obtain z4 where z4: "LoadChar rd name z3 = Inr (nups, z4)"
      "zcontent rd z4 ([np] @ [va] @ [ms] @ ?tail)" by auto
    from char_codec.load_enc [OF _ z4(2), of name] obtain z5 where z5: "LoadChar rd name z4 = Inr (np, z5)"
      "zcontent rd z5 ([va] @ [ms] @ ?tail)" by auto
    from char_codec.load_enc [OF _ z5(2), of name] obtain z6 where z6: "LoadChar rd name z5 = Inr (va, z6)"
      "zcontent rd z6 ([ms] @ ?tail)" by auto
    from char_codec.load_enc [OF _ z6(2), of name] obtain z7 where z7: "LoadChar rd name z6 = Inr (ms, z7)"
      "zcontent rd z7 ?tail" by auto
    from LoadCode_content [OF z7(2) ok(2), of name] obtain z8 where z8: "LoadCode rd name z7 = Inr (code, z8)"
      "zcontent rd z8 (concat (list_blocks constant_blocks k) @ int_bytes (int (length ps)) @ ?ps @ concat (debug_blocks strip li lv uv) @ rest)" by auto
    from LoadConstants_content [OF nested _ ok(3) ok(4) ok(1) z8(2), of name] fits_nested f F obtain z9 where
      z9: "LoadConstants (LoadFunction d src' rd name) rd name z8 = Inr ((k, map (reload strip src') ps), z9)"
      "zcontent rd z9 (concat (debug_blocks strip li lv uv) @ rest)" by blast
    from LoadDebug_content [OF z9(2) ok(5), of name] obtain z10 where
      z10: "LoadDebug rd name z9 = Inr (if strip then ([], [], []) else (li, lv, uv), z10)" "zcontent rd z10 rest" by auto
    have chk: "luaG_checkcode (reload strip p' f) = Inr True" by (rule reload_checkcode) (rule ok(9))
    have rl: "reload strip p' f = Proto k code (map (reload strip src') ps) (if strip then [] else li) (if strip then [] else lv)
        (if strip then [] else uv) src' ld lld nups np va ms"
      by (simp add: F src'_def Let_def)
    from z1(1) z2(1) z3(1) z4(1) z5(1) z6(1) z7(1) z8(1) z9(1) z10 chk
    show "\<exists>z'. LoadFunction (Suc d) p' rd name z = Inr (reload strip p' f, z') \<and> zcontent rd z' rest"
      unfolding rl by (cases strip) (simp_all add: src' Let_def)
  qed
qed

lemma LoadHeader_content:
  "zcontent rd z (luaU_header @ rest) \<Longrightarrow> \<exists>z'. LoadHeader rd name z = Inr ((), z') \<and> zcontent rd z' rest"
  using LoadBlock_content [of rd z luaU_header rest LUAC_HEADERSIZE name]
  by (auto simp: LoadHeader_def luaU_header_def LUAC_HEADERSIZE_def)

lemma undump_content:
  assumes "zcontent rd z (concat (chunk_blocks strip f) @ rest)" "fits (LUAI_MAXCCALLS - n) f"
  shows "\<exists>z'. luaU_undump n rd name z = Inr (reload strip (Some ''=?'') f, z') \<and> zcontent rd z' rest"
proof -
  from assms(1) have "zcontent rd z (luaU_header @ concat (function_blocks strip None f) @ rest)" by (simp add: chunk_blocks_def)
  from LoadHeader_content [OF this, of "undump_name name"] obtain z1 where
    z1: "LoadHeader rd (undump_name name) z = Inr ((), z1)" "zcontent rd z1 (concat (function_blocks strip None f) @ rest)" by auto
  have "codec (zcontent rd) (fits (LUAI_MAXCCALLS - n)) (\<lambda>f. concat (function_blocks strip None f))
    (reload strip (Some ''=?'')) (LoadFunction (LUAI_MAXCCALLS - n) (Some ''=?'') rd (undump_name name))"
    by (rule LoadFunction_codec) simp
  from codec.load_enc [OF this assms(2) z1(2)] z1(1) show ?thesis by (simp add: luaU_undump_def)
qed

text \<open>The writer that collects the chunk in a list.\<close>

definition append_writer :: "lu_byte list lua_Writer" where
  "append_writer b w = (0, w @ b)"

lemma append_writer_all: "write_all append_writer bs w = (0, w @ concat bs)"
  by (induction bs arbitrary: w) (simp_all add: append_writer_def)

subsection \<open>Loading from any stream\<close>

text \<open>
  The outcomes a loader may have on a finite stream: a syntax error, or a value with the
  given property and a finite stream left.
\<close>

definition loads :: "'d lua_Reader \<Rightarrow> ('a \<Rightarrow> bool) \<Rightarrow> ('a \<times> 'd ZIO) result \<Rightarrow> bool" where
  "loads rd P r \<longleftrightarrow> (case r of Inl e \<Rightarrow> (\<exists>m. e = SyntaxError m) | Inr (x, z) \<Rightarrow> P x \<and> (\<exists>bs. zcontent rd z bs))"

lemma loads_Inr: "P x \<Longrightarrow> zcontent rd z bs \<Longrightarrow> loads rd P (Inr (x, z))"
  by (auto simp: loads_def)

lemma loads_error: "loads rd P (load_error name why)"
  by (simp add: loads_def load_error_def)

lemma loads_bind:
  assumes "loads rd P r" "\<And>x z bs. P x \<Longrightarrow> zcontent rd z bs \<Longrightarrow> loads rd Q (f (x, z))"
  shows "loads rd Q (bind_result r f)"
proof (cases r)
  case (Inr y)
  obtain x z where y: "y = (x, z)" by (cases y)
  with Inr assms(1) obtain bs where "P x" "zcontent rd z bs" by (auto simp: loads_def)
  from assms(2) [OF this] Inr y show ?thesis by simp
qed (use assms(1) in \<open>simp add: loads_def\<close>)

lemma loads_if: "(c \<Longrightarrow> loads rd P a) \<Longrightarrow> (\<not> c \<Longrightarrow> loads rd P b) \<Longrightarrow> loads rd P (if c then a else b)"
  by simp

lemma loads_weaken: "loads rd P r \<Longrightarrow> (\<And>x. P x \<Longrightarrow> Q x) \<Longrightarrow> loads rd Q r"
  by (auto simp: loads_def split: sum.splits)

lemma LoadBlock_loads: "zcontent rd z bs \<Longrightarrow> loads rd (\<lambda>b. length b = n) (LoadBlock rd name n z)"
  using luaZ_read_content [of rd z bs n] by (cases "n \<le> length bs") (auto simp: LoadBlock_def loads_def load_error_def)

lemma load_n_loads:
  "(\<And>z bs. zcontent rd z bs \<Longrightarrow> loads rd P (load z)) \<Longrightarrow> zcontent rd z bs \<Longrightarrow> loads rd (\<lambda>xs. list_all P xs) (load_n n load z)"
  by (induction n arbitrary: z bs) (auto intro!: loads_Inr loads_bind [where P = P] loads_bind [where P = "list_all P"])

lemmas loads_intros = loads_error loads_if loads_Inr

lemma LoadChar_loads: "zcontent rd z bs \<Longrightarrow> loads rd (\<lambda>_. True) (LoadChar rd name z)"
  unfolding LoadChar_def by (rule loads_bind [OF LoadBlock_loads]) (auto intro: loads_intros)

lemma LoadInt_loads: "zcontent rd z bs \<Longrightarrow> loads rd (\<lambda>x. 0 \<le> x) (LoadInt rd name z)"
  unfolding LoadInt_def Let_def by (rule loads_bind [OF LoadBlock_loads]) (auto intro: loads_intros)

lemma LoadNumber_loads: "zcontent rd z bs \<Longrightarrow> loads rd (\<lambda>_. True) (LoadNumber rd name z)"
  unfolding LoadNumber_def by (rule loads_bind [OF LoadBlock_loads]) (auto intro: loads_intros)

lemma LoadString_loads: "zcontent rd z bs \<Longrightarrow> loads rd (\<lambda>_. True) (LoadString rd name z)"
  unfolding LoadString_def Let_def
  by (rule loads_bind [OF LoadBlock_loads]) (auto intro!: loads_intros loads_bind [OF LoadBlock_loads])

lemma LoadVector_loads: "zcontent rd z bs \<Longrightarrow> loads rd (\<lambda>_. True) (LoadVector rd name dec n sz z)"
  unfolding LoadVector_def by (rule loads_bind [OF LoadBlock_loads]) (auto intro: loads_intros)

lemma LoadCode_loads: "zcontent rd z bs \<Longrightarrow> loads rd (\<lambda>_. True) (LoadCode rd name z)"
  unfolding LoadCode_def by (rule loads_bind [OF LoadInt_loads]) (auto intro: LoadVector_loads)

lemma LoadConstant_loads: "zcontent rd z bs \<Longrightarrow> loads rd (\<lambda>_. True) (LoadConstant rd name z)"
  unfolding LoadConstant_def
  by (rule loads_bind [OF LoadChar_loads])
    (auto intro!: loads_intros loads_bind [OF LoadChar_loads] loads_bind [OF LoadNumber_loads] loads_bind [OF LoadString_loads])

lemma LoadLocVar_loads: "zcontent rd z bs \<Longrightarrow> loads rd (\<lambda>_. True) (LoadLocVar rd name z)"
  unfolding LoadLocVar_def
  by (rule loads_bind [OF LoadString_loads]) (auto intro!: loads_intros loads_bind [OF LoadInt_loads])

lemma LoadDebug_loads: "zcontent rd z bs \<Longrightarrow> loads rd (\<lambda>_. True) (LoadDebug rd name z)"
  unfolding LoadDebug_def
  by (rule loads_bind [OF LoadInt_loads], assumption)
    (auto intro!: loads_intros loads_bind [OF LoadVector_loads] loads_bind [OF LoadInt_loads]
      loads_bind [OF load_n_loads [OF LoadLocVar_loads]] loads_bind [OF load_n_loads [OF LoadString_loads]])

lemma LoadConstants_loads:
  assumes "\<And>z bs. zcontent rd z bs \<Longrightarrow> loads rd P (lf z)" "zcontent rd z bs"
  shows "loads rd (\<lambda>(ks, ps). list_all P ps) (LoadConstants lf rd name z)"
  unfolding LoadConstants_def using assms(2)
  by (intro loads_bind [OF LoadInt_loads], assumption)
    (auto intro!: loads_intros loads_bind [OF LoadInt_loads] loads_bind [OF load_n_loads [OF LoadConstant_loads]]
      loads_bind [OF load_n_loads [OF assms(1)]])

text \<open>Every function of a tree of prototypes has passed the code checker.\<close>

fun all_checked :: "Proto \<Rightarrow> bool" where
  "all_checked (Proto k code ps li lv uv src ld lld nups np va ms) \<longleftrightarrow>
     luaG_checkcode (Proto k code ps li lv uv src ld lld nups np va ms) = Inr True \<and> list_all all_checked ps"

lemma luaG_checkcode_returns: "returns (luaG_checkcode f)"
  unfolding luaG_checkcode_def by (intro returns_bindI symbexec_returns) simp_all

lemma LoadFunction_loads: "zcontent rd z bs \<Longrightarrow> loads rd all_checked (LoadFunction d p rd name z)"
proof (induction d arbitrary: p z bs)
  case (Suc d)
  have chk: "loads rd all_checked (bind_result (luaG_checkcode f) (\<lambda>good. if good then Inr (f, z) else load_error name ''bad code''))"
    if "list_all all_checked (pt_p f)" "zcontent rd z bs" for f z bs
  proof -
    obtain good where "luaG_checkcode f = Inr good" using luaG_checkcode_returns [of f] by (auto simp: returns_def)
    with that show ?thesis by (cases f) (auto intro!: loads_intros)
  qed
  show ?case
    unfolding LoadFunction.simps Let_def
    by (rule loads_bind [OF LoadString_loads [OF Suc.prems]], simp,
        (rule loads_bind [OF LoadInt_loads], assumption, simp)+,
        (rule loads_bind [OF LoadChar_loads], assumption, simp)+,
        rule loads_bind [OF LoadCode_loads], assumption, simp,
        rule loads_bind [OF LoadConstants_loads [OF Suc.IH]], assumption, assumption, simp split: prod.split, intro allI impI,
        rule loads_bind [OF LoadDebug_loads], assumption, simp split: prod.split, intro allI impI,
        rule chk) simp_all
qed (simp add: loads_error)

section \<open>Properties\<close>

text \<open>
  Claim C16. Round trip of precompiled chunks: \<open>luaU_dump\<close> succeeds on every function within the
  bounds of the format, and \<open>luaU_undump\<close>, fed its bytes in blocks of any sizes, gives back the
  function, with the debug information gone when it was stripped and unchanged otherwise (a
  function whose source names are all present comes back equal), and leaves the rest of the
  stream unread. In particular the loader's code check accepts stripped code.
\<close>

theorem dump_undump_roundtrip:
  assumes "dumpable f" "proto_depth f \<le> LUAI_MAXCCALLS - n"
    and "supplies rd d (snd (luaU_dump append_writer f [] strip) @ rest)"
  shows "fst (luaU_dump append_writer f [] strip) = 0 \<and>
    (\<exists>z'. luaU_undump n rd name (luaZ_init d) = Inr (reload strip (Some ''=?'') f, z') \<and> zcontent rd z' rest) \<and>
    (has_sources f \<longrightarrow> reload False (Some ''=?'') f = f)"
proof -
  have "zcontent rd (luaZ_init d) (concat (chunk_blocks strip f) @ rest)"
    using zcontent_init [OF assms(3)] by (simp add: luaU_dump_blocks append_writer_all)
  moreover have "fits (LUAI_MAXCCALLS - n) f" using assms(1,2) by (simp add: fits_def)
  ultimately show ?thesis
    using undump_content [of rd "luaZ_init d" strip f rest n name] by (simp add: luaU_dump_blocks append_writer_all reload_same)
qed


text \<open>A function that sets a global through a string constant with no string.\<close>

definition null_string_proto :: Proto where
  "null_string_proto = Proto [KNullStr] [CREATE_ABx (opnum OP_GETGLOBAL) 0 0, CREATE_ABC (opnum OP_RETURN) 0 1 0] [] [] [] []
     (Some ''=s'') 0 0 0 0 0 2"

lemma null_string_ok: "dumpable null_string_proto" "proto_depth null_string_proto \<le> LUAI_MAXCCALLS - 0"
proof -
  have "luaG_checkcode null_string_proto = Inr True" by code_simp
  then show "dumpable null_string_proto"
    by (simp add: null_string_proto_def debug_ok_def int_ok_def string_ok_def)
qed (simp add: null_string_proto_def LUAI_MAXCCALLS_def)

definition null_string_chunk :: "lu_byte list" where
  "null_string_chunk = concat (chunk_blocks False null_string_proto)"

lemma null_string_supplies: "supplies block_reader [null_string_chunk] (null_string_chunk @ [])"
proof -
  have "null_string_chunk \<noteq> []" "length null_string_chunk < 200" by code_simp+
  then have "null_string_chunk \<noteq> []" "length null_string_chunk < 2 ^ 64" by simp_all
  then show ?thesis using block_reader_supplies [of "[null_string_chunk]"] by simp
qed

theorem dump_undump_roundtrip_witness:
  "dumpable null_string_proto \<and>
   (\<exists>z'. luaU_undump 0 block_reader ''=s'' (luaZ_init [null_string_chunk]) = Inr (null_string_proto, z'))"
proof -
  have "supplies block_reader [null_string_chunk] (snd (luaU_dump append_writer null_string_proto [] False) @ [])"
    using null_string_supplies by (simp add: luaU_dump_blocks append_writer_all null_string_chunk_def)
  from dump_undump_roundtrip [OF null_string_ok this, of "''=s''"] null_string_ok(1) show ?thesis
    by (auto simp: null_string_proto_def)
qed


text \<open>
  A gap of the loader: a string constant of size 0 in a chunk becomes a constant with a
  string tag and no string, and a function that uses it as the name of a global passes the code
  check. Reading the global then dereferences the null string.
\<close>

theorem undump_null_string:
  "\<exists>z' f. luaU_undump 0 block_reader ''=s'' (luaZ_init [null_string_chunk]) = Inr (f, z') \<and>
     pt_k f = [KNullStr] \<and> GET_OPCODE (hd (pt_code f)) = opnum OP_GETGLOBAL \<and> GETARG_Bx (hd (pt_code f)) = 0"
proof -
  have "zcontent block_reader (luaZ_init [null_string_chunk]) (concat (chunk_blocks False null_string_proto) @ [])"
    using zcontent_init [OF null_string_supplies] by (simp add: null_string_chunk_def)
  from undump_content [OF this, of 0 "''=s''"] null_string_ok
  obtain z' where "luaU_undump 0 block_reader ''=s'' (luaZ_init [null_string_chunk]) = Inr (null_string_proto, z')"
    by (auto simp: fits_def null_string_proto_def)
  moreover have "GET_OPCODE (hd (pt_code null_string_proto)) = opnum OP_GETGLOBAL" "GETARG_Bx (hd (pt_code null_string_proto)) = 0"
    by code_simp+
  ultimately show ?thesis by (auto simp: null_string_proto_def)
qed

text \<open>
  A writer that reports an error stops the dump: \<open>luaU_dump\<close> offers it the blocks of
  the chunk in order until one call returns a non-zero status, returns that status and writes
  nothing more.
\<close>

theorem dump_stops_at_error:
  "luaU_dump wr f data strip = write_all wr (chunk_blocks strip f) data"
  by (rule luaU_dump_blocks)

end
