(* ===== verification/Cstring.thy ===== *)
theory Cstring
  imports Prelude
begin

text \<open>
  C strings and characters. A C string is a \<^typ>\<open>string\<close> followed by its terminating zero:
  \<open>cchar s i\<close> reads the character at offset \<open>i\<close>, the terminator at offset \<open>length s\<close>, and is a
  memory fault beyond it. The classification functions of ctype.h are those of the C locale.
\<close>

definition cchar :: "string \<Rightarrow> nat \<Rightarrow> char result" where
  "cchar s i = (if i < length s then Inr (s ! i) else if i = length s then Inr (CHR 0x00) else Inl MemoryFault)"

abbreviation uchar :: "char \<Rightarrow> nat" where "uchar c \<equiv> of_char c"

lemma cchar_returns [intro]: "i \<le> length s \<Longrightarrow> returns (cchar s i)"
  by (auto simp: cchar_def)

lemma cchar_InrD: "cchar s i = Inr c \<Longrightarrow> i \<le> length s"
  by (auto simp: cchar_def split: if_splits)

lemma cchar_nonzero: "cchar s i = Inr c \<Longrightarrow> c \<noteq> CHR 0x00 \<Longrightarrow> i < length s \<and> s ! i = c"
  by (auto simp: cchar_def split: if_splits)

lemma cchar_at: "i < length s \<Longrightarrow> cchar s i = Inr (s ! i)"
  by (simp add: cchar_def)

lemma cchar_end [simp]: "cchar s (length s) = Inr (CHR 0x00)"
  by (simp add: cchar_def)

subsection \<open>ctype.h in the C locale\<close>

definition isdigit :: "nat \<Rightarrow> bool" where "isdigit c \<longleftrightarrow> 48 \<le> c \<and> c \<le> 57"
definition islower :: "nat \<Rightarrow> bool" where "islower c \<longleftrightarrow> 97 \<le> c \<and> c \<le> 122"
definition isupper :: "nat \<Rightarrow> bool" where "isupper c \<longleftrightarrow> 65 \<le> c \<and> c \<le> 90"
definition isalpha :: "nat \<Rightarrow> bool" where "isalpha c \<longleftrightarrow> islower c \<or> isupper c"
definition isalnum :: "nat \<Rightarrow> bool" where "isalnum c \<longleftrightarrow> isalpha c \<or> isdigit c"
definition iscntrl :: "nat \<Rightarrow> bool" where "iscntrl c \<longleftrightarrow> c < 32 \<or> c = 127"
definition ispunct :: "nat \<Rightarrow> bool" where "ispunct c \<longleftrightarrow> 33 \<le> c \<and> c \<le> 126 \<and> \<not> isalnum c"
definition isspace :: "nat \<Rightarrow> bool" where "isspace c \<longleftrightarrow> c = 32 \<or> 9 \<le> c \<and> c \<le> 13"
definition isxdigit :: "nat \<Rightarrow> bool" where
  "isxdigit c \<longleftrightarrow> isdigit c \<or> 97 \<le> c \<and> c \<le> 102 \<or> 65 \<le> c \<and> c \<le> 70"
definition tolower :: "nat \<Rightarrow> nat" where "tolower c = (if isupper c then c + 32 else c)"
definition toupper :: "nat \<Rightarrow> nat" where "toupper c = (if islower c then c - 32 else c)"

lemmas ctype_defs = isdigit_def islower_def isupper_def isalpha_def isalnum_def iscntrl_def ispunct_def
  isspace_def isxdigit_def tolower_def toupper_def

end
