(* ===== verification/Ltm.thy ===== *)
theory Ltm
  imports Ltable_spec Cstring
begin

text \<open>
  Tag methods (ltm.h, ltm.c) over the part of the state every thread shares: the tables of the
  heap, the metatables of the basic types and of userdata, the registry and the marks of the
  collector. The states of the C interface and of the virtual machine extend this record.

  The names \<open>G(L)->tmname\<close> are the interned strings \<open>luaT_init\<close> stores: the names themselves.
\<close>

record global_State =
  l_heap :: "addr \<Rightarrow> Table option"
  l_mt :: "nat \<Rightarrow> addr option"
  l_udata :: "addr \<Rightarrow> (nat \<times> addr option) option"
  l_registry :: TValue
  l_gc :: gc_core

definition hvalue :: "'a global_State_scheme \<Rightarrow> TValue \<Rightarrow> Table result" where
  "hvalue L v = (case v of TTable p \<Rightarrow> (case l_heap L p of Some t \<Rightarrow> Inr t | None \<Rightarrow> Inl MemoryFault)
     | _ \<Rightarrow> Inl MemoryFault)"

definition table_at :: "'a global_State_scheme \<Rightarrow> addr \<Rightarrow> Table result" where
  "table_at L p = (case l_heap L p of Some t \<Rightarrow> Inr t | None \<Rightarrow> Inl MemoryFault)"

definition set_table_at :: "addr \<Rightarrow> Table \<Rightarrow> 'a global_State_scheme \<Rightarrow> 'a global_State_scheme" where
  "set_table_at p t L = L\<lparr>l_heap := (l_heap L)(p \<mapsto> t)\<rparr>"

subsection \<open>Events\<close>

datatype TMS = TM_INDEX | TM_NEWINDEX | TM_GC | TM_MODE | TM_EQ | TM_ADD | TM_SUB | TM_MUL | TM_DIV | TM_MOD
  | TM_POW | TM_UNM | TM_LEN | TM_LT | TM_LE | TM_CONCAT | TM_CALL

fun tm_number :: "TMS \<Rightarrow> nat" where
  "tm_number TM_INDEX = 0" | "tm_number TM_NEWINDEX = 1" | "tm_number TM_GC = 2" | "tm_number TM_MODE = 3"
| "tm_number TM_EQ = 4" | "tm_number TM_ADD = 5" | "tm_number TM_SUB = 6" | "tm_number TM_MUL = 7"
| "tm_number TM_DIV = 8" | "tm_number TM_MOD = 9" | "tm_number TM_POW = 10" | "tm_number TM_UNM = 11"
| "tm_number TM_LEN = 12" | "tm_number TM_LT = 13" | "tm_number TM_LE = 14" | "tm_number TM_CONCAT = 15"
| "tm_number TM_CALL = 16"

definition luaT_eventname :: "string list" where
  "luaT_eventname = [''__index'', ''__newindex'', ''__gc'', ''__mode'', ''__eq'',
     ''__add'', ''__sub'', ''__mul'', ''__div'', ''__mod'', ''__pow'', ''__unm'', ''__len'', ''__lt'', ''__le'',
     ''__concat'', ''__call'']"

definition tmname :: "TMS \<Rightarrow> TString" where
  "tmname event = luaT_eventname ! tm_number event"

definition luaT_typenames :: "string list" where
  "luaT_typenames = [''nil'', ''boolean'', ''userdata'', ''number'', ''string'', ''table'', ''function'',
     ''userdata'', ''thread'', ''proto'', ''upval'']"

subsection \<open>Access to tag methods\<close>

text \<open>The bit of an event in the cache byte \<open>flags\<close>, and the test of \<open>gfasttm\<close>.\<close>

definition tm_bit :: "TMS \<Rightarrow> lu_byte" where
  "tm_bit event = push_bit (tm_number event) 1"

definition tm_absent :: "Table \<Rightarrow> TMS \<Rightarrow> bool" where
  "tm_absent t event \<longleftrightarrow> flags t AND tm_bit event \<noteq> 0"

definition luaT_gettm :: "Table \<Rightarrow> TMS \<Rightarrow> (TValue option \<times> Table) result" where
  "luaT_gettm events event =
     bind_result (luaH_getstr events (tmname event)) (\<lambda>s.
       let tm = slot_val events s in
       if tm = TNil then Inr (None, events\<lparr>flags := flags events OR tm_bit event\<rparr>)
       else Inr (Some tm, events))"

definition fasttm :: "'a global_State_scheme \<Rightarrow> addr option \<Rightarrow> TMS \<Rightarrow> (TValue option \<times> 'a global_State_scheme) result" where
  "fasttm L et event =
     (case et of None \<Rightarrow> Inr (None, L)
      | Some p \<Rightarrow> bind_result (table_at L p) (\<lambda>t.
          if tm_absent t event then Inr (None, L)
          else bind_result (luaT_gettm t event) (\<lambda>(tm, t). Inr (tm, set_table_at p t L))))"

text \<open>The metatable of a value, and its tag method for an event; nil if there is none.\<close>

definition metatable_of :: "'a global_State_scheme \<Rightarrow> TValue \<Rightarrow> addr option result" where
  "metatable_of L v = (case v of
       TTable p \<Rightarrow> bind_result (table_at L p) (\<lambda>t. Inr (metatable t))
     | TUserdata p \<Rightarrow> (case l_udata L p of Some (_, mt) \<Rightarrow> Inr mt | None \<Rightarrow> Inl MemoryFault)
     | _ \<Rightarrow> Inr (l_mt L (ttype v)))"

definition luaT_gettmbyobj :: "'a global_State_scheme \<Rightarrow> TValue \<Rightarrow> TMS \<Rightarrow> TValue result" where
  "luaT_gettmbyobj L v event =
     bind_result (metatable_of L v) (\<lambda>mt. case mt of
       None \<Rightarrow> Inr TNil
     | Some p \<Rightarrow> bind_result (table_at L p) (\<lambda>t.
         bind_result (luaH_getstr t (tmname event)) (\<lambda>s. Inr (slot_val t s))))"

end
