(* ===== verification/Lnumarith.thy ===== *)
theory Lnumarith
  imports Lnumber
begin

text \<open>
  The arithmetic of luaconf.h (\<open>luai_numadd\<close> to \<open>luai_numunm\<close>) on binary64 bit patterns, in
  round-to-nearest mode: the exact result is computed on integers and rounded once.
  A NaN result is the default quiet NaN. \<open>pow\<close> is a function of the C library.
\<close>

subsection \<open>Rounding\<close>

definition dbl_nan :: lua_Number where "dbl_nan = mk_dbl False 2047 (2 ^ 51)"
definition dbl_inf :: "bool \<Rightarrow> lua_Number" where "dbl_inf s = mk_dbl s 2047 0"
definition dbl_zero :: "bool \<Rightarrow> lua_Number" where "dbl_zero s = mk_dbl s 0 0"
definition dbl_isinf :: "lua_Number \<Rightarrow> bool" where "dbl_isinf n \<longleftrightarrow> dbl_exp n = 2047 \<and> dbl_frac n = 0"

text \<open>A finite value is \<open>dbl_mant n * 2 ^ dbl_scale n\<close>, with its sign.\<close>

definition dbl_mant :: "lua_Number \<Rightarrow> nat" where
  "dbl_mant n = dbl_frac n + (if dbl_exp n = 0 then 0 else 2 ^ 52)"

definition dbl_scale :: "lua_Number \<Rightarrow> int" where
  "dbl_scale n = int (max 1 (dbl_exp n)) - 1075"

text \<open>Divide by a power of two, rounding to nearest, ties to even.\<close>

definition round_shift :: "nat \<Rightarrow> nat \<Rightarrow> nat" where
  "round_shift m k =
     (let d = 2 ^ k; q = m div d; r = m mod d in if d < 2 * r \<or> (2 * r = d \<and> odd q) then q + 1 else q)"

text \<open>
  The value \<open>m * 2 ^ e\<close> with sign \<open>s\<close>, rounded: \<open>k\<close> places are dropped, so that 53 bits are left
  or, near zero, the last place is that of the subnormal numbers.
\<close>

definition round_dbl :: "bool \<Rightarrow> nat \<Rightarrow> int \<Rightarrow> lua_Number" where
  "round_dbl s m e =
     (if m = 0 then dbl_zero s
      else let k = max (int (floor_log2 m) - 52) (- 1074 - e);
               q = (if 0 \<le> k then round_shift m (nat k) else m * 2 ^ nat (- k));
               x = nat (e + k + 1075);
               (q, x) = (if q = 2 ^ 53 then (2 ^ 52, x + 1) else (q, x))
           in if q < 2 ^ 52 then mk_dbl s 0 q
              else if 2047 \<le> x then dbl_inf s
              else mk_dbl s x (q - 2 ^ 52))"

subsection \<open>The operations\<close>

definition luai_numunm :: "lua_Number \<Rightarrow> lua_Number" where
  "luai_numunm a = mk_dbl (\<not> dbl_sign a) (dbl_exp a) (dbl_frac a)"

definition signed :: "bool \<Rightarrow> nat \<Rightarrow> int" where
  "signed s m = (if s then - int m else int m)"

definition luai_numadd :: "lua_Number \<Rightarrow> lua_Number \<Rightarrow> lua_Number" where
  "luai_numadd a b =
     (if dbl_isnan a \<or> dbl_isnan b then dbl_nan
      else if dbl_isinf a then (if dbl_isinf b \<and> dbl_sign a \<noteq> dbl_sign b then dbl_nan else a)
      else if dbl_isinf b then b
      else let e = min (dbl_scale a) (dbl_scale b);
               x = signed (dbl_sign a) (dbl_mant a * 2 ^ nat (dbl_scale a - e)) +
                   signed (dbl_sign b) (dbl_mant b * 2 ^ nat (dbl_scale b - e))
           in if x = 0 then dbl_zero (dbl_sign a \<and> dbl_sign b) else round_dbl (x < 0) (nat \<bar>x\<bar>) e)"

definition luai_numsub :: "lua_Number \<Rightarrow> lua_Number \<Rightarrow> lua_Number" where
  "luai_numsub a b = (if dbl_isnan b then dbl_nan else luai_numadd a (luai_numunm b))"

definition luai_nummul :: "lua_Number \<Rightarrow> lua_Number \<Rightarrow> lua_Number" where
  "luai_nummul a b =
     (let s = (dbl_sign a \<noteq> dbl_sign b) in
      if dbl_isnan a \<or> dbl_isnan b then dbl_nan
      else if dbl_isinf a \<or> dbl_isinf b then (if dbl_iszero a \<or> dbl_iszero b then dbl_nan else dbl_inf s)
      else round_dbl s (dbl_mant a * dbl_mant b) (dbl_scale a + dbl_scale b))"

text \<open>
  The quotient has at least 55 significant bits; the last bit is set when a remainder is left,
  so that the rounding sees which side of a tie the quotient is on.
\<close>

definition luai_numdiv :: "lua_Number \<Rightarrow> lua_Number \<Rightarrow> lua_Number" where
  "luai_numdiv a b =
     (let s = (dbl_sign a \<noteq> dbl_sign b) in
      if dbl_isnan a \<or> dbl_isnan b then dbl_nan
      else if dbl_isinf a then (if dbl_isinf b then dbl_nan else dbl_inf s)
      else if dbl_isinf b then dbl_zero s
      else if dbl_iszero b then (if dbl_iszero a then dbl_nan else dbl_inf s)
      else let n = dbl_mant a * 2 ^ 110; d = dbl_mant b;
               q = 2 * (n div d) + of_bool (n mod d \<noteq> 0)
           in round_dbl s q (dbl_scale a - dbl_scale b - 111))"

definition dbl_floor :: "lua_Number \<Rightarrow> lua_Number" where
  "dbl_floor a =
     (if dbl_exp a = 2047 \<or> 0 \<le> dbl_scale a then a
      else let d = 2 ^ nat (- dbl_scale a); m = dbl_mant a;
               q = (if dbl_sign a \<and> m mod d \<noteq> 0 then m div d + 1 else m div d)
           in round_dbl (dbl_sign a) q 0)"

definition luai_nummod :: "lua_Number \<Rightarrow> lua_Number \<Rightarrow> lua_Number" where
  "luai_nummod a b = luai_numsub a (luai_nummul (dbl_floor (luai_numdiv a b)) b)"

subsection \<open>Small integers are exact\<close>

lemma floor_log2_shift: "0 < m \<Longrightarrow> floor_log2 (m * 2 ^ i) = floor_log2 m + i"
  using floor_log2_bounds [of m] by (intro floor_log2_unique) (auto simp: power_add)

lemma round_shift_exact: "round_shift (q * 2 ^ k) k = q"
  by (simp add: round_shift_def)

lemma round_dbl_int:
  assumes "0 < m" "m < 2 ^ 53"
  shows "round_dbl s (m * 2 ^ i) (- int i) = cast_num (signed s m)"
proof -
  define l where "l = floor_log2 m"
  have l: "2 ^ l \<le> m" "m < 2 ^ Suc l" using floor_log2_bounds [of m] assms(1) by (simp_all add: l_def)
  have l52: "l \<le> 52" using floor_log2_less [OF assms(1,2)] by (simp add: l_def)
  let ?k = "int (l + i) - 52" and ?q = "m * 2 ^ (52 - l)"
  have k: "max (int (floor_log2 (m * 2 ^ i)) - 52) (- 1074 - - int i) = ?k"
    by (simp add: floor_log2_shift [OF assms(1)] l_def max_def)
  have q: "(if 0 \<le> ?k then round_shift (m * 2 ^ i) (nat ?k) else m * 2 ^ i * 2 ^ nat (- ?k)) = ?q"
  proof (cases "0 \<le> ?k")
    case True
    then have "i = (52 - l) + nat ?k" using l52 by simp
    then have "m * 2 ^ i = ?q * 2 ^ nat ?k" by (metis mult.assoc power_add)
    with True round_shift_exact [of ?q "nat ?k"] show ?thesis by (simp only: if_True)
  next
    case False
    then have "52 - l = i + nat (- ?k)" using l52 by simp
    then have "m * 2 ^ i * 2 ^ nat (- ?k) = ?q" by (metis mult.assoc power_add)
    with False show ?thesis by (simp only: if_False)
  qed
  have p: "(2::nat) ^ 52 = 2 ^ l * 2 ^ (52 - l)" using l52 by (simp flip: power_add)
  have b: "2 ^ 52 \<le> ?q" "?q < 2 ^ 53"
  proof -
    show "2 ^ 52 \<le> ?q" unfolding p using l by (intro mult_right_mono) auto
    have "?q < 2 * 2 ^ l * 2 ^ (52 - l)" using l by (intro mult_strict_right_mono) auto
    also have "\<dots> = 2 ^ 53" using p by simp
    finally show "?q < 2 ^ 53" .
  qed
  have x: "nat (- int i + ?k + 1075) = 1023 + l" by simp
  have "round_dbl s (m * 2 ^ i) (- int i) = mk_dbl s (1023 + l) (?q - 2 ^ 52)"
    unfolding round_dbl_def k Let_def q x using assms(1) b l52 by simp
  moreover have "?q - 2 ^ 52 = (m - 2 ^ l) * 2 ^ (52 - l)" unfolding p by (simp add: diff_mult_distrib)
  moreover have "signed s m \<noteq> 0" "nat \<bar>signed s m\<bar> = m" "(signed s m < 0) = s"
    using assms(1) by (auto simp: signed_def)
  ultimately show ?thesis by (simp add: cast_num_def Let_def flip: l_def)
qed

text \<open>The fields of the number that holds a non-zero integer.\<close>

lemma cast_num_mant:
  assumes "k \<noteq> 0" "\<bar>k\<bar> < 2 ^ 53" "l = floor_log2 (nat \<bar>k\<bar>)"
  shows "dbl_sign (cast_num k) = (k < 0)" "dbl_mant (cast_num k) = nat \<bar>k\<bar> * 2 ^ (52 - l)"
    "dbl_scale (cast_num k) = int l - 52" "l \<le> 52" "dbl_exp (cast_num k) \<noteq> 2047" "dbl_exp (cast_num k) \<noteq> 0"
    "dbl_exp (cast_num k) = 1023 + l" "dbl_frac (cast_num k) = (nat \<bar>k\<bar> - 2 ^ l) * 2 ^ (52 - l)"
proof -
  define m where "m = nat \<bar>k\<bar>"
  have m: "0 < m" "m < 2 ^ 53" using assms(1,2) by (simp_all add: m_def nat_less_iff)
  have l: "2 ^ l \<le> m" "m < 2 ^ Suc l" using floor_log2_bounds [of m] m by (simp_all add: assms(3) m_def)
  show l52: "l \<le> 52" using floor_log2_less [OF m] by (simp add: assms(3) m_def)
  have p: "(2::nat) ^ 52 = 2 ^ l * 2 ^ (52 - l)" using l52 by (simp flip: power_add)
  have f: "(m - 2 ^ l) * 2 ^ (52 - l) < 2 ^ 52" unfolding p using l by (intro mult_strict_right_mono) auto
  have e: "1023 + l < 2 ^ 11" using l52 by simp
  have eq: "cast_num k = mk_dbl (k < 0) (1023 + l) ((m - 2 ^ l) * 2 ^ (52 - l))"
    using assms(1) by (simp add: cast_num_def Let_def assms(3) m_def)
  note fs = dbl_fields_mk_dbl [OF e f]
  show "dbl_sign (cast_num k) = (k < 0)" unfolding eq fs ..
  show "dbl_exp (cast_num k) = 1023 + l" unfolding eq fs ..
  show "dbl_frac (cast_num k) = (nat \<bar>k\<bar> - 2 ^ l) * 2 ^ (52 - l)" unfolding eq fs by (simp add: m_def)
  show "dbl_exp (cast_num k) \<noteq> 2047" "dbl_exp (cast_num k) \<noteq> 0" unfolding eq fs using l52 by simp_all
  show "dbl_scale (cast_num k) = int l - 52" unfolding dbl_scale_def eq fs by simp
  have "(m - 2 ^ l) * 2 ^ (52 - l) + 2 ^ 52 = m * 2 ^ (52 - l)"
    unfolding p using l by (metis add_mult_distrib le_add_diff_inverse2)
  then show "dbl_mant (cast_num k) = nat \<bar>k\<bar> * 2 ^ (52 - l)"
    unfolding dbl_mant_def eq fs by (simp add: m_def)
qed

text \<open>The same with zero: a common form for both operands of a sum.\<close>

lemma cast_num_finite:
  assumes "\<bar>k\<bar> < 2 ^ 53"
  shows "\<not> dbl_isnan (cast_num k)" "\<not> dbl_isinf (cast_num k)" "dbl_sign (cast_num k) = (k < 0)"
    "dbl_iszero (cast_num k) \<longleftrightarrow> k = 0"
  using cast_num_mant [of k, OF _ assms refl]
  by (cases "k = 0"; auto simp: dbl_isnan_def dbl_isinf_def dbl_iszero_def)+

lemma cast_num_scale: "\<bar>k\<bar> < 2 ^ 53 \<Longrightarrow> - 1074 \<le> dbl_scale (cast_num k) \<and> dbl_scale (cast_num k) \<le> 0"
  using cast_num_mant(3,4) [of k, OF _ _ refl] by (cases "k = 0") (auto simp: dbl_scale_def)

lemma signed_sign: "signed (k < 0) (nat \<bar>k\<bar>) = k"
  by (simp add: signed_def)

lemma signed_scaled: "signed (k < 0) (nat \<bar>k\<bar> * 2 ^ n) = k * 2 ^ n"
  by (simp add: signed_def)

lemma cast_num_mant_scaled:
  assumes "\<bar>k\<bar> < 2 ^ 53" "e \<le> dbl_scale (cast_num k)"
  shows "dbl_mant (cast_num k) * 2 ^ nat (dbl_scale (cast_num k) - e) = nat \<bar>k\<bar> * 2 ^ nat (- e)"
proof (cases "k = 0")
  case True
  then show ?thesis by (simp add: dbl_mant_def)
next
  case False
  note f = cast_num_mant [OF False assms(1) refl]
  let ?l = "floor_log2 (nat \<bar>k\<bar>)"
  have "nat (- e) = (52 - ?l) + nat (int ?l - 52 - e)" using assms(2) f(3,4) by linarith
  then show ?thesis unfolding f(2,3) by (simp add: power_add mult.assoc)
qed

lemma numadd_int:
  assumes "\<bar>a\<bar> < 2 ^ 53" "\<bar>b\<bar> < 2 ^ 53" "\<bar>a + b\<bar> < 2 ^ 53"
  shows "luai_numadd (cast_num a) (cast_num b) = cast_num (a + b)"
proof -
  define e where "e = min (dbl_scale (cast_num a)) (dbl_scale (cast_num b))"
  have e: "e \<le> 0" using cast_num_scale [OF assms(1)] by (auto simp: e_def min_def)
  let ?x = "(a + b) * 2 ^ nat (- e)"
  have x: "signed (dbl_sign (cast_num a)) (dbl_mant (cast_num a) * 2 ^ nat (dbl_scale (cast_num a) - e)) +
      signed (dbl_sign (cast_num b)) (dbl_mant (cast_num b) * 2 ^ nat (dbl_scale (cast_num b) - e)) = ?x"
    using assms by (simp add: cast_num_mant_scaled cast_num_finite signed_scaled e_def distrib_right)
  have "luai_numadd (cast_num a) (cast_num b) =
      (if ?x = 0 then dbl_zero (a < 0 \<and> b < 0) else round_dbl (?x < 0) (nat \<bar>?x\<bar>) e)"
    unfolding luai_numadd_def Let_def e_def [symmetric] x using assms by (simp add: cast_num_finite)
  also have "\<dots> = cast_num (a + b)"
  proof (cases "a + b = 0")
    case True
    then have "\<not> (a < 0 \<and> b < 0)" by simp
    with True show ?thesis by (simp add: dbl_zero_def mk_dbl_def)
  next
    case False
    have "nat \<bar>?x\<bar> = nat \<bar>a + b\<bar> * 2 ^ nat (- e)" by (simp add: abs_mult nat_mult_distrib nat_power_eq)
    moreover have "(?x < 0) = (a + b < 0)" by (simp add: mult_less_0_iff)
    moreover have "e = - int (nat (- e))" using e by simp
    moreover have "nat \<bar>a + b\<bar> < 2 ^ 53" using assms(3) by (simp add: nat_less_iff)
    ultimately have "round_dbl (?x < 0) (nat \<bar>?x\<bar>) e = cast_num (signed (a + b < 0) (nat \<bar>a + b\<bar>))"
      using round_dbl_int [of "nat \<bar>a + b\<bar>" "a + b < 0" "nat (- e)"] False by simp
    with False show ?thesis by (simp only: signed_sign) simp
  qed
  finally show ?thesis .
qed

lemma numunm_int:
  assumes "k \<noteq> 0" "\<bar>k\<bar> < 2 ^ 53"
  shows "luai_numunm (cast_num k) = cast_num (- k)"
proof -
  have k: "- k \<noteq> 0" "\<bar>- k\<bar> < 2 ^ 53" "nat \<bar>- k\<bar> = nat \<bar>k\<bar>" using assms by simp_all
  note f = cast_num_mant [OF assms refl] and g = cast_num_mant [OF k(1,2) refl, unfolded k(3)]
  have "dbl_exp (cast_num k) = dbl_exp (cast_num (- k))" "dbl_frac (cast_num k) = dbl_frac (cast_num (- k))"
    unfolding f(7,8) g(7,8) by (rule refl)+
  moreover have "(\<not> dbl_sign (cast_num k)) = dbl_sign (cast_num (- k))"
    unfolding f(1) g(1) using assms(1) by auto
  ultimately have "luai_numunm (cast_num k) = mk_dbl (dbl_sign (cast_num (- k))) (dbl_exp (cast_num (- k))) (dbl_frac (cast_num (- k)))"
    by (simp add: luai_numunm_def)
  then show ?thesis by (simp add: mk_dbl_fields)
qed

lemma numsub_int:
  assumes "\<bar>a\<bar> < 2 ^ 53" "\<bar>b\<bar> < 2 ^ 53" "\<bar>a - b\<bar> < 2 ^ 53"
  shows "luai_numsub (cast_num a) (cast_num b) = cast_num (a - b)"
proof (cases "b = 0")
  case True
  have z: "luai_numunm 0 = dbl_zero True" by (simp add: luai_numunm_def dbl_zero_def)
  have f: "dbl_exp (dbl_zero s) = 0" "dbl_frac (dbl_zero s) = 0" "dbl_sign (dbl_zero s) = s" for s
    unfolding dbl_zero_def by (rule dbl_fields_mk_dbl; simp)+
  have n: "\<not> dbl_isnan (dbl_zero True)" "\<not> dbl_isinf (dbl_zero True)" "dbl_mant (dbl_zero True) = 0"
      "\<not> dbl_isnan 0" "\<not> dbl_isinf 0" "dbl_mant 0 = 0"
    by (simp_all add: dbl_isnan_def dbl_isinf_def dbl_mant_def f)
  have s: "dbl_scale (dbl_zero True) = dbl_scale 0" by (simp add: dbl_scale_def f)
  have zero: "dbl_zero False = 0" by (simp add: dbl_zero_def mk_dbl_def)
  have "luai_numadd (cast_num a) (dbl_zero True) = luai_numadd (cast_num a) 0"
  proof (cases "a = 0")
    case True
    then show ?thesis by (simp add: luai_numadd_def n signed_def zero Let_def)
  next
    case False
    have "dbl_mant (cast_num a) \<noteq> 0" using cast_num_mant(2) [OF False assms(1) refl] False by simp
    then show ?thesis unfolding luai_numadd_def Let_def s by (simp add: n signed_def)
  qed
  with numadd_int [of a 0] assms True z show ?thesis by (simp add: luai_numsub_def n)
next
  case False
  with numadd_int [of a "- b"] assms show ?thesis
    by (simp add: luai_numsub_def numunm_int cast_num_finite)
qed

text \<open>Products of integers, when no factor is zero.\<close>

lemma nummul_int:
  assumes "\<bar>a\<bar> < 2 ^ 53" "\<bar>b\<bar> < 2 ^ 53" "\<bar>a * b\<bar> < 2 ^ 53" "a \<noteq> 0" "b \<noteq> 0"
  shows "luai_nummul (cast_num a) (cast_num b) = cast_num (a * b)"
proof -
  note fa = cast_num_mant [OF assms(4,1) refl] and fb = cast_num_mant [OF assms(5,2) refl]
  let ?i = "52 - floor_log2 (nat \<bar>a\<bar>)" and ?j = "52 - floor_log2 (nat \<bar>b\<bar>)"
  have m: "dbl_mant (cast_num a) * dbl_mant (cast_num b) = nat \<bar>a * b\<bar> * 2 ^ (?i + ?j)"
    unfolding fa(2) fb(2) by (simp add: abs_mult nat_mult_distrib power_add)
  have e: "dbl_scale (cast_num a) + dbl_scale (cast_num b) = - int (?i + ?j)"
    unfolding fa(3) fb(3) using fa(4) fb(4) by simp
  have "0 < nat \<bar>a * b\<bar>" "nat \<bar>a * b\<bar> < 2 ^ 53" using assms(3-5) by (simp_all add: nat_less_iff)
  from round_dbl_int [OF this, of "(a < 0) \<noteq> (b < 0)" "?i + ?j"]
  have "luai_nummul (cast_num a) (cast_num b) = cast_num (signed ((a < 0) \<noteq> (b < 0)) (nat \<bar>a * b\<bar>))"
    unfolding luai_nummul_def m e using assms by (simp add: cast_num_finite Let_def)
  moreover have "signed ((a < 0) \<noteq> (b < 0)) (nat \<bar>a * b\<bar>) = a * b"
    using assms(4,5) mult_less_0_iff [of a b] by (auto simp: signed_def)
  ultimately show ?thesis by simp
qed


subsection \<open>Comparisons of small integers\<close>

definition dbl_key :: "nat \<Rightarrow> nat" where
  "dbl_key m = (let l = floor_log2 m in (1023 + l) * 2 ^ 52 + (m - 2 ^ l) * 2 ^ (52 - l))"

lemma dbl_key_mono:
  assumes "0 < m" "m < n" "n < 2 ^ 53"
  shows "dbl_key m < dbl_key n"
proof -
  define k l where "k = floor_log2 m" and "l = floor_log2 n"
  have k: "2 ^ k \<le> m" "m < 2 ^ Suc k" and l: "2 ^ l \<le> n" "n < 2 ^ Suc l"
    using floor_log2_bounds [of m] floor_log2_bounds [of n] assms by (simp_all add: k_def l_def)
  have l52: "l \<le> 52" using floor_log2_less [of n 53] assms by (simp add: l_def)
  consider "k = l" | "k < l" | "l < k" by linarith
  then show ?thesis
  proof cases
    case 1
    then have "m - 2 ^ l < n - 2 ^ l" using assms(2) k by simp
    then have "(m - 2 ^ l) * 2 ^ (52 - l) < (n - 2 ^ l) * 2 ^ (52 - l)" by simp
    with 1 show ?thesis by (simp add: dbl_key_def flip: k_def l_def)
  next
    case 2
    then have "k \<le> 52" using l52 by simp
    have "(m - 2 ^ k) * 2 ^ (52 - k) < 2 ^ k * 2 ^ (52 - k)" using k by (intro mult_strict_right_mono) auto
    also have "\<dots> = 2 ^ 52" using \<open>k \<le> 52\<close> by (simp flip: power_add)
    finally have "(1023 + k) * 2 ^ 52 + (m - 2 ^ k) * 2 ^ (52 - k) < (1023 + Suc k) * 2 ^ 52" by simp
    also have "\<dots> \<le> (1023 + l) * 2 ^ 52" using 2 by (intro mult_right_mono) auto
    also have "\<dots> \<le> (1023 + l) * 2 ^ 52 + (n - 2 ^ l) * 2 ^ (52 - l)" by simp
    finally show ?thesis by (simp add: dbl_key_def flip: k_def l_def)
  next
    case 3
    then have "(2::nat) ^ Suc l \<le> 2 ^ k" by (intro power_increasing) auto
    with k l assms show ?thesis by linarith
  qed
qed

lemma dbl_ord_cast_num:
  assumes "\<bar>k\<bar> < 2 ^ 53"
  shows "dbl_ord (cast_num k) = (if k = 0 then 0 else if k < 0 then - int (dbl_key (nat \<bar>k\<bar>)) else int (dbl_key (nat \<bar>k\<bar>)))"
proof (cases "k = 0")
  case False
  note f = cast_num_mant [OF False assms refl]
  show ?thesis unfolding dbl_ord_def f(1,7,8) Let_def dbl_key_def using False by simp
qed (simp add: dbl_ord_def)

lemma dbl_ord_0 [simp]: "dbl_ord 0 = 0"
  by (simp add: dbl_ord_def)

lemma dbl_key_pos: "0 < dbl_key m"
  by (simp add: dbl_key_def Let_def)

lemma dbl_ord_cast_num_mono:
  assumes "\<bar>a\<bar> < 2 ^ 53" "\<bar>b\<bar> < 2 ^ 53" "a < b"
  shows "dbl_ord (cast_num a) < dbl_ord (cast_num b)"
proof -
  have n: "nat \<bar>a\<bar> < 2 ^ 53" "nat \<bar>b\<bar> < 2 ^ 53" using assms by (simp_all add: nat_less_iff)
  consider "0 < a" | "a = 0" | "a < 0" "b < 0" | "a < 0" "0 \<le> b" by linarith
  then show ?thesis
  proof cases
    case 1
    then have "dbl_key (nat \<bar>a\<bar>) < dbl_key (nat \<bar>b\<bar>)" using assms(3) n by (intro dbl_key_mono) auto
    with 1 assms show ?thesis by (simp add: dbl_ord_cast_num)
  next
    case 2
    with assms dbl_key_pos [of "nat \<bar>b\<bar>"] show ?thesis by (simp add: dbl_ord_cast_num)
  next
    case 3
    then have "dbl_key (nat \<bar>b\<bar>) < dbl_key (nat \<bar>a\<bar>)" using assms(3) n by (intro dbl_key_mono) auto
    with 3 assms show ?thesis by (simp add: dbl_ord_cast_num)
  next
    case 4
    with assms dbl_key_pos [of "nat \<bar>a\<bar>"] dbl_key_pos [of "nat \<bar>b\<bar>"] show ?thesis by (simp add: dbl_ord_cast_num)
  qed
qed

lemma numlt_int: "\<bar>a\<bar> < 2 ^ 53 \<Longrightarrow> \<bar>b\<bar> < 2 ^ 53 \<Longrightarrow> luai_numlt (cast_num a) (cast_num b) \<longleftrightarrow> a < b"
  using dbl_ord_cast_num_mono [of a b] dbl_ord_cast_num_mono [of b a]
  by (cases a b rule: linorder_cases) (auto simp: luai_numlt_def cast_num_finite)

lemma numle_int: "\<bar>a\<bar> < 2 ^ 53 \<Longrightarrow> \<bar>b\<bar> < 2 ^ 53 \<Longrightarrow> luai_numle (cast_num a) (cast_num b) \<longleftrightarrow> a \<le> b"
  using dbl_ord_cast_num_mono [of a b] dbl_ord_cast_num_mono [of b a]
  by (cases a b rule: linorder_cases) (auto simp: luai_numle_def cast_num_finite)

end
