(* ===== verification/Lapi.thy ===== *)
theory Lapi
  imports Ltm Lnumarith
begin

text \<open>
  The C interface of lapi.c, seen from the running C function: its stack frame (the values
  from \<open>L->base\<close> to \<open>L->top\<close>), the slots it may still use, the pseudo-indices (registry,
  environment, globals, upvalues), the heap of tables and the marks of the collector. A read or
  write outside the frame is the outcome \<open>MemoryFault\<close>; so is what \<open>api_check\<close> only tests in
  debug builds.

  Conversions between numbers and their decimal text are those of the C library: \<open>strtod\<close>
  and \<open>strtoul\<close> (value and number of characters used) and \<open>sprintf\<close> with \<open>LUA_NUMBER_FMT\<close>,
  with \<open>pow\<close>, are fields of the record \<open>clib\<close>.
\<close>

record clib =
  c_strtod :: "string \<Rightarrow> lua_Number \<times> nat"
  c_strtoul16 :: "string \<Rightarrow> nat \<times> nat"
  c_number2str :: "lua_Number \<Rightarrow> string"
  c_pointer2str :: "addr \<Rightarrow> string"
  c_pow :: "lua_Number \<Rightarrow> lua_Number \<Rightarrow> lua_Number"

subsection \<open>Conversions\<close>

text \<open>\<open>lua_Integer\<close> is \<open>ptrdiff_t\<close>, 64 bits; the conversions of x86-64 (\<open>cvttsd2si\<close>, \<open>cvtsi2sd\<close>).\<close>

definition lua_number2integer :: "lua_Number \<Rightarrow> int" where
  "lua_number2integer n =
     (if dbl_exp n = 2047 then - (2 ^ 63)
      else let k = (if dbl_sign n then - int (dbl_trunc_mag n) else int (dbl_trunc_mag n))
           in if - (2 ^ 63) \<le> k \<and> k < 2 ^ 63 then k else - (2 ^ 63))"

text \<open>An integer as the nearest double, ties to even; exact up to \<open>2 ^ 53\<close>.\<close>

definition integer2number :: "int \<Rightarrow> lua_Number" where
  "integer2number k =
     (let m = nat \<bar>k\<bar>; l = floor_log2 m in
      if l \<le> 52 then cast_num k
      else let d = 2 ^ (l - 52); q = m div d; r = m mod d;
               q' = (if 2 * r > d \<or> 2 * r = d \<and> odd q then q + 1 else q)
           in if q' = 2 ^ 53 then mk_dbl (k < 0) (1024 + l) 0 else mk_dbl (k < 0) (1023 + l) (q' - 2 ^ 52))"

text \<open>The loop over trailing blanks, from the position \<open>strtod\<close> stopped at.\<close>

function skip_blanks :: "string \<Rightarrow> nat \<Rightarrow> nat result" where
  "skip_blanks s e = bind_result (cchar s e) (\<lambda>c. if isspace (uchar c) then skip_blanks s (e + 1) else Inr e)"
  by pat_completeness auto
termination by (relation "measure (\<lambda>(s, e). Suc (length s) - e)") (auto dest!: cchar_InrD)

declare skip_blanks.simps [simp del]

definition luaO_str2d :: "clib \<Rightarrow> string \<Rightarrow> lua_Number option result" where
  "luaO_str2d C s =
     (let (r, e) = c_strtod C s in
      if e = 0 then Inr None
      else bind_result (cchar s e) (\<lambda>c.
        let (r, e) = (if c = CHR ''x'' \<or> c = CHR ''X''
                      then let (v, e) = c_strtoul16 C s in (integer2number (int v), e) else (r, e)) in
        bind_result (cchar s e) (\<lambda>c.
          if c = CHR 0x00 then Inr (Some r)
          else bind_result (skip_blanks s e) (\<lambda>e.
            bind_result (cchar s e) (\<lambda>c. Inr (if c \<noteq> CHR 0x00 then None else Some r))))))"

text \<open>A C string ends at its first zero.\<close>

definition c_str :: "string \<Rightarrow> string" where
  "c_str s = takeWhile (\<lambda>c. c \<noteq> CHR 0x00) s"

definition luaV_tonumber :: "clib \<Rightarrow> TValue \<Rightarrow> lua_Number option result" where
  "luaV_tonumber C v =
     (case v of TNumber n \<Rightarrow> Inr (Some n) | TStr s \<Rightarrow> luaO_str2d C (c_str s) | _ \<Rightarrow> Inr None)"

fun luaV_tostring :: "clib \<Rightarrow> TValue \<Rightarrow> TString option" where
  "luaV_tostring C (TNumber n) = Some (c_number2str C n)"
| "luaV_tostring C _ = None"

subsection \<open>The state\<close>

text \<open>
  \<open>slots\<close> is \<open>ci->top - base\<close>. \<open>l_name\<close> is what \<open>lua_getinfo\<close> says of the running call
  (\<open>namewhat\<close> and \<open>name\<close>), \<open>l_where\<close> the source and line of its caller, for messages.
\<close>

record CClosure =
  cc_env :: addr
  cc_upvalue :: "TValue list"

record lua_State = global_State +
  stk :: "TValue list"
  slots :: nat
  l_func :: "CClosure option"
  l_gt :: TValue
  l_name :: "(string \<times> string option) option"
  l_where :: "(string \<times> int) option"

definition LUA_REGISTRYINDEX :: int where "LUA_REGISTRYINDEX = - 10000"
definition LUA_ENVIRONINDEX :: int where "LUA_ENVIRONINDEX = - 10001"
definition LUA_GLOBALSINDEX :: int where "LUA_GLOBALSINDEX = - 10002"
definition lua_upvalueindex :: "int \<Rightarrow> int" where "lua_upvalueindex i = LUA_GLOBALSINDEX - i"
definition LUAI_MAXCSTACK :: int where "LUAI_MAXCSTACK = 8000"
definition LUA_TNONE :: int where "LUA_TNONE = - 1"

text \<open>What \<open>index2adr\<close> points to; \<open>NilObj\<close> is \<open>luaO_nilobject\<close>.\<close>

datatype place = Slot nat | RegistryP | EnvironP | GlobalsP | UpvalP nat | NilObj

definition index2adr :: "lua_State \<Rightarrow> int \<Rightarrow> place result" where
  "index2adr L idx =
     (if 0 < idx then
        (if nat (idx - 1) \<ge> length (stk L) then Inr NilObj else Inr (Slot (nat (idx - 1))))
      else if idx > LUA_REGISTRYINDEX then
        (if idx \<noteq> 0 \<and> - idx \<le> int (length (stk L)) then Inr (Slot (nat (int (length (stk L)) + idx))) else Inl MemoryFault)
      else if idx = LUA_REGISTRYINDEX then Inr RegistryP
      else if idx = LUA_ENVIRONINDEX then (case l_func L of None \<Rightarrow> Inl MemoryFault | Some f \<Rightarrow> Inr EnvironP)
      else if idx = LUA_GLOBALSINDEX then Inr GlobalsP
      else (case l_func L of None \<Rightarrow> Inl MemoryFault
            | Some f \<Rightarrow> let i = LUA_GLOBALSINDEX - idx in
                if i \<le> int (length (cc_upvalue f)) then Inr (UpvalP (nat (i - 1))) else Inr NilObj))"

text \<open>The value at a place (\<open>nil\<close> at \<open>luaO_nilobject\<close>), and an assignment to it.\<close>

definition value_at :: "lua_State \<Rightarrow> place \<Rightarrow> TValue result" where
  "value_at L p = (case p of
       Slot i \<Rightarrow> if i < length (stk L) then Inr (stk L ! i) else Inl MemoryFault
     | RegistryP \<Rightarrow> Inr (l_registry L)
     | EnvironP \<Rightarrow> (case l_func L of None \<Rightarrow> Inl MemoryFault | Some f \<Rightarrow> Inr (TTable (cc_env f)))
     | GlobalsP \<Rightarrow> Inr (l_gt L)
     | UpvalP i \<Rightarrow> (case l_func L of None \<Rightarrow> Inl MemoryFault
         | Some f \<Rightarrow> if i < length (cc_upvalue f) then Inr (cc_upvalue f ! i) else Inl MemoryFault)
     | NilObj \<Rightarrow> Inr TNil)"

definition set_place :: "lua_State \<Rightarrow> place \<Rightarrow> TValue \<Rightarrow> lua_State result" where
  "set_place L p v = (case p of
       Slot i \<Rightarrow> if i < length (stk L) then Inr (L\<lparr>stk := (stk L)[i := v]\<rparr>) else Inl MemoryFault
     | RegistryP \<Rightarrow> Inr (L\<lparr>l_registry := v\<rparr>)
     | GlobalsP \<Rightarrow> Inr (L\<lparr>l_gt := v\<rparr>)
     | UpvalP i \<Rightarrow> (case l_func L of None \<Rightarrow> Inl MemoryFault
         | Some f \<Rightarrow> if i < length (cc_upvalue f)
             then Inr (L\<lparr>l_func := Some (f\<lparr>cc_upvalue := (cc_upvalue f)[i := v]\<rparr>)\<rparr>) else Inl MemoryFault)
     | _ \<Rightarrow> Inl MemoryFault)"

definition index_value :: "lua_State \<Rightarrow> int \<Rightarrow> TValue result" where
  "index_value L idx = bind_result (index2adr L idx) (value_at L)"

text \<open>\<open>api_incr_top\<close>: one more value on the stack.\<close>

definition push :: "lua_State \<Rightarrow> TValue \<Rightarrow> lua_State result" where
  "push L v = (if length (stk L) < slots L then Inr (L\<lparr>stk := stk L @ [v]\<rparr>) else Inl MemoryFault)"

definition pop :: "lua_State \<Rightarrow> nat \<Rightarrow> lua_State result" where
  "pop L n = (if n \<le> length (stk L) then Inr (L\<lparr>stk := take (length (stk L) - n) (stk L)\<rparr>) else Inl MemoryFault)"

subsection \<open>Basic stack manipulation\<close>

definition lua_checkstack :: "lua_State \<Rightarrow> int \<Rightarrow> bool \<times> lua_State" where
  "lua_checkstack L sz =
     (if sz > LUAI_MAXCSTACK \<or> int (length (stk L)) + sz > LUAI_MAXCSTACK then (False, L)
      else if sz > 0 then (True, L\<lparr>slots := max (slots L) (length (stk L) + nat sz)\<rparr>)
      else (True, L))"

definition lua_gettop :: "lua_State \<Rightarrow> int" where
  "lua_gettop L = int (length (stk L))"

definition lua_settop :: "lua_State \<Rightarrow> int \<Rightarrow> lua_State result" where
  "lua_settop L idx =
     (if idx \<ge> 0 then
        (if nat idx \<le> slots L
         then Inr (L\<lparr>stk := take (nat idx) (stk L @ replicate (nat idx - length (stk L)) TNil)\<rparr>)
         else Inl MemoryFault)
      else pop L (nat (- (idx + 1))))"

text \<open>The loop of \<open>lua_remove\<close> moves each value one slot down, from slot \<open>p\<close> on.\<close>

function shift_down :: "TValue list \<Rightarrow> nat \<Rightarrow> TValue list" where
  "shift_down vs p = (if p + 1 < length vs then shift_down (vs[p := vs ! (p + 1)]) (p + 1) else vs)"
  by pat_completeness auto
termination by (relation "measure (\<lambda>(vs, p). length vs - p)") auto

declare shift_down.simps [simp del]

definition lua_remove :: "lua_State \<Rightarrow> int \<Rightarrow> lua_State result" where
  "lua_remove L idx =
     bind_result (index2adr L idx) (\<lambda>p. case p of
       Slot i \<Rightarrow> pop (L\<lparr>stk := shift_down (stk L) i\<rparr>) 1
     | _ \<Rightarrow> Inl MemoryFault)"

text \<open>
  The loop of \<open>lua_insert\<close> moves each value one slot up, from the slot above the top (\<open>vs\<close> has
  that slot as its last) down to slot \<open>p\<close>.
\<close>

fun shift_up :: "TValue list \<Rightarrow> nat \<Rightarrow> nat \<Rightarrow> TValue list" where
  "shift_up vs p 0 = vs"
| "shift_up vs p (Suc q) = (if p < Suc q then shift_up (vs[Suc q := vs ! q]) p q else vs)"

definition lua_insert :: "lua_State \<Rightarrow> int \<Rightarrow> lua_State result" where
  "lua_insert L idx =
     bind_result (index2adr L idx) (\<lambda>p. case p of
       Slot i \<Rightarrow>
         (let top = length (stk L); vs = shift_up (stk L @ [TNil]) i top; vs = vs[i := vs ! top]
          in Inr (L\<lparr>stk := take top vs\<rparr>))
     | _ \<Rightarrow> Inl MemoryFault)"

definition stack_top :: "lua_State \<Rightarrow> TValue result" where
  "stack_top L = (if stk L = [] then Inl MemoryFault else Inr (last (stk L)))"

definition lua_replace :: "lua_State \<Rightarrow> int \<Rightarrow> lua_State result" where
  "lua_replace L idx =
     (if idx = LUA_ENVIRONINDEX \<and> l_func L = None then Inl (RunError ''no calling environment'')
      else bind_result (stack_top L) (\<lambda>v.
        bind_result (index2adr L idx) (\<lambda>o'.
        bind_result
          (if idx = LUA_ENVIRONINDEX then
             (case (l_func L, v) of (Some f, TTable p) \<Rightarrow> Inr (L\<lparr>l_func := Some (f\<lparr>cc_env := p\<rparr>)\<rparr>)
              | _ \<Rightarrow> Inl MemoryFault)
           else set_place L o' v) (\<lambda>L. pop L 1))))"

definition lua_pushvalue :: "lua_State \<Rightarrow> int \<Rightarrow> lua_State result" where
  "lua_pushvalue L idx = bind_result (index_value L idx) (push L)"

subsection \<open>Access functions\<close>

definition lua_type :: "lua_State \<Rightarrow> int \<Rightarrow> int result" where
  "lua_type L idx =
     bind_result (index2adr L idx) (\<lambda>p. if p = NilObj then Inr LUA_TNONE
       else bind_result (value_at L p) (\<lambda>v. Inr (int (ttype v))))"

definition lua_typename :: "int \<Rightarrow> string" where
  "lua_typename t = (if t = LUA_TNONE then ''no value'' else luaT_typenames ! nat t)"

definition lua_isnumber :: "clib \<Rightarrow> lua_State \<Rightarrow> int \<Rightarrow> bool result" where
  "lua_isnumber C L idx =
     bind_result (index_value L idx) (\<lambda>v. bind_result (luaV_tonumber C v) (\<lambda>n. Inr (n \<noteq> None)))"

definition lua_isstring :: "lua_State \<Rightarrow> int \<Rightarrow> bool result" where
  "lua_isstring L idx = bind_result (lua_type L idx) (\<lambda>t. Inr (t = 4 \<or> t = 3))"

definition lua_isuserdata :: "lua_State \<Rightarrow> int \<Rightarrow> bool result" where
  "lua_isuserdata L idx = bind_result (index_value L idx) (\<lambda>v. Inr (ttype v = 7 \<or> ttype v = 2))"

definition lua_rawequal :: "lua_State \<Rightarrow> int \<Rightarrow> int \<Rightarrow> bool result" where
  "lua_rawequal L i1 i2 =
     bind_result (index2adr L i1) (\<lambda>p1. bind_result (index2adr L i2) (\<lambda>p2.
       if p1 = NilObj \<or> p2 = NilObj then Inr False
       else bind_result (value_at L p1) (\<lambda>v1. bind_result (value_at L p2) (\<lambda>v2. Inr (luaO_rawequalObj v1 v2)))))"

definition lua_tonumber :: "clib \<Rightarrow> lua_State \<Rightarrow> int \<Rightarrow> lua_Number result" where
  "lua_tonumber C L idx =
     bind_result (index_value L idx) (\<lambda>v. bind_result (luaV_tonumber C v) (\<lambda>n.
       Inr (case n of Some n \<Rightarrow> n | None \<Rightarrow> 0)))"

definition lua_tointeger :: "clib \<Rightarrow> lua_State \<Rightarrow> int \<Rightarrow> int result" where
  "lua_tointeger C L idx =
     bind_result (index_value L idx) (\<lambda>v. bind_result (luaV_tonumber C v) (\<lambda>n.
       Inr (case n of Some n \<Rightarrow> lua_number2integer n | None \<Rightarrow> 0)))"

definition lua_toboolean :: "lua_State \<Rightarrow> int \<Rightarrow> bool result" where
  "lua_toboolean L idx = bind_result (index_value L idx) (\<lambda>v. Inr (\<not> l_isfalse v))"

text \<open>A number is converted to a string in its place.\<close>

definition lua_tolstring :: "clib \<Rightarrow> lua_State \<Rightarrow> int \<Rightarrow> (TString option \<times> lua_State) result" where
  "lua_tolstring C L idx =
     bind_result (index2adr L idx) (\<lambda>p. bind_result (value_at L p) (\<lambda>v.
       case v of TStr s \<Rightarrow> Inr (Some s, L)
       | _ \<Rightarrow> (case luaV_tostring C v of
                 None \<Rightarrow> Inr (None, L)
               | Some s \<Rightarrow> bind_result (set_place L p (TStr s)) (\<lambda>L. Inr (Some s, L)))))"

definition lua_objlen :: "clib \<Rightarrow> lua_State \<Rightarrow> int \<Rightarrow> (nat \<times> lua_State) result" where
  "lua_objlen C L idx =
     bind_result (index2adr L idx) (\<lambda>p. bind_result (value_at L p) (\<lambda>v.
       case v of TStr s \<Rightarrow> Inr (length s, L)
       | TUserdata u \<Rightarrow> (case l_udata L u of Some (n, _) \<Rightarrow> Inr (n, L) | None \<Rightarrow> Inl MemoryFault)
       | TTable _ \<Rightarrow> bind_result (hvalue L v) (\<lambda>t. bind_result (luaH_getn t) (\<lambda>n. Inr (n, L)))
       | TNumber _ \<Rightarrow> (case luaV_tostring C v of
           None \<Rightarrow> Inr (0, L)
         | Some s \<Rightarrow> bind_result (set_place L p (TStr s)) (\<lambda>L. Inr (length s, L)))
       | _ \<Rightarrow> Inr (0, L)))"

subsection \<open>Push functions\<close>

definition lua_pushnil :: "lua_State \<Rightarrow> lua_State result" where "lua_pushnil L = push L TNil"
definition lua_pushnumber :: "lua_State \<Rightarrow> lua_Number \<Rightarrow> lua_State result" where "lua_pushnumber L n = push L (TNumber n)"
definition lua_pushinteger :: "lua_State \<Rightarrow> int \<Rightarrow> lua_State result" where
  "lua_pushinteger L n = push L (TNumber (integer2number n))"
definition lua_pushlstring :: "lua_State \<Rightarrow> string \<Rightarrow> lua_State result" where "lua_pushlstring L s = push L (TStr s)"
definition lua_pushstring :: "lua_State \<Rightarrow> string option \<Rightarrow> lua_State result" where
  "lua_pushstring L s = (case s of None \<Rightarrow> lua_pushnil L | Some s \<Rightarrow> lua_pushlstring L (c_str s))"
definition lua_pushboolean :: "lua_State \<Rightarrow> int \<Rightarrow> lua_State result" where "lua_pushboolean L b = push L (TBoolean (b \<noteq> 0))"
definition lua_pushlightuserdata :: "lua_State \<Rightarrow> addr \<Rightarrow> lua_State result" where
  "lua_pushlightuserdata L p = push L (TLightUserdata p)"

subsection \<open>Raw access to tables\<close>

definition lua_rawget :: "lua_State \<Rightarrow> int \<Rightarrow> lua_State result" where
  "lua_rawget L idx =
     bind_result (index_value L idx) (\<lambda>v. bind_result (hvalue L v) (\<lambda>t.
     bind_result (stack_top L) (\<lambda>k. bind_result (luaH_get t k) (\<lambda>p.
       Inr (L\<lparr>stk := butlast (stk L) @ [slot_val t p]\<rparr>)))))"

definition lua_rawgeti :: "lua_State \<Rightarrow> int \<Rightarrow> int \<Rightarrow> lua_State result" where
  "lua_rawgeti L idx n =
     bind_result (index_value L idx) (\<lambda>v. bind_result (hvalue L v) (\<lambda>t.
     bind_result (luaH_getnum t n) (\<lambda>p. push L (slot_val t p))))"

definition set_table :: "lua_State \<Rightarrow> TValue \<Rightarrow> gc_core \<times> Table \<Rightarrow> lua_State" where
  "set_table L v s = (case v of TTable p \<Rightarrow> L\<lparr>l_gc := fst s, l_heap := (l_heap L)(p \<mapsto> snd s)\<rparr> | _ \<Rightarrow> L)"

definition lua_rawset :: "lua_State \<Rightarrow> int \<Rightarrow> lua_State result" where
  "lua_rawset L idx =
     bind_result (index_value L idx) (\<lambda>v. bind_result (hvalue L v) (\<lambda>t.
       let top = length (stk L) in
       if top < 2 then Inl MemoryFault
       else bind_result (lua_rawset_table (l_gc L, t) (stk L ! (top - 2)) (stk L ! (top - 1))) (\<lambda>s.
         pop (set_table L v s) 2)))"

definition lua_rawseti :: "lua_State \<Rightarrow> int \<Rightarrow> int \<Rightarrow> lua_State result" where
  "lua_rawseti L idx n =
     bind_result (index_value L idx) (\<lambda>v. bind_result (hvalue L v) (\<lambda>t.
     bind_result (stack_top L) (\<lambda>x.
     bind_result (lua_rawseti_table (l_gc L, t) n x) (\<lambda>s. pop (set_table L v s) 1))))"

text \<open>
  \<open>fresh\<close> is the address the allocator gives for the new table; the mark it gets is part of the
  collector.
\<close>

definition lua_createtable :: "addr \<Rightarrow> lua_State \<Rightarrow> nat \<Rightarrow> nat \<Rightarrow> lua_State result" where
  "lua_createtable fresh L narray nrec =
     bind_result (luaH_new fresh narray nrec) (\<lambda>t.
       push (L\<lparr>l_heap := (l_heap L)(fresh \<mapsto> t)\<rparr>) (TTable fresh))"

definition lua_getmetatable :: "lua_State \<Rightarrow> int \<Rightarrow> (bool \<times> lua_State) result" where
  "lua_getmetatable L idx =
     bind_result (index_value L idx) (\<lambda>v.
     bind_result (case v of
         TTable _ \<Rightarrow> bind_result (hvalue L v) (\<lambda>t. Inr (metatable t))
       | TUserdata u \<Rightarrow> (case l_udata L u of Some (_, mt) \<Rightarrow> Inr mt | None \<Rightarrow> Inl MemoryFault)
       | _ \<Rightarrow> Inr (l_mt L (ttype v))) (\<lambda>mt.
       case mt of None \<Rightarrow> Inr (False, L)
       | Some p \<Rightarrow> bind_result (push L (TTable p)) (\<lambda>L. Inr (True, L))))"

definition lua_next :: "lua_State \<Rightarrow> int \<Rightarrow> (bool \<times> lua_State) result" where
  "lua_next L idx =
     bind_result (index_value L idx) (\<lambda>v. bind_result (hvalue L v) (\<lambda>t.
     bind_result (stack_top L) (\<lambda>key. bind_result (luaH_next t key) (\<lambda>r.
       case r of
         None \<Rightarrow> bind_result (pop L 1) (\<lambda>L. Inr (False, L))
       | Some (k, x) \<Rightarrow> bind_result (push (L\<lparr>stk := butlast (stk L) @ [k]\<rparr>) x) (\<lambda>L. Inr (True, L))))))"

section \<open>Correctness\<close>

lemma shift_down_spec: "p < length vs \<Longrightarrow> shift_down vs p = take p vs @ drop (p + 1) vs @ [last vs]"
proof (induction "length vs - p" arbitrary: vs p rule: less_induct)
  case less
  show ?case
  proof (cases "p + 1 < length vs")
    case True
    let ?ws = "vs[p := vs ! (p + 1)]"
    have "shift_down ?ws (p + 1) = take (p + 1) ?ws @ drop (p + 1 + 1) ?ws @ [last ?ws]"
      using less.hyps [of ?ws "p + 1"] True by simp
    also have "take (p + 1) ?ws = take p vs @ [vs ! (p + 1)]" using True by (simp add: take_Suc_conv_app_nth)
    also have "last ?ws = last vs" using True by (subst (1 2) last_conv_nth) auto
    also have "drop (p + 1 + 1) ?ws = drop (p + 2) vs" by simp
    finally show ?thesis using True
      by (simp add: shift_down.simps [of vs p] Cons_nth_drop_Suc [symmetric, of "Suc p" vs])
  next
    case False
    then have "p = length vs - 1" "vs \<noteq> []" using less.prems by auto
    then show ?thesis using append_butlast_last_id [of vs]
      by (subst shift_down.simps) (simp add: butlast_conv_take)
  qed
qed

lemma shift_up_spec:
  "p \<le> q \<Longrightarrow> q < length vs \<Longrightarrow> shift_up vs p q = take p vs @ [vs ! p] @ take (q - p) (drop p vs) @ drop (q + 1) vs"
proof (induction q arbitrary: vs)
  case 0
  then show ?case by (simp add: Cons_nth_drop_Suc)
next
  case (Suc q)
  show ?case
  proof (cases "p = Suc q")
    case True
    then show ?thesis using Suc.prems by (simp add: id_take_nth_drop)
  next
    case False
    let ?ws = "vs[Suc q := vs ! q]"
    have "shift_up ?ws p q = take p ?ws @ [?ws ! p] @ take (q - p) (drop p ?ws) @ drop (q + 1) ?ws"
      using Suc False by simp
    also have "take p ?ws = take p vs" using False Suc.prems by simp
    also have "?ws ! p = vs ! p" using False by simp
    also have "take (q - p) (drop p ?ws) = take (q - p) (drop p vs)"
      using False Suc.prems by (simp add: take_drop)
    also have "drop (q + 1) ?ws = vs ! q # drop (Suc q + 1) vs"
      using Suc.prems by (simp add: drop_update_swap Cons_nth_drop_Suc [symmetric, of "Suc q"])
    also have "take (q - p) (drop p vs) @ vs ! q # drop (Suc q + 1) vs = take (Suc q - p) (drop p vs) @ drop (Suc q + 1) vs"
      using False Suc.prems by (simp add: Suc_diff_le take_Suc_conv_app_nth)
    finally show ?thesis using False Suc.prems by simp
  qed
qed

text \<open>A positive index and the negative index of the same slot.\<close>

lemma index2adr_abs:
  "1 \<le> i \<Longrightarrow> i \<le> length (stk L) \<Longrightarrow> index2adr L (int i) = Inr (Slot (i - 1))"
  by (auto simp: index2adr_def nat_diff_distrib)

lemma index2adr_rel:
  "1 \<le> i \<Longrightarrow> i \<le> length (stk L) \<Longrightarrow> length (stk L) < 10000 \<Longrightarrow>
   index2adr L (int i - int (length (stk L)) - 1) = Inr (Slot (i - 1))"
  by (auto simp: index2adr_def LUA_REGISTRYINDEX_def nat_diff_distrib)


lemma index_slot:
  assumes "index2adr L idx = Inr (Slot i)"
  shows "i < length (stk L)"
  using assms by (auto simp: index2adr_def Let_def split: if_splits option.splits)

lemma lua_remove_spec:
  assumes "index2adr L idx = Inr (Slot i)"
  shows "lua_remove L idx = Inr (L\<lparr>stk := take i (stk L) @ drop (i + 1) (stk L)\<rparr>)"
proof -
  have i: "i < length (stk L)" by (rule index_slot [OF assms])
  have "take (length (stk L) - 1) (take i (stk L) @ drop (i + 1) (stk L) @ [last (stk L)]) = take i (stk L) @ drop (i + 1) (stk L)"
    using i by simp
  moreover have "length (shift_down (stk L) i) = length (stk L)" using i by (simp add: shift_down_spec)
  ultimately show ?thesis using i by (simp add: lua_remove_def assms pop_def shift_down_spec)
qed

lemma lua_insert_spec:
  assumes "index2adr L idx = Inr (Slot i)"
  shows "lua_insert L idx = Inr (L\<lparr>stk := take i (stk L) @ [last (stk L)] @ drop i (butlast (stk L))\<rparr>)"
proof -
  let ?s = "stk L" and ?n = "length (stk L)"
  have i: "i < ?n" by (rule index_slot [OF assms])
  let ?vs = "shift_up (?s @ [TNil]) i ?n"
  have sh: "?vs = take i ?s @ [?s ! i] @ drop i ?s"
    using shift_up_spec [of i ?n "?s @ [TNil]"] i by (simp add: nth_append)
  have "stk L \<noteq> []" using i by auto
  then have "?vs ! ?n = last ?s" using i by (simp add: sh nth_append last_conv_nth)
  moreover have "take ?n (?vs[i := x]) = take i ?s @ [x] @ drop i (butlast ?s)" for x
  proof -
    have "?vs[i := x] = take i ?s @ x # drop i ?s" using i unfolding sh by (simp add: list_update_append)
    moreover obtain m where m: "?n - i = Suc m" using i by (cases "?n - i") auto
    moreover have "drop i (butlast ?s) = take m (drop i ?s)"
      using m unfolding butlast_conv_take drop_take by (metis Suc_diff_Suc One_nat_def diff_Suc_1 diff_commute)
    ultimately show ?thesis using i by simp
  qed
  ultimately show ?thesis by (simp add: lua_insert_def assms Let_def)
qed

text \<open>
  Stack surgery: \<open>lua_insert\<close> moves the top value into the slot of its index and the
  values from there on one slot up, \<open>lua_remove\<close> takes the value of its slot out and moves the
  rest down, and a positive index and its negative counterpart name the same slot. Inserting
  and then removing at the same positive index pops the top value.
\<close>

theorem insert_remove_correct:
  assumes "1 \<le> i" "i \<le> length (stk L)" "length (stk L) < 10000"
    and "idx = int i \<or> idx = int i - int (length (stk L)) - 1"
  shows "lua_insert L idx = Inr (L\<lparr>stk := take (i - 1) (stk L) @ [last (stk L)] @ drop (i - 1) (butlast (stk L))\<rparr>) \<and>
    lua_remove L idx = Inr (L\<lparr>stk := take (i - 1) (stk L) @ drop i (stk L)\<rparr>) \<and>
    bind_result (lua_insert L (int i)) (\<lambda>L. lua_remove L (int i)) = pop L 1"
proof (intro conjI)
  have idx: "index2adr L idx = Inr (Slot (i - 1))" using assms index2adr_abs index2adr_rel by auto
  show "lua_insert L idx = Inr (L\<lparr>stk := take (i - 1) (stk L) @ [last (stk L)] @ drop (i - 1) (butlast (stk L))\<rparr>)"
    by (rule lua_insert_spec [OF idx])
  show "lua_remove L idx = Inr (L\<lparr>stk := take (i - 1) (stk L) @ drop i (stk L)\<rparr>)"
    using lua_remove_spec [OF idx] assms(1) by simp
  let ?L = "L\<lparr>stk := take (i - 1) (stk L) @ [last (stk L)] @ drop (i - 1) (butlast (stk L))\<rparr>"
  have "index2adr ?L (int i) = Inr (Slot (i - 1))" using assms(1,2) by (intro index2adr_abs) auto
  from lua_remove_spec [OF this] have "lua_remove ?L (int i) = Inr (L\<lparr>stk := take (i - 1) (stk L) @ drop (i - 1) (butlast (stk L))\<rparr>)"
    using assms(1,2) by simp
  moreover have "take (i - 1) (stk L) @ drop (i - 1) (butlast (stk L)) = butlast (stk L)"
    using assms(1,2) append_take_drop_id [of "i - 1" "butlast (stk L)"] by (simp add: butlast_conv_take)
  ultimately show "bind_result (lua_insert L (int i)) (\<lambda>L. lua_remove L (int i)) = pop L 1"
    using lua_insert_spec [OF index2adr_abs [OF assms(1,2)]] assms(1,2)
    by (simp add: pop_def) (simp add: butlast_conv_take)
qed

definition sample_state :: lua_State where
  "sample_state = \<lparr>l_heap = (\<lambda>p. if p = 1 then Some sample_table else None), l_mt = (\<lambda>_. None), l_udata = (\<lambda>_. None),
     l_registry = TNil, l_gc = \<lparr>marked = (\<lambda>_. 1), grayagain = []\<rparr>,
     stk = [TTable 1, TStr ''y'', TBoolean True], slots = 20, l_func = None, l_gt = TNil,
     l_name = Some (''global'', Some ''f''), l_where = Some (''x.lua'', 3)\<rparr>"

theorem insert_remove_correct_witness:
  "bind_result (lua_insert sample_state (int 2)) (\<lambda>L. lua_remove L (int 2)) = pop sample_state 1 \<and>
   lua_insert sample_state (- 2) = Inr (sample_state\<lparr>stk := [TTable 1, TBoolean True, TStr ''y'']\<rparr>)"
  using insert_remove_correct [of 2 sample_state "- 2"] by (simp add: sample_state_def numeral_2_eq_2)

text \<open>
  Claim C21. Storing through the stack: with a table at a slot below, \<open>lua_rawset\<close> pops the key and
  the value pushed last and changes the table of that slot only, so that afterwards \<open>lua_rawget\<close>
  replaces a key on the top by the stored value when the keys are raw-equal, and by the value
  from before when they are not.
\<close>

theorem rawset_rawget_correct:
  assumes "stk L = vs @ [k, v]" "1 \<le> i" "i \<le> length vs" "vs ! (i - 1) = TTable p" "l_heap L p = Some t"
    and "wf_table t" "valid_key k" "live_count t < MAXASIZE"
  shows "\<exists>L'. lua_rawset L (int i) = Inr L' \<and> stk L' = vs \<and> (\<forall>q. q \<noteq> p \<longrightarrow> l_heap L' q = l_heap L q) \<and>
    (\<forall>k'. \<exists>L''. lua_rawget (L'\<lparr>stk := vs @ [k']\<rparr>) (int i) = Inr L'' \<and>
       stk L'' = vs @ [if luaO_rawequalObj k k' then v else tget t k'])"
proof -
  from rawset_table_ok [OF assms(6-8), of "l_gc L" v] obtain g t' where
    s: "lua_rawset_table (l_gc L, t) k v = Inr (g, t')" "wf_table t'"
    "\<forall>k'. tget t' k' = (if luaO_rawequalObj k k' then v else tget t k')" by blast
  have val: "index_value M (int i) = Inr (TTable p)" if "take (length vs) (stk M) = vs" "length vs \<le> length (stk M)" for M
  proof -
    have "i - 1 < length vs" using assms(2,3) by simp
    then have "stk M ! (i - 1) = TTable p" using that assms(4) by (metis nth_take)
    then show ?thesis using that assms(2,3) index2adr_abs [of i M] by (simp add: index_value_def value_at_def)
  qed
  let ?L = "L\<lparr>l_gc := g, l_heap := (l_heap L)(p \<mapsto> t'), stk := vs\<rparr>"
  have "lua_rawset L (int i) = Inr ?L"
    using val [of L] assms(1,5) s(1) by (simp add: lua_rawset_def hvalue_def set_table_def pop_def nth_append)
  moreover have "\<exists>L''. lua_rawget (?L\<lparr>stk := vs @ [k']\<rparr>) (int i) = Inr L'' \<and>
       stk L'' = vs @ [if luaO_rawequalObj k k' then v else tget t k']" for k'
  proof -
    obtain sl where "luaH_get t' k' = Inr sl" "slot_val t' sl = tget t' k'"
      using luaH_get_val [of t' k'] s(2) by (auto simp: wf_table_def)
    then show ?thesis using val [of "?L\<lparr>stk := vs @ [k']\<rparr>"] s(3) by (simp add: lua_rawget_def hvalue_def stack_top_def)
  qed
  ultimately show ?thesis by (intro exI [of _ ?L]) auto
qed

theorem rawset_rawget_correct_witness:
  "\<exists>L'. lua_rawset sample_state 1 = Inr L' \<and> stk L' = [TTable 1] \<and>
     (\<exists>L''. lua_rawget (L'\<lparr>stk := [TTable 1, TStr ''y'']\<rparr>) 1 = Inr L'' \<and> stk L'' = [TTable 1, TBoolean True])"
proof -
  have "live_count sample_table < MAXASIZE"
    by (simp add: live_count_def live_slots_def sample_table_def MAXASIZE_def MAXBITS_def upt_rec)
  moreover have "valid_key (TStr ''y'')" by (simp add: valid_key_def)
  moreover have "stk sample_state = [TTable 1] @ [TStr ''y'', TBoolean True]" "l_heap sample_state 1 = Some sample_table"
    by (simp_all add: sample_state_def)
  ultimately have "\<exists>L'. lua_rawset sample_state (int 1) = Inr L' \<and> stk L' = [TTable 1] \<and>
      (\<forall>q. q \<noteq> 1 \<longrightarrow> l_heap L' q = l_heap sample_state q) \<and>
      (\<forall>k'. \<exists>L''. lua_rawget (L'\<lparr>stk := [TTable 1] @ [k']\<rparr>) (int 1) = Inr L'' \<and>
       stk L'' = [TTable 1] @ [if luaO_rawequalObj (TStr ''y'') k' then TBoolean True else tget sample_table k'])"
    by (intro rawset_rawget_correct sample_table_wf) simp_all
  then obtain L' where "lua_rawset sample_state 1 = Inr L'" "stk L' = [TTable 1]"
      "\<forall>k'. \<exists>L''. lua_rawget (L'\<lparr>stk := [TTable 1, k']\<rparr>) 1 = Inr L'' \<and>
       stk L'' = [TTable 1] @ [if luaO_rawequalObj (TStr ''y'') k' then TBoolean True else tget sample_table k']" by auto
  moreover from this(3) obtain L'' where "lua_rawget (L'\<lparr>stk := [TTable 1, TStr ''y'']\<rparr>) 1 = Inr L''"
      "stk L'' = [TTable 1] @ [if luaO_rawequalObj (TStr ''y'') (TStr ''y'') then TBoolean True else tget sample_table (TStr ''y'')]"
    by blast
  ultimately show ?thesis by auto
qed

end
