(* ===== verification/Lauxlib.thy ===== *)
theory Lauxlib
  imports Lapi
begin

text \<open>
  The auxiliary library (lauxlib.c) on the frame of the running function: messages
  (\<open>luaO_pushvfstring\<close> of lobject.c included), argument checks, references, and the string
  buffer \<open>luaL_Buffer\<close> whose full pieces lie on the stack.
\<close>

subsection \<open>Messages\<close>

datatype vararg = ArgS "string option" | ArgC char | ArgD int | ArgF lua_Number | ArgP addr

text \<open>
  The pieces \<open>luaO_pushvfstring\<close> pushes and concatenates. A format that takes an argument of
  another kind than the next one, or one that is not there, is a memory fault.
\<close>

fun pushvf_item :: "clib \<Rightarrow> char \<Rightarrow> vararg list \<Rightarrow> (string \<times> vararg list) result" where
  "pushvf_item C c args =
     (if c = CHR ''s'' then (case args of ArgS s # as \<Rightarrow> Inr (case s of None \<Rightarrow> ''(null)'' | Some s \<Rightarrow> c_str s, as) | _ \<Rightarrow> Inl MemoryFault)
      else if c = CHR ''c'' then (case args of ArgC x # as \<Rightarrow> Inr (c_str [x], as) | _ \<Rightarrow> Inl MemoryFault)
      else if c = CHR ''d'' then (case args of ArgD n # as \<Rightarrow> Inr (c_number2str C (cast_num n), as) | _ \<Rightarrow> Inl MemoryFault)
      else if c = CHR ''f'' then (case args of ArgF n # as \<Rightarrow> Inr (c_number2str C n, as) | _ \<Rightarrow> Inl MemoryFault)
      else if c = CHR ''p'' then (case args of ArgP p # as \<Rightarrow> Inr (c_pointer2str C p, as) | _ \<Rightarrow> Inl MemoryFault)
      else if c = CHR ''%'' then Inr (''%'', args)
      else Inr (c_str [CHR ''%'', c], args))"

fun luaO_pushvfstring :: "clib \<Rightarrow> string \<Rightarrow> vararg list \<Rightarrow> string result" where
  "luaO_pushvfstring C [] args = Inr []"
| "luaO_pushvfstring C (x # fmt) args =
     (if x \<noteq> CHR ''%'' then bind_result (luaO_pushvfstring C fmt args) (\<lambda>s. Inr (x # s))
      else case fmt of
        [] \<Rightarrow> Inl MemoryFault
      | c # fmt \<Rightarrow> bind_result (pushvf_item C c args) (\<lambda>(s, args).
          bind_result (luaO_pushvfstring C fmt args) (\<lambda>s'. Inr (s @ s'))))"

definition luaL_where :: "clib \<Rightarrow> lua_State \<Rightarrow> string result" where
  "luaL_where C L =
     (case l_where L of None \<Rightarrow> Inr ''''
      | Some (src, line) \<Rightarrow> if line > 0 then luaO_pushvfstring C ''%s:%d: '' [ArgS (Some src), ArgD line] else Inr '''')"

definition luaL_error :: "clib \<Rightarrow> lua_State \<Rightarrow> string \<Rightarrow> vararg list \<Rightarrow> 'a result" where
  "luaL_error C L fmt args =
     bind_result (luaL_where C L) (\<lambda>w. bind_result (luaO_pushvfstring C fmt args) (\<lambda>s. Inl (RunError (w @ s))))"

definition luaL_argerror :: "clib \<Rightarrow> lua_State \<Rightarrow> int \<Rightarrow> string \<Rightarrow> 'a result" where
  "luaL_argerror C L narg extramsg =
     (case l_name L of
        None \<Rightarrow> luaL_error C L ''bad argument #%d (%s)'' [ArgD narg, ArgS (Some extramsg)]
      | Some (namewhat, name) \<Rightarrow>
          (let narg = (if namewhat = ''method'' then narg - 1 else narg) in
           if namewhat = ''method'' \<and> narg = 0
           then luaL_error C L (''calling '' @ LUA_QL ''%s'' @ '' on bad self (%s)'') [ArgS name, ArgS (Some extramsg)]
           else luaL_error C L (''bad argument #%d to '' @ LUA_QL ''%s'' @ '' (%s)'')
                  [ArgD narg, ArgS (Some (case name of None \<Rightarrow> ''?'' | Some n \<Rightarrow> n)), ArgS (Some extramsg)]))"

definition luaL_typerror :: "clib \<Rightarrow> lua_State \<Rightarrow> int \<Rightarrow> string \<Rightarrow> 'a result" where
  "luaL_typerror C L narg tname =
     bind_result (lua_type L narg) (\<lambda>t.
     bind_result (luaO_pushvfstring C ''%s expected, got %s'' [ArgS (Some tname), ArgS (Some (lua_typename t))])
       (luaL_argerror C L narg))"

definition tag_error :: "clib \<Rightarrow> lua_State \<Rightarrow> int \<Rightarrow> int \<Rightarrow> 'a result" where
  "tag_error C L narg tag = luaL_typerror C L narg (lua_typename tag)"

subsection \<open>Arguments\<close>

definition luaL_checkstack :: "clib \<Rightarrow> lua_State \<Rightarrow> int \<Rightarrow> string \<Rightarrow> lua_State result" where
  "luaL_checkstack C L space mes =
     (let (ok, L') = lua_checkstack L space in
      if \<not> ok then luaL_error C L ''stack overflow (%s)'' [ArgS (Some mes)] else Inr L')"

definition luaL_checktype :: "clib \<Rightarrow> lua_State \<Rightarrow> int \<Rightarrow> int \<Rightarrow> unit result" where
  "luaL_checktype C L narg t =
     bind_result (lua_type L narg) (\<lambda>t'. if t' \<noteq> t then tag_error C L narg t else Inr ())"

definition luaL_checkany :: "clib \<Rightarrow> lua_State \<Rightarrow> int \<Rightarrow> unit result" where
  "luaL_checkany C L narg =
     bind_result (lua_type L narg) (\<lambda>t. if t = LUA_TNONE then luaL_argerror C L narg ''value expected'' else Inr ())"

definition luaL_checklstring :: "clib \<Rightarrow> lua_State \<Rightarrow> int \<Rightarrow> (TString \<times> lua_State) result" where
  "luaL_checklstring C L narg =
     bind_result (lua_tolstring C L narg) (\<lambda>(s, L).
       case s of None \<Rightarrow> tag_error C L narg 4 | Some s \<Rightarrow> Inr (s, L))"

definition lua_isnoneornil :: "lua_State \<Rightarrow> int \<Rightarrow> bool result" where
  "lua_isnoneornil L narg = bind_result (lua_type L narg) (\<lambda>t. Inr (t \<le> 0))"

definition luaL_optlstring :: "clib \<Rightarrow> lua_State \<Rightarrow> int \<Rightarrow> TString option \<Rightarrow> (TString option \<times> lua_State) result" where
  "luaL_optlstring C L narg def =
     bind_result (lua_isnoneornil L narg) (\<lambda>none.
       if none then Inr (def, L)
       else bind_result (luaL_checklstring C L narg) (\<lambda>(s, L). Inr (Some s, L)))"

definition luaL_checkoption :: "clib \<Rightarrow> lua_State \<Rightarrow> int \<Rightarrow> TString option \<Rightarrow> string list \<Rightarrow> nat result" where
  "luaL_checkoption C L narg def lst =
     bind_result (case def of
         None \<Rightarrow> bind_result (luaL_checklstring C L narg) (\<lambda>(s, L). Inr (s, L))
       | Some d \<Rightarrow> bind_result (luaL_optlstring C L narg (Some d)) (\<lambda>(s, L). Inr (the s, L))) (\<lambda>(name, L).
     case find (\<lambda>i. lst ! i = c_str name) [0..<length lst] of
       Some i \<Rightarrow> Inr i
     | None \<Rightarrow> bind_result (luaO_pushvfstring C (''invalid option '' @ LUA_QL ''%s'') [ArgS (Some name)])
         (luaL_argerror C L narg))"

definition luaL_checknumber :: "clib \<Rightarrow> lua_State \<Rightarrow> int \<Rightarrow> lua_Number result" where
  "luaL_checknumber C L narg =
     bind_result (lua_tonumber C L narg) (\<lambda>d.
       if luai_numeq d 0 then bind_result (lua_isnumber C L narg) (\<lambda>num. if \<not> num then tag_error C L narg 3 else Inr d)
       else Inr d)"

definition luaL_checkinteger :: "clib \<Rightarrow> lua_State \<Rightarrow> int \<Rightarrow> int result" where
  "luaL_checkinteger C L narg =
     bind_result (lua_tointeger C L narg) (\<lambda>d.
       if d = 0 then bind_result (lua_isnumber C L narg) (\<lambda>num. if \<not> num then tag_error C L narg 3 else Inr d)
       else Inr d)"

definition luaL_opt :: "(lua_State \<Rightarrow> int \<Rightarrow> 'a result) \<Rightarrow> lua_State \<Rightarrow> int \<Rightarrow> 'a \<Rightarrow> 'a result" where
  "luaL_opt f L narg d = bind_result (lua_isnoneornil L narg) (\<lambda>none. if none then Inr d else f L narg)"

definition luaL_optnumber :: "clib \<Rightarrow> lua_State \<Rightarrow> int \<Rightarrow> lua_Number \<Rightarrow> lua_Number result" where
  "luaL_optnumber C L narg def = luaL_opt (luaL_checknumber C) L narg def"

definition luaL_optinteger :: "clib \<Rightarrow> lua_State \<Rightarrow> int \<Rightarrow> int \<Rightarrow> int result" where
  "luaL_optinteger C L narg def = luaL_opt (luaL_checkinteger C) L narg def"

text \<open>\<open>luaL_checkint\<close> and \<open>luaL_optint\<close> cast to a 32-bit \<open>int\<close>.\<close>

definition cast_int :: "int \<Rightarrow> int" where
  "cast_int k = sint (word_of_int k :: 32 word)"

definition luaL_checkint :: "clib \<Rightarrow> lua_State \<Rightarrow> int \<Rightarrow> int result" where
  "luaL_checkint C L n = bind_result (luaL_checkinteger C L n) (\<lambda>k. Inr (cast_int k))"

definition luaL_optint :: "clib \<Rightarrow> lua_State \<Rightarrow> int \<Rightarrow> int \<Rightarrow> int result" where
  "luaL_optint C L n d = bind_result (luaL_optinteger C L n d) (\<lambda>k. Inr (cast_int k))"

subsection \<open>References\<close>

definition FREELIST_REF :: int where "FREELIST_REF = 0"
definition LUA_REFNIL :: int where "LUA_REFNIL = - 1"

definition abs_index :: "lua_State \<Rightarrow> int \<Rightarrow> int" where
  "abs_index L i = (if i > 0 \<or> i \<le> LUA_REGISTRYINDEX then i else lua_gettop L + i + 1)"

definition luaL_ref :: "clib \<Rightarrow> lua_State \<Rightarrow> int \<Rightarrow> (int \<times> lua_State) result" where
  "luaL_ref C L t =
     (let t = abs_index L t in
      bind_result (lua_type L (- 1)) (\<lambda>ty.
      if ty = 0 then bind_result (pop L 1) (\<lambda>L. Inr (LUA_REFNIL, L))
      else bind_result (lua_rawgeti L t FREELIST_REF) (\<lambda>L.
        bind_result (lua_tointeger C L (- 1)) (\<lambda>k.
        bind_result (pop L 1) (\<lambda>L.
        let ref = cast_int k in
        bind_result
          (if ref \<noteq> 0
           then bind_result (lua_rawgeti L t ref) (\<lambda>L. bind_result (lua_rawseti L t FREELIST_REF) (\<lambda>L. Inr (ref, L)))
           else bind_result (lua_objlen C L t) (\<lambda>(n, L). Inr (cast_int (int n) + 1, L))) (\<lambda>(ref, L).
        bind_result (lua_rawseti L t ref) (\<lambda>L. Inr (ref, L))))))))"

definition luaL_unref :: "clib \<Rightarrow> lua_State \<Rightarrow> int \<Rightarrow> int \<Rightarrow> lua_State result" where
  "luaL_unref C L t ref =
     (if ref \<ge> 0 then
        (let t = abs_index L t in
         bind_result (lua_rawgeti L t FREELIST_REF) (\<lambda>L.
         bind_result (lua_rawseti L t ref) (\<lambda>L.
         bind_result (lua_pushinteger L ref) (\<lambda>L. lua_rawseti L t FREELIST_REF))))
      else Inr L)"

subsection \<open>The string buffer\<close>

text \<open>
  \<open>bf_buf\<close> is the used part of the array \<open>buffer\<close>; \<open>bf_pieces\<close> are the \<open>lvl\<close> strings the buffer
  keeps on the stack, the topmost last.
\<close>

record luaL_Buffer =
  bf_buf :: string
  bf_pieces :: "TString list"

definition LUAL_BUFFERSIZE :: nat where "LUAL_BUFFERSIZE = 8192"
definition LIMIT :: nat where "LIMIT = 10"

definition luaL_buffinit :: luaL_Buffer where "luaL_buffinit = \<lparr>bf_buf = [], bf_pieces = []\<rparr>"

definition emptybuffer :: "luaL_Buffer \<Rightarrow> bool \<times> luaL_Buffer" where
  "emptybuffer B =
     (if bf_buf B = [] then (False, B) else (True, \<lparr>bf_buf = [], bf_pieces = bf_pieces B @ [bf_buf B]\<rparr>))"

text \<open>
  The loop of \<open>adjuststack\<close>: how many of the topmost pieces to concatenate. \<open>rev_pieces\<close> are the
  pieces below the first \<open>toget\<close>, the topmost first.
\<close>

fun adjust_count :: "nat \<Rightarrow> nat \<Rightarrow> nat \<Rightarrow> TString list \<Rightarrow> nat" where
  "adjust_count lvl toget toplen [] = toget"
| "adjust_count lvl toget toplen (p # ps) =
     (if lvl - toget + 1 \<ge> LIMIT \<or> toplen > length p
      then adjust_count lvl (toget + 1) (toplen + length p) ps else toget)"

definition adjuststack :: "luaL_Buffer \<Rightarrow> luaL_Buffer" where
  "adjuststack B =
     (let ps = bf_pieces B; lvl = length ps in
      if lvl > 1 then
        (let toget = adjust_count lvl 1 (length (last ps)) (tl (rev ps)) in
         B\<lparr>bf_pieces := take (lvl - toget) ps @ [concat (drop (lvl - toget) ps)]\<rparr>)
      else B)"

definition luaL_prepbuffer :: "luaL_Buffer \<Rightarrow> luaL_Buffer" where
  "luaL_prepbuffer B = (let (moved, B) = emptybuffer B in if moved then adjuststack B else B)"

definition luaL_addchar :: "luaL_Buffer \<Rightarrow> char \<Rightarrow> luaL_Buffer" where
  "luaL_addchar B c =
     (let B = (if length (bf_buf B) < LUAL_BUFFERSIZE then B else luaL_prepbuffer B) in B\<lparr>bf_buf := bf_buf B @ [c]\<rparr>)"

definition luaL_addlstring :: "luaL_Buffer \<Rightarrow> string \<Rightarrow> luaL_Buffer" where
  "luaL_addlstring B s = foldl luaL_addchar B s"

definition luaL_addstring :: "luaL_Buffer \<Rightarrow> string \<Rightarrow> luaL_Buffer" where
  "luaL_addstring B s = luaL_addlstring B (c_str s)"

text \<open>The value on the top of the stack, already a string.\<close>

definition luaL_addvalue :: "luaL_Buffer \<Rightarrow> TString \<Rightarrow> luaL_Buffer" where
  "luaL_addvalue B v =
     (if length v \<le> LUAL_BUFFERSIZE - length (bf_buf B) then B\<lparr>bf_buf := bf_buf B @ v\<rparr>
      else let (moved, B) = emptybuffer B in adjuststack (B\<lparr>bf_pieces := bf_pieces B @ [v]\<rparr>))"

definition luaL_pushresult :: "luaL_Buffer \<Rightarrow> TString \<times> luaL_Buffer" where
  "luaL_pushresult B =
     (let (moved, B) = emptybuffer B; s = concat (bf_pieces B) in (s, B\<lparr>bf_pieces := [s]\<rparr>))"

section \<open>Correctness of the buffer\<close>

text \<open>What has been added so far, and the room the buffer takes in the array and on the stack.\<close>

definition buf_content :: "luaL_Buffer \<Rightarrow> string" where
  "buf_content B = concat (bf_pieces B) @ bf_buf B"

definition buf_inv :: "luaL_Buffer \<Rightarrow> bool" where
  "buf_inv B \<longleftrightarrow> length (bf_buf B) \<le> LUAL_BUFFERSIZE \<and> length (bf_pieces B) < LIMIT"

lemma adjust_count_bounds:
  "1 \<le> toget \<Longrightarrow> toget + length ps = lvl \<Longrightarrow>
   1 \<le> adjust_count lvl toget toplen ps \<and> adjust_count lvl toget toplen ps \<le> lvl \<and>
   (lvl - adjust_count lvl toget toplen ps + 1 < LIMIT \<or> adjust_count lvl toget toplen ps = lvl)"
  by (induction lvl toget toplen ps rule: adjust_count.induct) auto

lemma adjuststack_correct:
  "buf_content (adjuststack B) = buf_content B \<and> length (bf_pieces (adjuststack B)) < LIMIT \<and> bf_buf (adjuststack B) = bf_buf B"
proof (cases "length (bf_pieces B) > 1")
  case True
  let ?ps = "bf_pieces B" and ?n = "length (bf_pieces B)"
  define g where "g = adjust_count ?n 1 (length (last ?ps)) (tl (rev ?ps))"
  have g: "1 \<le> g" "g \<le> ?n" "?n - g + 1 < LIMIT \<or> g = ?n"
    using adjust_count_bounds [of 1 "tl (rev ?ps)" ?n "length (last ?ps)"] True by (auto simp: g_def)
  have "adjuststack B = B\<lparr>bf_pieces := take (?n - g) ?ps @ [concat (drop (?n - g) ?ps)]\<rparr>"
    unfolding adjuststack_def Let_def g_def using True by simp
  moreover have "concat (take (?n - g) ?ps) @ concat (drop (?n - g) ?ps) = concat ?ps"
    by (metis append_take_drop_id concat_append)
  ultimately show ?thesis using g by (auto simp: buf_content_def LIMIT_def)
qed (auto simp: adjuststack_def LIMIT_def)

lemma emptybuffer_correct:
  "emptybuffer B = (m, B') \<Longrightarrow> buf_content B' = buf_content B \<and> bf_buf B' = [] \<and>
    bf_pieces B' = (if m then bf_pieces B @ [bf_buf B] else bf_pieces B)"
  by (auto simp: emptybuffer_def buf_content_def split: if_splits)

lemma addchar_correct:
  assumes "buf_inv B"
  shows "buf_content (luaL_addchar B c) = buf_content B @ [c] \<and> buf_inv (luaL_addchar B c)"
proof (cases "length (bf_buf B) < LUAL_BUFFERSIZE")
  case True
  with assms show ?thesis by (auto simp: luaL_addchar_def buf_inv_def buf_content_def)
next
  case False
  then have "bf_buf B \<noteq> []" by (auto simp: LUAL_BUFFERSIZE_def)
  then have "luaL_prepbuffer B = adjuststack \<lparr>bf_buf = [], bf_pieces = bf_pieces B @ [bf_buf B]\<rparr>"
    by (simp add: luaL_prepbuffer_def emptybuffer_def)
  with False adjuststack_correct [of "\<lparr>bf_buf = [], bf_pieces = bf_pieces B @ [bf_buf B]\<rparr>"] show ?thesis
    by (auto simp: luaL_addchar_def buf_inv_def buf_content_def LUAL_BUFFERSIZE_def)
qed

lemma addlstring_correct:
  "buf_inv B \<Longrightarrow> buf_content (luaL_addlstring B s) = buf_content B @ s \<and> buf_inv (luaL_addlstring B s)"
proof (induction s arbitrary: B)
  case (Cons c s)
  then show ?case using addchar_correct [of B c] by (simp add: luaL_addlstring_def)
qed (simp add: luaL_addlstring_def)

lemma addvalue_correct:
  assumes "buf_inv B"
  shows "buf_content (luaL_addvalue B v) = buf_content B @ v \<and> buf_inv (luaL_addvalue B v)"
proof (cases "length v \<le> LUAL_BUFFERSIZE - length (bf_buf B)")
  case True
  with assms show ?thesis by (auto simp: luaL_addvalue_def buf_inv_def buf_content_def)
next
  case False
  obtain m B' where e: "emptybuffer B = (m, B')" by (cases "emptybuffer B")
  note e' = emptybuffer_correct [OF e]
  have "luaL_addvalue B v = adjuststack (B'\<lparr>bf_pieces := bf_pieces B' @ [v]\<rparr>)" using False e by (simp add: luaL_addvalue_def)
  with adjuststack_correct [of "B'\<lparr>bf_pieces := bf_pieces B' @ [v]\<rparr>"] e' show ?thesis
    by (auto simp: buf_inv_def buf_content_def)
qed

text \<open>The calls a client makes on a buffer.\<close>

datatype buf_op = AddChar char | AddString string | AddValue TString

fun buf_step :: "luaL_Buffer \<Rightarrow> buf_op \<Rightarrow> luaL_Buffer" where
  "buf_step B (AddChar c) = luaL_addchar B c"
| "buf_step B (AddString s) = luaL_addlstring B s"
| "buf_step B (AddValue v) = luaL_addvalue B v"

fun buf_added :: "buf_op \<Rightarrow> string" where
  "buf_added (AddChar c) = [c]"
| "buf_added (AddString s) = s"
| "buf_added (AddValue v) = v"

lemma buf_steps:
  "buf_inv B \<Longrightarrow> buf_content (foldl buf_step B ops) = buf_content B @ concat (map buf_added ops) \<and> buf_inv (foldl buf_step B ops)"
proof (induction ops arbitrary: B)
  case (Cons a ops)
  have "buf_content (buf_step B a) = buf_content B @ buf_added a \<and> buf_inv (buf_step B a)"
    using Cons.prems by (cases a) (auto simp: addchar_correct addlstring_correct addvalue_correct)
  with Cons.IH show ?case by simp
qed simp

text \<open>
  Claim C22. A string buffer refines string concatenation: after any calls that add characters,
  strings and values, \<open>luaL_pushresult\<close> gives everything added, in order, whatever pieces
  \<open>adjuststack\<close> has merged; at every point the array is not overrun and fewer than \<open>LIMIT\<close>
  stack slots are in use.
\<close>

theorem buffer_refines_concat:
  "fst (luaL_pushresult (foldl buf_step luaL_buffinit ops)) = concat (map buf_added ops) \<and>
   buf_inv (foldl buf_step luaL_buffinit ops)"
proof -
  have inv: "buf_inv luaL_buffinit" "buf_content luaL_buffinit = []"
    by (simp_all add: buf_inv_def luaL_buffinit_def LIMIT_def buf_content_def)
  let ?B = "foldl buf_step luaL_buffinit ops"
  obtain m B' where e: "emptybuffer ?B = (m, B')" by (cases "emptybuffer ?B")
  have "fst (luaL_pushresult ?B) = concat (bf_pieces B')" by (simp add: luaL_pushresult_def e Let_def)
  also have "\<dots> = buf_content B'" using emptybuffer_correct [OF e] by (simp add: buf_content_def [of B'])
  also have "\<dots> = buf_content ?B" using emptybuffer_correct [OF e] by simp
  finally have "fst (luaL_pushresult ?B) = buf_content ?B" .
  with buf_steps [OF inv(1), of ops] inv(2) show ?thesis by simp
qed

end
