(* ===== verification/Lmatch.thy ===== *)
theory Lmatch
  imports Cstring
begin

text \<open>
  The pattern matcher of lstrlib.c. The source text \<open>S\<close> and the pattern \<open>P\<close> are C strings,
  pointers into them are offsets, and every read goes through \<^const>\<open>cchar\<close>, so that a read
  outside a string would be the outcome \<open>MemoryFault\<close>. A null pointer result is \<open>None\<close>. The
  recursion of \<open>match\<close> is over growing pattern positions. Messages are those of \<open>luaL_error\<close>
  without the position it puts in front.
\<close>

definition LUA_MAXCAPTURES :: nat where "LUA_MAXCAPTURES = 32"
definition CAP_UNFINISHED :: int where "CAP_UNFINISHED = - 1"
definition CAP_POSITION :: int where "CAP_POSITION = - 2"

record capture =
  cap_init :: nat
  cap_len :: int

record MatchState =
  level :: nat
  captures :: "capture list"

abbreviation L_ESC :: char where "L_ESC \<equiv> CHR ''%''"

definition ms_capture :: "MatchState \<Rightarrow> nat \<Rightarrow> capture result" where
  "ms_capture ms l = (if l < length (captures ms) then Inr (captures ms ! l) else Inl MemoryFault)"

definition set_capture :: "MatchState \<Rightarrow> nat \<Rightarrow> capture \<Rightarrow> MatchState result" where
  "set_capture ms l c =
     (if l < length (captures ms) then Inr (ms\<lparr>captures := (captures ms)[l := c]\<rparr>) else Inl MemoryFault)"

definition check_capture :: "MatchState \<Rightarrow> nat \<Rightarrow> nat result" where
  "check_capture ms l =
     (if l < 49 \<or> l - 49 \<ge> level ms then Inl (RunError ''invalid capture index'')
      else bind_result (ms_capture ms (l - 49)) (\<lambda>c.
        if cap_len c = CAP_UNFINISHED then Inl (RunError ''invalid capture index'') else Inr (l - 49)))"

text \<open>The loop of \<open>capture_to_close\<close>, from the capture below \<open>lv\<close> down.\<close>

fun to_close_from :: "MatchState \<Rightarrow> nat \<Rightarrow> nat result" where
  "to_close_from ms 0 = Inl (RunError ''invalid pattern capture'')"
| "to_close_from ms (Suc lv) =
     bind_result (ms_capture ms lv) (\<lambda>c. if cap_len c = CAP_UNFINISHED then Inr lv else to_close_from ms lv)"

definition capture_to_close :: "MatchState \<Rightarrow> nat result" where
  "capture_to_close ms = to_close_from ms (level ms)"

text \<open>The \<open>do\<close> loop of \<open>classend\<close>, from inside a set.\<close>

function set_end :: "string \<Rightarrow> nat \<Rightarrow> nat result" where
  "set_end P p =
     bind_result (cchar P p) (\<lambda>c.
       if c = CHR 0x00 then Inl (RunError (''malformed pattern (missing '' @ LUA_QL '']'' @ '')''))
       else bind_result (cchar P (p + 1)) (\<lambda>d.
         let p' = (if c = L_ESC \<and> d \<noteq> CHR 0x00 then p + 2 else p + 1) in
         bind_result (cchar P p') (\<lambda>e. if e \<noteq> CHR '']'' then set_end P p' else Inr (p' + 1))))"
  by pat_completeness auto
termination
  by (relation "measure (\<lambda>(P, p). Suc (length P) - p)") (auto dest!: cchar_InrD split: if_splits)

declare set_end.simps [simp del]

definition classend :: "string \<Rightarrow> nat \<Rightarrow> nat result" where
  "classend P p =
     bind_result (cchar P p) (\<lambda>c.
       if c = L_ESC then
         bind_result (cchar P (p + 1)) (\<lambda>d.
           if d = CHR 0x00 then Inl (RunError (''malformed pattern (ends with '' @ LUA_QL ''%'' @ '')''))
           else Inr (p + 2))
       else if c = CHR ''['' then
         bind_result (cchar P (p + 1)) (\<lambda>d. set_end P (if d = CHR ''^'' then p + 2 else p + 1))
       else Inr (p + 1))"

definition match_class :: "nat \<Rightarrow> nat \<Rightarrow> bool" where
  "match_class c cl =
     (let t = tolower cl; signed = (\<lambda>res. if islower cl then res else \<not> res) in
      if t = uchar CHR ''a'' then signed (isalpha c)
      else if t = uchar CHR ''c'' then signed (iscntrl c)
      else if t = uchar CHR ''d'' then signed (isdigit c)
      else if t = uchar CHR ''l'' then signed (islower c)
      else if t = uchar CHR ''p'' then signed (ispunct c)
      else if t = uchar CHR ''s'' then signed (isspace c)
      else if t = uchar CHR ''u'' then signed (isupper c)
      else if t = uchar CHR ''w'' then signed (isalnum c)
      else if t = uchar CHR ''x'' then signed (isxdigit c)
      else if t = uchar CHR ''z'' then signed (c = 0)
      else cl = c)"

text \<open>The loop of \<open>matchbracketclass\<close>; \<open>p\<close> is the position after the increment in its test.\<close>

function bracket_loop :: "bool \<Rightarrow> nat \<Rightarrow> string \<Rightarrow> nat \<Rightarrow> nat \<Rightarrow> bool result" where
  "bracket_loop sig c P p ec =
     (if p < ec then
        bind_result (cchar P p) (\<lambda>x.
          if x = L_ESC then
            bind_result (cchar P (p + 1)) (\<lambda>y.
              if match_class c (uchar y) then Inr sig else bracket_loop sig c P (p + 2) ec)
          else bind_result (cchar P (p + 1)) (\<lambda>y.
            if y = CHR ''-'' \<and> p + 2 < ec then
              bind_result (cchar P (p + 2)) (\<lambda>z.
                if uchar x \<le> c \<and> c \<le> uchar z then Inr sig else bracket_loop sig c P (p + 3) ec)
            else if uchar x = c then Inr sig
            else bracket_loop sig c P (p + 1) ec))
      else Inr (\<not> sig))"
  by pat_completeness auto
termination by (relation "measure (\<lambda>(sig, c, P, p, ec). ec - p)") auto

declare bracket_loop.simps [simp del]

definition matchbracketclass :: "nat \<Rightarrow> string \<Rightarrow> nat \<Rightarrow> nat \<Rightarrow> bool result" where
  "matchbracketclass c P p ec =
     bind_result (cchar P (p + 1)) (\<lambda>d.
       if d = CHR ''^'' then bracket_loop False c P (p + 2) ec else bracket_loop True c P (p + 1) ec)"

definition singlematch :: "nat \<Rightarrow> string \<Rightarrow> nat \<Rightarrow> nat \<Rightarrow> bool result" where
  "singlematch c P p ep =
     bind_result (cchar P p) (\<lambda>x.
       if x = CHR ''.'' then Inr True
       else if x = L_ESC then bind_result (cchar P (p + 1)) (\<lambda>y. Inr (match_class c (uchar y)))
       else if x = CHR ''['' then matchbracketclass c P p (ep - 1)
       else Inr (uchar x = c))"

text \<open>The loop of \<open>matchbalance\<close>; \<open>s\<close> is the position after the increment in its test.\<close>

function balance_loop :: "string \<Rightarrow> char \<Rightarrow> char \<Rightarrow> nat \<Rightarrow> nat \<Rightarrow> nat option result" where
  "balance_loop S b e cont s =
     (if s < length S then
        bind_result (cchar S s) (\<lambda>x.
          if x = e then (if cont - 1 = 0 then Inr (Some (s + 1)) else balance_loop S b e (cont - 1) (s + 1))
          else if x = b then balance_loop S b e (cont + 1) (s + 1)
          else balance_loop S b e cont (s + 1))
      else Inr None)"
  by pat_completeness auto
termination by (relation "measure (\<lambda>(S, b, e, cont, s). length S - s)") auto

declare balance_loop.simps [simp del]

definition matchbalance :: "string \<Rightarrow> string \<Rightarrow> nat \<Rightarrow> nat \<Rightarrow> nat option result" where
  "matchbalance S P s p =
     bind_result (cchar P p) (\<lambda>b.
       if b = CHR 0x00 then Inl (RunError ''unbalanced pattern'')
       else bind_result (cchar P (p + 1)) (\<lambda>e.
         if e = CHR 0x00 then Inl (RunError ''unbalanced pattern'')
         else bind_result (cchar S s) (\<lambda>x.
           if x \<noteq> b then Inr None else balance_loop S b e 1 (s + 1))))"

text \<open>
  The functions that call \<open>match\<close> back take it as an argument: \<open>k ms s\<close> is the match of the
  rest of the pattern.
\<close>

type_synonym match_result = "(nat option \<times> MatchState) result"
type_synonym rest_match = "MatchState \<Rightarrow> nat \<Rightarrow> match_result"

text \<open>The first loop of \<open>max_expand\<close> counts, the second tries the counts downwards.\<close>

function expand_count :: "string \<Rightarrow> string \<Rightarrow> nat \<Rightarrow> nat \<Rightarrow> nat \<Rightarrow> nat result" where
  "expand_count S P s p ep =
     (if s < length S then
        bind_result (cchar S s) (\<lambda>c. bind_result (singlematch (uchar c) P p ep) (\<lambda>m.
          if m then bind_result (expand_count S P (s + 1) p ep) (\<lambda>i. Inr (i + 1)) else Inr 0))
      else Inr 0)"
  by pat_completeness auto
termination by (relation "measure (\<lambda>(S, P, s, p, ep). length S - s)") auto

declare expand_count.simps [simp del]

fun try_counts :: "rest_match \<Rightarrow> MatchState \<Rightarrow> nat \<Rightarrow> nat \<Rightarrow> match_result" where
  "try_counts k ms s i =
     bind_result (k ms (s + i)) (\<lambda>(res, ms).
       case res of Some e \<Rightarrow> Inr (Some e, ms)
       | None \<Rightarrow> (case i of 0 \<Rightarrow> Inr (None, ms) | Suc j \<Rightarrow> try_counts k ms s j))"

declare try_counts.simps [simp del]

definition max_expand :: "rest_match \<Rightarrow> string \<Rightarrow> string \<Rightarrow> MatchState \<Rightarrow> nat \<Rightarrow> nat \<Rightarrow> nat \<Rightarrow> match_result" where
  "max_expand k S P ms s p ep = bind_result (expand_count S P s p ep) (\<lambda>i. try_counts k ms s i)"

function min_expand :: "rest_match \<Rightarrow> string \<Rightarrow> string \<Rightarrow> MatchState \<Rightarrow> nat \<Rightarrow> nat \<Rightarrow> nat \<Rightarrow> match_result" where
  "min_expand k S P ms s p ep =
     bind_result (k ms s) (\<lambda>(res, ms).
       case res of Some e \<Rightarrow> Inr (Some e, ms)
       | None \<Rightarrow>
           if s < length S then
             bind_result (cchar S s) (\<lambda>c. bind_result (singlematch (uchar c) P p ep) (\<lambda>m.
               if m then min_expand k S P ms (s + 1) p ep else Inr (None, ms)))
           else Inr (None, ms))"
  by pat_completeness auto
termination by (relation "measure (\<lambda>(k, S, P, ms, s, p, ep). length S - s)") auto

declare min_expand.simps [simp del]

definition start_capture :: "rest_match \<Rightarrow> MatchState \<Rightarrow> nat \<Rightarrow> int \<Rightarrow> match_result" where
  "start_capture k ms s what =
     (let lv = level ms in
      if lv \<ge> LUA_MAXCAPTURES then Inl (RunError ''too many captures'')
      else bind_result (set_capture ms lv \<lparr>cap_init = s, cap_len = what\<rparr>) (\<lambda>ms.
        bind_result (k (ms\<lparr>level := lv + 1\<rparr>) s) (\<lambda>(res, ms).
          case res of None \<Rightarrow> Inr (None, ms\<lparr>level := level ms - 1\<rparr>) | Some e \<Rightarrow> Inr (Some e, ms))))"

definition end_capture :: "rest_match \<Rightarrow> MatchState \<Rightarrow> nat \<Rightarrow> match_result" where
  "end_capture k ms s =
     bind_result (capture_to_close ms) (\<lambda>l.
     bind_result (ms_capture ms l) (\<lambda>c.
     bind_result (set_capture ms l (c\<lparr>cap_len := int s - int (cap_init c)\<rparr>)) (\<lambda>ms.
     bind_result (k ms s) (\<lambda>(res, ms).
       case res of
         None \<Rightarrow> bind_result (ms_capture ms l) (\<lambda>c.
                   bind_result (set_capture ms l (c\<lparr>cap_len := CAP_UNFINISHED\<rparr>)) (\<lambda>ms. Inr (None, ms)))
       | Some e \<Rightarrow> Inr (Some e, ms)))))"

text \<open>\<open>memcmp\<close> of \<open>n\<close> bytes at two offsets of one block; \<open>size_t\<close> arithmetic on 64 bits.\<close>

definition mem_equal :: "string \<Rightarrow> nat \<Rightarrow> nat \<Rightarrow> nat \<Rightarrow> bool result" where
  "mem_equal S i j n =
     (if i + n \<le> length S \<and> j + n \<le> length S then Inr (take n (drop i S) = take n (drop j S))
      else Inl MemoryFault)"

definition size_of :: "int \<Rightarrow> nat" where "size_of x = nat (x mod 2 ^ 64)"

definition match_capture :: "string \<Rightarrow> MatchState \<Rightarrow> nat \<Rightarrow> nat \<Rightarrow> nat option result" where
  "match_capture S ms s l =
     bind_result (check_capture ms l) (\<lambda>l.
     bind_result (ms_capture ms l) (\<lambda>c.
       let len = size_of (cap_len c) in
       if size_of (int (length S) - int s) \<ge> len
       then bind_result (mem_equal S (cap_init c) s len) (\<lambda>same. Inr (if same then Some (s + len) else None))
       else Inr None))"

text \<open>The label \<open>dflt\<close> of \<open>match\<close>: one pattern item and its repetition.\<close>

definition match_item ::
  "(nat \<Rightarrow> rest_match) \<Rightarrow> string \<Rightarrow> string \<Rightarrow> MatchState \<Rightarrow> nat \<Rightarrow> nat \<Rightarrow> match_result" where
  "match_item k S P ms s p =
     bind_result (classend P p) (\<lambda>ep.
     bind_result (if s < length S then bind_result (cchar S s) (\<lambda>c. singlematch (uchar c) P p ep) else Inr False) (\<lambda>m.
     bind_result (cchar P ep) (\<lambda>x.
       if x = CHR ''?'' then
         bind_result (if m then k (ep + 1) ms (s + 1) else Inr (None, ms)) (\<lambda>(res, ms).
           case res of Some e \<Rightarrow> Inr (Some e, ms) | None \<Rightarrow> k (ep + 1) ms s)
       else if x = CHR ''*'' then max_expand (k (ep + 1)) S P ms s p ep
       else if x = CHR ''+'' then (if m then max_expand (k (ep + 1)) S P ms (s + 1) p ep else Inr (None, ms))
       else if x = CHR ''-'' then min_expand (k (ep + 1)) S P ms s p ep
       else if \<not> m then Inr (None, ms)
       else k ep ms (s + 1))))"

subsection \<open>Termination\<close>

lemma set_end_greater: "set_end P p = Inr ep \<Longrightarrow> p + 1 < ep \<and> ep \<le> length P \<and> P ! (ep - 1) = CHR '']''"
proof (induction P p rule: set_end.induct)
  case (1 P p)
  obtain c where c: "cchar P p = Inr c" "c \<noteq> CHR 0x00"
    using "1.prems" by (auto simp: set_end.simps [of P p] bind_result_Inr_conv split: if_splits)
  obtain d where d: "cchar P (p + 1) = Inr d"
    using c "1.prems" by (auto simp: set_end.simps [of P p] bind_result_Inr_conv)
  define p' where "p' = (if c = L_ESC \<and> d \<noteq> CHR 0x00 then p + 2 else p + 1)"
  obtain e where e: "cchar P p' = Inr e" "(if e \<noteq> CHR '']'' then set_end P p' else Inr (p' + 1)) = Inr ep"
  proof -
    have "set_end P p = bind_result (cchar P p') (\<lambda>e. if e \<noteq> CHR '']'' then set_end P p' else Inr (p' + 1))"
      by (simp only: set_end.simps [of P p] c d bind_result_simps if_False Let_def p'_def)
    with "1.prems" that show thesis by (auto simp: bind_result_Inr_conv)
  qed
  show ?case
  proof (cases "e = CHR '']''")
    case True
    with e(2) cchar_nonzero [OF e(1)] show ?thesis by (auto simp: p'_def split: if_splits)
  next
    case False
    with 1(1) [OF c(1) c(2) d p'_def e(1)] e(2) show ?thesis by (auto simp: p'_def split: if_splits)
  qed
qed

lemma classend_greater: "classend P p = Inr ep \<Longrightarrow> p < ep"
  by (auto simp: classend_def bind_result_Inr_conv split: if_splits dest!: set_end_greater)

lemma start_capture_cong [fundef_cong]:
  "(\<And>ms s. k ms s = k' ms s) \<Longrightarrow> start_capture k ms s what = start_capture k' ms s what"
proof -
  assume "\<And>ms s. k ms s = k' ms s"
  then have "k = k'" by (intro ext)
  then show ?thesis by simp
qed

lemma end_capture_cong [fundef_cong]: "(\<And>ms s. k ms s = k' ms s) \<Longrightarrow> end_capture k ms s = end_capture k' ms s"
proof -
  assume "\<And>ms s. k ms s = k' ms s"
  then have "k = k'" by (intro ext)
  then show ?thesis by simp
qed

lemma match_item_cong [fundef_cong]:
  assumes "\<And>p' ms s. p < p' \<Longrightarrow> k p' ms s = k' p' ms s"
  shows "match_item k S P ms s p = match_item k' S P ms s p"
proof (cases "classend P p")
  case (Inr ep)
  then have "p < ep" by (rule classend_greater)
  then have k: "k ep = k' ep" "k (ep + 1) = k' (ep + 1)" by (intro ext assms; simp)+
  show ?thesis unfolding match_item_def Inr by (simp only: k bind_result_simps)
qed (simp add: match_item_def)

lemma matchbalance_bounds: "matchbalance S P s p = Inr r \<Longrightarrow> p + 1 < length P"
  by (auto simp: matchbalance_def bind_result_Inr_conv split: if_splits dest!: cchar_nonzero)

text \<open>The function \<open>match\<close>: every recursive call is further on in the pattern.\<close>

function match :: "string \<Rightarrow> string \<Rightarrow> nat \<Rightarrow> MatchState \<Rightarrow> nat \<Rightarrow> match_result" where
  "match S P p ms s =
     bind_result (cchar P p) (\<lambda>c.
       if c = CHR ''('' then
         bind_result (cchar P (p + 1)) (\<lambda>d.
           if d = CHR '')'' then start_capture (\<lambda>ms s. match S P (p + 2) ms s) ms s CAP_POSITION
           else start_capture (\<lambda>ms s. match S P (p + 1) ms s) ms s CAP_UNFINISHED)
       else if c = CHR '')'' then end_capture (\<lambda>ms s. match S P (p + 1) ms s) ms s
       else if c = L_ESC then
         bind_result (cchar P (p + 1)) (\<lambda>d.
           if d = CHR ''b'' then
             bind_result (matchbalance S P s (p + 2)) (\<lambda>r.
               case r of None \<Rightarrow> Inr (None, ms) | Some s \<Rightarrow> match S P (p + 4) ms s)
           else if d = CHR ''f'' then
             bind_result (cchar P (p + 2)) (\<lambda>x.
               if x \<noteq> CHR ''['' then
                 Inl (RunError (''missing '' @ LUA_QL ''['' @ '' after '' @ LUA_QL ''%f'' @ '' in pattern''))
               else bind_result (classend P (p + 2)) (\<lambda>ep.
                 bind_result (if s = 0 then Inr (CHR 0x00) else cchar S (s - 1)) (\<lambda>previous.
                 bind_result (matchbracketclass (uchar previous) P (p + 2) (ep - 1)) (\<lambda>m.
                   if m then Inr (None, ms)
                   else bind_result (cchar S s) (\<lambda>y.
                     bind_result (matchbracketclass (uchar y) P (p + 2) (ep - 1)) (\<lambda>m.
                       if \<not> m then Inr (None, ms) else match S P ep ms s))))))
           else if isdigit (uchar d) then
             bind_result (match_capture S ms s (uchar d)) (\<lambda>r.
               case r of None \<Rightarrow> Inr (None, ms) | Some s \<Rightarrow> match S P (p + 2) ms s)
           else match_item (\<lambda>p' ms s. match S P p' ms s) S P ms s p)
       else if c = CHR 0x00 then Inr (Some s, ms)
       else if c = CHR ''$'' then
         bind_result (cchar P (p + 1)) (\<lambda>d.
           if d = CHR 0x00 then Inr (if s = length S then Some s else None, ms)
           else match_item (\<lambda>p' ms s. match S P p' ms s) S P ms s p)
       else match_item (\<lambda>p' ms s. match S P p' ms s) S P ms s p)"
  by pat_completeness auto
termination
  by (relation "measure (\<lambda>(S, P, p, ms, s). Suc (length P) - p)")
    (auto dest!: cchar_InrD matchbalance_bounds dest: classend_greater)

declare match.simps [simp del]

end
