(* ===== verification/Lmatch_spec.thy ===== *)
theory Lmatch_spec
  imports Lmatch
begin

text \<open>
  Correctness of the pattern matcher: the meaning of a pattern as a relation (\<open>Match\<close>), and the
  proof that the backtracking search \<open>match\<close> ends, reads only inside its strings, answers with a
  match the relation allows, fails only when there is none, and undoes its captures when it
  fails.
\<close>

subsection \<open>Reads stay inside the strings\<close>

lemma set_end_outcome:
  "p \<le> length P \<Longrightarrow> (\<exists>m. set_end P p = Inl (RunError m)) \<or> returns (set_end P p)"
proof (induction P p rule: set_end.induct)
  case (1 P p)
  obtain c where c: "cchar P p = Inr c" using "1.prems" cchar_returns by (auto simp: returns_def)
  show ?case
  proof (cases "c = CHR 0x00")
    case True
    with c show ?thesis by (simp add: set_end.simps [of P p])
  next
    case False
    then have "p < length P" using cchar_nonzero [OF c] by simp
    then obtain d where d: "cchar P (p + 1) = Inr d" using cchar_returns [of "p + 1" P] by (auto simp: returns_def)
    define p' where "p' = (if c = L_ESC \<and> d \<noteq> CHR 0x00 then p + 2 else p + 1)"
    have "p' \<le> length P" using \<open>p < length P\<close> cchar_nonzero [OF d] by (auto simp: p'_def)
    then obtain e where e: "cchar P p' = Inr e" using cchar_returns by (auto simp: returns_def)
    have step: "set_end P p = (if e \<noteq> CHR '']'' then set_end P p' else Inr (p' + 1))"
      by (simp only: set_end.simps [of P p] c d False e bind_result_simps if_False Let_def flip: p'_def)
    show ?thesis using 1(1) [OF c False d p'_def e _ \<open>p' \<le> length P\<close>] step by auto
  qed
qed

lemma classend_outcome:
  "p < length P \<Longrightarrow> (\<exists>m. classend P p = Inl (RunError m)) \<or> returns (classend P p)"
proof -
  assume p: "p < length P"
  obtain d where d: "cchar P (p + 1) = Inr d" using cchar_returns [of "p + 1" P] p by (auto simp: returns_def)
  have "d = CHR ''^'' \<Longrightarrow> p + 2 \<le> length P" using cchar_nonzero [OF d] by auto
  with p have "(if d = CHR ''^'' then p + 2 else p + 1) \<le> length P" by auto
  from set_end_outcome [OF this] d show ?thesis using p by (auto simp: classend_def cchar_at)
qed

lemma classend_le: "classend P p = Inr ep \<Longrightarrow> p < length P \<Longrightarrow> ep \<le> length P"
  by (auto simp: classend_def bind_result_Inr_conv split: if_splits dest!: set_end_greater dest: cchar_nonzero)

lemma bracket_loop_returns: "ec \<le> length P \<Longrightarrow> returns (bracket_loop sig c P p ec)"
proof (induction sig c P p ec rule: bracket_loop.induct)
  case (1 sig c P p ec)
  show ?case
  proof (cases "p < ec")
    case True
    then have l: "p < length P" "p + 1 \<le> length P" using "1.prems" by simp_all
    obtain x y where x: "cchar P p = Inr x" and y: "cchar P (p + 1) = Inr y"
      using cchar_returns [of p P] cchar_returns [of "p + 1" P] l by (auto simp: returns_def)
    show ?thesis
      by (subst bracket_loop.simps)
        (use 1 True x y cchar_at [of "p + 2" P] in \<open>auto simp: Let_def intro!: returns_ifI\<close>)
  qed (simp add: bracket_loop.simps [of sig c P p ec])
qed

lemma matchbracketclass_returns: "p < ec \<Longrightarrow> ec \<le> length P \<Longrightarrow> returns (matchbracketclass c P p ec)"
  unfolding matchbracketclass_def
  by (intro returns_bindI returns_ifI bracket_loop_returns cchar_returns) auto

lemma singlematch_returns:
  assumes "classend P p = Inr ep" "p < length P"
  shows "returns (singlematch c P p ep)"
proof -
  have ep: "p < ep" "ep \<le> length P" using classend_greater [OF assms(1)] classend_le [OF assms] by auto
  have "P ! p = CHR ''['' \<Longrightarrow> p < ep - 1"
    using assms by (auto simp: classend_def cchar_at bind_result_Inr_conv dest!: set_end_greater split: if_splits)
  with ep assms(2) show ?thesis
    by (auto simp: singlematch_def cchar_at intro!: returns_intros matchbracketclass_returns cchar_returns)
qed

lemma balance_loop_returns: "returns (balance_loop S b e cont s)"
  by (induction S b e cont s rule: balance_loop.induct)
    (subst balance_loop.simps, auto simp: cchar_at intro!: returns_ifI)

lemma balance_loop_bounds: "balance_loop S b e cont s = Inr (Some s') \<Longrightarrow> s < s' \<and> s' \<le> length S"
proof (induction S b e cont s rule: balance_loop.induct)
  case (1 S b e cont s)
  show ?case
  proof (cases "s < length S")
    case True
    with 1 show ?thesis by (auto simp: balance_loop.simps [of S b e cont s] cchar_at split: if_splits)
  qed (use "1.prems" in \<open>simp add: balance_loop.simps [of S b e cont s]\<close>)
qed

lemma matchbalance_outcome:
  assumes "s \<le> length S" "p \<le> length P"
  shows "(\<exists>m. matchbalance S P s p = Inl (RunError m)) \<or> returns (matchbalance S P s p)"
proof -
  obtain b where b: "cchar P p = Inr b" using assms cchar_returns by (auto simp: returns_def)
  obtain x where x: "cchar S s = Inr x" using assms cchar_returns by (auto simp: returns_def)
  show ?thesis
  proof (cases "b = CHR 0x00")
    case False
    then have "p + 1 \<le> length P" using cchar_nonzero [OF b] by simp
    then obtain e where "cchar P (p + 1) = Inr e" using cchar_returns [of "p + 1" P] by (auto simp: returns_def)
    with b x balance_loop_returns show ?thesis by (auto simp: matchbalance_def)
  qed (use b in \<open>simp add: matchbalance_def\<close>)
qed

lemma matchbalance_range: "matchbalance S P s p = Inr (Some s') \<Longrightarrow> s < s' \<and> s' \<le> length S"
  by (auto simp: matchbalance_def bind_result_Inr_conv split: if_splits dest!: balance_loop_bounds)

lemma expand_count_spec:
  assumes "classend P p = Inr ep" "p < length P" "s \<le> length S"
  shows "\<exists>i. expand_count S P s p ep = Inr i \<and> s + i \<le> length S \<and>
    (\<forall>j < i. singlematch (uchar (S ! (s + j))) P p ep = Inr True) \<and>
    (s + i < length S \<longrightarrow> singlematch (uchar (S ! (s + i))) P p ep = Inr False)"
  using assms(3)
proof (induction "length S - s" arbitrary: s)
  case 0
  then show ?case by (simp add: expand_count.simps [of S P s])
next
  case (Suc n)
  then have s: "s < length S" by simp
  obtain m where m: "singlematch (uchar (S ! s)) P p ep = Inr m"
    using singlematch_returns [OF assms(1,2)] by (auto simp: returns_def)
  show ?case
  proof (cases m)
    case True
    have "n = length S - (s + 1)" "s + 1 \<le> length S" using Suc(2) s by simp_all
    then obtain i where i: "expand_count S P (s + 1) p ep = Inr i" "s + 1 + i \<le> length S"
        "\<forall>j < i. singlematch (uchar (S ! (s + 1 + j))) P p ep = Inr True"
        "s + 1 + i < length S \<longrightarrow> singlematch (uchar (S ! (s + 1 + i))) P p ep = Inr False"
      using Suc(1) [of "s + 1"] by blast
    have "expand_count S P s p ep = Inr (i + 1)"
      using s m True i(1) by (simp add: expand_count.simps [of S P s] cchar_at)
    moreover have "\<forall>j < i + 1. singlematch (uchar (S ! (s + j))) P p ep = Inr True"
      using i(3) m True by (auto simp: less_Suc_eq_0_disj)
    ultimately show ?thesis using i(2,4) by auto
  next
    case False
    then show ?thesis using s m by (simp add: expand_count.simps [of S P s] cchar_at)
  qed
qed

subsection \<open>What a pattern matches\<close>

text \<open>
  The meaning of a pattern without the search: \<open>Match S P p cs s e cs'\<close> says that the pattern
  from position \<open>p\<close>, with the captures \<open>cs\<close> so far, matches the text from \<open>s\<close> to \<open>e\<close> and leaves
  the captures \<open>cs'\<close>. Repetitions choose any admissible count.
\<close>

definition is_item :: "string \<Rightarrow> nat \<Rightarrow> bool" where
  "is_item P p \<longleftrightarrow>
     (case cchar P p of Inl e \<Rightarrow> False | Inr c \<Rightarrow>
        c \<noteq> CHR ''('' \<and> c \<noteq> CHR '')'' \<and> c \<noteq> CHR 0x00 \<and>
        (case cchar P (p + 1) of Inl e \<Rightarrow> False | Inr d \<Rightarrow>
           (c = L_ESC \<longrightarrow> d \<noteq> CHR ''b'' \<and> d \<noteq> CHR ''f'' \<and> \<not> isdigit (uchar d)) \<and>
           (c = CHR ''$'' \<longrightarrow> d \<noteq> CHR 0x00)))"

text \<open>The counts a repetition character allows, and where the pattern goes on.\<close>

definition reps :: "char \<Rightarrow> nat \<Rightarrow> bool" where
  "reps x n = (if x = CHR ''?'' then n \<le> 1 else if x = CHR ''*'' \<or> x = CHR ''-'' then True
               else if x = CHR ''+'' then 1 \<le> n else n = 1)"

definition after_item :: "char \<Rightarrow> nat \<Rightarrow> nat" where
  "after_item x ep = (if x \<in> {CHR ''?'', CHR ''*'', CHR ''+'', CHR ''-''} then ep + 1 else ep)"

text \<open>The last capture not yet closed.\<close>

definition open_capture :: "capture list \<Rightarrow> nat option" where
  "open_capture cs = find (\<lambda>l. cap_len (cs ! l) = CAP_UNFINISHED) (rev [0..<length cs])"

text \<open>The text a back reference stands for.\<close>

definition captured :: "string \<Rightarrow> capture list \<Rightarrow> nat \<Rightarrow> string option" where
  "captured S cs l =
     (if l < length cs \<and> 0 \<le> cap_len (cs ! l)
      then Some (take (nat (cap_len (cs ! l))) (drop (cap_init (cs ! l)) S)) else None)"

definition frontier :: "string \<Rightarrow> string \<Rightarrow> nat \<Rightarrow> nat \<Rightarrow> nat \<Rightarrow> bool" where
  "frontier S P s p ep \<longleftrightarrow>
     matchbracketclass (uchar (if s = 0 then CHR 0x00 else S ! (s - 1))) P p (ep - 1) = Inr False \<and>
     matchbracketclass (uchar (if s < length S then S ! s else CHR 0x00)) P p (ep - 1) = Inr True"

inductive Match :: "string \<Rightarrow> string \<Rightarrow> nat \<Rightarrow> capture list \<Rightarrow> nat \<Rightarrow> nat \<Rightarrow> capture list \<Rightarrow> bool" for S P where
  M_end: "cchar P p = Inr (CHR 0x00) \<Longrightarrow> Match S P p cs s s cs"
| M_pos: "cchar P p = Inr (CHR ''('') \<Longrightarrow> cchar P (p + 1) = Inr (CHR '')'') \<Longrightarrow>
    Match S P (p + 2) (cs @ [\<lparr>cap_init = s, cap_len = CAP_POSITION\<rparr>]) s e cs' \<Longrightarrow> Match S P p cs s e cs'"
| M_open: "cchar P p = Inr (CHR ''('') \<Longrightarrow> cchar P (p + 1) \<noteq> Inr (CHR '')'') \<Longrightarrow>
    Match S P (p + 1) (cs @ [\<lparr>cap_init = s, cap_len = CAP_UNFINISHED\<rparr>]) s e cs' \<Longrightarrow> Match S P p cs s e cs'"
| M_close: "cchar P p = Inr (CHR '')'') \<Longrightarrow> open_capture cs = Some l \<Longrightarrow>
    Match S P (p + 1) (cs[l := (cs ! l)\<lparr>cap_len := int s - int (cap_init (cs ! l))\<rparr>]) s e cs' \<Longrightarrow> Match S P p cs s e cs'"
| M_balance: "cchar P p = Inr L_ESC \<Longrightarrow> cchar P (p + 1) = Inr (CHR ''b'') \<Longrightarrow>
    matchbalance S P s (p + 2) = Inr (Some s') \<Longrightarrow> Match S P (p + 4) cs s' e cs' \<Longrightarrow> Match S P p cs s e cs'"
| M_frontier: "cchar P p = Inr L_ESC \<Longrightarrow> cchar P (p + 1) = Inr (CHR ''f'') \<Longrightarrow> cchar P (p + 2) = Inr (CHR ''['') \<Longrightarrow>
    classend P (p + 2) = Inr ep \<Longrightarrow> frontier S P s (p + 2) ep \<Longrightarrow> Match S P ep cs s e cs' \<Longrightarrow> Match S P p cs s e cs'"
| M_back: "cchar P p = Inr L_ESC \<Longrightarrow> cchar P (p + 1) = Inr d \<Longrightarrow> isdigit (uchar d) \<Longrightarrow> 49 \<le> uchar d \<Longrightarrow>
    captured S cs (uchar d - 49) = Some w \<Longrightarrow> take (length w) (drop s S) = w \<Longrightarrow>
    Match S P (p + 2) cs (s + length w) e cs' \<Longrightarrow> Match S P p cs s e cs'"
| M_dollar: "cchar P p = Inr (CHR ''$'') \<Longrightarrow> cchar P (p + 1) = Inr (CHR 0x00) \<Longrightarrow> s = length S \<Longrightarrow> Match S P p cs s s cs"
| M_item: "is_item P p \<Longrightarrow> classend P p = Inr ep \<Longrightarrow> cchar P ep = Inr x \<Longrightarrow> reps x n \<Longrightarrow> s + n \<le> length S \<Longrightarrow>
    (\<forall>j < n. singlematch (uchar (S ! (s + j))) P p ep = Inr True) \<Longrightarrow>
    Match S P (after_item x ep) cs (s + n) e cs' \<Longrightarrow> Match S P p cs s e cs'"

subsection \<open>Refinement of a search\<close>

text \<open>
  Captures below the level stay inside the text up to the current position. A search refines a
  relation when it never faults, an answer is one the relation allows, a failure means the
  relation allows none, and a failure leaves level and captures as they were.
\<close>

definition live :: "MatchState \<Rightarrow> capture list" where
  "live ms = take (level ms) (captures ms)"

definition cap_ok :: "nat \<Rightarrow> capture \<Rightarrow> bool" where
  "cap_ok s c \<longleftrightarrow> cap_init c \<le> s \<and>
     (cap_len c = CAP_UNFINISHED \<or> cap_len c = CAP_POSITION \<or> 0 \<le> cap_len c \<and> int (cap_init c) + cap_len c \<le> int s)"

definition ms_ok :: "nat \<Rightarrow> MatchState \<Rightarrow> bool" where
  "ms_ok s ms \<longleftrightarrow> length (captures ms) = LUA_MAXCAPTURES \<and> level ms \<le> LUA_MAXCAPTURES \<and> list_all (cap_ok s) (live ms)"

definition undone :: "MatchState \<Rightarrow> MatchState \<Rightarrow> bool" where
  "undone ms ms' \<longleftrightarrow> level ms' = level ms \<and> length (captures ms') = length (captures ms) \<and> live ms' = live ms"

type_synonym match_rel = "capture list \<Rightarrow> nat \<Rightarrow> nat \<Rightarrow> capture list \<Rightarrow> bool"

definition answers :: "string \<Rightarrow> match_rel \<Rightarrow> MatchState \<Rightarrow> nat \<Rightarrow> match_result \<Rightarrow> bool" where
  "answers S R ms s r \<longleftrightarrow>
     (case r of Inl e \<Rightarrow> (\<exists>m. e = RunError m)
      | Inr (res, ms') \<Rightarrow>
          (case res of None \<Rightarrow> undone ms ms' \<and> (\<forall>e cs'. \<not> R (live ms) s e cs')
           | Some e \<Rightarrow> s \<le> e \<and> e \<le> length S \<and> ms_ok e ms' \<and> R (live ms) s e (live ms')))"

definition refines :: "string \<Rightarrow> rest_match \<Rightarrow> match_rel \<Rightarrow> bool" where
  "refines S k R \<longleftrightarrow> (\<forall>ms s. ms_ok s ms \<longrightarrow> s \<le> length S \<longrightarrow> answers S R ms s (k ms s))"

lemma refinesD: "refines S k R \<Longrightarrow> ms_ok s ms \<Longrightarrow> s \<le> length S \<Longrightarrow> answers S R ms s (k ms s)"
  by (simp add: refines_def)

lemma answers_error: "answers S R ms s (Inl (RunError m))"
  by (simp add: answers_def)

lemma answers_fail: "(\<And>e cs'. \<not> R (live ms) s e cs') \<Longrightarrow> answers S R ms s (Inr (None, ms))"
  by (simp add: answers_def undone_def)

lemma answers_cong: "(\<And>e cs'. R (live ms) s e cs' = R' (live ms) s e cs') \<Longrightarrow> answers S R ms s r = answers S R' ms s r"
  by (auto simp: answers_def split: sum.splits option.splits)

text \<open>Going on from a later position of the text.\<close>

lemma answers_later:
  assumes "answers S R ms s' r" "s \<le> s'" "\<And>e cs'. R (live ms) s' e cs' = R' (live ms) s e cs'"
  shows "answers S R' ms s r"
  using assms by (auto simp: answers_def split: sum.splits option.splits)

text \<open>A first search, and a second one when it fails.\<close>

lemma answers_alternative:
  assumes "answers S R1 ms s r" "\<And>ms'. undone ms ms' \<Longrightarrow> answers S R2 ms' s (f ms')"
    and "\<And>e cs'. R (live ms) s e cs' \<longleftrightarrow> R1 (live ms) s e cs' \<or> R2 (live ms) s e cs'"
  shows "answers S R ms s (bind_result r (\<lambda>(res, ms). case res of Some e \<Rightarrow> Inr (Some e, ms) | None \<Rightarrow> f ms))"
proof (cases r)
  case (Inr y)
  obtain res ms' where y: "y = (res, ms')" by (cases y)
  show ?thesis
  proof (cases res)
    case None
    then have u: "undone ms ms'" "\<And>e cs'. \<not> R1 (live ms) s e cs'" using assms(1) Inr y by (auto simp: answers_def)
    have "answers S R2 ms' s (f ms')" using assms(2) u by blast
    moreover have "undone ms' ms'' \<Longrightarrow> undone ms ms''" for ms'' using u(1) by (auto simp: undone_def)
    ultimately show ?thesis using Inr y None u assms(3)
      by (auto simp: answers_def undone_def split: sum.splits option.splits)
  qed (use assms Inr y in \<open>auto simp: answers_def\<close>)
qed (use assms in \<open>auto simp: answers_def\<close>)

lemma undone_ms_ok: "undone ms ms' \<Longrightarrow> ms_ok s ms \<Longrightarrow> ms_ok s ms'"
  by (auto simp: undone_def ms_ok_def)

lemma ms_ok_mono: "ms_ok s ms \<Longrightarrow> s \<le> s' \<Longrightarrow> ms_ok s' ms"
  by (auto simp: ms_ok_def list_all_iff cap_ok_def)

subsection \<open>Captures\<close>

lemma start_capture_answers:
  assumes k: "refines S k R" and ms: "ms_ok s ms" "s \<le> length S" and what: "what = CAP_UNFINISHED \<or> what = CAP_POSITION"
  shows "answers S (\<lambda>cs s e cs'. R (cs @ [\<lparr>cap_init = s, cap_len = what\<rparr>]) s e cs') ms s (start_capture k ms s what)"
proof (cases "level ms \<ge> LUA_MAXCAPTURES")
  case False
  let ?c = "\<lparr>cap_init = s, cap_len = what\<rparr>"
  define ms1 where "ms1 = ms\<lparr>captures := (captures ms)[level ms := ?c], level := Suc (level ms)\<rparr>"
  have l: "level ms < length (captures ms)" using ms False by (simp add: ms_ok_def)
  have fld: "level ms1 = Suc (level ms)" "length (captures ms1) = length (captures ms)" by (simp_all add: ms1_def)
  have live: "live ms1 = live ms @ [?c]" using l by (simp add: live_def ms1_def take_Suc_conv_app_nth)
  have "ms_ok s ms1" using ms False what by (auto simp: ms_ok_def fld live cap_ok_def)
  from refinesD [OF k this ms(2)] have a: "answers S R ms1 s (k ms1 s)" .
  have sc: "start_capture k ms s what = bind_result (k ms1 s) (\<lambda>(res, ms).
      case res of None \<Rightarrow> Inr (None, ms\<lparr>level := level ms - 1\<rparr>) | Some e \<Rightarrow> Inr (Some e, ms))"
    using False l by (simp add: start_capture_def set_capture_def Let_def ms1_def)
  have und: "undone ms (ms'\<lparr>level := level ms' - Suc 0\<rparr>)" if u: "undone ms1 ms'" for ms'
  proof -
    have "live (ms'\<lparr>level := level ms' - 1\<rparr>) = butlast (live ms')"
      using u l fld by (simp add: live_def undone_def take_Suc_conv_app_nth)
    also have "\<dots> = live ms" using u live by (simp add: undone_def)
    finally show ?thesis using u fld by (simp add: undone_def)
  qed
  show ?thesis unfolding sc using a
    by (auto simp: answers_def live und split: sum.splits option.splits)
qed (simp add: start_capture_def answers_error)

lemma live_nth: "l < level ms \<Longrightarrow> live ms ! l = captures ms ! l"
  by (simp add: live_def)

lemma to_close_from_spec:
  "n \<le> level ms \<Longrightarrow> ms_ok s ms \<Longrightarrow>
   to_close_from ms n = (case find (\<lambda>l. cap_len (live ms ! l) = CAP_UNFINISHED) (rev [0..<n]) of
     None \<Rightarrow> Inl (RunError ''invalid pattern capture'') | Some l \<Rightarrow> Inr l)"
  by (induction n) (auto simp: ms_capture_def ms_ok_def live_nth)

lemma length_live: "ms_ok s ms \<Longrightarrow> length (live ms) = level ms"
  by (simp add: ms_ok_def live_def)

lemma capture_to_close_spec:
  "ms_ok s ms \<Longrightarrow> capture_to_close ms = (case open_capture (live ms) of
     None \<Rightarrow> Inl (RunError ''invalid pattern capture'') | Some l \<Rightarrow> Inr l)"
  by (simp add: capture_to_close_def to_close_from_spec open_capture_def length_live)

lemma open_captureD: "open_capture cs = Some l \<Longrightarrow> l < length cs \<and> cap_len (cs ! l) = CAP_UNFINISHED"
  by (auto simp: open_capture_def find_Some_iff rev_nth)

lemma live_update: "l < level ms \<Longrightarrow> live (ms\<lparr>captures := (captures ms)[l := c]\<rparr>) = (live ms)[l := c]"
  by (simp add: live_def take_update_swap)

lemma end_capture_answers:
  assumes k: "refines S k R" and ms: "ms_ok s ms" "s \<le> length S"
  shows "answers S (\<lambda>cs s e cs'. \<exists>l. open_capture cs = Some l \<and>
      R (cs[l := (cs ! l)\<lparr>cap_len := int s - int (cap_init (cs ! l))\<rparr>]) s e cs') ms s (end_capture k ms s)"
proof (cases "open_capture (live ms)")
  case None
  then show ?thesis using capture_to_close_spec [OF ms(1)] by (simp add: end_capture_def answers_error)
next
  case (Some l)
  note oc = open_captureD [OF Some]
  have l: "l < level ms" "l < length (captures ms)" using oc length_live [OF ms(1)] ms(1) by (auto simp: ms_ok_def)
  have c: "captures ms ! l = live ms ! l" using l by (simp add: live_nth)
  define c1 where "c1 = (live ms ! l)\<lparr>cap_len := int s - int (cap_init (live ms ! l))\<rparr>"
  define ms1 where "ms1 = ms\<lparr>captures := (captures ms)[l := c1]\<rparr>"
  have fld: "level ms1 = level ms" "length (captures ms1) = length (captures ms)" by (simp_all add: ms1_def)
  have live: "live ms1 = (live ms)[l := c1]" unfolding ms1_def by (rule live_update) (rule l)
  have "cap_ok s (live ms ! l)" using ms(1) oc by (auto simp: ms_ok_def list_all_length)
  then have "cap_ok s c1" by (simp add: cap_ok_def c1_def)
  then have "ms_ok s ms1" using ms(1) oc by (auto simp: ms_ok_def fld live list_all_length nth_list_update)
  from refinesD [OF k this ms(2)] have a: "answers S R ms1 s (k ms1 s)" .
  have ec: "end_capture k ms s = bind_result (k ms1 s) (\<lambda>(res, ms').
      case res of None \<Rightarrow> bind_result (ms_capture ms' l) (\<lambda>c.
          bind_result (set_capture ms' l (c\<lparr>cap_len := CAP_UNFINISHED\<rparr>)) (\<lambda>ms. Inr (None, ms)))
      | Some e \<Rightarrow> Inr (Some e, ms'))"
    using capture_to_close_spec [OF ms(1)] Some l
    by (simp add: end_capture_def ms_capture_def set_capture_def ms1_def c1_def c)
  let ?undo = "\<lambda>ms'. ms'\<lparr>captures := (captures ms')[l := (captures ms' ! l)\<lparr>cap_len := CAP_UNFINISHED\<rparr>]\<rparr>"
  have und: "undone ms (?undo ms')" "l < length (captures ms')" if u: "undone ms1 ms'" for ms'
  proof -
    have lv: "l < level ms'" "live ms' = (live ms)[l := c1]" using u l live fld by (simp_all add: undone_def)
    then have "captures ms' ! l = c1" using oc live_nth [of l ms'] by simp
    then have "live (?undo ms') = (live ms)[l := (live ms ! l)\<lparr>cap_len := CAP_UNFINISHED\<rparr>]"
      using live_update [OF lv(1)] lv(2) by (simp add: c1_def)
    also have "(live ms ! l)\<lparr>cap_len := CAP_UNFINISHED\<rparr> = live ms ! l" using oc by (intro capture.equality) simp_all
    also have "(live ms)[l := live ms ! l] = live ms" by (rule list_update_id)
    finally show "undone ms (?undo ms')" using u fld by (simp add: undone_def)
    show "l < length (captures ms')" using u l fld by (simp add: undone_def)
  qed
  show ?thesis unfolding ec using a Some und
    by (auto simp: answers_def live c1_def ms_capture_def set_capture_def split: sum.splits option.splits)
qed

subsection \<open>Back references\<close>

lemma size_of_small: "0 \<le> x \<Longrightarrow> x < 2 ^ 63 \<Longrightarrow> size_of x = nat x"
  by (simp add: size_of_def)

lemma size_of_position: "size_of CAP_POSITION = 2 ^ 64 - 2"
  by (simp add: size_of_def CAP_POSITION_def)

lemma match_capture_spec:
  assumes ms: "ms_ok s ms" "s \<le> length S" "length S < 2 ^ 63"
  shows "match_capture S ms s l = Inl (RunError ''invalid capture index'') \<or>
    (49 \<le> l \<and> match_capture S ms s l = Inr (case captured S (live ms) (l - 49) of None \<Rightarrow> None
       | Some w \<Rightarrow> if take (length w) (drop s S) = w then Some (s + length w) else None))"
proof (cases "l < 49 \<or> l - 49 \<ge> level ms \<or> cap_len (captures ms ! (l - 49)) = CAP_UNFINISHED")
  case True
  then show ?thesis using ms(1) by (auto simp: match_capture_def check_capture_def ms_capture_def ms_ok_def)
next
  case False
  define c where "c = live ms ! (l - 49)"
  have l: "l - 49 < level ms" "l - 49 < length (captures ms)" "captures ms ! (l - 49) = c" "l - 49 < length (live ms)"
    using False ms(1) length_live [OF ms(1)] by (auto simp: ms_ok_def live_nth c_def)
  have ok: "cap_ok s c" "cap_len c \<noteq> CAP_UNFINISHED"
    using ms(1) l False by (auto simp: ms_ok_def list_all_length c_def)
  have mc: "match_capture S ms s l = (let len = size_of (cap_len c) in
      if length S - s \<ge> len then bind_result (mem_equal S (cap_init c) s len) (\<lambda>same. Inr (if same then Some (s + len) else None))
      else Inr None)"
    using False l ms(2,3) size_of_small [of "int (length S) - int s"]
    by (auto simp: match_capture_def check_capture_def ms_capture_def Let_def)
  show ?thesis
  proof (cases "cap_len c = CAP_POSITION")
    case True
    then have "captured S (live ms) (l - 49) = None" by (simp add: captured_def CAP_POSITION_def flip: c_def)
    moreover have "\<not> 2 ^ 64 - 2 \<le> length S - s" using ms(3) by simp
    then have "match_capture S ms s l = Inr None" unfolding mc True size_of_position Let_def by simp
    ultimately show ?thesis using False by simp
  next
    case pos: False
    define n where "n = nat (cap_len c)"
    have n: "0 \<le> cap_len c" "cap_init c + n \<le> s" using ok pos by (auto simp: cap_ok_def n_def)
    then have sz: "size_of (cap_len c) = n" using ms(2,3) by (auto simp: n_def intro!: size_of_small)
    have w: "captured S (live ms) (l - 49) = Some (take n (drop (cap_init c) S))"
      using l(4) n(1) by (simp add: captured_def n_def flip: c_def)
    have len: "length (take n (drop (cap_init c) S)) = n" using n ms(2) by simp
    have short: "\<not> n \<le> length S - s \<Longrightarrow> take n (drop s S) \<noteq> take n (drop (cap_init c) S)"
      using len by (auto dest!: arg_cong [where f = length])
    have "match_capture S ms s l = Inr (if take n (drop s S) = take n (drop (cap_init c) S) then Some (s + n) else None)"
      using n ms(2) short by (auto simp: mc sz mem_equal_def Let_def)
    with w len False show ?thesis by simp
  qed
qed

subsection \<open>Repetitions\<close>

lemma try_counts_answers:
  assumes k: "refines S k R"
  shows "ms_ok s ms \<Longrightarrow> s + i \<le> length S \<Longrightarrow>
    answers S (\<lambda>cs s e cs'. \<exists>n \<le> i. R cs (s + n) e cs') ms s (try_counts k ms s i)"
proof (induction i arbitrary: ms)
  case 0
  from refinesD [OF k this(1)] 0 have "answers S R ms s (k ms s)" by simp
  then show ?case by (auto simp: try_counts.simps [of k] answers_def split: sum.splits option.splits)
next
  case (Suc i)
  have "answers S R ms (s + Suc i) (k ms (s + Suc i))"
    using Suc.prems by (intro refinesD [OF k]) (auto intro: ms_ok_mono)
  then have 1: "answers S (\<lambda>cs s e cs'. R cs (s + Suc i) e cs') ms s (k ms (s + Suc i))"
    by (rule answers_later) auto
  have 2: "answers S (\<lambda>cs s e cs'. \<exists>n \<le> i. R cs (s + n) e cs') ms' s (try_counts k ms' s i)" if "undone ms ms'" for ms'
    using Suc.IH [of ms'] Suc.prems that by (auto intro: undone_ms_ok)
  have "answers S (\<lambda>cs s e cs'. \<exists>n \<le> Suc i. R cs (s + n) e cs') ms s
      (bind_result (k ms (s + Suc i)) (\<lambda>(res, ms). case res of Some e \<Rightarrow> Inr (Some e, ms) | None \<Rightarrow> try_counts k ms s i))"
    by (rule answers_alternative [OF 1 2]) (auto simp: le_Suc_eq)
  moreover have "try_counts k ms s (Suc i) =
      bind_result (k ms (s + Suc i)) (\<lambda>(res, ms). case res of Some e \<Rightarrow> Inr (Some e, ms) | None \<Rightarrow> try_counts k ms s i)"
    by (simp only: try_counts.simps [of k ms s "Suc i"] nat.case cong: option.case_cong)
  ultimately show ?case by simp
qed

definition run :: "string \<Rightarrow> string \<Rightarrow> nat \<Rightarrow> nat \<Rightarrow> nat \<Rightarrow> nat \<Rightarrow> bool" where
  "run S P p ep s n \<longleftrightarrow> s + n \<le> length S \<and> (\<forall>j < n. singlematch (uchar (S ! (s + j))) P p ep = Inr True)"

lemma run_Suc: "run S P p ep s (Suc n) \<longleftrightarrow>
    s < length S \<and> singlematch (uchar (S ! s)) P p ep = Inr True \<and> run S P p ep (s + 1) n"
  by (auto simp: run_def less_Suc_eq_0_disj)

lemma run_0: "run S P p ep s 0 \<longleftrightarrow> s \<le> length S"
  by (simp add: run_def)

lemma ex_nat_cases: "(\<exists>n. A n) \<longleftrightarrow> A 0 \<or> (\<exists>n. A (Suc n))"
  by (metis not0_implies_Suc)

lemma max_expand_answers:
  assumes k: "refines S k R" and ms: "ms_ok s ms" "s \<le> length S" and ce: "classend P p = Inr ep" "p < length P"
  shows "answers S (\<lambda>cs s e cs'. \<exists>n. run S P p ep s n \<and> R cs (s + n) e cs') ms s (max_expand k S P ms s p ep)"
proof -
  obtain i where i: "expand_count S P s p ep = Inr i" "run S P p ep s i"
      "s + i < length S \<longrightarrow> singlematch (uchar (S ! (s + i))) P p ep = Inr False"
    using expand_count_spec [OF ce ms(2)] unfolding run_def by blast
  have "run S P p ep s n \<longleftrightarrow> n \<le> i" for n
  proof
    assume n: "run S P p ep s n"
    show "n \<le> i"
    proof (rule ccontr)
      assume "\<not> n \<le> i"
      then have "i < n" by simp
      with n have "singlematch (uchar (S ! (s + i))) P p ep = Inr True" "s + i < length S" by (auto simp: run_def)
      with i(3) show False by simp
    qed
  qed (use i(2) in \<open>auto simp: run_def\<close>)
  then have "(\<exists>n. run S P p ep s n \<and> R cs (s + n) e cs') \<longleftrightarrow> (\<exists>n \<le> i. R cs (s + n) e cs')" for cs e cs' by blast
  moreover have "answers S (\<lambda>cs s e cs'. \<exists>n \<le> i. R cs (s + n) e cs') ms s (try_counts k ms s i)"
    using ms i(2) by (intro try_counts_answers [OF k]) (auto simp: run_def)
  ultimately show ?thesis
    by (subst answers_cong [where R' = "\<lambda>cs s e cs'. \<exists>n \<le> i. R cs (s + n) e cs'"]) (simp_all add: max_expand_def i(1))
qed

lemma min_expand_answers:
  assumes k: "refines S k R" and ce: "classend P p = Inr ep" "p < length P"
  shows "ms_ok s ms \<Longrightarrow> s \<le> length S \<Longrightarrow>
    answers S (\<lambda>cs s e cs'. \<exists>n. run S P p ep s n \<and> R cs (s + n) e cs') ms s (min_expand k S P ms s p ep)"
proof (induction "length S - s" arbitrary: s ms)
  case 0
  then have s: "s = length S" by simp
  have "answers S R ms s (k ms s)" using refinesD [OF k 0(2)] s by simp
  moreover have "(\<exists>n. run S P p ep s n \<and> R cs (s + n) e cs') \<longleftrightarrow> R cs s e cs'" for cs e cs'
  proof -
    have "run S P p ep s n \<longleftrightarrow> n = 0" for n using s by (auto simp: run_def)
    then show ?thesis by simp
  qed
  moreover have "min_expand k S P ms s p ep =
      bind_result (k ms s) (\<lambda>(res, ms). case res of Some e \<Rightarrow> Inr (Some e, ms) | None \<Rightarrow> Inr (None, ms))"
    by (subst min_expand.simps) (simp add: s cong: option.case_cong)
  ultimately show ?case by (auto simp: answers_def split: sum.splits option.splits)
next
  case (Suc d)
  then have s: "s < length S" "d = length S - (s + 1)" by simp_all
  obtain m where m: "singlematch (uchar (S ! s)) P p ep = Inr m"
    using singlematch_returns [OF ce] by (auto simp: returns_def)
  have 1: "answers S R ms s (k ms s)" using refinesD [OF k Suc(3)] s by simp
  let ?R = "\<lambda>cs s e cs'. \<exists>n. run S P p ep s n \<and> R cs (s + n) e cs'"
  let ?R2 = "\<lambda>cs s e cs'. s < length S \<and> singlematch (uchar (S ! s)) P p ep = Inr True \<and> ?R cs (s + 1) e cs'"
  have 2: "answers S ?R2 ms' s (if m then min_expand k S P ms' (s + 1) p ep else Inr (None, ms'))" if "undone ms ms'" for ms'
  proof (cases m)
    case True
    have "answers S ?R ms' (s + 1) (min_expand k S P ms' (s + 1) p ep)"
      using s Suc(3) that by (intro Suc(1)) (auto intro: ms_ok_mono undone_ms_ok)
    then have "answers S ?R2 ms' s (min_expand k S P ms' (s + 1) p ep)"
      by (rule answers_later) (use s(1) m True in simp_all)
    with True show ?thesis by simp
  qed (use m in \<open>auto intro: answers_fail\<close>)
  have r: "?R cs s e cs' \<longleftrightarrow> R cs s e cs' \<or> ?R2 cs s e cs'" for cs e cs'
  proof -
    have "?R cs s e cs' \<longleftrightarrow> R cs s e cs' \<or> (\<exists>n. run S P p ep s (Suc n) \<and> R cs (s + Suc n) e cs')"
      using s(1) by (subst ex_nat_cases) (simp add: run_0)
    then show ?thesis by (simp add: run_Suc)
  qed
  have "min_expand k S P ms s p ep = bind_result (k ms s) (\<lambda>(res, ms). case res of Some e \<Rightarrow> Inr (Some e, ms)
      | None \<Rightarrow> if m then min_expand k S P ms (s + 1) p ep else Inr (None, ms))"
    by (subst min_expand.simps) (simp add: s(1) m cchar_at cong: option.case_cong)
  moreover have "answers S ?R ms s (bind_result (k ms s) (\<lambda>(res, ms). case res of Some e \<Rightarrow> Inr (Some e, ms)
      | None \<Rightarrow> if m then min_expand k S P ms (s + 1) p ep else Inr (None, ms)))"
  proof (rule answers_alternative [OF 1 2])
    fix e cs'
    show "?R (live ms) s e cs' \<longleftrightarrow> R (live ms) s e cs' \<or> ?R2 (live ms) s e cs'" by (rule r)
  qed
  ultimately show ?case by simp
qed

lemma match_item_answers:
  assumes k: "\<And>p'. p < p' \<Longrightarrow> p' \<le> length P \<Longrightarrow> refines S (k p') (R p')" and ms: "ms_ok s ms" "s \<le> length S" and p: "p < length P"
  shows "answers S (\<lambda>cs s e cs'. \<exists>ep x n. classend P p = Inr ep \<and> cchar P ep = Inr x \<and> reps x n \<and> run S P p ep s n \<and>
      R (after_item x ep) cs (s + n) e cs') ms s (match_item k S P ms s p)"
proof (cases "classend P p")
  case (Inl err)
  then show ?thesis using classend_outcome [OF p] by (auto simp: match_item_def answers_error)
next
  case (Inr ep)
  have ep: "p < ep" "ep \<le> length P" using classend_greater [OF Inr] classend_le [OF Inr p] by auto
  obtain x where x: "cchar P ep = Inr x" using cchar_returns [OF ep(2)] by (auto simp: returns_def)
  have k1: "refines S (k (ep + 1)) (R (ep + 1))" if "x \<noteq> CHR 0x00"
    using ep cchar_nonzero [OF x that] by (intro k) auto
  define m where "m \<longleftrightarrow> run S P p ep s 1"
  have m: "(if s < length S then bind_result (cchar S s) (\<lambda>c. singlematch (uchar c) P p ep) else Inr False) = Inr m"
    using singlematch_returns [OF Inr p, of "uchar (S ! s)"]
    by (cases "s < length S") (auto simp: m_def run_def cchar_at returns_def)
  have run0: "run S P p ep s 0" using ms(2) by (simp add: run_0)
  let ?G = "\<lambda>cs s e cs'. \<exists>n. reps x n \<and> run S P p ep s n \<and> R (after_item x ep) cs (s + n) e cs'"
  have one: "answers S (\<lambda>cs s e cs'. run S P p ep s 1 \<and> Q cs (s + 1) e cs') ms s (if m then q ms (s + 1) else Inr (None, ms))"
    if "refines S q Q" for q Q
  proof (cases m)
    case True
    then have "answers S Q ms (s + 1) (q ms (s + 1))"
      using ms by (intro refinesD [OF that]) (auto simp: m_def run_def intro: ms_ok_mono)
    then have "answers S (\<lambda>cs s e cs'. run S P p ep s 1 \<and> Q cs (s + 1) e cs') ms s (q ms (s + 1))"
      by (rule answers_later) (use True in \<open>auto simp: m_def\<close>)
    with True show ?thesis by simp
  qed (auto simp: m_def intro!: answers_fail)
  consider "x = CHR ''?''" | "x = CHR ''*''" | "x = CHR ''+''" | "x = CHR ''-''" |
    "x \<notin> {CHR ''?'', CHR ''*'', CHR ''+'', CHR ''-''}" by auto
  then have "answers S ?G ms s (match_item k S P ms s p)"
  proof cases
    case 1
    have "answers S ?G ms s (bind_result (if m then k (ep + 1) ms (s + 1) else Inr (None, ms)) (\<lambda>(res, ms).
           case res of Some e \<Rightarrow> Inr (Some e, ms) | None \<Rightarrow> k (ep + 1) ms s))"
    proof (rule answers_alternative [OF one])
      show q: "refines S (k (ep + 1)) (R (ep + 1))" using k1 1 by simp
      show "answers S (R (ep + 1)) ms' s (k (ep + 1) ms' s)" if "undone ms ms'" for ms'
        using that ms by (intro refinesD [OF q]) (auto intro: undone_ms_ok)
      show "?G (live ms) s e cs' \<longleftrightarrow> (run S P p ep s 1 \<and> R (ep + 1) (live ms) (s + 1) e cs') \<or> R (ep + 1) (live ms) s e cs'" for e cs'
        using 1 run0 by (auto simp: reps_def after_item_def le_Suc_eq)
    qed
    with 1 show ?thesis by (simp add: match_item_def Inr m x)
  next
    case 2
    with k1 have "answers S ?G ms s (max_expand (k (ep + 1)) S P ms s p ep)"
      using max_expand_answers [OF k1 ms Inr p] by (simp add: reps_def after_item_def)
    with 2 show ?thesis by (simp add: match_item_def Inr m x)
  next
    case 3
    have "refines S (\<lambda>ms s. max_expand (k (ep + 1)) S P ms s p ep) (\<lambda>cs s e cs'. \<exists>n. run S P p ep s n \<and> R (ep + 1) cs (s + n) e cs')"
      unfolding refines_def using max_expand_answers [OF k1 _ _ Inr p] 3 by auto
    from one [OF this] have a: "answers S (\<lambda>cs s e cs'. run S P p ep s 1 \<and> (\<exists>n. run S P p ep (s + 1) n \<and> R (ep + 1) cs (s + 1 + n) e cs')) ms s
        (if m then max_expand (k (ep + 1)) S P ms (s + 1) p ep else Inr (None, ms))" .
    have eq: "(run S P p ep s 1 \<and> (\<exists>n. run S P p ep (s + 1) n \<and> R (ep + 1) cs (s + 1 + n) e cs')) = ?G cs s e cs'" for cs e cs'
    proof -
      have "?G cs s e cs' \<longleftrightarrow> (\<exists>n. run S P p ep s (Suc n) \<and> R (ep + 1) cs (s + Suc n) e cs')"
        using 3 by (subst ex_nat_cases) (simp add: reps_def after_item_def)
      then show ?thesis by (auto simp: run_Suc run_0 run_def [of _ _ _ _ _ 1])
    qed
    have "answers S ?G ms s (if m then max_expand (k (ep + 1)) S P ms (s + 1) p ep else Inr (None, ms))"
    proof (rule answers_later [OF a order_refl])
      fix e cs'
      show "(run S P p ep s 1 \<and> (\<exists>n. run S P p ep (s + 1) n \<and> R (ep + 1) (live ms) (s + 1 + n) e cs')) = ?G (live ms) s e cs'"
        by (rule eq)
    qed
    with 3 show ?thesis by (simp add: match_item_def Inr m x)
  next
    case 4
    with k1 have "answers S ?G ms s (min_expand (k (ep + 1)) S P ms s p ep)"
      using min_expand_answers [OF k1 Inr p ms] by (simp add: reps_def after_item_def)
    with 4 show ?thesis by (simp add: match_item_def Inr m x)
  next
    case 5
    have "answers S ?G ms s (if m then k ep ms (s + 1) else Inr (None, ms))"
      using one [OF k [OF ep]] 5 by (simp add: reps_def after_item_def)
    moreover have "match_item k S P ms s p = (if m then k ep ms (s + 1) else Inr (None, ms))"
      unfolding match_item_def Inr bind_result_simps m x using 5 by simp
    ultimately show ?thesis by simp
  qed
  with x show ?thesis by (simp add: Inr)
qed

subsection \<open>The matcher refines the meaning of the pattern\<close>

lemma Match_open:
  assumes "cchar P p = Inr (CHR ''('')" "cchar P (p + 1) = Inr d"
  shows "Match S P p cs s e cs' \<longleftrightarrow>
    (if d = CHR '')'' then Match S P (p + 2) (cs @ [\<lparr>cap_init = s, cap_len = CAP_POSITION\<rparr>]) s e cs'
     else Match S P (p + 1) (cs @ [\<lparr>cap_init = s, cap_len = CAP_UNFINISHED\<rparr>]) s e cs')" (is "?l = ?r")
proof
  show ?r if ?l
    using that by (cases rule: Match.cases) (use assms in \<open>auto simp: is_item_def\<close>)
  show "?r \<Longrightarrow> ?l" using assms by (auto intro: M_pos M_open split: if_splits)
qed

lemma Match_close:
  assumes "cchar P p = Inr (CHR '')'')"
  shows "Match S P p cs s e cs' \<longleftrightarrow> (\<exists>l. open_capture cs = Some l \<and>
    Match S P (p + 1) (cs[l := (cs ! l)\<lparr>cap_len := int s - int (cap_init (cs ! l))\<rparr>]) s e cs')" (is "?l = ?r")
proof
  show ?r if ?l
    using that by (cases rule: Match.cases) (use assms in \<open>auto simp: is_item_def\<close>)
  show "?r \<Longrightarrow> ?l" using assms by (auto intro: M_close)
qed

lemma Match_balance:
  assumes "cchar P p = Inr L_ESC" "cchar P (p + 1) = Inr (CHR ''b'')"
  shows "Match S P p cs s e cs' \<longleftrightarrow> (\<exists>s'. matchbalance S P s (p + 2) = Inr (Some s') \<and> Match S P (p + 4) cs s' e cs')" (is "?l = ?r")
proof
  show ?r if ?l
    using that by (cases rule: Match.cases) (use assms in \<open>auto simp: is_item_def ctype_defs\<close>)
  show "?r \<Longrightarrow> ?l" using assms by (auto intro: M_balance)
qed

lemma Match_frontier:
  assumes "cchar P p = Inr L_ESC" "cchar P (p + 1) = Inr (CHR ''f'')" "cchar P (p + 2) = Inr (CHR ''['')" "classend P (p + 2) = Inr ep"
  shows "Match S P p cs s e cs' \<longleftrightarrow> frontier S P s (p + 2) ep \<and> Match S P ep cs s e cs'" (is "?l = ?r")
proof
  show ?r if ?l
    using that by (cases rule: Match.cases) (use assms in \<open>auto simp: is_item_def ctype_defs\<close>)
  show "?r \<Longrightarrow> ?l" using assms by (auto intro: M_frontier)
qed

lemma Match_back:
  assumes "cchar P p = Inr L_ESC" "cchar P (p + 1) = Inr d" "isdigit (uchar d)"
  shows "Match S P p cs s e cs' \<longleftrightarrow> 49 \<le> uchar d \<and> (\<exists>w. captured S cs (uchar d - 49) = Some w \<and>
    take (length w) (drop s S) = w \<and> Match S P (p + 2) cs (s + length w) e cs')" (is "?l = ?r")
proof
  show ?r if ?l
    using that by (cases rule: Match.cases) (use assms in \<open>auto simp: is_item_def ctype_defs\<close>)
  show "?r \<Longrightarrow> ?l" using assms by (auto intro: M_back)
qed

lemma Match_item:
  assumes "is_item P p"
  shows "Match S P p cs s e cs' \<longleftrightarrow> (\<exists>ep x n. classend P p = Inr ep \<and> cchar P ep = Inr x \<and> reps x n \<and> run S P p ep s n \<and>
      Match S P (after_item x ep) cs (s + n) e cs')" (is "?l = ?r")
proof
  show ?r if ?l
    using that by (cases rule: Match.cases) (use assms in \<open>auto simp: is_item_def run_def\<close>)
  show "?r \<Longrightarrow> ?l" using assms by (auto simp: run_def intro: M_item)
qed

lemma Match_end:
  assumes "cchar P p = Inr (CHR 0x00)"
  shows "Match S P p cs s e cs' \<longleftrightarrow> e = s \<and> cs' = cs"
proof
  show "e = s \<and> cs' = cs" if "Match S P p cs s e cs'"
    using that by (cases rule: Match.cases) (use assms in \<open>auto simp: is_item_def\<close>)
qed (use assms in \<open>auto intro: M_end\<close>)

lemma Match_dollar:
  assumes "cchar P p = Inr (CHR ''$'')" "cchar P (p + 1) = Inr (CHR 0x00)"
  shows "Match S P p cs s e cs' \<longleftrightarrow> s = length S \<and> e = s \<and> cs' = cs"
proof
  show "s = length S \<and> e = s \<and> cs' = cs" if "Match S P p cs s e cs'"
    using that by (cases rule: Match.cases) (use assms in \<open>auto simp: is_item_def\<close>)
qed (use assms in \<open>auto intro: M_dollar\<close>)

lemma frontier_step:
  assumes "s \<le> length S" "classend P q = Inr ep" "cchar P q = Inr (CHR ''['')"
  shows "bind_result (if s = 0 then Inr (CHR 0x00) else cchar S (s - 1)) (\<lambda>previous.
      bind_result (matchbracketclass (uchar previous) P q (ep - 1)) (\<lambda>m.
        if m then Inr (None, ms)
        else bind_result (cchar S s) (\<lambda>y.
          bind_result (matchbracketclass (uchar y) P q (ep - 1)) (\<lambda>m. if \<not> m then Inr (None, ms) else r))))
    = (if frontier S P s q ep then r else Inr (None, ms))"
proof -
  have q: "q < length P" using cchar_nonzero [OF assms(3)] by simp
  have "q < ep - 1 \<and> ep - 1 \<le> length P"
    using assms(2,3) classend_le [OF assms(2) q]
    by (auto simp: classend_def bind_result_Inr_conv split: if_splits dest!: set_end_greater)
  then have ret: "returns (matchbracketclass c P q (ep - 1))" for c by (intro matchbracketclass_returns) auto
  define c1 c2 where "c1 = (if s = 0 then CHR 0x00 else S ! (s - 1))" and "c2 = (if s < length S then S ! s else CHR 0x00)"
  have 1: "(if s = 0 then Inr (CHR 0x00) else cchar S (s - 1)) = Inr c1" "cchar S s = Inr c2"
    using assms(1) by (auto simp: c1_def c2_def cchar_def)
  obtain m1 m2 where "matchbracketclass (uchar c1) P q (ep - 1) = Inr m1" "matchbracketclass (uchar c2) P q (ep - 1) = Inr m2"
    using ret [of "uchar c1"] ret [of "uchar c2"] by (auto simp: returns_def)
  with 1 show ?thesis by (simp add: frontier_def flip: c1_def c2_def)
qed

lemma is_itemI: "cchar P p = Inr c \<Longrightarrow> c \<noteq> CHR ''('' \<Longrightarrow> c \<noteq> CHR '')'' \<Longrightarrow> c \<noteq> CHR 0x00 \<Longrightarrow> cchar P (p + 1) = Inr d \<Longrightarrow>
    (c = L_ESC \<Longrightarrow> d \<noteq> CHR ''b'' \<and> d \<noteq> CHR ''f'' \<and> \<not> isdigit (uchar d)) \<Longrightarrow> (c = CHR ''$'' \<Longrightarrow> d \<noteq> CHR 0x00) \<Longrightarrow> is_item P p"
  by (simp add: is_item_def)

lemma answers_success: "s \<le> length S \<Longrightarrow> ms_ok s ms \<Longrightarrow> R (live ms) s s (live ms) \<Longrightarrow> answers S R ms s (Inr (Some s, ms))"
  by (simp add: answers_def)

lemma match_step_escape:
  assumes S: "length S < 2 ^ 63" and p: "cchar P p = Inr L_ESC" and d: "cchar P (p + 1) = Inr d" and not: "\<not> is_item P p"
    and IH: "\<And>p'. p < p' \<Longrightarrow> p' \<le> length P \<Longrightarrow> refines S (match S P p') (Match S P p')"
    and ms: "ms_ok s ms" "s \<le> length S"
  shows "answers S (Match S P p) ms s (match S P p ms s)"
proof -
  have len: "p < length P" "d \<noteq> CHR 0x00 \<Longrightarrow> p + 1 < length P" using cchar_nonzero [OF p] cchar_nonzero [OF d] by auto
  consider "d = CHR ''b''" | "d = CHR ''f''" | "isdigit (uchar d)" "d \<noteq> CHR ''b''" "d \<noteq> CHR ''f''"
    using is_itemI [OF p _ _ _ d] not by fastforce
  then show ?thesis
  proof cases
    case 1
    have eq: "match S P p ms s = bind_result (matchbalance S P s (p + 2)) (\<lambda>r.
        case r of None \<Rightarrow> Inr (None, ms) | Some s \<Rightarrow> match S P (p + 4) ms s)"
      using p d 1 by (simp add: match.simps [of S P p])
    show ?thesis
    proof (cases "matchbalance S P s (p + 2)")
      case (Inl err)
      then show ?thesis using matchbalance_outcome [OF ms(2), of "p + 2" P] len 1 by (auto simp: eq answers_error)
    next
      case (Inr r)
      have p4: "p + 4 \<le> length P" using matchbalance_bounds [OF Inr] by simp
      show ?thesis
      proof (cases r)
        case None
        with Inr p d 1 show ?thesis by (auto simp: eq Match_balance intro!: answers_fail)
      next
        case (Some s')
        have s': "s < s'" "s' \<le> length S" using matchbalance_range Inr Some by auto
        have "answers S (Match S P (p + 4)) ms s' (match S P (p + 4) ms s')"
          using p4 ms s' by (intro refinesD [OF IH]) (auto intro: ms_ok_mono)
        then have "answers S (Match S P p) ms s (match S P (p + 4) ms s')"
          by (rule answers_later) (use s' Inr Some p d 1 in \<open>auto simp: Match_balance\<close>)
        with Inr Some show ?thesis by (simp add: eq)
      qed
    qed
  next
    case 2
    obtain x where x: "cchar P (p + 2) = Inr x" using len 2 cchar_returns [of "p + 2" P] by (auto simp: returns_def)
    show ?thesis
    proof (cases "x = CHR ''['' \<and> (\<exists>ep. classend P (p + 2) = Inr ep)")
      case False
      have "p + 2 < length P" if "x = CHR ''[''" using cchar_nonzero [OF x] that by simp
      then have "\<exists>m. match S P p ms s = Inl (RunError m)"
        using False x p d 2 classend_outcome [of "p + 2" P] by (auto simp: match.simps [of S P p] returns_def)
      then show ?thesis by (auto simp: answers_error)
    next
      case True
      then obtain ep where ep: "x = CHR ''[''" "classend P (p + 2) = Inr ep" by auto
      have q: "p + 2 < length P" using cchar_nonzero [OF x] ep(1) by simp
      have eq: "match S P p ms s = (if frontier S P s (p + 2) ep then match S P ep ms s else Inr (None, ms))"
        using frontier_step [OF ms(2) ep(2), of ms "match S P ep ms s"] x ep p d 2 by (simp add: match.simps [of S P p])
      have "answers S (Match S P ep) ms s (match S P ep ms s)"
        using classend_greater [OF ep(2)] classend_le [OF ep(2) q] ms by (intro refinesD [OF IH]) auto
      then have "frontier S P s (p + 2) ep \<Longrightarrow> answers S (Match S P p) ms s (match S P ep ms s)"
        by (rule answers_later) (use Match_frontier p d 2 x ep in auto)
      then show ?thesis using Match_frontier [OF p _ _ ep(2)] d 2 x ep(1) by (auto simp: eq intro!: answers_fail)
    qed
  next
    case 3
    have eq: "match S P p ms s = bind_result (match_capture S ms s (uchar d)) (\<lambda>r.
        case r of None \<Rightarrow> Inr (None, ms) | Some s \<Rightarrow> match S P (p + 2) ms s)"
      using p d 3 by (simp add: match.simps [of S P p] numeral_2_eq_2 cong: option.case_cong)
    note M = Match_back [OF p d 3(1)]
    show ?thesis
    proof (cases "match_capture S ms s (uchar d) = Inl (RunError ''invalid capture index'')")
      case False
      then have c: "49 \<le> uchar d" "match_capture S ms s (uchar d) = Inr (case captured S (live ms) (uchar d - 49) of None \<Rightarrow> None
       | Some w \<Rightarrow> if take (length w) (drop s S) = w then Some (s + length w) else None)"
        using match_capture_spec [OF ms S, of "uchar d"] by auto
      show ?thesis
      proof (cases "\<exists>w. captured S (live ms) (uchar d - 49) = Some w \<and> take (length w) (drop s S) = w")
        case True
        then obtain w where w: "captured S (live ms) (uchar d - 49) = Some w" "take (length w) (drop s S) = w" by auto
        have le: "s + length w \<le> length S" using arg_cong [OF w(2), of length] ms(2) by auto
        have "d \<noteq> CHR 0x00" using 3(1) by (rule contrapos_pn) (simp add: isdigit_def)
        then have "p + 2 \<le> length P" using len(2) by simp
        then have "answers S (Match S P (p + 2)) ms (s + length w) (match S P (p + 2) ms (s + length w))"
          using ms le by (intro refinesD [OF IH]) (auto intro: ms_ok_mono)
        then have "answers S (Match S P p) ms s (match S P (p + 2) ms (s + length w))"
          by (rule answers_later) (use w c(1) M in auto)
        with c w show ?thesis by (simp add: eq)
      next
        case none: False
        then have "match S P p ms s = Inr (None, ms)" by (auto simp: eq c split: option.splits)
        with none M show ?thesis by (auto intro!: answers_fail)
      qed
    qed (simp add: eq answers_error)
  qed
qed

lemma match_refines:
  assumes S: "length S < 2 ^ 63"
  shows "p \<le> length P \<Longrightarrow> refines S (match S P p) (Match S P p)"
proof (induction "length P - p" arbitrary: p rule: less_induct)
  case less
  have IH: "refines S (match S P p') (Match S P p')" if "p < p'" "p' \<le> length P" for p'
    using less that by auto
  show ?case unfolding refines_def
  proof (intro allI impI)
    fix ms s assume ms: "ms_ok s ms" "s \<le> length S"
    obtain c where c: "cchar P p = Inr c" using cchar_returns [OF less.prems] by (auto simp: returns_def)
    have next_char: "\<exists>d. cchar P (p + 1) = Inr d" "p < length P" if "c \<noteq> CHR 0x00"
      using cchar_nonzero [OF c that] cchar_returns [of "p + 1" P] by (auto simp: returns_def)
    show "answers S (Match S P p) ms s (match S P p ms s)"
    proof (cases "is_item P p")
      case True
      have "match S P p ms s = match_item (\<lambda>p' ms s. match S P p' ms s) S P ms s p"
        using True c by (auto simp: match.simps [of S P p] is_item_def split: sum.splits)
      moreover have "c \<noteq> CHR 0x00" using True c by (auto simp: is_item_def)
      then have "p < length P" by (rule next_char(2))
      then have a: "answers S (\<lambda>cs s e cs'. \<exists>ep x n. classend P p = Inr ep \<and> cchar P ep = Inr x \<and> reps x n \<and> run S P p ep s n \<and>
          Match S P (after_item x ep) cs (s + n) e cs') ms s (match_item (\<lambda>p'. match S P p') S P ms s p)"
        using IH by (intro match_item_answers ms) auto
      have "answers S (Match S P p) ms s (match_item (\<lambda>p'. match S P p') S P ms s p)"
        by (rule answers_later [OF a order_refl]) (simp add: Match_item [OF True])
      ultimately show ?thesis by simp
    next
      case False
      consider "c = CHR 0x00" | "c = CHR ''(''" | "c = CHR '')''" | "c = L_ESC" | "c = CHR ''$''" "cchar P (p + 1) = Inr (CHR 0x00)"
        using False c next_char by (auto simp: is_item_def split: sum.splits)
      then show ?thesis
      proof cases
        case 1
        then show ?thesis using c ms Match_end [of P p] by (simp add: match.simps [of S P p] answers_success)
      next
        case 2
        obtain d where d: "cchar P (p + 1) = Inr d" using next_char 2 by auto
        have p: "p < length P" using next_char 2 by auto
        show ?thesis
        proof (cases "d = CHR '')''")
          case True
          have "p + 2 \<le> length P" using cchar_nonzero [OF d] True by simp
          then have "answers S (\<lambda>cs s e cs'. Match S P (p + 2) (cs @ [\<lparr>cap_init = s, cap_len = CAP_POSITION\<rparr>]) s e cs') ms s
              (start_capture (match S P (p + 2)) ms s CAP_POSITION)"
            using ms by (intro start_capture_answers IH) auto
          with c d 2 True show ?thesis
            by (auto simp: match.simps [of S P p] Match_open [OF _ d] elim!: answers_later)
        next
          case False
          have "answers S (\<lambda>cs s e cs'. Match S P (p + 1) (cs @ [\<lparr>cap_init = s, cap_len = CAP_UNFINISHED\<rparr>]) s e cs') ms s
              (start_capture (match S P (p + 1)) ms s CAP_UNFINISHED)"
            using ms p by (intro start_capture_answers IH) auto
          with c d 2 False show ?thesis
            by (auto simp: match.simps [of S P p] Match_open [OF _ d] elim!: answers_later)
        qed
      next
        case 3
        have "refines S (match S P (p + 1)) (Match S P (p + 1))" using next_char 3 by (intro IH) auto
        from end_capture_answers [OF this ms] c 3 show ?thesis
          by (auto simp: match.simps [of S P p] Match_close elim!: answers_later)
      next
        case 4
        with c next_char(1) obtain d where "cchar P p = Inr L_ESC" "cchar P (p + 1) = Inr d" by auto
        then show ?thesis by (rule match_step_escape [OF S _ _ False IH ms])
      next
        case 5
        then show ?thesis using c ms Match_dollar [of P p]
          by (auto simp: match.simps [of S P p] intro!: answers_success answers_fail)
      qed
    qed
  qed
qed

end
