(* ===== verification/Lstrlib.thy ===== *)
theory Lstrlib
  imports Lauxlib Lmatch_spec
begin

text \<open>
  The string library (lstrlib.c). A library function takes the frame of its call and gives the
  values it returns, in order. The string buffer it fills is its content (theory Lauxlib proves
  that this is what \<open>luaL_pushresult\<close> pushes). Calls back into the interpreter (a replacement
  function, an index with metamethods) and \<open>sprintf\<close> are arguments.
\<close>

definition results1 :: "string \<Rightarrow> TValue list result" where "results1 s = Inr [TStr s]"

abbreviation TInt :: "int \<Rightarrow> TValue" where "TInt k \<equiv> TNumber (integer2number k)"

subsection \<open>Simple functions\<close>

definition str_len :: "clib \<Rightarrow> lua_State \<Rightarrow> TValue list result" where
  "str_len C L = bind_result (luaL_checklstring C L 1) (\<lambda>(s, L). Inr [TInt (int (length s))])"

definition posrelat :: "int \<Rightarrow> nat \<Rightarrow> int" where
  "posrelat pos len = (let pos = (if pos < 0 then pos + int len + 1 else pos) in if pos \<ge> 0 then pos else 0)"

definition str_sub :: "clib \<Rightarrow> lua_State \<Rightarrow> TValue list result" where
  "str_sub C L =
     bind_result (luaL_checklstring C L 1) (\<lambda>(s, L).
     bind_result (luaL_checkinteger C L 2) (\<lambda>i.
     bind_result (luaL_optinteger C L 3 (- 1)) (\<lambda>j.
       let l = length s; start = posrelat i l; last' = posrelat j l;
           start = (if start < 1 then 1 else start);
           last' = (if last' > int l then int l else last')
       in if start \<le> last' then results1 (take (nat (last' - start + 1)) (drop (nat (start - 1)) s))
          else results1 '''')))"

definition str_reverse :: "clib \<Rightarrow> lua_State \<Rightarrow> TValue list result" where
  "str_reverse C L = bind_result (luaL_checklstring C L 1) (\<lambda>(s, L).
     results1 (map (\<lambda>i. s ! i) (rev [0..<length s])))"

definition char_of_int :: "nat \<Rightarrow> char" where "char_of_int c = char_of c"

definition str_lower :: "clib \<Rightarrow> lua_State \<Rightarrow> TValue list result" where
  "str_lower C L = bind_result (luaL_checklstring C L 1) (\<lambda>(s, L).
     results1 (map (\<lambda>c. char_of_int (tolower (uchar c))) s))"

definition str_upper :: "clib \<Rightarrow> lua_State \<Rightarrow> TValue list result" where
  "str_upper C L = bind_result (luaL_checklstring C L 1) (\<lambda>(s, L).
     results1 (map (\<lambda>c. char_of_int (toupper (uchar c))) s))"

definition str_rep :: "clib \<Rightarrow> lua_State \<Rightarrow> TValue list result" where
  "str_rep C L =
     bind_result (luaL_checklstring C L 1) (\<lambda>(s, L).
     bind_result (luaL_checkint C L 2) (\<lambda>n. results1 (concat (replicate (nat n) s))))"

definition str_byte :: "clib \<Rightarrow> lua_State \<Rightarrow> TValue list result" where
  "str_byte C L =
     bind_result (luaL_checklstring C L 1) (\<lambda>(s, L).
     bind_result (luaL_optinteger C L 2 1) (\<lambda>i.
     let l = length s; posi = posrelat i l in
     bind_result (luaL_optinteger C L 3 posi) (\<lambda>j.
     let pose = posrelat j l;
         posi = (if posi \<le> 0 then 1 else posi);
         pose = (if pose > int l then int l else pose)
     in if posi > pose then Inr []
        else let n = cast_int (pose - posi + 1) in
          if posi + n \<le> pose then luaL_error C L ''string slice too long'' []
          else bind_result (luaL_checkstack C L n ''string slice too long'') (\<lambda>L.
            Inr (map (\<lambda>k. TInt (int (uchar (s ! nat (posi + int k - 1))))) [0..<nat n])))))"

fun str_char_loop :: "clib \<Rightarrow> lua_State \<Rightarrow> nat \<Rightarrow> nat \<Rightarrow> string result" where
  "str_char_loop C L i 0 = Inr []"
| "str_char_loop C L i (Suc n) =
     bind_result (luaL_checkint C L (int i)) (\<lambda>c.
       if c mod 256 = c
       then bind_result (str_char_loop C L (i + 1) n) (\<lambda>s. Inr (char_of_int (nat c) # s))
       else luaL_argerror C L (int i) ''invalid value'')"

definition str_char :: "clib \<Rightarrow> lua_State \<Rightarrow> TValue list result" where
  "str_char C L = bind_result (str_char_loop C L 1 (nat (lua_gettop L))) results1"

subsection \<open>Captures as values\<close>

text \<open>An error inside the matcher gets the position of the caller in front, as \<open>luaL_error\<close> does.\<close>

definition at_caller :: "clib \<Rightarrow> lua_State \<Rightarrow> 'a result \<Rightarrow> 'a result" where
  "at_caller C L r =
     (case r of Inl (RunError m) \<Rightarrow> bind_result (luaL_where C L) (\<lambda>w. Inl (RunError (w @ m))) | _ \<Rightarrow> r)"

definition substring :: "string \<Rightarrow> nat \<Rightarrow> nat \<Rightarrow> string" where
  "substring S i n = take n (drop i S)"

definition push_onecapture :: "string \<Rightarrow> MatchState \<Rightarrow> nat \<Rightarrow> nat \<Rightarrow> nat \<Rightarrow> TValue result" where
  "push_onecapture S ms i s e =
     (if i \<ge> level ms then
        (if i = 0 then Inr (TStr (substring S s (e - s))) else Inl (RunError ''invalid capture index''))
      else bind_result (ms_capture ms i) (\<lambda>c.
        if cap_len c = CAP_UNFINISHED then Inl (RunError ''unfinished capture'')
        else if cap_len c = CAP_POSITION then Inr (TInt (int (cap_init c) + 1))
        else Inr (TStr (substring S (cap_init c) (nat (cap_len c))))))"

fun push_captures_from :: "string \<Rightarrow> MatchState \<Rightarrow> nat \<Rightarrow> nat \<Rightarrow> nat \<Rightarrow> nat \<Rightarrow> TValue list result" where
  "push_captures_from S ms s e i 0 = Inr []"
| "push_captures_from S ms s e i (Suc n) =
     bind_result (push_onecapture S ms i s e) (\<lambda>v.
     bind_result (push_captures_from S ms s e (i + 1) n) (\<lambda>vs. Inr (v # vs)))"

text \<open>
  \<open>whole\<close> says that \<open>s\<close> is not null: with no captures the whole match is pushed. The room of
  at most 32 slots, checked by \<open>luaL_checkstack\<close>, is always there.
\<close>

definition push_captures :: "string \<Rightarrow> MatchState \<Rightarrow> bool \<Rightarrow> nat \<Rightarrow> nat \<Rightarrow> TValue list result" where
  "push_captures S ms whole s e =
     (let nlevels = (if level ms = 0 \<and> whole then 1 else level ms) in push_captures_from S ms s e 0 nlevels)"

text \<open>
  An array of captures not yet written. Every attempt to match starts at level 0 and reads only
  captures below the level (\<open>match_refines\<close>), so what earlier attempts left in the array is of
  no consequence.
\<close>

definition new_match :: MatchState where
  "new_match = \<lparr>level = 0, captures = replicate LUA_MAXCAPTURES \<lparr>cap_init = 0, cap_len = 0\<rparr>\<rparr>"

subsection \<open>Searching\<close>

definition SPECIALS :: string where "SPECIALS = ''^$*+?.([%-''"

text \<open>\<open>memchr\<close>: the first \<open>c\<close> in \<open>n\<close> bytes from \<open>s\<close>.\<close>

definition memchr :: "string \<Rightarrow> nat \<Rightarrow> char \<Rightarrow> nat \<Rightarrow> nat option" where
  "memchr S s c n = find (\<lambda>i. S ! i = c) [s..<s + n]"

text \<open>
  The loop of \<open>lmemfind\<close>: \<open>s1\<close> is a position of \<open>S\<close>, \<open>l1\<close> the number of places left for the
  first character of \<open>s2\<close>.
\<close>

lemma memchr_bounds: "memchr S s c n = Some i \<Longrightarrow> s \<le> i \<and> i < s + n \<and> S ! i = c"
  by (auto simp: memchr_def find_Some_iff)

function lmemfind_loop :: "string \<Rightarrow> nat \<Rightarrow> nat \<Rightarrow> string \<Rightarrow> nat option" where
  "lmemfind_loop S s1 l1 s2 =
     (if l1 > 0 then
        (case memchr S s1 (hd s2) l1 of
           None \<Rightarrow> None
         | Some i \<Rightarrow> if substring S (i + 1) (length s2 - 1) = tl s2 then Some i
                     else lmemfind_loop S (i + 1) (l1 - (i + 1 - s1)) s2)
      else None)"
  by pat_completeness auto
termination
  by (relation "measure (\<lambda>(S, s1, l1, s2). l1)") (auto dest!: memchr_bounds)

declare lmemfind_loop.simps [simp del]

definition lmemfind :: "string \<Rightarrow> nat \<Rightarrow> nat \<Rightarrow> string \<Rightarrow> nat option" where
  "lmemfind S s1 l1 s2 =
     (if length s2 = 0 then Some s1
      else if length s2 > l1 then None
      else lmemfind_loop S s1 (l1 - (length s2 - 1)) s2)"

text \<open>The loop of \<open>str_find_aux\<close> over start positions.\<close>

function find_from :: "string \<Rightarrow> string \<Rightarrow> nat \<Rightarrow> bool \<Rightarrow> nat \<Rightarrow> (nat \<times> nat \<times> MatchState) option result" where
  "find_from S P p anchor s1 =
     bind_result (match S P p new_match s1) (\<lambda>(res, ms).
       case res of Some e \<Rightarrow> Inr (Some (s1, e, ms))
       | None \<Rightarrow> if s1 < length S \<and> \<not> anchor then find_from S P p anchor (s1 + 1) else Inr None)"
  by pat_completeness auto
termination by (relation "measure (\<lambda>(S, P, p, anchor, s1). length S - s1)") auto

declare find_from.simps [simp del]

definition anchored :: "string \<Rightarrow> bool" where
  "anchored P \<longleftrightarrow> cchar P 0 = Inr (CHR ''^'')"

definition str_find_aux :: "clib \<Rightarrow> bool \<Rightarrow> lua_State \<Rightarrow> TValue list result" where
  "str_find_aux C find' L =
     bind_result (luaL_checklstring C L 1) (\<lambda>(s, L).
     bind_result (luaL_checklstring C L 2) (\<lambda>(p, L).
     bind_result (luaL_optinteger C L 3 1) (\<lambda>i.
     bind_result (lua_toboolean L 4) (\<lambda>plain.
       let l1 = length s; init = posrelat i l1 - 1;
           init = (if init < 0 then 0 else if init > int l1 then l1 else nat init)
       in if find' \<and> (plain \<or> (\<forall>c \<in> set (c_str p). c \<notin> set SPECIALS))
          then (case lmemfind s init (l1 - init) p of
                  Some s2 \<Rightarrow> Inr [TInt (int s2 + 1), TInt (int s2 + int (length p))]
                | None \<Rightarrow> Inr [TNil])
          else at_caller C L (bind_result (find_from s p (of_bool (anchored p)) (anchored p) init) (\<lambda>r.
            case r of
              Some (s1, e, ms) \<Rightarrow>
                if find' then bind_result (push_captures s ms False s1 e) (\<lambda>vs.
                  Inr ([TInt (int s1 + 1), TInt (int e)] @ vs))
                else push_captures s ms True s1 e
            | None \<Rightarrow> Inr [TNil]))))))"

definition str_find :: "clib \<Rightarrow> lua_State \<Rightarrow> TValue list result" where "str_find C L = str_find_aux C True L"
definition str_match :: "clib \<Rightarrow> lua_State \<Rightarrow> TValue list result" where "str_match C L = str_find_aux C False L"

text \<open>
  One call of the iterator: the upvalues are the text, the pattern and the position to go on
  from; with the values returned comes the new third upvalue.
\<close>

function gmatch_from :: "string \<Rightarrow> string \<Rightarrow> nat \<Rightarrow> (nat \<times> nat \<times> MatchState) option result" where
  "gmatch_from S P src =
     (if src \<le> length S then
        bind_result (match S P 0 new_match src) (\<lambda>(res, ms).
          case res of Some e \<Rightarrow> Inr (Some (src, e, ms)) | None \<Rightarrow> gmatch_from S P (src + 1))
      else Inr None)"
  by pat_completeness auto
termination by (relation "measure (\<lambda>(S, P, src). Suc (length S) - src)") auto

declare gmatch_from.simps [simp del]

definition gmatch_aux :: "string \<Rightarrow> string \<Rightarrow> nat \<Rightarrow> (TValue list \<times> nat) option result" where
  "gmatch_aux S P pos =
     bind_result (gmatch_from S P pos) (\<lambda>r.
       case r of None \<Rightarrow> Inr None
       | Some (src, e, ms) \<Rightarrow>
           let newstart = (if e = src then e + 1 else e) in
           bind_result (push_captures S ms True src e) (\<lambda>vs. Inr (Some (vs, newstart))))"

definition gmatch :: "clib \<Rightarrow> lua_State \<Rightarrow> (string \<times> string \<times> nat) result" where
  "gmatch C L =
     bind_result (luaL_checklstring C L 1) (\<lambda>(s, L).
     bind_result (luaL_checklstring C L 2) (\<lambda>(p, L). Inr (s, p, 0)))"

definition gfind_nodef :: "clib \<Rightarrow> lua_State \<Rightarrow> TValue list result" where
  "gfind_nodef C L = luaL_error C L (LUA_QL ''string.gfind'' @ '' was renamed to '' @ LUA_QL ''string.gmatch'') []"

subsection \<open>Replacement\<close>

text \<open>\<open>luaL_addvalue\<close> adds a string, or a number as its decimal text.\<close>

definition value_text :: "clib \<Rightarrow> TValue \<Rightarrow> string" where
  "value_text C v = (case v of TStr s \<Rightarrow> s | TNumber n \<Rightarrow> c_number2str C n | _ \<Rightarrow> [])"

fun add_s_loop :: "clib \<Rightarrow> string \<Rightarrow> MatchState \<Rightarrow> nat \<Rightarrow> nat \<Rightarrow> string \<Rightarrow> string result" where
  "add_s_loop C S ms s e [] = Inr []"
| "add_s_loop C S ms s e (c # news) =
     (if c \<noteq> L_ESC then bind_result (add_s_loop C S ms s e news) (\<lambda>r. Inr (c # r))
      else case news of
        [] \<Rightarrow> Inr [CHR 0x00]
      | d # news \<Rightarrow>
          bind_result
            (if \<not> isdigit (uchar d) then Inr [d]
             else if d = CHR ''0'' then Inr (substring S s (e - s))
             else bind_result (push_onecapture S ms (uchar d - 49) s e) (\<lambda>v. Inr (value_text C v))) (\<lambda>x.
          bind_result (add_s_loop C S ms s e news) (\<lambda>r. Inr (x @ r))))"

text \<open>
  The third argument of \<open>gsub\<close>. \<open>call\<close> is \<open>lua_call\<close> with one result, \<open>index\<close> is \<open>lua_gettable\<close>.
\<close>

definition add_value ::
  "(TValue \<Rightarrow> TValue list \<Rightarrow> TValue result) \<Rightarrow> (TValue \<Rightarrow> TValue \<Rightarrow> TValue result) \<Rightarrow> clib \<Rightarrow> TValue \<Rightarrow>
    string \<Rightarrow> MatchState \<Rightarrow> nat \<Rightarrow> nat \<Rightarrow> string result" where
  "add_value call index C repl S ms s e =
     (case repl of
        TNumber n \<Rightarrow> add_s_loop C S ms s e (c_number2str C n)
      | TStr news \<Rightarrow> add_s_loop C S ms s e news
      | _ \<Rightarrow>
          bind_result
            (case repl of
               TFunction f \<Rightarrow> bind_result (push_captures S ms True s e) (call repl)
             | _ \<Rightarrow> bind_result (push_onecapture S ms 0 s e) (index repl)) (\<lambda>v.
          if l_isfalse v then Inr (substring S s (e - s))
          else if ttype v \<noteq> 3 \<and> ttype v \<noteq> 4 then
            Inl (RunError (''invalid replacement value (a '' @ lua_typename (int (ttype v)) @ '')''))
          else Inr (value_text C v)))"

text \<open>
  The loop of \<open>str_gsub\<close>: \<open>src\<close> is the position in the text, \<open>n\<close> the number of replacements so
  far; the values are the text added and the final number. The matcher gives no end beyond the
  text (\<open>match_refines\<close>).
\<close>

function gsub_loop ::
  "(MatchState \<Rightarrow> nat \<Rightarrow> nat \<Rightarrow> string result) \<Rightarrow> string \<Rightarrow> string \<Rightarrow> nat \<Rightarrow> bool \<Rightarrow> int \<Rightarrow> int \<Rightarrow> nat \<Rightarrow> (string \<times> int) result" where
  "gsub_loop add S P p anchor max_s n src =
     (if n < max_s then
        bind_result (match S P p new_match src) (\<lambda>(res, ms).
        bind_result (case res of Some e \<Rightarrow> add ms src e | None \<Rightarrow> Inr []) (\<lambda>x.
        let n' = (case res of Some e \<Rightarrow> n + 1 | None \<Rightarrow> n) in
        case res of
          Some e \<Rightarrow>
            if e > src then
              (if e > length S then Inl MemoryFault
               else if anchor then Inr (x @ drop e S, n')
               else bind_result (gsub_loop add S P p anchor max_s n' e) (\<lambda>(r, k). Inr (x @ r, k)))
            else if src < length S then
              (if anchor then Inr (x @ drop src S, n')
               else bind_result (gsub_loop add S P p anchor max_s n' (src + 1)) (\<lambda>(r, k). Inr (x @ S ! src # r, k)))
            else Inr (x @ drop src S, n')
        | None \<Rightarrow>
            if src < length S then
              (if anchor then Inr (drop src S, n')
               else bind_result (gsub_loop add S P p anchor max_s n' (src + 1)) (\<lambda>(r, k). Inr (S ! src # r, k)))
            else Inr (drop src S, n')))
      else Inr (drop src S, n))"
  by pat_completeness auto
termination by (relation "measure (\<lambda>(add, S, P, p, anchor, max_s, n, src). length S - src)") auto

declare gsub_loop.simps [simp del]

definition str_gsub ::
  "(TValue \<Rightarrow> TValue list \<Rightarrow> TValue result) \<Rightarrow> (TValue \<Rightarrow> TValue \<Rightarrow> TValue result) \<Rightarrow> clib \<Rightarrow> lua_State \<Rightarrow> TValue list result" where
  "str_gsub call index C L =
     bind_result (luaL_checklstring C L 1) (\<lambda>(src, L).
     bind_result (luaL_checklstring C L 2) (\<lambda>(p, L).
     bind_result (lua_type L 3) (\<lambda>tr.
     bind_result (luaL_optint C L 4 (int (length src) + 1)) (\<lambda>max_s.
       if \<not> (tr = 3 \<or> tr = 4 \<or> tr = 6 \<or> tr = 5) then luaL_argerror C L 3 ''string/function/table expected''
       else bind_result (index_value L 3) (\<lambda>repl.
         at_caller C L (bind_result
           (gsub_loop (add_value call index C repl src) src p (of_bool (anchored p)) (anchored p) max_s 0 0) (\<lambda>(s, n).
           Inr [TStr s, TInt n])))))))"

end
