(* ===== verification/Lstrlib_spec.thy ===== *)
theory Lstrlib_spec
  imports Lstrlib
begin

text \<open>
  Correctness of the string library: the searches find leftmost matches, the plain search is the
  first occurrence and agrees with the matcher, substrings, bytes and characters, the iterator
  of \<open>gmatch\<close>, and what \<open>gsub\<close> replaces.
\<close>

subsection \<open>Leftmost matches\<close>

abbreviation no_match :: "string \<Rightarrow> string \<Rightarrow> nat \<Rightarrow> nat \<Rightarrow> bool" where
  "no_match S P p s \<equiv> (\<forall>e cs. \<not> Match S P p [] s e cs)"

lemma new_match_ok: "ms_ok s new_match" "live new_match = []"
  by (simp_all add: ms_ok_def live_def new_match_def)

lemma match_new:
  assumes "length S < 2 ^ 63" "p \<le> length P" "s \<le> length S"
  shows "(\<exists>m. match S P p new_match s = Inl (RunError m)) \<or>
    (\<exists>ms. match S P p new_match s = Inr (None, ms) \<and> no_match S P p s) \<or>
    (\<exists>e ms. match S P p new_match s = Inr (Some e, ms) \<and> s \<le> e \<and> e \<le> length S \<and> ms_ok e ms \<and> Match S P p [] s e (live ms))"
  using refinesD [OF match_refines [OF assms(1,2)] new_match_ok(1) assms(3)]
  by (auto simp: answers_def new_match_ok(2) split: sum.splits option.splits)

lemma find_from_spec:
  assumes "length S < 2 ^ 63" "p \<le> length P"
  shows "s1 \<le> length S \<Longrightarrow>
    (case find_from S P p anchor s1 of
       Inl err \<Rightarrow> \<exists>m. err = RunError m
     | Inr None \<Rightarrow> \<forall>s. s1 \<le> s \<longrightarrow> s \<le> (if anchor then s1 else length S) \<longrightarrow> no_match S P p s
     | Inr (Some (s, e, ms)) \<Rightarrow> s1 \<le> s \<and> s \<le> e \<and> e \<le> length S \<and> ms_ok e ms \<and> Match S P p [] s e (live ms) \<and>
         (anchor \<longrightarrow> s = s1) \<and> (\<forall>s'. s1 \<le> s' \<longrightarrow> s' < s \<longrightarrow> no_match S P p s'))"
proof (induction "length S - s1" arbitrary: s1)
  case 0
  then have s1: "s1 = length S" by simp
  have eq: "find_from S P p anchor s1 = bind_result (match S P p new_match s1) (\<lambda>(res, ms).
      case res of Some e \<Rightarrow> Inr (Some (s1, e, ms)) | None \<Rightarrow> Inr None)"
    by (subst find_from.simps) (simp add: s1 cong: option.case_cong)
  from match_new [OF assms 0(2)] show ?case
    unfolding eq by (elim disjE exE conjE) (auto simp: s1 dest: le_antisym)
next
  case (Suc n)
  then have lt: "s1 < length S" "n = length S - (s1 + 1)" "s1 + 1 \<le> length S" by simp_all
  have eq: "find_from S P p anchor s1 = bind_result (match S P p new_match s1) (\<lambda>(res, ms).
      case res of Some e \<Rightarrow> Inr (Some (s1, e, ms))
      | None \<Rightarrow> if anchor then Inr None else find_from S P p anchor (s1 + 1))"
    by (subst find_from.simps) (simp add: lt cong: option.case_cong)
  note IH = Suc(1) [OF lt(2,3)]
  from match_new [OF assms, of s1] lt(1) consider m where "match S P p new_match s1 = Inl (RunError m)"
    | ms where "match S P p new_match s1 = Inr (None, ms)" "no_match S P p s1"
    | e ms where "match S P p new_match s1 = Inr (Some e, ms)" "s1 \<le> e" "e \<le> length S" "ms_ok e ms" "Match S P p [] s1 e (live ms)"
    by auto
  then show ?case
  proof cases
    case 2
    show ?thesis
    proof (cases anchor)
      case True
      have "find_from S P p anchor s1 = Inr None" unfolding eq using 2(1) True by simp
      with 2(2) True show ?thesis by (auto dest: le_antisym)
    next
      case False
      have step: "find_from S P p anchor s1 = find_from S P p anchor (s1 + 1)" unfolding eq using 2(1) False by simp
      have ext: "no_match S P p s" if "s1 \<le> s" "s1 + 1 \<le> s \<Longrightarrow> no_match S P p s" for s
        using that 2(2) by (cases "s = s1") auto
      show ?thesis
      proof (cases "find_from S P p anchor (s1 + 1)")
        case (Inl err)
        with IH step show ?thesis by simp
      next
        case (Inr r)
        show ?thesis
        proof (cases r)
          case None
          with IH Inr step False ext show ?thesis by simp
        next
          case (Some sem)
          obtain s e ms where "sem = (s, e, ms)" by (cases sem)
          with IH Inr Some step False ext show ?thesis by simp
        qed
      qed
    qed
  qed (auto simp: eq)
qed

subsection \<open>Plain search\<close>

lemma upt_split: "a \<le> m \<Longrightarrow> m \<le> b \<Longrightarrow> [a..<b] = [a..<m] @ [m..<b]"
  by (metis le_add_diff_inverse upt_add_eq_append)

lemma find_upt: "find Q [a..<b] = Some i \<longleftrightarrow> a \<le> i \<and> i < b \<and> Q i \<and> (\<forall>j. a \<le> j \<longrightarrow> j < i \<longrightarrow> \<not> Q j)"
proof
  assume "find Q [a..<b] = Some i"
  then obtain k where k: "k < b - a" "Q (a + k)" "i = a + k" "\<forall>m < k. \<not> Q (a + m)" by (auto simp: find_Some_iff)
  have "\<not> Q j" if "a \<le> j" "j < i" for j
  proof -
    have "j - a < k" "a + (j - a) = j" using k(3) that by simp_all
    with k(4) show ?thesis by metis
  qed
  with k show "a \<le> i \<and> i < b \<and> Q i \<and> (\<forall>j. a \<le> j \<longrightarrow> j < i \<longrightarrow> \<not> Q j)" by auto
next
  assume "a \<le> i \<and> i < b \<and> Q i \<and> (\<forall>j. a \<le> j \<longrightarrow> j < i \<longrightarrow> \<not> Q j)"
  then show "find Q [a..<b] = Some i" by (auto simp: find_Some_iff intro!: exI [of _ "i - a"])
qed

text \<open>\<open>occurs S w i\<close>: the word \<open>w\<close> stands at position \<open>i\<close> of \<open>S\<close>.\<close>

definition occurs :: "string \<Rightarrow> string \<Rightarrow> nat \<Rightarrow> bool" where
  "occurs S w i \<longleftrightarrow> i + length w \<le> length S \<and> substring S i (length w) = w"

lemma occurs_Cons:
  "w \<noteq> [] \<Longrightarrow> i + length w \<le> length S \<Longrightarrow>
   occurs S w i \<longleftrightarrow> S ! i = hd w \<and> substring S (i + 1) (length w - 1) = tl w"
proof -
  assume w: "w \<noteq> []" "i + length w \<le> length S"
  then obtain c w' where cw: "w = c # w'" by (cases w) auto
  with w have "drop i S = S ! i # drop (i + 1) S" by (simp add: Cons_nth_drop_Suc)
  with w cw show ?thesis by (auto simp: occurs_def substring_def)
qed

lemma lmemfind_loop_spec:
  assumes "s2 \<noteq> []" "s1 + l1 + (length s2 - 1) = length S"
  shows "lmemfind_loop S s1 l1 s2 = find (occurs S s2) [s1..<s1 + l1]"
  using assms(2)
proof (induction l1 arbitrary: s1 rule: less_induct)
  case (less l1)
  show ?case
  proof (cases "l1 > 0")
    case True
    have len: "i < s1 + l1 \<Longrightarrow> i + length s2 \<le> length S" for i using less.prems assms(1) by (cases s2) auto
    show ?thesis
    proof (cases "memchr S s1 (hd s2) l1")
      case None
      then have "\<forall>i \<in> set [s1..<s1 + l1]. \<not> occurs S s2 i"
        using len occurs_Cons [OF assms(1)] by (auto simp: memchr_def find_None_iff)
      then have "find (occurs S s2) [s1..<s1 + l1] = None" by (simp add: find_None_iff)
      with None True show ?thesis by (simp add: lmemfind_loop.simps [of S s1])
    next
      case (Some i)
      note i = memchr_bounds [OF Some]
      have before: "S ! j \<noteq> hd s2" if "s1 \<le> j" "j < i" for j
        using Some that by (simp add: memchr_def find_upt)
      have "[s1..<s1 + l1] = [s1..<i] @ [i..<s1 + l1]" using i by (intro upt_split) auto
      then have split: "[s1..<s1 + l1] = [s1..<i] @ i # [i + 1..<s1 + l1]" using i by (simp add: upt_conv_Cons)
      have none: "find (occurs S s2) [s1..<i] = None"
        using before occurs_Cons [OF assms(1) len] i by (auto simp: find_None_iff)
      have rest: "lmemfind_loop S (i + 1) (l1 - (i + 1 - s1)) s2 = find (occurs S s2) [i + 1..<s1 + l1]"
      proof -
        have "i + 1 + (l1 - (i + 1 - s1)) = s1 + l1" using i by simp
        with less.IH [of "l1 - (i + 1 - s1)" "i + 1"] less.prems i show ?thesis by (simp add: add.commute)
      qed
      have "occurs S s2 i \<longleftrightarrow> substring S (i + 1) (length s2 - 1) = tl s2"
        using occurs_Cons [OF assms(1) len] i by simp
      with True Some rest none show ?thesis
        by (subst lmemfind_loop.simps) (simp add: split find_append)
    qed
  qed (simp add: lmemfind_loop.simps [of S s1])
qed

lemma lmemfind_spec:
  assumes "s1 + l1 = length S"
  shows "lmemfind S s1 l1 s2 = find (occurs S s2) [s1..<Suc (length S)]"
proof (cases "s2 = []")
  case True
  have "[s1..<Suc (length S)] = s1 # [Suc s1..<Suc (length S)]" using assms by (simp add: upt_conv_Cons del: upt_Suc)
  with True assms show ?thesis by (simp add: lmemfind_def occurs_def substring_def del: upt_Suc)
next
  case False
  then have len: "0 < length s2" by simp
  show ?thesis
  proof (cases "length s2 > l1")
    case True
    then have "\<forall>i \<in> set [s1..<Suc (length S)]. \<not> occurs S s2 i" using assms by (auto simp: occurs_def)
    then have "find (occurs S s2) [s1..<Suc (length S)] = None" by (simp add: find_None_iff del: upt_Suc)
    with True False show ?thesis by (simp add: lmemfind_def)
  next
    case fits: False
    let ?m = "s1 + (l1 - (length s2 - 1))"
    have "lmemfind S s1 l1 s2 = find (occurs S s2) [s1..<?m]"
      using fits False len assms by (simp add: lmemfind_def lmemfind_loop_spec)
    moreover have "[s1..<Suc (length S)] = [s1..<?m] @ [?m..<Suc (length S)]"
      using fits assms len by (intro upt_split) auto
    moreover have "find (occurs S s2) [?m..<Suc (length S)] = None"
    proof -
      obtain k where "length s2 = Suc k" using len by (cases "length s2") auto
      then show ?thesis using assms fits by (auto simp: find_None_iff occurs_def simp del: upt_Suc)
    qed
    ultimately show ?thesis by (simp add: find_append split: option.split del: upt_Suc)
  qed
qed

subsection \<open>Arguments that are there\<close>

lemma arg_string:
  assumes "stk L = vs" "1 \<le> i" "i \<le> int (length vs)" "vs ! nat (i - 1) = TStr s"
  shows "luaL_checklstring C L i = Inr (s, L)"
proof -
  have "nat (i - 1) < length vs" using assms(2,3) by linarith
  with assms show ?thesis by (simp add: luaL_checklstring_def lua_tolstring_def index2adr_def value_at_def)
qed

lemma arg_none_type: "int (length (stk L)) < i \<Longrightarrow> lua_type L i = Inr LUA_TNONE"
  by (auto simp: lua_type_def index2adr_def)

lemma arg_none_integer: "int (length (stk L)) < i \<Longrightarrow> luaL_optinteger C L i d = Inr d"
  by (simp add: luaL_optinteger_def luaL_opt_def lua_isnoneornil_def arg_none_type LUA_TNONE_def)

lemma arg_none_boolean: "int (length (stk L)) < i \<Longrightarrow> lua_toboolean L i = Inr False"
  by (auto simp: lua_toboolean_def index_value_def index2adr_def value_at_def l_isfalse_def)

lemma arg_number:
  assumes "1 \<le> i" "i \<le> int (length (stk L))" "stk L ! nat (i - 1) = TNumber n"
  shows "luaL_checkinteger C L i = Inr (lua_number2integer n)" "luaL_optinteger C L i d = Inr (lua_number2integer n)"
proof -
  have v: "index_value L i = Inr (TNumber n)" "lua_type L i = Inr 3"
    using assms by (auto simp: index_value_def index2adr_def value_at_def lua_type_def)
  show "luaL_checkinteger C L i = Inr (lua_number2integer n)"
    by (simp add: luaL_checkinteger_def lua_tointeger_def lua_isnumber_def v luaV_tonumber_def)
  then show "luaL_optinteger C L i d = Inr (lua_number2integer n)"
    by (simp add: luaL_optinteger_def luaL_opt_def lua_isnoneornil_def v)
qed

lemma luaL_where_returns: "\<exists>w. luaL_where C L = Inr w"
  by (auto simp: luaL_where_def split: option.splits)

lemma at_caller_Inr [simp]: "at_caller C L (Inr x) = Inr x"
  by (simp add: at_caller_def)

lemma at_caller_error: "\<exists>m'. at_caller C L (Inl (RunError m)) = Inl (RunError m')"
  using luaL_where_returns [of C L] by (auto simp: at_caller_def)

subsection \<open>Integers through numbers\<close>

lemma number2integer_integer2number: "int_range k \<Longrightarrow> lua_number2integer (integer2number k) = k"
proof -
  assume k: "int_range k"
  have "floor_log2 (nat \<bar>k\<bar>) \<le> 52"
  proof (cases "k = 0")
    case False
    then have "floor_log2 (nat \<bar>k\<bar>) < 32" using int_range_abs [OF k] by (intro floor_log2_less) auto
    then show ?thesis by simp
  qed (simp add: floor_log2.simps)
  then have "integer2number k = cast_num k" by (simp add: integer2number_def)
  with cast_num_exp [of k] trunc_mag_cast_num [OF k] k show ?thesis
    by (cases "k = 0") (auto simp: lua_number2integer_def INT_MIN_def INT_MAX_def)
qed

subsection \<open>Captures\<close>

definition cap_value :: "string \<Rightarrow> capture \<Rightarrow> TValue" where
  "cap_value S c = (if cap_len c = CAP_POSITION then TInt (int (cap_init c) + 1)
     else TStr (substring S (cap_init c) (nat (cap_len c))))"

lemma push_captures_from_live:
  assumes "ms_ok e' ms"
  shows "i + n = level ms \<Longrightarrow>
    push_captures_from S ms s e i n = Inl (RunError ''unfinished capture'') \<or>
    push_captures_from S ms s e i n = Inr (map (cap_value S) (drop i (live ms)))"
proof (induction n arbitrary: i)
  case 0
  then show ?case using length_live [OF assms] by simp
next
  case (Suc n)
  have i: "i < length (live ms)" "i < length (captures ms)" using Suc.prems length_live [OF assms] assms by (auto simp: ms_ok_def)
  have "push_onecapture S ms i s e = (if cap_len (live ms ! i) = CAP_UNFINISHED then Inl (RunError ''unfinished capture'')
      else Inr (cap_value S (live ms ! i)))"
    using i Suc.prems by (simp add: push_onecapture_def ms_capture_def cap_value_def live_nth)
  moreover have "drop i (live ms) = live ms ! i # drop (i + 1) (live ms)" using i by (simp add: Cons_nth_drop_Suc)
  ultimately show ?case using Suc.IH [of "i + 1"] Suc.prems by auto
qed

lemma push_captures_values:
  assumes "ms_ok e' ms"
  shows "push_captures S ms whole s e = Inl (RunError ''unfinished capture'') \<or>
    push_captures S ms whole s e = Inr (if whole \<and> live ms = [] then [TStr (substring S s (e - s))] else map (cap_value S) (live ms))"
proof (cases "level ms = 0 \<and> whole")
  case True
  then show ?thesis using length_live [OF assms] by (simp add: push_captures_def push_onecapture_def)
next
  case False
  then show ?thesis using push_captures_from_live [OF assms, of 0 "level ms" S s e] length_live [OF assms]
    by (auto simp: push_captures_def)
qed

subsection \<open>Find\<close>

lemma find_simp:
  assumes "stk L = [TStr S, TStr P]"
  shows "str_find_aux C f L =
    (if f \<and> (\<forall>c \<in> set (c_str P). c \<notin> set SPECIALS)
     then (case lmemfind S 0 (length S) P of
             Some s2 \<Rightarrow> Inr [TInt (int s2 + 1), TInt (int s2 + int (length P))] | None \<Rightarrow> Inr [TNil])
     else at_caller C L (bind_result (find_from S P (of_bool (anchored P)) (anchored P) 0) (\<lambda>r.
       case r of Some (s1, e, ms) \<Rightarrow>
           if f then bind_result (push_captures S ms False s1 e) (\<lambda>vs. Inr ([TInt (int s1 + 1), TInt (int e)] @ vs))
           else push_captures S ms True s1 e
       | None \<Rightarrow> Inr [TNil])))"
proof -
  have 1: "luaL_checklstring C L 1 = Inr (S, L)" "luaL_checklstring C L 2 = Inr (P, L)"
    using assms arg_string [of L "stk L" 1 S C] arg_string [of L "stk L" 2 P C] by simp_all
  have 2: "luaL_optinteger C L 3 1 = Inr 1" "lua_toboolean L 4 = Inr False"
    using assms arg_none_integer [of L 3] arg_none_boolean [of L 4] by simp_all
  have 3: "posrelat 1 (length S) - 1 = 0" by (simp add: posrelat_def)
  show ?thesis unfolding str_find_aux_def 1 2 bind_result_simps Let_def prod.case 3 by simp
qed

lemma anchored_start: "of_bool (anchored P) \<le> length P"
  by (cases P) (auto simp: anchored_def cchar_def)

text \<open>The pattern after the anchor, and the starts the anchor leaves.\<close>

definition pattern_start :: "string \<Rightarrow> nat" where "pattern_start P = of_bool (anchored P)"
definition starts :: "string \<Rightarrow> string \<Rightarrow> nat \<Rightarrow> bool" where "starts S P s \<longleftrightarrow> s \<le> (if anchored P then 0 else length S)"

text \<open>
  Claim C19. \<open>str_find\<close> and \<open>str_match\<close> on a text and a pattern, when the pattern has a special
  character (or the caller is \<open>str_match\<close>): unless the pattern is malformed (an error raised
  through \<open>luaL_error\<close>) they return nil exactly when the pattern matches nowhere it may start,
  and otherwise the leftmost match: its bounds (for \<open>find\<close>) and the values of its captures, or the
  whole match for \<open>match\<close> when there are no captures. No other outcome is possible: no read
  outside the strings, no endless search.
\<close>

theorem str_find_leftmost:
  assumes "stk L = [TStr S, TStr P]" "length S < 2 ^ 63" "\<not> f \<or> (\<exists>c \<in> set (c_str P). c \<in> set SPECIALS)"
  shows "(\<exists>m. str_find_aux C f L = Inl (RunError m)) \<or>
    (str_find_aux C f L = Inr [TNil] \<and> (\<forall>s. starts S P s \<longrightarrow> no_match S P (pattern_start P) s)) \<or>
    (\<exists>s e cs. starts S P s \<and> s \<le> e \<and> e \<le> length S \<and> Match S P (pattern_start P) [] s e cs \<and>
       (\<forall>s' < s. no_match S P (pattern_start P) s') \<and>
       str_find_aux C f L = Inr (if f then TInt (int s + 1) # TInt (int e) # map (cap_value S) cs
         else if cs = [] then [TStr (substring S s (e - s))] else map (cap_value S) cs))"
proof -
  note spec = find_from_spec [OF assms(2) anchored_start, of 0 "anchored P" P]
  let ?r = "find_from S P (of_bool (anchored P)) (anchored P) 0"
  have eq: "str_find_aux C f L = at_caller C L (bind_result ?r (\<lambda>r.
       case r of Some (s1, e, ms) \<Rightarrow>
           if f then bind_result (push_captures S ms False s1 e) (\<lambda>vs. Inr ([TInt (int s1 + 1), TInt (int e)] @ vs))
           else push_captures S ms True s1 e
       | None \<Rightarrow> Inr [TNil]))"
    using assms(3) by (subst find_simp [OF assms(1)]) auto
  show ?thesis
  proof (cases ?r)
    case (Inl err)
    with spec obtain m where m: "err = RunError m" by auto
    obtain m' where "at_caller C L (Inl (RunError m) :: TValue list result) = Inl (RunError m')"
      using at_caller_error by blast
    with Inl eq m have "str_find_aux C f L = Inl (RunError m')" by simp
    then show ?thesis by blast
  next
    case (Inr r)
    show ?thesis
    proof (cases r)
      case None
      with Inr spec eq show ?thesis by (auto simp: starts_def pattern_start_def)
    next
      case (Some sem)
      obtain s e ms where sem: "sem = (s, e, ms)" by (cases sem)
      from spec Inr Some sem have s: "s \<le> e" "e \<le> length S" "ms_ok e ms" "Match S P (pattern_start P) [] s e (live ms)"
          "\<forall>s' < s. no_match S P (pattern_start P) s'" "starts S P s"
        by (auto simp: starts_def pattern_start_def)
      consider "push_captures S ms (\<not> f) s e = Inl (RunError ''unfinished capture'')"
        | "push_captures S ms (\<not> f) s e = Inr (if \<not> f \<and> live ms = [] then [TStr (substring S s (e - s))] else map (cap_value S) (live ms))"
        using push_captures_values [OF s(3)] by blast
      then show ?thesis
      proof cases
        case 1
        then have "str_find_aux C f L = at_caller C L (Inl (RunError ''unfinished capture''))"
          unfolding eq Inr Some sem by (cases f) simp_all
        with at_caller_error show ?thesis by auto
      next
        case 2
        then have "str_find_aux C f L = Inr (if f then TInt (int s + 1) # TInt (int e) # map (cap_value S) (live ms)
         else if live ms = [] then [TStr (substring S s (e - s))] else map (cap_value S) (live ms))"
          unfolding eq Inr Some sem by (cases f) simp_all
        with s show ?thesis by blast
      qed
    qed
  qed
qed

text \<open>
  Plain search: \<open>str_find\<close> on a pattern without special characters returns the bounds
  of the first place where the pattern stands in the text, and nil when it stands nowhere.
\<close>

theorem str_find_plain:
  assumes "stk L = [TStr S, TStr P]" "\<forall>c \<in> set (c_str P). c \<notin> set SPECIALS"
  shows "(str_find C L = Inr [TNil] \<and> (\<forall>i. \<not> occurs S P i)) \<or>
    (\<exists>i. occurs S P i \<and> (\<forall>j < i. \<not> occurs S P j) \<and> str_find C L = Inr [TInt (int i + 1), TInt (int i + int (length P))])"
proof -
  have lm: "lmemfind S 0 (length S) P = find (occurs S P) [0..<Suc (length S)]" by (rule lmemfind_spec) simp
  have le: "occurs S P i \<Longrightarrow> i < Suc (length S)" for i by (auto simp: occurs_def)
  show ?thesis
  proof (cases "find (occurs S P) [0..<Suc (length S)]")
    case None
    then have "\<forall>i. \<not> occurs S P i" using le by (auto simp: find_None_iff simp del: upt_Suc)
    with None lm assms show ?thesis by (simp add: str_find_def find_simp)
  next
    case (Some i)
    have "str_find C L = Inr [TInt (int i + 1), TInt (int i + int (length P))]"
      using Some lm assms by (simp add: str_find_def find_simp del: upt_Suc)
    moreover have "occurs S P i \<and> (\<forall>j < i. \<not> occurs S P j)" using Some by (simp add: find_upt del: upt_Suc)
    ultimately show ?thesis by blast
  qed
qed

subsection \<open>Substrings\<close>

text \<open>A relative position, without the clamping of \<open>posrelat\<close>.\<close>

definition from_end :: "int \<Rightarrow> nat \<Rightarrow> int" where "from_end i l = (if i < 0 then i + int l + 1 else i)"

lemma take_drop_filter:
  "map (\<lambda>k. s ! k) (filter (\<lambda>k. a \<le> k \<and> k < b) [0..<length s]) = take (b - a) (drop a s)"
proof (cases "a \<le> length s")
  case True
  define b' where "b' = max a (min b (length s))"
  have b: "a \<le> b'" "b' \<le> length s" using True by (auto simp: b'_def)
  have "[0..<length s] = [0..<a] @ [a..<b'] @ [b'..<length s]"
    using True b upt_split [of 0 a "length s"] upt_split [of a b' "length s"] by simp
  moreover have "filter (\<lambda>k. a \<le> k \<and> k < b) [0..<a] = []" "filter (\<lambda>k. a \<le> k \<and> k < b) [b'..<length s] = []"
    by (auto simp: filter_empty_conv b'_def)
  moreover have "filter (\<lambda>k. a \<le> k \<and> k < b) [a..<b'] = [a..<b']" by (auto simp: filter_id_conv b'_def)
  ultimately have "map (\<lambda>k. s ! k) (filter (\<lambda>k. a \<le> k \<and> k < b) [0..<length s]) = map (\<lambda>k. s ! k) [a..<b']" by simp
  also have "\<dots> = take (b' - a) (drop a s)" using b by (intro nth_equalityI) auto
  also have "\<dots> = take (b - a) (drop a s)" by (auto simp: min_def max_def b'_def)
  finally show ?thesis .
next
  case False
  then show ?thesis by (auto simp: filter_empty_conv)
qed

text \<open>
  Claim C40. \<open>str_sub\<close> returns the characters whose position lies between its two bounds, where a
  negative bound counts from the end; bounds outside the string, in either direction, select
  what there is.
\<close>

theorem str_sub_correct:
  assumes "stk L = [TStr s, TNumber i, TNumber j]"
  shows "str_sub C L = Inr [TStr (map (\<lambda>k. s ! k) (filter (\<lambda>k. from_end (lua_number2integer i) (length s) \<le> int k + 1 \<and>
     int k + 1 \<le> from_end (lua_number2integer j) (length s)) [0..<length s]))]"
proof -
  let ?i = "lua_number2integer i" and ?j = "lua_number2integer j"
  have a: "luaL_checklstring C L 1 = Inr (s, L)" "luaL_checkinteger C L 2 = Inr ?i" "luaL_optinteger C L 3 (- 1) = Inr ?j"
    using assms arg_string [of L "stk L" 1 s C] arg_number [of 2 L i C] arg_number [of 3 L j C] by simp_all
  define st en where "st = (if posrelat ?i (length s) < 1 then 1 else posrelat ?i (length s))"
    and "en = (if posrelat ?j (length s) > int (length s) then int (length s) else posrelat ?j (length s))"
  have eq: "str_sub C L = (if st \<le> en then results1 (take (nat (en - st + 1)) (drop (nat (st - 1)) s)) else results1 '''')"
    by (simp add: str_sub_def a Let_def st_def en_def)
  have "filter (\<lambda>k. from_end ?i (length s) \<le> int k + 1 \<and> int k + 1 \<le> from_end ?j (length s)) [0..<length s]
      = filter (\<lambda>k. nat (st - 1) \<le> k \<and> k < nat en) [0..<length s]"
    by (rule filter_cong) (auto simp: from_end_def st_def en_def posrelat_def Let_def)
  then have r: "map (\<lambda>k. s ! k) (filter (\<lambda>k. from_end ?i (length s) \<le> int k + 1 \<and> int k + 1 \<le> from_end ?j (length s)) [0..<length s])
      = take (nat en - nat (st - 1)) (drop (nat (st - 1)) s)"
    by (simp add: take_drop_filter)
  have "1 \<le> st" by (simp add: st_def)
  then have "st \<le> en \<Longrightarrow> nat (en - st + 1) = nat en - nat (st - 1)" "\<not> st \<le> en \<Longrightarrow> nat en - nat (st - 1) = 0" by linarith+
  then show ?thesis unfolding eq r by (simp add: results1_def)
qed

subsection \<open>Bytes and characters\<close>

lemma cast_int_id: "int_range k \<Longrightarrow> cast_int k = k"
  by (simp add: cast_int_def signed_of_int signed_take_bit_int_eq_self INT_MIN_def INT_MAX_def)

lemma arg_int:
  assumes "1 \<le> i" "i \<le> length (stk L)" "stk L ! (i - 1) = TInt k" "int_range k"
  shows "luaL_checkint C L (int i) = Inr k"
proof -
  have "nat (int i - 1) = i - 1" by simp
  then have "luaL_checkinteger C L (int i) = Inr k"
    using arg_number(1) [of "int i" L "integer2number k" C] assms number2integer_integer2number by simp
  with cast_int_id [OF assms(4)] show ?thesis by (simp add: luaL_checkint_def)
qed

lemma uchar_range: "int_range (int (uchar c))" "int (uchar c) mod 256 = int (uchar c)" "char_of_int (uchar c) = c"
proof -
  have "uchar c \<le> 2147483647" by (rule less_imp_le, rule less_trans [of _ 256]) simp_all
  then show "int_range (int (uchar c))" "int (uchar c) mod 256 = int (uchar c)" by (auto simp: INT_MIN_def INT_MAX_def)
qed (simp add: char_of_int_def)

lemma str_char_loop_bytes:
  assumes "stk L = map (\<lambda>c. TInt (int (uchar c))) s"
  shows "i + n = length s \<Longrightarrow> str_char_loop C L (i + 1) n = Inr (drop i s)"
proof (induction n arbitrary: i)
  case (Suc n)
  then have i: "i < length s" by simp
  have "luaL_checkint C L (int (i + 1)) = Inr (int (uchar (s ! i)))"
    using assms i by (intro arg_int) (simp_all add: uchar_range)
  moreover have "str_char_loop C L (i + 1 + 1) n = Inr (drop (i + 1) s)" using Suc.IH [of "i + 1"] Suc.prems by simp
  ultimately have "str_char_loop C L (i + 1) (Suc n) = Inr (s ! i # drop (i + 1) s)"
    by (simp add: uchar_range)
  then show ?case using i by (simp add: Cons_nth_drop_Suc)
qed simp

text \<open>
  Bytes and back: \<open>str_byte\<close> over a whole string of fewer than 7000 characters returns
  one number for each, and \<open>str_char\<close> called with these numbers returns the string.
\<close>

theorem byte_char_roundtrip:
  assumes "stk L = [TStr s, TInt 1, TInt (- 1)]" "length s < 7000"
  shows "\<exists>vs. str_byte C L = Inr vs \<and> length vs = length s \<and> (\<forall>L'. stk L' = vs \<longrightarrow> str_char C L' = Inr [TStr s])"
proof -
  have one: "int_range 1" "int_range (- 1)" by (simp_all add: INT_MIN_def INT_MAX_def)
  have a: "luaL_checklstring C L 1 = Inr (s, L)" "luaL_optinteger C L 2 1 = Inr 1" "luaL_optinteger C L 3 1 = Inr (- 1)"
    using assms(1) arg_string [of L "stk L" 1 s C] arg_number(2) [of 2 L "integer2number 1" C]
      arg_number(2) [of 3 L "integer2number (- 1)" C] number2integer_integer2number [OF one(1)] number2integer_integer2number [OF one(2)]
    by simp_all
  have p: "posrelat 1 (length s) = 1" "posrelat (- 1) (length s) = int (length s)" by (simp_all add: posrelat_def)
  let ?vs = "map (\<lambda>c. TInt (int (uchar c))) s"
  have "str_byte C L = Inr ?vs"
  proof (cases "s = []")
    case True
    with a p show ?thesis by (simp add: str_byte_def Let_def)
  next
    case False
    have n: "cast_int (int (length s)) = int (length s)"
      using assms(2) by (intro cast_int_id) (simp add: INT_MIN_def INT_MAX_def)
    have "1 \<le> int (length s)" using False by (cases s) auto
    have ck: "\<exists>L'. luaL_checkstack C L (int (length s)) m = Inr L'" for m
      using assms \<open>1 \<le> int (length s)\<close> by (simp add: luaL_checkstack_def lua_checkstack_def LUAI_MAXCSTACK_def)
    have "map (\<lambda>k. TInt (int (uchar (s ! nat (1 + int k - 1))))) [0..<nat (int (length s))] = ?vs"
      by (rule nth_equalityI) simp_all
    with ck [of "''string slice too long''"] \<open>1 \<le> int (length s)\<close> show ?thesis
      by (auto simp: str_byte_def a p Let_def n)
  qed
  moreover have "str_char C L' = Inr [TStr s]" if "stk L' = ?vs" for L'
    using str_char_loop_bytes [OF that, of 0 "length s" C] that by (simp add: str_char_def lua_gettop_def results1_def)
  ultimately show ?thesis by auto
qed

subsection \<open>The iterator of gmatch\<close>

lemma gmatch_from_spec:
  assumes "length S < 2 ^ 63"
  shows "case gmatch_from S P src of
      Inl err \<Rightarrow> \<exists>m. err = RunError m
    | Inr None \<Rightarrow> \<forall>s. src \<le> s \<longrightarrow> s \<le> length S \<longrightarrow> no_match S P 0 s
    | Inr (Some (s, e, ms)) \<Rightarrow> src \<le> s \<and> s \<le> e \<and> e \<le> length S \<and> ms_ok e ms \<and> Match S P 0 [] s e (live ms) \<and>
        (\<forall>s'. src \<le> s' \<longrightarrow> s' < s \<longrightarrow> no_match S P 0 s')"
proof (cases "src \<le> length S")
  case True
  have "gmatch_from S P src = find_from S P 0 False src"
    using True
  proof (induction "length S - src" arbitrary: src)
    case 0
    then have src: "src = length S" by simp
    have "gmatch_from S P (Suc (length S)) = Inr None" by (subst gmatch_from.simps) simp
    then show ?case by (subst gmatch_from.simps, subst find_from.simps) (simp add: src cong: option.case_cong)
  next
    case (Suc n)
    then have "gmatch_from S P (src + 1) = find_from S P 0 False (src + 1)" by (intro Suc(1)) simp_all
    moreover have "src < length S" using Suc(2) by simp
    ultimately show ?case by (subst gmatch_from.simps, subst find_from.simps) (simp cong: option.case_cong)
  qed
  then show ?thesis using find_from_spec [OF assms le0 True, where anchor = False and P = P] by (auto split: sum.splits option.splits)
next
  case False
  then show ?thesis by (subst gmatch_from.simps) simp
qed

text \<open>
  Every call of the \<open>gmatch\<close> iterator moves on: unless it raises an error it either
  ends the iteration, when the pattern matches nowhere from its position on, or returns the
  captures of the leftmost match and a later position, at most one past the end. So an
  iteration over a text of length \<open>n\<close> ends after at most \<open>n + 2\<close> calls.
\<close>

theorem gmatch_progress:
  assumes "length S < 2 ^ 63"
  shows "(\<exists>m. gmatch_aux S P pos = Inl (RunError m)) \<or>
    (gmatch_aux S P pos = Inr None \<and> (\<forall>s. pos \<le> s \<longrightarrow> s \<le> length S \<longrightarrow> no_match S P 0 s)) \<or>
    (\<exists>vs pos' s e cs. gmatch_aux S P pos = Inr (Some (vs, pos')) \<and> pos < pos' \<and> pos' \<le> length S + 1 \<and>
       pos \<le> s \<and> Match S P 0 [] s e cs \<and> (\<forall>s'. pos \<le> s' \<longrightarrow> s' < s \<longrightarrow> no_match S P 0 s') \<and>
       vs = (if cs = [] then [TStr (substring S s (e - s))] else map (cap_value S) cs))"
proof (cases "gmatch_from S P pos")
  case (Inl err)
  with gmatch_from_spec [OF assms, where P = P and src = pos] show ?thesis by (auto simp: gmatch_aux_def)
next
  case (Inr r)
  show ?thesis
  proof (cases r)
    case None
    with Inr gmatch_from_spec [OF assms, where P = P and src = pos] show ?thesis by (simp add: gmatch_aux_def)
  next
    case (Some sem)
    obtain s e ms where sem: "sem = (s, e, ms)" by (cases sem)
    from gmatch_from_spec [OF assms, where P = P and src = pos] Inr Some sem have s: "pos \<le> s" "s \<le> e" "e \<le> length S" "ms_ok e ms"
        "Match S P 0 [] s e (live ms)" "\<forall>s'. pos \<le> s' \<longrightarrow> s' < s \<longrightarrow> no_match S P 0 s'" by auto
    let ?pos' = "if e = s then e + 1 else e"
    let ?vs = "if live ms = [] then [TStr (substring S s (e - s))] else map (cap_value S) (live ms)"
    consider "push_captures S ms True s e = Inl (RunError ''unfinished capture'')" | "push_captures S ms True s e = Inr ?vs"
      using push_captures_values [OF s(4), of S True s e] by auto
    then show ?thesis
    proof cases
      case 1
      then show ?thesis by (simp add: gmatch_aux_def Inr Some sem Let_def)
    next
      case 2
      then have "gmatch_aux S P pos = Inr (Some (?vs, ?pos'))" by (simp add: gmatch_aux_def Inr Some sem Let_def)
      moreover have "pos < ?pos'" "?pos' \<le> length S + 1" using s(1-3) by auto
      ultimately show ?thesis using s by blast
    qed
  qed
qed

subsection \<open>Replacement\<close>

text \<open>
  \<open>leftmost_run S P p full lo ms\<close>: the matches \<open>ms\<close> (start, end, captures) follow each other from
  position \<open>lo\<close>, each the leftmost one from where the search goes on after the one before, and
  there is none after the last unless the limit is reached.
\<close>

fun leftmost_run :: "string \<Rightarrow> string \<Rightarrow> nat \<Rightarrow> bool \<Rightarrow> nat \<Rightarrow> (nat \<times> nat \<times> MatchState) list \<Rightarrow> bool" where
  "leftmost_run S P p full lo [] \<longleftrightarrow> full \<or> (\<forall>s. lo \<le> s \<longrightarrow> s \<le> length S \<longrightarrow> no_match S P p s)"
| "leftmost_run S P p full lo ((s, e, ms) # rest) \<longleftrightarrow>
     lo \<le> s \<and> s \<le> e \<and> e \<le> length S \<and> ms_ok e ms \<and> Match S P p [] s e (live ms) \<and>
     (\<forall>s'. lo \<le> s' \<longrightarrow> s' < s \<longrightarrow> no_match S P p s') \<and> leftmost_run S P p full (if e = s then e + 1 else e) rest"

text \<open>The text from \<open>pos\<close> on with the matches replaced by what \<open>add\<close> gives for them.\<close>

fun splice :: "(MatchState \<Rightarrow> nat \<Rightarrow> nat \<Rightarrow> string result) \<Rightarrow> string \<Rightarrow> nat \<Rightarrow> (nat \<times> nat \<times> MatchState) list \<Rightarrow> string result" where
  "splice add S pos [] = Inr (drop pos S)"
| "splice add S pos ((s, e, ms) # rest) =
     bind_result (add ms s e) (\<lambda>x. bind_result (splice add S e rest) (\<lambda>r. Inr (substring S pos (s - pos) @ x @ r)))"

lemma leftmost_run_earlier:
  "leftmost_run S P p full (Suc lo) ms \<Longrightarrow> no_match S P p lo \<Longrightarrow> leftmost_run S P p full lo ms"
proof -
  assume a: "leftmost_run S P p full (Suc lo) ms" and no: "no_match S P p lo"
  have ext: "no_match S P p s" if "lo \<le> s" "Suc lo \<le> s \<Longrightarrow> no_match S P p s" for s
    using that no by (cases "s = lo") auto
  show ?thesis
  proof (cases ms)
    case Nil
    with a ext show ?thesis by simp blast
  next
    case (Cons x rest)
    obtain s e m where "x = (s, e, m)" by (cases x)
    with a Cons ext show ?thesis by simp
  qed
qed

lemma splice_char:
  "pos < length S \<Longrightarrow> leftmost_run S P p full (Suc pos) ms \<Longrightarrow>
   splice add S pos ms = bind_result (splice add S (Suc pos) ms) (\<lambda>r. Inr (S ! pos # r))"
proof (cases ms)
  case Nil
  assume "pos < length S"
  with Nil show ?thesis by (simp add: Cons_nth_drop_Suc)
next
  case (Cons a rest)
  assume pos: "pos < length S" and run: "leftmost_run S P p full (Suc pos) ms"
  obtain s e m where a: "a = (s, e, m)" by (cases a)
  with run Cons have "Suc pos \<le> s" by simp
  then obtain k where k: "s - pos = Suc k" "s - Suc pos = k" by (cases "s - pos") auto
  have "substring S pos (s - pos) = S ! pos # substring S (Suc pos) (s - Suc pos)"
    using pos k by (simp add: substring_def flip: Cons_nth_drop_Suc)
  then show ?thesis by (simp add: Cons a bind_result_assoc)
qed

lemma gsub_loop_spec:
  assumes S: "length S < 2 ^ 63" "p \<le> length P"
  shows "src \<le> length S \<Longrightarrow>
    (case gsub_loop add S P p False max_s n src of
       Inl err \<Rightarrow> (\<exists>m. err = RunError m) \<or> (\<exists>ms s e. add ms s e = Inl err)
     | Inr (r, k) \<Rightarrow> \<exists>ms. leftmost_run S P p (max_s \<le> k) src ms \<and> splice add S src ms = Inr r \<and>
         k = n + int (length ms) \<and> (k = n \<or> k \<le> max_s))"
proof (induction "Suc (length S) - src" arbitrary: src n rule: less_induct)
  case less
  note step = gsub_loop.simps [of add S P p False max_s n src]
  show ?case
  proof (cases "n < max_s")
    case False
    then have "gsub_loop add S P p False max_s n src = Inr (drop src S, n)" by (simp add: step)
    with False show ?thesis by (auto intro!: exI [of _ "[]"])
  next
    case True
    from match_new [OF S less.prems] consider m where "match S P p new_match src = Inl (RunError m)"
      | ms where "match S P p new_match src = Inr (None, ms)" "no_match S P p src"
      | e ms where "match S P p new_match src = Inr (Some e, ms)" "src \<le> e" "e \<le> length S" "ms_ok e ms" "Match S P p [] src e (live ms)"
      by auto
    then show ?thesis
    proof cases
      case 1
      with True show ?thesis by (simp add: step)
    next
      case (2 ms)
      show ?thesis
      proof (cases "src < length S")
        case True
        have IH: "(case gsub_loop add S P p False max_s n (src + 1) of
            Inl err \<Rightarrow> (\<exists>m. err = RunError m) \<or> (\<exists>ms s e. add ms s e = Inl err)
          | Inr (r, k) \<Rightarrow> \<exists>ms. leftmost_run S P p (max_s \<le> k) (src + 1) ms \<and> splice add S (src + 1) ms = Inr r \<and>
              k = n + int (length ms) \<and> (k = n \<or> k \<le> max_s))"
          using True by (intro less.hyps) auto
        have eq: "gsub_loop add S P p False max_s n src =
            bind_result (gsub_loop add S P p False max_s n (src + 1)) (\<lambda>(r, k). Inr (S ! src # r, k))"
          using \<open>n < max_s\<close> True 2(1) by (simp add: step)
        show ?thesis
        proof (cases "gsub_loop add S P p False max_s n (src + 1)")
          case (Inl err)
          with IH show ?thesis unfolding eq by simp
        next
          case (Inr rk)
          obtain r k where rk: "rk = (r, k)" by (cases rk)
          with Inr IH obtain ms' where ms': "leftmost_run S P p (max_s \<le> k) (Suc src) ms'" "splice add S (Suc src) ms' = Inr r"
            "k = n + int (length ms') \<and> (k = n \<or> k \<le> max_s)" by auto
          have "splice add S src ms' = Inr (S ! src # r)" using splice_char [OF True ms'(1), of add] ms'(2) by simp
          with leftmost_run_earlier [OF ms'(1) 2(2)] ms'(3) show ?thesis unfolding eq Inr rk by auto
        qed
      next
        case False
        with less.prems have "src = length S" by simp
        moreover have "gsub_loop add S P p False max_s n src = Inr (drop src S, n)"
          using \<open>n < max_s\<close> False 2(1) by (simp add: step)
        ultimately show ?thesis using 2(2) by (auto intro!: exI [of _ "[]"] dest: le_antisym)
      qed
    next
      case (3 e m)
      show ?thesis
      proof (cases "add m src e")
        case (Inl err)
        with True 3(1) have "gsub_loop add S P p False max_s n src = Inl err" by (simp add: step)
        with Inl show ?thesis by auto
      next
        case (Inr x)
        let ?next = "if e = src then src + 1 else e"
        show ?thesis
        proof (cases "?next \<le> length S")
          case nx: True
          have IH: "(case gsub_loop add S P p False max_s (n + 1) ?next of
              Inl err \<Rightarrow> (\<exists>m. err = RunError m) \<or> (\<exists>ms s e. add ms s e = Inl err)
            | Inr (r, k) \<Rightarrow> \<exists>ms. leftmost_run S P p (max_s \<le> k) ?next ms \<and> splice add S ?next ms = Inr r \<and>
                k = n + 1 + int (length ms) \<and> (k = n + 1 \<or> k \<le> max_s))"
            using 3(2) nx less.prems by (intro less.hyps) auto
          have eq: "gsub_loop add S P p False max_s n src =
              bind_result (gsub_loop add S P p False max_s (n + 1) ?next) (\<lambda>(r, k). Inr (x @ (if e = src then S ! src # r else r), k))"
            using \<open>n < max_s\<close> nx 3(1,2,3) Inr by (auto simp: step)
          show ?thesis
          proof (cases "gsub_loop add S P p False max_s (n + 1) ?next")
            case (Inl err)
            with IH show ?thesis unfolding eq by simp
          next
            case loop: (Inr rk)
            obtain r k where rk: "rk = (r, k)" by (cases rk)
            with loop IH obtain ms' where ms': "leftmost_run S P p (max_s \<le> k) ?next ms'" "splice add S ?next ms' = Inr r"
              "k = n + 1 + int (length ms')" "k = n + 1 \<or> k \<le> max_s" by auto
            have "splice add S e ms' = Inr (if e = src then S ! src # r else r)"
              using splice_char [of src S P p "max_s \<le> k" ms' add] ms'(1,2) nx by (auto split: if_splits)
            then have "splice add S src ((src, e, m) # ms') = Inr (x @ (if e = src then S ! src # r else r))"
              by (simp add: Inr substring_def)
            moreover have "leftmost_run S P p (max_s \<le> k) src ((src, e, m) # ms')"
              using 3 ms'(1) by (simp split: if_splits)
            moreover have "k = n + int (length ((src, e, m) # ms'))" "k = n \<or> k \<le> max_s" using ms'(3,4) True by auto
            ultimately show ?thesis unfolding eq loop rk by (auto intro!: exI [of _ "(src, e, m) # ms'"])
          qed
        next
          case end': False
          then have e: "e = src" "src = length S" using 3(2,3) less.prems by (auto split: if_splits)
          then have "gsub_loop add S P p False max_s n src = Inr (x @ drop src S, n + 1)"
            using \<open>n < max_s\<close> 3(1) Inr unfolding step by simp
          moreover have "leftmost_run S P p (max_s \<le> n + 1) src [(src, e, m)]" using 3 e by simp
          moreover have "splice add S src [(src, e, m)] = Inr (x @ drop src S)" using Inr e by (simp add: substring_def)
          ultimately show ?thesis using True by (auto intro!: exI [of _ "[(src, e, m)]"])
        qed
      qed
    qed
  qed
qed

lemma splice_same:
  "leftmost_run S P p full lo ms \<Longrightarrow> pos \<le> lo \<Longrightarrow> pos \<le> length S \<Longrightarrow> lo \<le> Suc pos \<Longrightarrow> splice (\<lambda>ms s e. Inr (substring S s (e - s))) S pos ms = Inr r \<Longrightarrow> r = drop pos S"
proof (induction ms arbitrary: pos lo r)
  case (Cons a ms)
  obtain s e m where a: "a = (s, e, m)" by (cases a)
  obtain r' where r': "splice (\<lambda>ms s e. Inr (substring S s (e - s))) S e ms = Inr r'" "r = substring S pos (s - pos) @ substring S s (e - s) @ r'"
    using Cons.prems by (auto simp: a bind_result_Inr_conv)
  have run: "lo \<le> s" "s \<le> e" "e \<le> length S" "leftmost_run S P p full (if e = s then e + 1 else e) ms"
    using Cons.prems(1) by (simp_all add: a)
  have "r' = drop e S" by (rule Cons.IH [OF run(4) _ run(3) _ r'(1)]) auto
  moreover have "substring S s (e - s) @ drop e S = drop s S"
    using run(2) append_take_drop_id [of "e - s" "drop s S"] by (simp add: substring_def)
  moreover have "substring S pos (s - pos) @ drop s S = drop pos S"
    using run(1) Cons.prems(2) append_take_drop_id [of "s - pos" "drop pos S"] by (simp add: substring_def)
  ultimately show ?case using r'(2) by simp
qed simp

text \<open>
  Claim C20. What \<open>str_gsub\<close> replaces, for a pattern without anchor: from the position \<open>src\<close> on it
  replaces exactly the matches of a leftmost run (an empty match is followed by one copied
  character) up to the limit, copies everything between them, and returns the number of
  replacements; the loop always ends, and fails only for a malformed pattern or because the
  replacement itself fails.
\<close>

theorem gsub_replaces_leftmost:
  assumes "length S < 2 ^ 63" "p \<le> length P" "src \<le> length S"
  shows "(\<exists>err. gsub_loop add S P p False max_s n src = Inl err \<and>
       ((\<exists>m. err = RunError m) \<or> (\<exists>ms s e. add ms s e = Inl err))) \<or>
    (\<exists>r ms. gsub_loop add S P p False max_s n src = Inr (r, n + int (length ms)) \<and>
       leftmost_run S P p (max_s \<le> n + int (length ms)) src ms \<and> splice add S src ms = Inr r \<and>
       (ms = [] \<or> n + int (length ms) \<le> max_s))"
  using gsub_loop_spec [OF assms, of add max_s n] by (auto split: sum.splits)

lemma add_value_whole: "add_value call index C (TStr ''%0'') S ms s e = Inr (substring S s (e - s))"
  by (simp add: add_value_def isdigit_def)

text \<open>
  Replacing each match by itself: \<open>str_gsub\<close> with the replacement \<open>%0\<close> returns the text
  unchanged, whatever the (unanchored, well-formed) pattern, with a number of replacements
  between 0 and one more than the length of the text.
\<close>

theorem gsub_identity:
  assumes "stk L = [TStr S, TStr P, TStr ''%0'']" "length S < 2 ^ 31 - 1" "\<not> anchored P"
  shows "(\<exists>m. str_gsub call index C L = Inl (RunError m)) \<or>
    (\<exists>n. 0 \<le> n \<and> n \<le> int (length S) + 1 \<and> str_gsub call index C L = Inr [TStr S, TInt n])"
proof -
  have a: "luaL_checklstring C L 1 = Inr (S, L)" "luaL_checklstring C L 2 = Inr (P, L)" "luaL_optinteger C L 4 d = Inr d" for d
    using assms(1) arg_string [of L "stk L" 1 S C] arg_string [of L "stk L" 2 P C] arg_none_integer [of L 4] by simp_all
  have t: "lua_type L 3 = Inr 4" "index_value L 3 = Inr (TStr ''%0'')"
    using assms(1) by (auto simp: lua_type_def index_value_def index2adr_def value_at_def)
  have m: "cast_int (int (length S) + 1) = int (length S) + 1"
    using assms(2) by (intro cast_int_id) (simp add: INT_MIN_def INT_MAX_def)
  let ?loop = "gsub_loop (add_value call index C (TStr ''%0'') S) S P 0 False (int (length S) + 1) 0 0"
  have eq: "str_gsub call index C L = at_caller C L (bind_result ?loop (\<lambda>(s, n). Inr [TStr s, TInt n]))"
    using assms(3) by (simp add: str_gsub_def a t luaL_optint_def m)
  have add: "add_value call index C (TStr ''%0'') S = (\<lambda>ms s e. Inr (substring S s (e - s)))"
    by (intro ext) (rule add_value_whole)
  have S63: "length S < 2 ^ 63" using assms(2) by simp
  from gsub_loop_spec [OF S63 le0 le0, of "add_value call index C (TStr ''%0'') S" P "int (length S) + 1" 0]
  show ?thesis
  proof (cases ?loop)
    case (Inl err)
    with gsub_loop_spec [OF S63 le0 le0, of "add_value call index C (TStr ''%0'') S" P "int (length S) + 1" 0]
    obtain m where m: "err = RunError m" by (auto simp: add_value_whole)
    obtain m' where "at_caller C L (Inl (RunError m) :: TValue list result) = Inl (RunError m')"
      using at_caller_error by blast
    with Inl eq m have "str_gsub call index C L = Inl (RunError m')" by simp
    then show ?thesis by blast
  next
    case (Inr rk)
    obtain r k where rk: "rk = (r, k)" by (cases rk)
    with Inr gsub_loop_spec [OF S63 le0 le0, of "add_value call index C (TStr ''%0'') S" P "int (length S) + 1" 0]
    obtain ms where ms: "leftmost_run S P 0 (int (length S) + 1 \<le> k) 0 ms" "splice (\<lambda>ms s e. Inr (substring S s (e - s))) S 0 ms = Inr r"
      "k = int (length ms)" "k = 0 \<or> k \<le> int (length S) + 1" by (auto simp: add)
    have "r = S" using splice_same [OF ms(1) _ _ _ ms(2)] by simp
    then have "str_gsub call index C L = Inr [TStr S, TInt k]" unfolding eq Inr rk by simp
    moreover have "0 \<le> k" "k \<le> int (length S) + 1" using ms(3,4) by auto
    ultimately show ?thesis by blast
  qed
qed

subsection \<open>Patterns of ordinary characters\<close>

definition ordinary :: "char \<Rightarrow> bool" where
  "ordinary c \<longleftrightarrow> c \<notin> set SPECIALS \<and> c \<noteq> CHR '')'' \<and> c \<noteq> CHR 0x00"

lemma uchar_inj: "uchar c = uchar d \<longleftrightarrow> c = d"
  by (metis char_of_char)

lemma match_ordinary:
  assumes "list_all ordinary P"
  shows "p \<le> length P \<Longrightarrow> s \<le> length S \<Longrightarrow>
    match S P p ms s = Inr (if occurs S (drop p P) s then Some (s + (length P - p)) else None, ms)"
proof (induction "length P - p" arbitrary: p s)
  case 0
  then have "p = length P" by simp
  with 0(3) show ?case by (subst match.simps) (simp add: occurs_def substring_def)
next
  case (Suc n)
  then have p: "p < length P" by simp
  define c where "c = P ! p"
  have o: "ordinary c" using assms p by (simp add: c_def list_all_length)
  obtain d where d: "cchar P (p + 1) = Inr d" "d = CHR 0x00 \<or> ordinary d"
    using p assms by (cases "p + 1 < length P") (auto simp: cchar_def list_all_length)
  have "match S P p ms s = match_item (\<lambda>p' ms s. match S P p' ms s) S P ms s p"
    using o p by (subst match.simps) (simp add: cchar_at ordinary_def SPECIALS_def flip: c_def)
  also have "\<dots> = (if s < length S \<and> S ! s = c then match S P (p + 1) ms (s + 1) else Inr (None, ms))"
    using o p d by (auto simp: match_item_def classend_def singlematch_def cchar_at ordinary_def SPECIALS_def uchar_inj
        simp flip: c_def)
  also have "\<dots> = Inr (if occurs S (drop p P) s then Some (s + (length P - p)) else None, ms)"
  proof (cases "s < length S \<and> S ! s = c")
    case True
    have dr: "drop p P = c # drop (p + 1) P" "drop s S = c # drop (s + 1) S"
      using p True Cons_nth_drop_Suc [of p P] Cons_nth_drop_Suc [of s S] by (simp_all add: c_def)
    have "occurs S (drop p P) s \<longleftrightarrow> occurs S (drop (p + 1) P) (s + 1)"
    proof -
      obtain m where "length P - p = Suc m" "length P - (p + 1) = m" using p by (cases "length P - p") auto
      then show ?thesis using p True by (auto simp: occurs_def substring_def dr)
    qed
    moreover have "match S P (p + 1) ms (s + 1) =
        Inr (if occurs S (drop (p + 1) P) (s + 1) then Some (s + 1 + (length P - (p + 1))) else None, ms)"
      using Suc(1) [of "p + 1" "s + 1"] Suc(2) p True by simp
    ultimately show ?thesis using True p by (simp add: Suc_diff_Suc)
  next
    case False
    have "\<not> occurs S (drop p P) s"
    proof
      assume oc: "occurs S (drop p P) s"
      then have "s < length S" "take (length P - p) (drop s S) = drop p P" using p by (auto simp: occurs_def substring_def)
      moreover from this have "S ! s = c" using p by (metis c_def Cons_nth_drop_Suc Suc_diff_Suc list.inject take_Suc_Cons)
      ultimately show False using False by simp
    qed
    with False show ?thesis by auto
  qed
  finally show ?case .
qed

lemma find_from_ordinary:
  assumes "list_all ordinary P"
  shows "s1 \<le> length S \<Longrightarrow> find_from S P 0 False s1 =
    Inr (map_option (\<lambda>i. (i, i + length P, new_match)) (find (occurs S P) [s1..<Suc (length S)]))"
proof (induction "length S - s1" arbitrary: s1)
  case 0
  then have "s1 = length S" by simp
  with match_ordinary [OF assms, of 0 s1 S new_match] show ?case by (subst find_from.simps) simp
next
  case (Suc n)
  then have s1: "s1 < length S" by simp
  then have u: "[s1..<Suc (length S)] = s1 # [s1 + 1..<Suc (length S)]" by (simp add: upt_conv_Cons del: upt_Suc)
  have IH: "find_from S P 0 False (s1 + 1) =
    Inr (map_option (\<lambda>i. (i, i + length P, new_match)) (find (occurs S P) [s1 + 1..<Suc (length S)]))"
    using Suc(1) [of "s1 + 1"] Suc(2) s1 by simp
  show ?case unfolding u using match_ordinary [OF assms, of 0 s1 S new_match] s1 IH
    by (subst find_from.simps) (simp del: upt_Suc)
qed

text \<open>
  The shortcut of \<open>str_find\<close> agrees with the matcher: for a pattern of ordinary
  characters (no magic character, no zero) the plain search the function uses finds exactly what
  the loop over \<open>match\<close> would find, and no error is possible on either way.
\<close>

theorem plain_search_agrees:
  assumes "list_all ordinary P" "start \<le> length S"
  shows "find_from S P 0 False start =
    Inr (map_option (\<lambda>i. (i, i + length P, new_match)) (lmemfind S start (length S - start) P))"
  using find_from_ordinary [OF assms] lmemfind_spec [of start "length S - start" S P] assms(2) by simp

subsection \<open>Witnesses\<close>

definition sample_clib :: clib where
  "sample_clib = \<lparr>c_strtod = (\<lambda>s. (0, 0)), c_strtoul16 = (\<lambda>s. (0, 0)), c_number2str = (\<lambda>n. ''0''), c_pointer2str = (\<lambda>p. ''0x0''), c_pow = (\<lambda>a b. a)\<rparr>"

theorem plain_search_agrees_witness:
  "list_all ordinary ''na'' \<and> find_from ''banana'' ''na'' 0 False 3 = Inr (Some (4, 6, new_match))"
proof -
  have o: "list_all ordinary ''na''" by (simp add: ordinary_def SPECIALS_def)
  have "lmemfind ''banana'' 3 (length ''banana'' - 3) ''na'' = Some 4" by code_simp
  with plain_search_agrees [OF o, of 3 "''banana''"] o show ?thesis by simp
qed

theorem str_find_leftmost_witness:
  "str_find_aux sample_clib True (sample_state\<lparr>stk := [TStr ''hello'', TStr ''l(l?)'']\<rparr>) = Inr [TInt 3, TInt 4, TStr ''l''] \<and>
   (\<exists>s e cs. Match ''hello'' ''l(l?)'' 0 [] s e cs \<and> (\<forall>s' < s. no_match ''hello'' ''l(l?)'' 0 s'))"
proof -
  let ?L = "sample_state\<lparr>stk := [TStr ''hello'', TStr ''l(l?)'']\<rparr>"
  have f: "find_from ''hello'' ''l(l?)'' 0 False 0 = Inr (Some (2, 4, new_match\<lparr>level := 1, captures := (captures new_match)[0 := \<lparr>cap_init = 3, cap_len = 1\<rparr>]\<rparr>))"
    by code_simp
  have an: "\<not> anchored ''l(l?)''" by (simp add: anchored_def cchar_def)
  have sp: "\<exists>c \<in> set (c_str ''l(l?)''). c \<in> set SPECIALS" by (simp add: c_str_def SPECIALS_def)
  have eq: "str_find_aux sample_clib True ?L = Inr [TInt 3, TInt 4, TStr ''l'']"
    using an by (simp add: c_str_def SPECIALS_def find_simp [of ?L "''hello''" "''l(l?)''"] f push_captures_def push_onecapture_def ms_capture_def new_match_def
        LUA_MAXCAPTURES_def CAP_UNFINISHED_def CAP_POSITION_def substring_def)
  have "length ''hello'' < 2 ^ 63" by simp
  have "\<exists>s e cs. Match ''hello'' ''l(l?)'' (pattern_start ''l(l?)'') [] s e cs \<and>
      (\<forall>s' < s. no_match ''hello'' ''l(l?)'' (pattern_start ''l(l?)'') s')"
  proof (rule disjE [OF str_find_leftmost [of ?L "''hello''" "''l(l?)''" True sample_clib, OF _ \<open>length ''hello'' < 2 ^ 63\<close>]])
    show "stk ?L = [TStr ''hello'', TStr ''l(l?)'']" by simp
    show "\<not> True \<or> (\<exists>c \<in> set (c_str ''l(l?)''). c \<in> set SPECIALS)" using sp by blast
  qed (use eq in simp, (elim disjE exE conjE; use eq in simp; blast))
  with an eq show ?thesis unfolding pattern_start_def by simp
qed

theorem str_find_plain_witness:
  "str_find sample_clib (sample_state\<lparr>stk := [TStr ''banana'', TStr ''nab'']\<rparr>) = Inr [TNil] \<and> (\<forall>i. \<not> occurs ''banana'' ''nab'' i)"
proof -
  let ?L = "sample_state\<lparr>stk := [TStr ''banana'', TStr ''nab'']\<rparr>"
  have sp: "\<forall>c \<in> set (c_str ''nab''). c \<notin> set SPECIALS" by (simp add: c_str_def SPECIALS_def)
  have "lmemfind ''banana'' 0 (length ''banana'') ''nab'' = None" by code_simp
  then have "str_find sample_clib ?L = Inr [TNil]" using sp by (simp add: str_find_def find_simp)
  with str_find_plain [of ?L "''banana''" "''nab''" sample_clib] sp show ?thesis by auto
qed

theorem str_sub_correct_witness:
  "\<exists>x. str_sub sample_clib (sample_state\<lparr>stk := [TStr ''hello'', TInt (- 3), TInt 99]\<rparr>) = Inr [TStr x] \<and> x = ''llo''"
proof -
  have "int_range (- 3)" "int_range 99" by (simp_all add: INT_MIN_def INT_MAX_def)
  note n = this [THEN number2integer_integer2number]
  show ?thesis
    by (subst str_sub_correct [of _ "''hello''" "integer2number (- 3)" "integer2number 99"]) (simp_all add: n from_end_def upt_rec)
qed

theorem byte_char_roundtrip_witness:
  "\<exists>vs. str_byte sample_clib (sample_state\<lparr>stk := [TStr ''ab'', TInt 1, TInt (- 1)]\<rparr>) = Inr vs \<and> length vs = 2 \<and>
     str_char sample_clib (sample_state\<lparr>stk := vs\<rparr>) = Inr [TStr ''ab'']"
proof -
  have "length ''ab'' < 7000" by simp
  from byte_char_roundtrip [of "sample_state\<lparr>stk := [TStr ''ab'', TInt 1, TInt (- 1)]\<rparr>" "''ab''" sample_clib, OF _ this]
  show ?thesis by auto
qed

theorem gmatch_progress_witness:
  "\<exists>vs pos'. gmatch_aux ''ab'' ''b*'' 0 = Inr (Some (vs, pos')) \<and> 0 < pos' \<and> pos' \<le> 3"
proof -
  have "gmatch_aux ''ab'' ''b*'' 0 = Inr (Some ([TStr ''''], 1))" by code_simp
  moreover have "length ''ab'' < 2 ^ 63" by simp
  from gmatch_progress [OF this, of "''b*''" 0] calculation show ?thesis by auto
qed

theorem gsub_replaces_leftmost_witness:
  "\<exists>ms. leftmost_run ''aba'' ''a'' 0 (10 \<le> 0 + int (length ms)) 0 ms \<and> splice (\<lambda>_ _ _. Inr ''x'') ''aba'' 0 ms = Inr ''xbx'' \<and>
     length ms = 2"
proof -
  have g: "gsub_loop (\<lambda>_ _ _. Inr ''x'') ''aba'' ''a'' 0 False 10 0 0 = Inr (''xbx'', 2)" by code_simp
  have "length ''aba'' < 2 ^ 63" "0 \<le> length ''a''" "0 \<le> length ''aba''" by simp_all
  from gsub_replaces_leftmost [OF this, of "\<lambda>_ _ _. Inr ''x''" 10 0] g show ?thesis by auto
qed

theorem gsub_identity_witness:
  "(let r = str_gsub (\<lambda>_ _. Inr TNil) (\<lambda>_ _. Inr TNil) sample_clib (sample_state\<lparr>stk := [TStr ''abc'', TStr ''%w?'', TStr ''%0'']\<rparr>) in
    (\<exists>m. r = Inl (RunError m)) \<or> (\<exists>n. 0 \<le> n \<and> n \<le> 4 \<and> r = Inr [TStr ''abc'', TInt n]))"
proof -
  have "length ''abc'' < 2 ^ 31 - 1" "\<not> anchored ''%w?''" by (simp_all add: anchored_def cchar_def)
  from gsub_identity [of "sample_state\<lparr>stk := [TStr ''abc'', TStr ''%w?'', TStr ''%0'']\<rparr>" "''abc''" "''%w?''", OF _ this]
  show ?thesis by (simp add: Let_def)
qed

subsection \<open>Two oddities\<close>

text \<open>
  The list of special characters that decides on the plain search lacks the closing
  parenthesis: \<open>find\<close> takes a lone one as an ordinary character, where the manual makes it
  magic and \<open>match\<close> refuses the same pattern.
\<close>

theorem find_accepts_parenthesis:
  "str_find C (sample_state\<lparr>stk := [TStr ''a)'', TStr '')'']\<rparr>) = Inr [TInt 2, TInt 2] \<and>
   (\<exists>m. str_match C (sample_state\<lparr>stk := [TStr ''a)'', TStr '')'']\<rparr>) = Inl (RunError m))"
proof
  have sp: "\<forall>c \<in> set (c_str '')''). c \<notin> set SPECIALS" by (simp add: c_str_def SPECIALS_def)
  have "lmemfind ''a)'' 0 (length ''a)'') '')'' = Some 1" by code_simp
  then show "str_find C (sample_state\<lparr>stk := [TStr ''a)'', TStr '')'']\<rparr>) = Inr [TInt 2, TInt 2]"
    using sp by (simp add: str_find_def find_simp)
  have f: "find_from ''a)'' '')'' 0 False 0 = Inl (RunError ''invalid pattern capture'')" by code_simp
  have "\<not> anchored '')''" by (simp add: anchored_def cchar_def)
  then show "\<exists>m. str_match C (sample_state\<lparr>stk := [TStr ''a)'', TStr '')'']\<rparr>) = Inl (RunError m)"
    using at_caller_error by (simp add: str_match_def find_simp f)
qed

text \<open>
  A replacement string that ends with the escape character: \<open>add_s\<close> reads the
  terminating zero after it and adds a zero byte to the result.
\<close>

theorem gsub_trailing_escape:
  "gsub_loop (add_value call index C (TStr ''x%'') ''ab'') ''ab'' ''a'' 0 False 10 0 0 = Inr (''x'' @ CHR 0x00 # ''b'', 1)"
proof -
  have a: "add_value call index C (TStr ''x%'') ''ab'' = (\<lambda>ms s e. Inr [CHR ''x'', CHR 0x00])"
    by (intro ext) (simp add: add_value_def)
  have "gsub_loop (\<lambda>ms s e. Inr [CHR ''x'', CHR 0x00]) ''ab'' ''a'' 0 False 10 0 0 = Inr (''x'' @ CHR 0x00 # ''b'', 1)" by code_simp
  with a show ?thesis by simp
qed

end
