(* ===== verification/Lvm_ops.thy ===== *)
theory Lvm_ops
  imports Lauxlib Ldebug
begin

text \<open>
  The operations of lvm.c on values, with the errors of ldebug.c: conversions, access to tables
  through tag methods, comparisons, concatenation and arithmetic. They work on any state that
  extends \<open>global_State\<close>: the frame of a C function as well as the virtual machine.

  What they ask of the rest of the interpreter is in the record \<open>host\<close>: the call of a function
  value with a number of results (\<open>luaD_call\<close>), the name the debug information gives to a
  register of the running function (\<open>getobjname\<close>) and the position put in front of a message
  (\<open>addinfo\<close>). An operand is a value and, when it lies in a register, the register.
\<close>

record 's host =
  h_clib :: clib
  h_call :: "TValue \<Rightarrow> TValue list \<Rightarrow> nat \<Rightarrow> 's \<Rightarrow> (TValue list \<times> 's) result"
  h_objname :: "'s \<Rightarrow> nat \<Rightarrow> (string \<times> string) option result"
  h_addinfo :: "'s \<Rightarrow> string \<Rightarrow> string result"

type_synonym operand = "TValue \<times> nat option"

definition MAXTAGLOOP :: nat where "MAXTAGLOOP = 100"

subsection \<open>Errors\<close>

definition luaG_runerror :: "'s host \<Rightarrow> 's \<Rightarrow> string \<Rightarrow> vararg list \<Rightarrow> 'b result" where
  "luaG_runerror H L fmt args =
     bind_result (luaO_pushvfstring (h_clib H) fmt args) (\<lambda>msg.
     bind_result (h_addinfo H L msg) (\<lambda>msg. Inl (RunError msg)))"

definition luaG_typeerror :: "'s host \<Rightarrow> 's \<Rightarrow> operand \<Rightarrow> string \<Rightarrow> 'b result" where
  "luaG_typeerror H L x op =
     (let t = luaT_typenames ! ttype (fst x) in
      bind_result (case snd x of None \<Rightarrow> Inr None | Some r \<Rightarrow> h_objname H L r) (\<lambda>kind.
        case kind of
          Some (kind, name) \<Rightarrow> luaG_runerror H L (''attempt to %s %s '' @ LUA_QL ''%s'' @ '' (a %s value)'')
            [ArgS (Some op), ArgS (Some kind), ArgS (Some name), ArgS (Some t)]
        | None \<Rightarrow> luaG_runerror H L ''attempt to %s a %s value'' [ArgS (Some op), ArgS (Some t)]))"

definition is_string_or_number :: "TValue \<Rightarrow> bool" where
  "is_string_or_number v \<longleftrightarrow> ttype v = 4 \<or> ttype v = 3"

definition luaG_concaterror :: "'s host \<Rightarrow> 's \<Rightarrow> operand \<Rightarrow> operand \<Rightarrow> 'b result" where
  "luaG_concaterror H L p1 p2 = luaG_typeerror H L (if is_string_or_number (fst p1) then p2 else p1) ''concatenate''"

definition luaG_aritherror :: "'s host \<Rightarrow> 's \<Rightarrow> operand \<Rightarrow> operand \<Rightarrow> 'b result" where
  "luaG_aritherror H L p1 p2 =
     bind_result (luaV_tonumber (h_clib H) (fst p1)) (\<lambda>n.
       luaG_typeerror H L (if n = None then p1 else p2) ''perform arithmetic on'')"

definition luaG_ordererror :: "'s host \<Rightarrow> 's \<Rightarrow> TValue \<Rightarrow> TValue \<Rightarrow> 'b result" where
  "luaG_ordererror H L p1 p2 =
     (let t1 = luaT_typenames ! ttype p1; t2 = luaT_typenames ! ttype p2 in
      if t1 ! 2 = t2 ! 2 then luaG_runerror H L ''attempt to compare two %s values'' [ArgS (Some t1)]
      else luaG_runerror H L ''attempt to compare %s with %s'' [ArgS (Some t1), ArgS (Some t2)])"

subsection \<open>Calls of tag methods\<close>

definition callTMres :: "'s host \<Rightarrow> 's \<Rightarrow> TValue \<Rightarrow> TValue \<Rightarrow> TValue \<Rightarrow> (TValue \<times> 's) result" where
  "callTMres H L f p1 p2 =
     bind_result (h_call H f [p1, p2] 1 L) (\<lambda>(rs, L). case rs of [r] \<Rightarrow> Inr (r, L) | _ \<Rightarrow> Inl MemoryFault)"

definition callTM :: "'s host \<Rightarrow> 's \<Rightarrow> TValue \<Rightarrow> TValue \<Rightarrow> TValue \<Rightarrow> TValue \<Rightarrow> 's result" where
  "callTM H L f p1 p2 p3 = bind_result (h_call H f [p1, p2, p3] 0 L) (\<lambda>(rs, L). Inr L)"

definition call_binTM :: "('a global_State_scheme) host \<Rightarrow> 'a global_State_scheme \<Rightarrow> TValue \<Rightarrow> TValue \<Rightarrow> TMS \<Rightarrow>
    (TValue option \<times> 'a global_State_scheme) result" where
  "call_binTM H L p1 p2 event =
     bind_result (luaT_gettmbyobj L p1 event) (\<lambda>tm.
     bind_result (if tm = TNil then luaT_gettmbyobj L p2 event else Inr tm) (\<lambda>tm.
       if tm = TNil then Inr (None, L)
       else bind_result (callTMres H L tm p1 p2) (\<lambda>(r, L). Inr (Some r, L))))"

definition get_compTM :: "'a global_State_scheme \<Rightarrow> addr option \<Rightarrow> addr option \<Rightarrow> TMS \<Rightarrow>
    (TValue option \<times> 'a global_State_scheme) result" where
  "get_compTM L mt1 mt2 event =
     bind_result (fasttm L mt1 event) (\<lambda>(tm1, L). case tm1 of
       None \<Rightarrow> Inr (None, L)
     | Some tm1 \<Rightarrow> if mt1 = mt2 then Inr (Some tm1, L)
         else bind_result (fasttm L mt2 event) (\<lambda>(tm2, L). case tm2 of
           None \<Rightarrow> Inr (None, L)
         | Some tm2 \<Rightarrow> Inr (if luaO_rawequalObj tm1 tm2 then Some tm1 else None, L)))"

text \<open>The result \<open>None\<close> is the \<open>-1\<close> of the code: no common tag method.\<close>

definition call_orderTM :: "('a global_State_scheme) host \<Rightarrow> 'a global_State_scheme \<Rightarrow> TValue \<Rightarrow> TValue \<Rightarrow> TMS \<Rightarrow>
    (bool option \<times> 'a global_State_scheme) result" where
  "call_orderTM H L p1 p2 event =
     bind_result (luaT_gettmbyobj L p1 event) (\<lambda>tm1.
       if tm1 = TNil then Inr (None, L)
       else bind_result (luaT_gettmbyobj L p2 event) (\<lambda>tm2.
         if \<not> luaO_rawequalObj tm1 tm2 then Inr (None, L)
         else bind_result (callTMres H L tm1 p1 p2) (\<lambda>(r, L). Inr (Some (\<not> l_isfalse r), L))))"

subsection \<open>Access to tables\<close>

definition ttisfunction :: "TValue \<Rightarrow> bool" where "ttisfunction v \<longleftrightarrow> ttype v = 6"

text \<open>One turn of the loop of \<open>luaV_gettable\<close>: the value found (\<open>Inl\<close>) or a tag method.\<close>

definition gettable_step :: "('a global_State_scheme) host \<Rightarrow> 'a global_State_scheme \<Rightarrow> operand \<Rightarrow> TValue \<Rightarrow>
    ((TValue + TValue) \<times> 'a global_State_scheme) result" where
  "gettable_step H L t key =
     (case fst t of
        TTable p \<Rightarrow>
          bind_result (table_at L p) (\<lambda>h. bind_result (luaH_get h key) (\<lambda>s.
            let res = slot_val h s in
            if res \<noteq> TNil then Inr (Inl res, L)
            else bind_result (fasttm L (metatable h) TM_INDEX) (\<lambda>(tm, L).
              Inr (case tm of None \<Rightarrow> Inl res | Some tm \<Rightarrow> Inr tm, L))))
      | v \<Rightarrow>
          bind_result (luaT_gettmbyobj L v TM_INDEX) (\<lambda>tm.
            if tm = TNil then luaG_typeerror H L t ''index'' else Inr (Inr tm, L)))"

fun gettable_loop :: "nat \<Rightarrow> ('a global_State_scheme) host \<Rightarrow> 'a global_State_scheme \<Rightarrow> operand \<Rightarrow> TValue \<Rightarrow>
    (TValue \<times> 'a global_State_scheme) result" where
  "gettable_loop 0 H L t key = luaG_runerror H L ''loop in gettable'' []"
| "gettable_loop (Suc n) H L t key =
     bind_result (gettable_step H L t key) (\<lambda>(r, L). case r of
       Inl res \<Rightarrow> Inr (res, L)
     | Inr tm \<Rightarrow> if ttisfunction tm then callTMres H L tm (fst t) key else gettable_loop n H L (tm, None) key)"

definition luaV_gettable :: "('a global_State_scheme) host \<Rightarrow> 'a global_State_scheme \<Rightarrow> operand \<Rightarrow> TValue \<Rightarrow>
    (TValue \<times> 'a global_State_scheme) result" where
  "luaV_gettable H L t key = gettable_loop MAXTAGLOOP H L t key"

text \<open>
  In \<open>luaV_settable\<close> the pointer \<open>t\<close> goes on to point to the tag method inside its metatable. The
  model keeps that slot with the value: the value is read again when the tag method is called,
  and the read is a memory fault when \<open>luaH_set\<close> has since given the nodes of that table new
  memory.
\<close>

type_synonym home = "(addr \<times> slot) option"

definition set_reallocates :: "Table \<Rightarrow> TValue \<Rightarrow> bool" where
  "set_reallocates h key \<longleftrightarrow>
     luaH_get h key = Inr NilObject \<and>
     (i_val (node h ! mainposition h key) \<noteq> TNil \<or> isdummy h) \<and> fst (getfreepos h) = None"

definition read_back :: "'a global_State_scheme \<Rightarrow> TValue \<Rightarrow> home \<Rightarrow> bool \<Rightarrow> TValue result" where
  "read_back L v home moved =
     (case home of None \<Rightarrow> Inr v
      | Some (p, s) \<Rightarrow> if moved then Inl MemoryFault else bind_result (table_at L p) (\<lambda>t. Inr (slot_val t s)))"

definition tm_home :: "'a global_State_scheme \<Rightarrow> addr option \<Rightarrow> TMS \<Rightarrow> home result" where
  "tm_home L mt event =
     (case mt of None \<Rightarrow> Inr None
      | Some p \<Rightarrow> bind_result (table_at L p) (\<lambda>t. bind_result (luaH_getstr t (tmname event)) (\<lambda>s. Inr (Some (p, s)))))"

text \<open>One turn of the loop: the store is done (\<open>None\<close>), or a tag method, its slot, and whether \<open>t\<close> was lost.\<close>

definition settable_step :: "('a global_State_scheme) host \<Rightarrow> 'a global_State_scheme \<Rightarrow> operand \<Rightarrow> home \<Rightarrow> TValue \<Rightarrow> TValue \<Rightarrow>
    ((TValue \<times> home \<times> bool) option \<times> 'a global_State_scheme) result" where
  "settable_step H L t home key val =
     (case fst t of
        TTable p \<Rightarrow>
          bind_result (table_at L p) (\<lambda>h. bind_result (luaH_set (l_gc L) h key) (\<lambda>(g, h', s).
            let moved = ((\<exists>s. home = Some (p, s)) \<and> set_reallocates h key);
                L = set_table_at p h' (L\<lparr>l_gc := g\<rparr>) in
            bind_result (if slot_val h' s \<noteq> TNil then Inr (None, L) else fasttm L (metatable h') TM_NEWINDEX) (\<lambda>(tm, L).
              case tm of
                None \<Rightarrow> bind_result (table_at L p) (\<lambda>h.
                  Inr (None, set_table_at p (set_slot h s val) (L\<lparr>l_gc := luaC_barriert (l_gc L) (t_self h) val\<rparr>)))
              | Some tm \<Rightarrow> bind_result (tm_home L (metatable h') TM_NEWINDEX) (\<lambda>home.
                  Inr (Some (tm, home, moved), L)))))
      | v \<Rightarrow>
          bind_result (luaT_gettmbyobj L v TM_NEWINDEX) (\<lambda>tm.
            if tm = TNil then luaG_typeerror H L t ''index''
            else bind_result (metatable_of L v) (\<lambda>mt. bind_result (tm_home L mt TM_NEWINDEX) (\<lambda>home.
              Inr (Some (tm, home, False), L)))))"

fun settable_loop :: "nat \<Rightarrow> ('a global_State_scheme) host \<Rightarrow> 'a global_State_scheme \<Rightarrow> operand \<Rightarrow> home \<Rightarrow> TValue \<Rightarrow> TValue \<Rightarrow>
    ('a global_State_scheme) result" where
  "settable_loop 0 H L t home key val = luaG_runerror H L ''loop in settable'' []"
| "settable_loop (Suc n) H L t home key val =
     bind_result (settable_step H L t home key val) (\<lambda>(r, L). case r of
       None \<Rightarrow> Inr L
     | Some (tm, home', moved) \<Rightarrow>
         if ttisfunction tm then bind_result (read_back L (fst t) home moved) (\<lambda>v. callTM H L tm v key val)
         else settable_loop n H L (tm, None) home' key val)"

definition luaV_settable :: "('a global_State_scheme) host \<Rightarrow> 'a global_State_scheme \<Rightarrow> operand \<Rightarrow> TValue \<Rightarrow> TValue \<Rightarrow>
    ('a global_State_scheme) result" where
  "luaV_settable H L t key val = settable_loop MAXTAGLOOP H L t None key val"

subsection \<open>Comparisons\<close>

text \<open>\<open>strcmp\<close> (\<open>strcoll\<close> in the C locale) on the characters before the terminating zeros.\<close>

fun strcmp :: "string \<Rightarrow> string \<Rightarrow> int" where
  "strcmp [] [] = 0"
| "strcmp [] (b # bs) = - 1"
| "strcmp (a # as) [] = 1"
| "strcmp (a # as) (b # bs) = (if a = b then strcmp as bs else if uchar a < uchar b then - 1 else 1)"

function l_strcmp :: "TString \<Rightarrow> TString \<Rightarrow> int" where
  "l_strcmp l r =
     (let temp = strcmp (c_str l) (c_str r) in
      if temp \<noteq> 0 then temp
      else let len = length (c_str l) in
        if len = length r then (if len = length l then 0 else 1)
        else if len = length l then - 1
        else l_strcmp (drop (len + 1) l) (drop (len + 1) r))"
  by pat_completeness auto
termination
proof (relation "measure (\<lambda>(l, r). length l)")
  fix l r :: TString and len
  assume "len = length (c_str l)" "len \<noteq> length l"
  moreover have "length (c_str l) \<le> length l" by (simp add: c_str_def length_takeWhile_le)
  ultimately show "((drop (len + 1) l, drop (len + 1) r), l, r) \<in> measure (\<lambda>(l, r). length l)" by auto
qed simp

declare l_strcmp.simps [simp del]

definition luaV_lessthan :: "('a global_State_scheme) host \<Rightarrow> 'a global_State_scheme \<Rightarrow> TValue \<Rightarrow> TValue \<Rightarrow>
    (bool \<times> 'a global_State_scheme) result" where
  "luaV_lessthan H L l r =
     (if ttype l \<noteq> ttype r then luaG_ordererror H L l r
      else case (l, r) of
        (TNumber a, TNumber b) \<Rightarrow> Inr (luai_numlt a b, L)
      | (TStr a, TStr b) \<Rightarrow> Inr (l_strcmp a b < 0, L)
      | _ \<Rightarrow> bind_result (call_orderTM H L l r TM_LT) (\<lambda>(res, L). case res of
          Some res \<Rightarrow> Inr (res, L)
        | None \<Rightarrow> luaG_ordererror H L l r))"

definition lessequal :: "('a global_State_scheme) host \<Rightarrow> 'a global_State_scheme \<Rightarrow> TValue \<Rightarrow> TValue \<Rightarrow>
    (bool \<times> 'a global_State_scheme) result" where
  "lessequal H L l r =
     (if ttype l \<noteq> ttype r then luaG_ordererror H L l r
      else case (l, r) of
        (TNumber a, TNumber b) \<Rightarrow> Inr (luai_numle a b, L)
      | (TStr a, TStr b) \<Rightarrow> Inr (l_strcmp a b \<le> 0, L)
      | _ \<Rightarrow> bind_result (call_orderTM H L l r TM_LE) (\<lambda>(res, L). case res of
          Some res \<Rightarrow> Inr (res, L)
        | None \<Rightarrow> bind_result (call_orderTM H L r l TM_LT) (\<lambda>(res, L). case res of
            Some res \<Rightarrow> Inr (\<not> res, L)
          | None \<Rightarrow> luaG_ordererror H L l r)))"

definition equal_by_tm :: "('a global_State_scheme) host \<Rightarrow> 'a global_State_scheme \<Rightarrow> TValue \<Rightarrow> TValue \<Rightarrow>
    (bool \<times> 'a global_State_scheme) result" where
  "equal_by_tm H L t1 t2 =
     bind_result (metatable_of L t1) (\<lambda>mt1. bind_result (metatable_of L t2) (\<lambda>mt2.
     bind_result (get_compTM L mt1 mt2 TM_EQ) (\<lambda>(tm, L). case tm of
       None \<Rightarrow> Inr (False, L)
     | Some tm \<Rightarrow> bind_result (callTMres H L tm t1 t2) (\<lambda>(r, L). Inr (\<not> l_isfalse r, L)))))"

definition luaV_equalval :: "('a global_State_scheme) host \<Rightarrow> 'a global_State_scheme \<Rightarrow> TValue \<Rightarrow> TValue \<Rightarrow>
    (bool \<times> 'a global_State_scheme) result" where
  "luaV_equalval H L t1 t2 = (case (t1, t2) of
       (TNil, _) \<Rightarrow> Inr (True, L)
     | (TNumber a, TNumber b) \<Rightarrow> Inr (luai_numeq a b, L)
     | (TBoolean a, TBoolean b) \<Rightarrow> Inr (a = b, L)
     | (TLightUserdata p, TLightUserdata q) \<Rightarrow> Inr (p = q, L)
     | (TUserdata p, TUserdata q) \<Rightarrow> if p = q then Inr (True, L) else equal_by_tm H L t1 t2
     | (TTable p, TTable q) \<Rightarrow> if p = q then Inr (True, L) else equal_by_tm H L t1 t2
     | _ \<Rightarrow> Inr (gcvalue t1 = gcvalue t2, L))"

definition equalobj :: "('a global_State_scheme) host \<Rightarrow> 'a global_State_scheme \<Rightarrow> TValue \<Rightarrow> TValue \<Rightarrow>
    (bool \<times> 'a global_State_scheme) result" where
  "equalobj H L o1 o2 = (if ttype o1 = ttype o2 then luaV_equalval H L o1 o2 else Inr (False, L))"

subsection \<open>Concatenation\<close>

text \<open>
  \<open>luaV_concat\<close> works on a run of stack slots, here the list \<open>vs\<close> whose first element lies in the
  register \<open>reg\<close>; \<open>la\<close> is the index of the last operand left (\<open>last\<close> in the code). \<open>tostring\<close> converts a number in
  its slot.
\<close>

definition MAX_SIZET :: nat where "MAX_SIZET = 2 ^ 64 - 3"

definition tostring :: "clib \<Rightarrow> TValue list \<Rightarrow> nat \<Rightarrow> (TString \<times> TValue list) option" where
  "tostring C vs i = (case vs ! i of
       TStr s \<Rightarrow> Some (s, vs)
     | v \<Rightarrow> (case luaV_tostring C v of None \<Rightarrow> None | Some s \<Rightarrow> Some (s, vs[i := TStr s])))"

text \<open>
  The loop that collects the operands: \<open>n\<close> of them so far, the lowest at index \<open>i\<close>, of tot
  length \<open>tlen\<close>. The strings come out in order.
\<close>

fun concat_collect :: "'s host \<Rightarrow> 's \<Rightarrow> nat \<Rightarrow> TValue list \<Rightarrow> nat \<Rightarrow> nat \<Rightarrow> nat \<Rightarrow> string list \<Rightarrow>
    (nat \<times> string list \<times> TValue list) result" where
  "concat_collect H L tot vs 0 n tlen acc = Inr (n, acc, vs)"
| "concat_collect H L tot vs (Suc i) n tlen acc =
     (if n < tot then
        (case tostring (h_clib H) vs i of
           None \<Rightarrow> Inr (n, acc, vs)
         | Some (s, vs) \<Rightarrow>
             if length s \<ge> MAX_SIZET - tlen then luaG_runerror H L ''string length overflow'' []
             else concat_collect H L tot vs i (n + 1) (tlen + length s) (s # acc))
      else Inr (n, acc, vs))"

definition concat_pass :: "('a global_State_scheme) host \<Rightarrow> 'a global_State_scheme \<Rightarrow> nat \<Rightarrow> nat \<Rightarrow> nat \<Rightarrow> TValue list \<Rightarrow>
    (nat \<times> TValue list \<times> 'a global_State_scheme) result" where
  "concat_pass H L reg tot la vs =
     (if \<not> (1 \<le> la \<and> la < length vs) then Inl MemoryFault
      else
        let a = vs ! (la - 1); b = vs ! la;
            tm = bind_result (call_binTM H L a b TM_CONCAT) (\<lambda>(r, L). case r of
              Some r \<Rightarrow> Inr (2, vs[la - 1 := r], L)
            | None \<Rightarrow> luaG_concaterror H L (a, Some (reg + la - 1)) (b, Some (reg + la)))
        in if \<not> is_string_or_number a then tm
           else case tostring (h_clib H) vs la of
             None \<Rightarrow> tm
           | Some (s, vs) \<Rightarrow>
               if length s = 0
               then Inr (2, (case tostring (h_clib H) vs (la - 1) of Some (s, vs) \<Rightarrow> vs | None \<Rightarrow> vs), L)
               else bind_result (concat_collect H L tot vs la 1 (length s) [s]) (\<lambda>(n, ss, vs).
                 Inr (n, vs[la + 1 - n := TStr (concat ss)], L)))"

lemma tostring_length: "tostring C vs i = Some (s, vs') \<Longrightarrow> length vs' = length vs"
  by (auto simp: tostring_def split: TValue.splits option.splits)

lemma concat_collect_grows:
  "concat_collect H L tot vs i n tlen acc = Inr (m, ss, vs') \<Longrightarrow> n \<le> m \<and> m \<le> n + i \<and> (n \<le> tot \<longrightarrow> m \<le> tot) \<and> length vs' = length vs"
  by (induction H L tot vs i n tlen acc rule: concat_collect.induct)
    (force simp: luaG_runerror_def bind_result_def split: if_splits option.splits prod.splits sum.splits dest: tostring_length)+

lemma tostring_iff: "(\<exists>s vs'. tostring C vs i = Some (s, vs')) \<longleftrightarrow> is_string_or_number (vs ! i)"
  by (cases "vs ! i") (auto simp: tostring_def is_string_or_number_def)

lemma concat_collect_takes:
  assumes "concat_collect H L tot vs i n tlen acc = Inr (m, ss, vs')" "n < tot" "0 < i" "is_string_or_number (vs ! (i - 1))"
  shows "n < m"
proof (cases i)
  case (Suc j)
  with assms obtain s vs1 where "tostring (h_clib H) vs j = Some (s, vs1)" using tostring_iff [of "h_clib H" vs j] by auto
  with assms Suc have "\<exists>tlen acc. concat_collect H L tot vs1 j (n + 1) tlen acc = Inr (m, ss, vs')"
    by (auto simp: luaG_runerror_def bind_result_def split: if_splits sum.splits)
  then show ?thesis using concat_collect_grows by fastforce
qed (use assms in simp)


lemma concat_pass_takes:
  assumes "concat_pass H L reg tot la vs = Inr (n, vs', L')" "1 < tot"
  shows "2 \<le> n \<and> length vs' = length vs \<and> n \<le> la + 1 \<and> n \<le> tot"
proof -
  have bounds: "1 \<le> la" "la < length vs" using assms by (auto simp: concat_pass_def split: if_splits)
  show ?thesis
  proof (cases "is_string_or_number (vs ! (la - 1))")
    case False
    with assms bounds show ?thesis
      by (auto simp: concat_pass_def Let_def bind_result_Inr_conv luaG_concaterror_def luaG_typeerror_def luaG_runerror_def
          split: option.splits)
  next
    case num: True
    show ?thesis
    proof (cases "tostring (h_clib H) vs la")
      case None
      with assms bounds num show ?thesis
        by (auto simp: concat_pass_def Let_def bind_result_Inr_conv luaG_concaterror_def luaG_typeerror_def luaG_runerror_def
            split: option.splits)
    next
      case (Some p)
      then obtain s vs1 where s: "tostring (h_clib H) vs la = Some (s, vs1)" by (cases p) auto
      have l: "length vs1 = length vs" using s by (rule tostring_length)
      have same: "vs1 ! (la - 1) = vs ! (la - 1)"
        using s bounds by (auto simp: tostring_def split: TValue.splits option.splits)
      show ?thesis
      proof (cases "length s = 0")
        case True
        with assms bounds num s l show ?thesis
          by (auto simp: concat_pass_def split: option.splits dest: tostring_length)
      next
        case False
        with assms bounds num s obtain ss vs2 where
          c: "concat_collect H L tot vs1 la 1 (length s) [s] = Inr (n, ss, vs2)" "vs' = vs2[la + 1 - n := TStr (concat ss)]"
          by (auto simp: concat_pass_def bind_result_Inr_conv)
        from concat_collect_takes [OF c(1) assms(2)] num bounds same have "1 < n" by simp
        with concat_collect_grows [OF c(1)] c(2) l assms(2) show ?thesis by simp
      qed
    qed
  qed
qed

function luaV_concat :: "('a global_State_scheme) host \<Rightarrow> 'a global_State_scheme \<Rightarrow> nat \<Rightarrow> nat \<Rightarrow> nat \<Rightarrow> TValue list \<Rightarrow>
    (TValue list \<times> 'a global_State_scheme) result" where
  "luaV_concat H L reg tot la vs =
     bind_result (concat_pass H L reg tot la vs) (\<lambda>(n, vs, L).
       if 1 < tot - (n - 1) then luaV_concat H L reg (tot - (n - 1)) (la - (n - 1)) vs
       else Inr (vs, L))"
  by pat_completeness auto
termination
  by (relation "measure (\<lambda>(H, L, reg, tot, la, vs). tot)") (auto dest!: concat_pass_takes)

declare luaV_concat.simps [simp del]

subsection \<open>Arithmetic\<close>

fun arith_number :: "clib \<Rightarrow> TMS \<Rightarrow> lua_Number \<Rightarrow> lua_Number \<Rightarrow> lua_Number option" where
  "arith_number C TM_ADD nb nc = Some (luai_numadd nb nc)"
| "arith_number C TM_SUB nb nc = Some (luai_numsub nb nc)"
| "arith_number C TM_MUL nb nc = Some (luai_nummul nb nc)"
| "arith_number C TM_DIV nb nc = Some (luai_numdiv nb nc)"
| "arith_number C TM_MOD nb nc = Some (luai_nummod nb nc)"
| "arith_number C TM_POW nb nc = Some (c_pow C nb nc)"
| "arith_number C TM_UNM nb nc = Some (luai_numunm nb)"
| "arith_number C _ nb nc = None"

text \<open>
  The result for the register \<open>ra\<close>. Another operation than an arithmetic one leaves the register
  as it is, which no caller relies on: a memory fault here.
\<close>

definition Arith :: "('a global_State_scheme) host \<Rightarrow> 'a global_State_scheme \<Rightarrow> operand \<Rightarrow> operand \<Rightarrow> TMS \<Rightarrow>
    (TValue \<times> 'a global_State_scheme) result" where
  "Arith H L rb rc op =
     bind_result (luaV_tonumber (h_clib H) (fst rb)) (\<lambda>b.
     bind_result (if b = None then Inr None else luaV_tonumber (h_clib H) (fst rc)) (\<lambda>c.
       case (b, c) of
         (Some nb, Some nc) \<Rightarrow> (case arith_number (h_clib H) op nb nc of
             Some n \<Rightarrow> Inr (TNumber n, L) | None \<Rightarrow> Inl MemoryFault)
       | _ \<Rightarrow> bind_result (call_binTM H L (fst rb) (fst rc) op) (\<lambda>(r, L). case r of
           Some r \<Rightarrow> Inr (r, L) | None \<Rightarrow> luaG_aritherror H L rb rc)))"

end
