(* ===== verification/Lfunc.thy ===== *)
theory Lfunc
  imports Lvm_ops
begin

text \<open>
  The state of a thread (\<open>CallInfo\<close>, \<open>lua_State\<close> of lstate.h), closures and upvalues (\<open>Closure\<close>,
  \<open>UpVal\<close> of lobject.h) and the operations of lfunc.c. Pointers into the stack are indices, so
  that they survive its reallocation as \<open>savestack\<close> and \<open>correctstack\<close> arrange; a read or write
  outside the stack is a \<open>MemoryFault\<close>. \<open>savedpc\<close> is an index into the code of the running function.

  Objects live in maps from addresses; the collector is not part of this model, so that no
  object dies. New addresses come from the allocator, a parameter.
\<close>

subsection \<open>Closures and upvalues\<close>

datatype Closure =
    CClosure (cl_f: nat) (cl_env: addr) (cl_upvalue: "TValue list")
  | LClosure (cl_p: Proto) (cl_env: addr) (cl_upvals: "addr option list")

datatype UpVal = Open nat | Closed TValue

subsection \<open>Threads\<close>

record CallInfo =
  ci_base :: nat
  ci_func :: nat
  ci_top :: nat
  ci_savedpc :: nat
  ci_nresults :: int
  ci_tailcalls :: int

text \<open>
  \<open>th_ci\<close> are the entries from \<open>L->ci\<close> down to \<open>base_ci\<close>; \<open>th_openupval\<close> the open upvalues in the
  order of the list.
\<close>

record thread = global_State +
  th_stack :: "TValue list"
  th_top :: nat
  th_base :: nat
  th_ci :: "CallInfo list"
  th_savedpc :: nat
  th_size_ci :: nat
  th_nCcalls :: nat
  th_openupval :: "addr list"
  th_gt :: TValue
  th_closure :: "addr \<Rightarrow> Closure option"
  th_upval :: "addr \<Rightarrow> UpVal option"

definition EXTRA_STACK :: nat where "EXTRA_STACK = 5"

definition sget :: "thread \<Rightarrow> nat \<Rightarrow> TValue result" where
  "sget L i = (if i < length (th_stack L) then Inr (th_stack L ! i) else Inl MemoryFault)"

definition sset :: "nat \<Rightarrow> TValue \<Rightarrow> thread \<Rightarrow> thread result" where
  "sset i v L = (if i < length (th_stack L) then Inr (L\<lparr>th_stack := (th_stack L)[i := v]\<rparr>) else Inl MemoryFault)"

definition clvalue :: "thread \<Rightarrow> TValue \<Rightarrow> Closure result" where
  "clvalue L v = (case v of
       TFunction p \<Rightarrow> (case th_closure L p of Some cl \<Rightarrow> Inr cl | None \<Rightarrow> Inl MemoryFault)
     | _ \<Rightarrow> Inl MemoryFault)"

definition curr_ci :: "thread \<Rightarrow> CallInfo result" where
  "curr_ci L = (case th_ci L of [] \<Rightarrow> Inl MemoryFault | ci # _ \<Rightarrow> Inr ci)"

definition ci_closure :: "thread \<Rightarrow> CallInfo \<Rightarrow> Closure result" where
  "ci_closure L ci = bind_result (sget L (ci_func ci)) (clvalue L)"

text \<open>\<open>isLua(ci)\<close>: the prototype of the function of an entry, if it is a Lua function.\<close>

definition ci_proto :: "thread \<Rightarrow> CallInfo \<Rightarrow> Proto option result" where
  "ci_proto L ci =
     bind_result (sget L (ci_func ci)) (\<lambda>f.
       if \<not> ttisfunction f then Inr None
       else bind_result (clvalue L f) (\<lambda>cl. Inr (case cl of LClosure p _ _ \<Rightarrow> Some p | _ \<Rightarrow> None)))"

subsection \<open>Upvalues\<close>

definition upval_at :: "thread \<Rightarrow> addr \<Rightarrow> UpVal result" where
  "upval_at L u = (case th_upval L u of Some uv \<Rightarrow> Inr uv | None \<Rightarrow> Inl MemoryFault)"

text \<open>\<open>*uv->v\<close>, read and written.\<close>

definition upval_value :: "thread \<Rightarrow> addr \<Rightarrow> TValue result" where
  "upval_value L u = bind_result (upval_at L u) (\<lambda>uv. case uv of Open i \<Rightarrow> sget L i | Closed v \<Rightarrow> Inr v)"

definition set_upval :: "addr \<Rightarrow> TValue \<Rightarrow> thread \<Rightarrow> thread result" where
  "set_upval u v L =
     bind_result (upval_at L u) (\<lambda>uv. case uv of
       Open i \<Rightarrow> sset i v L | Closed _ \<Rightarrow> Inr (L\<lparr>th_upval := (th_upval L)(u \<mapsto> Closed v)\<rparr>))"

text \<open>The stack slot of an upvalue of the open list.\<close>

definition open_level :: "thread \<Rightarrow> addr \<Rightarrow> nat result" where
  "open_level L u = bind_result (upval_at L u) (\<lambda>uv. case uv of Open i \<Rightarrow> Inr i | Closed _ \<Rightarrow> Inl MemoryFault)"

text \<open>
  The search of \<open>luaF_findupval\<close>: the upvalue of the level, or the place in the list where a new
  one goes.
\<close>

fun find_open :: "thread \<Rightarrow> nat \<Rightarrow> addr list \<Rightarrow> nat \<Rightarrow> (addr + nat) result" where
  "find_open L level [] n = Inr (Inr n)"
| "find_open L level (u # us) n =
     bind_result (open_level L u) (\<lambda>i.
       if level \<le> i then (if i = level then Inr (Inl u) else find_open L level us (n + 1)) else Inr (Inr n))"

definition luaF_findupval :: "(thread \<Rightarrow> addr \<times> thread) \<Rightarrow> thread \<Rightarrow> nat \<Rightarrow> (addr \<times> thread) result" where
  "luaF_findupval alloc L level =
     bind_result (find_open L level (th_openupval L) 0) (\<lambda>r. case r of
       Inl u \<Rightarrow> Inr (u, L)
     | Inr n \<Rightarrow> let (new, L) = alloc L in Inr (new, L\<lparr>th_upval := (th_upval L)(new \<mapsto> Open level),
                         th_openupval := take n (th_openupval L) @ new # drop n (th_openupval L)\<rparr>))"

fun close_loop :: "nat \<Rightarrow> addr list \<Rightarrow> thread \<Rightarrow> thread result" where
  "close_loop level [] L = Inr (L\<lparr>th_openupval := []\<rparr>)"
| "close_loop level (u # us) L =
     bind_result (open_level L u) (\<lambda>i.
       if level \<le> i
       then bind_result (sget L i) (\<lambda>v. close_loop level us (L\<lparr>th_upval := (th_upval L)(u \<mapsto> Closed v)\<rparr>))
       else Inr (L\<lparr>th_openupval := u # us\<rparr>))"

definition luaF_close :: "nat \<Rightarrow> thread \<Rightarrow> thread result" where
  "luaF_close level L = close_loop level (th_openupval L) L"

text \<open>The caller sets the prototype of a new Lua closure; here it is an argument.\<close>

definition luaF_newLclosure :: "(thread \<Rightarrow> addr \<times> thread) \<Rightarrow> Proto \<Rightarrow> nat \<Rightarrow> addr \<Rightarrow> thread \<Rightarrow> addr \<times> thread" where
  "luaF_newLclosure alloc p nelems e L =
     (let (new, L) = alloc L in (new, L\<lparr>th_closure := (th_closure L)(new \<mapsto> LClosure p e (replicate nelems None))\<rparr>))"

definition luaF_newCclosure :: "(thread \<Rightarrow> addr \<times> thread) \<Rightarrow> nat \<Rightarrow> nat \<Rightarrow> addr \<Rightarrow> thread \<Rightarrow> addr \<times> thread" where
  "luaF_newCclosure alloc f nelems e L =
     (let (new, L) = alloc L in (new, L\<lparr>th_closure := (th_closure L)(new \<mapsto> CClosure f e (replicate nelems TNil))\<rparr>))"

definition luaF_newproto :: Proto where
  "luaF_newproto = Proto [] [] [] [] [] [] None 0 0 0 0 0 0"

subsection \<open>Names for error messages\<close>

text \<open>A null \<open>varname\<close> (stripped code has no local names at all) would be a fault.\<close>

fun getlocalname_loop :: "LocVar list \<Rightarrow> int \<Rightarrow> int \<Rightarrow> TString option result" where
  "getlocalname_loop [] n pc = Inr None"
| "getlocalname_loop (v # vs) n pc =
     (if startpc v \<le> pc then
        (if pc < endpc v then
           (if n - 1 = 0 then (case varname v of None \<Rightarrow> Inl MemoryFault | Some s \<Rightarrow> Inr (Some s))
            else getlocalname_loop vs (n - 1) pc)
         else getlocalname_loop vs n pc)
      else Inr None)"

definition luaF_getlocalname :: "Proto \<Rightarrow> int \<Rightarrow> int \<Rightarrow> TString option result" where
  "luaF_getlocalname f local_number pc = getlocalname_loop (pt_locvars f) local_number pc"

text \<open>\<open>currentpc\<close> and \<open>currentline\<close> of ldebug.c; \<open>pcRel\<close> takes the instruction before \<open>savedpc\<close>.\<close>

definition currentpc :: "thread \<Rightarrow> CallInfo \<Rightarrow> int result" where
  "currentpc L ci =
     bind_result (ci_proto L ci) (\<lambda>p. case p of
       None \<Rightarrow> Inr (- 1)
     | Some p \<Rightarrow> Inr (int (if curr_ci L = Inr ci then th_savedpc L else ci_savedpc ci) - 1))"

definition getline :: "Proto \<Rightarrow> int \<Rightarrow> int result" where
  "getline p pc = (if pt_lineinfo p = [] then Inr 0 else nth_result (pt_lineinfo p) pc)"

definition currentline :: "thread \<Rightarrow> CallInfo \<Rightarrow> int result" where
  "currentline L ci =
     bind_result (currentpc L ci) (\<lambda>pc.
       if pc < 0 then Inr (- 1)
       else bind_result (ci_proto L ci) (\<lambda>p. case p of None \<Rightarrow> Inl MemoryFault | Some p \<Rightarrow> getline p pc))"

definition kname :: "Proto \<Rightarrow> int \<Rightarrow> string result" where
  "kname p c =
     (if ISK c then bind_result (nth_result (pt_k p) (INDEXK c)) (\<lambda>k. case k of
          KVal (TStr s) \<Rightarrow> Inr s | KNullStr \<Rightarrow> Inl MemoryFault | _ \<Rightarrow> Inr ''?'')
      else Inr ''?'')"

text \<open>The recursion of \<open>getobjname\<close> goes to a lower register.\<close>

function getobjname_at :: "Proto \<Rightarrow> int \<Rightarrow> nat \<Rightarrow> (string \<times> string) option result" where
  "getobjname_at p pc stackpos =
     bind_result (luaF_getlocalname p (int stackpos + 1) pc) (\<lambda>name. case name of
       Some n \<Rightarrow> Inr (Some (''local'', n))
     | None \<Rightarrow>
         bind_result (symbexec p pc (int stackpos)) (\<lambda>i.
           let op = GET_OPCODE i in
           if op = opnum OP_GETGLOBAL then
             bind_result (nth_result (pt_k p) (GETARG_Bx i)) (\<lambda>k. case k of
               KVal (TStr s) \<Rightarrow> Inr (Some (''global'', s)) | _ \<Rightarrow> Inl MemoryFault)
           else if op = opnum OP_MOVE then
             (if 0 \<le> GETARG_B i \<and> GETARG_B i < GETARG_A i \<and> nat (GETARG_B i) < stackpos
              then getobjname_at p pc (nat (GETARG_B i)) else Inr None)
           else if op = opnum OP_GETTABLE then
             bind_result (kname p (GETARG_C i)) (\<lambda>s. Inr (Some (''field'', s)))
           else if op = opnum OP_GETUPVAL then
             (if pt_upvalues p = [] then Inr (Some (''upvalue'', ''?''))
              else bind_result (nth_result (pt_upvalues p) (GETARG_B i)) (\<lambda>s. case s of
                Some s \<Rightarrow> Inr (Some (''upvalue'', s)) | None \<Rightarrow> Inl MemoryFault))
           else if op = opnum OP_SELF then
             bind_result (kname p (GETARG_C i)) (\<lambda>s. Inr (Some (''method'', s)))
           else Inr None))"
  by pat_completeness auto
termination by (relation "measure (\<lambda>(p, pc, r). r)") auto

declare getobjname_at.simps [simp del]

definition getobjname :: "thread \<Rightarrow> CallInfo \<Rightarrow> nat \<Rightarrow> (string \<times> string) option result" where
  "getobjname L ci stackpos =
     bind_result (ci_proto L ci) (\<lambda>p. case p of
       None \<Rightarrow> Inr None
     | Some p \<Rightarrow> bind_result (currentpc L ci) (\<lambda>pc. getobjname_at p pc stackpos))"

subsection \<open>Chunk names\<close>

definition LUA_IDSIZE :: nat where "LUA_IDSIZE = 60"

text \<open>The C strings \<open>" '...' "\<close> and \<open>" [string "..."] "\<close> have 8 and 17 characters with the final zero.\<close>

definition luaO_chunkid :: "string \<Rightarrow> nat \<Rightarrow> string" where
  "luaO_chunkid source bufflen =
     (case source of
        CHR ''='' # s \<Rightarrow> take (bufflen - 1) s
      | CHR ''@'' # s \<Rightarrow>
          (let n = bufflen - 8; l = length s in if l > n then ''...'' @ drop (l - n) s else s)
      | _ \<Rightarrow>
          (let n = bufflen - 17;
               len = min n (length (takeWhile (\<lambda>c. c \<noteq> CHR 0x0A \<and> c \<noteq> CHR 0x0D) source)) in
           ''[string '' @ [CHR 0x22] @ (if len < length source then take len source @ ''...'' else source) @ [CHR 0x22] @ '']''))"

definition addinfo :: "clib \<Rightarrow> thread \<Rightarrow> string \<Rightarrow> string result" where
  "addinfo C L msg =
     bind_result (curr_ci L) (\<lambda>ci. bind_result (ci_proto L ci) (\<lambda>p. case p of
       None \<Rightarrow> Inr msg
     | Some p \<Rightarrow> bind_result (currentline L ci) (\<lambda>line. case pt_source p of
         None \<Rightarrow> Inl MemoryFault
       | Some src \<Rightarrow> luaO_pushvfstring C ''%s:%d: %s''
           [ArgS (Some (luaO_chunkid (c_str src) LUA_IDSIZE)), ArgD line, ArgS (Some msg)])))"

end
