(* ===== verification/Ldo.thy ===== *)
theory Ldo
  imports Lfunc
begin

text \<open>
  Calls (ldo.c): growing of the stack and of the list of call entries, the adjustment of the
  arguments of a vararg function, the \<open>__call\<close> tag method, entering a function
  (\<open>luaD_precall\<close>), leaving it (\<open>luaD_poscall\<close>) and \<open>luaD_call\<close>. Hooks are not set.

  The functions of the host program and the libraries (\<open>lua_CFunction\<close>), the allocator and
  the collector (the address of a new object, linked as a white one; the forward barrier on an
  upvalue and a value; a step) are the parameters in the record \<open>machine\<close>; \<open>luaV_execute\<close> is an argument of \<open>luaD_call\<close>.
\<close>

record machine =
  m_clib :: clib
  m_cfun :: "nat \<Rightarrow> thread \<Rightarrow> (int \<times> thread) result"
  m_alloc :: "thread \<Rightarrow> addr \<times> thread"
  m_barrierf :: "addr \<Rightarrow> TValue \<Rightarrow> thread \<Rightarrow> thread"
  m_checkGC :: "thread \<Rightarrow> thread"

type_synonym execute = "thread \<Rightarrow> nat \<Rightarrow> thread result"

definition LUA_MINSTACK :: nat where "LUA_MINSTACK = 20"
definition LUAI_MAXCALLS :: nat where "LUAI_MAXCALLS = 20000"

subsection \<open>The stack\<close>

text \<open>\<open>stack_last\<close> lies \<open>EXTRA_STACK + 1\<close> below the end of the stack; new slots hold nil here.\<close>

definition stack_last :: "thread \<Rightarrow> nat" where
  "stack_last L = length (th_stack L) - EXTRA_STACK - 1"

definition luaD_reallocstack :: "nat \<Rightarrow> thread \<Rightarrow> thread" where
  "luaD_reallocstack newsize L =
     (let realsize = newsize + 1 + EXTRA_STACK in
      L\<lparr>th_stack := take realsize (th_stack L @ replicate (realsize - length (th_stack L)) TNil)\<rparr>)"

definition luaD_growstack :: "nat \<Rightarrow> thread \<Rightarrow> thread" where
  "luaD_growstack n L =
     (let size = length (th_stack L) in luaD_reallocstack (if n \<le> size then 2 * size else size + n) L)"

definition luaD_checkstack :: "nat \<Rightarrow> thread \<Rightarrow> thread" where
  "luaD_checkstack n L = (if int (stack_last L) - int (th_top L) \<le> int n then luaD_growstack n L else L)"

text \<open>\<open>setobj2s(L, L->top++, v)\<close>: no test for room.\<close>

definition push_top :: "TValue \<Rightarrow> thread \<Rightarrow> thread result" where
  "push_top v L = bind_result (sset (th_top L) v L) (\<lambda>L. Inr (L\<lparr>th_top := th_top L + 1\<rparr>))"

definition incr_top :: "thread \<Rightarrow> thread" where
  "incr_top L = (let L = luaD_checkstack 1 L in L\<lparr>th_top := th_top L + 1\<rparr>)"

text \<open>Set the slots from \<open>i\<close> on to the values of a list; from \<open>i\<close> up to \<open>j\<close> to nil.\<close>

fun sset_list :: "nat \<Rightarrow> TValue list \<Rightarrow> thread \<Rightarrow> thread result" where
  "sset_list i [] L = Inr L"
| "sset_list i (v # vs) L = bind_result (sset i v L) (sset_list (i + 1) vs)"

definition set_nils :: "nat \<Rightarrow> nat \<Rightarrow> thread \<Rightarrow> thread result" where
  "set_nils i j L = sset_list i (replicate (j - i) TNil) L"

subsection \<open>Call entries\<close>

definition luaG_error_at :: "machine \<Rightarrow> thread \<Rightarrow> string \<Rightarrow> 'b result" where
  "luaG_error_at M L msg = bind_result (addinfo (m_clib M) L msg) (\<lambda>msg. Inl (RunError msg))"

definition luaD_reallocCI :: "nat \<Rightarrow> thread \<Rightarrow> thread" where
  "luaD_reallocCI newsize L = L\<lparr>th_size_ci := newsize\<rparr>"

definition growCI :: "machine \<Rightarrow> thread \<Rightarrow> thread result" where
  "growCI M L =
     (if th_size_ci L > LUAI_MAXCALLS then Inl (RunError ''error in error handling'')
      else let L = luaD_reallocCI (2 * th_size_ci L) L in
        if th_size_ci L > LUAI_MAXCALLS then luaG_error_at M L ''stack overflow'' else Inr L)"

text \<open>\<open>inc_ci\<close>: the new entry gets its fields from the caller.\<close>

definition inc_ci :: "machine \<Rightarrow> CallInfo \<Rightarrow> thread \<Rightarrow> thread result" where
  "inc_ci M ci L =
     bind_result (if length (th_ci L) = th_size_ci L then growCI M L else Inr L) (\<lambda>L.
       Inr (L\<lparr>th_ci := ci # th_ci L\<rparr>))"

definition restore_stack_limit :: "thread \<Rightarrow> thread" where
  "restore_stack_limit L =
     (if th_size_ci L > LUAI_MAXCALLS \<and> length (th_ci L) - 1 + 1 < LUAI_MAXCALLS
      then luaD_reallocCI LUAI_MAXCALLS L else L)"

subsection \<open>Entering a function\<close>

text \<open>The table \<open>arg\<close> of an old-style vararg function: the extra arguments and their number.\<close>

fun fill_arg :: "TValue list \<Rightarrow> int \<Rightarrow> gc_core \<times> Table \<Rightarrow> (gc_core \<times> Table) result" where
  "fill_arg [] i s = Inr s"
| "fill_arg (v # vs) i s =
     bind_result (luaH_setnum (fst s) (snd s) i) (\<lambda>(g, t, p). fill_arg vs (i + 1) (g, set_slot t p v))"

definition new_arg_table :: "machine \<Rightarrow> TValue list \<Rightarrow> thread \<Rightarrow> (TValue \<times> thread) result" where
  "new_arg_table M vs L =
     (let (new, L) = m_alloc M (m_checkGC M L) in
      bind_result (luaH_new new (length vs) 1) (\<lambda>t.
      bind_result (fill_arg vs 1 (l_gc L, t)) (\<lambda>(g, t).
      bind_result (luaH_setstr g t ''n'') (\<lambda>(g, t, p).
      Inr (TTable new, set_table_at new (set_slot t p (TNumber (cast_num (int (length vs))))) (L\<lparr>l_gc := g\<rparr>))))))"

fun push_nils :: "nat \<Rightarrow> thread \<Rightarrow> thread result" where
  "push_nils 0 L = Inr L"
| "push_nils (Suc n) L = bind_result (push_top TNil L) (push_nils n)"

text \<open>The fixed parameters go to the new base; the old slots become nil.\<close>

fun move_fixed :: "nat \<Rightarrow> nat \<Rightarrow> thread \<Rightarrow> thread result" where
  "move_fixed fixed 0 L = Inr L"
| "move_fixed fixed (Suc n) L =
     bind_result (sget L fixed) (\<lambda>v. bind_result (push_top v L) (\<lambda>L.
     bind_result (sset fixed TNil L) (\<lambda>L. move_fixed (fixed + 1) n L)))"

definition adjust_varargs :: "machine \<Rightarrow> Proto \<Rightarrow> nat \<Rightarrow> thread \<Rightarrow> (nat \<times> thread) result" where
  "adjust_varargs M p actual L =
     (let nfixargs = unat (pt_numparams p) in
      bind_result (push_nils (nfixargs - actual) L) (\<lambda>L.
      let actual = max actual nfixargs in
      bind_result
        (if pt_is_vararg p AND VARARG_NEEDSARG \<noteq> 0
         then let nvar = actual - nfixargs in
           bind_result (new_arg_table M (take nvar (drop (th_top L - nvar) (th_stack L))) L) (\<lambda>(t, L). Inr (Some t, L))
         else Inr (None, L)) (\<lambda>(htab, L).
      let base = th_top L in
      bind_result (move_fixed (th_top L - actual) nfixargs L) (\<lambda>L.
      bind_result (case htab of None \<Rightarrow> Inr L | Some t \<Rightarrow> push_top t L) (\<lambda>L. Inr (base, L))))))"

definition host_of :: "machine \<Rightarrow> (TValue \<Rightarrow> TValue list \<Rightarrow> nat \<Rightarrow> thread \<Rightarrow> (TValue list \<times> thread) result) \<Rightarrow> thread host" where
  "host_of M call =
     \<lparr>h_clib = m_clib M, h_call = call,
      h_objname = (\<lambda>L r. bind_result (curr_ci L) (\<lambda>ci. getobjname L ci r)),
      h_addinfo = addinfo (m_clib M)\<rparr>"

text \<open>The register of a stack slot of the running function, for \<open>isinstack\<close>.\<close>

definition reg_of :: "thread \<Rightarrow> nat \<Rightarrow> nat option" where
  "reg_of L i = (case curr_ci L of Inl e \<Rightarrow> None
     | Inr ci \<Rightarrow> if ci_base ci \<le> i \<and> i < ci_top ci then Some (i - th_base L) else None)"

definition no_call :: "TValue \<Rightarrow> TValue list \<Rightarrow> nat \<Rightarrow> thread \<Rightarrow> (TValue list \<times> thread) result" where
  "no_call f args n L = Inl MemoryFault"

definition tryfuncTM :: "machine \<Rightarrow> nat \<Rightarrow> thread \<Rightarrow> thread result" where
  "tryfuncTM M func L =
     bind_result (sget L func) (\<lambda>f. bind_result (luaT_gettmbyobj L f TM_CALL) (\<lambda>tm.
       if \<not> ttisfunction tm then luaG_typeerror (host_of M no_call) L (f, reg_of L func) ''call''
       else if \<not> th_top L < length (th_stack L) then Inl MemoryFault
       else
         let s = th_stack L;
             L = L\<lparr>th_stack := take (func + 1) s @ take (th_top L - func) (drop func s) @ drop (th_top L + 1) s\<rparr>
         in sset func tm (incr_top L)))"

datatype precall_result = PCRLUA | PCRC | PCRYIELD

subsection \<open>Leaving a function\<close>

text \<open>
  The first \<open>wanted\<close> results, all of them for \<open>LUA_MULTRET\<close>, go to the place of the function;
  the loops move upwards one by one.
\<close>

fun move_results :: "nat \<Rightarrow> int \<Rightarrow> nat \<Rightarrow> nat \<Rightarrow> thread \<Rightarrow> (nat \<times> int \<times> thread) result" where
  "move_results 0 i first res L = Inr (res, i, L)"
| "move_results (Suc n) i first res L =
     (if i \<noteq> 0 \<and> first < th_top L
      then bind_result (sget L first) (\<lambda>v. bind_result (sset res v L) (move_results n (i - 1) (first + 1) (res + 1)))
      else Inr (res, i, L))"

definition luaD_poscall :: "nat \<Rightarrow> thread \<Rightarrow> (bool \<times> thread) result" where
  "luaD_poscall firstResult L =
     (case th_ci L of
        ci # ci' # cis \<Rightarrow>
          (let wanted = ci_nresults ci;
               L = L\<lparr>th_ci := ci' # cis, th_base := ci_base ci', th_savedpc := ci_savedpc ci'\<rparr> in
           bind_result (move_results (th_top L - firstResult) wanted firstResult (ci_func ci) L) (\<lambda>(res, i, L).
           bind_result (set_nils res (res + nat i) L) (\<lambda>L.
           Inr (wanted \<noteq> LUA_MULTRET, L\<lparr>th_top := res + nat i\<rparr>))))
      | _ \<Rightarrow> Inl MemoryFault)"

definition save_pc :: "thread \<Rightarrow> thread result" where
  "save_pc L = (case th_ci L of [] \<Rightarrow> Inl MemoryFault
     | ci # cis \<Rightarrow> Inr (L\<lparr>th_ci := ci\<lparr>ci_savedpc := th_savedpc L\<rparr> # cis\<rparr>))"

definition precall_lua :: "machine \<Rightarrow> Proto \<Rightarrow> nat \<Rightarrow> int \<Rightarrow> thread \<Rightarrow> (precall_result \<times> thread) result" where
  "precall_lua M p func nresults L =
     (let L = luaD_checkstack (unat (pt_maxstacksize p)) L in
      bind_result
        (if pt_is_vararg p = 0
         then Inr (func + 1, L\<lparr>th_top := min (th_top L) (func + 1 + unat (pt_numparams p))\<rparr>)
         else adjust_varargs M p (th_top L - func - 1) L) (\<lambda>(base, L).
      let top = base + unat (pt_maxstacksize p);
          ci = \<lparr>ci_base = base, ci_func = func, ci_top = top, ci_savedpc = 0, ci_nresults = nresults, ci_tailcalls = 0\<rparr> in
      bind_result (inc_ci M ci L) (\<lambda>L.
      bind_result (set_nils (th_top L) top (L\<lparr>th_base := base, th_savedpc := 0\<rparr>)) (\<lambda>L.
      Inr (PCRLUA, L\<lparr>th_top := top\<rparr>)))))"

definition precall_c :: "machine \<Rightarrow> nat \<Rightarrow> nat \<Rightarrow> int \<Rightarrow> thread \<Rightarrow> (precall_result \<times> thread) result" where
  "precall_c M f func nresults L =
     (let L = luaD_checkstack LUA_MINSTACK L;
          ci = \<lparr>ci_base = func + 1, ci_func = func, ci_top = th_top L + LUA_MINSTACK, ci_savedpc = 0,
                ci_nresults = nresults, ci_tailcalls = 0\<rparr> in
      bind_result (inc_ci M ci L) (\<lambda>L.
      bind_result (m_cfun M f (L\<lparr>th_base := func + 1\<rparr>)) (\<lambda>(n, L).
        if n < 0 then Inr (PCRYIELD, L)
        else if int (th_top L) < n then Inl MemoryFault
        else bind_result (luaD_poscall (th_top L - nat n) L) (\<lambda>(b, L). Inr (PCRC, L)))))"

definition luaD_precall :: "machine \<Rightarrow> nat \<Rightarrow> int \<Rightarrow> thread \<Rightarrow> (precall_result \<times> thread) result" where
  "luaD_precall M func nresults L =
     bind_result (sget L func) (\<lambda>f.
     bind_result (if ttisfunction f then Inr L else tryfuncTM M func L) (\<lambda>L.
     bind_result (sget L func) (\<lambda>f. bind_result (clvalue L f) (\<lambda>cl.
     bind_result (save_pc L) (\<lambda>L.
       case cl of
         LClosure p _ _ \<Rightarrow> precall_lua M p func nresults L
       | CClosure f _ _ \<Rightarrow> precall_c M f func nresults L)))))"

subsection \<open>Calls\<close>

definition luaD_call :: "machine \<Rightarrow> execute \<Rightarrow> nat \<Rightarrow> int \<Rightarrow> thread \<Rightarrow> thread result" where
  "luaD_call M exec func nResults L =
     (let n = th_nCcalls L + 1; L = L\<lparr>th_nCcalls := n\<rparr> in
      bind_result
        (if n \<ge> LUAI_MAXCCALLS then
           (if n = LUAI_MAXCCALLS then luaG_error_at M L ''C stack overflow''
            else if n \<ge> LUAI_MAXCCALLS + LUAI_MAXCCALLS div 8 then Inl (RunError ''error in error handling'')
            else Inr L)
         else Inr L) (\<lambda>L.
      bind_result (luaD_precall M func nResults L) (\<lambda>(r, L).
      bind_result (if r = PCRLUA then exec L 1 else Inr L) (\<lambda>L.
      Inr (m_checkGC M (L\<lparr>th_nCcalls := th_nCcalls L - 1\<rparr>))))))"

text \<open>
  The call of a tag method: function and arguments are pushed on the top, the results taken from
  there.
\<close>

definition call_value :: "machine \<Rightarrow> execute \<Rightarrow> TValue \<Rightarrow> TValue list \<Rightarrow> nat \<Rightarrow> thread \<Rightarrow> (TValue list \<times> thread) result" where
  "call_value M exec f args n L =
     bind_result (sset_list (th_top L) (f # args) L) (\<lambda>L.
     let k = 1 + length args; L = luaD_checkstack k L; func = th_top L in
     bind_result (luaD_call M exec func (int n) (L\<lparr>th_top := func + k\<rparr>)) (\<lambda>L.
       if th_top L < n then Inl MemoryFault
       else let top = th_top L - n in
         Inr (take n (drop top (th_stack L)), L\<lparr>th_top := top\<rparr>)))"

end
