(* ===== verification/Lvm.thy ===== *)
theory Lvm
  imports Ldo
begin

text \<open>
  The main loop of the virtual machine, \<open>luaV_execute\<close> of lvm.c: \<open>vm_step\<close> is one turn of the
  loop, \<open>luaV_execute\<close> runs it for a given number of turns and nested calls. Hooks are not set,
  so that \<open>traceexec\<close> is never called. A value of the wrong type where the code reads a field of
  the union without a test is a \<open>MemoryFault\<close>, and so is the use of a null string constant.
\<close>

datatype vm_outcome = Next thread nat | Done thread

definition next_instr :: "nat \<Rightarrow> thread result \<Rightarrow> vm_outcome result" where
  "next_instr nexec r = bind_result r (\<lambda>L. Inr (Next L nexec))"

subsection \<open>Operands\<close>

definition konst_value :: "Proto \<Rightarrow> int \<Rightarrow> TValue result" where
  "konst_value p i = bind_result (nth_result (pt_k p) i) (\<lambda>k. case k of KVal v \<Rightarrow> Inr v | KNullStr \<Rightarrow> Inl MemoryFault)"

definition reg_at :: "thread \<Rightarrow> int \<Rightarrow> nat" where
  "reg_at L r = th_base L + nat r"

definition reg_operand :: "thread \<Rightarrow> int \<Rightarrow> operand result" where
  "reg_operand L r = bind_result (sget L (reg_at L r)) (\<lambda>v. Inr (v, reg_of L (reg_at L r)))"

text \<open>\<open>RKB\<close> and \<open>RKC\<close>: a register or a constant.\<close>

definition rk_operand :: "thread \<Rightarrow> Proto \<Rightarrow> int \<Rightarrow> operand result" where
  "rk_operand L p x =
     (if ISK x then bind_result (konst_value p (INDEXK x)) (\<lambda>v. Inr (v, None)) else reg_operand L x)"

definition rk_value :: "thread \<Rightarrow> Proto \<Rightarrow> int \<Rightarrow> TValue result" where
  "rk_value L p x = bind_result (rk_operand L p x) (\<lambda>x. Inr (fst x))"

definition stack_slice :: "thread \<Rightarrow> nat \<Rightarrow> nat \<Rightarrow> TValue list result" where
  "stack_slice L i j =
     (if j \<le> length (th_stack L) then Inr (take (j - i) (drop i (th_stack L))) else Inl MemoryFault)"

definition nvalue :: "TValue \<Rightarrow> lua_Number result" where
  "nvalue v = (case v of TNumber n \<Rightarrow> Inr n | _ \<Rightarrow> Inl MemoryFault)"

subsection \<open>Jumps\<close>

definition dojump :: "int \<Rightarrow> thread \<Rightarrow> thread result" where
  "dojump d L =
     (let pc = int (th_savedpc L) + d in if pc < 0 then Inl MemoryFault else Inr (L\<lparr>th_savedpc := nat pc\<rparr>))"

definition skip_instr :: "thread \<Rightarrow> thread" where
  "skip_instr L = L\<lparr>th_savedpc := th_savedpc L + 1\<rparr>"

text \<open>\<open>if (cond) dojump(L, pc, GETARG_sBx(*pc)); pc++\<close>.\<close>

definition cond_jump :: "Proto \<Rightarrow> bool \<Rightarrow> thread \<Rightarrow> thread result" where
  "cond_jump p cond L =
     (if cond
      then bind_result (nth_result (pt_code p) (int (th_savedpc L))) (\<lambda>j.
        bind_result (dojump (GETARG_sBx j) L) (\<lambda>L. Inr (skip_instr L)))
      else Inr (skip_instr L))"

text \<open>A C truth value compared with an argument of the instruction.\<close>

definition truth_is :: "bool \<Rightarrow> int \<Rightarrow> bool" where
  "truth_is b x \<longleftrightarrow> of_bool b = x"

subsection \<open>Moves, upvalues and globals\<close>

definition op_loadnil :: "nat \<Rightarrow> nat \<Rightarrow> thread \<Rightarrow> thread result" where
  "op_loadnil ra rb L = (if rb < ra then sset rb TNil L else set_nils ra (rb + 1) L)"

definition upval_of :: "addr option list \<Rightarrow> int \<Rightarrow> addr result" where
  "upval_of ups b = bind_result (nth_result ups b) (\<lambda>u. case u of Some u \<Rightarrow> Inr u | None \<Rightarrow> Inl MemoryFault)"

definition op_setupval :: "machine \<Rightarrow> addr \<Rightarrow> TValue \<Rightarrow> thread \<Rightarrow> thread result" where
  "op_setupval M u v L =
     bind_result (set_upval u v L) (\<lambda>L.
       Inr (if valiswhite (l_gc L) v \<and> isblack (l_gc L) (GCAddr u) then m_barrierf M u v L else L))"

text \<open>Store the value a table access or operation gave in a register.\<close>

definition to_reg :: "nat \<Rightarrow> (TValue \<times> thread) result \<Rightarrow> thread result" where
  "to_reg ra r = bind_result r (\<lambda>(v, L). sset ra v L)"

definition op_newtable :: "machine \<Rightarrow> nat \<Rightarrow> int \<Rightarrow> int \<Rightarrow> thread \<Rightarrow> thread result" where
  "op_newtable M ra b c L =
     (let (new, L) = m_alloc M L in
      bind_result (luaH_new new (unat (luaO_fb2int (word_of_int b))) (unat (luaO_fb2int (word_of_int c)))) (\<lambda>t.
      bind_result (sset ra (TTable new) (set_table_at new t L)) (\<lambda>L. Inr (m_checkGC M L))))"

definition op_self :: "thread host \<Rightarrow> Proto \<Rightarrow> nat \<Rightarrow> int \<Rightarrow> int \<Rightarrow> thread \<Rightarrow> thread result" where
  "op_self H p ra b c L =
     bind_result (reg_operand L b) (\<lambda>rb.
     bind_result (sset (ra + 1) (fst rb) L) (\<lambda>L.
     bind_result (rk_value L p c) (\<lambda>key. to_reg ra (luaV_gettable H L rb key))))"

subsection \<open>Arithmetic, length and concatenation\<close>

definition arith_op :: "thread host \<Rightarrow> TMS \<Rightarrow> Proto \<Rightarrow> nat \<Rightarrow> int \<Rightarrow> int \<Rightarrow> thread \<Rightarrow> thread result" where
  "arith_op H tm p ra b c L =
     bind_result (rk_operand L p b) (\<lambda>rb. bind_result (rk_operand L p c) (\<lambda>rc.
       case (fst rb, fst rc) of
         (TNumber nb, TNumber nc) \<Rightarrow> (case arith_number (h_clib H) tm nb nc of
             Some n \<Rightarrow> sset ra (TNumber n) L | None \<Rightarrow> Inl MemoryFault)
       | _ \<Rightarrow> to_reg ra (Arith H L rb rc tm)))"

definition op_unm :: "thread host \<Rightarrow> nat \<Rightarrow> int \<Rightarrow> thread \<Rightarrow> thread result" where
  "op_unm H ra b L =
     bind_result (reg_operand L b) (\<lambda>rb. case fst rb of
       TNumber nb \<Rightarrow> sset ra (TNumber (luai_numunm nb)) L
     | _ \<Rightarrow> to_reg ra (Arith H L rb rb TM_UNM))"

definition op_len :: "thread host \<Rightarrow> nat \<Rightarrow> int \<Rightarrow> thread \<Rightarrow> thread result" where
  "op_len H ra b L =
     bind_result (reg_operand L b) (\<lambda>rb. case fst rb of
       TTable t \<Rightarrow> bind_result (table_at L t) (\<lambda>h. bind_result (luaH_getn h) (\<lambda>n.
         sset ra (TNumber (cast_num (int n))) L))
     | TStr s \<Rightarrow> sset ra (TNumber (integer2number (int (length s)))) L
     | v \<Rightarrow> bind_result (call_binTM H L v TNil TM_LEN) (\<lambda>(r, L). case r of
         Some r \<Rightarrow> sset ra r L
       | None \<Rightarrow> luaG_typeerror H L rb ''get length of''))"

definition op_concat :: "machine \<Rightarrow> thread host \<Rightarrow> nat \<Rightarrow> int \<Rightarrow> int \<Rightarrow> thread \<Rightarrow> thread result" where
  "op_concat M H ra b c L =
     bind_result (stack_slice L (reg_at L b) (reg_at L c + 1)) (\<lambda>vs.
     bind_result (luaV_concat H L (nat b) (nat (c - b + 1)) (nat (c - b)) vs) (\<lambda>(vs, L).
     bind_result (sset_list (reg_at L b) vs L) (\<lambda>L.
     let L = m_checkGC M L in
     bind_result (sget L (reg_at L b)) (\<lambda>v. sset ra v L))))"

subsection \<open>Comparisons\<close>

definition op_compare :: "(thread host \<Rightarrow> thread \<Rightarrow> TValue \<Rightarrow> TValue \<Rightarrow> (bool \<times> thread) result) \<Rightarrow>
    thread host \<Rightarrow> Proto \<Rightarrow> int \<Rightarrow> int \<Rightarrow> int \<Rightarrow> thread \<Rightarrow> thread result" where
  "op_compare cmp H p a b c L =
     bind_result (rk_value L p b) (\<lambda>rb. bind_result (rk_value L p c) (\<lambda>rc.
     bind_result (cmp H L rb rc) (\<lambda>(res, L). cond_jump p (truth_is res a) L)))"

definition op_testset :: "Proto \<Rightarrow> nat \<Rightarrow> int \<Rightarrow> int \<Rightarrow> thread \<Rightarrow> thread result" where
  "op_testset p ra b c L =
     bind_result (sget L (reg_at L b)) (\<lambda>rb.
       if \<not> truth_is (l_isfalse rb) c then bind_result (sset ra rb L) (cond_jump p True) else cond_jump p False L)"

subsection \<open>Calls\<close>

definition set_top :: "nat \<Rightarrow> thread \<Rightarrow> thread" where "set_top t L = L\<lparr>th_top := t\<rparr>"

definition top_to_ci :: "thread \<Rightarrow> thread result" where
  "top_to_ci L = bind_result (curr_ci L) (\<lambda>ci. Inr (set_top (ci_top ci) L))"

definition op_call :: "machine \<Rightarrow> nat \<Rightarrow> int \<Rightarrow> int \<Rightarrow> nat \<Rightarrow> thread \<Rightarrow> vm_outcome result" where
  "op_call M ra b c nexec L =
     (let nresults = c - 1; L = (if b \<noteq> 0 then set_top (ra + nat b) L else L) in
      bind_result (luaD_precall M ra nresults L) (\<lambda>(r, L). case r of
        PCRLUA \<Rightarrow> Inr (Next L (nexec + 1))
      | PCRC \<Rightarrow> next_instr nexec (if nresults \<ge> 0 then top_to_ci L else Inr L)
      | PCRYIELD \<Rightarrow> Inr (Done L)))"

text \<open>The frame just entered takes the place of the one below it.\<close>

definition replace_frame :: "thread \<Rightarrow> thread result" where
  "replace_frame L =
     (case th_ci L of
        new # ci # cis \<Rightarrow>
          bind_result (luaF_close (ci_base ci) L) (\<lambda>L.
          let func = ci_func ci; pfunc = ci_func new; base = func + (ci_base new - pfunc) in
          bind_result (stack_slice L pfunc (th_top L)) (\<lambda>vs.
          bind_result (sset_list func vs L) (\<lambda>L.
          let top = func + length vs;
              ci = ci\<lparr>ci_base := base, ci_top := top, ci_savedpc := th_savedpc L, ci_tailcalls := ci_tailcalls ci + 1\<rparr> in
          Inr (L\<lparr>th_base := base, th_top := top, th_ci := ci # cis\<rparr>))))
      | _ \<Rightarrow> Inl MemoryFault)"

definition op_tailcall :: "machine \<Rightarrow> nat \<Rightarrow> int \<Rightarrow> nat \<Rightarrow> thread \<Rightarrow> vm_outcome result" where
  "op_tailcall M ra b nexec L =
     (let L = (if b \<noteq> 0 then set_top (ra + nat b) L else L) in
      bind_result (luaD_precall M ra LUA_MULTRET L) (\<lambda>(r, L). case r of
        PCRLUA \<Rightarrow> next_instr nexec (replace_frame L)
      | PCRC \<Rightarrow> Inr (Next L nexec)
      | PCRYIELD \<Rightarrow> Inr (Done L)))"

definition op_return :: "nat \<Rightarrow> int \<Rightarrow> nat \<Rightarrow> thread \<Rightarrow> vm_outcome result" where
  "op_return ra b nexec L =
     (let L = (if b \<noteq> 0 then set_top (ra + nat b - 1) L else L) in
      bind_result (luaF_close (th_base L) L) (\<lambda>L.
      bind_result (luaD_poscall ra L) (\<lambda>(b, L).
        if nexec - 1 = 0 then Inr (Done L)
        else next_instr (nexec - 1) (if b then top_to_ci L else Inr L))))"

subsection \<open>Loops\<close>

definition op_forloop :: "nat \<Rightarrow> int \<Rightarrow> thread \<Rightarrow> thread result" where
  "op_forloop ra sbx L =
     bind_result (bind_result (sget L (ra + 2)) nvalue) (\<lambda>step.
     bind_result (bind_result (sget L ra) nvalue) (\<lambda>init.
     bind_result (bind_result (sget L (ra + 1)) nvalue) (\<lambda>limit.
     let idx = luai_numadd init step in
     if (if luai_numlt 0 step then luai_numle idx limit else luai_numle limit idx)
     then bind_result (dojump sbx L) (\<lambda>L. bind_result (sset ra (TNumber idx) L) (sset (ra + 3) (TNumber idx)))
     else Inr L)))"

text \<open>\<open>tonumber(obj, n)\<close> with \<open>n\<close> the register of the value itself, and the error if it fails.\<close>

definition for_number :: "thread host \<Rightarrow> string \<Rightarrow> nat \<Rightarrow> thread \<Rightarrow> (lua_Number \<times> thread) result" where
  "for_number H what i L =
     bind_result (sget L i) (\<lambda>v. bind_result (luaV_tonumber (h_clib H) v) (\<lambda>n. case n of
       Some n \<Rightarrow> bind_result (sset i (TNumber n) L) (\<lambda>L. Inr (n, L))
     | None \<Rightarrow> luaG_runerror H L (LUA_QL ''for'' @ what) []))"

definition op_forprep :: "thread host \<Rightarrow> nat \<Rightarrow> int \<Rightarrow> thread \<Rightarrow> thread result" where
  "op_forprep H ra sbx L =
     bind_result (for_number H '' initial value must be a number'' ra L) (\<lambda>(init, L).
     bind_result (for_number H '' limit must be a number'' (ra + 1) L) (\<lambda>(limit, L).
     bind_result (for_number H '' step must be a number'' (ra + 2) L) (\<lambda>(step, L).
     bind_result (sset ra (TNumber (luai_numsub init step)) L) (dojump sbx))))"

definition op_tforloop :: "machine \<Rightarrow> execute \<Rightarrow> Proto \<Rightarrow> nat \<Rightarrow> int \<Rightarrow> thread \<Rightarrow> thread result" where
  "op_tforloop M exec p ra c L =
     (let cb = ra + 3 in
      bind_result (stack_slice L ra (ra + 3)) (\<lambda>vs.
      bind_result (sset_list cb vs L) (\<lambda>L.
      bind_result (luaD_call M exec cb c (set_top (cb + 3) L)) (\<lambda>L.
      bind_result (top_to_ci L) (\<lambda>L.
      bind_result (sget L cb) (\<lambda>v.
        if v \<noteq> TNil then bind_result (sset (cb - 1) v L) (cond_jump p True) else cond_jump p False L))))))"

subsection \<open>Table constructors, closures and varargs\<close>


text \<open>The loop of \<open>OP_SETLIST\<close>: the values from the last to the first.\<close>

fun setlist_loop :: "addr \<Rightarrow> TValue list \<Rightarrow> int \<Rightarrow> thread \<Rightarrow> thread result" where
  "setlist_loop h [] idx L = Inr L"
| "setlist_loop h (v # vs) idx L =
     bind_result (table_at L h) (\<lambda>t. bind_result (luaH_setnum (l_gc L) t idx) (\<lambda>(g, t, s).
       setlist_loop h vs (idx - 1) (set_table_at h (set_slot t s v) (L\<lparr>l_gc := luaC_barriert g (t_self t) v\<rparr>))))"

definition op_setlist :: "Proto \<Rightarrow> nat \<Rightarrow> int \<Rightarrow> int \<Rightarrow> thread \<Rightarrow> thread result" where
  "op_setlist p ra b c L =
     (let n = (if b = 0 then int (th_top L) - int ra - 1 else b) in
      bind_result (if b = 0 then top_to_ci L else Inr L) (\<lambda>L.
      bind_result
        (if c = 0 then bind_result (nth_result (pt_code p) (int (th_savedpc L))) (\<lambda>w. Inr (sint w, skip_instr L))
         else Inr (c, L)) (\<lambda>(c, L).
      bind_result (sget L ra) (\<lambda>v. case v of
        TTable h \<Rightarrow>
          bind_result (table_at L h) (\<lambda>t.
          let las = cast_int ((c - 1) * LFIELDS_PER_FLUSH + n) in
          bind_result (if las > int (sizearray t) then luaH_resizearray (l_gc L) t (nat las) else Inr (l_gc L, t)) (\<lambda>(g, t).
          bind_result (stack_slice L (ra + 1) (ra + 1 + nat n)) (\<lambda>vs.
          setlist_loop h (rev vs) las (set_table_at h t (L\<lparr>l_gc := g\<rparr>)))))
      | _ \<Rightarrow> Inr L))))"

text \<open>The pseudo-instructions after \<open>OP_CLOSURE\<close> name the upvalues of the new closure.\<close>

fun closure_upvals :: "machine \<Rightarrow> Proto \<Rightarrow> addr option list \<Rightarrow> addr \<Rightarrow> nat \<Rightarrow> nat \<Rightarrow> thread \<Rightarrow> thread result" where
  "closure_upvals M p ups new j 0 L = Inr L"
| "closure_upvals M p ups new j (Suc n) L =
     bind_result (nth_result (pt_code p) (int (th_savedpc L))) (\<lambda>i.
     bind_result
       (if GET_OPCODE i = opnum OP_GETUPVAL
        then bind_result (nth_result ups (GETARG_B i)) (\<lambda>u. Inr (u, L))
        else bind_result (luaF_findupval (m_alloc M) L (reg_at L (GETARG_B i))) (\<lambda>(u, L). Inr (Some u, L))) (\<lambda>(u, L).
     case th_closure L new of
       Some (LClosure q e us) \<Rightarrow>
         closure_upvals M p ups new (j + 1) n
           (skip_instr (L\<lparr>th_closure := (th_closure L)(new \<mapsto> LClosure q e (us[j := u]))\<rparr>))
     | _ \<Rightarrow> Inl MemoryFault))"

definition op_closure :: "machine \<Rightarrow> Proto \<Rightarrow> addr \<Rightarrow> addr option list \<Rightarrow> nat \<Rightarrow> int \<Rightarrow> thread \<Rightarrow> thread result" where
  "op_closure M p env ups ra bx L =
     bind_result (nth_result (pt_p p) bx) (\<lambda>q.
     let nup = unat (pt_nups q); (ncl, L) = luaF_newLclosure (m_alloc M) q nup env L in
     bind_result (closure_upvals M p ups ncl 0 nup L) (\<lambda>L.
     bind_result (sset ra (TFunction ncl) L) (\<lambda>L. Inr (m_checkGC M L))))"

definition op_vararg :: "Proto \<Rightarrow> int \<Rightarrow> int \<Rightarrow> thread \<Rightarrow> thread result" where
  "op_vararg p a b L =
     bind_result (curr_ci L) (\<lambda>ci.
     let n = int (ci_base ci) - int (ci_func ci) - byte_int (pt_numparams p) - 1; ra = reg_at L a;
         (b, L) = (if b - 1 = LUA_MULTRET then (n, set_top (ra + nat n) (luaD_checkstack (nat n) L)) else (b - 1, L)) in
     bind_result (stack_slice L (ci_base ci - nat n) (ci_base ci - nat n + nat (min b n))) (\<lambda>vs.
     bind_result (sset_list ra vs L) (set_nils (ra + length vs) (ra + nat b))))"

subsection \<open>One turn of the loop\<close>

definition vm_op :: "machine \<Rightarrow> execute \<Rightarrow> Proto \<Rightarrow> addr \<Rightarrow> addr option list \<Rightarrow> OpCode \<Rightarrow> Instruction \<Rightarrow> nat \<Rightarrow> thread \<Rightarrow>
    vm_outcome result" where
  "vm_op M exec p env ups op i nexec L =
     (let a = GETARG_A i; b = GETARG_B i; c = GETARG_C i; bx = GETARG_Bx i; sbx = GETARG_sBx i;
          ra = reg_at L a; H = host_of M (call_value M exec); go = next_instr nexec in
      case op of
        OP_MOVE \<Rightarrow> go (bind_result (sget L (reg_at L b)) (\<lambda>v. sset ra v L))
      | OP_LOADK \<Rightarrow> go (bind_result (konst_value p bx) (\<lambda>v. sset ra v L))
      | OP_LOADBOOL \<Rightarrow> go (bind_result (sset ra (TBoolean (b \<noteq> 0)) L) (\<lambda>L. Inr (if c \<noteq> 0 then skip_instr L else L)))
      | OP_LOADNIL \<Rightarrow> go (op_loadnil ra (reg_at L b) L)
      | OP_GETUPVAL \<Rightarrow> go (bind_result (upval_of ups b) (\<lambda>u. bind_result (upval_value L u) (\<lambda>v. sset ra v L)))
      | OP_GETGLOBAL \<Rightarrow> go (bind_result (konst_value p bx) (\<lambda>k. to_reg ra (luaV_gettable H L (TTable env, None) k)))
      | OP_GETTABLE \<Rightarrow> go (bind_result (reg_operand L b) (\<lambda>t. bind_result (rk_value L p c) (\<lambda>k.
          to_reg ra (luaV_gettable H L t k))))
      | OP_SETGLOBAL \<Rightarrow> go (bind_result (konst_value p bx) (\<lambda>k. bind_result (sget L ra) (luaV_settable H L (TTable env, None) k)))
      | OP_SETUPVAL \<Rightarrow> go (bind_result (upval_of ups b) (\<lambda>u. bind_result (sget L ra) (\<lambda>v. op_setupval M u v L)))
      | OP_SETTABLE \<Rightarrow> go (bind_result (reg_operand L a) (\<lambda>t. bind_result (rk_value L p b) (\<lambda>k.
          bind_result (rk_value L p c) (luaV_settable H L t k))))
      | OP_NEWTABLE \<Rightarrow> go (op_newtable M ra b c L)
      | OP_SELF \<Rightarrow> go (op_self H p ra b c L)
      | OP_ADD \<Rightarrow> go (arith_op H TM_ADD p ra b c L)
      | OP_SUB \<Rightarrow> go (arith_op H TM_SUB p ra b c L)
      | OP_MUL \<Rightarrow> go (arith_op H TM_MUL p ra b c L)
      | OP_DIV \<Rightarrow> go (arith_op H TM_DIV p ra b c L)
      | OP_MOD \<Rightarrow> go (arith_op H TM_MOD p ra b c L)
      | OP_POW \<Rightarrow> go (arith_op H TM_POW p ra b c L)
      | OP_UNM \<Rightarrow> go (op_unm H ra b L)
      | OP_NOT \<Rightarrow> go (bind_result (sget L (reg_at L b)) (\<lambda>v. sset ra (TBoolean (l_isfalse v)) L))
      | OP_LEN \<Rightarrow> go (op_len H ra b L)
      | OP_CONCAT \<Rightarrow> go (op_concat M H ra b c L)
      | OP_JMP \<Rightarrow> go (dojump sbx L)
      | OP_EQ \<Rightarrow> go (op_compare equalobj H p a b c L)
      | OP_LT \<Rightarrow> go (op_compare luaV_lessthan H p a b c L)
      | OP_LE \<Rightarrow> go (op_compare lessequal H p a b c L)
      | OP_TEST \<Rightarrow> go (bind_result (sget L ra) (\<lambda>v. cond_jump p (\<not> truth_is (l_isfalse v) c) L))
      | OP_TESTSET \<Rightarrow> go (op_testset p ra b c L)
      | OP_CALL \<Rightarrow> op_call M ra b c nexec L
      | OP_TAILCALL \<Rightarrow> op_tailcall M ra b nexec L
      | OP_RETURN \<Rightarrow> op_return ra b nexec L
      | OP_FORLOOP \<Rightarrow> go (op_forloop ra sbx L)
      | OP_FORPREP \<Rightarrow> go (op_forprep H ra sbx L)
      | OP_TFORLOOP \<Rightarrow> go (op_tforloop M exec p ra c L)
      | OP_SETLIST \<Rightarrow> go (op_setlist p ra b c L)
      | OP_CLOSE \<Rightarrow> go (luaF_close ra L)
      | OP_CLOSURE \<Rightarrow> go (op_closure M p env ups ra bx L)
      | OP_VARARG \<Rightarrow> go (op_vararg p a b L))"

text \<open>A number that is no opcode falls through the \<open>switch\<close>.\<close>

definition vm_step :: "machine \<Rightarrow> execute \<Rightarrow> thread \<Rightarrow> nat \<Rightarrow> vm_outcome result" where
  "vm_step M exec L nexec =
     bind_result (curr_ci L) (\<lambda>ci. bind_result (ci_closure L ci) (\<lambda>cl. case cl of
       CClosure _ _ _ \<Rightarrow> Inl MemoryFault
     | LClosure p env ups \<Rightarrow>
         bind_result (nth_result (pt_code p) (int (th_savedpc L))) (\<lambda>i.
         let L = skip_instr L in
         case op_of_nat (GET_OPCODE i) of
           None \<Rightarrow> Inr (Next L nexec)
         | Some op \<Rightarrow> vm_op M exec p env ups op i nexec L)))"

text \<open>
  The interpreter with fuel: each turn of the loop and each nested call of \<open>luaV_execute\<close> uses one
  unit; \<open>Diverges\<close> means that it ran out.
\<close>

fun luaV_execute :: "machine \<Rightarrow> nat \<Rightarrow> execute" where
  "luaV_execute M 0 L nexec = Inl Diverges"
| "luaV_execute M (Suc fuel) L nexec =
     bind_result (vm_step M (luaV_execute M fuel) L nexec) (\<lambda>r. case r of
       Done L \<Rightarrow> Inr L
     | Next L nexec \<Rightarrow> luaV_execute M fuel L nexec)"

end
