(* ===== verification/Lfunc_spec.thy ===== *)
theory Lfunc_spec
  imports Lfunc
begin

text \<open>
  Correctness of the open upvalues of lfunc.c: the list holds the open upvalues, each once, in
  the order of their stack slots from the top down; a search shares the upvalue of a slot, and
  closing moves the values without changing what any upvalue reads.
\<close>

subsection \<open>The invariant of the open list\<close>

definition open_at :: "thread \<Rightarrow> addr list \<Rightarrow> nat list \<Rightarrow> bool" where
  "open_at L us levels \<longleftrightarrow>
     list_all2 (\<lambda>u i. th_upval L u = Some (Open i)) us levels \<and> sorted_wrt (>) levels \<and>
     (\<forall>i \<in> set levels. i < length (th_stack L))"

definition upvals_ok :: "thread \<Rightarrow> bool" where
  "upvals_ok L \<longleftrightarrow> (\<exists>levels. open_at L (th_openupval L) levels) \<and>
     (\<forall>u i. th_upval L u = Some (Open i) \<longrightarrow> u \<in> set (th_openupval L))"

lemma open_at_Cons:
  "open_at L (u # us) levels \<longleftrightarrow>
     (\<exists>i is. levels = i # is \<and> th_upval L u = Some (Open i) \<and> i < length (th_stack L) \<and> (\<forall>j \<in> set is. j < i) \<and> open_at L us is)"
  by (cases levels) (auto simp: open_at_def)

lemma open_at_Nil [simp]: "open_at L [] levels \<longleftrightarrow> levels = []"
  by (auto simp: open_at_def)

lemma open_level_Open: "th_upval L u = Some (Open i) \<Longrightarrow> open_level L u = Inr i"
  by (simp add: open_level_def upval_at_def)

lemma open_at_level:
  "open_at L us levels \<Longrightarrow> u \<in> set us \<Longrightarrow> \<exists>i \<in> set levels. th_upval L u = Some (Open i)"
  by (induction us arbitrary: levels) (force simp: open_at_Cons)+

lemma open_at_unique:
  "open_at L us levels \<Longrightarrow> u \<in> set us \<Longrightarrow> v \<in> set us \<Longrightarrow> th_upval L u = Some (Open i) \<Longrightarrow> th_upval L v = Some (Open i) \<Longrightarrow> u = v"
proof (induction us arbitrary: levels)
  case (Cons w us)
  then obtain j js where j: "th_upval L w = Some (Open j)" "\<forall>k \<in> set js. k < j" "open_at L us js"
    by (auto simp: open_at_Cons)
  have "x \<in> set us \<Longrightarrow> th_upval L x = Some (Open j) \<Longrightarrow> False" for x
    using open_at_level [OF j(3), of x] j(2) by auto
  with Cons j show ?case by (metis UpVal.inject(1) option.inject set_ConsD)
qed simp

lemma open_at_cong:
  "open_at L us levels \<Longrightarrow> (\<And>u. u \<in> set us \<Longrightarrow> th_upval L' u = th_upval L u) \<Longrightarrow> th_stack L' = th_stack L \<Longrightarrow> open_at L' us levels"
  by (induction us arbitrary: levels) (auto simp: open_at_Cons)

lemma open_at_distinct: "open_at L us levels \<Longrightarrow> distinct us"
proof (induction us arbitrary: levels)
  case (Cons w us)
  then show ?case using open_at_level [of L us _ w] by (fastforce simp: open_at_Cons)
qed simp

subsection \<open>Searching\<close>

lemma find_open_spec:
  assumes "open_at L us levels"
  shows "(\<exists>u. find_open L level us n = Inr (Inl u) \<and> u \<in> set us \<and> th_upval L u = Some (Open level)) \<or>
    (\<exists>k. find_open L level us n = Inr (Inr (n + k)) \<and> k \<le> length us \<and>
       (\<forall>i \<in> set (take k levels). level < i) \<and> (\<forall>i \<in> set (drop k levels). i < level))"
  using assms
proof (induction us arbitrary: levels n)
  case (Cons u us)
  then obtain i "is" where i: "levels = i # is" "th_upval L u = Some (Open i)" "\<forall>j \<in> set is. j < i" "open_at L us is"
    by (auto simp: open_at_Cons)
  note o = open_level_Open [OF i(2)]
  consider "i = level" | "i < level" | "level < i" by linarith
  then show ?case
  proof cases
    case 1
    with o i show ?thesis by auto
  next
    case 2
    with o i show ?thesis by (intro disjI2 exI [of _ 0]) auto
  next
    case 3
    then have eq: "find_open L level (u # us) n = find_open L level us (n + 1)" using o by simp
    from Cons.IH [OF i(4), of "n + 1"] show ?thesis
    proof
      assume "\<exists>k. find_open L level us (n + 1) = Inr (Inr (n + 1 + k)) \<and> k \<le> length us \<and>
        (\<forall>i \<in> set (take k is). level < i) \<and> (\<forall>i \<in> set (drop k is). i < level)"
      then obtain k where "find_open L level us (n + 1) = Inr (Inr (n + 1 + k))" "k \<le> length us"
        "\<forall>i \<in> set (take k is). level < i" "\<forall>i \<in> set (drop k is). i < level" by blast
      with 3 i eq show ?thesis by (intro disjI2 exI [of _ "Suc k"]) auto
    qed (use eq in auto)
  qed
qed simp

text \<open>What is asked of the allocator: a new address, and nothing of the upvalues changes.\<close>

definition fresh_alloc :: "(thread \<Rightarrow> addr \<times> thread) \<Rightarrow> thread \<Rightarrow> bool" where
  "fresh_alloc alloc L \<longleftrightarrow>
     (case alloc L of (new, L') \<Rightarrow> th_upval L new = None \<and> th_upval L' = th_upval L \<and>
        th_openupval L' = th_openupval L \<and> th_stack L' = th_stack L)"

lemma list_all2_insert:
  assumes "list_all2 P (take k xs) (take k ys)" "P x y" "list_all2 P (drop k xs) (drop k ys)"
  shows "list_all2 P (take k xs @ x # drop k xs) (take k ys @ y # drop k ys)"
  using assms by (simp add: list_all2_appendI)

lemma findupval_correct:
  assumes ok: "upvals_ok L" and level: "level < length (th_stack L)" and fresh: "fresh_alloc alloc L"
  shows "\<exists>u L'. luaF_findupval alloc L level = Inr (u, L') \<and> upvals_ok L' \<and> th_stack L' = th_stack L \<and>
    (\<forall>v. th_upval L' v = Some (Open level) \<longleftrightarrow> v = u) \<and>
    (\<forall>v. th_upval L v \<noteq> None \<longrightarrow> th_upval L' v = th_upval L v)"
proof -
  let ?us = "th_openupval L"
  obtain levels where at: "open_at L ?us levels" and all: "\<And>u i. th_upval L u = Some (Open i) \<Longrightarrow> u \<in> set ?us"
    using ok by (auto simp: upvals_ok_def)
  from find_open_spec [OF at, of level 0] show ?thesis
  proof
    assume "\<exists>u. find_open L level ?us 0 = Inr (Inl u) \<and> u \<in> set ?us \<and> th_upval L u = Some (Open level)"
    then obtain u where u: "find_open L level ?us 0 = Inr (Inl u)" "u \<in> set ?us" "th_upval L u = Some (Open level)" by blast
    have "luaF_findupval alloc L level = Inr (u, L)" by (simp add: luaF_findupval_def u)
    with ok u open_at_unique [OF at _ u(2) _ u(3)] all show ?thesis by blast
  next
    assume "\<exists>k. find_open L level ?us 0 = Inr (Inr (0 + k)) \<and> k \<le> length ?us \<and>
       (\<forall>i \<in> set (take k levels). level < i) \<and> (\<forall>i \<in> set (drop k levels). i < level)"
    then obtain k where k: "find_open L level ?us 0 = Inr (Inr k)" "k \<le> length ?us"
       "\<forall>i \<in> set (take k levels). level < i" "\<forall>i \<in> set (drop k levels). i < level" by auto
    obtain new L0 where a: "alloc L = (new, L0)" by (cases "alloc L")
    with fresh have new: "th_upval L new = None" "th_upval L0 = th_upval L" "th_openupval L0 = ?us" "th_stack L0 = th_stack L"
      by (auto simp: fresh_alloc_def)
    define L' where "L' = L0\<lparr>th_upval := (th_upval L)(new \<mapsto> Open level), th_openupval := take k ?us @ new # drop k ?us\<rparr>"
    have eq: "luaF_findupval alloc L level = Inr (new, L')" by (simp add: luaF_findupval_def k a new L'_def)
    have notin: "new \<notin> set ?us" using open_at_level [OF at, of new] new by auto
    have l2: "list_all2 (\<lambda>u i. th_upval L' u = Some (Open i)) ?us levels"
      using at notin by (auto simp: open_at_def L'_def list_all2_conv_all_nth)
    let ?lv = "take k levels @ level # drop k levels"
    have "open_at L' (th_openupval L') ?lv"
    proof -
      have "list_all2 (\<lambda>u i. th_upval L' u = Some (Open i)) (th_openupval L') ?lv"
        using list_all2_insert [of _ k ?us levels new level] list_all2_takeI [OF l2, of k] list_all2_dropI [OF l2, of k]
        by (simp add: L'_def)
      moreover have "sorted_wrt (>) (take k levels @ drop k levels)" using at by (simp add: open_at_def)
      then have "sorted_wrt (>) ?lv" using k by (auto simp only: sorted_wrt_append sorted_wrt.simps) auto
      moreover have "\<forall>i \<in> set ?lv. i < length (th_stack L')"
        using at level by (auto simp: open_at_def L'_def new dest: in_set_takeD in_set_dropD)
      ultimately show ?thesis by (simp add: open_at_def)
    qed
    moreover have "\<forall>u i. th_upval L' u = Some (Open i) \<longrightarrow> u \<in> set (th_openupval L')"
      using all set_append [of "take k ?us" "drop k ?us"] by (auto simp: L'_def split: if_splits)
    ultimately have "upvals_ok L'" by (auto simp: upvals_ok_def)
    moreover have "th_upval L' v = Some (Open level) \<longleftrightarrow> v = new" for v
    proof
      assume v: "th_upval L' v = Some (Open level)"
      show "v = new"
      proof (rule ccontr)
        assume "v \<noteq> new"
        with v have "th_upval L v = Some (Open level)" by (simp add: L'_def)
        with open_at_level [OF at all] have "level \<in> set levels" by fastforce
        then have "level \<in> set (take k levels) \<union> set (drop k levels)" by (metis append_take_drop_id set_append)
        with k show False by auto
      qed
    qed (simp add: L'_def)
    ultimately show ?thesis using eq new by (auto simp: L'_def)
  qed
qed

subsection \<open>Closing\<close>

text \<open>What closing makes of an upvalue, given the stack.\<close>

fun closed_in :: "TValue list \<Rightarrow> UpVal option \<Rightarrow> UpVal option" where
  "closed_in vs (Some (Open i)) = Some (Closed (vs ! i))"
| "closed_in vs uv = uv"

lemma close_loop_spec:
  assumes "open_at L us levels"
  shows "\<exists>L' ls. close_loop level us L = Inr L' \<and> th_stack L' = th_stack L \<and> open_at L' (th_openupval L') ls \<and>
    set (th_openupval L') \<subseteq> set us \<and> (\<forall>i \<in> set ls. i < level) \<and>
    (\<forall>u. th_upval L' u = (if u \<in> set us \<and> u \<notin> set (th_openupval L')
       then closed_in (th_stack L) (th_upval L u) else th_upval L u))"
  using assms
proof (induction us arbitrary: L levels)
  case (Cons u us)
  then obtain i "is" where i: "levels = i # is" "th_upval L u = Some (Open i)" "i < length (th_stack L)"
      "\<forall>j \<in> set is. j < i" "open_at L us is"
    by (auto simp: open_at_Cons)
  note o = open_level_Open [OF i(2)]
  show ?case
  proof (cases "level \<le> i")
    case False
    with o Cons.prems i show ?thesis
      by (intro exI [of _ "L\<lparr>th_openupval := u # us\<rparr>"] exI [of _ levels]) (auto intro: open_at_cong)
  next
    case True
    define M where "M = L\<lparr>th_upval := (th_upval L)(u \<mapsto> Closed (th_stack L ! i))\<rparr>"
    have M: "th_stack M = th_stack L" "th_upval M = (th_upval L)(u \<mapsto> Closed (th_stack L ! i))" by (simp_all add: M_def)
    have u: "u \<notin> set us" using open_at_distinct [OF Cons.prems] by simp
    have "open_at M us is" using u by (intro open_at_cong [OF i(5)]) (auto simp: M)
    from Cons.IH [OF this] have "\<exists>L' ls. close_loop level us M = Inr L' \<and> th_stack L' = th_stack L \<and> open_at L' (th_openupval L') ls \<and>
      set (th_openupval L') \<subseteq> set us \<and> (\<forall>i \<in> set ls. i < level) \<and>
      (\<forall>v. th_upval L' v = (if v \<in> set us \<and> v \<notin> set (th_openupval L')
         then closed_in (th_stack L) (th_upval M v) else th_upval M v))" unfolding M(1) .
    then obtain L' ls where L': "close_loop level us M = Inr L'" "th_stack L' = th_stack L"
      "open_at L' (th_openupval L') ls" "set (th_openupval L') \<subseteq> set us" "\<forall>i \<in> set ls. i < level"
      "\<forall>v. th_upval L' v = (if v \<in> set us \<and> v \<notin> set (th_openupval L')
         then closed_in (th_stack L) (th_upval M v) else th_upval M v)" by blast
    have eq: "close_loop level (u # us) L = Inr L'" using o True i(3) L'(1) by (simp add: sget_def flip: M_def)
    show ?thesis
      by (rule exI [of _ L'], rule exI [of _ ls]) (use eq L' i(2) u in \<open>auto simp: M\<close>)
  qed
qed auto

lemma luaF_close_correct:
  assumes ok: "upvals_ok L"
  shows "\<exists>L'. luaF_close level L = Inr L' \<and> upvals_ok L' \<and> th_stack L' = th_stack L \<and>
    (\<forall>u. upval_value L' u = upval_value L u) \<and>
    (\<forall>u i. th_upval L' u = Some (Open i) \<longrightarrow> i < level)"
proof -
  let ?us = "th_openupval L"
  obtain levels where at: "open_at L ?us levels" and all: "\<And>u i. th_upval L u = Some (Open i) \<Longrightarrow> u \<in> set ?us"
    using ok by (auto simp: upvals_ok_def)
  obtain L' ls where L': "close_loop level ?us L = Inr L'" "th_stack L' = th_stack L"
      "open_at L' (th_openupval L') ls" "set (th_openupval L') \<subseteq> set ?us" "\<forall>i \<in> set ls. i < level"
      "\<And>u. th_upval L' u = (if u \<in> set ?us \<and> u \<notin> set (th_openupval L')
         then closed_in (th_stack L) (th_upval L u) else th_upval L u)"
    using close_loop_spec [OF at, of level] by blast
  have opened: "th_upval L' u = Some (Open i) \<Longrightarrow> u \<in> set (th_openupval L')" for u i
    using L'(6) [of u] all [of u i] open_at_level [OF at, of u] by (auto split: if_splits)
  have "upvals_ok L'" using L'(3) opened by (auto simp: upvals_ok_def)
  moreover have "upval_value L' u = upval_value L u" for u
  proof (cases "u \<in> set ?us \<and> u \<notin> set (th_openupval L')")
    case True
    then obtain i where i: "i \<in> set levels" "th_upval L u = Some (Open i)" using open_at_level [OF at] by auto
    then have "i < length (th_stack L)" using at by (simp add: open_at_def)
    with True i L'(6) [of u] show ?thesis by (simp add: upval_value_def upval_at_def sget_def)
  next
    case False
    then have "th_upval L' u = th_upval L u" using L'(6) [of u] by (simp only: if_False)
    moreover have "sget L' = sget L" by (rule ext) (simp add: sget_def L'(2))
    ultimately show ?thesis by (simp add: upval_value_def upval_at_def cong: UpVal.case_cong)
  qed
  moreover have "th_upval L' u = Some (Open i) \<Longrightarrow> i < level" for u i
    using open_at_level [OF L'(3) opened] L'(5) by fastforce
  ultimately show ?thesis using L' by (auto simp: luaF_close_def)
qed



text \<open>A thread with two open upvalues over three slots.\<close>

definition sample_thread :: thread where
  "sample_thread = \<lparr>l_heap = (\<lambda>_. None), l_mt = (\<lambda>_. None), l_udata = (\<lambda>_. None), l_registry = TNil,
     l_gc = \<lparr>marked = (\<lambda>_. 1), grayagain = []\<rparr>,
     th_stack = [TNil, TBoolean True, TStr ''x''], th_top = 3, th_base = 1,
     th_ci = [\<lparr>ci_base = 1, ci_func = 0, ci_top = 3, ci_savedpc = 0, ci_nresults = 0, ci_tailcalls = 0\<rparr>],
     th_savedpc = 0, th_size_ci = 8, th_nCcalls = 0, th_openupval = [7, 5], th_gt = TNil, th_closure = (\<lambda>_. None),
     th_upval = [5 \<mapsto> Open 1, 7 \<mapsto> Open 2]\<rparr>"


end
