(* ===== verification/Ltm_spec.thy ===== *)
theory Ltm_spec
  imports Ltm
begin

text \<open>
  Tag methods read through the cache byte: when every bit that is set tells the truth, \<open>fasttm\<close>
  gives what a raw lookup of the event name gives, and keeps the bits true.
\<close>

lemma getstr_val:
  assumes "wf_table t"
  shows "\<exists>s. luaH_getstr t key = Inr s \<and> slot_val t s = tget t (TStr key)"
  using luaH_get_val [of t "TStr key"] assms by (simp add: wf_table_def)

lemma slot_for_val:
  assumes "wf_table t" "slot_for t key p" "key \<noteq> TNil"
  shows "slot_val t p = tget t key"
proof -
  have "wf0 t" using assms(1) by (simp add: wf_table_def)
  with assms show ?thesis
    by (auto simp: slot_for_def slot_val_def tget_node [of t key] split: slot.splits) (simp add: tget_def)
qed

definition raw_tm :: "Table \<Rightarrow> TMS \<Rightarrow> TValue" where
  "raw_tm t event = tget t (TStr (tmname event))"

definition cache_ok :: "Table \<Rightarrow> bool" where
  "cache_ok t \<longleftrightarrow> (\<forall>event. tm_number event \<le> 4 \<longrightarrow> tm_absent t event \<longrightarrow> raw_tm t event = TNil)"

lemma raw_tm_flags [simp]: "raw_tm (t\<lparr>flags := f\<rparr>) event = raw_tm t event"
  by (simp add: raw_tm_def)

lemma tm_bit_values:
  "tm_bit TM_INDEX = 1" "tm_bit TM_NEWINDEX = 2" "tm_bit TM_GC = 4" "tm_bit TM_MODE = 8" "tm_bit TM_EQ = 16"
  by (simp_all add: tm_bit_def)

lemma small_events: "tm_number e \<le> 4 \<longleftrightarrow> e \<in> {TM_INDEX, TM_NEWINDEX, TM_GC, TM_MODE, TM_EQ}"
  by (cases e) auto

lemma tm_bits_apart:
  "tm_number e \<le> 4 \<Longrightarrow> tm_number e' \<le> 4 \<Longrightarrow> tm_bit e AND tm_bit e' = (if e = e' then tm_bit e else 0)"
  by (auto simp: small_events tm_bit_values)

lemma tm_absent_set:
  assumes "tm_number e \<le> 4" "tm_number e' \<le> 4"
  shows "tm_absent (t\<lparr>flags := flags t OR tm_bit e\<rparr>) e' \<longleftrightarrow> tm_absent t e' \<or> e' = e"
proof -
  have "(flags t OR tm_bit e) AND tm_bit e' = (flags t AND tm_bit e') OR (tm_bit e AND tm_bit e')"
    by (rule and.commute [THEN trans]) (simp add: bit.conj_disj_distrib and.commute)
  moreover have "tm_bit e \<noteq> 0" using assms(1) by (auto simp: small_events tm_bit_values)
  ultimately show ?thesis using tm_bits_apart [OF assms] by (auto simp: tm_absent_def)
qed

lemma gettm_spec:
  assumes "wf_table t"
  shows "luaT_gettm t e = Inr (if raw_tm t e = TNil then (None, t\<lparr>flags := flags t OR tm_bit e\<rparr>) else (Some (raw_tm t e), t))"
proof -
  obtain s where "luaH_getstr t (tmname e) = Inr s" "slot_val t s = raw_tm t e"
    using getstr_val [OF assms] by (auto simp: raw_tm_def)
  then show ?thesis by (simp add: luaT_gettm_def Let_def)
qed

text \<open>
  Claim C32. The cache of absent tag methods: on a well-formed table whose cache bits are true,
  \<open>fasttm\<close> returns the value under the name of the event (none if it is nil) exactly as the
  lookup without the cache would, changes nothing of the table but the cache, and leaves the
  cache true.
\<close>

theorem fasttm_correct:
  assumes "l_heap L p = Some t" "wf_table t" "cache_ok t" "tm_number event \<le> 4"
  shows "\<exists>f. fasttm L (Some p) event =
      Inr (if raw_tm t event = TNil then None else Some (raw_tm t event), set_table_at p (t\<lparr>flags := f\<rparr>) L) \<and>
    cache_ok (t\<lparr>flags := f\<rparr>)"
proof (cases "tm_absent t event")
  case True
  then have "raw_tm t event = TNil" using assms(3,4) by (simp add: cache_ok_def)
  moreover have "t\<lparr>flags := flags t\<rparr> = t" "set_table_at p t L = L" using assms(1) by (simp_all add: set_table_at_def fun_upd_idem)
  ultimately show ?thesis using True assms by (intro exI [of _ "flags t"]) (simp add: fasttm_def table_at_def)
next
  case False
  show ?thesis
  proof (cases "raw_tm t event = TNil")
    case True
    have "cache_ok (t\<lparr>flags := flags t OR tm_bit event\<rparr>)"
      using assms(3,4) True by (auto simp: cache_ok_def tm_absent_set)
    then show ?thesis using False True assms gettm_spec [OF assms(2), of event]
      by (intro exI [of _ "flags t OR tm_bit event"]) (simp add: fasttm_def table_at_def)
  next
    case nil: False
    have "t\<lparr>flags := flags t\<rparr> = t" by simp
    then show ?thesis using False nil assms gettm_spec [OF assms(2), of event]
      by (intro exI [of _ "flags t"]) (simp add: fasttm_def table_at_def)
  qed
qed

definition sample_global :: "unit global_State_scheme" where
  "sample_global = \<lparr>l_heap = [1 \<mapsto> sample_table], l_mt = (\<lambda>_. None), l_udata = (\<lambda>_. None), l_registry = TNil,
     l_gc = \<lparr>marked = (\<lambda>_. 1), grayagain = []\<rparr>\<rparr>"

theorem fasttm_correct_witness:
  "\<exists>f. fasttm sample_global (Some 1) TM_EQ = Inr (None, set_table_at 1 (sample_table\<lparr>flags := f\<rparr>) sample_global)"
proof -
  have "raw_tm sample_table TM_EQ = TNil"
    by (simp add: raw_tm_def tget_def sample_table_def key_raw_eq_def tmname_def luaT_eventname_def)
  moreover have "cache_ok sample_table" by (simp add: cache_ok_def tm_absent_def sample_table_def)
  ultimately show ?thesis
    using fasttm_correct [of sample_global 1 sample_table TM_EQ] sample_table_wf by (auto simp: sample_global_def)
qed

end
