(* ===== verification/Lvm_spec.thy ===== *)
theory Lvm_spec
  imports Lvm Lfunc_spec Ltm_spec
begin

text \<open>
  Correctness of operations of the virtual machine: the order of strings, concatenation, the
  numeric loop, and two places where the code does not do what it means to (the stack of a
  vararg function, the cache of tag methods).
\<close>


subsection \<open>The order of strings\<close>

lemma c_str_simps [simp]:
  "c_str [] = []" "c_str (a # s) = (if a = CHR 0x00 then [] else a # c_str s)"
  by (simp_all add: c_str_def)

lemma uchar_zero: "uchar (CHR 0x00) = 0" by simp

lemma uchar_eq_iff_dest: "uchar a = uchar b \<Longrightarrow> a = b" by simp

lemma uchar_pos: "a \<noteq> CHR 0x00 \<Longrightarrow> 0 < uchar a"
  using uchar_eq_iff_dest [of a "CHR 0x00"] by (metis gr0I uchar_zero)

lemma l_strcmp_Cons:
  "l_strcmp [] [] = 0" "l_strcmp [] (b # r) = - 1" "l_strcmp (a # l) [] = 1"
  "l_strcmp (a # l) (b # r) = (if a = b then l_strcmp l r else if uchar a < uchar b then - 1 else 1)"
proof -
  show "l_strcmp [] [] = 0" "l_strcmp [] (b # r) = - 1" "l_strcmp (a # l) [] = 1"
    by (simp_all add: l_strcmp.simps [of "[]"] l_strcmp.simps [of "a # l" "[]"])
  show "l_strcmp (a # l) (b # r) = (if a = b then l_strcmp l r else if uchar a < uchar b then - 1 else 1)"
  proof (cases "a = b")
    case True
    show ?thesis
    proof (cases "a = CHR 0x00")
      case True
      have "l_strcmp (CHR 0x00 # l) (CHR 0x00 # r) = l_strcmp l r" by (subst l_strcmp.simps) simp
      with True \<open>a = b\<close> show ?thesis by simp
    next
      case False
      then have "l_strcmp (a # l) (a # r) = l_strcmp l r"
        by (subst l_strcmp.simps, subst l_strcmp.simps [of l]) (simp add: Let_def)
      with \<open>a = b\<close> show ?thesis by simp
    qed
  next
    case False
    with uchar_pos [of a] uchar_pos [of b] show ?thesis by (auto simp: l_strcmp.simps [of "a # l"])
  qed
qed

lemma l_strcmp_lexord:
  "(l_strcmp l r < 0 \<longleftrightarrow> ord_class.lexordp (map uchar l) (map uchar r)) \<and> (l_strcmp l r = 0 \<longleftrightarrow> l = r)"
proof (induction l arbitrary: r)
  case Nil
  then show ?case by (cases r) (simp_all add: l_strcmp_Cons)
next
  case (Cons a l)
  then show ?case by (cases r) (auto simp: l_strcmp_Cons)
qed


subsection \<open>Concatenation\<close>

definition tostr :: "clib \<Rightarrow> TValue \<Rightarrow> string" where
  "tostr C v = (case v of TStr s \<Rightarrow> s | TNumber n \<Rightarrow> c_number2str C n | _ \<Rightarrow> [])"

lemma tostring_tostr:
  assumes "is_string_or_number (vs ! i)" "i < length vs"
  shows "\<exists>vs'. tostring C vs i = Some (tostr C (vs ! i), vs') \<and> length vs' = length vs \<and>
    (\<forall>j. j \<noteq> i \<longrightarrow> vs' ! j = vs ! j) \<and> vs' ! i = TStr (tostr C (vs ! i))"
  using assms by (cases "vs ! i") (auto simp: tostring_def tostr_def is_string_or_number_def)

lemma take_Suc_map_concat: "i < length vs \<Longrightarrow> concat (map f (take (Suc i) vs)) = concat (map f (take i vs)) @ f (vs ! i)"
  by (simp add: take_Suc_conv_app_nth)

text \<open>The collecting loop takes every operand when all are strings or numbers.\<close>

lemma collect_all:
  assumes "\<forall>j < i. is_string_or_number (vs ! j)" "i \<le> length vs" "n + i = tot"
    "tlen + length (concat (map (tostr (h_clib H)) (take i vs))) < MAX_SIZET"
  shows "\<exists>vs'. concat_collect H L tot vs i n tlen acc = Inr (tot, map (tostr (h_clib H)) (take i vs) @ acc, vs') \<and>
    length vs' = length vs"
  using assms
proof (induction i arbitrary: vs n tlen acc)
  case (Suc i)
  obtain vs1 where vs1: "tostring (h_clib H) vs i = Some (tostr (h_clib H) (vs ! i), vs1)" "length vs1 = length vs"
      "\<forall>j. j \<noteq> i \<longrightarrow> vs1 ! j = vs ! j"
    using tostring_tostr [of vs i "h_clib H"] Suc.prems by auto
  have same: "take i vs1 = take i vs" using vs1 by (intro nth_equalityI) auto
  have len: "length (concat (map (tostr (h_clib H)) (take (Suc i) vs))) =
      length (concat (map (tostr (h_clib H)) (take i vs))) + length (tostr (h_clib H) (vs ! i))"
    using take_Suc_map_concat [of i vs "tostr (h_clib H)"] Suc.prems by simp
  have "\<exists>vs'. concat_collect H L tot vs1 i (n + 1) (tlen + length (tostr (h_clib H) (vs ! i))) (tostr (h_clib H) (vs ! i) # acc) =
      Inr (tot, map (tostr (h_clib H)) (take i vs1) @ tostr (h_clib H) (vs ! i) # acc, vs') \<and> length vs' = length vs1"
    using Suc.prems vs1 len by (intro Suc.IH) (auto simp: same)
  moreover have "\<not> length (tostr (h_clib H) (vs ! i)) \<ge> MAX_SIZET - tlen" using Suc.prems(4) len by linarith
  ultimately show ?case using vs1(1,2) Suc.prems by (simp add: same take_Suc_conv_app_nth)
qed simp

text \<open>
  Claim C34. Concatenating strings and numbers: \<open>luaV_concat\<close> leaves the concatenation of
  all operands, numbers in their decimal form, in the first slot, in however many passes empty
  operands make of it; the loop ends and only an overflow of the length could stop it.
\<close>

theorem concat_correct:
  assumes "2 \<le> length vs" "\<forall>v \<in> set vs. is_string_or_number v"
    "length (concat (map (tostr (h_clib H)) vs)) < MAX_SIZET"
  shows "\<exists>vs'. luaV_concat H L reg (length vs) (length vs - 1) vs = Inr (vs', L) \<and> length vs' = length vs \<and>
    vs' ! 0 = TStr (concat (map (tostr (h_clib H)) vs))"
proof -
  let ?f = "tostr (h_clib H)"
  have *: "\<exists>vs'. luaV_concat H L reg (la + 1) la vs = Inr (vs', L) \<and> length vs' = length vs \<and>
      vs' ! 0 = TStr (concat (map ?f (take (la + 1) vs)))"
    if "1 \<le> la" "la < length vs" "\<forall>j \<le> la. is_string_or_number (vs ! j)"
      "length (concat (map ?f (take (la + 1) vs))) < MAX_SIZET" for la vs
    using that
  proof (induction la arbitrary: vs)
    case (Suc k)
    let ?s = "?f (vs ! Suc k)"
    obtain vs1 where vs1: "tostring (h_clib H) vs (Suc k) = Some (?s, vs1)" "length vs1 = length vs"
        "\<forall>j. j \<noteq> Suc k \<longrightarrow> vs1 ! j = vs ! j"
      using tostring_tostr [of vs "Suc k" "h_clib H"] Suc.prems by auto
    have same: "take (Suc k) vs1 = take (Suc k) vs" using vs1 by (intro nth_equalityI) auto
    have all: "concat (map ?f (take (Suc k + 1) vs)) = concat (map ?f (take (Suc k) vs)) @ ?s"
      using take_Suc_map_concat [of "Suc k" vs ?f] Suc.prems by simp
    have str: "is_string_or_number (vs ! k)" "is_string_or_number (vs1 ! k)" using Suc.prems vs1 by auto
    show ?case
    proof (cases "?s = []")
      case True
      obtain vs2 where vs2: "tostring (h_clib H) vs1 k = Some (?f (vs1 ! k), vs2)" "length vs2 = length vs1"
          "\<forall>j. j \<noteq> k \<longrightarrow> vs2 ! j = vs1 ! j" "vs2 ! k = TStr (?f (vs1 ! k))"
        using tostring_tostr [of vs1 k "h_clib H"] str Suc.prems vs1 by auto
      have pass: "concat_pass H L reg (Suc k + 1) (Suc k) vs = Inr (2, vs2, L)"
        using Suc.prems vs1(1) vs2(1) str True by (simp add: concat_pass_def)
      have same2: "map ?f (take (Suc k) vs2) = map ?f (take (Suc k) vs)"
        using vs1 vs2 Suc.prems by (intro nth_equalityI) (auto simp: tostr_def nth_append less_Suc_eq)
      have eq: "luaV_concat H L reg (Suc k + 1) (Suc k) vs = (if 1 < Suc k then luaV_concat H L reg (Suc k) k vs2 else Inr (vs2, L))"
        by (subst luaV_concat.simps, unfold pass bind_result_simps prod.case) simp
      show ?thesis
      proof (cases "k = 0")
        case True
        have "take (Suc 0) vs = [vs ! 0]" using Suc.prems by (cases vs) auto
        with True eq vs1 vs2 all \<open>?s = []\<close> Suc.prems show ?thesis by simp
      next
        case False
        have "\<forall>j \<le> k. is_string_or_number (vs2 ! j)"
          using Suc.prems(3) vs1(3) vs2(3,4) by (metis Suc_leD is_string_or_number_def le_Suc_eq n_not_Suc_n not_less_eq_eq ttype.simps(5))
        then have "\<exists>vs'. luaV_concat H L reg (k + 1) k vs2 = Inr (vs', L) \<and> length vs' = length vs2 \<and>
            vs' ! 0 = TStr (concat (map ?f (take (k + 1) vs2)))"
          using Suc.prems False vs1(2) vs2(2) all \<open>?s = []\<close> by (intro Suc.IH) (auto simp: same2)
        with False eq vs1 vs2 all \<open>?s = []\<close> show ?thesis by (simp add: same2)
      qed
    next
      case False
      have "\<exists>vs'. concat_collect H L (Suc k + 1) vs1 (Suc k) 1 (length ?s) [?s] =
          Inr (Suc k + 1, map ?f (take (Suc k) vs1) @ [?s], vs') \<and> length vs' = length vs1"
        using Suc.prems vs1 all by (intro collect_all) (auto simp: same)
      then obtain vs2 where vs2: "concat_collect H L (Suc k + 1) vs1 (Suc k) 1 (length ?s) [?s] =
          Inr (Suc k + 1, map ?f (take (Suc k) vs) @ [?s], vs2)" "length vs2 = length vs" using same vs1(2) by auto
      have "concat_pass H L reg (Suc k + 1) (Suc k) vs = Inr (Suc k + 1, vs2[0 := TStr (concat (map ?f (take (Suc k) vs) @ [?s]))], L)"
        using Suc.prems vs1(1) vs2(1) str False by (simp add: concat_pass_def)
      then have "luaV_concat H L reg (Suc k + 1) (Suc k) vs = Inr (vs2[0 := TStr (concat (map ?f (take (Suc k) vs) @ [?s]))], L)"
        by (subst luaV_concat.simps) simp
      with vs2(2) Suc.prems all show ?thesis by (cases vs2) auto
    qed
  qed simp
  obtain la where "length vs = Suc la" "1 \<le> la" using assms(1) by (cases "length vs") auto
  with * [of la vs] assms show ?thesis by (simp add: nth_mem)
qed

theorem concat_correct_witness:
  "\<forall>H L. \<exists>vs'. luaV_concat H L 0 3 2 [TStr ''a'', TStr ''b'', TStr ''''] = Inr (vs', L) \<and> vs' ! 0 = TStr ''ab''"
proof (intro allI)
  fix H L
  have "\<exists>vs'. luaV_concat H L 0 (length [TStr ''a'', TStr ''b'', TStr '''']) (length [TStr ''a'', TStr ''b'', TStr ''''] - 1)
      [TStr ''a'', TStr ''b'', TStr ''''] = Inr (vs', L) \<and> length vs' = length [TStr ''a'', TStr ''b'', TStr ''''] \<and>
      vs' ! 0 = TStr (concat (map (tostr (h_clib H)) [TStr ''a'', TStr ''b'', TStr '''']))"
    by (rule concat_correct) (simp_all add: is_string_or_number_def tostr_def MAX_SIZET_def)
  then show "\<exists>vs'. luaV_concat H L 0 3 2 [TStr ''a'', TStr ''b'', TStr ''''] = Inr (vs', L) \<and> vs' ! 0 = TStr ''ab''"
    by (auto simp: tostr_def numeral_2_eq_2 numeral_3_eq_3)
qed

subsection \<open>The numeric for loop\<close>

definition for_regs :: "thread \<Rightarrow> nat \<Rightarrow> int \<Rightarrow> int \<Rightarrow> int \<Rightarrow> bool" where
  "for_regs L ra idx limit step \<longleftrightarrow> ra + 3 < length (th_stack L) \<and>
     th_stack L ! ra = TNumber (cast_num idx) \<and> th_stack L ! (ra + 1) = TNumber (cast_num limit) \<and>
     th_stack L ! (ra + 2) = TNumber (cast_num step)"

text \<open>
  The values of the loop variable over a whole loop: \<open>FORLOOP\<close> at \<open>savedpc - 1\<close> jumps back, the
  body runs from there with the variable in \<open>ra + 3\<close> and comes back to the instruction.
\<close>

fun for_visits :: "nat \<Rightarrow> (thread \<Rightarrow> thread) \<Rightarrow> nat \<Rightarrow> int \<Rightarrow> thread \<Rightarrow> (TValue list \<times> thread) result" where
  "for_visits 0 body ra sbx L = Inl Diverges"
| "for_visits (Suc n) body ra sbx L =
     bind_result (op_forloop ra sbx L) (\<lambda>L'.
       if th_savedpc L' = th_savedpc L then Inr ([], L')
       else bind_result (sget L' (ra + 3)) (\<lambda>v.
         bind_result (for_visits n body ra sbx ((body L')\<lparr>th_savedpc := th_savedpc L\<rparr>)) (\<lambda>(vs, L). Inr (v # vs, L))))"

lemma forloop_step:
  assumes "for_regs L ra idx limit step" "\<bar>idx\<bar> < 2 ^ 52" "\<bar>limit\<bar> < 2 ^ 51" "\<bar>step\<bar> < 2 ^ 51" "0 \<le> int (th_savedpc L) + sbx"
  shows "op_forloop ra sbx L =
    (if (if 0 < step then idx + step \<le> limit else limit \<le> idx + step)
     then Inr (L\<lparr>th_savedpc := nat (int (th_savedpc L) + sbx),
                th_stack := (th_stack L)[ra := TNumber (cast_num (idx + step)), ra + 3 := TNumber (cast_num (idx + step))]\<rparr>)
     else Inr L)"
proof -
  have b: "\<bar>idx\<bar> < 2 ^ 53" "\<bar>limit\<bar> < 2 ^ 53" "\<bar>step\<bar> < 2 ^ 53" "\<bar>idx + step\<bar> < 2 ^ 53" using assms(2-4) by auto
  have r: "sget L (ra + 2) = Inr (TNumber (cast_num step))" "sget L ra = Inr (TNumber (cast_num idx))"
      "sget L (ra + 1) = Inr (TNumber (cast_num limit))"
    using assms(1) by (auto simp: for_regs_def sget_def)
  have lt: "luai_numlt 0 (cast_num step) \<longleftrightarrow> 0 < step" using numlt_int [of 0 step] b by simp
  note n = numadd_int [OF b(1,3,4)] numle_int [OF b(4,2)] numle_int [OF b(2,4)] lt
  show ?thesis
    unfolding op_forloop_def r bind_result_simps nvalue_def TValue.case Let_def n
    using assms(1,5) by (simp add: dojump_def sset_def for_regs_def)
qed

lemma for_visits_spec:
  assumes body: "\<And>L. length (th_stack (body L)) = length (th_stack L)"
      "\<And>L i. i < 3 \<Longrightarrow> th_stack (body L) ! (ra + i) = th_stack L ! (ra + i)"
    and "\<bar>limit\<bar> < 2 ^ 51" "\<bar>step\<bar> < 2 ^ 51" "step \<noteq> 0" "sbx \<noteq> 0"
    and "for_regs L ra idx limit step" "\<bar>idx\<bar> < 2 ^ 52" "0 \<le> int (th_savedpc L) + sbx"
    and "nat ((limit - (idx + step)) div step + 1) < n"
  shows "\<exists>L'. for_visits n body ra sbx L =
    Inr (map (\<lambda>k. TNumber (cast_num (idx + step + int k * step))) [0..<nat ((limit - (idx + step)) div step + 1)], L')"
  using assms(7-)
proof (induction n arbitrary: L idx)
  case (Suc n)
  let ?q = "(limit - (idx + step)) div step"
  let ?more = "if 0 < step then idx + step \<le> limit else limit \<le> idx + step"
  have q: "0 \<le> ?q \<longleftrightarrow> ?more"
    using assms(5) pos_imp_zdiv_nonneg_iff [of step "limit - (idx + step)"] neg_imp_zdiv_nonneg_iff [of step "limit - (idx + step)"]
    by auto
  note step = forloop_step [OF Suc.prems(1,2) assms(3,4) Suc.prems(3)]
  show ?case
  proof (cases ?more)
    case False
    have "op_forloop ra sbx L = Inr L" unfolding step using False by (simp only: if_False)
    moreover have "nat (?q + 1) = 0" using False q by simp
    ultimately show ?thesis by simp
  next
    case True
    define L' where "L' = L\<lparr>th_savedpc := nat (int (th_savedpc L) + sbx),
      th_stack := (th_stack L)[ra := TNumber (cast_num (idx + step)), ra + 3 := TNumber (cast_num (idx + step))]\<rparr>"
    define M where "M = (body L')\<lparr>th_savedpc := th_savedpc L\<rparr>"
    have eq: "op_forloop ra sbx L = Inr L'" unfolding step L'_def using True by (rule if_P)
    have pc: "th_savedpc L' \<noteq> th_savedpc L" using Suc.prems(3) assms(6) by (simp add: L'_def)
    have ra: "ra + 3 < length (th_stack L)" using Suc.prems(1) by (simp add: for_regs_def)
    have v: "sget L' (ra + 3) = Inr (TNumber (cast_num (idx + step)))" using ra by (simp add: L'_def sget_def)
    have regs: "for_regs M ra (idx + step) limit step"
      using Suc.prems(1) body(1) body(2) [of 0 L'] body(2) [of 1 L'] body(2) [of 2 L'] by (simp add: for_regs_def M_def L'_def)
    have bound: "\<bar>idx + step\<bar> < 2 ^ 52" using True Suc.prems(2) assms(3,4,5) by (auto split: if_splits)
    have div: "(limit - (idx + step + step)) div step = ?q - 1"
      using div_add_self2 [OF assms(5), of "limit - (idx + step + step)"] by (simp add: algebra_simps)
    have "0 \<le> ?q" using True q by (rule iffD2 [rotated])
    then have c: "nat (?q + 1) = Suc (nat (?q - 1 + 1))" by (simp add: nat_add_distrib)
    have "\<exists>L''. for_visits n body ra sbx M =
        Inr (map (\<lambda>k. TNumber (cast_num (idx + step + step + int k * step))) [0..<nat (?q - 1 + 1)], L'')"
      using Suc.IH [OF regs bound] Suc.prems(3,4) c unfolding div by (simp add: M_def)
    then obtain L'' where IH: "for_visits n body ra sbx M =
        Inr (map (\<lambda>k. TNumber (cast_num (idx + step + step + int k * step))) [0..<nat (?q - 1 + 1)], L'')" by blast
    have "for_visits (Suc n) body ra sbx L = Inr (TNumber (cast_num (idx + step)) #
        map (\<lambda>k. TNumber (cast_num (idx + step + step + int k * step))) [0..<nat (?q - 1 + 1)], L'')"
      using eq pc v IH by (simp flip: M_def)
    moreover have "map (\<lambda>k. TNumber (cast_num (idx + step + int k * step))) [0..<nat (?q + 1)] =
        TNumber (cast_num (idx + step)) # map (\<lambda>k. TNumber (cast_num (idx + step + step + int k * step))) [0..<nat (?q - 1 + 1)]"
      unfolding c map_upt_Suc by (simp add: algebra_simps)
    ultimately show ?thesis by simp
  qed
qed simp

text \<open>
  Claim C31. The numeric \<open>for\<close> over integers: \<open>FORPREP\<close> and then \<open>FORLOOP\<close>, with a body
  that leaves the three control registers alone, give the loop variable the values from the
  initial one on, a step apart, up to the limit (upwards or downwards), each exactly, and then
  end; with no value in range the body never runs.
\<close>

theorem numeric_for_correct:
  assumes "th_stack L ! ra = TNumber (cast_num init)" "th_stack L ! (ra + 1) = TNumber (cast_num limit)"
      "th_stack L ! (ra + 2) = TNumber (cast_num step)" "ra + 3 < length (th_stack L)"
    and "\<bar>init\<bar> < 2 ^ 51" "\<bar>limit\<bar> < 2 ^ 51" "\<bar>step\<bar> < 2 ^ 51" "step \<noteq> 0"
    and "0 \<le> int (th_savedpc L) + jmp" "sbx \<noteq> 0" "0 \<le> int pc + sbx"
    and "\<forall>L. length (th_stack (body L)) = length (th_stack L)"
      "\<forall>L i. i < 3 \<longrightarrow> th_stack (body L) ! (ra + i) = th_stack L ! (ra + i)"
    and "nat ((limit - init) div step + 1) < n"
  shows "\<exists>L0 L'. op_forprep H ra jmp L = Inr L0 \<and> th_savedpc L0 = nat (int (th_savedpc L) + jmp) \<and>
    for_visits n body ra sbx (L0\<lparr>th_savedpc := pc\<rparr>) =
      Inr (map (\<lambda>k. TNumber (cast_num (init + int k * step))) [0..<nat ((limit - init) div step + 1)], L')"
proof -
  have b: "\<bar>init\<bar> < 2 ^ 53" "\<bar>step\<bar> < 2 ^ 53" "\<bar>init - step\<bar> < 2 ^ 53" "\<bar>init - step\<bar> < 2 ^ 52" using assms(5,7) by auto
  define L0 where "L0 = L\<lparr>th_stack := (th_stack L)[ra := TNumber (cast_num (init - step))],
    th_savedpc := nat (int (th_savedpc L) + jmp)\<rparr>"
  have n: "for_number H w i L = Inr (x, L)" if "i < length (th_stack L)" "th_stack L ! i = TNumber x" for i x w
  proof -
    have "(th_stack L)[i := TNumber x] = th_stack L" using that by (simp add: list_update_same_conv)
    then show ?thesis using that by (simp add: for_number_def sget_def luaV_tonumber_def sset_def)
  qed
  have n3: "for_number H w ra L = Inr (cast_num init, L)" "for_number H w (ra + 1) L = Inr (cast_num limit, L)"
      "for_number H w (ra + 2) L = Inr (cast_num step, L)" for w
    using assms(1-4) by (simp_all add: n)
  have prep: "op_forprep H ra jmp L = Inr L0"
    unfolding op_forprep_def n3 bind_result_simps prod.case numsub_int [OF b(1-3)]
    using assms(4,9) by (simp add: sset_def dojump_def L0_def)
  have "for_regs (L0\<lparr>th_savedpc := pc\<rparr>) ra (init - step) limit step"
    using assms(1-4) by (simp add: for_regs_def L0_def)
  then have "\<exists>L'. for_visits n body ra sbx (L0\<lparr>th_savedpc := pc\<rparr>) =
      Inr (map (\<lambda>k. TNumber (cast_num (init - step + step + int k * step))) [0..<nat ((limit - (init - step + step)) div step + 1)], L')"
    using assms b by (intro for_visits_spec) auto
  with prep show ?thesis by (auto simp: L0_def)
qed


theorem numeric_for_correct_witness:
  "\<forall>H. \<exists>L0 L'. op_forprep H 0 2 (sample_thread\<lparr>th_stack := [TNumber (cast_num 1), TNumber (cast_num 10), TNumber (cast_num 4), TNil]\<rparr>) = Inr L0 \<and>
     for_visits 5 (\<lambda>L. L) 0 (- 3) (L0\<lparr>th_savedpc := 4\<rparr>) = Inr ([TNumber (cast_num 1), TNumber (cast_num 5), TNumber (cast_num 9)], L')"
proof
  fix H
  let ?L = "sample_thread\<lparr>th_stack := [TNumber (cast_num 1), TNumber (cast_num 10), TNumber (cast_num 4), TNil]\<rparr>"
  have "nat ((10 - 1) div 4 + 1) = (3::nat)" by simp
  then have "\<exists>L0 L'. op_forprep H 0 2 ?L = Inr L0 \<and> th_savedpc L0 = nat (int (th_savedpc ?L) + 2) \<and>
    for_visits 5 (\<lambda>L. L) 0 (- 3) (L0\<lparr>th_savedpc := 4\<rparr>) =
      Inr (map (\<lambda>k. TNumber (cast_num (1 + int k * 4))) [0..<nat ((10 - 1) div 4 + 1)], L')"
    by (intro numeric_for_correct) auto
  moreover have "map (\<lambda>k. TNumber (cast_num (1 + int k * 4))) [0..<nat ((10 - 1) div 4 + 1)] =
      [TNumber (cast_num 1), TNumber (cast_num 5), TNumber (cast_num 9)]"
    by (simp add: upt_rec)
  ultimately show "\<exists>L0 L'. op_forprep H 0 2 ?L = Inr L0 \<and>
     for_visits 5 (\<lambda>L. L) 0 (- 3) (L0\<lparr>th_savedpc := 4\<rparr>) = Inr ([TNumber (cast_num 1), TNumber (cast_num 5), TNumber (cast_num 9)], L')"
    by auto
qed

section \<open>The stack of a vararg function\<close>

definition vararg_proto :: Proto where
  "vararg_proto = Proto [] [CREATE_ABC (opnum OP_RETURN) 0 1 0] [] [] [] [] None 0 0 0 8 VARARG_ISVARARG 8"

definition vararg_thread :: thread where
  "vararg_thread = sample_thread\<lparr>th_stack := TFunction 3 # replicate 15 TNil, th_top := 1, th_base := 0,
     th_ci := [\<lparr>ci_base = 0, ci_func = 0, ci_top = 1, ci_savedpc = 0, ci_nresults = 0, ci_tailcalls = 0\<rparr>],
     th_openupval := [], th_upval := (\<lambda>_. None), th_closure := [3 \<mapsto> LClosure vararg_proto 1 []]\<rparr>"


section \<open>A stale cache of tag methods\<close>

text \<open>
  Claim C35. Storing \<open>__newindex\<close> into a table that is its own metatable: \<open>luaV_settable\<close>
  looks for the tag method after \<open>luaH_set\<close> has cleared the cache and notes its absence, then
  stores the value, so that the table holds the tag method while the cache says it has none,
  and \<open>fasttm\<close> does not find it.
\<close>

theorem settable_stale_cache:
  assumes "l_heap L p = Some t" "wf_table t" "live_count t < MAXASIZE" "metatable t = Some p"
    "tget t (TStr ''__newindex'') = TNil"
  shows "\<exists>L' t'. luaV_settable H L (TTable p, None) (TStr ''__newindex'') (TFunction f) = Inr L' \<and>
    l_heap L' p = Some t' \<and> raw_tm t' TM_NEWINDEX = TFunction f \<and>
    fasttm L' (Some p) TM_NEWINDEX = Inr (None, L')"
proof -
  let ?key = "TStr ''__newindex''"
  have key: "valid_key ?key" by (simp add: valid_key_def)
  have name: "tmname TM_NEWINDEX = ''__newindex''" by (simp add: tmname_def luaT_eventname_def)
  from luaH_set_total [OF assms(2) key assms(3), of "l_gc L"] obtain g h s where
    h: "luaH_set (l_gc L) t ?key = Inr (g, h, s)" "set_ok t ?key h s" by blast
  have wf: "wf_table h" and get: "tget h = tget t" and mt: "metatable h = Some p" and slot: "slot_for h ?key s"
    using h(2) assms(4) by (simp_all add: set_ok_def)
  have nil: "slot_val h s = TNil" using slot_for_val [OF wf slot] get assms(5) by simp
  have raw: "raw_tm h TM_NEWINDEX = TNil" using get assms(5) by (simp add: raw_tm_def name)
  let ?L1 = "set_table_at p h (L\<lparr>l_gc := g\<rparr>)"
  have "\<exists>h2. fasttm ?L1 (Some p) TM_NEWINDEX = Inr (None, set_table_at p h2 ?L1) \<and>
      (\<exists>f. h2 = h\<lparr>flags := f\<rparr>) \<and> tm_absent h2 TM_NEWINDEX"
  proof (cases "tm_absent h TM_NEWINDEX")
    case True
    have "set_table_at p h ?L1 = ?L1" by (simp add: set_table_at_def)
    moreover have "\<exists>f. h = h\<lparr>flags := f\<rparr>" by (rule exI [of _ "flags h"]) simp
    ultimately show ?thesis using True by (intro exI [of _ h] conjI) (simp_all add: fasttm_def table_at_def set_table_at_def)
  next
    case False
    let ?h2 = "h\<lparr>flags := flags h OR tm_bit TM_NEWINDEX\<rparr>"
    have "tm_absent ?h2 TM_NEWINDEX" by (simp add: tm_absent_set)
    moreover have "fasttm ?L1 (Some p) TM_NEWINDEX = Inr (None, set_table_at p ?h2 ?L1)"
      using False gettm_spec [OF wf, of TM_NEWINDEX] raw by (simp add: fasttm_def table_at_def set_table_at_def)
    ultimately show ?thesis by blast
  qed
  then obtain h2 where h2: "fasttm ?L1 (Some p) TM_NEWINDEX = Inr (None, set_table_at p h2 ?L1)"
      "\<exists>f. h2 = h\<lparr>flags := f\<rparr>" "tm_absent h2 TM_NEWINDEX" by blast
  let ?t' = "set_slot h2 s (TFunction f)"
  define L' where "L' = set_table_at p ?t' (set_table_at p h2 ?L1\<lparr>l_gc := luaC_barriert (l_gc (set_table_at p h2 ?L1)) (t_self h2) (TFunction f)\<rparr>)"
  have step: "settable_step H L (TTable p, None) None ?key (TFunction f) = Inr (None, L')"
    using assms(1) h(1) nil mt h2(1) by (simp add: settable_step_def table_at_def Let_def L'_def) (simp add: set_table_at_def)
  have "luaV_settable H L (TTable p, None) ?key (TFunction f) = Inr L'"
    using step by (simp add: luaV_settable_def MAXTAGLOOP_def numeral_eq_Suc)
  moreover have t': "l_heap L' p = Some ?t'" by (simp add: L'_def set_table_at_def)
  moreover have "raw_tm ?t' TM_NEWINDEX = TFunction f"
  proof -
    have "slot_for h2 ?key s" "wf0 h2" using h2(2) slot wf by (auto simp: wf_table_def)
    from set_slot_spec(2) [OF this(2,1) key, of "TFunction f" ?key] show ?thesis by (simp add: raw_tm_def name)
  qed
  moreover have "tm_absent ?t' TM_NEWINDEX"
    using h2(3) by (simp add: tm_absent_def set_slot_def split: slot.splits)
  then have "fasttm L' (Some p) TM_NEWINDEX = Inr (None, L')" by (simp add: fasttm_def table_at_def t')
  ultimately show ?thesis by blast
qed

lemma metatable_wf [simp]: "wf_table (t\<lparr>metatable := m\<rparr>) = wf_table t"
proof -
  have mp: "mainposition (t\<lparr>metatable := m\<rparr>) = mainposition t" by (rule mainposition_lsizenode) simp
  show ?thesis by (simp add: wf_table_def wf0_def wf_sizes_def wf_nodes_def wf_lastfree_def no_array_keys_def mp sizenode_def)
qed

theorem settable_stale_cache_witness:
  "\<forall>H. \<exists>L' t'. luaV_settable H (sample_global\<lparr>l_heap := [1 \<mapsto> sample_table\<lparr>metatable := Some 1\<rparr>]\<rparr>) (TTable 1, None) (TStr ''__newindex'') (TFunction 9) = Inr L' \<and>
    l_heap L' 1 = Some t' \<and> raw_tm t' TM_NEWINDEX = TFunction 9 \<and> fasttm L' (Some 1) TM_NEWINDEX = Inr (None, L')"
proof -
  let ?t = "sample_table\<lparr>metatable := Some 1\<rparr>"
  have "wf_table ?t" using sample_table_wf by simp
  moreover have "live_count ?t < MAXASIZE"
    using sample_table_count by (simp add: live_count_def live_slots_def)
  moreover have "tget ?t (TStr ''__newindex'') = TNil"
    by (simp add: tget_def sample_table_def key_raw_eq_def)
  ultimately show ?thesis by (intro allI settable_stale_cache [of _ 1 ?t]) simp_all
qed

end
