(* ===== verification/Lapi_vm.thy ===== *)
theory Lapi_vm
  imports Lvm_ops
begin

text \<open>
  The functions of lapi.c that run the virtual machine on values of the frame: comparisons,
  table access through tag methods, metatables, calls and concatenation. A call leaves the frame
  of the running function as it was, but for the values it takes and gives: \<open>in_frame\<close> puts the
  frame back after every call the host makes; the heap, the globals and the upvalues are those
  the call left.
\<close>

definition restore_frame :: "lua_State \<Rightarrow> lua_State \<Rightarrow> lua_State" where
  "restore_frame L L' = L'\<lparr>stk := stk L, slots := slots L, l_name := l_name L, l_where := l_where L\<rparr>"

definition in_frame :: "lua_State host \<Rightarrow> lua_State host" where
  "in_frame H = H\<lparr>h_call := (\<lambda>f args n L.
     bind_result (h_call H f args n L) (\<lambda>(rs, L'). Inr (rs, restore_frame L L')))\<rparr>"

subsection \<open>Comparisons\<close>

definition lua_equal :: "lua_State host \<Rightarrow> lua_State \<Rightarrow> int \<Rightarrow> int \<Rightarrow> (bool \<times> lua_State) result" where
  "lua_equal H L index1 index2 =
     bind_result (index2adr L index1) (\<lambda>o1. bind_result (index2adr L index2) (\<lambda>o2.
       if o1 = NilObj \<or> o2 = NilObj then Inr (False, L)
       else bind_result (value_at L o1) (\<lambda>v1. bind_result (value_at L o2) (\<lambda>v2. equalobj (in_frame H) L v1 v2))))"

definition lua_lessthan :: "lua_State host \<Rightarrow> lua_State \<Rightarrow> int \<Rightarrow> int \<Rightarrow> (bool \<times> lua_State) result" where
  "lua_lessthan H L index1 index2 =
     bind_result (index2adr L index1) (\<lambda>o1. bind_result (index2adr L index2) (\<lambda>o2.
       if o1 = NilObj \<or> o2 = NilObj then Inr (False, L)
       else bind_result (value_at L o1) (\<lambda>v1. bind_result (value_at L o2) (\<lambda>v2. luaV_lessthan (in_frame H) L v1 v2))))"

subsection \<open>Get functions\<close>

definition lua_gettable :: "lua_State host \<Rightarrow> lua_State \<Rightarrow> int \<Rightarrow> lua_State result" where
  "lua_gettable H L idx =
     bind_result (index_value L idx) (\<lambda>t. bind_result (stack_top L) (\<lambda>key.
     bind_result (luaV_gettable (in_frame H) L (t, None) key) (\<lambda>(v, L).
       Inr (L\<lparr>stk := butlast (stk L) @ [v]\<rparr>))))"

definition lua_getfield :: "lua_State host \<Rightarrow> lua_State \<Rightarrow> int \<Rightarrow> string \<Rightarrow> lua_State result" where
  "lua_getfield H L idx k =
     bind_result (index_value L idx) (\<lambda>t.
     bind_result (luaV_gettable (in_frame H) L (t, None) (TStr (c_str k))) (\<lambda>(v, L). push L v))"

subsection \<open>Set functions\<close>

definition lua_settable :: "lua_State host \<Rightarrow> lua_State \<Rightarrow> int \<Rightarrow> lua_State result" where
  "lua_settable H L idx =
     bind_result (index_value L idx) (\<lambda>t.
       let top = length (stk L) in
       if top < 2 then Inl MemoryFault
       else bind_result (luaV_settable (in_frame H) L (t, None) (stk L ! (top - 2)) (stk L ! (top - 1))) (\<lambda>L. pop L 2))"

definition lua_setfield :: "lua_State host \<Rightarrow> lua_State \<Rightarrow> int \<Rightarrow> string \<Rightarrow> lua_State result" where
  "lua_setfield H L idx k =
     bind_result (index_value L idx) (\<lambda>t. bind_result (stack_top L) (\<lambda>v.
     bind_result (luaV_settable (in_frame H) L (t, None) (TStr (c_str k)) v) (\<lambda>L. pop L 1)))"

text \<open>
  \<open>barrierf\<close> is the forward barrier of the collector (\<open>luaC_barrierf\<close>), for userdata. The
  metatable of a value of another type is that of its type.
\<close>

definition set_udata_mt :: "(addr \<Rightarrow> TValue \<Rightarrow> lua_State \<Rightarrow> lua_State) \<Rightarrow> lua_State \<Rightarrow> addr \<Rightarrow> addr option \<Rightarrow> lua_State result" where
  "set_udata_mt barrierf L u mt =
     (case l_udata L u of
        None \<Rightarrow> Inl MemoryFault
      | Some (n, _) \<Rightarrow>
          let L = L\<lparr>l_udata := (l_udata L)(u \<mapsto> (n, mt))\<rparr> in
          Inr (case mt of
              None \<Rightarrow> L
            | Some p \<Rightarrow> if iswhite (l_gc L) (GCAddr p) \<and> isblack (l_gc L) (GCAddr u)
                then barrierf u (TTable p) L else L))"

definition lua_setmetatable :: "(addr \<Rightarrow> TValue \<Rightarrow> lua_State \<Rightarrow> lua_State) \<Rightarrow> lua_State \<Rightarrow> int \<Rightarrow> lua_State result" where
  "lua_setmetatable barrierf L idx =
     bind_result (stack_top L) (\<lambda>v. bind_result (index_value L idx) (\<lambda>obj.
     bind_result (case v of TNil \<Rightarrow> Inr None | TTable p \<Rightarrow> Inr (Some p) | _ \<Rightarrow> Inl MemoryFault) (\<lambda>mt.
     bind_result
       (case obj of
          TTable p \<Rightarrow> bind_result (table_at L p) (\<lambda>t.
            let L = set_table_at p (t\<lparr>metatable := mt\<rparr>) L in
            Inr (case mt of None \<Rightarrow> L | Some _ \<Rightarrow> L\<lparr>l_gc := luaC_barriert (l_gc L) (t_self t) v\<rparr>))
        | TUserdata u \<Rightarrow> set_udata_mt barrierf L u mt
        | _ \<Rightarrow> Inr (L\<lparr>l_mt := (l_mt L)(ttype obj := mt)\<rparr>)) (\<lambda>L. pop L 1))))"

subsection \<open>Calls\<close>

text \<open>\<open>lua_call\<close> with a fixed number of results (\<open>nresults\<close> other than \<open>LUA_MULTRET\<close>).\<close>

definition lua_call :: "lua_State host \<Rightarrow> lua_State \<Rightarrow> nat \<Rightarrow> nat \<Rightarrow> lua_State result" where
  "lua_call H L nargs nresults =
     (let top = length (stk L) in
      if top < nargs + 1 \<or> slots L + nargs < top + nresults then Inl MemoryFault
      else let func = top - (nargs + 1) in
        bind_result (h_call (in_frame H) (stk L ! func) (drop (func + 1) (stk L)) nresults (L\<lparr>stk := take func (stk L)\<rparr>))
          (\<lambda>(rs, L). Inr (L\<lparr>stk := stk L @ rs\<rparr>)))"

definition lua_concat :: "lua_State host \<Rightarrow> lua_State \<Rightarrow> nat \<Rightarrow> lua_State result" where
  "lua_concat H L n =
     (let top = length (stk L) in
      if top < n then Inl MemoryFault
      else if n \<ge> 2 then
        bind_result (luaV_concat (in_frame H) L 0 n (top - 1) (stk L)) (\<lambda>(vs, L). pop (L\<lparr>stk := vs\<rparr>) (n - 1))
      else if n = 0 then push L (TStr '''')
      else Inr L)"

section \<open>Lemmas\<close>

lemma in_frame_call:
  "h_call (in_frame H) f args n L = bind_result (h_call H f args n L) (\<lambda>(rs, L'). Inr (rs, restore_frame L L'))"
  by (simp add: in_frame_def)

lemma in_frame_others [simp]:
  "h_clib (in_frame H) = h_clib H" "h_objname (in_frame H) = h_objname H" "h_addinfo (in_frame H) = h_addinfo H"
  by (simp_all add: in_frame_def)

lemma restore_frame_same [simp]: "restore_frame L (L\<lparr>l_heap := h, l_gc := g\<rparr>) = L\<lparr>l_heap := h, l_gc := g\<rparr>"
  by (simp add: restore_frame_def)

end
