(* ===== verification/Ltablib.thy ===== *)
theory Ltablib
  imports Lapi_vm
begin

text \<open>
  The table library, ltablib.c: every function but the registration. A function works on its
  frame and gives the values it returns with the state it leaves; a C \<open>int\<close> is an integer, cast
  where the code casts. Loops over an interval of indices are recursions on the index; the loops
  that end only for a well-behaved callback, comparison function or table (\<open>foreach\<close>, \<open>maxn\<close>,
  \<open>auxsort\<close>) have a bound on their turns and are the outcome \<open>Diverges\<close> beyond it.
\<close>

type_synonym lib_result = "(TValue list \<times> lua_State) result"

text \<open>\<open>return n\<close> of a C function: the topmost \<open>n\<close> values.\<close>

definition results :: "nat \<Rightarrow> lua_State \<Rightarrow> lib_result" where
  "results n L = (if n \<le> length (stk L) then Inr (drop (length (stk L) - n) (stk L), L) else Inl MemoryFault)"

definition lua_isnil :: "lua_State \<Rightarrow> int \<Rightarrow> bool result" where
  "lua_isnil L n = bind_result (lua_type L n) (\<lambda>t. Inr (t = 0))"

text \<open>\<open>lua_pop(L, n)\<close> is \<open>lua_settop(L, -(n)-1)\<close>.\<close>

definition lua_pop :: "lua_State \<Rightarrow> nat \<Rightarrow> lua_State result" where
  "lua_pop L n = lua_settop L (- int n - 1)"

definition luaL_getn :: "clib \<Rightarrow> lua_State \<Rightarrow> int \<Rightarrow> (int \<times> lua_State) result" where
  "luaL_getn C L n = bind_result (lua_objlen C L n) (\<lambda>(k, L). Inr (cast_int (int k), L))"

definition aux_getn :: "clib \<Rightarrow> lua_State \<Rightarrow> int \<Rightarrow> (int \<times> lua_State) result" where
  "aux_getn C L n = bind_result (luaL_checktype C L n 5) (\<lambda>_. luaL_getn C L n)"

subsection \<open>Traversals\<close>

function foreachi_loop :: "lua_State host \<Rightarrow> lua_State \<Rightarrow> int \<Rightarrow> int \<Rightarrow> lib_result" where
  "foreachi_loop H L n i =
     (if i \<le> n then
        bind_result (lua_pushvalue L 2) (\<lambda>L.
        bind_result (lua_pushinteger L i) (\<lambda>L.
        bind_result (lua_rawgeti L 1 i) (\<lambda>L.
        bind_result (lua_call H L 2 1) (\<lambda>L.
        bind_result (lua_isnil L (- 1)) (\<lambda>isnil.
          if \<not> isnil then results 1 L
          else bind_result (lua_pop L 1) (\<lambda>L. foreachi_loop H L n (i + 1)))))))
      else results 0 L)"
  by pat_completeness auto
termination by (relation "measure (\<lambda>(H, L, n, i). nat (n + 1 - i))") auto

declare foreachi_loop.simps [simp del]

definition foreachi :: "lua_State host \<Rightarrow> lua_State \<Rightarrow> lib_result" where
  "foreachi H L =
     bind_result (aux_getn (h_clib H) L 1) (\<lambda>(n, L).
     bind_result (luaL_checktype (h_clib H) L 2 6) (\<lambda>_. foreachi_loop H L n 1))"

fun foreach_loop :: "nat \<Rightarrow> lua_State host \<Rightarrow> lua_State \<Rightarrow> lib_result" where
  "foreach_loop 0 H L = Inl Diverges"
| "foreach_loop (Suc fuel) H L =
     bind_result (lua_next L 1) (\<lambda>(more, L).
       if \<not> more then results 0 L
       else
        bind_result (lua_pushvalue L 2) (\<lambda>L.
        bind_result (lua_pushvalue L (- 3)) (\<lambda>L.
        bind_result (lua_pushvalue L (- 3)) (\<lambda>L.
        bind_result (lua_call H L 2 1) (\<lambda>L.
        bind_result (lua_isnil L (- 1)) (\<lambda>isnil.
          if \<not> isnil then results 1 L
          else bind_result (lua_pop L 2) (foreach_loop fuel H)))))))"

definition foreach :: "nat \<Rightarrow> lua_State host \<Rightarrow> lua_State \<Rightarrow> lib_result" where
  "foreach fuel H L =
     bind_result (luaL_checktype (h_clib H) L 1 5) (\<lambda>_.
     bind_result (luaL_checktype (h_clib H) L 2 6) (\<lambda>_.
     bind_result (lua_pushnil L) (foreach_loop fuel H)))"

fun maxn_loop :: "nat \<Rightarrow> clib \<Rightarrow> lua_State \<Rightarrow> lua_Number \<Rightarrow> (lua_Number \<times> lua_State) result" where
  "maxn_loop 0 C L mx = Inl Diverges"
| "maxn_loop (Suc fuel) C L mx =
     bind_result (lua_next L 1) (\<lambda>(more, L).
       if \<not> more then Inr (mx, L)
       else bind_result (lua_pop L 1) (\<lambda>L.
         bind_result (lua_type L (- 1)) (\<lambda>t.
           if t = 3
           then bind_result (lua_tonumber C L (- 1)) (\<lambda>v. maxn_loop fuel C L (if luai_numlt mx v then v else mx))
           else maxn_loop fuel C L mx)))"

definition maxn :: "nat \<Rightarrow> clib \<Rightarrow> lua_State \<Rightarrow> lib_result" where
  "maxn fuel C L =
     bind_result (luaL_checktype C L 1 5) (\<lambda>_.
     bind_result (lua_pushnil L) (\<lambda>L.
     bind_result (maxn_loop fuel C L 0) (\<lambda>(mx, L).
     bind_result (lua_pushnumber L mx) (results 1))))"

subsection \<open>Sizes\<close>

definition getn :: "clib \<Rightarrow> lua_State \<Rightarrow> lib_result" where
  "getn C L = bind_result (aux_getn C L 1) (\<lambda>(n, L). bind_result (lua_pushinteger L n) (results 1))"

text \<open>\<open>luaL_setn\<close> is a macro here, so \<open>setn\<close> only raises its error.\<close>

definition setn :: "clib \<Rightarrow> lua_State \<Rightarrow> lib_result" where
  "setn C L =
     bind_result (luaL_checktype C L 1 5) (\<lambda>_. luaL_error C L (LUA_QL ''setn'' @ '' is obsolete'') [])"

subsection \<open>Insertion and removal\<close>

function move_up :: "lua_State \<Rightarrow> int \<Rightarrow> int \<Rightarrow> lua_State result" where
  "move_up L pos i =
     (if i > pos then
        bind_result (lua_rawgeti L 1 (i - 1)) (\<lambda>L.
        bind_result (lua_rawseti L 1 i) (\<lambda>L. move_up L pos (i - 1)))
      else Inr L)"
  by pat_completeness auto
termination by (relation "measure (\<lambda>(L, pos, i). nat (i - pos))") auto

declare move_up.simps [simp del]

definition tinsert :: "clib \<Rightarrow> lua_State \<Rightarrow> lib_result" where
  "tinsert C L =
     bind_result (aux_getn C L 1) (\<lambda>(n, L).
     let e = cast_int (n + 1) in
     bind_result
       (if lua_gettop L = 2 then Inr (e, L)
        else if lua_gettop L = 3 then
          bind_result (luaL_checkint C L 2) (\<lambda>pos.
          let e = (if pos > e then pos else e) in
          bind_result (move_up L pos e) (\<lambda>L. Inr (pos, L)))
        else luaL_error C L (''wrong number of arguments to '' @ LUA_QL ''insert'') []) (\<lambda>(pos, L).
     bind_result (lua_rawseti L 1 pos) (results 0)))"

function move_down :: "lua_State \<Rightarrow> int \<Rightarrow> int \<Rightarrow> lua_State result" where
  "move_down L pos e =
     (if pos < e then
        bind_result (lua_rawgeti L 1 (pos + 1)) (\<lambda>L.
        bind_result (lua_rawseti L 1 pos) (\<lambda>L. move_down L (pos + 1) e))
      else Inr L)"
  by pat_completeness auto
termination by (relation "measure (\<lambda>(L, pos, e). nat (e - pos))") auto

declare move_down.simps [simp del]

definition tremove :: "clib \<Rightarrow> lua_State \<Rightarrow> lib_result" where
  "tremove C L =
     bind_result (aux_getn C L 1) (\<lambda>(e, L).
     bind_result (luaL_optint C L 2 e) (\<lambda>pos.
       if \<not> (1 \<le> pos \<and> pos \<le> e) then results 0 L
       else
         bind_result (lua_rawgeti L 1 pos) (\<lambda>L.
         bind_result (move_down L pos e) (\<lambda>L.
         bind_result (lua_pushnil L) (\<lambda>L.
         bind_result (lua_rawseti L 1 e) (results 1))))))"

subsection \<open>Concatenation\<close>

text \<open>The pieces of the buffer lie on the stack above the arguments; they are kept in \<open>luaL_Buffer\<close>.\<close>

definition addfield :: "clib \<Rightarrow> lua_State \<Rightarrow> luaL_Buffer \<Rightarrow> int \<Rightarrow> (luaL_Buffer \<times> lua_State) result" where
  "addfield C L b i =
     bind_result (lua_rawgeti L 1 i) (\<lambda>L.
     bind_result (lua_isstring L (- 1)) (\<lambda>isstr.
     bind_result (if isstr then Inr ()
        else bind_result (lua_type L (- 1)) (\<lambda>t.
          luaL_error C L (''invalid value (%s) at index %d in table for '' @ LUA_QL ''concat'')
            [ArgS (Some (lua_typename t)), ArgD i])) (\<lambda>_.
     bind_result (lua_tolstring C L (- 1)) (\<lambda>(s, L). case s of
         None \<Rightarrow> Inl MemoryFault
       | Some s \<Rightarrow> bind_result (lua_pop L 1) (\<lambda>L. Inr (luaL_addvalue b s, L))))))"

function tconcat_loop :: "clib \<Rightarrow> lua_State \<Rightarrow> luaL_Buffer \<Rightarrow> TString \<Rightarrow> int \<Rightarrow> int \<Rightarrow> (luaL_Buffer \<times> int \<times> lua_State) result" where
  "tconcat_loop C L b sep i la =
     (if i < la then
        bind_result (addfield C L b i) (\<lambda>(b, L). tconcat_loop C L (luaL_addlstring b sep) sep (i + 1) la)
      else Inr (b, i, L))"
  by pat_completeness auto
termination by (relation "measure (\<lambda>(C, L, b, sep, i, la). nat (la - i))") auto

declare tconcat_loop.simps [simp del]

definition tconcat :: "clib \<Rightarrow> lua_State \<Rightarrow> lib_result" where
  "tconcat C L =
     bind_result (luaL_optlstring C L 2 (Some '''')) (\<lambda>(sep, L).
     bind_result (luaL_checktype C L 1 5) (\<lambda>_.
     bind_result (luaL_optint C L 3 1) (\<lambda>i.
     bind_result (lua_isnoneornil L 4) (\<lambda>none.
     bind_result (if none then luaL_getn C L 1 else bind_result (luaL_checkint C L 4) (\<lambda>k. Inr (k, L))) (\<lambda>(la, L).
     bind_result (tconcat_loop C L luaL_buffinit (the sep) i la) (\<lambda>(b, i, L).
     bind_result (if i = la then addfield C L b i else Inr (b, L)) (\<lambda>(b, L).
     bind_result (push L (TStr (fst (luaL_pushresult b)))) (results 1))))))))"

subsection \<open>Quicksort\<close>

definition set2 :: "lua_State \<Rightarrow> int \<Rightarrow> int \<Rightarrow> lua_State result" where
  "set2 L i j = bind_result (lua_rawseti L 1 i) (\<lambda>L. lua_rawseti L 1 j)"

definition sort_comp :: "lua_State host \<Rightarrow> lua_State \<Rightarrow> int \<Rightarrow> int \<Rightarrow> (bool \<times> lua_State) result" where
  "sort_comp H L a b =
     bind_result (lua_isnil L 2) (\<lambda>isnil.
       if \<not> isnil then
         bind_result (lua_pushvalue L 2) (\<lambda>L.
         bind_result (lua_pushvalue L (a - 1)) (\<lambda>L.
         bind_result (lua_pushvalue L (b - 2)) (\<lambda>L.
         bind_result (lua_call H L 2 1) (\<lambda>L.
         bind_result (lua_toboolean L (- 1)) (\<lambda>res.
         bind_result (lua_pop L 1) (\<lambda>L. Inr (res, L)))))))
       else lua_lessthan H L a b)"

text \<open>The two inner loops: \<open>i\<close> goes up until \<open>a[i] >= P\<close>, \<open>j\<close> down until \<open>a[j] <= P\<close>.\<close>

function scan_up :: "lua_State host \<Rightarrow> int \<Rightarrow> lua_State \<Rightarrow> int \<Rightarrow> (int \<times> lua_State) result" where
  "scan_up H u L i =
     bind_result (lua_rawgeti L 1 (i + 1)) (\<lambda>L.
     bind_result (sort_comp H L (- 1) (- 2)) (\<lambda>(lt, L).
       if \<not> lt then Inr (i + 1, L)
       else if i + 1 > u then luaL_error (h_clib H) L ''invalid order function for sorting'' []
       else bind_result (lua_pop L 1) (\<lambda>L. scan_up H u L (i + 1))))"
  by pat_completeness auto
termination by (relation "measure (\<lambda>(H, u, L, i). nat (u + 1 - i))") auto

function scan_down :: "lua_State host \<Rightarrow> int \<Rightarrow> lua_State \<Rightarrow> int \<Rightarrow> (int \<times> lua_State) result" where
  "scan_down H l L j =
     bind_result (lua_rawgeti L 1 (j - 1)) (\<lambda>L.
     bind_result (sort_comp H L (- 3) (- 1)) (\<lambda>(lt, L).
       if \<not> lt then Inr (j - 1, L)
       else if j - 1 < l then luaL_error (h_clib H) L ''invalid order function for sorting'' []
       else bind_result (lua_pop L 1) (\<lambda>L. scan_down H l L (j - 1))))"
  by pat_completeness auto
termination by (relation "measure (\<lambda>(H, l, L, j). nat (j + 1 - l))") auto

declare scan_up.simps [simp del] scan_down.simps [simp del]

lemma scan_up_less: "scan_up H u L i = Inr (i', L') \<Longrightarrow> i < i'"
proof (induction H u L i rule: scan_up.induct)
  case (1 H u L i)
  from 1(2) show ?case
    by (subst (asm) scan_up.simps)
      (auto simp: luaL_error_def bind_result_Inr_conv split: if_splits dest: 1(1) [OF _ _ refl])
qed

lemma scan_down_less: "scan_down H l L j = Inr (j', L') \<Longrightarrow> j' < j"
proof (induction H l L j rule: scan_down.induct)
  case (1 H l L j)
  from 1(2) show ?case
    by (subst (asm) scan_down.simps)
      (auto simp: luaL_error_def bind_result_Inr_conv split: if_splits dest: 1(1) [OF _ _ refl])
qed

text \<open>The loop that exchanges elements until the two scans meet; the pivot is on the top.\<close>

function partition_loop :: "lua_State host \<Rightarrow> int \<Rightarrow> int \<Rightarrow> lua_State \<Rightarrow> int \<Rightarrow> int \<Rightarrow> (int \<times> lua_State) result" where
  "partition_loop H l u L i j =
     bind_result (scan_up H u L i) (\<lambda>(i', L).
     bind_result (scan_down H l L j) (\<lambda>(j', L).
       if j' < i' then bind_result (lua_pop L 3) (\<lambda>L. Inr (i', L))
       else bind_result (set2 L i' j') (\<lambda>L. partition_loop H l u L i' j')))"
  by pat_completeness auto
termination
  by (relation "measure (\<lambda>(H, l, u, L, i, j). nat (j + 1 - i))") (auto dest!: scan_up_less scan_down_less)

declare partition_loop.simps [simp del]

text \<open>The first comparison of \<open>auxsort\<close>: the two ends; then the middle with both ends.\<close>

definition order_ends :: "lua_State host \<Rightarrow> lua_State \<Rightarrow> int \<Rightarrow> int \<Rightarrow> lua_State result" where
  "order_ends H L l u =
     bind_result (lua_rawgeti L 1 l) (\<lambda>L.
     bind_result (lua_rawgeti L 1 u) (\<lambda>L.
     bind_result (sort_comp H L (- 1) (- 2)) (\<lambda>(lt, L).
       if lt then set2 L l u else lua_pop L 2)))"

definition order_middle :: "lua_State host \<Rightarrow> lua_State \<Rightarrow> int \<Rightarrow> int \<Rightarrow> int \<Rightarrow> lua_State result" where
  "order_middle H L l u i =
     bind_result (lua_rawgeti L 1 i) (\<lambda>L.
     bind_result (lua_rawgeti L 1 l) (\<lambda>L.
     bind_result (sort_comp H L (- 2) (- 1)) (\<lambda>(lt, L).
       if lt then set2 L i l
       else bind_result (lua_pop L 1) (\<lambda>L.
         bind_result (lua_rawgeti L 1 u) (\<lambda>L.
         bind_result (sort_comp H L (- 1) (- 2)) (\<lambda>(lt, L).
           if lt then set2 L i u else lua_pop L 2))))))"

text \<open>The pivot \<open>a[i]\<close> goes to \<open>u - 1\<close>, the rest is divided around it, then it goes to its place.\<close>

definition sort_partition :: "lua_State host \<Rightarrow> lua_State \<Rightarrow> int \<Rightarrow> int \<Rightarrow> int \<Rightarrow> (int \<times> lua_State) result" where
  "sort_partition H L l u i =
     bind_result (lua_rawgeti L 1 i) (\<lambda>L.
     bind_result (lua_pushvalue L (- 1)) (\<lambda>L.
     bind_result (lua_rawgeti L 1 (u - 1)) (\<lambda>L.
     bind_result (set2 L i (u - 1)) (\<lambda>L.
     bind_result (partition_loop H l u L l (u - 1)) (\<lambda>(i, L).
     bind_result (lua_rawgeti L 1 (u - 1)) (\<lambda>L.
     bind_result (lua_rawgeti L 1 i) (\<lambda>L.
     bind_result (set2 L (u - 1) i) (\<lambda>L. Inr (i, L)))))))))"

text \<open>The turns of the outer loop are the second recursive call.\<close>

fun auxsort :: "nat \<Rightarrow> lua_State host \<Rightarrow> lua_State \<Rightarrow> int \<Rightarrow> int \<Rightarrow> lua_State result" where
  "auxsort 0 H L l u = Inl Diverges"
| "auxsort (Suc fuel) H L l u =
     (if \<not> l < u then Inr L
      else
        bind_result (order_ends H L l u) (\<lambda>L.
        if u - l = 1 then Inr L
        else
          bind_result (order_middle H L l u ((l + u) div 2)) (\<lambda>L.
          if u - l = 2 then Inr L
          else
            bind_result (sort_partition H L l u ((l + u) div 2)) (\<lambda>(i, L).
            let (j, i, l, u) = (if i - l < u - i then (l, i - 1, i + 1, u) else (i + 1, u, l, i - 1)) in
            bind_result (auxsort fuel H L j i) (\<lambda>L. auxsort fuel H L l u)))))"

definition tsort :: "nat \<Rightarrow> lua_State host \<Rightarrow> lua_State \<Rightarrow> lib_result" where
  "tsort fuel H L =
     bind_result (aux_getn (h_clib H) L 1) (\<lambda>(n, L).
     bind_result (luaL_checkstack (h_clib H) L 40 '''') (\<lambda>L.
     bind_result (lua_isnoneornil L 2) (\<lambda>none.
     bind_result (if \<not> none then luaL_checktype (h_clib H) L 2 6 else Inr ()) (\<lambda>_.
     bind_result (lua_settop L 2) (\<lambda>L.
     bind_result (auxsort fuel H L 1 n) (results 0))))))"

end
