(* ===== verification/Ltablib_frame.thy ===== *)
theory Ltablib_frame
  imports Ltablib Ltable_spec Lvm_spec Lstrlib_spec
begin

text \<open>
  What the functions of the table library do to the contents of a table, seen as a function from
  keys to values: the rules for the raw accesses of their frames, and the correctness of
  \<open>table.insert\<close> and \<open>table.remove\<close>.
\<close>

subsection \<open>The contents of the table\<close>

text \<open>
  The contents of a table as a function from keys to values; \<open>at m i\<close> is \<open>t[i]\<close> and
  \<open>upd m i v\<close> the contents after \<open>t[i] = v\<close>.
\<close>

type_synonym contents = "TValue \<Rightarrow> TValue"

definition at :: "contents \<Rightarrow> int \<Rightarrow> TValue" where
  "at m i = m (TNumber (cast_num i))"

definition upd :: "contents \<Rightarrow> int \<Rightarrow> TValue \<Rightarrow> contents" where
  "upd m i v = (\<lambda>k. if luaO_rawequalObj (TNumber (cast_num i)) k then v else m k)"

definition index_ok :: "int \<Rightarrow> bool" where "index_ok i \<longleftrightarrow> 1 \<le> i \<and> i < 2 ^ 31"

lemma index_ok_range: "index_ok i \<Longrightarrow> int_range i"
  by (simp add: index_ok_def INT_MAX_def INT_MIN_def)

lemma at_upd: "index_ok i \<Longrightarrow> index_ok j \<Longrightarrow> at (upd m i v) j = (if i = j then v else at m j)"
  using rawequal_int_iff [of i "TNumber (cast_num j)"] index_ok_range [of i] index_ok_range [of j]
  by (simp add: at_def upd_def arrayindex_int index_ok_def del: arrayindex.simps luaO_rawequalObj.simps)

lemma setnum_existing:
  assumes "wf_table t" "index_ok i" "at (tget t) i \<noteq> TNil"
  obtains p where "luaH_setnum L t i = Inr (L, t, p)" "wf_table (set_slot t p v)" "tget (set_slot t p v) = upd (tget t) i v"
proof -
  have wf: "wf0 t" and r: "int_range i" using assms(1) index_ok_range [OF assms(2)] by (simp_all add: wf_table_def)
  obtain s where s: "luaH_get t (TNumber (cast_num i)) = Inr s" "s \<noteq> NilObject \<longrightarrow> slot_for t (TNumber (cast_num i)) s"
    using luaH_get_slot [OF wf, of "TNumber (cast_num i)"] by auto
  have "slot_val t s = at (tget t) i" using luaH_get_correct [OF assms(1), of "TNumber (cast_num i)"] s(1) by (simp add: at_def)
  then have ns: "s \<noteq> NilObject" using assms(3) by (auto simp: slot_val_def)
  note sp = set_slot_spec [OF wf s(2) [rule_format, OF ns] valid_key_int [OF r], where v = v]
  have "luaH_setnum L t i = Inr (L, t, s)" using setnum_as_set [OF wf r, of _ L] s(1) ns by (simp add: luaH_setnum_def)
  moreover have "wf_table (set_slot t s v)" using sp assms(1) by (simp add: wf_table_def)
  moreover have "tget (set_slot t s v) = upd (tget t) i v" by (rule ext) (simp add: sp upd_def del: luaO_rawequalObj.simps)
  ultimately show thesis by (rule that)
qed

lemma getnum_at:
  assumes "wf_table t" "index_ok i"
  obtains p where "luaH_getnum t i = Inr p" "slot_val t p = at (tget t) i"
proof -
  have eq: "luaH_get t (TNumber (cast_num i)) = luaH_getnum t i"
    using index_ok_range [OF assms(2)] by (simp add: Let_def)
  show thesis using luaH_get_correct [OF assms(1), of "TNumber (cast_num i)"] that by (auto simp: eq at_def simp del: luaH_get.simps)
qed

subsection \<open>The frame of the table functions\<close>

text \<open>
  The states of a function of the library: the frame of \<open>L0\<close> with the table and a second argument
  and the values \<open>st\<close> above them; the table at \<open>p\<close> is well formed and has the contents \<open>m\<close>.
  Nothing but that table and the marks of the collector differs from \<open>L0\<close>.
\<close>

definition on_table :: "lua_State \<Rightarrow> addr \<Rightarrow> TValue \<Rightarrow> contents \<Rightarrow> TValue list \<Rightarrow> lua_State \<Rightarrow> bool" where
  "on_table L0 p c m st L \<longleftrightarrow> (\<exists>t g. L = L0\<lparr>l_heap := (l_heap L0)(p \<mapsto> t), l_gc := g, stk := TTable p # c # st\<rparr> \<and>
     wf_table t \<and> tget t = m)"

lemma on_tableE:
  assumes "on_table L0 p c m st L"
  obtains t g where "L = L0\<lparr>l_heap := (l_heap L0)(p \<mapsto> t), l_gc := g, stk := TTable p # c # st\<rparr>" "wf_table t" "tget t = m"
  using assms by (auto simp: on_table_def)

lemma on_table_stk: "on_table L0 p c m st L \<Longrightarrow> stk L = TTable p # c # st" "on_table L0 p c m st L \<Longrightarrow> slots L = slots L0"
  by (auto simp: on_table_def)

lemma on_table_restack: "on_table L0 p c m st L \<Longrightarrow> on_table L0 p c m st' (L\<lparr>stk := TTable p # c # st'\<rparr>)"
  by (erule on_tableE) (unfold on_table_def, rule exI, rule exI, auto)

lemma on_table_arg1: "on_table L0 p c m st L \<Longrightarrow> index_value L 1 = Inr (TTable p)"
  by (auto simp: on_table_def index_value_def index2adr_def value_at_def)

lemma on_table_rawgeti:
  assumes "on_table L0 p c m st L" "index_ok i" "length st + 3 \<le> slots L0"
  obtains L' where "lua_rawgeti L 1 i = Inr L'" "on_table L0 p c m (st @ [at m i]) L'"
proof -
  obtain t g where L: "L = L0\<lparr>l_heap := (l_heap L0)(p \<mapsto> t), l_gc := g, stk := TTable p # c # st\<rparr>" "wf_table t" "tget t = m"
    using assms(1) by (rule on_tableE)
  obtain s where "luaH_getnum t i = Inr s" "slot_val t s = at m i" using getnum_at [OF L(2) assms(2)] L(3) by metis
  then have "lua_rawgeti L 1 i = Inr (L\<lparr>stk := TTable p # c # (st @ [at m i])\<rparr>)"
    using assms(3) on_table_arg1 [OF assms(1)] by (simp add: lua_rawgeti_def push_def hvalue_def L(1))
  then show thesis using that on_table_restack [OF assms(1)] by blast
qed

lemma on_table_rawseti:
  assumes "on_table L0 p c m (st @ [v]) L" "index_ok i" "at m i \<noteq> TNil"
  obtains L' where "lua_rawseti L 1 i = Inr L'" "on_table L0 p c (upd m i v) st L'"
proof -
  obtain t g where L: "L = L0\<lparr>l_heap := (l_heap L0)(p \<mapsto> t), l_gc := g, stk := TTable p # c # (st @ [v])\<rparr>" "wf_table t" "tget t = m"
    using assms(1) by (rule on_tableE)
  obtain s where s: "luaH_setnum g t i = Inr (g, t, s)" "wf_table (set_slot t s v)" "tget (set_slot t s v) = upd m i v"
    using setnum_existing [OF L(2) assms(2)] assms(3) L(3) by metis
  have "lua_rawseti L 1 i = Inr (L0\<lparr>l_heap := (l_heap L0)(p \<mapsto> set_slot t s v), l_gc := luaC_barriert g (t_self t) v, stk := TTable p # c # st\<rparr>)"
    using s(1) on_table_arg1 [OF assms(1)]
    by (simp add: lua_rawseti_def lua_rawseti_table_def stack_top_def hvalue_def set_table_def pop_def L(1))
  then show thesis using that s by (auto simp: on_table_def)
qed

lemma on_table_pop:
  assumes "on_table L0 p c m (st @ vs) L" "n = length vs"
  obtains L' where "lua_pop L n = Inr L'" "on_table L0 p c m st L'"
proof -
  have "lua_pop L n = Inr (L\<lparr>stk := TTable p # c # st\<rparr>)"
    using on_table_stk(1) [OF assms(1)] assms(2) by (simp add: lua_pop_def lua_settop_def pop_def)
  then show thesis using that on_table_restack [OF assms(1)] by blast
qed

lemma on_table_pushtop:
  assumes "on_table L0 p c m (st @ [v]) L" "length st + 4 \<le> slots L0"
  obtains L' where "lua_pushvalue L (- 1) = Inr L'" "on_table L0 p c m (st @ [v, v]) L'"
proof -
  have "lua_pushvalue L (- 1) = Inr (L\<lparr>stk := TTable p # c # (st @ [v, v])\<rparr>)"
    using on_table_stk [OF assms(1)] assms(2)
    by (simp add: lua_pushvalue_def index_value_def index2adr_def value_at_def push_def LUA_REGISTRYINDEX_def nat_add_distrib nth_append)
  then show thesis using that on_table_restack [OF assms(1)] by blast
qed


subsection \<open>Concrete states\<close>

definition array_table :: "TValue list \<Rightarrow> Table" where
  "array_table vs = \<lparr>t_self = 1, flags = 0, lsizenode = 0, metatable = None, array = vs, isdummy = True,
     node = [dummynode], lastfree = 0, sizearray = length vs\<rparr>"

definition array_state :: "TValue list \<Rightarrow> TValue list \<Rightarrow> lua_State" where
  "array_state vs args = \<lparr>l_heap = [1 \<mapsto> array_table vs], l_mt = (\<lambda>_. None), l_udata = (\<lambda>_. None), l_registry = TNil,
     l_gc = \<lparr>marked = (\<lambda>_. 1), grayagain = []\<rparr>, stk = TTable 1 # args, slots = 20, l_func = None, l_gt = TNil,
     l_name = None, l_where = None\<rparr>"

lemma array_table_wf: "length vs \<le> MAXASIZE \<Longrightarrow> wf_table (array_table vs)"
  using fresh_nodes_wf(1) [of "array_table vs"]
  by (simp add: wf_table_def array_table_def fresh_nodes_def sizenode_def)

lemma array_table_at:
  assumes "length vs \<le> MAXASIZE" "1 \<le> i" "i \<le> int (length vs)"
  shows "at (tget (array_table vs)) i = vs ! nat (i - 1)"
proof -
  have "int_range i" using assms by (simp add: INT_MAX_def INT_MIN_def MAXASIZE_def MAXBITS_def)
  then show ?thesis using fresh_nodes_wf(3) [of "array_table vs" "TNumber (cast_num i)"] assms
    by (simp add: at_def array_table_def fresh_nodes_def sizenode_def arrayindex_int del: arrayindex.simps)
qed

lemma array_table_getn: "vs \<noteq> [] \<Longrightarrow> last vs \<noteq> TNil \<Longrightarrow> luaH_getn (array_table vs) = Inr (length vs)"
  by (simp add: luaH_getn_def array_table_def last_conv_nth)

subsection \<open>Moving a run of elements\<close>

definition elsewhere :: "int \<Rightarrow> int \<Rightarrow> contents \<Rightarrow> contents \<Rightarrow> bool" where
  "elsewhere a b m m' \<longleftrightarrow> (\<forall>k. (\<forall>i\<in>{a..b}. \<not> luaO_rawequalObj (TNumber (cast_num i)) k) \<longrightarrow> m' k = m k)"

lemma elsewhere_upd: "a \<le> i \<Longrightarrow> i \<le> b \<Longrightarrow> elsewhere a b m (upd m i v)"
  by (auto simp: elsewhere_def upd_def simp del: luaO_rawequalObj.simps)

lemma elsewhere_trans: "elsewhere a b m m' \<Longrightarrow> elsewhere a' b' m' m'' \<Longrightarrow> a \<le> a' \<Longrightarrow> b' \<le> b \<Longrightarrow> elsewhere a b m m''"
  by (simp add: elsewhere_def)

lemma elsewhere_refl [simp]: "elsewhere a b m m"
  by (simp add: elsewhere_def)

lemma move_down_ok:
  assumes "on_table L0 p c m st L" "1 \<le> pos" "e < 2 ^ 31" "\<forall>x\<in>{pos..e}. at m x \<noteq> TNil" "length st + 3 \<le> slots L0"
  shows "\<exists>L' m'. move_down L pos e = Inr L' \<and> on_table L0 p c m' st L' \<and> elsewhere pos e m m' \<and>
    (\<forall>x. index_ok x \<longrightarrow> at m' x = (if pos \<le> x \<and> x < e then at m (x + 1) else at m x))"
  using assms
proof (induction "nat (e - pos)" arbitrary: pos m L rule: less_induct)
  case less
  note pr = less.prems
  show ?case
  proof (cases "pos < e")
    case False
    then have "move_down L pos e = Inr L" by (subst move_down.simps) simp
    then show ?thesis using pr(1) False elsewhere_refl by fastforce
  next
    case True
    then have ok: "index_ok (pos + 1)" "index_ok pos" using pr(2,3) by (auto simp: index_ok_def)
    obtain L1 where 1: "lua_rawgeti L 1 (pos + 1) = Inr L1" "on_table L0 p c m (st @ [at m (pos + 1)]) L1"
      using on_table_rawgeti [OF pr(1) ok(1) pr(5)] by blast
    let ?m = "upd m pos (at m (pos + 1))"
    have at: "at ?m x = (if x = pos then at m (pos + 1) else at m x)" if "index_ok x" for x
      using at_upd [OF ok(2) that] by auto
    have nn: "at m pos \<noteq> TNil" "at m (pos + 1) \<noteq> TNil" using pr(4) True by auto
    obtain L2 where 2: "lua_rawseti L1 1 pos = Inr L2" "on_table L0 p c ?m st L2"
      using on_table_rawseti [OF 1(2) ok(2) nn(1)] by blast
    have ne: "\<forall>x\<in>{pos + 1..e}. at ?m x \<noteq> TNil" using pr(2-4) nn at by (auto simp: index_ok_def)
    have "nat (e - (pos + 1)) < nat (e - pos)" "1 \<le> pos + 1" using True pr(2) by auto
    then obtain L' m' where 3: "move_down L2 (pos + 1) e = Inr L'" "on_table L0 p c m' st L'" "elsewhere (pos + 1) e ?m m'"
      "\<forall>x. index_ok x \<longrightarrow> at m' x = (if pos + 1 \<le> x \<and> x < e then at ?m (x + 1) else at ?m x)"
      using less.hyps [of "pos + 1", OF _ 2(2) _ pr(3) ne pr(5)] by blast
    have "move_down L pos e = Inr L'" using 1 2 3 True by (subst move_down.simps) simp
    moreover have "at m' x = (if pos \<le> x \<and> x < e then at m (x + 1) else at m x)" if "index_ok x" for x
    proof -
      have "pos + 1 \<le> x \<and> x < e \<Longrightarrow> index_ok (x + 1)" using that pr(3) by (auto simp: index_ok_def)
      then show ?thesis using 3(4) that at [of x] at [of "x + 1"] True by (cases "x = pos") auto
    qed
    moreover have "elsewhere pos e m m'" using elsewhere_trans [OF elsewhere_upd 3(3)] True by auto
    ultimately show ?thesis using 3(2) by blast
  qed
qed

lemma move_up_ok:
  assumes "on_table L0 p c m st L" "1 \<le> pos" "e < 2 ^ 31" "\<forall>x\<in>{pos..e}. at m x \<noteq> TNil" "length st + 3 \<le> slots L0"
  shows "\<exists>L' m'. move_up L pos e = Inr L' \<and> on_table L0 p c m' st L' \<and> elsewhere pos e m m' \<and>
    (\<forall>x. index_ok x \<longrightarrow> at m' x = (if pos < x \<and> x \<le> e then at m (x - 1) else at m x))"
  using assms
proof (induction "nat (e - pos)" arbitrary: e m L rule: less_induct)
  case less
  note pr = less.prems
  show ?case
  proof (cases "pos < e")
    case False
    then have "move_up L pos e = Inr L" by (subst move_up.simps) simp
    then show ?thesis using pr(1) False elsewhere_refl by fastforce
  next
    case True
    then have ok: "index_ok (e - 1)" "index_ok e" using pr(2,3) by (auto simp: index_ok_def)
    obtain L1 where 1: "lua_rawgeti L 1 (e - 1) = Inr L1" "on_table L0 p c m (st @ [at m (e - 1)]) L1"
      using on_table_rawgeti [OF pr(1) ok(1) pr(5)] by blast
    let ?m = "upd m e (at m (e - 1))"
    have at: "at ?m x = (if x = e then at m (e - 1) else at m x)" if "index_ok x" for x
      using at_upd [OF ok(2) that] by auto
    have nn: "at m e \<noteq> TNil" "at m (e - 1) \<noteq> TNil" using pr(4) True by auto
    obtain L2 where 2: "lua_rawseti L1 1 e = Inr L2" "on_table L0 p c ?m st L2"
      using on_table_rawseti [OF 1(2) ok(2) nn(1)] by blast
    have ne: "\<forall>x\<in>{pos..e - 1}. at ?m x \<noteq> TNil" using pr(2-4) nn at by (auto simp: index_ok_def)
    have "nat (e - 1 - pos) < nat (e - pos)" "e - 1 < 2 ^ 31" using True pr(3) by auto
    then obtain L' m' where 3: "move_up L2 pos (e - 1) = Inr L'" "on_table L0 p c m' st L'" "elsewhere pos (e - 1) ?m m'"
      "\<forall>x. index_ok x \<longrightarrow> at m' x = (if pos < x \<and> x \<le> e - 1 then at ?m (x - 1) else at ?m x)"
      using less.hyps [of "e - 1", OF _ 2(2) pr(2) _ ne pr(5)] by blast
    have "move_up L pos e = Inr L'" using 1 2 3 True by (subst move_up.simps) simp
    moreover have "at m' x = (if pos < x \<and> x \<le> e then at m (x - 1) else at m x)" if "index_ok x" for x
    proof -
      have "pos < x \<Longrightarrow> index_ok (x - 1)" using that pr(2) by (auto simp: index_ok_def)
      then show ?thesis using 3(4) that at [of x] at [of "x - 1"] True by (cases "x = e") auto
    qed
    moreover have "elsewhere pos e m m'" using elsewhere_trans [OF elsewhere_upd 3(3)] True by auto
    ultimately show ?thesis using 3(2) by blast
  qed
qed

text \<open>A store at an index that may be new to the table.\<close>

lemma on_table_rawseti_new:
  assumes "on_table L0 p c m (st @ [v]) L" "index_ok i" "l_heap L p = Some t" "live_count t < MAXASIZE"
  obtains L' where "lua_rawseti L 1 i = Inr L'" "on_table L0 p c (upd m i v) st L'"
proof -
  obtain g where L: "L = L0\<lparr>l_heap := (l_heap L0)(p \<mapsto> t), l_gc := g, stk := TTable p # c # (st @ [v])\<rparr>" "wf_table t" "tget t = m"
    using assms(1,3) by (auto simp: on_table_def)
  note r = index_ok_range [OF assms(2)]
  obtain g' t' s where s: "luaH_setnum g t i = Inr (g', t', s)" "set_ok t (TNumber (cast_num i)) t' s"
    using luaH_setnum_total [OF L(2) r assms(4)] by blast
  note st = set_ok_store [OF s(2) valid_key_int [OF r], of v]
  have "lua_rawseti L 1 i = Inr (L0\<lparr>l_heap := (l_heap L0)(p \<mapsto> set_slot t' s v), l_gc := luaC_barriert g' (t_self t') v, stk := TTable p # c # st\<rparr>)"
    using s(1) on_table_arg1 [OF assms(1)]
    by (simp add: lua_rawseti_def lua_rawseti_table_def stack_top_def hvalue_def set_table_def pop_def L(1))
  moreover have "tget (set_slot t' s v) = upd m i v"
    by (rule ext) (simp add: st(2) upd_def L(3) del: luaO_rawequalObj.simps)
  ultimately show thesis using that st(1) by (auto simp: on_table_def)
qed

lemma move_up_new:
  assumes "on_table L0 p c m st L" "l_heap L p = Some t" "live_count t < MAXASIZE" "1 \<le> pos" "pos \<le> e" "e + 1 < 2 ^ 31"
    "\<forall>x\<in>{pos..e}. at m x \<noteq> TNil" "length st + 3 \<le> slots L0"
  shows "\<exists>L' m'. move_up L pos (e + 1) = Inr L' \<and> on_table L0 p c m' st L' \<and> elsewhere pos (e + 1) m m' \<and>
    (\<forall>x. index_ok x \<longrightarrow> at m' x = (if pos < x \<and> x \<le> e + 1 then at m (x - 1) else at m x))"
proof -
  have ok: "index_ok e" "index_ok (e + 1)" using assms(4-6) by (auto simp: index_ok_def)
  let ?m1 = "upd m (e + 1) (at m e)"
  obtain L1 where 1: "lua_rawgeti L 1 e = Inr L1" "on_table L0 p c m (st @ [at m e]) L1"
    using on_table_rawgeti [OF assms(1) ok(1) assms(8)] by blast
  have h1: "l_heap L1 p = Some t" using 1(1) on_table_arg1 [OF assms(1)] assms(2)
    by (auto simp: lua_rawgeti_def hvalue_def push_def bind_result_Inr_conv split: if_splits)
  obtain L2 where 2: "lua_rawseti L1 1 (e + 1) = Inr L2" "on_table L0 p c ?m1 st L2"
    using on_table_rawseti_new [OF 1(2) ok(2) h1 assms(3)] by blast
  have at1: "at ?m1 i = (if i = e + 1 then at m e else at m i)" if "index_ok i" for i
    using at_upd [OF ok(2) that] by auto
  have ne: "\<forall>x\<in>{pos..e}. at ?m1 x \<noteq> TNil" using at1 assms(4,6,7) by (auto simp: index_ok_def)
  obtain L3 m3 where 3: "move_up L2 pos e = Inr L3" "on_table L0 p c m3 st L3" "elsewhere pos e ?m1 m3"
    "\<forall>x. index_ok x \<longrightarrow> at m3 x = (if pos < x \<and> x \<le> e then at ?m1 (x - 1) else at ?m1 x)"
    using move_up_ok [OF 2(2) assms(4) _ ne assms(8)] assms(6) by auto
  have "move_up L pos (e + 1) = Inr L3" using 1(1) 2(1) 3(1) assms(5) by (subst move_up.simps) simp
  moreover have "elsewhere pos (e + 1) m m3" using elsewhere_trans [OF elsewhere_upd 3(3)] assms(5) by auto
  moreover have "at m3 x = (if pos < x \<and> x \<le> e + 1 then at m (x - 1) else at m x)" if "index_ok x" for x
  proof -
    have "pos < x \<Longrightarrow> index_ok (x - 1)" using that assms(4) by (auto simp: index_ok_def)
    then show ?thesis using that 3(4) at1 [of x] at1 [of "x - 1"] assms(5) by (cases "x = e + 1") auto
  qed
  ultimately show ?thesis using 3(2) by blast
qed

lemma aux_getn_ok:
  assumes "index_value L 1 = Inr (TTable p)" "stk L ! 0 = TTable p" "stk L \<noteq> []" "l_heap L p = Some t" "luaH_getn t = Inr n" "int n < 2 ^ 31"
  shows "aux_getn C L 1 = Inr (int n, L)"
proof -
  have "cast_int (int n) = int n" using assms(6) by (intro cast_int_id) (simp add: INT_MAX_def INT_MIN_def)
  then show ?thesis using assms(2-5)
    by (simp add: aux_getn_def luaL_checktype_def lua_type_def index2adr_def value_at_def luaL_getn_def lua_objlen_def hvalue_def)
qed

lemma on_table_start:
  assumes "stk L = TTable p # c # st" "l_heap L p = Some t" "wf_table t"
  shows "on_table L p c (tget t) st L"
  unfolding on_table_def using assms by (intro exI [of _ t] exI [of _ "l_gc L"]) (simp add: fun_upd_idem)

lemma on_table_heap: "on_table L0 p c m st L \<Longrightarrow> \<exists>t. l_heap L = (l_heap L0)(p \<mapsto> t) \<and> wf_table t \<and> tget t = m"
  by (auto simp: on_table_def)

lemma on_table_results:
  "on_table L0 p c m (st @ vs) L \<Longrightarrow> n = length vs \<Longrightarrow> results n L = Inr (vs, L)"
  by (drule on_table_stk(1)) (simp add: results_def)

section \<open>Properties\<close>

text \<open>
  \<open>table.remove(t, pos)\<close> on an array of \<open>n\<close> non-nil elements with \<open>pos\<close> inside returns
  the element at \<open>pos\<close>, moves those above it one down, leaves nil at \<open>n\<close> and every other key as it was.
\<close>

theorem tremove_correct:
  assumes "stk L = [TTable p, TInt pos]" "6 \<le> slots L" "l_heap L p = Some t" "wf_table t" "luaH_getn t = Inr n" "int n < 2 ^ 31"
    "1 \<le> pos" "pos \<le> int n" "\<forall>i\<in>{1..int n}. at (tget t) i \<noteq> TNil"
  shows "\<exists>L' t'. tremove C L = Inr ([at (tget t) pos], L') \<and> l_heap L' = (l_heap L)(p \<mapsto> t') \<and> wf_table t' \<and>
    (\<forall>i\<in>{1..int n}. at (tget t') i = (if i < pos then at (tget t) i else if i < int n then at (tget t) (i + 1) else TNil)) \<and>
    elsewhere pos (int n) (tget t) (tget t')"
proof -
  let ?m = "tget t" and ?e = "int n"
  have ok: "index_ok i" if "1 \<le> i" "i \<le> ?e" for i using that assms(6) by (simp add: index_ok_def)
  have r: "int_range pos" using index_ok_range [OF ok [OF assms(7,8)]] .
  have "luaL_checkinteger C L 2 = Inr pos"
    using arg_number(1) [of 2 L "integer2number pos" C] assms(1) r number2integer_integer2number by simp
  then have opt: "luaL_optint C L 2 ?e = Inr pos"
    using assms(1) cast_int_id [OF r]
    by (simp add: luaL_optint_def luaL_optinteger_def luaL_opt_def lua_isnoneornil_def lua_type_def index2adr_def value_at_def)
  note on = on_table_start [of L p "TInt pos" "[]", OF assms(1,3,4)]
  have getn: "aux_getn C L 1 = Inr (?e, L)"
    by (rule aux_getn_ok [OF on_table_arg1 [OF on]]) (use assms in simp_all)
  obtain L1 where 1: "lua_rawgeti L 1 pos = Inr L1" "on_table L p (TInt pos) ?m [at ?m pos] L1"
    using on_table_rawgeti [OF on ok [OF assms(7,8)]] assms(2) by auto
  obtain L2 m2 where 2: "move_down L1 pos ?e = Inr L2" "on_table L p (TInt pos) m2 [at ?m pos] L2" "elsewhere pos ?e ?m m2"
    "\<forall>x. index_ok x \<longrightarrow> at m2 x = (if pos \<le> x \<and> x < ?e then at ?m (x + 1) else at ?m x)"
    using move_down_ok [OF 1(2) assms(7,6)] assms(2,7,9) by auto
  have 3: "lua_pushnil L2 = Inr (L2\<lparr>stk := TTable p # TInt pos # ([at ?m pos] @ [TNil])\<rparr>)"
    using on_table_stk [OF 2(2)] assms(2) by (simp add: lua_pushnil_def push_def)
  note on3 = on_table_restack [OF 2(2), of "[at ?m pos] @ [TNil]"]
  have e: "index_ok ?e" "at m2 ?e \<noteq> TNil" using ok [of ?e] 2(4) assms(7-9) by auto
  obtain L4 where 4: "lua_rawseti (L2\<lparr>stk := TTable p # TInt pos # ([at ?m pos] @ [TNil])\<rparr>) 1 ?e = Inr L4"
    "on_table L p (TInt pos) (upd m2 ?e TNil) [at ?m pos] L4"
    using on_table_rawseti [OF on3 e] by blast
  have "tremove C L = Inr ([at ?m pos], L4)"
    using getn opt 1 2(1) 3 4(1) on_table_results [of L p "TInt pos" "upd m2 ?e TNil" "[]" "[at ?m pos]" L4 1] 4(2) assms(7,8)
    by (simp add: tremove_def)
  moreover obtain t' where "l_heap L4 = (l_heap L)(p \<mapsto> t')" "wf_table t'" "tget t' = upd m2 ?e TNil"
    using on_table_heap [OF 4(2)] by blast
  moreover have "elsewhere pos ?e ?m (upd m2 ?e TNil)" using elsewhere_trans [OF 2(3) elsewhere_upd] assms(8) by auto
  ultimately show ?thesis using ok e(1) 2(4) assms(8) by (intro exI [of _ L4] exI [of _ t']) (auto simp: at_upd)
qed

theorem tremove_correct_witness:
  "\<forall>C. \<exists>L' t'. tremove C (array_state [TStr ''a'', TStr ''b'', TStr ''c''] [TInt 2]) = Inr ([TStr ''b''], L') \<and>
     l_heap L' 1 = Some t' \<and> at (tget t') 2 = TStr ''c'' \<and> at (tget t') 3 = TNil"
proof
  fix C
  let ?vs = "[TStr ''a'', TStr ''b'', TStr ''c'']"
  have at: "at (tget (array_table ?vs)) 1 = TStr ''a''" "at (tget (array_table ?vs)) 2 = TStr ''b''" "at (tget (array_table ?vs)) 3 = TStr ''c''"
    using array_table_at [of ?vs 1] array_table_at [of ?vs 2] array_table_at [of ?vs 3]
    by (simp_all add: MAXASIZE_def MAXBITS_def numeral_3_eq_3)
  have iv: "{1..3::int} = {1, 2, 3}" by auto
  show "\<exists>L' t'. tremove C (array_state ?vs [TInt 2]) = Inr ([TStr ''b''], L') \<and>
     l_heap L' 1 = Some t' \<and> at (tget t') 2 = TStr ''c'' \<and> at (tget t') 3 = TNil"
    using tremove_correct [of "array_state ?vs [TInt 2]" 1 2 "array_table ?vs" 3 C] array_table_wf [of ?vs] array_table_getn [of ?vs] at
    by (simp add: array_state_def MAXASIZE_def MAXBITS_def iv) fastforce
qed

text \<open>
  \<open>table.insert(t, pos, v)\<close> on an array of \<open>n\<close> non-nil elements with \<open>pos\<close> from 1 to
  \<open>n + 1\<close>, in a table that has capacity for one more: the elements from \<open>pos\<close> on move one up, \<open>v\<close>
  is stored at \<open>pos\<close>, every other key keeps its value.
\<close>

theorem tinsert_correct:
  assumes "stk L = [TTable p, TInt pos, v]" "6 \<le> slots L" "l_heap L p = Some t" "wf_table t" "live_count t < MAXASIZE"
    "luaH_getn t = Inr n" "int n + 1 < 2 ^ 31" "1 \<le> pos" "pos \<le> int n + 1" "\<forall>i\<in>{1..int n}. at (tget t) i \<noteq> TNil"
  shows "\<exists>L' t'. tinsert C L = Inr ([], L') \<and> l_heap L' = (l_heap L)(p \<mapsto> t') \<and> wf_table t' \<and>
    (\<forall>i\<in>{1..int n + 1}. at (tget t') i = (if i < pos then at (tget t) i else if i = pos then v else at (tget t) (i - 1))) \<and>
    elsewhere pos (int n + 1) (tget t) (tget t')"
proof -
  let ?m = "tget t" and ?e = "int n + 1"
  have ok: "index_ok i" if "1 \<le> i" "i \<le> ?e" for i using that assms(7) by (simp add: index_ok_def)
  have r: "int_range pos" using index_ok_range [OF ok [OF assms(8,9)]] .
  have arg: "luaL_checkint C L 2 = Inr pos" using arg_int [of 2 L pos C] assms(1) r by simp
  have e: "cast_int ?e = ?e" using index_ok_range [OF ok [of ?e]] assms(8,9) by (intro cast_int_id) simp
  note on = on_table_start [of L p "TInt pos" "[v]", OF assms(1,3,4)]
  have getn: "aux_getn C L 1 = Inr (int n, L)"
    by (rule aux_getn_ok [OF on_table_arg1 [OF on]]) (use assms in simp_all)
  have top: "lua_gettop L = 3" using assms(1) by (simp add: lua_gettop_def)
  have body: "tinsert C L = bind_result (move_up L pos ?e) (\<lambda>L. bind_result (lua_rawseti L 1 pos) (results 0))"
    using getn arg e top assms(9) by (simp add: tinsert_def bind_result_assoc)
  show ?thesis
  proof (cases "pos = ?e")
    case True
    obtain L1 where 1: "lua_rawseti L 1 pos = Inr L1" "on_table L p (TInt pos) (upd ?m pos v) [] L1"
      using on_table_rawseti_new [of L p "TInt pos" ?m "[]" v L pos t] on ok [OF assms(8,9)] assms(3,5) by auto
    have "move_up L pos ?e = Inr L" using True by (subst move_up.simps) simp
    then have "tinsert C L = Inr ([], L1)"
      using body 1(1) on_table_results [of L p "TInt pos" _ "[]" "[]" L1 0] 1(2) by simp
    moreover obtain t' where "l_heap L1 = (l_heap L)(p \<mapsto> t')" "wf_table t'" "tget t' = upd ?m pos v"
      using on_table_heap [OF 1(2)] by blast
    ultimately show ?thesis using ok True assms(8) by (intro exI [of _ L1] exI [of _ t']) (auto simp: at_upd elsewhere_upd)
  next
    case False
    then have pe: "pos < ?e" "pos \<le> int n" "1 \<le> int n" using assms(8,9) by auto
    obtain L3 m3 where 3: "move_up L pos ?e = Inr L3" "on_table L p (TInt pos) m3 [v] L3" "elsewhere pos ?e ?m m3"
      "\<forall>x. index_ok x \<longrightarrow> at m3 x = (if pos < x \<and> x \<le> ?e then at ?m (x - 1) else at ?m x)"
      using move_up_new [OF on assms(3,5,8) pe(2) assms(7)] assms(2,8,10) by auto
    have p: "index_ok pos" "at m3 pos \<noteq> TNil" using ok [OF assms(8,9)] 3(4) pe assms(8,10) by auto
    obtain L4 where 4: "lua_rawseti L3 1 pos = Inr L4" "on_table L p (TInt pos) (upd m3 pos v) [] L4"
      using on_table_rawseti [of L p "TInt pos" m3 "[]" v L3 pos] 3(2) p by auto
    have "tinsert C L = Inr ([], L4)"
      using body 3(1) 4(1) on_table_results [of L p "TInt pos" _ "[]" "[]" L4 0] 4(2) by simp
    moreover obtain t' where "l_heap L4 = (l_heap L)(p \<mapsto> t')" "wf_table t'" "tget t' = upd m3 pos v"
      using on_table_heap [OF 4(2)] by blast
    moreover have "elsewhere pos ?e ?m (upd m3 pos v)"
      by (rule elsewhere_trans [OF 3(3) elsewhere_upd [of pos pos ?e]]) (use assms(9) in auto)
    moreover have "at (upd m3 pos v) i = (if i < pos then at ?m i else if i = pos then v else at ?m (i - 1))"
      if "1 \<le> i" "i \<le> ?e" for i
      using that ok [OF that] p(1) 3(4) by (auto simp: at_upd)
    ultimately show ?thesis by (intro exI [of _ L4] exI [of _ t']) auto
  qed
qed

theorem tinsert_correct_witness:
  "\<forall>C. \<exists>L' t'. tinsert C (array_state [TStr ''a'', TStr ''c''] [TInt 2, TStr ''b'']) = Inr ([], L') \<and>
     l_heap L' 1 = Some t' \<and> at (tget t') 2 = TStr ''b'' \<and> at (tget t') 3 = TStr ''c''"
proof
  fix C
  let ?vs = "[TStr ''a'', TStr ''c'']"
  have at: "at (tget (array_table ?vs)) 1 = TStr ''a''" "at (tget (array_table ?vs)) 2 = TStr ''c''"
    using array_table_at [of ?vs 1] array_table_at [of ?vs 2] by (simp_all add: MAXASIZE_def MAXBITS_def)
  have iv: "{1..2::int} = {1, 2}" "{1..3::int} = {1, 2, 3}" by auto
  have lc: "live_count (array_table ?vs) < MAXASIZE"
    by (simp add: live_count_def live_slots_def array_table_def dummynode_def MAXASIZE_def MAXBITS_def upt_rec)
  show "\<exists>L' t'. tinsert C (array_state ?vs [TInt 2, TStr ''b'']) = Inr ([], L') \<and>
     l_heap L' 1 = Some t' \<and> at (tget t') 2 = TStr ''b'' \<and> at (tget t') 3 = TStr ''c''"
    using tinsert_correct [of "array_state ?vs [TInt 2, TStr ''b'']" 1 2 "TStr ''b''" "array_table ?vs" 2 C]
      array_table_wf [of ?vs] array_table_getn [of ?vs] at lc
    by (simp add: array_state_def MAXASIZE_def MAXBITS_def iv) fastforce
qed

end
