(* ===== verification/Ltablib_sort.thy ===== *)
theory Ltablib_sort
  imports Ltablib_frame "HOL-Library.Multiset"
begin

text \<open>
  The quicksort of the table library, proved for every comparison that decides a strict weak order
  (the locale \<open>sort_order\<close>): it returns, the array is sorted, its elements are the same and
  nothing else has changed. The default order of numbers and of strings are interpretations.
\<close>

subsection \<open>Rearrangements\<close>

definition swap_at :: "contents \<Rightarrow> int \<Rightarrow> int \<Rightarrow> contents" where
  "swap_at m i j = upd (upd m i (at m j)) j (at m i)"

definition values_in :: "contents \<Rightarrow> int \<Rightarrow> int \<Rightarrow> TValue multiset" where
  "values_in m l u = image_mset (at m) (mset_set {l..u})"

text \<open>The values of the interval in another order, every other key as before.\<close>

definition rearranged :: "int \<Rightarrow> int \<Rightarrow> contents \<Rightarrow> contents \<Rightarrow> bool" where
  "rearranged l u m m' \<longleftrightarrow> values_in m' l u = values_in m l u \<and>
     (\<forall>k. (\<forall>i\<in>{l..u}. \<not> luaO_rawequalObj (TNumber (cast_num i)) k) \<longrightarrow> m' k = m k)"

lemma at_swap:
  "index_ok i \<Longrightarrow> index_ok j \<Longrightarrow> index_ok x \<Longrightarrow>
   at (swap_at m i j) x = (if x = i then at m j else if x = j then at m i else at m x)"
  by (auto simp: swap_at_def at_upd)

lemma rearranged_refl [simp]: "rearranged l u m m"
  by (simp add: rearranged_def)

lemma rearranged_trans: "rearranged l u m m' \<Longrightarrow> rearranged l u m' m'' \<Longrightarrow> rearranged l u m m''"
  by (simp add: rearranged_def)

lemma values_in_set: "set_mset (values_in m l u) = at m ` {l..u}"
  by (simp add: values_in_def)

lemma rearranged_values:
  "rearranged l u m m' \<Longrightarrow> \<forall>x\<in>{l..u}. P (at m x) \<Longrightarrow> \<forall>x\<in>{l..u}. P (at m' x)"
proof
  fix x
  assume a: "rearranged l u m m'" "\<forall>x\<in>{l..u}. P (at m x)" "x \<in> {l..u}"
  then have "at m' x \<in> at m ` {l..u}" using values_in_set [of m l u] values_in_set [of m' l u] by (simp add: rearranged_def)
  with a(2) show "P (at m' x)" by auto
qed

lemma rearranged_outside:
  "rearranged l u m m' \<Longrightarrow> index_ok x \<Longrightarrow> x \<notin> {l..u} \<Longrightarrow> 1 \<le> l \<Longrightarrow> u < 2 ^ 31 \<Longrightarrow> at m' x = at m x"
  unfolding rearranged_def at_def
  by (auto simp: rawequal_int_iff [of _ "TNumber (cast_num x)"] index_ok_range arrayindex_int index_ok_def INT_MAX_def INT_MIN_def
      simp del: arrayindex.simps luaO_rawequalObj.simps)

lemma values_in_split:
  assumes "l \<le> j" "i \<le> u" "j \<le> i + 1"
  shows "values_in m l u = values_in m l (j - 1) + values_in m j i + values_in m (i + 1) u"
proof -
  have "{l..u} = {l..j - 1} \<union> {j..i} \<union> {i + 1..u}" using assms by auto
  moreover have "mset_set ({l..j - 1} \<union> {j..i} \<union> {i + 1..u}) = mset_set {l..j - 1} + mset_set {j..i} + mset_set {i + 1..u}"
    using mset_set_Union [of "{l..j - 1}" "{j..i}"] mset_set_Union [of "{l..j - 1} \<union> {j..i}" "{i + 1..u}"] assms
    by (fastforce simp: disjoint_iff)
  ultimately show ?thesis by (simp add: values_in_def)
qed

lemma rearranged_widen:
  assumes "rearranged j i m m'" "l \<le> j" "i \<le> u" "j \<le> i + 1" "1 \<le> l" "u < 2 ^ 31"
  shows "rearranged l u m m'"
proof -
  have "at m' x = at m x" if "x \<in> {l..j - 1} \<union> {i + 1..u}" for x
    by (rule rearranged_outside [OF assms(1)]) (use that assms(2-6) in \<open>auto simp: index_ok_def\<close>)
  then have "values_in m' l (j - 1) = values_in m l (j - 1)" "values_in m' (i + 1) u = values_in m (i + 1) u"
    unfolding values_in_def by (auto intro!: image_mset_cong)
  moreover have "values_in m' j i = values_in m j i" using assms(1) by (simp add: rearranged_def)
  ultimately show ?thesis using assms values_in_split [OF assms(2-4)] by (auto simp: rearranged_def)
qed

lemma rearranged_swap:
  assumes "l \<le> i" "i \<le> u" "l \<le> j" "j \<le> u" "1 \<le> l" "u < 2 ^ 31"
  shows "rearranged l u m (swap_at m i j)"
proof -
  let ?r = "\<lambda>x. if x = i then j else if x = j then i else x"
  have ok: "index_ok x" if "x \<in> {l..u}" for x using that assms by (auto simp: index_ok_def)
  have inj: "inj_on ?r {l..u}" by (auto simp: inj_on_def)
  have img: "?r ` {l..u} = {l..u}" by (rule endo_inj_surj [OF _ _ inj]) (use assms in auto)
  have "values_in (swap_at m i j) l u = image_mset (at m \<circ> ?r) (mset_set {l..u})"
    unfolding values_in_def by (rule image_mset_cong) (use ok assms in \<open>auto simp: at_swap\<close>)
  also have "\<dots> = image_mset (at m) (image_mset ?r (mset_set {l..u}))" by (simp add: image_mset.compositionality)
  also have "image_mset ?r (mset_set {l..u}) = mset_set {l..u}"
    by (simp only: image_mset_mset_set [OF inj] img)
  finally show ?thesis using assms by (auto simp: rearranged_def values_in_def swap_at_def upd_def simp del: luaO_rawequalObj.simps)
qed

lemma on_table_set2:
  assumes "on_table L0 p c m (st @ [at m i, at m j]) L" "index_ok i" "index_ok j" "at m i \<noteq> TNil" "at m j \<noteq> TNil"
  obtains L' where "set2 L i j = Inr L'" "on_table L0 p c (swap_at m i j) st L'"
proof -
  obtain L1 where 1: "lua_rawseti L 1 i = Inr L1" "on_table L0 p c (upd m i (at m j)) (st @ [at m i]) L1"
    using on_table_rawseti [of L0 p c m "st @ [at m i]" "at m j" L i] assms by auto
  obtain L2 where 2: "lua_rawseti L1 1 j = Inr L2" "on_table L0 p c (upd (upd m i (at m j)) j (at m i)) st L2"
    using on_table_rawseti [OF 1(2) assms(3)] assms(2-5) by (auto simp: at_upd)
  from 1 2 show thesis using that by (simp add: set2_def swap_at_def)
qed


subsection \<open>The sort under an order\<close>

text \<open>
  What the sort relies on: a comparison of two values on the stack returns, leaves the state as
  it was and decides a strict weak order \<open>lt\<close> on the values \<open>V\<close>, which do not include nil.
\<close>

locale sort_order =
  fixes H :: "lua_State host" and c :: TValue and V :: "TValue set" and lt :: "TValue \<Rightarrow> TValue \<Rightarrow> bool"
  assumes compare: "stk L = TTable p # c # st \<Longrightarrow> length st \<le> 5 \<Longrightarrow> 10 \<le> slots L \<Longrightarrow> i < length st \<Longrightarrow> j < length st \<Longrightarrow>
      st ! i \<in> V \<Longrightarrow> st ! j \<in> V \<Longrightarrow>
      sort_comp H L (int i - int (length st)) (int j - int (length st)) = Inr (lt (st ! i) (st ! j), L)"
    and not_nil: "TNil \<notin> V"
    and asym: "x \<in> V \<Longrightarrow> y \<in> V \<Longrightarrow> lt x y \<Longrightarrow> \<not> lt y x"
    and le_trans: "x \<in> V \<Longrightarrow> y \<in> V \<Longrightarrow> z \<in> V \<Longrightarrow> \<not> lt y x \<Longrightarrow> \<not> lt z y \<Longrightarrow> \<not> lt z x"
begin

definition ready :: "lua_State \<Rightarrow> contents \<Rightarrow> int \<Rightarrow> int \<Rightarrow> bool" where
  "ready L0 m l u \<longleftrightarrow> 10 \<le> slots L0 \<and> 1 \<le> l \<and> u < 2 ^ 31 \<and> (\<forall>x\<in>{l..u}. at m x \<in> V)"

lemma readyD:
  assumes "ready L0 m l u" "l \<le> x" "x \<le> u"
  shows "index_ok x" "at m x \<in> V" "at m x \<noteq> TNil"
proof -
  show "index_ok x" "at m x \<in> V" using assms by (auto simp: ready_def index_ok_def)
  then show "at m x \<noteq> TNil" using not_nil by metis
qed

lemma ready_slots: "ready L0 m l u \<Longrightarrow> 10 \<le> slots L0"
  by (simp add: ready_def)

lemma ready_rearranged: "ready L0 m l u \<Longrightarrow> rearranged l u m m' \<Longrightarrow> ready L0 m' l u"
  using rearranged_values [of l u m m' "\<lambda>v. v \<in> V"] by (simp add: ready_def)

lemma ready_subset: "ready L0 m l u \<Longrightarrow> l \<le> j \<Longrightarrow> i \<le> u \<Longrightarrow> ready L0 m j i"
  by (auto simp: ready_def)

lemma compare_top:
  assumes "on_table L0 p c m st L" "length st \<le> 5" "10 \<le> slots L0" "st ! i \<in> V" "st ! j \<in> V" "i < length st" "j < length st"
    "a = int i - int (length st)" "b = int j - int (length st)"
  shows "sort_comp H L a b = Inr (lt (st ! i) (st ! j), L)"
  using compare [of L p st i j] on_table_stk [OF assms(1)] assms(2-) by simp

lemma scan_up_ok:
  assumes "on_table L0 p c m [P] L" "P \<in> V" "ready L0 m l u" "l \<le> i" "i < k" "k \<le> u" "\<not> lt (at m k) P"
  shows "\<exists>i' L'. scan_up H u L i = Inr (i', L') \<and> on_table L0 p c m [P, at m i'] L' \<and> i < i' \<and> i' \<le> k \<and>
    \<not> lt (at m i') P \<and> (\<forall>x. i < x \<and> x < i' \<longrightarrow> lt (at m x) P)"
  using assms(1,4,5)
proof (induction "nat (k - i)" arbitrary: i L rule: less_induct)
  case less
  note rd = readyD [OF assms(3)] and sl = ready_slots [OF assms(3)]
  have i1: "l \<le> i + 1" "i + 1 \<le> u" using less.prems assms(6) by auto
  obtain L1 where 1: "lua_rawgeti L 1 (i + 1) = Inr L1" "on_table L0 p c m [P, at m (i + 1)] L1"
    using on_table_rawgeti [OF less.prems(1) rd(1) [OF i1]] sl by auto
  have 2: "sort_comp H L1 (- 1) (- 2) = Inr (lt (at m (i + 1)) P, L1)"
    using compare_top [OF 1(2), of 1 0] assms(2) rd(2) [OF i1] sl by simp
  show ?case
  proof (cases "lt (at m (i + 1)) P")
    case False
    then show ?thesis using 1 2 less.prems by (subst scan_up.simps) auto
  next
    case True
    then have k: "i + 1 < k" using assms(7) less.prems by (cases "i + 1 = k") auto
    obtain L2 where 3: "lua_pop L1 1 = Inr L2" "on_table L0 p c m [P] L2"
      using on_table_pop [of L0 p c m "[P]" "[at m (i + 1)]" L1 1] 1(2) by auto
    obtain i' L' where 4: "scan_up H u L2 (i + 1) = Inr (i', L')" "on_table L0 p c m [P, at m i'] L'" "i + 1 < i'" "i' \<le> k"
      "\<not> lt (at m i') P" "\<forall>x. i + 1 < x \<and> x < i' \<longrightarrow> lt (at m x) P"
      using less.hyps [of "i + 1" L2] k i1 3(2) by auto
    have "scan_up H u L i = Inr (i', L')" using 1 2 3 4 True k assms(6) by (subst scan_up.simps) auto
    moreover have "\<forall>x. i < x \<and> x < i' \<longrightarrow> lt (at m x) P" using 4(6) True by (metis add1_zle_eq order_le_less)
    ultimately show ?thesis using 4 by auto
  qed
qed

lemma scan_down_ok:
  assumes "on_table L0 p c m [P, a] L" "P \<in> V" "ready L0 m l u" "j \<le> u" "k < j" "l \<le> k" "\<not> lt P (at m k)"
  shows "\<exists>j' L'. scan_down H l L j = Inr (j', L') \<and> on_table L0 p c m [P, a, at m j'] L' \<and> j' < j \<and> k \<le> j' \<and>
    \<not> lt P (at m j') \<and> (\<forall>x. j' < x \<and> x < j \<longrightarrow> lt P (at m x))"
  using assms(1,4,5)
proof (induction "nat (j - k)" arbitrary: j L rule: less_induct)
  case less
  note rd = readyD [OF assms(3)] and sl = ready_slots [OF assms(3)]
  have j1: "l \<le> j - 1" "j - 1 \<le> u" using less.prems assms(6) by auto
  obtain L1 where 1: "lua_rawgeti L 1 (j - 1) = Inr L1" "on_table L0 p c m [P, a, at m (j - 1)] L1"
    using on_table_rawgeti [OF less.prems(1) rd(1) [OF j1]] sl by auto
  have 2: "sort_comp H L1 (- 3) (- 1) = Inr (lt P (at m (j - 1)), L1)"
    using compare_top [OF 1(2), of 0 2] assms(2) rd(2) [OF j1] sl by simp
  show ?case
  proof (cases "lt P (at m (j - 1))")
    case False
    then show ?thesis using 1 2 less.prems by (subst scan_down.simps) auto
  next
    case True
    then have k: "k < j - 1" using assms(7) less.prems by (cases "j - 1 = k") auto
    obtain L2 where 3: "lua_pop L1 1 = Inr L2" "on_table L0 p c m [P, a] L2"
      using on_table_pop [of L0 p c m "[P, a]" "[at m (j - 1)]" L1 1] 1(2) by auto
    obtain j' L' where 4: "scan_down H l L2 (j - 1) = Inr (j', L')" "on_table L0 p c m [P, a, at m j'] L'" "j' < j - 1" "k \<le> j'"
      "\<not> lt P (at m j')" "\<forall>x. j' < x \<and> x < j - 1 \<longrightarrow> lt P (at m x)"
      using less.hyps [of "j - 1" L2] k j1 3(2) by auto
    have "scan_down H l L j = Inr (j', L')" using 1 2 3 4 True k assms(6) by (subst scan_down.simps) auto
    moreover have "\<forall>x. j' < x \<and> x < j \<longrightarrow> lt P (at m x)" using 4(6) True by (metis zle_diff1_eq order_le_less)
    ultimately show ?thesis using 4 by auto
  qed
qed


text \<open>What the loop has established left of \<open>i\<close> and right of \<open>j\<close>, for the pivot \<open>P\<close> at \<open>u - 1\<close>.\<close>

definition split_at :: "contents \<Rightarrow> TValue \<Rightarrow> int \<Rightarrow> int \<Rightarrow> int \<Rightarrow> int \<Rightarrow> bool" where
  "split_at m P l u i j \<longleftrightarrow> at m (u - 1) = P \<and> (\<forall>x. l \<le> x \<and> x \<le> i \<longrightarrow> \<not> lt P (at m x)) \<and>
     (\<forall>x. j \<le> x \<and> x \<le> u \<longrightarrow> \<not> lt (at m x) P)"

lemma split_scanned:
  assumes "split_at m P l u i j" "P \<in> V" "ready L0 m l u" "l \<le> i" "j \<le> u" "i' \<le> u" "l \<le> j'"
    "\<forall>x. i < x \<and> x < i' \<longrightarrow> lt (at m x) P" "\<forall>x. j' < x \<and> x < j \<longrightarrow> lt P (at m x)"
  shows "l \<le> x \<Longrightarrow> x < i' \<Longrightarrow> \<not> lt P (at m x)" "j' < x \<Longrightarrow> x \<le> u \<Longrightarrow> \<not> lt (at m x) P"
proof -
  show "\<not> lt P (at m x)" if "l \<le> x" "x < i'"
    using that assms readyD(2) [OF assms(3), of x] asym [of "at m x" P] by (cases "x \<le> i") (auto simp: split_at_def)
  show "\<not> lt (at m x) P" if "j' < x" "x \<le> u"
    using that assms readyD(2) [OF assms(3), of x] asym [of P "at m x"] by (cases "j \<le> x") (auto simp: split_at_def)
qed

lemma partition_ok:
  assumes "P \<in> V" "on_table L0 p c m [P] L" "ready L0 m l u" "l \<le> i" "j \<le> u - 1" "i < j \<or> l < i \<and> i = j \<and> j < u - 1"
    "split_at m P l u i j"
  shows "\<exists>i' L' m'. partition_loop H l u L i j = Inr (i', L') \<and> on_table L0 p c m' [] L' \<and> rearranged l u m m' \<and>
    l < i' \<and> i' \<le> u - 1 \<and> split_at m' P l u (i' - 1) i'"
  using assms(2-)
proof (induction "nat (j + 1 - i)" arbitrary: i j m L rule: less_induct)
  case less
  note pr = less.prems and rd = readyD [OF less.prems(2)]
  define k where "k = (if i < j then j else j + 1)"
  define k' where "k' = (if i < j then i else i - 1)"
  have k: "i < k" "k \<le> u - 1" "\<not> lt (at m k) P" and k': "k' < j" "l \<le> k'" "\<not> lt P (at m k')" "k \<le> j + 1"
    using pr(3-6) by (auto simp: k_def k'_def split_at_def)
  obtain i' L1 where 1: "scan_up H u L i = Inr (i', L1)" "on_table L0 p c m [P, at m i'] L1" "i < i'" "i' \<le> k"
    "\<not> lt (at m i') P" "\<forall>x. i < x \<and> x < i' \<longrightarrow> lt (at m x) P"
    using scan_up_ok [OF pr(1) assms(1) pr(2,3) k(1) _ k(3)] k(2) by auto
  obtain j' L2 where 2: "scan_down H l L1 j = Inr (j', L2)" "on_table L0 p c m [P, at m i', at m j'] L2" "j' < j" "k' \<le> j'"
    "\<not> lt P (at m j')" "\<forall>x. j' < x \<and> x < j \<longrightarrow> lt P (at m x)"
    using scan_down_ok [OF 1(2) assms(1) pr(2) _ k'(1-3)] pr(4) by auto
  have sc1: "\<not> lt P (at m x)" if "l \<le> x" "x < i'" for x
    by (rule split_scanned(1) [OF pr(6) assms(1) pr(2,3) _ _ _ 1(6) 2(6) that]) (use pr(4) k k' 1(4) 2(4) in linarith)+
  have sc2: "\<not> lt (at m x) P" if "j' < x" "x \<le> u" for x
    by (rule split_scanned(2) [OF pr(6) assms(1) pr(2,3) _ _ _ 1(6) 2(6) that]) (use pr(4) k k' 1(4) 2(4) in linarith)+
  have eqP: "at m (u - 1) = P" using pr(6) by (simp add: split_at_def)
  show ?case
  proof (cases "j' < i'")
    case True
    obtain L3 where 3: "lua_pop L2 3 = Inr L3" "on_table L0 p c m [] L3"
      using on_table_pop [of L0 p c m "[]" "[P, at m i', at m j']" L2 3] 2(2) by auto
    have "split_at m P l u (i' - 1) i'"
      using sc1 sc2 eqP True by (simp add: split_at_def)
    moreover have "partition_loop H l u L i j = Inr (i', L3)" using 1 2 3 True by (subst partition_loop.simps) simp
    moreover have "l < i'" "i' \<le> u - 1" using 1(3,4) k(2) pr(3) by linarith+
    ultimately show ?thesis using 3(2) rearranged_refl by blast
  next
    case False
    let ?m = "swap_at m i' j'"
    have ij: "l < i'" "i' \<le> j'" "j' < u - 1" using False 1(3) 2(3) pr(3,4) by auto
    obtain L3 where 3: "set2 L2 i' j' = Inr L3" "on_table L0 p c ?m [P] L3"
      using on_table_set2 [of L0 p c m "[P]" i' j' L2] 2(2) rd [of i'] rd [of j'] ij by auto
    have ok: "index_ok x" if "l \<le> x" "x \<le> u" for x using rd(1) that by blast
    have re: "rearranged l u m ?m" by (rule rearranged_swap) (use ij pr(2) in \<open>auto simp: ready_def\<close>)
    have sp: "split_at ?m P l u i' j'"
      using sc1 sc2 1(5) 2(5) eqP ij ok by (simp add: split_at_def at_swap)
    have "\<exists>i2 L' m'. partition_loop H l u L3 i' j' = Inr (i2, L') \<and> on_table L0 p c m' [] L' \<and> rearranged l u ?m m' \<and>
      l < i2 \<and> i2 \<le> u - 1 \<and> split_at m' P l u (i2 - 1) i2"
      by (rule less.hyps [OF _ 3(2) ready_rearranged [OF pr(2) re] _ _ _ sp]) (use ij 1(3) 2(3) pr(4) in linarith)+
    then obtain i2 L' m' where r: "partition_loop H l u L3 i' j' = Inr (i2, L')" "on_table L0 p c m' [] L'" "rearranged l u ?m m'"
      "l < i2" "i2 \<le> u - 1" "split_at m' P l u (i2 - 1) i2" by blast
    have "partition_loop H l u L i j = Inr (i2, L')" using 1 2 3 r False by (subst partition_loop.simps) simp
    then show ?thesis using r rearranged_trans [OF re] by blast
  qed
qed


lemma order_ends_ok:
  assumes "on_table L0 p c m [] L" "ready L0 m l u" "l < u"
  shows "\<exists>L' m'. order_ends H L l u = Inr L' \<and> on_table L0 p c m' [] L' \<and> rearranged l u m m' \<and> \<not> lt (at m' u) (at m' l)"
proof -
  have l: "l \<le> l" "l \<le> u" and u: "l \<le> u" "u \<le> u" using assms(3) by auto
  note rl = readyD [OF assms(2) l] and ru = readyD [OF assms(2) u] and sl = ready_slots [OF assms(2)]
  obtain L1 where 1: "lua_rawgeti L 1 l = Inr L1" "on_table L0 p c m [at m l] L1"
    using on_table_rawgeti [OF assms(1) rl(1)] sl by auto
  obtain L2 where 2: "lua_rawgeti L1 1 u = Inr L2" "on_table L0 p c m [at m l, at m u] L2"
    using on_table_rawgeti [OF 1(2) ru(1)] sl by auto
  have 3: "sort_comp H L2 (- 1) (- 2) = Inr (lt (at m u) (at m l), L2)"
    using compare_top [OF 2(2), of 1 0] rl ru sl by simp
  show ?thesis
  proof (cases "lt (at m u) (at m l)")
    case True
    obtain L3 where 4: "set2 L2 l u = Inr L3" "on_table L0 p c (swap_at m l u) [] L3"
      using on_table_set2 [of L0 p c m "[]" l u L2] 2(2) rl ru by auto
    have "rearranged l u m (swap_at m l u)" by (rule rearranged_swap) (use assms in \<open>auto simp: ready_def\<close>)
    moreover have "\<not> lt (at m l) (at m u)" using asym [of "at m u" "at m l"] True rl ru by blast
    ultimately show ?thesis using 1 2 3 4 True rl ru assms(3) by (auto simp: order_ends_def at_swap)
  next
    case False
    obtain L3 where 4: "lua_pop L2 2 = Inr L3" "on_table L0 p c m [] L3"
      using on_table_pop [of L0 p c m "[]" "[at m l, at m u]" L2 2] 2(2) by auto
    then show ?thesis using 1 2 3 False rearranged_refl by (auto simp: order_ends_def)
  qed
qed

lemma order_middle_ok:
  assumes "on_table L0 p c m [] L" "ready L0 m l u" "l < i" "i < u" and ends: "\<not> lt (at m u) (at m l)"
  shows "\<exists>L' m'. order_middle H L l u i = Inr L' \<and> on_table L0 p c m' [] L' \<and> rearranged l u m m' \<and>
    \<not> lt (at m' i) (at m' l) \<and> \<not> lt (at m' u) (at m' i)"
proof -
  have b: "l \<le> l" "l \<le> u" "l \<le> i" "i \<le> u" "u \<le> u" using assms(3,4) by auto
  note rl = readyD [OF assms(2) b(1,2)] and ri = readyD [OF assms(2) b(3,4)] and ru = readyD [OF assms(2) b(2,5)]
    and sl = ready_slots [OF assms(2)]
  obtain L1 where 1: "lua_rawgeti L 1 i = Inr L1" "on_table L0 p c m [at m i] L1"
    using on_table_rawgeti [OF assms(1) ri(1)] sl by auto
  obtain L2 where 2: "lua_rawgeti L1 1 l = Inr L2" "on_table L0 p c m [at m i, at m l] L2"
    using on_table_rawgeti [OF 1(2) rl(1)] sl by auto
  have 3: "sort_comp H L2 (- 2) (- 1) = Inr (lt (at m i) (at m l), L2)"
    using compare_top [OF 2(2), of 0 1] rl ri sl by simp
  have re: "rearranged l u m (swap_at m i x)" if "x = l \<or> x = u" for x
    by (rule rearranged_swap) (use that assms in \<open>auto simp: ready_def\<close>)
  show ?thesis
  proof (cases "lt (at m i) (at m l)")
    case True
    obtain L3 where 4: "set2 L2 i l = Inr L3" "on_table L0 p c (swap_at m i l) [] L3"
      using on_table_set2 [of L0 p c m "[]" i l L2] 2(2) rl ri by auto
    have "\<not> lt (at m l) (at m i)" using asym [of "at m i" "at m l"] True rl ri by blast
    then show ?thesis using 1 2 3 4 True rl ri ru assms(3,4) re [of l] ends by (auto simp: order_middle_def at_swap)
  next
    case False
    obtain L3 where 4: "lua_pop L2 1 = Inr L3" "on_table L0 p c m [at m i] L3"
      using on_table_pop [of L0 p c m "[at m i]" "[at m l]" L2 1] 2(2) by auto
    obtain L4 where 5: "lua_rawgeti L3 1 u = Inr L4" "on_table L0 p c m [at m i, at m u] L4"
      using on_table_rawgeti [OF 4(2) ru(1)] sl by auto
    have 6: "sort_comp H L4 (- 1) (- 2) = Inr (lt (at m u) (at m i), L4)"
      using compare_top [OF 5(2), of 1 0] ru ri sl by simp
    show ?thesis
    proof (cases "lt (at m u) (at m i)")
      case True
      obtain L5 where 7: "set2 L4 i u = Inr L5" "on_table L0 p c (swap_at m i u) [] L5"
        using on_table_set2 [of L0 p c m "[]" i u L4] 5(2) ru ri by auto
      have "\<not> lt (at m i) (at m u)" using asym [of "at m u" "at m i"] True ru ri by blast
      then show ?thesis using 1 2 3 4 5 6 7 True False rl ri ru assms(3,4) re [of u] ends
        by (auto simp: order_middle_def at_swap)
    next
      case 8: False
      obtain L5 where 7: "lua_pop L4 2 = Inr L5" "on_table L0 p c m [] L5"
        using on_table_pop [of L0 p c m "[]" "[at m i, at m u]" L4 2] 5(2) by auto
      then show ?thesis using 1 2 3 4 5 6 7 8 False rearranged_refl by (auto simp: order_middle_def)
    qed
  qed
qed

lemma sort_partition_ok:
  assumes "on_table L0 p c m [] L" "ready L0 m l u" "l < i" "i < u - 1" "\<not> lt (at m i) (at m l)" "\<not> lt (at m u) (at m i)"
  shows "\<exists>i' L' m'. sort_partition H L l u i = Inr (i', L') \<and> on_table L0 p c m' [] L' \<and> rearranged l u m m' \<and>
    l < i' \<and> i' < u \<and> (\<forall>x. l \<le> x \<and> x < i' \<longrightarrow> \<not> lt (at m' i') (at m' x)) \<and>
    (\<forall>x. i' < x \<and> x \<le> u \<longrightarrow> \<not> lt (at m' x) (at m' i'))"
proof -
  let ?P = "at m i" and ?m = "swap_at m i (u - 1)"
  have b: "l \<le> i" "i \<le> u" "l \<le> u - 1" "u - 1 \<le> u" using assms(3,4) by auto
  note ri = readyD [OF assms(2) b(1,2)] and rv = readyD [OF assms(2) b(3,4)] and sl = ready_slots [OF assms(2)]
  have ok: "index_ok x" if "l \<le> x" "x \<le> u" for x using readyD(1) [OF assms(2)] that by blast
  obtain L1 where 1: "lua_rawgeti L 1 i = Inr L1" "on_table L0 p c m [?P] L1"
    using on_table_rawgeti [OF assms(1) ri(1)] sl by auto
  obtain L2 where 2: "lua_pushvalue L1 (- 1) = Inr L2" "on_table L0 p c m [?P, ?P] L2"
    using on_table_pushtop [of L0 p c m "[]" ?P L1] 1(2) sl by auto
  obtain L3 where 3: "lua_rawgeti L2 1 (u - 1) = Inr L3" "on_table L0 p c m [?P, ?P, at m (u - 1)] L3"
    using on_table_rawgeti [OF 2(2) rv(1)] sl by auto
  obtain L4 where 4: "set2 L3 i (u - 1) = Inr L4" "on_table L0 p c ?m [?P] L4"
    using on_table_set2 [of L0 p c m "[?P]" i "u - 1" L3] 3(2) ri rv by auto
  have re: "rearranged l u m ?m" by (rule rearranged_swap) (use assms in \<open>auto simp: ready_def\<close>)
  note rm = ready_rearranged [OF assms(2) re]
  have irr: "\<not> lt ?P ?P" using asym ri by blast
  have "at ?m l = at m l" "at ?m (u - 1) = ?P" "at ?m u = at m u" using ok assms(3,4) by (simp_all add: at_swap)
  moreover have "x = u - 1 \<or> x = u" if "u - 1 \<le> x" "x \<le> u" for x using that by linarith
  ultimately have "split_at ?m ?P l u l (u - 1)"
    using assms(5,6) irr unfolding split_at_def by (metis order_antisym)
  then have "\<exists>i' L' m'. partition_loop H l u L4 l (u - 1) = Inr (i', L') \<and> on_table L0 p c m' [] L' \<and> rearranged l u ?m m' \<and>
    l < i' \<and> i' \<le> u - 1 \<and> split_at m' ?P l u (i' - 1) i'"
    by (intro partition_ok [OF ri(2) 4(2) rm]) (use assms(3,4) in linarith)+
  then obtain i' L5 m' where 5: "partition_loop H l u L4 l (u - 1) = Inr (i', L5)" "on_table L0 p c m' [] L5" "rearranged l u ?m m'"
    "l < i'" "i' \<le> u - 1" "split_at m' ?P l u (i' - 1) i'" by blast
  note rm' = ready_rearranged [OF rm 5(3)]
  have b': "l \<le> i'" "i' \<le> u" using 5 by auto
  note rv' = readyD [OF rm' b(3,4)] and ri' = readyD [OF rm' b']
  obtain L6 where 6: "lua_rawgeti L5 1 (u - 1) = Inr L6" "on_table L0 p c m' [at m' (u - 1)] L6"
    using on_table_rawgeti [OF 5(2) rv'(1)] sl by auto
  obtain L7 where 7: "lua_rawgeti L6 1 i' = Inr L7" "on_table L0 p c m' [at m' (u - 1), at m' i'] L7"
    using on_table_rawgeti [OF 6(2) ri'(1)] sl by auto
  let ?m' = "swap_at m' (u - 1) i'"
  obtain L8 where 8: "set2 L7 (u - 1) i' = Inr L8" "on_table L0 p c ?m' [] L8"
    using on_table_set2 [of L0 p c m' "[]" "u - 1" i' L7] 7(2) rv' ri' by auto
  have re': "rearranged l u m' ?m'" by (rule rearranged_swap) (use 5 assms in \<open>auto simp: ready_def\<close>)
  have P: "at ?m' i' = ?P" using 5(5,6) rv'(1) ri'(1) by (auto simp: at_swap split_at_def)
  have lo: "\<not> lt ?P (at ?m' x)" if "l \<le> x" "x < i'" for x
    using that 5(5,6) rv'(1) ri'(1) ok [of x] by (auto simp: at_swap split_at_def)
  have hi: "\<not> lt (at ?m' x) ?P" if "i' < x" "x \<le> u" for x
    using that 5(4-6) rv'(1) ri'(1) ok [of x] by (auto simp: at_swap split_at_def)
  have "sort_partition H L l u i = Inr (i', L8)" using 1 2 3 4 5 6 7 8 by (simp add: sort_partition_def)
  moreover have "rearranged l u m ?m'" using re re' 5(3) rearranged_trans by blast
  moreover have "i' < u" using 5(5) by simp
  ultimately show ?thesis using 8(2) 5(4) lo hi P by metis
qed


definition ordered :: "contents \<Rightarrow> int \<Rightarrow> int \<Rightarrow> bool" where
  "ordered m l u \<longleftrightarrow> (\<forall>x y. l \<le> x \<and> x < y \<and> y \<le> u \<longrightarrow> \<not> lt (at m y) (at m x))"

definition pivoted :: "TValue \<Rightarrow> int \<Rightarrow> int \<Rightarrow> int \<Rightarrow> contents \<Rightarrow> bool" where
  "pivoted P l u i m \<longleftrightarrow> at m i = P \<and> (\<forall>x\<in>{l..i - 1}. \<not> lt P (at m x)) \<and> (\<forall>x\<in>{i + 1..u}. \<not> lt (at m x) P)"

lemma rearranged_same:
  assumes "rearranged j i m m'" "1 \<le> l" "u < 2 ^ 31" "l \<le> j" "i \<le> u" "l \<le> x" "x \<le> u" "x < j \<or> i < x"
  shows "at m' x = at m x"
  by (rule rearranged_outside [OF assms(1)]) (use assms(2-) in \<open>auto simp: index_ok_def\<close>)

lemma pivoted_lower:
  assumes "rearranged l (i - 1) m m'" "pivoted P l u i m" "1 \<le> l" "u < 2 ^ 31" "l \<le> i" "i \<le> u"
  shows "pivoted P l u i m'"
  using rearranged_values [OF assms(1), of "\<lambda>v. \<not> lt P v"] assms(2-)
    rearranged_same [OF assms(1,3,4)] by (simp add: pivoted_def)

lemma pivoted_upper:
  assumes "rearranged (i + 1) u m m'" "pivoted P l u i m" "1 \<le> l" "u < 2 ^ 31" "l \<le> i" "i \<le> u"
  shows "pivoted P l u i m'"
  using rearranged_values [OF assms(1), of "\<lambda>v. \<not> lt v P"] assms(2-)
    rearranged_same [OF assms(1,3,4)] by (simp add: pivoted_def)

lemma ordered_kept:
  assumes "rearranged j i m m'" "1 \<le> l" "u < 2 ^ 31" "l \<le> j" "i \<le> u" "ordered m a b" "l \<le> a" "b \<le> u" "b < j \<or> i < a"
  shows "ordered m' a b"
proof -
  have "at m' x = at m x" if "a \<le> x" "x \<le> b" for x
    by (rule rearranged_same [OF assms(1-5)]) (use that assms(7-9) in auto)
  then show ?thesis using assms(6) by (auto simp: ordered_def)
qed

lemma ordered_join:
  assumes "pivoted P l u i m" "ordered m l (i - 1)" "ordered m (i + 1) u" "ready L0 m l u" "l \<le> i" "i \<le> u"
  shows "ordered m l u"
  unfolding ordered_def
proof (intro allI impI)
  fix x y
  assume xy: "l \<le> x \<and> x < y \<and> y \<le> u"
  have V: "at m z \<in> V" if "l \<le> z" "z \<le> u" for z using readyD(2) [OF assms(4) that] .
  have lo: "\<not> lt P (at m z)" if "l \<le> z" "z < i" for z using assms(1) that by (simp add: pivoted_def)
  have hi: "\<not> lt (at m z) P" if "i < z" "z \<le> u" for z using assms(1) that by (simp add: pivoted_def)
  have P: "at m i = P" "P \<in> V" using assms(1) V [OF assms(5,6)] by (auto simp: pivoted_def)
  consider "y < i" | "i < x" | "y = i" | "x = i" | "x < i" "i < y" by linarith
  then show "\<not> lt (at m y) (at m x)"
  proof cases
    case 5
    then show ?thesis using le_trans [OF _ P(2)] lo [of x] hi [of y] V [of x] V [of y] xy by simp
  qed (use assms(2,3) xy lo hi P in \<open>auto simp: ordered_def\<close>)
qed

lemma ordered_short:
  assumes "u \<le> l + 2" "l < u \<Longrightarrow> \<not> lt (at m u) (at m l)"
    "u = l + 2 \<Longrightarrow> \<not> lt (at m (l + 1)) (at m l)" "u = l + 2 \<Longrightarrow> \<not> lt (at m u) (at m (l + 1))"
  shows "ordered m l u"
  unfolding ordered_def
proof (intro allI impI)
  fix x y
  assume "l \<le> x \<and> x < y \<and> y \<le> u"
  with assms(1) consider "x = l" "y = u" | "u = l + 2" "x = l" "y = l + 1" | "u = l + 2" "x = l + 1" "y = u" by linarith
  then show "\<not> lt (at m y) (at m x)" using assms \<open>l \<le> x \<and> x < y \<and> y \<le> u\<close> by cases auto
qed

text \<open>The two recursive calls, in either order.\<close>

lemma halves_ok:
  assumes IH: "\<And>L m l u. on_table L0 p c m [] L \<Longrightarrow> ready L0 m l u \<Longrightarrow> nat (u - l + 1) < fuel \<Longrightarrow>
      \<exists>L' m'. auxsort fuel H L l u = Inr L' \<and> on_table L0 p c m' [] L' \<and> rearranged l u m m' \<and> ordered m' l u"
    and L: "on_table L0 p c m [] L" "ready L0 m l u" "l < i" "i < u" "pivoted P l u i m" "nat (u - l + 1) < Suc fuel"
    and ab: "a = l \<and> b = i - 1 \<and> a' = i + 1 \<and> b' = u \<or> a = i + 1 \<and> b = u \<and> a' = l \<and> b' = i - 1"
  shows "\<exists>L' m'. bind_result (auxsort fuel H L a b) (\<lambda>L. auxsort fuel H L a' b') = Inr L' \<and>
      on_table L0 p c m' [] L' \<and> rearranged l u m m' \<and> ordered m' l u"
proof -
  have lu: "1 \<le> l" "u < 2 ^ 31" "l \<le> i" "i \<le> u" using L(2-4) by (auto simp: ready_def)
  have in_lu: "l \<le> a" "b \<le> u" "a \<le> b + 1" "l \<le> a'" "b' \<le> u" "a' \<le> b' + 1" "nat (b - a + 1) < fuel" "nat (b' - a' + 1) < fuel"
    using ab L(3,4,6) by auto
  obtain L1 m1 where 1: "auxsort fuel H L a b = Inr L1" "on_table L0 p c m1 [] L1" "rearranged a b m m1" "ordered m1 a b"
    using IH [OF L(1) ready_subset [OF L(2) in_lu(1,2)] in_lu(7)] by blast
  have w1: "rearranged l u m m1" by (rule rearranged_widen [OF 1(3) in_lu(1-3) lu(1,2)])
  note rd1 = ready_rearranged [OF L(2) w1]
  obtain L2 m2 where 2: "auxsort fuel H L1 a' b' = Inr L2" "on_table L0 p c m2 [] L2" "rearranged a' b' m1 m2" "ordered m2 a' b'"
    using IH [OF 1(2) ready_subset [OF rd1 in_lu(4,5)] in_lu(8)] by blast
  have w2: "rearranged l u m1 m2" by (rule rearranged_widen [OF 2(3) in_lu(4-6) lu(1,2)])
  have o2: "ordered m2 a b"
    by (rule ordered_kept [OF 2(3) lu(1,2) in_lu(4,5) 1(4) in_lu(1,2)]) (use ab in auto)
  have "pivoted P l u i m2"
    using ab pivoted_lower [OF _ _ lu] pivoted_upper [OF _ _ lu] L(5) 1(3) 2(3) by metis
  then have "ordered m2 l u"
    by (rule ordered_join [OF _ _ _ ready_rearranged [OF rd1 w2] lu(3,4)]) (use ab o2 2(4) in auto)
  then show ?thesis using 1(1) 2(1,2) rearranged_trans [OF w1 w2] by auto
qed

lemma order_three_ok:
  assumes "on_table L0 p c m [] L" "ready L0 m l u" "l < i" "i < u"
  shows "\<exists>L1 L2 m'. order_ends H L l u = Inr L1 \<and> order_middle H L1 l u i = Inr L2 \<and> on_table L0 p c m' [] L2 \<and>
    rearranged l u m m' \<and> \<not> lt (at m' i) (at m' l) \<and> \<not> lt (at m' u) (at m' i) \<and> \<not> lt (at m' u) (at m' l)"
proof -
  have lu: "l < u" using assms(3,4) by simp
  obtain L1 m1 where 1: "order_ends H L l u = Inr L1" "on_table L0 p c m1 [] L1" "rearranged l u m m1" "\<not> lt (at m1 u) (at m1 l)"
    using order_ends_ok [OF assms(1,2) lu] by blast
  note rd1 = ready_rearranged [OF assms(2) 1(3)]
  obtain L2 m2 where 2: "order_middle H L1 l u i = Inr L2" "on_table L0 p c m2 [] L2" "rearranged l u m1 m2"
    "\<not> lt (at m2 i) (at m2 l)" "\<not> lt (at m2 u) (at m2 i)"
    using order_middle_ok [OF 1(2) rd1 assms(3,4) 1(4)] by blast
  have "\<not> lt (at m2 u) (at m2 l)"
    using le_trans [of "at m2 l" "at m2 i" "at m2 u"] 2(4,5) readyD(2) [OF ready_rearranged [OF rd1 2(3)]] assms(3,4) by simp
  with 1 2 rearranged_trans [OF 1(3) 2(3)] show ?thesis by blast
qed

lemma auxsort_ok:
  "on_table L0 p c m [] L \<Longrightarrow> ready L0 m l u \<Longrightarrow> nat (u - l + 1) < fuel \<Longrightarrow>
   \<exists>L' m'. auxsort fuel H L l u = Inr L' \<and> on_table L0 p c m' [] L' \<and> rearranged l u m m' \<and> ordered m' l u"
proof (induction fuel arbitrary: L m l u)
  case 0
  then show ?case by simp
next
  case (Suc fuel)
  note pr = Suc.prems
  let ?i = "(l + u) div 2"
  consider "u \<le> l" | "u = l + 1" | "u = l + 2" | "l + 3 \<le> u" by linarith
  then show ?case
  proof cases
    case 1
    then have "ordered m l u" by (auto simp: ordered_def)
    then show ?thesis using 1 pr(1) rearranged_refl by fastforce
  next
    case 2
    with order_ends_ok [OF pr(1,2)] obtain L1 m1 where 3: "order_ends H L l u = Inr L1" "on_table L0 p c m1 [] L1"
      "rearranged l u m m1" "\<not> lt (at m1 u) (at m1 l)" by force
    then have "ordered m1 l u" using 2 by (intro ordered_short) auto
    then show ?thesis using 2 3 by auto
  next
    case 3
    then have i: "l < ?i" "?i < u" "?i = l + 1" by auto
    obtain L1 L2 m2 where 2: "order_ends H L l u = Inr L1" "order_middle H L1 l u ?i = Inr L2" "on_table L0 p c m2 [] L2"
      "rearranged l u m m2" "\<not> lt (at m2 ?i) (at m2 l)" "\<not> lt (at m2 u) (at m2 ?i)" "\<not> lt (at m2 u) (at m2 l)"
      using order_three_ok [OF pr(1,2) i(1,2)] by blast
    then have "ordered m2 l u" using 3 i(3) by (intro ordered_short) auto
    then show ?thesis using 2 3 by auto
  next
    case 4
    then have i: "l < ?i" "?i < u" "?i < u - 1" by auto
    obtain L1 L2 m2 where 2: "order_ends H L l u = Inr L1" "order_middle H L1 l u ?i = Inr L2" "on_table L0 p c m2 [] L2"
      "rearranged l u m m2" "\<not> lt (at m2 ?i) (at m2 l)" "\<not> lt (at m2 u) (at m2 ?i)"
      using order_three_ok [OF pr(1,2) i(1,2)] by blast
    note rd2 = ready_rearranged [OF pr(2) 2(4)]
    obtain i L3 m3 where 3: "sort_partition H L2 l u ?i = Inr (i, L3)" "on_table L0 p c m3 [] L3" "rearranged l u m2 m3"
      "l < i" "i < u" "\<forall>x. l \<le> x \<and> x < i \<longrightarrow> \<not> lt (at m3 i) (at m3 x)"
      "\<forall>x. i < x \<and> x \<le> u \<longrightarrow> \<not> lt (at m3 x) (at m3 i)"
      using sort_partition_ok [OF 2(3) rd2 i(1,3) 2(5,6)] by blast
    have pv: "pivoted (at m3 i) l u i m3" using 3(6,7) by (auto simp: pivoted_def)
    note rest = halves_ok [OF Suc.IH 3(2) ready_rearranged [OF rd2 3(3)] 3(4,5) pv pr(3)]
    have "auxsort (Suc fuel) H L l u =
        (let (j, i, l, u) = (if i - l < u - i then (l, i - 1, i + 1, u) else (i + 1, u, l, i - 1)) in
         bind_result (auxsort fuel H L3 j i) (\<lambda>L. auxsort fuel H L l u))"
      using 2(1,2) 3(1) 4 by (simp add: Let_def)
    then show ?thesis
      using rest [of l "i - 1" "i + 1" u] rest [of "i + 1" u l "i - 1"] rearranged_trans [OF rearranged_trans [OF 2(4) 3(3)]]
      by (auto simp: Let_def split: if_splits)
  qed
qed

lemma tsort_ok:
  assumes stk: "stk L = TTable p # c # st \<and> (c = TNil \<or> ttype c = 6) \<or> stk L = [TTable p] \<and> c = TNil" "length (stk L) \<le> 20"
    and t: "l_heap L p = Some t" "wf_table t" "luaH_getn t = Inr n" "int n < 2 ^ 31"
    and V: "\<forall>x\<in>{1..int n}. at (tget t) x \<in> V" and fuel: "n + 1 < fuel"
  shows "\<exists>L' t'. tsort fuel H L = Inr ([], L') \<and> l_heap L' = (l_heap L)(p \<mapsto> t') \<and> wf_table t' \<and>
     rearranged 1 (int n) (tget t) (tget t') \<and> ordered (tget t') 1 (int n)"
proof -
  let ?L = "L\<lparr>slots := max (slots L) (length (stk L) + 40)\<rparr>"
  let ?L1 = "?L\<lparr>stk := [TTable p, c]\<rparr>"
  have n: "cast_int (int n) = int n" using t(4) by (intro cast_int_id) (simp add: INT_MAX_def INT_MIN_def)
  have getn: "aux_getn (h_clib H) L 1 = Inr (int n, L)"
    using stk(1) t by (auto simp: aux_getn_def luaL_checktype_def lua_type_def index2adr_def value_at_def luaL_getn_def
      lua_objlen_def hvalue_def n)
  have cs: "luaL_checkstack (h_clib H) L 40 '''' = Inr ?L"
    using stk(2) by (simp add: luaL_checkstack_def lua_checkstack_def LUAI_MAXCSTACK_def)
  have c2: "bind_result (lua_isnoneornil ?L 2) (\<lambda>none. bind_result (if \<not> none then luaL_checktype (h_clib H) ?L 2 6 else Inr ()) f) = f ()"
    for f :: "unit \<Rightarrow> lib_result"
    using stk(1) by (auto simp: lua_isnoneornil_def luaL_checktype_def lua_type_def index2adr_def value_at_def LUA_TNONE_def)
  have st: "lua_settop ?L 2 = Inr ?L1" using stk(1) by (auto simp: lua_settop_def max_def numeral_2_eq_2)
  have "on_table ?L1 p c (tget t) [] ?L1"
    unfolding on_table_def using t(1,2) by (intro exI [of _ t] exI [of _ "l_gc L"]) (simp add: fun_upd_idem)
  moreover have "ready ?L1 (tget t) 1 (int n)" using t(4) V by (simp add: ready_def)
  ultimately obtain L' m' where s: "auxsort fuel H ?L1 1 (int n) = Inr L'" "on_table ?L1 p c m' [] L'"
    "rearranged 1 (int n) (tget t) m'" "ordered m' 1 (int n)"
    using auxsort_ok [of ?L1 p "tget t" ?L1 1 "int n" fuel] fuel by auto
  obtain t' where t': "l_heap L' = (l_heap L)(p \<mapsto> t')" "wf_table t'" "tget t' = m'"
    using s(2) by (auto simp: on_table_def)
  have "tsort fuel H L = Inr ([], L')"
    by (simp add: tsort_def getn cs c2 st s(1) results_def)
  then show ?thesis using t' s(3,4) by blast
qed

end

subsection \<open>The orders of the library\<close>

text \<open>The default order \<open>a < b\<close> of two numbers or two strings.\<close>

fun raw_less :: "TValue \<Rightarrow> TValue \<Rightarrow> bool" where
  "raw_less (TNumber a) (TNumber b) = luai_numlt a b"
| "raw_less (TStr a) (TStr b) = (l_strcmp a b < 0)"
| "raw_less _ _ = False"

definition number_values :: "TValue set" where "number_values = {TNumber n | n. \<not> dbl_isnan n}"
definition string_values :: "TValue set" where "string_values = range TStr"

lemma default_compare:
  assumes "stk L = TTable p # TNil # st" "length st \<le> 5" "i < length st" "j < length st"
    "luaV_lessthan (in_frame H) L (st ! i) (st ! j) = Inr (b, L)"
  shows "sort_comp H L (int i - int (length st)) (int j - int (length st)) = Inr (b, L)"
proof -
  have ix: "index2adr L (int k - int (length st)) = Inr (Slot (k + 2))" "value_at L (Slot (k + 2)) = Inr (st ! k)"
    if "k < length st" for k
    using that assms(1,2) by (auto simp: index2adr_def value_at_def LUA_REGISTRYINDEX_def nat_eq_iff)
  have "lua_isnil L 2 = Inr True" using assms(1) by (simp add: lua_isnil_def lua_type_def index2adr_def value_at_def)
  then show ?thesis using ix [OF assms(3)] ix [OF assms(4)] assms(5) by (simp add: sort_comp_def lua_lessthan_def)
qed

lemma strcmp_asym: "l_strcmp a b < 0 \<Longrightarrow> \<not> l_strcmp b a < 0"
  using l_strcmp_lexord lexordp_antisym by blast

lemma strcmp_le_trans: "\<not> l_strcmp b a < 0 \<Longrightarrow> \<not> l_strcmp c b < 0 \<Longrightarrow> \<not> l_strcmp c a < 0"
  unfolding l_strcmp_lexord [THEN conjunct1] by (metis lexordp_linear lexordp_trans)

interpretation by_number: sort_order H TNil number_values raw_less for H
proof
  fix L :: lua_State and p st i j
  assume a: "stk L = TTable p # TNil # st" "length st \<le> 5" "i < length st" "j < length st" "st ! i \<in> number_values" "st ! j \<in> number_values"
  show "sort_comp H L (int i - int (length st)) (int j - int (length st)) = Inr (raw_less (st ! i) (st ! j), L)"
    by (rule default_compare [OF a(1-4)]) (use a(5,6) in \<open>auto simp: luaV_lessthan_def number_values_def\<close>)
qed (auto simp: number_values_def luai_numlt_def)

interpretation by_string: sort_order H TNil string_values raw_less for H
proof
  fix L :: lua_State and p st i j
  assume a: "stk L = TTable p # TNil # st" "length st \<le> 5" "i < length st" "j < length st" "st ! i \<in> string_values" "st ! j \<in> string_values"
  show "sort_comp H L (int i - int (length st)) (int j - int (length st)) = Inr (raw_less (st ! i) (st ! j), L)"
    by (rule default_compare [OF a(1-4)]) (use a(5,6) in \<open>auto simp: luaV_lessthan_def string_values_def\<close>)
next
  fix x y z
  assume "x \<in> string_values" "y \<in> string_values" "z \<in> string_values" "\<not> raw_less y x" "\<not> raw_less z y"
  then show "\<not> raw_less z x"
    by (auto simp: string_values_def dest: strcmp_le_trans)
qed (auto simp: string_values_def dest: strcmp_asym)

text \<open>The order of a function value that compares without other effect.\<close>

lemma by_function:
  assumes f: "ttype f = 6"
    and call: "\<forall>x\<in>V. \<forall>y\<in>V. \<exists>r. (\<not> l_isfalse r \<longleftrightarrow> lt x y) \<and> (\<forall>L. h_call H f [x, y] 1 L = Inr ([r], L))"
    and V: "TNil \<notin> V" "\<forall>x\<in>V. \<forall>y\<in>V. lt x y \<longrightarrow> \<not> lt y x"
      "\<forall>x\<in>V. \<forall>y\<in>V. \<forall>z\<in>V. \<not> lt y x \<and> \<not> lt z y \<longrightarrow> \<not> lt z x"
  shows "sort_order H f V lt"
proof
  fix L :: lua_State and p st i j
  assume a: "stk L = TTable p # f # st" "length st \<le> 5" "10 \<le> slots L" "i < length st" "j < length st" "st ! i \<in> V" "st ! j \<in> V"
  obtain r where r: "\<not> l_isfalse r \<longleftrightarrow> lt (st ! i) (st ! j)" "\<forall>L. h_call H f [st ! i, st ! j] 1 L = Inr ([r], L)"
    using call a(6,7) by blast
  let ?n = "length st" and ?x = "st ! i" and ?y = "st ! j"
  have n2: "nat (2 + int k) = Suc (Suc k)" for k by simp
  define args where "args k = TTable p # f # st @ take k [f, ?x, ?y]" for k
  have nil: "lua_isnil L 2 = Inr False" using a(1) f by (simp add: lua_isnil_def lua_type_def index2adr_def value_at_def)
  have 1: "lua_pushvalue L 2 = Inr (L\<lparr>stk := args 1\<rparr>)"
    using a(1-3) by (simp add: lua_pushvalue_def index_value_def index2adr_def value_at_def push_def args_def)
  have 2: "lua_pushvalue (L\<lparr>stk := args 1\<rparr>) (int i - int ?n - 1) = Inr (L\<lparr>stk := args 2\<rparr>)"
    using a(2-4) by (simp add: lua_pushvalue_def index_value_def index2adr_def value_at_def push_def args_def
      LUA_REGISTRYINDEX_def n2 nth_append)
  have 3: "lua_pushvalue (L\<lparr>stk := args 2\<rparr>) (int j - int ?n - 2) = Inr (L\<lparr>stk := args 3\<rparr>)"
    using a(2-5) by (simp add: lua_pushvalue_def index_value_def index2adr_def value_at_def push_def args_def
      LUA_REGISTRYINDEX_def n2 nth_append)
  have 4: "lua_call H (L\<lparr>stk := args 3\<rparr>) 2 1 = Inr (L\<lparr>stk := stk L @ [r]\<rparr>)"
    using a(1-3) r(2) by (simp add: lua_call_def args_def in_frame_call restore_frame_def Let_def nth_append)
  have 5: "lua_toboolean (L\<lparr>stk := stk L @ [r]\<rparr>) (- 1) = Inr (lt ?x ?y)"
    using r(1) by (simp add: lua_toboolean_def index_value_def index2adr_def value_at_def LUA_REGISTRYINDEX_def nat_add_distrib)
  have 6: "lua_pop (L\<lparr>stk := stk L @ [r]\<rparr>) 1 = Inr L"
    by (simp add: lua_pop_def lua_settop_def pop_def)
  show "sort_comp H L (int i - int ?n) (int j - int ?n) = Inr (lt ?x ?y, L)"
    using nil 1 2 3 4 5 6 by (simp add: sort_comp_def algebra_simps)
qed (use V in blast)+

section \<open>Properties\<close>

text \<open>
  Claim C6. \<open>table.sort\<close> without an order function sorts: for an array of numbers (none of them
  NaN) or of strings it returns within \<open>n + 2\<close> levels of recursion, on every well-formed table; the
  elements are then in ascending order, are the same with the same multiplicities, and no other
  key of the table and no other table has changed.
\<close>

theorem sort_default_correct:
  assumes "stk L = [TTable p]" "l_heap L p = Some t" "wf_table t" "luaH_getn t = Inr n" "int n < 2 ^ 31" "n + 1 < fuel"
    "(\<forall>i\<in>{1..int n}. \<exists>a. at (tget t) i = TNumber a \<and> \<not> dbl_isnan a) \<or> (\<forall>i\<in>{1..int n}. \<exists>s. at (tget t) i = TStr s)"
  shows "\<exists>L' t'. tsort fuel H L = Inr ([], L') \<and> l_heap L' = (l_heap L)(p \<mapsto> t') \<and> wf_table t' \<and>
    rearranged 1 (int n) (tget t) (tget t') \<and>
    (\<forall>i j. 1 \<le> i \<and> i < j \<and> j \<le> int n \<longrightarrow> \<not> raw_less (at (tget t') j) (at (tget t') i))"
proof -
  consider "\<forall>i\<in>{1..int n}. at (tget t) i \<in> number_values" | "\<forall>i\<in>{1..int n}. at (tget t) i \<in> string_values"
    using assms(7) by (fastforce simp: number_values_def string_values_def image_iff)
  then show ?thesis
  proof cases
    case 1
    with by_number.tsort_ok [of L p "[]" t n fuel H] assms show ?thesis by (simp add: by_number.ordered_def)
  next
    case 2
    with by_string.tsort_ok [of L p "[]" t n fuel H] assms show ?thesis by (simp add: by_string.ordered_def)
  qed
qed

theorem sort_default_correct_witness:
  "\<forall>H. \<exists>L' t'. tsort 9 H (array_state (map (TNumber \<circ> cast_num) [3, 1, 2]) []) = Inr ([], L') \<and> l_heap L' 1 = Some t' \<and>
     values_in (tget t') 1 3 = {#TNumber (cast_num 1), TNumber (cast_num 2), TNumber (cast_num 3)#} \<and>
     \<not> raw_less (at (tget t') 2) (at (tget t') 1) \<and> \<not> raw_less (at (tget t') 3) (at (tget t') 2)"
proof
  fix H
  let ?vs = "map (TNumber \<circ> cast_num) [3, 1, 2]"
  let ?t = "array_table ?vs" and ?L = "array_state ?vs []"
  have at: "at (tget ?t) 1 = TNumber (cast_num 3)" "at (tget ?t) 2 = TNumber (cast_num 1)" "at (tget ?t) 3 = TNumber (cast_num 2)"
    using array_table_at [of ?vs 1] array_table_at [of ?vs 2] array_table_at [of ?vs 3]
    by (simp_all add: MAXASIZE_def MAXBITS_def numeral_3_eq_3)
  have iv: "{1..3::int} = {1, 2, 3}" by auto
  have "\<exists>L' t'. tsort 9 H ?L = Inr ([], L') \<and> l_heap L' = (l_heap ?L)(1 \<mapsto> t') \<and> wf_table t' \<and>
    rearranged 1 (int 3) (tget ?t) (tget t') \<and>
    (\<forall>i j. 1 \<le> i \<and> i < j \<and> j \<le> int 3 \<longrightarrow> \<not> raw_less (at (tget t') j) (at (tget t') i))"
    by (rule sort_default_correct)
      (use array_table_wf [of ?vs] array_table_getn [of ?vs] at in
        \<open>auto simp: array_state_def MAXASIZE_def MAXBITS_def iv cast_num_finite\<close>)
  then obtain L' t' where r: "tsort 9 H ?L = Inr ([], L')" "l_heap L' 1 = Some t'"
    "values_in (tget t') 1 3 = values_in (tget ?t) 1 3"
    "\<forall>i j. 1 \<le> i \<and> i < j \<and> j \<le> 3 \<longrightarrow> \<not> raw_less (at (tget t') j) (at (tget t') i)"
    by (auto simp: rearranged_def)
  have "values_in (tget ?t) 1 3 = {#TNumber (cast_num 1), TNumber (cast_num 2), TNumber (cast_num 3)#}"
    using at by (simp add: values_in_def iv)
  moreover have "\<not> raw_less (at (tget t') 2) (at (tget t') 1)" "\<not> raw_less (at (tget t') 3) (at (tget t') 2)"
    using r(4) by auto
  ultimately show "\<exists>L' t'. tsort 9 H ?L = Inr ([], L') \<and> l_heap L' 1 = Some t' \<and>
     values_in (tget t') 1 3 = {#TNumber (cast_num 1), TNumber (cast_num 2), TNumber (cast_num 3)#} \<and>
     \<not> raw_less (at (tget t') 2) (at (tget t') 1) \<and> \<not> raw_less (at (tget t') 3) (at (tget t') 2)"
    using r(1-3) by metis
qed

text \<open>
  Claim C7. \<open>table.sort\<close> with an order function sorts by it: when the function value answers every
  comparison of two elements by the strict weak order \<open>lt\<close> and changes nothing, the sort returns
  and no element is less than one before it; elements and all other keys are kept.
\<close>

theorem sort_function_correct:
  assumes "stk L = [TTable p, f]" "ttype f = 6" "l_heap L p = Some t" "wf_table t" "luaH_getn t = Inr n" "int n < 2 ^ 31"
    and "\<forall>x\<in>V. \<forall>y\<in>V. \<exists>r. (\<not> l_isfalse r \<longleftrightarrow> lt x y) \<and> (\<forall>L. h_call H f [x, y] 1 L = Inr ([r], L))"
    and "TNil \<notin> V" "\<forall>x\<in>V. \<forall>y\<in>V. lt x y \<longrightarrow> \<not> lt y x" "\<forall>x\<in>V. \<forall>y\<in>V. \<forall>z\<in>V. \<not> lt y x \<and> \<not> lt z y \<longrightarrow> \<not> lt z x"
    and "\<forall>i\<in>{1..int n}. at (tget t) i \<in> V" "n + 1 < fuel"
  shows "\<exists>L' t'. tsort fuel H L = Inr ([], L') \<and> l_heap L' = (l_heap L)(p \<mapsto> t') \<and> wf_table t' \<and>
    rearranged 1 (int n) (tget t) (tget t') \<and>
    (\<forall>i j. 1 \<le> i \<and> i < j \<and> j \<le> int n \<longrightarrow> \<not> lt (at (tget t') j) (at (tget t') i))"
proof -
  have o: "sort_order H f V lt" by (rule by_function) fact+
  have "\<exists>L' t'. tsort fuel H L = Inr ([], L') \<and> l_heap L' = (l_heap L)(p \<mapsto> t') \<and> wf_table t' \<and>
    rearranged 1 (int n) (tget t) (tget t') \<and> sort_order.ordered lt (tget t') 1 (int n)"
    by (rule sort_order.tsort_ok [OF o _ _ assms(3-6,11,12), of "[]"]) (simp_all add: assms(1,2))
  then show ?thesis by (simp only: sort_order.ordered_def [OF o])
qed

text \<open>A host whose only function compares numbers in descending order.\<close>

definition descending_host :: "lua_State host" where
  "descending_host = \<lparr>h_clib = undefined, h_call = (\<lambda>f args n L. Inr ([TBoolean (raw_less (args ! 1) (args ! 0))], L)),
     h_objname = (\<lambda>L r. Inr None), h_addinfo = (\<lambda>L s. Inr s)\<rparr>"

theorem sort_function_correct_witness:
  "\<exists>L' t'. tsort 9 descending_host (array_state (map (TNumber \<circ> cast_num) [3, 1, 2]) [TFunction 7]) = Inr ([], L') \<and>
     l_heap L' 1 = Some t' \<and> \<not> luai_numlt (cast_num 2) (cast_num 1) \<and>
     \<not> raw_less (at (tget t') 1) (at (tget t') 2) \<and> \<not> raw_less (at (tget t') 2) (at (tget t') 3)"
proof -
  let ?vs = "map (TNumber \<circ> cast_num) [3, 1, 2]"
  let ?t = "array_table ?vs" and ?L = "array_state ?vs [TFunction 7]"
  have at: "at (tget ?t) 1 = TNumber (cast_num 3)" "at (tget ?t) 2 = TNumber (cast_num 1)" "at (tget ?t) 3 = TNumber (cast_num 2)"
    using array_table_at [of ?vs 1] array_table_at [of ?vs 2] array_table_at [of ?vs 3]
    by (simp_all add: MAXASIZE_def MAXBITS_def numeral_3_eq_3)
  have iv: "{1..3::int} = {1, 2, 3}" by auto
  have V: "\<forall>i\<in>{1..int 3}. at (tget ?t) i \<in> number_values" using at by (simp add: iv number_values_def cast_num_finite)
  have "\<exists>L' t'. tsort 9 descending_host ?L = Inr ([], L') \<and> l_heap L' = (l_heap ?L)(1 \<mapsto> t') \<and> wf_table t' \<and>
    rearranged 1 (int 3) (tget ?t) (tget t') \<and>
    (\<forall>i j. 1 \<le> i \<and> i < j \<and> j \<le> int 3 \<longrightarrow> \<not> raw_less (at (tget t') i) (at (tget t') j))"
    by (rule sort_function_correct [where lt = "\<lambda>x y. raw_less y x", OF _ _ _ _ _ _ _ _ _ _ V])
      (use array_table_wf [of ?vs] array_table_getn [of ?vs] in
        \<open>auto simp: array_state_def MAXASIZE_def MAXBITS_def number_values_def descending_host_def l_isfalse_def luai_numlt_def\<close>)
  then show ?thesis by (fastforce simp: numlt_int)
qed

end
