(* ===== verification/Llex.thy ===== *)
theory Llex
  imports Lfunc Lzio Ltable_spec
begin

text \<open>
  The lexical analyzer, llex.c and llex.h, with the state of the compiler that lparser.h
  declares. Characters are integers as the stream gives them (\<open>EOZ\<close> at its end). The chain of
  \<open>FuncState\<close>s that starts at \<open>ls->fs\<close> is a list, current function first. The prototype under
  construction is part of its \<open>FuncState\<close>: the fields \<open>f_...\<close> are those of \<open>fs->f\<close>, whose vectors
  hold exactly the \<open>pc\<close>, \<open>nk\<close>, \<open>np\<close>, ... elements in use. \<open>fs_L\<close> is the collector's state, which
  the current function hands on.

  What the compiler asks of its surroundings is in the record \<open>compile_env\<close>: the reader of the
  stream, the C library, the locale's decimal point and the addresses of new tables (the
  \<open>n\<close>-th one made). Loops over the characters of the stream have a bound on their turns, and
  are the outcome \<open>Diverges\<close> beyond it.
\<close>

subsection \<open>Tokens\<close>

definition FIRST_RESERVED :: int where "FIRST_RESERVED = 257"

definition luaX_tokens :: "string list" where
  "luaX_tokens = [''and'', ''break'', ''do'', ''else'', ''elseif'', ''end'', ''false'', ''for'', ''function'', ''if'',
     ''in'', ''local'', ''nil'', ''not'', ''or'', ''repeat'', ''return'', ''then'', ''true'', ''until'', ''while'',
     ''..'', ''...'', ''=='', ''>='', ''<='', ''~='', ''<number>'', ''<name>'', ''<string>'', ''<eof>'']"

definition TK_AND :: int where "TK_AND = 257"
definition TK_BREAK :: int where "TK_BREAK = 258"
definition TK_DO :: int where "TK_DO = 259"
definition TK_ELSE :: int where "TK_ELSE = 260"
definition TK_ELSEIF :: int where "TK_ELSEIF = 261"
definition TK_END :: int where "TK_END = 262"
definition TK_FALSE :: int where "TK_FALSE = 263"
definition TK_FOR :: int where "TK_FOR = 264"
definition TK_FUNCTION :: int where "TK_FUNCTION = 265"
definition TK_IF :: int where "TK_IF = 266"
definition TK_IN :: int where "TK_IN = 267"
definition TK_LOCAL :: int where "TK_LOCAL = 268"
definition TK_NIL :: int where "TK_NIL = 269"
definition TK_NOT :: int where "TK_NOT = 270"
definition TK_OR :: int where "TK_OR = 271"
definition TK_REPEAT :: int where "TK_REPEAT = 272"
definition TK_RETURN :: int where "TK_RETURN = 273"
definition TK_THEN :: int where "TK_THEN = 274"
definition TK_TRUE :: int where "TK_TRUE = 275"
definition TK_UNTIL :: int where "TK_UNTIL = 276"
definition TK_WHILE :: int where "TK_WHILE = 277"
definition TK_CONCAT :: int where "TK_CONCAT = 278"
definition TK_DOTS :: int where "TK_DOTS = 279"
definition TK_EQ :: int where "TK_EQ = 280"
definition TK_GE :: int where "TK_GE = 281"
definition TK_LE :: int where "TK_LE = 282"
definition TK_NE :: int where "TK_NE = 283"
definition TK_NUMBER :: int where "TK_NUMBER = 284"
definition TK_NAME :: int where "TK_NAME = 285"
definition TK_STRING :: int where "TK_STRING = 286"
definition TK_EOS :: int where "TK_EOS = 287"
definition NUM_RESERVED :: nat where "NUM_RESERVED = nat (TK_WHILE - FIRST_RESERVED + 1)"

lemmas token_defs = TK_AND_def TK_BREAK_def TK_DO_def TK_ELSE_def TK_ELSEIF_def TK_END_def TK_FALSE_def TK_FOR_def
  TK_FUNCTION_def TK_IF_def TK_IN_def TK_LOCAL_def TK_NIL_def TK_NOT_def TK_OR_def TK_REPEAT_def TK_RETURN_def
  TK_THEN_def TK_TRUE_def TK_UNTIL_def TK_WHILE_def TK_CONCAT_def TK_DOTS_def TK_EQ_def TK_GE_def TK_LE_def TK_NE_def
  TK_NUMBER_def TK_NAME_def TK_STRING_def TK_EOS_def

text \<open>\<open>ch\<close>: the code of a character, for the \<open>case\<close> labels of the code.\<close>

abbreviation ch :: "char \<Rightarrow> int" where "ch c \<equiv> int (uchar c)"

record SemInfo =
  si_r :: lua_Number
  si_ts :: TString

record Token =
  tk_token :: int
  seminfo :: SemInfo

subsection \<open>The state of the compiler\<close>

datatype expkind = VVOID | VNIL | VTRUE | VFALSE | VK | VKNUM | VLOCAL | VUPVAL | VGLOBAL | VINDEXED | VJMP
  | VRELOCABLE | VNONRELOC | VCALL | VVARARG

record upvaldesc =
  uv_k :: expkind
  uv_info :: int

record BlockCnt =
  bl_breaklist :: int
  bl_nactvar :: int
  bl_upval :: bool
  bl_isbreakable :: bool

record FuncState =
  f_k :: "TValue list"
  f_code :: "Instruction list"
  f_p :: "Proto list"
  f_lineinfo :: "int list"
  f_locvars :: "LocVar list"
  f_upvalues :: "TString list"
  f_source :: TString
  f_linedefined :: int
  f_lastlinedefined :: int
  f_numparams :: lu_byte
  f_is_vararg :: lu_byte
  f_maxstacksize :: lu_byte
  fs_h :: Table
  fs_L :: gc_core
  fs_bl :: "BlockCnt list"
  fs_lasttarget :: int
  fs_jpc :: int
  fs_freereg :: int
  fs_nactvar :: int
  fs_upvalues :: "upvaldesc list"
  fs_actvar :: "nat list"

record 'd LexState =
  current :: int
  linenumber :: int
  lastline :: int
  tok :: Token
  ahead :: Token
  ls_fs :: "FuncState list"
  ls_nCcalls :: nat
  ls_tables :: nat
  zin :: "'d ZIO"
  buff :: Mbuffer
  source :: TString
  decpoint :: char

record 'd compile_env =
  ce_reader :: "'d lua_Reader"
  ce_clib :: clib
  ce_decimal_point :: char
  ce_alloc :: "nat \<Rightarrow> addr"

subsection \<open>The buffer and the errors\<close>

definition MAXSRC :: nat where "MAXSRC = 80"

definition luaX_token2str :: "'d compile_env \<Rightarrow> int \<Rightarrow> string result" where
  "luaX_token2str E token =
     (if token < FIRST_RESERVED then
        (if 0 \<le> token \<and> iscntrl (nat token) then luaO_pushvfstring (ce_clib E) ''char(%d)'' [ArgD token]
         else luaO_pushvfstring (ce_clib E) ''%c'' [ArgC (char_of (nat (token mod 256)))])
      else if token - FIRST_RESERVED < int (length luaX_tokens) then Inr (luaX_tokens ! nat (token - FIRST_RESERVED))
      else Inl MemoryFault)"

text \<open>
  The text of the token in the buffer is a C string: it ends at the first zero, at the latest the
  one \<open>txtToken\<close> adds.
\<close>

definition txtToken :: "'d compile_env \<Rightarrow> 'd LexState \<Rightarrow> int \<Rightarrow> string result" where
  "txtToken E ls token =
     (if token = TK_NAME \<or> token = TK_STRING \<or> token = TK_NUMBER then Inr (c_str (mb_buffer (buff ls)))
      else luaX_token2str E token)"

definition luaX_lexerror :: "'d compile_env \<Rightarrow> 'd LexState \<Rightarrow> string \<Rightarrow> int \<Rightarrow> 'a result" where
  "luaX_lexerror E ls msg token =
     bind_result (luaO_pushvfstring (ce_clib E) ''%s:%d: %s''
        [ArgS (Some (luaO_chunkid (c_str (source ls)) MAXSRC)), ArgD (linenumber ls), ArgS (Some msg)]) (\<lambda>msg.
     if token \<noteq> 0 then
       bind_result (txtToken E ls token) (\<lambda>t.
       bind_result (luaO_pushvfstring (ce_clib E) (''%s near '' @ LUA_QL ''%s'') [ArgS (Some msg), ArgS (Some t)]) (\<lambda>msg.
         Inl (SyntaxError msg)))
     else Inl (SyntaxError msg))"

definition luaX_syntaxerror :: "'d compile_env \<Rightarrow> 'd LexState \<Rightarrow> string \<Rightarrow> 'a result" where
  "luaX_syntaxerror E ls msg = luaX_lexerror E ls msg (tk_token (tok ls))"

definition save :: "'d compile_env \<Rightarrow> 'd LexState \<Rightarrow> int \<Rightarrow> 'd LexState result" where
  "save E ls c =
     (let b = buff ls in
      bind_result
        (if mb_n b + 1 > mb_buffsize b then
           (if mb_buffsize b \<ge> MAX_SIZET div 2 then luaX_lexerror E ls ''lexical element too long'' 0
            else Inr (luaZ_resizebuffer b (mb_buffsize b * 2)))
         else Inr b) (\<lambda>b.
      if mb_n b < mb_buffsize b
      then Inr (ls\<lparr>buff := b\<lparr>mb_buffer := mb_buffer b @ [char_of (nat (c mod 256))], mb_n := mb_n b + 1\<rparr>\<rparr>)
      else Inl MemoryFault))"

definition luaZ_resetbuffer :: "'d LexState \<Rightarrow> 'd LexState" where
  "luaZ_resetbuffer ls = ls\<lparr>buff := (buff ls)\<lparr>mb_buffer := [], mb_n := 0\<rparr>\<rparr>"

text \<open>The macro \<open>next(ls)\<close>.\<close>

definition next_char :: "'d compile_env \<Rightarrow> 'd LexState \<Rightarrow> 'd LexState result" where
  "next_char E ls = bind_result (zgetc (ce_reader E) (zin ls)) (\<lambda>(c, z). Inr (ls\<lparr>current := c, zin := z\<rparr>))"

definition save_and_next :: "'d compile_env \<Rightarrow> 'd LexState \<Rightarrow> 'd LexState result" where
  "save_and_next E ls = bind_result (save E ls (current ls)) (next_char E)"

definition currIsNewline :: "'d LexState \<Rightarrow> bool" where
  "currIsNewline ls \<longleftrightarrow> current ls = 10 \<or> current ls = 13"

text \<open>The classification functions give 0 for \<open>EOF\<close>, which is \<open>EOZ\<close>.\<close>

definition on_char :: "(nat \<Rightarrow> bool) \<Rightarrow> int \<Rightarrow> bool" where
  "on_char P c \<longleftrightarrow> 0 \<le> c \<and> P (nat c)"

text \<open>\<open>luaX_init\<close> marks the strings of the reserved words with their numbers.\<close>

definition reserved :: "TString \<Rightarrow> int option" where
  "reserved ts = (case find (\<lambda>i. luaX_tokens ! i = ts) [0..<NUM_RESERVED] of None \<Rightarrow> None | Some i \<Rightarrow> Some (int i + 1))"

definition luaX_newstring :: "'d LexState \<Rightarrow> string \<Rightarrow> (TString \<times> 'd LexState) result" where
  "luaX_newstring ls str =
     (case ls_fs ls of
        [] \<Rightarrow> Inl MemoryFault
      | fs # rest \<Rightarrow>
          bind_result (luaH_setstr (fs_L fs) (fs_h fs) str) (\<lambda>(g, h, p).
            let h = (if slot_val h p = TNil then set_slot h p (TBoolean True) else h) in
            Inr (str, ls\<lparr>ls_fs := fs\<lparr>fs_L := g, fs_h := h\<rparr> # rest\<rparr>)))"

definition inclinenumber :: "'d compile_env \<Rightarrow> 'd LexState \<Rightarrow> 'd LexState result" where
  "inclinenumber E ls =
     (let old = current ls in
      bind_result (next_char E ls) (\<lambda>ls.
      bind_result (if currIsNewline ls \<and> current ls \<noteq> old then next_char E ls else Inr ls) (\<lambda>ls.
      let ls = ls\<lparr>linenumber := linenumber ls + 1\<rparr> in
      if linenumber ls \<ge> int MAX_INT then luaX_syntaxerror E ls ''chunk has too many lines'' else Inr ls)))"

definition luaX_setinput :: "'d compile_env \<Rightarrow> 'd LexState \<Rightarrow> 'd ZIO \<Rightarrow> TString \<Rightarrow> 'd LexState result" where
  "luaX_setinput E ls z src =
     next_char E (ls\<lparr>decpoint := CHR ''.'', ahead := (ahead ls)\<lparr>tk_token := TK_EOS\<rparr>, zin := z, ls_fs := [],
       linenumber := 1, lastline := 1, source := src, buff := luaZ_resizebuffer (buff ls) LUA_MINBUFFER\<rparr>)"

section \<open>The lexical analyzer\<close>

text \<open>\<open>strchr\<close> of the C library: the terminating zero is part of the string.\<close>

definition strchr :: "string \<Rightarrow> int \<Rightarrow> bool" where
  "strchr s c \<longleftrightarrow> (let x = char_of (nat (c mod 256)) in x \<in> set (c_str s) \<or> x = CHR 0x00)"

definition check_next :: "'d compile_env \<Rightarrow> 'd LexState \<Rightarrow> string \<Rightarrow> (bool \<times> 'd LexState) result" where
  "check_next E ls s =
     (if \<not> strchr s (current ls) then Inr (False, ls)
      else bind_result (save_and_next E ls) (\<lambda>ls. Inr (True, ls)))"

definition buffreplace :: "'d LexState \<Rightarrow> char \<Rightarrow> char \<Rightarrow> 'd LexState" where
  "buffreplace ls from to =
     ls\<lparr>buff := (buff ls)\<lparr>mb_buffer := map (\<lambda>c. if c = from then to else c) (mb_buffer (buff ls))\<rparr>\<rparr>"

definition trydecpoint :: "'d compile_env \<Rightarrow> 'd LexState \<Rightarrow> SemInfo \<Rightarrow> (SemInfo \<times> 'd LexState) result" where
  "trydecpoint E ls si =
     (let old = decpoint ls; ls = ls\<lparr>decpoint := ce_decimal_point E\<rparr>; ls = buffreplace ls old (decpoint ls) in
      bind_result (luaO_str2d (ce_clib E) (c_str (mb_buffer (buff ls)))) (\<lambda>r. case r of
        Some r \<Rightarrow> Inr (si\<lparr>si_r := r\<rparr>, ls)
      | None \<Rightarrow> luaX_lexerror E (buffreplace ls (decpoint ls) (CHR ''.'')) ''malformed number'' TK_NUMBER))"

fun save_while :: "nat \<Rightarrow> 'd compile_env \<Rightarrow> (int \<Rightarrow> bool) \<Rightarrow> 'd LexState \<Rightarrow> 'd LexState result" where
  "save_while 0 E P ls = Inl Diverges"
| "save_while (Suc n) E P ls =
     (if P (current ls) then bind_result (save_and_next E ls) (save_while n E P) else Inr ls)"

definition is_word_char :: "int \<Rightarrow> bool" where
  "is_word_char c \<longleftrightarrow> on_char isalnum c \<or> c = ch (CHR ''_'')"

definition read_numeral :: "nat \<Rightarrow> 'd compile_env \<Rightarrow> 'd LexState \<Rightarrow> SemInfo \<Rightarrow> (SemInfo \<times> 'd LexState) result" where
  "read_numeral n E ls si =
     bind_result (save_and_next E ls) (\<lambda>ls.
     bind_result (save_while n E (\<lambda>c. on_char isdigit c \<or> c = ch (CHR ''.'')) ls) (\<lambda>ls.
     bind_result (check_next E ls ''Ee'') (\<lambda>(e, ls).
     bind_result (if e then bind_result (check_next E ls ''+-'') (\<lambda>(_, ls). Inr ls) else Inr ls) (\<lambda>ls.
     bind_result (save_while n E is_word_char ls) (\<lambda>ls.
     bind_result (save E ls 0) (\<lambda>ls.
     let ls = buffreplace ls (CHR ''.'') (decpoint ls) in
     bind_result (luaO_str2d (ce_clib E) (c_str (mb_buffer (buff ls)))) (\<lambda>r. case r of
       Some r \<Rightarrow> Inr (si\<lparr>si_r := r\<rparr>, ls)
     | None \<Rightarrow> trydecpoint E ls si)))))))"

fun skip_eqs :: "nat \<Rightarrow> 'd compile_env \<Rightarrow> 'd LexState \<Rightarrow> int \<Rightarrow> (int \<times> 'd LexState) result" where
  "skip_eqs 0 E ls count = Inl Diverges"
| "skip_eqs (Suc n) E ls count =
     (if current ls = ch (CHR ''='') then bind_result (save_and_next E ls) (\<lambda>ls. skip_eqs n E ls (count + 1))
      else Inr (count, ls))"

definition skip_sep :: "nat \<Rightarrow> 'd compile_env \<Rightarrow> 'd LexState \<Rightarrow> (int \<times> 'd LexState) result" where
  "skip_sep n E ls =
     (let s = current ls in
      bind_result (save_and_next E ls) (\<lambda>ls.
      bind_result (skip_eqs n E ls 0) (\<lambda>(count, ls).
        Inr (if current ls = s then count else - count - 1, ls))))"

text \<open>The loop of \<open>read_long_string\<close>, up to the closing bracket; \<open>str\<close> tells a string from a comment.\<close>

fun long_string_loop :: "nat \<Rightarrow> 'd compile_env \<Rightarrow> bool \<Rightarrow> int \<Rightarrow> 'd LexState \<Rightarrow> 'd LexState result" where
  "long_string_loop 0 E str sep ls = Inl Diverges"
| "long_string_loop (Suc n) E str sep ls =
     (if current ls = EOZ then
        luaX_lexerror E ls (if str then ''unfinished long string'' else ''unfinished long comment'') TK_EOS
      else if current ls = ch (CHR ''['') then
        bind_result (skip_sep n E ls) (\<lambda>(k, ls).
          if k = sep then bind_result (save_and_next E ls) (\<lambda>ls.
            if sep = 0 then luaX_lexerror E ls ''nesting of [[...]] is deprecated'' (ch (CHR ''[''))
            else long_string_loop n E str sep ls)
          else long_string_loop n E str sep ls)
      else if current ls = ch (CHR '']'') then
        bind_result (skip_sep n E ls) (\<lambda>(k, ls).
          if k = sep then save_and_next E ls else long_string_loop n E str sep ls)
      else if currIsNewline ls then
        bind_result (save E ls 10) (\<lambda>ls.
        bind_result (inclinenumber E ls) (\<lambda>ls.
          long_string_loop n E str sep (if \<not> str then luaZ_resetbuffer ls else ls)))
      else bind_result (if str then save_and_next E ls else next_char E ls) (long_string_loop n E str sep))"

text \<open>The value of the token is the buffer without \<open>skip\<close> characters at both ends.\<close>

definition buffer_string :: "'d LexState \<Rightarrow> SemInfo \<Rightarrow> nat \<Rightarrow> (SemInfo \<times> 'd LexState) result" where
  "buffer_string ls si skip =
     (let b = mb_buffer (buff ls) in
      bind_result (luaX_newstring ls (take (length b - 2 * skip) (drop skip b))) (\<lambda>(ts, ls). Inr (si\<lparr>si_ts := ts\<rparr>, ls)))"

definition read_long_string :: "nat \<Rightarrow> 'd compile_env \<Rightarrow> 'd LexState \<Rightarrow> SemInfo option \<Rightarrow> int \<Rightarrow> (SemInfo option \<times> 'd LexState) result" where
  "read_long_string n E ls si sep =
     bind_result (save_and_next E ls) (\<lambda>ls.
     bind_result (if currIsNewline ls then inclinenumber E ls else Inr ls) (\<lambda>ls.
     bind_result (long_string_loop n E (si \<noteq> None) sep ls) (\<lambda>ls.
     case si of
       None \<Rightarrow> Inr (None, ls)
     | Some si \<Rightarrow> bind_result (buffer_string ls si (2 + nat sep)) (\<lambda>(si, ls). Inr (Some si, ls)))))"

text \<open>The loop over the at most three digits of a decimal escape, with \<open>i\<close> of them left.\<close>

fun decimal_escape :: "nat \<Rightarrow> 'd compile_env \<Rightarrow> 'd LexState \<Rightarrow> int \<Rightarrow> (int \<times> 'd LexState) result" where
  "decimal_escape 0 E ls c = Inr (c, ls)"
| "decimal_escape (Suc i) E ls c =
     (let c = 10 * c + (current ls - ch (CHR ''0'')) in
      bind_result (next_char E ls) (\<lambda>ls. if on_char isdigit (current ls) then decimal_escape i E ls c else Inr (c, ls)))"

definition simple_escape :: "int \<Rightarrow> int option" where
  "simple_escape c =
     (if c = ch (CHR ''a'') then Some 7 else if c = ch (CHR ''b'') then Some 8
      else if c = ch (CHR ''f'') then Some 12 else if c = ch (CHR ''n'') then Some 10
      else if c = ch (CHR ''r'') then Some 13 else if c = ch (CHR ''t'') then Some 9
      else if c = ch (CHR ''v'') then Some 11 else None)"

text \<open>The case of the backslash, with it still to be skipped.\<close>

definition read_escape :: "'d compile_env \<Rightarrow> 'd LexState \<Rightarrow> 'd LexState result" where
  "read_escape E ls =
     bind_result (next_char E ls) (\<lambda>ls.
       case simple_escape (current ls) of
         Some c \<Rightarrow> bind_result (save E ls c) (next_char E)
       | None \<Rightarrow>
           if currIsNewline ls then bind_result (save E ls 10) (inclinenumber E)
           else if current ls = EOZ then Inr ls
           else if \<not> on_char isdigit (current ls) then save_and_next E ls
           else bind_result (decimal_escape 3 E ls 0) (\<lambda>(c, ls).
             if c > 255 then luaX_lexerror E ls ''escape sequence too large'' TK_STRING else save E ls c))"

fun string_loop :: "nat \<Rightarrow> 'd compile_env \<Rightarrow> int \<Rightarrow> 'd LexState \<Rightarrow> 'd LexState result" where
  "string_loop 0 E del ls = Inl Diverges"
| "string_loop (Suc n) E del ls =
     (if current ls = del then Inr ls
      else if current ls = EOZ then luaX_lexerror E ls ''unfinished string'' TK_EOS
      else if currIsNewline ls then luaX_lexerror E ls ''unfinished string'' TK_STRING
      else bind_result (if current ls = ch (CHR 0x5C) then read_escape E ls else save_and_next E ls) (string_loop n E del))"

definition read_string :: "nat \<Rightarrow> 'd compile_env \<Rightarrow> 'd LexState \<Rightarrow> int \<Rightarrow> SemInfo \<Rightarrow> (SemInfo \<times> 'd LexState) result" where
  "read_string n E ls del si =
     bind_result (save_and_next E ls) (\<lambda>ls.
     bind_result (string_loop n E del ls) (\<lambda>ls.
     bind_result (save_and_next E ls) (\<lambda>ls. buffer_string ls si 1)))"

text \<open>A short comment goes up to the end of the line.\<close>

fun skip_line :: "nat \<Rightarrow> 'd compile_env \<Rightarrow> 'd LexState \<Rightarrow> 'd LexState result" where
  "skip_line 0 E ls = Inl Diverges"
| "skip_line (Suc n) E ls =
     (if \<not> currIsNewline ls \<and> current ls \<noteq> EOZ then bind_result (next_char E ls) (skip_line n E) else Inr ls)"

text \<open>The comment whose second dash is the current character.\<close>

definition skip_comment :: "nat \<Rightarrow> 'd compile_env \<Rightarrow> 'd LexState \<Rightarrow> 'd LexState result" where
  "skip_comment n E ls =
     bind_result (next_char E ls) (\<lambda>ls.
       if current ls = ch (CHR ''['') then
         bind_result (skip_sep n E ls) (\<lambda>(sep, ls).
         let ls = luaZ_resetbuffer ls in
           if sep \<ge> 0 then
             bind_result (read_long_string n E ls None sep) (\<lambda>(_, ls). Inr (luaZ_resetbuffer ls))
           else skip_line n E ls)
       else skip_line n E ls)"

type_synonym 'd lexed = "(int \<times> SemInfo \<times> 'd LexState) result"

text \<open>A character that is the token \<open>long\<close> when \<open>=\<close> follows.\<close>

definition with_equals :: "'d compile_env \<Rightarrow> 'd LexState \<Rightarrow> SemInfo \<Rightarrow> int \<Rightarrow> int \<Rightarrow> 'd lexed" where
  "with_equals E ls si short long =
     bind_result (next_char E ls) (\<lambda>ls.
       if current ls \<noteq> ch (CHR ''='') then Inr (short, si, ls)
       else bind_result (next_char E ls) (\<lambda>ls. Inr (long, si, ls)))"

definition read_number :: "nat \<Rightarrow> 'd compile_env \<Rightarrow> 'd LexState \<Rightarrow> SemInfo \<Rightarrow> 'd lexed" where
  "read_number n E ls si = bind_result (read_numeral n E ls si) (\<lambda>(si, ls). Inr (TK_NUMBER, si, ls))"

definition read_bracket :: "nat \<Rightarrow> 'd compile_env \<Rightarrow> 'd LexState \<Rightarrow> SemInfo \<Rightarrow> 'd lexed" where
  "read_bracket n E ls si =
     bind_result (skip_sep n E ls) (\<lambda>(sep, ls).
       if sep \<ge> 0 then
         bind_result (read_long_string n E ls (Some si) sep) (\<lambda>(si, ls). case si of
           Some si \<Rightarrow> Inr (TK_STRING, si, ls) | None \<Rightarrow> Inl MemoryFault)
       else if sep = - 1 then Inr (ch (CHR ''[''), si, ls)
       else luaX_lexerror E ls ''invalid long string delimiter'' TK_STRING)"

definition read_dots :: "nat \<Rightarrow> 'd compile_env \<Rightarrow> 'd LexState \<Rightarrow> SemInfo \<Rightarrow> 'd lexed" where
  "read_dots n E ls si =
     bind_result (save_and_next E ls) (\<lambda>ls.
     bind_result (check_next E ls ''.'') (\<lambda>(dot, ls).
       if dot then
         bind_result (check_next E ls ''.'') (\<lambda>(dot, ls). Inr (if dot then TK_DOTS else TK_CONCAT, si, ls))
       else if \<not> on_char isdigit (current ls) then Inr (ch (CHR ''.''), si, ls)
       else read_number n E ls si))"

definition read_name :: "nat \<Rightarrow> 'd compile_env \<Rightarrow> 'd LexState \<Rightarrow> SemInfo \<Rightarrow> 'd lexed" where
  "read_name n E ls si =
     bind_result (save_and_next E ls) (\<lambda>ls.
     bind_result (save_while n E is_word_char ls) (\<lambda>ls.
     bind_result (luaX_newstring ls (mb_buffer (buff ls))) (\<lambda>(ts, ls).
       case reserved ts of
         Some r \<Rightarrow> Inr (r - 1 + FIRST_RESERVED, si, ls)
       | None \<Rightarrow> Inr (TK_NAME, si\<lparr>si_ts := ts\<rparr>, ls))))"

fun llex_loop :: "nat \<Rightarrow> 'd compile_env \<Rightarrow> 'd LexState \<Rightarrow> SemInfo \<Rightarrow> 'd lexed" where
  "llex_loop 0 E ls si = Inl Diverges"
| "llex_loop (Suc n) E ls si =
     (let c = current ls in
      if currIsNewline ls then bind_result (inclinenumber E ls) (\<lambda>ls. llex_loop n E ls si)
      else if c = ch (CHR ''-'') then
        bind_result (next_char E ls) (\<lambda>ls.
          if current ls \<noteq> ch (CHR ''-'') then Inr (ch (CHR ''-''), si, ls)
          else bind_result (skip_comment n E ls) (\<lambda>ls. llex_loop n E ls si))
      else if c = ch (CHR ''['') then read_bracket n E ls si
      else if c = ch (CHR ''='') then with_equals E ls si c TK_EQ
      else if c = ch (CHR ''<'') then with_equals E ls si c TK_LE
      else if c = ch (CHR ''>'') then with_equals E ls si c TK_GE
      else if c = ch (CHR ''~'') then with_equals E ls si c TK_NE
      else if c = ch (CHR 0x22) \<or> c = ch (CHR 0x27) then
        bind_result (read_string n E ls c si) (\<lambda>(si, ls). Inr (TK_STRING, si, ls))
      else if c = ch (CHR ''.'') then read_dots n E ls si
      else if c = EOZ then Inr (TK_EOS, si, ls)
      else if on_char isspace c then bind_result (next_char E ls) (\<lambda>ls. llex_loop n E ls si)
      else if on_char isdigit c then read_number n E ls si
      else if on_char isalpha c \<or> c = ch (CHR ''_'') then read_name n E ls si
      else bind_result (next_char E ls) (\<lambda>ls. Inr (c, si, ls)))"

definition llex :: "nat \<Rightarrow> 'd compile_env \<Rightarrow> 'd LexState \<Rightarrow> SemInfo \<Rightarrow> 'd lexed" where
  "llex n E ls si = llex_loop n E (luaZ_resetbuffer ls) si"

definition luaX_next :: "nat \<Rightarrow> 'd compile_env \<Rightarrow> 'd LexState \<Rightarrow> 'd LexState result" where
  "luaX_next n E ls =
     (let ls = ls\<lparr>lastline := linenumber ls\<rparr> in
      if tk_token (ahead ls) \<noteq> TK_EOS then Inr (ls\<lparr>tok := ahead ls, ahead := (ahead ls)\<lparr>tk_token := TK_EOS\<rparr>\<rparr>)
      else bind_result (llex n E ls (seminfo (tok ls))) (\<lambda>(t, si, ls). Inr (ls\<lparr>tok := \<lparr>tk_token = t, seminfo = si\<rparr>\<rparr>)))"

definition luaX_lookahead :: "nat \<Rightarrow> 'd compile_env \<Rightarrow> 'd LexState \<Rightarrow> 'd LexState result" where
  "luaX_lookahead n E ls =
     bind_result (llex n E ls (seminfo (ahead ls))) (\<lambda>(t, si, ls). Inr (ls\<lparr>ahead := \<lparr>tk_token = t, seminfo = si\<rparr>\<rparr>))"

end
