(* ===== verification/Lcode.thy ===== *)
theory Lcode
  imports Llex
begin

text \<open>
  The code generator, lcode.c and lcode.h. An operation works on the \<open>FuncState\<close> of the function
  being compiled and on expression descriptors; a C function that updates a descriptor through
  its pointer gives it back. \<open>fs->ls\<close> is seen through the record \<open>lexview\<close>: the line of the last
  token, the error \<open>luaX_syntaxerror\<close> raises for a message, and the C library.

  \<open>fs->pc\<close> is the length of the code. A list of jumps is linked through the jumps' own offsets;
  a walk along one visits each instruction at most once, or it never ends: the walks are bounded
  by the number of instructions, and are the outcome \<open>Diverges\<close> beyond it.
\<close>

record lexview =
  lv_lastline :: int
  lv_error :: "string \<Rightarrow> lua_error"
  lv_clib :: clib

record expdesc =
  e_k :: expkind
  e_info :: int
  e_aux :: int
  e_nval :: lua_Number
  e_t :: int
  e_f :: int

datatype BinOpr = OPR_ADD | OPR_SUB | OPR_MUL | OPR_DIV | OPR_MOD | OPR_POW | OPR_CONCAT | OPR_NE | OPR_EQ
  | OPR_LT | OPR_LE | OPR_GT | OPR_GE | OPR_AND | OPR_OR | OPR_NOBINOPR

datatype UnOpr = OPR_MINUS | OPR_NOT | OPR_LEN | OPR_NOUNOPR

definition NO_JUMP :: int where "NO_JUMP = - 1"

definition hasjumps :: "expdesc \<Rightarrow> bool" where "hasjumps e \<longleftrightarrow> e_t e \<noteq> e_f e"

definition isnumeral :: "expdesc \<Rightarrow> bool" where
  "isnumeral e \<longleftrightarrow> e_k e = VKNUM \<and> e_t e = NO_JUMP \<and> e_f e = NO_JUMP"

subsection \<open>The code array\<close>

definition fs_pc :: "FuncState \<Rightarrow> int" where "fs_pc fs = int (length (f_code fs))"

definition code_at :: "FuncState \<Rightarrow> int \<Rightarrow> Instruction result" where
  "code_at fs pc = (if 0 \<le> pc \<and> pc < fs_pc fs then Inr (f_code fs ! nat pc) else Inl MemoryFault)"

definition set_code :: "FuncState \<Rightarrow> int \<Rightarrow> Instruction \<Rightarrow> FuncState result" where
  "set_code fs pc i =
     (if 0 \<le> pc \<and> pc < fs_pc fs then Inr (fs\<lparr>f_code := (f_code fs)[nat pc := i]\<rparr>) else Inl MemoryFault)"

text \<open>An update of the instruction at a place, as the \<open>SETARG\<close> macros make it.\<close>

definition edit_code :: "FuncState \<Rightarrow> int \<Rightarrow> (Instruction \<Rightarrow> Instruction) \<Rightarrow> FuncState result" where
  "edit_code fs pc f = bind_result (code_at fs pc) (\<lambda>i. set_code fs pc (f i))"

definition is_op :: "Instruction \<Rightarrow> OpCode \<Rightarrow> bool" where
  "is_op i m \<longleftrightarrow> GET_OPCODE i = opnum m"

definition is_test :: "Instruction \<Rightarrow> bool" where
  "is_test i \<longleftrightarrow> (case op_of_nat (GET_OPCODE i) of Some m \<Rightarrow> testTMode m | None \<Rightarrow> False)"

subsection \<open>Lists of jumps\<close>

definition fixjump :: "lexview \<Rightarrow> FuncState \<Rightarrow> int \<Rightarrow> int \<Rightarrow> FuncState result" where
  "fixjump K fs pc dest =
     (let offset = dest - (pc + 1) in
      if \<bar>offset\<bar> > MAXARG_sBx then Inl (lv_error K ''control structure too long'')
      else edit_code fs pc (\<lambda>i. SETARG_sBx i offset))"

definition luaK_getlabel :: "FuncState \<Rightarrow> int \<times> FuncState" where
  "luaK_getlabel fs = (fs_pc fs, fs\<lparr>fs_lasttarget := fs_pc fs\<rparr>)"

definition getjump :: "FuncState \<Rightarrow> int \<Rightarrow> int result" where
  "getjump fs pc =
     bind_result (code_at fs pc) (\<lambda>i.
       let offset = GETARG_sBx i in Inr (if offset = NO_JUMP then NO_JUMP else pc + 1 + offset))"

text \<open>The place of the instruction that controls a jump.\<close>

definition getjumpcontrol :: "FuncState \<Rightarrow> int \<Rightarrow> int result" where
  "getjumpcontrol fs pc =
     (if pc \<ge> 1 then bind_result (code_at fs (pc - 1)) (\<lambda>i. Inr (if is_test i then pc - 1 else pc)) else Inr pc)"

fun need_value_loop :: "nat \<Rightarrow> FuncState \<Rightarrow> int \<Rightarrow> bool result" where
  "need_value_loop 0 fs list = Inl Diverges"
| "need_value_loop (Suc n) fs list =
     (if list = NO_JUMP then Inr False
      else bind_result (getjumpcontrol fs list) (\<lambda>pi. bind_result (code_at fs pi) (\<lambda>i.
        if \<not> is_op i OP_TESTSET then Inr True
        else bind_result (getjump fs list) (need_value_loop n fs))))"

definition need_value :: "FuncState \<Rightarrow> int \<Rightarrow> bool result" where
  "need_value fs list = need_value_loop (length (f_code fs) + 1) fs list"

definition patchtestreg :: "FuncState \<Rightarrow> int \<Rightarrow> int \<Rightarrow> (bool \<times> FuncState) result" where
  "patchtestreg fs nd reg =
     bind_result (getjumpcontrol fs nd) (\<lambda>pi. bind_result (code_at fs pi) (\<lambda>i.
       if \<not> is_op i OP_TESTSET then Inr (False, fs)
       else bind_result (set_code fs pi
           (if reg \<noteq> NO_REG \<and> reg \<noteq> GETARG_B i then SETARG_A i reg
            else CREATE_ABC (opnum OP_TEST) (GETARG_B i) 0 (GETARG_C i))) (\<lambda>fs. Inr (True, fs))))"

fun removevalues_loop :: "nat \<Rightarrow> FuncState \<Rightarrow> int \<Rightarrow> FuncState result" where
  "removevalues_loop 0 fs list = Inl Diverges"
| "removevalues_loop (Suc n) fs list =
     (if list = NO_JUMP then Inr fs
      else bind_result (patchtestreg fs list NO_REG) (\<lambda>(_, fs).
        bind_result (getjump fs list) (removevalues_loop n fs)))"

definition removevalues :: "FuncState \<Rightarrow> int \<Rightarrow> FuncState result" where
  "removevalues fs list = removevalues_loop (length (f_code fs) + 1) fs list"

fun patchlist_loop :: "nat \<Rightarrow> lexview \<Rightarrow> FuncState \<Rightarrow> int \<Rightarrow> int \<Rightarrow> int \<Rightarrow> int \<Rightarrow> FuncState result" where
  "patchlist_loop 0 K fs list vtarget reg dtarget = Inl Diverges"
| "patchlist_loop (Suc n) K fs list vtarget reg dtarget =
     (if list = NO_JUMP then Inr fs
      else bind_result (getjump fs list) (\<lambda>nxt.
        bind_result (patchtestreg fs list reg) (\<lambda>(tst, fs).
        bind_result (fixjump K fs list (if tst then vtarget else dtarget)) (\<lambda>fs.
          patchlist_loop n K fs nxt vtarget reg dtarget))))"

definition patchlistaux :: "lexview \<Rightarrow> FuncState \<Rightarrow> int \<Rightarrow> int \<Rightarrow> int \<Rightarrow> int \<Rightarrow> FuncState result" where
  "patchlistaux K fs list vtarget reg dtarget = patchlist_loop (length (f_code fs) + 1) K fs list vtarget reg dtarget"

definition dischargejpc :: "lexview \<Rightarrow> FuncState \<Rightarrow> FuncState result" where
  "dischargejpc K fs =
     bind_result (patchlistaux K fs (fs_jpc fs) (fs_pc fs) NO_REG (fs_pc fs)) (\<lambda>fs. Inr (fs\<lparr>fs_jpc := NO_JUMP\<rparr>))"

text \<open>The loop of \<open>luaK_concat\<close> to the last element of a list.\<close>

fun list_end :: "nat \<Rightarrow> FuncState \<Rightarrow> int \<Rightarrow> int result" where
  "list_end 0 fs list = Inl Diverges"
| "list_end (Suc n) fs list =
     bind_result (getjump fs list) (\<lambda>nxt. if nxt = NO_JUMP then Inr list else list_end n fs nxt)"

definition luaK_concat :: "lexview \<Rightarrow> FuncState \<Rightarrow> int \<Rightarrow> int \<Rightarrow> (int \<times> FuncState) result" where
  "luaK_concat K fs l1 l2 =
     (if l2 = NO_JUMP then Inr (l1, fs)
      else if l1 = NO_JUMP then Inr (l2, fs)
      else bind_result (list_end (length (f_code fs) + 1) fs l1) (\<lambda>list.
        bind_result (fixjump K fs list l2) (\<lambda>fs. Inr (l1, fs))))"

definition luaK_patchtohere :: "lexview \<Rightarrow> FuncState \<Rightarrow> int \<Rightarrow> FuncState result" where
  "luaK_patchtohere K fs list =
     (let (_, fs) = luaK_getlabel fs in
      bind_result (luaK_concat K fs (fs_jpc fs) list) (\<lambda>(j, fs). Inr (fs\<lparr>fs_jpc := j\<rparr>)))"

definition luaK_patchlist :: "lexview \<Rightarrow> FuncState \<Rightarrow> int \<Rightarrow> int \<Rightarrow> FuncState result" where
  "luaK_patchlist K fs list target =
     (if target = fs_pc fs then luaK_patchtohere K fs list else patchlistaux K fs list target NO_REG target)"

subsection \<open>Instructions\<close>

text \<open>\<open>luaM_growvector\<close> for one more element fails when the vector has reached its limit.\<close>

definition grow :: "nat \<Rightarrow> int \<Rightarrow> string \<Rightarrow> unit result" where
  "grow n limit msg = (if int n \<ge> limit then Inl (RunError msg) else Inr ())"

definition luaK_code :: "lexview \<Rightarrow> FuncState \<Rightarrow> Instruction \<Rightarrow> int \<Rightarrow> (int \<times> FuncState) result" where
  "luaK_code K fs i line =
     bind_result (dischargejpc K fs) (\<lambda>fs.
     bind_result (grow (length (f_code fs)) (int MAX_INT) ''code size overflow'') (\<lambda>_.
       Inr (fs_pc fs, fs\<lparr>f_code := f_code fs @ [i], f_lineinfo := f_lineinfo fs @ [line]\<rparr>)))"

definition luaK_codeABC :: "lexview \<Rightarrow> FuncState \<Rightarrow> OpCode \<Rightarrow> int \<Rightarrow> int \<Rightarrow> int \<Rightarrow> (int \<times> FuncState) result" where
  "luaK_codeABC K fs m a b c = luaK_code K fs (CREATE_ABC (opnum m) a b c) (lv_lastline K)"

definition luaK_codeABx :: "lexview \<Rightarrow> FuncState \<Rightarrow> OpCode \<Rightarrow> int \<Rightarrow> int \<Rightarrow> (int \<times> FuncState) result" where
  "luaK_codeABx K fs m a bc = luaK_code K fs (CREATE_ABx (opnum m) a bc) (lv_lastline K)"

definition luaK_codeAsBx :: "lexview \<Rightarrow> FuncState \<Rightarrow> OpCode \<Rightarrow> int \<Rightarrow> int \<Rightarrow> (int \<times> FuncState) result" where
  "luaK_codeAsBx K fs m a sbx = luaK_codeABx K fs m a (sbx + MAXARG_sBx)"

definition luaK_fixline :: "FuncState \<Rightarrow> int \<Rightarrow> FuncState result" where
  "luaK_fixline fs line =
     (if f_lineinfo fs = [] then Inl MemoryFault
      else Inr (fs\<lparr>f_lineinfo := (f_lineinfo fs)[length (f_lineinfo fs) - 1 := line]\<rparr>))"

text \<open>An instruction whose place is not asked for.\<close>

definition emitABC :: "lexview \<Rightarrow> FuncState \<Rightarrow> OpCode \<Rightarrow> int \<Rightarrow> int \<Rightarrow> int \<Rightarrow> FuncState result" where
  "emitABC K fs m a b c = bind_result (luaK_codeABC K fs m a b c) (\<lambda>(_, fs). Inr fs)"

definition luaK_nil :: "lexview \<Rightarrow> FuncState \<Rightarrow> int \<Rightarrow> int \<Rightarrow> FuncState result" where
  "luaK_nil K fs from n =
     (if fs_pc fs > fs_lasttarget fs \<and> fs_pc fs = 0 \<and> from \<ge> fs_nactvar fs then Inr fs
      else if fs_pc fs > fs_lasttarget fs \<and> fs_pc fs \<noteq> 0 then
        bind_result (code_at fs (fs_pc fs - 1)) (\<lambda>i.
          let pfrom = GETARG_A i; pto = GETARG_B i in
          if is_op i OP_LOADNIL \<and> pfrom \<le> from \<and> from \<le> pto + 1
          then (if from + n - 1 > pto then edit_code fs (fs_pc fs - 1) (\<lambda>i. SETARG_B i (from + n - 1)) else Inr fs)
          else emitABC K fs OP_LOADNIL from (from + n - 1) 0)
      else emitABC K fs OP_LOADNIL from (from + n - 1) 0)"

definition luaK_jump :: "lexview \<Rightarrow> FuncState \<Rightarrow> (int \<times> FuncState) result" where
  "luaK_jump K fs =
     (let jpc = fs_jpc fs; fs = fs\<lparr>fs_jpc := NO_JUMP\<rparr> in
      bind_result (luaK_codeAsBx K fs OP_JMP 0 NO_JUMP) (\<lambda>(j, fs). luaK_concat K fs j jpc))"

definition luaK_ret :: "lexview \<Rightarrow> FuncState \<Rightarrow> int \<Rightarrow> int \<Rightarrow> FuncState result" where
  "luaK_ret K fs first nret = emitABC K fs OP_RETURN first (nret + 1) 0"

definition condjump :: "lexview \<Rightarrow> FuncState \<Rightarrow> OpCode \<Rightarrow> int \<Rightarrow> int \<Rightarrow> int \<Rightarrow> (int \<times> FuncState) result" where
  "condjump K fs m a b c = bind_result (emitABC K fs m a b c) (luaK_jump K)"

subsection \<open>Registers\<close>

definition cast_byte :: "int \<Rightarrow> int" where "cast_byte k = k mod 256"

definition luaK_checkstack :: "lexview \<Rightarrow> FuncState \<Rightarrow> int \<Rightarrow> FuncState result" where
  "luaK_checkstack K fs n =
     (let newstack = fs_freereg fs + n in
      if newstack > byte_int (f_maxstacksize fs) then
        (if newstack \<ge> MAXSTACK then Inl (lv_error K ''function or expression too complex'')
         else Inr (fs\<lparr>f_maxstacksize := word_of_int newstack\<rparr>))
      else Inr fs)"

definition luaK_reserveregs :: "lexview \<Rightarrow> FuncState \<Rightarrow> int \<Rightarrow> FuncState result" where
  "luaK_reserveregs K fs n =
     bind_result (luaK_checkstack K fs n) (\<lambda>fs. Inr (fs\<lparr>fs_freereg := fs_freereg fs + n\<rparr>))"

definition freereg :: "FuncState \<Rightarrow> int \<Rightarrow> FuncState" where
  "freereg fs reg = (if \<not> ISK reg \<and> reg \<ge> fs_nactvar fs then fs\<lparr>fs_freereg := fs_freereg fs - 1\<rparr> else fs)"

definition freeexp :: "FuncState \<Rightarrow> expdesc \<Rightarrow> FuncState" where
  "freeexp fs e = (if e_k e = VNONRELOC then freereg fs (e_info e) else fs)"

subsection \<open>Constants\<close>

text \<open>
  The table \<open>fs->h\<close> maps each constant to its index in \<open>f->k\<close>; a value that is not a number (the
  mark \<open>luaX_newstring\<close> leaves) is no index. The barrier of the prototype is the collector's.
\<close>

definition addk :: "FuncState \<Rightarrow> TValue \<Rightarrow> TValue \<Rightarrow> (int \<times> FuncState) result" where
  "addk fs k v =
     bind_result (luaH_set (fs_L fs) (fs_h fs) k) (\<lambda>(g, h, idx).
       let fs = fs\<lparr>fs_L := g, fs_h := h\<rparr> in
       case slot_val h idx of
         TNumber n \<Rightarrow> Inr (cast_int (lua_number2integer n), fs)
       | _ \<Rightarrow>
           let nk = length (f_k fs) in
           bind_result (grow nk MAXARG_Bx ''constant table overflow'') (\<lambda>_.
             Inr (int nk, fs\<lparr>fs_h := set_slot h idx (TNumber (cast_num (int nk))), f_k := f_k fs @ [v]\<rparr>)))"

definition luaK_stringK :: "FuncState \<Rightarrow> TString \<Rightarrow> (int \<times> FuncState) result" where
  "luaK_stringK fs s = addk fs (TStr s) (TStr s)"

definition luaK_numberK :: "FuncState \<Rightarrow> lua_Number \<Rightarrow> (int \<times> FuncState) result" where
  "luaK_numberK fs r = addk fs (TNumber r) (TNumber r)"

definition boolK :: "FuncState \<Rightarrow> bool \<Rightarrow> (int \<times> FuncState) result" where
  "boolK fs b = addk fs (TBoolean b) (TBoolean b)"

text \<open>The table itself is the key of nil.\<close>

definition nilK :: "FuncState \<Rightarrow> (int \<times> FuncState) result" where
  "nilK fs = addk fs (TTable (t_self (fs_h fs))) TNil"

subsection \<open>Expressions in registers\<close>

type_synonym exp_result = "(expdesc \<times> FuncState) result"

definition luaK_setreturns :: "lexview \<Rightarrow> FuncState \<Rightarrow> expdesc \<Rightarrow> int \<Rightarrow> FuncState result" where
  "luaK_setreturns K fs e nresults =
     (if e_k e = VCALL then edit_code fs (e_info e) (\<lambda>i. SETARG_C i (nresults + 1))
      else if e_k e = VVARARG then
        bind_result (edit_code fs (e_info e) (\<lambda>i. SETARG_B i (nresults + 1))) (\<lambda>fs.
        bind_result (edit_code fs (e_info e) (\<lambda>i. SETARG_A i (fs_freereg fs))) (\<lambda>fs.
          luaK_reserveregs K fs 1))
      else Inr fs)"

definition luaK_setoneret :: "FuncState \<Rightarrow> expdesc \<Rightarrow> exp_result" where
  "luaK_setoneret fs e =
     (if e_k e = VCALL then
        bind_result (code_at fs (e_info e)) (\<lambda>i. Inr (e\<lparr>e_k := VNONRELOC, e_info := GETARG_A i\<rparr>, fs))
      else if e_k e = VVARARG then
        bind_result (edit_code fs (e_info e) (\<lambda>i. SETARG_B i 2)) (\<lambda>fs. Inr (e\<lparr>e_k := VRELOCABLE\<rparr>, fs))
      else Inr (e, fs))"

text \<open>An expression whose value the instruction just coded gives, in a register still to be chosen.\<close>

definition relocable :: "expdesc \<Rightarrow> (int \<times> FuncState) result \<Rightarrow> exp_result" where
  "relocable e r = bind_result r (\<lambda>(pc, fs). Inr (e\<lparr>e_info := pc, e_k := VRELOCABLE\<rparr>, fs))"

definition luaK_dischargevars :: "lexview \<Rightarrow> FuncState \<Rightarrow> expdesc \<Rightarrow> exp_result" where
  "luaK_dischargevars K fs e = (case e_k e of
       VLOCAL \<Rightarrow> Inr (e\<lparr>e_k := VNONRELOC\<rparr>, fs)
     | VUPVAL \<Rightarrow> relocable e (luaK_codeABC K fs OP_GETUPVAL 0 (e_info e) 0)
     | VGLOBAL \<Rightarrow> relocable e (luaK_codeABx K fs OP_GETGLOBAL 0 (e_info e))
     | VINDEXED \<Rightarrow>
         (let fs = freereg fs (e_aux e); fs = freereg fs (e_info e) in
          relocable e (luaK_codeABC K fs OP_GETTABLE 0 (e_info e) (e_aux e)))
     | VVARARG \<Rightarrow> luaK_setoneret fs e
     | VCALL \<Rightarrow> luaK_setoneret fs e
     | _ \<Rightarrow> Inr (e, fs))"

definition code_label :: "lexview \<Rightarrow> FuncState \<Rightarrow> int \<Rightarrow> int \<Rightarrow> int \<Rightarrow> (int \<times> FuncState) result" where
  "code_label K fs a b jump = (let (_, fs) = luaK_getlabel fs in luaK_codeABC K fs OP_LOADBOOL a b jump)"

definition discharge2reg :: "lexview \<Rightarrow> FuncState \<Rightarrow> expdesc \<Rightarrow> int \<Rightarrow> exp_result" where
  "discharge2reg K fs e reg =
     bind_result (luaK_dischargevars K fs e) (\<lambda>(e, fs).
       let in_reg = (\<lambda>fs. Inr (e\<lparr>e_info := reg, e_k := VNONRELOC\<rparr>, fs)) in
       case e_k e of
         VNIL \<Rightarrow> bind_result (luaK_nil K fs reg 1) in_reg
       | VFALSE \<Rightarrow> bind_result (emitABC K fs OP_LOADBOOL reg 0 0) in_reg
       | VTRUE \<Rightarrow> bind_result (emitABC K fs OP_LOADBOOL reg 1 0) in_reg
       | VK \<Rightarrow> bind_result (luaK_codeABx K fs OP_LOADK reg (e_info e)) (\<lambda>(_, fs). in_reg fs)
       | VKNUM \<Rightarrow> bind_result (luaK_numberK fs (e_nval e)) (\<lambda>(k, fs).
           bind_result (luaK_codeABx K fs OP_LOADK reg k) (\<lambda>(_, fs). in_reg fs))
       | VRELOCABLE \<Rightarrow> bind_result (edit_code fs (e_info e) (\<lambda>i. SETARG_A i reg)) in_reg
       | VNONRELOC \<Rightarrow>
           bind_result (if reg \<noteq> e_info e then emitABC K fs OP_MOVE reg (e_info e) 0 else Inr fs) in_reg
       | _ \<Rightarrow> Inr (e, fs))"

definition discharge2anyreg :: "lexview \<Rightarrow> FuncState \<Rightarrow> expdesc \<Rightarrow> exp_result" where
  "discharge2anyreg K fs e =
     (if e_k e \<noteq> VNONRELOC then
        bind_result (luaK_reserveregs K fs 1) (\<lambda>fs. discharge2reg K fs e (fs_freereg fs - 1))
      else Inr (e, fs))"

text \<open>
  The jumps out of an expression with jumps in it: the two loads of a boolean for jumps that
  give no value, and the lists patched to them or to the end.
\<close>

definition close_jumps :: "lexview \<Rightarrow> FuncState \<Rightarrow> expdesc \<Rightarrow> int \<Rightarrow> FuncState result" where
  "close_jumps K fs e reg =
     bind_result (need_value fs (e_t e)) (\<lambda>nt.
     bind_result (if nt then Inr True else need_value fs (e_f e)) (\<lambda>need.
     bind_result
       (if need then
          bind_result (if e_k e = VJMP then Inr (NO_JUMP, fs) else luaK_jump K fs) (\<lambda>(fj, fs).
          bind_result (code_label K fs reg 0 1) (\<lambda>(p_f, fs).
          bind_result (code_label K fs reg 1 0) (\<lambda>(p_t, fs).
          bind_result (luaK_patchtohere K fs fj) (\<lambda>fs. Inr (p_f, p_t, fs)))))
        else Inr (NO_JUMP, NO_JUMP, fs)) (\<lambda>(p_f, p_t, fs).
     let (final, fs) = luaK_getlabel fs in
     bind_result (patchlistaux K fs (e_f e) final reg p_f) (\<lambda>fs.
       patchlistaux K fs (e_t e) final reg p_t))))"

definition exp2reg :: "lexview \<Rightarrow> FuncState \<Rightarrow> expdesc \<Rightarrow> int \<Rightarrow> exp_result" where
  "exp2reg K fs e reg =
     bind_result (discharge2reg K fs e reg) (\<lambda>(e, fs).
     bind_result (if e_k e = VJMP then bind_result (luaK_concat K fs (e_t e) (e_info e)) (\<lambda>(t, fs). Inr (e\<lparr>e_t := t\<rparr>, fs))
        else Inr (e, fs)) (\<lambda>(e, fs).
     bind_result (if hasjumps e then close_jumps K fs e reg else Inr fs) (\<lambda>fs.
       Inr (e\<lparr>e_f := NO_JUMP, e_t := NO_JUMP, e_info := reg, e_k := VNONRELOC\<rparr>, fs))))"

definition luaK_exp2nextreg :: "lexview \<Rightarrow> FuncState \<Rightarrow> expdesc \<Rightarrow> exp_result" where
  "luaK_exp2nextreg K fs e =
     bind_result (luaK_dischargevars K fs e) (\<lambda>(e, fs).
     bind_result (luaK_reserveregs K (freeexp fs e) 1) (\<lambda>fs. exp2reg K fs e (fs_freereg fs - 1)))"

definition luaK_exp2anyreg :: "lexview \<Rightarrow> FuncState \<Rightarrow> expdesc \<Rightarrow> (int \<times> expdesc \<times> FuncState) result" where
  "luaK_exp2anyreg K fs e =
     bind_result (luaK_dischargevars K fs e) (\<lambda>(e, fs).
       if e_k e = VNONRELOC \<and> \<not> hasjumps e then Inr (e_info e, e, fs)
       else if e_k e = VNONRELOC \<and> e_info e \<ge> fs_nactvar fs then
         bind_result (exp2reg K fs e (e_info e)) (\<lambda>(e, fs). Inr (e_info e, e, fs))
       else bind_result (luaK_exp2nextreg K fs e) (\<lambda>(e, fs). Inr (e_info e, e, fs)))"

definition anyreg :: "lexview \<Rightarrow> FuncState \<Rightarrow> expdesc \<Rightarrow> exp_result" where
  "anyreg K fs e = bind_result (luaK_exp2anyreg K fs e) (\<lambda>(_, e, fs). Inr (e, fs))"

definition luaK_exp2val :: "lexview \<Rightarrow> FuncState \<Rightarrow> expdesc \<Rightarrow> exp_result" where
  "luaK_exp2val K fs e = (if hasjumps e then anyreg K fs e else luaK_dischargevars K fs e)"

text \<open>The constant an expression of constant kind stands for.\<close>

definition constant_index :: "FuncState \<Rightarrow> expdesc \<Rightarrow> (int \<times> FuncState) result" where
  "constant_index fs e =
     (if e_k e = VNIL then nilK fs else if e_k e = VKNUM then luaK_numberK fs (e_nval e) else boolK fs (e_k e = VTRUE))"

definition luaK_exp2RK :: "lexview \<Rightarrow> FuncState \<Rightarrow> expdesc \<Rightarrow> (int \<times> expdesc \<times> FuncState) result" where
  "luaK_exp2RK K fs e =
     bind_result (luaK_exp2val K fs e) (\<lambda>(e, fs).
       if e_k e \<in> {VKNUM, VTRUE, VFALSE, VNIL} \<and> int (length (f_k fs)) \<le> MAXINDEXRK then
         bind_result (constant_index fs e) (\<lambda>(k, fs). Inr (RKASK k, e\<lparr>e_info := k, e_k := VK\<rparr>, fs))
       else if e_k e = VK \<and> e_info e \<le> MAXINDEXRK then Inr (RKASK (e_info e), e, fs)
       else luaK_exp2anyreg K fs e)"

definition luaK_storevar :: "lexview \<Rightarrow> FuncState \<Rightarrow> expdesc \<Rightarrow> expdesc \<Rightarrow> exp_result" where
  "luaK_storevar K fs var ex = (case e_k var of
       VLOCAL \<Rightarrow> exp2reg K (freeexp fs ex) ex (e_info var)
     | VUPVAL \<Rightarrow> bind_result (luaK_exp2anyreg K fs ex) (\<lambda>(e, ex, fs).
         bind_result (emitABC K fs OP_SETUPVAL e (e_info var) 0) (\<lambda>fs. Inr (ex, freeexp fs ex)))
     | VGLOBAL \<Rightarrow> bind_result (luaK_exp2anyreg K fs ex) (\<lambda>(e, ex, fs).
         bind_result (luaK_codeABx K fs OP_SETGLOBAL e (e_info var)) (\<lambda>(_, fs). Inr (ex, freeexp fs ex)))
     | VINDEXED \<Rightarrow> bind_result (luaK_exp2RK K fs ex) (\<lambda>(e, ex, fs).
         bind_result (emitABC K fs OP_SETTABLE (e_info var) (e_aux var) e) (\<lambda>fs. Inr (ex, freeexp fs ex)))
     | _ \<Rightarrow> Inr (ex, freeexp fs ex))"

definition luaK_self :: "lexview \<Rightarrow> FuncState \<Rightarrow> expdesc \<Rightarrow> expdesc \<Rightarrow> exp_result" where
  "luaK_self K fs e key =
     bind_result (anyreg K fs e) (\<lambda>(e, fs).
     let fs = freeexp fs e; func = fs_freereg fs in
     bind_result (luaK_reserveregs K fs 2) (\<lambda>fs.
     bind_result (luaK_exp2RK K fs key) (\<lambda>(rk, key, fs).
     bind_result (emitABC K fs OP_SELF func (e_info e) rk) (\<lambda>fs.
       Inr (e\<lparr>e_info := func, e_k := VNONRELOC\<rparr>, freeexp fs key)))))"

subsection \<open>Conditions\<close>

definition invertjump :: "FuncState \<Rightarrow> expdesc \<Rightarrow> FuncState result" where
  "invertjump fs e =
     bind_result (getjumpcontrol fs (e_info e)) (\<lambda>pi.
       edit_code fs pi (\<lambda>i. SETARG_A i (if GETARG_A i = 0 then 1 else 0)))"

text \<open>Removing the last instruction: \<open>fs->pc--\<close>.\<close>

definition drop_last :: "FuncState \<Rightarrow> FuncState" where
  "drop_last fs = fs\<lparr>f_code := butlast (f_code fs), f_lineinfo := butlast (f_lineinfo fs)\<rparr>"

definition jumponcond :: "lexview \<Rightarrow> FuncState \<Rightarrow> expdesc \<Rightarrow> bool \<Rightarrow> (int \<times> expdesc \<times> FuncState) result" where
  "jumponcond K fs e cond =
     bind_result
       (if e_k e = VRELOCABLE
        then bind_result (code_at fs (e_info e)) (\<lambda>ie. Inr (if is_op ie OP_NOT then Some ie else None))
        else Inr None) (\<lambda>neg. case neg of
       Some ie \<Rightarrow>
         bind_result (condjump K (drop_last fs) OP_TEST (GETARG_B ie) 0 (of_bool (\<not> cond))) (\<lambda>(j, fs). Inr (j, e, fs))
     | None \<Rightarrow>
         bind_result (discharge2anyreg K fs e) (\<lambda>(e, fs).
         bind_result (condjump K (freeexp fs e) OP_TESTSET NO_REG (e_info e) (of_bool cond)) (\<lambda>(j, fs). Inr (j, e, fs))))"

definition luaK_goiftrue :: "lexview \<Rightarrow> FuncState \<Rightarrow> expdesc \<Rightarrow> exp_result" where
  "luaK_goiftrue K fs e =
     bind_result (luaK_dischargevars K fs e) (\<lambda>(e, fs).
     bind_result
       (if e_k e \<in> {VK, VKNUM, VTRUE} then Inr (NO_JUMP, e, fs)
        else if e_k e = VFALSE then bind_result (luaK_jump K fs) (\<lambda>(j, fs). Inr (j, e, fs))
        else if e_k e = VJMP then bind_result (invertjump fs e) (\<lambda>fs. Inr (e_info e, e, fs))
        else jumponcond K fs e False) (\<lambda>(pc, e, fs).
     bind_result (luaK_concat K fs (e_f e) pc) (\<lambda>(f, fs).
     bind_result (luaK_patchtohere K fs (e_t e)) (\<lambda>fs. Inr (e\<lparr>e_f := f, e_t := NO_JUMP\<rparr>, fs)))))"

definition luaK_goiffalse :: "lexview \<Rightarrow> FuncState \<Rightarrow> expdesc \<Rightarrow> exp_result" where
  "luaK_goiffalse K fs e =
     bind_result (luaK_dischargevars K fs e) (\<lambda>(e, fs).
     bind_result
       (if e_k e \<in> {VNIL, VFALSE} then Inr (NO_JUMP, e, fs)
        else if e_k e = VTRUE then bind_result (luaK_jump K fs) (\<lambda>(j, fs). Inr (j, e, fs))
        else if e_k e = VJMP then Inr (e_info e, e, fs)
        else jumponcond K fs e True) (\<lambda>(pc, e, fs).
     bind_result (luaK_concat K fs (e_t e) pc) (\<lambda>(t, fs).
     bind_result (luaK_patchtohere K fs (e_f e)) (\<lambda>fs. Inr (e\<lparr>e_t := t, e_f := NO_JUMP\<rparr>, fs)))))"

definition codenot :: "lexview \<Rightarrow> FuncState \<Rightarrow> expdesc \<Rightarrow> exp_result" where
  "codenot K fs e =
     bind_result (luaK_dischargevars K fs e) (\<lambda>(e, fs).
     bind_result
       (if e_k e \<in> {VNIL, VFALSE} then Inr (e\<lparr>e_k := VTRUE\<rparr>, fs)
        else if e_k e \<in> {VK, VKNUM, VTRUE} then Inr (e\<lparr>e_k := VFALSE\<rparr>, fs)
        else if e_k e = VJMP then bind_result (invertjump fs e) (\<lambda>fs. Inr (e, fs))
        else if e_k e \<in> {VRELOCABLE, VNONRELOC} then
          bind_result (discharge2anyreg K fs e) (\<lambda>(e, fs).
            relocable e (luaK_codeABC K (freeexp fs e) OP_NOT 0 (e_info e) 0))
        else Inr (e, fs)) (\<lambda>(e, fs).
     let e = e\<lparr>e_f := e_t e, e_t := e_f e\<rparr> in
     bind_result (removevalues fs (e_f e)) (\<lambda>fs.
     bind_result (removevalues fs (e_t e)) (\<lambda>fs. Inr (e, fs)))))"

definition luaK_indexed :: "lexview \<Rightarrow> FuncState \<Rightarrow> expdesc \<Rightarrow> expdesc \<Rightarrow> exp_result" where
  "luaK_indexed K fs t k = bind_result (luaK_exp2RK K fs k) (\<lambda>(rk, k, fs). Inr (t\<lparr>e_aux := rk, e_k := VINDEXED\<rparr>, fs))"

subsection \<open>Operators\<close>

text \<open>Arithmetic on two numerals at compile time: the number, or \<open>None\<close> where it is left to run time.\<close>

definition constfolding :: "clib \<Rightarrow> OpCode \<Rightarrow> expdesc \<Rightarrow> expdesc \<Rightarrow> lua_Number option" where
  "constfolding C m e1 e2 =
     (if \<not> isnumeral e1 \<or> \<not> isnumeral e2 then None
      else
        let v1 = e_nval e1; v2 = e_nval e2;
            r = (case m of
                OP_ADD \<Rightarrow> Some (luai_numadd v1 v2)
              | OP_SUB \<Rightarrow> Some (luai_numsub v1 v2)
              | OP_MUL \<Rightarrow> Some (luai_nummul v1 v2)
              | OP_DIV \<Rightarrow> if luai_numeq v2 0 then None else Some (luai_numdiv v1 v2)
              | OP_MOD \<Rightarrow> if luai_numeq v2 0 then None else Some (luai_nummod v1 v2)
              | OP_POW \<Rightarrow> Some (c_pow C v1 v2)
              | OP_UNM \<Rightarrow> Some (luai_numunm v1)
              | OP_LEN \<Rightarrow> None
              | _ \<Rightarrow> Some 0)
        in case r of None \<Rightarrow> None | Some r \<Rightarrow> if luai_numisnan r then None else Some r)"

definition codearith :: "lexview \<Rightarrow> FuncState \<Rightarrow> OpCode \<Rightarrow> expdesc \<Rightarrow> expdesc \<Rightarrow> exp_result" where
  "codearith K fs m e1 e2 =
     (case constfolding (lv_clib K) m e1 e2 of
        Some r \<Rightarrow> Inr (e1\<lparr>e_nval := r\<rparr>, fs)
      | None \<Rightarrow>
          bind_result (if m \<noteq> OP_UNM \<and> m \<noteq> OP_LEN then luaK_exp2RK K fs e2 else Inr (0, e2, fs)) (\<lambda>(o2, e2, fs).
          bind_result (luaK_exp2RK K fs e1) (\<lambda>(o1, e1, fs).
          let fs = (if o1 > o2 then freeexp (freeexp fs e1) e2 else freeexp (freeexp fs e2) e1) in
          relocable e1 (luaK_codeABC K fs m 0 o1 o2))))"

definition codecomp :: "lexview \<Rightarrow> FuncState \<Rightarrow> OpCode \<Rightarrow> int \<Rightarrow> expdesc \<Rightarrow> expdesc \<Rightarrow> exp_result" where
  "codecomp K fs m cond e1 e2 =
     bind_result (luaK_exp2RK K fs e1) (\<lambda>(o1, e1, fs).
     bind_result (luaK_exp2RK K fs e2) (\<lambda>(o2, e2, fs).
     let fs = freeexp (freeexp fs e2) e1;
         (o1, o2, cond) = (if cond = 0 \<and> m \<noteq> OP_EQ then (o2, o1, 1) else (o1, o2, cond)) in
     bind_result (condjump K fs m cond o1 o2) (\<lambda>(j, fs). Inr (e1\<lparr>e_info := j, e_k := VJMP\<rparr>, fs))))"

definition luaK_prefix :: "lexview \<Rightarrow> FuncState \<Rightarrow> UnOpr \<Rightarrow> expdesc \<Rightarrow> exp_result" where
  "luaK_prefix K fs uop e =
     (let e2 = \<lparr>e_k = VKNUM, e_info = 0, e_aux = 0, e_nval = 0, e_t = NO_JUMP, e_f = NO_JUMP\<rparr> in
      case uop of
        OPR_MINUS \<Rightarrow>
          bind_result (if \<not> isnumeral e then anyreg K fs e else Inr (e, fs)) (\<lambda>(e, fs). codearith K fs OP_UNM e e2)
      | OPR_NOT \<Rightarrow> codenot K fs e
      | OPR_LEN \<Rightarrow> bind_result (anyreg K fs e) (\<lambda>(e, fs). codearith K fs OP_LEN e e2)
      | OPR_NOUNOPR \<Rightarrow> Inr (e, fs))"

definition luaK_infix :: "lexview \<Rightarrow> FuncState \<Rightarrow> BinOpr \<Rightarrow> expdesc \<Rightarrow> exp_result" where
  "luaK_infix K fs bop v =
     (let rk = bind_result (luaK_exp2RK K fs v) (\<lambda>(_, v, fs). Inr (v, fs)) in
      if bop = OPR_AND then luaK_goiftrue K fs v
      else if bop = OPR_OR then luaK_goiffalse K fs v
      else if bop = OPR_CONCAT then luaK_exp2nextreg K fs v
      else if bop \<in> {OPR_ADD, OPR_SUB, OPR_MUL, OPR_DIV, OPR_MOD, OPR_POW} then (if \<not> isnumeral v then rk else Inr (v, fs))
      else rk)"

text \<open>Concatenation is right associative: a chain of it becomes one instruction.\<close>

definition posfix_concat :: "lexview \<Rightarrow> FuncState \<Rightarrow> expdesc \<Rightarrow> expdesc \<Rightarrow> exp_result" where
  "posfix_concat K fs e1 e2 =
     bind_result (luaK_exp2val K fs e2) (\<lambda>(e2, fs).
     bind_result (if e_k e2 = VRELOCABLE then bind_result (code_at fs (e_info e2)) (\<lambda>i. Inr (is_op i OP_CONCAT)) else Inr False) (\<lambda>chain.
       if chain then
         bind_result (edit_code (freeexp fs e1) (e_info e2) (\<lambda>i. SETARG_B i (e_info e1))) (\<lambda>fs.
           Inr (e1\<lparr>e_k := VRELOCABLE, e_info := e_info e2\<rparr>, fs))
       else bind_result (luaK_exp2nextreg K fs e2) (\<lambda>(e2, fs). codearith K fs OP_CONCAT e1 e2)))"

definition luaK_posfix :: "lexview \<Rightarrow> FuncState \<Rightarrow> BinOpr \<Rightarrow> expdesc \<Rightarrow> expdesc \<Rightarrow> exp_result" where
  "luaK_posfix K fs bop e1 e2 = (case bop of
       OPR_AND \<Rightarrow> bind_result (luaK_dischargevars K fs e2) (\<lambda>(e2, fs).
         bind_result (luaK_concat K fs (e_f e2) (e_f e1)) (\<lambda>(f, fs). Inr (e2\<lparr>e_f := f\<rparr>, fs)))
     | OPR_OR \<Rightarrow> bind_result (luaK_dischargevars K fs e2) (\<lambda>(e2, fs).
         bind_result (luaK_concat K fs (e_t e2) (e_t e1)) (\<lambda>(t, fs). Inr (e2\<lparr>e_t := t\<rparr>, fs)))
     | OPR_CONCAT \<Rightarrow> posfix_concat K fs e1 e2
     | OPR_ADD \<Rightarrow> codearith K fs OP_ADD e1 e2
     | OPR_SUB \<Rightarrow> codearith K fs OP_SUB e1 e2
     | OPR_MUL \<Rightarrow> codearith K fs OP_MUL e1 e2
     | OPR_DIV \<Rightarrow> codearith K fs OP_DIV e1 e2
     | OPR_MOD \<Rightarrow> codearith K fs OP_MOD e1 e2
     | OPR_POW \<Rightarrow> codearith K fs OP_POW e1 e2
     | OPR_EQ \<Rightarrow> codecomp K fs OP_EQ 1 e1 e2
     | OPR_NE \<Rightarrow> codecomp K fs OP_EQ 0 e1 e2
     | OPR_LT \<Rightarrow> codecomp K fs OP_LT 1 e1 e2
     | OPR_LE \<Rightarrow> codecomp K fs OP_LE 1 e1 e2
     | OPR_GT \<Rightarrow> codecomp K fs OP_LT 0 e1 e2
     | OPR_GE \<Rightarrow> codecomp K fs OP_LE 0 e1 e2
     | OPR_NOBINOPR \<Rightarrow> Inr (e1, fs))"

definition luaK_setlist :: "lexview \<Rightarrow> FuncState \<Rightarrow> int \<Rightarrow> int \<Rightarrow> int \<Rightarrow> FuncState result" where
  "luaK_setlist K fs base nelems tostore =
     (let c = (nelems - 1) div LFIELDS_PER_FLUSH + 1; b = (if tostore = LUA_MULTRET then 0 else tostore) in
      bind_result
        (if c \<le> MAXARG_C then emitABC K fs OP_SETLIST base b c
         else bind_result (emitABC K fs OP_SETLIST base b 0) (\<lambda>fs.
           bind_result (luaK_code K fs (word_of_int c) (lv_lastline K)) (\<lambda>(_, fs). Inr fs))) (\<lambda>fs.
      Inr (fs\<lparr>fs_freereg := base + 1\<rparr>)))"

end
