(* ===== verification/Lparser.thy ===== *)
theory Lparser
  imports Lcode
begin

text \<open>
  The parser, lparser.c: recursive descent over the tokens of llex.c, calling the code generator
  of lcode.c. The mutual recursion of the grammar goes through \<open>expr\<close> and \<open>chunk\<close>: the functions
  that call them take them as arguments (\<open>ex\<close>, \<open>bk\<close>), and \<open>subexpr\<close> and \<open>chunk\<close> tie the knot with a
  bound on the depth of the nesting, which bounds also the turns of the loops over tokens.
\<close>

definition LUAI_MAXVARS :: int where "LUAI_MAXVARS = 200"
definition LUAI_MAXUPVALUES :: int where "LUAI_MAXUPVALUES = 60"
definition SHRT_MAX :: int where "SHRT_MAX = 32767"

type_synonym ('a, 'd) parsed = "('a \<times> 'd LexState) result"

text \<open>A call of the code generator on the current function.\<close>

definition view :: "'d compile_env \<Rightarrow> 'd LexState \<Rightarrow> lexview" where
  "view E ls = \<lparr>lv_lastline = lastline ls,
     lv_error = (\<lambda>msg. case luaX_syntaxerror E ls msg :: unit result of Inl e \<Rightarrow> e | Inr _ \<Rightarrow> MemoryFault),
     lv_clib = ce_clib E\<rparr>"

definition gen :: "'d compile_env \<Rightarrow> 'd LexState \<Rightarrow> (lexview \<Rightarrow> FuncState \<Rightarrow> ('a \<times> FuncState) result) \<Rightarrow> ('a, 'd) parsed" where
  "gen E ls f =
     (case ls_fs ls of [] \<Rightarrow> Inl MemoryFault
      | fs # rest \<Rightarrow> bind_result (f (view E ls) fs) (\<lambda>(x, fs). Inr (x, ls\<lparr>ls_fs := fs # rest\<rparr>)))"

definition gen_do :: "'d compile_env \<Rightarrow> 'd LexState \<Rightarrow> (lexview \<Rightarrow> FuncState \<Rightarrow> FuncState result) \<Rightarrow> 'd LexState result" where
  "gen_do E ls f = bind_result (gen E ls (\<lambda>K fs. bind_result (f K fs) (\<lambda>fs. Inr ((), fs)))) (\<lambda>(_, ls). Inr ls)"

definition cur_fs :: "'d LexState \<Rightarrow> FuncState result" where
  "cur_fs ls = (case ls_fs ls of [] \<Rightarrow> Inl MemoryFault | fs # _ \<Rightarrow> Inr fs)"

subsection \<open>Tokens and errors\<close>

definition anchor_token :: "'d LexState \<Rightarrow> 'd LexState result" where
  "anchor_token ls =
     (if tk_token (tok ls) = TK_NAME \<or> tk_token (tok ls) = TK_STRING
      then bind_result (luaX_newstring ls (si_ts (seminfo (tok ls)))) (\<lambda>(_, ls). Inr ls)
      else Inr ls)"

definition error_expected :: "'d compile_env \<Rightarrow> 'd LexState \<Rightarrow> int \<Rightarrow> 'a result" where
  "error_expected E ls token =
     bind_result (luaX_token2str E token) (\<lambda>t.
     bind_result (luaO_pushvfstring (ce_clib E) (LUA_QL ''%s'' @ '' expected'') [ArgS (Some t)]) (luaX_syntaxerror E ls))"

definition errorlimit :: "'d compile_env \<Rightarrow> 'd LexState \<Rightarrow> FuncState \<Rightarrow> int \<Rightarrow> string \<Rightarrow> 'a result" where
  "errorlimit E ls fs limit what =
     bind_result
       (if f_linedefined fs = 0
        then luaO_pushvfstring (ce_clib E) ''main function has more than %d %s'' [ArgD limit, ArgS (Some what)]
        else luaO_pushvfstring (ce_clib E) ''function at line %d has more than %d %s''
          [ArgD (f_linedefined fs), ArgD limit, ArgS (Some what)]) (\<lambda>msg.
     luaX_lexerror E ls msg 0)"

definition luaY_checklimit :: "'d compile_env \<Rightarrow> 'd LexState \<Rightarrow> FuncState \<Rightarrow> int \<Rightarrow> int \<Rightarrow> string \<Rightarrow> unit result" where
  "luaY_checklimit E ls fs v l m = (if v > l then errorlimit E ls fs l m else Inr ())"

definition testnext :: "nat \<Rightarrow> 'd compile_env \<Rightarrow> 'd LexState \<Rightarrow> int \<Rightarrow> (bool, 'd) parsed" where
  "testnext n E ls c =
     (if tk_token (tok ls) = c then bind_result (luaX_next n E ls) (\<lambda>ls. Inr (True, ls)) else Inr (False, ls))"

definition check_token :: "'d compile_env \<Rightarrow> 'd LexState \<Rightarrow> int \<Rightarrow> unit result" where
  "check_token E ls c = (if tk_token (tok ls) \<noteq> c then error_expected E ls c else Inr ())"

definition checknext :: "nat \<Rightarrow> 'd compile_env \<Rightarrow> 'd LexState \<Rightarrow> int \<Rightarrow> 'd LexState result" where
  "checknext n E ls c = bind_result (check_token E ls c) (\<lambda>_. luaX_next n E ls)"

definition check_condition :: "'d compile_env \<Rightarrow> 'd LexState \<Rightarrow> bool \<Rightarrow> string \<Rightarrow> unit result" where
  "check_condition E ls c msg = (if \<not> c then luaX_syntaxerror E ls msg else Inr ())"

definition check_match :: "nat \<Rightarrow> 'd compile_env \<Rightarrow> 'd LexState \<Rightarrow> int \<Rightarrow> int \<Rightarrow> int \<Rightarrow> 'd LexState result" where
  "check_match n E ls what who where' =
     bind_result (testnext n E ls what) (\<lambda>(ok, ls).
       if ok then Inr ls
       else if where' = linenumber ls then error_expected E ls what
       else
         bind_result (luaX_token2str E what) (\<lambda>t1. bind_result (luaX_token2str E who) (\<lambda>t2.
         bind_result (luaO_pushvfstring (ce_clib E) (LUA_QL ''%s'' @ '' expected (to close '' @ LUA_QL ''%s'' @ '' at line %d)'')
           [ArgS (Some t1), ArgS (Some t2), ArgD where']) (luaX_syntaxerror E ls))))"

definition str_checkname :: "nat \<Rightarrow> 'd compile_env \<Rightarrow> 'd LexState \<Rightarrow> (TString, 'd) parsed" where
  "str_checkname n E ls =
     bind_result (check_token E ls TK_NAME) (\<lambda>_.
     bind_result (luaX_next n E ls) (\<lambda>ls'. Inr (si_ts (seminfo (tok ls)), ls')))"

definition init_exp :: "expkind \<Rightarrow> int \<Rightarrow> expdesc" where
  "init_exp k i = \<lparr>e_k = k, e_info = i, e_aux = 0, e_nval = 0, e_t = NO_JUMP, e_f = NO_JUMP\<rparr>"

definition codestring :: "'d compile_env \<Rightarrow> 'd LexState \<Rightarrow> TString \<Rightarrow> (expdesc, 'd) parsed" where
  "codestring E ls s = bind_result (gen E ls (\<lambda>K fs. luaK_stringK fs s)) (\<lambda>(k, ls). Inr (init_exp VK k, ls))"

definition checkname :: "nat \<Rightarrow> 'd compile_env \<Rightarrow> 'd LexState \<Rightarrow> (expdesc, 'd) parsed" where
  "checkname n E ls = bind_result (str_checkname n E ls) (\<lambda>(s, ls). codestring E ls s)"

subsection \<open>Variables\<close>

definition registerlocalvar :: "FuncState \<Rightarrow> TString \<Rightarrow> (nat \<times> FuncState) result" where
  "registerlocalvar fs name =
     (let k = length (f_locvars fs) in
      bind_result (grow k SHRT_MAX ''too many local variables'') (\<lambda>_.
        Inr (k, fs\<lparr>f_locvars := f_locvars fs @ [\<lparr>varname = Some name, startpc = 0, endpc = 0\<rparr>]\<rparr>)))"

definition new_localvar :: "'d compile_env \<Rightarrow> 'd LexState \<Rightarrow> TString \<Rightarrow> int \<Rightarrow> 'd LexState result" where
  "new_localvar E ls name k =
     bind_result (cur_fs ls) (\<lambda>fs.
     bind_result (luaY_checklimit E ls fs (fs_nactvar fs + k + 1) LUAI_MAXVARS ''local variables'') (\<lambda>_.
     gen_do E ls (\<lambda>K fs.
       bind_result (registerlocalvar fs name) (\<lambda>(i, fs).
         let at = fs_nactvar fs + k in
         if 0 \<le> at \<and> at < int (length (fs_actvar fs)) then Inr (fs\<lparr>fs_actvar := (fs_actvar fs)[nat at := i]\<rparr>)
         else Inl MemoryFault))))"

definition new_localvarliteral :: "'d compile_env \<Rightarrow> 'd LexState \<Rightarrow> string \<Rightarrow> int \<Rightarrow> 'd LexState result" where
  "new_localvarliteral E ls v k =
     bind_result (luaX_newstring ls v) (\<lambda>(ts, ls). new_localvar E ls ts k)"

text \<open>The \<open>LocVar\<close> of an active variable, \<open>getlocvar\<close>.\<close>

definition locvar_index :: "FuncState \<Rightarrow> int \<Rightarrow> nat result" where
  "locvar_index fs i =
     (if 0 \<le> i \<and> i < int (length (fs_actvar fs)) \<and> fs_actvar fs ! nat i < length (f_locvars fs)
      then Inr (fs_actvar fs ! nat i) else Inl MemoryFault)"

definition edit_locvar :: "FuncState \<Rightarrow> int \<Rightarrow> (LocVar \<Rightarrow> LocVar) \<Rightarrow> FuncState result" where
  "edit_locvar fs i f =
     bind_result (locvar_index fs i) (\<lambda>j. Inr (fs\<lparr>f_locvars := (f_locvars fs)[j := f (f_locvars fs ! j)]\<rparr>))"

fun start_vars :: "nat \<Rightarrow> FuncState \<Rightarrow> FuncState result" where
  "start_vars 0 fs = Inr fs"
| "start_vars (Suc k) fs =
     bind_result (edit_locvar fs (fs_nactvar fs - int (Suc k)) (\<lambda>v. v\<lparr>startpc := fs_pc fs\<rparr>)) (start_vars k)"

definition adjustlocalvars :: "FuncState \<Rightarrow> int \<Rightarrow> FuncState result" where
  "adjustlocalvars fs nvars = start_vars (nat nvars) (fs\<lparr>fs_nactvar := cast_byte (fs_nactvar fs + nvars)\<rparr>)"

fun end_vars :: "nat \<Rightarrow> FuncState \<Rightarrow> FuncState result" where
  "end_vars 0 fs = Inr fs"
| "end_vars (Suc k) fs =
     (let fs = fs\<lparr>fs_nactvar := fs_nactvar fs - 1\<rparr> in
      bind_result (edit_locvar fs (fs_nactvar fs) (\<lambda>v. v\<lparr>endpc := fs_pc fs\<rparr>)) (end_vars k))"

definition removevars :: "FuncState \<Rightarrow> int \<Rightarrow> FuncState result" where
  "removevars fs tolevel = end_vars (nat (fs_nactvar fs - tolevel)) fs"

definition indexupvalue :: "'d compile_env \<Rightarrow> 'd LexState \<Rightarrow> FuncState \<Rightarrow> TString \<Rightarrow> expdesc \<Rightarrow> (int \<times> FuncState) result" where
  "indexupvalue E ls fs name v =
     (case find (\<lambda>i. uv_k (fs_upvalues fs ! i) = e_k v \<and> uv_info (fs_upvalues fs ! i) = e_info v) [0..<length (fs_upvalues fs)] of
        Some i \<Rightarrow> Inr (int i, fs)
      | None \<Rightarrow>
          let nups = length (fs_upvalues fs) in
          bind_result (luaY_checklimit E ls fs (int nups + 1) LUAI_MAXUPVALUES ''upvalues'') (\<lambda>_.
            Inr (int nups, fs\<lparr>f_upvalues := f_upvalues fs @ [name],
              fs_upvalues := fs_upvalues fs @ [\<lparr>uv_k = e_k v, uv_info = cast_byte (e_info v)\<rparr>]\<rparr>)))"

text \<open>The active variables from the last one down.\<close>

fun searchvar_loop :: "FuncState \<Rightarrow> TString \<Rightarrow> nat \<Rightarrow> int result" where
  "searchvar_loop fs n 0 = Inr (- 1)"
| "searchvar_loop fs n (Suc i) =
     bind_result (locvar_index fs (int i)) (\<lambda>j.
       if varname (f_locvars fs ! j) = Some n then Inr (int i) else searchvar_loop fs n i)"

definition searchvar :: "FuncState \<Rightarrow> TString \<Rightarrow> int result" where
  "searchvar fs n = searchvar_loop fs n (nat (fs_nactvar fs))"

fun mark_block :: "int \<Rightarrow> BlockCnt list \<Rightarrow> BlockCnt list" where
  "mark_block level [] = []"
| "mark_block level (bl # bls) =
     (if bl_nactvar bl > level then bl # mark_block level bls else bl\<lparr>bl_upval := True\<rparr> # bls)"

definition markupval :: "FuncState \<Rightarrow> int \<Rightarrow> FuncState" where
  "markupval fs level = fs\<lparr>fs_bl := mark_block level (fs_bl fs)\<rparr>"

fun singlevaraux :: "'d compile_env \<Rightarrow> 'd LexState \<Rightarrow> FuncState list \<Rightarrow> TString \<Rightarrow> bool \<Rightarrow> (expdesc \<times> FuncState list) result" where
  "singlevaraux E ls [] n base = Inr (init_exp VGLOBAL NO_REG, [])"
| "singlevaraux E ls (fs # fss) n base =
     bind_result (searchvar fs n) (\<lambda>v.
       if v \<ge> 0 then Inr (init_exp VLOCAL v, (if \<not> base then markupval fs v else fs) # fss)
       else bind_result (singlevaraux E ls fss n False) (\<lambda>(var, fss).
         if e_k var = VGLOBAL then Inr (var, fs # fss)
         else bind_result (indexupvalue E ls fs n var) (\<lambda>(i, fs). Inr (var\<lparr>e_info := i, e_k := VUPVAL\<rparr>, fs # fss))))"

definition singlevar :: "nat \<Rightarrow> 'd compile_env \<Rightarrow> 'd LexState \<Rightarrow> (expdesc, 'd) parsed" where
  "singlevar n E ls =
     bind_result (str_checkname n E ls) (\<lambda>(name, ls).
     bind_result (singlevaraux E ls (ls_fs ls) name True) (\<lambda>(var, fss).
       let ls = ls\<lparr>ls_fs := fss\<rparr> in
       if e_k var = VGLOBAL
       then bind_result (gen E ls (\<lambda>K fs. luaK_stringK fs name)) (\<lambda>(k, ls). Inr (var\<lparr>e_info := k\<rparr>, ls))
       else Inr (var, ls)))"

definition hasmultret :: "expkind \<Rightarrow> bool" where "hasmultret k \<longleftrightarrow> k = VCALL \<or> k = VVARARG"

text \<open>A step of the generator that changes an expression.\<close>

type_synonym 'd exp_parsed = "(expdesc, 'd) parsed"

definition adjust_assign :: "lexview \<Rightarrow> FuncState \<Rightarrow> int \<Rightarrow> int \<Rightarrow> expdesc \<Rightarrow> FuncState result" where
  "adjust_assign K fs nvars nexps e =
     (let extra = nvars - nexps in
      if hasmultret (e_k e) then
        let extra = (if extra + 1 < 0 then 0 else extra + 1) in
        bind_result (luaK_setreturns K fs e extra) (\<lambda>fs.
          if extra > 1 then luaK_reserveregs K fs (extra - 1) else Inr fs)
      else
        bind_result (if e_k e \<noteq> VVOID then bind_result (luaK_exp2nextreg K fs e) (\<lambda>(_, fs). Inr fs) else Inr fs) (\<lambda>fs.
          if extra > 0 then
            let reg = fs_freereg fs in
            bind_result (luaK_reserveregs K fs extra) (\<lambda>fs. luaK_nil K fs reg extra)
          else Inr fs))"

definition enterlevel :: "'d compile_env \<Rightarrow> 'd LexState \<Rightarrow> 'd LexState result" where
  "enterlevel E ls =
     (let ls = ls\<lparr>ls_nCcalls := ls_nCcalls ls + 1\<rparr> in
      if ls_nCcalls ls > LUAI_MAXCCALLS then luaX_lexerror E ls ''chunk has too many syntax levels'' 0 else Inr ls)"

definition leavelevel :: "'d LexState \<Rightarrow> 'd LexState" where
  "leavelevel ls = ls\<lparr>ls_nCcalls := ls_nCcalls ls - 1\<rparr>"

subsection \<open>Blocks\<close>

definition enterblock :: "FuncState \<Rightarrow> bool \<Rightarrow> FuncState" where
  "enterblock fs isbreakable =
     fs\<lparr>fs_bl := \<lparr>bl_breaklist = NO_JUMP, bl_nactvar = fs_nactvar fs, bl_upval = False, bl_isbreakable = isbreakable\<rparr> # fs_bl fs\<rparr>"

definition leaveblock :: "lexview \<Rightarrow> FuncState \<Rightarrow> FuncState result" where
  "leaveblock K fs =
     (case fs_bl fs of [] \<Rightarrow> Inl MemoryFault
      | bl # bls \<Rightarrow>
          bind_result (removevars (fs\<lparr>fs_bl := bls\<rparr>) (bl_nactvar bl)) (\<lambda>fs.
          bind_result (if bl_upval bl then emitABC K fs OP_CLOSE (bl_nactvar bl) 0 0 else Inr fs) (\<lambda>fs.
            luaK_patchtohere K (fs\<lparr>fs_freereg := fs_nactvar fs\<rparr>) (bl_breaklist bl))))"

definition enter_block :: "'d compile_env \<Rightarrow> 'd LexState \<Rightarrow> bool \<Rightarrow> 'd LexState result" where
  "enter_block E ls b = gen_do E ls (\<lambda>K fs. Inr (enterblock fs b))"

definition leave_block :: "'d compile_env \<Rightarrow> 'd LexState \<Rightarrow> 'd LexState result" where
  "leave_block E ls = gen_do E ls leaveblock"

text \<open>The loop of \<open>breakstat\<close>: the index of the innermost breakable block, and whether a block inside has upvalues.\<close>

fun find_breakable :: "BlockCnt list \<Rightarrow> bool \<Rightarrow> nat \<Rightarrow> (nat \<times> bool) option" where
  "find_breakable [] upval i = None"
| "find_breakable (bl # bls) upval i =
     (if bl_isbreakable bl then Some (i, upval) else find_breakable bls (upval \<or> bl_upval bl) (i + 1))"

definition breakstat :: "'d compile_env \<Rightarrow> 'd LexState \<Rightarrow> 'd LexState result" where
  "breakstat E ls =
     bind_result (cur_fs ls) (\<lambda>fs. case find_breakable (fs_bl fs) False 0 of
       None \<Rightarrow> luaX_syntaxerror E ls ''no loop to break''
     | Some (i, upval) \<Rightarrow> gen_do E ls (\<lambda>K fs.
         bind_result (if upval then emitABC K fs OP_CLOSE (bl_nactvar (fs_bl fs ! i)) 0 0 else Inr fs) (\<lambda>fs.
         bind_result (luaK_jump K fs) (\<lambda>(j, fs).
         bind_result (luaK_concat K fs (bl_breaklist (fs_bl fs ! i)) j) (\<lambda>(l, fs).
           Inr (fs\<lparr>fs_bl := (fs_bl fs)[i := (fs_bl fs ! i)\<lparr>bl_breaklist := l\<rparr>]\<rparr>))))))"

subsection \<open>Functions\<close>

definition open_func :: "'d compile_env \<Rightarrow> 'd LexState \<Rightarrow> gc_core \<Rightarrow> 'd LexState result" where
  "open_func E ls g =
     bind_result (luaH_new (ce_alloc E (ls_tables ls)) 0 0) (\<lambda>h.
       let fs = \<lparr>f_k = [], f_code = [], f_p = [], f_lineinfo = [], f_locvars = [], f_upvalues = [], f_source = source ls,
           f_linedefined = 0, f_lastlinedefined = 0, f_numparams = 0, f_is_vararg = 0, f_maxstacksize = 2,
           fs_h = h, fs_L = g, fs_bl = [], fs_lasttarget = - 1, fs_jpc = NO_JUMP, fs_freereg = 0, fs_nactvar = 0,
           fs_upvalues = [], fs_actvar = replicate (nat LUAI_MAXVARS) 0\<rparr>
       in Inr (ls\<lparr>ls_fs := fs # ls_fs ls, ls_tables := ls_tables ls + 1\<rparr>))"

definition proto_of :: "FuncState \<Rightarrow> Proto" where
  "proto_of fs =
     Proto (map KVal (f_k fs)) (f_code fs) (f_p fs) (f_lineinfo fs) (f_locvars fs) (map Some (f_upvalues fs))
       (Some (f_source fs)) (f_linedefined fs) (f_lastlinedefined fs) (word_of_nat (length (f_upvalues fs)))
       (f_numparams fs) (f_is_vararg fs) (f_maxstacksize fs)"

text \<open>The function closed, and the state in which the enclosing one is current again.\<close>

definition close_func :: "'d compile_env \<Rightarrow> 'd LexState \<Rightarrow> (FuncState, 'd) parsed" where
  "close_func E ls =
     bind_result (gen_do E ls (\<lambda>K fs. bind_result (removevars fs 0) (\<lambda>fs. luaK_ret K fs 0 0))) (\<lambda>ls.
     case ls_fs ls of
       [] \<Rightarrow> Inl MemoryFault
     | fs # fss \<Rightarrow>
         let fss = (case fss of [] \<Rightarrow> [] | prev # rest \<Rightarrow> prev\<lparr>fs_L := fs_L fs\<rparr> # rest) in
         bind_result (anchor_token (ls\<lparr>ls_fs := fss\<rparr>)) (\<lambda>ls. Inr (fs, ls)))"

fun code_upvalues :: "lexview \<Rightarrow> FuncState \<Rightarrow> upvaldesc list \<Rightarrow> FuncState result" where
  "code_upvalues K fs [] = Inr fs"
| "code_upvalues K fs (u # us) =
     bind_result (emitABC K fs (if uv_k u = VLOCAL then OP_MOVE else OP_GETUPVAL) 0 (uv_info u) 0) (\<lambda>fs.
       code_upvalues K fs us)"

definition pushclosure :: "lexview \<Rightarrow> FuncState \<Rightarrow> FuncState \<Rightarrow> exp_result" where
  "pushclosure K fs func =
     bind_result (grow (length (f_p fs)) MAXARG_Bx ''constant table overflow'') (\<lambda>_.
     let fs = fs\<lparr>f_p := f_p fs @ [proto_of func]\<rparr> in
     bind_result (luaK_codeABx K fs OP_CLOSURE 0 (int (length (f_p fs)) - 1)) (\<lambda>(pc, fs).
     bind_result (code_upvalues K fs (fs_upvalues func)) (\<lambda>fs. Inr (init_exp VRELOCABLE pc, fs))))"

section \<open>Grammar rules\<close>

definition gen_exp :: "'d compile_env \<Rightarrow> 'd LexState \<Rightarrow> (lexview \<Rightarrow> FuncState \<Rightarrow> expdesc \<Rightarrow> exp_result) \<Rightarrow> expdesc \<Rightarrow> 'd exp_parsed" where
  "gen_exp E ls f e = gen E ls (\<lambda>K fs. f K fs e)"

definition field :: "nat \<Rightarrow> 'd compile_env \<Rightarrow> 'd LexState \<Rightarrow> expdesc \<Rightarrow> 'd exp_parsed" where
  "field n E ls v =
     bind_result (gen_exp E ls anyreg v) (\<lambda>(v, ls).
     bind_result (luaX_next n E ls) (\<lambda>ls.
     bind_result (checkname n E ls) (\<lambda>(key, ls). gen E ls (\<lambda>K fs. luaK_indexed K fs v key))))"

type_synonym 'd expr_fun = "'d LexState \<Rightarrow> 'd exp_parsed"

definition yindex :: "nat \<Rightarrow> 'd compile_env \<Rightarrow> 'd expr_fun \<Rightarrow> 'd LexState \<Rightarrow> 'd exp_parsed" where
  "yindex n E ex ls =
     bind_result (luaX_next n E ls) (\<lambda>ls.
     bind_result (ex ls) (\<lambda>(v, ls).
     bind_result (gen_exp E ls luaK_exp2val v) (\<lambda>(v, ls).
     bind_result (checknext n E ls (ch (CHR '']''))) (\<lambda>ls. Inr (v, ls)))))"

subsection \<open>Constructors\<close>

record ConsControl =
  cc_v :: expdesc
  cc_nh :: int
  cc_na :: int
  cc_tostore :: int

definition recfield :: "nat \<Rightarrow> 'd compile_env \<Rightarrow> 'd expr_fun \<Rightarrow> 'd LexState \<Rightarrow> int \<Rightarrow> ConsControl \<Rightarrow> (ConsControl, 'd) parsed" where
  "recfield n E ex ls t cc =
     bind_result (cur_fs ls) (\<lambda>fs0.
     bind_result
       (if tk_token (tok ls) = TK_NAME then
          bind_result (luaY_checklimit E ls fs0 (cc_nh cc) (int MAX_INT) ''items in a constructor'') (\<lambda>_. checkname n E ls)
        else yindex n E ex ls) (\<lambda>(key, ls).
     bind_result (checknext n E ls (ch (CHR ''=''))) (\<lambda>ls.
     bind_result (gen E ls (\<lambda>K fs. bind_result (luaK_exp2RK K fs key) (\<lambda>(rk, _, fs). Inr (rk, fs)))) (\<lambda>(rkkey, ls).
     bind_result (ex ls) (\<lambda>(val, ls).
     bind_result (gen_do E ls (\<lambda>K fs. bind_result (luaK_exp2RK K fs val) (\<lambda>(rk, _, fs).
        bind_result (emitABC K fs OP_SETTABLE t rkkey rk) (\<lambda>fs. Inr (fs\<lparr>fs_freereg := fs_freereg fs0\<rparr>))))) (\<lambda>ls.
       Inr (cc\<lparr>cc_nh := cc_nh cc + 1\<rparr>, ls)))))))"

definition closelistfield :: "lexview \<Rightarrow> FuncState \<Rightarrow> int \<Rightarrow> ConsControl \<Rightarrow> (ConsControl \<times> FuncState) result" where
  "closelistfield K fs t cc =
     (if e_k (cc_v cc) = VVOID then Inr (cc, fs)
      else bind_result (luaK_exp2nextreg K fs (cc_v cc)) (\<lambda>(v, fs).
        let cc = cc\<lparr>cc_v := v\<lparr>e_k := VVOID\<rparr>\<rparr> in
        if cc_tostore cc = LFIELDS_PER_FLUSH then
          bind_result (luaK_setlist K fs t (cc_na cc) (cc_tostore cc)) (\<lambda>fs. Inr (cc\<lparr>cc_tostore := 0\<rparr>, fs))
        else Inr (cc, fs)))"

definition lastlistfield :: "lexview \<Rightarrow> FuncState \<Rightarrow> int \<Rightarrow> ConsControl \<Rightarrow> (ConsControl \<times> FuncState) result" where
  "lastlistfield K fs t cc =
     (if cc_tostore cc = 0 then Inr (cc, fs)
      else if hasmultret (e_k (cc_v cc)) then
        bind_result (luaK_setreturns K fs (cc_v cc) LUA_MULTRET) (\<lambda>fs.
        bind_result (luaK_setlist K fs t (cc_na cc) LUA_MULTRET) (\<lambda>fs. Inr (cc\<lparr>cc_na := cc_na cc - 1\<rparr>, fs)))
      else
        bind_result (if e_k (cc_v cc) \<noteq> VVOID then bind_result (luaK_exp2nextreg K fs (cc_v cc)) (\<lambda>(_, fs). Inr fs) else Inr fs) (\<lambda>fs.
        bind_result (luaK_setlist K fs t (cc_na cc) (cc_tostore cc)) (\<lambda>fs. Inr (cc, fs))))"

definition listfield :: "'d compile_env \<Rightarrow> 'd expr_fun \<Rightarrow> 'd LexState \<Rightarrow> ConsControl \<Rightarrow> (ConsControl, 'd) parsed" where
  "listfield E ex ls cc =
     bind_result (ex ls) (\<lambda>(v, ls).
     bind_result (cur_fs ls) (\<lambda>fs.
     bind_result (luaY_checklimit E ls fs (cc_na cc) (int MAX_INT) ''items in a constructor'') (\<lambda>_.
       Inr (cc\<lparr>cc_v := v, cc_na := cc_na cc + 1, cc_tostore := cc_tostore cc + 1\<rparr>, ls))))"

text \<open>One item of a constructor, then the rest after a comma or semicolon.\<close>

definition cons_item :: "nat \<Rightarrow> 'd compile_env \<Rightarrow> 'd expr_fun \<Rightarrow> 'd LexState \<Rightarrow> int \<Rightarrow> ConsControl \<Rightarrow> (ConsControl, 'd) parsed" where
  "cons_item n E ex ls t cc =
     (if tk_token (tok ls) = TK_NAME then
        bind_result (luaX_lookahead n E ls) (\<lambda>ls.
          if tk_token (ahead ls) \<noteq> ch (CHR ''='') then listfield E ex ls cc else recfield n E ex ls t cc)
      else if tk_token (tok ls) = ch (CHR ''['') then recfield n E ex ls t cc
      else listfield E ex ls cc)"

fun cons_loop :: "nat \<Rightarrow> 'd compile_env \<Rightarrow> 'd expr_fun \<Rightarrow> 'd LexState \<Rightarrow> int \<Rightarrow> ConsControl \<Rightarrow> (ConsControl, 'd) parsed" where
  "cons_loop 0 E ex ls t cc = Inl Diverges"
| "cons_loop (Suc n) E ex ls t cc =
     (if tk_token (tok ls) = ch (CHR ''}'') then Inr (cc, ls)
      else
        bind_result (gen E ls (\<lambda>K fs. closelistfield K fs t cc)) (\<lambda>(cc, ls).
        bind_result (cons_item n E ex ls t cc) (\<lambda>(cc, ls).
        bind_result (testnext n E ls (ch (CHR '',''))) (\<lambda>(sep, ls).
        bind_result (if sep then Inr (True, ls) else testnext n E ls (ch (CHR '';''))) (\<lambda>(sep, ls).
          if sep then cons_loop n E ex ls t cc else Inr (cc, ls))))))"

definition constructor :: "nat \<Rightarrow> 'd compile_env \<Rightarrow> 'd expr_fun \<Rightarrow> 'd LexState \<Rightarrow> 'd exp_parsed" where
  "constructor n E ex ls =
     (let line = linenumber ls in
      bind_result (gen E ls (\<lambda>K fs. luaK_codeABC K fs OP_NEWTABLE 0 0 0)) (\<lambda>(pc, ls).
      bind_result (gen_exp E ls luaK_exp2nextreg (init_exp VRELOCABLE pc)) (\<lambda>(t, ls).
      bind_result (checknext n E ls (ch (CHR ''{''))) (\<lambda>ls.
      bind_result (cons_loop n E ex ls (e_info t) \<lparr>cc_v = init_exp VVOID 0, cc_nh = 0, cc_na = 0, cc_tostore = 0\<rparr>) (\<lambda>(cc, ls).
      bind_result (check_match n E ls (ch (CHR ''}'')) (ch (CHR ''{'')) line) (\<lambda>ls.
      bind_result (gen E ls (\<lambda>K fs. lastlistfield K fs (e_info t) cc)) (\<lambda>(cc, ls).
      bind_result (gen_do E ls (\<lambda>K fs.
         bind_result (edit_code fs pc (\<lambda>i. SETARG_B i (uint (luaO_int2fb (word_of_int (cc_na cc)))))) (\<lambda>fs.
           edit_code fs pc (\<lambda>i. SETARG_C i (uint (luaO_int2fb (word_of_int (cc_nh cc)))))))) (\<lambda>ls.
        Inr (t, ls)))))))))"
subsection \<open>Function bodies and calls\<close>

text \<open>The body of a block, \<open>chunk\<close>, as an argument of the rules that contain one.\<close>

type_synonym 'd chunk_fun = "'d LexState \<Rightarrow> 'd LexState result"

definition or_vararg :: "lu_byte \<Rightarrow> 'd compile_env \<Rightarrow> 'd LexState \<Rightarrow> 'd LexState result" where
  "or_vararg m E ls = gen_do E ls (\<lambda>K fs. Inr (fs\<lparr>f_is_vararg := f_is_vararg fs OR m\<rparr>))"

text \<open>One parameter: its name, or the dots with the parameter \<open>arg\<close> of \<open>LUA_COMPAT_VARARG\<close>.\<close>

definition parameter :: "nat \<Rightarrow> 'd compile_env \<Rightarrow> 'd LexState \<Rightarrow> int \<Rightarrow> 'd LexState result" where
  "parameter n E ls nparams =
     (if tk_token (tok ls) = TK_NAME then
        bind_result (str_checkname n E ls) (\<lambda>(name, ls). new_localvar E ls name nparams)
      else if tk_token (tok ls) = TK_DOTS then
        bind_result (luaX_next n E ls) (\<lambda>ls.
        bind_result (new_localvarliteral E ls ''arg'' nparams) (\<lambda>ls.
        bind_result (gen_do E ls (\<lambda>K fs. Inr (fs\<lparr>f_is_vararg := VARARG_HASARG OR VARARG_NEEDSARG\<rparr>))) (or_vararg VARARG_ISVARARG E)))
      else luaX_syntaxerror E ls (''<name> or '' @ LUA_QL ''...'' @ '' expected''))"

fun parlist_loop :: "nat \<Rightarrow> 'd compile_env \<Rightarrow> 'd LexState \<Rightarrow> int \<Rightarrow> (int, 'd) parsed" where
  "parlist_loop 0 E ls nparams = Inl Diverges"
| "parlist_loop (Suc n) E ls nparams =
     bind_result (parameter n E ls nparams) (\<lambda>ls.
     bind_result (cur_fs ls) (\<lambda>fs.
     bind_result (if f_is_vararg fs = 0 then testnext n E ls (ch (CHR '','')) else Inr (False, ls)) (\<lambda>(more, ls).
       if more then parlist_loop n E ls (nparams + 1) else Inr (nparams + 1, ls))))"

definition end_params :: "lexview \<Rightarrow> FuncState \<Rightarrow> int \<Rightarrow> FuncState result" where
  "end_params K fs nparams =
     bind_result (adjustlocalvars fs nparams) (\<lambda>fs.
     luaK_reserveregs K
       (fs\<lparr>f_numparams := word_of_int (fs_nactvar fs - byte_int (f_is_vararg fs AND VARARG_HASARG))\<rparr>)
       (fs_nactvar fs))"

definition parlist :: "nat \<Rightarrow> 'd compile_env \<Rightarrow> 'd LexState \<Rightarrow> 'd LexState result" where
  "parlist n E ls =
     bind_result (gen_do E ls (\<lambda>K fs. Inr (fs\<lparr>f_is_vararg := 0\<rparr>))) (\<lambda>ls.
     bind_result (if tk_token (tok ls) \<noteq> ch (CHR '')'') then parlist_loop n E ls 0 else Inr (0, ls)) (\<lambda>(nparams, ls).
       gen_do E ls (\<lambda>K fs. end_params K fs nparams)))"

text \<open>The head of a function: a new \<open>FuncState\<close> and its parameters, \<open>self\<close> first in a method.\<close>

definition funchead :: "nat \<Rightarrow> 'd compile_env \<Rightarrow> 'd LexState \<Rightarrow> bool \<Rightarrow> int \<Rightarrow> 'd LexState result" where
  "funchead n E ls needself line =
     bind_result (cur_fs ls) (\<lambda>fs.
     bind_result (open_func E ls (fs_L fs)) (\<lambda>ls.
     bind_result (gen_do E ls (\<lambda>K fs. Inr (fs\<lparr>f_linedefined := line\<rparr>))) (\<lambda>ls.
     bind_result (checknext n E ls (ch (CHR ''(''))) (\<lambda>ls.
     bind_result
       (if needself then
          bind_result (new_localvarliteral E ls ''self'' 0) (\<lambda>ls. gen_do E ls (\<lambda>K fs. adjustlocalvars fs 1))
        else Inr ls) (\<lambda>ls.
     bind_result (parlist n E ls) (\<lambda>ls. checknext n E ls (ch (CHR '')''))))))))"

definition body :: "nat \<Rightarrow> 'd compile_env \<Rightarrow> 'd chunk_fun \<Rightarrow> 'd LexState \<Rightarrow> bool \<Rightarrow> int \<Rightarrow> 'd exp_parsed" where
  "body n E bk ls needself line =
     bind_result (funchead n E ls needself line) (\<lambda>ls.
     bind_result (bk ls) (\<lambda>ls.
     bind_result (gen_do E ls (\<lambda>K fs. Inr (fs\<lparr>f_lastlinedefined := linenumber ls\<rparr>))) (\<lambda>ls.
     bind_result (check_match n E ls TK_END TK_FUNCTION line) (\<lambda>ls.
     bind_result (close_func E ls) (\<lambda>(func, ls).
       gen E ls (\<lambda>K fs. pushclosure K fs func))))))"

fun explist_loop :: "nat \<Rightarrow> 'd compile_env \<Rightarrow> 'd expr_fun \<Rightarrow> 'd LexState \<Rightarrow> expdesc \<Rightarrow> int \<Rightarrow> (int \<times> expdesc, 'd) parsed" where
  "explist_loop 0 E ex ls v k = Inl Diverges"
| "explist_loop (Suc n) E ex ls v k =
     bind_result (testnext n E ls (ch (CHR '',''))) (\<lambda>(more, ls).
       if more then
         bind_result (gen_exp E ls luaK_exp2nextreg v) (\<lambda>(_, ls).
         bind_result (ex ls) (\<lambda>(v, ls). explist_loop n E ex ls v (k + 1)))
       else Inr ((k, v), ls))"

definition explist1 :: "nat \<Rightarrow> 'd compile_env \<Rightarrow> 'd expr_fun \<Rightarrow> 'd LexState \<Rightarrow> (int \<times> expdesc, 'd) parsed" where
  "explist1 n E ex ls = bind_result (ex ls) (\<lambda>(v, ls). explist_loop n E ex ls v 1)"

text \<open>The arguments of a call, in the three forms they have.\<close>

definition callargs :: "nat \<Rightarrow> 'd compile_env \<Rightarrow> 'd expr_fun \<Rightarrow> 'd LexState \<Rightarrow> 'd exp_parsed" where
  "callargs n E ex ls =
     (let line = linenumber ls; token = tk_token (tok ls) in
      if token = ch (CHR ''('') then
        bind_result (if line \<noteq> lastline ls then luaX_syntaxerror E ls ''ambiguous syntax (function call x new statement)''
                     else Inr ()) (\<lambda>_.
        bind_result (luaX_next n E ls) (\<lambda>ls.
        bind_result
          (if tk_token (tok ls) = ch (CHR '')'') then Inr (init_exp VVOID 0, ls)
           else bind_result (explist1 n E ex ls) (\<lambda>((_, args), ls).
             bind_result (gen_do E ls (\<lambda>K fs. luaK_setreturns K fs args LUA_MULTRET)) (\<lambda>ls. Inr (args, ls)))) (\<lambda>(args, ls).
        bind_result (check_match n E ls (ch (CHR '')'')) (ch (CHR ''('')) line) (\<lambda>ls. Inr (args, ls)))))
      else if token = ch (CHR ''{'') then constructor n E ex ls
      else if token = TK_STRING then
        bind_result (codestring E ls (si_ts (seminfo (tok ls)))) (\<lambda>(args, ls).
        bind_result (luaX_next n E ls) (\<lambda>ls. Inr (args, ls)))
      else luaX_syntaxerror E ls ''function arguments expected'')"

definition funcargs :: "nat \<Rightarrow> 'd compile_env \<Rightarrow> 'd expr_fun \<Rightarrow> 'd LexState \<Rightarrow> expdesc \<Rightarrow> 'd exp_parsed" where
  "funcargs n E ex ls f =
     (let line = linenumber ls; base = e_info f in
      bind_result (callargs n E ex ls) (\<lambda>(args, ls).
      gen E ls (\<lambda>K fs.
        bind_result
          (if hasmultret (e_k args) then Inr (LUA_MULTRET, fs)
           else bind_result (if e_k args \<noteq> VVOID then bind_result (luaK_exp2nextreg K fs args) (\<lambda>(_, fs). Inr fs) else Inr fs)
             (\<lambda>fs. Inr (fs_freereg fs - (base + 1), fs))) (\<lambda>(nparams, fs).
        bind_result (luaK_codeABC K fs OP_CALL base (nparams + 1) 2) (\<lambda>(pc, fs).
        bind_result (luaK_fixline fs line) (\<lambda>fs. Inr (init_exp VCALL pc, fs\<lparr>fs_freereg := base + 1\<rparr>)))))))"

section \<open>Expressions\<close>

definition prefixexp :: "nat \<Rightarrow> 'd compile_env \<Rightarrow> 'd expr_fun \<Rightarrow> 'd LexState \<Rightarrow> 'd exp_parsed" where
  "prefixexp n E ex ls =
     (if tk_token (tok ls) = ch (CHR ''('') then
        (let line = linenumber ls in
         bind_result (luaX_next n E ls) (\<lambda>ls.
         bind_result (ex ls) (\<lambda>(v, ls).
         bind_result (check_match n E ls (ch (CHR '')'')) (ch (CHR ''('')) line) (\<lambda>ls.
           gen_exp E ls luaK_dischargevars v))))
      else if tk_token (tok ls) = TK_NAME then singlevar n E ls
      else luaX_syntaxerror E ls ''unexpected symbol'')"

fun suffix_loop :: "nat \<Rightarrow> 'd compile_env \<Rightarrow> 'd expr_fun \<Rightarrow> 'd LexState \<Rightarrow> expdesc \<Rightarrow> 'd exp_parsed" where
  "suffix_loop 0 E ex ls v = Inl Diverges"
| "suffix_loop (Suc n) E ex ls v =
     (let token = tk_token (tok ls) in
      if token = ch (CHR ''.'') then bind_result (field n E ls v) (\<lambda>(v, ls). suffix_loop n E ex ls v)
      else if token = ch (CHR ''['') then
        bind_result (gen_exp E ls anyreg v) (\<lambda>(v, ls).
        bind_result (yindex n E ex ls) (\<lambda>(key, ls).
        bind_result (gen E ls (\<lambda>K fs. luaK_indexed K fs v key)) (\<lambda>(v, ls). suffix_loop n E ex ls v)))
      else if token = ch (CHR '':'') then
        bind_result (luaX_next n E ls) (\<lambda>ls.
        bind_result (checkname n E ls) (\<lambda>(key, ls).
        bind_result (gen E ls (\<lambda>K fs. luaK_self K fs v key)) (\<lambda>(v, ls).
        bind_result (funcargs n E ex ls v) (\<lambda>(v, ls). suffix_loop n E ex ls v))))
      else if token = ch (CHR ''('') \<or> token = TK_STRING \<or> token = ch (CHR ''{'') then
        bind_result (gen_exp E ls luaK_exp2nextreg v) (\<lambda>(v, ls).
        bind_result (funcargs n E ex ls v) (\<lambda>(v, ls). suffix_loop n E ex ls v))
      else Inr (v, ls))"

definition primaryexp :: "nat \<Rightarrow> 'd compile_env \<Rightarrow> 'd expr_fun \<Rightarrow> 'd LexState \<Rightarrow> 'd exp_parsed" where
  "primaryexp n E ex ls = bind_result (prefixexp n E ex ls) (\<lambda>(v, ls). suffix_loop n E ex ls v)"

text \<open>The dots: allowed in a vararg function, which does not need \<open>arg\<close> any more.\<close>

definition varargexp :: "'d compile_env \<Rightarrow> 'd LexState \<Rightarrow> 'd exp_parsed" where
  "varargexp E ls =
     bind_result (cur_fs ls) (\<lambda>fs.
     bind_result (check_condition E ls (f_is_vararg fs \<noteq> 0) (''cannot use '' @ LUA_QL ''...'' @ '' outside a vararg function'')) (\<lambda>_.
     gen E ls (\<lambda>K fs.
       bind_result (luaK_codeABC K (fs\<lparr>f_is_vararg := f_is_vararg fs AND NOT VARARG_NEEDSARG\<rparr>) OP_VARARG 0 1 0) (\<lambda>(pc, fs).
         Inr (init_exp VVARARG pc, fs)))))"

text \<open>The expressions of one token, or \<open>None\<close>.\<close>

definition atomexp :: "'d compile_env \<Rightarrow> 'd LexState \<Rightarrow> 'd exp_parsed option" where
  "atomexp E ls =
     (let token = tk_token (tok ls) in
      if token = TK_NUMBER then Some (Inr ((init_exp VKNUM 0)\<lparr>e_nval := si_r (seminfo (tok ls))\<rparr>, ls))
      else if token = TK_STRING then Some (codestring E ls (si_ts (seminfo (tok ls))))
      else if token = TK_NIL then Some (Inr (init_exp VNIL 0, ls))
      else if token = TK_TRUE then Some (Inr (init_exp VTRUE 0, ls))
      else if token = TK_FALSE then Some (Inr (init_exp VFALSE 0, ls))
      else if token = TK_DOTS then Some (varargexp E ls)
      else None)"

definition simpleexp :: "nat \<Rightarrow> 'd compile_env \<Rightarrow> 'd expr_fun \<Rightarrow> 'd chunk_fun \<Rightarrow> 'd LexState \<Rightarrow> 'd exp_parsed" where
  "simpleexp n E ex bk ls = (case atomexp E ls of
       Some r \<Rightarrow> bind_result r (\<lambda>(v, ls). bind_result (luaX_next n E ls) (\<lambda>ls. Inr (v, ls)))
     | None \<Rightarrow>
         if tk_token (tok ls) = ch (CHR ''{'') then constructor n E ex ls
         else if tk_token (tok ls) = TK_FUNCTION then
           bind_result (luaX_next n E ls) (\<lambda>ls. body n E bk ls False (linenumber ls))
         else primaryexp n E ex ls)"

definition getunopr :: "int \<Rightarrow> UnOpr" where
  "getunopr op = (if op = TK_NOT then OPR_NOT else if op = ch (CHR ''-'') then OPR_MINUS
     else if op = ch (CHR ''#'') then OPR_LEN else OPR_NOUNOPR)"

definition getbinopr :: "int \<Rightarrow> BinOpr" where
  "getbinopr op = (if op = ch (CHR ''+'') then OPR_ADD else if op = ch (CHR ''-'') then OPR_SUB
     else if op = ch (CHR ''*'') then OPR_MUL else if op = ch (CHR ''/'') then OPR_DIV
     else if op = ch (CHR ''%'') then OPR_MOD else if op = ch (CHR ''^'') then OPR_POW
     else if op = TK_CONCAT then OPR_CONCAT else if op = TK_NE then OPR_NE else if op = TK_EQ then OPR_EQ
     else if op = ch (CHR ''<'') then OPR_LT else if op = TK_LE then OPR_LE
     else if op = ch (CHR ''>'') then OPR_GT else if op = TK_GE then OPR_GE
     else if op = TK_AND then OPR_AND else if op = TK_OR then OPR_OR else OPR_NOBINOPR)"

text \<open>The left and the right priority of an operator; the array has no entry for \<open>OPR_NOBINOPR\<close>.\<close>

fun priority :: "BinOpr \<Rightarrow> nat \<times> nat" where
  "priority OPR_ADD = (6, 6)"
| "priority OPR_SUB = (6, 6)"
| "priority OPR_MUL = (7, 7)"
| "priority OPR_DIV = (7, 7)"
| "priority OPR_MOD = (7, 7)"
| "priority OPR_POW = (10, 9)"
| "priority OPR_CONCAT = (5, 4)"
| "priority OPR_NE = (3, 3)"
| "priority OPR_EQ = (3, 3)"
| "priority OPR_LT = (3, 3)"
| "priority OPR_LE = (3, 3)"
| "priority OPR_GT = (3, 3)"
| "priority OPR_GE = (3, 3)"
| "priority OPR_AND = (2, 2)"
| "priority OPR_OR = (1, 1)"
| "priority OPR_NOBINOPR = (0, 0)"

definition UNARY_PRIORITY :: nat where "UNARY_PRIORITY = 8"

text \<open>The loop of \<open>subexpr\<close>, over the operators that bind tighter than the limit.\<close>

fun operator_loop :: "nat \<Rightarrow> 'd compile_env \<Rightarrow> ('d LexState \<Rightarrow> nat \<Rightarrow> (BinOpr \<times> expdesc, 'd) parsed)
    \<Rightarrow> 'd LexState \<Rightarrow> nat \<Rightarrow> BinOpr \<Rightarrow> expdesc \<Rightarrow> (BinOpr \<times> expdesc, 'd) parsed" where
  "operator_loop 0 E sub ls limit op v = Inl Diverges"
| "operator_loop (Suc n) E sub ls limit op v =
     (if op \<noteq> OPR_NOBINOPR \<and> fst (priority op) > limit then
        bind_result (luaX_next n E ls) (\<lambda>ls.
        bind_result (gen E ls (\<lambda>K fs. luaK_infix K fs op v)) (\<lambda>(v, ls).
        bind_result (sub ls (snd (priority op))) (\<lambda>((nextop, v2), ls).
        bind_result (gen E ls (\<lambda>K fs. luaK_posfix K fs op v v2)) (\<lambda>(v, ls).
          operator_loop n E sub ls limit nextop v))))
      else Inr ((op, v), ls))"

fun subexpr :: "nat \<Rightarrow> 'd compile_env \<Rightarrow> 'd chunk_fun \<Rightarrow> 'd LexState \<Rightarrow> nat \<Rightarrow> (BinOpr \<times> expdesc, 'd) parsed" where
  "subexpr 0 E bk ls limit = Inl Diverges"
| "subexpr (Suc n) E bk ls limit =
     bind_result (enterlevel E ls) (\<lambda>ls.
     let uop = getunopr (tk_token (tok ls)) in
     bind_result
       (if uop \<noteq> OPR_NOUNOPR then
          bind_result (luaX_next n E ls) (\<lambda>ls.
          bind_result (subexpr n E bk ls UNARY_PRIORITY) (\<lambda>((_, v), ls).
            gen E ls (\<lambda>K fs. luaK_prefix K fs uop v)))
        else simpleexp n E (\<lambda>ls. bind_result (subexpr n E bk ls 0) (\<lambda>((_, v), ls). Inr (v, ls))) bk ls) (\<lambda>(v, ls).
     bind_result (operator_loop n E (subexpr n E bk) ls limit (getbinopr (tk_token (tok ls))) v) (\<lambda>(r, ls).
       Inr (r, leavelevel ls))))"

definition expr :: "nat \<Rightarrow> 'd compile_env \<Rightarrow> 'd chunk_fun \<Rightarrow> 'd expr_fun" where
  "expr n E bk ls = bind_result (subexpr n E bk ls 0) (\<lambda>((_, v), ls). Inr (v, ls))"
section \<open>Statements\<close>

definition block_follow :: "int \<Rightarrow> bool" where
  "block_follow token \<longleftrightarrow> token \<in> {TK_ELSE, TK_ELSEIF, TK_END, TK_UNTIL, TK_EOS}"

definition block :: "'d compile_env \<Rightarrow> 'd chunk_fun \<Rightarrow> 'd LexState \<Rightarrow> 'd LexState result" where
  "block E bk ls =
     bind_result (enter_block E ls False) (\<lambda>ls. bind_result (bk ls) (leave_block E))"

subsection \<open>Assignments\<close>

text \<open>
  The left-hand sides already read, the last one first: the chain of \<open>LHS_assign\<close>. The local
  variable \<open>v\<close> moves to a safe copy where one of them indexes it, or indexes with it.
\<close>

definition conflicts :: "expdesc \<Rightarrow> expdesc \<Rightarrow> bool" where
  "conflicts v lv \<longleftrightarrow> e_k lv = VINDEXED \<and> (e_info lv = e_info v \<or> e_aux lv = e_info v)"

definition use_copy :: "int \<Rightarrow> expdesc \<Rightarrow> expdesc \<Rightarrow> expdesc" where
  "use_copy extra v lv =
     (if e_k lv = VINDEXED then
        let lv = (if e_info lv = e_info v then lv\<lparr>e_info := extra\<rparr> else lv) in
        if e_aux lv = e_info v then lv\<lparr>e_aux := extra\<rparr> else lv
      else lv)"

definition check_conflict :: "lexview \<Rightarrow> FuncState \<Rightarrow> expdesc list \<Rightarrow> expdesc \<Rightarrow> (expdesc list \<times> FuncState) result" where
  "check_conflict K fs lhs v =
     bind_result
       (if \<exists>lv\<in>set lhs. conflicts v lv then
          bind_result (emitABC K fs OP_MOVE (fs_freereg fs) (e_info v) 0) (\<lambda>fs. luaK_reserveregs K fs 1)
        else Inr fs) (\<lambda>fs'. Inr (map (use_copy (fs_freereg fs) v) lhs, fs'))"

definition store_var :: "'d compile_env \<Rightarrow> 'd LexState \<Rightarrow> expdesc \<Rightarrow> expdesc \<Rightarrow> 'd LexState result" where
  "store_var E ls v e = gen_do E ls (\<lambda>K fs. bind_result (luaK_storevar K fs v e) (\<lambda>(_, fs). Inr fs))"

text \<open>The default assignment: the value of the last register in use.\<close>

definition store_top :: "'d compile_env \<Rightarrow> 'd LexState \<Rightarrow> expdesc \<Rightarrow> 'd LexState result" where
  "store_top E ls v =
     bind_result (cur_fs ls) (\<lambda>fs. store_var E ls v (init_exp VNONRELOC (fs_freereg fs - 1)))"

text \<open>The values of an assignment to \<open>nvars\<close> variables, the last of which is \<open>v\<close>.\<close>

definition assign_values :: "nat \<Rightarrow> 'd compile_env \<Rightarrow> 'd expr_fun \<Rightarrow> 'd LexState \<Rightarrow> expdesc \<Rightarrow> int \<Rightarrow> 'd LexState result" where
  "assign_values n E ex ls v nvars =
     bind_result (checknext n E ls (ch (CHR ''=''))) (\<lambda>ls.
     bind_result (explist1 n E ex ls) (\<lambda>((nexps, e), ls).
       if nexps \<noteq> nvars then
         bind_result (gen_do E ls (\<lambda>K fs. bind_result (adjust_assign K fs nvars nexps e) (\<lambda>fs.
           Inr (if nexps > nvars then fs\<lparr>fs_freereg := fs_freereg fs - (nexps - nvars)\<rparr> else fs)))) (\<lambda>ls.
         store_top E ls v)
       else
         bind_result (gen_exp E ls (\<lambda>K. luaK_setoneret) e) (\<lambda>(e, ls). store_var E ls v e)))"

text \<open>The left-hand sides come back as the conflicts have changed them.\<close>

fun assignment :: "nat \<Rightarrow> 'd compile_env \<Rightarrow> 'd expr_fun \<Rightarrow> 'd LexState \<Rightarrow> expdesc \<Rightarrow> expdesc list \<Rightarrow> int \<Rightarrow> (expdesc list, 'd) parsed" where
  "assignment 0 E ex ls v prev nvars = Inl Diverges"
| "assignment (Suc n) E ex ls v prev nvars =
     bind_result (check_condition E ls (e_k v \<in> {VLOCAL, VUPVAL, VGLOBAL, VINDEXED}) ''syntax error'') (\<lambda>_.
     bind_result (testnext n E ls (ch (CHR '',''))) (\<lambda>(more, ls).
       if more then
         bind_result (primaryexp n E ex ls) (\<lambda>(nv, ls).
         bind_result (if e_k nv = VLOCAL then gen E ls (\<lambda>K fs. check_conflict K fs (v # prev) nv) else Inr (v # prev, ls)) (\<lambda>(lhs, ls).
         bind_result (cur_fs ls) (\<lambda>fs.
         bind_result (luaY_checklimit E ls fs nvars (int LUAI_MAXCCALLS - int (ls_nCcalls ls)) ''variables in assignment'') (\<lambda>_.
         bind_result (assignment n E ex ls nv lhs (nvars + 1)) (\<lambda>(lhs, ls). case lhs of
             [] \<Rightarrow> Inl MemoryFault
           | v # prev \<Rightarrow> bind_result (store_top E ls v) (\<lambda>ls. Inr (prev, ls)))))))
       else bind_result (assign_values n E ex ls v nvars) (\<lambda>ls. Inr (prev, ls))))"

subsection \<open>Loops and conditions\<close>

definition cond :: "'d compile_env \<Rightarrow> 'd expr_fun \<Rightarrow> 'd LexState \<Rightarrow> (int, 'd) parsed" where
  "cond E ex ls =
     bind_result (ex ls) (\<lambda>(v, ls).
     bind_result (gen_exp E ls luaK_goiftrue (if e_k v = VNIL then v\<lparr>e_k := VFALSE\<rparr> else v)) (\<lambda>(v, ls). Inr (e_f v, ls)))"

text \<open>\<open>luaK_patchlist (fs, luaK_jump (fs), target)\<close>.\<close>

definition jump_back :: "'d compile_env \<Rightarrow> 'd LexState \<Rightarrow> int \<Rightarrow> 'd LexState result" where
  "jump_back E ls target =
     gen_do E ls (\<lambda>K fs. bind_result (luaK_jump K fs) (\<lambda>(j, fs). luaK_patchlist K fs j target))"

definition patch_here :: "'d compile_env \<Rightarrow> 'd LexState \<Rightarrow> int \<Rightarrow> 'd LexState result" where
  "patch_here E ls list = gen_do E ls (\<lambda>K fs. luaK_patchtohere K fs list)"

definition whilestat :: "nat \<Rightarrow> 'd compile_env \<Rightarrow> 'd expr_fun \<Rightarrow> 'd chunk_fun \<Rightarrow> 'd LexState \<Rightarrow> int \<Rightarrow> 'd LexState result" where
  "whilestat n E ex bk ls line =
     bind_result (luaX_next n E ls) (\<lambda>ls.
     bind_result (gen E ls (\<lambda>K fs. Inr (luaK_getlabel fs))) (\<lambda>(whileinit, ls).
     bind_result (cond E ex ls) (\<lambda>(condexit, ls).
     bind_result (enter_block E ls True) (\<lambda>ls.
     bind_result (checknext n E ls TK_DO) (\<lambda>ls.
     bind_result (block E bk ls) (\<lambda>ls.
     bind_result (jump_back E ls whileinit) (\<lambda>ls.
     bind_result (check_match n E ls TK_END TK_WHILE line) (\<lambda>ls.
     bind_result (leave_block E ls) (\<lambda>ls. patch_here E ls condexit)))))))))"

text \<open>The end of a \<open>repeat\<close>: with upvalues in its scope block, the condition leaves by a break.\<close>

definition close_repeat :: "'d compile_env \<Rightarrow> 'd LexState \<Rightarrow> int \<Rightarrow> int \<Rightarrow> 'd LexState result" where
  "close_repeat E ls condexit repeat_init =
     bind_result (cur_fs ls) (\<lambda>fs. case fs_bl fs of
       [] \<Rightarrow> Inl MemoryFault
     | bl2 # _ \<Rightarrow>
         if \<not> bl_upval bl2 then
           bind_result (leave_block E ls) (\<lambda>ls. gen_do E ls (\<lambda>K fs. luaK_patchlist K fs condexit repeat_init))
         else
           bind_result (breakstat E ls) (\<lambda>ls.
           bind_result (patch_here E ls condexit) (\<lambda>ls.
           bind_result (leave_block E ls) (\<lambda>ls. jump_back E ls repeat_init))))"

definition repeatstat :: "nat \<Rightarrow> 'd compile_env \<Rightarrow> 'd expr_fun \<Rightarrow> 'd chunk_fun \<Rightarrow> 'd LexState \<Rightarrow> int \<Rightarrow> 'd LexState result" where
  "repeatstat n E ex bk ls line =
     bind_result (gen E ls (\<lambda>K fs. Inr (luaK_getlabel fs))) (\<lambda>(repeat_init, ls).
     bind_result (enter_block E ls True) (\<lambda>ls.
     bind_result (enter_block E ls False) (\<lambda>ls.
     bind_result (luaX_next n E ls) (\<lambda>ls.
     bind_result (bk ls) (\<lambda>ls.
     bind_result (check_match n E ls TK_UNTIL TK_REPEAT line) (\<lambda>ls.
     bind_result (cond E ex ls) (\<lambda>(condexit, ls).
     bind_result (close_repeat E ls condexit repeat_init) (leave_block E))))))))"

definition exp1 :: "'d compile_env \<Rightarrow> 'd expr_fun \<Rightarrow> 'd LexState \<Rightarrow> 'd LexState result" where
  "exp1 E ex ls =
     bind_result (ex ls) (\<lambda>(e, ls). bind_result (gen_exp E ls luaK_exp2nextreg e) (\<lambda>(_, ls). Inr ls))"

text \<open>The two instructions of a loop: the jump to its end, and the step at its end.\<close>

definition for_prep :: "lexview \<Rightarrow> FuncState \<Rightarrow> int \<Rightarrow> bool \<Rightarrow> (int \<times> FuncState) result" where
  "for_prep K fs base isnum = (if isnum then luaK_codeAsBx K fs OP_FORPREP base NO_JUMP else luaK_jump K fs)"

definition for_step :: "lexview \<Rightarrow> FuncState \<Rightarrow> int \<Rightarrow> int \<Rightarrow> int \<Rightarrow> bool \<Rightarrow> int \<Rightarrow> FuncState result" where
  "for_step K fs base line nvars isnum prep =
     bind_result (luaK_patchtohere K fs prep) (\<lambda>fs.
     bind_result
       (if isnum then luaK_codeAsBx K fs OP_FORLOOP base NO_JUMP else luaK_codeABC K fs OP_TFORLOOP base 0 nvars) (\<lambda>(endfor, fs).
     bind_result (luaK_fixline fs line) (\<lambda>fs.
     bind_result (if isnum then Inr (endfor, fs) else luaK_jump K fs) (\<lambda>(back, fs).
       luaK_patchlist K fs back (prep + 1)))))"

definition forbody :: "nat \<Rightarrow> 'd compile_env \<Rightarrow> 'd chunk_fun \<Rightarrow> 'd LexState \<Rightarrow> int \<Rightarrow> int \<Rightarrow> int \<Rightarrow> bool \<Rightarrow> 'd LexState result" where
  "forbody n E bk ls base line nvars isnum =
     bind_result (gen_do E ls (\<lambda>K fs. adjustlocalvars fs 3)) (\<lambda>ls.
     bind_result (checknext n E ls TK_DO) (\<lambda>ls.
     bind_result (gen E ls (\<lambda>K fs. for_prep K fs base isnum)) (\<lambda>(prep, ls).
     bind_result (enter_block E ls False) (\<lambda>ls.
     bind_result (gen_do E ls (\<lambda>K fs. bind_result (adjustlocalvars fs nvars) (\<lambda>fs. luaK_reserveregs K fs nvars))) (\<lambda>ls.
     bind_result (block E bk ls) (\<lambda>ls.
     bind_result (leave_block E ls) (\<lambda>ls.
       gen_do E ls (\<lambda>K fs. for_step K fs base line nvars isnum prep))))))))"

text \<open>The control variables of a loop, registers \<open>0\<close>, \<open>1\<close>, \<open>2\<close> from the first free one.\<close>

definition control_vars :: "'d compile_env \<Rightarrow> 'd LexState \<Rightarrow> string \<Rightarrow> string \<Rightarrow> string \<Rightarrow> 'd LexState result" where
  "control_vars E ls a b c =
     bind_result (new_localvarliteral E ls a 0) (\<lambda>ls.
     bind_result (new_localvarliteral E ls b 1) (\<lambda>ls. new_localvarliteral E ls c 2))"

definition default_step :: "lexview \<Rightarrow> FuncState \<Rightarrow> FuncState result" where
  "default_step K fs =
     bind_result (luaK_numberK fs 1) (\<lambda>(k, fs).
     bind_result (luaK_codeABx K fs OP_LOADK (fs_freereg fs) k) (\<lambda>(_, fs). luaK_reserveregs K fs 1))"

definition fornum :: "nat \<Rightarrow> 'd compile_env \<Rightarrow> 'd expr_fun \<Rightarrow> 'd chunk_fun \<Rightarrow> 'd LexState \<Rightarrow> TString \<Rightarrow> int \<Rightarrow> 'd LexState result" where
  "fornum n E ex bk ls name line =
     bind_result (cur_fs ls) (\<lambda>fs.
     let base = fs_freereg fs in
     bind_result (control_vars E ls ''(for index)'' ''(for limit)'' ''(for step)'') (\<lambda>ls.
     bind_result (new_localvar E ls name 3) (\<lambda>ls.
     bind_result (checknext n E ls (ch (CHR ''=''))) (\<lambda>ls.
     bind_result (exp1 E ex ls) (\<lambda>ls.
     bind_result (checknext n E ls (ch (CHR '',''))) (\<lambda>ls.
     bind_result (exp1 E ex ls) (\<lambda>ls.
     bind_result (testnext n E ls (ch (CHR '',''))) (\<lambda>(more, ls).
     bind_result (if more then exp1 E ex ls else gen_do E ls default_step) (\<lambda>ls.
       forbody n E bk ls base line 1 True)))))))))"

text \<open>The further names of a \<open>for ... in\<close> or a \<open>local\<close>, each after a comma; the number of them all.\<close>

fun more_names :: "nat \<Rightarrow> 'd compile_env \<Rightarrow> 'd LexState \<Rightarrow> int \<Rightarrow> (int, 'd) parsed" where
  "more_names 0 E ls nvars = Inl Diverges"
| "more_names (Suc n) E ls nvars =
     bind_result (testnext n E ls (ch (CHR '',''))) (\<lambda>(more, ls).
       if more then
         bind_result (str_checkname n E ls) (\<lambda>(name, ls).
         bind_result (new_localvar E ls name nvars) (\<lambda>ls. more_names n E ls (nvars + 1)))
       else Inr (nvars, ls))"

definition forlist :: "nat \<Rightarrow> 'd compile_env \<Rightarrow> 'd expr_fun \<Rightarrow> 'd chunk_fun \<Rightarrow> 'd LexState \<Rightarrow> TString \<Rightarrow> 'd LexState result" where
  "forlist n E ex bk ls name =
     bind_result (cur_fs ls) (\<lambda>fs.
     let base = fs_freereg fs in
     bind_result (control_vars E ls ''(for generator)'' ''(for state)'' ''(for control)'') (\<lambda>ls.
     bind_result (new_localvar E ls name 3) (\<lambda>ls.
     bind_result (more_names n E ls 4) (\<lambda>(nvars, ls).
     bind_result (checknext n E ls TK_IN) (\<lambda>ls.
     let line = linenumber ls in
     bind_result (explist1 n E ex ls) (\<lambda>((nexps, e), ls).
     bind_result (gen_do E ls (\<lambda>K fs. bind_result (adjust_assign K fs 3 nexps e) (\<lambda>fs. luaK_checkstack K fs 3))) (\<lambda>ls.
       forbody n E bk ls base line (nvars - 3) False)))))))"

definition forstat :: "nat \<Rightarrow> 'd compile_env \<Rightarrow> 'd expr_fun \<Rightarrow> 'd chunk_fun \<Rightarrow> 'd LexState \<Rightarrow> int \<Rightarrow> 'd LexState result" where
  "forstat n E ex bk ls line =
     bind_result (enter_block E ls True) (\<lambda>ls.
     bind_result (luaX_next n E ls) (\<lambda>ls.
     bind_result (str_checkname n E ls) (\<lambda>(name, ls).
     bind_result
       (if tk_token (tok ls) = ch (CHR ''='') then fornum n E ex bk ls name line
        else if tk_token (tok ls) = ch (CHR '','') \<or> tk_token (tok ls) = TK_IN then forlist n E ex bk ls name
        else luaX_syntaxerror E ls (LUA_QL ''='' @ '' or '' @ LUA_QL ''in'' @ '' expected'')) (\<lambda>ls.
     bind_result (check_match n E ls TK_END TK_FOR line) (leave_block E)))))"

definition test_then_block :: "nat \<Rightarrow> 'd compile_env \<Rightarrow> 'd expr_fun \<Rightarrow> 'd chunk_fun \<Rightarrow> 'd LexState \<Rightarrow> (int, 'd) parsed" where
  "test_then_block n E ex bk ls =
     bind_result (luaX_next n E ls) (\<lambda>ls.
     bind_result (cond E ex ls) (\<lambda>(condexit, ls).
     bind_result (checknext n E ls TK_THEN) (\<lambda>ls.
     bind_result (block E bk ls) (\<lambda>ls. Inr (condexit, ls)))))"

text \<open>The jump over the other branches, added to the list of escapes; the false conditions end up after it.\<close>

definition escape :: "'d compile_env \<Rightarrow> 'd LexState \<Rightarrow> int \<Rightarrow> int \<Rightarrow> (int, 'd) parsed" where
  "escape E ls escapelist flist =
     bind_result (gen E ls (\<lambda>K fs. bind_result (luaK_jump K fs) (\<lambda>(j, fs). luaK_concat K fs escapelist j))) (\<lambda>(escapelist, ls).
     bind_result (patch_here E ls flist) (\<lambda>ls. Inr (escapelist, ls)))"

fun elseif_loop :: "nat \<Rightarrow> 'd compile_env \<Rightarrow> 'd expr_fun \<Rightarrow> 'd chunk_fun \<Rightarrow> 'd LexState \<Rightarrow> int \<Rightarrow> int \<Rightarrow> (int \<times> int, 'd) parsed" where
  "elseif_loop 0 E ex bk ls escapelist flist = Inl Diverges"
| "elseif_loop (Suc n) E ex bk ls escapelist flist =
     (if tk_token (tok ls) = TK_ELSEIF then
        bind_result (escape E ls escapelist flist) (\<lambda>(escapelist, ls).
        bind_result (test_then_block n E ex bk ls) (\<lambda>(flist, ls). elseif_loop n E ex bk ls escapelist flist))
      else Inr ((escapelist, flist), ls))"

definition ifstat :: "nat \<Rightarrow> 'd compile_env \<Rightarrow> 'd expr_fun \<Rightarrow> 'd chunk_fun \<Rightarrow> 'd LexState \<Rightarrow> int \<Rightarrow> 'd LexState result" where
  "ifstat n E ex bk ls line =
     bind_result (test_then_block n E ex bk ls) (\<lambda>(flist, ls).
     bind_result (elseif_loop n E ex bk ls NO_JUMP flist) (\<lambda>((escapelist, flist), ls).
     bind_result
       (if tk_token (tok ls) = TK_ELSE then
          bind_result (escape E ls escapelist flist) (\<lambda>(escapelist, ls).
          bind_result (luaX_next n E ls) (\<lambda>ls.
          bind_result (block E bk ls) (\<lambda>ls. Inr (escapelist, ls))))
        else gen E ls (\<lambda>K fs. luaK_concat K fs escapelist flist)) (\<lambda>(escapelist, ls).
     bind_result (patch_here E ls escapelist) (\<lambda>ls. check_match n E ls TK_END TK_IF line))))"

subsection \<open>Declarations, calls and returns\<close>

definition localfunc :: "nat \<Rightarrow> 'd compile_env \<Rightarrow> 'd chunk_fun \<Rightarrow> 'd LexState \<Rightarrow> 'd LexState result" where
  "localfunc n E bk ls =
     bind_result (str_checkname n E ls) (\<lambda>(name, ls).
     bind_result (new_localvar E ls name 0) (\<lambda>ls.
     bind_result (cur_fs ls) (\<lambda>fs.
     let v = init_exp VLOCAL (fs_freereg fs) in
     bind_result (gen_do E ls (\<lambda>K fs. bind_result (luaK_reserveregs K fs 1) (\<lambda>fs. adjustlocalvars fs 1))) (\<lambda>ls.
     bind_result (body n E bk ls False (linenumber ls)) (\<lambda>(b, ls).
     bind_result (store_var E ls v b) (\<lambda>ls.
       gen_do E ls (\<lambda>K fs. edit_locvar fs (fs_nactvar fs - 1) (\<lambda>v. v\<lparr>startpc := fs_pc fs\<rparr>))))))))"

definition localstat :: "nat \<Rightarrow> 'd compile_env \<Rightarrow> 'd expr_fun \<Rightarrow> 'd LexState \<Rightarrow> 'd LexState result" where
  "localstat n E ex ls =
     bind_result (str_checkname n E ls) (\<lambda>(name, ls).
     bind_result (new_localvar E ls name 0) (\<lambda>ls.
     bind_result (more_names n E ls 1) (\<lambda>(nvars, ls).
     bind_result (testnext n E ls (ch (CHR ''=''))) (\<lambda>(has_values, ls).
     bind_result (if has_values then explist1 n E ex ls else Inr ((0, init_exp VVOID 0), ls)) (\<lambda>((nexps, e), ls).
       gen_do E ls (\<lambda>K fs. bind_result (adjust_assign K fs nvars nexps e) (\<lambda>fs. adjustlocalvars fs nvars)))))))"

fun field_loop :: "nat \<Rightarrow> 'd compile_env \<Rightarrow> 'd LexState \<Rightarrow> expdesc \<Rightarrow> 'd exp_parsed" where
  "field_loop 0 E ls v = Inl Diverges"
| "field_loop (Suc n) E ls v =
     (if tk_token (tok ls) = ch (CHR ''.'') then bind_result (field n E ls v) (\<lambda>(v, ls). field_loop n E ls v)
      else Inr (v, ls))"

definition funcname :: "nat \<Rightarrow> 'd compile_env \<Rightarrow> 'd LexState \<Rightarrow> (bool \<times> expdesc, 'd) parsed" where
  "funcname n E ls =
     bind_result (singlevar n E ls) (\<lambda>(v, ls).
     bind_result (field_loop n E ls v) (\<lambda>(v, ls).
       if tk_token (tok ls) = ch (CHR '':'') then bind_result (field n E ls v) (\<lambda>(v, ls). Inr ((True, v), ls))
       else Inr ((False, v), ls)))"

definition funcstat :: "nat \<Rightarrow> 'd compile_env \<Rightarrow> 'd chunk_fun \<Rightarrow> 'd LexState \<Rightarrow> int \<Rightarrow> 'd LexState result" where
  "funcstat n E bk ls line =
     bind_result (luaX_next n E ls) (\<lambda>ls.
     bind_result (funcname n E ls) (\<lambda>((needself, v), ls).
     bind_result (body n E bk ls needself line) (\<lambda>(b, ls).
     bind_result (store_var E ls v b) (\<lambda>ls. gen_do E ls (\<lambda>K fs. luaK_fixline fs line)))))"

definition exprstat :: "nat \<Rightarrow> 'd compile_env \<Rightarrow> 'd expr_fun \<Rightarrow> 'd LexState \<Rightarrow> 'd LexState result" where
  "exprstat n E ex ls =
     bind_result (primaryexp n E ex ls) (\<lambda>(v, ls).
       if e_k v = VCALL then gen_do E ls (\<lambda>K fs. edit_code fs (e_info v) (\<lambda>i. SETARG_C i 1))
       else bind_result (assignment n E ex ls v [] 1) (\<lambda>(_, ls). Inr ls))"

text \<open>The first register and the number of the values returned.\<close>

definition return_values :: "lexview \<Rightarrow> FuncState \<Rightarrow> int \<Rightarrow> expdesc \<Rightarrow> ((int \<times> int) \<times> FuncState) result" where
  "return_values K fs nret e =
     (if hasmultret (e_k e) then
        bind_result (luaK_setreturns K fs e LUA_MULTRET) (\<lambda>fs.
        bind_result
          (if e_k e = VCALL \<and> nret = 1 then edit_code fs (e_info e) (\<lambda>i. SET_OPCODE i (opnum OP_TAILCALL)) else Inr fs) (\<lambda>fs.
          Inr ((fs_nactvar fs, LUA_MULTRET), fs)))
      else if nret = 1 then bind_result (luaK_exp2anyreg K fs e) (\<lambda>(r, _, fs). Inr ((r, nret), fs))
      else bind_result (luaK_exp2nextreg K fs e) (\<lambda>(_, fs). Inr ((fs_nactvar fs, nret), fs)))"

definition retstat :: "nat \<Rightarrow> 'd compile_env \<Rightarrow> 'd expr_fun \<Rightarrow> 'd LexState \<Rightarrow> 'd LexState result" where
  "retstat n E ex ls =
     bind_result (luaX_next n E ls) (\<lambda>ls.
     bind_result
       (if block_follow (tk_token (tok ls)) \<or> tk_token (tok ls) = ch (CHR '';'') then Inr ((0, 0), ls)
        else bind_result (explist1 n E ex ls) (\<lambda>((nret, e), ls). gen E ls (\<lambda>K fs. return_values K fs nret e))) (\<lambda>((first, nret), ls).
       gen_do E ls (\<lambda>K fs. luaK_ret K fs first nret)))"

text \<open>A statement, and whether it must be the last one of its block.\<close>

definition statement :: "nat \<Rightarrow> 'd compile_env \<Rightarrow> 'd expr_fun \<Rightarrow> 'd chunk_fun \<Rightarrow> 'd LexState \<Rightarrow> (bool, 'd) parsed" where
  "statement n E ex bk ls =
     (let line = linenumber ls; token = tk_token (tok ls); more = map_sum id (\<lambda>ls. (False, ls)); last = map_sum id (\<lambda>ls. (True, ls)) in
      if token = TK_IF then more (ifstat n E ex bk ls line)
      else if token = TK_WHILE then more (whilestat n E ex bk ls line)
      else if token = TK_DO then
        more (bind_result (luaX_next n E ls) (\<lambda>ls.
              bind_result (block E bk ls) (\<lambda>ls. check_match n E ls TK_END TK_DO line)))
      else if token = TK_FOR then more (forstat n E ex bk ls line)
      else if token = TK_REPEAT then more (repeatstat n E ex bk ls line)
      else if token = TK_FUNCTION then more (funcstat n E bk ls line)
      else if token = TK_LOCAL then
        more (bind_result (luaX_next n E ls) (\<lambda>ls.
              bind_result (testnext n E ls TK_FUNCTION) (\<lambda>(fn, ls).
                if fn then localfunc n E bk ls else localstat n E ex ls)))
      else if token = TK_RETURN then last (retstat n E ex ls)
      else if token = TK_BREAK then last (bind_result (luaX_next n E ls) (breakstat E))
      else more (exprstat n E ex ls))"

fun stat_loop :: "nat \<Rightarrow> 'd compile_env \<Rightarrow> ('d LexState \<Rightarrow> (bool, 'd) parsed) \<Rightarrow> 'd LexState \<Rightarrow> bool \<Rightarrow> 'd LexState result" where
  "stat_loop 0 E st ls islast = Inl Diverges"
| "stat_loop (Suc n) E st ls islast =
     (if \<not> islast \<and> \<not> block_follow (tk_token (tok ls)) then
        bind_result (st ls) (\<lambda>(islast, ls).
        bind_result (testnext n E ls (ch (CHR '';''))) (\<lambda>(_, ls).
        bind_result (gen_do E ls (\<lambda>K fs. Inr (fs\<lparr>fs_freereg := fs_nactvar fs\<rparr>))) (\<lambda>ls. stat_loop n E st ls islast)))
      else Inr ls)"

fun chunk :: "nat \<Rightarrow> 'd compile_env \<Rightarrow> 'd chunk_fun" where
  "chunk 0 E ls = Inl Diverges"
| "chunk (Suc n) E ls =
     bind_result (enterlevel E ls) (\<lambda>ls.
     bind_result (stat_loop n E (statement n E (expr n E (chunk n E)) (chunk n E)) ls False) (\<lambda>ls. Inr (leavelevel ls)))"

text \<open>
  The compiler: the main function of the chunk the stream holds, and the state of the lexer at
  its end. \<open>g\<close> is the collector's state, \<open>calls\<close> the depth of the C calls so far.
\<close>

definition init_lex :: "Mbuffer \<Rightarrow> 'd ZIO \<Rightarrow> nat \<Rightarrow> 'd LexState" where
  "init_lex b z calls =
     (let t = \<lparr>tk_token = 0, seminfo = \<lparr>si_r = 0, si_ts = ''''\<rparr>\<rparr> in
      \<lparr>current = 0, linenumber = 0, lastline = 0, tok = t, ahead = t, ls_fs = [], ls_nCcalls = calls, ls_tables = 0,
       zin = z, buff = b, source = '''', decpoint = CHR ''.''\<rparr>)"

definition luaY_parser :: "nat \<Rightarrow> 'd compile_env \<Rightarrow> gc_core \<Rightarrow> nat \<Rightarrow> 'd ZIO \<Rightarrow> Mbuffer \<Rightarrow> string \<Rightarrow> (Proto, 'd) parsed" where
  "luaY_parser n E g calls z b name =
     bind_result (luaX_setinput E (init_lex b z calls) z name) (\<lambda>ls.
     bind_result (open_func E ls g) (\<lambda>ls.
     bind_result (gen_do E ls (\<lambda>K fs. Inr (fs\<lparr>f_is_vararg := VARARG_ISVARARG\<rparr>))) (\<lambda>ls.
     bind_result (luaX_next n E ls) (\<lambda>ls.
     bind_result (chunk n E ls) (\<lambda>ls.
     bind_result (check_token E ls TK_EOS) (\<lambda>_.
     bind_result (close_func E ls) (\<lambda>(fs, ls). Inr (proto_of fs, ls))))))))"

end
