(* ===== verification/Lcode_inv.thy ===== *)
theory Lcode_inv
  imports Lcode Ldebug
begin

text \<open>
  What the code generator keeps of a function under construction, whatever it is asked to do:
  the facts that make the finished prototype pass the first part of the code checker, and that
  keep every constant and every nested function within the reach of an operand.
\<close>

fun wf_proto :: "Proto \<Rightarrow> bool" where
  "wf_proto (Proto k code p lineinfo locvars upvals src ld lld nups np va ms) \<longleftrightarrow>
     precheck (Proto k code p lineinfo locvars upvals src ld lld nups np va ms) = Inr True \<and>
     int (length k) \<le> MAXARG_Bx \<and> int (length p) \<le> MAXARG_Bx \<and> (\<forall>q\<in>set p. wf_proto q)"

definition hasarg :: "FuncState \<Rightarrow> int" where
  "hasarg fs = byte_int (f_is_vararg fs AND VARARG_HASARG)"

definition fs_ok :: "FuncState \<Rightarrow> bool" where
  "fs_ok fs \<longleftrightarrow> length (f_lineinfo fs) = length (f_code fs) \<and> length (f_upvalues fs) = length (fs_upvalues fs) \<and>
     length (f_upvalues fs) \<le> 60 \<and> byte_int (f_maxstacksize fs) \<le> MAXSTACK \<and>
     byte_int (f_numparams fs) + hasarg fs \<le> byte_int (f_maxstacksize fs) \<and>
     (f_is_vararg fs AND VARARG_NEEDSARG = 0 \<or> f_is_vararg fs AND VARARG_HASARG \<noteq> 0) \<and>
     int (length (f_k fs)) \<le> MAXARG_Bx \<and> int (length (f_p fs)) \<le> MAXARG_Bx \<and> (\<forall>p\<in>set (f_p fs). wf_proto p)"

text \<open>The fields the invariant does not read.\<close>

lemma fs_ok_updates [simp]:
  "fs_ok (fs\<lparr>fs_h := h\<rparr>) = fs_ok fs" "fs_ok (fs\<lparr>fs_L := g\<rparr>) = fs_ok fs" "fs_ok (fs\<lparr>fs_bl := b\<rparr>) = fs_ok fs"
  "fs_ok (fs\<lparr>fs_lasttarget := i\<rparr>) = fs_ok fs" "fs_ok (fs\<lparr>fs_jpc := i\<rparr>) = fs_ok fs"
  "fs_ok (fs\<lparr>fs_freereg := i\<rparr>) = fs_ok fs" "fs_ok (fs\<lparr>fs_nactvar := i\<rparr>) = fs_ok fs"
  "fs_ok (fs\<lparr>fs_actvar := a\<rparr>) = fs_ok fs" "fs_ok (fs\<lparr>f_locvars := l\<rparr>) = fs_ok fs"
  "fs_ok (fs\<lparr>f_linedefined := i\<rparr>) = fs_ok fs" "fs_ok (fs\<lparr>f_lastlinedefined := i\<rparr>) = fs_ok fs"
  by (simp_all add: fs_ok_def hasarg_def)

text \<open>Code and line information change together.\<close>

lemma fs_ok_code [simp]:
  "fs_ok (fs\<lparr>f_code := (f_code fs)[i := x]\<rparr>) = fs_ok fs"
  "fs_ok (fs\<lparr>f_lineinfo := (f_lineinfo fs)[i := l]\<rparr>) = fs_ok fs"
  "fs_ok (fs\<lparr>f_code := f_code fs @ [x], f_lineinfo := f_lineinfo fs @ [l]\<rparr>) = fs_ok fs"
  by (simp_all add: fs_ok_def hasarg_def)

lemma fs_ok_drop [simp]: "fs_ok fs \<Longrightarrow> fs_ok (drop_last fs)"
  by (simp add: fs_ok_def hasarg_def drop_last_def)

lemma fs_ok_k [simp]: "fs_ok fs \<Longrightarrow> int (length k) \<le> MAXARG_Bx \<Longrightarrow> fs_ok (fs\<lparr>f_k := k\<rparr>)"
  by (simp add: fs_ok_def hasarg_def)

lemma byte_of_int: "0 \<le> k \<Longrightarrow> k < 256 \<Longrightarrow> byte_int (word_of_int k) = k"
proof -
  assume "0 \<le> k" "k < 256"
  then have "uint (word_of_int k :: lu_byte) = k"
    by (subst uint_word_of_int_eq) (simp add: take_bit_int_eq_self)
  then show ?thesis by (simp only: of_nat_unat)
qed

lemma fs_ok_stack: "fs_ok fs \<Longrightarrow> uint (f_maxstacksize fs) < k \<Longrightarrow> k < MAXSTACK \<Longrightarrow> fs_ok (fs\<lparr>f_maxstacksize := word_of_int k\<rparr>)"
proof -
  assume "fs_ok fs" "uint (f_maxstacksize fs) < k" "k < MAXSTACK"
  then have a: "fs_ok fs" "byte_int (f_maxstacksize fs) < k" "k < MAXSTACK" by simp_all
  then have "byte_int (word_of_int k) = k" by (intro byte_of_int) (simp_all add: MAXSTACK_def del: of_nat_unat)
  with a show ?thesis by (simp add: fs_ok_def hasarg_def)
qed

subsection \<open>Instructions and jumps\<close>

lemma code_at_post [vcg]: "(\<And>i. Q i) \<Longrightarrow> post Q (code_at fs pc)"
  by (simp add: code_at_def)

lemma getjump_post [vcg]: "(\<And>i. Q i) \<Longrightarrow> post Q (getjump fs pc)"
  by (auto simp: getjump_def Let_def intro!: vcg)

lemma getjumpcontrol_post [vcg]: "(\<And>i. Q i) \<Longrightarrow> post Q (getjumpcontrol fs pc)"
  by (auto simp: getjumpcontrol_def intro!: vcg)

lemma set_code_post [vcg]: "fs_ok fs \<Longrightarrow> (\<And>fs'. fs_ok fs' \<Longrightarrow> Q fs') \<Longrightarrow> post Q (set_code fs pc i)"
  by (simp add: set_code_def)

lemma edit_code_post [vcg]: "fs_ok fs \<Longrightarrow> (\<And>fs'. fs_ok fs' \<Longrightarrow> Q fs') \<Longrightarrow> post Q (edit_code fs pc f)"
  by (auto simp: edit_code_def intro!: vcg)

lemma fixjump_post [vcg]: "fs_ok fs \<Longrightarrow> (\<And>fs'. fs_ok fs' \<Longrightarrow> Q fs') \<Longrightarrow> post Q (fixjump K fs pc dest)"
  by (auto simp: fixjump_def Let_def intro!: vcg)

lemma patchtestreg_post [vcg]:
  "fs_ok fs \<Longrightarrow> (\<And>b fs'. fs_ok fs' \<Longrightarrow> Q (b, fs')) \<Longrightarrow> post Q (patchtestreg fs nd reg)"
  by (auto simp: patchtestreg_def intro!: vcg)

lemma removevalues_loop_post [vcg]:
  "fs_ok fs \<Longrightarrow> (\<And>fs'. fs_ok fs' \<Longrightarrow> Q fs') \<Longrightarrow> post Q (removevalues_loop n fs list)"
  by (induction n arbitrary: fs list) (auto intro!: vcg)

lemma removevalues_post [vcg]: "fs_ok fs \<Longrightarrow> (\<And>fs'. fs_ok fs' \<Longrightarrow> Q fs') \<Longrightarrow> post Q (removevalues fs list)"
  by (auto simp: removevalues_def intro!: vcg)

lemma need_value_loop_post [vcg]: "(\<And>b. Q b) \<Longrightarrow> post Q (need_value_loop n fs list)"
  by (induction n arbitrary: list) (auto intro!: vcg)

lemma need_value_post [vcg]: "(\<And>b. Q b) \<Longrightarrow> post Q (need_value fs list)"
  by (auto simp: need_value_def intro!: vcg)

lemma patchlist_loop_post [vcg]:
  "fs_ok fs \<Longrightarrow> (\<And>fs'. fs_ok fs' \<Longrightarrow> Q fs') \<Longrightarrow> post Q (patchlist_loop n K fs list v r d)"
  by (induction n arbitrary: fs list) (auto intro!: vcg)

lemma patchlistaux_post [vcg]:
  "fs_ok fs \<Longrightarrow> (\<And>fs'. fs_ok fs' \<Longrightarrow> Q fs') \<Longrightarrow> post Q (patchlistaux K fs list v r d)"
  by (auto simp: patchlistaux_def intro!: vcg)

lemma dischargejpc_post [vcg]: "fs_ok fs \<Longrightarrow> (\<And>fs'. fs_ok fs' \<Longrightarrow> Q fs') \<Longrightarrow> post Q (dischargejpc K fs)"
  by (auto simp: dischargejpc_def intro!: vcg)

lemma list_end_post [vcg]: "(\<And>i. Q i) \<Longrightarrow> post Q (list_end n fs list)"
  by (induction n arbitrary: list) (auto intro!: vcg)

lemma luaK_concat_post [vcg]:
  "fs_ok fs \<Longrightarrow> (\<And>l fs'. fs_ok fs' \<Longrightarrow> Q (l, fs')) \<Longrightarrow> post Q (luaK_concat K fs l1 l2)"
  by (auto simp: luaK_concat_def intro!: vcg)

lemma luaK_patchtohere_post [vcg]:
  "fs_ok fs \<Longrightarrow> (\<And>fs'. fs_ok fs' \<Longrightarrow> Q fs') \<Longrightarrow> post Q (luaK_patchtohere K fs list)"
  by (auto simp: luaK_patchtohere_def luaK_getlabel_def intro!: vcg)

lemma luaK_patchlist_post [vcg]:
  "fs_ok fs \<Longrightarrow> (\<And>fs'. fs_ok fs' \<Longrightarrow> Q fs') \<Longrightarrow> post Q (luaK_patchlist K fs list target)"
  by (auto simp: luaK_patchlist_def intro!: vcg)

lemma grow_post [vcg]: "(int n < limit \<Longrightarrow> Q ()) \<Longrightarrow> post Q (grow n limit msg)"
  by (simp add: grow_def)

lemma luaK_code_post [vcg]:
  "fs_ok fs \<Longrightarrow> (\<And>pc fs'. fs_ok fs' \<Longrightarrow> Q (pc, fs')) \<Longrightarrow> post Q (luaK_code K fs i line)"
  by (auto simp: luaK_code_def intro!: vcg)

lemma luaK_codeABC_post [vcg]:
  "fs_ok fs \<Longrightarrow> (\<And>pc fs'. fs_ok fs' \<Longrightarrow> Q (pc, fs')) \<Longrightarrow> post Q (luaK_codeABC K fs m a b c)"
  by (auto simp: luaK_codeABC_def intro!: vcg)

lemma luaK_codeABx_post [vcg]:
  "fs_ok fs \<Longrightarrow> (\<And>pc fs'. fs_ok fs' \<Longrightarrow> Q (pc, fs')) \<Longrightarrow> post Q (luaK_codeABx K fs m a b)"
  by (auto simp: luaK_codeABx_def intro!: vcg)

lemma luaK_codeAsBx_post [vcg]:
  "fs_ok fs \<Longrightarrow> (\<And>pc fs'. fs_ok fs' \<Longrightarrow> Q (pc, fs')) \<Longrightarrow> post Q (luaK_codeAsBx K fs m a b)"
  by (auto simp: luaK_codeAsBx_def intro!: vcg)

lemma luaK_fixline_post [vcg]: "fs_ok fs \<Longrightarrow> (\<And>fs'. fs_ok fs' \<Longrightarrow> Q fs') \<Longrightarrow> post Q (luaK_fixline fs line)"
  by (simp add: luaK_fixline_def)

lemma emitABC_post [vcg]: "fs_ok fs \<Longrightarrow> (\<And>fs'. fs_ok fs' \<Longrightarrow> Q fs') \<Longrightarrow> post Q (emitABC K fs m a b c)"
  by (auto simp: emitABC_def intro!: vcg)

lemma luaK_nil_post [vcg]: "fs_ok fs \<Longrightarrow> (\<And>fs'. fs_ok fs' \<Longrightarrow> Q fs') \<Longrightarrow> post Q (luaK_nil K fs from n)"
  by (auto simp: luaK_nil_def Let_def intro!: vcg)

lemma luaK_jump_post [vcg]:
  "fs_ok fs \<Longrightarrow> (\<And>pc fs'. fs_ok fs' \<Longrightarrow> Q (pc, fs')) \<Longrightarrow> post Q (luaK_jump K fs)"
  by (auto simp: luaK_jump_def Let_def intro!: vcg)

lemma luaK_ret_post [vcg]: "fs_ok fs \<Longrightarrow> (\<And>fs'. fs_ok fs' \<Longrightarrow> Q fs') \<Longrightarrow> post Q (luaK_ret K fs first nret)"
  by (auto simp: luaK_ret_def intro!: vcg)

lemma condjump_post [vcg]:
  "fs_ok fs \<Longrightarrow> (\<And>pc fs'. fs_ok fs' \<Longrightarrow> Q (pc, fs')) \<Longrightarrow> post Q (condjump K fs m a b c)"
  by (auto simp: condjump_def intro!: vcg)

subsection \<open>Registers and constants\<close>

lemma luaK_checkstack_post [vcg]: "fs_ok fs \<Longrightarrow> (\<And>fs'. fs_ok fs' \<Longrightarrow> Q fs') \<Longrightarrow> post Q (luaK_checkstack K fs n)"
  by (auto simp: luaK_checkstack_def Let_def not_le simp del: of_int_add intro: fs_ok_stack)

lemma luaK_reserveregs_post [vcg]:
  "fs_ok fs \<Longrightarrow> (\<And>fs'. fs_ok fs' \<Longrightarrow> Q fs') \<Longrightarrow> post Q (luaK_reserveregs K fs n)"
  by (auto simp: luaK_reserveregs_def intro!: vcg)

lemma freereg_ok [simp]: "fs_ok (freereg fs r) = fs_ok fs" "fs_ok (freeexp fs e) = fs_ok fs"
  by (simp_all add: freereg_def freeexp_def)

lemma luaH_set_post [vcg]: "(\<And>g h p. Q (g, h, p)) \<Longrightarrow> post Q (luaH_set g h k)"
  by (cases "luaH_set g h k") auto

lemma addk_post [vcg]: "fs_ok fs \<Longrightarrow> (\<And>k fs'. fs_ok fs' \<Longrightarrow> Q (k, fs')) \<Longrightarrow> post Q (addk fs k v)"
  by (auto simp: addk_def Let_def split: TValue.splits intro!: vcg)

lemma constants_post [vcg]:
  assumes "fs_ok fs" "\<And>k fs'. fs_ok fs' \<Longrightarrow> Q (k, fs')"
  shows "post Q (luaK_stringK fs s)" "post Q (luaK_numberK fs r)" "post Q (boolK fs b)" "post Q (nilK fs)" "post Q (constant_index fs e)"
  using assms
  by (auto simp: luaK_stringK_def luaK_numberK_def boolK_def nilK_def constant_index_def intro!: vcg)

subsection \<open>Expressions\<close>

lemma luaK_setreturns_post [vcg]:
  "fs_ok fs \<Longrightarrow> (\<And>fs'. fs_ok fs' \<Longrightarrow> Q fs') \<Longrightarrow> post Q (luaK_setreturns K fs e n)"
  by (auto simp: luaK_setreturns_def intro!: vcg)

lemma luaK_setoneret_post [vcg]:
  "fs_ok fs \<Longrightarrow> (\<And>e fs'. fs_ok fs' \<Longrightarrow> Q (e, fs')) \<Longrightarrow> post Q (luaK_setoneret fs e)"
  by (auto simp: luaK_setoneret_def intro!: vcg)

lemma luaK_dischargevars_post [vcg]:
  "fs_ok fs \<Longrightarrow> (\<And>e fs'. fs_ok fs' \<Longrightarrow> Q (e, fs')) \<Longrightarrow> post Q (luaK_dischargevars K fs e)"
  by (auto simp: luaK_dischargevars_def relocable_def Let_def split: expkind.splits intro!: vcg)

lemma code_label_post [vcg]:
  "fs_ok fs \<Longrightarrow> (\<And>pc fs'. fs_ok fs' \<Longrightarrow> Q (pc, fs')) \<Longrightarrow> post Q (code_label K fs a b j)"
  by (auto simp: code_label_def luaK_getlabel_def intro!: vcg)

lemma discharge2reg_post [vcg]:
  "fs_ok fs \<Longrightarrow> (\<And>e fs'. fs_ok fs' \<Longrightarrow> Q (e, fs')) \<Longrightarrow> post Q (discharge2reg K fs e r)"
  by (auto simp: discharge2reg_def Let_def split: expkind.splits intro!: vcg)

lemma discharge2anyreg_post [vcg]:
  "fs_ok fs \<Longrightarrow> (\<And>e fs'. fs_ok fs' \<Longrightarrow> Q (e, fs')) \<Longrightarrow> post Q (discharge2anyreg K fs e)"
  by (auto simp: discharge2anyreg_def intro!: vcg)

lemma close_jumps_post [vcg]:
  "fs_ok fs \<Longrightarrow> (\<And>fs'. fs_ok fs' \<Longrightarrow> Q fs') \<Longrightarrow> post Q (close_jumps K fs e r)"
  by (auto simp: close_jumps_def luaK_getlabel_def intro!: vcg)

lemma exp2reg_post [vcg]:
  "fs_ok fs \<Longrightarrow> (\<And>e fs'. fs_ok fs' \<Longrightarrow> Q (e, fs')) \<Longrightarrow> post Q (exp2reg K fs e r)"
  by (auto simp: exp2reg_def intro!: vcg)

lemma luaK_exp2nextreg_post [vcg]:
  "fs_ok fs \<Longrightarrow> (\<And>e fs'. fs_ok fs' \<Longrightarrow> Q (e, fs')) \<Longrightarrow> post Q (luaK_exp2nextreg K fs e)"
  by (auto simp: luaK_exp2nextreg_def intro!: vcg)

lemma luaK_exp2anyreg_post [vcg]:
  "fs_ok fs \<Longrightarrow> (\<And>r e fs'. fs_ok fs' \<Longrightarrow> Q (r, e, fs')) \<Longrightarrow> post Q (luaK_exp2anyreg K fs e)"
  by (auto simp: luaK_exp2anyreg_def intro!: vcg)

lemma anyreg_post [vcg]:
  "fs_ok fs \<Longrightarrow> (\<And>e fs'. fs_ok fs' \<Longrightarrow> Q (e, fs')) \<Longrightarrow> post Q (anyreg K fs e)"
  by (auto simp: anyreg_def intro!: vcg)

lemma luaK_exp2val_post [vcg]:
  "fs_ok fs \<Longrightarrow> (\<And>e fs'. fs_ok fs' \<Longrightarrow> Q (e, fs')) \<Longrightarrow> post Q (luaK_exp2val K fs e)"
  by (auto simp: luaK_exp2val_def intro!: vcg)

lemma luaK_exp2RK_post [vcg]:
  "fs_ok fs \<Longrightarrow> (\<And>r e fs'. fs_ok fs' \<Longrightarrow> Q (r, e, fs')) \<Longrightarrow> post Q (luaK_exp2RK K fs e)"
  by (auto simp: luaK_exp2RK_def intro!: vcg)

lemma luaK_storevar_post [vcg]:
  "fs_ok fs \<Longrightarrow> (\<And>e fs'. fs_ok fs' \<Longrightarrow> Q (e, fs')) \<Longrightarrow> post Q (luaK_storevar K fs v e)"
  by (auto simp: luaK_storevar_def split: expkind.splits intro!: vcg)

lemma luaK_self_post [vcg]:
  "fs_ok fs \<Longrightarrow> (\<And>e fs'. fs_ok fs' \<Longrightarrow> Q (e, fs')) \<Longrightarrow> post Q (luaK_self K fs e key)"
  by (auto simp: luaK_self_def Let_def intro!: vcg)

lemma invertjump_post [vcg]: "fs_ok fs \<Longrightarrow> (\<And>fs'. fs_ok fs' \<Longrightarrow> Q fs') \<Longrightarrow> post Q (invertjump fs e)"
  by (auto simp: invertjump_def intro!: vcg)

lemma jumponcond_post [vcg]:
  "fs_ok fs \<Longrightarrow> (\<And>j e fs'. fs_ok fs' \<Longrightarrow> Q (j, e, fs')) \<Longrightarrow> post Q (jumponcond K fs e c)"
  by (auto simp: jumponcond_def intro!: vcg)

lemma luaK_goiftrue_post [vcg]:
  "fs_ok fs \<Longrightarrow> (\<And>e fs'. fs_ok fs' \<Longrightarrow> Q (e, fs')) \<Longrightarrow> post Q (luaK_goiftrue K fs e)"
  by (auto simp: luaK_goiftrue_def intro!: vcg)

lemma luaK_goiffalse_post [vcg]:
  "fs_ok fs \<Longrightarrow> (\<And>e fs'. fs_ok fs' \<Longrightarrow> Q (e, fs')) \<Longrightarrow> post Q (luaK_goiffalse K fs e)"
  by (auto simp: luaK_goiffalse_def intro!: vcg)

lemma codenot_post [vcg]:
  "fs_ok fs \<Longrightarrow> (\<And>e fs'. fs_ok fs' \<Longrightarrow> Q (e, fs')) \<Longrightarrow> post Q (codenot K fs e)"
  by (auto simp: codenot_def relocable_def Let_def intro!: vcg)

lemma luaK_indexed_post [vcg]:
  "fs_ok fs \<Longrightarrow> (\<And>e fs'. fs_ok fs' \<Longrightarrow> Q (e, fs')) \<Longrightarrow> post Q (luaK_indexed K fs t k)"
  by (auto simp: luaK_indexed_def intro!: vcg)

lemma codearith_post [vcg]:
  "fs_ok fs \<Longrightarrow> (\<And>e fs'. fs_ok fs' \<Longrightarrow> Q (e, fs')) \<Longrightarrow> post Q (codearith K fs m e1 e2)"
  by (auto simp: codearith_def relocable_def Let_def split: option.splits intro!: vcg)

lemma codecomp_post [vcg]:
  "fs_ok fs \<Longrightarrow> (\<And>e fs'. fs_ok fs' \<Longrightarrow> Q (e, fs')) \<Longrightarrow> post Q (codecomp K fs m c e1 e2)"
  by (auto simp: codecomp_def Let_def intro!: vcg)

lemma luaK_prefix_post [vcg]:
  "fs_ok fs \<Longrightarrow> (\<And>e fs'. fs_ok fs' \<Longrightarrow> Q (e, fs')) \<Longrightarrow> post Q (luaK_prefix K fs m e)"
  by (auto simp: luaK_prefix_def Let_def split: UnOpr.splits intro!: vcg)

lemma luaK_infix_post [vcg]:
  "fs_ok fs \<Longrightarrow> (\<And>e fs'. fs_ok fs' \<Longrightarrow> Q (e, fs')) \<Longrightarrow> post Q (luaK_infix K fs m e)"
  by (auto simp: luaK_infix_def Let_def intro!: vcg)

lemma posfix_concat_post [vcg]:
  "fs_ok fs \<Longrightarrow> (\<And>e fs'. fs_ok fs' \<Longrightarrow> Q (e, fs')) \<Longrightarrow> post Q (posfix_concat K fs e1 e2)"
  by (auto simp: posfix_concat_def intro!: vcg)

lemma luaK_posfix_post [vcg]:
  "fs_ok fs \<Longrightarrow> (\<And>e fs'. fs_ok fs' \<Longrightarrow> Q (e, fs')) \<Longrightarrow> post Q (luaK_posfix K fs m e1 e2)"
  by (auto simp: luaK_posfix_def split: BinOpr.splits intro!: vcg)

lemma luaK_setlist_post [vcg]: "fs_ok fs \<Longrightarrow> (\<And>fs'. fs_ok fs' \<Longrightarrow> Q fs') \<Longrightarrow> post Q (luaK_setlist K fs b n t)"
  by (auto simp: luaK_setlist_def Let_def intro!: vcg)

end
