(* ===== verification/Lparser_inv.thy ===== *)
theory Lparser_inv
  imports Lparser Lcode_inv
begin

text \<open>
  Every function the parser makes is well formed: the invariant \<open>fs_ok\<close> of the functions under
  construction through the lexer and the grammar.
\<close>

definition heads :: "(FuncState \<Rightarrow> bool) \<Rightarrow> 'd LexState \<Rightarrow> bool" where
  "heads P ls \<longleftrightarrow> (\<forall>fs rest. ls_fs ls = fs # rest \<longrightarrow> P fs \<and> (\<forall>f\<in>set rest. fs_ok f))"

abbreviation ls_ok :: "'d LexState \<Rightarrow> bool" where "ls_ok ls \<equiv> heads fs_ok ls"

text \<open>The fields of the lexer that hold no function.\<close>

lemma heads_updates [simp]:
  "heads P (ls\<lparr>current := c\<rparr>) = heads P ls" "heads P (ls\<lparr>zin := z\<rparr>) = heads P ls" "heads P (ls\<lparr>buff := b\<rparr>) = heads P ls"
  "heads P (ls\<lparr>linenumber := i\<rparr>) = heads P ls" "heads P (ls\<lparr>lastline := i\<rparr>) = heads P ls" "heads P (ls\<lparr>tok := t\<rparr>) = heads P ls"
  "heads P (ls\<lparr>ahead := t\<rparr>) = heads P ls" "heads P (ls\<lparr>decpoint := d\<rparr>) = heads P ls" "heads P (ls\<lparr>source := s\<rparr>) = heads P ls"
  "heads P (ls\<lparr>ls_nCcalls := k\<rparr>) = heads P ls" "heads P (ls\<lparr>ls_tables := k\<rparr>) = heads P ls"
  by (simp_all add: heads_def)

section \<open>The lexer\<close>

lemma lexerror_post [vcg, simp]: "post Q (luaX_lexerror E ls msg t)" "post Q (luaX_syntaxerror E ls msg)"
  by (simp_all add: luaX_lexerror_def luaX_syntaxerror_def)

lemma error_expected_post [vcg, simp]: "post Q (error_expected E ls t)"
  by (simp add: error_expected_def)

lemma check_token_post [vcg]: "Q () \<Longrightarrow> post Q (check_token E ls c)"
  by (simp add: check_token_def)

named_theorems lex_vcg "rules of the lexer for a property of the current function"

locale lexer_keeps =
  fixes P :: "FuncState \<Rightarrow> bool"
  assumes strings_table: "P (fs\<lparr>fs_L := g, fs_h := h\<rparr>) = P fs"
begin

lemma save_post [lex_vcg]: "heads P ls \<Longrightarrow> (\<And>ls'. heads P ls' \<Longrightarrow> Q ls') \<Longrightarrow> post Q (save E ls c)"
  by (auto simp: save_def Let_def intro!: vcg)

lemma next_char_post [lex_vcg]: "heads P ls \<Longrightarrow> (\<And>ls'. heads P ls' \<Longrightarrow> Q ls') \<Longrightarrow> post Q (next_char E ls)"
  by (cases "zgetc (ce_reader E) (zin ls)") (auto simp: next_char_def)

lemma save_and_next_post [lex_vcg]: "heads P ls \<Longrightarrow> (\<And>ls'. heads P ls' \<Longrightarrow> Q ls') \<Longrightarrow> post Q (save_and_next E ls)"
  by (auto simp: save_and_next_def intro!: lex_vcg)

lemma newstring_post [lex_vcg]:
  "heads P ls \<Longrightarrow> (\<And>ts ls'. heads P ls' \<Longrightarrow> Q (ts, ls')) \<Longrightarrow> post Q (luaX_newstring ls str)"
  by (cases "ls_fs ls"; cases "luaH_setstr (fs_L (hd (ls_fs ls))) (fs_h (hd (ls_fs ls))) str")
    (auto simp: luaX_newstring_def heads_def Let_def strings_table)
lemma inclinenumber_post [lex_vcg]: "heads P ls \<Longrightarrow> (\<And>ls'. heads P ls' \<Longrightarrow> Q ls') \<Longrightarrow> post Q (inclinenumber E ls)"
  by (auto simp: inclinenumber_def Let_def intro!: lex_vcg)

lemma check_next_post [lex_vcg]:
  "heads P ls \<Longrightarrow> (\<And>b ls'. heads P ls' \<Longrightarrow> Q (b, ls')) \<Longrightarrow> post Q (check_next E ls s)"
  by (auto simp: check_next_def intro!: lex_vcg)

lemma buffreplace_heads [simp]: "heads P (buffreplace ls a b) = heads P ls" "heads P (luaZ_resetbuffer ls) = heads P ls"
  by (simp_all add: buffreplace_def luaZ_resetbuffer_def)

lemma str2d_post [lex_vcg]: "(\<And>x. Q x) \<Longrightarrow> post Q (luaO_str2d C s)"
  by (cases "luaO_str2d C s") simp_all

lemma trydecpoint_post [lex_vcg]:
  "heads P ls \<Longrightarrow> (\<And>si ls'. heads P ls' \<Longrightarrow> Q (si, ls')) \<Longrightarrow> post Q (trydecpoint E ls si)"
  by (auto simp: trydecpoint_def Let_def split: option.splits intro!: lex_vcg)

lemma save_while_post [lex_vcg]: "heads P ls \<Longrightarrow> (\<And>ls'. heads P ls' \<Longrightarrow> Q ls') \<Longrightarrow> post Q (save_while n E R ls)"
  by (induction n arbitrary: ls) (auto intro!: lex_vcg)

lemma read_numeral_post [lex_vcg]:
  "heads P ls \<Longrightarrow> (\<And>si ls'. heads P ls' \<Longrightarrow> Q (si, ls')) \<Longrightarrow> post Q (read_numeral n E ls si)"
  by (auto simp: read_numeral_def Let_def split: option.splits intro!: lex_vcg)

lemma skip_eqs_post [lex_vcg]:
  "heads P ls \<Longrightarrow> (\<And>k ls'. heads P ls' \<Longrightarrow> Q (k, ls')) \<Longrightarrow> post Q (skip_eqs n E ls c)"
  by (induction n arbitrary: ls c) (auto intro!: lex_vcg)

lemma skip_sep_post [lex_vcg]:
  "heads P ls \<Longrightarrow> (\<And>k ls'. heads P ls' \<Longrightarrow> Q (k, ls')) \<Longrightarrow> post Q (skip_sep n E ls)"
  by (auto simp: skip_sep_def Let_def intro!: lex_vcg)

lemma long_string_loop_post [lex_vcg]:
  "heads P ls \<Longrightarrow> (\<And>ls'. heads P ls' \<Longrightarrow> Q ls') \<Longrightarrow> post Q (long_string_loop n E str sep ls)"
  by (induction n arbitrary: ls) (auto intro!: lex_vcg)

lemma buffer_string_post [lex_vcg]:
  "heads P ls \<Longrightarrow> (\<And>si ls'. heads P ls' \<Longrightarrow> Q (si, ls')) \<Longrightarrow> post Q (buffer_string ls si k)"
  by (auto simp: buffer_string_def Let_def intro!: lex_vcg)

lemma read_long_string_post [lex_vcg]:
  "heads P ls \<Longrightarrow> (\<And>si ls'. heads P ls' \<Longrightarrow> Q (si, ls')) \<Longrightarrow> post Q (read_long_string n E ls si sep)"
  by (auto simp: read_long_string_def split: option.splits intro!: lex_vcg)

lemma decimal_escape_post [lex_vcg]:
  "heads P ls \<Longrightarrow> (\<And>c ls'. heads P ls' \<Longrightarrow> Q (c, ls')) \<Longrightarrow> post Q (decimal_escape i E ls c)"
  by (induction i arbitrary: ls c) (auto simp: Let_def intro!: lex_vcg)

lemma read_escape_post [lex_vcg]: "heads P ls \<Longrightarrow> (\<And>ls'. heads P ls' \<Longrightarrow> Q ls') \<Longrightarrow> post Q (read_escape E ls)"
  by (auto simp: read_escape_def split: option.splits intro!: lex_vcg)

lemma string_loop_post [lex_vcg]: "heads P ls \<Longrightarrow> (\<And>ls'. heads P ls' \<Longrightarrow> Q ls') \<Longrightarrow> post Q (string_loop n E del ls)"
  by (induction n arbitrary: ls) (auto intro!: lex_vcg)

lemma read_string_post [lex_vcg]:
  "heads P ls \<Longrightarrow> (\<And>si ls'. heads P ls' \<Longrightarrow> Q (si, ls')) \<Longrightarrow> post Q (read_string n E ls del si)"
  by (auto simp: read_string_def intro!: lex_vcg)

lemma skip_line_post [lex_vcg]: "heads P ls \<Longrightarrow> (\<And>ls'. heads P ls' \<Longrightarrow> Q ls') \<Longrightarrow> post Q (skip_line n E ls)"
  by (induction n arbitrary: ls) (auto intro!: lex_vcg)

lemma skip_comment_post [lex_vcg]: "heads P ls \<Longrightarrow> (\<And>ls'. heads P ls' \<Longrightarrow> Q ls') \<Longrightarrow> post Q (skip_comment n E ls)"
  by (auto simp: skip_comment_def Let_def intro!: lex_vcg)

text \<open>A token with its value, and the lexer after it.\<close>

lemma with_equals_post [lex_vcg]:
  "heads P ls \<Longrightarrow> (\<And>t si ls'. heads P ls' \<Longrightarrow> Q (t, si, ls')) \<Longrightarrow> post Q (with_equals E ls si a b)"
  by (auto simp: with_equals_def intro!: lex_vcg)

lemma read_number_post [lex_vcg]:
  "heads P ls \<Longrightarrow> (\<And>t si ls'. heads P ls' \<Longrightarrow> Q (t, si, ls')) \<Longrightarrow> post Q (read_number n E ls si)"
  by (auto simp: read_number_def intro!: lex_vcg)

lemma read_bracket_post [lex_vcg]:
  "heads P ls \<Longrightarrow> (\<And>t si ls'. heads P ls' \<Longrightarrow> Q (t, si, ls')) \<Longrightarrow> post Q (read_bracket n E ls si)"
  by (auto simp: read_bracket_def split: option.splits intro!: lex_vcg)

lemma read_dots_post [lex_vcg]:
  "heads P ls \<Longrightarrow> (\<And>t si ls'. heads P ls' \<Longrightarrow> Q (t, si, ls')) \<Longrightarrow> post Q (read_dots n E ls si)"
  by (auto simp: read_dots_def intro!: lex_vcg)

lemma read_name_post [lex_vcg]:
  "heads P ls \<Longrightarrow> (\<And>t si ls'. heads P ls' \<Longrightarrow> Q (t, si, ls')) \<Longrightarrow> post Q (read_name n E ls si)"
  by (auto simp: read_name_def split: option.splits intro!: lex_vcg)

lemma llex_loop_post [lex_vcg]:
  "heads P ls \<Longrightarrow> (\<And>t si ls'. heads P ls' \<Longrightarrow> Q (t, si, ls')) \<Longrightarrow> post Q (llex_loop n E ls si)"
  by (induction n arbitrary: ls) (auto simp: Let_def intro!: lex_vcg)

lemma llex_post [lex_vcg]:
  "heads P ls \<Longrightarrow> (\<And>t si ls'. heads P ls' \<Longrightarrow> Q (t, si, ls')) \<Longrightarrow> post Q (llex n E ls si)"
  by (auto simp: llex_def intro!: lex_vcg)

lemma luaX_next_post [lex_vcg]: "heads P ls \<Longrightarrow> (\<And>ls'. heads P ls' \<Longrightarrow> Q ls') \<Longrightarrow> post Q (luaX_next n E ls)"
  by (auto simp: luaX_next_def Let_def intro!: lex_vcg)

lemma luaX_lookahead_post [lex_vcg]: "heads P ls \<Longrightarrow> (\<And>ls'. heads P ls' \<Longrightarrow> Q ls') \<Longrightarrow> post Q (luaX_lookahead n E ls)"
  by (auto simp: luaX_lookahead_def intro!: lex_vcg)

lemma testnext_post [lex_vcg]:
  "heads P ls \<Longrightarrow> (\<And>b ls'. heads P ls' \<Longrightarrow> Q (b, ls')) \<Longrightarrow> post Q (testnext n E ls c)"
  by (auto simp: testnext_def intro!: lex_vcg)

lemma checknext_post [lex_vcg]: "heads P ls \<Longrightarrow> (\<And>ls'. heads P ls' \<Longrightarrow> Q ls') \<Longrightarrow> post Q (checknext n E ls c)"
  by (auto simp: checknext_def intro!: vcg lex_vcg)

lemma str_checkname_post [lex_vcg]:
  "heads P ls \<Longrightarrow> (\<And>ts ls'. heads P ls' \<Longrightarrow> Q (ts, ls')) \<Longrightarrow> post Q (str_checkname n E ls)"
  by (auto simp: str_checkname_def intro!: vcg lex_vcg)

end
interpretation lex_ok: lexer_keeps fs_ok
  by unfold_locales simp

declare lex_ok.newstring_post [vcg] lex_ok.luaX_next_post [vcg] lex_ok.luaX_lookahead_post [vcg] lex_ok.testnext_post [vcg]
  lex_ok.checknext_post [vcg] lex_ok.str_checkname_post [vcg]

section \<open>The grammar\<close>

lemma cur_fs_post [vcg]: "ls_ok ls \<Longrightarrow> (\<And>fs. fs_ok fs \<Longrightarrow> Q fs) \<Longrightarrow> post Q (cur_fs ls)"
  by (cases "ls_fs ls") (auto simp: cur_fs_def heads_def)

lemma gen_post [vcg]:
  assumes "ls_ok ls" "\<And>fs. fs_ok fs \<Longrightarrow> post (\<lambda>r. fs_ok (snd r)) (f (view E ls) fs)" "\<And>x ls'. ls_ok ls' \<Longrightarrow> Q (x, ls')"
  shows "post Q (gen E ls f)"
proof (cases "ls_fs ls")
  case (Cons fs rest)
  then have "post (\<lambda>r. fs_ok (snd r)) (f (view E ls) fs)" using assms(1,2) by (simp add: heads_def)
  then have "post (\<lambda>(x, fs'). Q (x, ls\<lparr>ls_fs := fs' # rest\<rparr>)) (f (view E ls) fs)"
    by (rule post_mono) (use assms(1) Cons in \<open>auto simp: heads_def intro!: assms(3)\<close>)
  with Cons show ?thesis by (simp add: gen_def case_prod_unfold)
qed (simp add: gen_def)

lemma gen_do_post [vcg]:
  "ls_ok ls \<Longrightarrow> (\<And>fs. fs_ok fs \<Longrightarrow> post fs_ok (f (view E ls) fs)) \<Longrightarrow> (\<And>ls'. ls_ok ls' \<Longrightarrow> Q ls') \<Longrightarrow> post Q (gen_do E ls f)"
  by (auto simp: gen_do_def intro!: vcg)

lemma gen_exp_post [vcg]:
  "ls_ok ls \<Longrightarrow> (\<And>fs. fs_ok fs \<Longrightarrow> post (\<lambda>r. fs_ok (snd r)) (f (view E ls) fs e)) \<Longrightarrow> (\<And>e ls'. ls_ok ls' \<Longrightarrow> Q (e, ls')) \<Longrightarrow>
   post Q (gen_exp E ls f e)"
  by (auto simp: gen_exp_def intro!: vcg)

lemma limit_post [vcg]: "(v \<le> l \<Longrightarrow> Q ()) \<Longrightarrow> post Q (luaY_checklimit E ls fs v l m)"
  by (simp add: luaY_checklimit_def errorlimit_def)

lemma check_condition_post [vcg]: "Q () \<Longrightarrow> post Q (check_condition E ls c m)"
  by (simp add: check_condition_def)

lemma check_match_post [vcg]:
  "ls_ok ls \<Longrightarrow> (\<And>ls'. ls_ok ls' \<Longrightarrow> Q ls') \<Longrightarrow> post Q (check_match n E ls a b w)"
  by (auto simp: check_match_def intro!: vcg)

lemma anchor_token_post [vcg]: "ls_ok ls \<Longrightarrow> (\<And>ls'. ls_ok ls' \<Longrightarrow> Q ls') \<Longrightarrow> post Q (anchor_token ls)"
  by (auto simp: anchor_token_def intro!: vcg)

lemma codestring_post [vcg]: "ls_ok ls \<Longrightarrow> (\<And>e ls'. ls_ok ls' \<Longrightarrow> Q (e, ls')) \<Longrightarrow> post Q (codestring E ls s)"
  by (auto simp: codestring_def intro!: vcg)

lemma checkname_post [vcg]: "ls_ok ls \<Longrightarrow> (\<And>e ls'. ls_ok ls' \<Longrightarrow> Q (e, ls')) \<Longrightarrow> post Q (checkname n E ls)"
  by (auto simp: checkname_def intro!: vcg)

subsection \<open>Variables and blocks\<close>

lemma registerlocalvar_post [vcg]:
  "fs_ok fs \<Longrightarrow> (\<And>i fs'. fs_ok fs' \<Longrightarrow> Q (i, fs')) \<Longrightarrow> post Q (registerlocalvar fs name)"
  by (auto simp: registerlocalvar_def Let_def intro!: vcg)

lemma new_localvar_post [vcg]: "ls_ok ls \<Longrightarrow> (\<And>ls'. ls_ok ls' \<Longrightarrow> Q ls') \<Longrightarrow> post Q (new_localvar E ls name k)"
  by (auto simp: new_localvar_def Let_def intro!: vcg)

lemma new_localvarliteral_post [vcg]:
  "ls_ok ls \<Longrightarrow> (\<And>ls'. ls_ok ls' \<Longrightarrow> Q ls') \<Longrightarrow> post Q (new_localvarliteral E ls name k)"
  by (auto simp: new_localvarliteral_def intro!: vcg)

lemma locvar_index_post [vcg]: "(\<And>j. Q j) \<Longrightarrow> post Q (locvar_index fs i)"
  by (simp add: locvar_index_def)

lemma edit_locvar_post [vcg]: "fs_ok fs \<Longrightarrow> (\<And>fs'. fs_ok fs' \<Longrightarrow> Q fs') \<Longrightarrow> post Q (edit_locvar fs i f)"
  by (auto simp: edit_locvar_def intro!: vcg)

lemma start_vars_post [vcg]: "fs_ok fs \<Longrightarrow> (\<And>fs'. fs_ok fs' \<Longrightarrow> Q fs') \<Longrightarrow> post Q (start_vars k fs)"
  by (induction k arbitrary: fs) (auto intro!: vcg)

lemma adjustlocalvars_post [vcg]: "fs_ok fs \<Longrightarrow> (\<And>fs'. fs_ok fs' \<Longrightarrow> Q fs') \<Longrightarrow> post Q (adjustlocalvars fs k)"
  by (auto simp: adjustlocalvars_def intro!: vcg)

lemma end_vars_post [vcg]: "fs_ok fs \<Longrightarrow> (\<And>fs'. fs_ok fs' \<Longrightarrow> Q fs') \<Longrightarrow> post Q (end_vars k fs)"
  by (induction k arbitrary: fs) (auto simp: Let_def intro!: vcg)

lemma removevars_post [vcg]: "fs_ok fs \<Longrightarrow> (\<And>fs'. fs_ok fs' \<Longrightarrow> Q fs') \<Longrightarrow> post Q (removevars fs k)"
  by (auto simp: removevars_def intro!: vcg)

lemma fs_ok_upvalue [simp]: "fs_ok fs \<Longrightarrow> length (fs_upvalues fs) \<le> 59 \<Longrightarrow>
  fs_ok (fs\<lparr>f_upvalues := f_upvalues fs @ [n], fs_upvalues := fs_upvalues fs @ [u]\<rparr>)"
  by (simp add: fs_ok_def hasarg_def)

lemma indexupvalue_post [vcg]:
  "fs_ok fs \<Longrightarrow> (\<And>i fs'. fs_ok fs' \<Longrightarrow> Q (i, fs')) \<Longrightarrow> post Q (indexupvalue E ls fs name v)"
  by (auto simp: indexupvalue_def Let_def LUAI_MAXUPVALUES_def split: option.splits intro!: vcg)

lemma searchvar_loop_post [vcg]: "(\<And>i. Q i) \<Longrightarrow> post Q (searchvar_loop fs name k)"
  by (induction k) (auto intro!: vcg)

lemma searchvar_post [vcg]: "(\<And>i. Q i) \<Longrightarrow> post Q (searchvar fs name)"
  by (auto simp: searchvar_def intro!: vcg)

lemma singlevaraux_post [vcg]:
  "list_all fs_ok fss \<Longrightarrow> (\<And>e fss'. list_all fs_ok fss' \<Longrightarrow> Q (e, fss')) \<Longrightarrow> post Q (singlevaraux E ls fss name base)"
proof (induction fss arbitrary: base Q)
  case (Cons fs fss)
  from Cons.prems show ?case by (auto simp: markupval_def intro!: vcg Cons.IH)
qed simp

lemma heads_chain [simp]: "ls_ok (ls\<lparr>ls_fs := fss\<rparr>) = list_all fs_ok fss"
  by (cases fss) (auto simp: heads_def list_all_iff)

lemma chain_ok [simp]: "ls_ok ls \<Longrightarrow> list_all fs_ok (ls_fs ls)"
  by (cases "ls_fs ls") (auto simp: heads_def list_all_iff)

lemma singlevar_post [vcg]: "ls_ok ls \<Longrightarrow> (\<And>e ls'. ls_ok ls' \<Longrightarrow> Q (e, ls')) \<Longrightarrow> post Q (singlevar n E ls)"
  by (auto simp: singlevar_def Let_def intro!: vcg)

lemma adjust_assign_post [vcg]: "fs_ok fs \<Longrightarrow> (\<And>fs'. fs_ok fs' \<Longrightarrow> Q fs') \<Longrightarrow> post Q (adjust_assign K fs nv ne e)"
  by (auto simp: adjust_assign_def Let_def intro!: vcg)

lemma enterlevel_post [vcg]: "ls_ok ls \<Longrightarrow> (\<And>ls'. ls_ok ls' \<Longrightarrow> Q ls') \<Longrightarrow> post Q (enterlevel E ls)"
  by (auto simp: enterlevel_def Let_def intro!: vcg)

lemma leavelevel_ok [simp]: "ls_ok (leavelevel ls) = ls_ok ls"
  by (simp add: leavelevel_def)

lemma enterblock_ok [simp]: "fs_ok (enterblock fs b) = fs_ok fs"
  by (simp add: enterblock_def)

lemma leaveblock_post [vcg]: "fs_ok fs \<Longrightarrow> (\<And>fs'. fs_ok fs' \<Longrightarrow> Q fs') \<Longrightarrow> post Q (leaveblock K fs)"
  by (auto simp: leaveblock_def split: list.splits intro!: vcg)

lemma block_posts [vcg]:
  assumes "ls_ok ls" "\<And>ls'. ls_ok ls' \<Longrightarrow> Q ls'"
  shows "post Q (enter_block E ls b)" "post Q (leave_block E ls)" "post Q (breakstat E ls)"
  using assms by (auto simp: enter_block_def leave_block_def breakstat_def split: option.splits intro!: vcg)

subsection \<open>Fields and constructors\<close>

lemma field_post [vcg]: "ls_ok ls \<Longrightarrow> (\<And>e ls'. ls_ok ls' \<Longrightarrow> Q (e, ls')) \<Longrightarrow> post Q (field n E ls v)"
  by (auto simp: field_def intro!: vcg)

lemma closelistfield_post [vcg]:
  "fs_ok fs \<Longrightarrow> (\<And>cc fs'. fs_ok fs' \<Longrightarrow> Q (cc, fs')) \<Longrightarrow> post Q (closelistfield K fs t cc)"
  by (auto simp: closelistfield_def Let_def intro!: vcg)

lemma lastlistfield_post [vcg]:
  "fs_ok fs \<Longrightarrow> (\<And>cc fs'. fs_ok fs' \<Longrightarrow> Q (cc, fs')) \<Longrightarrow> post Q (lastlistfield K fs t cc)"
  by (auto simp: lastlistfield_def intro!: vcg)

text \<open>The rules that contain expressions and blocks, for any two parsers of them that keep the invariant.\<close>

locale grammar =
  fixes ex :: "'d expr_fun" and bk :: "'d chunk_fun"
  assumes ex_post [vcg]: "ls_ok ls \<Longrightarrow> (\<And>e ls'. ls_ok ls' \<Longrightarrow> Q (e, ls')) \<Longrightarrow> post Q (ex ls)"
    and bk_post [vcg]: "ls_ok ls \<Longrightarrow> (\<And>ls'. ls_ok ls' \<Longrightarrow> Q' ls') \<Longrightarrow> post Q' (bk ls)"
begin

lemma yindex_post [vcg]: "ls_ok ls \<Longrightarrow> (\<And>e ls'. ls_ok ls' \<Longrightarrow> Q (e, ls')) \<Longrightarrow> post Q (yindex n E ex ls)"
  by (auto simp: yindex_def intro!: vcg)

lemma recfield_post [vcg]:
  "ls_ok ls \<Longrightarrow> (\<And>cc ls'. ls_ok ls' \<Longrightarrow> Q (cc, ls')) \<Longrightarrow> post Q (recfield n E ex ls t cc)"
  by (auto simp: recfield_def intro!: vcg)

lemma listfield_post [vcg]:
  "ls_ok ls \<Longrightarrow> (\<And>cc ls'. ls_ok ls' \<Longrightarrow> Q (cc, ls')) \<Longrightarrow> post Q (listfield E ex ls cc)"
  by (auto simp: listfield_def intro!: vcg)

lemma cons_item_post [vcg]:
  "ls_ok ls \<Longrightarrow> (\<And>cc ls'. ls_ok ls' \<Longrightarrow> Q (cc, ls')) \<Longrightarrow> post Q (cons_item n E ex ls t cc)"
  by (auto simp: cons_item_def intro!: vcg)

lemma cons_loop_post [vcg]:
  "ls_ok ls \<Longrightarrow> (\<And>cc ls'. ls_ok ls' \<Longrightarrow> Q (cc, ls')) \<Longrightarrow> post Q (cons_loop n E ex ls t cc)"
  by (induction n arbitrary: ls cc) (auto intro!: vcg)

lemma constructor_post [vcg]: "ls_ok ls \<Longrightarrow> (\<And>e ls'. ls_ok ls' \<Longrightarrow> Q (e, ls')) \<Longrightarrow> post Q (constructor n E ex ls)"
  by (auto simp: constructor_def Let_def intro!: vcg)

end
section \<open>Functions\<close>

text \<open>A function whose parameters are being read: \<open>a\<close> active variables, the flags \<open>v\<close> of a vararg function.\<close>

definition params :: "int \<Rightarrow> lu_byte \<Rightarrow> FuncState \<Rightarrow> bool" where
  "params a v fs \<longleftrightarrow> fs_ok fs \<and> fs_freereg fs = 0 \<and> f_numparams fs = 0 \<and> fs_nactvar fs = a \<and> f_is_vararg fs = v \<and>
     2 \<le> byte_int (f_maxstacksize fs)"

lemma params_updates [simp]:
  "params a v (fs\<lparr>fs_L := g, fs_h := h\<rparr>) = params a v fs" "params a v (fs\<lparr>f_locvars := l\<rparr>) = params a v fs"
  "params a v (fs\<lparr>fs_actvar := c\<rparr>) = params a v fs" "params a v (fs\<lparr>f_locvars := l, fs_actvar := c\<rparr>) = params a v fs"
  "params a v (fs\<lparr>f_linedefined := i\<rparr>) = params a v fs"
  by (simp_all add: params_def)

interpretation lex_params: lexer_keeps "params a v" for a v
  by unfold_locales simp

lemma heads_mono: "heads P ls \<Longrightarrow> (\<And>fs. P fs \<Longrightarrow> P' fs) \<Longrightarrow> heads P' ls"
  by (auto simp: heads_def)

lemma heads_params: "heads (params a v) ls \<Longrightarrow> ls_ok ls"
  by (erule heads_mono) (simp add: params_def)

lemma gen_do_heads:
  assumes "heads P ls" "\<And>fs. P fs \<Longrightarrow> post P' (f (view E ls) fs)" "\<And>ls'. heads P' ls' \<Longrightarrow> Q ls'"
  shows "post Q (gen_do E ls f)"
proof (cases "ls_fs ls")
  case (Cons fs rest)
  then have "post P' (f (view E ls) fs)" using assms(1,2) by (simp add: heads_def)
  then have "post (\<lambda>fs'. Q (ls\<lparr>ls_fs := fs' # rest\<rparr>)) (f (view E ls) fs)"
    by (rule post_mono) (use assms(1) Cons in \<open>auto simp: heads_def intro!: assms(3)\<close>)
  with Cons show ?thesis by (simp add: gen_do_def gen_def case_prod_unfold)
qed (simp add: gen_do_def gen_def)

lemma new_localvar_params:
  assumes "heads (params a v) ls" "\<And>ls'. heads (params a v) ls' \<Longrightarrow> a + k + 1 \<le> 200 \<Longrightarrow> Q ls'"
  shows "post Q (new_localvar E ls name k)"
proof (cases "ls_fs ls")
  case (Cons fs rest)
  then have "fs_nactvar fs = a" using assms(1) by (simp add: heads_def params_def)
  with Cons show ?thesis
    by (auto simp: new_localvar_def cur_fs_def LUAI_MAXVARS_def registerlocalvar_def Let_def
        intro!: vcg gen_do_heads [OF assms(1), where P' = "params a v"] assms(2))
qed (simp add: new_localvar_def cur_fs_def)

lemma new_localvarliteral_params:
  "heads (params a v) ls \<Longrightarrow> (\<And>ls'. heads (params a v) ls' \<Longrightarrow> a + k + 1 \<le> 200 \<Longrightarrow> Q ls') \<Longrightarrow>
   post Q (new_localvarliteral E ls name k)"
  by (auto simp: new_localvarliteral_def intro!: lex_params.newstring_post new_localvar_params)

lemma start_vars_params: "params a v fs \<Longrightarrow> (\<And>fs'. params a v fs' \<Longrightarrow> Q fs') \<Longrightarrow> post Q (start_vars k fs)"
  by (induction k arbitrary: fs) (auto simp: edit_locvar_def intro!: vcg)

lemma adjustlocalvars_params:
  assumes "params a v fs" "0 \<le> a + k" "a + k < 256" "\<And>fs'. params (a + k) v fs' \<Longrightarrow> Q fs'"
  shows "post Q (adjustlocalvars fs k)"
proof -
  have "params (a + k) v (fs\<lparr>fs_nactvar := cast_byte (fs_nactvar fs + k)\<rparr>)"
    using assms(1-3) by (simp add: params_def cast_byte_def)
  then show ?thesis unfolding adjustlocalvars_def by (rule start_vars_params) (rule assms(4))
qed

abbreviation all_flags :: lu_byte where "all_flags \<equiv> VARARG_HASARG OR VARARG_NEEDSARG OR VARARG_ISVARARG"

lemma flags_simps:
  "all_flags = 7" "(7 :: lu_byte) AND VARARG_HASARG = 1" "(7 :: lu_byte) AND VARARG_NEEDSARG = 4"
  "(5 :: lu_byte) AND VARARG_HASARG = 1" "VARARG_HASARG OR VARARG_NEEDSARG = 5" "(5 :: lu_byte) OR VARARG_ISVARARG = 7"
  by (simp_all add: VARARG_HASARG_def VARARG_NEEDSARG_def VARARG_ISVARARG_def)

lemma params_flags:
  "params a v fs \<Longrightarrow> params a 0 (fs\<lparr>f_is_vararg := 0\<rparr>)"
  "params a v fs \<Longrightarrow> params a 5 (fs\<lparr>f_is_vararg := 5\<rparr>)"
  "params a v fs \<Longrightarrow> params a 7 (fs\<lparr>f_is_vararg := 7\<rparr>)"
  by (simp_all add: params_def fs_ok_def hasarg_def flags_simps VARARG_HASARG_def VARARG_NEEDSARG_def)

lemma params_or: "params a 5 fs \<Longrightarrow> params a 7 (fs\<lparr>f_is_vararg := f_is_vararg fs OR VARARG_ISVARARG\<rparr>)"
proof -
  assume p: "params a 5 fs"
  then have "f_is_vararg fs = 5" by (simp add: params_def)
  then have "f_is_vararg fs OR VARARG_ISVARARG = 7" by (simp only: flags_simps)
  then show ?thesis using params_flags(3) [OF p] by (simp only:)
qed

lemma parameter_post:
  assumes "heads (params a 0) ls" "\<And>v ls'. v = 0 \<or> v = 7 \<Longrightarrow> heads (params a v) ls' \<Longrightarrow> a + k + 1 \<le> 200 \<Longrightarrow> Q ls'"
  shows "post Q (parameter n E ls k)"
proof -
  have dots: "post (\<lambda>ls'. heads (params a 7) ls' \<and> a + k + 1 \<le> 200)
      (bind_result (luaX_next n E ls) (\<lambda>ls. bind_result (new_localvarliteral E ls ''arg'' k) (\<lambda>ls.
        bind_result (gen_do E ls (\<lambda>K fs. Inr (fs\<lparr>f_is_vararg := VARARG_HASARG OR VARARG_NEEDSARG\<rparr>))) (or_vararg VARARG_ISVARARG E))))"
    unfolding post_bind or_vararg_def flags_simps
    apply (rule lex_params.luaX_next_post [OF assms(1)])
    apply (erule new_localvarliteral_params)
    apply (erule gen_do_heads [where P' = "params a 5"])
     apply (simp add: params_flags)
    apply (erule gen_do_heads [where P' = "params a 7"])
     apply (simp add: params_or)
    apply simp
    done
  show ?thesis
  proof (cases "tk_token (tok ls) = TK_NAME")
    case True
    then show ?thesis
      by (auto simp: parameter_def intro!: lex_params.str_checkname_post [OF assms(1)] new_localvar_params assms(2) [of 0])
  next
    case False
    show ?thesis
    proof (cases "tk_token (tok ls) = TK_DOTS")
      case True
      with False post_mono [OF dots, of Q] assms(2) [of 7] show ?thesis by (simp add: parameter_def)
    qed (use False in \<open>simp add: parameter_def\<close>)
  qed
qed

lemma parlist_loop_post:
  assumes "heads (params a 0) ls" "0 \<le> k"
    "\<And>v k' ls'. v = 0 \<or> v = 7 \<Longrightarrow> heads (params a v) ls' \<Longrightarrow> 1 \<le> k' \<Longrightarrow> a + k' \<le> 200 \<Longrightarrow> Q (k', ls')"
  shows "post Q (parlist_loop n E ls k)"
  using assms
proof (induction n arbitrary: ls k)
  case (Suc n)
  have step: "post Q (bind_result (cur_fs ls) (\<lambda>fs.
     bind_result (if f_is_vararg fs = 0 then testnext n E ls (ch (CHR '','')) else Inr (False, ls)) (\<lambda>(b, ls).
       if b then parlist_loop n E ls (k + 1) else Inr (k + 1, ls))))"
    if v: "v = 0 \<or> v = 7" "heads (params a v) ls" "a + k + 1 \<le> 200" for v ls
  proof (cases "ls_fs ls")
    case (Cons fs rest)
    then have f: "f_is_vararg fs = v" using v(2) by (simp add: heads_def params_def)
    show ?thesis
    proof (cases "v = 0")
      case True
      with v(2) have h: "heads (params a 0) ls" by simp
      have "post (\<lambda>x. post Q (case x of (b, ls) \<Rightarrow> if b then parlist_loop n E ls (k + 1) else Inr (k + 1, ls)))
          (testnext n E ls (ch (CHR '','')))"
      proof (rule lex_params.testnext_post [OF h])
        fix b and ls' :: "'a LexState" assume h': "heads (params a 0) ls'"
        have "post Q (parlist_loop n E ls' (k + 1))"
          by (rule Suc.IH [OF h']) (use Suc.prems in auto)
        then show "post Q (case (b, ls') of (b, ls) \<Rightarrow> if b then parlist_loop n E ls (k + 1) else Inr (k + 1, ls))"
          using Suc.prems(2) Suc.prems(3) [OF _ h', of "k + 1"] v(3) by simp
      qed
      with f True Cons show ?thesis by (simp add: cur_fs_def)
    next
      case False
      with f Cons v Suc.prems(2) show ?thesis by (simp add: cur_fs_def Suc.prems(3) [of v ls "k + 1"])
    qed
  qed (simp add: cur_fs_def)
  show ?case unfolding parlist_loop.simps post_bind [of _ "parameter n E ls k"]
    by (rule parameter_post [OF Suc.prems(1)]) (rule step)
qed simp

text \<open>The end of the parameter list: the number of parameters, and a register for each.\<close>

lemma reserve_params:
  assumes p: "params a v fs" and v: "v = 0 \<or> v = 7 \<and> 1 \<le> a" and a: "0 \<le> a" "a \<le> 200"
  shows "post fs_ok (luaK_reserveregs K
     (fs\<lparr>f_numparams := word_of_int (fs_nactvar fs - byte_int (f_is_vararg fs AND VARARG_HASARG))\<rparr>) (fs_nactvar fs))"
proof -
  let ?h = "byte_int (v AND VARARG_HASARG)"
  have h: "0 \<le> ?h" "?h \<le> 1" "?h \<le> a" using v a(1) by (auto simp: flags_simps)
  have vf: "v AND VARARG_NEEDSARG = 0 \<or> v AND VARARG_HASARG \<noteq> 0" using v by (auto simp: flags_simps)
  have np: "byte_int (word_of_int (a - ?h) :: lu_byte) = a - ?h" and ms: "byte_int (word_of_int a :: lu_byte) = a"
    using h a by (simp_all only: byte_of_int)
  show ?thesis
  proof (cases "a > byte_int (f_maxstacksize fs)")
    case True
    with p a np ms vf show ?thesis
      by (simp add: luaK_reserveregs_def luaK_checkstack_def params_def fs_ok_def hasarg_def MAXSTACK_def)
  next
    case False
    with p a np vf show ?thesis
      by (simp add: luaK_reserveregs_def luaK_checkstack_def params_def fs_ok_def hasarg_def)
  qed
qed

lemma parlist_post:
  assumes "heads (params a v) ls" "0 \<le> a" "a \<le> 200" "\<And>ls'. ls_ok ls' \<Longrightarrow> Q ls'"
  shows "post Q (parlist n E ls)"
proof -
  have fin: "post Q (gen_do E ls (\<lambda>K fs. end_params K fs k))"
    if "v = 0 \<or> v = 7 \<and> 1 \<le> k" "heads (params a v) ls" "0 \<le> k" "a + k \<le> 200" for v k ls
  proof (rule gen_do_heads [OF that(2), where P' = fs_ok])
    fix fs assume f: "params a v fs"
    show "post fs_ok (end_params (view E ls) fs k)"
      unfolding end_params_def post_bind
    proof (rule adjustlocalvars_params [OF f])
      fix fs' assume "params (a + k) v fs'"
      then show "post fs_ok (luaK_reserveregs (view E ls)
         (fs'\<lparr>f_numparams := word_of_int (fs_nactvar fs' - byte_int (f_is_vararg fs' AND VARARG_HASARG))\<rparr>) (fs_nactvar fs'))"
        by (rule reserve_params) (use that assms(2) in auto)
    qed (use that assms(2) in auto)
  qed (rule assms(4))
  have loop: "post Q (bind_result (if tk_token (tok ls) \<noteq> ch (CHR '')'') then parlist_loop n E ls 0 else Inr (0, ls)) (\<lambda>(k, ls).
      gen_do E ls (\<lambda>K fs. end_params K fs k)))" if h: "heads (params a 0) ls" for ls
    using assms(2,3) h by (auto intro!: parlist_loop_post) (auto intro: fin)
  show ?thesis unfolding parlist_def post_bind [of _ "gen_do E ls (\<lambda>K fs. Inr (fs\<lparr>f_is_vararg := 0\<rparr>))"]
  proof (rule gen_do_heads [OF assms(1), where P' = "params a 0"])
    show "post (params a 0) (Inr (fs\<lparr>f_is_vararg := 0\<rparr>))" if "params a v fs" for fs
      using params_flags(1) [OF that] by simp
  qed (rule loop)
qed
subsection \<open>Opening and closing a function\<close>

lemma luaH_new_post [vcg]: "(\<And>h. Q h) \<Longrightarrow> post Q (luaH_new a n m)"
  by (cases "luaH_new a n m") simp_all

lemma params_empty:
  assumes "f_lineinfo fs = []" "f_code fs = []" "f_upvalues fs = []" "fs_upvalues fs = []" "f_k fs = []" "f_p fs = []"
    "f_maxstacksize fs = 2" "f_numparams fs = 0" "f_is_vararg fs = 0" "fs_freereg fs = 0" "fs_nactvar fs = 0"
  shows "params 0 0 fs"
  using assms by (simp add: params_def fs_ok_def hasarg_def MAXSTACK_def)

lemma open_func_params:
  assumes "ls_ok ls" "\<And>ls'. heads (params 0 0) ls' \<Longrightarrow> Q ls'"
  shows "post Q (open_func E ls g)"
proof -
  have "\<forall>f\<in>set (ls_fs ls). fs_ok f" using chain_ok [OF assms(1)] by (simp add: list_all_iff)
  then show ?thesis
    by (auto simp: open_func_def Let_def heads_def intro!: vcg assms(2) params_empty)
qed

text \<open>A finished function: its last instruction returns.\<close>

definition closed :: "FuncState \<Rightarrow> bool" where
  "closed fs \<longleftrightarrow> fs_ok fs \<and> f_code fs \<noteq> [] \<and> GET_OPCODE (last (f_code fs)) = opnum OP_RETURN"

lemma GET_OPCODE_return: "GET_OPCODE (CREATE_ABC (opnum OP_RETURN) 0 1 0) = opnum OP_RETURN"
  by code_simp

lemmas GET_OPCODE_return_num = GET_OPCODE_return [simplified]

lemma luaK_ret_closed: "fs_ok fs \<Longrightarrow> post closed (luaK_ret K fs 0 0)"
  by (auto simp: luaK_ret_def emitABC_def luaK_codeABC_def luaK_code_def closed_def GET_OPCODE_return_num intro!: vcg)

lemma closed_updates [simp]: "closed (fs\<lparr>fs_L := g\<rparr>) = closed fs"
  by (simp add: closed_def)

lemma closed_precheck: "closed fs \<Longrightarrow> precheck (proto_of fs) = Inr True"
proof -
  assume c: "closed fs"
  then have u: "length (f_upvalues fs) \<le> 60" by (simp add: closed_def fs_ok_def)
  then have nups: "unat (word_of_nat (length (f_upvalues fs)) :: lu_byte) = length (f_upvalues fs)"
    by (intro unat_of_nat_small) simp
  have n: "nth_result (f_code fs) (int (length (f_code fs)) - 1) = Inr (last (f_code fs))"
  proof -
    have "nat (int (length (f_code fs)) - 1) = length (f_code fs) - 1" by arith
    then show ?thesis using c by (simp add: nth_result_def closed_def last_conv_nth)
  qed
  show ?thesis
    using c unfolding precheck_def proto_of_def Proto.sel length_map nups n
    by (simp add: closed_def fs_ok_def hasarg_def)
qed

lemma wf_proto_of: "closed fs \<Longrightarrow> wf_proto (proto_of fs)"
  using closed_precheck [of fs] by (simp add: proto_of_def closed_def fs_ok_def)

lemma close_func_post [vcg]:
  assumes "ls_ok ls" "\<And>fs ls'. closed fs \<Longrightarrow> ls_ok ls' \<Longrightarrow> Q (fs, ls')"
  shows "post Q (close_func E ls)"
  unfolding close_func_def post_bind [of _ "gen_do _ _ _"]
proof (rule gen_do_heads [OF assms(1), where P' = closed])
  show "post closed (bind_result (removevars fs 0) (\<lambda>fs. luaK_ret (view E ls) fs 0 0))" if "fs_ok fs" for fs
    using that by (auto intro!: vcg luaK_ret_closed)
next
  fix ls' :: "'a LexState" assume h: "heads closed ls'"
  show "post Q (case ls_fs ls' of [] \<Rightarrow> Inl MemoryFault | fs # fss \<Rightarrow>
      let fss = (case fss of [] \<Rightarrow> [] | prev # rest \<Rightarrow> prev\<lparr>fs_L := fs_L fs\<rparr> # rest) in
      bind_result (anchor_token (ls'\<lparr>ls_fs := fss\<rparr>)) (\<lambda>ls. Inr (fs, ls)))"
    using h by (auto simp: heads_def [of closed] list_all_iff split: list.split intro!: vcg assms(2))
qed

lemma code_upvalues_post [vcg]: "fs_ok fs \<Longrightarrow> (\<And>fs'. fs_ok fs' \<Longrightarrow> Q fs') \<Longrightarrow> post Q (code_upvalues K fs us)"
  by (induction us arbitrary: fs) (auto intro!: vcg)

lemma fs_ok_p [simp]: "fs_ok fs \<Longrightarrow> int (length (f_p fs)) < MAXARG_Bx \<Longrightarrow> wf_proto p \<Longrightarrow> fs_ok (fs\<lparr>f_p := f_p fs @ [p]\<rparr>)"
  by (auto simp: fs_ok_def hasarg_def)

lemma pushclosure_post [vcg]:
  "fs_ok fs \<Longrightarrow> closed func \<Longrightarrow> (\<And>e fs'. fs_ok fs' \<Longrightarrow> Q (e, fs')) \<Longrightarrow> post Q (pushclosure K fs func)"
  by (auto simp: pushclosure_def Let_def wf_proto_of intro!: vcg)

lemma self_params:
  assumes "heads (params 0 0) ls" "\<And>ls'. heads (params 1 0) ls' \<Longrightarrow> Q ls'"
  shows "post Q (bind_result (new_localvarliteral E ls ''self'' 0) (\<lambda>ls. gen_do E ls (\<lambda>K fs. adjustlocalvars fs 1)))"
  unfolding post_bind
proof (rule new_localvarliteral_params [OF assms(1)])
  fix ls' :: "'a LexState" assume "heads (params 0 0) ls'"
  then show "post Q (gen_do E ls' (\<lambda>K fs. adjustlocalvars fs 1))"
    by (rule gen_do_heads [where P' = "params 1 0"]) (auto intro!: assms(2) elim!: adjustlocalvars_params)
qed

lemma funchead_post [vcg]:
  assumes "ls_ok ls" "\<And>ls'. ls_ok ls' \<Longrightarrow> Q ls'"
  shows "post Q (funchead n E ls needself line)"
proof -
  have params: "post (\<lambda>ls. post Q (checknext n E ls (ch (CHR '')'')))) (parlist n E ls)"
    if "heads (params a 0) ls" "a = 0 \<or> a = 1" for a ls
    using that(2) by (auto intro!: parlist_post [OF that(1)] vcg assms(2))
  have start: "post (heads (params 0 0)) (gen_do E ls (\<lambda>K fs. Inr (fs\<lparr>f_linedefined := line\<rparr>)))" if "heads (params 0 0) ls" for ls
    by (rule gen_do_heads [OF that, where P' = "params 0 0"]) simp_all
  have self: "post Q (bind_result
       (if needself then
          bind_result (new_localvarliteral E ls ''self'' 0) (\<lambda>ls. gen_do E ls (\<lambda>K fs. adjustlocalvars fs 1))
        else Inr ls) (\<lambda>ls. bind_result (parlist n E ls) (\<lambda>ls. checknext n E ls (ch (CHR '')'')))))"
    if "heads (params 0 0) ls" for ls
  proof (cases needself)
    case True
    show ?thesis unfolding post_bind [of Q] if_P [OF True]
      by (rule self_params [OF that]) (erule params, simp)
  qed (use params [OF that] in simp)
  show ?thesis unfolding funchead_def post_bind [of _ "cur_fs _"] post_bind [of _ "open_func _ _ _"] post_bind [of _ "gen_do _ _ _"]
      post_bind [of _ "checknext _ _ _ (ch (CHR ''(''))"]
    by (rule cur_fs_post [OF assms(1)], rule open_func_params [OF assms(1)], rule post_mono [OF start], assumption,
      erule lex_params.checknext_post, rule self)
qed

lemma proto_flags [simp]: "fs_ok fs \<Longrightarrow> fs_ok (fs\<lparr>f_is_vararg := f_is_vararg fs AND NOT VARARG_NEEDSARG\<rparr>)"
proof -
  assume f: "fs_ok fs"
  have "(f_is_vararg fs AND NOT VARARG_NEEDSARG) AND VARARG_NEEDSARG = 0"
    "(f_is_vararg fs AND NOT VARARG_NEEDSARG) AND VARARG_HASARG = f_is_vararg fs AND VARARG_HASARG"
    by (simp_all add: and.assoc VARARG_NEEDSARG_def VARARG_HASARG_def)
  with f show ?thesis by (simp add: fs_ok_def hasarg_def)
qed
section \<open>Expressions and statements\<close>

context grammar
begin

lemma body_post [vcg]:
  "ls_ok ls \<Longrightarrow> (\<And>e ls'. ls_ok ls' \<Longrightarrow> Q (e, ls')) \<Longrightarrow> post Q (body n E bk ls needself line)"
  by (auto simp: body_def intro!: vcg)

lemma explist_loop_post [vcg]:
  "ls_ok ls \<Longrightarrow> (\<And>r ls'. ls_ok ls' \<Longrightarrow> Q (r, ls')) \<Longrightarrow> post Q (explist_loop n E ex ls v k)"
  by (induction n arbitrary: ls v k) (auto intro!: vcg)

lemma explist1_post [vcg]: "ls_ok ls \<Longrightarrow> (\<And>r ls'. ls_ok ls' \<Longrightarrow> Q (r, ls')) \<Longrightarrow> post Q (explist1 n E ex ls)"
  by (auto simp: explist1_def intro!: vcg)

lemma callargs_post [vcg]: "ls_ok ls \<Longrightarrow> (\<And>e ls'. ls_ok ls' \<Longrightarrow> Q (e, ls')) \<Longrightarrow> post Q (callargs n E ex ls)"
  by (auto simp: callargs_def Let_def intro!: vcg)

lemma funcargs_post [vcg]: "ls_ok ls \<Longrightarrow> (\<And>e ls'. ls_ok ls' \<Longrightarrow> Q (e, ls')) \<Longrightarrow> post Q (funcargs n E ex ls f)"
  by (auto simp: funcargs_def Let_def intro!: vcg)

lemma prefixexp_post [vcg]: "ls_ok ls \<Longrightarrow> (\<And>e ls'. ls_ok ls' \<Longrightarrow> Q (e, ls')) \<Longrightarrow> post Q (prefixexp n E ex ls)"
  by (auto simp: prefixexp_def Let_def intro!: vcg)

lemma suffix_loop_post [vcg]:
  "ls_ok ls \<Longrightarrow> (\<And>e ls'. ls_ok ls' \<Longrightarrow> Q (e, ls')) \<Longrightarrow> post Q (suffix_loop n E ex ls v)"
  by (induction n arbitrary: ls v) (auto simp: Let_def intro!: vcg)

lemma primaryexp_post [vcg]: "ls_ok ls \<Longrightarrow> (\<And>e ls'. ls_ok ls' \<Longrightarrow> Q (e, ls')) \<Longrightarrow> post Q (primaryexp n E ex ls)"
  by (auto simp: primaryexp_def intro!: vcg)

lemma varargexp_post [vcg]: "ls_ok ls \<Longrightarrow> (\<And>e ls'. ls_ok ls' \<Longrightarrow> Q (e, ls')) \<Longrightarrow> post Q (varargexp E ls)"
  by (auto simp: varargexp_def intro!: vcg)

lemma atomexp_post: "ls_ok ls \<Longrightarrow> atomexp E ls = Some r \<Longrightarrow> post (\<lambda>r. ls_ok (snd r)) r"
  by (auto simp: atomexp_def Let_def split: if_splits intro!: vcg)

lemma simpleexp_post [vcg]:
  assumes "ls_ok ls" "\<And>e ls'. ls_ok ls' \<Longrightarrow> Q (e, ls')"
  shows "post Q (simpleexp n E ex bk ls)"
proof (cases "atomexp E ls")
  case None
  with assms show ?thesis by (auto simp: simpleexp_def intro!: vcg)
next
  case (Some r)
  have "post (\<lambda>x. post Q (bind_result (luaX_next n E (snd x)) (\<lambda>ls. Inr (fst x, ls)))) r"
    by (rule post_mono [OF atomexp_post [OF assms(1) Some]]) (use assms(2) in \<open>auto intro!: vcg\<close>)
  with Some show ?thesis by (simp add: simpleexp_def case_prod_unfold)
qed

lemma block_post [vcg]: "ls_ok ls \<Longrightarrow> (\<And>ls'. ls_ok ls' \<Longrightarrow> Q ls') \<Longrightarrow> post Q (block E bk ls)"
  by (auto simp: block_def intro!: vcg)

lemma check_conflict_post [vcg]:
  "fs_ok fs \<Longrightarrow> (\<And>lhs fs'. fs_ok fs' \<Longrightarrow> Q (lhs, fs')) \<Longrightarrow> post Q (check_conflict K fs lhs v)"
  by (auto simp: check_conflict_def intro!: vcg)

lemma store_post [vcg]:
  assumes "ls_ok ls" "\<And>ls'. ls_ok ls' \<Longrightarrow> Q ls'"
  shows "post Q (store_var E ls v e)" "post Q (store_top E ls v)"
  using assms by (auto simp: store_var_def store_top_def intro!: vcg)

lemma assign_values_post [vcg]:
  "ls_ok ls \<Longrightarrow> (\<And>ls'. ls_ok ls' \<Longrightarrow> Q ls') \<Longrightarrow> post Q (assign_values n E ex ls v k)"
  by (auto simp: assign_values_def intro!: vcg)

lemma assignment_post [vcg]:
  "ls_ok ls \<Longrightarrow> (\<And>lhs ls'. ls_ok ls' \<Longrightarrow> Q (lhs, ls')) \<Longrightarrow> post Q (assignment n E ex ls v prev k)"
proof (induction n arbitrary: ls v prev k Q)
  case (Suc n)
  from Suc.prems show ?case by (auto split: list.split intro!: vcg Suc.IH)
qed simp

lemma cond_post [vcg]: "ls_ok ls \<Longrightarrow> (\<And>j ls'. ls_ok ls' \<Longrightarrow> Q (j, ls')) \<Longrightarrow> post Q (cond E ex ls)"
  by (auto simp: cond_def intro!: vcg)

lemma jump_posts [vcg]:
  assumes "ls_ok ls" "\<And>ls'. ls_ok ls' \<Longrightarrow> Q ls'"
  shows "post Q (jump_back E ls t)" "post Q (patch_here E ls l)"
  using assms by (auto simp: jump_back_def patch_here_def intro!: vcg)

lemma getlabel_ok [simp]: "fs_ok (snd (luaK_getlabel fs)) = fs_ok fs"
  by (simp add: luaK_getlabel_def)

lemma whilestat_post [vcg]: "ls_ok ls \<Longrightarrow> (\<And>ls'. ls_ok ls' \<Longrightarrow> Q ls') \<Longrightarrow> post Q (whilestat n E ex bk ls line)"
  by (auto simp: whilestat_def intro!: vcg)

lemma close_repeat_post [vcg]: "ls_ok ls \<Longrightarrow> (\<And>ls'. ls_ok ls' \<Longrightarrow> Q ls') \<Longrightarrow> post Q (close_repeat E ls j i)"
  by (auto simp: close_repeat_def split: list.split intro!: vcg)

lemma repeatstat_post [vcg]: "ls_ok ls \<Longrightarrow> (\<And>ls'. ls_ok ls' \<Longrightarrow> Q ls') \<Longrightarrow> post Q (repeatstat n E ex bk ls line)"
  by (auto simp: repeatstat_def intro!: vcg)

lemma exp1_post [vcg]: "ls_ok ls \<Longrightarrow> (\<And>ls'. ls_ok ls' \<Longrightarrow> Q ls') \<Longrightarrow> post Q (exp1 E ex ls)"
  by (auto simp: exp1_def intro!: vcg)

lemma for_prep_post [vcg]: "fs_ok fs \<Longrightarrow> (\<And>j fs'. fs_ok fs' \<Longrightarrow> Q (j, fs')) \<Longrightarrow> post Q (for_prep K fs base isnum)"
  by (auto simp: for_prep_def intro!: vcg)

lemma for_step_post [vcg]:
  "fs_ok fs \<Longrightarrow> (\<And>fs'. fs_ok fs' \<Longrightarrow> Q fs') \<Longrightarrow> post Q (for_step K fs base line nvars isnum prep)"
  by (auto simp: for_step_def intro!: vcg)

lemma forbody_post [vcg]: "ls_ok ls \<Longrightarrow> (\<And>ls'. ls_ok ls' \<Longrightarrow> Q ls') \<Longrightarrow> post Q (forbody n E bk ls base line nvars isnum)"
  by (auto simp: forbody_def intro!: vcg)

lemma control_vars_post [vcg]: "ls_ok ls \<Longrightarrow> (\<And>ls'. ls_ok ls' \<Longrightarrow> Q ls') \<Longrightarrow> post Q (control_vars E ls a b c)"
  by (auto simp: control_vars_def intro!: vcg)

lemma default_step_post [vcg]: "fs_ok fs \<Longrightarrow> (\<And>fs'. fs_ok fs' \<Longrightarrow> Q fs') \<Longrightarrow> post Q (default_step K fs)"
  by (auto simp: default_step_def intro!: vcg)

lemma fornum_post [vcg]: "ls_ok ls \<Longrightarrow> (\<And>ls'. ls_ok ls' \<Longrightarrow> Q ls') \<Longrightarrow> post Q (fornum n E ex bk ls name line)"
  by (auto simp: fornum_def Let_def intro!: vcg)

lemma more_names_post [vcg]: "ls_ok ls \<Longrightarrow> (\<And>k ls'. ls_ok ls' \<Longrightarrow> Q (k, ls')) \<Longrightarrow> post Q (more_names n E ls k)"
  by (induction n arbitrary: ls k) (auto intro!: vcg)

lemma forlist_post [vcg]: "ls_ok ls \<Longrightarrow> (\<And>ls'. ls_ok ls' \<Longrightarrow> Q ls') \<Longrightarrow> post Q (forlist n E ex bk ls name)"
  by (auto simp: forlist_def Let_def intro!: vcg)

lemma forstat_post [vcg]: "ls_ok ls \<Longrightarrow> (\<And>ls'. ls_ok ls' \<Longrightarrow> Q ls') \<Longrightarrow> post Q (forstat n E ex bk ls line)"
  by (auto simp: forstat_def intro!: vcg)

lemma test_then_block_post [vcg]:
  "ls_ok ls \<Longrightarrow> (\<And>j ls'. ls_ok ls' \<Longrightarrow> Q (j, ls')) \<Longrightarrow> post Q (test_then_block n E ex bk ls)"
  by (auto simp: test_then_block_def intro!: vcg)

lemma escape_post [vcg]: "ls_ok ls \<Longrightarrow> (\<And>j ls'. ls_ok ls' \<Longrightarrow> Q (j, ls')) \<Longrightarrow> post Q (escape E ls i f)"
  by (auto simp: escape_def intro!: vcg)

lemma elseif_loop_post [vcg]:
  "ls_ok ls \<Longrightarrow> (\<And>r ls'. ls_ok ls' \<Longrightarrow> Q (r, ls')) \<Longrightarrow> post Q (elseif_loop n E ex bk ls i f)"
  by (induction n arbitrary: ls i f) (auto intro!: vcg)

lemma ifstat_post [vcg]: "ls_ok ls \<Longrightarrow> (\<And>ls'. ls_ok ls' \<Longrightarrow> Q ls') \<Longrightarrow> post Q (ifstat n E ex bk ls line)"
  by (auto simp: ifstat_def intro!: vcg)

lemma localfunc_post [vcg]: "ls_ok ls \<Longrightarrow> (\<And>ls'. ls_ok ls' \<Longrightarrow> Q ls') \<Longrightarrow> post Q (localfunc n E bk ls)"
  by (auto simp: localfunc_def Let_def intro!: vcg)

lemma localstat_post [vcg]: "ls_ok ls \<Longrightarrow> (\<And>ls'. ls_ok ls' \<Longrightarrow> Q ls') \<Longrightarrow> post Q (localstat n E ex ls)"
  by (auto simp: localstat_def intro!: vcg)

lemma field_loop_post [vcg]: "ls_ok ls \<Longrightarrow> (\<And>e ls'. ls_ok ls' \<Longrightarrow> Q (e, ls')) \<Longrightarrow> post Q (field_loop n E ls v)"
  by (induction n arbitrary: ls v) (auto intro!: vcg)

lemma funcname_post [vcg]: "ls_ok ls \<Longrightarrow> (\<And>r ls'. ls_ok ls' \<Longrightarrow> Q (r, ls')) \<Longrightarrow> post Q (funcname n E ls)"
  by (auto simp: funcname_def intro!: vcg)

lemma funcstat_post [vcg]: "ls_ok ls \<Longrightarrow> (\<And>ls'. ls_ok ls' \<Longrightarrow> Q ls') \<Longrightarrow> post Q (funcstat n E bk ls line)"
  by (auto simp: funcstat_def intro!: vcg)

lemma exprstat_post [vcg]: "ls_ok ls \<Longrightarrow> (\<And>ls'. ls_ok ls' \<Longrightarrow> Q ls') \<Longrightarrow> post Q (exprstat n E ex ls)"
  by (auto simp: exprstat_def intro!: vcg)

lemma return_values_post [vcg]:
  "fs_ok fs \<Longrightarrow> (\<And>r fs'. fs_ok fs' \<Longrightarrow> Q (r, fs')) \<Longrightarrow> post Q (return_values K fs nret e)"
  by (auto simp: return_values_def intro!: vcg)

lemma retstat_post [vcg]: "ls_ok ls \<Longrightarrow> (\<And>ls'. ls_ok ls' \<Longrightarrow> Q ls') \<Longrightarrow> post Q (retstat n E ex ls)"
  by (auto simp: retstat_def intro!: vcg)

lemma statement_post [vcg]: "ls_ok ls \<Longrightarrow> (\<And>b ls'. ls_ok ls' \<Longrightarrow> Q (b, ls')) \<Longrightarrow> post Q (statement n E ex bk ls)"
  by (auto simp: statement_def Let_def intro!: vcg)

lemma stat_loop_post:
  "ls_ok ls \<Longrightarrow> (\<And>ls'. ls_ok ls' \<Longrightarrow> Q ls') \<Longrightarrow> post Q (stat_loop m E (statement n E ex bk) ls islast)"
  by (induction m arbitrary: ls islast) (auto intro!: vcg)

lemma operator_loop_post:
  assumes sub: "\<And>ls limit Q. ls_ok ls \<Longrightarrow> (\<And>r ls'. ls_ok ls' \<Longrightarrow> Q (r, ls')) \<Longrightarrow> post Q (sub ls limit)"
  shows "ls_ok ls \<Longrightarrow> (\<And>r ls'. ls_ok ls' \<Longrightarrow> Q (r, ls')) \<Longrightarrow> post Q (operator_loop n E sub ls limit op v)"
  by (induction n arbitrary: ls op v) (auto intro!: vcg sub)

end

section \<open>The recursion through expressions and blocks\<close>

lemma subexpr_post:
  assumes bk: "\<And>ls Q. ls_ok ls \<Longrightarrow> (\<And>ls'. ls_ok ls' \<Longrightarrow> Q ls') \<Longrightarrow> post Q (bk ls)"
  shows "ls_ok ls \<Longrightarrow> (\<And>r ls'. ls_ok ls' \<Longrightarrow> Q (r, ls')) \<Longrightarrow> post Q (subexpr n E bk ls limit)"
proof (induction n arbitrary: ls limit Q)
  case (Suc n)
  have g: "grammar (\<lambda>ls. bind_result (subexpr n E bk ls 0) (\<lambda>((_, v), ls). Inr (v, ls))) bk"
    by unfold_locales (auto intro!: Suc.IH bk)
  from Suc.prems show ?case
    by (auto simp: Let_def intro!: vcg Suc.IH grammar.operator_loop_post [OF g] grammar.simpleexp_post [OF g])
qed simp

lemma expr_post:
  assumes bk: "\<And>ls Q. ls_ok ls \<Longrightarrow> (\<And>ls'. ls_ok ls' \<Longrightarrow> Q ls') \<Longrightarrow> post Q (bk ls)"
  shows "ls_ok ls \<Longrightarrow> (\<And>r ls'. ls_ok ls' \<Longrightarrow> Q (r, ls')) \<Longrightarrow> post Q (expr n E bk ls)"
  by (auto simp: expr_def intro!: subexpr_post bk)

lemma chunk_post: "ls_ok ls \<Longrightarrow> (\<And>ls'. ls_ok ls' \<Longrightarrow> Q ls') \<Longrightarrow> post Q (chunk n E ls)"
proof (induction n arbitrary: ls Q)
  case (Suc n)
  have g: "grammar (expr n E (chunk n E)) (chunk n E)"
    by unfold_locales (auto intro!: Suc.IH expr_post)
  from Suc.prems show ?case by (auto intro!: vcg grammar.stat_loop_post [OF g])
qed simp

text \<open>The parsers of the model are the ones the grammar is used with.\<close>

interpretation parser: grammar "expr n E (chunk n E)" "chunk n E" for n E
  by unfold_locales (auto intro!: chunk_post expr_post)

text \<open>
  Claim C25. Every function the compiler returns is well formed, whatever the bytes of the chunk,
  the reader and the C library do: it and every function nested in it passes the structural
  check of the code checker (the stack size and the parameters in range, no \<open>NEEDSARG\<close> without
  \<open>HASARG\<close>, as many upvalue names as upvalues, a line for every instruction, a \<open>RETURN\<close> at the
  end), and its constants and nested functions are within the reach of an operand.
\<close>

theorem compiled_well_formed:
  "luaY_parser n E g calls z b name = Inr (p, ls) \<Longrightarrow> wf_proto p"
proof -
  have opened: "post (\<lambda>r. wf_proto (fst r))
     (bind_result (gen_do E ls (\<lambda>K fs. Inr (fs\<lparr>f_is_vararg := VARARG_ISVARARG\<rparr>))) (\<lambda>ls.
     bind_result (luaX_next n E ls) (\<lambda>ls.
     bind_result (chunk n E ls) (\<lambda>ls.
     bind_result (check_token E ls TK_EOS) (\<lambda>_.
     bind_result (close_func E ls) (\<lambda>(fs, ls). Inr (proto_of fs, ls)))))))"
    if "heads (params 0 0) ls" for ls :: "'a LexState"
    unfolding post_bind [of _ "gen_do E ls _"]
    by (rule gen_do_heads [OF that, where P' = fs_ok])
      (auto simp: params_def fs_ok_def hasarg_def VARARG_ISVARARG_def VARARG_HASARG_def VARARG_NEEDSARG_def
        intro!: vcg chunk_post wf_proto_of)
  have "post (\<lambda>r. wf_proto (fst r)) (luaY_parser n E g calls z b name)"
    unfolding luaY_parser_def luaX_setinput_def post_bind [of _ "next_char _ _"] post_bind [of _ "open_func _ _ _"]
    by (rule lex_ok.next_char_post, simp add: heads_def, erule open_func_params, rule opened)
  then show "luaY_parser n E g calls z b name = Inr (p, ls) \<Longrightarrow> wf_proto p"
    by (auto dest: postD)
qed
definition sample_compile_env :: "unit compile_env" where
  "sample_compile_env = \<lparr>ce_reader = (\<lambda>d. (None, d)),
     ce_clib = \<lparr>c_strtod = (\<lambda>s. (0, 0)), c_strtoul16 = (\<lambda>s. (0, 0)), c_number2str = (\<lambda>n. ''0''),
       c_pointer2str = (\<lambda>p. ''0x0''), c_pow = (\<lambda>a b. a)\<rparr>,
     ce_decimal_point = CHR ''.'', ce_alloc = (\<lambda>n. 8 * word_of_nat (n + 1))\<rparr>"

definition sample_stream :: "string \<Rightarrow> unit ZIO" where
  "sample_stream s = \<lparr>z_n = word_of_nat (length s), z_p = map (\<lambda>c. word_of_nat (uchar c)) s, z_data = ()\<rparr>"

definition sample_gc :: gc_core where "sample_gc = \<lparr>marked = (\<lambda>_. 1), grayagain = []\<rparr>"

definition sample_buffer :: Mbuffer where "sample_buffer = \<lparr>mb_buffer = [], mb_n = 0, mb_buffsize = 0\<rparr>"

definition sample_compile :: "string \<Rightarrow> (Proto, unit) parsed" where
  "sample_compile s = luaY_parser 3 sample_compile_env sample_gc 0 (sample_stream s) sample_buffer ''=x''"


lemma bind_weak_cong: "r = r' \<Longrightarrow> bind_result r f = bind_result r' f" by simp

lemmas empty_chunk_simps = Let_def luaX_setinput_def init_lex_def sample_buffer_def sample_stream_def next_char_def zgetc_def
  luaZ_fill_def sample_compile_env_def luaZ_resizebuffer_def open_func_def luaH_new_def setarrayvector_def setnodevector_def
  EOZ_def gen_do_def gen_def luaX_next_def llex_def luaZ_resetbuffer_def currIsNewline_def token_defs block_follow_def
  enterlevel_def leavelevel_def check_token_def close_func_def removevars_def luaK_ret_def emitABC_def luaK_codeABC_def
  luaK_code_def dischargejpc_def patchlistaux_def NO_JUMP_def grow_def anchor_token_def proto_of_def eval_nat_numeral
  LUAI_MAXCCALLS_def fs_pc_def

theorem compiled_well_formed_witness: "\<exists>p ls. sample_compile [] = Inr (p, ls) \<and> wf_proto p"
proof -
  have "\<exists>p ls. sample_compile [] = Inr (p, ls)"
    by (simp add: sample_compile_def luaY_parser_def empty_chunk_simps cong: bind_weak_cong) (auto simp: MAX_INT_def)
  then show ?thesis unfolding sample_compile_def using compiled_well_formed by blast
qed

end
