(* ===== verification/Lcode_spec.thy ===== *)
theory Lcode_spec
  imports Lcode_inv
begin

text \<open>
  The lists of pending jumps of the code generator, linked through the offsets of their own
  instructions: joining two lists, and sending all jumps of a list to their targets.
\<close>

section \<open>Lists of jumps\<close>

text \<open>
  The list that starts at instruction \<open>l\<close>: the instructions on it, each linked to the next one by
  its own offset. A list that ends visits no instruction twice.
\<close>

fun jump_list :: "FuncState \<Rightarrow> int \<Rightarrow> int list \<Rightarrow> bool" where
  "jump_list fs l [] \<longleftrightarrow> l = NO_JUMP"
| "jump_list fs l (p # ps) \<longleftrightarrow> l = p \<and> (case getjump fs p of Inr nxt \<Rightarrow> jump_list fs nxt ps | Inl e \<Rightarrow> False)"

lemma getjump_Inr: "getjump fs p = Inr nxt \<Longrightarrow> 0 \<le> p \<and> p < fs_pc fs"
  by (simp add: getjump_def code_at_def split: if_splits)

lemma jump_list_head: "jump_list fs l (p # ps) \<Longrightarrow> l = p \<and> 0 \<le> p \<and> p < fs_pc fs"
  by (auto dest: getjump_Inr split: sum.splits)

lemma jump_list_range: "jump_list fs l ps \<Longrightarrow> p \<in> set ps \<Longrightarrow> 0 \<le> p \<and> p < fs_pc fs"
proof (induction ps arbitrary: l)
  case (Cons q ps)
  with jump_list_head [OF Cons.prems(1)] show ?case by (auto split: sum.splits)
qed simp

lemma jump_list_unique: "jump_list fs l ps \<Longrightarrow> jump_list fs l qs \<Longrightarrow> ps = qs"
proof (induction ps arbitrary: l qs)
  case Nil
  then show ?case using jump_list_head [of fs l] by (cases qs) (auto simp: NO_JUMP_def)
next
  case (Cons p ps)
  then show ?case using jump_list_head [OF Cons.prems(1)] by (cases qs) (auto simp: NO_JUMP_def split: sum.splits)
qed

lemma jump_list_tail: "jump_list fs l (ps @ p # qs) \<Longrightarrow> jump_list fs p (p # qs)"
  by (induction ps arbitrary: l) (auto split: sum.splits)

lemma jump_list_distinct: "jump_list fs l ps \<Longrightarrow> distinct ps"
proof (induction ps arbitrary: l)
  case (Cons p ps)
  have "p \<notin> set ps"
  proof
    assume "p \<in> set ps"
    then obtain as bs where "ps = as @ p # bs" by (meson split_list)
    moreover from this have "jump_list fs p (p # bs)" using Cons.prems jump_list_tail [of fs l "p # as" p bs] by simp
    moreover have "jump_list fs p (p # ps)" using Cons.prems by simp
    ultimately show False using jump_list_unique [of fs p "p # bs" "p # ps"] by simp
  qed
  with Cons show ?case by (auto split: sum.splits)
qed simp

text \<open>So the walks along a list end within the bound of the model.\<close>

lemma jump_list_length: "jump_list fs l ps \<Longrightarrow> length ps \<le> length (f_code fs)"
proof -
  assume l: "jump_list fs l ps"
  have "set ps \<subseteq> int ` {..<length (f_code fs)}"
  proof
    fix p assume "p \<in> set ps"
    with jump_list_range [OF l] have "0 \<le> p \<and> p < int (length (f_code fs))" by (simp add: fs_pc_def)
    then show "p \<in> int ` {..<length (f_code fs)}" by (intro image_eqI [of _ _ "nat p"]) auto
  qed
  then have "card (set ps) \<le> card (int ` {..<length (f_code fs)})" by (intro card_mono) auto
  also have "\<dots> \<le> length (f_code fs)" using card_image_le [of "{..<length (f_code fs)}" int] by simp
  finally show ?thesis using jump_list_distinct [OF l] by (simp add: distinct_card)
qed

text \<open>A list depends on its own instructions only.\<close>

definition same_at :: "FuncState \<Rightarrow> FuncState \<Rightarrow> int set \<Rightarrow> bool" where
  "same_at fs fs' ps \<longleftrightarrow> fs_pc fs' \<ge> fs_pc fs \<and> (\<forall>p\<in>ps. 0 \<le> p \<and> p < fs_pc fs \<longrightarrow> f_code fs' ! nat p = f_code fs ! nat p)"

lemma jump_list_cong: "jump_list fs l ps \<Longrightarrow> same_at fs fs' (set ps) \<Longrightarrow> jump_list fs' l ps"
proof (induction ps arbitrary: l)
  case (Cons p ps)
  then obtain nxt where n: "getjump fs p = Inr nxt" "jump_list fs nxt ps" "l = p" by (auto split: sum.splits)
  have "getjump fs' p = Inr nxt"
    using n(1) Cons.prems(2) by (auto simp: getjump_def code_at_def same_at_def split: if_splits)
  moreover have "jump_list fs' nxt ps" using Cons.IH [OF n(2)] Cons.prems(2) by (auto simp: same_at_def)
  ultimately show ?case using n(3) by simp
qed simp

subsection \<open>Where a jump goes\<close>

definition jump_dest :: "FuncState \<Rightarrow> int \<Rightarrow> int" where
  "jump_dest fs p = p + 1 + GETARG_sBx (f_code fs ! nat p)"

definition code_set :: "FuncState \<Rightarrow> int \<Rightarrow> Instruction \<Rightarrow> FuncState" where
  "code_set fs p i = fs\<lparr>f_code := (f_code fs)[nat p := i]\<rparr>"

lemma code_set_simps [simp]:
  "fs_pc (code_set fs p i) = fs_pc fs" "length (f_code (code_set fs p i)) = length (f_code fs)"
  "fs_jpc (code_set fs p i) = fs_jpc fs"
  by (simp_all add: code_set_def fs_pc_def)

lemma code_set_nth:
  "0 \<le> p \<Longrightarrow> p < fs_pc fs \<Longrightarrow> 0 \<le> q \<Longrightarrow> f_code (code_set fs p i) ! nat q = (if q = p then i else f_code fs ! nat q)"
  by (auto simp: code_set_def fs_pc_def nth_list_update)

lemma fixjump_sets:
  assumes "0 \<le> p" "p < fs_pc fs" "\<bar>dest - (p + 1)\<bar> \<le> MAXARG_sBx"
  shows "fixjump K fs p dest = Inr (code_set fs p (SETARG_sBx (f_code fs ! nat p) (dest - (p + 1))))"
  using assms by (simp add: fixjump_def Let_def edit_code_def code_at_def set_code_def code_set_def)

lemma jump_dest_set:
  assumes "0 \<le> p" "p < fs_pc fs" "\<bar>dest - (p + 1)\<bar> \<le> MAXARG_sBx"
  shows "jump_dest (code_set fs p (SETARG_sBx i (dest - (p + 1)))) p = dest"
  using assms by (simp add: jump_dest_def code_set_nth SETARG_get)

lemma getjump_set:
  assumes "0 \<le> p" "p < fs_pc fs" "\<bar>dest - (p + 1)\<bar> \<le> MAXARG_sBx" "dest \<noteq> p"
  shows "getjump (code_set fs p (SETARG_sBx i (dest - (p + 1)))) p = Inr dest"
  using assms by (simp add: getjump_def code_at_def code_set_nth SETARG_get NO_JUMP_def)
subsection \<open>Joining two lists\<close>

lemma list_end_last: "jump_list fs p (p # ps) \<Longrightarrow> length ps < n \<Longrightarrow> list_end n fs p = Inr (last (p # ps))"
proof (induction n arbitrary: p ps)
  case (Suc n)
  then obtain nxt where n: "getjump fs p = Inr nxt" "jump_list fs nxt ps" by (auto split: sum.splits)
  show ?case
  proof (cases ps)
    case Nil
    with n show ?thesis by simp
  next
    case (Cons q qs)
    then have q: "nxt = q" "jump_list fs q (q # qs)" using n(2) by simp_all
    then have "nxt \<noteq> NO_JUMP" using jump_list_head [OF q(2)] by (simp add: NO_JUMP_def)
    with n(1) q Cons Suc.IH [OF q(2)] Suc.prems(2) show ?thesis by simp
  qed
qed simp

lemma jump_list_append:
  "jump_list fs l (bs @ [p]) \<Longrightarrow> same_at fs fs' (set bs) \<Longrightarrow> getjump fs' p = Inr l2 \<Longrightarrow> jump_list fs' l2 ys \<Longrightarrow>
   jump_list fs' l (bs @ p # ys)"
proof (induction bs arbitrary: l)
  case (Cons b bs)
  then obtain nxt where n: "getjump fs b = Inr nxt" "jump_list fs nxt (bs @ [p])" "l = b" by (auto split: sum.splits)
  have "getjump fs' b = Inr nxt"
    using n(1) Cons.prems(2) by (auto simp: getjump_def code_at_def same_at_def split: if_splits)
  moreover have "jump_list fs' nxt (bs @ p # ys)" using Cons.IH [OF n(2)] Cons.prems by (auto simp: same_at_def)
  ultimately show ?case using n(3) by simp
qed (auto split: sum.splits)

text \<open>The instructions outside a set of places, and every opcode, are the same.\<close>

definition only_at :: "int set \<Rightarrow> FuncState \<Rightarrow> FuncState \<Rightarrow> bool" where
  "only_at ps fs fs' \<longleftrightarrow> fs' = fs\<lparr>f_code := f_code fs'\<rparr> \<and> fs_pc fs' = fs_pc fs \<and>
     (\<forall>q. 0 \<le> q \<and> q < fs_pc fs \<longrightarrow> GET_OPCODE (f_code fs' ! nat q) = GET_OPCODE (f_code fs ! nat q) \<and>
        (q \<notin> ps \<longrightarrow> f_code fs' ! nat q = f_code fs ! nat q))"

lemma only_at_refl: "only_at ps fs fs"
  by (simp add: only_at_def)

lemma only_at_link: "0 \<le> p \<Longrightarrow> p < fs_pc fs \<Longrightarrow> p \<in> ps \<Longrightarrow> only_at ps fs (code_set fs p (SETARG_sBx (f_code fs ! nat p) d))"
  by (auto simp: only_at_def code_set_nth SETARG_other) (simp add: code_set_def)

lemma only_at_same: "only_at ps fs fs' \<Longrightarrow> ps \<inter> qs = {} \<Longrightarrow> same_at fs fs' qs"
  by (auto simp: only_at_def same_at_def)

text \<open>
  Joining two lists of pending jumps that have no instruction in common always ends and
  gives the list of the first one's jumps followed by the second one's; no other instruction and
  no opcode changes, so every other list stays what it was.
\<close>

lemma luaK_concat_correct:
  assumes "jump_list fs l1 xs" "jump_list fs l2 ys" "set xs \<inter> set ys = {}" "fs_pc fs \<le> MAXARG_sBx"
  shows "\<exists>l fs'. luaK_concat K fs l1 l2 = Inr (l, fs') \<and> jump_list fs' l (xs @ ys) \<and> only_at (set xs) fs fs'"
proof (cases "xs = [] \<or> ys = []")
  case True
  then have "l1 = NO_JUMP \<or> l2 = NO_JUMP" using assms(1,2) by auto
  with assms(1,2) True show ?thesis
    using jump_list_head [of fs l1] jump_list_head [of fs l2]
    by (cases xs; cases ys) (auto simp: luaK_concat_def only_at_refl NO_JUMP_def)
next
  case False
  then obtain bs p where xs: "xs = bs @ [p]" by (metis append_butlast_last_id)
  obtain x xs' where xc: "xs = x # xs'" using False by (cases xs) auto
  obtain y ys' where yc: "ys = y # ys'" using False by (cases ys) auto
  have l1: "l1 = x" "0 \<le> x" and l2: "l2 = y" "0 \<le> y" "y < fs_pc fs"
    using jump_list_head [of fs l1 x xs'] jump_list_head [of fs l2 y ys'] assms(1,2) xc yc by auto
  have p: "0 \<le> p" "p < fs_pc fs" "p \<noteq> y" using jump_list_range [OF assms(1), of p] xs yc assms(3) by auto
  have "last (x # xs') = p" using xs xc by (metis last_snoc)
  then have e: "list_end (length (f_code fs) + 1) fs l1 = Inr p"
    using list_end_last [of fs x xs' "length (f_code fs) + 1"] jump_list_length [OF assms(1)] assms(1) xc l1(1)
    by (simp del: list_end.simps jump_list.simps)
  let ?fs = "code_set fs p (SETARG_sBx (f_code fs ! nat p) (y - (p + 1)))"
  have off: "\<bar>y - (p + 1)\<bar> \<le> MAXARG_sBx" using p l2 assms(4) by auto
  have o: "only_at (set xs) fs ?fs" "only_at {p} fs ?fs" using xs by (auto intro!: only_at_link [OF p(1,2)])
  have d: "distinct xs" by (rule jump_list_distinct [OF assms(1)])
  have "jump_list ?fs l2 ys"
    by (rule jump_list_cong [OF assms(2) only_at_same [OF o(2)]]) (use assms(3) xs in auto)
  then have "jump_list ?fs l1 (xs @ ys)"
    using jump_list_append [of fs l1 bs p ?fs l2 ys] assms(1) only_at_same [OF o(2), of "set bs"] d xs l2(1)
      getjump_set [OF p(1,2) off p(3) [symmetric]] by auto
  moreover have "luaK_concat K fs l1 l2 = Inr (l1, ?fs)"
    using e fixjump_sets [OF p(1,2) off] l1 l2 by (simp add: luaK_concat_def NO_JUMP_def)
  ultimately show ?thesis using o(1) by blast
qed

subsection \<open>Sending the jumps of a list to their places\<close>

text \<open>
  A jump after a \<open>TESTSET\<close> produces a value. When its list is patched, the test keeps that value
  in a register, or becomes a plain \<open>TEST\<close>.
\<close>

definition produces :: "FuncState \<Rightarrow> int \<Rightarrow> bool" where
  "produces fs p \<longleftrightarrow> 1 \<le> p \<and> is_op (f_code fs ! nat (p - 1)) OP_TESTSET"

definition no_tests :: "FuncState \<Rightarrow> int set \<Rightarrow> bool" where
  "no_tests fs ps \<longleftrightarrow> (\<forall>p\<in>ps. \<not> is_test (f_code fs ! nat p))"

definition settle :: "int \<Rightarrow> Instruction \<Rightarrow> Instruction" where
  "settle reg i = (if reg \<noteq> NO_REG \<and> reg \<noteq> GETARG_B i then SETARG_A i reg
     else CREATE_ABC (opnum OP_TEST) (GETARG_B i) 0 (GETARG_C i))"

lemma testset_is_test: "is_op i OP_TESTSET \<Longrightarrow> is_test i"
  by (simp add: is_op_def is_test_def testTMode_eq flip: opnum.simps)

lemma patchtestreg_eq:
  assumes "0 \<le> p" "p < fs_pc fs" "\<not> is_test (f_code fs ! nat p)"
  shows "patchtestreg fs p reg =
    Inr (if produces fs p then (True, code_set fs (p - 1) (settle reg (f_code fs ! nat (p - 1)))) else (False, fs))"
proof -
  have "\<not> is_op (f_code fs ! nat p) OP_TESTSET" using assms(3) testset_is_test by blast
  then show ?thesis using assms(1,2) testset_is_test [of "f_code fs ! nat (p - 1)"]
    by (cases "1 \<le> p")
      (auto simp: patchtestreg_def getjumpcontrol_def code_at_def produces_def set_code_def code_set_def settle_def)
qed

text \<open>What patching a list leaves: every jump at its target, every test settled, the rest unchanged.\<close>

definition patched :: "FuncState \<Rightarrow> int set \<Rightarrow> int \<Rightarrow> int \<Rightarrow> int \<Rightarrow> FuncState \<Rightarrow> bool" where
  "patched fs ps vtarget reg dtarget fs' \<longleftrightarrow> fs' = fs\<lparr>f_code := f_code fs'\<rparr> \<and> fs_pc fs' = fs_pc fs \<and>
     (\<forall>p\<in>ps. jump_dest fs' p = (if produces fs p then vtarget else dtarget) \<and>
        (produces fs p \<longrightarrow> f_code fs' ! nat (p - 1) = settle reg (f_code fs ! nat (p - 1)))) \<and>
     (\<forall>q. 0 \<le> q \<and> q < fs_pc fs \<and> q \<notin> ps \<and> \<not> (q + 1 \<in> ps \<and> produces fs (q + 1)) \<longrightarrow>
        f_code fs' ! nat q = f_code fs ! nat q)"

lemma patchlist_step:
  assumes l: "jump_list fs l (p # ps)" "no_tests fs (set (p # ps))" "fs_pc fs < MAXARG_sBx"
    and t: "- 1 \<le> t" "t \<le> fs_pc fs" "t = (if produces fs p then v else d)"
  obtains fs1 fs2 nxt where "getjump fs p = Inr nxt" "patchtestreg fs p reg = Inr (produces fs p, fs1)"
    "fixjump K fs1 p t = Inr fs2" "jump_list fs2 nxt ps" "no_tests fs2 (set ps)" "fs2 = fs\<lparr>f_code := f_code fs2\<rparr>"
    "fs_pc fs2 = fs_pc fs" "jump_dest fs2 p = t" "\<not> is_test (f_code fs2 ! nat p)"
    "produces fs p \<Longrightarrow> f_code fs2 ! nat (p - 1) = settle reg (f_code fs ! nat (p - 1))"
    "\<And>q. 0 \<le> q \<Longrightarrow> q < fs_pc fs \<Longrightarrow> q \<noteq> p \<Longrightarrow> \<not> (q = p - 1 \<and> produces fs p) \<Longrightarrow> f_code fs2 ! nat q = f_code fs ! nat q"
proof -
  obtain nxt where n: "getjump fs p = Inr nxt" "jump_list fs nxt ps" using l(1) by (auto split: sum.splits)
  have p: "0 \<le> p" "p < fs_pc fs" using jump_list_head [OF l(1)] by auto
  have nt: "\<not> is_test (f_code fs ! nat p)" using l(2) by (simp add: no_tests_def)
  define fs1 where "fs1 = (if produces fs p then code_set fs (p - 1) (settle reg (f_code fs ! nat (p - 1))) else fs)"
  define fs2 where "fs2 = code_set fs1 p (SETARG_sBx (f_code fs1 ! nat p) (t - (p + 1)))"
  have pc: "fs_pc fs1 = fs_pc fs" by (simp add: fs1_def)
  have c1: "f_code fs1 ! nat q = (if q = p - 1 \<and> produces fs p then settle reg (f_code fs ! nat (p - 1)) else f_code fs ! nat q)"
    if "0 \<le> q" for q
    using that p by (auto simp: fs1_def produces_def code_set_nth)
  have c2: "f_code fs2 ! nat q = (if q = p then SETARG_sBx (f_code fs1 ! nat p) (t - (p + 1)) else f_code fs1 ! nat q)"
    if "0 \<le> q" for q
    using that p pc by (simp add: fs2_def code_set_nth)
  have off: "\<bar>t - (p + 1)\<bar> \<le> MAXARG_sBx" using p t l(3) by auto
  have d: "p \<notin> set ps" using jump_list_distinct [OF l(1)] by simp
  have ctl: "p - 1 \<notin> set ps" if "produces fs p"
    using that l(2) testset_is_test by (auto simp: produces_def no_tests_def)
  have keep: "f_code fs2 ! nat q = f_code fs ! nat q"
    if "0 \<le> q" "q \<noteq> p" "\<not> (q = p - 1 \<and> produces fs p)" for q
    using that by (auto simp: c1 c2)
  show thesis
  proof
    show "getjump fs p = Inr nxt" by (rule n(1))
    show "patchtestreg fs p reg = Inr (produces fs p, fs1)" using patchtestreg_eq [OF p nt, of reg] by (simp add: fs1_def)
    show "fixjump K fs1 p t = Inr fs2" using fixjump_sets [OF p(1) _ off, of fs1] p pc by (simp add: fs2_def)
    have "same_at fs fs2 (set ps)" using keep d ctl pc by (auto simp: same_at_def fs2_def)
    then show "jump_list fs2 nxt ps" by (rule jump_list_cong [OF n(2)])
    show "no_tests fs2 (set ps)"
      unfolding no_tests_def
    proof
      fix q assume q: "q \<in> set ps"
      then have "0 \<le> q" using jump_list_range [OF n(2)] by simp
      with q d ctl have "f_code fs2 ! nat q = f_code fs ! nat q" by (intro keep) auto
      with q l(2) show "\<not> is_test (f_code fs2 ! nat q)" by (simp add: no_tests_def)
    qed
    show "fs2 = fs\<lparr>f_code := f_code fs2\<rparr>" by (simp add: fs2_def fs1_def code_set_def)
    show "fs_pc fs2 = fs_pc fs" by (simp add: fs2_def pc)
    show "jump_dest fs2 p = t" using jump_dest_set [OF p(1) _ off, of fs1] p pc by (simp add: fs2_def)
    show "\<not> is_test (f_code fs2 ! nat p)" using nt p by (simp add: c1 c2 is_test_def SETARG_other)
    show "f_code fs2 ! nat (p - 1) = settle reg (f_code fs ! nat (p - 1))" if "produces fs p"
      using that p by (simp add: c1 c2 produces_def)
  qed (use keep in auto)
qed

lemma patchlist_loop_patched:
  "jump_list fs l ps \<Longrightarrow> no_tests fs (set ps) \<Longrightarrow> fs_pc fs < MAXARG_sBx \<Longrightarrow> - 1 \<le> v \<Longrightarrow> v \<le> fs_pc fs \<Longrightarrow>
   - 1 \<le> d \<Longrightarrow> d \<le> fs_pc fs \<Longrightarrow> length ps < n \<Longrightarrow>
   \<exists>fs'. patchlist_loop n K fs l v reg d = Inr fs' \<and> patched fs (set ps) v reg d fs'"
proof (induction ps arbitrary: n l fs)
  case Nil
  then show ?case by (cases n) (auto simp: patched_def)
next
  case (Cons p ps)
  obtain m where m: "n = Suc m" "length ps < m" using Cons.prems(8) by (cases n) auto
  have p: "l = p" "0 \<le> p" "p < fs_pc fs" using jump_list_head [OF Cons.prems(1)] by auto
  let ?t = "if produces fs p then v else d"
  have t: "- 1 \<le> ?t" "?t \<le> fs_pc fs" using Cons.prems by auto
  obtain fs1 fs2 nxt where s: "getjump fs p = Inr nxt" "patchtestreg fs p reg = Inr (produces fs p, fs1)"
    "fixjump K fs1 p ?t = Inr fs2" "jump_list fs2 nxt ps" "no_tests fs2 (set ps)" "fs2 = fs\<lparr>f_code := f_code fs2\<rparr>"
    "fs_pc fs2 = fs_pc fs" "jump_dest fs2 p = ?t" "\<not> is_test (f_code fs2 ! nat p)"
    "produces fs p \<Longrightarrow> f_code fs2 ! nat (p - 1) = settle reg (f_code fs ! nat (p - 1))"
    and keep: "\<And>q. 0 \<le> q \<Longrightarrow> q < fs_pc fs \<Longrightarrow> q \<noteq> p \<Longrightarrow> \<not> (q = p - 1 \<and> produces fs p) \<Longrightarrow> f_code fs2 ! nat q = f_code fs ! nat q"
    by (rule patchlist_step [OF Cons.prems(1-3) t refl, where reg = reg and K = K]) (rule that)
  obtain fs' where r: "patchlist_loop m K fs2 nxt v reg d = Inr fs'" "patched fs2 (set ps) v reg d fs'"
    using Cons.IH [OF s(4,5), of m] Cons.prems m(2) s(7) by auto
  have d: "p \<notin> set ps" using jump_list_distinct [OF Cons.prems(1)] by simp
  have nt: "\<And>q. q \<in> set (p # ps) \<Longrightarrow> \<not> is_test (f_code fs ! nat q)" using Cons.prems(2) by (auto simp: no_tests_def)
  have np: "\<not> is_op (f_code fs2 ! nat p) OP_TESTSET" using s(9) testset_is_test by blast
  have tail: "produces fs2 q = produces fs q \<and> (produces fs q \<longrightarrow> f_code fs2 ! nat (q - 1) = f_code fs ! nat (q - 1))"
    if q: "q \<in> set ps" for q
  proof (cases "1 \<le> q \<and> q - 1 \<noteq> p")
    case True
    have "q < fs_pc fs" using jump_list_range [OF s(4) q] s(7) by simp
    moreover have "\<not> (q - 1 = p - 1 \<and> produces fs p)" using q d by auto
    ultimately show ?thesis using keep [of "q - 1"] True by (simp add: produces_def)
  next
    case False
    then show ?thesis using np nt [of p] testset_is_test [of "f_code fs ! nat p"] by (auto simp: produces_def)
  qed
  have pp: "\<not> (p + 1 \<in> set ps \<and> produces fs2 (p + 1))" using np by (simp add: produces_def)
  have kp: "f_code fs' ! nat p = f_code fs2 ! nat p" using r(2) p d pp s(7) by (simp add: patched_def)
  have kc: "f_code fs' ! nat (p - 1) = f_code fs2 ! nat (p - 1)" if "produces fs p"
  proof -
    have "p - 1 \<notin> set ps" using that nt [of "p - 1"] testset_is_test by (auto simp: produces_def)
    with that r(2) p d s(7) show ?thesis by (simp add: patched_def produces_def)
  qed
  have "patched fs (set (p # ps)) v reg d fs'"
    unfolding patched_def
  proof (intro conjI ballI allI impI)
    have "fs' = fs2\<lparr>f_code := f_code fs'\<rparr>" using r(2) unfolding patched_def by blast
    moreover have "fs2\<lparr>f_code := c\<rparr> = fs\<lparr>f_code := c\<rparr>" for c by (subst s(6)) simp
    ultimately show "fs' = fs\<lparr>f_code := f_code fs'\<rparr>" by (rule trans)
    show "fs_pc fs' = fs_pc fs" using r(2) s(7) by (simp add: patched_def)
    fix q assume q: "q \<in> set (p # ps)"
    show "jump_dest fs' q = (if produces fs q then v else d)"
      using q r(2) tail [of q] kp s(8) by (auto simp: patched_def jump_dest_def)
    show "f_code fs' ! nat (q - 1) = settle reg (f_code fs ! nat (q - 1))" if "produces fs q"
      using q r(2) tail [of q] that kc s(10) by (auto simp: patched_def)
  next
    fix q assume q: "0 \<le> q \<and> q < fs_pc fs \<and> q \<notin> set (p # ps) \<and> \<not> (q + 1 \<in> set (p # ps) \<and> produces fs (q + 1))"
    then have "f_code fs' ! nat q = f_code fs2 ! nat q" using r(2) s(7) tail [of "q + 1"] by (auto simp: patched_def)
    then show "f_code fs' ! nat q = f_code fs ! nat q" using keep [of q] q by (cases "q = p - 1") auto
  qed
  moreover have "patchlist_loop n K fs l v reg d = Inr fs'"
    using s r(1) p m by (simp add: NO_JUMP_def)
  ultimately show ?case by blast
qed

text \<open>
  Patching a list of pending jumps always ends and sends every jump of it to its place:
  one that produces a value to \<open>vtarget\<close>, its \<open>TESTSET\<close> settled (the value kept in \<open>reg\<close>, or the
  test made a plain \<open>TEST\<close>), every other one to \<open>dtarget\<close>; no other instruction changes.
\<close>

theorem patchlistaux_correct:
  assumes "jump_list fs l ps" "no_tests fs (set ps)" "fs_pc fs < MAXARG_sBx"
    "- 1 \<le> v" "v \<le> fs_pc fs" "- 1 \<le> d" "d \<le> fs_pc fs"
  shows "\<exists>fs'. patchlistaux K fs l v reg d = Inr fs' \<and> patched fs (set ps) v reg d fs'"
  unfolding patchlistaux_def
  by (rule patchlist_loop_patched [OF assms]) (use jump_list_length [OF assms(1)] in simp)

lemma only_at_tests:
  assumes "only_at qs fs fs'" "\<And>p. p \<in> ps \<Longrightarrow> 0 \<le> p \<and> p < fs_pc fs"
  shows "no_tests fs' ps = no_tests fs ps" "p \<in> ps \<Longrightarrow> produces fs' p = produces fs p"
proof -
  have "is_test (f_code fs' ! nat p) = is_test (f_code fs ! nat p)" if "p \<in> ps" for p
    using assms(1) assms(2) [OF that] by (simp add: only_at_def is_test_def)
  then show "no_tests fs' ps = no_tests fs ps" by (simp add: no_tests_def)
  show "produces fs' p = produces fs p" if "p \<in> ps"
    using assms(1) assms(2) [OF that] by (auto simp: only_at_def produces_def is_op_def)
qed


section \<open>An example\<close>

text \<open>
  A test and three jumps: \<open>2\<close> is linked to \<open>1\<close>, the jump of the test at \<open>0\<close>, and \<open>3\<close> is a list
  of its own.
\<close>

definition sample_code :: "Instruction list" where
  "sample_code = [CREATE_ABC (opnum OP_TESTSET) 255 0 1, CREATE_ABx (opnum OP_JMP) 0 (NO_JUMP + MAXARG_sBx),
     CREATE_ABx (opnum OP_JMP) 0 (- 2 + MAXARG_sBx), CREATE_ABx (opnum OP_JMP) 0 (NO_JUMP + MAXARG_sBx)]"

definition sample_fs :: "Table \<Rightarrow> FuncState" where
  "sample_fs h = \<lparr>f_k = [], f_code = sample_code, f_p = [], f_lineinfo = [1, 1, 1, 1], f_locvars = [], f_upvalues = [],
     f_source = ''=x'', f_linedefined = 0, f_lastlinedefined = 0, f_numparams = 0, f_is_vararg = 0, f_maxstacksize = 2,
     fs_h = h, fs_L = \<lparr>marked = (\<lambda>_. 1), grayagain = []\<rparr>, fs_bl = [], fs_lasttarget = - 1, fs_jpc = 3, fs_freereg = 0,
     fs_nactvar = 0, fs_upvalues = [], fs_actvar = []\<rparr>"

lemma sample_lists: "jump_list (sample_fs h) 2 [2, 1]" "jump_list (sample_fs h) 3 [3]"
  by (simp_all add: sample_fs_def getjump_def code_at_def fs_pc_def) code_simp+

lemma sample_jumps: "no_tests (sample_fs h) {1, 2, 3}" "fs_pc (sample_fs h) = 4" "fs_jpc (sample_fs h) = 3"
  by (simp_all add: sample_fs_def no_tests_def fs_pc_def) code_simp+

theorem patchlistaux_correct_witness:
  "\<forall>K h. \<exists>fs'. patchlistaux K (sample_fs h) 2 0 1 4 = Inr fs' \<and> jump_dest fs' 1 = 0 \<and> jump_dest fs' 2 = 4 \<and>
     is_op (f_code fs' ! 0) OP_TESTSET \<and> GETARG_A (f_code fs' ! 0) = 1"
proof (intro allI)
  fix K h
  have n: "no_tests (sample_fs h) (set [2, 1])" using sample_jumps(1) by (simp add: no_tests_def)
  have "produces (sample_fs h) 1" "\<not> produces (sample_fs h) 2"
    by (simp_all add: sample_fs_def produces_def) code_simp+
  moreover have "is_op (settle 1 (f_code (sample_fs h) ! 0)) OP_TESTSET" "GETARG_A (settle 1 (f_code (sample_fs h) ! 0)) = 1"
    by (simp_all add: sample_fs_def) code_simp+
  ultimately show "\<exists>fs'. patchlistaux K (sample_fs h) 2 0 1 4 = Inr fs' \<and> jump_dest fs' 1 = 0 \<and> jump_dest fs' 2 = 4 \<and>
     is_op (f_code fs' ! 0) OP_TESTSET \<and> GETARG_A (f_code fs' ! 0) = 1"
    using patchlistaux_correct [OF sample_lists(1) n, of 0 4 K 1] sample_jumps(2) by (auto simp: patched_def)
qed


end
