(* ===== verification/Lcode_const.thy ===== *)
theory Lcode_const
  imports Lcode_spec Lvm_ops
begin

text \<open>
  The constants of a function: \<open>addk\<close> gives one index to each value, and arithmetic on constants
  at compile time agrees with the virtual machine.
\<close>

section \<open>Constants\<close>

lemma index_of_cast_num: "int_range i \<Longrightarrow> cast_int (lua_number2integer (cast_num i)) = i"
proof -
  assume i: "int_range i"
  then have n: "\<bar>i\<bar> \<le> 2 ^ 31" by (auto simp: INT_MIN_def INT_MAX_def)
  have "lua_number2integer (cast_num i) = i"
    using cast_num_exp [of i] trunc_mag_cast_num [OF i] i n
    by (cases "i = 0") (auto simp: lua_number2integer_def Let_def INT_MIN_def INT_MAX_def)
  with i show ?thesis by (simp add: cast_int_def signed_of_int signed_take_bit_int_eq_self INT_MIN_def INT_MAX_def)
qed

lemma cast_num_index_inj:
  "int i \<le> MAXARG_Bx \<Longrightarrow> int j \<le> MAXARG_Bx \<Longrightarrow> cast_num (int i) = cast_num (int j) \<longleftrightarrow> i = j"
proof -
  assume "int i \<le> MAXARG_Bx" "int j \<le> MAXARG_Bx"
  then have "int_range (int i)" and "int_range (int j)" by (auto simp: INT_MIN_def INT_MAX_def)
  then have "cast_int (lua_number2integer (cast_num (int i))) = int i" "cast_int (lua_number2integer (cast_num (int j))) = int j"
    by (simp_all only: index_of_cast_num)
  then show ?thesis by (metis of_nat_eq_iff)
qed

lemma set_slot_id: "p \<noteq> NilObject \<Longrightarrow> set_slot t p (slot_val t p) = t"
  by (cases p) (simp_all add: set_slot_def slot_val_def)

lemma set_ok_slot:
  assumes "set_ok t key t' p" "valid_key key"
  shows "slot_val t' p = tget t key" "tget t' k = (if luaO_rawequalObj key k then tget t key else tget t k)"
proof -
  have p: "p \<noteq> NilObject" using assms(1) by (auto simp: set_ok_def slot_for_def)
  have k: "luaO_rawequalObj key key" using assms(2) by (auto simp: valid_key_def rawequalObj_refl_iff)
  show s: "slot_val t' p = tget t key"
    using set_ok_store(2) [OF assms, of "slot_val t' p" key] k assms(1) by (simp add: set_slot_id [OF p] set_ok_def)
  have "tget t' k = (if luaO_rawequalObj key k then slot_val t' p else tget t k)"
    using set_ok_store(2) [OF assms, of "slot_val t' p" k] by (simp only: set_slot_id [OF p])
  then show "tget t' k = (if luaO_rawequalObj key k then tget t key else tget t k)" by (simp only: s)
qed

lemma tget_raw_eq:
  assumes "wf_table t" "valid_key k" "live_count t < MAXASIZE" "luaO_rawequalObj k k'"
  shows "tget t k' = tget t k"
proof -
  from luaH_set_total [OF assms(1-3)] obtain L' t' p where "set_ok t k t' p" by blast
  then show ?thesis using set_ok_slot(2) [OF _ assms(2), of t t' p k'] assms(4) by (simp add: set_ok_def)
qed

text \<open>
  The value a key of \<open>fs->h\<close> stands for (nil has the table itself as its key), and the invariant of
  the table: a number in it is the index of that value in \<open>f->k\<close>.
\<close>

definition const_of :: "Table \<Rightarrow> TValue \<Rightarrow> TValue" where
  "const_of h k = (if k = TTable (t_self h) then TNil else k)"

definition consts_ok :: "FuncState \<Rightarrow> bool" where
  "consts_ok fs \<longleftrightarrow> wf_table (fs_h fs) \<and> int (length (f_k fs)) \<le> MAXARG_Bx \<and>
     (\<forall>k n. tget (fs_h fs) k = TNumber n \<longrightarrow>
        (\<exists>i<length (f_k fs). n = cast_num (int i) \<and> luaO_rawequalObj (f_k fs ! i) (const_of (fs_h fs) k)))"

lemma const_of_raw_eq: "luaO_rawequalObj k k' \<Longrightarrow> luaO_rawequalObj (const_of h k) (const_of h k')"
  by (auto simp: const_of_def rawequalObj_cases)

text \<open>A value that has an index keeps it, and the table of constants does not grow.\<close>

lemma addk_found:
  assumes "consts_ok fs" "valid_key k" "live_count (fs_h fs) < MAXASIZE" "tget (fs_h fs) k = TNumber n"
  shows "\<exists>i fs'. addk fs k v = Inr (int i, fs') \<and> consts_ok fs' \<and> f_k fs' = f_k fs \<and> i < length (f_k fs) \<and>
    luaO_rawequalObj (f_k fs ! i) (const_of (fs_h fs) k) \<and> n = cast_num (int i) \<and>
    tget (fs_h fs') = tget (fs_h fs) \<and> live_count (fs_h fs') \<le> live_count (fs_h fs) + 1 \<and> t_self (fs_h fs') = t_self (fs_h fs)"
proof -
  have wf: "wf_table (fs_h fs)" using assms(1) by (simp add: consts_ok_def)
  obtain g h p where s: "luaH_set (fs_L fs) (fs_h fs) k = Inr (g, h, p)" "set_ok (fs_h fs) k h p"
    using luaH_set_total [OF wf assms(2,3), of "fs_L fs"] by blast
  have h: "wf_table h" "tget h = tget (fs_h fs)" "t_self h = t_self (fs_h fs)" using s(2) by (simp_all add: set_ok_def)
  obtain i where i: "i < length (f_k fs)" "n = cast_num (int i)" "luaO_rawequalObj (f_k fs ! i) (const_of (fs_h fs) k)"
    using assms(1,4) unfolding consts_ok_def by blast
  have "int_range (int i)" using i(1) assms(1) by (simp add: consts_ok_def INT_MIN_def INT_MAX_def)
  then have "addk fs k v = Inr (int i, fs\<lparr>fs_L := g, fs_h := h\<rparr>)"
    using s(1) set_ok_slot(1) [OF s(2) assms(2)] assms(4) i(2) by (simp add: addk_def index_of_cast_num)
  moreover have "consts_ok (fs\<lparr>fs_L := g, fs_h := h\<rparr>)"
    using assms(1) h by (simp add: consts_ok_def const_of_def)
  moreover have "live_count h \<le> live_count (fs_h fs) + 1"
    by (rule live_count_store [OF wf h(1) assms(2)]) (rule set_ok_slot(2) [OF s(2) assms(2)])
  ultimately show ?thesis using i h by auto
qed

lemma addk_new:
  assumes "consts_ok fs" "valid_key k" "live_count (fs_h fs) < MAXASIZE" "\<And>n. tget (fs_h fs) k \<noteq> TNumber n"
    "int (length (f_k fs)) < MAXARG_Bx" "v = const_of (fs_h fs) k"
  shows "\<exists>fs'. addk fs k v = Inr (int (length (f_k fs)), fs') \<and> consts_ok fs' \<and> f_k fs' = f_k fs @ [v] \<and>
    (\<forall>k'. luaO_rawequalObj k k' \<longrightarrow> tget (fs_h fs') k' = TNumber (cast_num (int (length (f_k fs))))) \<and> live_count (fs_h fs') \<le> live_count (fs_h fs) + 1 \<and>
    t_self (fs_h fs') = t_self (fs_h fs)"
proof -
  let ?n = "length (f_k fs)"
  have wf: "wf_table (fs_h fs)" using assms(1) by (simp add: consts_ok_def)
  obtain g h p where s: "luaH_set (fs_L fs) (fs_h fs) k = Inr (g, h, p)" "set_ok (fs_h fs) k h p"
    using luaH_set_total [OF wf assms(2,3), of "fs_L fs"] by blast
  define h' where "h' = set_slot h p (TNumber (cast_num (int ?n)))"
  note st = set_ok_store [OF s(2) assms(2), of "TNumber (cast_num (int ?n))", folded h'_def]
  have self: "t_self h' = t_self (fs_h fs)"
    using s(2) by (cases p) (simp_all add: h'_def set_slot_def set_ok_def)
  have c: "const_of h' k' = const_of (fs_h fs) k'" for k' by (simp add: const_of_def self)
  define fs' where "fs' = fs\<lparr>fs_L := g, fs_h := h', f_k := f_k fs @ [v]\<rparr>"
  have "addk fs k v = Inr (int ?n, fs')"
    using s(1) set_ok_slot(1) [OF s(2) assms(2)] assms(5)
    by (cases "tget (fs_h fs) k") (auto dest: assms(4) [THEN notE] simp: addk_def grow_def Let_def fs'_def h'_def)
  moreover have "consts_ok fs'"
    unfolding consts_ok_def
  proof (intro conjI allI impI)
    show "wf_table (fs_h fs')" using st(1) by (simp add: fs'_def)
    show "int (length (f_k fs')) \<le> MAXARG_Bx" using assms(5) by (simp add: fs'_def)
    fix k' n assume n: "tget (fs_h fs') k' = TNumber n"
    show "\<exists>i<length (f_k fs'). n = cast_num (int i) \<and> luaO_rawequalObj (f_k fs' ! i) (const_of (fs_h fs') k')"
    proof (cases "luaO_rawequalObj k k'")
      case True
      then have "n = cast_num (int ?n)" using n st(2) [of k'] by (simp add: fs'_def)
      with True const_of_raw_eq [of k k' "fs_h fs"] assms(6) show ?thesis by (intro exI [of _ ?n]) (simp add: fs'_def c)
    next
      case False
      then have "tget (fs_h fs) k' = TNumber n" using n st(2) [of k'] by (simp add: fs'_def)
      then obtain i where "i < ?n" "n = cast_num (int i)" "luaO_rawequalObj (f_k fs ! i) (const_of (fs_h fs) k')"
        using assms(1) unfolding consts_ok_def by blast
      then show ?thesis by (intro exI [of _ i]) (simp add: fs'_def c nth_append)
    qed
  qed
  moreover have "live_count h' \<le> live_count (fs_h fs) + 1"
    by (rule live_count_store [OF wf st(1) assms(2) st(2)])
  ultimately show ?thesis using st(2) self by (intro exI [of _ fs']) (simp add: fs'_def)
qed

text \<open>
  Claim C27. A constant gets an index that holds it: for nil, a boolean, a number or a string, \<open>addk\<close>
  always returns, the index it gives is that of a raw-equal constant, at most that one constant is
  added, the table of constants stays consistent, and asking again, for it or for any raw-equal
  value, gives the same index and adds nothing.
\<close>

theorem addk_correct:
  assumes "consts_ok fs" "valid_key k" "live_count (fs_h fs) + 1 < MAXASIZE" "int (length (f_k fs)) < MAXARG_Bx"
    "v = const_of (fs_h fs) k"
  shows "\<exists>i fs' new. addk fs k v = Inr (int i, fs') \<and> consts_ok fs' \<and> i < length (f_k fs') \<and>
    luaO_rawequalObj (f_k fs' ! i) v \<and> f_k fs' = f_k fs @ new \<and> set new \<subseteq> {v} \<and> length new \<le> 1 \<and>
    (\<forall>k' v'. luaO_rawequalObj k k' \<and> valid_key k' \<longrightarrow>
       (\<exists>fs''. addk fs' k' v' = Inr (int i, fs'') \<and> consts_ok fs'' \<and> f_k fs'' = f_k fs'))"
proof -
  have again: "\<exists>fs''. addk fs' k' v' = Inr (int i, fs'') \<and> consts_ok fs'' \<and> f_k fs'' = f_k fs'"
    if "consts_ok fs'" "tget (fs_h fs') k' = TNumber (cast_num (int i))" "i < length (f_k fs')"
      "live_count (fs_h fs') \<le> live_count (fs_h fs) + 1" "valid_key k'" for fs' i k' v'
  proof -
    have "live_count (fs_h fs') < MAXASIZE" using that(4) assms(3) by simp
    from addk_found [OF that(1,5) this that(2), of v'] obtain j fs'' where
      "addk fs' k' v' = Inr (int j, fs'')" "consts_ok fs''" "f_k fs'' = f_k fs'" "j < length (f_k fs')"
      "cast_num (int i) = cast_num (int j)" by blast
    moreover from this have "i = j" using cast_num_index_inj [of i j] that(1,3) by (simp add: consts_ok_def)
    ultimately show ?thesis by blast
  qed
  have lc: "live_count (fs_h fs) < MAXASIZE" using assms(3) by simp
  show ?thesis
  proof (cases "\<exists>n. tget (fs_h fs) k = TNumber n")
    case True
    then obtain n where n: "tget (fs_h fs) k = TNumber n" by blast
    have eq: "tget (fs_h fs) k' = TNumber n" if "luaO_rawequalObj k k'" for k'
      using tget_raw_eq [OF _ assms(2) lc that] assms(1) n by (simp add: consts_ok_def)
    from addk_found [OF assms(1,2) lc n, of v] obtain i fs' where
      a: "addk fs k v = Inr (int i, fs')" "consts_ok fs'" "f_k fs' = f_k fs" "i < length (f_k fs)"
      "luaO_rawequalObj (f_k fs ! i) (const_of (fs_h fs) k)" "n = cast_num (int i)" "tget (fs_h fs') = tget (fs_h fs)"
      "live_count (fs_h fs') \<le> live_count (fs_h fs) + 1" by blast
    with again [of fs' _ i] eq assms(5) show ?thesis by (intro exI [of _ i] exI [of _ fs'] exI [of _ "[]"]) simp
  next
    case False
    then have "\<And>n. tget (fs_h fs) k \<noteq> TNumber n" by blast
    from addk_new [OF assms(1,2) lc this assms(4,5)] obtain fs' where
      a: "addk fs k v = Inr (int (length (f_k fs)), fs')" "consts_ok fs'" "f_k fs' = f_k fs @ [v]"
      "\<forall>k'. luaO_rawequalObj k k' \<longrightarrow> tget (fs_h fs') k' = TNumber (cast_num (int (length (f_k fs))))"
      "live_count (fs_h fs') \<le> live_count (fs_h fs) + 1" by blast
    moreover have "luaO_rawequalObj v v"
      using assms(2,5) by (auto simp: const_of_def valid_key_def rawequalObj_refl_iff)
    ultimately show ?thesis using again [of fs' _ "length (f_k fs)"]
      by (intro exI [of _ "length (f_k fs)"] exI [of _ fs'] exI [of _ "[v]"]) simp
  qed
qed

text \<open>
  Raw equality is what tells constants apart, and it does not tell the two zeros apart:
  once a function has the constant 0, the constant \<open>-0\<close> gets its index, and the instructions that
  use it find the positive zero.
\<close>

theorem constant_zeros_merge:
  assumes "consts_ok fs" "live_count (fs_h fs) + 1 < MAXASIZE" "int (length (f_k fs)) < MAXARG_Bx"
    "tget (fs_h fs) (TNumber 0) = TNil"
  shows "\<exists>i fs' fs''. luaK_numberK fs 0 = Inr (int i, fs') \<and> luaK_numberK fs' (luai_numunm 0) = Inr (int i, fs'') \<and>
    f_k fs'' ! i = TNumber 0 \<and> luai_numunm 0 \<noteq> 0"
proof -
  have z: "luaO_rawequalObj (TNumber 0) (TNumber (luai_numunm 0))" "luai_numunm 0 \<noteq> 0"
    "valid_key (TNumber 0)" "valid_key (TNumber (luai_numunm 0))"
    by (simp_all add: valid_key_def mk_dbl_def luai_numunm_def luai_numeq_def dbl_isnan_def dbl_iszero_def dbl_exp_def dbl_frac_def)
  have lc: "live_count (fs_h fs) < MAXASIZE" using assms(2) by simp
  have n: "\<And>n. tget (fs_h fs) (TNumber 0) \<noteq> TNumber n" using assms(4) by simp
  from addk_new [OF assms(1) z(3) lc n assms(3), of "TNumber 0"] obtain fs' where
    a: "addk fs (TNumber 0) (TNumber 0) = Inr (int (length (f_k fs)), fs')" "consts_ok fs'" "f_k fs' = f_k fs @ [TNumber 0]"
    "tget (fs_h fs') (TNumber (luai_numunm 0)) = TNumber (cast_num (int (length (f_k fs))))"
    "live_count (fs_h fs') \<le> live_count (fs_h fs) + 1"
    using z(1) by (auto simp: const_of_def)
  have "live_count (fs_h fs') < MAXASIZE" using a(5) assms(2) by simp
  from addk_found [OF a(2) z(4) this a(4), of "TNumber (luai_numunm 0)"] obtain j fs'' where
    "addk fs' (TNumber (luai_numunm 0)) (TNumber (luai_numunm 0)) = Inr (int j, fs'')" "f_k fs'' = f_k fs'" "j < length (f_k fs')"
    "cast_num (int (length (f_k fs))) = cast_num (int j)" by blast
  moreover from this have "length (f_k fs) = j"
    using cast_num_index_inj [of "length (f_k fs)" j] assms(3) a(2) by (simp add: consts_ok_def)
  ultimately show ?thesis using a(1,3) z(2) by (auto simp: luaK_numberK_def)
qed

section \<open>Arithmetic at compile time\<close>

text \<open>The tag method event of an arithmetic instruction.\<close>

definition arith_event :: "OpCode \<Rightarrow> TMS option" where
  "arith_event m = (case m of OP_ADD \<Rightarrow> Some TM_ADD | OP_SUB \<Rightarrow> Some TM_SUB | OP_MUL \<Rightarrow> Some TM_MUL
     | OP_DIV \<Rightarrow> Some TM_DIV | OP_MOD \<Rightarrow> Some TM_MOD | OP_POW \<Rightarrow> Some TM_POW | OP_UNM \<Rightarrow> Some TM_UNM | _ \<Rightarrow> None)"

text \<open>
  Claim C28. Constant folding is what the virtual machine would compute: an arithmetic instruction is
  folded exactly when both operands are numerals, it is no division or remainder by zero, and the
  machine's result for those operands is not NaN; the folded value is that result.
\<close>

theorem constfolding_correct:
  "arith_event m = Some tm \<Longrightarrow>
   constfolding C m e1 e2 = Some r \<longleftrightarrow>
     isnumeral e1 \<and> isnumeral e2 \<and> (m = OP_DIV \<or> m = OP_MOD \<longrightarrow> \<not> luai_numeq (e_nval e2) 0) \<and>
     arith_number C tm (e_nval e1) (e_nval e2) = Some r \<and> \<not> luai_numisnan r"
  by (cases m) (auto simp: arith_event_def constfolding_def Let_def)

section \<open>An example\<close>

lemma sample_consts:
  "\<exists>h. luaH_new 8 0 0 = Inr h \<and> consts_ok (sample_fs h) \<and> live_count (fs_h (sample_fs h)) + 1 < MAXASIZE \<and>
     int (length (f_k (sample_fs h))) < MAXARG_Bx \<and> tget h = (\<lambda>k. TNil) \<and> t_self h = 8"
proof -
  obtain h where h: "luaH_new 8 0 0 = Inr h" "wf_table h" "tget h = (\<lambda>k. TNil)"
    using luaH_new_total [of 0 0 8] by (auto simp: MAXASIZE_def MAXBITS_def)
  then have "live_count h + 1 < MAXASIZE" "t_self h = 8"
    by (auto simp: luaH_new_def setarrayvector_def setnodevector_def live_count_def live_slots_def MAXASIZE_def MAXBITS_def)
  with h show ?thesis by (auto simp: consts_ok_def sample_fs_def)
qed

theorem addk_correct_witness:
  "\<exists>h i fs'. luaH_new 8 0 0 = Inr h \<and> addk (sample_fs h) (TStr ''x'') (TStr ''x'') = Inr (int i, fs') \<and> f_k fs' ! i = TStr ''x''"
proof -
  obtain h where h: "luaH_new 8 0 0 = Inr h" "consts_ok (sample_fs h)" "live_count (fs_h (sample_fs h)) + 1 < MAXASIZE"
    "int (length (f_k (sample_fs h))) < MAXARG_Bx"
    using sample_consts by blast
  then show ?thesis
    using addk_correct [OF h(2) _ h(3,4), of "TStr ''x''" "TStr ''x''"] by (auto simp: valid_key_def const_of_def rawequalObj_cases)
qed

theorem constant_zeros_merge_witness:
  "\<exists>h i fs' fs''. luaH_new 8 0 0 = Inr h \<and> luaK_numberK (sample_fs h) 0 = Inr (int i, fs') \<and>
     luaK_numberK fs' (luai_numunm 0) = Inr (int i, fs'') \<and> f_k fs'' ! i = TNumber 0"
proof -
  obtain h where h: "luaH_new 8 0 0 = Inr h" "consts_ok (sample_fs h)" "live_count (fs_h (sample_fs h)) + 1 < MAXASIZE"
    "int (length (f_k (sample_fs h))) < MAXARG_Bx" "tget h = (\<lambda>k. TNil)"
    using sample_consts by blast
  then have "tget (fs_h (sample_fs h)) (TNumber 0) = TNil" by (simp add: sample_fs_def)
  with h(1) constant_zeros_merge [OF h(2-4)] show ?thesis by blast
qed

definition numeral_exp :: "lua_Number \<Rightarrow> expdesc" where
  "numeral_exp n = \<lparr>e_k = VKNUM, e_info = 0, e_aux = 0, e_nval = n, e_t = NO_JUMP, e_f = NO_JUMP\<rparr>"

theorem constfolding_correct_witness:
  "\<forall>C. constfolding C OP_UNM (numeral_exp 4611686018427387904) (numeral_exp 0) = Some (luai_numunm 4611686018427387904) \<and>
     (\<forall>r. constfolding C OP_DIV (numeral_exp 4611686018427387904) (numeral_exp 0) \<noteq> Some r)"
proof (intro allI conjI)
  fix C r
  have "\<not> luai_numisnan (luai_numunm 4611686018427387904)"
    by (simp add: luai_numisnan_def luai_numunm_def mk_dbl_def luai_numeq_def dbl_isnan_def dbl_exp_def dbl_frac_def)
  then show "constfolding C OP_UNM (numeral_exp 4611686018427387904) (numeral_exp 0) = Some (luai_numunm 4611686018427387904)"
    using constfolding_correct [of OP_UNM TM_UNM C "numeral_exp 4611686018427387904" "numeral_exp 0"]
    by (simp add: arith_event_def numeral_exp_def isnumeral_def)
  have "luai_numeq 0 0" by (simp add: luai_numeq_def dbl_isnan_def dbl_exp_def dbl_frac_def)
  then show "constfolding C OP_DIV (numeral_exp 4611686018427387904) (numeral_exp 0) \<noteq> Some r"
    using constfolding_correct [of OP_DIV TM_DIV C "numeral_exp 4611686018427387904" "numeral_exp 0"]
    by (simp add: arith_event_def numeral_exp_def)
qed

end
