(* ===== verification/Lgcstate.thy ===== *)
theory Lgcstate
  imports Llex Ldo
begin

text \<open>
  The collector's view of the state: \<open>global_State\<close> and \<open>lua_State\<close> of lstate.h, the collectable
  objects of lobject.h with the fields the collector reads, and the bit macros of lgc.h.

  Every object has an address, except that a string, which is interned, is named by its
  contents. The lists the objects form through their \<open>next\<close> and \<open>gclist\<close> fields are lists of objects:
  \<open>g_rootgc\<close>, the buckets of the string table, the open upvalues of a thread, the
  gray lists, the circular list \<open>tmudata\<close> (from its first element to \<open>g->tmudata\<close>, the last) and the list
  of all open upvalues behind \<open>uvhead\<close>. A pointer to a link of a list (\<open>GCObject **\<close>) is
  the object before that link, or \<open>None\<close> for the head.
\<close>

subsection \<open>Objects\<close>

text \<open>The place an upvalue points to: a stack slot of a thread, or its own value.\<close>

datatype upval_place = OnStack addr nat | Own TValue

record gc_proto =
  gp_source :: "TString option"
  gp_k :: "TValue list"
  gp_upvalues :: "TString option list"
  gp_p :: "addr option list"
  gp_locvars :: "TString option list"
  gp_sizecode :: nat
  gp_sizelineinfo :: nat

text \<open>\<open>gt_ci_tops\<close>: the \<open>top\<close> of every call entry from \<open>base_ci\<close> to \<open>ci\<close>.\<close>

record gc_thread =
  gt_stack :: "TValue list"
  gt_top :: nat
  gt_ci_tops :: "nat list"
  gt_size_ci :: nat
  gt_gt :: TValue
  gt_openupval :: "addr list"

datatype gc_body =
    OTable Table
  | OUserdata "addr option" addr nat
  | OUpval upval_place
  | OLclosure addr addr "addr option list"
  | OCclosure addr "TValue list"
  | OProto gc_proto
  | OThread gc_thread

datatype gc_state = GCSpause | GCSpropagate | GCSsweepstring | GCSsweep | GCSfinalize

type_synonym lu_mem = "64 word"

record collector = gc_core +
  g_obj :: "addr \<Rightarrow> gc_body option"
  g_strt :: "TString list list"
  g_nuse :: "32 word"
  g_currentwhite :: lu_byte
  g_gcstate :: gc_state
  g_sweepstrgc :: nat
  g_rootgc :: "GCObject list"
  g_sweepgc :: "GCObject option"
  g_gray :: "GCObject list"
  g_weak :: "GCObject list"
  g_tmudata :: "GCObject list"
  g_buff :: Mbuffer
  g_GCthreshold :: lu_mem
  g_totalbytes :: lu_mem
  g_estimate :: lu_mem
  g_gcdept :: lu_mem
  g_gcpause :: int
  g_gcstepmul :: int
  g_registry :: TValue
  g_mainthread :: addr
  g_uvhead :: "addr list"
  g_mt :: "addr option list"

text \<open>
  The sizes of the C types, and the call of a finalizer (\<open>luaD_call\<close> of the value and the userdata
  pushed by \<open>GCTM\<close>), which runs the virtual machine.
\<close>

record gc_env =
  sz_TString :: nat
  sz_Udata :: nat
  sz_CClosure :: nat
  sz_LClosure :: nat
  sz_TValue :: nat
  sz_Table :: nat
  sz_Node :: nat
  sz_UpVal :: nat
  sz_Proto :: nat
  sz_Instruction :: nat
  sz_pointer :: nat
  sz_int :: nat
  sz_LocVar :: nat
  sz_thread :: nat
  sz_CallInfo :: nat
  sz_LG :: nat
  gc_call :: "TValue \<Rightarrow> addr \<Rightarrow> collector \<Rightarrow> collector result"

definition sizestring :: "gc_env \<Rightarrow> TString \<Rightarrow> int" where
  "sizestring V s = int (sz_TString V + (length s + 1))"

definition sizeudata :: "gc_env \<Rightarrow> nat \<Rightarrow> int" where
  "sizeudata V len = int (sz_Udata V + len)"

definition sizeCclosure :: "gc_env \<Rightarrow> nat \<Rightarrow> int" where
  "sizeCclosure V n = int (sz_CClosure V) + int (sz_TValue V) * (int n - 1)"

definition sizeLclosure :: "gc_env \<Rightarrow> nat \<Rightarrow> int" where
  "sizeLclosure V n = int (sz_LClosure V) + int (sz_pointer V) * (int n - 1)"

subsection \<open>Memory\<close>

text \<open>\<open>luaM_realloc_\<close> with an allocator that does not fail: what is left is the account.\<close>

definition luaM_realloc :: "int \<Rightarrow> int \<Rightarrow> collector \<Rightarrow> collector" where
  "luaM_realloc osize nsize g = g\<lparr>g_totalbytes := (g_totalbytes g - word_of_int osize) + word_of_int nsize\<rparr>"

definition MINSIZEARRAY :: int where "MINSIZEARRAY = 4"

definition luaM_growaux :: "int \<Rightarrow> int \<Rightarrow> string \<Rightarrow> int result" where
  "luaM_growaux sz limit errormsg =
     (if sz \<ge> limit div 2 then
        if sz \<ge> limit then Inl (RunError errormsg) else Inr limit
      else
        let newsize = sz * 2 in Inr (if newsize < MINSIZEARRAY then MINSIZEARRAY else newsize))"

definition luaM_toobig :: "'a result" where
  "luaM_toobig = Inl (RunError ''memory allocation error: block too big'')"

subsection \<open>Marks\<close>

definition FINALIZEDBIT :: nat where "FINALIZEDBIT = 3"
definition KEYWEAKBIT :: nat where "KEYWEAKBIT = 3"
definition VALUEWEAKBIT :: nat where "VALUEWEAKBIT = 4"
definition FIXEDBIT :: nat where "FIXEDBIT = 5"
definition SFIXEDBIT :: nat where "SFIXEDBIT = 6"

definition testbit :: "lu_byte \<Rightarrow> nat \<Rightarrow> bool" where
  "testbit x b \<longleftrightarrow> x AND bitmask b \<noteq> 0"

definition set_mark :: "GCObject \<Rightarrow> (lu_byte \<Rightarrow> lu_byte) \<Rightarrow> 'a gc_core_scheme \<Rightarrow> 'a gc_core_scheme" where
  "set_mark ob f g = g\<lparr>marked := (marked g)(ob := f (marked g ob))\<rparr>"

definition luaC_white :: "collector \<Rightarrow> lu_byte" where
  "luaC_white g = g_currentwhite g AND WHITEBITS"

definition otherwhite :: "collector \<Rightarrow> lu_byte" where
  "otherwhite g = g_currentwhite g XOR WHITEBITS"

definition isdead :: "collector \<Rightarrow> GCObject \<Rightarrow> bool" where
  "isdead g ob \<longleftrightarrow> marked g ob AND otherwhite g AND WHITEBITS \<noteq> 0"

definition maskmarks :: lu_byte where
  "maskmarks = NOT (bitmask BLACKBIT OR WHITEBITS)"

definition makewhite :: "GCObject \<Rightarrow> collector \<Rightarrow> collector" where
  "makewhite ob g = set_mark ob (\<lambda>m. m AND maskmarks OR luaC_white g) g"

definition changewhite :: "GCObject \<Rightarrow> collector \<Rightarrow> collector" where
  "changewhite ob = set_mark ob (\<lambda>m. m XOR WHITEBITS)"

definition white2gray :: "GCObject \<Rightarrow> collector \<Rightarrow> collector" where
  "white2gray ob = set_mark ob (\<lambda>m. m AND NOT WHITEBITS)"

definition gray2black :: "GCObject \<Rightarrow> collector \<Rightarrow> collector" where
  "gray2black ob = set_mark ob (\<lambda>m. m OR bitmask BLACKBIT)"

definition isfinalized :: "collector \<Rightarrow> GCObject \<Rightarrow> bool" where
  "isfinalized g u \<longleftrightarrow> testbit (marked g u) FINALIZEDBIT"

definition markfinalized :: "GCObject \<Rightarrow> collector \<Rightarrow> collector" where
  "markfinalized u = set_mark u (\<lambda>m. m OR bitmask FINALIZEDBIT)"

subsection \<open>Access to objects\<close>

definition string_bucket :: "collector \<Rightarrow> TString \<Rightarrow> nat" where
  "string_bucket g s = lmod (luaS_hash s) (length (g_strt g))"

fun allocated :: "collector \<Rightarrow> GCObject \<Rightarrow> bool" where
  "allocated g (GCString s) \<longleftrightarrow> s \<in> set (concat (g_strt g))"
| "allocated g (GCAddr a) \<longleftrightarrow> g_obj g a \<noteq> None"

definition body_at :: "collector \<Rightarrow> addr \<Rightarrow> gc_body result" where
  "body_at g a = (case g_obj g a of None \<Rightarrow> Inl MemoryFault | Some b \<Rightarrow> Inr b)"

definition gc_table :: "collector \<Rightarrow> addr \<Rightarrow> Table result" where
  "gc_table g a = (case g_obj g a of Some (OTable h) \<Rightarrow> Inr h | _ \<Rightarrow> Inl MemoryFault)"

definition gc_thread_at :: "collector \<Rightarrow> addr \<Rightarrow> gc_thread result" where
  "gc_thread_at g a = (case g_obj g a of Some (OThread th) \<Rightarrow> Inr th | _ \<Rightarrow> Inl MemoryFault)"

definition gc_upval_at :: "collector \<Rightarrow> addr \<Rightarrow> upval_place result" where
  "gc_upval_at g a = (case g_obj g a of Some (OUpval uv) \<Rightarrow> Inr uv | _ \<Rightarrow> Inl MemoryFault)"

definition set_body :: "addr \<Rightarrow> gc_body \<Rightarrow> collector \<Rightarrow> collector" where
  "set_body a b g = g\<lparr>g_obj := (g_obj g)(a \<mapsto> b)\<rparr>"

text \<open>\<open>*uv->v\<close>.\<close>

definition upval_content :: "collector \<Rightarrow> upval_place \<Rightarrow> TValue result" where
  "upval_content g uv = (case uv of
       Own v \<Rightarrow> Inr v
     | OnStack th i \<Rightarrow> bind_result (gc_thread_at g th) (\<lambda>t.
         if i < length (gt_stack t) then Inr (gt_stack t ! i) else Inl MemoryFault))"

definition gfasttm :: "collector \<Rightarrow> addr option \<Rightarrow> TMS \<Rightarrow> (TValue option \<times> collector) result" where
  "gfasttm g et event =
     (case et of None \<Rightarrow> Inr (None, g)
      | Some p \<Rightarrow> bind_result (gc_table g p) (\<lambda>t.
          if tm_absent t event then Inr (None, g)
          else bind_result (luaT_gettm t event) (\<lambda>(tm, t). Inr (tm, set_body p (OTable t) g))))"

subsection \<open>Lists of objects\<close>

datatype gclist = RootList | StringList nat | OpenList addr

definition list_of :: "collector \<Rightarrow> gclist \<Rightarrow> GCObject list result" where
  "list_of g l = (case l of
       RootList \<Rightarrow> Inr (g_rootgc g)
     | StringList i \<Rightarrow> if i < length (g_strt g) then Inr (map GCString (g_strt g ! i)) else Inl MemoryFault
     | OpenList th \<Rightarrow> bind_result (gc_thread_at g th) (\<lambda>t. Inr (map GCAddr (gt_openupval t))))"

text \<open>The object a link points to, and the list without it.\<close>

fun after :: "GCObject option \<Rightarrow> GCObject list \<Rightarrow> GCObject list" where
  "after None xs = xs"
| "after (Some p) xs = drop 1 (dropWhile (\<lambda>x. x \<noteq> p) xs)"

definition unlink :: "GCObject option \<Rightarrow> GCObject list \<Rightarrow> GCObject list" where
  "unlink p xs = take (length xs - length (after p xs)) xs @ drop 1 (after p xs)"

fun gc_string :: "GCObject \<Rightarrow> TString" where
  "gc_string (GCString s) = s"
| "gc_string (GCAddr a) = []"

fun gc_addr :: "GCObject \<Rightarrow> addr" where
  "gc_addr (GCAddr a) = a"
| "gc_addr (GCString s) = 0"

definition set_list :: "gclist \<Rightarrow> GCObject list \<Rightarrow> collector \<Rightarrow> collector result" where
  "set_list l xs g = (case l of
       RootList \<Rightarrow> Inr (g\<lparr>g_rootgc := xs\<rparr>)
     | StringList i \<Rightarrow> Inr (g\<lparr>g_strt := (g_strt g)[i := map gc_string xs]\<rparr>)
     | OpenList th \<Rightarrow> bind_result (gc_thread_at g th) (\<lambda>t.
         Inr (set_body th (OThread (t\<lparr>gt_openupval := map gc_addr xs\<rparr>)) g)))"

end
