(* ===== verification/Lstring.thy ===== *)
theory Lstring
  imports Lgcstate
begin

text \<open>
  lstring.h and lstring.c: the string table, a vector of buckets, and the strings and userdata it
  makes. A new string is found in the table when it is there, so that strings are equal exactly when their
  objects are: the reason why the other theories use the contents of a string for its
  address.
\<close>

subsection \<open>The table\<close>

text \<open>\<open>luaS_resize\<close>: every string goes to the head of its new bucket, in the order of the old table.\<close>

fun rehash_bucket :: "TString list \<Rightarrow> TString list list \<Rightarrow> TString list list" where
  "rehash_bucket [] newhash = newhash"
| "rehash_bucket (p # ps) newhash =
     (let h1 = lmod (luaS_hash p) (length newhash)
      in rehash_bucket ps (newhash[h1 := p # newhash ! h1]))"

fun rehash_table :: "TString list list \<Rightarrow> TString list list \<Rightarrow> TString list list" where
  "rehash_table [] newhash = newhash"
| "rehash_table (b # bs) newhash = rehash_table bs (rehash_bucket b newhash)"

definition luaS_resize :: "gc_env \<Rightarrow> nat \<Rightarrow> collector \<Rightarrow> collector" where
  "luaS_resize V newsize g =
     (if g_gcstate g = GCSsweepstring then g
      else let newhash = rehash_table (g_strt g) (replicate newsize []);
               oldsize = length (g_strt g) in
        luaM_realloc (int (oldsize * sz_pointer V)) 0
          (luaM_realloc 0 (int (newsize * sz_pointer V)) g)\<lparr>g_strt := newhash\<rparr>)"

subsection \<open>Strings\<close>

definition newlstr :: "gc_env \<Rightarrow> string \<Rightarrow> 32 word \<Rightarrow> collector \<Rightarrow> collector result" where
  "newlstr V str h g =
     (if length str + 1 > MAX_SIZET - sz_TString V then luaM_toobig
      else
        let g = luaM_realloc 0 (sizestring V str) g;
            g = set_mark (GCString str) (\<lambda>_. luaC_white g) g;
            b = lmod h (length (g_strt g));
            g = g\<lparr>g_strt := (g_strt g)[b := str # g_strt g ! b], g_nuse := g_nuse g + 1\<rparr>;
            sz = length (g_strt g)
        in if g_nuse g > word_of_nat sz \<and> sz \<le> MAX_INT div 2 then Inr (luaS_resize V (sz * 2) g) else Inr g)"

text \<open>The string is found by its length and its bytes; a dead one comes back to life.\<close>

definition luaS_newlstr :: "gc_env \<Rightarrow> string \<Rightarrow> collector \<Rightarrow> collector result" where
  "luaS_newlstr V str g =
     (let h = luaS_hash str; b = lmod h (length (g_strt g)) in
      if b < length (g_strt g) then
        case find (\<lambda>ts. length ts = length str \<and> ts = str) (g_strt g ! b) of
          Some ts \<Rightarrow> Inr (if isdead g (GCString ts) then changewhite (GCString ts) g else g)
        | None \<Rightarrow> newlstr V str h g
      else Inl MemoryFault)"

definition luaS_fix :: "TString \<Rightarrow> collector \<Rightarrow> collector" where
  "luaS_fix s = set_mark (GCString s) (\<lambda>m. m OR bitmask FIXEDBIT)"

subsection \<open>Userdata\<close>

text \<open>\<open>u\<close>: the address the allocator gives. Userdata are linked after the main thread.\<close>

definition link_udata :: "addr \<Rightarrow> collector \<Rightarrow> collector" where
  "link_udata u g =
     (let before = takeWhile (\<lambda>x. x \<noteq> GCAddr (g_mainthread g)) (g_rootgc g) in
      g\<lparr>g_rootgc := before @ GCAddr (g_mainthread g) # GCAddr u # drop (length before + 1) (g_rootgc g)\<rparr>)"

definition luaS_newudata :: "gc_env \<Rightarrow> addr \<Rightarrow> nat \<Rightarrow> addr \<Rightarrow> collector \<Rightarrow> collector result" where
  "luaS_newudata V u s e g =
     (if s > MAX_SIZET - sz_Udata V then luaM_toobig
      else
        let g = luaM_realloc 0 (sizeudata V s) g;
            g = set_mark (GCAddr u) (\<lambda>_. luaC_white g) g
        in Inr (link_udata u (set_body u (OUserdata None e s) g)))"

end
