(* ===== verification/Lgc.thy ===== *)
theory Lgc
  imports Lstring
begin

text \<open>
  The garbage collector, lgc.c: marking, the atomic phase, sweeping, finalizers and barriers,
  with the parts of lfunc.c and lstate.c that take objects apart. The operations work on the
  \<open>collector\<close> state; an access to an object that is not allocated is a \<open>MemoryFault\<close>.
\<close>

definition GCSTEPSIZE :: nat where "GCSTEPSIZE = 1024"
definition GCSWEEPMAX :: nat where "GCSWEEPMAX = 40"
definition GCSWEEPCOST :: int where "GCSWEEPCOST = 10"
definition GCFINALIZECOST :: int where "GCFINALIZECOST = 100"

subsection \<open>Marking\<close>

text \<open>
  \<open>markobject\<close> and \<open>markvalue\<close>, with the marking function of the objects below. The
  recursion of \<open>reallymarkobject\<close> ends at a table, closure, thread or prototype, which goes to the gray
  list: an upvalue may lead to a userdata and that to two tables, so that three levels are enough.
\<close>

definition mark_white :: "(GCObject \<Rightarrow> collector \<Rightarrow> collector result) \<Rightarrow> GCObject \<Rightarrow> collector \<Rightarrow> collector result" where
  "mark_white really ob g =
     (if \<not> allocated g ob then Inl MemoryFault else if iswhite g ob then really ob g else Inr g)"

definition mark_white_value :: "(GCObject \<Rightarrow> collector \<Rightarrow> collector result) \<Rightarrow> TValue \<Rightarrow> collector \<Rightarrow> collector result" where
  "mark_white_value really v g = (case gcvalue v of None \<Rightarrow> Inr g | Some ob \<Rightarrow> mark_white really ob g)"

definition push_gray :: "GCObject \<Rightarrow> collector \<Rightarrow> collector" where
  "push_gray ob g = g\<lparr>g_gray := ob # g_gray g\<rparr>"

fun really_mark :: "nat \<Rightarrow> GCObject \<Rightarrow> collector \<Rightarrow> collector result" where
  "really_mark 0 ob g = Inl Diverges"
| "really_mark (Suc n) ob g =
     (case ob of
        GCString s \<Rightarrow> Inr (white2gray ob g)
      | GCAddr a \<Rightarrow> bind_result (body_at g a) (\<lambda>b.
          let g = white2gray ob g in
          case b of
            OUserdata mt env len \<Rightarrow>
              let g = gray2black ob g in
              bind_result (case mt of None \<Rightarrow> Inr g | Some t \<Rightarrow> mark_white (really_mark n) (GCAddr t) g) (\<lambda>g.
              mark_white (really_mark n) (GCAddr env) g)
          | OUpval uv \<Rightarrow>
              bind_result (upval_content g uv) (\<lambda>v.
              bind_result (mark_white_value (really_mark n) v g) (\<lambda>g.
              Inr (case uv of Own _ \<Rightarrow> gray2black ob g | OnStack _ _ \<Rightarrow> g)))
          | _ \<Rightarrow> Inr (push_gray ob g)))"

definition reallymarkobject :: "GCObject \<Rightarrow> collector \<Rightarrow> collector result" where
  "reallymarkobject = really_mark 3"

definition markobject :: "GCObject \<Rightarrow> collector \<Rightarrow> collector result" where
  "markobject = mark_white reallymarkobject"

definition markvalue :: "TValue \<Rightarrow> collector \<Rightarrow> collector result" where
  "markvalue = mark_white_value reallymarkobject"

text \<open>A pointer the code tests for null first, and a string it marks whatever its colour.\<close>

definition markobject_opt :: "addr option \<Rightarrow> collector \<Rightarrow> collector result" where
  "markobject_opt p g = (case p of None \<Rightarrow> Inr g | Some a \<Rightarrow> markobject (GCAddr a) g)"

definition stringmark :: "TString \<Rightarrow> collector \<Rightarrow> collector result" where
  "stringmark s g = (if allocated g (GCString s) then Inr (white2gray (GCString s) g) else Inl MemoryFault)"

definition stringmark_opt :: "TString option \<Rightarrow> collector \<Rightarrow> collector result" where
  "stringmark_opt p g = (case p of None \<Rightarrow> Inr g | Some s \<Rightarrow> stringmark s g)"

definition marktmu :: "collector \<Rightarrow> collector result" where
  "marktmu g = fold_result (\<lambda>u g. reallymarkobject u (makewhite u g)) (g_tmudata g) g"

text \<open>
  \<open>luaC_separateudata\<close> walks over the userdata, which follow the main thread in the list of all
  objects.
\<close>

fun separate_loop :: "gc_env \<Rightarrow> bool \<Rightarrow> GCObject list \<Rightarrow> collector \<Rightarrow> (int \<times> GCObject list \<times> collector) result" where
  "separate_loop V every [] g = Inr (0, [], g)"
| "separate_loop V every (cur # rest) g =
     (case cur of
        GCString s \<Rightarrow> Inl MemoryFault
      | GCAddr a \<Rightarrow> bind_result (body_at g a) (\<lambda>b. case b of
          OUserdata mt env len \<Rightarrow>
            if \<not> (iswhite g cur \<or> every) \<or> isfinalized g cur
            then bind_result (separate_loop V every rest g) (\<lambda>(m, kept, g). Inr (m, cur # kept, g))
            else bind_result (gfasttm g mt TM_GC) (\<lambda>(tm, g). case tm of
                None \<Rightarrow> bind_result (separate_loop V every rest (markfinalized cur g)) (\<lambda>(m, kept, g).
                  Inr (m, cur # kept, g))
              | Some _ \<Rightarrow>
                  let g = markfinalized cur g; g = g\<lparr>g_tmudata := g_tmudata g @ [cur]\<rparr>
                  in bind_result (separate_loop V every rest g) (\<lambda>(m, kept, g). Inr (sizeudata V len + m, kept, g)))
        | _ \<Rightarrow> Inl MemoryFault))"

definition luaC_separateudata :: "gc_env \<Rightarrow> bool \<Rightarrow> collector \<Rightarrow> (int \<times> collector) result" where
  "luaC_separateudata V every g =
     (let main = GCAddr (g_mainthread g); udata = after (Some main) (g_rootgc g);
          before = take (length (g_rootgc g) - length udata) (g_rootgc g) in
      bind_result (separate_loop V every udata g) (\<lambda>(deadmem, kept, g).
        Inr (deadmem, g\<lparr>g_rootgc := before @ kept\<rparr>)))"

subsection \<open>Traversals\<close>

definition key_object :: "TKey \<Rightarrow> GCObject option" where
  "key_object k = (case k of Key v \<Rightarrow> gcvalue v | DeadKey ob \<Rightarrow> Some ob)"

definition removeentry :: "Node \<Rightarrow> Node" where
  "removeentry n = (case key_object (i_key n) of None \<Rightarrow> n | Some ob \<Rightarrow> n\<lparr>i_key := DeadKey ob\<rparr>)"

definition mark_key :: "TKey \<Rightarrow> collector \<Rightarrow> collector result" where
  "mark_key k g = (case key_object k of None \<Rightarrow> Inr g | Some ob \<Rightarrow> markobject ob g)"

definition set_node :: "addr \<Rightarrow> nat \<Rightarrow> Node \<Rightarrow> collector \<Rightarrow> collector result" where
  "set_node a i n g = bind_result (gc_table g a) (\<lambda>h. Inr (set_body a (OTable (h\<lparr>node := (node h)[i := n]\<rparr>)) g))"

definition node_at :: "collector \<Rightarrow> addr \<Rightarrow> nat \<Rightarrow> Node result" where
  "node_at g a i = bind_result (gc_table g a) (\<lambda>h. if i < length (node h) then Inr (node h ! i) else Inl MemoryFault)"

definition array_at :: "collector \<Rightarrow> addr \<Rightarrow> nat \<Rightarrow> TValue result" where
  "array_at g a i = bind_result (gc_table g a) (\<lambda>h. if i < length (array h) then Inr (array h ! i) else Inl MemoryFault)"

definition traversenode :: "addr \<Rightarrow> bool \<Rightarrow> bool \<Rightarrow> nat \<Rightarrow> collector \<Rightarrow> collector result" where
  "traversenode a weakkey weakvalue i g =
     bind_result (node_at g a i) (\<lambda>n.
       if i_val n = TNil then set_node a i (removeentry n) g
       else bind_result (if \<not> weakkey then mark_key (i_key n) g else Inr g) (\<lambda>g.
         if \<not> weakvalue then markvalue (i_val n) g else Inr g))"

definition weak_mode :: "TValue option \<Rightarrow> bool \<times> bool" where
  "weak_mode mode = (case mode of
       Some (TStr s) \<Rightarrow> (CHR ''k'' \<in> set (c_str s), CHR ''v'' \<in> set (c_str s))
     | _ \<Rightarrow> (False, False))"

definition weak_bits :: "bool \<Rightarrow> bool \<Rightarrow> lu_byte \<Rightarrow> lu_byte" where
  "weak_bits weakkey weakvalue m =
     m AND NOT (bitmask KEYWEAKBIT OR bitmask VALUEWEAKBIT) OR
       (push_bit KEYWEAKBIT (of_bool weakkey) OR push_bit VALUEWEAKBIT (of_bool weakvalue))"

definition traversetable :: "addr \<Rightarrow> Table \<Rightarrow> collector \<Rightarrow> (bool \<times> collector) result" where
  "traversetable a h g =
     bind_result (markobject_opt (metatable h) g) (\<lambda>g.
     bind_result (gfasttm g (metatable h) TM_MODE) (\<lambda>(mode, g).
       let (weakkey, weakvalue) = weak_mode mode;
           g = (if weakkey \<or> weakvalue
                then (set_mark (GCAddr a) (weak_bits weakkey weakvalue) g)\<lparr>g_weak := GCAddr a # g_weak g\<rparr>
                else g) in
       if weakkey \<and> weakvalue then Inr (True, g)
       else
         bind_result
           (if \<not> weakvalue
            then fold_result (\<lambda>i g. bind_result (array_at g a i) (\<lambda>v. markvalue v g)) (rev [0..<sizearray h]) g
            else Inr g) (\<lambda>g.
         bind_result (fold_result (traversenode a weakkey weakvalue) (rev [0..<sizenode h]) g) (\<lambda>g.
           Inr (weakkey \<or> weakvalue, g)))))"

definition traverseproto :: "gc_proto \<Rightarrow> collector \<Rightarrow> collector result" where
  "traverseproto f g =
     bind_result (stringmark_opt (gp_source f) g) (\<lambda>g.
     bind_result (fold_result markvalue (gp_k f) g) (\<lambda>g.
     bind_result (fold_result stringmark_opt (gp_upvalues f) g) (\<lambda>g.
     bind_result (fold_result markobject_opt (gp_p f) g) (\<lambda>g.
     fold_result stringmark_opt (gp_locvars f) g))))"

text \<open>\<open>traverseclosure\<close>: a null upvalue would be a fault.\<close>

definition mark_upval :: "addr option \<Rightarrow> collector \<Rightarrow> collector result" where
  "mark_upval u g = (case u of None \<Rightarrow> Inl MemoryFault | Some a \<Rightarrow> markobject (GCAddr a) g)"

definition traverseCclosure :: "addr \<Rightarrow> TValue list \<Rightarrow> collector \<Rightarrow> collector result" where
  "traverseCclosure env upvalue g = bind_result (markobject (GCAddr env) g) (fold_result markvalue upvalue)"

definition traverseLclosure :: "addr \<Rightarrow> addr \<Rightarrow> addr option list \<Rightarrow> collector \<Rightarrow> collector result" where
  "traverseLclosure env p upvals g =
     bind_result (markobject (GCAddr env) g) (\<lambda>g.
     bind_result (markobject (GCAddr p) g) (fold_result mark_upval upvals))"

definition BASIC_CI_SIZE :: nat where "BASIC_CI_SIZE = 8"
definition BASIC_STACK_SIZE :: nat where "BASIC_STACK_SIZE = 2 * LUA_MINSTACK"

text \<open>\<open>luaD_reallocCI\<close> and \<open>luaD_reallocstack\<close>, which the collector only calls to make room smaller.\<close>

definition gc_reallocCI :: "gc_env \<Rightarrow> nat \<Rightarrow> gc_thread \<Rightarrow> collector \<Rightarrow> gc_thread \<times> collector" where
  "gc_reallocCI V newsize th g =
     (th\<lparr>gt_size_ci := newsize\<rparr>, luaM_realloc (int (gt_size_ci th * sz_CallInfo V)) (int (newsize * sz_CallInfo V)) g)"

definition gc_reallocstack :: "gc_env \<Rightarrow> nat \<Rightarrow> gc_thread \<Rightarrow> collector \<Rightarrow> gc_thread \<times> collector" where
  "gc_reallocstack V newsize th g =
     (let realsize = newsize + 1 + EXTRA_STACK; oldsize = length (gt_stack th) in
      (th\<lparr>gt_stack := take realsize (gt_stack th @ replicate (realsize - oldsize) TNil)\<rparr>,
       luaM_realloc (int (oldsize * sz_TValue V)) (int (realsize * sz_TValue V)) g))"

definition checkstacksizes :: "gc_env \<Rightarrow> nat \<Rightarrow> gc_thread \<Rightarrow> collector \<Rightarrow> gc_thread \<times> collector" where
  "checkstacksizes V s_used th g =
     (let ci_used = length (gt_ci_tops th) - 1 in
      if gt_size_ci th > LUAI_MAXCALLS then (th, g)
      else
        let (th, g) =
              (if 4 * ci_used < gt_size_ci th \<and> 2 * BASIC_CI_SIZE < gt_size_ci th
               then gc_reallocCI V (gt_size_ci th div 2) th g else (th, g))
        in if 4 * s_used < length (gt_stack th) \<and> 2 * (BASIC_STACK_SIZE + EXTRA_STACK) < length (gt_stack th)
           then gc_reallocstack V (length (gt_stack th) div 2) th g else (th, g))"

text \<open>\<open>traversestack\<close>: the live part of the stack is marked, the rest up to \<open>lim\<close> cleared.\<close>

definition traversestack :: "gc_env \<Rightarrow> addr \<Rightarrow> gc_thread \<Rightarrow> collector \<Rightarrow> collector result" where
  "traversestack V a th g =
     bind_result (markvalue (gt_gt th) g) (\<lambda>g.
       let lim = foldl max (gt_top th) (gt_ci_tops th) in
       if gt_top th > length (gt_stack th) \<or> lim \<ge> length (gt_stack th) then Inl MemoryFault
       else bind_result (fold_result markvalue (take (gt_top th) (gt_stack th)) g) (\<lambda>g.
         let th = th\<lparr>gt_stack := take (gt_top th) (gt_stack th) @ replicate (lim + 1 - gt_top th) TNil @
                      drop (lim + 1) (gt_stack th)\<rparr>;
             (th, g) = checkstacksizes V lim th g
         in Inr (set_body a (OThread th) g)))"

definition proto_size :: "gc_env \<Rightarrow> gc_proto \<Rightarrow> int" where
  "proto_size V p =
     int (sz_Proto V + sz_Instruction V * gp_sizecode p + sz_pointer V * length (gp_p p) + sz_TValue V * length (gp_k p) +
       sz_int V * gp_sizelineinfo p + sz_LocVar V * length (gp_locvars p) + sz_pointer V * length (gp_upvalues p))"

definition thread_size :: "gc_env \<Rightarrow> gc_thread \<Rightarrow> int" where
  "thread_size V th = int (sz_thread V + sz_TValue V * length (gt_stack th) + sz_CallInfo V * gt_size_ci th)"

text \<open>
  \<open>propagatemark\<close> returns the size of what it traversed: that of a thread after its stack
  was cut.
\<close>

definition propagatemark :: "gc_env \<Rightarrow> collector \<Rightarrow> (int \<times> collector) result" where
  "propagatemark V g =
     (case g_gray g of
        [] \<Rightarrow> Inl MemoryFault
      | ob # rest \<Rightarrow> bind_result (body_at g (gc_addr ob)) (\<lambda>b.
          let g = gray2black ob g; a = gc_addr ob in
          case b of
            OTable h \<Rightarrow>
              bind_result (traversetable a h (g\<lparr>g_gray := rest\<rparr>)) (\<lambda>(weak, g).
                Inr (int (sz_Table V + sz_TValue V * sizearray h + sz_Node V * sizenode h), if weak then black2gray g ob else g))
          | OLclosure env p upvals \<Rightarrow>
              bind_result (traverseLclosure env p upvals (g\<lparr>g_gray := rest\<rparr>)) (\<lambda>g. Inr (sizeLclosure V (length upvals), g))
          | OCclosure env upvalue \<Rightarrow>
              bind_result (traverseCclosure env upvalue (g\<lparr>g_gray := rest\<rparr>)) (\<lambda>g. Inr (sizeCclosure V (length upvalue), g))
          | OThread th \<Rightarrow>
              let g = black2gray (g\<lparr>g_gray := rest, grayagain := ob # grayagain g\<rparr>) ob in
              bind_result (traversestack V a th g) (\<lambda>g.
              bind_result (gc_thread_at g a) (\<lambda>th. Inr (thread_size V th, g)))
          | OProto p \<Rightarrow>
              bind_result (traverseproto p (g\<lparr>g_gray := rest\<rparr>)) (\<lambda>g. Inr (proto_size V p, g))
          | _ \<Rightarrow> Inr (0, g)))"

text \<open>Every object that is not on the gray list can get there once: as many steps are enough.\<close>

fun propagate_loop :: "nat \<Rightarrow> gc_env \<Rightarrow> collector \<Rightarrow> (int \<times> collector) result" where
  "propagate_loop 0 V g = (if g_gray g = [] then Inr (0, g) else Inl Diverges)"
| "propagate_loop (Suc n) V g =
     (if g_gray g = [] then Inr (0, g)
      else bind_result (propagatemark V g) (\<lambda>(m, g).
        bind_result (propagate_loop n V g) (\<lambda>(m', g). Inr (m + m', g))))"

definition propagateall :: "gc_env \<Rightarrow> collector \<Rightarrow> (int \<times> collector) result" where
  "propagateall V g = propagate_loop (length (g_gray g) + length (g_rootgc g)) V g"

subsection \<open>Weak tables\<close>

definition iscleared :: "TKey \<Rightarrow> bool \<Rightarrow> collector \<Rightarrow> (bool \<times> collector) result" where
  "iscleared k iskey g = (case key_object k of
       None \<Rightarrow> Inr (False, g)
     | Some ob \<Rightarrow>
         if \<not> allocated g ob then Inl MemoryFault
         else (case k of
             Key (TStr s) \<Rightarrow> bind_result (stringmark s g) (\<lambda>g. Inr (False, g))
           | Key (TUserdata u) \<Rightarrow> Inr (iswhite g ob \<or> \<not> iskey \<and> isfinalized g ob, g)
           | _ \<Rightarrow> Inr (iswhite g ob, g)))"

definition set_array :: "addr \<Rightarrow> nat \<Rightarrow> TValue \<Rightarrow> collector \<Rightarrow> collector result" where
  "set_array a i v g = bind_result (gc_table g a) (\<lambda>h. Inr (set_body a (OTable (h\<lparr>array := (array h)[i := v]\<rparr>)) g))"

definition clear_array :: "addr \<Rightarrow> nat \<Rightarrow> collector \<Rightarrow> collector result" where
  "clear_array a i g =
     bind_result (array_at g a i) (\<lambda>v. bind_result (iscleared (Key v) False g) (\<lambda>(c, g).
       if c then set_array a i TNil g else Inr g))"

definition clear_node :: "addr \<Rightarrow> nat \<Rightarrow> collector \<Rightarrow> collector result" where
  "clear_node a i g =
     bind_result (node_at g a i) (\<lambda>n.
       if i_val n = TNil then Inr g
       else bind_result (iscleared (i_key n) True g) (\<lambda>(c, g).
         bind_result (if c then Inr (True, g) else iscleared (Key (i_val n)) False g) (\<lambda>(c, g).
           if c then set_node a i (removeentry (n\<lparr>i_val := TNil\<rparr>)) g else Inr g)))"

definition clear_one :: "GCObject \<Rightarrow> collector \<Rightarrow> collector result" where
  "clear_one ob g =
     (let a = gc_addr ob in
      bind_result (gc_table g a) (\<lambda>h.
      bind_result
        (if testbit (marked g ob) VALUEWEAKBIT then fold_result (clear_array a) (rev [0..<sizearray h]) g else Inr g)
        (fold_result (clear_node a) (rev [0..<sizenode h]))))"

definition cleartable :: "GCObject list \<Rightarrow> collector \<Rightarrow> collector result" where
  "cleartable l g = fold_result clear_one l g"

subsection \<open>Barriers and new objects\<close>

definition luaC_barrierf :: "GCObject \<Rightarrow> GCObject \<Rightarrow> collector \<Rightarrow> collector result" where
  "luaC_barrierf ob v g = (if g_gcstate g = GCSpropagate then reallymarkobject v g else Inr (makewhite ob g))"

definition luaC_objbarrier :: "GCObject \<Rightarrow> GCObject \<Rightarrow> collector \<Rightarrow> collector result" where
  "luaC_objbarrier p ob g =
     (if \<not> allocated g ob then Inl MemoryFault
      else if iswhite g ob \<and> isblack g p then luaC_barrierf p ob g else Inr g)"

definition luaC_barrier :: "GCObject \<Rightarrow> TValue \<Rightarrow> collector \<Rightarrow> collector result" where
  "luaC_barrier p v g = (case gcvalue v of None \<Rightarrow> Inr g | Some ob \<Rightarrow> luaC_objbarrier p ob g)"

definition luaC_objbarriert :: "addr \<Rightarrow> GCObject \<Rightarrow> collector \<Rightarrow> collector" where
  "luaC_objbarriert t ob g = (if iswhite g ob \<and> isblack g (GCAddr t) then luaC_barrierback g t else g)"

definition luaC_link :: "GCObject \<Rightarrow> collector \<Rightarrow> collector" where
  "luaC_link ob g = set_mark ob (\<lambda>_. luaC_white g) (g\<lparr>g_rootgc := ob # g_rootgc g\<rparr>)"

definition luaC_linkupval :: "addr \<Rightarrow> TValue \<Rightarrow> collector \<Rightarrow> collector result" where
  "luaC_linkupval uv v g =
     (let ob = GCAddr uv; g = g\<lparr>g_rootgc := ob # g_rootgc g\<rparr> in
      if isgray g ob then
        if g_gcstate g = GCSpropagate then luaC_barrier ob v (gray2black ob g) else Inr (makewhite ob g)
      else Inr g)"

text \<open>A new object: its memory, its place in the list of all objects, its contents.\<close>

definition new_object :: "addr \<Rightarrow> gc_body \<Rightarrow> int \<Rightarrow> collector \<Rightarrow> collector" where
  "new_object a b sz g = set_body a b (luaC_link (GCAddr a) (luaM_realloc 0 sz g))"

subsection \<open>Upvalues and threads\<close>

definition free_object :: "addr \<Rightarrow> int \<Rightarrow> collector \<Rightarrow> collector" where
  "free_object a sz g = luaM_realloc sz 0 (g\<lparr>g_obj := (g_obj g)(a := None)\<rparr>)"

definition unlinkupval :: "addr \<Rightarrow> collector \<Rightarrow> collector" where
  "unlinkupval u g = g\<lparr>g_uvhead := remove1 u (g_uvhead g)\<rparr>"

definition luaF_freeupval :: "gc_env \<Rightarrow> addr \<Rightarrow> collector \<Rightarrow> collector result" where
  "luaF_freeupval V u g =
     bind_result (gc_upval_at g u) (\<lambda>uv.
       let g = (case uv of OnStack _ _ \<Rightarrow> unlinkupval u g | Own _ \<Rightarrow> g)
       in Inr (free_object u (int (sz_UpVal V)) g))"

definition set_openupval :: "addr \<Rightarrow> addr list \<Rightarrow> collector \<Rightarrow> collector result" where
  "set_openupval a us g =
     bind_result (gc_thread_at g a) (\<lambda>th. Inr (set_body a (OThread (th\<lparr>gt_openupval := us\<rparr>)) g))"

text \<open>\<open>luaF_close\<close> with what it does to the objects themselves.\<close>

definition close_upval :: "gc_env \<Rightarrow> addr \<Rightarrow> upval_place \<Rightarrow> collector \<Rightarrow> collector result" where
  "close_upval V u uv g =
     (if isdead g (GCAddr u) then luaF_freeupval V u g
      else
        let g = unlinkupval u g in
        bind_result (upval_content g uv) (\<lambda>v. luaC_linkupval u v (set_body u (OUpval (Own v)) g)))"

fun gc_close_loop :: "gc_env \<Rightarrow> addr \<Rightarrow> nat \<Rightarrow> addr list \<Rightarrow> collector \<Rightarrow> collector result" where
  "gc_close_loop V th bottom [] g = Inr g"
| "gc_close_loop V th bottom (u # us) g =
     bind_result (gc_upval_at g u) (\<lambda>uv. case uv of
       Own _ \<Rightarrow> Inl MemoryFault
     | OnStack t i \<Rightarrow>
         if i < bottom then Inr g
         else bind_result (set_openupval th us g) (\<lambda>g.
           bind_result (close_upval V u uv g) (gc_close_loop V th bottom us)))"

definition gc_close :: "gc_env \<Rightarrow> addr \<Rightarrow> nat \<Rightarrow> collector \<Rightarrow> collector result" where
  "gc_close V a bottom g =
     bind_result (gc_thread_at g a) (\<lambda>th. gc_close_loop V a bottom (gt_openupval th) g)"

definition freestack :: "gc_env \<Rightarrow> gc_thread \<Rightarrow> collector \<Rightarrow> collector" where
  "freestack V th g =
     luaM_realloc (int (length (gt_stack th) * sz_TValue V)) 0
       (luaM_realloc (int (gt_size_ci th * sz_CallInfo V)) 0 g)"

definition luaE_freethread :: "gc_env \<Rightarrow> addr \<Rightarrow> collector \<Rightarrow> collector result" where
  "luaE_freethread V a g =
     bind_result (gc_close V a 0 g) (\<lambda>g.
     bind_result (gc_thread_at g a) (\<lambda>th. Inr (free_object a (int (sz_thread V)) (freestack V th g))))"

subsection \<open>Sweeping\<close>

text \<open>\<open>luaH_free\<close>: the node vector belongs to the table unless it is \<open>dummynode\<close>.\<close>

definition table_size :: "gc_env \<Rightarrow> Table \<Rightarrow> int" where
  "table_size V h =
     int ((if isdummy h then 0 else sizenode h * sz_Node V) + sizearray h * sz_TValue V + sz_Table V)"

definition freeobj :: "gc_env \<Rightarrow> GCObject \<Rightarrow> collector \<Rightarrow> collector result" where
  "freeobj V ob g = (case ob of
       GCString s \<Rightarrow> Inr (luaM_realloc (sizestring V s) 0 (g\<lparr>g_nuse := g_nuse g - 1\<rparr>))
     | GCAddr a \<Rightarrow> bind_result (body_at g a) (\<lambda>b. case b of
         OProto p \<Rightarrow> Inr (free_object a (proto_size V p) g)
       | OLclosure env p upvals \<Rightarrow> Inr (free_object a (sizeLclosure V (length upvals)) g)
       | OCclosure env upvalue \<Rightarrow> Inr (free_object a (sizeCclosure V (length upvalue)) g)
       | OUpval uv \<Rightarrow> luaF_freeupval V a g
       | OTable h \<Rightarrow> Inr (free_object a (table_size V h) g)
       | OThread th \<Rightarrow> luaE_freethread V a g
       | OUserdata mt env len \<Rightarrow> Inr (free_object a (sizeudata V len) g)))"

definition MAX_LUMEM :: nat where "MAX_LUMEM = 2 ^ 64 - 3"

text \<open>The test of \<open>sweeplist\<close>: a fixed object has the bit of \<open>currentwhite\<close> that keeps it.\<close>

definition survives :: "collector \<Rightarrow> GCObject \<Rightarrow> bool" where
  "survives g ob \<longleftrightarrow> (marked g ob XOR WHITEBITS) AND otherwhite g \<noteq> 0"

definition is_thread :: "collector \<Rightarrow> GCObject \<Rightarrow> bool" where
  "is_thread g ob \<longleftrightarrow> (case ob of GCAddr a \<Rightarrow> (case g_obj g a of Some (OThread _) \<Rightarrow> True | _ \<Rightarrow> False) | _ \<Rightarrow> False)"

fun sweeplist :: "nat \<Rightarrow> gc_env \<Rightarrow> gclist \<Rightarrow> GCObject option \<Rightarrow> nat \<Rightarrow> collector \<Rightarrow> (GCObject option \<times> collector) result" where
  "sweeplist 0 V l p count g = Inl Diverges"
| "sweeplist (Suc n) V l p count g =
     bind_result (list_of g l) (\<lambda>xs.
       case after p xs of
         [] \<Rightarrow> Inr (p, g)
       | cur # _ \<Rightarrow>
           if count = 0 then Inr (p, g)
           else if \<not> allocated g cur then Inl MemoryFault
           else
             bind_result
               (if is_thread g cur then bind_result (sweeplist n V (OpenList (gc_addr cur)) None MAX_LUMEM g) (\<lambda>(_, g). Inr g)
                else Inr g) (\<lambda>g.
             if survives g cur then sweeplist n V l (Some cur) (count - 1) (makewhite cur g)
             else
               bind_result (set_list l (unlink p xs) g) (\<lambda>g.
               bind_result (freeobj V cur g) (\<lambda>g.
               sweeplist n V l p (count - 1) g))))"

text \<open>
  The steps a sweep can take: an object for each turn, a closed upvalue of a dead thread that was added to the list
  in front, the open upvalues of a thread.
\<close>

definition sweep_fuel :: "collector \<Rightarrow> nat" where
  "sweep_fuel g = length (concat (g_strt g)) + length (g_rootgc g) + 2 * length (g_uvhead g) + 2"

definition sweepwholelist :: "gc_env \<Rightarrow> gclist \<Rightarrow> collector \<Rightarrow> collector result" where
  "sweepwholelist V l g = bind_result (sweeplist (sweep_fuel g) V l None MAX_LUMEM g) (\<lambda>(_, g). Inr g)"

definition MINSTRTABSIZE :: nat where "MINSTRTABSIZE = 32"

definition checkSizes :: "gc_env \<Rightarrow> collector \<Rightarrow> collector" where
  "checkSizes V g =
     (let sz = length (g_strt g);
          g = (if g_nuse g < word_of_nat (sz div 4) \<and> sz > MINSTRTABSIZE * 2 then luaS_resize V (sz div 2) g else g);
          bsize = mb_buffsize (g_buff g)
      in if bsize > LUA_MINBUFFER * 2
         then (luaM_realloc (int bsize) (int (bsize div 2)) g)\<lparr>g_buff := luaZ_resizebuffer (g_buff g) (bsize div 2)\<rparr>
         else g)"

subsection \<open>Finalizers\<close>

definition GCTM :: "gc_env \<Rightarrow> collector \<Rightarrow> collector result" where
  "GCTM V g = (case g_tmudata g of
       [] \<Rightarrow> Inl MemoryFault
     | ob # rest \<Rightarrow>
         let u = gc_addr ob; g = link_udata u (g\<lparr>g_tmudata := rest\<rparr>); g = makewhite ob g in
         bind_result (body_at g u) (\<lambda>b. case b of
             OUserdata mt env len \<Rightarrow>
               bind_result (gfasttm g mt TM_GC) (\<lambda>(tm, g). case tm of
                 None \<Rightarrow> Inr g
               | Some tm \<Rightarrow>
                   let oldt = g_GCthreshold g; g = g\<lparr>g_GCthreshold := 2 * g_totalbytes g\<rparr> in
                   bind_result (gc_call V tm u g) (\<lambda>g. Inr (g\<lparr>g_GCthreshold := oldt\<rparr>)))
           | _ \<Rightarrow> Inl MemoryFault))"

fun luaC_callGCTM :: "nat \<Rightarrow> gc_env \<Rightarrow> collector \<Rightarrow> collector result" where
  "luaC_callGCTM 0 V g = Inl Diverges"
| "luaC_callGCTM (Suc n) V g =
     (if g_tmudata g = [] then Inr g else bind_result (GCTM V g) (luaC_callGCTM n V))"

definition luaC_freeall :: "gc_env \<Rightarrow> collector \<Rightarrow> collector result" where
  "luaC_freeall V g =
     (let g = g\<lparr>g_currentwhite := WHITEBITS OR bitmask SFIXEDBIT\<rparr> in
      bind_result (sweepwholelist V RootList g) (\<lambda>g.
        fold_result (\<lambda>i. sweepwholelist V (StringList i)) [0..<length (g_strt g)] g))"

subsection \<open>A collection\<close>

definition markmt :: "collector \<Rightarrow> collector result" where
  "markmt g = fold_result markobject_opt (g_mt g) g"

definition markroot :: "collector \<Rightarrow> collector result" where
  "markroot g =
     (let g = g\<lparr>g_gray := [], grayagain := [], g_weak := []\<rparr> in
      bind_result (markobject (GCAddr (g_mainthread g)) g) (\<lambda>g.
      bind_result (gc_thread_at g (g_mainthread g)) (\<lambda>th.
      bind_result (markvalue (gt_gt th) g) (\<lambda>g.
      bind_result (markvalue (g_registry g) g) (\<lambda>g.
      bind_result (markmt g) (\<lambda>g. Inr (g\<lparr>g_gcstate := GCSpropagate\<rparr>)))))))"

definition remark_upval :: "addr \<Rightarrow> collector \<Rightarrow> collector result" where
  "remark_upval u g =
     bind_result (gc_upval_at g u) (\<lambda>uv.
       if isgray g (GCAddr u) then bind_result (upval_content g uv) (\<lambda>v. markvalue v g) else Inr g)"

definition remarkupvals :: "collector \<Rightarrow> collector result" where
  "remarkupvals g = fold_result remark_upval (g_uvhead g) g"

text \<open>The marking that \<open>atomic\<close> completes, for the running thread \<open>L\<close>.\<close>

definition atomic_mark :: "gc_env \<Rightarrow> addr \<Rightarrow> collector \<Rightarrow> collector result" where
  "atomic_mark V L g =
     bind_result (remarkupvals g) (\<lambda>g.
     bind_result (propagateall V g) (\<lambda>(_, g).
     let g = g\<lparr>g_gray := g_weak g, g_weak := []\<rparr> in
     bind_result (markobject (GCAddr L) g) (\<lambda>g.
     bind_result (markmt g) (\<lambda>g.
     bind_result (propagateall V g) (\<lambda>(_, g).
     let g = g\<lparr>g_gray := grayagain g, grayagain := []\<rparr> in
     bind_result (propagateall V g) (\<lambda>(_, g). Inr g))))))"

definition atomic :: "gc_env \<Rightarrow> addr \<Rightarrow> collector \<Rightarrow> collector result" where
  "atomic V L g =
     bind_result (atomic_mark V L g) (\<lambda>g.
     bind_result (luaC_separateudata V False g) (\<lambda>(udsize, g).
     bind_result (marktmu g) (\<lambda>g.
     bind_result (propagateall V g) (\<lambda>(m, g).
     bind_result (cleartable (g_weak g) g) (\<lambda>g.
       Inr (g\<lparr>g_currentwhite := otherwhite g, g_sweepstrgc := 0, g_sweepgc := None, g_gcstate := GCSsweepstring,
              g_estimate := g_totalbytes g - word_of_int (udsize + m)\<rparr>))))))"

definition singlestep :: "gc_env \<Rightarrow> addr \<Rightarrow> collector \<Rightarrow> (int \<times> collector) result" where
  "singlestep V L g = (case g_gcstate g of
       GCSpause \<Rightarrow> bind_result (markroot g) (\<lambda>g. Inr (0, g))
     | GCSpropagate \<Rightarrow>
         if g_gray g \<noteq> [] then propagatemark V g else bind_result (atomic V L g) (\<lambda>g. Inr (0, g))
     | GCSsweepstring \<Rightarrow>
         let old = g_totalbytes g in
         bind_result (sweepwholelist V (StringList (g_sweepstrgc g)) (g\<lparr>g_sweepstrgc := g_sweepstrgc g + 1\<rparr>)) (\<lambda>g.
         let g = (if g_sweepstrgc g \<ge> length (g_strt g) then g\<lparr>g_gcstate := GCSsweep\<rparr> else g)
         in Inr (GCSWEEPCOST, g\<lparr>g_estimate := g_estimate g - (old - g_totalbytes g)\<rparr>))
     | GCSsweep \<Rightarrow>
         let old = g_totalbytes g in
         bind_result (sweeplist (sweep_fuel g) V RootList (g_sweepgc g) GCSWEEPMAX g) (\<lambda>(p, g).
         let g = g\<lparr>g_sweepgc := p\<rparr>;
             g = (if after p (g_rootgc g) = [] then (checkSizes V g)\<lparr>g_gcstate := GCSfinalize\<rparr> else g)
         in Inr (int GCSWEEPMAX * GCSWEEPCOST, g\<lparr>g_estimate := g_estimate g - (old - g_totalbytes g)\<rparr>))
     | GCSfinalize \<Rightarrow>
         if g_tmudata g \<noteq> [] then
           bind_result (GCTM V g) (\<lambda>g.
             Inr (GCFINALIZECOST,
                  if g_estimate g > word_of_int GCFINALIZECOST
                  then g\<lparr>g_estimate := g_estimate g - word_of_int GCFINALIZECOST\<rparr> else g))
         else Inr (0, g\<lparr>g_gcstate := GCSpause, g_gcdept := 0\<rparr>))"

definition setthreshold :: "collector \<Rightarrow> collector" where
  "setthreshold g = g\<lparr>g_GCthreshold := (g_estimate g div 100) * word_of_int (g_gcpause g)\<rparr>"

text \<open>The loop of \<open>luaC_step\<close>, with the limit that is left.\<close>

fun step_loop :: "nat \<Rightarrow> gc_env \<Rightarrow> addr \<Rightarrow> int \<Rightarrow> collector \<Rightarrow> collector result" where
  "step_loop 0 V L lim g = Inl Diverges"
| "step_loop (Suc n) V L lim g =
     bind_result (singlestep V L g) (\<lambda>(m, g).
       if g_gcstate g = GCSpause \<or> \<not> lim - m > 0 then Inr g else step_loop n V L (lim - m) g)"

definition luaC_step :: "nat \<Rightarrow> gc_env \<Rightarrow> addr \<Rightarrow> collector \<Rightarrow> collector result" where
  "luaC_step n V L g =
     (let lim = int (unat ((word_of_nat (GCSTEPSIZE div 100) :: 32 word) * word_of_int (g_gcstepmul g)));
          lim = (if lim = 0 then int ((MAX_LUMEM - 1) div 2) else lim);
          g = g\<lparr>g_gcdept := g_gcdept g + (g_totalbytes g - g_GCthreshold g)\<rparr> in
      bind_result (step_loop n V L lim g) (\<lambda>g. Inr
        (if g_gcstate g \<noteq> GCSpause then
           if g_gcdept g < word_of_nat GCSTEPSIZE then g\<lparr>g_GCthreshold := g_totalbytes g + word_of_nat GCSTEPSIZE\<rparr>
           else g\<lparr>g_gcdept := g_gcdept g - word_of_nat GCSTEPSIZE, g_GCthreshold := g_totalbytes g\<rparr>
         else setthreshold g)))"

definition luaC_checkGC :: "nat \<Rightarrow> gc_env \<Rightarrow> addr \<Rightarrow> collector \<Rightarrow> collector result" where
  "luaC_checkGC n V L g = (if g_totalbytes g \<ge> g_GCthreshold g then luaC_step n V L g else Inr g)"

text \<open>Single steps until the collector is in a state.\<close>

fun steps_until :: "nat \<Rightarrow> gc_env \<Rightarrow> addr \<Rightarrow> gc_state \<Rightarrow> collector \<Rightarrow> collector result" where
  "steps_until 0 V L s g = Inl Diverges"
| "steps_until (Suc n) V L s g =
     (if g_gcstate g = s then Inr g else bind_result (singlestep V L g) (\<lambda>(_, g). steps_until n V L s g))"

definition luaC_fullgc :: "nat \<Rightarrow> gc_env \<Rightarrow> addr \<Rightarrow> collector \<Rightarrow> collector result" where
  "luaC_fullgc n V L g =
     (let g = (if g_gcstate g \<in> {GCSpause, GCSpropagate}
               then g\<lparr>g_sweepstrgc := 0, g_sweepgc := None, g_gray := [], grayagain := [], g_weak := [],
                      g_gcstate := GCSsweepstring\<rparr>
               else g) in
      bind_result (steps_until n V L GCSfinalize g) (\<lambda>g.
      bind_result (markroot g) (\<lambda>g.
      bind_result (steps_until n V L GCSpause g) (\<lambda>g. Inr (setthreshold g)))))"

end
