(* ===== verification/Lgc_inv.thy ===== *)
theory Lgc_inv
  imports Lgc
begin

text \<open>
  The invariants of the collector: the colours of objects, the objects every reference must lead to,
  and what marking keeps.
\<close>

section \<open>Colours\<close>

lemma bit_bitmask [simp]: "bit (bitmask b) n \<longleftrightarrow> n = b \<and> b < 8"
  by (auto simp: bitmask_def bit_exp_iff possible_bit_def)

lemma bit_WHITEBITS [simp]: "bit WHITEBITS n \<longleftrightarrow> n = 0 \<or> n = 1"
  by (auto simp: WHITEBITS_def WHITE0BIT_def WHITE1BIT_def bit_or_iff)

lemma word_nonzero_iff: "w \<noteq> 0 \<longleftrightarrow> (\<exists>n. bit w n)" for w :: "'a::len word"
  by (metis bit_eqI bit_0_eq bot_apply bot_bool_def)

lemma iswhite_bit: "iswhite g x \<longleftrightarrow> bit (marked g x) 0 \<or> bit (marked g x) 1"
  by (auto simp: iswhite_def word_nonzero_iff bit_and_iff)

lemma isblack_bit: "isblack g x \<longleftrightarrow> bit (marked g x) 2"
  by (auto simp: isblack_def word_nonzero_iff bit_and_iff BLACKBIT_def)

lemma testbit_bit: "b < 8 \<Longrightarrow> testbit m b \<longleftrightarrow> bit m b"
  by (auto simp: testbit_def word_nonzero_iff bit_and_iff)

lemma set_mark_fields [simp]:
  "g_obj (set_mark x f g) = g_obj g" "g_strt (set_mark x f g) = g_strt g" "g_gray (set_mark x f g) = g_gray g"
  "grayagain (set_mark x f g) = grayagain g" "g_weak (set_mark x f g) = g_weak g" "g_rootgc (set_mark x f g) = g_rootgc g"
  "g_tmudata (set_mark x f g) = g_tmudata g" "g_uvhead (set_mark x f g) = g_uvhead g" "g_mt (set_mark x f g) = g_mt g"
  "g_mainthread (set_mark x f g) = g_mainthread g" "g_registry (set_mark x f g) = g_registry g"
  "g_nuse (set_mark x f g) = g_nuse g" "g_sweepstrgc (set_mark x f g) = g_sweepstrgc g"
  "g_sweepgc (set_mark x f g) = g_sweepgc g" "g_buff (set_mark x f g) = g_buff g"
  "g_GCthreshold (set_mark x f g) = g_GCthreshold g" "g_totalbytes (set_mark x f g) = g_totalbytes g"
  "g_estimate (set_mark x f g) = g_estimate g" "g_gcdept (set_mark x f g) = g_gcdept g"
  "g_gcpause (set_mark x f g) = g_gcpause g" "g_gcstepmul (set_mark x f g) = g_gcstepmul g"
  "g_currentwhite (set_mark x f g) = g_currentwhite g" "g_gcstate (set_mark x f g) = g_gcstate g"
  "marked (set_mark x f g) y = (if y = x then f (marked g x) else marked g y)"
  by (simp_all add: set_mark_def)

lemma bit_byte_high: "bit (m :: lu_byte) n \<Longrightarrow> n < 8"
  using bit_imp_le_length [of m n] by simp

lemma white2gray_colours [simp]:
  "iswhite (white2gray x g) y \<longleftrightarrow> y \<noteq> x \<and> iswhite g y" "isblack (white2gray x g) y = isblack g y"
  "3 \<le> n \<Longrightarrow> bit (marked (white2gray x g) y) n = bit (marked g y) n"
  by (auto simp: iswhite_bit isblack_bit white2gray_def bit_and_iff bit_not_iff dest: bit_byte_high)

lemma gray2black_colours [simp]:
  "iswhite (gray2black x g) y = iswhite g y" "isblack (gray2black x g) y \<longleftrightarrow> y = x \<or> isblack g y"
  "3 \<le> n \<Longrightarrow> bit (marked (gray2black x g) y) n = bit (marked g y) n"
  by (auto simp: iswhite_bit isblack_bit gray2black_def bit_or_iff BLACKBIT_def)

lemma black2gray_colours [simp]:
  "iswhite (black2gray g x) y = iswhite g y" "isblack (black2gray g x) y \<longleftrightarrow> y \<noteq> x \<and> isblack g y"
  "3 \<le> n \<Longrightarrow> bit (marked (black2gray g x) y) n = bit (marked g y) n"
  by (auto simp: iswhite_bit isblack_bit black2gray_def bit_and_iff bit_not_iff BLACKBIT_def dest: bit_byte_high)

text \<open>The two values of \<open>currentwhite\<close>, which also has the bit that keeps fixed objects.\<close>

definition white_ok :: "collector \<Rightarrow> bool" where
  "white_ok g \<longleftrightarrow> g_currentwhite g = bitmask WHITE0BIT OR bitmask FIXEDBIT \<or> g_currentwhite g = bitmask WHITE1BIT OR bitmask FIXEDBIT"

lemma bit_maskmarks [simp]: "bit maskmarks n \<longleftrightarrow> 3 \<le> n \<and> n < 8"
  by (auto simp: maskmarks_def bit_not_iff bit_or_iff bit_and_iff BLACKBIT_def possible_bit_def)

lemma luaC_white_bits [simp]: "bit (luaC_white g) n \<longleftrightarrow> (n = 0 \<or> n = 1) \<and> bit (g_currentwhite g) n"
  by (auto simp: luaC_white_def bit_and_iff)

lemma white_ok_bits: "white_ok g \<Longrightarrow> bit (g_currentwhite g) n \<longleftrightarrow> n = 5 \<or> (n = (if bit (g_currentwhite g) 0 then 0 else 1))"
  by (auto simp: white_ok_def bit_or_iff WHITE0BIT_def WHITE1BIT_def FIXEDBIT_def)

lemma makewhite_mark: "bit (marked (makewhite x g) y) n \<longleftrightarrow>
    (if y = x then bit (marked g x) n \<and> 3 \<le> n \<or> (n = 0 \<or> n = 1) \<and> bit (g_currentwhite g) n else bit (marked g y) n)"
  by (auto simp: makewhite_def bit_and_iff bit_or_iff dest: bit_byte_high)

lemma makewhite_colours [simp]:
  "white_ok g \<Longrightarrow> iswhite (makewhite x g) y \<longleftrightarrow> y = x \<or> iswhite g y" "isblack (makewhite x g) y \<longleftrightarrow> y \<noteq> x \<and> isblack g y"
  "3 \<le> n \<Longrightarrow> bit (marked (makewhite x g) y) n = bit (marked g y) n"
  using white_ok_bits [of g 0] white_ok_bits [of g 1] by (auto simp: iswhite_bit isblack_bit makewhite_mark split: if_splits)

text \<open>The bit of the other white, which makes an object dead.\<close>

definition otherbit :: "collector \<Rightarrow> nat" where
  "otherbit g = (if bit (g_currentwhite g) 0 then 1 else 0)"

lemma otherwhite_bits: "white_ok g \<Longrightarrow> bit (otherwhite g) n \<longleftrightarrow> n = 5 \<or> n = otherbit g"
  using white_ok_bits [of g n] white_ok_bits [of g 1]
  by (auto simp: otherwhite_def bit_xor_iff otherbit_def split: if_splits)

lemma isdead_iff: "white_ok g \<Longrightarrow> isdead g x \<longleftrightarrow> bit (marked g x) (otherbit g)"
  by (auto simp: isdead_def word_nonzero_iff bit_and_iff otherwhite_bits) (auto simp: otherbit_def)

lemma survives_iff:
  assumes "white_ok g"
  shows "survives g x \<longleftrightarrow> \<not> isdead g x \<or> bit (marked g x) FIXEDBIT"
proof -
  have "survives g x \<longleftrightarrow> (\<exists>n. (bit (marked g x) n \<noteq> (n = 0 \<or> n = 1)) \<and> (n = 5 \<or> n = otherbit g))"
    by (simp add: survives_def word_nonzero_iff bit_and_iff bit_xor_iff otherwhite_bits [OF assms])
  also have "\<dots> \<longleftrightarrow> bit (marked g x) 5 \<or> \<not> bit (marked g x) (otherbit g)"
  proof -
    have "(\<exists>n. P n \<and> (n = 5 \<or> n = w)) \<longleftrightarrow> P 5 \<or> P w" for P and w :: nat by blast
    then show ?thesis by (auto simp: otherbit_def)
  qed
  finally show ?thesis by (auto simp: isdead_iff [OF assms] FIXEDBIT_def)
qed

lemma isdead_white: "isdead g x \<Longrightarrow> iswhite g x"
  by (auto simp: isdead_def iswhite_bit word_nonzero_iff bit_and_iff)
section \<open>References\<close>

text \<open>The kind of an object (\<open>gch.tt\<close>), and values whose objects are there with the right kind.\<close>

fun gc_tt :: "gc_body \<Rightarrow> nat" where
  "gc_tt (OTable h) = 5"
| "gc_tt (OLclosure env p us) = 6"
| "gc_tt (OCclosure env vs) = 6"
| "gc_tt (OUserdata mt env len) = 7"
| "gc_tt (OThread th) = 8"
| "gc_tt (OProto p) = 9"
| "gc_tt (OUpval uv) = 10"

definition kind_at :: "collector \<Rightarrow> addr \<Rightarrow> nat option" where
  "kind_at g a = map_option gc_tt (g_obj g a)"

fun value_ok :: "collector \<Rightarrow> TValue \<Rightarrow> bool" where
  "value_ok g (TStr s) \<longleftrightarrow> allocated g (GCString s)"
| "value_ok g (TTable a) \<longleftrightarrow> kind_at g a = Some 5"
| "value_ok g (TFunction a) \<longleftrightarrow> kind_at g a = Some 6"
| "value_ok g (TUserdata a) \<longleftrightarrow> kind_at g a = Some 7"
| "value_ok g (TThread a) \<longleftrightarrow> kind_at g a = Some 8"
| "value_ok g v \<longleftrightarrow> True"

definition string_ok :: "collector \<Rightarrow> TString option \<Rightarrow> bool" where
  "string_ok g p \<longleftrightarrow> (\<forall>s. p = Some s \<longrightarrow> allocated g (GCString s))"

definition pointer_ok :: "collector \<Rightarrow> nat \<Rightarrow> addr option \<Rightarrow> bool" where
  "pointer_ok g tt p \<longleftrightarrow> (\<forall>a. p = Some a \<longrightarrow> kind_at g a = Some tt)"

text \<open>The references of an object, and a table that holds up as a table.\<close>

fun body_ok :: "collector \<Rightarrow> gc_body \<Rightarrow> bool" where
  "body_ok g (OTable h) \<longleftrightarrow> wf_table h \<and> pointer_ok g 5 (metatable h) \<and> (\<forall>v\<in>set (array h). value_ok g v) \<and>
     (\<forall>n\<in>set (node h). i_val n \<noteq> TNil \<longrightarrow> value_ok g (i_val n) \<and> (\<exists>k. i_key n = Key k \<and> value_ok g k))"
| "body_ok g (OUserdata mt env len) \<longleftrightarrow> pointer_ok g 5 mt \<and> kind_at g env = Some 5"
| "body_ok g (OUpval (Own v)) \<longleftrightarrow> value_ok g v"
| "body_ok g (OUpval (OnStack t i)) \<longleftrightarrow>
     (\<exists>th. g_obj g t = Some (OThread th) \<and> i < gt_top th \<and> gt_top th \<le> length (gt_stack th) \<and> value_ok g (gt_stack th ! i))"
| "body_ok g (OLclosure env p us) \<longleftrightarrow> kind_at g env = Some 5 \<and> kind_at g p = Some 9 \<and>
     (\<forall>u\<in>set us. \<exists>a. u = Some a \<and> kind_at g a = Some 10)"
| "body_ok g (OCclosure env vs) \<longleftrightarrow> kind_at g env = Some 5 \<and> (\<forall>v\<in>set vs. value_ok g v)"
| "body_ok g (OProto p) \<longleftrightarrow> string_ok g (gp_source p) \<and> (\<forall>v\<in>set (gp_k p). value_ok g v) \<and>
     (\<forall>s\<in>set (gp_upvalues p). string_ok g s) \<and> (\<forall>q\<in>set (gp_p p). pointer_ok g 9 q) \<and> (\<forall>s\<in>set (gp_locvars p). string_ok g s)"
| "body_ok g (OThread th) \<longleftrightarrow> value_ok g (gt_gt th) \<and> (\<forall>v\<in>set (take (gt_top th) (gt_stack th)). value_ok g v) \<and>
     gt_top th < length (gt_stack th) \<and> (\<forall>t\<in>set (gt_ci_tops th). t < length (gt_stack th))"

text \<open>
  What an object keeps alive: all its references, but for a table on the list of weak tables those of
  the parts its mark bits call weak. An entry with the value nil is no reference.
\<close>

definition vref :: "TValue \<Rightarrow> GCObject set" where "vref v = set_option (gcvalue v)"

definition pref :: "addr option \<Rightarrow> GCObject set" where "pref p = GCAddr ` set_option p"

definition sref :: "TString option \<Rightarrow> GCObject set" where "sref p = GCString ` set_option p"

definition node_refs :: "bool \<Rightarrow> bool \<Rightarrow> Node \<Rightarrow> GCObject set" where
  "node_refs wk wv n = (if i_val n = TNil then {}
     else (if wk then {} else set_option (key_object (i_key n))) \<union> (if wv then {} else vref (i_val n)))"

definition table_refs :: "bool \<Rightarrow> bool \<Rightarrow> Table \<Rightarrow> GCObject set" where
  "table_refs wk wv h = pref (metatable h) \<union> (if wv then {} else \<Union> (vref ` set (array h))) \<union> \<Union> (node_refs wk wv ` set (node h))"

fun body_refs :: "collector \<Rightarrow> bool \<Rightarrow> bool \<Rightarrow> gc_body \<Rightarrow> GCObject set" where
  "body_refs g wk wv (OTable h) = table_refs wk wv h"
| "body_refs g wk wv (OUserdata mt env len) = insert (GCAddr env) (pref mt)"
| "body_refs g wk wv (OUpval (Own v)) = vref v"
| "body_refs g wk wv (OUpval (OnStack t i)) =
     (case g_obj g t of Some (OThread th) \<Rightarrow> if i < gt_top th then vref (take (gt_top th) (gt_stack th) ! i) else {} | _ \<Rightarrow> {})"
| "body_refs g wk wv (OLclosure env p us) = {GCAddr env, GCAddr p} \<union> \<Union> (pref ` set us)"
| "body_refs g wk wv (OCclosure env vs) = insert (GCAddr env) (\<Union> (vref ` set vs))"
| "body_refs g wk wv (OProto p) = sref (gp_source p) \<union> \<Union> (vref ` set (gp_k p)) \<union> \<Union> (sref ` set (gp_upvalues p)) \<union>
     \<Union> (pref ` set (gp_p p)) \<union> \<Union> (sref ` set (gp_locvars p))"
| "body_refs g wk wv (OThread th) = vref (gt_gt th) \<union> \<Union> (vref ` set (take (gt_top th) (gt_stack th)))"

definition weak_keys :: "collector \<Rightarrow> addr \<Rightarrow> bool" where
  "weak_keys g a \<longleftrightarrow> GCAddr a \<in> set (g_weak g) \<and> bit (marked g (GCAddr a)) KEYWEAKBIT"

definition weak_values :: "collector \<Rightarrow> addr \<Rightarrow> bool" where
  "weak_values g a \<longleftrightarrow> GCAddr a \<in> set (g_weak g) \<and> bit (marked g (GCAddr a)) VALUEWEAKBIT"

definition strong_refs :: "collector \<Rightarrow> addr \<Rightarrow> GCObject set" where
  "strong_refs g a = (case g_obj g a of None \<Rightarrow> {} | Some b \<Rightarrow> body_refs g (weak_keys g a) (weak_values g a) b)"

definition all_ok :: "collector \<Rightarrow> bool" where
  "all_ok g \<longleftrightarrow> (\<forall>a b. g_obj g a = Some b \<longrightarrow> body_ok g b)"

lemma all_okD: "all_ok g \<Longrightarrow> g_obj g a = Some b \<Longrightarrow> body_ok g b"
  unfolding all_ok_def by blast

lemma gcvalue_allocated: "value_ok g v \<Longrightarrow> gcvalue v = Some ob \<Longrightarrow> allocated g ob"
  by (cases v) (auto simp: kind_at_def)

lemma kind_at_allocated: "kind_at g a = Some tt \<Longrightarrow> allocated g (GCAddr a)"
  by (auto simp: kind_at_def)

section \<open>What marking keeps\<close>

text \<open>
  Traversing a table buries its dead keys and fills the cache of its metatable; traversing a
  thread clears and shortens the unused part of its stack.
\<close>

definition same_table :: "Table \<Rightarrow> Table \<Rightarrow> bool" where
  "same_table h h' \<longleftrightarrow> metatable h' = metatable h \<and> array h' = array h \<and> sizearray h' = sizearray h \<and>
     lsizenode h' = lsizenode h \<and> length (node h') = length (node h) \<and> (wf_table h \<longrightarrow> wf_table h') \<and>
     (\<forall>i<length (node h). i_val (node h' ! i) = i_val (node h ! i) \<and>
        (i_val (node h ! i) \<noteq> TNil \<longrightarrow> i_key (node h' ! i) = i_key (node h ! i)))"

definition same_thread :: "gc_thread \<Rightarrow> gc_thread \<Rightarrow> bool" where
  "same_thread th th' \<longleftrightarrow> gt_gt th' = gt_gt th \<and> gt_top th' = gt_top th \<and> gt_ci_tops th' = gt_ci_tops th \<and>
     gt_openupval th' = gt_openupval th \<and> take (gt_top th) (gt_stack th') = take (gt_top th) (gt_stack th) \<and>
     (\<forall>t\<in>insert (gt_top th) (set (gt_ci_tops th)). t < length (gt_stack th) \<longrightarrow> t < length (gt_stack th'))"

fun same_body :: "gc_body \<Rightarrow> gc_body \<Rightarrow> bool" where
  "same_body (OTable h) b' \<longleftrightarrow> (\<exists>h'. b' = OTable h' \<and> same_table h h')"
| "same_body (OThread th) b' \<longleftrightarrow> (\<exists>th'. b' = OThread th' \<and> same_thread th th')"
| "same_body b b' \<longleftrightarrow> b' = b"

lemma same_body_refl [simp]: "same_body b b"
  by (cases b) (auto simp: same_table_def same_thread_def)

lemma same_table_trans: "same_table h h' \<Longrightarrow> same_table h' h'' \<Longrightarrow> same_table h h''"
  by (auto simp: same_table_def)

lemma same_thread_trans: "same_thread th th' \<Longrightarrow> same_thread th' th'' \<Longrightarrow> same_thread th th''"
  by (auto simp: same_thread_def)

lemma same_body_trans: "same_body b b' \<Longrightarrow> same_body b' b'' \<Longrightarrow> same_body b b''"
  by (cases b; cases b') (auto intro: same_table_trans same_thread_trans)

lemma same_body_tt: "same_body b b' \<Longrightarrow> gc_tt b' = gc_tt b"
  by (cases b) auto

definition same_heap :: "collector \<Rightarrow> collector \<Rightarrow> bool" where
  "same_heap g g' \<longleftrightarrow> g_strt g' = g_strt g \<and> (\<forall>a. (g_obj g' a = None \<longleftrightarrow> g_obj g a = None) \<and>
     (\<forall>b b'. g_obj g a = Some b \<longrightarrow> g_obj g' a = Some b' \<longrightarrow> same_body b b'))"

lemma same_heap_refl [simp]: "same_heap g g"
  by (simp add: same_heap_def)

lemma same_heap_Some: "same_heap g g' \<Longrightarrow> g_obj g a = Some b \<Longrightarrow> \<exists>b'. g_obj g' a = Some b' \<and> same_body b b'"
  unfolding same_heap_def by (metis not_None_eq)

lemma same_heap_Some': "same_heap g g' \<Longrightarrow> g_obj g' a = Some b' \<Longrightarrow> \<exists>b. g_obj g a = Some b \<and> same_body b b'"
  unfolding same_heap_def by (metis not_None_eq)

lemma same_heap_trans:
  assumes "same_heap g g'" "same_heap g' g''"
  shows "same_heap g g''"
  unfolding same_heap_def
proof (intro conjI allI impI)
  show "g_strt g'' = g_strt g" "\<And>a. (g_obj g'' a = None) = (g_obj g a = None)" using assms by (simp_all add: same_heap_def)
  fix a b b'' assume "g_obj g a = Some b" "g_obj g'' a = Some b''"
  moreover from this obtain b' where "g_obj g' a = Some b'" "same_body b b'" using same_heap_Some [OF assms(1)] by blast
  ultimately show "same_body b b''" using assms(2) same_body_trans by (fastforce simp: same_heap_def)
qed

lemma same_heap_kind: "same_heap g g' \<Longrightarrow> kind_at g' a = kind_at g a"
proof (cases "g_obj g a")
  case (Some b)
  assume "same_heap g g'"
  from same_heap_Some [OF this Some] Some show ?thesis by (auto simp: kind_at_def same_body_tt)
qed (auto simp: kind_at_def same_heap_def)

lemma same_heap_allocated: "same_heap g g' \<Longrightarrow> allocated g' ob = allocated g ob"
  by (cases ob) (simp_all add: same_heap_def del: not_None_eq)

lemma same_heap_value: "same_heap g g' \<Longrightarrow> value_ok g' v = value_ok g v"
  by (cases v) (simp_all add: same_heap_kind same_heap_allocated del: allocated.simps)

lemma take_nth_eq: "take n ys = take n xs \<Longrightarrow> i < n \<Longrightarrow> n \<le> length xs \<Longrightarrow> ys ! i = xs ! i"
  by (metis nth_take)

lemma same_heap_body_ok:
  assumes s: "same_heap g g'" and b: "body_ok g b" "same_body b b'"
  shows "body_ok g' b'"
proof (cases b)
  case (OTable h)
  then obtain h' where h': "b' = OTable h'" "same_table h h'" using b(2) by auto
  have "value_ok g (i_val n) \<and> (\<exists>k. i_key n = Key k \<and> value_ok g k)" if n: "n \<in> set (node h')" "i_val n \<noteq> TNil" for n
  proof -
    obtain i where "i < length (node h')" "n = node h' ! i" using n(1) by (auto simp: in_set_conv_nth)
    then show ?thesis using h'(2) b(1) OTable n(2) nth_mem [of i "node h"] by (auto simp: same_table_def)
  qed
  then show ?thesis using OTable h' b(1) same_heap_value [OF s] same_heap_kind [OF s]
    by (auto simp: same_table_def pointer_ok_def)
next
  case (OThread th)
  then show ?thesis using b same_heap_value [OF s] by (auto simp: same_thread_def)
next
  case (OUpval uv)
  show ?thesis
  proof (cases uv)
    case (OnStack t i)
    then obtain th where th: "g_obj g t = Some (OThread th)" "i < gt_top th" "gt_top th \<le> length (gt_stack th)" "value_ok g (gt_stack th ! i)"
      using b(1) OUpval by auto
    then obtain th' where th': "g_obj g' t = Some (OThread th')" "same_thread th th'" using same_heap_Some [OF s, of t] by fastforce
    then have "gt_top th \<le> length (gt_stack th')" using th(3) by (auto simp: same_thread_def dest!: arg_cong [of "take _ _" _ length])
    moreover have "gt_stack th' ! i = gt_stack th ! i" using th th' by (auto simp: same_thread_def intro!: take_nth_eq)
    ultimately show ?thesis using th th' b(2) OUpval OnStack same_heap_value [OF s] by (auto simp: same_thread_def)
  qed (use b same_heap_value [OF s] OUpval in auto)
qed (use b same_heap_value [OF s] same_heap_kind [OF s] same_heap_allocated [OF s] in
    \<open>auto simp: pointer_ok_def string_ok_def simp del: allocated.simps\<close>)

lemma same_heap_all_ok: "same_heap g g' \<Longrightarrow> all_ok g \<Longrightarrow> all_ok g'"
  unfolding all_ok_def using same_heap_body_ok same_heap_Some' by meson

lemma node_refs_same:
  assumes "same_table h h'"
  shows "\<Union> (node_refs wk wv ` set (node h')) = \<Union> (node_refs wk wv ` set (node h))"
proof -
  have "node_refs wk wv (node h' ! i) = node_refs wk wv (node h ! i)" if "i < length (node h)" for i
    using assms that by (auto simp: same_table_def node_refs_def)
  moreover have "length (node h') = length (node h)" using assms by (simp add: same_table_def)
  ultimately have "map (node_refs wk wv) (node h') = map (node_refs wk wv) (node h)" by (simp add: list_eq_iff_nth_eq)
  then show ?thesis by (metis list.set_map)
qed

lemma same_heap_refs:
  assumes "same_heap g g'" "same_body b b'"
  shows "body_refs g' wk wv b' = body_refs g wk wv b"
proof (cases b)
  case (OTable h)
  then obtain h' where h': "b' = OTable h'" "same_table h h'" using assms(2) by auto
  then have "metatable h' = metatable h" "array h' = array h" by (simp_all add: same_table_def)
  with OTable h'(1) node_refs_same [OF h'(2)] show ?thesis by (simp add: table_refs_def)
next
  case (OUpval uv)
  show ?thesis
  proof (cases uv)
    case (OnStack t i)
    then show ?thesis
    proof (cases "g_obj g t")
      case (Some bt)
      then obtain bt' where t: "g_obj g' t = Some bt'" "same_body bt bt'" using same_heap_Some [OF assms(1)] by blast
      then show ?thesis using Some OUpval OnStack assms(2) by (cases bt) (auto simp: same_thread_def)
    next
      case None
      then have "g_obj g' t = None" using assms(1) by (simp add: same_heap_def)
      then show ?thesis using None assms(2) OUpval OnStack by simp
    qed
  qed (use assms OUpval in auto)
qed (use assms in \<open>auto simp: same_thread_def\<close>)
section \<open>Marking\<close>

text \<open>The objects that wait on the gray lists.\<close>

definition listed_kind :: "collector \<Rightarrow> GCObject \<Rightarrow> bool" where
  "listed_kind g x \<longleftrightarrow> (\<exists>a. x = GCAddr a \<and> kind_at g a \<in> {Some 5, Some 6, Some 8, Some 9})"

text \<open>The fields that marking does not touch.\<close>

definition same_fields :: "collector \<Rightarrow> collector \<Rightarrow> bool" where
  "same_fields g g' \<longleftrightarrow> grayagain g' = grayagain g \<and> g_strt g' = g_strt g \<and> g_nuse g' = g_nuse g \<and> g_currentwhite g' = g_currentwhite g \<and>
     g_gcstate g' = g_gcstate g \<and> g_sweepstrgc g' = g_sweepstrgc g \<and> g_rootgc g' = g_rootgc g \<and> g_sweepgc g' = g_sweepgc g \<and>
     g_weak g' = g_weak g \<and> g_tmudata g' = g_tmudata g \<and> g_buff g' = g_buff g \<and> g_GCthreshold g' = g_GCthreshold g \<and>
     g_estimate g' = g_estimate g \<and> g_gcdept g' = g_gcdept g \<and> g_gcpause g' = g_gcpause g \<and> g_gcstepmul g' = g_gcstepmul g \<and>
     g_registry g' = g_registry g \<and> g_mainthread g' = g_mainthread g \<and> g_uvhead g' = g_uvhead g \<and> g_mt g' = g_mt g"

text \<open>
  A table, closure, thread or prototype that is marked goes to the gray list; an open upvalue stays gray.
\<close>

definition open_upval :: "collector \<Rightarrow> GCObject \<Rightarrow> bool" where
  "open_upval g x \<longleftrightarrow> (\<exists>u t i. x = GCAddr u \<and> g_obj g u = Some (OUpval (OnStack t i)))"

definition settled :: "collector \<Rightarrow> collector \<Rightarrow> GCObject \<Rightarrow> bool" where
  "settled g g' x \<longleftrightarrow> (listed_kind g x \<longrightarrow> x \<in> set (g_gray g')) \<and> (open_upval g x \<longrightarrow> isblack g' x \<longrightarrow> isblack g x)"

text \<open>
  \<open>traced g g'\<close>: objects only lose their whiteness; each that did so waits on the gray list or has
  no white object to keep alive.
\<close>

definition traced :: "collector \<Rightarrow> collector \<Rightarrow> bool" where
  "traced g g' \<longleftrightarrow> same_heap g g' \<and>
     same_fields g g' \<and>
     (\<forall>x. marked g' x \<noteq> marked g x \<longrightarrow> iswhite g x \<and> \<not> iswhite g' x) \<and>
     (\<forall>x n. 3 \<le> n \<longrightarrow> bit (marked g' x) n = bit (marked g x) n) \<and>
     (\<exists>new. g_gray g' = new @ g_gray g \<and> distinct new \<and>
        (\<forall>x\<in>set new. iswhite g x \<and> \<not> iswhite g' x \<and> isblack g' x = isblack g x \<and> listed_kind g x)) \<and>
     (\<forall>a. g_obj g a \<noteq> None \<and> iswhite g (GCAddr a) \<and> \<not> iswhite g' (GCAddr a) \<and> GCAddr a \<notin> set (g_gray g') \<longrightarrow>
        (\<forall>r\<in>strong_refs g a. \<not> iswhite g' r)) \<and>
     (\<forall>x. iswhite g x \<longrightarrow> \<not> iswhite g' x \<longrightarrow> settled g g' x)"

lemma traced_settled: "traced g g' \<Longrightarrow> iswhite g x \<Longrightarrow> \<not> iswhite g' x \<Longrightarrow> settled g g' x"
  unfolding traced_def by blast

lemma open_upval_heap: "same_heap g g' \<Longrightarrow> open_upval g' x = open_upval g x"
proof
  assume h: "same_heap g g'"
  {
    assume "open_upval g x"
    then obtain u t i where u: "x = GCAddr u" "g_obj g u = Some (OUpval (OnStack t i))" by (auto simp: open_upval_def)
    then show "open_upval g' x" using same_heap_Some [OF h u(2)] by (simp add: open_upval_def)
  next
    assume "open_upval g' x"
    then obtain u t i where u: "x = GCAddr u" "g_obj g' u = Some (OUpval (OnStack t i))" by (auto simp: open_upval_def)
    obtain b where b: "g_obj g u = Some b" "same_body b (OUpval (OnStack t i))" using same_heap_Some' [OF h u(2)] by blast
    then show "open_upval g x" using u(1) by (cases b) (auto simp: open_upval_def)
  }
qed

lemma traced_heap: "traced g g' \<Longrightarrow> same_heap g g'"
  by (simp add: traced_def)

lemma traced_same: "traced g g' \<Longrightarrow> same_fields g g'"
  by (simp add: traced_def)

lemma traced_fields:
  "traced g g' \<Longrightarrow> grayagain g' = grayagain g" "traced g g' \<Longrightarrow> g_strt g' = g_strt g"
  "traced g g' \<Longrightarrow> g_nuse g' = g_nuse g" "traced g g' \<Longrightarrow> g_currentwhite g' = g_currentwhite g"
  "traced g g' \<Longrightarrow> g_gcstate g' = g_gcstate g" "traced g g' \<Longrightarrow> g_sweepstrgc g' = g_sweepstrgc g"
  "traced g g' \<Longrightarrow> g_rootgc g' = g_rootgc g" "traced g g' \<Longrightarrow> g_sweepgc g' = g_sweepgc g"
  "traced g g' \<Longrightarrow> g_weak g' = g_weak g" "traced g g' \<Longrightarrow> g_tmudata g' = g_tmudata g"
  "traced g g' \<Longrightarrow> g_buff g' = g_buff g" "traced g g' \<Longrightarrow> g_GCthreshold g' = g_GCthreshold g"
  "traced g g' \<Longrightarrow> g_estimate g' = g_estimate g" "traced g g' \<Longrightarrow> g_gcdept g' = g_gcdept g"
  "traced g g' \<Longrightarrow> g_gcpause g' = g_gcpause g" "traced g g' \<Longrightarrow> g_gcstepmul g' = g_gcstepmul g"
  "traced g g' \<Longrightarrow> g_registry g' = g_registry g" "traced g g' \<Longrightarrow> g_mainthread g' = g_mainthread g"
  "traced g g' \<Longrightarrow> g_uvhead g' = g_uvhead g" "traced g g' \<Longrightarrow> g_mt g' = g_mt g"
  by (simp_all add: traced_def same_fields_def)

lemma traced_mark: "traced g g' \<Longrightarrow> marked g' x \<noteq> marked g x \<Longrightarrow> iswhite g x \<and> \<not> iswhite g' x"
  unfolding traced_def by blast

lemma traced_gray: "traced g g' \<Longrightarrow> \<exists>new. g_gray g' = new @ g_gray g \<and> distinct new \<and>
    (\<forall>x\<in>set new. iswhite g x \<and> \<not> iswhite g' x \<and> isblack g' x = isblack g x \<and> listed_kind g x)"
  unfolding traced_def by blast

lemma traced_done: "traced g g' \<Longrightarrow> g_obj g a \<noteq> None \<Longrightarrow> iswhite g (GCAddr a) \<Longrightarrow> \<not> iswhite g' (GCAddr a) \<Longrightarrow>
    GCAddr a \<notin> set (g_gray g') \<Longrightarrow> r \<in> strong_refs g a \<Longrightarrow> \<not> iswhite g' r"
  unfolding traced_def by blast

lemma traced_white: "traced g g' \<Longrightarrow> iswhite g' x \<Longrightarrow> iswhite g x"
  unfolding traced_def by (metis iswhite_def)

lemma traced_high: "traced g g' \<Longrightarrow> 3 \<le> n \<Longrightarrow> bit (marked g' x) n = bit (marked g x) n"
  unfolding traced_def by blast

lemma traced_weak: "traced g g' \<Longrightarrow> weak_keys g' a = weak_keys g a" "traced g g' \<Longrightarrow> weak_values g' a = weak_values g a"
  by (simp_all add: weak_keys_def weak_values_def traced_fields traced_high KEYWEAKBIT_def VALUEWEAKBIT_def)

lemma traced_refs: "traced g g' \<Longrightarrow> strong_refs g' a = strong_refs g a"
proof (cases "g_obj g a")
  case (Some b)
  assume t: "traced g g'"
  from same_heap_Some [OF traced_heap [OF t] Some] obtain b' where "g_obj g' a = Some b'" "same_body b b'" by blast
  then show ?thesis using Some same_heap_refs [OF traced_heap [OF t]] by (simp add: strong_refs_def traced_weak [OF t])
next
  case None
  assume "traced g g'"
  then have "g_obj g' a = None" using None traced_heap by (simp add: same_heap_def)
  then show ?thesis using None by (simp add: strong_refs_def)
qed

lemma tracedI:
  assumes "same_heap g g'" "same_fields g g'" "\<And>x. marked g' x \<noteq> marked g x \<Longrightarrow> iswhite g x \<and> \<not> iswhite g' x"
    "\<And>x n. 3 \<le> n \<Longrightarrow> bit (marked g' x) n = bit (marked g x) n" "g_gray g' = new @ g_gray g" "distinct new"
    "\<And>x. x \<in> set new \<Longrightarrow> iswhite g x \<and> \<not> iswhite g' x \<and> isblack g' x = isblack g x \<and> listed_kind g x"
    "\<And>a r. g_obj g a \<noteq> None \<Longrightarrow> iswhite g (GCAddr a) \<Longrightarrow> \<not> iswhite g' (GCAddr a) \<Longrightarrow>
       GCAddr a \<notin> set (g_gray g') \<Longrightarrow> r \<in> strong_refs g a \<Longrightarrow> \<not> iswhite g' r"
    "\<And>x. iswhite g x \<Longrightarrow> \<not> iswhite g' x \<Longrightarrow> settled g g' x"
  shows "traced g g'"
  unfolding traced_def using assms by blast

lemma traced_refl [simp]: "traced g g"
  unfolding traced_def same_fields_def by (intro conjI) (simp_all, blast)

lemma traced_trans:
  assumes "traced g g'" "traced g' g''"
  shows "traced g g''"
proof -
  note k = same_heap_kind [OF traced_heap [OF assms(1)]]
  have l: "listed_kind g' x = listed_kind g x" for x by (simp add: listed_kind_def k)
  obtain n1 where n1: "g_gray g' = n1 @ g_gray g" "distinct n1"
    "\<And>x. x \<in> set n1 \<Longrightarrow> iswhite g x \<and> \<not> iswhite g' x \<and> isblack g' x = isblack g x \<and> listed_kind g x"
    using traced_gray [OF assms(1)] by blast
  obtain n2 where n2: "g_gray g'' = n2 @ g_gray g'" "distinct n2"
    "\<And>x. x \<in> set n2 \<Longrightarrow> iswhite g' x \<and> \<not> iswhite g'' x \<and> isblack g'' x = isblack g' x \<and> listed_kind g' x"
    using traced_gray [OF assms(2)] by blast
  have w: "\<And>x. iswhite g'' x \<Longrightarrow> iswhite g' x" "\<And>x. iswhite g' x \<Longrightarrow> iswhite g x"
    using traced_white [OF assms(2)] traced_white [OF assms(1)] by blast+
  have m: "\<And>x. marked g' x \<noteq> marked g x \<Longrightarrow> iswhite g x \<and> \<not> iswhite g' x"
    "\<And>x. marked g'' x \<noteq> marked g' x \<Longrightarrow> iswhite g' x \<and> \<not> iswhite g'' x"
    using traced_mark [OF assms(1)] traced_mark [OF assms(2)] by blast+
  have keep: "marked g'' x = marked g' x" if "\<not> iswhite g' x" for x using m(2) that by blast
  have keep': "marked g' x = marked g x" if "iswhite g' x" for x using m(1) that by blast
  have "same_heap g g''" by (rule same_heap_trans [OF traced_heap traced_heap]) (rule assms)+
  moreover have "same_fields g g''" using traced_same [OF assms(1)] traced_same [OF assms(2)] by (simp add: same_fields_def)
  moreover have "\<forall>x. marked g'' x \<noteq> marked g x \<longrightarrow> iswhite g x \<and> \<not> iswhite g'' x" using m w by metis
  moreover have "\<forall>x n. 3 \<le> n \<longrightarrow> bit (marked g'' x) n = bit (marked g x) n"
    using traced_high [OF assms(1)] traced_high [OF assms(2)] by simp
  moreover have "\<exists>new. g_gray g'' = new @ g_gray g \<and> distinct new \<and>
        (\<forall>x\<in>set new. iswhite g x \<and> \<not> iswhite g'' x \<and> isblack g'' x = isblack g x \<and> listed_kind g x)"
  proof -
    have "iswhite g x \<and> \<not> iswhite g'' x \<and> isblack g'' x = isblack g x \<and> listed_kind g x" if "x \<in> set n1" for x
      using n1(3) [OF that] w(1) [of x] keep [of x] by (auto simp: isblack_def)
    moreover have "iswhite g x \<and> \<not> iswhite g'' x \<and> isblack g'' x = isblack g x \<and> listed_kind g x" if "x \<in> set n2" for x
      using n2(3) [OF that] w(2) [of x] keep' [of x] l [of x] by (auto simp: isblack_def)
    moreover have "set n1 \<inter> set n2 = {}" using n1(3) n2(3) by blast
    ultimately show ?thesis using n1 n2 by (intro exI [of _ "n2 @ n1"]) auto
  qed
  moreover have "\<forall>a. g_obj g a \<noteq> None \<and> iswhite g (GCAddr a) \<and> \<not> iswhite g'' (GCAddr a) \<and> GCAddr a \<notin> set (g_gray g'') \<longrightarrow>
        (\<forall>r\<in>strong_refs g a. \<not> iswhite g'' r)"
  proof (intro allI impI)
    fix a assume a: "g_obj g a \<noteq> None \<and> iswhite g (GCAddr a) \<and> \<not> iswhite g'' (GCAddr a) \<and> GCAddr a \<notin> set (g_gray g'')"
    then have a': "g_obj g' a \<noteq> None" using traced_heap [OF assms(1)] by (simp add: same_heap_def)
    have out: "GCAddr a \<notin> set (g_gray g')" using a n2(1) by simp
    show "\<forall>r\<in>strong_refs g a. \<not> iswhite g'' r"
    proof (cases "iswhite g' (GCAddr a)")
      case True
      then have "\<forall>r\<in>strong_refs g' a. \<not> iswhite g'' r" using traced_done [OF assms(2) a' True] a by blast
      then show ?thesis by (simp add: traced_refs [OF assms(1)])
    next
      case False
      then have "\<forall>r\<in>strong_refs g a. \<not> iswhite g' r" using traced_done [OF assms(1)] a out by blast
      then show ?thesis using w by blast
    qed
  qed
  moreover have "\<forall>x. iswhite g x \<longrightarrow> \<not> iswhite g'' x \<longrightarrow> settled g g'' x"
  proof (intro allI impI)
    fix x assume x: "iswhite g x" "\<not> iswhite g'' x"
    note o = open_upval_heap [OF traced_heap [OF assms(1)], of x]
    show "settled g g'' x"
    proof (cases "iswhite g' x")
      case True
      then have "settled g' g'' x" using traced_settled [OF assms(2)] x by blast
      then show ?thesis using keep' [OF True] l o by (simp add: settled_def isblack_def)
    next
      case False
      then have "settled g g' x" using traced_settled [OF assms(1)] x by blast
      then show ?thesis using keep [OF False] n2(1) by (auto simp: settled_def isblack_def)
    qed
  qed
  ultimately show ?thesis unfolding traced_def by blast
qed
subsection \<open>One object\<close>

lemma set_mark_twice: "set_mark x f (set_mark x h g) = set_mark x (f \<circ> h) g"
  by (simp add: set_mark_def)

lemma set_mark_id: "set_mark x (\<lambda>m. m) g = g"
  by (simp add: set_mark_def)

lemma set_mark_same [simp]: "same_heap g (set_mark x f g')= same_heap g g'" "same_heap (set_mark x f g) g' = same_heap g g'"
  "same_fields g (set_mark x f g') = same_fields g g'" "same_fields (set_mark x f g) g' = same_fields g g'"
  by (auto simp: same_heap_def same_fields_def set_mark_def)

lemma iswhite_set_mark: "y \<noteq> x \<Longrightarrow> iswhite (set_mark x f g) y = iswhite g y"
  "y \<noteq> x \<Longrightarrow> isblack (set_mark x f g) y = isblack g y" for g :: collector
  by (simp_all add: iswhite_def isblack_def)

lemma strong_refs_cong:
  assumes "g_obj g' = g_obj g" "g_weak g' = g_weak g" "\<And>x n. 3 \<le> n \<Longrightarrow> bit (marked g' x) n = bit (marked g x) n"
  shows "strong_refs g' a = strong_refs g a"
proof (cases "g_obj g a")
  case (Some b)
  have "body_refs g' wk wv b = body_refs g wk wv b" for wk wv
    by (cases "(g, wk, wv, b)" rule: body_refs.cases) (simp_all add: assms(1))
  then show ?thesis using Some assms
    by (simp add: strong_refs_def weak_keys_def weak_values_def KEYWEAKBIT_def VALUEWEAKBIT_def)
qed (use assms in \<open>simp add: strong_refs_def\<close>)

text \<open>
  The colour of a white object is taken, what it keeps alive is marked, and its colour may change
  again.
\<close>

lemma traced_visit:
  assumes w: "iswhite g x" and t: "traced (set_mark x f g) g'"
    and f: "\<not> iswhite (set_mark x f g) x" "\<And>m n. 3 \<le> n \<Longrightarrow> bit (f m) n = bit m n"
    and h: "\<not> iswhite (set_mark x h g') x" "\<And>m n. 3 \<le> n \<Longrightarrow> bit (h m) n = bit m n"
    and r: "\<And>a r. x = GCAddr a \<Longrightarrow> r \<in> strong_refs g a \<Longrightarrow> \<not> iswhite g' r"
    and k: "\<not> listed_kind g x" "open_upval g x \<Longrightarrow> isblack (set_mark x h g') x \<Longrightarrow> isblack g x"
  shows "traced g (set_mark x h g')"
proof -
  let ?g1 = "set_mark x f g" and ?g2 = "set_mark x h g'"
  have x': "\<not> iswhite g' x" using traced_white [OF t] f(1) by blast
  have white: "iswhite ?g2 y = (y \<noteq> x \<and> iswhite g' y)" for y
    using h(1) iswhite_set_mark(1) [of y x h g'] by (cases "y = x") auto
  have refs: "strong_refs ?g1 a = strong_refs g a" for a
    by (rule strong_refs_cong) (simp_all add: f(2))
  have lk: "listed_kind ?g1 y = listed_kind g y" for y by (simp add: listed_kind_def kind_at_def)
  obtain new where new: "g_gray g' = new @ g_gray g" "distinct new"
    "\<And>y. y \<in> set new \<Longrightarrow> iswhite ?g1 y \<and> \<not> iswhite g' y \<and> isblack g' y = isblack ?g1 y \<and> listed_kind ?g1 y"
    using traced_gray [OF t] by auto
  have nx: "y \<noteq> x" if "y \<in> set new" for y using new(3) [OF that] f(1) by blast
  have "same_heap g ?g2" "same_fields g ?g2" using traced_heap [OF t] traced_same [OF t] by simp_all
  moreover have "iswhite g y \<and> \<not> iswhite ?g2 y" if "marked ?g2 y \<noteq> marked g y" for y
  proof (cases "y = x")
    case False
    then have "marked g' y \<noteq> marked ?g1 y" using that by simp
    from traced_mark [OF t this] False show ?thesis by (simp add: white iswhite_set_mark)
  qed (simp add: w white)
  moreover have "bit (marked ?g2 y) n = bit (marked g y) n" if "3 \<le> n" for y n
    using that traced_high [OF t that, of y] by (cases "y = x") (simp_all add: f(2) h(2))
  moreover have "iswhite g y \<and> \<not> iswhite ?g2 y \<and> isblack ?g2 y = isblack g y \<and> listed_kind g y" if "y \<in> set new" for y
    using new(3) [OF that] nx [OF that] by (simp add: white lk iswhite_set_mark)
  moreover have "\<not> iswhite ?g2 r'" if a: "g_obj g a \<noteq> None" "iswhite g (GCAddr a)" "GCAddr a \<notin> set (g_gray g')"
    "\<not> iswhite ?g2 (GCAddr a)" "r' \<in> strong_refs g a" for a r'
  proof (cases "GCAddr a = x")
    case True
    then have "\<not> iswhite g' r'" using r [OF True [symmetric] a(5)] by blast
    then show ?thesis by (simp add: white)
  next
    case False
    then have "\<not> iswhite g' r'" using traced_done [OF t, of a r'] a by (simp add: refs iswhite_set_mark)
    then show ?thesis by (simp add: white)
  qed
  moreover have "settled g ?g2 y" if y: "iswhite g y" "\<not> iswhite ?g2 y" for y
  proof (cases "y = x")
    case True
    then show ?thesis using k by (simp add: settled_def)
  next
    case False
    then have "settled ?g1 g' y" using traced_settled [OF t, of y] y by (simp add: white iswhite_set_mark)
    then show ?thesis using False by (simp add: settled_def lk iswhite_set_mark open_upval_def)
  qed
  ultimately show ?thesis using new(1,2) by (intro tracedI [where new = new]) simp_all
qed

lemma traced_push:
  assumes "iswhite g (GCAddr a)" "listed_kind g (GCAddr a)"
  shows "traced g (push_gray (GCAddr a) (white2gray (GCAddr a) g))"
proof -
  let ?x = "GCAddr a" and ?g = "push_gray (GCAddr a) (white2gray (GCAddr a) g)"
  have m: "marked ?g y = marked (white2gray ?x g) y" for y by (simp add: push_gray_def)
  have f: "iswhite ?g y = iswhite (white2gray ?x g) y" "isblack ?g y = isblack (white2gray ?x g) y" for y
    by (simp_all add: iswhite_def isblack_def m)
  have "same_heap g ?g" "same_fields g ?g"
    by (simp_all add: push_gray_def white2gray_def same_heap_def same_fields_def)
  moreover have "g_gray ?g = [?x] @ g_gray g" by (simp add: push_gray_def white2gray_def)
  moreover have "y = ?x" if "marked ?g y \<noteq> marked g y" for y
    using that by (auto simp: push_gray_def white2gray_def split: if_splits)
  moreover have "bit (marked ?g y) n = bit (marked g y) n" if "3 \<le> n" for y n using that by (simp add: m)
  moreover have "\<not> iswhite ?g ?x" by (simp add: f)
  moreover have "settled g ?g y" if "iswhite g y" "\<not> iswhite ?g y" for y
    using that assms by (simp add: f settled_def) (simp add: push_gray_def)
  ultimately show ?thesis using assms by (intro tracedI [where new = "[?x]"]) (auto simp: f)
qed

text \<open>What a marking function promises for the objects it is given.\<close>

definition marker :: "nat set \<Rightarrow> (GCObject \<Rightarrow> collector \<Rightarrow> collector result) \<Rightarrow> bool" where
  "marker tts really \<longleftrightarrow> (\<forall>g ob. all_ok g \<longrightarrow> allocated g ob \<longrightarrow> iswhite g ob \<longrightarrow>
     (\<forall>a. ob = GCAddr a \<longrightarrow> the (kind_at g a) \<in> tts) \<longrightarrow>
     (\<exists>g'. really ob g = Inr g' \<and> traced g g' \<and> \<not> iswhite g' ob))"

lemma markerD:
  assumes "marker tts really" "all_ok g" "allocated g ob" "\<And>a. ob = GCAddr a \<Longrightarrow> the (kind_at g a) \<in> tts"
  shows "\<exists>g'. mark_white really ob g = Inr g' \<and> traced g g' \<and> \<not> iswhite g' ob"
proof (cases "iswhite g ob")
  case True
  then show ?thesis using assms unfolding marker_def mark_white_def by simp
next
  case False
  then show ?thesis using assms(3) by (auto simp: mark_white_def)
qed

lemma value_kind: "value_ok g v \<Longrightarrow> gcvalue v = Some (GCAddr a) \<Longrightarrow> kind_at g a \<in> {Some 5, Some 6, Some 7, Some 8}"
  by (cases v) auto

lemma markerD_value:
  assumes "marker tts really" "all_ok g" "value_ok g v" "{5, 6, 7, 8} \<subseteq> tts"
  shows "\<exists>g'. mark_white_value really v g = Inr g' \<and> traced g g' \<and> (\<forall>r\<in>vref v. \<not> iswhite g' r)"
proof (cases "gcvalue v")
  case (Some ob)
  then have "allocated g ob" using assms(3) gcvalue_allocated by blast
  moreover have "\<And>a. ob = GCAddr a \<Longrightarrow> the (kind_at g a) \<in> tts" using value_kind [OF assms(3)] Some assms(4) by force
  ultimately show ?thesis using markerD [OF assms(1,2)] Some by (simp add: mark_white_value_def vref_def)
qed (simp add: mark_white_value_def vref_def)

lemma marker_tables: "marker {5, 6, 8, 9} (really_mark (Suc n))"
  unfolding marker_def
proof (intro allI impI)
  fix g ob assume g: "all_ok g" "allocated g ob" "iswhite g ob" "\<forall>a. ob = GCAddr a \<longrightarrow> the (kind_at g a) \<in> {5, 6, 8, 9}"
  show "\<exists>g'. really_mark (Suc n) ob g = Inr g' \<and> traced g g' \<and> \<not> iswhite g' ob"
  proof (cases ob)
    case (GCString s)
    have "traced g (set_mark ob (\<lambda>m. m) (white2gray ob g))"
      by (rule traced_visit [OF g(3), of "\<lambda>m. m AND NOT WHITEBITS"]) (use GCString in \<open>auto simp: set_mark_id bit_and_iff bit_not_iff listed_kind_def open_upval_def
        white2gray_def [symmetric] possible_bit_def dest: bit_byte_high\<close>)
    then show ?thesis using GCString by (simp add: set_mark_id)
  next
    case (GCAddr a)
    then obtain b where b: "g_obj g a = Some b" using g(2) by auto
    have "listed_kind g ob" using g(4) GCAddr b by (auto simp: listed_kind_def kind_at_def)
    then have "traced g (push_gray ob (white2gray ob g))" using traced_push g(3) GCAddr by blast
    moreover have "\<not> iswhite (push_gray ob (white2gray ob g)) ob"
      using white2gray_colours(1) [of ob g ob] by (simp add: push_gray_def iswhite_def)
    moreover have "gc_tt b \<in> {5, 6, 8, 9}" using g(4) GCAddr b by (simp add: kind_at_def)
    then have "really_mark (Suc n) ob g = Inr (push_gray ob (white2gray ob g))"
      using GCAddr b by (cases b) (auto simp: body_at_def)
    ultimately show ?thesis by blast
  qed
qed
lemma set_mark_ok [simp]: "body_ok (set_mark x f g) b = body_ok g b"
proof -
  have "value_ok (set_mark x f g) v = value_ok g v" for v by (cases v) (simp_all add: kind_at_def)
  then show ?thesis
    by (cases "(g, b)" rule: body_ok.cases) (auto simp: pointer_ok_def string_ok_def kind_at_def)
qed

lemma set_mark_all_ok [simp]: "all_ok (set_mark x f g) = all_ok g"
  by (simp add: all_ok_def)

lemma set_mark_allocated [simp]: "allocated (set_mark x f g) y = allocated g y" "kind_at (set_mark x f g) a = kind_at g a"
  by (cases y; simp) (simp add: kind_at_def)

lemma white2gray_mask [simp]: "\<not> iswhite (set_mark x (\<lambda>m. m AND NOT WHITEBITS) g) x" for g :: collector
  using white2gray_colours(1) [of x g x] by (simp add: white2gray_def)

lemma bit_mask_high: "3 \<le> n \<Longrightarrow> bit (m AND NOT WHITEBITS) n = bit m n" "3 \<le> n \<Longrightarrow> bit (m OR bitmask BLACKBIT) n = bit m n"
  for m :: lu_byte
  by (auto simp: bit_and_iff bit_or_iff bit_not_iff BLACKBIT_def possible_bit_def dest: bit_byte_high)

lemma marker_userdata: "marker {5, 6, 7, 8, 9} (really_mark (Suc (Suc n)))"
  unfolding marker_def
proof (intro allI impI)
  fix g ob assume g: "all_ok g" "allocated g ob" "iswhite g ob" "\<forall>a. ob = GCAddr a \<longrightarrow> the (kind_at g a) \<in> {5, 6, 7, 8, 9}"
  show "\<exists>g'. really_mark (Suc (Suc n)) ob g = Inr g' \<and> traced g g' \<and> \<not> iswhite g' ob"
  proof (cases "\<exists>a mt env len. ob = GCAddr a \<and> g_obj g a = Some (OUserdata mt env len)")
    case False
    have "the (kind_at g a) \<in> {5, 6, 8, 9}" if a: "ob = GCAddr a" for a
    proof -
      obtain b where "g_obj g a = Some b" using g(2) a by auto
      then show ?thesis using False g(4) a by (cases b) (auto simp: kind_at_def)
    qed
    then show ?thesis using marker_tables [of "Suc n"] g(1-3) unfolding marker_def by blast
  next
    case True
    then obtain a mt env len where b: "ob = GCAddr a" "g_obj g a = Some (OUserdata mt env len)" by blast
    let ?f = "(\<lambda>m. m OR bitmask BLACKBIT) \<circ> (\<lambda>m. m AND NOT WHITEBITS)"
    let ?g1 = "set_mark ob ?f g"
    have g1: "gray2black ob (white2gray ob g) = ?g1" by (simp add: gray2black_def white2gray_def set_mark_twice)
    have ok: "pointer_ok g 5 mt" "kind_at g env = Some 5" using g(1) b unfolding all_ok_def by (metis body_ok.simps(2))+
    have "\<exists>g2. (case mt of None \<Rightarrow> Inr ?g1 | Some t \<Rightarrow> mark_white (really_mark (Suc n)) (GCAddr t) ?g1) = Inr g2 \<and>
        traced ?g1 g2 \<and> (\<forall>r\<in>pref mt. \<not> iswhite g2 r)"
    proof (cases mt)
      case (Some t)
      then have "kind_at g t = Some 5" using ok(1) by (simp add: pointer_ok_def)
      with markerD [OF marker_tables, of ?g1 "GCAddr t" n] g(1) kind_at_allocated [of g t 5] Some show ?thesis
        by (simp add: pref_def del: allocated.simps)
    qed (simp add: pref_def)
    then obtain g2 where g2: "(case mt of None \<Rightarrow> Inr ?g1 | Some t \<Rightarrow> mark_white (really_mark (Suc n)) (GCAddr t) ?g1) = Inr g2"
      "traced ?g1 g2" "\<forall>r\<in>pref mt. \<not> iswhite g2 r" by blast
    have "all_ok g2" "kind_at g2 env = Some 5"
      using same_heap_all_ok [OF traced_heap [OF g2(2)]] same_heap_kind [OF traced_heap [OF g2(2)]] g(1) ok(2) by simp_all
    with markerD [OF marker_tables, of g2 "GCAddr env" n] kind_at_allocated [of g2 env 5]
    obtain g3 where g3: "mark_white (really_mark (Suc n)) (GCAddr env) g2 = Inr g3" "traced g2 g3" "\<not> iswhite g3 (GCAddr env)"
      by (auto simp del: allocated.simps)
    have t: "traced ?g1 g3" by (rule traced_trans [OF g2(2) g3(2)])
    have x: "\<not> iswhite ?g1 ob" using gray2black_colours(1) [of ob "white2gray ob g" ob] by (simp add: g1)
    have nx: "\<not> iswhite g3 ob" using traced_white [OF t] x by blast
    have "traced g (set_mark ob (\<lambda>m. m) g3)"
    proof (rule traced_visit [OF g(3) t x])
      fix a' r assume "ob = GCAddr a'" "r \<in> strong_refs g a'"
      then have "r = GCAddr env \<or> r \<in> pref mt" using b by (simp add: strong_refs_def)
      then show "\<not> iswhite g3 r" using g3(3) g2(3) traced_white [OF g3(2)] by blast
    qed (use nx b in \<open>simp_all add: set_mark_id bit_mask_high listed_kind_def kind_at_def open_upval_def\<close>)
    moreover have "really_mark (Suc (Suc n)) ob g = Inr g3"
      using b g1 [unfolded b(1)] g2(1) [unfolded b(1)] g3(1)
      by (subst really_mark.simps) (simp add: body_at_def Let_def del: really_mark.simps)
    ultimately show ?thesis using nx by (simp add: set_mark_id)
  qed
qed
lemma upval_content_ok:
  assumes "body_ok g (OUpval uv)"
  shows "\<exists>v. upval_content g uv = Inr v \<and> value_ok g v \<and> (\<forall>wk wv. body_refs g wk wv (OUpval uv) = vref v)"
  using assms by (cases uv) (auto simp: upval_content_def gc_thread_at_def)

lemma marker_all: "marker {5, 6, 7, 8, 9, 10} (really_mark (Suc (Suc (Suc n))))"
  unfolding marker_def
proof (intro allI impI)
  fix g ob assume g: "all_ok g" "allocated g ob" "iswhite g ob" "\<forall>a. ob = GCAddr a \<longrightarrow> the (kind_at g a) \<in> {5, 6, 7, 8, 9, 10}"
  show "\<exists>g'. really_mark (Suc (Suc (Suc n))) ob g = Inr g' \<and> traced g g' \<and> \<not> iswhite g' ob"
  proof (cases "\<exists>a uv. ob = GCAddr a \<and> g_obj g a = Some (OUpval uv)")
    case False
    have "the (kind_at g a) \<in> {5, 6, 7, 8, 9}" if a: "ob = GCAddr a" for a
    proof -
      obtain b where "g_obj g a = Some b" using g(2) a by auto
      then show ?thesis using False g(4) a by (cases b) (auto simp: kind_at_def)
    qed
    then show ?thesis using marker_userdata [of "Suc n"] g(1-3) unfolding marker_def by blast
  next
    case True
    then obtain a uv where b: "ob = GCAddr a" "g_obj g a = Some (OUpval uv)" by blast
    let ?g1 = "set_mark ob (\<lambda>m. m AND NOT WHITEBITS) g"
    have "body_ok ?g1 (OUpval uv)" using g(1) b by (simp add: all_ok_def)
    from upval_content_ok [OF this] obtain v where
      v: "upval_content ?g1 uv = Inr v" "value_ok ?g1 v" "\<And>wk wv. body_refs ?g1 wk wv (OUpval uv) = vref v" by blast
    have "body_refs ?g1 wk wv (OUpval uv) = body_refs g wk wv (OUpval uv)" for wk wv by (cases uv) simp_all
    then have refs: "strong_refs g a = vref v" using b v(3) by (simp add: strong_refs_def)
    obtain g2 where g2: "mark_white_value (really_mark (Suc (Suc n))) v ?g1 = Inr g2" "traced ?g1 g2" "\<forall>r\<in>vref v. \<not> iswhite g2 r"
      using markerD_value [OF marker_userdata _ v(2)] g(1) by auto
    let ?h = "case uv of Own _ \<Rightarrow> (\<lambda>m. m OR bitmask BLACKBIT) | OnStack _ _ \<Rightarrow> (\<lambda>m. m)"
    have nx: "\<not> iswhite g2 ob" using traced_white [OF g2(2)] white2gray_mask by blast
    have h: "\<not> iswhite (set_mark ob ?h g2) ob"
      using nx gray2black_colours(1) [of ob g2 ob] by (cases uv) (simp_all add: set_mark_id gray2black_def)
    have "marked g2 ob = marked ?g1 ob" using traced_mark [OF g2(2), of ob] white2gray_mask by blast
    then have "isblack g2 ob = isblack g ob" using white2gray_colours(2) [of ob g ob] by (simp add: isblack_def white2gray_def)
    then have k: "open_upval g ob \<Longrightarrow> isblack (set_mark ob ?h g2) ob \<Longrightarrow> isblack g ob" "\<not> listed_kind g ob"
      using b by (auto simp: open_upval_def listed_kind_def kind_at_def set_mark_id)
    have "traced g (set_mark ob ?h g2)"
      by (rule traced_visit [OF g(3) g2(2) white2gray_mask _ h _ _ k(2,1)])
        (use refs b g2(3) in \<open>auto simp: bit_mask_high split: upval_place.splits\<close>)
    moreover have "really_mark (Suc (Suc (Suc n))) ob g = Inr (set_mark ob ?h g2)"
      using b v(1) [unfolded b(1)] g2(1) [unfolded b(1)]
      by (subst really_mark.simps, cases uv)
        (simp_all add: body_at_def Let_def white2gray_def gray2black_def set_mark_id del: really_mark.simps)
    ultimately show ?thesis using h by blast
  qed
qed

lemma reallymarkobject_marker: "marker {5, 6, 7, 8, 9, 10} reallymarkobject"
  using marker_all [of 0] by (simp add: reallymarkobject_def numeral_3_eq_3)

text \<open>The marking operations of the traversals.\<close>

lemma kind_at_cases: "allocated g (GCAddr a) \<Longrightarrow> the (kind_at g a) \<in> {5, 6, 7, 8, 9, 10}"
proof -
  assume "allocated g (GCAddr a)"
  then obtain b where "g_obj g a = Some b" by auto
  then show ?thesis by (cases b) (simp_all add: kind_at_def)
qed

lemma markobject_traced: "all_ok g \<Longrightarrow> allocated g ob \<Longrightarrow> \<exists>g'. markobject ob g = Inr g' \<and> traced g g' \<and> \<not> iswhite g' ob"
  unfolding markobject_def by (rule markerD [OF reallymarkobject_marker]) (use kind_at_cases in auto)

lemma markvalue_traced:
  "all_ok g \<Longrightarrow> value_ok g v \<Longrightarrow> \<exists>g'. markvalue v g = Inr g' \<and> traced g g' \<and> (\<forall>r\<in>vref v. \<not> iswhite g' r)"
  unfolding markvalue_def by (rule markerD_value [OF reallymarkobject_marker]) auto

lemma markobject_opt_traced:
  "all_ok g \<Longrightarrow> pointer_ok g tt p \<Longrightarrow> \<exists>g'. markobject_opt p g = Inr g' \<and> traced g g' \<and> (\<forall>r\<in>pref p. \<not> iswhite g' r)"
  using markobject_traced kind_at_allocated
  by (cases p) (auto simp: markobject_opt_def pref_def pointer_ok_def simp del: allocated.simps)

lemma traced_stringmark: "traced g (white2gray (GCString s) g)"
proof (cases "iswhite g (GCString s)")
  case True
  have "traced g (set_mark (GCString s) (\<lambda>m. m) (white2gray (GCString s) g))"
    by (rule traced_visit [OF True, of "\<lambda>m. m AND NOT WHITEBITS"])
      (simp_all add: white2gray_def [symmetric] set_mark_id bit_mask_high listed_kind_def open_upval_def)
  then show ?thesis by (simp add: set_mark_id)
next
  case False
  then have "bit (marked g (GCString s) AND NOT WHITEBITS) n = bit (marked g (GCString s)) n" for n
    by (cases "n = 0"; cases "n = 1") (auto simp: iswhite_bit bit_and_iff bit_not_iff possible_bit_def dest: bit_byte_high)
  then have "marked g (GCString s) AND NOT WHITEBITS = marked g (GCString s)" by (rule bit_eqI)
  then have "white2gray (GCString s) g = g" by (simp add: white2gray_def set_mark_def)
  then show ?thesis by simp
qed

lemma stringmark_opt_traced:
  "string_ok g p \<Longrightarrow> \<exists>g'. stringmark_opt p g = Inr g' \<and> traced g g' \<and> (\<forall>r\<in>sref p. \<not> iswhite g' r)"
  using traced_stringmark
  by (cases p) (auto simp: stringmark_opt_def stringmark_def sref_def string_ok_def simp del: allocated.simps)

text \<open>A sequence of markings.\<close>

lemma fold_traced:
  assumes "\<And>x g1. x \<in> set xs \<Longrightarrow> traced g g1 \<Longrightarrow> \<exists>g2. F x g1 = Inr g2 \<and> traced g1 g2 \<and> (\<forall>r\<in>R x. \<not> iswhite g2 r)"
  shows "\<exists>g'. fold_result F xs g = Inr g' \<and> traced g g' \<and> (\<forall>x\<in>set xs. \<forall>r\<in>R x. \<not> iswhite g' r)"
  using assms
proof (induction xs arbitrary: g)
  case (Cons x xs)
  obtain g2 where g2: "F x g = Inr g2" "traced g g2" "\<forall>r\<in>R x. \<not> iswhite g2 r" using Cons.prems [of x g] by auto
  have "\<exists>g'. fold_result F xs g2 = Inr g' \<and> traced g2 g' \<and> (\<forall>x\<in>set xs. \<forall>r\<in>R x. \<not> iswhite g' r)"
    by (rule Cons.IH) (use Cons.prems traced_trans [OF g2(2)] in auto)
  then obtain g' where g': "fold_result F xs g2 = Inr g'" "traced g2 g'" "\<forall>x\<in>set xs. \<forall>r\<in>R x. \<not> iswhite g' r" by blast
  show ?case using g2 g' traced_trans [OF g2(2) g'(2)] traced_white [OF g'(2)] by auto
qed simp
section \<open>Traversals\<close>

subsection \<open>Changes of the heap alone\<close>

lemma traced_heap_only:
  assumes "same_heap g g'" "g' = g\<lparr>g_obj := g_obj g', g_totalbytes := g_totalbytes g'\<rparr>"
  shows "traced g g'"
proof -
  have m: "marked g' = marked g" "g_gray g' = g_gray g" "same_fields g g'"
    by (subst assms(2), simp add: same_fields_def)+
  then have "\<And>x. iswhite g' x = iswhite g x" by (simp add: iswhite_def)
  with assms(1) m show ?thesis by (intro tracedI [where new = "[]"]) simp_all
qed

lemma set_body_same:
  assumes "g_obj g a = Some b" "same_body b b'"
  shows "same_heap g (set_body a b' g)"
  using assms by (auto simp: same_heap_def set_body_def)

lemma set_body_traced: "g_obj g a = Some b \<Longrightarrow> same_body b b' \<Longrightarrow> traced g (set_body a b' g)"
  by (rule traced_heap_only [OF set_body_same]) (simp_all add: set_body_def)

lemma flags_same_table: "same_table h (h\<lparr>flags := f\<rparr>)"
  by (simp add: same_table_def)

lemma kind_at_body:
  "kind_at g a = Some 5 \<Longrightarrow> \<exists>h. g_obj g a = Some (OTable h)"
  "kind_at g a = Some 7 \<Longrightarrow> \<exists>mt env len. g_obj g a = Some (OUserdata mt env len)"
  "kind_at g a = Some 8 \<Longrightarrow> \<exists>th. g_obj g a = Some (OThread th)"
  "kind_at g a = Some 10 \<Longrightarrow> \<exists>uv. g_obj g a = Some (OUpval uv)"
  unfolding kind_at_def by (cases "g_obj g a"; (cases "the (g_obj g a)"; simp)?)+

lemma gfasttm_traced:
  assumes "all_ok g" "pointer_ok g 5 et"
  shows "\<exists>tm g'. gfasttm g et event = Inr (tm, g') \<and> traced g g'"
proof (cases et)
  case (Some p)
  then obtain t where t: "g_obj g p = Some (OTable t)"
    using assms(2) kind_at_body(1) by (auto simp: pointer_ok_def)
  then have wf: "wf_table t" using all_okD [OF assms(1)] by fastforce
  have "wf0 t" using wf by (simp add: wf_table_def)
  then obtain s where "luaH_get t (TStr (tmname event)) = Inr s" by (rule luaH_get_spec)
  then have s: "luaH_getstr t (tmname event) = Inr s" by simp
  have tr: "traced g (set_body p (OTable (t\<lparr>flags := f\<rparr>)) g)" for f
    by (rule set_body_traced [OF t]) (simp add: flags_same_table)
  from tr [of "flags t"] have tr0: "traced g (set_body p (OTable t) g)" by simp
  show ?thesis using Some t s tr tr0
    by (simp add: gfasttm_def gc_table_def luaT_gettm_def Let_def)
qed (simp add: gfasttm_def)
subsection \<open>Tables\<close>

text \<open>An entry whose value is nil may get a dead key: no search finds it, and the chains are as they were.\<close>

lemma wf_h_bury:
  assumes wf: "wf_h N mpos nx ky vl"
    and ky: "\<And>j. ky' j = ky j \<or> (\<exists>p. ky' j = DeadKey p) \<and> ky j \<noteq> Key TNil \<and> vl j = TNil"
  shows "wf_h N mpos nx ky' vl"
proof -
  have key: "ky j = Key k" if "ky' j = Key k" for j k using ky [of j] that by auto
  have nil: "ky' j \<noteq> Key TNil" if "ky j \<noteq> Key TNil" for j using ky [of j] that by auto
  have dead: "vl j = TNil" if "ky' j = DeadKey p" "j < N" for j p
    using ky [of j] that dead_okD [OF wf that(2), of p] by auto
  have "next_ok N nx ky'" using wf nil unfolding wf_h_def next_ok_def by blast
  moreover have "free_ok N nx ky' vl" using wf key unfolding wf_h_def free_ok_def by blast
  moreover have "dead_ok N ky' vl" using dead unfolding dead_ok_def by blast
  moreover have "keys_valid N ky'" using wf key unfolding wf_h_def keys_valid_def by blast
  moreover have "keys_reach N mpos nx ky'" using wf key unfolding wf_h_def keys_reach_def by blast
  moreover have "main_ok N mpos ky'" using wf key unfolding wf_h_def main_ok_def by blast
  moreover have "keys_uniq N ky'" using wf key unfolding wf_h_def keys_uniq_def by blast
  ultimately show ?thesis using wf unfolding wf_h_def by blast
qed

lemma wf_table_bury:
  assumes wf: "wf_table h" and i: "i < length (node h)" "i_val (node h ! i) = TNil"
    and n: "n = removeentry (node h ! i)"
  shows "wf_table (h\<lparr>node := (node h)[i := n]\<rparr>)"
proof -
  define ns where "ns = (node h)[i := n]"
  have same: "nk_next (ns ! j) = nk_next (node h ! j)" "i_val (ns ! j) = i_val (node h ! j)" "length ns = length (node h)" for j
    using n by (cases "j = i", simp_all add: ns_def i removeentry_def split: option.splits)+
  have ky: "i_key (ns ! j) = i_key (node h ! j) \<or> (\<exists>p. i_key (ns ! j) = DeadKey p) \<and> i_key (node h ! j) \<noteq> Key TNil \<and> i_val (node h ! j) = TNil" for j
    using n i by (cases "j = i") (auto simp: ns_def removeentry_def key_object_def split: option.splits TKey.splits)
  have key: "i_key (ns ! j) = Key k \<Longrightarrow> i_key (node h ! j) = Key k" for j k using ky [of j] by auto
  have mp: "mainposition (h\<lparr>node := ns\<rparr>) = mainposition h" by (rule mainposition_lsizenode) simp
  have w: "wf_nodes h" "wf_lastfree h" "no_array_keys h" "wf_sizes h" "length (array h) = sizearray h"
    using wf by (simp_all add: wf_table_def wf0_def)
  have "wf_nodes (h\<lparr>node := ns\<rparr>)"
    using wf_h_bury [OF w(1) [unfolded wf_nodes_def], of "\<lambda>j. i_key (ns ! j)"] ky by (simp add: wf_nodes_def mp same)
  moreover have "wf_lastfree (h\<lparr>node := ns\<rparr>)"
  proof (cases "isdummy h")
    case True
    then have "node h = [dummynode]" using w(2) by (simp add: wf_lastfree_def)
    then have "ns = node h" using i(1) n by (simp add: ns_def dummynode_def removeentry_def key_object_def)
    then show ?thesis using w(2) by simp
  next
    case False
    then show ?thesis using w(2) key by (auto simp: wf_lastfree_def same)
  qed
  moreover have "\<exists>m\<in>set (node h). i_key m = Key k" if "m \<in> set ns" "i_key m = Key k" for m k
    using that key same(3) nth_mem by (metis in_set_conv_nth)
  then have "no_array_keys (h\<lparr>node := ns\<rparr>)" using w(3) by (fastforce simp: no_array_keys_def)
  moreover have "wf_sizes (h\<lparr>node := ns\<rparr>)" using w(4) by (simp add: wf_sizes_def sizenode_def same)
  ultimately show ?thesis using w(5) by (simp add: wf_table_def wf0_def ns_def)
qed
lemma mark_key_Key: "mark_key (Key k) g = markvalue k g"
  by (cases "gcvalue k") (simp_all add: mark_key_def key_object_def markvalue_def mark_white_value_def markobject_def)

lemma traversenode_traced:
  assumes ok: "all_ok g" and h: "g_obj g a = Some (OTable h)" and i: "i < length (node h)"
  shows "\<exists>g'. traversenode a wk wv i g = Inr g' \<and> traced g g' \<and> (\<forall>r\<in>node_refs wk wv (node h ! i). \<not> iswhite g' r)"
proof -
  let ?n = "node h ! i"
  have b: "body_ok g (OTable h)" by (rule all_okD [OF ok h])
  have n: "node_at g a i = Inr ?n" using h i by (simp add: node_at_def gc_table_def)
  show ?thesis
  proof (cases "i_val ?n = TNil")
    case True
    let ?h = "h\<lparr>node := (node h)[i := removeentry ?n]\<rparr>"
    have "wf_table ?h" if "wf_table h" by (rule wf_table_bury [OF that i True refl])
    then have "same_table h ?h"
      using True i by (auto simp: same_table_def nth_list_update removeentry_def split: option.splits)
    then have "traced g (set_body a (OTable ?h) g)" by (intro set_body_traced [OF h]) simp
    then show ?thesis using n h True by (simp add: traversenode_def set_node_def gc_table_def node_refs_def)
  next
    case False
    obtain k where k: "i_key ?n = Key k" "value_ok g k" and v: "value_ok g (i_val ?n)"
      using b False nth_mem [OF i] by (auto simp del: body_ok.simps(2-))
    have "\<exists>g1. (if \<not> wk then mark_key (i_key ?n) g else Inr g) = Inr g1 \<and> traced g g1 \<and> (\<not> wk \<longrightarrow> (\<forall>r\<in>vref k. \<not> iswhite g1 r))"
      using markvalue_traced [OF ok k(2)] k(1) by (simp add: mark_key_Key)
    then obtain g1 where g1: "(if \<not> wk then mark_key (i_key ?n) g else Inr g) = Inr g1" "traced g g1"
      "\<not> wk \<Longrightarrow> \<forall>r\<in>vref k. \<not> iswhite g1 r" by blast
    have "all_ok g1" "value_ok g1 (i_val ?n)"
      using same_heap_all_ok [OF traced_heap [OF g1(2)] ok] same_heap_value [OF traced_heap [OF g1(2)]] v by simp_all
    then have "\<exists>g2. (if \<not> wv then markvalue (i_val ?n) g1 else Inr g1) = Inr g2 \<and> traced g1 g2 \<and> (\<not> wv \<longrightarrow> (\<forall>r\<in>vref (i_val ?n). \<not> iswhite g2 r))"
      using markvalue_traced by simp
    then obtain g2 where g2: "(if \<not> wv then markvalue (i_val ?n) g1 else Inr g1) = Inr g2" "traced g1 g2"
      "\<not> wv \<Longrightarrow> \<forall>r\<in>vref (i_val ?n). \<not> iswhite g2 r" by blast
    have "\<forall>r\<in>node_refs wk wv ?n. \<not> iswhite g2 r"
      using g1(3) g2(3) traced_white [OF g2(2)] False k(1) by (auto simp: node_refs_def key_object_def vref_def)
    moreover have "traversenode a wk wv i g = Inr g2" using n False g1(1) g2(1) by (simp add: traversenode_def)
    ultimately show ?thesis using traced_trans [OF g1(2) g2(2)] by blast
  qed
qed

lemma fold_nodes_traced:
  assumes ok: "all_ok g" and h: "g_obj g a = Some (OTable h)"
  shows "\<exists>g'. fold_result (traversenode a wk wv) (rev [0..<length (node h)]) g = Inr g' \<and> traced g g' \<and>
    (\<forall>r\<in>\<Union> (node_refs wk wv ` set (node h)). \<not> iswhite g' r)"
proof -
  have "\<exists>g'. fold_result (traversenode a wk wv) (rev [0..<length (node h)]) g = Inr g' \<and> traced g g' \<and>
    (\<forall>i\<in>set (rev [0..<length (node h)]). \<forall>r\<in>node_refs wk wv (node h ! i). \<not> iswhite g' r)"
  proof (rule fold_traced)
    fix i g1 assume i: "i \<in> set (rev [0..<length (node h)])" and t: "traced g g1"
    from same_heap_Some [OF traced_heap [OF t] h] obtain h1 where h1: "g_obj g1 a = Some (OTable h1)" "same_table h h1" by auto
    have "i < length (node h1)" "node_refs wk wv (node h1 ! i) = node_refs wk wv (node h ! i)"
      using h1(2) i by (auto simp: same_table_def node_refs_def)
    with traversenode_traced [OF same_heap_all_ok [OF traced_heap [OF t] ok] h1(1), of i wk wv]
    show "\<exists>g2. traversenode a wk wv i g1 = Inr g2 \<and> traced g1 g2 \<and> (\<forall>r\<in>node_refs wk wv (node h ! i). \<not> iswhite g2 r)" by simp
  qed
  then show ?thesis by (fastforce simp: in_set_conv_nth)
qed

lemma fold_array_traced:
  assumes ok: "all_ok g" and h: "g_obj g a = Some (OTable h)"
  shows "\<exists>g'. fold_result (\<lambda>i g. bind_result (array_at g a i) (\<lambda>v. markvalue v g)) (rev [0..<length (array h)]) g = Inr g' \<and>
    traced g g' \<and> (\<forall>r\<in>\<Union> (vref ` set (array h)). \<not> iswhite g' r)"
proof -
  have b: "\<forall>v\<in>set (array h). value_ok g v" using all_okD [OF ok h] by simp
  have "\<exists>g'. fold_result (\<lambda>i g. bind_result (array_at g a i) (\<lambda>v. markvalue v g)) (rev [0..<length (array h)]) g = Inr g' \<and>
    traced g g' \<and> (\<forall>i\<in>set (rev [0..<length (array h)]). \<forall>r\<in>vref (array h ! i). \<not> iswhite g' r)"
  proof (rule fold_traced)
    fix i g1 assume i: "i \<in> set (rev [0..<length (array h)])" and t: "traced g g1"
    from same_heap_Some [OF traced_heap [OF t] h] obtain h1 where h1: "g_obj g1 a = Some (OTable h1)" "same_table h h1" by auto
    have v: "value_ok g1 (array h ! i)" using b i same_heap_value [OF traced_heap [OF t]] by simp
    have "array_at g1 a i = Inr (array h ! i)" using h1 i by (simp add: array_at_def gc_table_def same_table_def)
    with markvalue_traced [OF same_heap_all_ok [OF traced_heap [OF t] ok] v]
    show "\<exists>g2. bind_result (array_at g1 a i) (\<lambda>v. markvalue v g1) = Inr g2 \<and> traced g1 g2 \<and> (\<forall>r\<in>vref (array h ! i). \<not> iswhite g2 r)" by simp
  qed
  then show ?thesis by (fastforce simp: in_set_conv_nth)
qed

text \<open>A table found to be weak.\<close>

definition push_weak :: "addr \<Rightarrow> bool \<Rightarrow> bool \<Rightarrow> collector \<Rightarrow> collector" where
  "push_weak a wk wv g = (set_mark (GCAddr a) (weak_bits wk wv) g)\<lparr>g_weak := GCAddr a # g_weak g\<rparr>"

lemma weak_bits_bit: "bit (weak_bits wk wv m) n \<longleftrightarrow> (if n = 3 then wk else if n = 4 then wv else bit m n)"
  by (auto simp: weak_bits_def bit_and_iff bit_or_iff bit_not_iff bit_push_bit_iff KEYWEAKBIT_def VALUEWEAKBIT_def possible_bit_def
      of_bool_def bit_1_iff dest: bit_byte_high)

lemma push_weak_colours [simp]: "iswhite (push_weak a wk wv g) x = iswhite g x" "isblack (push_weak a wk wv g) x = isblack g x"
  by (auto simp: push_weak_def iswhite_bit isblack_bit weak_bits_bit)

lemma push_weak_fields [simp]:
  "g_obj (push_weak a wk wv g) = g_obj g" "g_strt (push_weak a wk wv g) = g_strt g" "g_gray (push_weak a wk wv g) = g_gray g"
  "grayagain (push_weak a wk wv g) = grayagain g" "g_weak (push_weak a wk wv g) = GCAddr a # g_weak g"
  "g_rootgc (push_weak a wk wv g) = g_rootgc g" "g_tmudata (push_weak a wk wv g) = g_tmudata g"
  "g_uvhead (push_weak a wk wv g) = g_uvhead g" "g_mt (push_weak a wk wv g) = g_mt g"
  "g_mainthread (push_weak a wk wv g) = g_mainthread g" "g_registry (push_weak a wk wv g) = g_registry g"
  "g_currentwhite (push_weak a wk wv g) = g_currentwhite g" "g_gcstate (push_weak a wk wv g) = g_gcstate g"
  by (simp_all add: push_weak_def)

lemma all_ok_cong:
  assumes "g_obj g' = g_obj g" "g_strt g' = g_strt g"
  shows "all_ok g' = all_ok g"
proof -
  have v: "value_ok g' v = value_ok g v" for v by (cases v) (simp_all add: kind_at_def assms)
  have "body_ok g' b = body_ok g b" for b
    by (cases "(g, b)" rule: body_ok.cases) (auto simp: v pointer_ok_def string_ok_def kind_at_def assms)
  then show ?thesis by (simp add: all_ok_def assms)
qed

lemma traversetable_spec:
  assumes ok: "all_ok g" and h: "g_obj g a = Some (OTable h)" and w: "GCAddr a \<notin> set (g_weak g)"
  shows "\<exists>wk wv g1 g2 g'. traversetable a h g = Inr (wk \<or> wv, g') \<and> traced g g1 \<and>
    g2 = (if wk \<or> wv then push_weak a wk wv g1 else g1) \<and> traced g2 g' \<and> (\<forall>r\<in>strong_refs g' a. \<not> iswhite g' r)"
proof -
  have b: "body_ok g (OTable h)" by (rule all_okD [OF ok h])
  then have wf: "sizearray h = length (array h)" "sizenode h = length (node h)" and mt: "pointer_ok g 5 (metatable h)"
    by (simp_all add: wf_table_def wf0_def wf_sizes_def)
  obtain m1 where m1: "markobject_opt (metatable h) g = Inr m1" "traced g m1" "\<forall>r\<in>pref (metatable h). \<not> iswhite m1 r"
    using markobject_opt_traced [OF ok mt] by blast
  have "all_ok m1" "pointer_ok m1 5 (metatable h)"
    using same_heap_all_ok [OF traced_heap [OF m1(2)] ok] mt same_heap_kind [OF traced_heap [OF m1(2)]] by (simp_all add: pointer_ok_def)
  then obtain tm g1 where m2: "gfasttm m1 (metatable h) TM_MODE = Inr (tm, g1)" "traced m1 g1" using gfasttm_traced by blast
  obtain wk wv where wm: "weak_mode tm = (wk, wv)" by (cases "weak_mode tm") blast
  have t1: "traced g g1" by (rule traced_trans [OF m1(2) m2(2)])
  define g2 where "g2 = (if wk \<or> wv then push_weak a wk wv g1 else g1)"
  have g2: "g_obj g2 = g_obj g1" "all_ok g2" "\<And>x. iswhite g2 x = iswhite g1 x"
    using same_heap_all_ok [OF traced_heap [OF t1] ok] all_ok_cong [of g2 g1] by (simp_all add: g2_def)
  obtain h2 where h2: "g_obj g2 a = Some (OTable h2)" "same_table h h2"
    using same_heap_Some [OF traced_heap [OF t1] h] g2(1) by auto
  have sz: "sizearray h = length (array h2)" "sizenode h = length (node h2)" "metatable h2 = metatable h"
    using h2(2) wf by (simp_all add: same_table_def)
  have mtw: "\<forall>r\<in>pref (metatable h). \<not> iswhite g2 r" using m1(3) traced_white [OF m2(2)] g2(3) by blast
  have rest: "traversetable a h g =
      (if wk \<and> wv then Inr (True, g2)
       else bind_result
           (if \<not> wv then fold_result (\<lambda>i g. bind_result (array_at g a i) (\<lambda>v. markvalue v g)) (rev [0..<length (array h2)]) g2 else Inr g2) (\<lambda>g.
         bind_result (fold_result (traversenode a wk wv) (rev [0..<length (node h2)]) g) (\<lambda>g. Inr (wk \<or> wv, g))))"
    using m1(1) m2(1) wm by (simp add: traversetable_def g2_def push_weak_def Let_def sz)
  have wbits: "weak_keys g2 a = wk" "weak_values g2 a = wv"
    using w traced_fields(9) [OF t1]
    by (auto simp: weak_keys_def weak_values_def g2_def push_weak_def weak_bits_bit KEYWEAKBIT_def VALUEWEAKBIT_def)
  have "\<exists>g'. traversetable a h g = Inr (wk \<or> wv, g') \<and> traced g2 g' \<and> (\<forall>r\<in>strong_refs g2 a. \<not> iswhite g' r)"
  proof (cases "wk \<and> wv")
    case True
    have "\<forall>r\<in>strong_refs g2 a. \<not> iswhite g2 r"
      using mtw True h2(1) sz(3) by (auto simp: strong_refs_def wbits table_refs_def node_refs_def split: if_splits)
    then show ?thesis using rest True by auto
  next
    case False
    have "\<exists>g3. (if \<not> wv then fold_result (\<lambda>i g. bind_result (array_at g a i) (\<lambda>v. markvalue v g)) (rev [0..<length (array h2)]) g2 else Inr g2) = Inr g3 \<and>
        traced g2 g3 \<and> (\<not> wv \<longrightarrow> (\<forall>r\<in>\<Union> (vref ` set (array h2)). \<not> iswhite g3 r))"
      using fold_array_traced [OF g2(2) h2(1)] by auto
    then obtain g3 where g3: "(if \<not> wv then fold_result (\<lambda>i g. bind_result (array_at g a i) (\<lambda>v. markvalue v g)) (rev [0..<length (array h2)]) g2 else Inr g2) = Inr g3"
        "traced g2 g3" "\<not> wv \<Longrightarrow> \<forall>r\<in>\<Union> (vref ` set (array h2)). \<not> iswhite g3 r" by blast
    obtain h3 where h3: "g_obj g3 a = Some (OTable h3)" "same_table h2 h3" using same_heap_Some [OF traced_heap [OF g3(2)] h2(1)] by auto
    have n3: "length (node h2) = length (node h3)" using h3(2) by (simp add: same_table_def)
    obtain g' where g': "fold_result (traversenode a wk wv) (rev [0..<length (node h2)]) g3 = Inr g'" "traced g3 g'"
        "\<forall>r\<in>\<Union> (node_refs wk wv ` set (node h3)). \<not> iswhite g' r"
      using fold_nodes_traced [OF same_heap_all_ok [OF traced_heap [OF g3(2)] g2(2)] h3(1), of wk wv] unfolding n3 by blast
    have t: "traced g2 g'" by (rule traced_trans [OF g3(2) g'(2)])
    have "\<not> iswhite g' r" if r: "r \<in> strong_refs g2 a" for r
    proof -
      have "r \<in> pref (metatable h) \<or> \<not> wv \<and> r \<in> \<Union> (vref ` set (array h2)) \<or> r \<in> \<Union> (node_refs wk wv ` set (node h3))"
        using r h2(1) sz(3) node_refs_same [OF h3(2), of wk wv]
        by (auto simp: strong_refs_def wbits table_refs_def split: if_splits)
      then show ?thesis using mtw g3(3) g'(3) traced_white [OF g'(2), of r] traced_white [OF t, of r] by blast
    qed
    then show ?thesis using rest False g3(1) g'(1) t by auto
  qed
  then obtain g' where g': "traversetable a h g = Inr (wk \<or> wv, g')" "traced g2 g'" "\<forall>r\<in>strong_refs g2 a. \<not> iswhite g' r" by blast
  then have "\<forall>r\<in>strong_refs g' a. \<not> iswhite g' r" by (simp add: traced_refs)
  with g' t1 g2_def show ?thesis by blast
qed
subsection \<open>Closures, prototypes and threads\<close>

lemma fold_values_traced:
  assumes "all_ok g" "\<forall>v\<in>set vs. value_ok g v"
  shows "\<exists>g'. fold_result markvalue vs g = Inr g' \<and> traced g g' \<and> (\<forall>v\<in>set vs. \<forall>r\<in>vref v. \<not> iswhite g' r)"
  by (rule fold_traced)
    (use assms markvalue_traced same_heap_all_ok traced_heap same_heap_value in metis)

lemma fold_pointers_traced:
  assumes "all_ok g" "\<forall>p\<in>set ps. pointer_ok g tt p"
  shows "\<exists>g'. fold_result markobject_opt ps g = Inr g' \<and> traced g g' \<and> (\<forall>p\<in>set ps. \<forall>r\<in>pref p. \<not> iswhite g' r)"
proof (rule fold_traced)
  fix p g1 assume "p \<in> set ps" and t: "traced g g1"
  then have "pointer_ok g1 tt p" using assms(2) same_heap_kind [OF traced_heap [OF t]] by (simp add: pointer_ok_def)
  then show "\<exists>g2. markobject_opt p g1 = Inr g2 \<and> traced g1 g2 \<and> (\<forall>r\<in>pref p. \<not> iswhite g2 r)"
    by (rule markobject_opt_traced [OF same_heap_all_ok [OF traced_heap [OF t] assms(1)]])
qed

lemma fold_strings_traced:
  assumes "\<forall>s\<in>set ss. string_ok g s"
  shows "\<exists>g'. fold_result stringmark_opt ss g = Inr g' \<and> traced g g' \<and> (\<forall>s\<in>set ss. \<forall>r\<in>sref s. \<not> iswhite g' r)"
proof (rule fold_traced)
  fix s g1 assume "s \<in> set ss" and t: "traced g g1"
  then have "string_ok g1 s" using assms same_heap_allocated [OF traced_heap [OF t]] by (simp add: string_ok_def del: allocated.simps)
  then show "\<exists>g2. stringmark_opt s g1 = Inr g2 \<and> traced g1 g2 \<and> (\<forall>r\<in>sref s. \<not> iswhite g2 r)"
    by (rule stringmark_opt_traced)
qed

text \<open>What is well formed stays so while objects are traced.\<close>

lemma traced_ok: "traced g g' \<Longrightarrow> all_ok g \<Longrightarrow> all_ok g'" "traced g g' \<Longrightarrow> body_ok g b \<Longrightarrow> body_ok g' b"
  "traced g g' \<Longrightarrow> kind_at g' a = kind_at g a" "traced g g' \<Longrightarrow> allocated g' x = allocated g x"
  "traced g g' \<Longrightarrow> value_ok g' v = value_ok g v"
  using same_heap_all_ok same_heap_body_ok [OF _ _ same_body_refl] same_heap_kind same_heap_allocated same_heap_value traced_heap
  by meson+

lemma traverseproto_traced:
  assumes ok: "all_ok g" and b: "body_ok g (OProto p)"
  shows "\<exists>g'. traverseproto p g = Inr g' \<and> traced g g' \<and> (\<forall>r\<in>body_refs g wk wv (OProto p). \<not> iswhite g' r)"
proof -
  obtain g1 where g1: "stringmark_opt (gp_source p) g = Inr g1" "traced g g1" "\<forall>r\<in>sref (gp_source p). \<not> iswhite g1 r"
    using stringmark_opt_traced [of g "gp_source p"] b by auto
  note b1 = traced_ok(2) [OF g1(2) b] and ok1 = traced_ok(1) [OF g1(2) ok]
  obtain g2 where g2: "fold_result markvalue (gp_k p) g1 = Inr g2" "traced g1 g2" "\<forall>v\<in>set (gp_k p). \<forall>r\<in>vref v. \<not> iswhite g2 r"
    using fold_values_traced [OF ok1, of "gp_k p"] b1 by auto
  note b2 = traced_ok(2) [OF g2(2) b1] and ok2 = traced_ok(1) [OF g2(2) ok1]
  obtain g3 where g3: "fold_result stringmark_opt (gp_upvalues p) g2 = Inr g3" "traced g2 g3" "\<forall>s\<in>set (gp_upvalues p). \<forall>r\<in>sref s. \<not> iswhite g3 r"
    using fold_strings_traced [of "gp_upvalues p" g2] b2 by auto
  note b3 = traced_ok(2) [OF g3(2) b2] and ok3 = traced_ok(1) [OF g3(2) ok2]
  obtain g4 where g4: "fold_result markobject_opt (gp_p p) g3 = Inr g4" "traced g3 g4" "\<forall>q\<in>set (gp_p p). \<forall>r\<in>pref q. \<not> iswhite g4 r"
    using fold_pointers_traced [OF ok3, of "gp_p p" 9] b3 by auto
  note b4 = traced_ok(2) [OF g4(2) b3]
  obtain g5 where g5: "fold_result stringmark_opt (gp_locvars p) g4 = Inr g5" "traced g4 g5" "\<forall>s\<in>set (gp_locvars p). \<forall>r\<in>sref s. \<not> iswhite g5 r"
    using fold_strings_traced [of "gp_locvars p" g4] b4 by auto
  note t4 = traced_trans [OF g4(2) g5(2)]
  note t3 = traced_trans [OF g3(2) t4]
  note t2 = traced_trans [OF g2(2) t3]
  have "\<not> iswhite g5 r" if "r \<in> body_refs g wk wv (OProto p)" for r
    using that g1(3) g2(3) g3(3) g4(3) g5(3) traced_white [OF t2, of r] traced_white [OF t3, of r]
      traced_white [OF t4, of r] traced_white [OF g5(2), of r] by auto
  then show ?thesis using g1(1) g2(1) g3(1) g4(1) g5(1) traced_trans [OF g1(2) t2]
    by (intro exI [of _ g5]) (simp add: traverseproto_def del: body_refs.simps)
qed

lemma traverseLclosure_traced:
  assumes ok: "all_ok g" and b: "body_ok g (OLclosure env p us)"
  shows "\<exists>g'. traverseLclosure env p us g = Inr g' \<and> traced g g' \<and> (\<forall>r\<in>body_refs g wk wv (OLclosure env p us). \<not> iswhite g' r)"
proof -
  obtain g1 where g1: "markobject (GCAddr env) g = Inr g1" "traced g g1" "\<not> iswhite g1 (GCAddr env)"
    using markobject_traced [OF ok] b kind_at_allocated by (metis body_ok.simps(5))
  note b1 = traced_ok(2) [OF g1(2) b] and ok1 = traced_ok(1) [OF g1(2) ok]
  obtain g2 where g2: "markobject (GCAddr p) g1 = Inr g2" "traced g1 g2" "\<not> iswhite g2 (GCAddr p)"
    using markobject_traced [OF ok1] b1 kind_at_allocated by (metis body_ok.simps(5))
  note b2 = traced_ok(2) [OF g2(2) b1] and ok2 = traced_ok(1) [OF g2(2) ok1]
  have "\<exists>g3. fold_result mark_upval us g2 = Inr g3 \<and> traced g2 g3 \<and> (\<forall>u\<in>set us. \<forall>r\<in>pref u. \<not> iswhite g3 r)"
  proof (rule fold_traced)
    fix u g' assume u: "u \<in> set us" and t: "traced g2 g'"
    then obtain a where a: "u = Some a" "kind_at g' a = Some 10" using traced_ok(2) [OF t b2] by auto
    then show "\<exists>g3. mark_upval u g' = Inr g3 \<and> traced g' g3 \<and> (\<forall>r\<in>pref u. \<not> iswhite g3 r)"
      using markobject_traced [OF traced_ok(1) [OF t ok2]] kind_at_allocated [OF a(2)] by (simp add: mark_upval_def pref_def del: allocated.simps)
  qed
  then obtain g3 where g3: "fold_result mark_upval us g2 = Inr g3" "traced g2 g3" "\<forall>u\<in>set us. \<forall>r\<in>pref u. \<not> iswhite g3 r" by blast
  note t2 = traced_trans [OF g2(2) g3(2)]
  have "\<not> iswhite g3 r" if "r \<in> body_refs g wk wv (OLclosure env p us)" for r
    using that g1(3) g2(3) g3(3) traced_white [OF t2, of r] traced_white [OF g3(2), of r] by auto
  then show ?thesis using g1(1) g2(1) g3(1) traced_trans [OF g1(2) t2]
    by (intro exI [of _ g3]) (simp add: traverseLclosure_def del: body_refs.simps)
qed

lemma traverseCclosure_traced:
  assumes ok: "all_ok g" and b: "body_ok g (OCclosure env vs)"
  shows "\<exists>g'. traverseCclosure env vs g = Inr g' \<and> traced g g' \<and> (\<forall>r\<in>body_refs g wk wv (OCclosure env vs). \<not> iswhite g' r)"
proof -
  obtain g1 where g1: "markobject (GCAddr env) g = Inr g1" "traced g g1" "\<not> iswhite g1 (GCAddr env)"
    using markobject_traced [OF ok] b kind_at_allocated by (metis body_ok.simps(6))
  note b1 = traced_ok(2) [OF g1(2) b] and ok1 = traced_ok(1) [OF g1(2) ok]
  obtain g2 where g2: "fold_result markvalue vs g1 = Inr g2" "traced g1 g2" "\<forall>v\<in>set vs. \<forall>r\<in>vref v. \<not> iswhite g2 r"
    using fold_values_traced [OF ok1, of vs] b1 by auto
  have "\<not> iswhite g2 r" if "r \<in> body_refs g wk wv (OCclosure env vs)" for r
    using that g1(3) g2(3) traced_white [OF g2(2), of r] by auto
  then show ?thesis using g1(1) g2(1) traced_trans [OF g1(2) g2(2)]
    by (intro exI [of _ g2]) (simp add: traverseCclosure_def del: body_refs.simps)
qed

lemma foldl_max_less: "foldl max t ts < n \<longleftrightarrow> t < n \<and> (\<forall>x\<in>set ts. x < n)" for n :: nat
  by (induction ts arbitrary: t) auto

lemma foldl_max_ge: "t \<le> foldl max t ts" "x \<in> set ts \<Longrightarrow> x \<le> foldl max t ts" for x :: nat
  using foldl_max_less [of t ts "Suc (foldl max t ts)"] by auto

lemma checkstacksizes_same:
  assumes "checkstacksizes V lim th g = (th', g')" "lim = foldl max (gt_top th) (gt_ci_tops th)"
  shows "same_thread th th' \<and> g' = g\<lparr>g_totalbytes := g_totalbytes g'\<rparr>"
proof -
  have top: "t \<le> lim" if "t \<in> insert (gt_top th) (set (gt_ci_tops th))" for t using foldl_max_ge that assms(2) by auto
  have "same_thread th (fst (gc_reallocstack V (length (gt_stack th2) div 2) th2 g2))"
    if "4 * lim < length (gt_stack th)" "gt_stack th2 = gt_stack th" "gt_top th2 = gt_top th" "gt_gt th2 = gt_gt th"
      "gt_ci_tops th2 = gt_ci_tops th" "gt_openupval th2 = gt_openupval th" for th2 g2
    using that top by (fastforce simp: gc_reallocstack_def same_thread_def Let_def)
  then show ?thesis using assms(1)
    by (auto simp: checkstacksizes_def gc_reallocCI_def gc_reallocstack_def luaM_realloc_def Let_def same_thread_def split: if_splits)
qed

lemma traversestack_traced:
  assumes ok: "all_ok g" and h: "g_obj g a = Some (OThread th)"
  shows "\<exists>g'. traversestack V a th g = Inr g' \<and> traced g g' \<and> (\<forall>r\<in>body_refs g wk wv (OThread th). \<not> iswhite g' r)"
proof -
  let ?lim = "foldl max (gt_top th) (gt_ci_tops th)"
  have b: "body_ok g (OThread th)" by (rule all_okD [OF ok h])
  obtain g1 where g1: "markvalue (gt_gt th) g = Inr g1" "traced g g1" "\<forall>r\<in>vref (gt_gt th). \<not> iswhite g1 r"
    using markvalue_traced [OF ok, of "gt_gt th"] b by auto
  note b1 = traced_ok(2) [OF g1(2) b] and ok1 = traced_ok(1) [OF g1(2) ok]
  obtain g2 where g2: "fold_result markvalue (take (gt_top th) (gt_stack th)) g1 = Inr g2" "traced g1 g2"
    "\<forall>v\<in>set (take (gt_top th) (gt_stack th)). \<forall>r\<in>vref v. \<not> iswhite g2 r"
    using fold_values_traced [OF ok1, of "take (gt_top th) (gt_stack th)"] b1 by auto
  have lim: "?lim < length (gt_stack th)" "gt_top th \<le> ?lim" using b foldl_max_ge(1) by (simp_all add: foldl_max_less)
  let ?th1 = "th\<lparr>gt_stack := take (gt_top th) (gt_stack th) @ replicate (?lim + 1 - gt_top th) TNil @ drop (?lim + 1) (gt_stack th)\<rparr>"
  obtain th' g3 where c: "checkstacksizes V ?lim ?th1 g2 = (th', g3)" by fastforce
  note s = checkstacksizes_same [OF c]
  have "same_thread th ?th1" using lim by (auto simp: same_thread_def)
  then have "same_thread th th'" using s by (auto intro: same_thread_trans)
  have s3: "g3 = g2\<lparr>g_totalbytes := g_totalbytes g3\<rparr>" using s by simp
  have "g_obj g3 = g_obj g2" "g_strt g3 = g_strt g2" by (subst s3, simp)+
  then have "traced g2 g3"
    by (intro traced_heap_only) (use s3 in \<open>simp_all add: same_heap_def\<close>)
  note t2 = traced_trans [OF g1(2) g2(2)] and t3 = traced_trans [OF g2(2) this]
  obtain th3 where th3: "g_obj g3 a = Some (OThread th3)" using same_heap_Some [OF traced_heap [OF traced_trans [OF g1(2) t3]] h] by auto
  then have "same_thread th th3" using same_heap_Some [OF traced_heap [OF traced_trans [OF g1(2) t3]] h] by auto
  then have "same_thread th3 th'" using \<open>same_thread th th'\<close> b by (auto simp: same_thread_def)
  then have f: "traced g3 (set_body a (OThread th') g3)" by (intro set_body_traced [OF th3]) simp
  have "\<not> iswhite g3 r" if "r \<in> body_refs g wk wv (OThread th)" for r
    using that g1(3) g2(3) traced_white [OF t3, of r] traced_white [OF \<open>traced g2 g3\<close>, of r] by auto
  then have "\<not> iswhite (set_body a (OThread th') g3) r" if "r \<in> body_refs g wk wv (OThread th)" for r
    using that traced_white [OF f, of r] by blast
  moreover have "traversestack V a th g = Inr (set_body a (OThread th') g3)"
    using g1(1) g2(1) c lim by (simp add: traversestack_def Let_def)
  ultimately show ?thesis using traced_trans [OF traced_trans [OF g1(2) t3] f]
    by (intro exI [of _ "set_body a (OThread th') g3"]) (simp del: body_refs.simps)
qed

end
