(* ===== verification/Lgc_mark.thy ===== *)
theory Lgc_mark
  imports Lgc_inv
begin

text \<open>
  The marking phase: no object that is done keeps a white object alive but through the gray lists, every step
  of the collector keeps that, and when the lists are empty no white object can be reached.
\<close>

section \<open>The tricolour invariant\<close>

text \<open>
  \<open>closed g P\<close>: an object that is not white, on the gray list or in \<open>P\<close> keeps no white object alive.
\<close>

definition closed :: "collector \<Rightarrow> GCObject set \<Rightarrow> bool" where
  "closed g P \<longleftrightarrow> (\<forall>a. g_obj g a \<noteq> None \<longrightarrow> \<not> iswhite g (GCAddr a) \<longrightarrow> GCAddr a \<notin> P \<longrightarrow> GCAddr a \<notin> set (g_gray g) \<longrightarrow>
     (\<forall>r\<in>strong_refs g a. \<not> iswhite g r))"

lemma closedD: "closed g P \<Longrightarrow> g_obj g a \<noteq> None \<Longrightarrow> \<not> iswhite g (GCAddr a) \<Longrightarrow> GCAddr a \<notin> P \<Longrightarrow>
    GCAddr a \<notin> set (g_gray g) \<Longrightarrow> r \<in> strong_refs g a \<Longrightarrow> \<not> iswhite g r"
  unfolding closed_def by blast

lemma closed_traced:
  assumes t: "traced g g'" and c: "closed g P"
  shows "closed g' P"
  unfolding closed_def
proof (intro allI impI ballI)
  fix a r assume a: "g_obj g' a \<noteq> None" "\<not> iswhite g' (GCAddr a)" "GCAddr a \<notin> P" "GCAddr a \<notin> set (g_gray g')" "r \<in> strong_refs g' a"
  have o: "g_obj g a \<noteq> None" using a(1) traced_ok(4) [OF t, of "GCAddr a"] by simp
  note o = o a(5) [unfolded traced_refs [OF t]]
  show "\<not> iswhite g' r"
  proof (cases "iswhite g (GCAddr a)")
    case True
    then show ?thesis using traced_done [OF t o(1) True a(2,4) o(2)] by blast
  next
    case False
    have "GCAddr a \<notin> set (g_gray g)" using a(4) traced_gray [OF t] by auto
    then have "\<not> iswhite g r" using closedD [OF c o(1) False a(3) _ o(2)] by blast
    then show ?thesis using traced_white [OF t] by blast
  qed
qed

lemma closed_mono: "closed g P \<Longrightarrow> P \<subseteq> Q \<Longrightarrow> closed g Q"
  unfolding closed_def by blast

lemma closed_remove: "closed g (insert (GCAddr a) P) \<Longrightarrow> \<forall>r\<in>strong_refs g a. \<not> iswhite g r \<Longrightarrow> closed g P"
  unfolding closed_def by blast

text \<open>A change of the lists and of marks that neither adds nor takes whiteness.\<close>

lemma closed_cong:
  assumes c: "closed g P" and o: "g_obj g' = g_obj g" and w: "\<And>x. iswhite g' x = iswhite g x"
    and r: "\<And>a. GCAddr a \<notin> Q \<Longrightarrow> strong_refs g' a = strong_refs g a" and p: "P \<union> set (g_gray g) \<subseteq> Q \<union> set (g_gray g')"
  shows "closed g' Q"
  unfolding closed_def
proof (intro allI impI ballI)
  fix a x assume a: "g_obj g' a \<noteq> None" "\<not> iswhite g' (GCAddr a)" "GCAddr a \<notin> Q" "GCAddr a \<notin> set (g_gray g')" "x \<in> strong_refs g' a"
  then have "GCAddr a \<notin> P" "GCAddr a \<notin> set (g_gray g)" using p by blast+
  then show "\<not> iswhite g' x" using closedD [OF c, of a x] a o w r [OF a(3)] by simp
qed

text \<open>
  The objects that wait are those tables, closures, threads and prototypes that are gray, each on one list; but for
  the object in \<open>X\<close> that is being traversed and already black.
\<close>

definition waiting :: "collector \<Rightarrow> GCObject list" where
  "waiting g = g_gray g @ grayagain g @ g_weak g"

definition lists_ok :: "GCObject set \<Rightarrow> collector \<Rightarrow> bool" where
  "lists_ok X g \<longleftrightarrow> distinct (waiting g) \<and> (\<forall>x\<in>set (waiting g). listed_kind g x \<and> \<not> iswhite g x \<and> (isblack g x \<longrightarrow> x \<in> X)) \<and>
     (\<forall>a. GCAddr a \<in> set (g_weak g) \<longrightarrow> kind_at g a = Some 5) \<and> (\<forall>x. iswhite g x \<longrightarrow> \<not> isblack g x) \<and>
     (\<forall>x. listed_kind g x \<longrightarrow> \<not> iswhite g x \<longrightarrow> \<not> isblack g x \<longrightarrow> x \<in> set (waiting g))"

lemma lists_okI:
  assumes "distinct (waiting g)" "\<And>x. x \<in> set (waiting g) \<Longrightarrow> listed_kind g x" "\<And>x. x \<in> set (waiting g) \<Longrightarrow> \<not> iswhite g x"
    "\<And>x. x \<in> set (waiting g) \<Longrightarrow> isblack g x \<Longrightarrow> x \<in> X" "\<And>a. GCAddr a \<in> set (g_weak g) \<Longrightarrow> kind_at g a = Some 5"
    "\<And>x. iswhite g x \<Longrightarrow> \<not> isblack g x"
    "\<And>x. listed_kind g x \<Longrightarrow> \<not> iswhite g x \<Longrightarrow> \<not> isblack g x \<Longrightarrow> x \<in> set (waiting g)"
  shows "lists_ok X g"
  unfolding lists_ok_def using assms by blast

lemma lists_okD:
  assumes "lists_ok X g"
  shows "distinct (waiting g)" "x \<in> set (waiting g) \<Longrightarrow> listed_kind g x" "x \<in> set (waiting g) \<Longrightarrow> \<not> iswhite g x"
    "x \<in> set (waiting g) \<Longrightarrow> isblack g x \<Longrightarrow> x \<in> X" "GCAddr a \<in> set (g_weak g) \<Longrightarrow> kind_at g a = Some 5"
    "iswhite g x \<Longrightarrow> \<not> isblack g x"
    "listed_kind g x \<Longrightarrow> \<not> iswhite g x \<Longrightarrow> \<not> isblack g x \<Longrightarrow> x \<in> set (waiting g)"
  using assms unfolding lists_ok_def by blast+

lemma listed_kind_heap: "same_heap g g' \<Longrightarrow> listed_kind g' x = listed_kind g x"
  by (simp add: listed_kind_def same_heap_kind)

lemma lists_ok_traced:
  assumes t: "traced g g'" and l: "lists_ok X g"
  shows "lists_ok X g'"
proof -
  obtain new where new: "g_gray g' = new @ g_gray g" "distinct new"
    "\<And>x. x \<in> set new \<Longrightarrow> iswhite g x \<and> \<not> iswhite g' x \<and> isblack g' x = isblack g x \<and> listed_kind g x"
    using traced_gray [OF t] by blast
  have w: "waiting g' = new @ waiting g" using new(1) traced_fields [OF t] by (simp add: waiting_def)
  have m: "\<not> iswhite g x \<Longrightarrow> marked g' x = marked g x" "iswhite g' x \<Longrightarrow> marked g' x = marked g x" for x
    using traced_mark [OF t, of x] by blast+
  have lk: "listed_kind g' x = listed_kind g x" for x by (rule listed_kind_heap [OF traced_heap [OF t]])
  have "distinct (waiting g')" using w new(2,3) l by (auto simp: lists_ok_def)
  moreover have "listed_kind g' x \<and> \<not> iswhite g' x \<and> (isblack g' x \<longrightarrow> x \<in> X)" if "x \<in> set (waiting g')" for x
  proof (cases "x \<in> set new")
    case True
    then show ?thesis using new(3) l lk by (auto simp: lists_ok_def)
  next
    case False
    then have "x \<in> set (waiting g)" using that w by simp
    then have "listed_kind g x" "\<not> iswhite g x" "isblack g x \<longrightarrow> x \<in> X" using l by (auto simp: lists_ok_def)
    then show ?thesis using m(1) [of x] lk by (simp add: iswhite_def isblack_def)
  qed
  moreover have "\<not> isblack g' x" if "iswhite g' x" for x
    using m(2) [OF that] that traced_white [OF t that] l by (simp add: lists_ok_def isblack_def)
  moreover have "x \<in> set (waiting g')" if "listed_kind g' x" "\<not> iswhite g' x" "\<not> isblack g' x" for x
  proof (cases "iswhite g x")
    case True
    then have "x \<in> set (g_gray g')" using traced_settled [OF t True that(2)] that(1) lk by (simp add: settled_def)
    then show ?thesis by (simp add: waiting_def)
  next
    case False
    then have "x \<in> set (waiting g)" using that m(1) [OF False] lk l by (simp add: lists_ok_def isblack_def)
    then show ?thesis using w by simp
  qed
  ultimately show ?thesis using l traced_fields(9) [OF t] same_heap_kind [OF traced_heap [OF t]]
    by (simp add: lists_ok_def)
qed

section \<open>One step\<close>

text \<open>The white objects that may still come to the gray list, all on the list of all objects.\<close>

definition rooted :: "collector \<Rightarrow> bool" where
  "rooted g \<longleftrightarrow> (\<forall>x. listed_kind g x \<longrightarrow> x \<in> set (g_rootgc g))"

definition work :: "collector \<Rightarrow> nat" where
  "work g = length (g_gray g) + length (filter (iswhite g) (g_rootgc g))"

lemma work_le: "work g \<le> length (g_gray g) + length (g_rootgc g)"
  by (simp add: work_def)

lemma length_filter_sub:
  assumes "\<And>x. Q x \<Longrightarrow> P x" "distinct new" "\<And>x. x \<in> set new \<Longrightarrow> x \<in> set xs \<and> P x \<and> \<not> Q x"
  shows "length new + length (filter Q xs) \<le> length (filter P xs)"
proof -
  have "length new = card (set new)" using assms(2) by (simp add: distinct_card)
  also have "\<dots> \<le> card (set (filter (\<lambda>x. P x \<and> \<not> Q x) xs))" using assms(3) by (intro card_mono) auto
  also have "\<dots> \<le> length (filter (\<lambda>x. P x \<and> \<not> Q x) xs)" by (rule card_length)
  also have "length (filter (\<lambda>x. P x \<and> \<not> Q x) xs) + length (filter Q xs) = length (filter P xs)"
    using assms(1) by (induction xs) auto
  finally show ?thesis by simp
qed

lemma work_traced:
  assumes t: "traced g g'" and r: "rooted g"
  shows "work g' \<le> work g" "rooted g'"
proof -
  obtain new where new: "g_gray g' = new @ g_gray g" "distinct new"
    "\<And>x. x \<in> set new \<Longrightarrow> iswhite g x \<and> \<not> iswhite g' x \<and> isblack g' x = isblack g x \<and> listed_kind g x"
    using traced_gray [OF t] by blast
  have "length new + length (filter (iswhite g') (g_rootgc g)) \<le> length (filter (iswhite g) (g_rootgc g))"
    by (rule length_filter_sub) (use new traced_white [OF t] r in \<open>auto simp: rooted_def\<close>)
  then show "work g' \<le> work g" using new(1) traced_fields [OF t] by (simp add: work_def)
  show "rooted g'" using r traced_fields [OF t] listed_kind_heap [OF traced_heap [OF t]] by (simp add: rooted_def)
qed
text \<open>What a step of the marking phase leaves alone.\<close>

definition marking :: "collector \<Rightarrow> collector \<Rightarrow> bool" where
  "marking g g' \<longleftrightarrow> same_heap g g' \<and> g_rootgc g' = g_rootgc g \<and> g_tmudata g' = g_tmudata g \<and> g_uvhead g' = g_uvhead g \<and>
     g_mt g' = g_mt g \<and> g_mainthread g' = g_mainthread g \<and> g_registry g' = g_registry g \<and>
     g_currentwhite g' = g_currentwhite g \<and> g_gcstate g' = g_gcstate g \<and>
     (\<forall>x. open_upval g x \<longrightarrow> isblack g' x \<longrightarrow> isblack g x) \<and>
     (\<forall>x n. n < 2 \<longrightarrow> bit (marked g' x) n \<longrightarrow> bit (marked g x) n) \<and> (\<forall>x n. 5 \<le> n \<longrightarrow> bit (marked g' x) n = bit (marked g x) n)"

lemma marking_refl [simp]: "marking g g"
  by (simp add: marking_def)

lemma marking_trans: "marking g g' \<Longrightarrow> marking g' g'' \<Longrightarrow> marking g g''"
  unfolding marking_def by (auto intro: same_heap_trans simp: open_upval_heap)

lemma traced_low:
  assumes t: "traced g g'" and n: "n < 2" "bit (marked g' x) n"
  shows "bit (marked g x) n"
proof -
  have "iswhite g' x" using n by (auto simp: iswhite_bit less_2_cases_iff)
  then show ?thesis using traced_mark [OF t, of x] n(2) by (cases "marked g' x = marked g x") auto
qed

lemma traced_open:
  assumes t: "traced g g'" and o: "open_upval g x" "isblack g' x"
  shows "isblack g x"
proof (cases "marked g' x = marked g x")
  case False
  then have "settled g g' x" using traced_settled [OF t] traced_mark [OF t] by blast
  then show ?thesis using o by (simp add: settled_def)
qed (use o in \<open>simp add: isblack_def\<close>)

lemma marking_traced: "traced g g' \<Longrightarrow> marking g g'"
  using traced_low traced_high traced_open unfolding marking_def by (simp add: traced_heap traced_fields)

lemma marking_white: "marking g g' \<Longrightarrow> iswhite g' x \<Longrightarrow> iswhite g x"
  unfolding marking_def by (auto simp: iswhite_bit)

lemma marking_ok: "marking g g' \<Longrightarrow> all_ok g \<Longrightarrow> all_ok g'" "marking g g' \<Longrightarrow> rooted g \<Longrightarrow> rooted g'"
  "marking g g' \<Longrightarrow> kind_at g' a = kind_at g a" "marking g g' \<Longrightarrow> allocated g' x = allocated g x"
  "marking g g' \<Longrightarrow> value_ok g' v = value_ok g v"
  by (auto simp: marking_def rooted_def listed_kind_heap same_heap_kind same_heap_allocated same_heap_value
      intro: same_heap_all_ok simp del: allocated.simps)

lemma closed_done:
  "closed g (insert (GCAddr a) P) \<Longrightarrow> traced g g' \<Longrightarrow> \<forall>r\<in>strong_refs g a. \<not> iswhite g' r \<Longrightarrow> closed g' P"
  by (rule closed_remove [of _ a]) (auto simp: traced_refs dest: closed_traced)

lemma push_weak_refs: "a' \<noteq> a \<Longrightarrow> strong_refs (push_weak a wk wv g) a' = strong_refs g a'"
proof -
  assume a: "a' \<noteq> a"
  have "body_refs (push_weak a wk wv g) k v b = body_refs g k v b" for k v b
    by (cases "(g, k, v, b)" rule: body_refs.cases) simp_all
  moreover have "weak_keys (push_weak a wk wv g) a' = weak_keys g a'" "weak_values (push_weak a wk wv g) a' = weak_values g a'"
    using a by (simp_all add: weak_keys_def weak_values_def push_weak_def)
  ultimately show ?thesis by (simp add: strong_refs_def split: option.split)
qed

lemma marking_push_weak: "marking g (push_weak a wk wv g)"
proof -
  have "bit (marked (push_weak a wk wv g) x) n = bit (marked g x) n" if "5 \<le> n \<or> n < 2" for x n
    using that by (auto simp: push_weak_def weak_bits_bit)
  then show ?thesis unfolding marking_def by (simp add: same_heap_def)
qed

text \<open>The start of a step: the first gray object is taken from the list, and black.\<close>

definition pop_gray :: "GCObject \<Rightarrow> GCObject list \<Rightarrow> collector \<Rightarrow> collector" where
  "pop_gray ob xs g = (gray2black ob g)\<lparr>g_gray := xs\<rparr>"

lemma gray_update_simps [simp]: "iswhite (g\<lparr>g_gray := xs\<rparr>) x = iswhite g x" "isblack (g\<lparr>g_gray := xs\<rparr>) x = isblack g x"
  "kind_at (g\<lparr>g_gray := xs\<rparr>) a = kind_at g a"
  by (simp_all add: iswhite_def isblack_def kind_at_def)

lemma gray_update_refs [simp]: "strong_refs (g\<lparr>g_gray := xs\<rparr>) a = strong_refs g a"
  by (rule strong_refs_cong) simp_all

lemma gray_update_ok [simp]: "all_ok (g\<lparr>g_gray := xs\<rparr>) = all_ok g"
  by (rule all_ok_cong) simp_all

lemma gray2black_refs [simp]: "strong_refs (gray2black ob g) a = strong_refs g a"
  by (rule strong_refs_cong) (simp_all add: gray2black_def bit_mask_high)

lemma gray2black_same [simp]: "all_ok (gray2black ob g) = all_ok g" "kind_at (gray2black ob g) a = kind_at g a"
  by (simp_all add: gray2black_def)

lemma pop_gray_start:
  assumes g: "all_ok g" "lists_ok {} g" "rooted g" "closed g P" "g_gray g = ob # xs"
  shows "all_ok (pop_gray ob xs g)" "lists_ok {ob} (pop_gray ob xs g)" "rooted (pop_gray ob xs g)"
    "closed (pop_gray ob xs g) (insert ob P)" "work (pop_gray ob xs g) < work g" "marking g (pop_gray ob xs g)"
    "ob \<notin> set (waiting (pop_gray ob xs g))" "\<not> iswhite (pop_gray ob xs g) ob" "listed_kind g ob"
proof -
  let ?g = "pop_gray ob xs g"
  have f: "g_obj ?g = g_obj g" "g_strt ?g = g_strt g" "g_rootgc ?g = g_rootgc g" "waiting g = ob # waiting ?g" "g_gray ?g = xs"
    "g_weak ?g = g_weak g"
    using g(5) by (simp_all add: pop_gray_def gray2black_def waiting_def)
  have c: "iswhite ?g x = iswhite g x" "isblack ?g x \<longleftrightarrow> x = ob \<or> isblack g x" for x
    by (simp_all add: pop_gray_def)
  have lk: "listed_kind ?g x = listed_kind g x" "kind_at ?g a = kind_at g a" for x a by (simp_all add: listed_kind_def kind_at_def f(1))
  have ob: "listed_kind g ob" "\<not> iswhite g ob" "ob \<notin> set (waiting ?g)" using g(2) f(4) by (auto simp: lists_ok_def)
  then show "ob \<notin> set (waiting ?g)" "\<not> iswhite ?g ob" "listed_kind g ob" by (simp_all add: c)
  show "all_ok ?g" using g(1) by (simp add: all_ok_cong [OF f(1,2)])
  show "rooted ?g" using g(3) by (simp add: rooted_def f lk)
  show "lists_ok {ob} ?g" using g(2) ob f(4) by (auto simp: lists_ok_def c lk f(6))
  show "closed ?g (insert ob P)"
    by (rule closed_cong [OF g(4)]) (use f c g(5) in \<open>auto simp: pop_gray_def\<close>)
  have "filter (iswhite ?g) (g_rootgc ?g) = filter (iswhite g) (g_rootgc g)" using c(1) f(3) by (simp cong: filter_cong)
  then show "work ?g < work g" using g(5) f by (simp add: work_def)
  have n: "\<not> open_upval g ob" using ob(1) by (auto simp: listed_kind_def open_upval_def kind_at_def)
  have bits: "bit (marked ?g x) n = bit (marked g x) n" if "n < 2 \<or> 5 \<le> n" for x n
    using that by (auto simp: pop_gray_def gray2black_def bit_or_iff BLACKBIT_def)
  have "same_heap g ?g" using f(1,2) by (simp add: same_heap_def)
  moreover have "g_tmudata ?g = g_tmudata g" "g_uvhead ?g = g_uvhead g" "g_mt ?g = g_mt g" "g_mainthread ?g = g_mainthread g"
    "g_registry ?g = g_registry g" "g_currentwhite ?g = g_currentwhite g" "g_gcstate ?g = g_gcstate g"
    by (simp_all add: pop_gray_def gray2black_def)
  ultimately show "marking g ?g" using f(3) n c(2) bits by (auto simp: marking_def)
qed

text \<open>The invariant of the marking phase, with the objects \<open>P\<close> that may keep white objects alive.\<close>

definition mark_ok :: "GCObject set \<Rightarrow> GCObject set \<Rightarrow> collector \<Rightarrow> bool" where
  "mark_ok P X g \<longleftrightarrow> all_ok g \<and> lists_ok X g \<and> rooted g \<and> closed g P"

lemma mark_okD:
  assumes "mark_ok P X g"
  shows "all_ok g" "lists_ok X g" "rooted g" "closed g P"
  using assms by (simp_all add: mark_ok_def)

lemma mark_ok_traced: "mark_ok P X g \<Longrightarrow> traced g g' \<Longrightarrow> mark_ok P X g'"
  by (simp add: mark_ok_def traced_ok lists_ok_traced work_traced(2) closed_traced)

lemma mark_ok_mono: "mark_ok P X g \<Longrightarrow> P \<subseteq> Q \<Longrightarrow> mark_ok Q X g"
  by (auto simp: mark_ok_def intro: closed_mono)

lemma traced_waiting:
  assumes "traced g g'" "x \<notin> set (waiting g)" "\<not> iswhite g x"
  shows "x \<notin> set (waiting g')"
  using traced_gray [OF assms(1)] traced_fields [OF assms(1)] assms(2,3) by (auto simp: waiting_def)

lemma lists_ok_finish: "lists_ok {x} g \<Longrightarrow> x \<notin> set (waiting g) \<Longrightarrow> lists_ok {} g"
  by (auto simp: lists_ok_def)

text \<open>The object \<open>a\<close> was taken from the list and all it keeps alive marked.\<close>

lemma mark_ok_finish:
  assumes m: "mark_ok (insert (GCAddr a) P) {GCAddr a} g" and t: "traced g g'"
    and a: "GCAddr a \<notin> set (waiting g)" "\<not> iswhite g (GCAddr a)" and r: "\<forall>r\<in>strong_refs g' a. \<not> iswhite g' r"
  shows "mark_ok P {} g'"
  using mark_ok_traced [OF m t] traced_waiting [OF t a] closed_remove [OF _ r] lists_ok_finish [of "GCAddr a" g']
  by (simp add: mark_ok_def)

lemma black2gray_refs [simp]: "strong_refs (black2gray g ob) a = strong_refs g a"
  by (rule strong_refs_cong) (auto simp: black2gray_def bit_and_iff bit_not_iff BLACKBIT_def dest: bit_byte_high)

lemma black2gray_fields [simp]:
  "g_obj (black2gray g ob) = g_obj g" "g_strt (black2gray g ob) = g_strt g" "g_gray (black2gray g ob) = g_gray g"
  "grayagain (black2gray g ob) = grayagain g" "g_weak (black2gray g ob) = g_weak g" "g_rootgc (black2gray g ob) = g_rootgc g"
  "g_tmudata (black2gray g ob) = g_tmudata g" "g_uvhead (black2gray g ob) = g_uvhead g" "g_mt (black2gray g ob) = g_mt g"
  "g_mainthread (black2gray g ob) = g_mainthread g" "g_registry (black2gray g ob) = g_registry g"
  "g_currentwhite (black2gray g ob) = g_currentwhite g" "g_gcstate (black2gray g ob) = g_gcstate g"
  by (simp_all add: black2gray_def)

lemma black2gray_ok [simp]: "all_ok (black2gray g ob) = all_ok g"
  by (rule all_ok_cong) simp_all

lemma black2gray_kinds [simp]: "kind_at (black2gray g ob) a = kind_at g a"
  "listed_kind (black2gray g ob) x = listed_kind g x" "waiting (black2gray g ob) = waiting g"
  by (simp_all add: kind_at_def listed_kind_def waiting_def)

lemma marking_black2gray: "marking g (black2gray g ob)"
proof -
  have "bit (marked (black2gray g ob) x) n \<Longrightarrow> bit (marked g x) n" for x n
    by (auto simp: black2gray_def bit_and_iff split: if_splits)
  then show ?thesis by (simp add: marking_def same_heap_def)
qed

lemma work_cong: "g_gray g' = g_gray g \<Longrightarrow> g_rootgc g' = g_rootgc g \<Longrightarrow> (\<And>x. iswhite g' x = iswhite g x) \<Longrightarrow> work g' = work g"
  by (simp add: work_def cong: filter_cong)

lemma rooted_cong: "g_obj g' = g_obj g \<Longrightarrow> g_rootgc g' = g_rootgc g \<Longrightarrow> rooted g' = rooted g"
  by (simp add: rooted_def listed_kind_def kind_at_def)

text \<open>The object \<open>a\<close> goes to a list of those to be traversed again, and is gray.\<close>

lemma mark_ok_black2gray:
  assumes m: "mark_ok P {ob} g" and w: "ob \<in> set (waiting g)"
  shows "mark_ok P {} (black2gray g ob)"
proof -
  have C: "closed (black2gray g ob) P" by (rule closed_cong [OF mark_okD(4) [OF m]]) simp_all
  moreover have R: "rooted (black2gray g ob)" using mark_okD(3) [OF m] rooted_cong [of "black2gray g ob" g] by simp
  note l = lists_okD [OF mark_okD(2) [OF m]]
  have "lists_ok {} (black2gray g ob)"
    by (rule lists_okI) (use w l(1) in \<open>auto dest: l(2,3,4,5,6,7)\<close>)
  with C R show ?thesis using mark_okD(1) [OF m] by (simp add: mark_ok_def)
qed

lemma mark_ok_push_weak:
  assumes m: "mark_ok (insert (GCAddr a) P) {GCAddr a} g" and k: "kind_at g a = Some 5"
    and a: "GCAddr a \<notin> set (waiting g)" "\<not> iswhite g (GCAddr a)"
  shows "mark_ok (insert (GCAddr a) P) {GCAddr a} (push_weak a wk wv g)"
proof -
  let ?g = "push_weak a wk wv g"
  have lk: "listed_kind ?g x = listed_kind g x" "kind_at ?g b = kind_at g b" for x b by (simp_all add: listed_kind_def kind_at_def)
  have C: "closed ?g (insert (GCAddr a) P)" by (rule closed_cong [OF mark_okD(4) [OF m]]) (auto simp: push_weak_refs)
  moreover have R: "rooted ?g" using mark_okD(3) [OF m] rooted_cong [of ?g g] by simp
  note l = lists_okD [OF mark_okD(2) [OF m]]
  have w: "waiting ?g = g_gray g @ grayagain g @ GCAddr a # g_weak g" by (simp add: waiting_def)
  then have ws: "set (waiting ?g) = insert (GCAddr a) (set (waiting g))" by (auto simp: waiting_def)
  have ka: "listed_kind g (GCAddr a)" using k by (simp add: listed_kind_def)
  have "lists_ok {GCAddr a} ?g"
  proof (rule lists_okI)
    show "distinct (waiting ?g)" using l(1) a(1) w by (auto simp: waiting_def)
  qed (use a(2) k ka in \<open>auto simp: ws lk dest: l(2,3,4,5,6,7)\<close>)
  with C R show ?thesis using mark_okD(1) [OF m] all_ok_cong [of ?g g] by (simp add: mark_ok_def)
qed

lemma mark_ok_push_again:
  assumes m: "mark_ok P {ob} g" and k: "listed_kind g ob"
    and a: "ob \<notin> set (waiting g)" "\<not> iswhite g ob"
  shows "mark_ok P {ob} (g\<lparr>grayagain := ob # grayagain g\<rparr>)"
proof -
  let ?g = "g\<lparr>grayagain := ob # grayagain g\<rparr>"
  have lk: "listed_kind ?g x = listed_kind g x" "kind_at ?g b = kind_at g b" for x b by (simp_all add: listed_kind_def kind_at_def)
  have c: "iswhite ?g x = iswhite g x" "isblack ?g x = isblack g x" for x by (simp_all add: iswhite_def isblack_def)
  have "strong_refs ?g b = strong_refs g b" for b by (rule strong_refs_cong) simp_all
  then have C: "closed ?g P" by (intro closed_cong [OF mark_okD(4) [OF m]]) (simp_all add: c)
  moreover have R: "rooted ?g" using mark_okD(3) [OF m] rooted_cong [of ?g g] by simp
  note l = lists_okD [OF mark_okD(2) [OF m]]
  have w: "waiting ?g = g_gray g @ (ob # grayagain g) @ g_weak g" by (simp add: waiting_def)
  then have ws: "set (waiting ?g) = insert ob (set (waiting g))" by (auto simp: waiting_def)
  have "lists_ok {ob} ?g"
  proof (rule lists_okI)
    show "distinct (waiting ?g)" using l(1) a(1) w by (auto simp: waiting_def)
  qed (use a(2) k in \<open>auto simp: ws lk c dest: l(2,3,4,5,6,7)\<close>)
  with C R show ?thesis using mark_okD(1) [OF m] all_ok_cong [of ?g g] by (simp add: mark_ok_def)
qed

section \<open>Propagation\<close>

definition lists_grow :: "collector \<Rightarrow> collector \<Rightarrow> bool" where
  "lists_grow g g' \<longleftrightarrow> set (grayagain g) \<subseteq> set (grayagain g') \<and> set (g_weak g) \<subseteq> set (g_weak g')"

text \<open>A step of propagation from \<open>g\<close> to \<open>g'\<close>, and one that has the object \<open>ob\<close> in its hands.\<close>

definition step_ok :: "GCObject set \<Rightarrow> collector \<Rightarrow> collector \<Rightarrow> bool" where
  "step_ok P g g' \<longleftrightarrow> mark_ok P {} g' \<and> marking g g' \<and> lists_grow g g' \<and> work g' < work g"

definition in_hand :: "GCObject set \<Rightarrow> addr \<Rightarrow> collector \<Rightarrow> collector \<Rightarrow> bool" where
  "in_hand P a g g' \<longleftrightarrow> mark_ok (insert (GCAddr a) P) {GCAddr a} g' \<and> marking g g' \<and> lists_grow g g' \<and> work g' < work g \<and>
     GCAddr a \<notin> set (waiting g') \<and> \<not> iswhite g' (GCAddr a) \<and> listed_kind g (GCAddr a)"

lemma in_hand_start:
  assumes m: "mark_ok P {} g" and g: "g_gray g = GCAddr a # xs"
  shows "in_hand P a g (pop_gray (GCAddr a) xs g)"
  using pop_gray_start [OF mark_okD [OF m] g]
  by (simp add: in_hand_def mark_ok_def lists_grow_def pop_gray_def gray2black_def)

lemma in_hand_traced:
  assumes i: "in_hand P a g g1" and t: "traced g1 g2"
  shows "in_hand P a g g2"
proof -
  have "marking g g2" using i marking_traced [OF t] marking_trans unfolding in_hand_def by blast
  moreover have "work g2 < work g" using i work_traced(1) [OF t] mark_okD(3) unfolding in_hand_def by fastforce
  moreover have "lists_grow g g2" using i traced_fields [OF t] by (simp add: in_hand_def lists_grow_def)
  moreover have "\<not> iswhite g2 (GCAddr a)" using i traced_white [OF t] unfolding in_hand_def by blast
  moreover have "GCAddr a \<notin> set (waiting g2)" using i traced_waiting [OF t] unfolding in_hand_def by blast
  moreover have "mark_ok (insert (GCAddr a) P) {GCAddr a} g2" using i mark_ok_traced [OF _ t] unfolding in_hand_def by blast
  ultimately show ?thesis using i by (simp add: in_hand_def)
qed

lemma in_hand_finish:
  assumes i: "in_hand P a g g1" and t: "traced g1 g2" and r: "\<forall>r\<in>strong_refs g2 a. \<not> iswhite g2 r"
  shows "step_ok P g g2"
  using in_hand_traced [OF i t] mark_ok_finish [OF _ t _ _ r] i by (simp add: in_hand_def step_ok_def)

lemma traversal_done:
  assumes i: "in_hand P a g g1" and b: "g_obj g1 a = Some b"
    and t: "traced g1 g2" "\<forall>r\<in>body_refs g1 (weak_keys g1 a) (weak_values g1 a) b. \<not> iswhite g2 r"
  shows "step_ok P g g2"
  by (rule in_hand_finish [OF i t(1)]) (use t b traced_refs [OF t(1)] in \<open>simp add: strong_refs_def\<close>)

lemma again_update_simps [simp]: "iswhite (g\<lparr>grayagain := ys\<rparr>) x = iswhite g x" "isblack (g\<lparr>grayagain := ys\<rparr>) x = isblack g x"
  by (simp_all add: iswhite_def isblack_def)

lemma marking_push_again: "marking g (g\<lparr>grayagain := xs\<rparr>)"
  by (simp add: marking_def same_heap_def iswhite_def)

lemma pop_gray_body [simp]: "g_obj (pop_gray ob xs g) = g_obj g"
  by (simp add: pop_gray_def gray2black_def)

lemma propagate_table:
  assumes i: "in_hand P a g g1" and h: "g_obj g1 a = Some (OTable h)"
  shows "\<exists>weak g2. traversetable a h g1 = Inr (weak, g2) \<and> step_ok P g (if weak then black2gray g2 (GCAddr a) else g2)"
proof -
  have ok: "all_ok g1" and w: "GCAddr a \<notin> set (g_weak g1)"
    using i by (auto simp: in_hand_def waiting_def mark_ok_def)
  obtain wk wv h1 h2 g2 where t: "traversetable a h g1 = Inr (wk \<or> wv, g2)" "traced g1 h1"
    "h2 = (if wk \<or> wv then push_weak a wk wv h1 else h1)" "traced h2 g2" "\<forall>r\<in>strong_refs g2 a. \<not> iswhite g2 r"
    using traversetable_spec [OF ok h w] by blast
  note i1 = in_hand_traced [OF i t(2)]
  show ?thesis
  proof (cases "wk \<or> wv")
    case False
    then have "step_ok P g g2" using in_hand_finish [OF i1 _ t(5)] t(3,4) by simp
    then show ?thesis using t(1) False by auto
  next
    case True
    then have h2: "h2 = push_weak a wk wv h1" using t(3) by simp
    have "kind_at h1 a = Some 5" using h traced_ok(3) [OF t(2)] by (simp add: kind_at_def)
    then have m: "mark_ok (insert (GCAddr a) P) {GCAddr a} h2"
      using mark_ok_push_weak i1 unfolding in_hand_def h2 by blast
    let ?g = "black2gray g2 (GCAddr a)"
    have "mark_ok P {GCAddr a} g2"
      using mark_ok_traced [OF m t(4)] closed_remove [OF _ t(5)] by (simp add: mark_ok_def)
    moreover have "GCAddr a \<in> set (waiting g2)" using traced_fields [OF t(4)] by (simp add: waiting_def h2)
    ultimately have "mark_ok P {} ?g" by (rule mark_ok_black2gray)
    moreover have "marking g ?g"
      using i1 marking_push_weak [of h1 a wk wv] marking_traced [OF t(4)] marking_black2gray [of g2 "GCAddr a"]
      unfolding in_hand_def h2 by (metis marking_trans)
    moreover have "lists_grow g ?g"
      using i1 traced_fields [OF t(4)] by (auto simp: in_hand_def lists_grow_def h2)
    moreover have "work ?g < work g"
    proof -
      have "work ?g = work g2" by (rule work_cong) simp_all
      also have "work g2 \<le> work h2" using work_traced(1) [OF t(4)] mark_okD(3) [OF m] by blast
      also have "work h2 = work h1" unfolding h2 by (rule work_cong) simp_all
      finally show ?thesis using i1 by (simp add: in_hand_def)
    qed
    ultimately show ?thesis using t(1) True by (auto simp: step_ok_def)
  qed
qed

lemma propagate_thread:
  assumes i: "in_hand P a g g1" and h: "g_obj g1 a = Some (OThread th)"
  shows "\<exists>g2. traversestack V a th (black2gray (g1\<lparr>grayagain := GCAddr a # grayagain g1\<rparr>) (GCAddr a)) = Inr g2 \<and>
    step_ok P g g2 \<and> (\<exists>th'. g_obj g2 a = Some (OThread th'))"
proof -
  let ?g1 = "g1\<lparr>grayagain := GCAddr a # grayagain g1\<rparr>" and ?g2 = "black2gray (g1\<lparr>grayagain := GCAddr a # grayagain g1\<rparr>) (GCAddr a)"
  have lk: "listed_kind g1 (GCAddr a)" using h by (simp add: listed_kind_def kind_at_def)
  have m: "mark_ok (insert (GCAddr a) P) {} ?g2"
    by (rule mark_ok_black2gray, rule mark_ok_push_again) (use i lk in \<open>simp_all add: in_hand_def waiting_def\<close>)
  obtain g2 where t: "traversestack V a th ?g2 = Inr g2" "traced ?g2 g2"
    "\<forall>r\<in>body_refs ?g2 (weak_keys ?g2 a) (weak_values ?g2 a) (OThread th). \<not> iswhite g2 r"
    using traversestack_traced [of ?g2 a th V "weak_keys ?g2 a" "weak_values ?g2 a"] mark_okD(1) [OF m] h by auto
  have "mark_ok P {} g2"
    using mark_ok_traced [OF m t(2)] closed_remove [of g2 a P] t(3) traced_refs [OF t(2)] h
    by (simp add: mark_ok_def strong_refs_def del: body_refs.simps)
  moreover have "marking g g2"
    using i marking_push_again [of g1] marking_black2gray [of ?g1 "GCAddr a"] marking_traced [OF t(2)]
    unfolding in_hand_def by (blast intro: marking_trans)
  moreover have "lists_grow g g2" using i traced_fields [OF t(2)] by (auto simp: in_hand_def lists_grow_def)
  moreover have "work g2 < work g"
  proof -
    have "work g2 \<le> work ?g2" using work_traced(1) [OF t(2)] mark_okD(3) [OF m] by blast
    also have "work ?g2 = work g1" by (rule work_cong) simp_all
    finally show ?thesis using i by (simp add: in_hand_def)
  qed
  moreover have "\<exists>th'. g_obj g2 a = Some (OThread th')"
    using same_heap_Some [OF traced_heap [OF t(2)], of a] h by auto
  ultimately show ?thesis using t(1) by (auto simp: step_ok_def)
qed

lemma propagatemark_step:
  assumes m: "mark_ok P {} g" and g: "g_gray g \<noteq> []"
  shows "\<exists>q g'. propagatemark V g = Inr (q, g') \<and> step_ok P g g'"
proof -
  obtain ob xs where gr: "g_gray g = ob # xs" using g by (cases "g_gray g") auto
  then have "ob \<in> set (waiting g)" by (simp add: waiting_def)
  then have "listed_kind g ob" using mark_okD(2) [OF m] by (auto simp: lists_ok_def)
  then obtain a b where a: "ob = GCAddr a" "g_obj g a = Some b" "gc_tt b \<in> {5, 6, 8, 9}"
    by (auto simp: listed_kind_def kind_at_def)
  note gr = gr [unfolded a(1)]
  let ?g = "pop_gray (GCAddr a) xs g"
  have i: "in_hand P a g ?g" by (rule in_hand_start [OF m gr])
  then have ok: "all_ok ?g" by (simp add: in_hand_def mark_ok_def)
  have b: "g_obj ?g a = Some b" using a(2) by simp
  then have bo: "body_ok ?g b" by (rule all_okD [OF ok])
  note eq = propagatemark_def gr body_at_def a(2) pop_gray_def [symmetric]
  show ?thesis
  proof (cases b)
    case (OTable h)
    obtain weak g2 where t: "traversetable a h ?g = Inr (weak, g2)" "step_ok P g (if weak then black2gray g2 (GCAddr a) else g2)"
      using propagate_table [OF i b [unfolded OTable]] by blast
    then show ?thesis using OTable by (simp add: eq del: split_paired_Ex)
  next
    case (OLclosure env p us)
    obtain g2 where t: "traverseLclosure env p us ?g = Inr g2" "traced ?g g2" "\<forall>r\<in>body_refs ?g (weak_keys ?g a) (weak_values ?g a) b. \<not> iswhite g2 r"
      using traverseLclosure_traced [OF ok bo [unfolded OLclosure]] OLclosure by blast
    show ?thesis using traversal_done [OF i b t(2,3)] t(1) OLclosure by (simp add: eq)
  next
    case (OCclosure env vs)
    obtain g2 where t: "traverseCclosure env vs ?g = Inr g2" "traced ?g g2" "\<forall>r\<in>body_refs ?g (weak_keys ?g a) (weak_values ?g a) b. \<not> iswhite g2 r"
      using traverseCclosure_traced [OF ok bo [unfolded OCclosure]] OCclosure by blast
    show ?thesis using traversal_done [OF i b t(2,3)] t(1) OCclosure by (simp add: eq)
  next
    case (OProto p)
    obtain g2 where t: "traverseproto p ?g = Inr g2" "traced ?g g2" "\<forall>r\<in>body_refs ?g (weak_keys ?g a) (weak_values ?g a) b. \<not> iswhite g2 r"
      using traverseproto_traced [OF ok bo [unfolded OProto]] OProto by blast
    show ?thesis using traversal_done [OF i b t(2,3)] t(1) OProto by (simp add: eq)
  next
    case (OThread th)
    obtain g2 th' where t: "traversestack V a th (black2gray (?g\<lparr>grayagain := GCAddr a # grayagain ?g\<rparr>) (GCAddr a)) = Inr g2"
      "step_ok P g g2" "g_obj g2 a = Some (OThread th')"
      using propagate_thread [OF i b [unfolded OThread]] by blast
    moreover have "(gray2black (GCAddr a) g)\<lparr>g_gray := xs, grayagain := GCAddr a # grayagain g\<rparr> = ?g\<lparr>grayagain := GCAddr a # grayagain ?g\<rparr>"
      by (simp add: pop_gray_def gray2black_def)
    ultimately show ?thesis using OThread gr a(2)
      by (simp add: propagatemark_def body_at_def gc_thread_at_def gray2black_def set_mark_def)
  qed (use a(3) in auto)
qed

text \<open>The loop: work that shrinks bounds its turns.\<close>

lemma step_ok_refl: "mark_ok P {} g \<Longrightarrow> mark_ok P {} g \<and> marking g g \<and> lists_grow g g"
  by (simp add: lists_grow_def)

lemma propagate_loop_ok:
  assumes "mark_ok P {} g" "work g \<le> n"
  shows "\<exists>q g'. propagate_loop n V g = Inr (q, g') \<and> mark_ok P {} g' \<and> marking g g' \<and> lists_grow g g' \<and> g_gray g' = []"
  using assms
proof (induction n arbitrary: g)
  case 0
  then have "g_gray g = []" by (simp add: work_def)
  then show ?case using step_ok_refl [OF 0(1)] by simp
next
  case (Suc n)
  show ?case
  proof (cases "g_gray g = []")
    case True
    then show ?thesis using step_ok_refl [OF Suc(2)] by simp
  next
    case False
    obtain q g1 where g1: "propagatemark V g = Inr (q, g1)" "step_ok P g g1" using propagatemark_step [OF Suc(2) False] by blast
    then have "mark_ok P {} g1" "work g1 \<le> n" using Suc(3) by (simp_all add: step_ok_def)
    then obtain q' g' where g': "propagate_loop n V g1 = Inr (q', g')" "mark_ok P {} g'" "marking g1 g'" "lists_grow g1 g'" "g_gray g' = []"
      using Suc(1) by blast
    have "marking g g'" "lists_grow g g'" using g1(2) g'(3,4) marking_trans by (auto simp: step_ok_def lists_grow_def)
    then show ?thesis using g1(1) g' False by simp
  qed
qed

lemma propagateall_ok:
  assumes "mark_ok P {} g"
  shows "\<exists>q g'. propagateall V g = Inr (q, g') \<and> mark_ok P {} g' \<and> marking g g' \<and> lists_grow g g' \<and> g_gray g' = []"
  unfolding propagateall_def by (rule propagate_loop_ok [OF assms work_le])

end
