(* ===== verification/Lgc_atomic.thy ===== *)
theory Lgc_atomic
  imports Lgc_mark
begin

text \<open>
  The atomic phase: the marking that ends a propagation reaches every object, and when the
  other white becomes the current one no object that stays refers to one that goes.
\<close>

section \<open>The state between steps\<close>

text \<open>
  While the program runs, only gray objects may lead to white ones: those on the three lists and the open
  upvalues, which are never black.
\<close>

definition open_objects :: "collector \<Rightarrow> GCObject set" where
  "open_objects g = GCAddr ` set (g_uvhead g)"

definition open_ok :: "collector \<Rightarrow> bool" where
  "open_ok g \<longleftrightarrow> (\<forall>u\<in>set (g_uvhead g). (\<exists>t i. g_obj g u = Some (OUpval (OnStack t i))) \<and> \<not> isblack g (GCAddr u))"

definition roots_ok :: "collector \<Rightarrow> bool" where
  "roots_ok g \<longleftrightarrow> kind_at g (g_mainthread g) = Some 8 \<and> value_ok g (g_registry g) \<and> (\<forall>p\<in>set (g_mt g). pointer_ok g 5 p)"

definition loose :: "collector \<Rightarrow> GCObject set" where
  "loose g = set (grayagain g) \<union> set (g_weak g) \<union> open_objects g"

definition gc_inv :: "collector \<Rightarrow> bool" where
  "gc_inv g \<longleftrightarrow> mark_ok (loose g) {} g \<and> open_ok g \<and> roots_ok g \<and>
     \<not> iswhite g (GCAddr (g_mainthread g)) \<and> (\<forall>r\<in>vref (g_registry g). \<not> iswhite g r)"

lemma roots_ok_traced: "traced g g' \<Longrightarrow> roots_ok g' = roots_ok g"
  by (simp add: roots_ok_def traced_fields traced_ok pointer_ok_def)

lemma roots_ok_marking: "marking g g' \<Longrightarrow> roots_ok g' = roots_ok g"
  by (simp add: roots_ok_def marking_ok pointer_ok_def) (simp add: marking_def)

section \<open>Open upvalues\<close>

lemma remark_upval_traced:
  assumes ok: "all_ok g" and u: "g_obj g u = Some (OUpval (OnStack t i))"
  shows "\<exists>g'. remark_upval u g = Inr g' \<and> traced g g' \<and> (isgray g (GCAddr u) \<longrightarrow> (\<forall>r\<in>strong_refs g u. \<not> iswhite g' r))"
proof -
  obtain th where th: "g_obj g t = Some (OThread th)" "i < gt_top th" "gt_top th \<le> length (gt_stack th)" "value_ok g (gt_stack th ! i)"
    using all_okD [OF ok u] by auto
  then obtain g' where "markvalue (gt_stack th ! i) g = Inr g'" "traced g g'" "\<forall>r\<in>vref (gt_stack th ! i). \<not> iswhite g' r"
    using markvalue_traced [OF ok] by blast
  moreover have "strong_refs g u = vref (gt_stack th ! i)" using u th by (simp add: strong_refs_def)
  ultimately show ?thesis using u th
    by (auto simp: remark_upval_def gc_upval_at_def upval_content_def gc_thread_at_def)
qed

lemma same_upval: "same_heap g g' \<Longrightarrow> g_obj g u = Some (OUpval p) \<Longrightarrow> g_obj g' u = Some (OUpval p)"
  using same_heap_Some [of g g' u "OUpval p"] by auto

text \<open>An open upvalue that was gray has its contents marked; one that was white cannot lose that here.\<close>

lemma remarkupvals_ok:
  assumes m: "mark_ok (P \<union> open_objects g) {} g" and u: "open_ok g"
  shows "\<exists>g'. remarkupvals g = Inr g' \<and> traced g g' \<and> mark_ok P {} g'"
proof -
  let ?R = "\<lambda>u. if isgray g (GCAddr u) then strong_refs g u else {}"
  have "\<exists>g'. fold_result remark_upval (g_uvhead g) g = Inr g' \<and> traced g g' \<and> (\<forall>u\<in>set (g_uvhead g). \<forall>r\<in>?R u. \<not> iswhite g' r)"
  proof (rule fold_traced)
    fix x g1 assume x: "x \<in> set (g_uvhead g)" and t: "traced g g1"
    obtain th i where "g_obj g x = Some (OUpval (OnStack th i))" using u x by (auto simp: open_ok_def)
    then have o: "g_obj g1 x = Some (OUpval (OnStack th i))" using same_upval [OF traced_heap [OF t]] by blast
    have "isgray g1 (GCAddr x)" if "isgray g (GCAddr x)"
    proof -
      have "marked g1 (GCAddr x) = marked g (GCAddr x)" using that traced_mark [OF t, of "GCAddr x"] unfolding isgray_def by blast
      then show ?thesis using that by (simp add: isgray_def iswhite_def isblack_def)
    qed
    then show "\<exists>g2. remark_upval x g1 = Inr g2 \<and> traced g1 g2 \<and> (\<forall>r\<in>?R x. \<not> iswhite g2 r)"
      using remark_upval_traced [OF traced_ok(1) [OF t mark_okD(1) [OF m]] o] traced_refs [OF t] by auto
  qed
  then obtain g' where g': "remarkupvals g = Inr g'" "traced g g'" "\<forall>u\<in>set (g_uvhead g). \<forall>r\<in>?R u. \<not> iswhite g' r"
    unfolding remarkupvals_def by blast
  have "closed g' P"
    unfolding closed_def
  proof (intro allI impI ballI)
    fix a r assume a: "g_obj g' a \<noteq> None" "\<not> iswhite g' (GCAddr a)" "GCAddr a \<notin> P" "GCAddr a \<notin> set (g_gray g')" "r \<in> strong_refs g' a"
    show "\<not> iswhite g' r"
    proof (cases "a \<in> set (g_uvhead g)")
      case False
      then have "GCAddr a \<notin> P \<union> open_objects g" using a(3) by (auto simp: open_objects_def)
      then show ?thesis using closedD [OF closed_traced [OF g'(2) mark_okD(4) [OF m]] a(1,2) _ a(4,5)] by blast
    next
      case True
      have r: "r \<in> strong_refs g a" and o: "g_obj g a \<noteq> None" using a(1,5) traced_refs [OF g'(2)] traced_ok(4) [OF g'(2), of "GCAddr a"] by simp_all
      show ?thesis
      proof (cases "iswhite g (GCAddr a)")
        case True
        then show ?thesis using traced_done [OF g'(2) o True a(2,4) r] by blast
      next
        case False
        then have "isgray g (GCAddr a)" using u True by (auto simp: open_ok_def isgray_def)
        then show ?thesis using g'(3) True r by auto
      qed
    qed
  qed
  then show ?thesis using g'(1,2) mark_ok_traced [OF m g'(2)] by (auto simp: mark_ok_def)
qed

section \<open>The marking of the atomic phase\<close>

text \<open>Other lists with the same objects.\<close>

lemma lists_ok_same:
  assumes l: "lists_ok X g" and w: "set (waiting g') = set (waiting g)" "distinct (waiting g) \<Longrightarrow> distinct (waiting g')"
    and c: "\<And>x. iswhite g' x = iswhite g x" "\<And>x. isblack g' x = isblack g x" "\<And>x. listed_kind g' x = listed_kind g x"
    and k: "\<And>a. GCAddr a \<in> set (g_weak g') \<Longrightarrow> kind_at g' a = Some 5"
  shows "lists_ok X g'"
  by (rule lists_okI) (use w(2) lists_okD(1) [OF l] k in \<open>auto simp: w(1) c dest: lists_okD(2-7) [OF l]\<close>)

lemma strong_refs_weak: "GCAddr a \<notin> set (g_weak g) \<Longrightarrow> strong_refs (g\<lparr>g_gray := xs, g_weak := []\<rparr>) a = strong_refs g a"
proof -
  assume a: "GCAddr a \<notin> set (g_weak g)"
  have "body_refs (g\<lparr>g_gray := xs, g_weak := []\<rparr>) k v b = body_refs g k v b" for k v b
    by (cases "(g, k, v, b)" rule: body_refs.cases) simp_all
  then show ?thesis using a by (simp add: strong_refs_def weak_keys_def weak_values_def split: option.split)
qed

lemma weak_to_gray:
  assumes m: "mark_ok (P \<union> W) {} g" and g: "g_gray g = []" "W \<subseteq> set (g_weak g)"
  shows "mark_ok P {} (g\<lparr>g_gray := g_weak g, g_weak := []\<rparr>)"
proof -
  let ?g = "g\<lparr>g_gray := g_weak g, g_weak := []\<rparr>"
  have c: "iswhite ?g x = iswhite g x" "isblack ?g x = isblack g x" "listed_kind ?g x = listed_kind g x" for x
    by (simp_all add: iswhite_def isblack_def listed_kind_def kind_at_def)
  have "closed ?g P"
    unfolding closed_def
  proof (intro allI impI ballI)
    fix a r assume a: "g_obj ?g a \<noteq> None" "\<not> iswhite ?g (GCAddr a)" "GCAddr a \<notin> P" "GCAddr a \<notin> set (g_gray ?g)" "r \<in> strong_refs ?g a"
    then have w: "GCAddr a \<notin> set (g_weak g)" by simp
    then have "\<not> iswhite g r"
      using closedD [OF mark_okD(4) [OF m], of a r] a g strong_refs_weak [OF w] c by auto
    then show "\<not> iswhite ?g r" by (simp add: c)
  qed
  moreover have "lists_ok {} ?g"
    by (rule lists_ok_same [OF mark_okD(2) [OF m]]) (use g(1) in \<open>auto simp: waiting_def c\<close>)
  moreover have "rooted ?g" using mark_okD(3) [OF m] by (simp add: rooted_def c)
  moreover have "all_ok ?g = all_ok g" by (rule all_ok_cong) simp_all
  ultimately show ?thesis using mark_okD(1) [OF m] by (simp add: mark_ok_def)
qed

lemma again_to_gray:
  assumes m: "mark_ok (P \<union> W) {} g" and g: "g_gray g = []" "W \<subseteq> set (grayagain g)"
  shows "mark_ok P {} (g\<lparr>g_gray := grayagain g, grayagain := []\<rparr>)"
proof -
  let ?g = "g\<lparr>g_gray := grayagain g, grayagain := []\<rparr>"
  have c: "iswhite ?g x = iswhite g x" "isblack ?g x = isblack g x" "listed_kind ?g x = listed_kind g x" "kind_at ?g a = kind_at g a" for x a
    by (simp_all add: iswhite_def isblack_def listed_kind_def kind_at_def)
  have r: "strong_refs ?g a = strong_refs g a" for a by (rule strong_refs_cong) simp_all
  have "closed ?g P" by (rule closed_cong [OF mark_okD(4) [OF m]]) (use g in \<open>auto simp: c r\<close>)
  moreover have "lists_ok {} ?g"
    by (rule lists_ok_same [OF mark_okD(2) [OF m]]) (use g(1) lists_okD(5) [OF mark_okD(2) [OF m]] in \<open>auto simp: waiting_def c\<close>)
  moreover have "rooted ?g" using mark_okD(3) [OF m] by (simp add: rooted_def c)
  moreover have "all_ok ?g = all_ok g" by (rule all_ok_cong) simp_all
  ultimately show ?thesis using mark_okD(1) [OF m] by (simp add: mark_ok_def)
qed

lemma marking_lists: "marking g (g\<lparr>g_gray := xs, g_weak := ys\<rparr>)" "marking g (g\<lparr>g_gray := xs, grayagain := ys\<rparr>)"
  by (simp_all add: marking_def same_heap_def isblack_def)

lemma marking_fields:
  "marking g g' \<Longrightarrow> g_mt g' = g_mt g" "marking g g' \<Longrightarrow> g_mainthread g' = g_mainthread g"
  "marking g g' \<Longrightarrow> g_registry g' = g_registry g" "marking g g' \<Longrightarrow> g_uvhead g' = g_uvhead g"
  "marking g g' \<Longrightarrow> g_tmudata g' = g_tmudata g" "marking g g' \<Longrightarrow> g_rootgc g' = g_rootgc g"
  "marking g g' \<Longrightarrow> g_currentwhite g' = g_currentwhite g" "marking g g' \<Longrightarrow> g_gcstate g' = g_gcstate g"
  by (simp_all add: marking_def)

text \<open>
  The whole: nothing is left that may keep a white object alive, and the running thread and the
  metatables of the basic types are marked.
\<close>

lemma atomic_mark_ok:
  assumes i: "gc_inv g" and l: "allocated g (GCAddr L)"
  shows "\<exists>g'. atomic_mark V L g = Inr g' \<and> marking g g' \<and> mark_ok {} {} g' \<and> g_gray g' = [] \<and>
    (\<forall>x\<in>insert (GCAddr L) (\<Union> (pref ` set (g_mt g))). \<not> iswhite g' x)"
proof -
  have m: "mark_ok (set (grayagain g) \<union> set (g_weak g) \<union> open_objects g) {} g" and u: "open_ok g" "roots_ok g"
    using i by (simp_all add: gc_inv_def loose_def)
  obtain g1 where g1: "remarkupvals g = Inr g1" "traced g g1" "mark_ok (set (grayagain g) \<union> set (g_weak g)) {} g1"
    using remarkupvals_ok [OF m u(1)] by blast
  obtain q2 g2 where g2: "propagateall V g1 = Inr (q2, g2)" "mark_ok (set (grayagain g) \<union> set (g_weak g)) {} g2" "marking g1 g2"
    "lists_grow g1 g2" "g_gray g2 = []"
    using propagateall_ok [OF g1(3), of V] by blast
  let ?g3 = "g2\<lparr>g_gray := g_weak g2, g_weak := []\<rparr>"
  have m3: "mark_ok (set (grayagain g)) {} ?g3"
    by (rule weak_to_gray [OF g2(2,5)]) (use g2(4) traced_fields [OF g1(2)] in \<open>auto simp: lists_grow_def\<close>)
  note k3 = marking_trans [OF marking_trans [OF marking_traced [OF g1(2)] g2(3)] marking_lists(1) [where xs = "g_weak g2" and ys = "[]"]]
  obtain g4 where g4: "markobject (GCAddr L) ?g3 = Inr g4" "traced ?g3 g4" "\<not> iswhite g4 (GCAddr L)"
    using markobject_traced [OF mark_okD(1) [OF m3], of "GCAddr L"] l marking_ok(4) [OF k3] by blast
  note m4 = mark_ok_traced [OF m3 g4(2)] and k4 = marking_trans [OF k3 marking_traced [OF g4(2)]]
  have p4: "\<forall>p\<in>set (g_mt g). pointer_ok g4 5 p" using u(2) roots_ok_marking [OF k4] marking_fields(1) [OF k4] by (simp add: roots_ok_def)
  obtain g5 where g5: "markmt g4 = Inr g5" "traced g4 g5" "\<forall>p\<in>set (g_mt g). \<forall>r\<in>pref p. \<not> iswhite g5 r"
    using fold_pointers_traced [OF mark_okD(1) [OF m4] p4] marking_fields(1) [OF k4] by (auto simp: markmt_def)
  note m5 = mark_ok_traced [OF m4 g5(2)] and k5 = marking_trans [OF k4 marking_traced [OF g5(2)]]
  obtain q6 g6 where g6: "propagateall V g5 = Inr (q6, g6)" "mark_ok (set (grayagain g)) {} g6" "marking g5 g6" "lists_grow g5 g6" "g_gray g6 = []"
    using propagateall_ok [OF m5, of V] by blast
  let ?g7 = "g6\<lparr>g_gray := grayagain g6, grayagain := []\<rparr>"
  have again: "set (grayagain g) \<subseteq> set (grayagain g6)"
    using g6(4) g2(4) traced_fields(1) [OF g1(2)] traced_fields(1) [OF g4(2)] traced_fields(1) [OF g5(2)] by (auto simp: lists_grow_def)
  have m7: "mark_ok {} {} ?g7" by (rule again_to_gray [of "{}" "set (grayagain g)"]) (use g6 again in simp_all)
  note k7 = marking_trans [OF g6(3) marking_lists(2) [where xs = "grayagain g6" and ys = "[]"]]
  obtain q8 g8 where g8: "propagateall V ?g7 = Inr (q8, g8)" "mark_ok {} {} g8" "marking ?g7 g8" "g_gray g8 = []"
    using propagateall_ok [OF m7, of V] by blast
  note k58 = marking_trans [OF k7 g8(3)]
  have "\<not> iswhite g8 x" if "x \<in> insert (GCAddr L) (\<Union> (pref ` set (g_mt g)))" for x
    using that g4(3) g5(3) traced_white [OF g5(2), of x] marking_white [OF k58, of x] by blast
  then show ?thesis using g1(1) g2(1) g4(1) g5(1) g6(1) g8 marking_trans [OF k5 k58]
    by (intro exI [of _ g8]) (simp add: atomic_mark_def Let_def)
qed

section \<open>Userdata to be finalized\<close>

text \<open>What \<open>luaC_separateudata\<close> leaves alone: it only sets bits of userdata and fills caches of metatables.\<close>

definition quiet :: "collector \<Rightarrow> collector \<Rightarrow> bool" where
  "quiet g g' \<longleftrightarrow> same_heap g g' \<and> (\<forall>x n. n < 3 \<or> 5 \<le> n \<longrightarrow> bit (marked g' x) n = bit (marked g x) n) \<and>
     (\<forall>x. listed_kind g x \<longrightarrow> marked g' x = marked g x) \<and>
     g_gray g' = g_gray g \<and> grayagain g' = grayagain g \<and> g_weak g' = g_weak g \<and> g_currentwhite g' = g_currentwhite g \<and>
     g_registry g' = g_registry g \<and> g_mainthread g' = g_mainthread g \<and> g_uvhead g' = g_uvhead g \<and> g_mt g' = g_mt g \<and>
     g_gcstate g' = g_gcstate g"

lemma quiet_refl [simp]: "quiet g g"
  by (simp add: quiet_def)

lemma quiet_trans: "quiet g g' \<Longrightarrow> quiet g' g'' \<Longrightarrow> quiet g g''"
  unfolding quiet_def by (auto intro: same_heap_trans simp: listed_kind_heap)

lemma quiet_heap: "quiet g g' \<Longrightarrow> same_heap g g'"
  by (simp add: quiet_def)

lemma quiet_colours: "quiet g g' \<Longrightarrow> iswhite g' x = iswhite g x" "quiet g g' \<Longrightarrow> isblack g' x = isblack g x"
  by (simp_all add: quiet_def iswhite_bit isblack_bit)

lemma weak_kind: "lists_ok X g \<Longrightarrow> GCAddr a \<in> set (g_weak g) \<Longrightarrow> listed_kind g (GCAddr a)"
  by (simp add: lists_ok_def waiting_def)

lemma quiet_refs:
  assumes q: "quiet g g'" and l: "lists_ok X g"
  shows "strong_refs g' a = strong_refs g a"
proof (cases "g_obj g a")
  case (Some b)
  then obtain b' where b': "g_obj g' a = Some b'" "same_body b b'" using same_heap_Some [OF quiet_heap [OF q]] by blast
  have "weak_keys g' a = weak_keys g a" "weak_values g' a = weak_values g a"
    using q weak_kind [OF l, of a] by (auto simp: weak_keys_def weak_values_def quiet_def)
  then show ?thesis using Some b' same_heap_refs [OF quiet_heap [OF q]] by (simp add: strong_refs_def)
next
  case None
  then have "g_obj g' a = None" using quiet_heap [OF q] by (simp add: same_heap_def)
  then show ?thesis using None by (simp add: strong_refs_def)
qed

lemma mark_ok_quiet:
  assumes m: "mark_ok P {} g" and q: "quiet g g'" and r: "rooted g'"
  shows "mark_ok P {} g'"
proof -
  have lk: "listed_kind g' x = listed_kind g x" "kind_at g' a = kind_at g a" for x a
    using listed_kind_heap same_heap_kind quiet_heap [OF q] by blast+
  have "closed g' P"
    unfolding closed_def
  proof (intro allI impI ballI)
    fix a r assume a: "g_obj g' a \<noteq> None" "\<not> iswhite g' (GCAddr a)" "GCAddr a \<notin> P" "GCAddr a \<notin> set (g_gray g')" "r \<in> strong_refs g' a"
    have "g_obj g a \<noteq> None" using a(1) same_heap_allocated [OF quiet_heap [OF q], of "GCAddr a"] by simp
    moreover have "GCAddr a \<notin> set (g_gray g)" using a(4) q by (simp add: quiet_def)
    ultimately show "\<not> iswhite g' r"
      using closedD [OF mark_okD(4) [OF m], of a r] a(2,3,5) quiet_refs [OF q mark_okD(2) [OF m]] quiet_colours [OF q] by simp
  qed
  moreover have w: "waiting g' = waiting g" "g_weak g' = g_weak g" using q by (simp_all add: waiting_def quiet_def)
  then have "lists_ok {} g'"
    by (intro lists_ok_same [OF mark_okD(2) [OF m]])
      (simp_all add: lk quiet_colours [OF q] lists_okD(5) [OF mark_okD(2) [OF m]])
  ultimately show ?thesis using r mark_okD(1) [OF m] same_heap_all_ok [OF quiet_heap [OF q]] by (simp add: mark_ok_def)
qed

lemma gfasttm_quiet:
  assumes "all_ok g" "pointer_ok g 5 et"
  shows "\<exists>tm g'. gfasttm g et event = Inr (tm, g') \<and> quiet g g' \<and> g_tmudata g' = g_tmudata g \<and> g_rootgc g' = g_rootgc g"
proof (cases et)
  case (Some p)
  then obtain t where t: "g_obj g p = Some (OTable t)" using assms(2) kind_at_body(1) by (auto simp: pointer_ok_def)
  obtain tm g' where g': "gfasttm g et event = Inr (tm, g')" "traced g g'" using gfasttm_traced [OF assms] by blast
  then have "\<exists>h. g' = g \<or> g' = set_body p (OTable h) g"
    using Some t by (auto simp: gfasttm_def gc_table_def bind_result_Inr_conv split: if_splits)
  then have "marked g' = marked g" "g_gray g' = g_gray g" "g_tmudata g' = g_tmudata g" by (auto simp: set_body_def)
  then have "quiet g g'" using traced_heap [OF g'(2)] traced_fields [OF g'(2)] by (simp add: quiet_def)
  then show ?thesis using g' traced_fields [OF g'(2)] by auto
qed (simp add: gfasttm_def)

definition userdata :: "collector \<Rightarrow> GCObject list \<Rightarrow> bool" where
  "userdata g xs \<longleftrightarrow> (\<forall>x\<in>set xs. \<exists>a. x = GCAddr a \<and> kind_at g a = Some 7)"

lemma userdata_quiet: "quiet g g' \<Longrightarrow> userdata g' xs = userdata g xs"
  by (simp add: userdata_def same_heap_kind [OF quiet_heap])

lemma quiet_tmudata: "quiet g (g\<lparr>g_tmudata := xs\<rparr>)"
  by (simp add: quiet_def same_heap_def)

lemma quiet_finalized: "kind_at g a = Some 7 \<Longrightarrow> quiet g (markfinalized (GCAddr a) g)"
  by (auto simp: quiet_def same_heap_def markfinalized_def bit_or_iff FINALIZEDBIT_def listed_kind_def)

lemma markfinalized_fields [simp]:
  "g_tmudata (markfinalized x g) = g_tmudata g" "g_rootgc (markfinalized x g) = g_rootgc g"
  by (simp_all add: markfinalized_def)

definition separated :: "GCObject list \<Rightarrow> collector \<Rightarrow> GCObject list \<Rightarrow> collector \<Rightarrow> bool" where
  "separated xs g kept g' \<longleftrightarrow> quiet g g' \<and> set kept \<subseteq> set xs \<and> g_rootgc g' = g_rootgc g \<and>
     (\<exists>new. g_tmudata g' = g_tmudata g @ new \<and> set new \<subseteq> set xs)"

lemma separated_keep: "quiet g g1 \<Longrightarrow> g_tmudata g1 = g_tmudata g \<Longrightarrow> g_rootgc g1 = g_rootgc g \<Longrightarrow> separated xs g1 kept g' \<Longrightarrow>
    separated (x # xs) g (x # kept) g'"
  unfolding separated_def by (auto intro: quiet_trans)

lemma separated_move: "quiet g g1 \<Longrightarrow> g_tmudata g1 = g_tmudata g @ [x] \<Longrightarrow> g_rootgc g1 = g_rootgc g \<Longrightarrow> separated xs g1 kept g' \<Longrightarrow>
    separated (x # xs) g kept g'"
  unfolding separated_def by (auto intro: quiet_trans)

lemma separate_loop_ok:
  assumes "all_ok g" "userdata g xs"
  shows "\<exists>m kept g'. separate_loop V every xs g = Inr (m, kept, g') \<and> separated xs g kept g'"
  using assms
proof (induction xs arbitrary: g)
  case Nil
  then show ?case by (simp add: separated_def)
next
  case (Cons x xs)
  obtain a where a: "x = GCAddr a" "kind_at g a = Some 7" using Cons.prems(2) by (auto simp: userdata_def)
  obtain mt env len where b: "g_obj g a = Some (OUserdata mt env len)" using kind_at_body(2) [OF a(2)] by blast
  have IH: "\<exists>m kept g'. separate_loop V every xs g1 = Inr (m, kept, g') \<and> separated xs g1 kept g'" if "quiet g g1" for g1
    using Cons.IH [of g1] Cons.prems same_heap_all_ok [OF quiet_heap [OF that]] userdata_quiet [OF that] by (auto simp: userdata_def)
  show ?case
  proof (cases "\<not> (iswhite g x \<or> every) \<or> isfinalized g x")
    case True
    obtain m kept g' where r: "separate_loop V every xs g = Inr (m, kept, g')" "separated xs g kept g'" using IH [of g] by auto
    have "separated (x # xs) g (x # kept) g'" by (rule separated_keep [OF _ _ _ r(2)]) simp_all
    then show ?thesis using True r(1) a b by (auto simp: body_at_def)
  next
    case False
    have "pointer_ok g 5 mt" using all_okD [OF Cons.prems(1) b] by simp
    then obtain tm g1 where g1: "gfasttm g mt TM_GC = Inr (tm, g1)" "quiet g g1" "g_tmudata g1 = g_tmudata g" "g_rootgc g1 = g_rootgc g"
      using gfasttm_quiet [OF Cons.prems(1)] by blast
    have k1: "kind_at g1 a = Some 7" using a(2) same_heap_kind [OF quiet_heap [OF g1(2)]] by simp
    note q2 = quiet_trans [OF g1(2) quiet_finalized [OF k1]]
    show ?thesis
    proof (cases tm)
      case None
      obtain m kept g' where r: "separate_loop V every xs (markfinalized x g1) = Inr (m, kept, g')" "separated xs (markfinalized x g1) kept g'"
        using IH [OF q2] a(1) by auto
      have "separated (x # xs) g (x # kept) g'" by (rule separated_keep [OF _ _ _ r(2)]) (use q2 g1 a(1) in simp_all)
      then show ?thesis using False r(1) a b g1(1) None by (auto simp: body_at_def)
    next
      case (Some t)
      let ?g = "(markfinalized x g1)\<lparr>g_tmudata := g_tmudata (markfinalized x g1) @ [x]\<rparr>"
      have q3: "quiet g ?g" using quiet_trans [OF q2 quiet_tmudata] a(1) by simp
      obtain m kept g' where r: "separate_loop V every xs ?g = Inr (m, kept, g')" "separated xs ?g kept g'" using IH [OF q3] by auto
      have "separated (x # xs) g kept g'" by (rule separated_move [OF _ _ _ r(2)]) (use q3 g1 a(1) in simp_all)
      then show ?thesis using False r(1) a b g1(1) Some by (auto simp: body_at_def)
    qed
  qed
qed

lemma after_suffix: "\<exists>pre. xs = pre @ after p xs"
proof (cases p)
  case (Some q)
  have "xs = takeWhile (\<lambda>x. x \<noteq> q) xs @ dropWhile (\<lambda>x. x \<noteq> q) xs" by simp
  also have "dropWhile (\<lambda>x. x \<noteq> q) xs = take 1 (dropWhile (\<lambda>x. x \<noteq> q) xs) @ drop 1 (dropWhile (\<lambda>x. x \<noteq> q) xs)"
    by (rule append_take_drop_id [symmetric])
  finally show ?thesis using Some by (metis after.simps(2) append.assoc)
qed simp

text \<open>The userdata of the list of all objects, and those that wait for their finalizers.\<close>

definition udata_ok :: "collector \<Rightarrow> bool" where
  "udata_ok g \<longleftrightarrow> userdata g (after (Some (GCAddr (g_mainthread g))) (g_rootgc g)) \<and> userdata g (g_tmudata g)"

lemma separateudata_ok:
  assumes m: "mark_ok P {} g" and u: "udata_ok g"
  shows "\<exists>d g'. luaC_separateudata V every g = Inr (d, g') \<and> mark_ok P {} g' \<and> quiet g g' \<and> userdata g' (g_tmudata g')"
proof -
  let ?us = "after (Some (GCAddr (g_mainthread g))) (g_rootgc g)"
  have us: "userdata g ?us" using u by (simp add: udata_ok_def)
  obtain d kept g1 where g1: "separate_loop V every ?us g = Inr (d, kept, g1)" "separated ?us g kept g1"
    using separate_loop_ok [OF mark_okD(1) [OF m] us] by blast
  obtain pre where pre: "g_rootgc g = pre @ ?us" using after_suffix by blast
  then have tk: "take (length (g_rootgc g) - length ?us) (g_rootgc g) = pre" by (metis append_eq_conv_conj diff_add_inverse2 length_append)
  let ?g = "g1\<lparr>g_rootgc := pre @ kept\<rparr>"
  have s: "quiet g g1" "set kept \<subseteq> set ?us" using g1(2) by (simp_all add: separated_def)
  have q: "quiet g ?g" using s(1) by (simp add: quiet_def same_heap_def)
  have "rooted ?g"
    unfolding rooted_def
  proof (intro allI impI)
    fix x assume "listed_kind ?g x"
    then have x: "listed_kind g x" using listed_kind_heap [OF quiet_heap [OF q]] by blast
    then have "x \<in> set (g_rootgc g)" using mark_okD(3) [OF m] by (simp add: rooted_def)
    moreover have "x \<notin> set ?us" using x us by (auto simp: userdata_def listed_kind_def)
    moreover have "set (g_rootgc g) = set pre \<union> set ?us" using arg_cong [OF pre, of set] by (simp only: set_append)
    ultimately have "x \<in> set pre" by blast
    then show "x \<in> set (g_rootgc ?g)" by simp
  qed
  then have m': "mark_ok P {} ?g" by (rule mark_ok_quiet [OF m q])
  obtain new where new: "g_tmudata g1 = g_tmudata g @ new" "set new \<subseteq> set ?us"
    using g1(2) unfolding separated_def by blast
  then have "set (g_tmudata ?g) \<subseteq> set (g_tmudata g) \<union> set ?us" by auto
  moreover have "\<exists>a. x = GCAddr a \<and> kind_at g a = Some 7" if "x \<in> set (g_tmudata g) \<union> set ?us" for x
    using that u us unfolding udata_ok_def userdata_def by blast
  ultimately have "userdata g (g_tmudata ?g)" by (simp only: userdata_def) (meson subsetD)
  then have "userdata ?g (g_tmudata ?g)" by (simp only: userdata_quiet [OF q])
  moreover have "luaC_separateudata V every g = Inr (d, ?g)"
    unfolding luaC_separateudata_def Let_def using g1(1) tk by (simp del: after.simps)
  ultimately show ?thesis using q m' by blast
qed

text \<open>
  \<open>marktmu\<close>: each userdata that waits is made white and marked again. What it keeps alive is
  marked; the objects that refer to it see it white only for a moment.
\<close>

lemma makewhite_same: "same_heap g (makewhite x g)" "same_fields g (makewhite x g)"
  by (simp_all add: makewhite_def same_fields_def)

lemma makewhite_fields [simp]: "g_gray (makewhite x g) = g_gray g" "g_obj (makewhite x g) = g_obj g"
  "g_tmudata (makewhite x g) = g_tmudata g" "g_weak (makewhite x g) = g_weak g" "g_currentwhite (makewhite x g) = g_currentwhite g"
  "waiting (makewhite x g) = waiting g"
  by (simp_all add: makewhite_def waiting_def)

lemma makewhite_refs [simp]: "white_ok g \<Longrightarrow> strong_refs (makewhite x g) a = strong_refs g a"
  by (rule strong_refs_cong) simp_all

lemma makewhite_lists:
  assumes l: "lists_ok {} g" and u: "kind_at g u = Some 7" and w: "white_ok g"
  shows "lists_ok {} (makewhite (GCAddr u) g)"
proof -
  let ?g = "makewhite (GCAddr u) g"
  have lk: "listed_kind ?g x = listed_kind g x" "kind_at ?g b = kind_at g b" for x b by (simp_all add: listed_kind_def kind_at_def)
  have n: "\<not> listed_kind g (GCAddr u)" using u by (simp add: listed_kind_def)
  then have o: "GCAddr u \<notin> set (waiting g)" using lists_okD(2) [OF l] by blast
  show ?thesis
    by (rule lists_okI) (use n o w lists_okD(1) [OF l] in \<open>auto simp: lk dest: lists_okD(2-7) [OF l]\<close>)
qed

lemma remark_userdata:
  assumes m: "mark_ok P {} g" and u: "kind_at g u = Some 7" and w: "white_ok g"
  shows "\<exists>g'. reallymarkobject (GCAddr u) (makewhite (GCAddr u) g) = Inr g' \<and> mark_ok P {} g' \<and> marking g g' \<and> \<not> iswhite g' (GCAddr u)"
proof -
  let ?g = "makewhite (GCAddr u) g"
  have ok: "all_ok ?g" using same_heap_all_ok [OF makewhite_same(1)] mark_okD(1) [OF m] by blast
  have "allocated ?g (GCAddr u)" "iswhite ?g (GCAddr u)" using kind_at_allocated [OF u] w by simp_all
  then obtain g' where g': "reallymarkobject (GCAddr u) ?g = Inr g'" "traced ?g g'" "\<not> iswhite g' (GCAddr u)"
    using reallymarkobject_marker ok u unfolding marker_def by (metis kind_at_cases)
  have white: "\<not> iswhite g' x" if "\<not> iswhite g x" for x
    using that g'(3) traced_white [OF g'(2), of x] w by (cases "x = GCAddr u") auto
  have "closed g' P"
    unfolding closed_def
  proof (intro allI impI ballI)
    fix a r assume a: "g_obj g' a \<noteq> None" "\<not> iswhite g' (GCAddr a)" "GCAddr a \<notin> P" "GCAddr a \<notin> set (g_gray g')" "r \<in> strong_refs g' a"
    have o: "g_obj ?g a \<noteq> None" and r: "r \<in> strong_refs ?g a"
      using a(1,5) traced_ok(4) [OF g'(2), of "GCAddr a"] traced_refs [OF g'(2)] by simp_all
    show "\<not> iswhite g' r"
    proof (cases "iswhite ?g (GCAddr a)")
      case True
      then show ?thesis using traced_done [OF g'(2) o True a(2,4) r] by blast
    next
      case False
      then have n: "\<not> iswhite g (GCAddr a)" using w by simp
      have "GCAddr a \<notin> set (g_gray g)" using a(4) traced_gray [OF g'(2)] by auto
      then have "\<not> iswhite g r" using closedD [OF mark_okD(4) [OF m] _ n a(3)] o r w by simp
      then show ?thesis by (rule white)
    qed
  qed
  moreover have "lists_ok {} g'" by (rule lists_ok_traced [OF g'(2) makewhite_lists [OF mark_okD(2) [OF m] u w]])
  moreover have "rooted ?g" using mark_okD(3) [OF m] by (simp add: rooted_def listed_kind_heap [OF makewhite_same(1)]) (simp add: makewhite_def)
  then have "rooted g'" by (rule work_traced(2) [OF g'(2)])
  moreover have "marking g g'"
  proof -
    have "same_heap g g'" using same_heap_trans [OF makewhite_same(1) traced_heap [OF g'(2)]] .
    moreover have "bit (marked g x) n" if "n < 2" "bit (marked g' x) n" for x n
    proof -
      have "x \<noteq> GCAddr u" using that g'(3) by (auto simp: iswhite_bit less_2_cases_iff)
      then show ?thesis using traced_low [OF g'(2) that] by (simp add: makewhite_mark)
    qed
    moreover have "bit (marked g' x) n = bit (marked g x) n" if "5 \<le> n" for x n
      using that traced_high [OF g'(2), of n x] by (auto simp: makewhite_mark)
    moreover have "isblack g x" if "open_upval g x" "isblack g' x" for x
    proof -
      have "open_upval ?g x" using that(1) open_upval_heap [OF makewhite_same(1)] by blast
      then have "isblack ?g x" by (rule traced_open [OF g'(2) _ that(2)])
      then show ?thesis by simp
    qed
    ultimately show ?thesis
      using makewhite_same(2) [of g "GCAddr u"] by (simp add: marking_def traced_fields [OF g'(2)] same_fields_def)
  qed
  ultimately show ?thesis using g'(1,3) traced_ok(1) [OF g'(2) ok] by (auto simp: mark_ok_def)
qed

lemma marktmu_loop_ok:
  assumes "mark_ok P {} g" "userdata g us" "white_ok g"
  shows "\<exists>g'. fold_result (\<lambda>u g. reallymarkobject u (makewhite u g)) us g = Inr g' \<and> mark_ok P {} g' \<and> marking g g' \<and>
    (\<forall>u\<in>set us. \<not> iswhite g' u)"
  using assms
proof (induction us arbitrary: g)
  case (Cons x us)
  obtain u where u: "x = GCAddr u" "kind_at g u = Some 7" using Cons.prems(2) by (auto simp: userdata_def)
  obtain g1 where g1: "reallymarkobject (GCAddr u) (makewhite (GCAddr u) g) = Inr g1" "mark_ok P {} g1" "marking g g1" "\<not> iswhite g1 (GCAddr u)"
    using remark_userdata [OF Cons.prems(1) u(2) Cons.prems(3)] by blast
  have "userdata g1 us" "white_ok g1"
    using Cons.prems marking_ok(3) [OF g1(3)] g1(3) by (simp_all add: userdata_def white_ok_def marking_fields)
  then obtain g' where g': "fold_result (\<lambda>u g. reallymarkobject u (makewhite u g)) us g1 = Inr g'" "mark_ok P {} g'" "marking g1 g'"
    "\<forall>u\<in>set us. \<not> iswhite g' u" using Cons.IH [OF g1(2)] by blast
  have "\<not> iswhite g' x" using g1(4) u(1) marking_white [OF g'(3)] by blast
  then show ?case using g1(1) g' u(1) marking_trans [OF g1(3) g'(3)] by auto
qed simp

section \<open>Weak tables\<close>

text \<open>An entry or an array slot may lose its value.\<close>

lemma wf_h_values:
  assumes wf: "wf_h N mpos nx ky vl" and vl: "\<And>j. vl' j = vl j \<or> vl' j = TNil"
  shows "wf_h N mpos nx ky vl'"
proof -
  have "free_ok N nx ky vl'" using wf vl unfolding wf_h_def free_ok_def by metis
  moreover have "dead_ok N ky vl'" using wf vl unfolding wf_h_def dead_ok_def by metis
  ultimately show ?thesis using wf unfolding wf_h_def by blast
qed

lemma wf_table_clear_node:
  assumes wf: "wf_table h" and i: "i < length (node h)"
  shows "wf_table (h\<lparr>node := (node h)[i := removeentry ((node h ! i)\<lparr>i_val := TNil\<rparr>)]\<rparr>)"
proof -
  define ns where "ns = (node h)[i := (node h ! i)\<lparr>i_val := TNil\<rparr>]"
  have same: "nk_next (ns ! j) = nk_next (node h ! j)" "i_key (ns ! j) = i_key (node h ! j)" "length ns = length (node h)" for j
    by (cases "j = i", simp_all add: ns_def i)+
  have vl: "i_val (ns ! j) = i_val (node h ! j) \<or> i_val (ns ! j) = TNil" for j by (cases "j = i") (simp_all add: ns_def i)
  have mp: "mainposition (h\<lparr>node := ns\<rparr>) = mainposition h" by (rule mainposition_lsizenode) simp
  have w: "wf_nodes h" "wf_lastfree h" "no_array_keys h" "wf_sizes h" "length (array h) = sizearray h"
    using wf by (simp_all add: wf_table_def wf0_def)
  have "wf_nodes (h\<lparr>node := ns\<rparr>)"
    using wf_h_values [OF w(1) [unfolded wf_nodes_def], of "\<lambda>j. i_val (ns ! j)"] vl by (simp add: wf_nodes_def mp same)
  moreover have "wf_lastfree (h\<lparr>node := ns\<rparr>)"
  proof (cases "isdummy h")
    case True
    then have "node h = [dummynode]" using w(2) by (simp add: wf_lastfree_def)
    then have "ns = node h" using i by (simp add: ns_def dummynode_def)
    then show ?thesis using w(2) by simp
  next
    case False
    then show ?thesis using w(2) by (auto simp: wf_lastfree_def same)
  qed
  moreover have "\<exists>m\<in>set (node h). i_key m = Key k" if "m \<in> set ns" "i_key m = Key k" for m k
    using that same(2,3) nth_mem by (metis in_set_conv_nth)
  then have "no_array_keys (h\<lparr>node := ns\<rparr>)" using w(3) by (fastforce simp: no_array_keys_def)
  moreover have "wf_sizes (h\<lparr>node := ns\<rparr>)" using w(4) by (simp add: wf_sizes_def sizenode_def same)
  ultimately have "wf_table (h\<lparr>node := ns\<rparr>)" using w(5) by (simp add: wf_table_def wf0_def)
  then have "wf_table ((h\<lparr>node := ns\<rparr>)\<lparr>node := ns[i := removeentry (ns ! i)]\<rparr>)"
    using wf_table_bury [of "h\<lparr>node := ns\<rparr>" i] i by (simp add: ns_def)
  then show ?thesis using i by (simp add: ns_def)
qed

lemma wf_table_clear_array:
  assumes wf: "wf_table h"
  shows "wf_table (h\<lparr>array := (array h)[i := TNil]\<rparr>)"
proof -
  let ?h = "h\<lparr>array := (array h)[i := TNil]\<rparr>"
  have mp: "mainposition ?h = mainposition h" by (rule mainposition_lsizenode) simp
  have "wf_sizes ?h = wf_sizes h" by (simp add: wf_sizes_def sizenode_def)
  moreover have "wf_nodes ?h = wf_nodes h" by (simp add: wf_nodes_def mp)
  moreover have "wf_lastfree ?h = wf_lastfree h" by (simp add: wf_lastfree_def)
  moreover have "no_array_keys ?h = no_array_keys h" by (simp add: no_array_keys_def)
  ultimately show ?thesis using wf by (simp add: wf_table_def wf0_def)
qed

text \<open>What clearing does to the objects: tables lose values, and strings their whiteness.\<close>

definition cleared_table :: "Table \<Rightarrow> Table \<Rightarrow> bool" where
  "cleared_table h h' \<longleftrightarrow> metatable h' = metatable h \<and> sizearray h' = sizearray h \<and> lsizenode h' = lsizenode h \<and>
     length (array h') = length (array h) \<and> length (node h') = length (node h) \<and> (wf_table h \<longrightarrow> wf_table h') \<and>
     (\<forall>i<length (array h). array h' ! i = array h ! i \<or> array h' ! i = TNil) \<and>
     (\<forall>i<length (node h). i_val (node h' ! i) = TNil \<or>
        i_val (node h' ! i) = i_val (node h ! i) \<and> i_key (node h' ! i) = i_key (node h ! i))"

fun cleared_body :: "gc_body \<Rightarrow> gc_body \<Rightarrow> bool" where
  "cleared_body (OTable h) b' \<longleftrightarrow> (\<exists>h'. b' = OTable h' \<and> cleared_table h h')"
| "cleared_body b b' \<longleftrightarrow> b' = b"

definition cleared :: "collector \<Rightarrow> collector \<Rightarrow> bool" where
  "cleared g g' \<longleftrightarrow> (\<forall>a. g_obj g a = None \<longrightarrow> g_obj g' a = None) \<and>
     (\<forall>a b. g_obj g a = Some b \<longrightarrow> (\<exists>b'. g_obj g' a = Some b' \<and> cleared_body b b')) \<and> g_strt g' = g_strt g \<and>
     (\<forall>a. marked g' (GCAddr a) = marked g (GCAddr a)) \<and>
     (\<forall>s n. n < 2 \<longrightarrow> bit (marked g' (GCString s)) n \<longrightarrow> bit (marked g (GCString s)) n) \<and> same_fields g g' \<and>
     g_totalbytes g' = g_totalbytes g \<and> g_gray g' = g_gray g"

lemma cleared_table_refl [simp]: "cleared_table h h"
  by (simp add: cleared_table_def)

lemma cleared_body_refl [simp]: "cleared_body b b"
  by (cases b) auto

lemma cleared_table_trans:
  assumes "cleared_table h h'" "cleared_table h' h''"
  shows "cleared_table h h''"
proof -
  have "array h'' ! i = array h ! i \<or> array h'' ! i = TNil" if "i < length (array h)" for i
    using assms that unfolding cleared_table_def by metis
  moreover have "i_val (node h'' ! i) = TNil \<or> i_val (node h'' ! i) = i_val (node h ! i) \<and> i_key (node h'' ! i) = i_key (node h ! i)"
    if "i < length (node h)" for i
    using assms that unfolding cleared_table_def by metis
  ultimately show ?thesis using assms by (simp add: cleared_table_def)
qed

lemma cleared_body_trans: "cleared_body b b' \<Longrightarrow> cleared_body b' b'' \<Longrightarrow> cleared_body b b''"
  by (cases b) (simp_all, metis cleared_body.simps(1) cleared_table_trans)

lemma cleared_refl [simp]: "cleared g g"
  by (auto simp: cleared_def same_fields_def)

lemma same_fields_trans: "same_fields g g' \<Longrightarrow> same_fields g' g'' \<Longrightarrow> same_fields g g''"
  by (simp add: same_fields_def)

lemma cleared_Some: "cleared g g' \<Longrightarrow> g_obj g a = Some b \<Longrightarrow> \<exists>b'. g_obj g' a = Some b' \<and> cleared_body b b'"
  unfolding cleared_def by blast

lemma cleared_trans:
  assumes "cleared g g'" "cleared g' g''"
  shows "cleared g g''"
proof -
  have "\<exists>b'. g_obj g'' a = Some b' \<and> cleared_body b b'" if "g_obj g a = Some b" for a b
    using cleared_Some [OF assms(1) that] cleared_Some [OF assms(2)] cleared_body_trans by blast
  then show ?thesis using assms same_fields_trans [of g g' g''] unfolding cleared_def by simp
qed

lemma cleared_Some':
  assumes "cleared g g'" "g_obj g' a = Some b'"
  shows "\<exists>b. g_obj g a = Some b \<and> cleared_body b b'"
proof -
  have "g_obj g a \<noteq> None" using assms unfolding cleared_def by (metis option.distinct(1))
  then obtain b where "g_obj g a = Some b" by blast
  then show ?thesis using cleared_Some [OF assms(1)] assms(2) by fastforce
qed

lemma cleared_tt: "cleared_body b b' \<Longrightarrow> gc_tt b' = gc_tt b"
  by (cases b) auto

lemma cleared_kind: "cleared g g' \<Longrightarrow> kind_at g' a = kind_at g a"
proof (cases "g_obj g a")
  case None
  assume "cleared g g'"
  then have "g_obj g' a = None" using None unfolding cleared_def by blast
  then show ?thesis using None by (simp add: kind_at_def)
next
  case (Some b)
  assume "cleared g g'"
  then show ?thesis using cleared_Some [OF _ Some] cleared_tt by (fastforce simp: kind_at_def Some)
qed

lemma cleared_allocated: "cleared g g' \<Longrightarrow> allocated g' x = allocated g x"
proof (cases x)
  case (GCString s)
  assume "cleared g g'"
  then show ?thesis using GCString by (simp add: cleared_def)
next
  case (GCAddr a)
  assume "cleared g g'"
  then have "kind_at g' a = kind_at g a" by (rule cleared_kind)
  then show ?thesis using GCAddr by (cases "g_obj g a"; cases "g_obj g' a") (simp_all add: kind_at_def)
qed

lemma cleared_value: "cleared g g' \<Longrightarrow> value_ok g' v = value_ok g v"
  by (cases v) (simp_all add: cleared_kind cleared_allocated del: allocated.simps)

lemma cleared_white: "cleared g g' \<Longrightarrow> iswhite g' x \<Longrightarrow> iswhite g x"
  unfolding cleared_def by (cases x) (auto simp: iswhite_bit)

text \<open>What is cleared is still well formed, and refers to less.\<close>

lemma cleared_body_ok:
  assumes c: "cleared g g'" and b: "body_ok g b" "cleared_body b b'"
  shows "body_ok g' b'"
proof -
  note keep = cleared_kind [OF c] cleared_allocated [OF c] cleared_value [OF c]
  show ?thesis
  proof (cases b)
    case (OTable h)
    then obtain h' where h': "b' = OTable h'" "cleared_table h h'" using b(2) by auto
    have w: "wf_table h" using b(1) OTable by simp
    have "value_ok g v" if "v \<in> set (array h')" for v
      using that h'(2) b(1) OTable by (fastforce simp: in_set_conv_nth cleared_table_def)
    moreover have "value_ok g (i_val n) \<and> (\<exists>k. i_key n = Key k \<and> value_ok g k)" if n: "n \<in> set (node h')" "i_val n \<noteq> TNil" for n
    proof -
      obtain i where i: "i < length (node h)" "n = node h' ! i" using n(1) h'(2) by (auto simp: in_set_conv_nth cleared_table_def)
      then have "i_val n = i_val (node h ! i)" "i_key n = i_key (node h ! i)" using h'(2) n(2) by (auto simp: cleared_table_def)
      moreover have "node h ! i \<in> set (node h)" using i(1) by simp
      ultimately show ?thesis using b(1) OTable n(2) by (metis body_ok.simps(1))
    qed
    ultimately show ?thesis using h' b(1) OTable w by (simp add: keep cleared_table_def pointer_ok_def)
  next
    case (OUpval uv)
    show ?thesis
    proof (cases uv)
      case (OnStack t i)
      then obtain th where th: "g_obj g t = Some (OThread th)" "i < gt_top th" "gt_top th \<le> length (gt_stack th)" "value_ok g (gt_stack th ! i)"
        using b(1) OUpval by auto
      then have "g_obj g' t = Some (OThread th)" using cleared_Some [OF c th(1)] by simp
      then show ?thesis using th OUpval OnStack b(2) by (simp add: keep)
    qed (use b OUpval in \<open>simp add: keep\<close>)
  qed (use b in \<open>simp_all add: keep pointer_ok_def string_ok_def del: allocated.simps\<close>)
qed

lemma cleared_all_ok: "cleared g g' \<Longrightarrow> all_ok g \<Longrightarrow> all_ok g'"
  unfolding all_ok_def using cleared_Some' cleared_body_ok by meson

text \<open>All references of an object, weak or not.\<close>

definition all_refs :: "collector \<Rightarrow> addr \<Rightarrow> GCObject set" where
  "all_refs g a = (case g_obj g a of None \<Rightarrow> {} | Some b \<Rightarrow> body_refs g False False b)"

lemma cleared_table_refs:
  assumes c: "cleared_table h h'"
  shows "table_refs wk wv h' \<subseteq> table_refs wk wv h"
proof -
  have a: "vref v \<subseteq> \<Union> (vref ` set (array h))" if v: "v \<in> set (array h')" for v
  proof -
    obtain i where i: "i < length (array h)" "v = array h' ! i" using v c by (auto simp: in_set_conv_nth cleared_table_def)
    then have "v = array h ! i \<or> v = TNil" using c by (auto simp: cleared_table_def)
    moreover have "array h ! i \<in> set (array h)" using i(1) by simp
    ultimately show ?thesis by (auto simp: vref_def)
  qed
  have n: "node_refs wk wv n \<subseteq> \<Union> (node_refs wk wv ` set (node h))" if n: "n \<in> set (node h')" for n
  proof -
    obtain i where i: "i < length (node h)" "n = node h' ! i" using n c by (auto simp: in_set_conv_nth cleared_table_def)
    then have "i_val n = TNil \<or> i_val n = i_val (node h ! i) \<and> i_key n = i_key (node h ! i)" using c by (auto simp: cleared_table_def)
    moreover have "node h ! i \<in> set (node h)" using i(1) by simp
    ultimately show ?thesis by (auto simp: node_refs_def)
  qed
  have "metatable h' = metatable h" using c by (simp add: cleared_table_def)
  then show ?thesis using a n unfolding table_refs_def by (auto split: if_splits) blast+
qed

lemma cleared_body_refs:
  assumes c: "cleared g g'" and b: "cleared_body b b'"
  shows "body_refs g' wk wv b' \<subseteq> body_refs g wk wv b"
proof (cases b)
  case (OTable h)
  then obtain h' where "b' = OTable h'" "cleared_table h h'" using b by auto
  then show ?thesis using OTable cleared_table_refs by simp
next
  case (OUpval uv)
  then have b': "b' = OUpval uv" using b by simp
  show ?thesis
  proof (cases uv)
    case (OnStack t i)
    show ?thesis
    proof (cases "g_obj g' t")
      case (Some bt')
      then obtain bt where "g_obj g t = Some bt" "cleared_body bt bt'" using cleared_Some' [OF c] by blast
      then show ?thesis using Some OUpval b' OnStack by (cases bt) auto
    qed (use OUpval b' OnStack in simp)
  qed (use OUpval b' in simp)
qed (use b in auto)

lemma cleared_refs: "cleared g g' \<Longrightarrow> all_refs g' a \<subseteq> all_refs g a"
proof (cases "g_obj g' a")
  case (Some b')
  assume c: "cleared g g'"
  then obtain b where "g_obj g a = Some b" "cleared_body b b'" using cleared_Some' Some by blast
  then show ?thesis using Some cleared_body_refs [OF c] by (simp add: all_refs_def)
qed (simp add: all_refs_def)

lemma set_body_cleared: "g_obj g a = Some (OTable h) \<Longrightarrow> cleared_table h h' \<Longrightarrow> cleared g (set_body a (OTable h') g)"
  by (simp add: cleared_def set_body_def same_fields_def)

lemma stringmark_cleared: "cleared g (white2gray (GCString s) g)"
proof -
  have "bit (marked (white2gray (GCString s) g) x) n \<Longrightarrow> bit (marked g x) n" for x n
    by (auto simp: white2gray_def bit_and_iff split: if_splits)
  moreover have "marked (white2gray (GCString s) g) (GCAddr a) = marked g (GCAddr a)" for a by (simp add: white2gray_def)
  moreover have "same_fields g (white2gray (GCString s) g)" by (simp add: white2gray_def same_fields_def)
  ultimately show ?thesis by (simp add: cleared_def) (simp add: white2gray_def)
qed

lemma iscleared_ok:
  assumes "\<forall>ob. key_object k = Some ob \<longrightarrow> allocated g ob"
  shows "\<exists>c g'. iscleared k iskey g = Inr (c, g') \<and> cleared g g' \<and> g_obj g' = g_obj g \<and>
    (\<not> c \<longrightarrow> (\<forall>r\<in>set_option (key_object k). \<not> iswhite g' r))"
proof (cases "key_object k")
  case (Some ob)
  then have al: "allocated g ob" using assms by simp
  show ?thesis
  proof (cases "\<exists>s. k = Key (TStr s)")
    case True
    then obtain s where s: "k = Key (TStr s)" "ob = GCString s" using Some by (auto simp: key_object_def)
    have "iscleared k iskey g = Inr (False, white2gray ob g)"
      using Some s al by (simp add: iscleared_def stringmark_def del: allocated.simps)
    moreover have "g_obj (white2gray ob g) = g_obj g" by (simp add: white2gray_def)
    ultimately show ?thesis using stringmark_cleared [of g s] s(2) Some by (intro exI [of _ False] exI [of _ "white2gray ob g"]) simp
  next
    case False
    have "\<exists>c. iscleared k iskey g = Inr (c, g) \<and> (\<not> c \<longrightarrow> \<not> iswhite g ob)"
    proof (cases k)
      case (Key v)
      then show ?thesis using False Some al by (cases v) (simp_all add: iscleared_def del: allocated.simps)
    qed (use Some al in \<open>simp add: iscleared_def del: allocated.simps\<close>)
    then show ?thesis using Some by auto
  qed
qed (auto simp: iscleared_def)

text \<open>A slot and an entry without white objects; they stay so while more is cleared.\<close>

definition slot_done :: "addr \<Rightarrow> nat \<Rightarrow> collector \<Rightarrow> bool" where
  "slot_done a i g \<longleftrightarrow> (\<forall>h. g_obj g a = Some (OTable h) \<longrightarrow> i < length (array h) \<longrightarrow> (\<forall>r\<in>vref (array h ! i). \<not> iswhite g r))"

definition entry_done :: "addr \<Rightarrow> nat \<Rightarrow> collector \<Rightarrow> bool" where
  "entry_done a i g \<longleftrightarrow> (\<forall>h. g_obj g a = Some (OTable h) \<longrightarrow> i < length (node h) \<longrightarrow>
     (\<forall>r\<in>node_refs False False (node h ! i). \<not> iswhite g r))"

lemma cleared_tableD:
  assumes c: "cleared g g'" and h: "g_obj g' a = Some (OTable h')"
  shows "\<exists>h. g_obj g a = Some (OTable h) \<and> cleared_table h h'"
proof -
  obtain b where "g_obj g a = Some b" "cleared_body b (OTable h')" using cleared_Some' [OF c h] by blast
  then show ?thesis by (cases b) auto
qed

lemma slot_done_cleared:
  assumes d: "slot_done a i g" and c: "cleared g g'"
  shows "slot_done a i g'"
  unfolding slot_done_def
proof (intro allI impI ballI)
  fix h' r assume h': "g_obj g' a = Some (OTable h')" "i < length (array h')" "r \<in> vref (array h' ! i)"
  obtain h where h: "g_obj g a = Some (OTable h)" "cleared_table h h'" using cleared_tableD [OF c h'(1)] by blast
  then have "i < length (array h)" "array h' ! i = array h ! i \<or> array h' ! i = TNil" using h'(2) by (auto simp: cleared_table_def)
  then have "\<not> iswhite g r" using d h(1) h'(3) by (auto simp: slot_done_def vref_def)
  then show "\<not> iswhite g' r" using cleared_white [OF c] by blast
qed

lemma entry_done_cleared:
  assumes d: "entry_done a i g" and c: "cleared g g'"
  shows "entry_done a i g'"
  unfolding entry_done_def
proof (intro allI impI ballI)
  fix h' r assume h': "g_obj g' a = Some (OTable h')" "i < length (node h')" "r \<in> node_refs False False (node h' ! i)"
  obtain h where h: "g_obj g a = Some (OTable h)" "cleared_table h h'" using cleared_tableD [OF c h'(1)] by blast
  then have i: "i < length (node h)" using h'(2) by (simp add: cleared_table_def)
  then have "i_val (node h' ! i) = TNil \<or> i_val (node h' ! i) = i_val (node h ! i) \<and> i_key (node h' ! i) = i_key (node h ! i)"
    using h(2) by (simp add: cleared_table_def)
  then have "r \<in> node_refs False False (node h ! i)" using h'(3) by (auto simp: node_refs_def)
  then have "\<not> iswhite g r" using d h(1) i by (auto simp: entry_done_def)
  then show "\<not> iswhite g' r" using cleared_white [OF c] by blast
qed

lemma clear_array_ok:
  assumes ok: "all_ok g" and h: "g_obj g a = Some (OTable h)" and i: "i < length (array h)"
  shows "\<exists>g'. clear_array a i g = Inr g' \<and> cleared g g' \<and> slot_done a i g'"
proof -
  have b: "body_ok g (OTable h)" by (rule all_okD [OF ok h])
  have "value_ok g (array h ! i)" using b nth_mem [OF i] by simp
  then have "\<forall>ob. key_object (Key (array h ! i)) = Some ob \<longrightarrow> allocated g ob"
    using gcvalue_allocated by (simp add: key_object_def del: allocated.simps)
  then obtain c g1 where g1: "iscleared (Key (array h ! i)) False g = Inr (c, g1)" "cleared g g1" "g_obj g1 = g_obj g"
    "\<not> c \<Longrightarrow> \<forall>r\<in>vref (array h ! i). \<not> iswhite g1 r"
    using iscleared_ok [of "Key (array h ! i)" g False] by (auto simp: key_object_def vref_def)
  have v: "array_at g a i = Inr (array h ! i)" using h i by (simp add: array_at_def gc_table_def)
  show ?thesis
  proof (cases c)
    case True
    let ?h = "h\<lparr>array := (array h)[i := TNil]\<rparr>" and ?g = "set_body a (OTable (h\<lparr>array := (array h)[i := TNil]\<rparr>)) g1"
    have "array ?h ! j = array h ! j \<or> array ?h ! j = TNil" for j using i by (cases "j = i") simp_all
    then have "cleared_table h ?h" using wf_table_clear_array by (simp add: cleared_table_def)
    then have "cleared g1 ?g" using set_body_cleared [of g1 a h] h g1(3) by simp
    moreover have "slot_done a i ?g" by (simp add: slot_done_def set_body_def vref_def)
    moreover have "clear_array a i g = Inr ?g" using v g1(1,3) h True by (simp add: clear_array_def set_array_def gc_table_def)
    ultimately show ?thesis using cleared_trans [OF g1(2)] by blast
  next
    case False
    have "slot_done a i g1" using g1(3,4) h False by (simp add: slot_done_def)
    then show ?thesis using v g1(1,2) False by (simp add: clear_array_def)
  qed
qed

lemma clear_node_ok:
  assumes ok: "all_ok g" and h: "g_obj g a = Some (OTable h)" and i: "i < length (node h)"
  shows "\<exists>g'. clear_node a i g = Inr g' \<and> cleared g g' \<and> entry_done a i g'"
proof -
  let ?n = "node h ! i"
  have n: "node_at g a i = Inr ?n" using h i by (simp add: node_at_def gc_table_def)
  show ?thesis
  proof (cases "i_val ?n = TNil")
    case True
    then have "entry_done a i g" using h by (simp add: entry_done_def node_refs_def)
    then show ?thesis using n True by (simp add: clear_node_def)
  next
    case False
    have b: "body_ok g (OTable h)" by (rule all_okD [OF ok h])
    then obtain k where k: "i_key ?n = Key k" "value_ok g k" and v: "value_ok g (i_val ?n)" using False nth_mem [OF i] by auto
    have "\<forall>ob. key_object (i_key ?n) = Some ob \<longrightarrow> allocated g ob" using k gcvalue_allocated by (simp add: key_object_def del: allocated.simps)
    then obtain c1 g1 where g1: "iscleared (i_key ?n) True g = Inr (c1, g1)" "cleared g g1" "g_obj g1 = g_obj g"
      "\<not> c1 \<Longrightarrow> \<forall>r\<in>set_option (key_object (i_key ?n)). \<not> iswhite g1 r"
      using iscleared_ok by blast
    have "\<forall>ob. key_object (Key (i_val ?n)) = Some ob \<longrightarrow> allocated g1 ob"
      using cleared_value [OF g1(2)] v gcvalue_allocated [of g1] by (simp add: key_object_def del: allocated.simps)
    then obtain c2 g2' where i2: "iscleared (Key (i_val ?n)) False g1 = Inr (c2, g2')" "cleared g1 g2'" "g_obj g2' = g_obj g1"
      "\<not> c2 \<Longrightarrow> \<forall>r\<in>vref (i_val ?n). \<not> iswhite g2' r"
      using iscleared_ok [of "Key (i_val ?n)" g1 False] by (auto simp: key_object_def vref_def)
    define c g2 where "c = (c1 \<or> c2)" and "g2 = (if c1 then g1 else g2')"
    have g2: "(if c1 then Inr (True, g1) else iscleared (Key (i_val ?n)) False g1) = Inr (c, g2)" "cleared g1 g2" "g_obj g2 = g_obj g1"
      "\<not> c \<Longrightarrow> \<not> c1 \<and> (\<forall>r\<in>vref (i_val ?n). \<not> iswhite g2 r)"
      using i2 by (auto simp: c_def g2_def)
    note c2 = cleared_trans [OF g1(2) g2(2)]
    show ?thesis
    proof (cases c)
      case True
      let ?m = "removeentry (?n\<lparr>i_val := TNil\<rparr>)"
      let ?h = "h\<lparr>node := (node h)[i := ?m]\<rparr>"
      let ?g = "set_body a (OTable ?h) g2"
      have m: "i_val ?m = TNil" by (simp add: removeentry_def split: option.splits)
      have "i_val (node ?h ! j) = TNil \<or> i_val (node ?h ! j) = i_val (node h ! j) \<and> i_key (node ?h ! j) = i_key (node h ! j)" for j
        using m i by (cases "j = i") simp_all
      then have "cleared_table h ?h" using wf_table_clear_node [OF _ i] by (simp add: cleared_table_def)
      then have "cleared g2 ?g" using set_body_cleared [of g2 a h] h g1(3) g2(3) by simp
      moreover have "entry_done a i ?g" using m by (simp add: entry_done_def set_body_def node_refs_def)
      moreover have "clear_node a i g = Inr ?g" using n g1(1,3) g2(1,3) h True False by (simp add: clear_node_def set_node_def gc_table_def)
      ultimately show ?thesis using cleared_trans [OF c2] by blast
    next
      case nc: False
      have "entry_done a i g2"
        using g1(3,4) g2(3,4) h nc cleared_white [OF g2(2)] by (auto simp: entry_done_def node_refs_def split: if_splits)
      then show ?thesis using n g1(1) g2(1) c2 False nc by (simp add: clear_node_def)
    qed
  qed
qed

text \<open>A sequence of clearings.\<close>

lemma fold_cleared:
  assumes "\<And>x g1. x \<in> set xs \<Longrightarrow> cleared g g1 \<Longrightarrow> \<exists>g2. F x g1 = Inr g2 \<and> cleared g1 g2 \<and> Q x g2"
    and q: "\<And>x g1 g2. Q x g1 \<Longrightarrow> cleared g1 g2 \<Longrightarrow> Q x g2"
  shows "\<exists>g'. fold_result F xs g = Inr g' \<and> cleared g g' \<and> (\<forall>x\<in>set xs. Q x g')"
  using assms(1)
proof (induction xs arbitrary: g)
  case (Cons x xs)
  obtain g2 where g2: "F x g = Inr g2" "cleared g g2" "Q x g2" using Cons.prems [of x g] by auto
  have "\<exists>g'. fold_result F xs g2 = Inr g' \<and> cleared g2 g' \<and> (\<forall>x\<in>set xs. Q x g')"
    by (rule Cons.IH) (use Cons.prems cleared_trans [OF g2(2)] in auto)
  then obtain g' where g': "fold_result F xs g2 = Inr g'" "cleared g2 g'" "\<forall>x\<in>set xs. Q x g'" by blast
  show ?case using g2 g' cleared_trans [OF g2(2) g'(2)] q [OF g2(3) g'(2)] by auto
qed simp

lemma cleared_strong:
  assumes c: "cleared g g'"
  shows "strong_refs g' a \<subseteq> strong_refs g a"
proof (cases "g_obj g' a")
  case (Some b')
  then obtain b where b: "g_obj g a = Some b" "cleared_body b b'" using cleared_Some' [OF c] by blast
  have "weak_keys g' a = weak_keys g a" "weak_values g' a = weak_values g a"
    using c by (simp_all add: weak_keys_def weak_values_def cleared_def same_fields_def)
  then show ?thesis using Some b cleared_body_refs [OF c b(2)] by (simp add: strong_refs_def)
qed (simp add: strong_refs_def)

lemma clear_one_ok:
  assumes ok: "all_ok g" and h: "g_obj g a = Some (OTable h)" and w: "GCAddr a \<in> set (g_weak g)"
    and r: "\<forall>r\<in>strong_refs g a. \<not> iswhite g r"
  shows "\<exists>g'. clear_one (GCAddr a) g = Inr g' \<and> cleared g g' \<and> (\<forall>r\<in>all_refs g' a. \<not> iswhite g' r)"
proof -
  have wf: "wf_table h" using all_okD [OF ok h] by simp
  then have sz: "sizearray h = length (array h)" "sizenode h = length (node h)" by (simp_all add: wf_table_def wf0_def wf_sizes_def)
  have sr: "strong_refs g a = table_refs (weak_keys g a) (weak_values g a) h" using h by (simp add: strong_refs_def)
  have wv: "testbit (marked g (GCAddr a)) VALUEWEAKBIT = weak_values g a"
    using w by (simp add: weak_values_def testbit_bit VALUEWEAKBIT_def)
  define F where "F = (\<lambda>g. if weak_values g a then fold_result (clear_array a) (rev [0..<length (array h)]) g else Inr g)"
  have "\<exists>g1. F g = Inr g1 \<and> cleared g g1 \<and> (\<forall>i<length (array h). slot_done a i g1)"
  proof (cases "weak_values g a")
    case True
    have "\<exists>g1. fold_result (clear_array a) (rev [0..<length (array h)]) g = Inr g1 \<and> cleared g g1 \<and>
        (\<forall>i\<in>set (rev [0..<length (array h)]). slot_done a i g1)"
    proof (rule fold_cleared [OF _ slot_done_cleared])
      fix i g1 assume i: "i \<in> set (rev [0..<length (array h)])" and c: "cleared g g1"
      obtain h1 where "g_obj g1 a = Some (OTable h1)" "cleared_table h h1" using cleared_Some [OF c h] by auto
      then show "\<exists>g2. clear_array a i g1 = Inr g2 \<and> cleared g1 g2 \<and> slot_done a i g2"
        using clear_array_ok [OF cleared_all_ok [OF c ok], of a h1 i] i by (simp add: cleared_table_def)
    qed simp_all
    then show ?thesis using True by (auto simp: F_def)
  next
    case False
    then have "\<forall>i<length (array h). slot_done a i g" using r sr h by (auto simp: slot_done_def table_refs_def)
    then show ?thesis using False by (simp add: F_def)
  qed
  then obtain g1 where g1: "F g = Inr g1" "cleared g g1" "\<forall>i<length (array h). slot_done a i g1" by blast
  obtain h1 where h1: "g_obj g1 a = Some (OTable h1)" "cleared_table h h1" using cleared_Some [OF g1(2) h] by auto
  have "\<exists>g2. fold_result (clear_node a) (rev [0..<length (node h)]) g1 = Inr g2 \<and> cleared g1 g2 \<and>
      (\<forall>i\<in>set (rev [0..<length (node h)]). entry_done a i g2)"
  proof (rule fold_cleared [OF _ entry_done_cleared])
    fix i g2 assume i: "i \<in> set (rev [0..<length (node h)])" and c: "cleared g1 g2"
    obtain h2 where "g_obj g2 a = Some (OTable h2)" "cleared_table h1 h2" using cleared_Some [OF c h1(1)] by auto
    then show "\<exists>g3. clear_node a i g2 = Inr g3 \<and> cleared g2 g3 \<and> entry_done a i g3"
      using clear_node_ok [OF cleared_all_ok [OF c cleared_all_ok [OF g1(2) ok]], of a h2 i] i h1(2) by (simp add: cleared_table_def)
  qed simp_all
  then obtain g2 where g2: "fold_result (clear_node a) (rev [0..<length (node h)]) g1 = Inr g2" "cleared g1 g2"
    "\<forall>i<length (node h). entry_done a i g2" by auto
  note c = cleared_trans [OF g1(2) g2(2)]
  obtain h2 where h2: "g_obj g2 a = Some (OTable h2)" "cleared_table h h2" using cleared_Some [OF c h] by auto
  have len: "length (array h2) = length (array h)" "length (node h2) = length (node h)" "metatable h2 = metatable h"
    using h2(2) by (simp_all add: cleared_table_def)
  have "\<not> iswhite g2 x" if x: "x \<in> all_refs g2 a" for x
  proof -
    consider "x \<in> pref (metatable h)" | i where "i < length (array h)" "x \<in> vref (array h2 ! i)"
      | i where "i < length (node h)" "x \<in> node_refs False False (node h2 ! i)"
      using x h2(1) len by (auto simp: all_refs_def table_refs_def in_set_conv_nth)
    then show ?thesis
    proof cases
      case 1
      then have "\<not> iswhite g x" using r sr by (auto simp: table_refs_def)
      then show ?thesis using cleared_white [OF c] by blast
    next
      case (2 i)
      then show ?thesis using slot_done_cleared [OF _ g2(2), of a i] g1(3) h2(1) len by (simp add: slot_done_def)
    next
      case (3 i)
      then show ?thesis using g2(3) h2(1) len by (simp add: entry_done_def)
    qed
  qed
  moreover have "clear_one (GCAddr a) g = Inr g2"
    using g1(1) g2(1) h by (auto simp: clear_one_def gc_table_def sz wv F_def split: if_splits)
  ultimately show ?thesis using c by blast
qed

lemma cleartable_ok:
  assumes m: "mark_ok {} {} g" and gr: "g_gray g = []"
  shows "\<exists>g'. cleartable (g_weak g) g = Inr g' \<and> cleared g g' \<and>
    (\<forall>a. g_obj g' a \<noteq> None \<longrightarrow> \<not> iswhite g' (GCAddr a) \<longrightarrow> (\<forall>r\<in>all_refs g' a. \<not> iswhite g' r))"
proof -
  have strong: "\<not> iswhite g r" if "g_obj g a \<noteq> None" "\<not> iswhite g (GCAddr a)" "r \<in> strong_refs g a" for a r
    using closedD [OF mark_okD(4) [OF m] that(1,2) _ _ that(3)] gr by simp
  let ?Q = "\<lambda>x g. \<forall>r\<in>all_refs g (gc_addr x). \<not> iswhite g r"
  have "\<exists>g'. fold_result clear_one (g_weak g) g = Inr g' \<and> cleared g g' \<and> (\<forall>x\<in>set (g_weak g). ?Q x g')"
  proof (rule fold_cleared)
    fix x g1 assume x: "x \<in> set (g_weak g)" and c: "cleared g g1"
    have l: "listed_kind g x" "\<not> iswhite g x" using mark_okD(2) [OF m] x by (auto simp: lists_ok_def waiting_def)
    then obtain a where a: "x = GCAddr a" by (auto simp: listed_kind_def)
    then have "kind_at g a = Some 5" using mark_okD(2) [OF m] x by (auto simp: lists_ok_def)
    then obtain h where h: "g_obj g a = Some (OTable h)" using kind_at_body(1) by blast
    then obtain h1 where h1: "g_obj g1 a = Some (OTable h1)" using cleared_Some [OF c h] by auto
    have "\<forall>r\<in>strong_refs g1 a. \<not> iswhite g1 r"
      using cleared_strong [OF c] strong [of a] h l(2) a cleared_white [OF c] by blast
    moreover have "GCAddr a \<in> set (g_weak g1)" using x a c by (simp add: cleared_def same_fields_def)
    ultimately show "\<exists>g2. clear_one x g1 = Inr g2 \<and> cleared g1 g2 \<and> ?Q x g2"
      using clear_one_ok [OF cleared_all_ok [OF c mark_okD(1) [OF m]] h1] a by simp
  next
    fix x g1 g2 assume "?Q x g1" and c: "cleared g1 g2"
    then show "?Q x g2" using cleared_refs [OF c] cleared_white [OF c] by blast
  qed
  then obtain g' where g': "fold_result clear_one (g_weak g) g = Inr g'" "cleared g g'" "\<forall>x\<in>set (g_weak g). ?Q x g'" by blast
  have "\<not> iswhite g' r" if a: "g_obj g' a \<noteq> None" "\<not> iswhite g' (GCAddr a)" "r \<in> all_refs g' a" for a r
  proof (cases "GCAddr a \<in> set (g_weak g)")
    case True
    then show ?thesis using g'(3) a(3) by fastforce
  next
    case False
    then have "\<not> weak_keys g a" "\<not> weak_values g a" by (simp_all add: weak_keys_def weak_values_def)
    then have "all_refs g a = strong_refs g a" by (simp add: all_refs_def strong_refs_def split: option.split)
    moreover have "r \<in> all_refs g a" using a(3) cleared_refs [OF g'(2)] by blast
    moreover have "\<not> iswhite g (GCAddr a)" using a(2) g'(2) by (simp add: iswhite_def cleared_def)
    moreover have "g_obj g a \<noteq> None" using a(1) cleared_allocated [OF g'(2), of "GCAddr a"] by simp
    ultimately have "\<not> iswhite g r" using strong by blast
    then show ?thesis using cleared_white [OF g'(2)] by blast
  qed
  then show ?thesis using g'(1,2) unfolding cleartable_def by blast
qed

section \<open>The atomic phase\<close>

text \<open>No step of it makes an object white, or changes the current white before the end.\<close>

definition darker :: "collector \<Rightarrow> collector \<Rightarrow> bool" where
  "darker g g' \<longleftrightarrow> (\<forall>x n. n < 2 \<longrightarrow> bit (marked g' x) n \<longrightarrow> bit (marked g x) n) \<and> g_currentwhite g' = g_currentwhite g \<and>
     g_mainthread g' = g_mainthread g \<and> g_registry g' = g_registry g \<and> g_mt g' = g_mt g"

lemma darker_trans: "darker g g' \<Longrightarrow> darker g' g'' \<Longrightarrow> darker g g''"
  unfolding darker_def by metis

lemma darker_white: "darker g g' \<Longrightarrow> iswhite g' x \<Longrightarrow> iswhite g x"
  unfolding darker_def by (auto simp: iswhite_bit)

lemma darker_marking: "marking g g' \<Longrightarrow> darker g g'"
  by (simp add: marking_def darker_def)

lemma darker_quiet: "quiet g g' \<Longrightarrow> darker g g'"
  by (simp add: quiet_def darker_def)

lemma darker_cleared: "cleared g g' \<Longrightarrow> darker g g'"
proof -
  assume c: "cleared g g'"
  have "bit (marked g x) n" if "n < 2" "bit (marked g' x) n" for x n using c that unfolding cleared_def by (cases x) auto
  then show ?thesis using c by (simp add: darker_def cleared_def same_fields_def)
qed

definition gc_roots :: "addr \<Rightarrow> collector \<Rightarrow> GCObject set" where
  "gc_roots L g = {GCAddr L, GCAddr (g_mainthread g)} \<union> vref (g_registry g) \<union> \<Union> (pref ` set (g_mt g))"

text \<open>The other white becomes the current one: what is white is dead.\<close>

lemma white_ok_flip:
  assumes "white_ok g" "g_currentwhite g' = otherwhite g"
  shows "white_ok g'" "otherbit g' = (if bit (g_currentwhite g) 0 then 0 else 1)"
proof -
  have "otherwhite g = bitmask WHITE1BIT OR bitmask FIXEDBIT \<or> otherwhite g = bitmask WHITE0BIT OR bitmask FIXEDBIT"
    using assms(1) by (auto simp: white_ok_def otherwhite_def bitmask_def WHITEBITS_def WHITE0BIT_def WHITE1BIT_def FIXEDBIT_def)
  then show "white_ok g'" using assms(2) by (auto simp: white_ok_def)
  show "otherbit g' = (if bit (g_currentwhite g) 0 then 0 else 1)"
    using otherwhite_bits [OF assms(1), of 0] by (simp add: otherbit_def assms(2))
qed

lemma dead_after_flip:
  assumes w: "white_ok g" and n: "\<forall>x. \<not> isdead g x" and d: "darker g g5"
    and f: "marked g' = marked g5" "g_currentwhite g' = otherwhite g5"
  shows "isdead g' x = iswhite g' x"
proof
  assume "iswhite g' x"
  then obtain m where m: "m < 2" "bit (marked g5 x) m" using f(1) by (auto simp: iswhite_bit intro: that [of 0] that [of 1])
  then have "bit (marked g x) m" using d by (simp add: darker_def)
  then have "m \<noteq> otherbit g" using n isdead_iff [OF w] by blast
  then have "m = (if bit (g_currentwhite g) 0 then 0 else 1)" using m(1) by (auto simp: otherbit_def split: if_splits)
  moreover have "white_ok g5" "g_currentwhite g5 = g_currentwhite g" using d w by (simp_all add: darker_def white_ok_def)
  ultimately show "isdead g' x" using white_ok_flip [OF _ f(2)] m(2) f(1) by (simp add: isdead_iff)
qed (rule isdead_white)

lemma udata_ok_marking: "marking g g' \<Longrightarrow> udata_ok g' = udata_ok g"
  by (simp add: udata_ok_def marking_fields userdata_def marking_ok(3))

lemma atomic_ok:
  assumes i: "gc_inv g" and w: "white_ok g" and u: "udata_ok g" and l: "allocated g (GCAddr L)"
  shows "\<exists>g5 g'. atomic V L g = Inr g' \<and> darker g g5 \<and> marked g' = marked g5 \<and> g_currentwhite g' = otherwhite g5 \<and>
    g_gcstate g' = GCSsweepstring \<and> all_ok g' \<and> (\<forall>x\<in>gc_roots L g' \<union> set (g_tmudata g'). \<not> iswhite g' x) \<and>
    (\<forall>a. g_obj g' a \<noteq> None \<longrightarrow> \<not> iswhite g' (GCAddr a) \<longrightarrow> (\<forall>r\<in>all_refs g' a. \<not> iswhite g' r))"
proof -
  obtain g1 where g1: "atomic_mark V L g = Inr g1" "marking g g1" "mark_ok {} {} g1" "g_gray g1 = []"
    "\<forall>x\<in>insert (GCAddr L) (\<Union> (pref ` set (g_mt g))). \<not> iswhite g1 x"
    using atomic_mark_ok [OF i l] by blast
  have u1: "udata_ok g1" using u udata_ok_marking [OF g1(2)] by blast
  obtain d g2 where g2: "luaC_separateudata V False g1 = Inr (d, g2)" "mark_ok {} {} g2" "quiet g1 g2" "userdata g2 (g_tmudata g2)"
    using separateudata_ok [OF g1(3) u1] by blast
  have d2: "darker g g2" using darker_trans [OF darker_marking [OF g1(2)] darker_quiet [OF g2(3)]] .
  then have w2: "white_ok g2" using w by (simp add: white_ok_def darker_def)
  obtain g3 where g3: "marktmu g2 = Inr g3" "mark_ok {} {} g3" "marking g2 g3" "\<forall>u\<in>set (g_tmudata g2). \<not> iswhite g3 u"
    using marktmu_loop_ok [OF g2(2,4) w2] unfolding marktmu_def by blast
  obtain m g4 where g4: "propagateall V g3 = Inr (m, g4)" "mark_ok {} {} g4" "marking g3 g4" "g_gray g4 = []"
    using propagateall_ok [OF g3(2)] by blast
  obtain g5 where g5: "cleartable (g_weak g4) g4 = Inr g5" "cleared g4 g5"
    "\<forall>a. g_obj g5 a \<noteq> None \<longrightarrow> \<not> iswhite g5 (GCAddr a) \<longrightarrow> (\<forall>r\<in>all_refs g5 a. \<not> iswhite g5 r)"
    using cleartable_ok [OF g4(2,4)] by blast
  note d35 = darker_trans [OF darker_marking [OF g4(3)] darker_cleared [OF g5(2)]]
  note d25 = darker_trans [OF darker_marking [OF g3(3)] d35]
  note d5 = darker_trans [OF d2 d25]
  let ?g = "g5\<lparr>g_currentwhite := otherwhite g5, g_sweepstrgc := 0, g_sweepgc := None, g_gcstate := GCSsweepstring,
              g_estimate := g_totalbytes g5 - word_of_int (d + m)\<rparr>"
  have at: "atomic V L g = Inr ?g" using g1(1) g2(1) g3(1) g4(1) g5(1) by (simp add: atomic_def)
  have same: "iswhite ?g x = iswhite g5 x" for x by (simp add: iswhite_def)
  have "all_ok ?g = all_ok g5" by (rule all_ok_cong) simp_all
  then have ok: "all_ok ?g" using cleared_all_ok [OF g5(2) mark_okD(1) [OF g4(2)]] by simp
  have refs: "all_refs ?g a = all_refs g5 a" for a
  proof -
    have "body_refs ?g False False b = body_refs g5 False False b" for b
      by (cases "(g5, False, False, b)" rule: body_refs.cases) simp_all
    then show ?thesis by (simp add: all_refs_def split: option.split)
  qed
  have tmu: "g_tmudata g5 = g_tmudata g2"
    using marking_fields(5) [OF g3(3)] marking_fields(5) [OF g4(3)] g5(2) by (simp add: cleared_def same_fields_def)
  have roots: "\<not> iswhite g5 x" if x: "x \<in> gc_roots L g5 \<union> set (g_tmudata g5)" for x
  proof -
    have "x \<in> gc_roots L g \<or> x \<in> set (g_tmudata g2)" using x tmu d5 by (simp add: gc_roots_def darker_def)
    then consider "x \<in> set (g_tmudata g2)" | "\<not> iswhite g1 x" | "\<not> iswhite g x"
      using g1(5) i by (auto simp: gc_roots_def gc_inv_def)
    then show ?thesis
    proof cases
      case 1
      then show ?thesis using g3(4) darker_white [OF d35] by blast
    next
      case 2
      then show ?thesis using darker_white [OF darker_trans [OF darker_quiet [OF g2(3)] d25]] by blast
    next
      case 3
      then show ?thesis using darker_white [OF d5] by blast
    qed
  qed
  have "gc_roots L ?g = gc_roots L g5" by (simp add: gc_roots_def)
  then have "(\<forall>x\<in>gc_roots L ?g \<union> set (g_tmudata ?g). \<not> iswhite ?g x)" using roots same by simp
  moreover have "\<forall>a. g_obj ?g a \<noteq> None \<longrightarrow> \<not> iswhite ?g (GCAddr a) \<longrightarrow> (\<forall>r\<in>all_refs ?g a. \<not> iswhite ?g r)"
    using g5(3) same refs by simp
  ultimately show ?thesis using at ok d5 by (intro exI [of _ g5] exI [of _ ?g]) simp
qed

end
