(* ===== verification/Lgc_spec.thy ===== *)
theory Lgc_spec
  imports Lgc_atomic
begin

text \<open>
  The properties of the collector between the atomic phase and the program: a collection starts with
  the invariant, every step of propagation and every store behind a barrier keeps it, and a new
  object does not break it.
\<close>

section \<open>Propagation\<close>

lemma open_ok_marking: "marking g g' \<Longrightarrow> open_ok g \<Longrightarrow> open_ok g'"
proof -
  assume m: "marking g g'" and o: "open_ok g"
  have "(\<exists>t i. g_obj g' u = Some (OUpval (OnStack t i))) \<and> \<not> isblack g' (GCAddr u)" if u: "u \<in> set (g_uvhead g)" for u
  proof -
    obtain t i where b: "g_obj g u = Some (OUpval (OnStack t i))" "\<not> isblack g (GCAddr u)" using o u by (auto simp: open_ok_def)
    have "open_upval g (GCAddr u)" using b(1) by (simp add: open_upval_def)
    then have "\<not> isblack g' (GCAddr u)" using m b(2) by (auto simp: marking_def)
    moreover have "same_heap g g'" using m by (simp add: marking_def)
    ultimately show ?thesis using same_upval [OF _ b(1)] by blast
  qed
  then show ?thesis using marking_fields(4) [OF m] by (simp add: open_ok_def)
qed

definition roots_marked :: "collector \<Rightarrow> bool" where
  "roots_marked g \<longleftrightarrow> open_ok g \<and> roots_ok g \<and> \<not> iswhite g (GCAddr (g_mainthread g)) \<and> (\<forall>r\<in>vref (g_registry g). \<not> iswhite g r)"

lemma gc_inv_parts: "gc_inv g \<longleftrightarrow> mark_ok (loose g) {} g \<and> roots_marked g"
  by (auto simp: gc_inv_def roots_marked_def)

lemma roots_marked_marking: "marking g g' \<Longrightarrow> roots_marked g \<Longrightarrow> roots_marked g'"
  using open_ok_marking roots_ok_marking marking_white marking_fields(2,3) unfolding roots_marked_def by metis

lemma gc_inv_step:
  assumes r: "roots_marked g" and m: "mark_ok (loose g) {} g'" "marking g g'" "lists_grow g g'"
  shows "gc_inv g'"
proof -
  have "loose g \<subseteq> loose g'" using m(3) marking_fields(4) [OF m(2)] by (auto simp: loose_def lists_grow_def open_objects_def)
  then have "mark_ok (loose g') {} g'" by (rule mark_ok_mono [OF m(1)])
  then show ?thesis using roots_marked_marking [OF m(2) r] by (simp add: gc_inv_parts)
qed

text \<open>
  Claim C37. A step of the propagation does not fail, keeps the collector's invariant, and brings the end
  nearer: the objects on the gray list and the white ones become fewer.
\<close>

theorem propagatemark_keeps_invariant:
  "gc_inv g \<and> g_gray g \<noteq> [] \<longrightarrow> (\<exists>m g'. propagatemark V g = Inr (m, g') \<and> gc_inv g' \<and> work g' < work g)"
proof (intro impI)
  assume a: "gc_inv g \<and> g_gray g \<noteq> []"
  then have m: "mark_ok (loose g) {} g" by (simp add: gc_inv_def)
  obtain q g' where g': "propagatemark V g = Inr (q, g')" "step_ok (loose g) g g'" using propagatemark_step [OF m] a by blast
  then show "\<exists>m g'. propagatemark V g = Inr (m, g') \<and> gc_inv g' \<and> work g' < work g"
    using gc_inv_step [of g g'] a by (auto simp: step_ok_def gc_inv_parts)
qed

text \<open>What can be reached from an object.\<close>

inductive reaches :: "collector \<Rightarrow> GCObject \<Rightarrow> GCObject \<Rightarrow> bool" for g where
  here: "reaches g x x"
| step: "reaches g x (GCAddr a) \<Longrightarrow> r \<in> strong_refs g a \<Longrightarrow> reaches g x r"

lemma strong_refs_obj: "r \<in> strong_refs g a \<Longrightarrow> g_obj g a \<noteq> None"
  by (cases "g_obj g a") (simp_all add: strong_refs_def)

lemma reaches_nonwhite: "reaches g x y \<Longrightarrow> mark_ok {} {} g \<Longrightarrow> g_gray g = [] \<Longrightarrow> \<not> iswhite g x \<Longrightarrow> \<not> iswhite g y"
proof (induction rule: reaches.induct)
  case (step x a r)
  then show ?case using closedD [OF mark_okD(4) strong_refs_obj [OF step(2)], of "{}" "{}" r] by auto
qed simp

text \<open>
  Claim C13. Marking is complete: the loop of the propagation ends, and nothing that a marked object, the
  running thread or a metatable of a basic type keeps alive is white when the marking of the atomic phase is done.
\<close>

theorem marking_complete:
  "gc_inv g \<and> allocated g (GCAddr L) \<longrightarrow>
   (\<exists>g'. atomic_mark V L g = Inr g' \<and> g_gray g' = [] \<and>
      (\<forall>x y. x \<in> gc_roots L g' \<or> allocated g x \<and> \<not> iswhite g x \<longrightarrow> reaches g' x y \<longrightarrow> \<not> iswhite g' y))"
proof (intro impI)
  assume a: "gc_inv g \<and> allocated g (GCAddr L)"
  then obtain g' where g': "atomic_mark V L g = Inr g'" "marking g g'" "mark_ok {} {} g'" "g_gray g' = []"
    "\<forall>x\<in>insert (GCAddr L) (\<Union> (pref ` set (g_mt g))). \<not> iswhite g' x"
    using atomic_mark_ok by blast
  have "\<not> iswhite g' x" if "x \<in> gc_roots L g' \<or> allocated g x \<and> \<not> iswhite g x" for x
    using that a g'(5) marking_white [OF g'(2), of x] marking_fields [OF g'(2)] by (auto simp: gc_roots_def gc_inv_def)
  then show "\<exists>g'. atomic_mark V L g = Inr g' \<and> g_gray g' = [] \<and>
      (\<forall>x y. x \<in> gc_roots L g' \<or> allocated g x \<and> \<not> iswhite g x \<longrightarrow> reaches g' x y \<longrightarrow> \<not> iswhite g' y)"
    using g'(1,3,4) reaches_nonwhite by blast
qed

text \<open>
  Claim C11. The atomic phase is safe: when the collector's invariant holds and no object is dead, the phase
  returns, and after it no object that stays alive refers to a dead one, not even through a weak table,
  and neither do the roots or the list of userdata to be finalized.
\<close>

theorem atomic_safe:
  "gc_inv g \<and> white_ok g \<and> udata_ok g \<and> allocated g (GCAddr L) \<and> (\<forall>x. \<not> isdead g x) \<longrightarrow>
   (\<exists>g'. atomic V L g = Inr g' \<and> g_gcstate g' = GCSsweepstring \<and> all_ok g' \<and>
      (\<forall>x\<in>gc_roots L g' \<union> set (g_tmudata g'). \<not> isdead g' x) \<and>
      (\<forall>a. g_obj g' a \<noteq> None \<longrightarrow> \<not> isdead g' (GCAddr a) \<longrightarrow> (\<forall>r\<in>all_refs g' a. \<not> isdead g' r)))"
proof (intro impI)
  assume a: "gc_inv g \<and> white_ok g \<and> udata_ok g \<and> allocated g (GCAddr L) \<and> (\<forall>x. \<not> isdead g x)"
  then obtain g5 g' where g': "atomic V L g = Inr g'" "darker g g5" "marked g' = marked g5" "g_currentwhite g' = otherwhite g5"
    "g_gcstate g' = GCSsweepstring" "all_ok g'" "\<forall>x\<in>gc_roots L g' \<union> set (g_tmudata g'). \<not> iswhite g' x"
    "\<forall>a. g_obj g' a \<noteq> None \<longrightarrow> \<not> iswhite g' (GCAddr a) \<longrightarrow> (\<forall>r\<in>all_refs g' a. \<not> iswhite g' r)"
    using atomic_ok by blast
  have "isdead g' x = iswhite g' x" for x using dead_after_flip [OF _ _ g'(2,3,4)] a by blast
  then show "\<exists>g'. atomic V L g = Inr g' \<and> g_gcstate g' = GCSsweepstring \<and> all_ok g' \<and>
      (\<forall>x\<in>gc_roots L g' \<union> set (g_tmudata g'). \<not> isdead g' x) \<and>
      (\<forall>a. g_obj g' a \<noteq> None \<longrightarrow> \<not> isdead g' (GCAddr a) \<longrightarrow> (\<forall>r\<in>all_refs g' a. \<not> isdead g' r))"
    using g' by blast
qed

section \<open>The start\<close>

text \<open>After a sweep every object is white; a collection starts from there.\<close>

definition swept :: "collector \<Rightarrow> bool" where
  "swept g \<longleftrightarrow> all_ok g \<and> rooted g \<and> roots_ok g \<and> (\<forall>x. allocated g x \<longrightarrow> iswhite g x) \<and> (\<forall>x. \<not> isblack g x) \<and>
     (\<forall>u\<in>set (g_uvhead g). \<exists>t i. g_obj g u = Some (OUpval (OnStack t i)))"

lemma mark_ok_all_white:
  assumes "swept g"
  shows "mark_ok {} {} (g\<lparr>g_gray := [], grayagain := [], g_weak := []\<rparr>)"
proof -
  let ?g = "g\<lparr>g_gray := [], grayagain := [], g_weak := []\<rparr>"
  have c: "iswhite ?g x = iswhite g x" "isblack ?g x = isblack g x" "listed_kind ?g x = listed_kind g x" for x
    by (simp_all add: iswhite_def isblack_def listed_kind_def kind_at_def)
  have al: "allocated g x" if "listed_kind g x" for x using that by (auto simp: listed_kind_def kind_at_def)
  have "all_ok ?g = all_ok g" by (rule all_ok_cong) simp_all
  moreover have "lists_ok {} ?g"
    by (rule lists_okI) (use assms al in \<open>auto simp: waiting_def c swept_def simp del: allocated.simps\<close>)
  moreover have "closed ?g {}"
    unfolding closed_def
  proof (intro allI impI ballI)
    fix a r assume a: "g_obj ?g a \<noteq> None" "\<not> iswhite ?g (GCAddr a)"
    then have "allocated g (GCAddr a)" by simp
    then have "iswhite g (GCAddr a)" using assms unfolding swept_def by blast
    then show "\<not> iswhite ?g r" using a(2) c by blast
  qed
  ultimately show ?thesis using assms by (simp add: mark_ok_def rooted_def c swept_def)
qed

text \<open>Fields that the invariant does not read.\<close>

lemma mark_ok_cong:
  assumes "g_obj g' = g_obj g" "g_strt g' = g_strt g" "marked g' = marked g" "g_gray g' = g_gray g" "grayagain g' = grayagain g"
    "g_weak g' = g_weak g" "g_rootgc g' = g_rootgc g"
  shows "mark_ok P X g' = mark_ok P X g"
proof -
  have r: "strong_refs g' a = strong_refs g a" for a by (rule strong_refs_cong) (simp_all add: assms)
  have c: "iswhite g' = iswhite g" "isblack g' = isblack g" "listed_kind g' = listed_kind g" "kind_at g' = kind_at g"
    by (simp_all add: fun_eq_iff iswhite_def isblack_def listed_kind_def kind_at_def assms)
  have "all_ok g' = all_ok g" by (rule all_ok_cong) (simp_all add: assms)
  then show ?thesis by (simp add: mark_ok_def lists_ok_def rooted_def closed_def waiting_def assms c r)
qed

lemma gc_inv_cong:
  assumes "g_obj g' = g_obj g" "g_strt g' = g_strt g" "marked g' = marked g" "g_gray g' = g_gray g" "grayagain g' = grayagain g"
    "g_weak g' = g_weak g" "g_rootgc g' = g_rootgc g" "g_uvhead g' = g_uvhead g" "g_mainthread g' = g_mainthread g"
    "g_registry g' = g_registry g" "g_mt g' = g_mt g"
  shows "gc_inv g' = gc_inv g"
proof -
  have v: "value_ok g' v = value_ok g v" for v by (cases v) (simp_all add: kind_at_def assms)
  have "mark_ok P X g' = mark_ok P X g" for P X by (rule mark_ok_cong) (simp_all add: assms)
  then show ?thesis
    by (simp add: gc_inv_def loose_def open_objects_def open_ok_def roots_ok_def pointer_ok_def v kind_at_def isblack_def iswhite_def assms)
qed

text \<open>
  Claim C38. A collection starts with its invariant: when every object is white, as a sweep leaves them,
  \<open>markroot\<close> does not fail, and the roots wait on the gray list.
\<close>

theorem markroot_starts:
  "swept g \<longrightarrow> (\<exists>g'. markroot g = Inr g' \<and> gc_inv g' \<and> g_gcstate g' = GCSpropagate)"
proof
  assume sw: "swept g"
  let ?g = "g\<lparr>g_gray := [], grayagain := [], g_weak := []\<rparr>"
  have m0: "mark_ok {} {} ?g" by (rule mark_ok_all_white [OF sw])
  have r0: "roots_ok ?g" using sw by (simp add: swept_def roots_ok_def pointer_ok_def kind_at_def)
    (cases "g_registry g", simp_all add: kind_at_def)
  then have main: "kind_at ?g (g_mainthread g) = Some 8" by (simp add: roots_ok_def)
  obtain g1 where g1: "markobject (GCAddr (g_mainthread g)) ?g = Inr g1" "traced ?g g1" "\<not> iswhite g1 (GCAddr (g_mainthread g))"
    using markobject_traced [OF mark_okD(1) [OF m0] kind_at_allocated [OF main]] by blast
  note m1 = mark_ok_traced [OF m0 g1(2)] and f1 = traced_fields [OF g1(2)]
  have "kind_at g1 (g_mainthread g) = Some 8" using main traced_ok(3) [OF g1(2)] by simp
  then obtain th where th: "g_obj g1 (g_mainthread g) = Some (OThread th)" using kind_at_body(3) by blast
  then have "value_ok g1 (gt_gt th)" using all_okD [OF mark_okD(1) [OF m1]] by fastforce
  then obtain g2 where g2: "markvalue (gt_gt th) g1 = Inr g2" "traced g1 g2" using markvalue_traced [OF mark_okD(1) [OF m1]] by blast
  note m2 = mark_ok_traced [OF m1 g2(2)] and t2 = traced_trans [OF g1(2) g2(2)]
  have "value_ok g2 (g_registry g)" using r0 roots_ok_traced [OF t2] traced_fields(17) [OF t2] by (simp add: roots_ok_def)
  then obtain g3 where g3: "markvalue (g_registry g) g2 = Inr g3" "traced g2 g3" "\<forall>r\<in>vref (g_registry g). \<not> iswhite g3 r"
    using markvalue_traced [OF mark_okD(1) [OF m2]] by blast
  note m3 = mark_ok_traced [OF m2 g3(2)] and t3 = traced_trans [OF t2 g3(2)]
  have "\<forall>p\<in>set (g_mt g). pointer_ok g3 5 p" using r0 roots_ok_traced [OF t3] traced_fields(20) [OF t3] by (simp add: roots_ok_def)
  from fold_pointers_traced [OF mark_okD(1) [OF m3] this] obtain g4 where g4: "markmt g3 = Inr g4" "traced g3 g4"
    using traced_fields(20) [OF t3] by (auto simp: markmt_def)
  note m4 = mark_ok_traced [OF m3 g4(2)] and t4 = traced_trans [OF t3 g4(2)]
  have f4: "g_uvhead g4 = g_uvhead g" "g_mainthread g4 = g_mainthread g" "g_registry g4 = g_registry g"
    using traced_fields [OF t4] by simp_all
  have "open_ok ?g" using sw by (simp add: open_ok_def swept_def isblack_def)
  then have "open_ok g4" by (rule open_ok_marking [OF marking_traced [OF t4]])
  moreover have "roots_ok g4" using r0 roots_ok_traced [OF t4] by simp
  moreover have "\<not> iswhite g4 (GCAddr (g_mainthread g))"
    using g1(3) traced_white [OF traced_trans [OF traced_trans [OF g2(2) g3(2)] g4(2)]] by blast
  moreover have "\<forall>r\<in>vref (g_registry g). \<not> iswhite g4 r" using g3(3) traced_white [OF g4(2)] by blast
  moreover have "mark_ok (loose g4) {} g4" by (rule mark_ok_mono [OF m4]) simp
  ultimately have "gc_inv g4" by (simp add: gc_inv_def f4)
  moreover have "gc_inv (g4\<lparr>g_gcstate := GCSpropagate\<rparr>) = gc_inv g4" by (rule gc_inv_cong) simp_all
  moreover have "markroot g = Inr (g4\<lparr>g_gcstate := GCSpropagate\<rparr>)"
    using g1(1) th g2(1) g3(1) g4(1) f1(18) traced_fields(17) [OF t2] by (simp add: markroot_def gc_thread_at_def)
  ultimately show "\<exists>g'. markroot g = Inr g' \<and> gc_inv g' \<and> g_gcstate g' = GCSpropagate" by auto
qed

section \<open>Stores behind a barrier\<close>

text \<open>
  A store into a table, a closure or a prototype: the object has the new contents \<open>b'\<close>, which refer to what it
  referred to before and to \<open>ob\<close>.
\<close>

definition stores :: "collector \<Rightarrow> addr \<Rightarrow> gc_body \<Rightarrow> gc_body \<Rightarrow> GCObject \<Rightarrow> bool" where
  "stores g a b b' ob \<longleftrightarrow> g_obj g a = Some b \<and> gc_tt b' = gc_tt b \<and> gc_tt b \<in> {5, 6, 9} \<and> body_ok g b' \<and> allocated g ob \<and>
     (\<forall>wk wv. body_refs g wk wv b' \<subseteq> insert ob (body_refs g wk wv b))"

lemma stores_not_thread: "stores g a b b' ob \<Longrightarrow> b \<noteq> OThread th \<and> b' \<noteq> OThread th \<and> b \<noteq> OUpval uv"
  by (auto simp: stores_def)

lemma store_kind: "stores g a b b' ob \<Longrightarrow> kind_at (set_body a b' g) c = kind_at g c"
  by (simp add: kind_at_def set_body_def stores_def)

lemma store_thread: "stores g a b b' ob \<Longrightarrow> g_obj (set_body a b' g) t = Some (OThread th) \<longleftrightarrow> g_obj g t = Some (OThread th)"
  using stores_not_thread [of g a b b' ob th] by (auto simp: set_body_def stores_def)

lemma store_value:
  assumes s: "stores g a b b' ob"
  shows "value_ok (set_body a b' g) v = value_ok g v"
  by (cases v) (simp_all add: store_kind [OF s], simp add: set_body_def)

lemma store_body_ok:
  assumes s: "stores g a b b' ob"
  shows "body_ok (set_body a b' g) c = body_ok g c"
proof -
  have "string_ok (set_body a b' g) p = string_ok g p" for p by (simp add: string_ok_def set_body_def)
  then show ?thesis
    by (cases "(g, c)" rule: body_ok.cases)
      (simp_all add: store_value [OF s] store_kind [OF s] store_thread [OF s] pointer_ok_def)
qed

lemma store_all_ok: "stores g a b b' ob \<Longrightarrow> all_ok g \<Longrightarrow> all_ok (set_body a b' g)"
  by (auto simp: all_ok_def store_body_ok) (auto simp: set_body_def stores_def split: if_splits)

lemma store_body_refs:
  assumes s: "stores g a b b' ob"
  shows "body_refs (set_body a b' g) wk wv c = body_refs g wk wv c"
proof (cases "(g, wk, wv, c)" rule: body_refs.cases)
  case (4 g' wk' wv' t i)
  have "\<nexists>th. b = OThread th" "\<nexists>th. b' = OThread th" "g_obj g a = Some b" using s by (auto simp: stores_def)
  then show ?thesis using 4 by (cases "t = a") (auto simp: set_body_def split: gc_body.splits)
qed simp_all

lemma store_refs:
  assumes s: "stores g a b b' ob"
  shows "strong_refs (set_body a b' g) c \<subseteq> (if c = a then insert ob (strong_refs g a) else strong_refs g c)"
proof -
  have w: "weak_keys (set_body a b' g) c = weak_keys g c" "weak_values (set_body a b' g) c = weak_values g c"
    by (simp_all add: weak_keys_def weak_values_def set_body_def)
  show ?thesis
  proof (cases "c = a")
    case True
    then show ?thesis using s store_body_refs [OF s] w by (simp add: strong_refs_def stores_def) (simp add: set_body_def)
  next
    case False
    then have "g_obj (set_body a b' g) c = g_obj g c" by (simp add: set_body_def)
    then show ?thesis using False store_body_refs [OF s] w by (simp add: strong_refs_def split: option.split)
  qed
qed

lemma store_colours [simp]: "iswhite (set_body a b' g) x = iswhite g x" "isblack (set_body a b' g) x = isblack g x"
  "g_gray (set_body a b' g) = g_gray g" "waiting (set_body a b' g) = waiting g" "loose (set_body a b' g) = loose g"
  by (simp_all add: iswhite_def isblack_def waiting_def loose_def open_objects_def set_body_def)

text \<open>Before the barrier only the object itself may lead to a white object, and only to \<open>ob\<close>.\<close>

lemma store_mark_ok:
  assumes s: "stores g a b b' ob" and m: "mark_ok P {} g"
  shows "mark_ok (insert (GCAddr a) P) {} (set_body a b' g)"
proof -
  let ?g = "set_body a b' g"
  have lk: "listed_kind ?g x = listed_kind g x" for x by (simp add: listed_kind_def store_kind [OF s])
  have f: "g_gray ?g = g_gray g" "g_weak ?g = g_weak g" "g_rootgc ?g = g_rootgc g" by (simp_all add: set_body_def)
  have "closed ?g (insert (GCAddr a) P)"
    unfolding closed_def
  proof (intro allI impI ballI)
    fix c r assume c: "g_obj ?g c \<noteq> None" "\<not> iswhite ?g (GCAddr c)" "GCAddr c \<notin> insert (GCAddr a) P" "GCAddr c \<notin> set (g_gray ?g)"
      "r \<in> strong_refs ?g c"
    then have "r \<in> strong_refs g c" using store_refs [OF s, of c] by auto
    then show "\<not> iswhite ?g r" using closedD [OF mark_okD(4) [OF m] strong_refs_obj, of r c] c f by simp
  qed
  moreover have "lists_ok {} ?g"
    by (rule lists_ok_same [OF mark_okD(2) [OF m]]) (simp_all add: lk store_kind [OF s] f lists_okD(5) [OF mark_okD(2) [OF m]])
  ultimately show ?thesis using store_all_ok [OF s mark_okD(1) [OF m]] mark_okD(3) [OF m] by (simp add: mark_ok_def rooted_def lk f)
qed

lemma store_roots:
  assumes s: "stores g a b b' ob" and r: "roots_marked g"
  shows "roots_marked (set_body a b' g)"
proof -
  let ?g = "set_body a b' g"
  have f: "g_uvhead ?g = g_uvhead g" "g_mainthread ?g = g_mainthread g" "g_registry ?g = g_registry g" "g_mt ?g = g_mt g"
    by (simp_all add: set_body_def)
  have "g_obj ?g u = Some (OUpval uv)" if "g_obj g u = Some (OUpval uv)" for u uv
    using that stores_not_thread [OF s] s by (auto simp: set_body_def stores_def)
  then have "open_ok ?g" using r unfolding roots_marked_def open_ok_def f store_colours by blast
  moreover have "roots_ok ?g" using r by (simp add: roots_marked_def roots_ok_def f store_kind [OF s] store_value [OF s] pointer_ok_def)
  ultimately show ?thesis using r by (simp add: roots_marked_def f)
qed

lemma store_listed: "stores g a b b' ob \<Longrightarrow> listed_kind (set_body a b' g) (GCAddr a)"
  by (auto simp: listed_kind_def store_kind) (auto simp: kind_at_def stores_def)

text \<open>No barrier: an object that is not gray is black, so that \<open>ob\<close> is not white.\<close>

lemma store_quiet:
  assumes s: "stores g a b b' ob" and i: "gc_inv g" and n: "\<not> (iswhite g ob \<and> isblack g (GCAddr a))"
  shows "gc_inv (set_body a b' g)"
proof -
  let ?g = "set_body a b' g"
  have old: "mark_ok (loose g) {} g" and r: "roots_marked ?g" using i store_roots [OF s] by (simp_all add: gc_inv_parts)
  note m = store_mark_ok [OF s old]
  have "closed ?g (loose g)"
    unfolding closed_def
  proof (intro allI impI ballI)
    fix c x assume c: "g_obj ?g c \<noteq> None" "\<not> iswhite ?g (GCAddr c)" "GCAddr c \<notin> loose g" "GCAddr c \<notin> set (g_gray ?g)" "x \<in> strong_refs ?g c"
    show "\<not> iswhite ?g x"
    proof (cases "c = a")
      case False
      then show ?thesis using closedD [OF mark_okD(4) [OF m] c(1,2) _ c(4,5)] c(3) by simp
    next
      case True
      have "GCAddr a \<notin> set (waiting g)" using c(3,4) True by (simp add: waiting_def loose_def)
      then have "GCAddr a \<notin> set (waiting ?g)" by simp
      then have "isblack ?g (GCAddr a)" using lists_okD(7) [OF mark_okD(2) [OF m] store_listed [OF s]] c(2) True by blast
      then have "\<not> iswhite g ob" using n by simp
      moreover have "x \<in> insert ob (strong_refs g a)" using store_refs [OF s, of a] c(5) True by auto
      moreover have "\<not> iswhite g y" if "y \<in> strong_refs g a" for y
        using closedD [OF mark_okD(4) [OF old] strong_refs_obj [OF that] _ _ _ that] c(2-4) True by simp
      ultimately show ?thesis by auto
    qed
  qed
  then show ?thesis using m r by (simp add: mark_ok_def gc_inv_parts)
qed

text \<open>The barrier back: the table is gray again.\<close>

lemma store_back:
  assumes s: "stores g a b b' ob" and i: "gc_inv g" and n: "isblack g (GCAddr a)"
  shows "gc_inv (luaC_barrierback (set_body a b' g) a)"
proof -
  let ?g = "set_body a b' g"
  let ?g1 = "?g\<lparr>grayagain := GCAddr a # grayagain ?g\<rparr>" and ?g2 = "luaC_barrierback ?g a"
  have r: "roots_marked ?g" using i store_roots [OF s] by (simp add: gc_inv_parts)
  have m: "mark_ok (insert (GCAddr a) (loose g)) {} ?g" using i store_mark_ok [OF s] by (simp add: gc_inv_parts)
  have nw: "GCAddr a \<notin> set (waiting ?g)" "\<not> iswhite ?g (GCAddr a)"
    using lists_okD(4,6) [OF mark_okD(2) [OF m]] n by auto
  have "mark_ok (insert (GCAddr a) (loose g)) {GCAddr a} ?g" using m by (auto simp: mark_ok_def lists_ok_def)
  then have "mark_ok (insert (GCAddr a) (loose g)) {GCAddr a} ?g1" by (rule mark_ok_push_again [OF _ store_listed [OF s] nw])
  then have "mark_ok (insert (GCAddr a) (loose g)) {} (black2gray ?g1 (GCAddr a))"
    by (rule mark_ok_black2gray) (simp add: waiting_def)
  moreover have eq: "black2gray ?g1 (GCAddr a) = ?g2" by (simp add: luaC_barrierback_def black2gray_def Let_def)
  moreover have "loose ?g2 = insert (GCAddr a) (loose ?g)"
    by (auto simp: luaC_barrierback_def loose_def Let_def black2gray_def open_objects_def)
  moreover have "marking ?g ?g2" using marking_trans [OF marking_push_again marking_black2gray] eq by metis
  ultimately show ?thesis using roots_marked_marking [OF _ r] by (simp add: gc_inv_parts)
qed

text \<open>The barrier forward: \<open>ob\<close> is marked.\<close>

lemma store_forward:
  assumes s: "stores g a b b' ob" and i: "gc_inv g" and n: "iswhite g ob" "isblack g (GCAddr a)"
  shows "\<exists>g2. reallymarkobject ob (set_body a b' g) = Inr g2 \<and> gc_inv g2"
proof -
  let ?g = "set_body a b' g"
  have old: "mark_ok (loose g) {} g" and r: "roots_marked ?g" using i store_roots [OF s] by (simp_all add: gc_inv_parts)
  note m = store_mark_ok [OF s old]
  have "allocated ?g ob" using s by (cases ob) (auto simp: set_body_def stores_def)
  then obtain g2 where g2: "reallymarkobject ob ?g = Inr g2" "traced ?g g2" "\<not> iswhite g2 ob"
    using reallymarkobject_marker mark_okD(1) [OF m] n(1) kind_at_cases [of ?g] unfolding marker_def by (metis store_colours(1))
  have a: "GCAddr a \<notin> set (waiting g)" "\<not> iswhite g (GCAddr a)"
    using lists_okD(4,6) [OF mark_okD(2) [OF old]] n(2) by auto
  then have out: "GCAddr a \<notin> loose g" "GCAddr a \<notin> set (g_gray g)"
    using i n(2) by (auto simp: waiting_def loose_def open_objects_def gc_inv_def open_ok_def)
  have "\<not> iswhite g2 x" if x: "x \<in> strong_refs g2 a" for x
  proof -
    have "x \<in> insert ob (strong_refs g a)" using x store_refs [OF s, of a] traced_refs [OF g2(2)] by auto
    moreover have "\<not> iswhite g2 y" if y: "y \<in> strong_refs g a" for y
      using closedD [OF mark_okD(4) [OF old] strong_refs_obj [OF y] a(2) out y] traced_white [OF g2(2), of y] by auto
    ultimately show ?thesis using g2(3) by blast
  qed
  then have "mark_ok (loose ?g) {} g2" using mark_ok_traced [OF m g2(2)] closed_remove by (auto simp: mark_ok_def)
  moreover have "lists_grow ?g g2" using traced_fields [OF g2(2)] by (simp add: lists_grow_def)
  ultimately have "gc_inv g2" by (rule gc_inv_step [OF r _ marking_traced [OF g2(2)]])
  then show ?thesis using g2(1) by blast
qed

text \<open>
  Claim C12. The barriers keep the invariant while the collector propagates: after a store of an object into a table
  followed by \<open>luaC_objbarriert\<close>, and after one into a closure or a prototype followed by \<open>luaC_objbarrier\<close>,
  no black object refers to a white one, and the barrier does not fail.
\<close>

theorem barrier_keeps_invariant:
  "gc_inv g \<and> g_gcstate g = GCSpropagate \<and> stores g a b b' ob \<longrightarrow>
   (if gc_tt b = 5 then gc_inv (luaC_objbarriert a ob (set_body a b' g))
    else (\<exists>g'. luaC_objbarrier (GCAddr a) ob (set_body a b' g) = Inr g' \<and> gc_inv g'))"
proof (intro impI)
  assume asm: "gc_inv g \<and> g_gcstate g = GCSpropagate \<and> stores g a b b' ob"
  then have al: "allocated (set_body a b' g) ob" by (cases ob) (auto simp: set_body_def stores_def)
  have "g_gcstate (set_body a b' g) = GCSpropagate" using asm by (simp add: set_body_def)
  then show "if gc_tt b = 5 then gc_inv (luaC_objbarriert a ob (set_body a b' g))
    else (\<exists>g'. luaC_objbarrier (GCAddr a) ob (set_body a b' g) = Inr g' \<and> gc_inv g')"
    using asm al store_quiet [of g a b b' ob] store_back [of g a b b' ob] store_forward [of g a b b' ob]
    by (simp add: luaC_objbarriert_def luaC_objbarrier_def luaC_barrierf_def del: allocated.simps)
qed

section \<open>New objects\<close>

text \<open>The heap with one object more: what was well formed is so, and refers to the same objects.\<close>

lemma new_fields:
  "g_obj (new_object a b sz g) = (g_obj g)(a \<mapsto> b)" "g_strt (new_object a b sz g) = g_strt g"
  "g_gray (new_object a b sz g) = g_gray g" "grayagain (new_object a b sz g) = grayagain g" "g_weak (new_object a b sz g) = g_weak g"
  "g_rootgc (new_object a b sz g) = GCAddr a # g_rootgc g" "g_uvhead (new_object a b sz g) = g_uvhead g"
  "g_mainthread (new_object a b sz g) = g_mainthread g" "g_registry (new_object a b sz g) = g_registry g"
  "g_mt (new_object a b sz g) = g_mt g"
  "marked (new_object a b sz g) x = (if x = GCAddr a then luaC_white g else marked g x)"
  by (simp_all add: new_object_def set_body_def luaC_link_def luaM_realloc_def luaC_white_def)

lemma new_kind: "g_obj g a = None \<Longrightarrow> kind_at g c = Some k \<Longrightarrow> kind_at (new_object a b sz g) c = Some k"
  by (auto simp: kind_at_def new_fields)

lemma new_value: "g_obj g a = None \<Longrightarrow> value_ok g v \<Longrightarrow> value_ok (new_object a b sz g) v"
  by (cases v) (simp_all add: new_kind, simp add: new_fields)

lemma new_pointers: "g_obj g a = None \<Longrightarrow> pointer_ok g k p \<Longrightarrow> pointer_ok (new_object a b sz g) k p"
  by (simp add: pointer_ok_def new_kind)

lemma new_string: "string_ok (new_object a b sz g) q = string_ok g q"
  by (simp add: string_ok_def new_fields)

lemma new_thread: "g_obj g a = None \<Longrightarrow> g_obj g t = Some (OThread th) \<Longrightarrow> g_obj (new_object a b sz g) t = Some (OThread th)"
  by (auto simp: new_fields)

lemma new_body_ok:
  assumes a: "g_obj g a = None" and c: "body_ok g c"
  shows "body_ok (new_object a b sz g) c"
proof (cases "(g, c)" rule: body_ok.cases)
  case (1 g' h)
  then show ?thesis using c new_value [OF a] new_pointers [OF a] by (simp del: value_ok.simps) blast
next
  case (4 g' t i)
  then show ?thesis using c new_value [OF a] new_thread [OF a] by auto
next
  case (5 g' env p us)
  then show ?thesis using c new_kind [OF a] by auto
qed (use c new_value [OF a] new_pointers [OF a] new_kind [OF a] in \<open>simp_all add: new_string del: value_ok.simps\<close>)

lemma new_refs:
  assumes a: "g_obj g a = None" and ok: "all_ok g" and c: "g_obj g c = Some d"
  shows "strong_refs (new_object a b sz g) c = strong_refs g c"
proof -
  let ?g = "new_object a b sz g"
  have ca: "c \<noteq> a" using a c by auto
  have w: "weak_keys ?g c = weak_keys g c" "weak_values ?g c = weak_values g c"
    using ca by (simp_all add: weak_keys_def weak_values_def new_fields)
  have "body_refs ?g wk wv d = body_refs g wk wv d" for wk wv
  proof (cases "(g, wk, wv, d)" rule: body_refs.cases)
    case (4 g' wk' wv' t i)
    then obtain th where "g_obj g t = Some (OThread th)" using all_okD [OF ok c] by auto
    then show ?thesis using 4 new_thread [OF a, of t th b sz] by simp
  qed simp_all
  then show ?thesis using ca c w by (simp add: strong_refs_def new_fields)
qed

text \<open>What an object keeps alive is allocated.\<close>

lemma value_allocated: "value_ok g v \<Longrightarrow> x \<in> vref v \<Longrightarrow> allocated g x"
  using gcvalue_allocated by (auto simp: vref_def)

lemma pointer_allocated: "pointer_ok g k p \<Longrightarrow> x \<in> pref p \<Longrightarrow> allocated g x" "string_ok g q \<Longrightarrow> x \<in> sref q \<Longrightarrow> allocated g x"
  using kind_at_allocated by (auto simp: pref_def sref_def pointer_ok_def string_ok_def simp del: allocated.simps)

lemma refs_allocated:
  assumes b: "body_ok g b" and x: "x \<in> body_refs g wk wv b"
  shows "allocated g x"
proof (cases "(g, wk, wv, b)" rule: body_refs.cases)
  case (1 g' wk' wv' h)
  have "allocated g x" if n: "n \<in> set (node h)" "x \<in> node_refs wk wv n" for n
  proof -
    have v: "i_val n \<noteq> TNil" using n(2) by (auto simp: node_refs_def)
    then obtain k where "i_key n = Key k" "value_ok g k" "value_ok g (i_val n)" using b 1 n(1) by auto
    then show ?thesis using n(2) v value_allocated gcvalue_allocated
      by (auto simp: node_refs_def key_object_def split: if_splits simp del: allocated.simps value_ok.simps)
  qed
  then show ?thesis using 1 b x value_allocated pointer_allocated(1)
    by (auto simp: table_refs_def split: if_splits simp del: allocated.simps value_ok.simps)
next
  case (4 g' wk' wv' t i)
  then show ?thesis using b x value_allocated by (auto simp del: allocated.simps value_ok.simps)
qed (use b x value_allocated pointer_allocated kind_at_allocated in \<open>auto simp: pref_def simp del: allocated.simps value_ok.simps\<close>)

text \<open>
  Claim C39. A new object is white and may refer to anything: linked into the list of all objects at any
  time, it does not break the collector's invariant.
\<close>

theorem new_object_keeps_invariant:
  "gc_inv g \<and> white_ok g \<and> g_obj g a = None \<and> body_ok (new_object a b sz g) b \<longrightarrow> gc_inv (new_object a b sz g)"
proof (intro impI)
  assume asm: "gc_inv g \<and> white_ok g \<and> g_obj g a = None \<and> body_ok (new_object a b sz g) b"
  then have a: "g_obj g a = None" and m: "mark_ok (loose g) {} g" and r: "roots_marked g" by (simp_all add: gc_inv_parts)
  let ?g = "new_object a b sz g"
  have w: "waiting ?g = waiting g" "loose ?g = loose g" by (simp_all add: waiting_def loose_def open_objects_def new_fields)
  have white: "iswhite ?g x \<longleftrightarrow> x = GCAddr a \<or> iswhite g x" "isblack ?g x \<longleftrightarrow> x \<noteq> GCAddr a \<and> isblack g x" for x
    using white_ok_bits [of g 0] white_ok_bits [of g 1] asm by (auto simp: iswhite_bit isblack_bit new_fields split: if_splits)
  have lk: "listed_kind g x \<Longrightarrow> listed_kind ?g x" "x \<noteq> GCAddr a \<Longrightarrow> listed_kind ?g x = listed_kind g x" for x
    using new_kind [OF a] by (auto simp: listed_kind_def) (auto simp: kind_at_def new_fields split: if_splits)
  have na: "\<not> listed_kind g (GCAddr a)" using a by (simp add: listed_kind_def kind_at_def)
  note l = lists_okD [OF mark_okD(2) [OF m]]
  have aw: "GCAddr a \<notin> set (waiting g)" using l(2) na by blast
  have "all_ok ?g"
    using asm new_body_ok [OF a] mark_okD(1) [OF m] by (auto simp: all_ok_def new_fields(1) split: if_splits)
  moreover have "lists_ok {} ?g"
  proof (rule lists_okI)
    fix c assume "GCAddr c \<in> set (g_weak ?g)"
    then show "kind_at ?g c = Some 5" using l(5) new_kind [OF a] by (simp add: new_fields)
  next
    fix x assume "listed_kind ?g x" "\<not> iswhite ?g x" "\<not> isblack ?g x"
    then show "x \<in> set (waiting ?g)" using l(7) lk(2) by (auto simp: white w)
  qed (use l(1) aw in \<open>auto simp: w white lk dest: l(2,3,4,6)\<close>)
  moreover have "rooted ?g" using mark_okD(3) [OF m] lk(2) by (auto simp: rooted_def new_fields)
  moreover have "closed ?g (loose g)"
    unfolding closed_def
  proof (intro allI impI ballI)
    fix c x assume c: "g_obj ?g c \<noteq> None" "\<not> iswhite ?g (GCAddr c)" "GCAddr c \<notin> loose g" "GCAddr c \<notin> set (g_gray ?g)" "x \<in> strong_refs ?g c"
    then have ca: "c \<noteq> a" using white(1) by auto
    then obtain d where d: "g_obj g c = Some d" using c(1) by (auto simp: new_fields)
    then have x: "x \<in> strong_refs g c" using new_refs [OF a mark_okD(1) [OF m] d] c(5) by simp
    have "\<not> iswhite g x" using closedD [OF mark_okD(4) [OF m] strong_refs_obj [OF x] _ c(3) _ x] c by (simp add: white new_fields)
    moreover have "allocated g x" using refs_allocated [OF all_okD [OF mark_okD(1) [OF m] d]] x d by (simp add: strong_refs_def)
    then have "x \<noteq> GCAddr a" using a by auto
    ultimately show "\<not> iswhite ?g x" using white(1) by blast
  qed
  moreover have "a \<noteq> g_mainthread g" "GCAddr a \<notin> vref (g_registry g)"
    using r a value_allocated [of g "g_registry g" "GCAddr a"] by (auto simp: roots_marked_def roots_ok_def kind_at_def)
  then have "roots_marked ?g"
    using r a new_value [OF a] new_pointers [OF a] new_kind [OF a]
    by (auto simp: roots_marked_def open_ok_def roots_ok_def white new_fields)
  ultimately show "gc_inv ?g" by (simp add: gc_inv_parts mark_ok_def w)
qed

section \<open>An example\<close>

text \<open>
  A small collector on which the properties of the collector are checked: the main thread, the tables of
  globals and of the registry, and a table nobody refers to.
\<close>

definition ex_table :: "addr \<Rightarrow> TValue list \<Rightarrow> Table" where
  "ex_table a vs = \<lparr>t_self = a, flags = 0, lsizenode = 0, metatable = None, array = vs,
     isdummy = True, node = [dummynode], lastfree = 0, sizearray = length vs\<rparr>"

definition ex_thread :: gc_thread where
  "ex_thread = \<lparr>gt_stack = replicate 45 TNil, gt_top = 1, gt_ci_tops = [21], gt_size_ci = 8, gt_gt = TTable 1, gt_openupval = []\<rparr>"

definition ex_collector :: "(GCObject \<Rightarrow> lu_byte) \<Rightarrow> GCObject list \<Rightarrow> GCObject list \<Rightarrow> collector" where
  "ex_collector m gray again = \<lparr>marked = m, grayagain = again,
     g_obj = [0 \<mapsto> OThread ex_thread, 1 \<mapsto> OTable (ex_table 1 [TNil]), 2 \<mapsto> OTable (ex_table 2 []), 3 \<mapsto> OTable (ex_table 3 [])],
     g_strt = [[]], g_nuse = 0, g_currentwhite = bitmask WHITE0BIT OR bitmask FIXEDBIT, g_gcstate = GCSpropagate,
     g_sweepstrgc = 0, g_rootgc = [GCAddr 3, GCAddr 2, GCAddr 1, GCAddr 0], g_sweepgc = None, g_gray = gray,
     g_weak = [], g_tmudata = [], g_buff = \<lparr>mb_buffer = [], mb_n = 0, mb_buffsize = 0\<rparr>, g_GCthreshold = 0, g_totalbytes = 0,
     g_estimate = 0, g_gcdept = 0, g_gcpause = 200, g_gcstepmul = 200, g_registry = TTable 2, g_mainthread = 0,
     g_uvhead = [], g_mt = [None]\<rparr>"

lemma ex_table_wf: "length vs \<le> 1 \<Longrightarrow> wf_table (ex_table a vs)"
proof -
  assume "length vs \<le> 1"
  then have "wf_sizes (ex_table a vs)" by (simp add: wf_sizes_def ex_table_def sizenode_def MAXBITS_def MAXASIZE_def)
  moreover have "wf_nodes (ex_table a vs)"
    by (auto simp: wf_nodes_def wf_h_def wf_h_parts ex_table_def dummynode_def intro: exI [of _ "[]"] exI [of _ "[0]"])
  moreover have "wf_lastfree (ex_table a vs)" by (simp add: wf_lastfree_def ex_table_def)
  moreover have "no_array_keys (ex_table a vs)" by (simp add: no_array_keys_def ex_table_def dummynode_def)
  ultimately show ?thesis by (simp add: wf_table_def wf0_def) (simp add: ex_table_def)
qed
lemma ex_fields [simp]:
  "marked (ex_collector m gray again) = m" "grayagain (ex_collector m gray again) = again" "g_gray (ex_collector m gray again) = gray"
  "g_weak (ex_collector m gray again) = []" "g_strt (ex_collector m gray again) = [[]]" "g_uvhead (ex_collector m gray again) = []"
  "g_mainthread (ex_collector m gray again) = 0" "g_registry (ex_collector m gray again) = TTable 2" "g_mt (ex_collector m gray again) = [None]"
  "g_gcstate (ex_collector m gray again) = GCSpropagate" "g_tmudata (ex_collector m gray again) = []"
  "g_rootgc (ex_collector m gray again) = [GCAddr 3, GCAddr 2, GCAddr 1, GCAddr 0]"
  "g_currentwhite (ex_collector m gray again) = bitmask WHITE0BIT OR bitmask FIXEDBIT"
  by (simp_all add: ex_collector_def)

lemma ex_obj: "g_obj (ex_collector m gray again) a = (if a = 0 then Some (OThread ex_thread) else if a = 1 then Some (OTable (ex_table 1 [TNil]))
    else if a = 2 then Some (OTable (ex_table 2 [])) else if a = 3 then Some (OTable (ex_table 3 [])) else None)"
  by (simp add: ex_collector_def)

lemma ex_kind: "kind_at (ex_collector m gray again) a = (if a = 0 then Some 8 else if a \<in> {1, 2, 3} then Some 5 else None)"
  by (simp add: kind_at_def ex_obj)

lemma ex_table_ok: "\<forall>v\<in>set vs. value_ok g v \<Longrightarrow> length vs \<le> 1 \<Longrightarrow> body_ok g (OTable (ex_table a vs))"
  using ex_table_wf by (simp add: pointer_ok_def) (simp add: ex_table_def dummynode_def)

lemma ex_all_ok: "all_ok (ex_collector m gray again)"
proof -
  have "body_ok (ex_collector m gray again) (OThread ex_thread)" by (simp add: ex_thread_def ex_kind)
  then show ?thesis using ex_table_ok unfolding all_ok_def by (auto simp: ex_obj split: if_splits simp del: body_ok.simps)
qed

lemma ex_refs: "a \<noteq> 0 \<Longrightarrow> strong_refs (ex_collector m gray again) a = {}"
  by (auto simp: strong_refs_def ex_obj table_refs_def ex_table_def dummynode_def node_refs_def pref_def vref_def split: if_splits)

lemma ex_rooted: "rooted (ex_collector m gray again)"
  by (auto simp: rooted_def listed_kind_def ex_kind split: if_splits)

lemma ex_roots: "roots_ok (ex_collector m gray again)"
  by (simp add: roots_ok_def ex_kind pointer_ok_def)

text \<open>The start: every object has the current white.\<close>

definition ex_white :: collector where
  "ex_white = ex_collector (\<lambda>_. 1) [] []"

lemma byte_colours: "(1 :: lu_byte) AND WHITEBITS \<noteq> 0" "(0 :: lu_byte) AND WHITEBITS = 0" "(4 :: lu_byte) AND WHITEBITS = 0"
  "(1 :: lu_byte) AND bitmask BLACKBIT = 0" "(4 :: lu_byte) AND bitmask BLACKBIT \<noteq> 0"
  by (simp_all add: WHITEBITS_def bitmask_def WHITE0BIT_def WHITE1BIT_def BLACKBIT_def)

lemma ex_swept: "swept ex_white"
  by (simp add: swept_def ex_white_def ex_all_ok ex_rooted ex_roots iswhite_def isblack_def byte_colours)

text \<open>Later: the roots are marked, gray or black, and the last table is white.\<close>

definition ex_marks :: "lu_byte \<Rightarrow> GCObject \<Rightarrow> lu_byte" where
  "ex_marks c x = (if x = GCAddr 3 then 1 else if x = GCAddr 1 \<or> x = GCAddr 2 then c else 0)"

lemma ex_inv:
  assumes c: "c = 0 \<and> gray = [GCAddr 2, GCAddr 1, GCAddr 0] \<and> again = [] \<or> c = 4 \<and> gray = [] \<and> again = [GCAddr 0]"
  shows "gc_inv (ex_collector (ex_marks c) gray again)"
proof -
  let ?g = "ex_collector (ex_marks c) gray again"
  have white: "iswhite ?g x \<longleftrightarrow> x = GCAddr 3" "isblack ?g x \<longleftrightarrow> c = 4 \<and> x \<in> {GCAddr 1, GCAddr 2}" for x
    using c by (auto simp: iswhite_def isblack_def ex_marks_def byte_colours)
  have lk: "listed_kind ?g x \<longleftrightarrow> x \<in> GCAddr ` {0, 1, 2, 3}" for x by (cases x) (auto simp: listed_kind_def ex_kind)
  have "lists_ok {} ?g"
    by (rule lists_okI) (use c in \<open>auto simp: waiting_def white lk\<close>)
  moreover have "closed ?g (loose ?g)"
    unfolding closed_def
  proof (intro allI impI ballI)
    fix a x assume a: "GCAddr a \<notin> loose ?g" "GCAddr a \<notin> set (g_gray ?g)" "x \<in> strong_refs ?g a"
    then have "a \<noteq> 0" using c by (auto simp: loose_def)
    then show "\<not> iswhite ?g x" using a(3) ex_refs by simp
  qed
  ultimately show ?thesis
    by (simp add: gc_inv_parts mark_ok_def ex_all_ok ex_rooted roots_marked_def ex_roots open_ok_def white vref_def)
qed

definition ex_gray :: collector where
  "ex_gray = ex_collector (ex_marks 0) [GCAddr 2, GCAddr 1, GCAddr 0] []"

definition ex_black :: collector where
  "ex_black = ex_collector (ex_marks 4) [] [GCAddr 0]"

lemma ex_gray_inv: "gc_inv ex_gray"
  unfolding ex_gray_def by (rule ex_inv) simp

lemma ex_black_inv: "gc_inv ex_black"
  unfolding ex_black_def by (rule ex_inv) simp

lemma ex_black_atomic: "white_ok ex_black \<and> udata_ok ex_black \<and> allocated ex_black (GCAddr 0) \<and> \<not> isdead ex_black x"
  by (simp add: ex_black_def white_ok_def udata_ok_def userdata_def ex_obj isdead_def otherwhite_def ex_marks_def WHITEBITS_def
      bitmask_def WHITE0BIT_def WHITE1BIT_def FIXEDBIT_def)

lemma ex_store: "stores ex_black 1 (OTable (ex_table 1 [TNil])) (OTable (ex_table 1 [TTable 3])) (GCAddr 3)"
proof -
  have "body_ok ex_black (OTable (ex_table 1 [TTable 3]))" by (rule ex_table_ok) (simp_all add: ex_black_def ex_kind)
  then show ?thesis
    by (auto simp: stores_def ex_black_def ex_obj table_refs_def ex_table_def vref_def simp del: body_ok.simps)
qed

lemma ex_new: "body_ok (new_object 4 (OCclosure 1 [TTable 3]) 40 ex_black) (OCclosure 1 [TTable 3])"
  by (simp add: new_object_def kind_at_def set_body_def luaC_link_def luaM_realloc_def ex_black_def ex_obj)

section \<open>Witnesses\<close>

theorem markroot_starts_witness: "\<exists>g'. markroot ex_white = Inr g' \<and> gc_inv g' \<and> g_gcstate g' = GCSpropagate"
  using markroot_starts ex_swept by blast

theorem propagatemark_keeps_invariant_witness:
  "\<forall>V. \<exists>m g'. propagatemark V ex_gray = Inr (m, g') \<and> gc_inv g' \<and> work g' < work ex_gray"
proof
  fix V
  have "g_gray ex_gray \<noteq> []" by (simp add: ex_gray_def)
  then show "\<exists>m g'. propagatemark V ex_gray = Inr (m, g') \<and> gc_inv g' \<and> work g' < work ex_gray"
    using propagatemark_keeps_invariant ex_gray_inv by blast
qed

theorem marking_complete_witness:
  "\<forall>V. \<exists>g'. atomic_mark V 0 ex_black = Inr g' \<and> g_gray g' = [] \<and> (\<forall>y. reaches g' (GCAddr 0) y \<longrightarrow> \<not> iswhite g' y)"
proof
  fix V
  obtain g' where "atomic_mark V 0 ex_black = Inr g'" "g_gray g' = []"
    "\<forall>x y. x \<in> gc_roots 0 g' \<or> allocated ex_black x \<and> \<not> iswhite ex_black x \<longrightarrow> reaches g' x y \<longrightarrow> \<not> iswhite g' y"
    using marking_complete ex_black_inv ex_black_atomic by blast
  then show "\<exists>g'. atomic_mark V 0 ex_black = Inr g' \<and> g_gray g' = [] \<and> (\<forall>y. reaches g' (GCAddr 0) y \<longrightarrow> \<not> iswhite g' y)"
    by (auto simp: gc_roots_def)
qed

theorem barrier_keeps_invariant_witness:
  "gc_inv (luaC_objbarriert 1 (GCAddr 3) (set_body 1 (OTable (ex_table 1 [TTable 3])) ex_black))"
proof -
  have "g_gcstate ex_black = GCSpropagate" by (simp add: ex_black_def)
  then show ?thesis
    using barrier_keeps_invariant [of ex_black 1 "OTable (ex_table 1 [TNil])" "OTable (ex_table 1 [TTable 3])" "GCAddr 3"]
      ex_black_inv ex_store by simp
qed

theorem new_object_keeps_invariant_witness: "gc_inv (new_object 4 (OCclosure 1 [TTable 3]) 40 ex_black)"
proof -
  have "g_obj ex_black 4 = None" by (simp add: ex_black_def ex_obj)
  then show ?thesis using new_object_keeps_invariant ex_new ex_black_inv ex_black_atomic by blast
qed

theorem atomic_safe_witness:
  "\<forall>V. \<exists>g'. atomic V 0 ex_black = Inr g' \<and> g_gcstate g' = GCSsweepstring \<and> all_ok g' \<and>
     (\<forall>x\<in>gc_roots 0 g' \<union> set (g_tmudata g'). \<not> isdead g' x)"
  using atomic_safe ex_black_inv ex_black_atomic by blast

end
