(* ===== verification/Lstring_spec.thy ===== *)
theory Lstring_spec
  imports Lgc_atomic "HOL-Library.Multiset"
begin

text \<open>
  The string table: every string is in the bucket of its hash and only once, whatever strings are made and
  whenever the table grows, and a sweep takes exactly the dead strings out of a bucket.
\<close>

section \<open>The table\<close>

definition strings_ok :: "collector \<Rightarrow> bool" where
  "strings_ok g \<longleftrightarrow> (\<exists>k\<le>30. length (g_strt g) = 2 ^ k) \<and> distinct (concat (g_strt g)) \<and>
     (\<forall>i<length (g_strt g). \<forall>s\<in>set (g_strt g ! i). string_bucket g s = i) \<and>
     length (concat (g_strt g)) < 2 ^ 32 \<and> g_nuse g = word_of_nat (length (concat (g_strt g)))"

lemma bucket_less:
  assumes "k \<le> 30"
  shows "lmod s (2 ^ k) < 2 ^ k"
proof -
  have "(2 :: nat) ^ k \<le> 2 ^ 30" by (rule power_increasing) (use assms in auto)
  then have k: "(2 :: nat) ^ k < 2 ^ 32" by simp
  have "unat (word_of_nat (2 ^ k) - 1 :: 32 word) = 2 ^ k - 1"
  proof -
    have u: "unat (word_of_nat (2 ^ k) :: 32 word) = 2 ^ k" by (subst unat_of_nat) (use k in simp)
    then have "(1 :: 32 word) \<le> word_of_nat (2 ^ k)" by (simp add: word_le_nat_alt)
    then show ?thesis using u by (simp add: unat_sub)
  qed
  moreover have "lmod s (2 ^ k) \<le> unat (word_of_nat (2 ^ k) - 1 :: 32 word)"
    unfolding lmod_def using word_and_le1 [of s "word_of_nat (2 ^ k) - 1"] by (simp add: word_le_nat_alt)
  ultimately have "lmod s (2 ^ k) \<le> 2 ^ k - 1" by (simp only:)
  then show ?thesis by (metis One_nat_def Suc_pred le_imp_less_Suc zero_less_numeral zero_less_power)
qed

lemma luaM_realloc_fields [simp]:
  "g_strt (luaM_realloc m n g) = g_strt g" "g_obj (luaM_realloc m n g) = g_obj g" "marked (luaM_realloc m n g) = marked g"
  "g_nuse (luaM_realloc m n g) = g_nuse g" "g_currentwhite (luaM_realloc m n g) = g_currentwhite g"
  "g_gcstate (luaM_realloc m n g) = g_gcstate g" "luaC_white (luaM_realloc m n g) = luaC_white g"
  by (simp_all add: luaM_realloc_def luaC_white_def)

lemma mset_concat_push: "i < length xs \<Longrightarrow> mset (concat (xs[i := p # xs ! i])) = add_mset p (mset (concat xs))"
  by (induction xs arbitrary: i) (auto split: nat.splits)

lemma mset_concat_update: "i < length xs \<Longrightarrow> mset (concat (xs[i := ys])) + mset (xs ! i) = mset (concat xs) + mset ys"
  by (induction xs arbitrary: i) (auto split: nat.splits)

text \<open>Rehashing: the same strings, each in its new bucket.\<close>

definition in_buckets :: "TString list list \<Rightarrow> bool" where
  "in_buckets xs \<longleftrightarrow> (\<forall>i<length xs. \<forall>s\<in>set (xs ! i). lmod (luaS_hash s) (length xs) = i)"

lemma rehash_bucket_ok:
  assumes "k \<le> 30" "length nh = 2 ^ k" "in_buckets nh"
  shows "length (rehash_bucket ps nh) = 2 ^ k \<and> in_buckets (rehash_bucket ps nh) \<and>
    mset (concat (rehash_bucket ps nh)) = mset ps + mset (concat nh)"
  using assms(2,3)
proof (induction ps arbitrary: nh)
  case (Cons p ps)
  let ?h = "lmod (luaS_hash p) (length nh)" and ?nh = "nh[lmod (luaS_hash p) (length nh) := p # nh ! lmod (luaS_hash p) (length nh)]"
  have h: "?h < length nh" using bucket_less [OF assms(1)] Cons.prems(1) by simp
  have "in_buckets ?nh" using Cons.prems(2) h by (auto simp: in_buckets_def nth_list_update)
  then have "length (rehash_bucket ps ?nh) = 2 ^ k \<and> in_buckets (rehash_bucket ps ?nh) \<and>
    mset (concat (rehash_bucket ps ?nh)) = mset ps + mset (concat ?nh)"
    using Cons.IH [of ?nh] Cons.prems(1) by simp
  then show ?case using mset_concat_push [OF h, of p] by (simp add: Let_def)
qed simp

lemma rehash_table_ok:
  assumes "k \<le> 30" "length nh = 2 ^ k" "in_buckets nh"
  shows "length (rehash_table bs nh) = 2 ^ k \<and> in_buckets (rehash_table bs nh) \<and>
    mset (concat (rehash_table bs nh)) = mset (concat bs) + mset (concat nh)"
  using assms(2,3)
proof (induction bs arbitrary: nh)
  case (Cons b bs)
  note r = rehash_bucket_ok [OF assms(1) Cons.prems, of b]
  have "length (rehash_table bs (rehash_bucket b nh)) = 2 ^ k \<and> in_buckets (rehash_table bs (rehash_bucket b nh)) \<and>
    mset (concat (rehash_table bs (rehash_bucket b nh))) = mset (concat bs) + mset (concat (rehash_bucket b nh))"
    using Cons.IH r by blast
  then show ?case using r by simp
qed simp

lemma same_strings:
  assumes "mset (concat xs) = mset (concat ys)"
  shows "set (concat xs) = set (concat ys)" "length (concat xs) = length (concat ys)" "distinct (concat xs) = distinct (concat ys)"
  using assms by (rule mset_eq_setD, rule mset_eq_length, rule mset_eq_imp_distinct_iff)

lemma strings_ok_buckets: "strings_ok g \<longleftrightarrow> (\<exists>k\<le>30. length (g_strt g) = 2 ^ k) \<and> distinct (concat (g_strt g)) \<and>
     in_buckets (g_strt g) \<and> length (concat (g_strt g)) < 2 ^ 32 \<and> g_nuse g = word_of_nat (length (concat (g_strt g)))"
  by (simp add: strings_ok_def in_buckets_def string_bucket_def)

lemma luaS_resize_ok:
  assumes g: "strings_ok g" and k: "k \<le> 30"
  shows "strings_ok (luaS_resize V (2 ^ k) g) \<and> (\<forall>x. allocated (luaS_resize V (2 ^ k) g) x = allocated g x) \<and>
    marked (luaS_resize V (2 ^ k) g) = marked g \<and> g_currentwhite (luaS_resize V (2 ^ k) g) = g_currentwhite g"
proof (cases "g_gcstate g = GCSsweepstring")
  case False
  let ?nh = "rehash_table (g_strt g) (replicate (2 ^ k) [])"
  have nh: "length ?nh = 2 ^ k \<and> in_buckets ?nh \<and> mset (concat ?nh) = mset (concat (g_strt g))"
    using rehash_table_ok [OF k, of "replicate (2 ^ k) []" "g_strt g"] by (simp add: in_buckets_def [of "replicate n xs" for n xs])
  note st = same_strings [OF conjunct2 [OF conjunct2 [OF nh]]]
  have f: "g_strt (luaS_resize V (2 ^ k) g) = ?nh" "g_nuse (luaS_resize V (2 ^ k) g) = g_nuse g" "g_obj (luaS_resize V (2 ^ k) g) = g_obj g"
    "marked (luaS_resize V (2 ^ k) g) = marked g" "g_currentwhite (luaS_resize V (2 ^ k) g) = g_currentwhite g"
    using False by (simp_all add: luaS_resize_def Let_def)
  have "allocated (luaS_resize V (2 ^ k) g) x = allocated g x" for x by (cases x) (use st(1) in \<open>auto simp: f\<close>)
  moreover have "strings_ok (luaS_resize V (2 ^ k) g)" unfolding strings_ok_buckets f using g nh st k by (auto simp: strings_ok_buckets)
  ultimately show ?thesis using f(4,5) by blast
qed (use g in \<open>simp add: luaS_resize_def\<close>)

section \<open>Interning\<close>

lemma string_in_table:
  assumes g: "strings_ok g"
  shows "s \<in> set (concat (g_strt g)) \<longleftrightarrow> string_bucket g s < length (g_strt g) \<and> s \<in> set (g_strt g ! string_bucket g s)"
proof
  assume "s \<in> set (concat (g_strt g))"
  then obtain b where "b \<in> set (g_strt g)" "s \<in> set b" by auto
  then obtain i where i: "i < length (g_strt g)" "s \<in> set (g_strt g ! i)" by (metis in_set_conv_nth)
  then have "string_bucket g s = i" using g by (auto simp: strings_ok_def)
  then show "string_bucket g s < length (g_strt g) \<and> s \<in> set (g_strt g ! string_bucket g s)" using i by simp
qed (use nth_mem in force)

lemma bucket_in_table: "strings_ok g \<Longrightarrow> string_bucket g s < length (g_strt g)"
  using bucket_less by (auto simp: strings_ok_def string_bucket_def)

lemma find_eq: "find (\<lambda>ts. length ts = length str \<and> ts = str) xs = (if str \<in> set xs then Some str else None)"
  by (induction xs) auto

text \<open>A dead string that is found has the current white again.\<close>

lemma changewhite_alive:
  assumes w: "white_ok g" and d: "isdead g x" "\<not> (bit (marked g x) 0 \<and> bit (marked g x) 1)"
  shows "\<not> isdead (changewhite x g) x"
proof -
  have o: "otherbit (changewhite x g) = otherbit g" "white_ok (changewhite x g)"
    using w by (simp_all add: otherbit_def changewhite_def white_ok_def)
  have "bit (marked g x) (otherbit g)" using d(1) w by (simp add: isdead_iff)
  then show ?thesis using d(2) o(2) by (auto simp: isdead_iff o(1) changewhite_def bit_xor_iff otherbit_def)
qed

text \<open>A string that was not there comes to the head of its bucket.\<close>

lemma newlstr_ok:
  assumes g: "strings_ok g" and new: "str \<notin> set (concat (g_strt g))" and w: "white_ok g"
    and fit: "length str + 1 \<le> MAX_SIZET - sz_TString V" "length (concat (g_strt g)) + 1 < 2 ^ 32"
  shows "\<exists>g'. newlstr V str (luaS_hash str) g = Inr g' \<and> strings_ok g' \<and> \<not> isdead g' (GCString str) \<and>
    (\<forall>x. allocated g' x = (x = GCString str \<or> allocated g x)) \<and> (\<forall>x. x \<noteq> GCString str \<longrightarrow> marked g' x = marked g x)"
proof -
  let ?b = "lmod (luaS_hash str) (length (g_strt g))" and ?n = "length (g_strt g)"
  have b: "?b < ?n" using bucket_in_table [OF g, of str] by (simp add: string_bucket_def)
  let ?g1 = "set_mark (GCString str) (\<lambda>_. luaC_white (luaM_realloc 0 (sizestring V str) g)) (luaM_realloc 0 (sizestring V str) g)"
  define g2 where "g2 = ?g1\<lparr>g_strt := (g_strt ?g1)[?b := str # g_strt ?g1 ! ?b], g_nuse := g_nuse ?g1 + 1\<rparr>"
  have f: "g_strt g2 = (g_strt g)[?b := str # g_strt g ! ?b]" "g_nuse g2 = g_nuse g + 1" "g_obj g2 = g_obj g"
    "g_currentwhite g2 = g_currentwhite g" by (simp_all add: g2_def)
  have m: "marked g2 x = (if x = GCString str then luaC_white g else marked g x)" for x by (simp add: g2_def)
  have ms: "mset (concat (g_strt g2)) = add_mset str (mset (concat (g_strt g)))" unfolding f by (rule mset_concat_push [OF b])
  then have set: "set (concat (g_strt g2)) = insert str (set (concat (g_strt g)))"
    by (metis set_mset_mset set_mset_add_mset_insert)
  have len: "length (concat (g_strt g2)) = length (concat (g_strt g)) + 1" using ms by (metis size_mset size_add_mset Suc_eq_plus1)
  have dist: "distinct (concat (g_strt g2))" using ms new g mset_eq_imp_distinct_iff [of "concat (g_strt g2)" "str # concat (g_strt g)"]
    by (simp add: strings_ok_def)
  have ok2: "strings_ok g2"
    unfolding strings_ok_buckets using g dist len fit(2) b
    by (auto simp: f strings_ok_buckets in_buckets_def nth_list_update simp del: length_concat)
  have al2: "allocated g2 x = (x = GCString str \<or> allocated g x)" for x by (cases x) (use set f(3) in auto)
  have dead2: "\<not> isdead g2 (GCString str)"
  proof -
    have "white_ok g2" using w by (simp add: white_ok_def f)
    then show ?thesis using m [of "GCString str"] white_ok_bits [OF w, of 1] by (simp add: isdead_iff) (auto simp: otherbit_def f)
  qed
  have resize: "newlstr V str (luaS_hash str) g =
      Inr (if g_nuse g2 > word_of_nat ?n \<and> ?n \<le> MAX_INT div 2 then luaS_resize V (?n * 2) g2 else g2)"
    using fit(1) by (simp add: newlstr_def Let_def g2_def)
  show ?thesis
  proof (cases "g_nuse g2 > word_of_nat ?n \<and> ?n \<le> MAX_INT div 2")
    case True
    obtain k where k: "k \<le> 30" "?n = 2 ^ k" using g by (auto simp: strings_ok_def)
    have "k < 30"
    proof (rule ccontr)
      assume "\<not> k < 30"
      then have "?n = 2 ^ 30" using k by simp
      then show False using True by (simp add: MAX_INT_def)
    qed
    then have r: "strings_ok (luaS_resize V (2 ^ Suc k) g2) \<and> (\<forall>x. allocated (luaS_resize V (2 ^ Suc k) g2) x = allocated g2 x) \<and>
        marked (luaS_resize V (2 ^ Suc k) g2) = marked g2 \<and> g_currentwhite (luaS_resize V (2 ^ Suc k) g2) = g_currentwhite g2"
      by (intro luaS_resize_ok [OF ok2]) simp
    let ?g3 = "luaS_resize V (2 ^ Suc k) g2"
    have "isdead ?g3 x = isdead g2 x" for x using r by (simp add: isdead_def otherwhite_def)
    moreover have "newlstr V str (luaS_hash str) g = Inr ?g3" unfolding resize using True k(2) by (simp add: mult.commute)
    ultimately show ?thesis using r dead2 al2 m by (intro exI [of _ ?g3]) simp
  next
    case False
    then have "newlstr V str (luaS_hash str) g = Inr g2" unfolding resize by (rule if_not_P [THEN arg_cong])
    then show ?thesis using ok2 al2 dead2 m by (intro exI [of _ g2]) simp
  qed
qed

text \<open>
  Claim C14. Strings are interned: \<open>luaS_newlstr\<close> leaves a table in which the string is, and not dead, which has
  every string at most once and each in the bucket of its hash, and which has the same other strings as before, with
  their marks; a string that was there keeps its place.
\<close>

theorem luaS_newlstr_interns:
  "strings_ok g \<and> white_ok g \<and> (\<forall>x. \<not> (bit (marked g x) 0 \<and> bit (marked g x) 1)) \<and>
   length str + 1 \<le> MAX_SIZET - sz_TString V \<and> length (concat (g_strt g)) + 1 < 2 ^ 32 \<longrightarrow>
   (\<exists>g'. luaS_newlstr V str g = Inr g' \<and> strings_ok g' \<and> allocated g' (GCString str) \<and> \<not> isdead g' (GCString str) \<and>
      (\<forall>x. x \<noteq> GCString str \<longrightarrow> allocated g' x = allocated g x \<and> marked g' x = marked g x) \<and>
      (allocated g (GCString str) \<longrightarrow> g_strt g' = g_strt g))"
proof
  assume a: "strings_ok g \<and> white_ok g \<and> (\<forall>x. \<not> (bit (marked g x) 0 \<and> bit (marked g x) 1)) \<and>
    length str + 1 \<le> MAX_SIZET - sz_TString V \<and> length (concat (g_strt g)) + 1 < 2 ^ 32"
  then have g: "strings_ok g" and w: "white_ok g" by simp_all
  have b: "string_bucket g str < length (g_strt g)" by (rule bucket_in_table [OF g])
  have eq: "luaS_newlstr V str g = (if str \<in> set (concat (g_strt g))
      then Inr (if isdead g (GCString str) then changewhite (GCString str) g else g) else newlstr V str (luaS_hash str) g)"
    using b string_in_table [OF g, of str] by (simp add: luaS_newlstr_def find_eq string_bucket_def)
  show "\<exists>g'. luaS_newlstr V str g = Inr g' \<and> strings_ok g' \<and> allocated g' (GCString str) \<and> \<not> isdead g' (GCString str) \<and>
      (\<forall>x. x \<noteq> GCString str \<longrightarrow> allocated g' x = allocated g x \<and> marked g' x = marked g x) \<and>
      (allocated g (GCString str) \<longrightarrow> g_strt g' = g_strt g)"
  proof (cases "str \<in> set (concat (g_strt g))")
    case True
    let ?g = "if isdead g (GCString str) then changewhite (GCString str) g else g"
    have f: "g_strt ?g = g_strt g" "g_obj ?g = g_obj g" "g_nuse ?g = g_nuse g" "x \<noteq> GCString str \<Longrightarrow> marked ?g x = marked g x" for x
      by (simp_all add: changewhite_def)
    have "\<not> isdead ?g (GCString str)" using changewhite_alive [OF w] a by auto
    moreover have "strings_ok ?g" using g unfolding strings_ok_def string_bucket_def f .
    moreover have "allocated ?g x = allocated g x" for x by (cases x) (simp_all add: f del: if_split_asm)
    ultimately show ?thesis using eq True f by (intro exI [of _ ?g]) simp
  next
    case False
    obtain g' where "newlstr V str (luaS_hash str) g = Inr g'" "strings_ok g'" "\<not> isdead g' (GCString str)"
      "\<forall>x. allocated g' x = (x = GCString str \<or> allocated g x)" "\<forall>x. x \<noteq> GCString str \<longrightarrow> marked g' x = marked g x"
      using newlstr_ok [OF g False w] a by blast
    then show ?thesis using eq False by (intro exI [of _ g']) (simp del: allocated.simps, simp)
  qed
qed

section \<open>Sweeping\<close>

lemma after_last: "distinct (pre @ rest) \<Longrightarrow>
    after (if pre = [] then None else Some (GCString (last pre))) (map GCString (pre @ rest)) = map GCString rest"
proof (cases pre rule: rev_cases)
  case (snoc ys y)
  assume "distinct (pre @ rest)"
  then have "\<And>x. x \<in> set (map GCString ys) \<Longrightarrow> x \<noteq> GCString y" using snoc by auto
  then have "dropWhile (\<lambda>x. x \<noteq> GCString y) (map GCString ys @ GCString y # map GCString rest) =
      dropWhile (\<lambda>x. x \<noteq> GCString y) (GCString y # map GCString rest)"
    by (rule dropWhile_append2)
  then show ?thesis using snoc by simp
qed simp

lemma survives_cong: "marked g' x = marked g x \<Longrightarrow> g_currentwhite g' = g_currentwhite g \<Longrightarrow> survives g' x = survives g x"
  by (simp add: survives_def otherwhite_def)

definition swept_bucket :: "collector \<Rightarrow> nat \<Rightarrow> TString list \<Rightarrow> TString list \<Rightarrow> collector \<Rightarrow> bool" where
  "swept_bucket g i pre rest g' \<longleftrightarrow> g_strt g' = (g_strt g)[i := pre @ filter (\<lambda>s. survives g (GCString s)) rest] \<and>
     g_nuse g' = g_nuse g - word_of_nat (length (filter (\<lambda>s. \<not> survives g (GCString s)) rest)) \<and> g_obj g' = g_obj g \<and>
     g_currentwhite g' = g_currentwhite g \<and>
     (\<forall>x. marked g' x = (if x \<in> GCString ` set rest \<and> survives g x then marked (makewhite x g) x else marked g x))"

lemma sweep_strings_loop:
  assumes "i < length (g_strt g)" "g_strt g ! i = pre @ rest" "distinct (pre @ rest)" "length rest \<le> n" "length rest \<le> cnt0"
  shows "\<exists>q g'. sweeplist (Suc n) V (StringList i) (if pre = [] then None else Some (GCString (last pre))) cnt0 g = Inr (q, g') \<and>
    swept_bucket g i pre rest g'"
  using assms
proof (induction rest arbitrary: g pre n cnt0)
  case Nil
  then have l: "list_of g (StringList i) = Inr (map GCString pre)" by (simp add: list_of_def)
  have "after (if pre = [] then None else Some (GCString (last pre))) (map GCString pre) = []"
    using after_last [of pre "[]"] Nil.prems(3) by simp
  moreover have "(g_strt g)[i := pre] = g_strt g" using list_update_id [of "g_strt g" i] Nil.prems(2) by simp
  ultimately show ?case using l by (simp add: swept_bucket_def)
next
  case (Cons s rest)
  let ?p = "if pre = [] then None else Some (GCString (last pre))"
  obtain m where m: "n = Suc m" "length rest \<le> m" using Cons.prems(4) by (cases n) auto
  have cnt: "cnt0 \<noteq> 0" "length rest \<le> cnt0 - 1" using Cons.prems(5) by auto
  have l: "list_of g (StringList i) = Inr (map GCString (pre @ s # rest))" using Cons.prems(1,2) by (simp add: list_of_def)
  have af: "after ?p (map GCString (pre @ s # rest)) = GCString s # map GCString rest" using after_last [OF Cons.prems(3)] by simp
  have al: "allocated g (GCString s)" using Cons.prems(1,2) nth_mem [OF Cons.prems(1)] by force
  have nt: "\<not> is_thread g (GCString s)" by (simp add: is_thread_def)
  have fresh: "GCString s \<notin> GCString ` set rest" using Cons.prems(3) by auto
  show ?case
  proof (cases "survives g (GCString s)")
    case True
    let ?g = "makewhite (GCString s) g"
    have st: "g_strt ?g = g_strt g" "g_nuse ?g = g_nuse g" by (simp_all add: makewhite_def)
    have "\<exists>q g'. sweeplist (Suc m) V (StringList i) (Some (GCString s)) (cnt0 - 1) ?g = Inr (q, g') \<and> swept_bucket ?g i (pre @ [s]) rest g'"
      using Cons.IH [of ?g "pre @ [s]" m "cnt0 - 1"] Cons.prems m cnt by (simp add: st)
    then obtain q g' where g': "sweeplist (Suc m) V (StringList i) (Some (GCString s)) (cnt0 - 1) ?g = Inr (q, g')"
      "swept_bucket ?g i (pre @ [s]) rest g'" by blast
    have sv: "survives ?g (GCString x) = survives g (GCString x)" if "x \<in> set rest" for x
      by (rule survives_cong) (use that fresh in \<open>auto simp: makewhite_def\<close>)
    then have fl: "filter (\<lambda>s. survives ?g (GCString s)) rest = filter (\<lambda>s. survives g (GCString s)) rest"
      "filter (\<lambda>s. \<not> survives ?g (GCString s)) rest = filter (\<lambda>s. \<not> survives g (GCString s)) rest" by (auto intro: filter_cong)
    have mw: "marked (makewhite x ?g) x = marked (makewhite x g) x" if "x \<noteq> GCString s" for x
      using that by (simp add: makewhite_def luaC_white_def)
    have "swept_bucket g i pre (s # rest) g'"
      using g'(2) True fl sv mw fresh unfolding swept_bucket_def by (auto simp: st makewhite_def)
    then show ?thesis using g'(1) l af al nt True cnt(1) m(1) by (subst sweeplist.simps) (simp del: sweeplist.simps allocated.simps)
  next
    case False
    let ?g = "(g\<lparr>g_strt := (g_strt g)[i := pre @ rest]\<rparr>)"
    let ?h = "luaM_realloc (sizestring V s) 0 (?g\<lparr>g_nuse := g_nuse ?g - 1\<rparr>)"
    have un: "unlink ?p (map GCString (pre @ s # rest)) = map GCString (pre @ rest)"
      unfolding unlink_def af by simp
    have sl: "set_list (StringList i) (map GCString (pre @ rest)) g = Inr ?g" by (simp add: set_list_def comp_def)
    have st: "g_strt ?h = (g_strt g)[i := pre @ rest]" "g_nuse ?h = g_nuse g - 1" "marked ?h = marked g" by simp_all
    have "\<exists>q g'. sweeplist (Suc m) V (StringList i) ?p (cnt0 - 1) ?h = Inr (q, g') \<and> swept_bucket ?h i pre rest g'"
      using Cons.IH [of ?h pre m "cnt0 - 1"] Cons.prems(1,3) m cnt by (simp add: st)
    then obtain q g' where g': "sweeplist (Suc m) V (StringList i) ?p (cnt0 - 1) ?h = Inr (q, g')" "swept_bucket ?h i pre rest g'" by blast
    have sv: "survives ?h x = survives g x" for x by (rule survives_cong) simp_all
    have mw: "marked (makewhite x ?h) x = marked (makewhite x g) x" for x by (simp add: makewhite_def luaC_white_def)
    have "swept_bucket g i pre (s # rest) g'"
      using g'(2) False unfolding swept_bucket_def sv mw st by (auto simp: Cons.prems(1))
    then show ?thesis using g'(1) l af al nt False cnt(1) m(1) un sl
      by (subst sweeplist.simps) (simp add: freeobj_def del: sweeplist.simps allocated.simps)
  qed
qed

lemma concat_filter:
  "i < length xs \<Longrightarrow> set (concat (xs[i := filter P (xs ! i)])) \<subseteq> set (concat xs)"
  "i < length xs \<Longrightarrow> length (concat (xs[i := filter P (xs ! i)])) + length (filter (\<lambda>x. \<not> P x) (xs ! i)) = length (concat xs)"
  "i < length xs \<Longrightarrow> distinct (concat xs) \<Longrightarrow> distinct (concat (xs[i := filter P (xs ! i)]))"
proof (induction xs arbitrary: i)
  case (Cons x xs)
  case 1
  then show ?case using Cons(1) by (cases i) (auto dest: set_mp)
  case 2
  then show ?case using Cons(2) sum_length_filter_compl [of P x] by (cases i) (auto simp del: length_concat)
  case 3
  then have d: "distinct x" "distinct (concat xs)" "set x \<inter> set (concat xs) = {}" by simp_all
  show ?case
  proof (cases i)
    case (Suc j)
    then have j: "j < length xs" using 3 by simp
    have "set x \<inter> set (concat (xs[j := filter P (xs ! j)])) = {}" using d(3) Cons(1) [OF j] by blast
    then show ?thesis using d Cons(3) [OF j] Suc by simp
  qed (use d in auto)
qed simp_all

lemma sweep_fuel_bucket: "i < length (g_strt g) \<Longrightarrow> \<exists>n\<ge>length (g_strt g ! i). sweep_fuel g = Suc n"
proof -
  assume i: "i < length (g_strt g)"
  have "length (g_strt g ! i) \<le> length (concat (g_strt g))"
    using concat_filter(2) [OF i, of "\<lambda>_. False"] by simp
  then show ?thesis unfolding sweep_fuel_def by (intro exI [of _ "sweep_fuel g - 1"]) (simp add: sweep_fuel_def)
qed

lemma dead_made_white: "white_ok g \<Longrightarrow> \<not> isdead (makewhite x g) x \<and> iswhite (makewhite x g) x"
proof -
  assume w: "white_ok g"
  have "white_ok (makewhite x g)" "otherbit (makewhite x g) = otherbit g" using w by (simp_all add: white_ok_def otherbit_def)
  then show ?thesis using w white_ok_bits [OF w, of 1] by (auto simp: isdead_iff makewhite_mark otherbit_def)
qed

text \<open>
  Claim C15. A sweep of a bucket of the string table takes out the dead strings that are not fixed and no others, gives
  the rest the current white, and leaves a table with every string in its bucket, counted.
\<close>

theorem sweep_strings_exact:
  "strings_ok g \<and> white_ok g \<and> i < length (g_strt g) \<longrightarrow>
   (\<exists>g'. sweepwholelist V (StringList i) g = Inr g' \<and> strings_ok g' \<and>
      g_strt g' = (g_strt g)[i := filter (\<lambda>s. \<not> isdead g (GCString s) \<or> bit (marked g (GCString s)) FIXEDBIT) (g_strt g ! i)] \<and>
      (\<forall>s\<in>set (g_strt g' ! i). iswhite g' (GCString s) \<and> \<not> isdead g' (GCString s)) \<and>
      (\<forall>x. x \<notin> GCString ` set (g_strt g ! i) \<longrightarrow> marked g' x = marked g x))"
proof
  assume a: "strings_ok g \<and> white_ok g \<and> i < length (g_strt g)"
  then have g: "strings_ok g" and w: "white_ok g" and i: "i < length (g_strt g)" by simp_all
  let ?xs = "g_strt g ! i" and ?P = "\<lambda>s. survives g (GCString s)"
  obtain n where n: "length ?xs \<le> n" "sweep_fuel g = Suc n" using sweep_fuel_bucket [OF i] by blast
  have len: "length ?xs \<le> length (concat (g_strt g))" using concat_filter(2) [OF i, of "\<lambda>_. False"] by simp
  have "distinct ?xs" using g i by (metis distinct_concat_iff nth_mem strings_ok_def)
  moreover have "length ?xs \<le> MAX_LUMEM" using len g unfolding strings_ok_def MAX_LUMEM_def by simp
  ultimately obtain q g' where sw: "sweeplist (Suc n) V (StringList i) None MAX_LUMEM g = Inr (q, g')" "swept_bucket g i [] ?xs g'"
    using sweep_strings_loop [of i g "[]" ?xs n MAX_LUMEM V] i n(1) by auto
  have g': "g_strt g' = (g_strt g)[i := filter ?P ?xs]" "g_nuse g' = g_nuse g - word_of_nat (length (filter (\<lambda>s. \<not> ?P s) ?xs))"
    "g_currentwhite g' = g_currentwhite g"
    "\<And>x. marked g' x = (if x \<in> GCString ` set ?xs \<and> survives g x then marked (makewhite x g) x else marked g x)"
    using sw(2) by (simp_all add: swept_bucket_def)
  note cf = concat_filter [OF i, of ?P]
  have "strings_ok g'"
    unfolding strings_ok_buckets
  proof (intro conjI)
    show "in_buckets (g_strt g')" using g i by (auto simp: g'(1) strings_ok_buckets in_buckets_def nth_list_update)
    show "length (concat (g_strt g')) < 2 ^ 32" using cf(2) g unfolding g'(1) strings_ok_def by linarith
    have "length (concat (g_strt g)) - length (filter (\<lambda>s. \<not> ?P s) ?xs) = length (concat (g_strt g'))" using cf(2) unfolding g'(1) by linarith
    moreover have "length (filter (\<lambda>s. \<not> ?P s) ?xs) \<le> length (concat (g_strt g))" using cf(2) by linarith
    ultimately have "word_of_nat (length (concat (g_strt g))) - word_of_nat (length (filter (\<lambda>s. \<not> ?P s) ?xs)) =
        (word_of_nat (length (concat (g_strt g'))) :: 32 word)" by (metis of_nat_diff)
    then show "g_nuse g' = word_of_nat (length (concat (g_strt g')))" using g unfolding g'(2) strings_ok_def by simp
  qed (use g cf(3) in \<open>auto simp: g'(1) strings_ok_def simp del: distinct_concat_iff\<close>)
  moreover have "iswhite g' (GCString s) \<and> \<not> isdead g' (GCString s)" if s: "s \<in> set (g_strt g' ! i)" for s
  proof -
    have "s \<in> set ?xs" "?P s" using s i by (simp_all add: g'(1))
    then have "marked g' (GCString s) = marked (makewhite (GCString s) g) (GCString s)" by (simp add: g'(4))
    then show ?thesis using dead_made_white [OF w, of "GCString s"] by (simp add: iswhite_def isdead_def otherwhite_def g'(3))
  qed
  ultimately show "\<exists>g'. sweepwholelist V (StringList i) g = Inr g' \<and> strings_ok g' \<and>
      g_strt g' = (g_strt g)[i := filter (\<lambda>s. \<not> isdead g (GCString s) \<or> bit (marked g (GCString s)) FIXEDBIT) (g_strt g ! i)] \<and>
      (\<forall>s\<in>set (g_strt g' ! i). iswhite g' (GCString s) \<and> \<not> isdead g' (GCString s)) \<and>
      (\<forall>x. x \<notin> GCString ` set (g_strt g ! i) \<longrightarrow> marked g' x = marked g x)"
    using sw(1) n(2) g'(1,4) by (intro exI [of _ g']) (simp add: sweepwholelist_def survives_iff [OF w])
qed

section \<open>An example\<close>

text \<open>A table with one bucket: a dead string, a dead one that is fixed, and one with the current white.\<close>

definition ex_env :: gc_env where
  "ex_env = \<lparr>sz_TString = 24, sz_Udata = 40, sz_CClosure = 56, sz_LClosure = 48, sz_TValue = 16, sz_Table = 64, sz_Node = 40, sz_UpVal = 40,
     sz_Proto = 120, sz_Instruction = 4, sz_pointer = 8, sz_int = 4, sz_LocVar = 16, sz_thread = 184, sz_CallInfo = 40, sz_LG = 800,
     gc_call = (\<lambda>f u g. Inr g)\<rparr>"

definition ex_strings :: collector where
  "ex_strings = \<lparr>marked = (\<lambda>x. if x = GCString ''a'' then bitmask WHITE1BIT
        else if x = GCString ''b'' then bitmask WHITE1BIT OR bitmask FIXEDBIT else bitmask WHITE0BIT), grayagain = [],
     g_obj = (\<lambda>_. None), g_strt = [[''a'', ''b'', ''c'']], g_nuse = 3, g_currentwhite = bitmask WHITE0BIT OR bitmask FIXEDBIT,
     g_gcstate = GCSpause, g_sweepstrgc = 0, g_rootgc = [], g_sweepgc = None, g_gray = [], g_weak = [], g_tmudata = [],
     g_buff = \<lparr>mb_buffer = [], mb_n = 0, mb_buffsize = 0\<rparr>, g_GCthreshold = 0, g_totalbytes = 0, g_estimate = 0, g_gcdept = 0,
     g_gcpause = 200, g_gcstepmul = 200, g_registry = TNil, g_mainthread = 0, g_uvhead = [], g_mt = []\<rparr>"

lemma ex_strings_ok: "strings_ok ex_strings" "white_ok ex_strings"
proof -
  have "length (g_strt ex_strings) = 2 ^ 0" by (simp add: ex_strings_def)
  moreover have "in_buckets (g_strt ex_strings)" using bucket_less [of 0] by (simp add: in_buckets_def ex_strings_def)
  ultimately show "strings_ok ex_strings" by (auto simp: strings_ok_buckets ex_strings_def)
qed (simp add: white_ok_def ex_strings_def)

lemma ex_strings_marks: "\<not> (bit (marked ex_strings x) 0 \<and> bit (marked ex_strings x) 1)"
  by (simp add: ex_strings_def WHITE0BIT_def WHITE1BIT_def FIXEDBIT_def bit_or_iff)

lemma ex_strings_dead: "isdead ex_strings (GCString ''a'')" "isdead ex_strings (GCString ''b'')" "\<not> isdead ex_strings (GCString ''c'')"
  "bit (marked ex_strings (GCString ''b'')) FIXEDBIT" "\<not> bit (marked ex_strings (GCString ''a'')) FIXEDBIT"
proof -
  have "otherbit ex_strings = 1" by (simp add: otherbit_def ex_strings_def WHITE0BIT_def WHITE1BIT_def FIXEDBIT_def bit_or_iff)
  then show "isdead ex_strings (GCString ''a'')" "isdead ex_strings (GCString ''b'')" "\<not> isdead ex_strings (GCString ''c'')"
    by (simp_all add: isdead_iff ex_strings_ok) (simp_all add: ex_strings_def WHITE0BIT_def WHITE1BIT_def FIXEDBIT_def bit_or_iff)
qed (simp_all add: ex_strings_def WHITE0BIT_def WHITE1BIT_def FIXEDBIT_def bit_or_iff)

theorem luaS_newlstr_interns_witness:
  "(\<exists>g'. luaS_newlstr ex_env ''a'' ex_strings = Inr g' \<and> \<not> isdead g' (GCString ''a'') \<and> g_strt g' = g_strt ex_strings) \<and>
   (\<exists>g'. luaS_newlstr ex_env ''x'' ex_strings = Inr g' \<and> strings_ok g' \<and> allocated g' (GCString ''x'') \<and> \<not> isdead g' (GCString ''x''))"
proof -
  have h: "strings_ok ex_strings \<and> white_ok ex_strings \<and> (\<forall>x. \<not> (bit (marked ex_strings x) 0 \<and> bit (marked ex_strings x) 1)) \<and>
      length str + 1 \<le> MAX_SIZET - sz_TString ex_env \<and> length (concat (g_strt ex_strings)) + 1 < 2 ^ 32" if "length str = 1" for str :: string
    using ex_strings_ok ex_strings_marks that by (simp add: MAX_SIZET_def ex_env_def) (simp add: ex_strings_def)
  have "allocated ex_strings (GCString ''a'')" by (simp add: ex_strings_def)
  then show ?thesis
    using luaS_newlstr_interns [of ex_strings "''a''" ex_env] luaS_newlstr_interns [of ex_strings "''x''" ex_env]
      h [of "''a''"] h [of "''x''"] by (simp del: allocated.simps) blast
qed

theorem sweep_strings_exact_witness:
  "\<exists>g'. sweepwholelist ex_env (StringList 0) ex_strings = Inr g' \<and> strings_ok g' \<and> g_strt g' = [[''b'', ''c'']]"
proof -
  have s: "g_strt ex_strings = [[''a'', ''b'', ''c'']]" by (simp add: ex_strings_def)
  obtain g' where g': "sweepwholelist ex_env (StringList 0) ex_strings = Inr g'" "strings_ok g'"
      "g_strt g' = (g_strt ex_strings)[0 := filter (\<lambda>s. \<not> isdead ex_strings (GCString s) \<or> bit (marked ex_strings (GCString s)) FIXEDBIT) (g_strt ex_strings ! 0)]"
    using sweep_strings_exact [of ex_strings 0 ex_env] ex_strings_ok s by auto
  then have "g_strt g' = [[''b'', ''c'']]" using ex_strings_dead unfolding s by simp
  then show ?thesis using g' by blast
qed

end
