(* ===== verification/Lstrformat.thy ===== *)
theory Lstrformat
  imports Lstrlib
begin

text \<open>
  \<open>string.format\<close> (lstrlib.c): the scanning of a format, the items and quoted strings. \<open>sprintf\<close> of the
  C library is the argument \<open>P\<close>: the characters it writes for a format with one item and the argument of
  that item, without the terminating zero. The arrays \<open>form\<close> and \<open>buff\<close> have their sizes, and a write
  beyond them is a memory fault.
\<close>

type_synonym cprintf = "string \<Rightarrow> vararg \<Rightarrow> string"

definition MAX_ITEM :: nat where "MAX_ITEM = 512"
definition FLAGS :: string where "FLAGS = ''-+ #0''"
definition LUA_INTFRMLEN :: string where "LUA_INTFRMLEN = ''l''"

text \<open>\<open>sizeof\<close> of a literal counts its terminating zero.\<close>

definition MAX_FORMAT :: nat where
  "MAX_FORMAT = (length FLAGS + 1) + (length LUA_INTFRMLEN + 1) + 10"

subsection \<open>Quoted strings\<close>

definition quote_char :: "char \<Rightarrow> string" where
  "quote_char c =
     (if c = CHR 0x22 \<or> c = CHR 0x5C \<or> c = CHR 0x0A then [CHR 0x5C, c]
      else if c = CHR 0x0D then [CHR 0x5C, CHR ''r'']
      else if c = CHR 0x00 then CHR 0x5C # ''000''
      else [c])"

definition quoted :: "string \<Rightarrow> string" where
  "quoted s = CHR 0x22 # concat (map quote_char s) @ [CHR 0x22]"

definition addquoted :: "clib \<Rightarrow> lua_State \<Rightarrow> int \<Rightarrow> (string \<times> lua_State) result" where
  "addquoted C L arg = bind_result (luaL_checklstring C L arg) (\<lambda>(s, L). Inr (quoted s, L))"

subsection \<open>Formats\<close>

text \<open>
  What is left of the format is a C string: after its last character comes a zero. \<open>skip_if\<close> is
  \<open>if (...) p++\<close>.
\<close>

definition first_char :: "string \<Rightarrow> char" where
  "first_char s = (case s of [] \<Rightarrow> CHR 0x00 | c # _ \<Rightarrow> c)"

definition skip_if :: "(char \<Rightarrow> bool) \<Rightarrow> string \<Rightarrow> nat \<Rightarrow> nat" where
  "skip_if Q s p = (if Q (first_char (drop p s)) then p + 1 else p)"

definition is_digit_char :: "char \<Rightarrow> bool" where "is_digit_char c \<longleftrightarrow> isdigit (uchar c)"

text \<open>The values are the number of characters before the conversion specifier, and \<open>form\<close>.\<close>

definition scanformat :: "clib \<Rightarrow> lua_State \<Rightarrow> string \<Rightarrow> (nat \<times> string) result" where
  "scanformat C L strfrmt =
     (let p = length (takeWhile (\<lambda>c. c \<noteq> CHR 0x00 \<and> c \<in> set FLAGS) strfrmt) in
      if p \<ge> length FLAGS + 1 then luaL_error C L ''invalid format (repeated flags)'' []
      else
        let p = skip_if is_digit_char strfrmt (skip_if is_digit_char strfrmt p);
            p = (if first_char (drop p strfrmt) = CHR ''.''
                 then skip_if is_digit_char strfrmt (skip_if is_digit_char strfrmt (p + 1)) else p)
        in if is_digit_char (first_char (drop p strfrmt)) then luaL_error C L ''invalid format (width or precision too long)'' []
           else if p + 3 > MAX_FORMAT then Inl MemoryFault
           else Inr (p, c_str (CHR ''%'' # take p strfrmt @ [first_char (drop p strfrmt)])))"

definition addintlen :: "string \<Rightarrow> string result" where
  "addintlen form =
     (if form = [] \<or> length form + length LUA_INTFRMLEN + 1 > MAX_FORMAT then Inl MemoryFault
      else Inr (butlast form @ LUA_INTFRMLEN @ [last form]))"

text \<open>
  The cast to \<open>unsigned long\<close>: of a value that does not fit it is undefined, and the model uses what the conversion
  instruction of x86-64 gives.
\<close>

definition number2ulong :: "lua_Number \<Rightarrow> int" where
  "number2ulong n =
     (if dbl_exp n \<noteq> 2047 \<and> \<not> dbl_sign n \<and> dbl_trunc_mag n < 2 ^ 64 then int (dbl_trunc_mag n)
      else lua_number2integer n mod 2 ^ 64)"

text \<open>The formatted item in \<open>buff\<close>, up to its first zero.\<close>

definition item_text :: "string \<Rightarrow> string result" where
  "item_text s = (if length s + 1 > MAX_ITEM then Inl MemoryFault else Inr (c_str s))"

definition format_item :: "cprintf \<Rightarrow> clib \<Rightarrow> lua_State \<Rightarrow> string \<Rightarrow> char \<Rightarrow> int \<Rightarrow> (string \<times> lua_State) result" where
  "format_item P C L form c arg =
     (if c = CHR ''c'' then
        bind_result (luaL_checknumber C L arg) (\<lambda>x.
        bind_result (item_text (P form (ArgD (lua_number2int x)))) (\<lambda>s. Inr (s, L)))
      else if c = CHR ''d'' \<or> c = CHR ''i'' then
        bind_result (addintlen form) (\<lambda>form.
        bind_result (luaL_checknumber C L arg) (\<lambda>x.
        bind_result (item_text (P form (ArgD (lua_number2integer x)))) (\<lambda>s. Inr (s, L))))
      else if c = CHR ''o'' \<or> c = CHR ''u'' \<or> c = CHR ''x'' \<or> c = CHR ''X'' then
        bind_result (addintlen form) (\<lambda>form.
        bind_result (luaL_checknumber C L arg) (\<lambda>x.
        bind_result (item_text (P form (ArgD (number2ulong x)))) (\<lambda>s. Inr (s, L))))
      else if c = CHR ''e'' \<or> c = CHR ''E'' \<or> c = CHR ''f'' \<or> c = CHR ''g'' \<or> c = CHR ''G'' then
        bind_result (luaL_checknumber C L arg) (\<lambda>x.
        bind_result (item_text (P form (ArgF x))) (\<lambda>s. Inr (s, L)))
      else if c = CHR ''q'' then addquoted C L arg
      else if c = CHR ''s'' then
        bind_result (luaL_checklstring C L arg) (\<lambda>(s, L).
          if CHR ''.'' \<notin> set form \<and> length s \<ge> 100 then Inr (s, L)
          else bind_result (item_text (P form (ArgS (Some (c_str s))))) (\<lambda>s. Inr (s, L)))
      else luaL_error C L (''invalid option '' @ LUA_QL ''%%%c'' @ '' to '' @ LUA_QL ''format'') [ArgC c])"

text \<open>The loop of \<open>str_format\<close>: \<open>strfrmt\<close> is what is left of the format, \<open>arg\<close> the last argument used.\<close>

function format_loop :: "cprintf \<Rightarrow> clib \<Rightarrow> lua_State \<Rightarrow> string \<Rightarrow> int \<Rightarrow> string result" where
  "format_loop P C L [] arg = Inr []"
| "format_loop P C L (x # strfrmt) arg =
     (if x \<noteq> L_ESC then bind_result (format_loop P C L strfrmt arg) (\<lambda>s. Inr (x # s))
      else if first_char strfrmt = L_ESC then
        bind_result (format_loop P C L (tl strfrmt) arg) (\<lambda>s. Inr (L_ESC # s))
      else
        bind_result (scanformat C L strfrmt) (\<lambda>(p, form).
        bind_result (format_item P C L form (first_char (drop p strfrmt)) (arg + 1)) (\<lambda>(s, L).
        bind_result (format_loop P C L (drop (p + 1) strfrmt) (arg + 1)) (\<lambda>s'. Inr (s @ s')))))"
  by pat_completeness auto
termination by (relation "measure (\<lambda>(P, C, L, s, arg). length s)") auto

definition str_format :: "cprintf \<Rightarrow> clib \<Rightarrow> lua_State \<Rightarrow> TValue list result" where
  "str_format P C L =
     bind_result (luaL_checklstring C L 1) (\<lambda>(strfrmt, L). bind_result (format_loop P C L strfrmt 1) results1)"

section \<open>Bounds\<close>

text \<open>The longest format \<open>scanformat\<close> lets through fits \<open>form\<close>, with the length modifier too.\<close>

lemma skip_if_bounds: "skip_if Q s p \<le> p + 1" "p \<le> skip_if Q s p"
  by (simp_all add: skip_if_def)

lemma scanformat_no_fault: "scanformat C L strfrmt \<noteq> Inl MemoryFault \<or> luaL_where C L = Inl MemoryFault"
proof -
  have e: "luaL_error C L msg [] = Inl MemoryFault \<longrightarrow> luaL_where C L = Inl MemoryFault"
    if "luaO_pushvfstring C msg [] = Inr msg" for msg
    using that by (cases "luaL_where C L") (simp_all add: luaL_error_def)
  let ?p = "length (takeWhile (\<lambda>c. c \<noteq> CHR 0x00 \<and> c \<in> set FLAGS) strfrmt)"
  have b: "skip_if Q s (skip_if R s q) \<le> q + 2" for Q R s q
    using skip_if_bounds(1) [of Q s "skip_if R s q"] skip_if_bounds(1) [of R s q] by linarith
  show ?thesis
    using b [of is_digit_char strfrmt is_digit_char ?p]
      b [of is_digit_char strfrmt is_digit_char "skip_if is_digit_char strfrmt (skip_if is_digit_char strfrmt ?p) + 1"]
      e [of "''invalid format (repeated flags)''"] e [of "''invalid format (width or precision too long)''"]
    by (auto simp: scanformat_def Let_def MAX_FORMAT_def FLAGS_def LUA_INTFRMLEN_def)
qed

lemma scanformat_form:
  assumes "scanformat C L strfrmt = Inr (p, form)"
  shows "form \<noteq> [] \<and> length form \<le> 12 \<and> addintlen form \<noteq> Inl MemoryFault"
proof -
  have l: "length (c_str s) \<le> length s" for s by (simp add: c_str_def length_takeWhile_le)
  let ?p = "length (takeWhile (\<lambda>c. c \<noteq> CHR 0x00 \<and> c \<in> set FLAGS) strfrmt)"
  have b: "skip_if Q s (skip_if R s q) \<le> q + 2" for Q R s q
    using skip_if_bounds(1) [of Q s "skip_if R s q"] skip_if_bounds(1) [of R s q] by linarith
  have "p \<le> 10"
    using b [of is_digit_char strfrmt is_digit_char ?p] assms
      b [of is_digit_char strfrmt is_digit_char "skip_if is_digit_char strfrmt (skip_if is_digit_char strfrmt ?p) + 1"]
    by (auto simp: scanformat_def Let_def MAX_FORMAT_def FLAGS_def LUA_INTFRMLEN_def luaL_error_def bind_result_Inr_conv split: if_splits)
  moreover have "form = c_str (CHR ''%'' # take p strfrmt @ [first_char (drop p strfrmt)])"
    using assms by (auto simp: scanformat_def Let_def luaL_error_def bind_result_Inr_conv split: if_splits)
  moreover have "length (c_str (CHR ''%'' # take p strfrmt @ [first_char (drop p strfrmt)])) \<le> p + 2"
    using l [of "CHR ''%'' # take p strfrmt @ [first_char (drop p strfrmt)]"] by simp
  ultimately have "length form \<le> 12" "form \<noteq> []" by (simp, simp add: c_str_def)
  then show ?thesis by (simp add: addintlen_def MAX_FORMAT_def FLAGS_def LUA_INTFRMLEN_def)
qed

end
