(* ===== verification/Lstrquote.thy ===== *)
theory Lstrquote
  imports Lstrformat Llex Ldump
begin

text \<open>
  What \<open>string.format\<close> quotes with \<open>%q\<close> the lexer reads back: the characters of any string, zeros, newlines and
  carriage returns included, through a reader that gives its bytes in blocks of any size.
\<close>

section \<open>The lexer on a known text\<close>

text \<open>The current character and what is left of the stream are \<open>bs\<close>.\<close>

definition lex_at :: "'d compile_env \<Rightarrow> 'd LexState \<Rightarrow> lu_byte list \<Rightarrow> bool" where
  "lex_at E ls bs \<longleftrightarrow> current ls = (if bs = [] then EOZ else char2int (hd bs)) \<and> (bs \<noteq> [] \<longrightarrow> zcontent (ce_reader E) (zin ls) (tl bs))"

lemma zgetc_content:
  assumes "zcontent rd z bs"
  shows "\<exists>z'. zgetc rd z = Inr (if bs = [] then EOZ else char2int (hd bs), z') \<and> (bs \<noteq> [] \<longrightarrow> zcontent rd z' (tl bs))"
proof -
  obtain rest where r: "unat (z_n z) = length (z_p z)" "bs = z_p z @ rest" "supplies rd (z_data z) rest"
    using assms by (auto simp: zcontent_def)
  show ?thesis
  proof (cases "z_p z")
    case (Cons c cs)
    then have "0 < z_n z" using r(1) by (simp add: word_less_nat_alt)
    moreover have "unat (z_n z - 1) = length cs" using unat_diff_of_nat [of 1 "z_n z"] r(1) Cons by simp
    ultimately show ?thesis using r Cons by (auto simp: zgetc_def zcontent_def)
  next
    case Nil
    then have n0: "z_n z = 0" using r(1) by (simp add: unat_eq_zero)
    from r(3) show ?thesis
    proof cases
      case (supplies_end buff d')
      with n0 r(2) Nil show ?thesis by (auto simp: zgetc_def luaZ_fill_def)
    next
      case (supplies_block b d' bs')
      obtain c cs where b: "b = c # cs" using supplies_block(3) by (cases b) auto
      have "unat (word_of_nat (length (c # cs)) :: 64 word) = length (c # cs)"
        by (rule unat_length) (use supplies_block(4) b in simp)
      then have "unat (word_of_nat (length (c # cs)) - 1 :: 64 word) = length cs"
        using unat_diff_of_nat [of 1 "word_of_nat (length (c # cs))"] by simp
      then show ?thesis using n0 r(2) Nil supplies_block b by (auto simp: zgetc_def luaZ_fill_def zcontent_def)
    qed
  qed
qed

lemma next_char_at:
  assumes "lex_at E ls (b # bs)"
  shows "\<exists>z. next_char E ls = Inr (ls\<lparr>current := (if bs = [] then EOZ else char2int (hd bs)), zin := z\<rparr>) \<and>
    lex_at E (ls\<lparr>current := (if bs = [] then EOZ else char2int (hd bs)), zin := z\<rparr>) bs"
  using zgetc_content [of "ce_reader E" "zin ls" bs] assms by (auto simp: lex_at_def next_char_def)
section \<open>Characters and the buffer\<close>

lemma char2int_char_byte [simp]: "char2int (char_byte c) = ch c"
proof -
  have "char_of (unat (char_byte c)) = c" using byte_char_byte [of c] by (simp add: byte_char_def)
  then have "(of_char c :: nat) = unat (char_byte c) mod 256" by (metis of_char_of)
  then show ?thesis using unat_less_8 [of "char_byte c"] by (simp add: char2int_def)
qed

definition holds :: "'d LexState \<Rightarrow> string \<Rightarrow> bool" where
  "holds ls s \<longleftrightarrow> mb_buffer (buff ls) = s \<and> mb_n (buff ls) = length s \<and> length s \<le> mb_buffsize (buff ls) \<and> 0 < mb_buffsize (buff ls)"

text \<open>The lexer before the bytes \<open>bs\<close>, with \<open>s\<close> in the buffer, in line \<open>l\<close>.\<close>

definition lexing :: "'d compile_env \<Rightarrow> FuncState list \<Rightarrow> lu_byte list \<Rightarrow> string \<Rightarrow> int \<Rightarrow> 'd LexState \<Rightarrow> bool" where
  "lexing E f bs s l ls \<longleftrightarrow> lex_at E ls bs \<and> holds ls s \<and> linenumber ls = l \<and> ls_fs ls = f"

lemma lexing_current: "lexing E f (char_byte c # bs) s l ls \<Longrightarrow> current ls = ch c"
  by (simp add: lexing_def lex_at_def)

lemma lexing_next: "lexing E f (b # bs) s l ls \<Longrightarrow> \<exists>ls'. next_char E ls = Inr ls' \<and> lexing E f bs s l ls'"
  using next_char_at [of E ls b bs] by (fastforce simp: lexing_def holds_def)

lemma lexing_save:
  assumes "lexing E f bs s l ls" "length s < MAX_SIZET div 2"
  shows "\<exists>ls'. save E ls c = Inr ls' \<and> lexing E f bs (s @ [char_of (nat (c mod 256))]) l ls'"
proof (cases "mb_n (buff ls) + 1 > mb_buffsize (buff ls)")
  case True
  then have "mb_buffsize (buff ls) < MAX_SIZET div 2" "mb_n (buff ls) < 2 * mb_buffsize (buff ls)"
    using assms by (auto simp: lexing_def holds_def)
  then show ?thesis using True assms(1) by (auto simp: save_def Let_def lexing_def holds_def lex_at_def luaZ_resizebuffer_def)
next
  case False
  then show ?thesis using assms by (auto simp: save_def Let_def lexing_def holds_def lex_at_def)
qed

lemma lexing_save_next:
  assumes "lexing E f (char_byte c # bs) s l ls" "length s < MAX_SIZET div 2"
  shows "\<exists>ls'. save_and_next E ls = Inr ls' \<and> lexing E f bs (s @ [c]) l ls'"
proof -
  have c: "char_of (nat (current ls mod 256)) = c"
    using lexing_current [OF assms(1)] by (simp add: nat_mod_distrib)
  obtain ls1 where "save E ls (current ls) = Inr ls1" "lexing E f (char_byte c # bs) (s @ [c]) l ls1"
    using lexing_save [OF assms, of "current ls"] c by auto
  then show ?thesis using lexing_next [of E f "char_byte c" bs "s @ [c]" l ls1] by (auto simp: save_and_next_def)
qed
section \<open>Reading a quoted string\<close>

lemma lexing_newline:
  assumes "lexing E f (char_byte (CHR 0x0A) # char_byte d # bs) s l ls" "d \<noteq> CHR 0x0D" "l + 1 < int MAX_INT"
  shows "\<exists>ls'. inclinenumber E ls = Inr ls' \<and> lexing E f (char_byte d # bs) s (l + 1) ls'"
proof -
  obtain ls1 where ls1: "next_char E ls = Inr ls1" "lexing E f (char_byte d # bs) s l ls1"
    using lexing_next [OF assms(1)] by blast
  have d: "uchar d \<noteq> (13 :: nat)" using assms(2) of_char_eq_iff [of d "CHR 0x0D", where 'a = nat] by simp
  have c: "current ls = 10" using lexing_current [OF assms(1)] by simp
  have "(currIsNewline ls1 \<and> current ls1 \<noteq> 10) = False"
    using lexing_current [OF ls1(2)] d by (simp add: currIsNewline_def)
  then have "inclinenumber E ls = Inr (ls1\<lparr>linenumber := l + 1\<rparr>)"
    using ls1 assms(3) c by (simp only: inclinenumber_def Let_def bind_result_simps if_False) (simp add: lexing_def)
  then show ?thesis using ls1(2) by (auto simp: lexing_def lex_at_def holds_def)
qed

definition newlines :: "string \<Rightarrow> int" where
  "newlines s = int (length (filter (\<lambda>c. c = CHR 0x0A) s))"

text \<open>One character of the string: a plain one, an escape, or a zero in three digits.\<close>

lemma read_zero_escape:
  assumes "lexing E f (map char_byte (CHR 0x5C # ''000'') @ bs) s l ls" "length s < MAX_SIZET div 2"
  shows "\<exists>ls'. read_escape E ls = Inr ls' \<and> lexing E f bs (s @ [CHR 0x00]) l ls'"
proof -
  obtain a where a: "next_char E ls = Inr a" "lexing E f (map char_byte ''000'' @ bs) s l a"
    using lexing_next [of E f "char_byte (CHR 0x5C)" "map char_byte ''000'' @ bs" s l] assms(1) by auto
  obtain b where b: "next_char E a = Inr b" "lexing E f (map char_byte ''00'' @ bs) s l b"
    using lexing_next [of E f "char_byte (CHR ''0'')" "map char_byte ''00'' @ bs" s l] a(2) by auto
  obtain c where c: "next_char E b = Inr c" "lexing E f (map char_byte ''0'' @ bs) s l c"
    using lexing_next [of E f "char_byte (CHR ''0'')" "map char_byte ''0'' @ bs" s l] b(2) by auto
  obtain d where d: "next_char E c = Inr d" "lexing E f bs s l d"
    using lexing_next [of E f "char_byte (CHR ''0'')" "bs" s l] c(2) by auto
  have cur: "current a = 48" "current b = 48" "current c = 48"
    using lexing_current [of E f "CHR ''0''" _ s l] a(2) b(2) c(2) by force+
  have "decimal_escape 3 E a 0 = Inr (0, d)"
    using cur b(1) c(1) d(1) by (simp add: numeral_3_eq_3 Let_def on_char_def isdigit_def split: if_splits)
  moreover obtain e where "save E d 0 = Inr e" "lexing E f bs (s @ [char_of (nat (0 mod 256))]) l e"
    using lexing_save [OF d(2) assms(2), of 0] by auto
  moreover have "char_of (nat (0 mod 256)) = CHR 0x00" by (simp add: char_of_def)
  ultimately show ?thesis
    using a(1) cur by (simp add: read_escape_def simple_escape_def currIsNewline_def EOZ_def on_char_def isdigit_def)
qed
lemma char_codes:
  "uchar c = (34 :: nat) \<longleftrightarrow> c = CHR 0x22" "uchar c = (92 :: nat) \<longleftrightarrow> c = CHR 0x5C" "uchar c = (10 :: nat) \<longleftrightarrow> c = CHR 0x0A"
  "uchar c = (13 :: nat) \<longleftrightarrow> c = CHR 0x0D"
  using of_char_eq_iff [of c "CHR 0x22", where 'a = nat] of_char_eq_iff [of c "CHR 0x5C", where 'a = nat]
    of_char_eq_iff [of c "CHR 0x0A", where 'a = nat] of_char_eq_iff [of c "CHR 0x0D", where 'a = nat] by simp_all

lemma loop_step:
  assumes "current ls \<noteq> 34" "current ls \<noteq> EOZ" "\<not> currIsNewline ls"
    and "(if current ls = 92 then read_escape E ls else save_and_next E ls) = Inr ls'"
  shows "string_loop (Suc n) E 34 ls = string_loop n E 34 ls'"
  using assms by auto

lemma escape_char:
  assumes "lexing E f (char_byte (CHR 0x5C) # char_byte c # bs) s l ls" "length s < MAX_SIZET div 2"
    and "c = CHR 0x22 \<or> c = CHR 0x5C"
  shows "\<exists>ls'. read_escape E ls = Inr ls' \<and> lexing E f bs (s @ [c]) l ls'"
proof -
  obtain a where a: "next_char E ls = Inr a" "lexing E f (char_byte c # bs) s l a"
    using lexing_next [OF assms(1)] by blast
  have "current a = 34 \<or> current a = 92" using lexing_current [OF a(2)] assms(3) by auto
  then have "read_escape E ls = save_and_next E a"
    using a(1) by (auto simp: read_escape_def simple_escape_def currIsNewline_def EOZ_def on_char_def isdigit_def)
  then show ?thesis using lexing_save_next [OF a(2) assms(2)] by simp
qed

lemma escape_newline:
  assumes "lexing E f (char_byte (CHR 0x5C) # char_byte (CHR 0x0A) # char_byte d # bs) s l ls" "length s < MAX_SIZET div 2"
    and "d \<noteq> CHR 0x0D" "l + 1 < int MAX_INT"
  shows "\<exists>ls'. read_escape E ls = Inr ls' \<and> lexing E f (char_byte d # bs) (s @ [CHR 0x0A]) (l + 1) ls'"
proof -
  obtain a where a: "next_char E ls = Inr a" "lexing E f (char_byte (CHR 0x0A) # char_byte d # bs) s l a"
    using lexing_next [OF assms(1)] by blast
  obtain b where b: "save E a 10 = Inr b" "lexing E f (char_byte (CHR 0x0A) # char_byte d # bs) (s @ [char_of (nat (10 mod 256))]) l b"
    using lexing_save [OF a(2) assms(2), of 10] by blast
  have "current a = 10" using lexing_current [OF a(2)] by simp
  moreover have "char_of (nat (10 mod 256)) = CHR 0x0A" by code_simp
  ultimately show ?thesis
    using a(1) b lexing_newline [OF _ assms(3,4)] by (simp add: read_escape_def simple_escape_def currIsNewline_def)
qed

lemma escape_return:
  assumes "lexing E f (char_byte (CHR 0x5C) # char_byte (CHR ''r'') # bs) s l ls" "length s < MAX_SIZET div 2"
  shows "\<exists>ls'. read_escape E ls = Inr ls' \<and> lexing E f bs (s @ [CHR 0x0D]) l ls'"
proof -
  obtain a where a: "next_char E ls = Inr a" "lexing E f (char_byte (CHR ''r'') # bs) s l a"
    using lexing_next [OF assms(1)] by blast
  obtain b where b: "save E a 13 = Inr b" "lexing E f (char_byte (CHR ''r'') # bs) (s @ [char_of (nat (13 mod 256))]) l b"
    using lexing_save [OF a(2) assms(2), of 13] by blast
  have "current a = 114" using lexing_current [OF a(2)] by simp
  moreover have "char_of (nat (13 mod 256)) = CHR 0x0D" by code_simp
  ultimately show ?thesis
    using a(1) b lexing_next [OF b(2)] by (simp add: read_escape_def simple_escape_def)
qed

lemma read_quoted_char:
  assumes "lexing E f (map char_byte (quote_char c) @ char_byte d # bs) s l ls" "length s < MAX_SIZET div 2"
    and "d \<noteq> CHR 0x0D" "l + newlines [c] < int MAX_INT"
  shows "\<exists>ls'. string_loop (Suc n) E 34 ls = string_loop n E 34 ls' \<and> lexing E f (char_byte d # bs) (s @ [c]) (l + newlines [c]) ls'"
proof -
  have esc: "string_loop (Suc n) E 34 ls = string_loop n E 34 ls'" if "read_escape E ls = Inr ls'" "current ls = 92" for ls'
    using that by (intro loop_step) (simp_all add: EOZ_def currIsNewline_def)
  consider "c = CHR 0x22 \<or> c = CHR 0x5C" | "c = CHR 0x0A" | "c = CHR 0x0D" | "c = CHR 0x00"
    | "c \<noteq> CHR 0x22" "c \<noteq> CHR 0x5C" "c \<noteq> CHR 0x0A" "c \<noteq> CHR 0x0D" "c \<noteq> CHR 0x00" by blast
  then show ?thesis
  proof cases
    case 1
    then have l: "lexing E f (char_byte (CHR 0x5C) # char_byte c # char_byte d # bs) s l ls" "newlines [c] = 0"
      using assms(1) by (auto simp: quote_char_def newlines_def)
    then show ?thesis using escape_char [OF l(1) assms(2) 1] esc lexing_current [OF l(1)] by force
  next
    case 2
    then have l: "lexing E f (char_byte (CHR 0x5C) # char_byte (CHR 0x0A) # char_byte d # bs) s l ls" "newlines [c] = 1"
      using assms(1) by (auto simp: quote_char_def newlines_def)
    then show ?thesis using escape_newline [OF l(1) assms(2,3)] assms(4) esc lexing_current [OF l(1)] 2 by force
  next
    case 3
    then have l: "lexing E f (char_byte (CHR 0x5C) # char_byte (CHR ''r'') # char_byte d # bs) s l ls" "newlines [c] = 0"
      using assms(1) by (auto simp: quote_char_def newlines_def)
    then show ?thesis using escape_return [OF l(1) assms(2)] esc lexing_current [OF l(1)] 3 by force
  next
    case 4
    then have l: "lexing E f (map char_byte (CHR 0x5C # ''000'') @ char_byte d # bs) s l ls" "newlines [c] = 0"
      using assms(1) by (auto simp: quote_char_def newlines_def)
    have "current ls = 92" using lexing_current [of E f "CHR 0x5C" "map char_byte ''000'' @ char_byte d # bs" s l ls] l(1) by simp
    then show ?thesis using read_zero_escape [OF l(1) assms(2)] esc l(2) 4 by force
  next
    case 5
    then have l: "lexing E f (char_byte c # char_byte d # bs) s l ls" "newlines [c] = 0"
      using assms(1) by (auto simp: quote_char_def newlines_def)
    obtain ls' where ls': "save_and_next E ls = Inr ls'" "lexing E f (char_byte d # bs) (s @ [c]) l ls'"
      using lexing_save_next [OF l(1) assms(2)] by blast
    have "uchar c \<noteq> (34 :: nat)" "uchar c \<noteq> (92 :: nat)" "uchar c \<noteq> (10 :: nat)" "uchar c \<noteq> (13 :: nat)"
      using 5 by (simp_all add: char_codes)
    then have "string_loop (Suc n) E 34 ls = string_loop n E 34 ls'"
      using lexing_current [OF l(1)] ls'(1) by (intro loop_step) (simp_all add: EOZ_def currIsNewline_def)
    then show ?thesis using ls'(2) l(2) by auto
  qed
qed
lemma quote_char_first: "\<exists>d ds. quote_char c = d # ds \<and> d \<noteq> CHR 0x0D"
  by (simp add: quote_char_def)

text \<open>The loop over the quoted text, up to its closing quote.\<close>

lemma read_quoted_loop:
  "lexing E f (map char_byte (concat (map quote_char t)) @ char_byte (CHR 0x22) # bs) s l ls \<Longrightarrow>
   length s + length t < MAX_SIZET div 2 \<Longrightarrow> l + newlines t < int MAX_INT \<Longrightarrow> length t < n \<Longrightarrow>
   \<exists>ls'. string_loop n E 34 ls = Inr ls' \<and> lexing E f (char_byte (CHR 0x22) # bs) (s @ t) (l + newlines t) ls'"
proof (induction t arbitrary: s l ls n)
  case Nil
  then obtain m where n: "n = Suc m" by (cases n) auto
  have "current ls = 34" using lexing_current [of E f "CHR 0x22" bs s l ls] Nil(1) by simp
  then show ?case using Nil(1) n by (auto simp: newlines_def)
next
  case (Cons c t)
  then obtain m where n: "n = Suc m" "length t < m" by (cases n) auto
  obtain d ds where d: "map char_byte (concat (map quote_char t)) @ char_byte (CHR 0x22) # bs = char_byte d # ds" "d \<noteq> CHR 0x0D"
    by (cases t) (use quote_char_first [of "hd t"] in auto)
  have nl: "newlines (c # t) = newlines [c] + newlines t" "0 \<le> newlines t" by (simp_all add: newlines_def)
  have "lexing E f (map char_byte (quote_char c) @ char_byte d # ds) s l ls" using Cons.prems(1) d(1) by simp
  from read_quoted_char [OF this _ d(2), of m] obtain ls' where
    ls': "string_loop (Suc m) E 34 ls = string_loop m E 34 ls'" "lexing E f (char_byte d # ds) (s @ [c]) (l + newlines [c]) ls'"
    using Cons.prems(2,3) nl by auto
  have l2: "lexing E f (map char_byte (concat (map quote_char t)) @ char_byte (CHR 0x22) # bs) (s @ [c]) (l + newlines [c]) ls'"
    using ls'(2) d(1) by simp
  have "\<exists>ls''. string_loop m E 34 ls' = Inr ls'' \<and> lexing E f (char_byte (CHR 0x22) # bs) ((s @ [c]) @ t) (l + newlines [c] + newlines t) ls''"
    by (rule Cons.IH [OF l2]) (use Cons.prems(2,3) n(2) nl in auto)
  then show ?case using ls'(1) n(1) nl(1) by (simp add: add.assoc)
qed

text \<open>The token.\<close>

lemma llex_quoted:
  assumes at: "lex_at E ls (map char_byte (quoted s) @ bs)" and buf: "0 < mb_buffsize (buff ls)"
    and len: "length s + 1 < MAX_SIZET div 2" "length s + 1 < n" and lines: "linenumber ls + newlines s < int MAX_INT"
    and f: "ls_fs ls = fs # fss" and h: "wf_table (fs_h fs)" "live_count (fs_h fs) < MAXASIZE"
  shows "\<exists>ls'. llex n E ls si = Inr (TK_STRING, si\<lparr>si_ts := s\<rparr>, ls') \<and> lex_at E ls' bs \<and> linenumber ls' = linenumber ls + newlines s"
proof -
  let ?l = "linenumber ls"
  let ?f = "ls_fs ls"
  define ls0 where "ls0 = luaZ_resetbuffer ls"
  obtain m where n: "n = Suc m" "length s < m" using len(2) by (cases n) auto
  have l0: "lexing E ?f (char_byte (CHR 0x22) # map char_byte (concat (map quote_char s)) @ char_byte (CHR 0x22) # bs) [] ?l ls0"
    using at buf by (simp add: ls0_def lexing_def lex_at_def luaZ_resetbuffer_def holds_def quoted_def)
  have m0: "0 < MAX_SIZET div 2" by (simp add: MAX_SIZET_def)
  obtain ls1 where l1: "save_and_next E ls0 = Inr ls1"
      "lexing E ?f (map char_byte (concat (map quote_char s)) @ char_byte (CHR 0x22) # bs) [CHR 0x22] ?l ls1"
    using lexing_save_next [OF l0] m0 by auto
  obtain ls2 where l2: "string_loop m E 34 ls1 = Inr ls2" "lexing E ?f (char_byte (CHR 0x22) # bs) (CHR 0x22 # s) (?l + newlines s) ls2"
    using read_quoted_loop [OF l1(2), of m] len(1) n(2) lines by auto
  obtain ls3 where l3: "save_and_next E ls2 = Inr ls3" "lexing E ?f bs ((CHR 0x22 # s) @ [CHR 0x22]) (?l + newlines s) ls3"
    using lexing_save_next [OF l2(2)] len(1) by auto
  obtain g h' p where h': "luaH_setstr (fs_L fs) (fs_h fs) s = Inr (g, h', p)" using luaH_setstr_total [OF h] by blast
  have "\<exists>ls4. buffer_string ls3 si 1 = Inr (si\<lparr>si_ts := s\<rparr>, ls4) \<and> lex_at E ls4 bs \<and> linenumber ls4 = ?l + newlines s"
    using l3(2) h' f by (auto simp: buffer_string_def Let_def luaX_newstring_def lexing_def lex_at_def holds_def)
  then obtain ls4 where l4: "buffer_string ls3 si 1 = Inr (si\<lparr>si_ts := s\<rparr>, ls4)" "lex_at E ls4 bs" "linenumber ls4 = ?l + newlines s" by blast
  have "current ls0 = 34" using lexing_current [OF l0] by simp
  moreover have "read_string m E ls0 34 si = Inr (si\<lparr>si_ts := s\<rparr>, ls4)"
    using l1(1) l2(1) l3(1) l4(1) by (simp add: read_string_def)
  ultimately have "llex n E ls si = Inr (TK_STRING, si\<lparr>si_ts := s\<rparr>, ls4)"
    unfolding llex_def n(1) ls0_def [symmetric] by (simp add: Let_def currIsNewline_def)
  then show ?thesis using l4 by blast
qed
section \<open>The round trip\<close>

lemma checklstring_stack:
  "i < length (stk L) \<Longrightarrow> stk L ! i = TStr s \<Longrightarrow> luaL_checklstring C L (int i + 1) = Inr (s, L)"
  using index2adr_abs [of "i + 1" L] by (simp add: luaL_checklstring_def lua_tolstring_def value_at_def add.commute)

lemma str_format_quoted: "stk L = [TStr ''%q'', TStr s] \<Longrightarrow> str_format P C L = Inr [TStr (quoted s)]"
  using checklstring_stack [of 0 L "''%q''" C] checklstring_stack [of 1 L s C]
  by (simp add: str_format_def results1_def scanformat_def Let_def FLAGS_def skip_if_def is_digit_char_def isdigit_def first_char_def
      MAX_FORMAT_def LUA_INTFRMLEN_def c_str_def format_item_def addquoted_def)

text \<open>
  Claim C18. \<open>string.format("%q", s)\<close> gives characters \<open>t\<close>, and wherever \<open>t\<close> stands in a chunk, whatever follows it
  and in whatever blocks the reader hands it out, the lexer reads it as one string token whose value is \<open>s\<close>, every byte
  of it: zeros, newlines, carriage returns, quotes and backslashes. It counts the lines of \<open>s\<close> and stops right behind
  the text.
\<close>

theorem quoted_roundtrip:
  "stk L = [TStr ''%q'', TStr s] \<and> ls_fs ls = fs # fss \<and> wf_table (fs_h fs) \<and> live_count (fs_h fs) < MAXASIZE \<and>
   0 < mb_buffsize (buff ls) \<and> length s + 1 < MAX_SIZET div 2 \<and> length s + 1 < n \<and>
   linenumber ls + newlines s < int MAX_INT \<longrightarrow>
   (\<exists>t. str_format P C L = Inr [TStr t] \<and>
     (lex_at E ls (map char_byte t @ bs) \<longrightarrow>
       (\<exists>ls'. llex n E ls si = Inr (TK_STRING, si\<lparr>si_ts := s\<rparr>, ls') \<and> lex_at E ls' bs \<and> linenumber ls' = linenumber ls + newlines s)))"
  using str_format_quoted [of L s P C] llex_quoted [of E ls s bs n fs fss si] by blast

text \<open>The string of a newline, a zero and a digit, read back in blocks of four and six bytes.\<close>

definition ex_fs :: FuncState where
  "ex_fs = \<lparr>f_k = [], f_code = [], f_p = [], f_lineinfo = [], f_locvars = [], f_upvalues = [],
     f_source = ''=x'', f_linedefined = 0, f_lastlinedefined = 0, f_numparams = 0, f_is_vararg = 0, f_maxstacksize = 2,
     fs_h = sample_table, fs_L = \<lparr>marked = (\<lambda>_. 1), grayagain = []\<rparr>, fs_bl = [], fs_lasttarget = - 1, fs_jpc = - 1, fs_freereg = 0,
     fs_nactvar = 0, fs_upvalues = [], fs_actvar = []\<rparr>"

definition ex_compile_env :: "lu_byte list list compile_env" where
  "ex_compile_env = \<lparr>ce_reader = block_reader,
     ce_clib = \<lparr>c_strtod = (\<lambda>s. (0, 0)), c_strtoul16 = (\<lambda>s. (0, 0)), c_number2str = (\<lambda>n. ''0''),
       c_pointer2str = (\<lambda>p. ''0x0''), c_pow = (\<lambda>a b. a)\<rparr>,
     ce_decimal_point = CHR ''.'', ce_alloc = (\<lambda>n. 8 * word_of_nat (n + 1))\<rparr>"

definition ex_value :: string where "ex_value = [CHR 0x0A, CHR 0x00, CHR ''1'']"

definition ex_lex :: "lu_byte list list LexState" where
  "ex_lex = \<lparr>current = 34, linenumber = 1, lastline = 1, tok = \<lparr>tk_token = 0, seminfo = \<lparr>si_r = 0, si_ts = []\<rparr>\<rparr>,
     ahead = \<lparr>tk_token = TK_EOS, seminfo = \<lparr>si_r = 0, si_ts = []\<rparr>\<rparr>, ls_fs = [ex_fs], ls_nCcalls = 0, ls_tables = 0,
     zin = luaZ_init [map char_byte [CHR 0x5C, CHR 0x0A, CHR 0x5C, CHR ''0''], map char_byte (''001'' @ [CHR 0x22] @ '' ;'')],
     buff = \<lparr>mb_buffer = [], mb_n = 0, mb_buffsize = 32\<rparr>, source = ''=x'', decpoint = CHR ''.''\<rparr>"

lemma ex_lex_at: "lex_at ex_compile_env ex_lex (map char_byte (quoted ex_value) @ map char_byte '' ;'')"
proof -
  have q: "quoted ex_value = CHR 0x22 # [CHR 0x5C, CHR 0x0A, CHR 0x5C, CHR ''0''] @ ''001'' @ [CHR 0x22]"
    by (simp add: quoted_def ex_value_def quote_char_def)
  let ?b = "[map char_byte [CHR 0x5C, CHR 0x0A, CHR 0x5C, CHR ''0''], map char_byte (''001'' @ [CHR 0x22] @ '' ;'')]"
  have "zcontent block_reader (luaZ_init ?b) (concat ?b)"
    by (rule zcontent_init, rule block_reader_supplies) simp
  then show ?thesis unfolding q by (simp add: lex_at_def ex_compile_env_def ex_lex_def)
qed

theorem quoted_roundtrip_witness:
  "\<exists>ls'. llex 5 ex_compile_env ex_lex \<lparr>si_r = 0, si_ts = []\<rparr> = Inr (TK_STRING, \<lparr>si_r = 0, si_ts = ex_value\<rparr>, ls') \<and> linenumber ls' = 2 \<and>
     current ls' = 32"
proof -
  let ?L = "sample_state\<lparr>stk := [TStr ''%q'', TStr ex_value]\<rparr>" and ?P = "\<lambda>_ _. ''''"
  let ?C = "ce_clib ex_compile_env" and ?si = "\<lparr>si_r = 0, si_ts = []\<rparr>"
  have "live_count sample_table < MAXASIZE"
    by (simp add: live_count_def live_slots_def sample_table_def MAXASIZE_def MAXBITS_def upt_rec)
  then have h: "stk ?L = [TStr ''%q'', TStr ex_value] \<and> ls_fs ex_lex = ex_fs # [] \<and> wf_table (fs_h ex_fs) \<and> live_count (fs_h ex_fs) < MAXASIZE \<and>
     0 < mb_buffsize (buff ex_lex) \<and> length ex_value + 1 < MAX_SIZET div 2 \<and> length ex_value + 1 < 5 \<and>
     linenumber ex_lex + newlines ex_value < int MAX_INT"
    using sample_table_wf by (simp add: ex_lex_def ex_fs_def ex_value_def newlines_def MAX_SIZET_def MAX_INT_def)
  have t: "str_format ?P ?C ?L = Inr [TStr (quoted ex_value)]" by (rule str_format_quoted) simp
  have n: "newlines ex_value = 1" by (simp add: newlines_def ex_value_def)
  from mp [OF quoted_roundtrip [of ?L ex_value ex_lex ex_fs "[]" 5 ?P ?C ex_compile_env "map char_byte '' ;''" ?si] h]
  obtain ls' where "llex 5 ex_compile_env ex_lex ?si = Inr (TK_STRING, ?si\<lparr>si_ts := ex_value\<rparr>, ls')"
      "lex_at ex_compile_env ls' (map char_byte '' ;'')" "linenumber ls' = linenumber ex_lex + newlines ex_value"
    using ex_lex_at t by auto
  then show ?thesis using n by (auto simp: lex_at_def ex_lex_def)
qed

end
