(* ===== verification/Lauxmeta.thy ===== *)
theory Lauxmeta
  imports Ltablib
begin

text \<open>
  The rest of the auxiliary library (lauxlib.c) on the frame of the running function: metafields, typed userdata,
  tables of the registry, registration of libraries and the replacement of substrings, with the functions of
  lapi.c they use. \<open>alloc\<close> gives the address of the next table, \<open>newcl\<close> the address of a C closure for its
  function and upvalues.
\<close>

subsection \<open>Access functions of the C interface\<close>

text \<open>A full userdata points behind its header.\<close>

definition sizeof_Udata :: addr where "sizeof_Udata = 40"

definition lua_touserdata :: "lua_State \<Rightarrow> int \<Rightarrow> addr result" where
  "lua_touserdata L idx =
     bind_result (index_value L idx) (\<lambda>v. Inr (case v of
         TUserdata u \<Rightarrow> u + sizeof_Udata
       | TLightUserdata p \<Rightarrow> p
       | _ \<Rightarrow> 0))"

definition lua_tothread :: "lua_State \<Rightarrow> int \<Rightarrow> addr result" where
  "lua_tothread L idx = bind_result (index_value L idx) (\<lambda>v. Inr (case v of TThread p \<Rightarrow> p | _ \<Rightarrow> 0))"

definition lua_topointer :: "lua_State \<Rightarrow> int \<Rightarrow> addr result" where
  "lua_topointer L idx =
     bind_result (index_value L idx) (\<lambda>v. case v of
         TTable p \<Rightarrow> Inr p
       | TFunction p \<Rightarrow> Inr p
       | TThread p \<Rightarrow> Inr p
       | TUserdata u \<Rightarrow> lua_touserdata L idx
       | TLightUserdata p \<Rightarrow> lua_touserdata L idx
       | _ \<Rightarrow> Inr 0)"

definition lua_pushfstring :: "clib \<Rightarrow> lua_State \<Rightarrow> string \<Rightarrow> vararg list \<Rightarrow> lua_State result" where
  "lua_pushfstring C L fmt args = bind_result (luaO_pushvfstring C fmt args) (\<lambda>s. push L (TStr s))"

definition lua_newuserdata :: "addr \<Rightarrow> lua_State \<Rightarrow> nat \<Rightarrow> lua_State result" where
  "lua_newuserdata u L sz = push (L\<lparr>l_udata := (l_udata L)(u \<mapsto> (sz, None))\<rparr>) (TUserdata u)"

type_synonym 'f closures = "'f \<Rightarrow> TValue list \<Rightarrow> lua_State \<Rightarrow> addr"

definition lua_pushcclosure :: "'f closures \<Rightarrow> lua_State \<Rightarrow> 'f \<Rightarrow> nat \<Rightarrow> lua_State result" where
  "lua_pushcclosure newcl L fn n =
     (let top = length (stk L) in
      if top < n then Inl MemoryFault
      else push (L\<lparr>stk := take (top - n) (stk L)\<rparr>) (TFunction (newcl fn (drop (top - n) (stk L)) L)))"

subsection \<open>Metafields\<close>

definition luaL_getmetafield :: "lua_State \<Rightarrow> int \<Rightarrow> string \<Rightarrow> (bool \<times> lua_State) result" where
  "luaL_getmetafield L obj event =
     bind_result (lua_getmetatable L obj) (\<lambda>(found, L).
       if \<not> found then Inr (False, L)
       else
         bind_result (lua_pushstring L (Some event)) (\<lambda>L.
         bind_result (lua_rawget L (- 2)) (\<lambda>L.
         bind_result (lua_isnil L (- 1)) (\<lambda>isnil.
           if isnil then bind_result (lua_pop L 2) (\<lambda>L. Inr (False, L))
           else bind_result (lua_remove L (- 2)) (\<lambda>L. Inr (True, L))))))"

definition luaL_callmeta :: "lua_State host \<Rightarrow> lua_State \<Rightarrow> int \<Rightarrow> string \<Rightarrow> (bool \<times> lua_State) result" where
  "luaL_callmeta H L obj event =
     (let obj = abs_index L obj in
      bind_result (luaL_getmetafield L obj event) (\<lambda>(found, L).
        if \<not> found then Inr (False, L)
        else bind_result (lua_pushvalue L obj) (\<lambda>L. bind_result (lua_call H L 1 1) (\<lambda>L. Inr (True, L)))))"

definition luaL_newmetatable :: "lua_State host \<Rightarrow> addr \<Rightarrow> lua_State \<Rightarrow> string \<Rightarrow> (bool \<times> lua_State) result" where
  "luaL_newmetatable H fresh L tname =
     bind_result (lua_getfield H L LUA_REGISTRYINDEX tname) (\<lambda>L.
     bind_result (lua_isnil L (- 1)) (\<lambda>isnil.
       if \<not> isnil then Inr (False, L)
       else
         bind_result (lua_pop L 1) (\<lambda>L.
         bind_result (lua_createtable fresh L 0 0) (\<lambda>L.
         bind_result (lua_pushvalue L (- 1)) (\<lambda>L.
         bind_result (lua_setfield H L LUA_REGISTRYINDEX tname) (\<lambda>L. Inr (True, L)))))))"

text \<open>The address of a userdata whose metatable is the one registered under \<open>tname\<close>, or an error.\<close>

definition luaL_checkudata :: "lua_State host \<Rightarrow> lua_State \<Rightarrow> int \<Rightarrow> string \<Rightarrow> (addr \<times> lua_State) result" where
  "luaL_checkudata H L ud tname =
     bind_result (lua_touserdata L ud) (\<lambda>p.
     bind_result
       (if p \<noteq> 0 then
          bind_result (lua_getmetatable L ud) (\<lambda>(found, L).
            if found then
              bind_result (lua_getfield H L LUA_REGISTRYINDEX tname) (\<lambda>L.
              bind_result (lua_rawequal L (- 1) (- 2)) (\<lambda>same. Inr (same, L)))
            else Inr (False, L))
        else Inr (False, L)) (\<lambda>(same, L).
     if same then bind_result (lua_pop L 2) (\<lambda>L. Inr (p, L)) else luaL_typerror (h_clib H) L ud tname))"

subsection \<open>Tables by name\<close>

text \<open>
  The name of a field ends at the next dot. The value is \<open>NULL\<close> when every field of the path is a table, which is then on the
  top, or the part of the name that leads to another value.
\<close>

definition path_head :: "string \<Rightarrow> string" where "path_head fname = takeWhile (\<lambda>c. c \<noteq> CHR ''.'') fname"

function findtable_loop :: "lua_State host \<Rightarrow> (lua_State \<Rightarrow> addr) \<Rightarrow> lua_State \<Rightarrow> string \<Rightarrow> nat \<Rightarrow> (string option \<times> lua_State) result" where
  "findtable_loop H alloc L fname szhint =
     (let field = path_head fname; e = drop (length field) fname in
      bind_result (lua_pushlstring L field) (\<lambda>L.
      bind_result (lua_rawget L (- 2)) (\<lambda>L.
      bind_result (lua_isnil L (- 1)) (\<lambda>isnil.
      bind_result (lua_type L (- 1)) (\<lambda>t.
      if \<not> isnil \<and> t \<noteq> 5 then bind_result (lua_pop L 2) (\<lambda>L. Inr (Some fname, L))
      else
        bind_result
          (if isnil then
             bind_result (lua_pop L 1) (\<lambda>L.
             bind_result (lua_createtable (alloc L) L 0 (if e \<noteq> [] then 1 else szhint)) (\<lambda>L.
             bind_result (lua_pushlstring L field) (\<lambda>L.
             bind_result (lua_pushvalue L (- 2)) (\<lambda>L. lua_settable H L (- 4)))))
           else Inr L) (\<lambda>L.
        bind_result (lua_remove L (- 2)) (\<lambda>L.
          if e = [] then Inr (None, L) else findtable_loop H alloc L (tl e) szhint)))))))"
  by pat_completeness auto
termination
  by (relation "measure (\<lambda>(H, alloc, L, fname, szhint). length fname)") (auto simp: path_head_def)

declare findtable_loop.simps [simp del]

definition luaL_findtable :: "lua_State host \<Rightarrow> (lua_State \<Rightarrow> addr) \<Rightarrow> lua_State \<Rightarrow> int \<Rightarrow> string \<Rightarrow> nat \<Rightarrow> (string option \<times> lua_State) result" where
  "luaL_findtable H alloc L idx fname szhint =
     bind_result (lua_pushvalue L idx) (\<lambda>L. findtable_loop H alloc L (c_str fname) szhint)"

subsection \<open>Libraries\<close>

type_synonym 'f luaL_Reg = "(string \<times> 'f) list"

fun copy_upvalues :: "nat \<Rightarrow> nat \<Rightarrow> lua_State \<Rightarrow> lua_State result" where
  "copy_upvalues nup 0 L = Inr L"
| "copy_upvalues nup (Suc i) L = bind_result (lua_pushvalue L (- int nup)) (copy_upvalues nup i)"

fun register_loop :: "lua_State host \<Rightarrow> 'f closures \<Rightarrow> nat \<Rightarrow> 'f luaL_Reg \<Rightarrow> lua_State \<Rightarrow> lua_State result" where
  "register_loop H newcl nup [] L = Inr L"
| "register_loop H newcl nup ((name, func) # l) L =
     bind_result (copy_upvalues nup nup L) (\<lambda>L.
     bind_result (lua_pushcclosure newcl L func nup) (\<lambda>L.
     bind_result (lua_setfield H L (- int (nup + 2)) name) (register_loop H newcl nup l)))"

definition find_library :: "lua_State host \<Rightarrow> (lua_State \<Rightarrow> addr) \<Rightarrow> lua_State \<Rightarrow> string \<Rightarrow> nat \<Rightarrow> nat \<Rightarrow> lua_State result" where
  "find_library H alloc L libname sz nup =
     bind_result (luaL_findtable H alloc L LUA_REGISTRYINDEX ''_LOADED'' 1) (\<lambda>(_, L).
     bind_result (lua_getfield H L (- 1) libname) (\<lambda>L.
     bind_result (lua_type L (- 1)) (\<lambda>t.
     bind_result
       (if t \<noteq> 5 then
          bind_result (lua_pop L 1) (\<lambda>L.
          bind_result (luaL_findtable H alloc L LUA_GLOBALSINDEX libname sz) (\<lambda>(conflict, L).
            if conflict \<noteq> None then luaL_error (h_clib H) L (''name conflict for module '' @ LUA_QL ''%s'') [ArgS (Some libname)]
            else bind_result (lua_pushvalue L (- 1)) (\<lambda>L. lua_setfield H L (- 3) libname)))
        else Inr L) (\<lambda>L.
     bind_result (lua_remove L (- 2)) (\<lambda>L. lua_insert L (- int (nup + 1)))))))"

definition luaI_openlib :: "lua_State host \<Rightarrow> (lua_State \<Rightarrow> addr) \<Rightarrow> 'f closures \<Rightarrow> lua_State \<Rightarrow> string option \<Rightarrow> 'f luaL_Reg \<Rightarrow> nat \<Rightarrow> lua_State result" where
  "luaI_openlib H alloc newcl L libname l nup =
     bind_result (case libname of None \<Rightarrow> Inr L | Some name \<Rightarrow> find_library H alloc L name (length l) nup) (\<lambda>L.
     bind_result (register_loop H newcl nup l L) (\<lambda>L. lua_pop L nup))"

definition luaL_register :: "lua_State host \<Rightarrow> (lua_State \<Rightarrow> addr) \<Rightarrow> 'f closures \<Rightarrow> lua_State \<Rightarrow> string option \<Rightarrow> 'f luaL_Reg \<Rightarrow> lua_State result" where
  "luaL_register H alloc newcl L libname l = luaI_openlib H alloc newcl L libname l 0"

subsection \<open>Replacement of a substring\<close>

text \<open>\<open>strstr\<close> of the C library: where the first occurrence of \<open>p\<close> begins.\<close>

definition strstr :: "string \<Rightarrow> string \<Rightarrow> nat option" where
  "strstr s p = find (\<lambda>i. take (length p) (drop i s) = p) [0..<Suc (length s)]"

fun gsub_text :: "nat \<Rightarrow> string \<Rightarrow> string \<Rightarrow> string \<Rightarrow> string result" where
  "gsub_text 0 s p r = Inl Diverges"
| "gsub_text (Suc n) s p r =
     (case strstr s p of
        None \<Rightarrow> Inr s
      | Some i \<Rightarrow> bind_result (gsub_text n (drop (i + length p) s) p r) (\<lambda>t. Inr (take i s @ r @ t)))"

definition luaL_gsub :: "nat \<Rightarrow> lua_State \<Rightarrow> string \<Rightarrow> string \<Rightarrow> string \<Rightarrow> (string \<times> lua_State) result" where
  "luaL_gsub n L s p r =
     bind_result (gsub_text n (c_str s) (c_str p) (c_str r)) (\<lambda>t. bind_result (push L (TStr t)) (\<lambda>L. Inr (t, L)))"
text \<open>Every turn takes the pattern out of the text, so a pattern that is not empty needs no more turns than the text has characters.\<close>

lemma strstr_Some: "strstr s p = Some i \<Longrightarrow> i + length p \<le> length s \<and> take (length p) (drop i s) = p"
proof -
  assume "strstr s p = Some i"
  then have i: "i \<le> length s" "take (length p) (drop i s) = p" by (auto simp: strstr_def find_Some_iff simp del: upt_Suc)
  then have "min (length p) (length s - i) = length p" using length_take [of "length p" "drop i s"] by simp
  then show ?thesis using i by linarith
qed

lemma gsub_text_returns: "p \<noteq> [] \<Longrightarrow> length s < n \<Longrightarrow> \<exists>t. gsub_text n s p r = Inr t"
proof (induction n arbitrary: s)
  case (Suc n)
  show ?case
  proof (cases "strstr s p")
    case (Some i)
    then have "length (drop (i + length p) s) < n" using Suc.prems strstr_Some [OF Some] by (cases p) auto
    then obtain t where "gsub_text n (drop (i + length p) s) p r = Inr t" using Suc by blast
    then show ?thesis using Some by simp
  qed simp
qed simp

end
