(* ===== verification/Lbaselib.thy ===== *)
theory Lbaselib
  imports Lauxmeta
begin

text \<open>
  The basic library, lbaselib.c: the functions that work on the frame of their call. \<open>strtoul\<close> with its
  base and the position information of \<open>luaL_where\<close> at other levels are arguments.
\<close>

subsection \<open>Output\<close>

text \<open>\<open>out\<close> is what has been written; it is there whatever way \<open>print\<close> ends.\<close>

function print_loop :: "lua_State host \<Rightarrow> lua_State \<Rightarrow> int \<Rightarrow> int \<Rightarrow> string \<Rightarrow> string \<times> lua_State result" where
  "print_loop H L n i out =
     (if i \<le> n then
        case bind_result (lua_pushvalue L (- 1)) (\<lambda>L.
             bind_result (lua_pushvalue L i) (\<lambda>L.
             bind_result (lua_call H L 1 1) (\<lambda>L.
             bind_result (lua_tolstring (h_clib H) L (- 1)) (\<lambda>(s, L).
             case s of
               None \<Rightarrow> luaL_error (h_clib H) L (LUA_QL ''tostring'' @ '' must return a string to '' @ LUA_QL ''print'') []
             | Some s \<Rightarrow> bind_result (lua_pop L 1) (\<lambda>L. Inr (c_str s, L)))))) of
          Inl e \<Rightarrow> (out, Inl e)
        | Inr (s, L) \<Rightarrow> print_loop H L n (i + 1) (out @ (if i > 1 then [CHR 0x09] else []) @ s)
      else (out @ [CHR 0x0A], Inr L))"
  by pat_completeness auto
termination by (relation "measure (\<lambda>(H, L, n, i, out). nat (n + 1 - i))") auto

declare print_loop.simps [simp del]

definition luaB_print :: "lua_State host \<Rightarrow> lua_State \<Rightarrow> string \<times> lib_result" where
  "luaB_print H L =
     (let n = lua_gettop L in
      case lua_getfield H L LUA_GLOBALSINDEX ''tostring'' of
        Inl e \<Rightarrow> ('''', Inl e)
      | Inr L \<Rightarrow> (case print_loop H L n 1 '''' of (out, r) \<Rightarrow> (out, bind_result r (results 0))))"

subsection \<open>Numbers\<close>

text \<open>\<open>strtoul s base\<close> gives the value and the number of characters used.\<close>

definition luaB_tonumber :: "(string \<Rightarrow> int \<Rightarrow> nat \<times> nat) \<Rightarrow> clib \<Rightarrow> lua_State \<Rightarrow> lib_result" where
  "luaB_tonumber strtoul C L =
     bind_result (luaL_optint C L 2 10) (\<lambda>base.
     bind_result
       (if base = 10 then
          bind_result (luaL_checkany C L 1) (\<lambda>_.
          bind_result (lua_isnumber C L 1) (\<lambda>isnum.
            if isnum then bind_result (lua_tonumber C L 1) (\<lambda>n. Inr (Some n, L)) else Inr (None, L)))
        else
          bind_result (luaL_checklstring C L 1) (\<lambda>(s1, L).
            if \<not> (2 \<le> base \<and> base \<le> 36) then luaL_argerror C L 2 ''base out of range''
            else let s1 = c_str s1; (n, s2) = strtoul s1 base in
              if s2 = 0 then Inr (None, L)
              else
                bind_result (skip_blanks s1 s2) (\<lambda>s2.
                bind_result (cchar s1 s2) (\<lambda>c.
                  Inr (if c = CHR 0x00 then Some (integer2number (int n)) else None, L))))) (\<lambda>(r, L).
     case r of
       Some n \<Rightarrow> bind_result (lua_pushnumber L n) (results 1)
     | None \<Rightarrow> bind_result (lua_pushnil L) (results 1)))"

subsection \<open>Errors\<close>

text \<open>The value thrown. \<open>where_at level\<close> is the text \<open>luaL_where\<close> pushes.\<close>

definition luaB_error :: "lua_State host \<Rightarrow> (int \<Rightarrow> string) \<Rightarrow> lua_State \<Rightarrow> TValue result" where
  "luaB_error H where_at L =
     bind_result (luaL_optint (h_clib H) L 2 1) (\<lambda>level.
     bind_result (lua_settop L 1) (\<lambda>L.
     bind_result (lua_isstring L 1) (\<lambda>isstr.
     bind_result
       (if isstr \<and> level > 0 then
          bind_result (push L (TStr (where_at level))) (\<lambda>L.
          bind_result (lua_pushvalue L 1) (\<lambda>L. lua_concat H L 2))
        else Inr L) stack_top)))"

definition luaB_assert :: "clib \<Rightarrow> lua_State \<Rightarrow> lib_result" where
  "luaB_assert C L =
     bind_result (luaL_checkany C L 1) (\<lambda>_.
     bind_result (lua_toboolean L 1) (\<lambda>b.
       if \<not> b then
         bind_result (luaL_optlstring C L 2 (Some ''assertion failed!'')) (\<lambda>(msg, L). luaL_error C L ''%s'' [ArgS msg])
       else results (nat (lua_gettop L)) L))"

subsection \<open>Metatables\<close>

definition luaB_getmetatable :: "clib \<Rightarrow> lua_State \<Rightarrow> lib_result" where
  "luaB_getmetatable C L =
     bind_result (luaL_checkany C L 1) (\<lambda>_.
     bind_result (lua_getmetatable L 1) (\<lambda>(found, L).
       if \<not> found then bind_result (lua_pushnil L) (results 1)
       else bind_result (luaL_getmetafield L 1 ''__metatable'') (\<lambda>(_, L). results 1 L)))"

definition luaB_setmetatable :: "(addr \<Rightarrow> TValue \<Rightarrow> lua_State \<Rightarrow> lua_State) \<Rightarrow> clib \<Rightarrow> lua_State \<Rightarrow> lib_result" where
  "luaB_setmetatable barrierf C L =
     bind_result (lua_type L 2) (\<lambda>t.
     bind_result (luaL_checktype C L 1 5) (\<lambda>_.
       if \<not> (t = 0 \<or> t = 5) then luaL_argerror C L 2 ''nil or table expected''
       else
         bind_result (luaL_getmetafield L 1 ''__metatable'') (\<lambda>(protected, L).
           if protected then luaL_error C L ''cannot change a protected metatable'' []
           else
             bind_result (lua_settop L 2) (\<lambda>L.
             bind_result (lua_setmetatable barrierf L 1) (results 1)))))"

subsection \<open>Raw access\<close>

definition luaB_rawequal :: "clib \<Rightarrow> lua_State \<Rightarrow> lib_result" where
  "luaB_rawequal C L =
     bind_result (luaL_checkany C L 1) (\<lambda>_.
     bind_result (luaL_checkany C L 2) (\<lambda>_.
     bind_result (lua_rawequal L 1 2) (\<lambda>b.
     bind_result (lua_pushboolean L (of_bool b)) (results 1))))"

definition luaB_rawget :: "clib \<Rightarrow> lua_State \<Rightarrow> lib_result" where
  "luaB_rawget C L =
     bind_result (luaL_checktype C L 1 5) (\<lambda>_.
     bind_result (luaL_checkany C L 2) (\<lambda>_.
     bind_result (lua_settop L 2) (\<lambda>L.
     bind_result (lua_rawget L 1) (results 1))))"

definition luaB_rawset :: "clib \<Rightarrow> lua_State \<Rightarrow> lib_result" where
  "luaB_rawset C L =
     bind_result (luaL_checktype C L 1 5) (\<lambda>_.
     bind_result (luaL_checkany C L 2) (\<lambda>_.
     bind_result (luaL_checkany C L 3) (\<lambda>_.
     bind_result (lua_settop L 3) (\<lambda>L.
     bind_result (lua_rawset L 1) (results 1)))))"

subsection \<open>Types\<close>

definition luaB_type :: "clib \<Rightarrow> lua_State \<Rightarrow> lib_result" where
  "luaB_type C L =
     bind_result (luaL_checkany C L 1) (\<lambda>_.
     bind_result (lua_type L 1) (\<lambda>t.
     bind_result (lua_pushstring L (Some (lua_typename t))) (results 1)))"

subsection \<open>Traversals\<close>

definition luaB_next :: "clib \<Rightarrow> lua_State \<Rightarrow> lib_result" where
  "luaB_next C L =
     bind_result (luaL_checktype C L 1 5) (\<lambda>_.
     bind_result (lua_settop L 2) (\<lambda>L.
     bind_result (lua_next L 1) (\<lambda>(more, L).
       if more then results 2 L else bind_result (lua_pushnil L) (results 1))))"

definition luaB_pairs :: "clib \<Rightarrow> lua_State \<Rightarrow> lib_result" where
  "luaB_pairs C L =
     bind_result (luaL_checktype C L 1 5) (\<lambda>_.
     bind_result (lua_pushvalue L (lua_upvalueindex 1)) (\<lambda>L.
     bind_result (lua_pushvalue L 1) (\<lambda>L.
     bind_result (lua_pushnil L) (results 3))))"

text \<open>The next index is a C \<open>int\<close>.\<close>

definition ipairsaux :: "clib \<Rightarrow> lua_State \<Rightarrow> lib_result" where
  "ipairsaux C L =
     bind_result (luaL_checkint C L 2) (\<lambda>i.
     bind_result (luaL_checktype C L 1 5) (\<lambda>_.
     let i = cast_int (i + 1) in
     bind_result (lua_pushinteger L i) (\<lambda>L.
     bind_result (lua_rawgeti L 1 i) (\<lambda>L.
     bind_result (lua_isnil L (- 1)) (\<lambda>isnil. results (if isnil then 0 else 2) L)))))"

definition luaB_ipairs :: "clib \<Rightarrow> lua_State \<Rightarrow> lib_result" where
  "luaB_ipairs C L =
     bind_result (luaL_checktype C L 1 5) (\<lambda>_.
     bind_result (lua_pushvalue L (lua_upvalueindex 1)) (\<lambda>L.
     bind_result (lua_pushvalue L 1) (\<lambda>L.
     bind_result (lua_pushinteger L 0) (results 3))))"

subsection \<open>Loading\<close>

text \<open>The message of a failed load lies on the top.\<close>

definition load_aux :: "lua_State \<Rightarrow> int \<Rightarrow> lib_result" where
  "load_aux L status =
     (if status = 0 then results 1 L
      else bind_result (lua_pushnil L) (\<lambda>L. bind_result (lua_insert L (- 2)) (results 2)))"

text \<open>The reader of \<open>load\<close> keeps the piece it hands out in the third slot.\<close>

definition generic_reader :: "lua_State host \<Rightarrow> lua_State \<Rightarrow> (TString option \<times> lua_State) result" where
  "generic_reader H L =
     bind_result (luaL_checkstack (h_clib H) L 2 ''too many nested functions'') (\<lambda>L.
     bind_result (lua_pushvalue L 1) (\<lambda>L.
     bind_result (lua_call H L 0 1) (\<lambda>L.
     bind_result (lua_isnil L (- 1)) (\<lambda>isnil.
     bind_result (lua_isstring L (- 1)) (\<lambda>isstr.
       if isnil then Inr (None, L)
       else if isstr then bind_result (lua_replace L 3) (\<lambda>L. lua_tolstring (h_clib H) L 3)
       else luaL_error (h_clib H) L ''reader function must return a string'' [])))))"

subsection \<open>Arguments and lists\<close>

text \<open>\<open>unpack\<close> counts its elements in a C \<open>int\<close>; \<open>unpack_loop\<close> pushes those behind the first.\<close>

function unpack_loop :: "lua_State \<Rightarrow> int \<Rightarrow> int \<Rightarrow> lua_State result" where
  "unpack_loop L i e = (if i < e then bind_result (lua_rawgeti L 1 (i + 1)) (\<lambda>L. unpack_loop L (i + 1) e) else Inr L)"
  by pat_completeness auto
termination by (relation "measure (\<lambda>(L, i, e). nat (e - i))") auto

declare unpack_loop.simps [simp del]

definition luaB_unpack :: "clib \<Rightarrow> lua_State \<Rightarrow> lib_result" where
  "luaB_unpack C L =
     bind_result (luaL_checktype C L 1 5) (\<lambda>_.
     bind_result (luaL_optint C L 2 1) (\<lambda>i.
     bind_result (lua_isnoneornil L 3) (\<lambda>none.
     bind_result (if none then luaL_getn C L 1 else bind_result (luaL_checkint C L 3) (\<lambda>e. Inr (e, L))) (\<lambda>(e, L).
       if i > e then results 0 L
       else
         let n = cast_int (e - i + 1) in
         if n \<le> 0 then luaL_error C L ''too many results to unpack'' []
         else case lua_checkstack L n of (ok, L) \<Rightarrow>
           if \<not> ok then luaL_error C L ''too many results to unpack'' []
           else
             bind_result (lua_rawgeti L 1 i) (\<lambda>L.
             bind_result (unpack_loop L i e) (results (nat n)))))))"

definition luaB_select :: "clib \<Rightarrow> lua_State \<Rightarrow> lib_result" where
  "luaB_select C L =
     (let n = lua_gettop L in
      bind_result (lua_type L 1) (\<lambda>t.
      bind_result (if t = 4 then lua_tolstring C L 1 else Inr (None, L)) (\<lambda>(s, L).
      bind_result (case s of None \<Rightarrow> Inr (CHR 0x00) | Some s \<Rightarrow> cchar s 0) (\<lambda>c.
        if t = 4 \<and> c = CHR ''#'' then bind_result (lua_pushinteger L (n - 1)) (results 1)
        else
          bind_result (luaL_checkint C L 1) (\<lambda>i.
          let i = (if i < 0 then n + i else if i > n then n else i) in
            if \<not> 1 \<le> i then luaL_argerror C L 1 ''index out of range''
            else results (nat (n - i)) L)))))"

subsection \<open>Conversion to strings\<close>

definition luaB_tostring :: "lua_State host \<Rightarrow> lua_State \<Rightarrow> lib_result" where
  "luaB_tostring H L =
     (let C = h_clib H in
      bind_result (luaL_checkany C L 1) (\<lambda>_.
      bind_result (luaL_callmeta H L 1 ''__tostring'') (\<lambda>(meta, L).
        if meta then results 1 L
        else
          bind_result (lua_type L 1) (\<lambda>t.
          bind_result
            (if t = 3 then bind_result (lua_tolstring C L 1) (\<lambda>(s, L). lua_pushstring L s)
             else if t = 4 then lua_pushvalue L 1
             else if t = 1 then bind_result (lua_toboolean L 1) (\<lambda>b. lua_pushstring L (Some (if b then ''true'' else ''false'')))
             else if t = 0 then push L (TStr ''nil'')
             else bind_result (lua_topointer L 1) (\<lambda>p.
               lua_pushfstring C L ''%s: %p'' [ArgS (Some (lua_typename t)), ArgP p])) (results 1)))))"

subsection \<open>Proxies\<close>

text \<open>The first upvalue is the weak table of the metatables of proxies; \<open>u\<close> and \<open>m\<close> are the addresses of the new objects.\<close>

definition luaB_newproxy :: "(addr \<Rightarrow> TValue \<Rightarrow> lua_State \<Rightarrow> lua_State) \<Rightarrow> clib \<Rightarrow> addr \<Rightarrow> addr \<Rightarrow> lua_State \<Rightarrow> lib_result" where
  "luaB_newproxy barrierf C u m L =
     bind_result (lua_settop L 1) (\<lambda>L.
     bind_result (lua_newuserdata u L 0) (\<lambda>L.
     bind_result (lua_toboolean L 1) (\<lambda>b.
     bind_result (lua_type L 1) (\<lambda>t.
       if \<not> b then results 1 L
       else
         bind_result
           (if t = 1 then
              bind_result (lua_createtable m L 0 0) (\<lambda>L.
              bind_result (lua_pushvalue L (- 1)) (\<lambda>L.
              bind_result (lua_pushboolean L 1) (\<lambda>L. lua_rawset L (lua_upvalueindex 1))))
            else
              bind_result (lua_getmetatable L 1) (\<lambda>(found, L).
              bind_result
                (if found then
                   bind_result (lua_rawget L (lua_upvalueindex 1)) (\<lambda>L.
                   bind_result (lua_toboolean L (- 1)) (\<lambda>valid.
                   bind_result (lua_pop L 1) (\<lambda>L. Inr (valid, L))))
                 else Inr (False, L)) (\<lambda>(valid, L).
              if \<not> valid then luaL_argerror C L 1 ''boolean or proxy expected''
              else bind_result (lua_getmetatable L 1) (\<lambda>(_, L). Inr L)))) (\<lambda>L.
         bind_result (lua_setmetatable barrierf L 2) (results 1))))))"

end
