(* ===== verification/Lbaselib_spec.thy ===== *)
theory Lbaselib_spec
  imports Lbaselib Ltablib_frame
begin

text \<open>
  Properties of the basic library: what \<open>unpack\<close> returns, its test for too many results included, and the protection of
  metatables.
\<close>

section \<open>unpack\<close>

lemma getnum_int:
  assumes "wf_table t" "int_range i"
  obtains p where "luaH_getnum t i = Inr p" "slot_val t p = at (tget t) i"
proof -
  have eq: "luaH_get t (TNumber (cast_num i)) = luaH_getnum t i" using assms(2) by (simp add: Let_def)
  show thesis using luaH_get_correct [OF assms(1), of "TNumber (cast_num i)"] that by (auto simp: eq at_def simp del: luaH_get.simps)
qed

text \<open>The number of elements, cast to \<open>int\<close>, is positive exactly when it did not overflow.\<close>

lemma cast_int_overflow:
  assumes "int_range i" "int_range e" "i \<le> e" "\<not> e - i + 1 < 2 ^ 31"
  shows "cast_int (e - i + 1) \<le> 0"
proof -
  define k where "k = e - i + 1"
  have k: "2 ^ 31 \<le> k" "k \<le> 2 ^ 32" using assms by (auto simp: k_def INT_MIN_def INT_MAX_def)
  have "(k + 2 ^ 31) mod 2 ^ 32 = k + 2 ^ 31 - 2 ^ 32"
    using k by (subst minus_mod_self2 [symmetric], subst mod_pos_pos_trivial) auto
  then have "signed_take_bit 31 k \<le> 0"
    using k unfolding signed_take_bit_eq_take_bit_shift take_bit_eq_mod by simp
  then show ?thesis unfolding k_def [symmetric] cast_int_def by (simp add: signed_of_int)
qed

lemma rawgeti_push:
  assumes "stk L = TTable p # vs" "l_heap L p = Some t" "wf_table t" "int_range i" "length (stk L) < slots L"
  shows "lua_rawgeti L 1 i = Inr (L\<lparr>stk := stk L @ [at (tget t) i]\<rparr>)"
proof -
  obtain s where "luaH_getnum t i = Inr s" "slot_val t s = at (tget t) i" using getnum_int [OF assms(3,4)] by blast
  moreover have "index_value L 1 = Inr (TTable p)" using assms(1) by (simp add: index_value_def index2adr_def value_at_def)
  ultimately show ?thesis using assms by (simp add: lua_rawgeti_def hvalue_def push_def)
qed

lemma unpack_loop_ok:
  assumes "i \<le> e" "int_range i" "int_range e" "l_heap L p = Some t" "wf_table t"
  shows "stk L = TTable p # vs \<Longrightarrow> length (stk L) + nat (e - i) \<le> slots L \<Longrightarrow>
    unpack_loop L i e = Inr (L\<lparr>stk := stk L @ map (at (tget t)) [i + 1..e]\<rparr>)"
  using assms
proof (induction "nat (e - i)" arbitrary: i L vs)
  case 0
  then show ?case by (subst unpack_loop.simps) simp
next
  case (Suc n)
  then have lt: "i < e" by simp
  have r: "int_range (i + 1)" using Suc.prems lt by (auto simp: INT_MIN_def INT_MAX_def)
  let ?L = "L\<lparr>stk := stk L @ [at (tget t) (i + 1)]\<rparr>"
  have "lua_rawgeti L 1 (i + 1) = Inr ?L" by (rule rawgeti_push) (use Suc.prems r lt in auto)
  moreover have "unpack_loop ?L (i + 1) e = Inr (?L\<lparr>stk := stk ?L @ map (at (tget t)) [i + 1 + 1..e]\<rparr>)"
    by (rule Suc.hyps(1) [of _ _ "vs @ [at (tget t) (i + 1)]"]) (use Suc r lt in auto)
  moreover have "[i + 1..e] = (i + 1) # [i + 1 + 1..e]" using lt by (simp add: upto_rec1)
  ultimately show ?case using lt by (subst unpack_loop.simps) simp
qed

text \<open>
  Claim C23. \<open>unpack(t, i, e)\<close> returns \<open>t[i], ..., t[e]\<close>, nothing when \<open>i > e\<close>, and raises an error exactly when there
  are more elements than the C stack takes: the test also catches the counts that do not fit an \<open>int\<close>, up to those of
  \<open>i = -2^31\<close> and \<open>e = 2^31 - 1\<close>.
\<close>

theorem unpack_correct:
  "stk L = [TTable p, TInt i, TInt e] \<and> l_heap L p = Some t \<and> wf_table t \<and> int_range i \<and> int_range e \<longrightarrow>
   (if i > e then luaB_unpack C L = Inr ([], L)
    else if e - i + 1 > LUAI_MAXCSTACK - 3 then luaB_unpack C L = luaL_error C L ''too many results to unpack'' []
    else \<exists>L'. luaB_unpack C L = Inr (map (\<lambda>k. at (tget t) k) [i..e], L') \<and> l_heap L' = l_heap L)"
proof
  assume a: "stk L = [TTable p, TInt i, TInt e] \<and> l_heap L p = Some t \<and> wf_table t \<and> int_range i \<and> int_range e"
  then have st: "stk L = [TTable p, TInt i, TInt e]" and t: "l_heap L p = Some t" "wf_table t" and r: "int_range i" "int_range e"
    by simp_all
  have "luaL_checkint C L 2 = Inr i" "luaL_checkint C L 3 = Inr e"
    using arg_int [of 2 L i C] arg_int [of 3 L e C] st r by simp_all
  moreover have "lua_type L 1 = Inr 5" "lua_type L 2 = Inr 3" "lua_type L 3 = Inr 3"
    using st by (simp_all add: lua_type_def index2adr_def value_at_def)
  moreover have "luaL_optint C L 2 1 = Inr i"
    using calculation(1,4) by (auto simp: luaL_optint_def luaL_optinteger_def luaL_opt_def lua_isnoneornil_def luaL_checkint_def)
  ultimately have u: "luaB_unpack C L = (if i > e then results 0 L
       else let n = cast_int (e - i + 1) in
         if n \<le> 0 then luaL_error C L ''too many results to unpack'' []
         else case lua_checkstack L n of (ok, L) \<Rightarrow>
           if \<not> ok then luaL_error C L ''too many results to unpack'' []
           else bind_result (lua_rawgeti L 1 i) (\<lambda>L. bind_result (unpack_loop L i e) (results (nat n))))"
    by (simp add: luaB_unpack_def luaL_checktype_def lua_isnoneornil_def)
  consider "i > e" | "i \<le> e" "\<not> e - i + 1 < 2 ^ 31" | "i \<le> e" "e - i + 1 < 2 ^ 31" "e - i + 1 > LUAI_MAXCSTACK - 3"
    | "i \<le> e" "e - i + 1 \<le> LUAI_MAXCSTACK - 3" by linarith
  then show "if i > e then luaB_unpack C L = Inr ([], L)
    else if e - i + 1 > LUAI_MAXCSTACK - 3 then luaB_unpack C L = luaL_error C L ''too many results to unpack'' []
    else \<exists>L'. luaB_unpack C L = Inr (map (\<lambda>k. at (tget t) k) [i..e], L') \<and> l_heap L' = l_heap L"
  proof cases
    case 1
    then show ?thesis using u by (simp add: results_def)
  next
    case 2
    then show ?thesis using u cast_int_overflow [OF r 2] by (simp add: LUAI_MAXCSTACK_def)
  next
    case 3
    then have "cast_int (e - i + 1) = e - i + 1" by (intro cast_int_id) (simp add: INT_MIN_def INT_MAX_def)
    then show ?thesis using u 3 st by (simp add: lua_checkstack_def)
  next
    case 4
    then have n: "cast_int (e - i + 1) = e - i + 1" by (intro cast_int_id) (simp add: INT_MIN_def INT_MAX_def LUAI_MAXCSTACK_def)
    define L1 where "L1 = L\<lparr>slots := max (slots L) (length (stk L) + nat (e - i + 1))\<rparr>"
    have l1: "stk L1 = [TTable p, TInt i, TInt e]" "l_heap L1 = l_heap L" "3 + nat (e - i + 1) \<le> slots L1"
      using st by (simp_all add: L1_def)
    let ?L2 = "L1\<lparr>stk := stk L1 @ [at (tget t) i]\<rparr>"
    have "lua_rawgeti L1 1 i = Inr ?L2" by (rule rawgeti_push) (use l1 t r 4(1) in auto)
    moreover have "unpack_loop ?L2 i e = Inr (?L2\<lparr>stk := stk ?L2 @ map (at (tget t)) [i + 1..e]\<rparr>)"
      by (rule unpack_loop_ok [of _ _ _ p _ "[TInt i, TInt e, at (tget t) i]"]) (use l1 t r 4(1) in auto)
    moreover have "[i..e] = i # [i + 1..e]" using 4(1) by (simp add: upto_rec1)
    moreover have "lua_checkstack L (e - i + 1) = (True, L1)" using 4 st by (simp add: lua_checkstack_def L1_def)
    moreover have "nat (e - i + 1) = Suc (length [i + 1..e])" using 4(1) by simp
    ultimately show ?thesis using u n 4 l1 by (simp add: results_def)
  qed
qed
theorem unpack_correct_witness:
  "\<exists>L'. luaB_unpack sample_clib (array_state [TBoolean True, TStr ''y'', TStr ''z''] [TInt 2, TInt 4]) = Inr ([TStr ''y'', TStr ''z'', TNil], L')"
proof -
  let ?vs = "[TBoolean True, TStr ''y'', TStr ''z'']"
  let ?L = "array_state ?vs [TInt 2, TInt 4]"
  have len: "length ?vs \<le> MAXASIZE" by (simp add: MAXASIZE_def MAXBITS_def)
  have "at (tget (array_table ?vs)) 2 = TStr ''y''" "at (tget (array_table ?vs)) 3 = TStr ''z''"
    using array_table_at [OF len, of 2] array_table_at [OF len, of 3] by simp_all
  moreover have "at (tget (array_table ?vs)) 4 = TNil"
    using fresh_nodes_wf(3) [of "array_table ?vs" "TNumber (cast_num 4)"] len
    by (simp add: at_def array_table_def fresh_nodes_def sizenode_def arrayindex_int INT_MIN_def INT_MAX_def del: arrayindex.simps)
  moreover have "[2..4 :: int] = [2, 3, 4]" by (simp add: upto_rec1)
  moreover have "stk ?L = [TTable 1, TInt 2, TInt 4] \<and> l_heap ?L 1 = Some (array_table ?vs) \<and> wf_table (array_table ?vs) \<and> int_range 2 \<and> int_range 4"
    using array_table_wf [OF len] by (simp add: array_state_def INT_MIN_def INT_MAX_def)
  ultimately show ?thesis using unpack_correct [of ?L 1 2 4 "array_table ?vs" sample_clib] by (auto simp: LUAI_MAXCSTACK_def)
qed

section \<open>Protected metatables\<close>

text \<open>The metafield of the table in the first slot, pushed when there is one.\<close>

lemma getmetafield_table:
  assumes "stk L = TTable p # vs" "l_heap L p = Some t" "metatable t = Some q" "l_heap L q = Some mt" "wf_table mt"
    "length (stk L) + 2 \<le> slots L" "length (stk L) < 5000" "c_str event = event"
  shows "luaL_getmetafield L 1 event =
    Inr (if tget mt (TStr event) = TNil then (False, L) else (True, L\<lparr>stk := stk L @ [tget mt (TStr event)]\<rparr>))"
proof -
  let ?x = "tget mt (TStr event)" and ?k = "length vs"
  obtain s where s: "luaH_get mt (TStr event) = Inr s" "slot_val mt s = ?x"
    using luaH_get_correct [OF assms(5), of "TStr event"] by blast
  have mt: "lua_getmetatable L 1 = Inr (True, L\<lparr>stk := TTable p # vs @ [TTable q]\<rparr>)"
    using assms by (simp add: lua_getmetatable_def index_value_def index2adr_def value_at_def hvalue_def push_def)
  let ?L2 = "L\<lparr>stk := TTable p # vs @ [TTable q, TStr event]\<rparr>"
  have str: "lua_pushstring (L\<lparr>stk := TTable p # vs @ [TTable q]\<rparr>) (Some event) = Inr ?L2"
    using assms by (simp add: lua_pushstring_def lua_pushlstring_def push_def)
  have i2: "index2adr M (- 2) = Inr (Slot (Suc ?k))" if "stk M = TTable p # vs @ [TTable q, y]" for M y
    using that assms(7) by (simp add: index2adr_def LUA_REGISTRYINDEX_def nat_add_distrib)
  have "lua_rawget ?L2 (- 2) = Inr (?L2\<lparr>stk := TTable p # vs @ [TTable q, ?x]\<rparr>)"
    using i2 [of ?L2] s assms(4) by (simp add: lua_rawget_def index_value_def value_at_def hvalue_def stack_top_def nth_append butlast_append)
  moreover have "lua_isnil (L\<lparr>stk := TTable p # vs @ [TTable q, ?x]\<rparr>) (- 1) = Inr (?x = TNil)"
    by (cases ?x) (simp_all add: lua_isnil_def lua_type_def index2adr_def LUA_REGISTRYINDEX_def nat_add_distrib value_at_def nth_append)
  moreover have "lua_pop (L\<lparr>stk := TTable p # vs @ [TTable q, y]\<rparr>) 2 = Inr L" for y
    by (simp add: lua_pop_def lua_settop_def pop_def assms(1) [symmetric])
  moreover have "lua_remove (L\<lparr>stk := TTable p # vs @ [TTable q, ?x]\<rparr>) (- 2) = Inr (L\<lparr>stk := TTable p # vs @ [?x]\<rparr>)"
    using lua_remove_spec [OF i2 [of "L\<lparr>stk := TTable p # vs @ [TTable q, ?x]\<rparr>" ?x]] by simp
  ultimately show ?thesis using mt str assms(1) by (simp add: luaL_getmetafield_def)
qed
text \<open>\<open>locked\<close>: the value of the field \<open>__metatable\<close> of a metatable, nil without one.\<close>

definition locked :: "lua_State \<Rightarrow> Table \<Rightarrow> TValue" where
  "locked L t = (case metatable t of None \<Rightarrow> TNil | Some q \<Rightarrow> (case l_heap L q of None \<Rightarrow> TNil | Some mt \<Rightarrow> tget mt (TStr ''__metatable'')))"

definition metatable_ok :: "lua_State \<Rightarrow> addr option \<Rightarrow> bool" where
  "metatable_ok L m \<longleftrightarrow> (case m of None \<Rightarrow> True | Some q \<Rightarrow> \<exists>mt. l_heap L q = Some mt \<and> wf_table mt)"

lemma getmetafield_locked:
  assumes "stk L = TTable p # vs" "l_heap L p = Some t" "metatable_ok L (metatable t)" "length (stk L) + 2 \<le> slots L" "length (stk L) < 5000"
  shows "luaL_getmetafield L 1 ''__metatable'' = Inr (if locked L t = TNil then (False, L) else (True, L\<lparr>stk := stk L @ [locked L t]\<rparr>))"
proof (cases "metatable t")
  case None
  then have "lua_getmetatable L 1 = Inr (False, L)"
    using assms by (simp add: lua_getmetatable_def index_value_def index2adr_def value_at_def hvalue_def)
  then show ?thesis using None by (simp add: luaL_getmetafield_def locked_def)
next
  case (Some q)
  then obtain mt where "l_heap L q = Some mt" "wf_table mt" using assms(3) by (auto simp: metatable_ok_def)
  moreover have "c_str ''__metatable'' = ''__metatable''" by (simp add: c_str_def)
  ultimately show ?thesis using getmetafield_table [OF assms(1,2) Some _ _ assms(4,5)] Some by (simp add: locked_def)
qed

definition meta_value :: "addr option \<Rightarrow> TValue" where
  "meta_value m = (case m of None \<Rightarrow> TNil | Some q \<Rightarrow> TTable q)"

text \<open>
  Claim C24. A metatable with a field \<open>__metatable\<close> is protected: \<open>setmetatable\<close> raises an error, whatever the new metatable,
  and \<open>getmetatable\<close> returns the field instead of the metatable. Without the field \<open>setmetatable\<close> gives the table
  the new metatable, touching nothing else of it and no other table, and \<open>getmetatable\<close> returns the metatable or nil.
\<close>

theorem metatable_protection:
  "stk L = [TTable p, meta_value m] \<and> l_heap L p = Some t \<and> metatable_ok L (metatable t) \<and> 5 \<le> slots L \<longrightarrow>
   (if locked L t \<noteq> TNil then
      luaB_setmetatable b C L = luaL_error C L ''cannot change a protected metatable'' [] \<and>
      (\<exists>L'. luaB_getmetatable C (L\<lparr>stk := [TTable p]\<rparr>) = Inr ([locked L t], L') \<and> l_heap L' = l_heap L)
    else
      (\<exists>L'. luaB_setmetatable b C L = Inr ([TTable p], L') \<and> l_heap L' = (l_heap L)(p \<mapsto> t\<lparr>metatable := m\<rparr>)) \<and>
      (\<exists>L'. luaB_getmetatable C (L\<lparr>stk := [TTable p]\<rparr>) = Inr ([meta_value (metatable t)], L') \<and> l_heap L' = l_heap L))"
proof
  assume a: "stk L = [TTable p, meta_value m] \<and> l_heap L p = Some t \<and> metatable_ok L (metatable t) \<and> 5 \<le> slots L"
  then have st: "stk L = [TTable p, meta_value m]" and t: "l_heap L p = Some t" "metatable_ok L (metatable t)" and sl: "5 \<le> slots L"
    by simp_all
  let ?e = "luaL_error C L ''cannot change a protected metatable'' []"
  have ty: "lua_type L 1 = Inr 5" "lua_type L 2 = Inr (case m of None \<Rightarrow> 0 | Some _ \<Rightarrow> 5)"
    using st by (auto simp: lua_type_def index2adr_def value_at_def meta_value_def split: option.splits)
  have gf: "luaL_getmetafield L 1 ''__metatable'' = Inr (if locked L t = TNil then (False, L) else (True, L\<lparr>stk := stk L @ [locked L t]\<rparr>))"
    using getmetafield_locked [of L p "[meta_value m]" t] st t sl by simp
  have err: "luaL_error C (L\<lparr>stk := s\<rparr>) ''cannot change a protected metatable'' [] = (?e :: lib_result)" for s
    by (simp add: luaL_error_def luaL_where_def)
  have "lua_settop L 2 = Inr (L\<lparr>stk := stk L\<rparr>)" using st sl by (simp add: lua_settop_def)
  then have top: "lua_settop L 2 = Inr L" by simp
  have set: "luaB_setmetatable b C L = (if locked L t \<noteq> TNil then ?e
      else bind_result (lua_setmetatable b L 1) (results 1))"
    using ty gf err top by (cases m) (simp_all add: luaB_setmetatable_def luaL_checktype_def)
  let ?M = "L\<lparr>stk := [TTable p]\<rparr>"
  have ty1: "lua_type ?M 1 = Inr 5" by (simp add: lua_type_def index2adr_def value_at_def)
  have get: "\<exists>L'. luaB_getmetatable C ?M = Inr ([if locked L t = TNil then meta_value (metatable t) else locked L t], L') \<and> l_heap L' = l_heap L"
  proof (cases "metatable t")
    case None
    then have "lua_getmetatable ?M 1 = Inr (False, ?M)"
      using t by (simp add: lua_getmetatable_def index_value_def index2adr_def value_at_def hvalue_def)
    then show ?thesis using None sl ty1
      by (simp add: luaB_getmetatable_def luaL_checkany_def LUA_TNONE_def lua_pushnil_def push_def results_def locked_def meta_value_def)
  next
    case (Some q)
    let ?N = "L\<lparr>stk := [TTable p, TTable q]\<rparr>"
    have "lua_getmetatable ?M 1 = Inr (True, ?N)"
      using t Some sl by (simp add: lua_getmetatable_def index_value_def index2adr_def value_at_def hvalue_def push_def)
    moreover have "luaL_getmetafield ?N 1 ''__metatable'' =
        Inr (if locked L t = TNil then (False, ?N) else (True, ?N\<lparr>stk := [TTable p, TTable q, locked L t]\<rparr>))"
      using getmetafield_locked [of ?N p "[TTable q]" t] t sl by (simp add: locked_def metatable_ok_def split: option.splits)
    ultimately show ?thesis using ty1 Some
      by (simp add: luaB_getmetatable_def luaL_checkany_def LUA_TNONE_def results_def meta_value_def)
  qed
  have "\<exists>L'. bind_result (lua_setmetatable b L 1) (results 1) = Inr ([TTable p], L') \<and> l_heap L' = (l_heap L)(p \<mapsto> t\<lparr>metatable := m\<rparr>)"
    using st t(1) by (cases m) (simp_all add: lua_setmetatable_def stack_top_def index_value_def index2adr_def value_at_def meta_value_def
        table_at_def set_table_at_def pop_def results_def)
  then show "if locked L t \<noteq> TNil then
      luaB_setmetatable b C L = luaL_error C L ''cannot change a protected metatable'' [] \<and>
      (\<exists>L'. luaB_getmetatable C (L\<lparr>stk := [TTable p]\<rparr>) = Inr ([locked L t], L') \<and> l_heap L' = l_heap L)
    else
      (\<exists>L'. luaB_setmetatable b C L = Inr ([TTable p], L') \<and> l_heap L' = (l_heap L)(p \<mapsto> t\<lparr>metatable := m\<rparr>)) \<and>
      (\<exists>L'. luaB_getmetatable C (L\<lparr>stk := [TTable p]\<rparr>) = Inr ([meta_value (metatable t)], L') \<and> l_heap L' = l_heap L)"
    using get set by (cases "locked L t = TNil") simp_all
qed
text \<open>An empty table whose metatable has \<open>__metatable = false\<close>.\<close>

definition lock_table :: Table where
  "lock_table = \<lparr>t_self = 32, flags = 0, lsizenode = 0, metatable = None, array = [], isdummy = False,
     node = [\<lparr>i_val = TBoolean False, i_key = Key (TStr ''__metatable''), nk_next = None\<rparr>], lastfree = 0, sizearray = 0\<rparr>"

lemma lock_table_wf: "wf_table lock_table"
proof -
  have mp: "mainposition lock_table k = 0" for k
    using mainposition_less [of lock_table k] by (simp add: lock_table_def sizenode_def)
  have path: "\<exists>xs. path (\<lambda>i. nk_next (node lock_table ! i)) 0 xs \<and> 0 \<in> set xs"
    by (rule exI [of _ "[0]"]) (simp add: lock_table_def)
  then have "\<exists>xs. path (\<lambda>i. nk_next (node lock_table ! i)) 0 xs" by blast
  with path have "wf_nodes lock_table"
    unfolding wf_nodes_def wf_h_def next_ok_def next_inj_def paths_end_def free_ok_def dead_ok_def keys_valid_def
      keys_reach_def main_ok_def keys_uniq_def mp
    by (simp add: valid_key_def) (simp add: lock_table_def valid_key_def)
  then show ?thesis
    by (simp add: wf_table_def wf0_def wf_sizes_def wf_lastfree_def no_array_keys_def)
      (simp add: lock_table_def sizenode_def MAXASIZE_def MAXBITS_def)
qed

definition lock_state :: lua_State where
  "lock_state = \<lparr>l_heap = [1 \<mapsto> (array_table [TBoolean True])\<lparr>metatable := Some 2\<rparr>, 2 \<mapsto> lock_table, 3 \<mapsto> array_table []],
     l_mt = (\<lambda>_. None), l_udata = (\<lambda>_. None), l_registry = TNil, l_gc = \<lparr>marked = (\<lambda>_. 1), grayagain = []\<rparr>,
     stk = [TTable 1, TTable 3], slots = 20, l_func = None, l_gt = TNil, l_name = None, l_where = None\<rparr>"

theorem metatable_protection_witness:
  "luaB_setmetatable (\<lambda>_ _ L. L) sample_clib lock_state = Inl (RunError ''cannot change a protected metatable'') \<and>
   (\<exists>L'. luaB_getmetatable sample_clib (lock_state\<lparr>stk := [TTable 1]\<rparr>) = Inr ([TBoolean False], L'))"
proof -
  let ?t = "(array_table [TBoolean True])\<lparr>metatable := Some 2\<rparr>"
  have "tget lock_table (TStr ''__metatable'') = TBoolean False" by (simp add: tget_def lock_table_def key_raw_eq_def)
  then have l: "locked lock_state ?t = TBoolean False" by (simp add: locked_def lock_state_def)
  have "stk lock_state = [TTable 1, meta_value (Some 3)] \<and> l_heap lock_state 1 = Some ?t \<and> metatable_ok lock_state (metatable ?t) \<and> 5 \<le> slots lock_state"
    using lock_table_wf by (simp add: lock_state_def meta_value_def metatable_ok_def)
  moreover have "luaL_error sample_clib lock_state ''cannot change a protected metatable'' [] = Inl (RunError ''cannot change a protected metatable'')"
    by (simp add: luaL_error_def luaL_where_def lock_state_def)
  ultimately show ?thesis
    using metatable_protection [of lock_state 1 "Some 3" ?t "\<lambda>_ _ L. L" sample_clib] l by auto
qed

end
